(* ===== verification/Prelude.thy ===== *)
theory Prelude
  imports Main "HOL-Library.Word" "HOL-Library.Char_ord" "HOL-Library.List_Lexorder" "HOL-Library.Sublist"
begin

text \<open>
  Shared vocabulary of the development: Rust's \<open>Result\<close> and \<open>Option\<close> as sums and options
  with their sequencing, strings as UTF-8 bytes, splitting and prefix stripping, the ordered map
  \<open>BTreeMap\<close> as an association list kept in key order, and the generic lemmas about them that
  the component theories use.
\<close>

named_theorems result_simps \<open>inversion rules for results of fallible operations\<close>

subsection \<open>Results\<close>

type_synonym byte = "8 word"
type_synonym u16 = "16 word"
type_synonym u32 = "32 word"
type_synonym u64 = "64 word"

text \<open>Rust's \<open>?\<close> operator: stop at the first error, otherwise continue with the value.\<close>

definition and_then :: "'e + 'a \<Rightarrow> ('a \<Rightarrow> 'e + 'b) \<Rightarrow> 'e + 'b" where
  "and_then r f = (case r of Inl e \<Rightarrow> Inl e | Inr v \<Rightarrow> f v)"

definition ok_or :: "'e \<Rightarrow> 'a option \<Rightarrow> 'e + 'a" where
  "ok_or e x = (case x of None \<Rightarrow> Inl e | Some v \<Rightarrow> Inr v)"

text \<open>An early return guarded by a condition: \<open>if bad { return Err(e) }\<close>.\<close>

definition fail_if :: "bool \<Rightarrow> 'e \<Rightarrow> 'e + unit" where
  "fail_if bad e = (if bad then Inl e else Inr ())"

lemma and_then_simps [simp]:
  "and_then (Inl e) f = Inl e"
  "and_then (Inr v) f = f v"
  by (simp_all add: and_then_def)

lemma ok_or_simps [simp]:
  "ok_or e None = Inl e"
  "ok_or e (Some v) = Inr v"
  by (simp_all add: ok_or_def)

lemma fail_if_simps [simp]:
  "fail_if True e = Inl e"
  "fail_if False e = Inr ()"
  by (simp_all add: fail_if_def)

lemma and_then_Inr [result_simps]:
  "and_then r f = Inr y \<longleftrightarrow> (\<exists>x. r = Inr x \<and> f x = Inr y)"
  by (cases r) auto

lemma and_then_Inl [result_simps]:
  "and_then r f = Inl e \<longleftrightarrow> r = Inl e \<or> (\<exists>x. r = Inr x \<and> f x = Inl e)"
  by (cases r) auto

lemma ok_or_Inr [result_simps]: "ok_or e x = Inr y \<longleftrightarrow> x = Some y"
  by (cases x) auto

lemma ok_or_Inl [result_simps]: "ok_or e x = Inl d \<longleftrightarrow> x = None \<and> d = e"
  by (cases x) auto

lemma fail_if_Inr [result_simps]: "fail_if b e = Inr u \<longleftrightarrow> \<not> b"
  by (cases b) auto

lemma fail_if_Inl [result_simps]: "fail_if b e = Inl d \<longleftrightarrow> b \<and> d = e"
  by (cases b) auto

lemma and_then_cong [fundef_cong]:
  assumes "r = r'" and "\<And>x. r' = Inr x \<Longrightarrow> f x = g x"
  shows "and_then r f = and_then r' g"
  using assms by (cases r') auto

lemma and_then_assoc: "and_then (and_then r f) g = and_then r (\<lambda>x. and_then (f x) g)"
  by (cases r) simp_all

definition is_ok :: "'e + 'a \<Rightarrow> bool" where
  "is_ok r = (case r of Inl _ \<Rightarrow> False | Inr _ \<Rightarrow> True)"

lemma is_ok_simps [simp]: "\<not> is_ok (Inl e)" "is_ok (Inr v)"
  by (simp_all add: is_ok_def)

lemma is_ok_iff: "is_ok r \<longleftrightarrow> (\<exists>v. r = Inr v)"
  by (cases r) auto

text \<open>Rust's \<open>Option::is_some_and\<close> and \<open>is_none_or\<close>.\<close>

definition is_some_and :: "('a \<Rightarrow> bool) \<Rightarrow> 'a option \<Rightarrow> bool" where
  "is_some_and p x = (case x of None \<Rightarrow> False | Some v \<Rightarrow> p v)"

definition unwrap_or :: "'a \<Rightarrow> 'a option \<Rightarrow> 'a" where
  "unwrap_or d x = (case x of None \<Rightarrow> d | Some v \<Rightarrow> v)"

lemma is_some_and_simps [simp]:
  "\<not> is_some_and p None" "is_some_and p (Some v) = p v"
  by (simp_all add: is_some_and_def)

lemma unwrap_or_simps [simp]: "unwrap_or d None = d" "unwrap_or d (Some v) = v"
  by (simp_all add: unwrap_or_def)

text \<open>Mapping a fallible operation over a list, left to right, stopping at the first error
  (\<open>collect::<Result<Vec<_>, _>>()\<close>).\<close>

fun collect_results :: "('a \<Rightarrow> 'e + 'b) \<Rightarrow> 'a list \<Rightarrow> 'e + 'b list" where
  "collect_results f [] = Inr []"
| "collect_results f (x # xs) =
     and_then (f x) (\<lambda>y. and_then (collect_results f xs) (\<lambda>ys. Inr (y # ys)))"

lemma collect_results_Inr:
  "collect_results f xs = Inr ys \<longleftrightarrow> list_all2 (\<lambda>x y. f x = Inr y) xs ys"
proof (induction xs arbitrary: ys)
  case Nil
  then show ?case by auto
next
  case (Cons x xs)
  then show ?case by (cases ys) (auto simp: result_simps)
qed

subsection \<open>Strings as UTF-8 bytes\<close>

text \<open>
  A Rust \<open>String\<close> is a sequence of UTF-8 bytes and its \<open>len\<close> counts bytes, so the model's
  strings are lists of 8-bit characters and \<open>length\<close> is \<open>len\<close>.
\<close>

definition is_ascii_digit :: "char \<Rightarrow> bool" where
  "is_ascii_digit c \<longleftrightarrow> CHR ''0'' \<le> c \<and> c \<le> CHR ''9''"

definition is_ascii_lowercase :: "char \<Rightarrow> bool" where
  "is_ascii_lowercase c \<longleftrightarrow> CHR ''a'' \<le> c \<and> c \<le> CHR ''z''"

definition is_ascii_uppercase :: "char \<Rightarrow> bool" where
  "is_ascii_uppercase c \<longleftrightarrow> CHR ''A'' \<le> c \<and> c \<le> CHR ''Z''"

definition is_ascii_alphanumeric :: "char \<Rightarrow> bool" where
  "is_ascii_alphanumeric c \<longleftrightarrow> is_ascii_digit c \<or> is_ascii_lowercase c \<or> is_ascii_uppercase c"

definition is_ascii_hexdigit :: "char \<Rightarrow> bool" where
  "is_ascii_hexdigit c \<longleftrightarrow> is_ascii_digit c \<or> (CHR ''a'' \<le> c \<and> c \<le> CHR ''f'')
     \<or> (CHR ''A'' \<le> c \<and> c \<le> CHR ''F'')"

definition is_lower_hexdigit :: "char \<Rightarrow> bool" where
  "is_lower_hexdigit c \<longleftrightarrow> is_ascii_digit c \<or> (CHR ''a'' \<le> c \<and> c \<le> CHR ''f'')"

definition to_ascii_lower :: "char \<Rightarrow> char" where
  "to_ascii_lower c = (if is_ascii_uppercase c then char_of (of_char c + (32::nat)) else c)"

definition to_ascii_lowercase :: "string \<Rightarrow> string" where
  "to_ascii_lowercase s = map to_ascii_lower s"

text \<open>
  \<open>s.chars().any(char::is_control)\<close> on the UTF-8 bytes of \<open>s\<close>: the control characters are
  U+0000 to U+001F and U+007F (one byte each) and U+0080 to U+009F (the byte \<open>C2\<close> followed by
  \<open>80\<close> to \<open>9F\<close>).
\<close>

fun has_control :: "string \<Rightarrow> bool" where
  "has_control [] = False"
| "has_control [c] = (of_char c < (32::nat) \<or> of_char c = (127::nat))"
| "has_control (c # d # s) =
     (of_char c < (32::nat) \<or> of_char c = (127::nat)
      \<or> (of_char c = (194::nat) \<and> 128 \<le> (of_char d::nat) \<and> of_char d \<le> (159::nat))
      \<or> has_control (d # s))"

lemma length_to_ascii_lowercase [simp]: "length (to_ascii_lowercase s) = length s"
  by (simp add: to_ascii_lowercase_def)

subsection \<open>Splitting and joining\<close>

fun split_on :: "'a \<Rightarrow> 'a list \<Rightarrow> 'a list list" where
  "split_on d [] = [[]]"
| "split_on d (c # cs) =
     (if c = d then [] # split_on d cs
      else (case split_on d cs of [] \<Rightarrow> [[c]] | p # ps \<Rightarrow> (c # p) # ps))"

fun join_on :: "'a list \<Rightarrow> 'a list list \<Rightarrow> 'a list" where
  "join_on sep [] = []"
| "join_on sep [p] = p"
| "join_on sep (p # q # ps) = p @ sep @ join_on sep (q # ps)"

lemma split_on_not_Nil [simp]: "split_on d s \<noteq> []"
  by (induction s) (auto split: list.splits)

lemma split_on_free: "d \<notin> set s \<Longrightarrow> split_on d s = [s]"
  by (induction s) auto

lemma split_on_parts_free: "p \<in> set (split_on d s) \<Longrightarrow> d \<notin> set p"
proof (induction s arbitrary: p)
  case Nil
  then show ?case by simp
next
  case (Cons c cs)
  then show ?case by (auto split: if_splits list.splits)
qed

lemma split_on_append:
  "split_on d (s @ d # t) = split_on d s @ split_on d t"
proof (induction s)
  case Nil
  then show ?case by simp
next
  case (Cons c cs)
  then show ?case by (cases "split_on d cs") auto
qed

lemma join_split [simp]: "join_on [d] (split_on d s) = s"
proof (induction s)
  case Nil
  then show ?case by simp
next
  case (Cons c cs)
  then show ?case
  proof (cases "split_on d cs")
    case Nil
    then show ?thesis by simp
  next
    case (Cons p ps)
    with Cons.IH show ?thesis by (cases ps) (auto simp: Cons)
  qed
qed

lemma split_join:
  "ps \<noteq> [] \<Longrightarrow> (\<forall>p \<in> set ps. d \<notin> set p) \<Longrightarrow> split_on d (join_on [d] ps) = ps"
proof (induction "[d]" ps rule: join_on.induct)
  case (3 p q ps)
  have "split_on d (p @ d # join_on [d] (q # ps)) = split_on d p @ (q # ps)"
    using 3 by (simp add: split_on_append)
  with 3 show ?case by (simp add: split_on_free)
qed (simp_all add: split_on_free)

lemma split_on_inj: "split_on d s = split_on d t \<Longrightarrow> s = t"
  by (metis join_split)

lemma set_split_on_subset: "p \<in> set (split_on d s) \<Longrightarrow> set p \<subseteq> set s"
proof (induction s arbitrary: p)
  case Nil
  then show ?case by simp
next
  case (Cons c cs)
  then show ?case by (fastforce split: if_splits list.splits)
qed

definition strip_prefix :: "'a list \<Rightarrow> 'a list \<Rightarrow> 'a list option" where
  "strip_prefix p s = (if take (length p) s = p then Some (drop (length p) s) else None)"

definition strip_suffix :: "'a list \<Rightarrow> 'a list \<Rightarrow> 'a list option" where
  "strip_suffix p s =
     (if length p \<le> length s \<and> drop (length s - length p) s = p
      then Some (take (length s - length p) s) else None)"

definition starts_with :: "'a list \<Rightarrow> 'a list \<Rightarrow> bool" where
  "starts_with s p \<longleftrightarrow> take (length p) s = p"

definition ends_with :: "'a list \<Rightarrow> 'a list \<Rightarrow> bool" where
  "ends_with s p \<longleftrightarrow> length p \<le> length s \<and> drop (length s - length p) s = p"

fun contains_str :: "'a list \<Rightarrow> 'a list \<Rightarrow> bool" where
  "contains_str [] p = (p = [])"
| "contains_str (c # s) p = (starts_with (c # s) p \<or> contains_str s p)"

lemma strip_prefix_Some: "strip_prefix p s = Some r \<longleftrightarrow> s = p @ r"
  by (auto simp: strip_prefix_def) (metis append_take_drop_id)

lemma strip_prefix_append [simp]: "strip_prefix p (p @ r) = Some r"
  by (simp add: strip_prefix_Some)

lemma strip_suffix_Some: "strip_suffix p s = Some r \<longleftrightarrow> s = r @ p"
  by (auto simp: strip_suffix_def) (metis append_take_drop_id)

lemma strip_suffix_append [simp]: "strip_suffix p (r @ p) = Some r"
  by (simp add: strip_suffix_Some)

lemma starts_with_append [simp]: "starts_with (p @ r) p"
  by (simp add: starts_with_def)

lemma starts_with_iff: "starts_with s p \<longleftrightarrow> (\<exists>r. s = p @ r)"
  unfolding starts_with_def by (metis append_eq_conv_conj append_take_drop_id)

text \<open>\<open>s.split_once(p)\<close>: the text before and after the first occurrence of \<open>p\<close>.\<close>

fun split_once :: "'a list \<Rightarrow> 'a list \<Rightarrow> ('a list \<times> 'a list) option" where
  "split_once p [] = (if p = [] then Some ([], []) else None)"
| "split_once p (c # s) =
     (case strip_prefix p (c # s) of
        Some r \<Rightarrow> Some ([], r)
      | None \<Rightarrow> map_option (\<lambda>(a, b). (c # a, b)) (split_once p s))"

lemma split_once_Some: "split_once p s = Some (a, b) \<Longrightarrow> s = a @ p @ b"
proof (induction p s arbitrary: a b rule: split_once.induct)
  case (2 p c s)
  then show ?case by (auto simp: strip_prefix_Some split: option.splits)
qed (auto split: if_splits)

text \<open>\<open>s.rsplit_once(p)\<close>: the text before and after the last occurrence of \<open>p\<close>.\<close>

definition rsplit_once :: "'a list \<Rightarrow> 'a list \<Rightarrow> ('a list \<times> 'a list) option" where
  "rsplit_once p s = map_option (\<lambda>(a, b). (rev b, rev a)) (split_once (rev p) (rev s))"

lemma rsplit_once_Some: "rsplit_once p s = Some (a, b) \<Longrightarrow> s = a @ p @ b"
proof -
  assume "rsplit_once p s = Some (a, b)"
  then have "split_once (rev p) (rev s) = Some (rev b, rev a)" by (auto simp: rsplit_once_def)
  then have "rev s = rev b @ rev p @ rev a" by (rule split_once_Some)
  then show ?thesis by (metis append_assoc rev_append rev_rev_ident)
qed

text \<open>\<open>trim_start_matches(c)\<close>, \<open>trim_end_matches(c)\<close>, \<open>trim_matches(c)\<close> for a character, and \<open>find_map\<close>.\<close>

definition trim_end_matches :: "'a \<Rightarrow> 'a list \<Rightarrow> 'a list" where
  "trim_end_matches c s = rev (dropWhile (\<lambda>x. x = c) (rev s))"

definition trim_start_matches :: "'a \<Rightarrow> 'a list \<Rightarrow> 'a list" where
  "trim_start_matches c s = dropWhile (\<lambda>x. x = c) s"

definition trim_matches :: "'a \<Rightarrow> 'a list \<Rightarrow> 'a list" where
  "trim_matches c s = trim_start_matches c (trim_end_matches c s)"

fun find_map :: "('a \<Rightarrow> 'b option) \<Rightarrow> 'a list \<Rightarrow> 'b option" where
  "find_map f [] = None"
| "find_map f (x # xs) = (case f x of Some y \<Rightarrow> Some y | None \<Rightarrow> find_map f xs)"

text \<open>\<open>trim_end_matches(p)\<close> for a string\<close>

function trim_end_str :: "'a list \<Rightarrow> 'a list \<Rightarrow> 'a list" where
  "trim_end_str p s =
     (if p \<noteq> [] \<and> ends_with s p then trim_end_str p (take (length s - length p) s) else s)"
  by pat_completeness auto
termination
  by (relation "measure (\<lambda>(p, s). length s)")
    (auto simp: ends_with_def neq_Nil_conv intro!: diff_less)

declare trim_end_str.simps [simp del]

text \<open>Decimal text of a number (\<open>format!("{n}")\<close>).\<close>

fun decimal :: "nat \<Rightarrow> string" where
  "decimal n = (if n < 10 then [char_of (48 + n)] else decimal (n div 10) @ [char_of (48 + n mod 10)])"

declare decimal.simps [simp del]

definition digits_value :: "string \<Rightarrow> nat" where
  "digits_value s = foldl (\<lambda>v c. 10 * v + (of_char c - 48)) 0 s"

lemma digits_value_decimal [simp]: "digits_value (decimal n) = n"
proof (induction n rule: decimal.induct)
  case (1 n)
  then show ?case by (subst decimal.simps) (simp add: digits_value_def)
qed

lemma decimal_inject [simp]: "decimal m = decimal n \<longleftrightarrow> m = n"
  by (metis digits_value_decimal)

lemma decimal_digits: "list_all is_ascii_digit (decimal n)"
proof (induction n rule: decimal.induct)
  case (1 n)
  have "is_ascii_digit (char_of (48 + k))" if "k < 10" for k :: nat
    using that by (simp add: is_ascii_digit_def less_eq_char_def)
  with 1 show ?case by (subst decimal.simps) simp
qed

lemma decimal_not_Nil [simp]: "decimal n \<noteq> []"
  by (subst decimal.simps) simp

subsection \<open>Ordered maps\<close>

text \<open>
  \<open>BTreeMap\<close> iterates in key order; it is an association list strictly ascending in its keys.
  \<open>map_of\<close> is \<open>get\<close>, \<open>map snd\<close> is \<open>into_values\<close>, \<open>length\<close> is \<open>len\<close>.
\<close>

fun bt_insert :: "'k::linorder \<Rightarrow> 'v \<Rightarrow> ('k \<times> 'v) list \<Rightarrow> ('k \<times> 'v) list" where
  "bt_insert k v [] = [(k, v)]"
| "bt_insert k v ((k', v') # m) =
     (if k < k' then (k, v) # (k', v') # m
      else if k = k' then (k, v) # m
      else (k', v') # bt_insert k v m)"

definition bt_ordered :: "('k::linorder \<times> 'v) list \<Rightarrow> bool" where
  "bt_ordered m \<longleftrightarrow> sorted_wrt (<) (map fst m)"

definition bt_of_list :: "('k::linorder \<times> 'v) list \<Rightarrow> ('k \<times> 'v) list" where
  "bt_of_list xs = fold (\<lambda>(k, v) m. bt_insert k v m) xs []"

lemma set_keys_bt_insert [simp]: "fst ` set (bt_insert k v m) = insert k (fst ` set m)"
  by (induction k v m rule: bt_insert.induct) auto

lemma map_of_bt_insert [simp]:
  "bt_ordered m \<Longrightarrow> map_of (bt_insert k v m) = (map_of m)(k \<mapsto> v)"
proof (induction k v m rule: bt_insert.induct)
  case (2 k v k' v' m)
  then show ?case by (auto simp: bt_ordered_def fun_eq_iff)
qed simp

lemma bt_ordered_Nil [simp]: "bt_ordered []"
  by (simp add: bt_ordered_def)

lemma bt_ordered_insert [simp]: "bt_ordered m \<Longrightarrow> bt_ordered (bt_insert k v m)"
proof (induction k v m rule: bt_insert.induct)
  case (2 k v k' v' m)
  have "\<forall>x \<in> set (map fst (bt_insert k v m)). k' < x" if "\<not> k < k'" "k \<noteq> k'"
    using 2 that set_keys_bt_insert [of k v m] by (auto simp: bt_ordered_def)
  with 2 show ?case by (auto simp: bt_ordered_def)
qed (simp add: bt_ordered_def)

lemma bt_ordered_distinct: "bt_ordered m \<Longrightarrow> distinct (map fst m)"
  unfolding bt_ordered_def
  by (rule strict_sorted_iff [THEN iffD1, THEN conjunct2])

lemma bt_ordered_sorted: "bt_ordered m \<Longrightarrow> sorted (map fst m)"
  unfolding bt_ordered_def
  by (rule strict_sorted_imp_sorted)

lemma length_bt_insert:
  "bt_ordered m \<Longrightarrow> length (bt_insert k v m) = (if k \<in> fst ` set m then length m else Suc (length m))"
proof (induction k v m rule: bt_insert.induct)
  case (2 k v k' v' m)
  then show ?case by (auto simp: bt_ordered_def)
qed simp

lemma bt_insert_not_Nil [simp]: "bt_insert k v m \<noteq> []"
  by (cases "(k, v, m)" rule: bt_insert.cases) auto

lemma dom_map_of_keys: "map_of m k \<noteq> None \<longleftrightarrow> k \<in> fst ` set m"
  by (induction m) auto

subsection \<open>Little-endian words\<close>

definition u32_from_le :: "byte list \<Rightarrow> u32" where
  "u32_from_le bs =
     (case bs of [b0, b1, b2, b3] \<Rightarrow>
        of_nat (unat b0 + 256 * unat b1 + 65536 * unat b2 + 16777216 * unat b3)
      | _ \<Rightarrow> 0)"

definition u16_from_le :: "byte \<Rightarrow> byte \<Rightarrow> u16" where
  "u16_from_le b0 b1 = of_nat (unat b0 + 256 * unat b1)"

text \<open>Consecutive blocks of \<open>n\<close> elements (\<open>as_chunks::<n>().0\<close>, which drops a shorter tail).\<close>

function chunks_of :: "nat \<Rightarrow> 'a list \<Rightarrow> 'a list list" where
  "chunks_of n xs = (if n = 0 \<or> length xs < n then [] else take n xs # chunks_of n (drop n xs))"
  by pat_completeness auto
termination
  by (relation "measure (\<lambda>(n, xs). length xs)") auto

declare chunks_of.simps [simp del]

lemma length_chunks_of: "0 < n \<Longrightarrow> length (chunks_of n xs) = length xs div n"
proof (induction n xs rule: chunks_of.induct)
  case (1 n xs)
  show ?case
  proof (cases "length xs < n")
    case True
    then show ?thesis by (simp add: chunks_of.simps [of n xs])
  next
    case False
    have "length (chunks_of n (drop n xs)) = (length xs - n) div n"
      using 1 False by simp
    with 1 False show ?thesis
      by (simp add: chunks_of.simps [of n xs] le_div_geq)
  qed
qed

lemma length_in_chunks_of: "c \<in> set (chunks_of n xs) \<Longrightarrow> length c = n"
proof (induction n xs rule: chunks_of.induct)
  case (1 n xs)
  then show ?case by (subst (asm) (2) chunks_of.simps) (auto split: if_splits)
qed

lemma length_filter_partition: "length (filter p xs) + length (filter (\<lambda>x. \<not> p x) xs) = length xs"
  by (induction xs) auto

end
