(* ===== verification/Errors.thy ===== *)
theory Errors
  imports Prelude
begin

text \<open>
  The updater's error type (\<open>Error\<close> in \<open>src/lib.rs\<close>) with its stable codes. Every fallible
  operation of the model returns \<open>error + 'a\<close>; \<open>Inl e\<close> is Rust's \<open>Err(e)\<close>.
\<close>

datatype error =
    Storage
  | Selection
  | ReservedRegion
  | Export string
  | Verification
  | Busy
  | Preflight
  | Unavailable
  | JobTimeout
  | Cancelled
  | Provider
  | AssetPath
  | Bundle
  | Config
  | Secret
  | Snapshot
  | Transport
  | Status u16
  | Size
  | Catalog
  | Io
  | RemoteConfig

fun code :: "error \<Rightarrow> string" where
  "code error.Storage = ''storage_failed''"
| "code error.Selection = ''invalid_selection''"
| "code error.ReservedRegion = ''reserved_region''"
| "code (error.Export m) = ''export_failed''"
| "code error.Verification = ''verification_failed''"
| "code error.Busy = ''cache_busy''"
| "code error.Preflight = ''preflight_failed''"
| "code error.Unavailable = ''upstream_unavailable''"
| "code error.JobTimeout = ''job_timeout''"
| "code error.Cancelled = ''cancelled''"
| "code error.Provider = ''unsupported_provider''"
| "code error.AssetPath = ''invalid_asset_path''"
| "code error.Bundle = ''invalid_bundle''"
| "code error.Config = ''invalid_config''"
| "code error.Secret = ''secret_unavailable''"
| "code error.Snapshot = ''invalid_snapshot''"
| "code error.Transport = ''transport_failed''"
| "code (error.Status c) = ''upstream_http_status''"
| "code error.Size = ''size_limit''"
| "code error.Catalog = ''invalid_catalog''"
| "code error.Io = ''io_failed''"
| "code error.RemoteConfig = ''remote_config_unavailable''"

fun http_status :: "error \<Rightarrow> u16 option" where
  "http_status (error.Status c) = Some c"
| "http_status _ = None"

text \<open>The code determines the variant: two errors share a code only when they are the same
  variant, so a recorded code identifies what went wrong.\<close>

fun same_variant :: "error \<Rightarrow> error \<Rightarrow> bool" where
  "same_variant (error.Export a) (error.Export b) = True"
| "same_variant (error.Status a) (error.Status b) = True"
| "same_variant e f = (e = f)"

lemma code_eq_iff: "code e = code f \<longleftrightarrow> same_variant e f"
  by (cases e; cases f) simp_all

lemma http_status_iff: "http_status e = Some c \<longleftrightarrow> e = error.Status c"
  by (cases e) auto

end
