(* ===== verification/Region.thy ===== *)
theory Region
  imports Errors
begin

text \<open>
  Regions and platforms (\<open>src/region.rs\<close>): canonical names, the deprecated alias \<open>tw\<close> of
  \<open>hk\<close> with its once-per-process warning, the client family, and the ownership of known CDN
  hosts.
\<close>

datatype region = Jp | Hk | En | Kr | Cn
datatype platform = Ios | Android

definition NAMES :: "string list" where
  "NAMES = [''jp'', ''hk'', ''en'', ''kr'', ''cn'']"

definition LEGACY_HK :: string where
  "LEGACY_HK = ''tw''"

fun name :: "region \<Rightarrow> string" where
  "name Jp = ''jp''"
| "name Hk = ''hk''"
| "name En = ''en''"
| "name Kr = ''kr''"
| "name Cn = ''cn''"

text \<open>
  \<open>from_name\<close> reads and sets the process-wide flag \<open>LEGACY_HK_WARNED\<close>. The model takes the
  flag and returns the region, the flag afterwards and whether a warning was logged.
\<close>

definition from_name :: "bool \<Rightarrow> string \<Rightarrow> region option \<times> bool \<times> bool" where
  "from_name warned value =
     (if value = ''jp'' then (Some Jp, warned, False)
      else if value = ''hk'' then (Some Hk, warned, False)
      else if value = ''en'' then (Some En, warned, False)
      else if value = ''kr'' then (Some Kr, warned, False)
      else if value = ''cn'' then (Some Cn, warned, False)
      else if value = LEGACY_HK then (Some Hk, True, \<not> warned)
      else (None, warned, False))"

definition family :: "region \<Rightarrow> string" where
  "family r = (case r of Jp \<Rightarrow> ''jp'' | Cn \<Rightarrow> ''cn'' | _ \<Rightarrow> ''global'')"

definition area_id :: "region \<Rightarrow> string option" where
  "area_id r = (case r of Hk \<Rightarrow> Some ''2'' | En \<Rightarrow> Some ''3'' | Kr \<Rightarrow> Some ''4'' | _ \<Rightarrow> None)"

definition region_protocol_version :: "region \<Rightarrow> string" where
  "region_protocol_version r = (case r of Jp \<Rightarrow> ''1.0.4'' | Cn \<Rightarrow> [] | _ \<Rightarrow> ''1.0.1'')"

definition known_service_region :: "string \<Rightarrow> string \<Rightarrow> bool \<times> region option" where
  "known_service_region host path =
     (if ends_with host ''.bang-dream-on.jp'' then (True, Some Jp)
      else if ends_with host ''.gamerfusiontech.com'' \<and> contains_str host ''-prod-hk-''
        then (True, Some Hk)
      else if ends_with host ''.bilibiligame.net'' \<and> contains_str host ''-prod-va-''
        then (True, Some En)
      else if ends_with host ''.bilibiligame.net'' \<and> contains_str host ''-prod-kr-''
        then (True, Some Kr)
      else if ends_with host ''.bilibiligame.net'' \<and> contains_str host ''-prod-sg-patch-''
        then (if starts_with path ''/prod/en_'' then (True, Some En)
              else if starts_with path ''/prod/kr_'' then (True, Some Kr)
              else (False, None))
      else (True, None))"

text \<open>The first component is False for the early \<open>return false\<close> of a shared host with a path
  of neither region; \<open>(True, None)\<close> is an unknown host, which any region may use.\<close>

definition matches_known_service :: "region \<Rightarrow> string \<Rightarrow> string \<Rightarrow> bool" where
  "matches_known_service r host path =
     (let (known, expected) = known_service_region host path
      in known \<and> (case expected of None \<Rightarrow> True | Some e \<Rightarrow> e = r))"

definition persisted_digest_tag :: "region \<Rightarrow> string" where
  "persisted_digest_tag r = (if r = Hk then LEGACY_HK else name r)"

definition default_platform :: "region \<Rightarrow> platform" where
  "default_platform r = (if r = Jp then Ios else Android)"

fun platform_name :: "platform \<Rightarrow> string" where
  "platform_name Ios = ''iOS''"
| "platform_name Android = ''Android''"

fun platform_header :: "platform \<Rightarrow> string" where
  "platform_header Ios = ''ios''"
| "platform_header Android = ''android''"

lemma name_inj: "name r = name s \<longleftrightarrow> r = s"
  by (cases r; cases s) simp_all

lemma platform_name_inj: "platform_name p = platform_name q \<longleftrightarrow> p = q"
  by (cases p; cases q) simp_all

lemma name_in_NAMES: "name r \<in> set NAMES"
  by (cases r) (simp_all add: NAMES_def)

lemma name_not_legacy: "name r \<noteq> LEGACY_HK"
  by (cases r) (simp_all add: LEGACY_HK_def)

lemma from_name_name [simp]: "from_name w (name r) = (Some r, w, False)"
  by (cases r) (simp_all add: from_name_def)

lemma from_name_Some:
  "fst (from_name w v) = Some r \<longleftrightarrow> v = name r \<or> (v = LEGACY_HK \<and> r = Hk)"
  by (cases r) (auto simp: from_name_def LEGACY_HK_def split: if_splits)

text \<open>A run of parses from a given flag: the results and the number of warnings logged.\<close>

fun parse_names :: "bool \<Rightarrow> string list \<Rightarrow> region option list \<times> nat" where
  "parse_names w [] = ([], 0)"
| "parse_names w (v # vs) =
     (let (r, w', logged) = from_name w v; (rs, n) = parse_names w' vs
      in (r # rs, n + of_bool logged))"

lemma parse_names_results: "fst (parse_names w vs) = map (\<lambda>v. fst (from_name False v)) vs"
proof (induction vs arbitrary: w)
  case (Cons v vs)
  have "fst (from_name w v) = fst (from_name False v)"
    by (simp add: from_name_def)
  with Cons show ?case by (auto simp: Let_def split: prod.splits) (metis fst_conv)+
qed simp

lemma parse_names_warned: "snd (parse_names True vs) = 0"
proof (induction vs)
  case (Cons v vs)
  have "from_name True v = (r, w', l) \<Longrightarrow> w' \<and> \<not> l" for r w' l
    by (auto simp: from_name_def split: if_splits)
  with Cons show ?case by (auto simp: Let_def split: prod.splits)
qed simp

lemma parse_names_warnings: "snd (parse_names False vs) = of_bool (LEGACY_HK \<in> set vs)"
proof (induction vs)
  case (Cons v vs)
  show ?case
  proof (cases "v = LEGACY_HK")
    case True
    then have "from_name False v = (Some Hk, True, True)"
      by (simp add: from_name_def LEGACY_HK_def)
    with True show ?thesis
      using parse_names_warned [of vs] by (auto simp: Let_def split: prod.splits)
  next
    case False
    then have "from_name False v = (fst (from_name False v), False, False)"
      by (simp add: from_name_def)
    then obtain r where "from_name False v = (r, False, False)"
      by blast
    with Cons False show ?thesis by (auto simp: Let_def split: prod.splits)
  qed
qed simp

lemma known_service_unique:
  assumes "matches_known_service r host path" and "matches_known_service s host path"
    and "snd (known_service_region host path) \<noteq> None"
  shows "r = s"
  using assms by (auto simp: matches_known_service_def split: prod.splits option.splits)

text \<open>Region names round-trip: parsing the name a region prints gives that region back, and
  an input is accepted only if it is a canonical name or the alias of Hk. In a whole sequence of
  parses in one process at most one deprecation warning is logged, exactly when the alias
  occurs.\<close>

theorem region_names_roundtrip:
  "fst (from_name w (name r)) = Some r
   \<and> (fst (from_name w v) = Some s \<longrightarrow> v = name s \<or> v = LEGACY_HK \<and> s = Hk)
   \<and> snd (parse_names False vs) = of_bool (LEGACY_HK \<in> set vs)"
  using from_name_Some parse_names_warnings by simp

theorem region_names_roundtrip_witness:
  "fst (from_name False ''tw'') = Some Hk \<and> Hk = Hk
   \<and> snd (parse_names False [''hk'', ''tw'', ''tw'']) = 1"
proof -
  have parsed: "fst (from_name False ''tw'') = Some Hk"
    by (simp add: from_name_def LEGACY_HK_def)
  with region_names_roundtrip [of False Hk "''tw''" Hk "[''hk'', ''tw'', ''tw'']"]
  show ?thesis by (simp add: LEGACY_HK_def)
qed

end
