(* ===== verification/Environment.thy ===== *)
theory Environment
  imports Errors
begin

text \<open>
  What the updater reads of its surroundings: environment secrets (\<open>secret\<close> of
  \<open>src/lib.rs\<close>), parsed URLs and compiled regular expressions. The URL parser (\<open>reqwest::Url\<close>)
  and the regex engine (\<open>regex\<close>) are third-party code: the definitions that use them take them
  as arguments, of the types declared here.
\<close>

type_synonym env = "string \<Rightarrow> string option"

text \<open>\<open>secret(name)\<close>: a variable that is unset or empty is \<open>Error::Secret\<close>.\<close>

definition secret :: "env \<Rightarrow> string \<Rightarrow> error + string" where
  "secret env name =
     (case env name of
        None \<Rightarrow> Inl error.Secret
      | Some s \<Rightarrow> if s = [] then Inl error.Secret else Inr s)"

lemma secret_Inr [result_simps]: "secret env n = Inr s \<longleftrightarrow> env n = Some s \<and> s \<noteq> []"
  by (auto simp: secret_def split: option.splits)

lemma secret_Inl [result_simps]:
  "secret env n = Inl e \<longleftrightarrow> e = error.Secret \<and> (env n = None \<or> env n = Some [])"
  by (auto simp: secret_def split: option.splits)

text \<open>The accessors of \<open>reqwest::Url\<close> that the code calls.\<close>

record url =
  scheme :: string
  host_str :: "string option"
  username :: string
  password :: "string option"
  url_path :: string
  query :: "string option"
  fragment :: "string option"

type_synonym url_parser = "string \<Rightarrow> url option"

text \<open>A regex compiler: \<open>None\<close> when the pattern is rejected (syntax or size limit), otherwise the
  predicate \<open>is_match\<close> of the compiled pattern.\<close>

type_synonym regex_compiler = "string \<Rightarrow> (string \<Rightarrow> bool) option"

text \<open>
  \<open>char::is_whitespace\<close> on UTF-8 bytes: the number of bytes of a leading white-space character,
  0 if the string does not start with one.
\<close>

fun ws_len :: "string \<Rightarrow> nat" where
  "ws_len [] = 0"
| "ws_len (a # s) =
     (let x = (of_char a :: nat) in
      if (9 \<le> x \<and> x \<le> 13) \<or> x = 32 then 1
      else (case s of
          [] \<Rightarrow> 0
        | b # t \<Rightarrow>
            (let y = (of_char b :: nat) in
             if x = 194 \<and> (y = 133 \<or> y = 160) then 2
             else (case t of
                 [] \<Rightarrow> 0
               | c # _ \<Rightarrow>
                   (let z = (of_char c :: nat) in
                    if x = 225 \<and> y = 154 \<and> z = 128 then 3
                    else if x = 226 \<and> y = 128 \<and> ((128 \<le> z \<and> z \<le> 138) \<or> z = 168 \<or> z = 169 \<or> z = 175)
                      then 3
                    else if x = 226 \<and> y = 129 \<and> z = 159 then 3
                    else if x = 227 \<and> y = 128 \<and> z = 128 then 3
                    else 0)))))"

fun has_whitespace :: "string \<Rightarrow> bool" where
  "has_whitespace [] = False"
| "has_whitespace (c # s) = (0 < ws_len (c # s) \<or> has_whitespace s)"

text \<open>\<open>s.trim().is_empty()\<close>: nothing but white space.\<close>

function blank :: "string \<Rightarrow> bool" where
  "blank s = (if s = [] then True else if ws_len s = 0 then False else blank (drop (ws_len s) s))"
  by pat_completeness auto
termination
  by (relation "measure length") auto

declare blank.simps [simp del]

text \<open>\<open>str::trim\<close> and its halves\<close>

function trim_start :: "string \<Rightarrow> string" where
  "trim_start s = (if s = [] \<or> ws_len s = 0 then s else trim_start (drop (ws_len s) s))"
  by pat_completeness auto
termination
  by (relation "measure length") auto

declare trim_start.simps [simp del]

fun trim_end :: "string \<Rightarrow> string" where
  "trim_end [] = []"
| "trim_end (c # s) = (if blank (c # s) then [] else c # trim_end s)"

definition trim :: "string \<Rightarrow> string" where
  "trim s = trim_end (trim_start s)"

subsection \<open>Numbers\<close>

text \<open>\<open>str::parse::<usize>\<close>: an optional plus sign and digits, below \<open>2^64\<close>.\<close>

definition USIZE_RANGE :: nat where "USIZE_RANGE = 2 ^ 64"

definition parse_usize :: "string \<Rightarrow> nat option" where
  "parse_usize s =
     (let d = (case s of c # r \<Rightarrow> if c = CHR ''+'' then r else s | [] \<Rightarrow> []) in
      if d \<noteq> [] \<and> list_all is_ascii_digit d \<and> digits_value d < USIZE_RANGE then Some (digits_value d) else None)"

text \<open>\<open>{n:05}\<close>: at least \<open>w\<close> digits.\<close>

definition zero_padded :: "nat \<Rightarrow> nat \<Rightarrow> string" where
  "zero_padded w n = replicate (w - length (decimal n)) (CHR ''0'') @ decimal n"

lemma digits_value_append: "digits_value (replicate k (CHR ''0'') @ s) = digits_value s"
  by (induction k) (simp_all add: digits_value_def)

lemma zero_padded_inject: "zero_padded w m = zero_padded w n \<longleftrightarrow> m = n"
  by (metis digits_value_append digits_value_decimal zero_padded_def)

lemma zero_padded_digits: "list_all is_ascii_digit (zero_padded w n)"
  using decimal_digits [of n] by (auto simp: zero_padded_def list_all_iff is_ascii_digit_def)

lemma parse_zero_padded:
  assumes "n < USIZE_RANGE"
  shows "parse_usize (zero_padded w n) = Some n"
proof -
  have "zero_padded w n \<noteq> []" by (simp add: zero_padded_def)
  moreover from this have "hd (zero_padded w n) \<noteq> CHR ''+''"
    using zero_padded_digits [of w n] by (cases "zero_padded w n") (auto simp: is_ascii_digit_def)
  moreover have "digits_value (zero_padded w n) = n"
    by (simp add: zero_padded_def digits_value_append)
  ultimately show ?thesis
    using assms zero_padded_digits [of w n]
    by (cases "zero_padded w n") (auto simp: parse_usize_def)
qed

end
