(* ===== verification/Access_Log.thy ===== *)
theory Access_Log
  imports Environment
begin

text \<open>
  The access log (\<open>src/access_log.rs\<close>): validation of its settings, the line template with its
  parser, renderer and escaping, and the resolution of the client address behind trusted proxies.

  Text that is logged is a list of Unicode code points here (\<open>chars\<close>), because escaping works on
  characters; \<open>utf8_len\<close> is its length in bytes. The header-name and network parsers (crates
  \<open>http\<close> and \<open>ipnet\<close>) are arguments, and so are the parser of an IP address in a header and the
  rendering of the latency's floating-point number.
\<close>

subsection \<open>Settings\<close>

datatype log_format = Json | Text | Template
datatype rotation = Never | Hourly | Daily

datatype log_output =
    Stdout
  | Stderr
  | File string rotation nat

type_synonym chars = "nat list"

definition text_of :: "string \<Rightarrow> chars" where
  "text_of s = map of_char s"

definition utf8_width :: "nat \<Rightarrow> nat" where
  "utf8_width c = (if c < 128 then 1 else if c < 2048 then 2 else if c < 65536 then 3 else 4)"

definition utf8_len :: "chars \<Rightarrow> nat" where
  "utf8_len t = sum_list (map utf8_width t)"

record access_config =
  log_format :: log_format
  log_output :: log_output
  queue_capacity :: nat
  trusted_proxies :: "string list"
  proxy_header :: string
  log_template :: "chars option"

definition access_default :: access_config where
  "access_default = \<lparr>log_format = Json, log_output = Stdout, queue_capacity = 4096,
     trusted_proxies = [], proxy_header = ''x-forwarded-for'', log_template = None\<rparr>"

text \<open>The only error of this module is the invalid-configuration error; it is \<open>()\<close> here.\<close>

datatype ip = V4 u32 | V6 "128 word"

text \<open>\<open>Path::file_name\<close>: the last component, unless it is \<open>..\<close>; empty components and \<open>.\<close> do
  not count.\<close>

definition file_name :: "string \<Rightarrow> string option" where
  "file_name p =
     (case rev (filter (\<lambda>c. c \<noteq> [] \<and> c \<noteq> ''.'') (split_on (CHR ''/'') p)) of
        [] \<Rightarrow> None
      | c # _ \<Rightarrow> if c = ''..'' then None else Some c)"

record trust =
  proxies :: "(ip \<Rightarrow> bool) list"
  header :: string

definition parse_trust ::
  "(string \<Rightarrow> string option) \<Rightarrow> (string \<Rightarrow> (ip \<Rightarrow> bool) option) \<Rightarrow> access_config \<Rightarrow> unit + trust" where
  "parse_trust header_name parse_net c =
     and_then (fail_if (128 < length (trusted_proxies c)) ()) (\<lambda>_.
     and_then (ok_or () (header_name (proxy_header c))) (\<lambda>h.
     and_then (fail_if (h \<in> {''authorization'', ''proxy-authorization'', ''cookie'', ''host''}) ()) (\<lambda>_.
     and_then (collect_results (\<lambda>p. ok_or () (parse_net p)) (trusted_proxies c)) (\<lambda>nets.
     Inr \<lparr>proxies = nets, header = h\<rparr>))))"

subsection \<open>Templates\<close>

datatype placeholder =
    Time | Status | Method | Path | Latency | RequestId | PeerIp | ClientIp | Outcome
  | DurationMs | QueueDroppedRecords

definition parse_placeholder :: "chars \<Rightarrow> placeholder option" where
  "parse_placeholder n =
     (if n = text_of ''time'' then Some Time
      else if n = text_of ''status'' then Some Status
      else if n = text_of ''method'' then Some Method
      else if n = text_of ''path'' \<or> n = text_of ''route'' then Some Path
      else if n = text_of ''latency'' then Some Latency
      else if n = text_of ''request_id'' then Some RequestId
      else if n = text_of ''peer_ip'' then Some PeerIp
      else if n = text_of ''client_ip'' then Some ClientIp
      else if n = text_of ''outcome'' then Some Outcome
      else if n = text_of ''duration_ms'' then Some DurationMs
      else if n = text_of ''queue_dropped_records'' then Some QueueDroppedRecords
      else None)"

datatype part = Literal chars | Value placeholder

text \<open>\<open>char::is_control\<close> (C0, DEL and C1) and the two Unicode line separators.\<close>

definition line_breaking :: "nat \<Rightarrow> bool" where
  "line_breaking c \<longleftrightarrow> c < 32 \<or> (127 \<le> c \<and> c \<le> 159) \<or> c = 0x2028 \<or> c = 0x2029"

function template_parts :: "chars \<Rightarrow> unit + part list" where
  "template_parts rest =
     (case split_once (text_of ''${'') rest of
        None \<Rightarrow> Inr (if rest = [] then [] else [Literal rest])
      | Some (before, tail) \<Rightarrow>
          (case split_once (text_of ''}'') tail of
             None \<Rightarrow> Inl ()
           | Some (name, after) \<Rightarrow>
               (case parse_placeholder name of
                  None \<Rightarrow> Inl ()
                | Some p \<Rightarrow>
                    and_then (template_parts after) (\<lambda>parts.
                      Inr ((if before = [] then [] else [Literal before]) @ Value p # parts)))))"
  by pat_completeness auto
termination
  by (relation "measure length") (auto dest!: split_once_Some simp: text_of_def)

declare template_parts.simps [simp del]

definition parse_template :: "chars \<Rightarrow> unit + part list" where
  "parse_template template =
     (let t = unwrap_or template (strip_suffix [10] template)
      in if t = [] \<or> 1024 < utf8_len t \<or> list_ex line_breaking t then Inl ()
         else template_parts t)"

definition template_setting :: "access_config \<Rightarrow> unit + part list option" where
  "template_setting c =
     (case (log_format c, log_template c) of
        (Template, Some t) \<Rightarrow> and_then (parse_template t) (\<lambda>parts. Inr (Some parts))
      | (Template, None) \<Rightarrow> Inl ()
      | (_, Some _) \<Rightarrow> Inl ()
      | _ \<Rightarrow> Inr None)"

definition access_validate ::
  "(string \<Rightarrow> string option) \<Rightarrow> (string \<Rightarrow> (ip \<Rightarrow> bool) option) \<Rightarrow> access_config \<Rightarrow> unit + unit" where
  "access_validate header_name parse_net c =
     and_then (parse_trust header_name parse_net c) (\<lambda>_.
     and_then (template_setting c) (\<lambda>_.
     and_then (fail_if (\<not> (1 \<le> queue_capacity c \<and> queue_capacity c \<le> 65536)) ()) (\<lambda>_.
     (case log_output c of
        File path _ max_files \<Rightarrow>
          fail_if (file_name path = None \<or> \<not> (1 \<le> max_files \<and> max_files \<le> 3650)) ()
      | _ \<Rightarrow> Inr ()))))"

subsection \<open>Rendering\<close>

text \<open>The record of one request; \<open>peer_ip\<close> and \<open>client_ip\<close> are already printed.\<close>

record log_record =
  timestamp :: chars
  request_id :: chars
  log_method :: chars
  route :: chars
  peer_ip :: "chars option"
  client_ip :: "chars option"
  status_text :: "chars option"
  log_outcome :: chars
  duration_text :: chars
  dropped_text :: chars

definition placeholder_value :: "placeholder \<Rightarrow> log_record \<Rightarrow> chars \<Rightarrow> chars" where
  "placeholder_value p r latency = (case p of
      Time \<Rightarrow> timestamp r
    | Status \<Rightarrow> unwrap_or (text_of ''-'') (status_text r)
    | Method \<Rightarrow> log_method r
    | Path \<Rightarrow> route r
    | Latency \<Rightarrow> latency
    | RequestId \<Rightarrow> request_id r
    | PeerIp \<Rightarrow> unwrap_or (text_of ''-'') (peer_ip r)
    | ClientIp \<Rightarrow> unwrap_or (text_of ''-'') (client_ip r)
    | Outcome \<Rightarrow> log_outcome r
    | DurationMs \<Rightarrow> duration_text r
    | QueueDroppedRecords \<Rightarrow> dropped_text r)"

text \<open>\<open>char::escape_debug\<close> on the characters that reach it: the backslash, and control and
  separator characters as a short escape or in hexadecimal.\<close>

definition hex_digit :: "nat \<Rightarrow> nat" where
  "hex_digit d = (if d < 10 then 48 + d else 87 + d)"

fun hex_text :: "nat \<Rightarrow> chars" where
  "hex_text n = (if n < 16 then [hex_digit n] else hex_text (n div 16) @ [hex_digit (n mod 16)])"

declare hex_text.simps [simp del]

definition escape_debug :: "nat \<Rightarrow> chars" where
  "escape_debug c =
     (if c = 0 then text_of [CHR 0x5C, CHR ''0'']
      else if c = 9 then text_of [CHR 0x5C, CHR ''t'']
      else if c = 10 then text_of [CHR 0x5C, CHR ''n'']
      else if c = 13 then text_of [CHR 0x5C, CHR ''r'']
      else if c = 92 then text_of [CHR 0x5C, CHR 0x5C]
      else text_of [CHR 0x5C, CHR ''u'', CHR 0x7B] @ hex_text c @ text_of [CHR 0x7D])"

fun escape :: "chars \<Rightarrow> chars" where
  "escape [] = []"
| "escape (c # cs) = (if c = 92 \<or> line_breaking c then escape_debug c else [c]) @ escape cs"

fun render :: "part list \<Rightarrow> log_record \<Rightarrow> chars \<Rightarrow> chars" where
  "render [] r latency = []"
| "render (Literal t # ps) r latency = t @ render ps r latency"
| "render (Value p # ps) r latency = escape (placeholder_value p r latency) @ render ps r latency"

lemma hex_digit_range: "d < 16 \<Longrightarrow> \<not> line_breaking (hex_digit d) \<and> hex_digit d \<noteq> 92"
  by (simp add: hex_digit_def line_breaking_def)

lemma hex_text_range: "c \<in> set (hex_text n) \<Longrightarrow> \<not> line_breaking c"
proof (induction n rule: hex_text.induct)
  case (1 n)
  then show ?case
    by (subst (asm) (2) hex_text.simps) (auto simp: hex_digit_range split: if_splits)
qed

lemma escape_debug_range: "d \<in> set (escape_debug c) \<Longrightarrow> \<not> line_breaking d"
  using hex_text_range [of d c]
  by (auto simp: escape_debug_def text_of_def line_breaking_def split: if_splits)

lemma escape_no_break: "d \<in> set (escape t) \<Longrightarrow> \<not> line_breaking d"
  by (induction t) (auto simp: escape_debug_range split: if_splits)

fun part_literal :: "part \<Rightarrow> chars" where
  "part_literal (Literal t) = t"
| "part_literal (Value p) = []"

lemma template_parts_literals:
  "template_parts t = Inr parts \<Longrightarrow> p \<in> set parts \<Longrightarrow> set (part_literal p) \<subseteq> set t"
proof (induction t arbitrary: parts p rule: template_parts.induct)
  case (1 rest)
  show ?case
  proof (cases "split_once (text_of ''${'') rest")
    case None
    with "1.prems" show ?thesis
      by (auto simp: template_parts.simps [of rest] split: if_splits)
  next
    case (Some bt)
    obtain before tail where bt: "bt = (before, tail)" by (cases bt)
    with Some have rest: "rest = before @ text_of ''${'' @ tail" by (auto dest: split_once_Some)
    from "1.prems"(1) Some bt obtain name after pl ps where
      sp: "split_once (text_of ''}'') tail = Some (name, after)"
      and pl: "parse_placeholder name = Some pl"
      and ps: "template_parts after = Inr ps"
      and parts: "parts = (if before = [] then [] else [Literal before]) @ Value pl # ps"
      by (auto simp: template_parts.simps [of rest] result_simps split: option.splits)
    from sp have tail: "tail = name @ text_of ''}'' @ after" by (rule split_once_Some)
    have "p = Literal before \<or> p = Value pl \<or> p \<in> set ps"
      using "1.prems"(2) parts by (auto split: if_splits)
    moreover have "p \<in> set ps \<Longrightarrow> set (part_literal p) \<subseteq> set after"
      using "1.IH" [OF Some bt [symmetric] sp refl pl] ps bt by blast
    ultimately show ?thesis using rest tail by auto
  qed
qed

lemma render_no_break:
  assumes "\<forall>p \<in> set parts. \<forall>c \<in> set (part_literal p). \<not> line_breaking c"
  shows "c \<in> set (render parts r latency) \<Longrightarrow> \<not> line_breaking c"
  using assms
proof (induction parts)
  case (Cons p ps)
  then show ?case by (cases p) (auto simp: escape_no_break)
qed simp

lemma strip_newline_subset: "set (unwrap_or t (strip_suffix [10] t)) \<subseteq> set t"
  by (cases "strip_suffix [10] t") (auto simp: strip_suffix_Some)

lemma parse_template_literals:
  assumes "parse_template t = Inr parts" and "p \<in> set parts" and "c \<in> set (part_literal p)"
  shows "\<not> line_breaking c"
proof -
  let ?t = "unwrap_or t (strip_suffix [10] t)"
  from assms(1) have tp: "template_parts ?t = Inr parts" and nb: "\<not> list_ex line_breaking ?t"
    by (auto simp: parse_template_def Let_def split: if_splits)
  have "c \<in> set ?t" using template_parts_literals [OF tp assms(2)] assms(3) by blast
  with nb show ?thesis by (auto simp: list_ex_iff)
qed

text \<open>One record is one line: whatever an accepted template and the fields of a request
  contain (line feeds, escape sequences, Unicode line separators), the rendered line holds no
  line-breaking character.\<close>

theorem rendered_record_is_one_line:
  assumes "parse_template template = Inr parts"
  shows "\<not> list_ex line_breaking (render parts r latency)"
  using render_no_break [of parts] parse_template_literals [OF assms]
  by (auto simp: list_ex_iff)

theorem rendered_record_is_one_line_witness:
  "\<exists>parts. parse_template (text_of ''m=${method} p=${path}'') = Inr parts
     \<and> \<not> list_ex line_breaking (render parts
          \<lparr>timestamp = [], request_id = [], log_method = [71, 10, 0x2028], route = [47, 92],
           peer_ip = None, client_ip = None, status_text = None, log_outcome = [],
           duration_text = [], dropped_text = []\<rparr> [])"
proof -
  have "\<exists>parts. parse_template (text_of ''m=${method} p=${path}'') = Inr parts"
    by (simp add: parse_template_def text_of_def strip_suffix_def utf8_len_def utf8_width_def
        line_breaking_def template_parts.simps strip_prefix_def parse_placeholder_def Let_def)
  then obtain parts where "parse_template (text_of ''m=${method} p=${path}'') = Inr parts" ..
  with rendered_record_is_one_line [OF this] show ?thesis by blast
qed

subsection \<open>Trusted proxies\<close>

definition trusted :: "trust \<Rightarrow> ip \<Rightarrow> bool" where
  "trusted t a \<longleftrightarrow> list_ex (\<lambda>p. p a) (proxies t)"

text \<open>\<open>to_ipv4_mapped\<close>: \<open>::ffff:a.b.c.d\<close> is read as the IPv4 address.\<close>

definition normalize :: "ip \<Rightarrow> ip" where
  "normalize a = (case a of
      V6 v \<Rightarrow> if drop_bit 32 v = 0xFFFF then V4 (ucast v) else a
    | V4 _ \<Rightarrow> a)"

text \<open>\<open>HeaderValue::to_str\<close>: visible ASCII, the blank and the tab.\<close>

definition header_text_ok :: "string \<Rightarrow> bool" where
  "header_text_ok s \<longleftrightarrow>
     list_all (\<lambda>c. let n = (of_char c :: nat) in (32 \<le> n \<and> n < 127) \<or> n = 9) s"

text \<open>The walk from the nearest hop to the farthest, stopping at the first untrusted one.\<close>

fun nearest_untrusted :: "trust \<Rightarrow> ip \<Rightarrow> ip list \<Rightarrow> ip" where
  "nearest_untrusted t candidate [] = candidate"
| "nearest_untrusted t candidate (a # as) =
     (if \<not> trusted t candidate then candidate else nearest_untrusted t a as)"

fun all_parsed :: "('a \<Rightarrow> 'b option) \<Rightarrow> 'a list \<Rightarrow> 'b list option" where
  "all_parsed f [] = Some []"
| "all_parsed f (x # xs) =
     (case f x of None \<Rightarrow> None | Some y \<Rightarrow> map_option ((#) y) (all_parsed f xs))"

text \<open>\<open>values\<close> are the values of the configured header in the request.\<close>

definition resolve :: "(string \<Rightarrow> ip option) \<Rightarrow> trust \<Rightarrow> ip option \<Rightarrow> string list \<Rightarrow> ip option" where
  "resolve parse_ip t peer values =
     (case peer of
        None \<Rightarrow> None
      | Some p \<Rightarrow>
          (let candidate = normalize p in
           if \<not> trusted t candidate then Some candidate
           else (case values of
               [] \<Rightarrow> Some candidate
             | value # others \<Rightarrow>
                 if others \<noteq> [] \<or> 4096 < length value then Some candidate
                 else if \<not> header_text_ok value then Some candidate
                 else (let entries = split_on (CHR '','') value in
                   if 32 < length entries then Some candidate
                   else (case all_parsed (\<lambda>e. map_option normalize (parse_ip (trim e))) entries of
                       None \<Rightarrow> Some candidate
                     | Some addresses \<Rightarrow>
                         (let chosen = nearest_untrusted t candidate (rev addresses)
                          in Some (if value = [] then candidate else chosen)))))))"

lemma nearest_untrusted_cases:
  obtains (stay) "nearest_untrusted t c as = c" "\<not> trusted t c \<or> as = []"
  | (hop) pre post where "as = pre @ nearest_untrusted t c as # post"
      "trusted t c" "\<forall>a \<in> set pre. trusted t a"
      "post = [] \<or> \<not> trusted t (nearest_untrusted t c as)"
proof (induction as arbitrary: c thesis)
  case Nil
  then show ?case by simp
next
  case (Cons a as)
  show ?case
  proof (cases "trusted t c")
    case False
    then show ?thesis using Cons.prems(1) by simp
  next
    case True
    show ?thesis
    proof (rule Cons.IH [of a])
      assume "nearest_untrusted t a as = a" "\<not> trusted t a \<or> as = []"
      then show ?thesis using Cons.prems(2) [of "[]" as] True by auto
    next
      fix pre post
      assume "as = pre @ nearest_untrusted t a as # post" "trusted t a"
        "\<forall>a \<in> set pre. trusted t a" "post = [] \<or> \<not> trusted t (nearest_untrusted t a as)"
      then show ?thesis using Cons.prems(2) [of "a # pre" post] True by simp
    qed
  qed
qed

lemma nearest_untrusted_prefix:
  assumes "\<not> trusted t (nearest_untrusted t c as)"
  shows "nearest_untrusted t c (as @ far) = nearest_untrusted t c as"
  using assms by (induction as arbitrary: c) (auto, cases far, auto)

lemma all_parsed_append:
  "all_parsed f (xs @ ys) = Some zs \<longleftrightarrow>
     (\<exists>us vs. zs = us @ vs \<and> all_parsed f xs = Some us \<and> all_parsed f ys = Some vs)"
proof (induction xs arbitrary: zs)
  case (Cons x xs)
  show ?case by (cases "f x") (auto simp: Cons split: option.splits)
qed simp

text \<open>A client cannot forge its address. The address attributed to a request is the peer's own
  unless the peer is a trusted proxy; otherwise it is an entry of the forwarding header such that
  every hop nearer than it is trusted. An untrusted peer is never overridden.\<close>

theorem resolved_address_vouched:
  assumes "resolve parse_ip t (Some p) values = Some a"
  shows "a = normalize p
    \<or> (trusted t (normalize p) \<and>
       (\<exists>value far near. values = [value]
          \<and> all_parsed (\<lambda>e. map_option normalize (parse_ip (trim e))) (split_on (CHR '','') value)
              = Some (far @ a # near)
          \<and> (\<forall>h \<in> set near. trusted t h) \<and> (far = [] \<or> \<not> trusted t a)))"
proof (rule disjCI)
  assume ne: "\<not> (trusted t (normalize p) \<and>
       (\<exists>value far near. values = [value]
          \<and> all_parsed (\<lambda>e. map_option normalize (parse_ip (trim e))) (split_on (CHR '','') value)
              = Some (far @ a # near)
          \<and> (\<forall>h \<in> set near. trusted t h) \<and> (far = [] \<or> \<not> trusted t a)))"
  show "a = normalize p"
  proof (rule ccontr)
    assume differs: "a \<noteq> normalize p"
    with assms obtain v addresses where trust: "trusted t (normalize p)"
      and one: "values = [v]"
      and parsed: "all_parsed (\<lambda>e. map_option normalize (parse_ip (trim e))) (split_on (CHR '','') v)
          = Some addresses"
      and a: "a = nearest_untrusted t (normalize p) (rev addresses)"
      by (auto simp: resolve_def Let_def split: if_splits list.splits option.splits)
    show False
    proof (cases rule: nearest_untrusted_cases [of t "normalize p" "rev addresses"])
      case stay
      with a differs show False by simp
    next
      case (hop pre post)
      then have "addresses = rev post @ a # rev pre" using a by (metis append.assoc append_Cons
            append_Nil rev.simps(2) rev_append rev_rev_ident)
      with hop trust one parsed a ne show False
        by (metis rev_is_Nil_conv set_rev)
    qed
  qed
qed

definition example_trust :: trust where
  "example_trust = \<lparr>proxies = [\<lambda>a. a = V4 1, \<lambda>a. a = V4 2], header = ''x-forwarded-for''\<rparr>"

definition example_ip :: "string \<Rightarrow> ip option" where
  "example_ip s = (if s = ''x'' then Some (V4 9) else if s = ''p'' then Some (V4 2) else
     if s = ''f'' then Some (V4 7) else None)"

theorem resolved_address_vouched_witness:
  "resolve example_ip example_trust (Some (V4 1)) [''f,x,p''] = Some (V4 9)
   \<and> trusted example_trust (V4 1) \<and> V4 9 \<noteq> normalize (V4 1)"
proof -
  have r: "resolve example_ip example_trust (Some (V4 1)) [''f,x,p''] = Some (V4 9)"
    by (simp add: resolve_def example_ip_def example_trust_def trusted_def normalize_def
        header_text_ok_def trim_def trim_start.simps blank.simps)
  from resolved_address_vouched [OF r] r show ?thesis by (auto simp: normalize_def)
qed

end
