(* ===== verification/App_Log.thy ===== *)
theory App_Log
  imports Access_Log
begin

text \<open>
  Application logging (\<open>src/application_log.rs\<close>): the level specification
  \<open>default[,target=level...]\<close>, its parser, and the choice of the level for an event's target.
\<close>

datatype level = Off | Error | Warn | Info | Debug | Trace

datatype event_level = ERROR | WARN | INFO | DEBUG | TRACE

fun verbosity :: "event_level \<Rightarrow> nat" where
  "verbosity ERROR = 1"
| "verbosity WARN = 2"
| "verbosity INFO = 3"
| "verbosity DEBUG = 4"
| "verbosity TRACE = 5"

text \<open>\<open>tracing::Level\<close> orders the levels by verbosity.\<close>

fun accepts :: "level \<Rightarrow> event_level \<Rightarrow> bool" where
  "accepts Off l = False"
| "accepts level.Error l = (l = ERROR)"
| "accepts Warn l = (verbosity l \<le> verbosity WARN)"
| "accepts Info l = (verbosity l \<le> verbosity INFO)"
| "accepts Debug l = (verbosity l \<le> verbosity DEBUG)"
| "accepts Trace l = True"

definition parse_level :: "string \<Rightarrow> level option" where
  "parse_level v =
     (if v = ''off'' then Some Off
      else if v = ''error'' then Some level.Error
      else if v = ''warn'' then Some Warn
      else if v = ''info'' then Some Info
      else if v = ''debug'' then Some Debug
      else if v = ''trace'' then Some Trace
      else None)"

record levels =
  default_level :: level
  targets :: "(string \<times> level) list"

definition APP_TARGET :: string where
  "APP_TARGET = ''sirius_asset_updater''"

definition APP_PREFIX :: string where
  "APP_PREFIX = ''sirius_asset_updater::''"

definition target_ok :: "string \<Rightarrow> bool" where
  "target_ok t \<longleftrightarrow> (t = APP_TARGET \<or> starts_with t APP_PREFIX)
     \<and> list_all (\<lambda>b. is_ascii_alphanumeric b \<or> b = CHR ''_'' \<or> b = CHR '':'') t"

fun parse_targets :: "(string \<times> level) list \<Rightarrow> string list \<Rightarrow> unit + (string \<times> level) list" where
  "parse_targets acc [] = Inr acc"
| "parse_targets acc (item # items) =
     (case split_once ''='' item of
        None \<Rightarrow> Inl ()
      | Some (t, l) \<Rightarrow>
          (case parse_level l of
             None \<Rightarrow> Inl ()
           | Some lv \<Rightarrow>
               if \<not> target_ok t \<or> length acc = 64 \<or> list_ex (\<lambda>(t', _). t' = t) acc then Inl ()
               else parse_targets (acc @ [(t, lv)]) items))"

text \<open>\<open>sort_by_key(Reverse(len))\<close> is a stable sort, longest target first.\<close>

definition longest_first :: "(string \<times> level) list \<Rightarrow> (string \<times> level) list" where
  "longest_first ts = sort_key (\<lambda>(t, _). - int (length t)) ts"

definition parse_levels :: "string \<Rightarrow> unit + levels" where
  "parse_levels v =
     and_then (fail_if (1024 < length v) ()) (\<lambda>_.
     (case split_on (CHR '','') v of
        [] \<Rightarrow> Inl ()
      | first # items \<Rightarrow>
          and_then (ok_or () (parse_level first)) (\<lambda>d.
          and_then (parse_targets [] items) (\<lambda>ts.
          Inr \<lparr>default_level = d, targets = longest_first ts\<rparr>))))"

definition target_matches :: "string \<Rightarrow> string \<Rightarrow> bool" where
  "target_matches t event_target =
     is_some_and (\<lambda>rest. rest = [] \<or> starts_with rest ''::'') (strip_prefix t event_target)"

definition level_for :: "levels \<Rightarrow> string \<Rightarrow> level" where
  "level_for ls event_target =
     (case List.find (\<lambda>(t, _). target_matches t event_target) (targets ls) of
        None \<Rightarrow> default_level ls
      | Some (_, l) \<Rightarrow> l)"

record app_log_config =
  app_level :: levels
  app_format :: log_format
  app_output :: log_output
  app_queue_capacity :: nat

definition app_log_default :: app_log_config where
  "app_log_default = \<lparr>app_level = \<lparr>default_level = Info, targets = []\<rparr>, app_format = Text,
     app_output = Stderr, app_queue_capacity = 4096\<rparr>"

definition app_log_validate ::
  "(string \<Rightarrow> string option) \<Rightarrow> (string \<Rightarrow> (ip \<Rightarrow> bool) option) \<Rightarrow> app_log_config \<Rightarrow> unit + unit" where
  "app_log_validate header_name parse_net c =
     and_then (fail_if (app_format c = Template) ()) (\<lambda>_.
     access_validate header_name parse_net
       (access_default\<lparr>log_format := app_format c, log_output := app_output c,
          queue_capacity := app_queue_capacity c\<rparr>))"

lemma target_matches_iff:
  "target_matches t e \<longleftrightarrow> e = t \<or> (\<exists>rest. e = t @ ''::'' @ rest)"
proof (cases "strip_prefix t e")
  case None
  then have "\<not> (\<exists>r. e = t @ r)" using strip_prefix_Some [of t e] by auto
  with None show ?thesis by (auto simp: target_matches_def)
next
  case (Some r)
  then have "e = t @ r" by (simp add: strip_prefix_Some)
  with Some show ?thesis by (auto simp: target_matches_def starts_with_iff)
qed

lemma parse_targets_distinct:
  assumes "parse_targets acc items = Inr ts" and "distinct (map fst acc)"
  shows "distinct (map fst ts)"
  using assms
proof (induction acc items rule: parse_targets.induct)
  case (2 acc item items)
  from "2.prems"(1) obtain t l lv where step: "split_once ''='' item = Some (t, l)"
    "parse_level l = Some lv" "\<not> (\<not> target_ok t \<or> length acc = 64 \<or> list_ex (\<lambda>(t', _). t' = t) acc)"
    "parse_targets (acc @ [(t, lv)]) items = Inr ts"
    by (auto split: option.splits prod.splits if_splits)
  from step(3) "2.prems"(2) have "distinct (map fst (acc @ [(t, lv)]))"
    by (auto simp: list_ex_iff)
  with "2.IH" [OF step(1) refl step(2,3,4)] show ?case by blast
qed simp

lemma find_first_longest:
  assumes "List.find (\<lambda>(t, _). P t) (longest_first ts) = Some (t, l)"
    and "(t', l') \<in> set ts" and "P t'"
  shows "length t' \<le> length t"
proof -
  let ?xs = "longest_first ts"
  have s: "sorted (map (\<lambda>(t, _). - int (length t)) ?xs)"
    by (simp add: longest_first_def)
  from assms(1) obtain i where i: "i < length ?xs" "?xs ! i = (t, l)" "\<forall>j<i. \<not> P (fst (?xs ! j))"
    by (force simp: find_Some_iff)
  have "(t', l') \<in> set ?xs" using assms(2) by (simp add: longest_first_def)
  then obtain j where j: "j < length ?xs" "?xs ! j = (t', l')" by (auto simp: in_set_conv_nth)
  have "i \<le> j" using i(3) j assms(3) by (metis fst_conv not_less)
  with s i j show ?thesis by (fastforce dest: sorted_nth_mono [of _ i j])
qed

lemma find_SomeD: "List.find P xs = Some x \<Longrightarrow> x \<in> set xs \<and> P x"
  by (auto simp: find_Some_iff)

lemma find_longest:
  assumes dist: "distinct (map fst ts)" and tl: "(t, l) \<in> set ts" "P t"
    and longest: "\<And>t' l'. (t', l') \<in> set ts \<Longrightarrow> P t' \<Longrightarrow> length t' \<le> length t"
    and same: "\<And>t'. P t' \<Longrightarrow> length t' = length t \<Longrightarrow> t' = t"
  shows "List.find (\<lambda>(t, _). P t) (longest_first ts) = Some (t, l)"
proof (cases "List.find (\<lambda>(t, _). P t) (longest_first ts)")
  case None
  with tl show ?thesis by (auto simp: find_None_iff longest_first_def)
next
  case (Some tl0)
  obtain t0 l0 where tl0: "tl0 = (t0, l0)" by (cases tl0)
  with Some have "(t0, l0) \<in> set ts" "P t0"
    by (auto simp: longest_first_def dest: find_SomeD)
  moreover have "length t \<le> length t0"
    using find_first_longest [of P ts t0 l0 t l] Some tl0 tl by blast
  ultimately have "t0 = t" using longest same le_antisym by metis
  with \<open>(t0, l0) \<in> set ts\<close> tl(1) dist have "l0 = l" by (metis eq_key_imp_eq_value)
  with Some tl0 \<open>t0 = t\<close> show ?thesis by simp
qed

lemma target_matches_same_length:
  "target_matches t e \<Longrightarrow> target_matches t' e \<Longrightarrow> length t' = length t \<Longrightarrow> t' = t"
  by (auto simp: target_matches_iff append_eq_append_conv)

text \<open>The longest matching target wins: with an accepted level specification, an event's level
  is that of the longest configured target that equals the event's target or is a module above it,
  and the default level when there is none.\<close>

theorem longest_target_wins:
  assumes "parse_levels v = Inr ls"
  shows "(\<forall>t l. (t, l) \<in> set (targets ls) \<and> target_matches t e
        \<and> (\<forall>(t', l') \<in> set (targets ls). target_matches t' e \<longrightarrow> length t' \<le> length t)
        \<longrightarrow> level_for ls e = l)
    \<and> ((\<forall>(t, l) \<in> set (targets ls). \<not> target_matches t e) \<longrightarrow> level_for ls e = default_level ls)"
proof -
  from assms obtain d ts where ls: "ls = \<lparr>default_level = d, targets = longest_first ts\<rparr>"
    and "\<exists>items. parse_targets [] items = Inr ts"
    by (auto simp: parse_levels_def result_simps split: list.splits)
  then have dist: "distinct (map fst ts)" using parse_targets_distinct by fastforce
  have "level_for ls e = l"
    if m: "(t, l) \<in> set (targets ls)" "target_matches t e"
      "\<forall>(t', l') \<in> set (targets ls). target_matches t' e \<longrightarrow> length t' \<le> length t" for t l
  proof -
    have "List.find (\<lambda>(t, _). target_matches t e) (longest_first ts) = Some (t, l)"
      using m ls target_matches_same_length [OF m(2)]
      by (intro find_longest [OF dist]) (auto simp: longest_first_def)
    with ls show ?thesis by (simp add: level_for_def)
  qed
  moreover have "level_for ls e = default_level ls"
    if "\<forall>(t, l) \<in> set (targets ls). \<not> target_matches t e"
    using that by (fastforce simp: level_for_def split: option.splits dest: find_SomeD)
  ultimately show ?thesis by blast
qed

theorem longest_target_wins_witness:
  "\<exists>ls. parse_levels ''off,sirius_asset_updater=info,sirius_asset_updater::a=trace'' = Inr ls
     \<and> (''sirius_asset_updater::a'', Trace) \<in> set (targets ls)
     \<and> level_for ls ''hyper'' = Off"
proof -
  let ?v = "''off,sirius_asset_updater=info,sirius_asset_updater::a=trace''"
  let ?ls = "\<lparr>default_level = Off, targets =
      [(''sirius_asset_updater::a'', Trace), (''sirius_asset_updater'', Info)]\<rparr>"
  have p: "parse_levels ?v = Inr ?ls"
    by (simp add: parse_levels_def strip_prefix_def parse_level_def target_ok_def APP_TARGET_def
        APP_PREFIX_def starts_with_def longest_first_def is_ascii_alphanumeric_def
        is_ascii_digit_def is_ascii_lowercase_def is_ascii_uppercase_def less_eq_char_def)
  have "level_for ?ls ''hyper'' = Off"
    using longest_target_wins [OF p, of "''hyper''"]
    by (simp add: target_matches_def strip_prefix_def)
  then show ?thesis using p by (intro exI [of _ ?ls]) simp
qed

end
