(* ===== verification/Network.thy ===== *)
theory Network
  imports Environment
begin

text \<open>
  Retry policy and network limits (\<open>src/network.rs\<close>) with the forward-proxy settings
  (\<open>src/proxy.rs\<close>), and the retry loops that the downloader runs with them: the \<open>loop\<close> of
  \<open>CatalogClient::catalog_hash\<close> and the bounded \<open>for\<close> of \<open>download\<close>, \<open>download_assets\<close> and
  \<open>observed_snapshot\<close>. An operation under retry is a function from the attempt number to its
  outcome, which stands for whatever the network does on that attempt.
\<close>

subsection \<open>Retry policy\<close>

record retry_policy =
  attempts :: u64
  delay_ms :: u64
  max_delay_ms :: u64

definition retry_default :: retry_policy where
  "retry_default = \<lparr>attempts = 3, delay_ms = 250, max_delay_ms = 5000\<rparr>"

definition retry_validate :: "retry_policy \<Rightarrow> bool" where
  "retry_validate r \<longleftrightarrow>
     1 \<le> attempts r \<and> attempts r \<le> 8
     \<and> 1 \<le> delay_ms r \<and> delay_ms r \<le> 10000
     \<and> 1 \<le> max_delay_ms r \<and> max_delay_ms r \<le> 30000
     \<and> delay_ms r \<le> max_delay_ms r"

text \<open>\<open>matches!(error, Error::Transport | Error::Status(429 | 500..=599))\<close>\<close>

definition transient :: "error \<Rightarrow> bool" where
  "transient e = (case e of
      error.Transport \<Rightarrow> True
    | error.Status c \<Rightarrow> c = 429 \<or> (500 \<le> c \<and> c \<le> 599)
    | _ \<Rightarrow> False)"

text \<open>\<open>usize\<close> is 64 bits wide; \<open>saturating_add(1)\<close> stops at its maximum.\<close>

definition usize_max :: nat where
  "usize_max = 2 ^ 64 - 1"

definition retry :: "retry_policy \<Rightarrow> error \<Rightarrow> nat \<Rightarrow> bool" where
  "retry r e attempt \<longleftrightarrow> min (attempt + 1) usize_max < unat (attempts r) \<and> transient e"

lemma unat_max_u64 [simp]: "unat (- 1 :: u64) = 18446744073709551615"
  by (simp add: unsigned_minus_1_eq_mask mask_eq_exp_minus_1)

lemma unat_u64_le: "unat (w :: u64) \<le> 18446744073709551615"
  using unsigned_less [of w, where ?'a = nat] by simp

definition checked_shl_one :: "nat \<Rightarrow> u64 option" where
  "checked_shl_one n = (if n < 64 then Some (push_bit n 1) else None)"

definition saturating_mul :: "u64 \<Rightarrow> u64 \<Rightarrow> u64" where
  "saturating_mul a b = (if unat a * unat b < 2 ^ 64 then a * b else - 1)"

lemma retry_lt: "retry r e attempt \<Longrightarrow> attempt + 1 < unat (attempts r)"
  using unat_u64_le [of "attempts r"]
  by (auto simp: retry_def usize_max_def min_def split: if_splits)

lemma retry_iff: "retry r e attempt \<longleftrightarrow> attempt + 1 < unat (attempts r) \<and> transient e"
  using retry_lt by (auto simp: retry_def min_def split: if_splits)

text \<open>\<open>attempt as u32\<close> truncates; a shift of 64 or more is \<open>None\<close>, replaced by \<open>u64::MAX\<close>.\<close>

definition delay :: "retry_policy \<Rightarrow> nat \<Rightarrow> u64" where
  "delay r attempt =
     min (saturating_mul (delay_ms r) (unwrap_or (- 1) (checked_shl_one (attempt mod 2 ^ 32))))
         (max_delay_ms r)"

lemma unat_saturating_mul: "unat (saturating_mul a b) = min (unat a * unat b) (2 ^ 64 - 1)"
proof (cases "unat a * unat b < 2 ^ 64")
  case True
  then show ?thesis by (simp add: saturating_mul_def unat_word_ariths)
next
  case False
  then show ?thesis by (simp add: saturating_mul_def)
qed

lemma unat_checked_shl_one:
  "unat (unwrap_or (- 1) (checked_shl_one n)) = (if n < 64 then 2 ^ n else 2 ^ 64 - 1)"
proof (cases "n < 64")
  case True
  have lt: "(2 :: nat) ^ n < 2 ^ 64" using True by (intro power_strict_increasing) auto
  have "unat (push_bit n 1 :: u64) = take_bit 64 (push_bit n 1)"
    using unsigned_push_bit_eq [of n "1 :: u64", where ?'a = nat] by (simp del: push_bit_of_1)
  also have "\<dots> = take_bit 64 (2 ^ n)" by simp
  also have "\<dots> = 2 ^ n" by (rule take_bit_nat_eq_self [OF lt])
  finally have "unat (push_bit n 1 :: u64) = 2 ^ n" .
  with True show ?thesis by (simp add: checked_shl_one_def)
next
  case False
  then show ?thesis by (simp add: checked_shl_one_def)
qed

lemma unat_min_word: "unat (min a b) = min (unat (a :: u64)) (unat b)"
  by (simp add: min_def word_le_nat_alt)

text \<open>The saturating arithmetic computes the exact exponential backoff, capped.\<close>

lemma unat_delay:
  assumes "attempt < 2 ^ 32"
  shows "unat (delay r attempt) = min (unat (delay_ms r) * 2 ^ attempt) (unat (max_delay_ms r))"
proof -
  let ?d = "unat (delay_ms r)" and ?m = "unat (max_delay_ms r)"
  have m: "?m \<le> 2 ^ 64 - 1" using unat_u64_le [of "max_delay_ms r"] by simp
  have "unat (delay r attempt)
      = min (min (?d * (if attempt < 64 then 2 ^ attempt else 2 ^ 64 - 1)) (2 ^ 64 - 1)) ?m"
    using assms
    by (simp add: delay_def unat_min_word unat_saturating_mul unat_checked_shl_one)
  also have "\<dots> = min (?d * 2 ^ attempt) ?m"
  proof (cases "attempt < 64 \<or> ?d = 0")
    case True
    with m show ?thesis by auto
  next
    case False
    have "(2 :: nat) ^ 64 \<le> 2 ^ attempt" using False by (intro power_increasing) auto
    then have "2 ^ 64 \<le> ?d * 2 ^ attempt" using False by (metis less_one linorder_not_less mult_le_mono nat_mult_1)
    moreover have "(2 :: nat) ^ 64 - 1 \<le> ?d * (2 ^ 64 - 1)" using False by simp
    ultimately show ?thesis using m False by (simp add: min_def)
  qed
  finally show ?thesis .
qed

lemma delay_le_max: "delay r attempt \<le> max_delay_ms r"
  by (simp add: delay_def)

subsection \<open>Network limits\<close>

datatype asset_http_version = Auto | Http1

record proxy_config =
  url_env :: string
  authorization_env :: "string option"

definition env_name_ok :: "string \<Rightarrow> bool" where
  "env_name_ok n \<longleftrightarrow> n \<noteq> [] \<and> length n \<le> 256
     \<and> list_all (\<lambda>b. is_ascii_alphanumeric b \<or> b = CHR ''_'') n"

definition proxy_validate :: "proxy_config \<Rightarrow> error + unit" where
  "proxy_validate p =
     fail_if (\<not> list_all env_name_ok
                (url_env p # (case authorization_env p of None \<Rightarrow> [] | Some a \<Rightarrow> [a])))
       error.Config"

text \<open>
  \<open>ProxyConfig::resolve\<close> up to what the HTTP library does with its result: \<open>proxy_all\<close> says
  whether \<open>reqwest::Proxy::all\<close> accepts the URL and \<open>header_ok\<close> whether the authorization is a
  valid header value. The value returned is the proxy URL text and the authorization, if any.
\<close>

definition proxy_resolve ::
  "url_parser \<Rightarrow> (string \<Rightarrow> bool) \<Rightarrow> (string \<Rightarrow> bool) \<Rightarrow> env \<Rightarrow> proxy_config
   \<Rightarrow> error + (string \<times> string option)" where
  "proxy_resolve parse proxy_all header_ok env p =
     and_then (proxy_validate p) (\<lambda>_.
     and_then (secret env (url_env p)) (\<lambda>value.
     and_then (ok_or error.Config (parse value)) (\<lambda>u.
     and_then (fail_if (4096 < length value \<or> has_whitespace value
           \<or> CHR 0x5C \<in> set value
           \<or> scheme u \<notin> {''http'', ''https''}
           \<or> host_str u = None
           \<or> username u \<noteq> []
           \<or> password u \<noteq> None
           \<or> url_path u \<noteq> ''/''
           \<or> query u \<noteq> None
           \<or> fragment u \<noteq> None) error.Config) (\<lambda>_.
     and_then (fail_if (\<not> proxy_all value) error.Config) (\<lambda>_.
     (case authorization_env p of
        None \<Rightarrow> Inr (value, None)
      | Some name \<Rightarrow>
          and_then (secret env name) (\<lambda>auth.
          and_then (fail_if (4096 < length auth \<or> blank auth) error.Config) (\<lambda>_.
          and_then (fail_if (\<not> header_ok auth) error.Config) (\<lambda>_.
          Inr (value, Some auth))))))))))"

record network =
  asset_http_version :: asset_http_version
  api_proxy :: "proxy_config option"
  cdn_proxy :: "proxy_config option"
  connect_timeout_ms :: nat
  download_timeout_ms :: nat
  snapshot_timeout_ms :: nat
  refresh_timeout_ms :: nat
  revalidate_interval_ms :: nat
  snapshot_retry :: retry_policy
  catalog_retry :: retry_policy
  asset_retry :: retry_policy

definition network_default :: network where
  "network_default =
     \<lparr>asset_http_version = Auto, api_proxy = None, cdn_proxy = None,
      connect_timeout_ms = 10000, download_timeout_ms = 60000, snapshot_timeout_ms = 10000,
      refresh_timeout_ms = 30000, revalidate_interval_ms = 120000,
      snapshot_retry = retry_default\<lparr>delay_ms := 500\<rparr>,
      catalog_retry = retry_default, asset_retry = retry_default\<rparr>"

definition opt_list :: "'a option \<Rightarrow> 'a list" where
  "opt_list x = (case x of None \<Rightarrow> [] | Some v \<Rightarrow> [v])"

definition network_validate :: "network \<Rightarrow> error + unit" where
  "network_validate n =
     and_then (collect_results proxy_validate (opt_list (api_proxy n) @ opt_list (cdn_proxy n))) (\<lambda>_.
     fail_if
       (list_ex (\<lambda>v. \<not> (100 \<le> v \<and> v \<le> 300000))
          [connect_timeout_ms n, download_timeout_ms n, snapshot_timeout_ms n, refresh_timeout_ms n]
        \<or> \<not> (1000 \<le> revalidate_interval_ms n \<and> revalidate_interval_ms n \<le> 120000)
        \<or> \<not> retry_validate (snapshot_retry n)
        \<or> \<not> retry_validate (catalog_retry n)
        \<or> \<not> retry_validate (asset_retry n))
       error.Config)"

lemma network_default_valid: "network_validate network_default = Inr ()"
  by (simp add: network_validate_def network_default_def retry_default_def retry_validate_def
      opt_list_def)

lemma network_validate_retries:
  assumes "network_validate n = Inr u"
  shows "retry_validate (snapshot_retry n)" "retry_validate (catalog_retry n)"
    "retry_validate (asset_retry n)"
  using assms by (auto simp: network_validate_def result_simps)

lemma retry_validate_attempts:
  "retry_validate r \<Longrightarrow> 1 \<le> unat (attempts r) \<and> unat (attempts r) \<le> 8"
  by (simp add: retry_validate_def word_le_nat_alt)

subsection \<open>Retry loops\<close>

text \<open>
  The outcome of a run and the sleeps between its attempts. \<open>loop_retry\<close> is the unbounded
  \<open>loop\<close>; it stops because a retry is granted only while another attempt is left.
\<close>

function loop_retry :: "retry_policy \<Rightarrow> (nat \<Rightarrow> error + 'a) \<Rightarrow> nat \<Rightarrow> (error + 'a) \<times> u64 list" where
  "loop_retry r op attempt =
     (case op attempt of
        Inr v \<Rightarrow> (Inr v, [])
      | Inl e \<Rightarrow>
          (if retry r e attempt
           then (let (res, sleeps) = loop_retry r op (attempt + 1)
                 in (res, delay r attempt # sleeps))
           else (Inl e, [])))"
  by pat_completeness auto
termination
  by (relation "measure (\<lambda>(r, op, attempt). unat (attempts r) - attempt)")
    (auto dest: retry_lt)

declare loop_retry.simps [simp del]

text \<open>\<open>for attempt in 0..attempts\<close> with \<open>downloaded.ok_or(Error::Transport)\<close> after the loop.\<close>

fun for_retry :: "retry_policy \<Rightarrow> (nat \<Rightarrow> error + 'a) \<Rightarrow> nat list \<Rightarrow> (error + 'a) \<times> u64 list" where
  "for_retry r op [] = (Inl error.Transport, [])"
| "for_retry r op (attempt # rest) =
     (case op attempt of
        Inr v \<Rightarrow> (Inr v, [])
      | Inl e \<Rightarrow>
          (if \<not> retry r e attempt then (Inl e, [])
           else (let (res, sleeps) = for_retry r op rest
                 in (res, delay r attempt # sleeps))))"

definition run_for_retry :: "retry_policy \<Rightarrow> (nat \<Rightarrow> error + 'a) \<Rightarrow> (error + 'a) \<times> u64 list" where
  "run_for_retry r op = for_retry r op [0..<unat (attempts r)]"

text \<open>The loop of \<open>observed_snapshot\<close>: falling out of it is \<open>unreachable!\<close>, a panic (\<open>None\<close>).\<close>

fun snapshot_loop :: "retry_policy \<Rightarrow> (nat \<Rightarrow> error + 'a) \<Rightarrow> nat list \<Rightarrow> (error + 'a) option" where
  "snapshot_loop r op [] = None"
| "snapshot_loop r op (attempt # rest) =
     (case op attempt of
        Inl e \<Rightarrow> if retry r e attempt then snapshot_loop r op rest else Some (Inl e)
      | Inr v \<Rightarrow> Some (Inr v))"

definition run_snapshot_loop :: "retry_policy \<Rightarrow> (nat \<Rightarrow> error + 'a) \<Rightarrow> (error + 'a) option" where
  "run_snapshot_loop r op = snapshot_loop r op [0..<unat (attempts r)]"

lemma for_retry_loop:
  assumes "attempt < unat (attempts r)"
  shows "for_retry r op [attempt..<unat (attempts r)] = loop_retry r op attempt"
  using assms
proof (induction r op attempt rule: loop_retry.induct)
  case (1 r op attempt)
  have upt: "[attempt..<unat (attempts r)] = attempt # [Suc attempt..<unat (attempts r)]"
    using "1.prems" by (simp add: upt_conv_Cons)
  show ?case
  proof (cases "op attempt")
    case (Inl e)
    show ?thesis
    proof (cases "retry r e attempt")
      case True
      then have "attempt + 1 < unat (attempts r)" by (rule retry_lt)
      with "1.IH" Inl True "1.prems"
      have "for_retry r op [Suc attempt..<unat (attempts r)] = loop_retry r op (attempt + 1)" by simp
      with upt Inl True show ?thesis
        by (simp add: loop_retry.simps [of r op attempt])
    next
      case False
      with upt Inl show ?thesis by (simp add: loop_retry.simps [of r op attempt])
    qed
  next
    case (Inr v)
    with upt show ?thesis by (simp add: loop_retry.simps [of r op attempt])
  qed
qed

lemma snapshot_loop_loop:
  assumes "attempt < unat (attempts r)"
  shows "snapshot_loop r op [attempt..<unat (attempts r)] = Some (fst (loop_retry r op attempt))"
  using assms
proof (induction r op attempt rule: loop_retry.induct)
  case (1 r op attempt)
  have upt: "[attempt..<unat (attempts r)] = attempt # [Suc attempt..<unat (attempts r)]"
    using "1.prems" by (simp add: upt_conv_Cons)
  show ?case
  proof (cases "op attempt")
    case (Inl e)
    show ?thesis
    proof (cases "retry r e attempt")
      case True
      then have "attempt + 1 < unat (attempts r)" by (rule retry_lt)
      with "1.IH" Inl True "1.prems"
      have "snapshot_loop r op [Suc attempt..<unat (attempts r)]
          = Some (fst (loop_retry r op (attempt + 1)))" by simp
      with upt Inl True show ?thesis
        by (simp add: loop_retry.simps [of r op attempt] split: prod.splits)
    next
      case False
      with upt Inl show ?thesis by (simp add: loop_retry.simps [of r op attempt])
    qed
  next
    case (Inr v)
    with upt show ?thesis by (simp add: loop_retry.simps [of r op attempt])
  qed
qed

text \<open>What a run returns: the outcome of its last attempt, all earlier ones having failed with a
  transient error; a failure is returned only when it is not transient or no attempt is left.\<close>

lemma loop_retry_result:
  assumes "attempt < unat (attempts r)"
  shows "\<exists>k. attempt \<le> k \<and> k < unat (attempts r)
      \<and> fst (loop_retry r op attempt) = op k
      \<and> snd (loop_retry r op attempt) = map (delay r) [attempt..<k]
      \<and> (\<forall>j. attempt \<le> j \<and> j < k \<longrightarrow> (\<exists>e. op j = Inl e \<and> transient e))
      \<and> (\<forall>e. op k = Inl e \<longrightarrow> k + 1 = unat (attempts r) \<or> \<not> transient e)"
  using assms
proof (induction r op attempt rule: loop_retry.induct)
  case (1 r op attempt)
  show ?case
  proof (cases "op attempt")
    case (Inr v)
    with "1.prems" show ?thesis
      by (intro exI [of _ attempt]) (auto simp: loop_retry.simps [of r op attempt])
  next
    case (Inl e)
    show ?thesis
    proof (cases "retry r e attempt")
      case False
      with Inl "1.prems" have "attempt + 1 = unat (attempts r) \<or> \<not> transient e"
        by (auto simp: retry_iff)
      with Inl False "1.prems" show ?thesis
        by (intro exI [of _ attempt]) (auto simp: loop_retry.simps [of r op attempt])
    next
      case True
      then have lt: "attempt + 1 < unat (attempts r)" by (rule retry_lt)
      from "1.IH" [OF Inl True] lt "1.prems" obtain k where k:
        "attempt + 1 \<le> k" "k < unat (attempts r)" "fst (loop_retry r op (attempt + 1)) = op k"
        "snd (loop_retry r op (attempt + 1)) = map (delay r) [attempt + 1..<k]"
        "\<forall>j. attempt + 1 \<le> j \<and> j < k \<longrightarrow> (\<exists>e. op j = Inl e \<and> transient e)"
        "\<forall>e. op k = Inl e \<longrightarrow> k + 1 = unat (attempts r) \<or> \<not> transient e" by blast
      have "transient e" using True by (simp add: retry_def)
      with k(5) Inl have "\<forall>j. attempt \<le> j \<and> j < k \<longrightarrow> (\<exists>e. op j = Inl e \<and> transient e)"
        by (metis Suc_eq_plus1 Suc_leI le_neq_implies_less)
      moreover have "[attempt..<k] = attempt # [attempt + 1..<k]"
        using k(1) by (simp add: upt_conv_Cons)
      ultimately show ?thesis using k Inl True
        by (intro exI [of _ k])
          (auto simp: loop_retry.simps [of r op attempt] split: prod.splits)
    qed
  qed
qed

subsection \<open>Properties\<close>

text \<open>The retry delay is the capped exponential backoff it is meant to be: shifting, saturating
  multiplication and the cap together never wrap around, whatever the policy's 64-bit values.\<close>

theorem backoff_is_capped_exponential:
  assumes "attempt < 2 ^ 32"
  shows "unat (delay r attempt) = min (unat (delay_ms r) * 2 ^ attempt) (unat (max_delay_ms r))"
  by (rule unat_delay [OF assms])

theorem backoff_is_capped_exponential_witness:
  "unat (delay retry_default 4) = 4000 \<and> unat (delay retry_default 70) = 5000"
  using backoff_is_capped_exponential [of 4 retry_default]
    backoff_is_capped_exponential [of 70 retry_default]
  by (simp add: retry_default_def)

text \<open>Under a validated policy the three retry loops of the program are one loop: the bounded
  loop around downloads and the unbounded one around the hash request give the same result after the
  same sleeps, and the snapshot loop never reaches its \<open>unreachable!\<close>. The result is that of the last
  attempt made, at most eight; every earlier attempt failed with a transient error, and a failure is
  returned only when it is not transient or no attempt is left.\<close>

theorem retry_loops_agree:
  assumes "retry_validate r"
  shows "run_for_retry r op = loop_retry r op 0
    \<and> run_snapshot_loop r op = Some (fst (loop_retry r op 0))
    \<and> (\<exists>k < 8. fst (loop_retry r op 0) = op k
        \<and> snd (loop_retry r op 0) = map (delay r) [0..<k]
        \<and> (\<forall>j < k. \<exists>e. op j = Inl e \<and> transient e)
        \<and> (\<forall>e. op k = Inl e \<longrightarrow> k + 1 = unat (attempts r) \<or> \<not> transient e))"
proof -
  from retry_validate_attempts [OF assms] have a: "0 < unat (attempts r)" "unat (attempts r) \<le> 8" by auto
  from loop_retry_result [OF a(1), of op] a(2) have
    "\<exists>k < 8. fst (loop_retry r op 0) = op k \<and> snd (loop_retry r op 0) = map (delay r) [0..<k]
        \<and> (\<forall>j < k. \<exists>e. op j = Inl e \<and> transient e)
        \<and> (\<forall>e. op k = Inl e \<longrightarrow> k + 1 = unat (attempts r) \<or> \<not> transient e)"
    by (meson less_le_trans zero_le)
  with for_retry_loop [OF a(1), of op] snapshot_loop_loop [OF a(1), of op] show ?thesis
    by (simp add: run_for_retry_def run_snapshot_loop_def)
qed

theorem retry_loops_agree_witness:
  "run_for_retry retry_default (\<lambda>k. if k = 0 then Inl (error.Status 503) else Inr (7 :: nat))
     = (Inr 7, [250])"
proof -
  let ?op = "\<lambda>k :: nat. if k = 0 then Inl (error.Status 503) else Inr (7 :: nat)"
  have v: "retry_validate retry_default" by (simp add: retry_validate_def retry_default_def)
  have "loop_retry retry_default ?op 0 = (Inr 7, [delay retry_default 0])"
    by (subst loop_retry.simps, subst loop_retry.simps) (simp add: retry_iff retry_default_def transient_def)
  moreover have "delay retry_default 0 = 250"
    by (simp add: delay_def retry_default_def saturating_mul_def checked_shl_one_def)
  ultimately show ?thesis using retry_loops_agree [OF v, of ?op] by simp
qed

end
