(* ===== verification/Safe_Paths.thy ===== *)
theory Safe_Paths
  imports Errors
begin

text \<open>
  The path checks of the updater: \<open>component\<close> (\<open>src/lib.rs\<close>), \<open>safe_relative\<close>
  (\<open>src/assets.rs\<close>), \<open>safe_path\<close> (\<open>src/raw_bundles.rs\<close>) and \<open>valid_key\<close>
  (\<open>src/stable_layout.rs\<close>). The locale \<open>path_guard\<close> is what their callers rely on: an
  accepted path, joined to any directory, names something strictly below that directory, and two
  different accepted paths name different files.
\<close>

subsection \<open>The checks\<close>

definition component :: "string \<Rightarrow> bool" where
  "component s \<longleftrightarrow>
     s \<noteq> [] \<and> s \<noteq> ''.'' \<and> s \<noteq> ''..'' \<and> length s \<le> 256
     \<and> list_all (\<lambda>b. is_ascii_alphanumeric b \<or> b = CHR ''-'' \<or> b = CHR ''_'' \<or> b = CHR ''.'') s"

definition safe_relative :: "string \<Rightarrow> bool" where
  "safe_relative path \<longleftrightarrow>
     length path \<le> 2048 \<and> path \<noteq> []
     \<and> list_all (\<lambda>part.
          part \<noteq> [] \<and> part \<noteq> ''.'' \<and> part \<noteq> ''..'' \<and> length part \<le> 255
          \<and> list_all (\<lambda>c. is_ascii_alphanumeric c \<or> c \<in> set ''._-()'') part)
        (split_on (CHR ''/'') path)"

definition safe_path :: "string \<Rightarrow> bool" where
  "safe_path s \<longleftrightarrow>
     s \<noteq> [] \<and> length s \<le> 2048
     \<and> \<not> (CHR 0x5C \<in> set s \<or> CHR '':'' \<in> set s)
     \<and> \<not> has_control s
     \<and> list_all (\<lambda>p. p \<noteq> [] \<and> p \<noteq> ''.'' \<and> p \<noteq> ''..'') (split_on (CHR ''/'') s)"

definition valid_key :: "string \<Rightarrow> bool" where
  "valid_key key \<longleftrightarrow>
     key \<noteq> [] \<and> length key \<le> 1024
     \<and> \<not> (CHR 0x5C \<in> set key \<or> CHR 0x00 \<in> set key)
     \<and> \<not> has_control key
     \<and> list_all (\<lambda>part. part \<noteq> [] \<and> part \<noteq> ''.'' \<and> part \<noteq> ''..'' \<and> length part \<le> 255)
        (split_on (CHR ''/'') key)"

subsection \<open>Where a path leads\<close>

text \<open>
  How an operating system reads the components of a path below a directory \<open>st\<close> (both as lists
  of names, outermost first): empty names and \<open>.\<close> stay, \<open>..\<close> goes up, every other name goes
  down. \<open>None\<close> is an attempt to leave the file system's root.
\<close>

fun walk :: "string list \<Rightarrow> string list \<Rightarrow> string list option" where
  "walk st [] = Some st"
| "walk st (p # ps) =
     (if p = [] \<or> p = ''.'' then walk st ps
      else if p = ''..'' then (if st = [] then None else walk (butlast st) ps)
      else walk (st @ [p]) ps)"

definition proper_name :: "string \<Rightarrow> bool" where
  "proper_name p \<longleftrightarrow> p \<noteq> [] \<and> p \<noteq> ''.'' \<and> p \<noteq> ''..''"

lemma walk_proper: "list_all proper_name ps \<Longrightarrow> walk st ps = Some (st @ ps)"
  by (induction ps arbitrary: st) (auto simp: proper_name_def)

lemma control_free: "\<not> has_control s \<Longrightarrow> c \<in> set s \<Longrightarrow> 32 \<le> (of_char c :: nat) \<and> of_char c \<noteq> (127 :: nat)"
  by (induction s rule: has_control.induct) auto

text \<open>The contract of a path check.\<close>

locale path_guard =
  fixes ok :: "string \<Rightarrow> bool"
  assumes guard_proper: "ok p \<Longrightarrow> list_all proper_name (split_on (CHR ''/'') p)"
    and guard_chars: "ok p \<Longrightarrow> c \<in> set p \<Longrightarrow> c \<noteq> CHR 0x5C \<and> 32 \<le> (of_char c :: nat)"
begin

lemma guard_stays_below:
  "ok p \<Longrightarrow> walk root (split_on (CHR ''/'') p) = Some (root @ split_on (CHR ''/'') p)"
  using guard_proper walk_proper by blast

lemma guard_strictly_below:
  assumes "ok p"
  shows "\<exists>names. names \<noteq> [] \<and> walk root (split_on (CHR ''/'') p) = Some (root @ names)"
  using guard_stays_below [OF assms] by (intro exI [of _ "split_on (CHR ''/'') p"]) simp

lemma guard_injective:
  assumes "ok p" and "ok q"
    and "walk root (split_on (CHR ''/'') p) = walk root (split_on (CHR ''/'') q)"
  shows "p = q"
  using assms by (auto simp: guard_stays_below dest: split_on_inj)

lemma guard_not_absolute: "ok p \<Longrightarrow> p \<noteq> [] \<and> hd p \<noteq> CHR ''/''"
  using guard_proper [of p] by (cases p) (auto simp: proper_name_def)

lemma guard_no_nul: "ok p \<Longrightarrow> CHR 0x00 \<notin> set p"
  using guard_chars [of p "CHR 0x00"] by auto

end

lemma alphanumeric_range:
  assumes "is_ascii_alphanumeric c"
  shows "48 \<le> (of_char c :: nat)" "c \<noteq> CHR 0x5C" "c \<noteq> CHR ''/''"
  using assms
  by (auto simp: is_ascii_alphanumeric_def is_ascii_digit_def is_ascii_lowercase_def
      is_ascii_uppercase_def less_eq_char_def)

lemma in_split_or_sep:
  "c \<in> set s \<Longrightarrow> c = d \<or> (\<exists>part \<in> set (split_on d s). c \<in> set part)"
proof (induction s)
  case (Cons x s)
  then show ?case by (cases "split_on d s") (auto split: if_splits)
qed simp

lemma safe_relative_parts:
  assumes "safe_relative p" and "part \<in> set (split_on (CHR ''/'') p)"
  shows "proper_name part" "list_all (\<lambda>c. is_ascii_alphanumeric c \<or> c \<in> set ''._-()'') part"
  using assms by (auto simp: safe_relative_def proper_name_def list_all_iff)

lemma safe_relative_char:
  assumes "safe_relative p" and "c \<in> set p"
  shows "c = CHR ''/'' \<or> is_ascii_alphanumeric c \<or> c \<in> set ''._-()''"
  using in_split_or_sep [OF assms(2), of "CHR ''/''"] safe_relative_parts(2) [OF assms(1)]
  by (auto simp: list_all_iff)

interpretation relative: path_guard safe_relative
proof
  fix p
  assume "safe_relative p"
  then show "list_all proper_name (split_on (CHR ''/'') p)"
    by (auto simp: list_all_iff dest: safe_relative_parts(1))
next
  fix p c
  assume "safe_relative p" "c \<in> set p"
  from safe_relative_char [OF this] show "c \<noteq> CHR 0x5C \<and> 32 \<le> (of_char c :: nat)"
    using alphanumeric_range [of c] by auto
qed

interpretation raw: path_guard safe_path
proof
  fix p
  assume "safe_path p"
  then show "list_all proper_name (split_on (CHR ''/'') p)"
    by (auto simp: safe_path_def proper_name_def list_all_iff)
next
  fix p c
  assume "safe_path p" "c \<in> set p"
  then show "c \<noteq> CHR 0x5C \<and> 32 \<le> (of_char c :: nat)"
    using control_free [of p c] by (auto simp: safe_path_def)
qed

interpretation key: path_guard valid_key
proof
  fix p
  assume "valid_key p"
  then show "list_all proper_name (split_on (CHR ''/'') p)"
    by (auto simp: valid_key_def proper_name_def list_all_iff)
next
  fix p c
  assume "valid_key p" "c \<in> set p"
  then show "c \<noteq> CHR 0x5C \<and> 32 \<le> (of_char c :: nat)"
    using control_free [of p c] by (auto simp: valid_key_def)
qed

lemma component_free: "component s \<Longrightarrow> CHR ''/'' \<notin> set s"
  using alphanumeric_range(3) [of "CHR ''/''"] by (auto simp: component_def list_all_iff)

interpretation single: path_guard component
proof
  fix p
  assume "component p"
  then show "list_all proper_name (split_on (CHR ''/'') p)"
    by (simp add: split_on_free component_free) (simp add: component_def proper_name_def)
next
  fix p c
  assume "component p" "c \<in> set p"
  then have "is_ascii_alphanumeric c \<or> c \<in> set ''-_.''"
    by (auto simp: component_def list_all_iff)
  then show "c \<noteq> CHR 0x5C \<and> 32 \<le> (of_char c :: nat)"
    using alphanumeric_range [of c] by auto
qed

text \<open>No accepted path escapes: joined to any directory, a path accepted by one of the four
  checks leads strictly below that directory, and two different accepted paths never lead to the
  same file.\<close>

theorem accepted_paths_contained:
  assumes "ok \<in> {safe_relative, safe_path, valid_key, component}" and "ok p" and "ok q"
  shows "(\<exists>names. names \<noteq> [] \<and> walk root (split_on (CHR ''/'') p) = Some (root @ names))
    \<and> (walk root (split_on (CHR ''/'') p) = walk root (split_on (CHR ''/'') q) \<longrightarrow> p = q)
    \<and> CHR 0x00 \<notin> set p \<and> CHR 0x5C \<notin> set p \<and> hd p \<noteq> CHR ''/''"
proof -
  from assms(1) have "path_guard ok"
    using relative.path_guard_axioms raw.path_guard_axioms key.path_guard_axioms
      single.path_guard_axioms by auto
  then show ?thesis
    using assms(2,3) path_guard.guard_strictly_below path_guard.guard_injective
      path_guard.guard_no_nul path_guard.guard_chars path_guard.guard_not_absolute
    by (metis (no_types, lifting))
qed

theorem accepted_paths_contained_witness:
  "walk [''srv''] (split_on (CHR ''/'') ''a/b-1.bin'') = Some [''srv'', ''a'', ''b-1.bin'']
   \<and> \<not> safe_relative ''a/../b'' \<and> CHR 0x00 \<notin> set ''a/b-1.bin''"
proof -
  have ok: "safe_relative ''a/b-1.bin''"
    by (simp add: safe_relative_def is_ascii_alphanumeric_def is_ascii_digit_def
        is_ascii_lowercase_def is_ascii_uppercase_def less_eq_char_def)
  have bad: "\<not> safe_relative ''a/../b''"
    by (simp add: safe_relative_def)
  from accepted_paths_contained [of safe_relative, OF _ ok ok] bad show ?thesis by simp
qed

end
