(* ===== verification/Configuration.thy ===== *)
theory Configuration
  imports Region Network Safe_Paths App_Log
begin

text \<open>
  The updater's configuration and its validation: \<open>Selection\<close> (\<open>src/catalog.rs\<close>),
  \<open>AssetConfig\<close> (\<open>src/assets.rs\<close>), \<open>Config\<close> and \<open>CdnAuth\<close> (\<open>src/lib.rs\<close>). The URL parser
  and the regex compiler are arguments; \<open>Option\<close> fields keep their \<open>Option\<close>.
\<close>

subsection \<open>Catalog selection\<close>

record selection =
  sel_keys :: "string list"
  sel_include :: "string list"
  sel_exclude :: "string list"
  sel_priority :: "string list"

definition selection_default :: selection where
  "selection_default = \<lparr>sel_keys = [], sel_include = [], sel_exclude = [], sel_priority = []\<rparr>"

definition patterns :: "regex_compiler \<Rightarrow> string list \<Rightarrow> error + (string \<Rightarrow> bool) list" where
  "patterns rx vs =
     and_then (fail_if (128 < length vs \<or> list_ex (\<lambda>v. 2048 < length v) vs) error.Config) (\<lambda>_.
     collect_results (\<lambda>v. ok_or error.Config (rx v)) vs)"

definition selection_validate :: "regex_compiler \<Rightarrow> selection \<Rightarrow> error + unit" where
  "selection_validate rx s =
     and_then (fail_if (256 < length (sel_keys s)
         \<or> list_ex (\<lambda>k. k = [] \<or> 2048 < length k \<or> has_control k) (sel_keys s)) error.Config) (\<lambda>_.
     and_then (patterns rx (sel_include s)) (\<lambda>_.
     and_then (patterns rx (sel_exclude s)) (\<lambda>_.
     and_then (patterns rx (sel_priority s)) (\<lambda>_. Inr ()))))"

subsection \<open>Asset settings\<close>

record decrypt_config =
  key_hex_env :: string
  nonce_seed_hex_env :: string

record asset_config =
  selection :: selection
  concurrency :: nat
  cache_directory :: "string option"
  max_file_bytes :: nat
  max_total_bytes :: nat
  decrypt :: "decrypt_config option"

definition default_concurrency :: nat where
  "default_concurrency = 4"

definition default_max_file :: nat where
  "default_max_file = 512 * 1024 * 1024"

definition default_max_total :: nat where
  "default_max_total = 16 * 1024 * 1024 * 1024"

definition asset_config_validate :: "regex_compiler \<Rightarrow> asset_config \<Rightarrow> error + unit" where
  "asset_config_validate rx c =
     and_then (selection_validate rx (selection c)) (\<lambda>_.
     and_then (fail_if (cache_directory c = Some []) error.Config) (\<lambda>_.
     fail_if (\<not> (1 \<le> concurrency c \<and> concurrency c \<le> 16)
         \<or> max_file_bytes c < 8
         \<or> 2 * 1024 * 1024 * 1024 < max_file_bytes c
         \<or> max_total_bytes c < max_file_bytes c
         \<or> 128 * 1024 * 1024 * 1024 < max_total_bytes c) error.Config))"

lemma asset_config_bounds:
  assumes "asset_config_validate rx c = Inr u"
  shows "1 \<le> concurrency c" "concurrency c \<le> 16" "8 \<le> max_file_bytes c"
    "max_file_bytes c \<le> max_total_bytes c" "max_total_bytes c \<le> 128 * 1024 * 1024 * 1024"
  using assms by (auto simp: asset_config_validate_def result_simps)

subsection \<open>CDN roots and layouts\<close>

text \<open>\<open>CdnAuthorization\<close>: HTTP Basic, or none (anonymous).\<close>

datatype cdn_authorization = Basic | Anonymous

record cdn_auth =
  authorization :: cdn_authorization
  username_env :: string
  credential_env :: string

datatype catalog_layout = JpLayout | GlobalLayout

definition for_region :: "region \<Rightarrow> catalog_layout" where
  "for_region r = (if family r = ''global'' then GlobalLayout else JpLayout)"

definition CATALOG_LOCALES :: "string list" where
  "CATALOG_LOCALES = [''en'', ''zh-Hant'', ''zh-Hans'', ''ko'']"

definition GLOBAL_REMOTE_PLACEHOLDER :: string where
  "GLOBAL_REMOTE_PLACEHOLDER = ''https://dummy.net''"

definition root :: "url_parser \<Rightarrow> string \<Rightarrow> bool \<Rightarrow> bool" where
  "root parse s allow_local = is_some_and (\<lambda>u.
       host_str u \<noteq> None
       \<and> username u = []
       \<and> password u = None
       \<and> url_path u = ''/''
       \<and> query u = None
       \<and> fragment u = None
       \<and> \<not> ends_with s ''/''
       \<and> (scheme u = ''https''
          \<or> (allow_local \<and> scheme u = ''http''
             \<and> host_str u \<in> {Some ''127.0.0.1'', Some ''[::1]''}))) (parse s)"

definition cdn_root :: "url_parser \<Rightarrow> string \<Rightarrow> bool" where
  "cdn_root parse s = is_some_and (\<lambda>u.
       scheme u = ''https''
       \<and> host_str u \<noteq> None
       \<and> username u = []
       \<and> password u = None
       \<and> query u = None
       \<and> fragment u = None
       \<and> \<not> ends_with s ''/''
       \<and> CHR ''%'' \<notin> set s
       \<and> CHR 0x5C \<notin> set s
       \<and> \<not> list_ex (\<lambda>p. p = ''.'' \<or> p = ''..'') (split_on (CHR ''/'') s)
       \<and> list_all (\<lambda>p. list_all (\<lambda>b. is_ascii_alphanumeric b \<or> b \<in> set ''-_.'') p)
            (split_on (CHR ''/'') (url_path u))) (parse s)"

subsection \<open>The configuration\<close>

record config =
  cfg_logging :: "app_log_config option"
  cfg_region :: region
  cfg_platform :: "platform option"
  cfg_protocol_version :: "string option"
  cfg_game_api_root :: string
  cfg_network :: network
  cfg_regional_routes :: bool
  cfg_internal_token_env :: string
  cfg_refresh_token_env :: "string option"
  cfg_environment :: string
  cfg_client_version :: string
  cfg_output :: string
  cfg_cdn_roots :: "(string \<times> cdn_auth) list"
  cfg_assets :: "asset_config option"
  cfg_catalog_locale :: "string option"

definition platform_of :: "config \<Rightarrow> platform" where
  "platform_of c = unwrap_or (default_platform (cfg_region c)) (cfg_platform c)"

definition protocol_version_of :: "config \<Rightarrow> string" where
  "protocol_version_of c = unwrap_or (region_protocol_version (cfg_region c)) (cfg_protocol_version c)"

definition api_url :: "config \<Rightarrow> bool \<Rightarrow> string \<Rightarrow> string" where
  "api_url c internal endpoint =
     (let scope = (if internal then ''internal'' else ''api'') in
      if cfg_regional_routes c
      then cfg_game_api_root c @ ''/'' @ scope @ ''/v1/'' @ name (cfg_region c) @ ''/'' @ endpoint
      else cfg_game_api_root c @ ''/'' @ scope @ ''/v1/'' @ endpoint)"

definition cdn_auth_valid :: "bool \<Rightarrow> cdn_auth \<Rightarrow> bool" where
  "cdn_auth_valid global a = (case authorization a of
      Basic \<Rightarrow> username_env a \<noteq> [] \<and> credential_env a \<noteq> []
    | Anonymous \<Rightarrow> global \<and> username_env a = [] \<and> credential_env a = [])"

text \<open>
  The outside world of validation: the URL parser, the regex compiler, and the parsers that the
  logging settings use.
\<close>

record parsers =
  parse_url :: url_parser
  compile_regex :: regex_compiler
  parse_header_name :: "string \<Rightarrow> string option"
  parse_net :: "string \<Rightarrow> (ip \<Rightarrow> bool) option"

definition root_of_other_region :: "url_parser \<Rightarrow> region \<Rightarrow> string \<Rightarrow> bool" where
  "root_of_other_region parse r v = is_some_and (\<lambda>u.
     \<not> matches_known_service r (unwrap_or [] (host_str u)) (url_path u)) (parse v)"

definition config_validate :: "parsers \<Rightarrow> config \<Rightarrow> error + unit" where
  "config_validate ps c =
     and_then (case cfg_logging c of
         None \<Rightarrow> Inr ()
       | Some l \<Rightarrow> fail_if (\<not> is_ok (app_log_validate (parse_header_name ps) (parse_net ps) l))
           error.Config) (\<lambda>_.
     and_then (network_validate (cfg_network c)) (\<lambda>_.
     and_then (fail_if (cfg_region c = Cn) error.ReservedRegion) (\<lambda>_.
     and_then (fail_if (list_ex (root_of_other_region (parse_url ps) (cfg_region c))
         (map fst (cfg_cdn_roots c))) error.Config) (\<lambda>_.
     and_then (case cfg_assets c of
         None \<Rightarrow> Inr ()
       | Some a \<Rightarrow> asset_config_validate (compile_regex ps) a) (\<lambda>_.
     (let global = (family (cfg_region c) = ''global'') in
     and_then (fail_if (is_some_and (\<lambda>l. \<not> global \<or> l \<notin> set CATALOG_LOCALES) (cfg_catalog_locale c))
         error.Config) (\<lambda>_.
     and_then (fail_if (list_ex (\<lambda>a. \<not> cdn_auth_valid global a) (map snd (cfg_cdn_roots c)))
         error.Config) (\<lambda>_.
     fail_if (\<not> root (parse_url ps) (cfg_game_api_root c) True
         \<or> \<not> component (cfg_environment c)
         \<or> \<not> component (cfg_client_version c)
         \<or> \<not> component (protocol_version_of c)
         \<or> cfg_output c = []
         \<or> cfg_cdn_roots c = []
         \<or> list_ex (\<lambda>s. \<not> cdn_root (parse_url ps) s) (map fst (cfg_cdn_roots c))) error.Config))))))))"

lemma config_validate_facts:
  assumes "config_validate ps c = Inr u"
  shows "cfg_region c \<noteq> Cn" "network_validate (cfg_network c) = Inr ()"
    "\<And>l. cfg_catalog_locale c = Some l \<Longrightarrow> for_region (cfg_region c) = GlobalLayout \<and> l \<in> set CATALOG_LOCALES"
    "\<And>r a. (r, a) \<in> set (cfg_cdn_roots c) \<Longrightarrow>
       cdn_auth_valid (for_region (cfg_region c) = GlobalLayout) a \<and> cdn_root (parse_url ps) r"
    "\<And>a. cfg_assets c = Some a \<Longrightarrow> asset_config_validate (compile_regex ps) a = Inr ()"
    "cfg_cdn_roots c \<noteq> []"
  using assms
  by (auto simp: config_validate_def result_simps for_region_def Let_def list_ex_iff
      is_some_and_def split: option.splits)

lemma for_region_cases: "r \<noteq> Cn \<Longrightarrow> for_region r = (if r = Jp then JpLayout else GlobalLayout)"
  by (cases r) (simp_all add: for_region_def family_def)

lemma jp_roots_are_basic:
  assumes "config_validate ps c = Inr u" and "cfg_region c = Jp" and "(r, a) \<in> set (cfg_cdn_roots c)"
  shows "authorization a = Basic"
  using config_validate_facts(4) [OF assms(1,3)] assms(2)
  by (cases "authorization a") (auto simp: cdn_auth_valid_def for_region_def family_def)

end
