(* ===== verification/Snapshot.thy ===== *)
theory Snapshot
  imports Configuration
begin

text \<open>
  Version snapshots (\<open>src/lib.rs\<close>): the check that turns a snapshot and the configuration into
  the URLs of one download (\<open>SnapshotResponse::target\<close>), the region of a recorded snapshot
  (\<open>region_identity\<close>), the remote directory of a published receipt (\<open>Receipt::remote\<close>) and
  the comparison that pins a running download to its snapshot (\<open>revalidate\<close> in
  \<open>src/readiness.rs\<close>).

  Times are integers counting nanoseconds; \<open>num_milliseconds\<close> truncates towards zero.
\<close>

record snapshot =
  snap_region :: "region option"
  snap_schema_version :: nat
  snap_environment :: string
  snap_platform :: string
  snap_client_version :: string
  snap_protocol_version :: string
  snap_master_version :: "string option"
  snap_resource_version :: string
  snap_platform_hash :: string
  snap_effective_cdn_root :: string
  snap_credential_ref :: string
  snap_observed_at :: int
  snap_source :: string
  snap_catalog_layout :: "catalog_layout option"
  snap_catalog_url :: "string option"
  snap_bundle_base_url :: "string option"
  snap_cdn_authorization :: "cdn_authorization option"

record snapshot_response =
  resp_snapshot :: snapshot
  resp_stale :: bool

record catalog_target =
  layout :: catalog_layout
  catalog_url :: string
  hash_url :: "string option"
  bundle_base_url :: string
  remote_placeholder :: "string option"
  target_authorization :: cdn_authorization

definition num_milliseconds :: "int \<Rightarrow> int" where
  "num_milliseconds ns = sgn ns * (\<bar>ns\<bar> div 1000000)"

definition lower_hex32 :: "string \<Rightarrow> bool" where
  "lower_hex32 v \<longleftrightarrow> length v = 32 \<and> list_all is_lower_hexdigit v"

definition explicit_fields :: "snapshot \<Rightarrow> bool list" where
  "explicit_fields s =
     [snap_catalog_layout s \<noteq> None, snap_catalog_url s \<noteq> None,
      snap_bundle_base_url s \<noteq> None, snap_cdn_authorization s \<noteq> None]"

definition schema_matches :: "snapshot \<Rightarrow> config \<Rightarrow> bool" where
  "schema_matches s c =
     (if snap_schema_version s = 1 then
        snap_region s = None \<and> cfg_region c = Jp \<and> platform_of c = Ios
        \<and> snap_protocol_version s = ''1.0.3''
      else if snap_schema_version s = 2 then snap_region s = Some (cfg_region c)
      else if snap_schema_version s = 3 then snap_region s = Some (cfg_region c)
      else False)"

text \<open>The first guard of \<open>target\<close>: freshness and identity.\<close>

definition snapshot_rejected :: "snapshot_response \<Rightarrow> config \<Rightarrow> int \<Rightarrow> bool" where
  "snapshot_rejected r c now =
     (let s = resp_snapshot r; age = num_milliseconds (now - snap_observed_at s) in
      resp_stale r
      \<or> \<not> (0 \<le> age \<and> age \<le> 300000)
      \<or> \<not> schema_matches s c
      \<or> list_ex (\<lambda>present. present \<noteq> (snap_schema_version s = 3)) (explicit_fields s)
      \<or> snap_environment s \<noteq> cfg_environment c
      \<or> snap_platform s \<noteq> platform_name (platform_of c)
      \<or> snap_client_version s \<noteq> cfg_client_version c
      \<or> snap_protocol_version s \<noteq> protocol_version_of c
      \<or> snap_source s \<noteq> ''remote''
      \<or> \<not> component (snap_resource_version s)
      \<or> \<not> component (snap_platform_hash s))"

definition catalog_stem :: "string \<Rightarrow> string \<Rightarrow> string option \<Rightarrow> string" where
  "catalog_stem base version locale = (case locale of
      Some l \<Rightarrow> base @ ''/catalog_'' @ version @ ''_'' @ l
    | None \<Rightarrow> base @ ''/catalog_'' @ version)"

text \<open>The URLs of a layout: the base catalog's URL and the target.\<close>

definition layout_urls :: "catalog_layout \<Rightarrow> cdn_authorization \<Rightarrow> snapshot \<Rightarrow> config \<Rightarrow> string \<times> catalog_target" where
  "layout_urls lay auth s c =
     (let r = snap_effective_cdn_root s; p = platform_name (platform_of c);
          v = snap_resource_version s in
      case lay of
        JpLayout \<Rightarrow>
          (let base = r @ ''/asset/'' @ v @ ''/'' @ p @ ''/'' @ snap_platform_hash s;
               catalog = base @ ''/catalog_main.bin''
           in (catalog, \<lparr>layout = lay, catalog_url = catalog, hash_url = None,
                 bundle_base_url = base, remote_placeholder = None, target_authorization = auth\<rparr>))
      | GlobalLayout \<Rightarrow>
          (let base = r @ ''/asset/'' @ p; stem = catalog_stem base v (cfg_catalog_locale c)
           in (base @ ''/catalog_'' @ v @ ''.bin'',
               \<lparr>layout = lay, catalog_url = stem @ ''.bin'', hash_url = Some (stem @ ''.hash''),
                bundle_base_url = base,
                remote_placeholder = Some (GLOBAL_REMOTE_PLACEHOLDER @ ''/asset/'' @ p),
                target_authorization = auth\<rparr>)))"

definition expected_ref :: "cdn_auth \<Rightarrow> string" where
  "expected_ref a = (case authorization a of Basic \<Rightarrow> credential_env a | Anonymous \<Rightarrow> [])"

definition snapshot_target :: "snapshot_response \<Rightarrow> config \<Rightarrow> int \<Rightarrow> error + catalog_target" where
  "snapshot_target r c now =
     (let s = resp_snapshot r in
      and_then (fail_if (snapshot_rejected r c now) error.Snapshot) (\<lambda>_.
      (let lay = unwrap_or JpLayout (snap_catalog_layout s);
           auth = unwrap_or Basic (snap_cdn_authorization s) in
      and_then (fail_if (lay \<noteq> for_region (cfg_region c)
          \<or> (lay = GlobalLayout \<and> \<not> lower_hex32 (snap_platform_hash s))
          \<or> (lay = JpLayout \<and> cfg_catalog_locale c \<noteq> None)) error.Snapshot) (\<lambda>_.
      and_then (ok_or error.Snapshot (map_of (cfg_cdn_roots c) (snap_effective_cdn_root s))) (\<lambda>a.
      and_then (fail_if (auth \<noteq> authorization a \<or> snap_credential_ref s \<noteq> expected_ref a)
          error.Snapshot) (\<lambda>_.
      (let (base_catalog, target) = layout_urls lay auth s c in
      and_then (fail_if (is_some_and (\<lambda>u. u \<noteq> base_catalog) (snap_catalog_url s)
          \<or> is_some_and (\<lambda>u. u \<noteq> bundle_base_url target) (snap_bundle_base_url s))
          error.Snapshot) (\<lambda>_.
      Inr target))))))))"

text \<open>\<open>SnapshotResponse::catalog_url\<close>\<close>

definition snapshot_catalog_url :: "snapshot_response \<Rightarrow> config \<Rightarrow> int \<Rightarrow> error + string" where
  "snapshot_catalog_url r c now = and_then (snapshot_target r c now) (\<lambda>t. Inr (catalog_url t))"

definition known_platform :: "string \<Rightarrow> bool" where
  "known_platform p \<longleftrightarrow> p = ''iOS'' \<or> p = ''Android''"

definition region_identity :: "snapshot \<Rightarrow> error + region" where
  "region_identity s =
     (case snap_region s of
        None \<Rightarrow>
          if snap_schema_version s = 1 \<and> snap_platform s = ''iOS''
             \<and> snap_protocol_version s = ''1.0.3''
          then Inr Jp else Inl error.Verification
      | Some r \<Rightarrow>
          if snap_schema_version s = 2 \<and> r \<noteq> Cn \<and> snap_catalog_layout s = None
             \<and> known_platform (snap_platform s) then Inr r
          else if snap_schema_version s = 3 \<and> r \<noteq> Cn
             \<and> snap_catalog_layout s = Some (for_region r)
             \<and> known_platform (snap_platform s) then Inr r
          else Inl error.Verification)"

text \<open>The catalog's \<open>.hash\<close> body: 32 hexadecimal digits after trimming, in lower case. A body that
  is not UTF-8 is \<open>None\<close> in the source; it holds a non-ASCII byte and fails the digit check.\<close>

definition catalog_hash :: "string \<Rightarrow> string option" where
  "catalog_hash body =
     (let t = trim body in
      if length t = 32 \<and> list_all is_ascii_hexdigit t then Some (to_ascii_lowercase t) else None)"

subsection \<open>Receipts\<close>

text \<open>The fields of a receipt that later steps read; \<open>'u\<close> is the type of the update record.\<close>

record 'u receipt =
  rcpt_snapshot :: snapshot
  rcpt_catalog_url :: string
  rcpt_bytes :: nat
  rcpt_sha256 :: string
  rcpt_downloaded_at :: int
  rcpt_catalog_layout :: "catalog_layout option"
  rcpt_bundle_base_url :: "string option"
  rcpt_catalog_locale :: "string option"
  rcpt_catalog_hash :: "string option"
  rcpt_update :: "'u option"

definition remote :: "'u receipt \<Rightarrow> error + (string \<times> string option)" where
  "remote r =
     (let lay = unwrap_or JpLayout (rcpt_catalog_layout r);
          s = rcpt_snapshot r; p = snap_platform s in
      and_then (fail_if (\<not> known_platform p) error.Verification) (\<lambda>_.
      (case lay of
         JpLayout \<Rightarrow>
           and_then (ok_or error.Verification (strip_suffix ''/catalog_main.bin'' (rcpt_catalog_url r)))
             (\<lambda>derived.
           and_then (fail_if (is_some_and (\<lambda>b. b \<noteq> derived) (rcpt_bundle_base_url r)
               \<or> rcpt_catalog_locale r \<noteq> None) error.Verification) (\<lambda>_.
           Inr (derived, None)))
       | GlobalLayout \<Rightarrow>
           and_then (ok_or error.Verification (rcpt_bundle_base_url r)) (\<lambda>base.
           (let expected = snap_effective_cdn_root s @ ''/asset/'' @ p;
                stem = catalog_stem base (snap_resource_version s) (rcpt_catalog_locale r) @ ''.bin'' in
           and_then (fail_if (base \<noteq> expected
               \<or> rcpt_catalog_url r \<noteq> stem
               \<or> is_some_and (\<lambda>l. l \<notin> set CATALOG_LOCALES) (rcpt_catalog_locale r))
               error.Verification) (\<lambda>_.
           Inr (base, Some (GLOBAL_REMOTE_PLACEHOLDER @ ''/asset/'' @ p))))))))"

text \<open>The receipt that \<open>CatalogClient::download\<close> writes for a target.\<close>

definition make_receipt ::
  "snapshot_response \<Rightarrow> config \<Rightarrow> catalog_target \<Rightarrow> nat \<Rightarrow> string \<Rightarrow> int \<Rightarrow> string option \<Rightarrow> 'u option
   \<Rightarrow> 'u receipt" where
  "make_receipt r c t len sha now hash update =
     \<lparr>rcpt_snapshot = resp_snapshot r, rcpt_catalog_url = catalog_url t, rcpt_bytes = len,
      rcpt_sha256 = sha, rcpt_downloaded_at = now, rcpt_catalog_layout = Some (layout t),
      rcpt_bundle_base_url = Some (bundle_base_url t), rcpt_catalog_locale = cfg_catalog_locale c,
      rcpt_catalog_hash = hash, rcpt_update = update\<rparr>"

subsection \<open>Pinning\<close>

text \<open>\<open>revalidate\<close>: the current snapshot against the pinned one, field by field; \<open>master_version\<close>,
  \<open>observed_at\<close> and \<open>source\<close> may differ.\<close>

definition same_release :: "snapshot \<Rightarrow> snapshot \<Rightarrow> bool" where
  "same_release old new \<longleftrightarrow>
     snap_region old = snap_region new
     \<and> snap_environment old = snap_environment new
     \<and> snap_client_version old = snap_client_version new
     \<and> snap_resource_version old = snap_resource_version new
     \<and> snap_platform_hash old = snap_platform_hash new
     \<and> snap_platform old = snap_platform new
     \<and> snap_protocol_version old = snap_protocol_version new
     \<and> snap_effective_cdn_root old = snap_effective_cdn_root new
     \<and> snap_credential_ref old = snap_credential_ref new
     \<and> snap_schema_version old = snap_schema_version new
     \<and> snap_catalog_layout old = snap_catalog_layout new
     \<and> snap_catalog_url old = snap_catalog_url new
     \<and> snap_bundle_base_url old = snap_bundle_base_url new
     \<and> snap_cdn_authorization old = snap_cdn_authorization new"

text \<open>\<open>observed\<close> is the outcome of \<open>observed_snapshot\<close>.\<close>

definition revalidate :: "error + snapshot_response \<Rightarrow> snapshot_response \<Rightarrow> error + unit" where
  "revalidate observed pinned =
     and_then observed (\<lambda>current.
     fail_if (\<not> same_release (resp_snapshot pinned) (resp_snapshot current)) error.Snapshot)"

subsection \<open>Facts about accepted snapshots\<close>

lemma platform_name_known: "known_platform (platform_name p)"
  by (cases p) (simp_all add: known_platform_def)

lemma snapshot_target_facts:
  assumes "snapshot_target r c now = Inr t"
  shows "\<not> snapshot_rejected r c now"
    "unwrap_or JpLayout (snap_catalog_layout (resp_snapshot r)) = for_region (cfg_region c)"
    "for_region (cfg_region c) = JpLayout \<Longrightarrow> cfg_catalog_locale c = None"
    "\<exists>a. map_of (cfg_cdn_roots c) (snap_effective_cdn_root (resp_snapshot r)) = Some a
       \<and> target_authorization t = authorization a
       \<and> snap_credential_ref (resp_snapshot r) = expected_ref a"
    "t = snd (layout_urls (for_region (cfg_region c)) (target_authorization t) (resp_snapshot r) c)"
  using assms
  by (auto simp: snapshot_target_def Let_def result_simps layout_urls_def
      split: prod.splits catalog_layout.splits)

lemma layout_urls_fields:
  assumes "t = snd (layout_urls lay auth s c)"
  shows "layout t = lay" "target_authorization t = auth"
    "lay = JpLayout \<Longrightarrow> bundle_base_url t
        = snap_effective_cdn_root s @ ''/asset/'' @ snap_resource_version s @ ''/''
          @ platform_name (platform_of c) @ ''/'' @ snap_platform_hash s
      \<and> catalog_url t = bundle_base_url t @ ''/catalog_main.bin'' \<and> remote_placeholder t = None
      \<and> hash_url t = None"
    "lay = GlobalLayout \<Longrightarrow>
        bundle_base_url t = snap_effective_cdn_root s @ ''/asset/'' @ platform_name (platform_of c)
      \<and> catalog_url t
          = catalog_stem (bundle_base_url t) (snap_resource_version s) (cfg_catalog_locale c) @ ''.bin''
      \<and> remote_placeholder t
          = Some (GLOBAL_REMOTE_PLACEHOLDER @ ''/asset/'' @ platform_name (platform_of c))"
  using assms by (auto simp: layout_urls_def Let_def split: catalog_layout.splits)

lemma not_rejected_facts:
  assumes "\<not> snapshot_rejected r c now"
  shows "\<not> resp_stale r" "schema_matches (resp_snapshot r) c"
    "0 \<le> num_milliseconds (now - snap_observed_at (resp_snapshot r))"
    "num_milliseconds (now - snap_observed_at (resp_snapshot r)) \<le> 300000"
    "snap_platform (resp_snapshot r) = platform_name (platform_of c)"
    "snap_protocol_version (resp_snapshot r) = protocol_version_of c"
    "snap_environment (resp_snapshot r) = cfg_environment c"
    "snap_client_version (resp_snapshot r) = cfg_client_version c"
    "component (snap_resource_version (resp_snapshot r))"
    "component (snap_platform_hash (resp_snapshot r))"
    "(snap_catalog_layout (resp_snapshot r) \<noteq> None) = (snap_schema_version (resp_snapshot r) = 3)"
  using assms by (auto simp: snapshot_rejected_def Let_def explicit_fields_def)

lemma target_region_identity:
  assumes "config_validate ps c = Inr ()" and "snapshot_target r c now = Inr t"
  shows "region_identity (resp_snapshot r) = Inr (cfg_region c)"
proof -
  note facts = not_rejected_facts [OF snapshot_target_facts(1) [OF assms(2)]]
  note lay = snapshot_target_facts(2) [OF assms(2)]
  have cn: "cfg_region c \<noteq> Cn" by (rule config_validate_facts(1) [OF assms(1)])
  have plat: "known_platform (snap_platform (resp_snapshot r))"
    using facts(5) platform_name_known by simp
  from facts(2) cn plat facts(5,11) lay show ?thesis
    by (auto simp: schema_matches_def region_identity_def split: if_splits option.splits)
qed

lemma receipt_remote:
  assumes "config_validate ps c = Inr ()" and "snapshot_target r c now = Inr t"
  shows "remote (make_receipt r c t len sha at hash u) = Inr (bundle_base_url t, remote_placeholder t)"
proof -
  note facts = not_rejected_facts [OF snapshot_target_facts(1) [OF assms(2)]]
  note t = layout_urls_fields [OF snapshot_target_facts(5) [OF assms(2)]]
  have plat: "known_platform (snap_platform (resp_snapshot r))"
    using facts(5) platform_name_known by simp
  show ?thesis
  proof (cases "for_region (cfg_region c)")
    case JpLayout
    have none: "cfg_catalog_locale c = None"
      by (rule snapshot_target_facts(3) [OF assms(2) JpLayout])
    have url: "catalog_url t = bundle_base_url t @ ''/catalog_main.bin''"
      and ph: "remote_placeholder t = None"
      using t(3) [OF JpLayout] by auto
    show ?thesis
      using plat none ph t(1) JpLayout
      by (simp add: remote_def make_receipt_def url strip_suffix_append Let_def del: append_assoc)
  next
    case GlobalLayout
    have loc: "l \<in> set CATALOG_LOCALES" if "cfg_catalog_locale c = Some l" for l
      using config_validate_facts(3) [OF assms(1) that] by simp
    then have "\<not> is_some_and (\<lambda>l. l \<notin> set CATALOG_LOCALES) (cfg_catalog_locale c)"
      by (cases "cfg_catalog_locale c") auto
    then show ?thesis
      using plat t(1) t(4) [OF GlobalLayout] GlobalLayout facts(5)
      by (simp add: remote_def make_receipt_def Let_def)
  qed
qed

text \<open>The segments of a URL's path below \<open>/asset/\<close> of a CDN root, and the segments that neither
  leave that directory nor need decoding, so that no part of a snapshot can redirect a download.\<close>

definition asset_segments :: "string \<Rightarrow> string \<Rightarrow> string list option" where
  "asset_segments cdn u =
     (case strip_prefix (cdn @ ''/asset/'') u of
        None \<Rightarrow> None | Some rel \<Rightarrow> Some (split_on (CHR ''/'') rel))"

definition plain_segment :: "string \<Rightarrow> bool" where
  "plain_segment s \<longleftrightarrow> s \<noteq> [] \<and> s \<noteq> ''.'' \<and> s \<noteq> ''..''
     \<and> list_all (\<lambda>b. is_ascii_alphanumeric b \<or> b \<in> set ''-_.'') s"

lemma component_plain: "component s \<Longrightarrow> plain_segment s"
  by (auto simp: component_def plain_segment_def list_all_iff)

lemma plain_segment_free: "plain_segment s \<Longrightarrow> CHR ''/'' \<notin> set s"
  using alphanumeric_range(3) [of "CHR ''/''"] by (auto simp: plain_segment_def list_all_iff)

lemma asset_segments_join:
  assumes "ps \<noteq> []" and "list_all plain_segment ps"
  shows "asset_segments cdn (cdn @ ''/asset/'' @ join_on ''/'' ps) = Some ps"
proof -
  have "strip_prefix (cdn @ ''/asset/'') ((cdn @ ''/asset/'') @ join_on ''/'' ps)
      = Some (join_on ''/'' ps)"
    by (rule strip_prefix_append)
  moreover have "split_on (CHR ''/'') (join_on ''/'' ps) = ps"
    by (rule split_join) (use assms plain_segment_free in \<open>auto simp: list_all_iff\<close>)
  ultimately show ?thesis by (simp add: asset_segments_def)
qed

text \<open>The path segments that a target's bundle directory and catalog must have.\<close>

definition bundle_segments :: "snapshot \<Rightarrow> config \<Rightarrow> string list" where
  "bundle_segments s c =
     (if cfg_region c = Jp
      then [snap_resource_version s, snap_platform s, snap_platform_hash s]
      else [snap_platform s])"

definition catalog_segment :: "snapshot \<Rightarrow> config \<Rightarrow> string" where
  "catalog_segment s c =
     (if cfg_region c = Jp then ''catalog_main.bin''
      else ''catalog_'' @ snap_resource_version s
        @ (case cfg_catalog_locale c of None \<Rightarrow> [] | Some l \<Rightarrow> ''_'' @ l) @ ''.bin'')"

lemma platform_plain: "plain_segment (platform_name p)"
  by (cases p) (simp_all add: plain_segment_def is_ascii_alphanumeric_def
      is_ascii_lowercase_def is_ascii_uppercase_def is_ascii_digit_def less_eq_char_def)

lemma locale_plain:
  "l \<in> set CATALOG_LOCALES \<Longrightarrow> list_all (\<lambda>b. is_ascii_alphanumeric b \<or> b \<in> set ''-_.'') l"
  by (auto simp: CATALOG_LOCALES_def is_ascii_alphanumeric_def is_ascii_lowercase_def
      is_ascii_uppercase_def is_ascii_digit_def less_eq_char_def)

lemma catalog_segment_plain:
  assumes "component (snap_resource_version s)"
    and "\<And>l. cfg_catalog_locale c = Some l \<Longrightarrow> l \<in> set CATALOG_LOCALES"
  shows "plain_segment (catalog_segment s c)"
proof -
  have "list_all (\<lambda>b. is_ascii_alphanumeric b \<or> b \<in> set ''-_.'')
      (''catalog_'' @ ''catalog_main.bin'' @ ''_'' @ ''.bin'')"
    by (simp add: is_ascii_alphanumeric_def is_ascii_lowercase_def is_ascii_uppercase_def
        is_ascii_digit_def less_eq_char_def)
  moreover have "list_all (\<lambda>b. is_ascii_alphanumeric b \<or> b \<in> set ''-_.'') (snap_resource_version s)"
    using component_plain [OF assms(1)] by (simp add: plain_segment_def)
  ultimately show ?thesis
    using locale_plain [OF assms(2)]
    by (auto simp: plain_segment_def catalog_segment_def split: option.splits)
qed

lemma target_segments:
  assumes valid: "config_validate ps c = Inr ()" and granted: "snapshot_target r c now = Inr t"
  defines "s \<equiv> resp_snapshot r"
  shows "asset_segments (snap_effective_cdn_root s) (bundle_base_url t) = Some (bundle_segments s c)"
    "asset_segments (snap_effective_cdn_root s) (catalog_url t)
       = Some (bundle_segments s c @ [catalog_segment s c])"
    "list_all plain_segment (bundle_segments s c @ [catalog_segment s c])"
proof -
  note facts = not_rejected_facts [OF snapshot_target_facts(1) [OF granted]]
  note t = layout_urls_fields [OF snapshot_target_facts(5) [OF granted]]
  note lay = for_region_cases [OF config_validate_facts(1) [OF valid]]
  have cat: "plain_segment (catalog_segment s c)"
    by (rule catalog_segment_plain)
      (use facts(9) config_validate_facts(3) [OF valid] in \<open>auto simp: s_def\<close>)
  have bun: "list_all plain_segment (bundle_segments s c)"
    using facts(5,9,10) platform_plain by (simp add: bundle_segments_def s_def component_plain)
  show all: "list_all plain_segment (bundle_segments s c @ [catalog_segment s c])"
    using cat bun by simp
  have urls: "bundle_base_url t
        = snap_effective_cdn_root s @ ''/asset/'' @ join_on ''/'' (bundle_segments s c)
      \<and> catalog_url t = snap_effective_cdn_root s @ ''/asset/''
          @ join_on ''/'' (bundle_segments s c @ [catalog_segment s c])"
    using t(3,4) lay facts(5)
    by (auto simp: bundle_segments_def catalog_segment_def catalog_stem_def s_def
        split: option.splits if_splits)
  have ne: "bundle_segments s c \<noteq> []" by (simp add: bundle_segments_def)
  from urls asset_segments_join [OF ne bun]
  show "asset_segments (snap_effective_cdn_root s) (bundle_base_url t) = Some (bundle_segments s c)"
    by simp
  from urls asset_segments_join [OF _ all]
  show "asset_segments (snap_effective_cdn_root s) (catalog_url t)
      = Some (bundle_segments s c @ [catalog_segment s c])"
    by simp
qed

lemma target_announced:
  assumes "snapshot_target r c now = Inr t" and "snap_schema_version (resp_snapshot r) = 3"
  shows "snap_bundle_base_url (resp_snapshot r) = Some (bundle_base_url t)"
    "cfg_catalog_locale c = None \<Longrightarrow> snap_catalog_url (resp_snapshot r) = Some (catalog_url t)"
    "snap_catalog_layout (resp_snapshot r) = Some (layout t)"
    "snap_cdn_authorization (resp_snapshot r) = Some (target_authorization t)"
proof -
  have ex: "snap_bundle_base_url (resp_snapshot r) \<noteq> None" "snap_catalog_url (resp_snapshot r) \<noteq> None"
    "snap_catalog_layout (resp_snapshot r) \<noteq> None" "snap_cdn_authorization (resp_snapshot r) \<noteq> None"
    using snapshot_target_facts(1) [OF assms(1)] assms(2)
    by (auto simp: snapshot_rejected_def Let_def explicit_fields_def)
  then show "snap_bundle_base_url (resp_snapshot r) = Some (bundle_base_url t)"
    "cfg_catalog_locale c = None \<Longrightarrow> snap_catalog_url (resp_snapshot r) = Some (catalog_url t)"
    "snap_catalog_layout (resp_snapshot r) = Some (layout t)"
    "snap_cdn_authorization (resp_snapshot r) = Some (target_authorization t)"
    using assms(1)
    by (auto simp: snapshot_target_def Let_def result_simps layout_urls_def catalog_stem_def
        is_some_and_def split: prod.splits catalog_layout.splits option.splits)
qed


definition example_config :: config where
  "example_config = \<lparr>cfg_logging = None, cfg_region = En, cfg_platform = None,
     cfg_protocol_version = None, cfg_game_api_root = ''https://api'', cfg_network = network_default,
     cfg_regional_routes = True, cfg_internal_token_env = ''T'', cfg_refresh_token_env = None,
     cfg_environment = ''production'', cfg_client_version = ''1.0.0'', cfg_output = ''out'',
     cfg_cdn_roots = [(''https://cdn'', \<lparr>authorization = Anonymous, username_env = [],
        credential_env = []\<rparr>)],
     cfg_assets = None, cfg_catalog_locale = Some ''en''\<rparr>"

definition example_hash :: string where
  "example_hash = ''0123456789abcdef0123456789abcdef''"

definition example_response :: snapshot_response where
  "example_response = \<lparr>resp_snapshot = \<lparr>snap_region = Some En, snap_schema_version = 3,
     snap_environment = ''production'', snap_platform = ''Android'', snap_client_version = ''1.0.0'',
     snap_protocol_version = ''1.0.1'', snap_master_version = None, snap_resource_version = ''7'',
     snap_platform_hash = example_hash, snap_effective_cdn_root = ''https://cdn'',
     snap_credential_ref = [], snap_observed_at = 0, snap_source = ''remote'',
     snap_catalog_layout = Some GlobalLayout,
     snap_catalog_url = Some ''https://cdn/asset/Android/catalog_7.bin'',
     snap_bundle_base_url = Some ''https://cdn/asset/Android'',
     snap_cdn_authorization = Some Anonymous\<rparr>, resp_stale = False\<rparr>"

definition example_url :: "string \<Rightarrow> url option" where
  "example_url s = Some \<lparr>scheme = ''https'', host_str = Some ''h'', username = [], password = None,
     url_path = ''/'', query = None, fragment = None\<rparr>"

definition example_parsers :: parsers where
  "example_parsers = \<lparr>parse_url = example_url, compile_regex = (\<lambda>_. None),
     parse_header_name = Some, parse_net = (\<lambda>_. None)\<rparr>"

lemmas example_defs = example_config_def example_response_def example_hash_def example_url_def
  example_parsers_def

lemmas ascii_defs = is_ascii_alphanumeric_def is_ascii_digit_def is_ascii_lowercase_def
  is_ascii_uppercase_def is_lower_hexdigit_def less_eq_char_def

lemma example_valid: "config_validate example_parsers example_config = Inr ()"
  by (simp add: config_validate_def example_defs network_default_valid family_def
      root_of_other_region_def matches_known_service_def known_service_region_def ends_with_def
      CATALOG_LOCALES_def cdn_auth_valid_def root_def cdn_root_def component_def
      protocol_version_of_def region_protocol_version_def ascii_defs)

lemma example_target:
  "\<exists>t. snapshot_target example_response example_config 5000000 = Inr t
     \<and> catalog_url t = ''https://cdn/asset/Android/catalog_7_en.bin''"
  by (simp add: snapshot_target_def snapshot_rejected_def example_defs num_milliseconds_def
      schema_matches_def explicit_fields_def platform_of_def default_platform_def
      protocol_version_of_def region_protocol_version_def component_def ascii_defs
      for_region_def family_def lower_hex32_def layout_urls_def catalog_stem_def expected_ref_def
      Let_def)


text \<open>What is published can be re-checked offline: under a validated configuration, the receipt
  written for a granted target resolves to exactly the bundle directory and placeholder the
  download used, and its snapshot identifies the configured region.\<close>

theorem receipt_roundtrip:
  assumes "config_validate ps c = Inr ()" and "snapshot_target r c now = Inr t"
  shows "remote (make_receipt r c t len sha at hash u) = Inr (bundle_base_url t, remote_placeholder t)
    \<and> region_identity (rcpt_snapshot (make_receipt r c t len sha at hash u)) = Inr (cfg_region c)"
  using receipt_remote [OF assms] target_region_identity [OF assms]
  by (simp add: make_receipt_def)

theorem receipt_roundtrip_witness:
  "\<exists>t. snapshot_target example_response example_config 5000000 = Inr t
     \<and> remote (make_receipt example_response example_config t 9 [] 0 None (None :: unit option))
         = Inr (bundle_base_url t, remote_placeholder t)"
proof -
  obtain t where t: "snapshot_target example_response example_config 5000000 = Inr t"
    using example_target by blast
  from receipt_roundtrip [OF example_valid t, of 9 "[]" 0 None "None :: unit option"] t
  show ?thesis by blast
qed

text \<open>A snapshot that passes revalidation leads to the same place: when the current snapshot is
  itself accepted and revalidation against the pinned one succeeds, its target is the pinned
  snapshot's target, so no file of another release can be mixed in.\<close>

theorem revalidated_target_unchanged:
  assumes "revalidate (Inr current) pinned = Inr ()"
    and "snapshot_target pinned c now = Inr t" and "snapshot_target current c later = Inr t'"
  shows "t' = t"
proof -
  have same: "same_release (resp_snapshot pinned) (resp_snapshot current)"
    using assms(1) by (simp add: revalidate_def result_simps)
  have "target_authorization t' = target_authorization t"
    using snapshot_target_facts(4) [OF assms(2)] snapshot_target_facts(4) [OF assms(3)] same
    by (auto simp: same_release_def)
  moreover have "layout_urls l a (resp_snapshot pinned) c = layout_urls l a (resp_snapshot current) c"
    for l a using same by (cases l) (simp_all add: layout_urls_def same_release_def Let_def)
  ultimately show ?thesis
    using snapshot_target_facts(5) [OF assms(2)] snapshot_target_facts(5) [OF assms(3)] by metis
qed

theorem revalidated_target_unchanged_witness:
  "\<exists>t t'. snapshot_target example_response example_config 5000000 = Inr t
     \<and> snapshot_target example_response example_config 7000000 = Inr t' \<and> t' = t"
proof -
  obtain t where t: "snapshot_target example_response example_config 5000000 = Inr t"
    using example_target by blast
  have "\<exists>t'. snapshot_target example_response example_config 7000000 = Inr t'"
    by (simp add: snapshot_target_def snapshot_rejected_def example_defs num_milliseconds_def
        schema_matches_def explicit_fields_def platform_of_def default_platform_def
        protocol_version_of_def region_protocol_version_def component_def ascii_defs
        for_region_def family_def lower_hex32_def layout_urls_def catalog_stem_def expected_ref_def
        Let_def)
  then obtain t' where t': "snapshot_target example_response example_config 7000000 = Inr t'" ..
  have same: "revalidate (Inr example_response) example_response = Inr ()"
    by (simp add: revalidate_def same_release_def)
  from revalidated_target_unchanged [OF same t t'] t t' show ?thesis by blast
qed

end
