(* ===== verification/Catalog_Reader.thy ===== *)
theory Catalog_Reader
  imports Errors
begin

unbundle bit_operations_syntax

text \<open>
  The bounded reader of an Addressables binary catalog (\<open>Reader\<close> in \<open>src/catalog.rs\<close>): every
  read is checked against the length of the input, strings are charged to a budget, and a chained
  (dynamic) string visits at most 256 distinct nodes.

  Offsets are 32-bit words of the file read as \<open>usize\<close>, which is 64 bits wide: they are natural
  numbers here, with the overflow check of \<open>checked_add\<close> kept. The mutable \<open>string_budget\<close> is
  passed in and returned.
\<close>

definition NONE :: u32 where
  "NONE = 0xFFFFFFFF"

definition MASK :: u32 where
  "MASK = 0x3FFFFFFF"

definition DYNAMIC :: u32 where
  "DYNAMIC = 0x40000000"

definition UNICODE :: u32 where
  "UNICODE = 0x80000000"

definition MAX_LOCATIONS :: nat where
  "MAX_LOCATIONS = 100000"

definition MAX_LINKS :: nat where
  "MAX_LINKS = 1000000"

subsection \<open>Bytes and words\<close>

definition read_bytes :: "byte list \<Rightarrow> nat \<Rightarrow> nat \<Rightarrow> error + byte list" where
  "read_bytes bs offset len =
     (if 2 ^ 64 \<le> offset + len then Inl error.Catalog
      else if offset + len \<le> length bs then Inr (take len (drop offset bs))
      else Inl error.Catalog)"

definition read_u32 :: "byte list \<Rightarrow> nat \<Rightarrow> error + u32" where
  "read_u32 bs offset = and_then (read_bytes bs offset 4) (\<lambda>b. Inr (u32_from_le b))"

text \<open>\<open>offset.checked_sub(4).ok_or(Error::Catalog)\<close>\<close>

definition size_offset :: "nat \<Rightarrow> error + nat" where
  "size_offset offset = (if 4 \<le> offset then Inr (offset - 4) else Inl error.Catalog)"

definition read_array :: "byte list \<Rightarrow> u32 \<Rightarrow> nat \<Rightarrow> error + byte list" where
  "read_array bs ref stride =
     (if ref = NONE then Inr []
      else (let offset = unat ref in
        and_then (size_offset offset) (\<lambda>p.
        and_then (read_u32 bs p) (\<lambda>sz.
        (let n = unat sz in
        and_then (fail_if (n mod stride \<noteq> 0 \<or> MAX_LINKS < n div stride) error.Catalog) (\<lambda>_.
        read_bytes bs offset n))))))"

definition read_ids :: "byte list \<Rightarrow> u32 \<Rightarrow> error + u32 list" where
  "read_ids bs ref = and_then (read_array bs ref 4) (\<lambda>b. Inr (map u32_from_le (chunks_of 4 b)))"

subsection \<open>Strings\<close>

definition char_of_byte :: "byte \<Rightarrow> char" where
  "char_of_byte b = char_of (unat b)"

text \<open>\<open>String::from_utf16\<close>: unpaired surrogates are errors; the result is UTF-8.\<close>

fun utf16_decode :: "nat list \<Rightarrow> nat list option" where
  "utf16_decode [] = Some []"
| "utf16_decode (u # us) =
     (if u < 0xD800 \<or> 0xDFFF < u then map_option ((#) u) (utf16_decode us)
      else if 0xDBFF < u then None
      else (case us of
          [] \<Rightarrow> None
        | v # vs \<Rightarrow>
            if 0xDC00 \<le> v \<and> v \<le> 0xDFFF
            then map_option ((#) (0x10000 + (u - 0xD800) * 0x400 + (v - 0xDC00))) (utf16_decode vs)
            else None))"

definition utf8_encode :: "nat \<Rightarrow> string" where
  "utf8_encode c =
     map char_of
       (if c < 0x80 then [c]
        else if c < 0x800 then [0xC0 + c div 0x40, 0x80 + c mod 0x40]
        else if c < 0x10000 then
          [0xE0 + c div 0x1000, 0x80 + c div 0x40 mod 0x40, 0x80 + c mod 0x40]
        else
          [0xF0 + c div 0x40000, 0x80 + c div 0x1000 mod 0x40, 0x80 + c div 0x40 mod 0x40,
           0x80 + c mod 0x40])"

definition units_of :: "byte list \<Rightarrow> nat list" where
  "units_of bs =
     map (\<lambda>b. case b of [x, y] \<Rightarrow> unat (u16_from_le x y) | _ \<Rightarrow> 0) (chunks_of 2 bs)"

definition plain_string :: "byte list \<Rightarrow> nat \<Rightarrow> u32 \<Rightarrow> error + (string \<times> nat)" where
  "plain_string bs budget ref =
     (if ref = NONE then Inr ([], budget)
      else (let offset = unat (ref AND MASK) in
        and_then (size_offset offset) (\<lambda>p.
        and_then (read_u32 bs p) (\<lambda>sz.
        (let len = unat sz in
        and_then (fail_if (64 * 1024 < len) error.Catalog) (\<lambda>_.
        and_then (if len \<le> budget then Inr (budget - len) else Inl error.Catalog) (\<lambda>budget'.
        and_then (read_bytes bs offset len) (\<lambda>b.
        (if ref AND UNICODE \<noteq> 0
         then and_then (fail_if (len mod 2 \<noteq> 0) error.Catalog) (\<lambda>_.
              and_then (ok_or error.Catalog (utf16_decode (units_of b))) (\<lambda>cs.
              Inr (concat (map utf8_encode cs), budget')))
         else and_then (fail_if (\<not> list_all (\<lambda>x. x < 128) b) error.Catalog) (\<lambda>_.
              Inr (map char_of_byte b, budget')))))))))))"

text \<open>
  The chain of a dynamic string, from its last part to its first; \<open>parts\<close> has the part read last
  at its head, which is the reversed order the source joins in.
\<close>

function read_chain ::
  "byte list \<Rightarrow> string \<Rightarrow> nat \<Rightarrow> u32 \<Rightarrow> u32 list \<Rightarrow> nat \<Rightarrow> string list \<Rightarrow> error + (string list \<times> nat)" where
  "read_chain bs separator budget next seen len parts =
     (if next = NONE then Inr (parts, budget)
      else (let offset = next AND MASK in
        if offset \<in> set seen \<or> 256 < Suc (length seen) then Inl error.Catalog
        else
          and_then (read_u32 bs (unat offset)) (\<lambda>r.
          and_then (plain_string bs budget r) (\<lambda>(part, budget').
          (let len' = len + length part + length separator in
           if 64 * 1024 < len' then Inl error.Catalog
           else and_then (read_u32 bs (unat offset + 4)) (\<lambda>next'.
             read_chain bs separator budget' next' (offset # seen) len' (part # parts)))))))"
  by pat_completeness auto
termination
  by (relation "measure (\<lambda>(bs, separator, budget, next, seen, len, parts). 256 - length seen)") auto

declare read_chain.simps [simp del]

definition read_string :: "byte list \<Rightarrow> nat \<Rightarrow> u32 \<Rightarrow> string \<Rightarrow> error + (string \<times> nat)" where
  "read_string bs budget ref separator =
     (if ref = NONE \<or> ref AND DYNAMIC = 0 then plain_string bs budget ref
      else and_then (read_chain bs separator budget ref [] 0 []) (\<lambda>(parts, budget').
           Inr (join_on separator parts, budget')))"

subsection \<open>Facts\<close>

lemma read_bytes_Inr:
  "read_bytes bs offset len = Inr r \<longleftrightarrow>
     offset + len < 2 ^ 64 \<and> offset + len \<le> length bs \<and> r = take len (drop offset bs)"
  by (auto simp: read_bytes_def)

lemma length_read_bytes: "read_bytes bs offset len = Inr r \<Longrightarrow> length r = len"
  by (auto simp: read_bytes_Inr)

lemma read_bytes_only_error: "read_bytes bs offset len = Inl e \<Longrightarrow> e = error.Catalog"
  by (auto simp: read_bytes_def split: if_splits)

lemma read_u32_only_error: "read_u32 bs offset = Inl e \<Longrightarrow> e = error.Catalog"
  by (auto simp: read_u32_def result_simps read_bytes_only_error)

lemma read_array_length:
  assumes "read_array bs ref stride = Inr r" and "0 < stride"
  shows "length r mod stride = 0 \<and> length r div stride \<le> MAX_LINKS"
  using assms
  by (auto simp: read_array_def Let_def result_simps read_bytes_Inr split: if_splits)

lemma read_ids_bound: "read_ids bs ref = Inr ids \<Longrightarrow> length ids \<le> MAX_LINKS"
  using read_array_length [of bs ref 4] by (auto simp: read_ids_def result_simps length_chunks_of)

lemma plain_string_budget:
  "plain_string bs budget ref = Inr (s, budget') \<Longrightarrow> budget' \<le> budget"
  by (auto simp: plain_string_def Let_def result_simps split: if_splits)

lemma read_chain_budget:
  "read_chain bs separator budget next seen len parts = Inr (ps, budget') \<Longrightarrow> budget' \<le> budget"
proof (induction bs separator budget "next" seen len parts arbitrary: ps budget' rule: read_chain.induct)
  case (1 bs separator budget "next" seen len parts)
  from "1.prems" show ?case
    by (subst (asm) read_chain.simps)
      (auto simp: Let_def result_simps split: if_splits prod.splits
        dest!: "1.IH" [OF _ refl] dest: plain_string_budget)
qed

lemma read_string_budget: "read_string bs budget ref sep = Inr (s, budget') \<Longrightarrow> budget' \<le> budget"
  by (auto simp: read_string_def result_simps split: if_splits
      dest: plain_string_budget read_chain_budget)

text \<open>The total length of a chained string stays within its limit.\<close>

definition joined_length :: "string \<Rightarrow> string list \<Rightarrow> nat" where
  "joined_length sep parts = sum_list (map (\<lambda>p. length p + length sep) parts)"

lemma length_join_le: "length (join_on sep parts) \<le> joined_length sep parts"
  by (induction sep parts rule: join_on.induct) (auto simp: joined_length_def)

lemma read_chain_length:
  "read_chain bs sep budget next seen len parts = Inr (ps, b) \<Longrightarrow> joined_length sep parts \<le> len
   \<Longrightarrow> len \<le> 64 * 1024 \<Longrightarrow> joined_length sep ps \<le> 64 * 1024"
proof (induction bs sep budget "next" seen len parts arbitrary: ps b rule: read_chain.induct)
  case (1 bs sep budget "next" seen len parts)
  show ?case
  proof (cases "next = NONE")
    case True
    with "1.prems" show ?thesis by (auto simp: read_chain.simps)
  next
    case False
    with "1.prems"(1) obtain r part budget' next' where s:
      "\<not> (next AND MASK \<in> set seen \<or> 256 < Suc (length seen))"
      "read_u32 bs (unat (next AND MASK)) = Inr r"
      "plain_string bs budget r = Inr (part, budget')"
      "\<not> 64 * 1024 < len + length part + length sep"
      "read_u32 bs (unat (next AND MASK) + 4) = Inr next'"
      "read_chain bs sep budget' next' ((next AND MASK) # seen) (len + length part + length sep)
         (part # parts) = Inr (ps, b)"
      by (subst (asm) read_chain.simps) (auto simp: Let_def result_simps split: if_splits)
    have "joined_length sep (part # parts) \<le> len + length part + length sep"
      using "1.prems"(2) by (simp add: joined_length_def)
    with "1.IH" [OF False refl s(1,2,3) refl refl s(4,5,6)] s(4) show ?thesis by simp
  qed
qed

end
