(* ===== verification/Worklist.thy ===== *)
theory Worklist
  imports Prelude
begin

text \<open>
  The contract of the worklist loops of the program (\<open>while let Some(n) = pending.pop()\<close>): one
  iteration takes a pending node and either drops it, because it was visited before, or visits it
  and adds its successors. Whatever order the nodes are taken in, a loop that ends has visited
  exactly the nodes reachable from the initial ones. The catalog parser, the catalog selection and
  the process-tree sampler are interpretations.
\<close>

definition reachable_from :: "('n \<Rightarrow> 'n set) \<Rightarrow> 'n set \<Rightarrow> 'n set" where
  "reachable_from succs roots = {(a, b). b \<in> succs a}\<^sup>* `` roots"

lemma reachable_from_root: "r \<in> roots \<Longrightarrow> r \<in> reachable_from succs roots"
  by (auto simp: reachable_from_def)

lemma reachable_from_succ:
  "n \<in> reachable_from succs roots \<Longrightarrow> m \<in> succs n \<Longrightarrow> m \<in> reachable_from succs roots"
  by (auto simp: reachable_from_def intro: rtrancl_into_rtrancl)

lemma reachable_from_least:
  assumes "roots \<subseteq> S" and "\<And>n. n \<in> S \<Longrightarrow> succs n \<subseteq> S"
  shows "reachable_from succs roots \<subseteq> S"
proof
  fix n
  assume "n \<in> reachable_from succs roots"
  then obtain r where "(r, n) \<in> {(a, b). b \<in> succs a}\<^sup>*" and "r \<in> roots"
    by (auto simp: reachable_from_def)
  then show "n \<in> S"
    using assms by (induction rule: rtrancl_induct) auto
qed

locale closure_loop =
  fixes step :: "'s \<Rightarrow> 'e + 's option"
    and inv :: "'s \<Rightarrow> bool"
    and visited :: "'s \<Rightarrow> 'n set"
    and pending :: "'s \<Rightarrow> 'n set"
    and succs :: "'n \<Rightarrow> 'n set"
  assumes step_inv: "inv s \<Longrightarrow> step s = Inr (Some t) \<Longrightarrow> inv t"
    and step_next: "inv s \<Longrightarrow> step s = Inr (Some t) \<Longrightarrow>
      \<exists>n rest. pending s = insert n rest \<and>
        ((n \<in> visited s \<and> visited t = visited s \<and> pending t = rest)
         \<or> (visited t = insert n (visited s) \<and> pending t = succs n \<union> rest))"
    and step_done: "inv s \<Longrightarrow> step s = Inr None \<Longrightarrow> pending s = {}"
begin

lemma progress:
  assumes "(\<lambda>s t. step s = Inr (Some t))\<^sup>*\<^sup>* s t" and "inv s" and "visited s = {}"
  shows "inv t \<and> pending s \<subseteq> visited t \<union> pending t
    \<and> (\<forall>n \<in> visited t. succs n \<subseteq> visited t \<union> pending t)
    \<and> visited t \<union> pending t \<subseteq> reachable_from succs (pending s)"
  using assms(1)
proof (induction rule: rtranclp_induct)
  case base
  then show ?case using assms(2,3) reachable_from_root [of _ "pending s" succs] by auto
next
  case (step t u)
  from step.IH step.hyps(2) step_inv have inv: "inv t" "inv u" by blast+
  from step_next [OF inv(1) step.hyps(2)] obtain n rest where
    p: "pending t = insert n rest" and
    c: "(n \<in> visited t \<and> visited u = visited t \<and> pending u = rest)
         \<or> (visited u = insert n (visited t) \<and> pending u = succs n \<union> rest)" by blast
  have "n \<in> reachable_from succs (pending s)" using step.IH p by auto
  then have "succs n \<subseteq> reachable_from succs (pending s)"
    by (auto intro: reachable_from_succ)
  then have up: "visited u \<union> pending u \<subseteq> reachable_from succs (pending s)"
    using step.IH p c by auto
  have grow: "visited t \<union> pending t \<subseteq> visited u \<union> pending u"
    using p c by auto
  have "succs m \<subseteq> visited u \<union> pending u" if m: "m \<in> visited u" for m
  proof (cases "m \<in> visited t")
    case True
    with step.IH have "succs m \<subseteq> visited t \<union> pending t" by simp
    with grow show ?thesis by (rule subset_trans [rotated])
  next
    case False
    with m c have "pending u = succs m \<union> rest" by auto
    then show ?thesis by auto
  qed
  moreover have "pending s \<subseteq> visited u \<union> pending u"
    using step.IH grow by (meson subset_trans)
  ultimately show ?case using inv(2) up by simp
qed

theorem visits_reachable:
  assumes "(\<lambda>s t. step s = Inr (Some t))\<^sup>*\<^sup>* s t" and "step t = Inr None"
    and "inv s" and "visited s = {}"
  shows "visited t = reachable_from succs (pending s)" and "inv t"
proof -
  note p = progress [OF assms(1,3,4)]
  then have e: "pending t = {}" using step_done assms(2) by blast
  show "visited t = reachable_from succs (pending s)"
  proof
    show "visited t \<subseteq> reachable_from succs (pending s)" using p by blast
    show "reachable_from succs (pending s) \<subseteq> visited t"
      by (rule reachable_from_least) (use p e in auto)
  qed
  show "inv t" using p by blast
qed

end

end
