(* ===== verification/Catalog_Parse.thy ===== *)
theory Catalog_Parse
  imports Catalog_Reader Worklist
begin

text \<open>
  \<open>Catalog::parse\<close> (\<open>src/catalog.rs\<close>): the key table, then the location graph by a worklist
  from the ids of the table. A Rust vector that is pushed and popped at its end is a list with the
  end at its head, so \<open>pending.extend(ids)\<close> is \<open>rev ids @ pending\<close>.
\<close>

record location =
  loc_id :: u32
  primary_key :: string
  internal_id :: string
  provider_id :: string
  dependencies :: "u32 list"

record catalog =
  locations :: "location list"
  cat_keys :: "(string \<times> u32 list) list"

subsection \<open>The key table\<close>

record key_state =
  key_index :: "(string \<times> u32 list) list"
  key_pending :: "u32 list"
  key_links :: nat
  key_budget :: nat

text \<open>The name under which a key object is entered in the index: \<open>None\<close> for an object that is not
  a string. The second component is the string budget left.\<close>

definition key_name :: "byte list \<Rightarrow> nat \<Rightarrow> u32 \<Rightarrow> error + (string option \<times> nat)" where
  "key_name bs budget object =
     (if object = NONE then Inr (None, budget)
      else
        and_then (read_u32 bs (unat object)) (\<lambda>ty.
        and_then (read_u32 bs (unat ty + 4)) (\<lambda>tn.
        and_then (read_string bs budget tn ''.'') (\<lambda>(type_name, b1).
        if type_name = ''System.String'' then
          and_then (read_u32 bs (unat object + 4)) (\<lambda>data.
          and_then (read_u32 bs (unat data)) (\<lambda>d.
          and_then (read_string bs b1 d ''/'') (\<lambda>(n, b2).
          and_then (fail_if (n = []) error.Catalog) (\<lambda>_. Inr (Some n, b2)))))
        else Inr (None, b1)))))"

definition key_entry_ids :: "byte list \<Rightarrow> byte list \<Rightarrow> error + u32 list" where
  "key_entry_ids bs key = read_ids bs (u32_from_le (drop 4 key))"

definition parse_key :: "byte list \<Rightarrow> key_state \<Rightarrow> byte list \<Rightarrow> error + key_state" where
  "parse_key bs s key =
     and_then (key_entry_ids bs key) (\<lambda>ids.
     (let links = key_links s + length ids in
      and_then (fail_if (MAX_LINKS < links) error.Catalog) (\<lambda>_.
      and_then (key_name bs (key_budget s) (u32_from_le (take 4 key))) (\<lambda>(n, budget).
      Inr (s\<lparr>key_index := (case n of
                None \<Rightarrow> key_index s
              | Some k \<Rightarrow> bt_insert k (unwrap_or [] (map_of (key_index s) k) @ ids) (key_index s)),
             key_pending := rev ids @ key_pending s,
             key_links := links,
             key_budget := budget\<rparr>)))))"

fun parse_keys :: "byte list \<Rightarrow> key_state \<Rightarrow> byte list list \<Rightarrow> error + key_state" where
  "parse_keys bs s [] = Inr s"
| "parse_keys bs s (k # ks) = and_then (parse_key bs s k) (\<lambda>s'. parse_keys bs s' ks)"

subsection \<open>The location graph\<close>

record loc_state =
  todo :: "u32 list"
  found :: "(u32 \<times> location) list"
  link_count :: nat
  str_budget :: nat

definition read_dependencies :: "byte list \<Rightarrow> u32 \<Rightarrow> error + u32 list" where
  "read_dependencies bs ref = and_then (read_u32 bs (unat ref + 12)) (\<lambda>d. read_ids bs d)"

definition read_field :: "byte list \<Rightarrow> nat \<Rightarrow> nat \<Rightarrow> string \<Rightarrow> error + (string \<times> nat)" where
  "read_field bs budget offset separator =
     and_then (read_u32 bs offset) (\<lambda>r. read_string bs budget r separator)"

text \<open>One iteration of \<open>while let Some(id) = pending.pop()\<close>; \<open>Inr None\<close> leaves the loop.\<close>

definition parse_step :: "byte list \<Rightarrow> loc_state \<Rightarrow> error + loc_state option" where
  "parse_step bs s =
     (case todo s of
        [] \<Rightarrow> Inr None
      | ref # rest \<Rightarrow>
          if map_of (found s) ref \<noteq> None then Inr (Some (s\<lparr>todo := rest\<rparr>))
          else if MAX_LOCATIONS \<le> length (found s) then Inl error.Catalog
          else
            and_then (read_bytes bs (unat ref) 24) (\<lambda>_.
            and_then (read_dependencies bs ref) (\<lambda>deps.
            (let links = link_count s + length deps in
            and_then (fail_if (MAX_LINKS < links) error.Catalog) (\<lambda>_.
            and_then (read_field bs (str_budget s) (unat ref) ''/'') (\<lambda>(pk, b1).
            and_then (read_field bs b1 (unat ref + 4) ''/'') (\<lambda>(iid, b2).
            and_then (read_field bs b2 (unat ref + 8) ''.'') (\<lambda>(prov, b3).
            Inr (Some \<lparr>todo = rev deps @ rest,
                  found = bt_insert ref \<lparr>loc_id = ref, primary_key = pk, internal_id = iid,
                     provider_id = prov, dependencies = deps\<rparr> (found s),
                  link_count = links, str_budget = b3\<rparr>))))))))) "

lemma length_bt_insert_new: "k \<notin> fst ` set m \<Longrightarrow> length (bt_insert k v m) = Suc (length m)"
  by (induction k v m rule: bt_insert.induct) auto

lemma parse_step_cases:
  assumes "parse_step bs s = Inr (Some t)"
  obtains (seen) ref rest where "todo s = ref # rest" "ref \<in> fst ` set (found s)"
      "t = s\<lparr>todo := rest\<rparr>"
    | (new) ref rest l where "todo s = ref # rest" "ref \<notin> fst ` set (found s)"
      "length (found s) < MAX_LOCATIONS" "loc_id l = ref"
      "read_dependencies bs ref = Inr (dependencies l)"
      "todo t = rev (dependencies l) @ rest" "found t = bt_insert ref l (found s)"
      "link_count t = link_count s + length (dependencies l)" "link_count t \<le> MAX_LINKS"
proof -
  from assms obtain ref rest where todo: "todo s = ref # rest"
    by (auto simp: parse_step_def split: list.splits)
  show thesis
  proof (cases "map_of (found s) ref = None")
    case False
    then have "ref \<in> fst ` set (found s)" by (simp only: dom_map_of_keys)
    moreover from False assms todo have "t = s\<lparr>todo := rest\<rparr>"
      by (auto simp: parse_step_def)
    ultimately show thesis using seen [OF todo] by blast
  next
    case True
    then have n: "ref \<notin> fst ` set (found s)" by (simp add: map_of_eq_None_iff)
    from assms todo True obtain deps pk iid prov b3 where
      "length (found s) < MAX_LOCATIONS" "read_dependencies bs ref = Inr deps"
      "\<not> MAX_LINKS < link_count s + length deps"
      "t = \<lparr>todo = rev deps @ rest,
         found = bt_insert ref \<lparr>loc_id = ref, primary_key = pk, internal_id = iid,
            provider_id = prov, dependencies = deps\<rparr> (found s),
         link_count = link_count s + length deps, str_budget = b3\<rparr>"
      by (auto simp: parse_step_def Let_def result_simps split: if_splits)
    then show thesis
      using new [OF todo n, of "\<lparr>loc_id = ref, primary_key = pk, internal_id = iid,
            provider_id = prov, dependencies = deps\<rparr>"] by simp
  qed
qed

function parse_loop :: "byte list \<Rightarrow> loc_state \<Rightarrow> error + loc_state" where
  "parse_loop bs s =
     (case parse_step bs s of
        Inl e \<Rightarrow> Inl e
      | Inr None \<Rightarrow> Inr s
      | Inr (Some t) \<Rightarrow> parse_loop bs t)"
  by pat_completeness auto
termination
proof (relation "measures [\<lambda>(bs, s). MAX_LOCATIONS - length (found s), \<lambda>(bs, s). length (todo s)]")
  fix bs s r t
  assume "parse_step bs s = Inr r" "r = Some t"
  then have "parse_step bs s = Inr (Some t)" by simp
  then show "((bs, t), bs, s)
      \<in> measures [\<lambda>(bs, s). MAX_LOCATIONS - length (found s), \<lambda>(bs, s). length (todo s)]"
    by (cases rule: parse_step_cases) (auto simp: length_bt_insert_new)
qed simp

declare parse_loop.simps [simp del]

definition key_start :: key_state where
  "key_start = \<lparr>key_index = [], key_pending = [], key_links = 0, key_budget = 64 * 1024 * 1024\<rparr>"

definition key_table :: "byte list \<Rightarrow> error + byte list list" where
  "key_table bs =
     and_then (read_u32 bs 8) (\<lambda>k. and_then (read_array bs k 8) (\<lambda>b. Inr (chunks_of 8 b)))"

definition loc_start :: "key_state \<Rightarrow> loc_state" where
  "loc_start k = \<lparr>todo = key_pending k, found = [], link_count = key_links k, str_budget = key_budget k\<rparr>"

definition parse :: "byte list \<Rightarrow> error + catalog" where
  "parse bs =
     and_then (fail_if (64 * 1024 * 1024 < length bs) error.Size) (\<lambda>_.
     and_then (read_u32 bs 0) (\<lambda>magic.
     and_then (fail_if (magic \<noteq> 0x0DE38942) error.Catalog) (\<lambda>_.
     and_then (read_u32 bs 4) (\<lambda>version.
     and_then (fail_if (version \<noteq> 2) error.Catalog) (\<lambda>_.
     and_then (key_table bs) (\<lambda>ks.
     and_then (parse_keys bs key_start ks) (\<lambda>k.
     and_then (parse_loop bs (loc_start k)) (\<lambda>s.
     and_then (fail_if (found s = []) error.Catalog) (\<lambda>_.
     Inr \<lparr>locations = map snd (found s), cat_keys = key_index k\<rparr>)))))))))"

subsection \<open>The worklist contract\<close>

definition deps_of :: "byte list \<Rightarrow> u32 \<Rightarrow> u32 set" where
  "deps_of bs ref = (case read_dependencies bs ref of Inl _ \<Rightarrow> {} | Inr ds \<Rightarrow> set ds)"

definition parse_inv :: "byte list \<Rightarrow> loc_state \<Rightarrow> bool" where
  "parse_inv bs s \<longleftrightarrow> bt_ordered (found s) \<and> length (found s) \<le> MAX_LOCATIONS
     \<and> (\<forall>(k, l) \<in> set (found s). loc_id l = k \<and> read_dependencies bs k = Inr (dependencies l))"

lemma set_bt_insert_subset: "set (bt_insert k v m) \<subseteq> insert (k, v) (set m)"
  by (induction k v m rule: bt_insert.induct) auto

interpretation parsing: closure_loop "parse_step bs" "parse_inv bs"
  "\<lambda>s. fst ` set (found s)" "\<lambda>s. set (todo s)" "deps_of bs" for bs
proof
  fix s t
  assume inv: "parse_inv bs s" and step: "parse_step bs s = Inr (Some t)"
  from step show "parse_inv bs t"
  proof (cases rule: parse_step_cases)
    case (seen ref rest)
    with inv show ?thesis by (simp add: parse_inv_def)
  next
    case (new ref rest l)
    with inv show ?thesis
      using set_bt_insert_subset [of ref l "found s"]
      by (auto simp: parse_inv_def length_bt_insert_new)
  qed
  from step show "\<exists>n rest. set (todo s) = insert n rest \<and>
        ((n \<in> fst ` set (found s) \<and> fst ` set (found t) = fst ` set (found s) \<and> set (todo t) = rest)
         \<or> (fst ` set (found t) = insert n (fst ` set (found s)) \<and> set (todo t) = deps_of bs n \<union> rest))"
  proof (cases rule: parse_step_cases)
    case (seen ref rest)
    then show ?thesis by (intro exI [of _ ref] exI [of _ "set rest"]) simp
  next
    case (new ref rest l)
    then show ?thesis by (intro exI [of _ ref] exI [of _ "set rest"]) (simp add: deps_of_def)
  qed
next
  fix s
  assume "parse_inv bs s" "parse_step bs s = Inr None"
  then show "set (todo s) = {}"
    by (auto simp: parse_step_def Let_def result_simps split: list.splits if_splits)
qed

lemma parse_loop_run:
  assumes "parse_loop bs s = Inr t"
  shows "(\<lambda>s t. parse_step bs s = Inr (Some t))\<^sup>*\<^sup>* s t \<and> parse_step bs t = Inr None"
  using assms
proof (induction bs s rule: parse_loop.induct)
  case (1 bs s)
  from "1.prems" show ?case
    by (subst (asm) parse_loop.simps)
      (auto split: sum.splits option.splits dest: "1.IH" intro: converse_rtranclp_into_rtranclp)
qed

subsection \<open>What a parsed catalog guarantees\<close>

text \<open>The ids that the key table names.\<close>

definition table_ids :: "byte list \<Rightarrow> u32 set" where
  "table_ids bs = (case key_table bs of
      Inl _ \<Rightarrow> {}
    | Inr ks \<Rightarrow> (\<Union>k \<in> set ks. case key_entry_ids bs k of Inl _ \<Rightarrow> {} | Inr ids \<Rightarrow> set ids))"

definition key_inv :: "key_state \<Rightarrow> bool" where
  "key_inv s \<longleftrightarrow> bt_ordered (key_index s)
     \<and> (\<forall>(n, ids) \<in> set (key_index s). n \<noteq> [] \<and> set ids \<subseteq> set (key_pending s))"

lemma key_name_nonempty: "key_name bs b ob = Inr (Some n, b') \<Longrightarrow> n \<noteq> []"
  by (auto simp: key_name_def result_simps split: if_splits)

lemma parse_key_inv:
  assumes "parse_key bs s key = Inr t" and "key_inv s"
  shows "key_inv t \<and> (\<exists>ids. key_entry_ids bs key = Inr ids
    \<and> set (key_pending t) = set ids \<union> set (key_pending s))"
proof -
  from assms(1) obtain ids n b where ids: "key_entry_ids bs key = Inr ids"
    and n: "key_name bs (key_budget s) (u32_from_le (take 4 key)) = Inr (n, b)"
    and t: "t = s\<lparr>key_index := (case n of
                None \<Rightarrow> key_index s
              | Some k \<Rightarrow> bt_insert k (unwrap_or [] (map_of (key_index s) k) @ ids) (key_index s)),
             key_pending := rev ids @ key_pending s,
             key_links := key_links s + length ids,
             key_budget := b\<rparr>"
    by (auto simp: parse_key_def Let_def result_simps)
  have "key_inv t"
  proof (cases n)
    case None
    with t assms(2) show ?thesis by (auto simp: key_inv_def)
  next
    case (Some k)
    let ?v = "unwrap_or [] (map_of (key_index s) k) @ ids"
    have old: "set (unwrap_or [] (map_of (key_index s) k)) \<subseteq> set (key_pending s)"
      using assms(2) by (cases "map_of (key_index s) k") (fastforce simp: key_inv_def dest: map_of_SomeD)+
    have k: "k \<noteq> []" using key_name_nonempty n Some by blast
    have kt: "key_index t = bt_insert k ?v (key_index s)"
      "set (key_pending t) = set ids \<union> set (key_pending s)"
      using t Some by simp_all
    have "m \<noteq> [] \<and> set js \<subseteq> set (key_pending t)" if m: "(m, js) \<in> set (key_index t)" for m js
    proof (cases "(m, js) \<in> set (key_index s)")
      case True
      with assms(2) have "m \<noteq> [] \<and> set js \<subseteq> set (key_pending s)" by (auto simp: key_inv_def)
      with kt show ?thesis by auto
    next
      case False
      with m kt set_bt_insert_subset [of k ?v "key_index s"] have "m = k" "js = ?v" by auto
      with k old kt show ?thesis by auto
    qed
    moreover have "bt_ordered (key_index t)" using kt assms(2) by (simp add: key_inv_def)
    ultimately show ?thesis by (auto simp: key_inv_def)
  qed
  with ids t show ?thesis by auto
qed

lemma parse_keys_inv:
  assumes "parse_keys bs s ks = Inr t" and "key_inv s"
  shows "key_inv t \<and> set (key_pending t) = set (key_pending s)
    \<union> (\<Union>k \<in> set ks. case key_entry_ids bs k of Inl _ \<Rightarrow> {} | Inr ids \<Rightarrow> set ids)"
  using assms
proof (induction bs s ks rule: parse_keys.induct)
  case (2 bs s k ks)
  from "2.prems"(1) obtain s' where s': "parse_key bs s k = Inr s'" "parse_keys bs s' ks = Inr t"
    by (auto simp: result_simps)
  from parse_key_inv [OF s'(1) "2.prems"(2)] "2.IH" [OF s'] show ?case by auto
qed simp

lemma parse_facts:
  assumes "parse bs = Inr c"
  obtains k s where "key_inv k" "set (key_pending k) = table_ids bs"
    "parse_inv bs s" "fst ` set (found s) = reachable_from (deps_of bs) (table_ids bs)"
    "found s \<noteq> []" "locations c = map snd (found s)" "cat_keys c = key_index k"
proof -
  from assms obtain ks k s where p: "key_table bs = Inr ks" "parse_keys bs key_start ks = Inr k"
    "parse_loop bs (loc_start k) = Inr s" "found s \<noteq> []"
    "c = \<lparr>locations = map snd (found s), cat_keys = key_index k\<rparr>"
    by (auto simp: parse_def result_simps)
  have "key_inv key_start" by (simp add: key_inv_def key_start_def)
  from parse_keys_inv [OF p(2) this]
  have k: "key_inv k" "set (key_pending k) = table_ids bs"
    by (simp_all add: key_start_def table_ids_def p(1))
  have "parse_inv bs (loc_start k)" "fst ` set (found (loc_start k)) = {}"
    "set (todo (loc_start k)) = table_ids bs"
    using k(2) by (simp_all add: parse_inv_def loc_start_def)
  with parsing.visits_reachable [OF conjunct1 [OF parse_loop_run [OF p(3)]]
      conjunct2 [OF parse_loop_run [OF p(3)]]]
  have "fst ` set (found s) = reachable_from (deps_of bs) (table_ids bs)" "parse_inv bs s" by auto
  with k p that show thesis by simp
qed

text \<open>A parsed catalog is well formed: ids strictly ascending, within the location bound, and every
  reference of a location or of a key resolves.\<close>

definition catalog_wf :: "catalog \<Rightarrow> bool" where
  "catalog_wf c \<longleftrightarrow> sorted_wrt (<) (map loc_id (locations c)) \<and> locations c \<noteq> []
     \<and> length (locations c) \<le> MAX_LOCATIONS
     \<and> (\<forall>l \<in> set (locations c). set (dependencies l) \<subseteq> loc_id ` set (locations c))
     \<and> (\<forall>(n, ids) \<in> set (cat_keys c). n \<noteq> [] \<and> set ids \<subseteq> loc_id ` set (locations c))"

lemma parse_ids:
  assumes "parse_inv bs s"
  shows "map loc_id (map snd (found s)) = map fst (found s)"
  using assms by (auto simp: parse_inv_def)

lemma parse_wf:
  assumes "parse bs = Inr c"
  shows "catalog_wf c"
proof (rule parse_facts [OF assms])
  fix k s
  assume k: "key_inv k" "set (key_pending k) = table_ids bs"
    and s: "parse_inv bs s" "fst ` set (found s) = reachable_from (deps_of bs) (table_ids bs)"
    and c: "found s \<noteq> []" "locations c = map snd (found s)" "cat_keys c = key_index k"
  have ids: "loc_id ` set (locations c) = reachable_from (deps_of bs) (table_ids bs)"
    using parse_ids [OF s(1)] s(2) c(2) by (metis image_set)
  have "set (dependencies l) \<subseteq> loc_id ` set (locations c)" if l: "l \<in> set (locations c)" for l
  proof -
    from l c(2) obtain r where "(r, l) \<in> set (found s)" by auto
    with s(1) have "loc_id l = r" "read_dependencies bs r = Inr (dependencies l)"
      by (auto simp: parse_inv_def)
    then have "set (dependencies l) = deps_of bs (loc_id l)" by (simp add: deps_of_def)
    moreover have "loc_id l \<in> reachable_from (deps_of bs) (table_ids bs)" using l ids by auto
    ultimately have "set (dependencies l) \<subseteq> reachable_from (deps_of bs) (table_ids bs)"
      by (auto intro: reachable_from_succ)
    with ids show ?thesis by simp
  qed
  moreover have tab: "table_ids bs \<subseteq> loc_id ` set (locations c)"
    unfolding ids by (auto intro: reachable_from_root)
  have "n \<noteq> [] \<and> set js \<subseteq> loc_id ` set (locations c)" if "(n, js) \<in> set (cat_keys c)" for n js
  proof -
    from that k c(3) have "n \<noteq> []" "set js \<subseteq> table_ids bs" by (auto simp: key_inv_def)
    with tab show ?thesis by (meson subset_trans)
  qed
  moreover have "sorted_wrt (<) (map loc_id (locations c))"
    unfolding c(2) parse_ids [OF s(1)] using s(1) by (simp add: parse_inv_def bt_ordered_def)
  moreover have "length (locations c) \<le> MAX_LOCATIONS"
    using s(1) c(2) by (simp add: parse_inv_def)
  moreover have "locations c \<noteq> []" using c by simp
  ultimately show "catalog_wf c" unfolding catalog_wf_def by blast
qed

lemma read_ids_only_error: "read_ids bs r = Inl e \<Longrightarrow> e = error.Catalog"
  by (auto simp: read_ids_def read_array_def Let_def result_simps size_offset_def
      read_bytes_only_error read_u32_only_error split: if_splits)

lemma plain_string_only_error: "plain_string bs b r = Inl e \<Longrightarrow> e = error.Catalog"
  by (auto simp: plain_string_def Let_def result_simps size_offset_def
      read_bytes_only_error read_u32_only_error split: if_splits)

lemma read_chain_only_error:
  "read_chain bs sep b r seen len parts = Inl e \<Longrightarrow> e = error.Catalog"
proof (induction bs sep b r seen len parts rule: read_chain.induct)
  case (1 bs sep b r seen len parts)
  from "1.prems" show ?case
    by (subst (asm) read_chain.simps)
      (auto simp: Let_def result_simps read_u32_only_error plain_string_only_error
        split: if_splits dest: "1.IH" [OF _ refl])
qed

lemma read_string_only_error: "read_string bs b r sep = Inl e \<Longrightarrow> e = error.Catalog"
  by (auto simp: read_string_def result_simps plain_string_only_error read_chain_only_error
      split: if_splits)

lemmas reader_errors = read_ids_only_error read_string_only_error read_bytes_only_error
  read_u32_only_error

text \<open>C6. Parsing yields a closed dependency graph: the locations of a parsed catalog are exactly
  those reachable from the ids of the key table along the dependency references stored in the
  file, in strictly ascending id order, at most 100000 of them, and every dependency and every key
  resolves to a parsed location.\<close>

theorem parse_reads_reachable_graph:
  assumes "parse bs = Inr c"
  shows "loc_id ` set (locations c) = reachable_from (deps_of bs) (table_ids bs) \<and> catalog_wf c"
proof (rule parse_facts [OF assms])
  fix k s
  assume "parse_inv bs s" "fst ` set (found s) = reachable_from (deps_of bs) (table_ids bs)"
    "locations c = map snd (found s)"
  then have "loc_id ` set (locations c) = reachable_from (deps_of bs) (table_ids bs)"
    using parse_ids by (metis image_set)
  with parse_wf [OF assms] show ?thesis by simp
qed

text \<open>A small catalog: one key without a name, leading to a location at 40 that depends on one
  at 64.\<close>

definition example_bytes :: "byte list" where
  "example_bytes =
     [0x42, 0x89, 0xE3, 0x0D,  2, 0, 0, 0,  16, 0, 0, 0,  8, 0, 0, 0,
      0xFF, 0xFF, 0xFF, 0xFF,  28, 0, 0, 0,  4, 0, 0, 0,  40, 0, 0, 0,  4, 0, 0, 0,  64, 0, 0, 0,
      0xFF, 0xFF, 0xFF, 0xFF,  0xFF, 0xFF, 0xFF, 0xFF,  0xFF, 0xFF, 0xFF, 0xFF,  36, 0, 0, 0,
      0, 0, 0, 0,  0, 0, 0, 0,
      0xFF, 0xFF, 0xFF, 0xFF,  0xFF, 0xFF, 0xFF, 0xFF,  0xFF, 0xFF, 0xFF, 0xFF,
      0xFF, 0xFF, 0xFF, 0xFF,  0, 0, 0, 0,  0, 0, 0, 0]"

lemma example_reads: "read_u32 example_bytes 0 = Inr 0x0DE38942"
  "read_u32 example_bytes 4 = Inr 2" "read_u32 example_bytes 8 = Inr 16"
  "read_u32 example_bytes 12 = Inr 8"
  "read_u32 example_bytes 24 = Inr 4"
  "read_u32 example_bytes 32 = Inr 4"
  "read_u32 example_bytes 40 = Inr 0xFFFFFFFF"
  "read_u32 example_bytes 44 = Inr 0xFFFFFFFF"
  "read_u32 example_bytes 48 = Inr 0xFFFFFFFF"
  "read_u32 example_bytes 52 = Inr 36"
  "read_u32 example_bytes 64 = Inr 0xFFFFFFFF"
  "read_u32 example_bytes 68 = Inr 0xFFFFFFFF"
  "read_u32 example_bytes 72 = Inr 0xFFFFFFFF"
  "read_u32 example_bytes 76 = Inr 0xFFFFFFFF"
  by (simp_all add: read_u32_def read_bytes_def example_bytes_def u32_from_le_def)

lemma example_slices: "read_bytes example_bytes 40 24 = Inr (take 24 (drop 40 example_bytes))"
  "read_bytes example_bytes 64 24 = Inr (take 24 (drop 64 example_bytes))"
  "read_bytes example_bytes 16 8 = Inr [0xFF, 0xFF, 0xFF, 0xFF,  28, 0, 0, 0]"
  "read_bytes example_bytes 28 4 = Inr [40,0,0,0]"
  "read_bytes example_bytes 36 4 = Inr [64,0,0,0]"
  "length example_bytes = 88"
  by (simp_all add: read_bytes_def example_bytes_def)
definition example_catalog :: catalog where
  "example_catalog = \<lparr>locations =
     [\<lparr>loc_id = 40, primary_key = [], internal_id = [], provider_id = [], dependencies = [64]\<rparr>,
      \<lparr>loc_id = 64, primary_key = [], internal_id = [], provider_id = [], dependencies = []\<rparr>],
     cat_keys = []\<rparr>"


lemma parse_example: "parse example_bytes = Inr example_catalog"
  by (simp add: parse_def example_catalog_def example_reads example_slices key_table_def
      read_array_def size_offset_def NONE_def chunks_of.simps key_start_def parse_key_def
      key_entry_ids_def u32_from_le_def read_ids_def MAX_LINKS_def key_name_def parse_loop.simps
      loc_start_def parse_step_def MAX_LOCATIONS_def read_dependencies_def read_field_def
      read_string_def plain_string_def Let_def)

theorem parse_reads_reachable_graph_witness:
  "\<exists>c. parse example_bytes = Inr c
     \<and> reachable_from (deps_of example_bytes) (table_ids example_bytes) = {40, 64}"
proof -
  have "loc_id ` set (locations example_catalog) = {40, 64}"
    by (simp add: example_catalog_def)
  with parse_reads_reachable_graph [OF parse_example] parse_example show ?thesis by auto
qed

end
