(* ===== verification/Catalog_Select.thy ===== *)
theory Catalog_Select
  imports Catalog_Parse Configuration
begin

text \<open>
  \<open>Catalog::select\<close> (\<open>src/catalog.rs\<close>): the locations named by the configured keys (all of them
  without keys), filtered by the include and exclude patterns, closed under dependencies by a
  worklist. The compiled patterns come from the regex compiler, an argument.
\<close>

definition by_id :: "catalog \<Rightarrow> (u32 \<times> location) list" where
  "by_id c = bt_of_list (map (\<lambda>l. (loc_id l, l)) (locations c))"

fun key_roots :: "catalog \<Rightarrow> string list \<Rightarrow> error + u32 list" where
  "key_roots c [] = Inr []"
| "key_roots c (k # ks) =
     and_then (ok_or error.Selection (map_of (cat_keys c) k)) (\<lambda>ids.
     and_then (fail_if (ids = []) error.Selection) (\<lambda>_.
     and_then (key_roots c ks) (\<lambda>more_ids. Inr (ids @ more_ids))))"

definition selection_roots :: "catalog \<Rightarrow> selection \<Rightarrow> error + u32 list" where
  "selection_roots c s =
     (if sel_keys s = [] then Inr (map loc_id (locations c)) else key_roots c (sel_keys s))"

definition pattern_hits :: "location \<Rightarrow> (string \<Rightarrow> bool) \<Rightarrow> bool" where
  "pattern_hits l p \<longleftrightarrow> p (primary_key l) \<or> p (internal_id l)"

definition passes :: "(string \<Rightarrow> bool) list \<Rightarrow> (string \<Rightarrow> bool) list \<Rightarrow> location \<Rightarrow> bool" where
  "passes incl excl l \<longleftrightarrow>
     (incl = [] \<or> list_ex (pattern_hits l) incl) \<and> \<not> list_ex (pattern_hits l) excl"

text \<open>The loop over the roots; \<open>wanted\<close> is the vector \<open>pending\<close>, its end at the head.\<close>

fun wanted_roots :: "(u32 \<times> location) list \<Rightarrow> (string \<Rightarrow> bool) list \<Rightarrow> (string \<Rightarrow> bool) list
    \<Rightarrow> u32 list \<Rightarrow> u32 list \<Rightarrow> error + u32 list" where
  "wanted_roots ids incl excl [] wanted = Inr wanted"
| "wanted_roots ids incl excl (r # roots) wanted =
     and_then (ok_or error.Catalog (map_of ids r)) (\<lambda>l.
     wanted_roots ids incl excl roots (if passes incl excl l then r # wanted else wanted))"

record select_state =
  wanted :: "u32 list"
  selected :: "u32 set"

definition select_step :: "(u32 \<times> location) list \<Rightarrow> select_state \<Rightarrow> error + select_state option" where
  "select_step ids s =
     (case wanted s of
        [] \<Rightarrow> Inr None
      | r # rest \<Rightarrow>
          if r \<in> selected s then Inr (Some (s\<lparr>wanted := rest\<rparr>))
          else
            and_then (ok_or error.Catalog (map_of ids r)) (\<lambda>l.
            Inr (Some \<lparr>wanted = rev (dependencies l) @ rest, selected = insert r (selected s)\<rparr>)))"

lemma select_step_cases:
  assumes "select_step ids s = Inr (Some t)"
  obtains (seen) r rest where "wanted s = r # rest" "r \<in> selected s" "t = s\<lparr>wanted := rest\<rparr>"
    | (new) r rest l where "wanted s = r # rest" "r \<notin> selected s" "map_of ids r = Some l"
      "t = \<lparr>wanted = rev (dependencies l) @ rest, selected = insert r (selected s)\<rparr>"
  using assms
  by (auto simp: select_step_def result_simps split: list.splits if_splits)

lemma remaining_ids_less:
  assumes "map_of ids r = Some l" and "r \<notin> chosen"
  shows "card (fst ` set ids - insert r chosen) < card (fst ` set ids - chosen)"
proof (rule psubset_card_mono)
  have "r \<in> fst ` set ids" using assms(1) map_of_SomeD by force
  with assms(2) show "fst ` set ids - insert r chosen \<subset> fst ` set ids - chosen" by auto
qed simp

function select_loop :: "(u32 \<times> location) list \<Rightarrow> select_state \<Rightarrow> error + select_state" where
  "select_loop ids s =
     (case select_step ids s of
        Inl e \<Rightarrow> Inl e
      | Inr None \<Rightarrow> Inr s
      | Inr (Some t) \<Rightarrow> select_loop ids t)"
  by pat_completeness auto
termination
proof (relation "measures [\<lambda>(ids, s). card (fst ` set ids - selected s), \<lambda>(ids, s). length (wanted s)]")
  fix ids s r t
  assume "select_step ids s = Inr r" "r = Some t"
  then have "select_step ids s = Inr (Some t)" by simp
  then show "((ids, t), ids, s)
      \<in> measures [\<lambda>(ids, s). card (fst ` set ids - selected s), \<lambda>(ids, s). length (wanted s)]"
    by (cases rule: select_step_cases) (auto simp: remaining_ids_less)
qed simp

declare select_loop.simps [simp del]

definition select_catalog :: "regex_compiler \<Rightarrow> selection \<Rightarrow> catalog \<Rightarrow> error + catalog" where
  "select_catalog rx sel c =
     and_then (selection_validate rx sel) (\<lambda>_.
     and_then (selection_roots c sel) (\<lambda>roots.
     and_then (patterns rx (sel_include sel)) (\<lambda>incl.
     and_then (patterns rx (sel_exclude sel)) (\<lambda>excl.
     and_then (wanted_roots (by_id c) incl excl roots []) (\<lambda>pending.
     and_then (fail_if (pending = []) error.Selection) (\<lambda>_.
     and_then (select_loop (by_id c) \<lparr>wanted = pending, selected = {}\<rparr>) (\<lambda>s.
     Inr \<lparr>locations = filter (\<lambda>l. loc_id l \<in> selected s) (locations c), cat_keys = []\<rparr>)))))))"

subsection \<open>The index of locations\<close>

lemma map_of_bt_fold:
  "bt_ordered m \<Longrightarrow>
     bt_ordered (fold (\<lambda>(k, v) m. bt_insert k v m) xs m)
     \<and> map_of (fold (\<lambda>(k, v) m. bt_insert k v m) xs m) = map_of m ++ map_of (rev xs)"
proof (induction xs arbitrary: m)
  case (Cons x xs)
  obtain k v where "x = (k, v)" by (cases x)
  with Cons show ?case by (auto simp: map_add_def fun_eq_iff split: option.splits)
qed simp

lemma map_of_bt_of_list: "map_of (bt_of_list xs) = map_of (rev xs)"
  using map_of_bt_fold [of "[]" xs] by (simp add: bt_of_list_def)

lemma map_of_by_id:
  assumes "distinct (map loc_id (locations c))"
  shows "map_of (by_id c) i = Some l \<longleftrightarrow> l \<in> set (locations c) \<and> loc_id l = i"
proof -
  have "distinct (map fst (rev (map (\<lambda>l. (loc_id l, l)) (locations c))))"
    using assms by (simp add: rev_map [symmetric] comp_def)
  then have "map_of (by_id c) i = Some l \<longleftrightarrow> (i, l) \<in> set (rev (map (\<lambda>l. (loc_id l, l)) (locations c)))"
    unfolding by_id_def map_of_bt_of_list by (rule map_of_eq_Some_iff)
  then show ?thesis by auto
qed

lemma catalog_wf_distinct: "catalog_wf c \<Longrightarrow> distinct (map loc_id (locations c))"
  by (auto simp: catalog_wf_def intro: strict_sorted_iff [THEN iffD1, THEN conjunct2])

lemma by_id_total:
  assumes "catalog_wf c" and "i \<in> loc_id ` set (locations c)"
  obtains l where "map_of (by_id c) i = Some l" "l \<in> set (locations c)" "loc_id l = i"
  using assms map_of_by_id [OF catalog_wf_distinct] by blast

text \<open>The dependencies of a location, by id.\<close>

definition deps_in :: "(u32 \<times> location) list \<Rightarrow> u32 \<Rightarrow> u32 set" where
  "deps_in ids i = (case map_of ids i of None \<Rightarrow> {} | Some l \<Rightarrow> set (dependencies l))"

interpretation selecting: closure_loop "select_step ids" "\<lambda>s. selected s \<subseteq> fst ` set ids" selected
  "\<lambda>s. set (wanted s)" "deps_in ids" for ids
proof
  fix s t
  assume inv: "selected s \<subseteq> fst ` set ids" and step: "select_step ids s = Inr (Some t)"
  from step show "selected t \<subseteq> fst ` set ids"
  proof (cases rule: select_step_cases)
    case (new r rest l)
    then have "r \<in> fst ` set ids" using map_of_SomeD by force
    with new inv show ?thesis by simp
  qed (use inv in simp)
  from step show "\<exists>n rest. set (wanted s) = insert n rest \<and>
        ((n \<in> selected s \<and> selected t = selected s \<and> set (wanted t) = rest)
         \<or> (selected t = insert n (selected s) \<and> set (wanted t) = deps_in ids n \<union> rest))"
  proof (cases rule: select_step_cases)
    case (seen r rest)
    then show ?thesis by (intro exI [of _ r] exI [of _ "set rest"]) simp
  next
    case (new r rest l)
    then show ?thesis by (intro exI [of _ r] exI [of _ "set rest"]) (simp add: deps_in_def)
  qed
next
  fix s
  assume "select_step ids s = Inr None"
  then show "set (wanted s) = {}"
    by (auto simp: select_step_def result_simps split: list.splits if_splits)
qed

lemma select_loop_run:
  assumes "select_loop ids s = Inr t"
  shows "(\<lambda>s t. select_step ids s = Inr (Some t))\<^sup>*\<^sup>* s t \<and> select_step ids t = Inr None"
  using assms
proof (induction ids s rule: select_loop.induct)
  case (1 ids s)
  from "1.prems" show ?case
    by (subst (asm) select_loop.simps)
      (auto split: sum.splits option.splits dest: "1.IH" intro: converse_rtranclp_into_rtranclp)
qed

subsection \<open>Totality on a parsed catalog\<close>

lemma select_loop_total:
  assumes "\<And>i l. map_of ids i = Some l \<Longrightarrow> set (dependencies l) \<subseteq> fst ` set ids"
    and "set (wanted s) \<subseteq> fst ` set ids"
  shows "\<exists>t. select_loop ids s = Inr t"
  using assms
proof (induction ids s rule: select_loop.induct)
  case (1 ids s)
  show ?case
  proof (cases "wanted s")
    case Nil
    then have "select_step ids s = Inr None" by (simp add: select_step_def)
    then show ?thesis by (simp add: select_loop.simps [of ids s])
  next
    case (Cons r rest)
    with "1.prems"(2) have "map_of ids r \<noteq> None" by (simp only: dom_map_of_keys) simp
    then obtain l where l: "map_of ids r = Some l" by blast
    with Cons obtain t where t: "select_step ids s = Inr (Some t)"
      by (cases "r \<in> selected s") (auto simp: select_step_def)
    have "set (wanted t) \<subseteq> set (dependencies l) \<union> set rest"
      using t Cons l by (auto simp: select_step_def split: if_splits)
    moreover have "set (dependencies l) \<union> set rest \<subseteq> fst ` set ids"
      using Cons l "1.prems" by simp
    ultimately have "set (wanted t) \<subseteq> fst ` set ids" by (rule subset_trans)
    with "1.IH" [OF t refl] "1.prems"(1) t show ?thesis by (simp add: select_loop.simps [of ids s])
  qed
qed

lemma wanted_roots_Inr:
  "wanted_roots ids incl excl rs w = Inr w' \<Longrightarrow>
     set w' = set w \<union> {r \<in> set rs. \<exists>l. map_of ids r = Some l \<and> passes incl excl l}"
proof (induction ids incl excl rs w arbitrary: w' rule: wanted_roots.induct)
  case (2 ids incl excl r rs w)
  then obtain l where l: "map_of ids r = Some l"
    "wanted_roots ids incl excl rs (if passes incl excl l then r # w else w) = Inr w'"
    by (auto simp: result_simps)
  with "2.IH" [of l] show ?case by (auto simp: ok_or_def)
qed simp

lemma wanted_roots_total:
  "set rs \<subseteq> fst ` set ids \<Longrightarrow> \<exists>w'. wanted_roots ids incl excl rs w = Inr w'"
proof (induction ids incl excl rs w rule: wanted_roots.induct)
  case (2 ids incl excl r rs w)
  then have "map_of ids r \<noteq> None" by (simp only: dom_map_of_keys) simp
  then obtain l where "map_of ids r = Some l" by blast
  with 2 show ?case by simp
qed simp

lemma key_roots_Inr:
  "key_roots c ks = Inr rs \<longleftrightarrow>
     (\<forall>k \<in> set ks. \<exists>ids. map_of (cat_keys c) k = Some ids \<and> ids \<noteq> [])
     \<and> rs = concat (map (\<lambda>k. unwrap_or [] (map_of (cat_keys c) k)) ks)"
  by (induction ks arbitrary: rs) (auto simp: result_simps)

lemma key_roots_error: "key_roots c ks = Inl e \<Longrightarrow> e = error.Selection"
  by (induction ks) (auto simp: result_simps)

lemma roots_resolve:
  assumes "catalog_wf c" and "selection_roots c sel = Inr rs"
  shows "set rs \<subseteq> loc_id ` set (locations c)"
proof (cases "sel_keys sel = []")
  case False
  with assms(2) have "rs = concat (map (\<lambda>k. unwrap_or [] (map_of (cat_keys c) k)) (sel_keys sel))"
    by (simp add: selection_roots_def key_roots_Inr)
  moreover have "set (unwrap_or [] (map_of (cat_keys c) k)) \<subseteq> loc_id ` set (locations c)" for k
    using assms(1) by (cases "map_of (cat_keys c) k") (fastforce simp: catalog_wf_def dest: map_of_SomeD)+
  ultimately show ?thesis by auto
qed (use assms in \<open>auto simp: selection_roots_def\<close>)

lemma by_id_keys:
  assumes "catalog_wf c"
  shows "fst ` set (by_id c) = loc_id ` set (locations c)"
proof -
  have "(i \<in> fst ` set (by_id c)) = (i \<in> loc_id ` set (locations c))" for i
    using dom_map_of_keys [of "by_id c" i] map_of_by_id [OF catalog_wf_distinct [OF assms], of i]
    by auto
  then show ?thesis by blast
qed

lemma patterns_error: "patterns rx vs = Inl e \<Longrightarrow> e = error.Config"
proof -
  have "collect_results (\<lambda>v. ok_or error.Config (rx v)) vs = Inl e \<Longrightarrow> e = error.Config"
    by (induction vs) (auto simp: result_simps)
  then show "patterns rx vs = Inl e \<Longrightarrow> e = error.Config" by (auto simp: patterns_def result_simps)
qed

lemma selection_validate_error: "selection_validate rx s = Inl e \<Longrightarrow> e = error.Config"
  by (auto simp: selection_validate_def result_simps dest: patterns_error)

lemma select_catalog_error:
  assumes "catalog_wf c" and "select_catalog rx sel c = Inl e"
  shows "e = error.Config \<or> e = error.Selection"
proof -
  have deps: "set (dependencies l) \<subseteq> fst ` set (by_id c)" if "map_of (by_id c) i = Some l" for i l
    using that assms(1) map_of_by_id [OF catalog_wf_distinct [OF assms(1)], of i l]
    by (auto simp: by_id_keys catalog_wf_def)
  have "e = error.Config \<or> e = error.Selection"
    if "selection_roots c sel = Inr rs" "wanted_roots (by_id c) incl excl rs [] = Inr p"
      "select_loop (by_id c) \<lparr>wanted = p, selected = {}\<rparr> = Inl e" for rs incl excl p
  proof -
    have "set p \<subseteq> fst ` set (by_id c)"
      using wanted_roots_Inr [OF that(2)] roots_resolve [OF assms(1) that(1)]
      by (auto simp: by_id_keys [OF assms(1)])
    then have "\<exists>t. select_loop (by_id c) \<lparr>wanted = p, selected = {}\<rparr> = Inr t"
      by (intro select_loop_total deps) simp_all
    with that(3) show ?thesis by simp
  qed
  moreover have "wanted_roots (by_id c) incl excl rs [] \<noteq> Inl e"
    if "selection_roots c sel = Inr rs" for rs incl excl
    using wanted_roots_total [of rs "by_id c" incl excl "[]"] roots_resolve [OF assms(1) that]
    by (auto simp: by_id_keys [OF assms(1)])
  moreover have "selection_roots c sel = Inl e \<Longrightarrow> e = error.Selection"
    by (auto simp: selection_roots_def split: if_splits dest: key_roots_error)
  ultimately show ?thesis
    using assms(2)
    by (auto simp: select_catalog_def result_simps dest: patterns_error selection_validate_error)
qed

text \<open>The locations a selection starts from: the requested ones that pass the patterns.\<close>

definition matching_roots :: "(string \<Rightarrow> bool) list \<Rightarrow> (string \<Rightarrow> bool) list \<Rightarrow> catalog \<Rightarrow> u32 list
    \<Rightarrow> u32 set" where
  "matching_roots incl excl c rs =
     loc_id ` {l \<in> set (locations c). loc_id l \<in> set rs \<and> passes incl excl l}"

lemma wanted_matching:
  assumes "catalog_wf c" and "wanted_roots (by_id c) incl excl rs [] = Inr p"
  shows "set p = matching_roots incl excl c rs"
  using wanted_roots_Inr [OF assms(2)] map_of_by_id [OF catalog_wf_distinct [OF assms(1)]]
  by (auto simp: matching_roots_def)

lemma select_catalog_facts:
  assumes "catalog_wf c" and "select_catalog rx sel c = Inr d"
  obtains rs incl excl where "selection_roots c sel = Inr rs"
    "patterns rx (sel_include sel) = Inr incl" "patterns rx (sel_exclude sel) = Inr excl"
    "matching_roots incl excl c rs \<noteq> {}" "cat_keys d = []"
    "locations d = filter (\<lambda>l. loc_id l
       \<in> reachable_from (deps_in (by_id c)) (matching_roots incl excl c rs)) (locations c)"
    "reachable_from (deps_in (by_id c)) (matching_roots incl excl c rs) \<subseteq> loc_id ` set (locations c)"
proof -
  from assms(2) obtain rs incl excl p s where s: "selection_roots c sel = Inr rs"
    "patterns rx (sel_include sel) = Inr incl" "patterns rx (sel_exclude sel) = Inr excl"
    "wanted_roots (by_id c) incl excl rs [] = Inr p" "p \<noteq> []"
    "select_loop (by_id c) \<lparr>wanted = p, selected = {}\<rparr> = Inr s"
    "d = \<lparr>locations = filter (\<lambda>l. loc_id l \<in> selected s) (locations c), cat_keys = []\<rparr>"
    by (auto simp: select_catalog_def result_simps)
  note run = select_loop_run [OF s(6)]
  note r = selecting.visits_reachable [OF conjunct1 [OF run] conjunct2 [OF run]]
  have "selected s = reachable_from (deps_in (by_id c)) (set p)"
    "selected s \<subseteq> fst ` set (by_id c)"
    using r by simp_all
  moreover have "matching_roots incl excl c rs = set p" "matching_roots incl excl c rs \<noteq> {}"
    using wanted_matching [OF assms(1) s(4)] s(5) by (metis, metis set_empty)
  ultimately show thesis
    using that [OF s(1-3)] s(7) by_id_keys [OF assms(1)] by simp
qed

lemma deps_in_location:
  assumes "catalog_wf c" and "l \<in> set (locations c)"
  shows "deps_in (by_id c) (loc_id l) = set (dependencies l)"
  using map_of_by_id [OF catalog_wf_distinct [OF assms(1)], of "loc_id l" l] assms(2)
  by (simp add: deps_in_def)

lemma select_catalog_wf:
  assumes "catalog_wf c" and "select_catalog rx sel c = Inr d"
  shows "catalog_wf d"
proof (rule select_catalog_facts [OF assms])
  fix rs incl excl
  let ?R = "reachable_from (deps_in (by_id c)) (matching_roots incl excl c rs)"
  assume d: "matching_roots incl excl c rs \<noteq> {}" "cat_keys d = []"
    "locations d = filter (\<lambda>l. loc_id l \<in> ?R) (locations c)" "?R \<subseteq> loc_id ` set (locations c)"
  have ids: "loc_id ` set (locations d) = ?R" using d(3,4) by auto
  have "matching_roots incl excl c rs \<subseteq> ?R" by (auto intro: reachable_from_root)
  then have ne: "locations d \<noteq> []" using ids d(1) by auto
  have "set (dependencies l) \<subseteq> ?R" if "l \<in> set (locations d)" for l
    using that d(3) deps_in_location [OF assms(1), of l]
    by (auto intro: reachable_from_succ)
  moreover have "sorted_wrt (<) (map loc_id (locations d))"
    using assms(1) d(3) by (simp add: catalog_wf_def sorted_wrt_map sorted_wrt_filter)
  moreover have "length (locations d) \<le> MAX_LOCATIONS"
    unfolding d(3) by (rule le_trans [OF length_filter_le]) (use assms(1) in \<open>simp add: catalog_wf_def\<close>)
  ultimately show "catalog_wf d" using ids ne d(2) by (simp add: catalog_wf_def)
qed

text \<open>C7. A selection is exactly the dependency closure of what it asks for: from a parsed
  catalog, the selected locations are those reachable along dependencies from the requested
  locations that pass the patterns, unchanged and in catalog order, and the selection is again a
  closed catalog.\<close>

theorem selection_is_dependency_closure:
  assumes "parse bs = Inr c" and "select_catalog rx sel c = Inr d"
  shows "\<exists>rs incl excl. selection_roots c sel = Inr rs
    \<and> patterns rx (sel_include sel) = Inr incl \<and> patterns rx (sel_exclude sel) = Inr excl
    \<and> locations d = filter (\<lambda>l. loc_id l
       \<in> reachable_from (deps_in (by_id c)) (matching_roots incl excl c rs)) (locations c)
    \<and> catalog_wf d"
  using select_catalog_facts [OF parse_wf [OF assms(1)] assms(2)]
    select_catalog_wf [OF parse_wf [OF assms(1)] assms(2)] by metis

definition example_selection :: selection where
  "example_selection = \<lparr>sel_keys = [], sel_include = [''x''], sel_exclude = [], sel_priority = []\<rparr>"

text \<open>A regex compiler that accepts one pattern, which matches the empty string only.\<close>

definition example_regex :: regex_compiler where
  "example_regex v = (if v = ''x'' then Some (\<lambda>s. s = []) else None)"

lemma select_example: "select_catalog example_regex example_selection example_catalog
    = Inr (example_catalog\<lparr>cat_keys := []\<rparr>)"
  by (simp add: select_catalog_def selection_validate_def example_selection_def patterns_def
      example_regex_def selection_roots_def by_id_def bt_of_list_def example_catalog_def passes_def
      pattern_hits_def select_loop.simps select_step_def)

theorem selection_is_dependency_closure_witness:
  "\<exists>d. select_catalog example_regex example_selection example_catalog = Inr d
     \<and> map loc_id (locations d) = [40, 64] \<and> catalog_wf d"
  using selection_is_dependency_closure [OF parse_example select_example] select_example
  by (auto simp: example_catalog_def)

text \<open>Selecting from a parsed catalog never fails on the catalog itself: the only errors are an
  invalid configuration and an unsatisfiable selection.\<close>

theorem selection_fails_only_on_request:
  assumes "parse bs = Inr c" and "select_catalog rx sel c = Inl e"
  shows "e = error.Config \<or> e = error.Selection"
  using select_catalog_error [OF parse_wf [OF assms(1)] assms(2)] .

theorem selection_fails_only_on_request_witness:
  "select_catalog (\<lambda>_. None) (selection_default\<lparr>sel_keys := [''a'']\<rparr>) example_catalog = Inl error.Selection
   \<and> (error.Selection = error.Config \<or> error.Selection = error.Selection)"
proof -
  have "select_catalog (\<lambda>_. None) (selection_default\<lparr>sel_keys := [''a'']\<rparr>) example_catalog
      = Inl error.Selection"
    by (simp add: select_catalog_def selection_validate_def selection_default_def patterns_def
        selection_roots_def example_catalog_def)
  from selection_fails_only_on_request [OF parse_example this] this show ?thesis by simp
qed
end
