(* ===== verification/Asset_Plan.thy ===== *)
theory Asset_Plan
  imports Catalog_Select "HOL-Library.Product_Lexorder" "HOL-Library.Multiset"
begin

text \<open>
  The download plan of a catalog (\<open>Catalog::plan_with\<close> of \<open>src/assets.rs\<close>): which remote files
  the locations need, under which relative paths; and its ordering by the configured priorities
  (\<open>Selection::prioritize\<close> of \<open>src/catalog.rs\<close>).
\<close>

datatype provider = EncryptedBundle | UnityBundle | Cri

record asset =
  relative_path :: string
  provider :: provider
  asset_locations :: "u32 list"

record plan =
  assets :: "asset list"
  embedded_locations :: nat
  logical_locations :: nat

subsection \<open>One location\<close>

text \<open>The provider of a location: \<open>None\<close> for a logical location, which needs no file.\<close>

definition provider_of :: "string \<Rightarrow> error + provider option" where
  "provider_of pid =
     (if pid = ''Fwk.Crypt.AssetBundleCryptProvider'' then Inr (Some EncryptedBundle)
      else if pid = ''UnityEngine.ResourceManagement.ResourceProviders.AssetBundleProvider''
        then Inr (Some UnityBundle)
      else if pid = ''CriWare.Assets.CriResourceProvider'' then Inr (Some Cri)
      else if pid = ''UnityEngine.ResourceManagement.ResourceProviders.BundledAssetProvider''
        then Inr None
      else Inl error.Provider)"

datatype place = RemoteFile string | EmbeddedFile

definition locate :: "string \<Rightarrow> string option \<Rightarrow> string \<Rightarrow> error + place" where
  "locate remote_dir placeholder iid =
     (let remote = (\<lambda>p. if safe_relative p then Inr (RemoteFile p) else Inl error.AssetPath) in
      case strip_prefix ''{Fwk.Resource.RemoteAssetDir}/'' iid of
        Some p \<Rightarrow> remote p
      | None \<Rightarrow>
      (case strip_prefix (remote_dir @ ''/'') iid of
        Some p \<Rightarrow> remote p
      | None \<Rightarrow>
      (case (case placeholder of None \<Rightarrow> None | Some h \<Rightarrow> strip_prefix (h @ ''/'') iid) of
        Some p \<Rightarrow> remote p
      | None \<Rightarrow>
      (case strip_prefix ''{UnityEngine.AddressableAssets.Addressables.RuntimePath}/'' iid of
        Some p \<Rightarrow> if safe_relative p then Inr EmbeddedFile else Inl error.AssetPath
      | None \<Rightarrow> Inl error.AssetPath))))"

record plan_state =
  by_path :: "(string \<times> asset) list"
  embedded :: nat
  logical :: nat

text \<open>The file \<open>p\<close> of provider \<open>v\<close> is also needed by location \<open>i\<close>.\<close>

definition plan_file :: "(string \<times> asset) list \<Rightarrow> string \<Rightarrow> provider \<Rightarrow> u32 \<Rightarrow> error + (string \<times> asset) list" where
  "plan_file m p v i =
     (case map_of m p of
        Some a \<Rightarrow>
          and_then (fail_if (provider a \<noteq> v) error.Provider) (\<lambda>_.
          Inr (bt_insert p (a\<lparr>asset_locations := asset_locations a @ [i]\<rparr>) m))
      | None \<Rightarrow> Inr (bt_insert p \<lparr>relative_path = p, provider = v, asset_locations = [i]\<rparr> m))"

definition plan_step :: "string \<Rightarrow> string option \<Rightarrow> plan_state \<Rightarrow> location \<Rightarrow> error + plan_state" where
  "plan_step remote_dir placeholder s l =
     and_then (provider_of (provider_id l)) (\<lambda>pv.
     (case pv of
        None \<Rightarrow> Inr (s\<lparr>logical := logical s + 1\<rparr>)
      | Some v \<Rightarrow>
          and_then (locate remote_dir placeholder (internal_id l)) (\<lambda>w.
          (case w of
             EmbeddedFile \<Rightarrow> Inr (s\<lparr>embedded := embedded s + 1\<rparr>)
           | RemoteFile p \<Rightarrow>
               and_then (plan_file (by_path s) p v (loc_id l)) (\<lambda>m. Inr (s\<lparr>by_path := m\<rparr>))))))"

fun plan_locations :: "string \<Rightarrow> string option \<Rightarrow> plan_state \<Rightarrow> location list \<Rightarrow> error + plan_state" where
  "plan_locations rd ph s [] = Inr s"
| "plan_locations rd ph s (l # ls) = and_then (plan_step rd ph s l) (\<lambda>t. plan_locations rd ph t ls)"

subsection \<open>The plan\<close>

text \<open>\<open>path.match_indices('/')\<close> with \<open>&path[..i]\<close>: the proper directory prefixes of a path.\<close>

fun dir_prefixes :: "string \<Rightarrow> string list" where
  "dir_prefixes [] = []"
| "dir_prefixes (c # cs) =
     (if c = CHR ''/'' then [[]] else []) @ map (\<lambda>p. c # p) (dir_prefixes cs)"

definition plan_start :: plan_state where
  "plan_start = \<lparr>by_path = [], embedded = 0, logical = 0\<rparr>"

definition plan_with :: "string \<Rightarrow> string option \<Rightarrow> catalog \<Rightarrow> error + plan" where
  "plan_with remote_dir placeholder c =
     and_then (plan_locations remote_dir placeholder plan_start (locations c)) (\<lambda>s.
     (let folded = remdups (map to_ascii_lowercase (map fst (by_path s))) in
     and_then (fail_if (length folded \<noteq> length (by_path s)) error.AssetPath) (\<lambda>_.
     and_then (fail_if (list_ex (\<lambda>p. list_ex (\<lambda>d. d \<in> set folded) (dir_prefixes p)) folded)
         error.AssetPath) (\<lambda>_.
     Inr \<lparr>assets = map snd (by_path s), embedded_locations = embedded s,
          logical_locations = logical s\<rparr>))))"

definition rank :: "(string \<Rightarrow> bool) list \<Rightarrow> string \<Rightarrow> nat" where
  "rank ps path = length (takeWhile (\<lambda>p. \<not> p path) ps)"

definition prioritize :: "regex_compiler \<Rightarrow> selection \<Rightarrow> plan \<Rightarrow> error + plan" where
  "prioritize rx sel pl =
     and_then (patterns rx (sel_priority sel)) (\<lambda>ps.
     Inr (pl\<lparr>assets := sort_key (\<lambda>a. (rank ps (relative_path a), relative_path a)) (assets pl)\<rparr>))"

subsection \<open>Directories\<close>

lemma dir_prefixes_iff: "d \<in> set (dir_prefixes p) \<longleftrightarrow> (\<exists>r. p = d @ CHR ''/'' # r)"
proof (induction p arbitrary: d)
  case (Cons c cs)
  then show ?case by (cases d) auto
qed simp

lemma locate_safe: "locate rd ph i = Inr (RemoteFile p) \<Longrightarrow> safe_relative p"
  by (auto simp: locate_def Let_def split: option.splits if_splits)

subsection \<open>The accounting invariant\<close>

text \<open>What a location asks for: the file and provider it needs.\<close>

definition needs :: "string \<Rightarrow> string option \<Rightarrow> location \<Rightarrow> (string \<times> provider) option" where
  "needs rd ph l =
     (case (provider_of (provider_id l), locate rd ph (internal_id l)) of
        (Inr (Some v), Inr (RemoteFile p)) \<Rightarrow> Some (p, v)
      | _ \<Rightarrow> None)"

definition plan_inv :: "string \<Rightarrow> string option \<Rightarrow> plan_state \<Rightarrow> location list \<Rightarrow> bool" where
  "plan_inv rd ph s seen \<longleftrightarrow> bt_ordered (by_path s)
     \<and> (\<forall>(p, a) \<in> set (by_path s). relative_path a = p \<and> safe_relative p
          \<and> asset_locations a = map loc_id (filter (\<lambda>l. needs rd ph l = Some (p, provider a)) seen))
     \<and> (\<forall>l \<in> set seen. \<forall>p v. needs rd ph l = Some (p, v) \<longrightarrow>
          (\<exists>a. map_of (by_path s) p = Some a \<and> provider a = v))
     \<and> length seen = embedded s + logical s + length (filter (\<lambda>l. needs rd ph l \<noteq> None) seen)"

lemma set_bt_insert:
  "bt_ordered m \<Longrightarrow> set (bt_insert k v m) = insert (k, v) {x \<in> set m. fst x \<noteq> k}"
proof (induction k v m rule: bt_insert.induct)
  case (2 k v k' v' m)
  then show ?case by (auto simp: bt_ordered_def)
qed simp

text \<open>The entry that a file gets when location \<open>i\<close> needs it.\<close>

definition grown :: "asset option \<Rightarrow> string \<Rightarrow> provider \<Rightarrow> u32 \<Rightarrow> asset" where
  "grown old p v i = (case old of
      None \<Rightarrow> \<lparr>relative_path = p, provider = v, asset_locations = [i]\<rparr>
    | Some b \<Rightarrow> b\<lparr>asset_locations := asset_locations b @ [i]\<rparr>)"

lemma plan_file_Inr:
  "plan_file m p v i = Inr m' \<longleftrightarrow> (\<forall>b. map_of m p = Some b \<longrightarrow> provider b = v)
     \<and> m' = bt_insert p (grown (map_of m p) p v i) m"
  by (cases "map_of m p") (auto simp: plan_file_def grown_def result_simps)

lemma plan_step_cases:
  assumes "plan_step rd ph s l = Inr t"
  obtains (nofile) "needs rd ph l = None \<and> by_path t = by_path s
        \<and> embedded t + logical t = Suc (embedded s + logical s)"
    | (entry) p v m where "needs rd ph l = Some (p, v)" "safe_relative p"
      "plan_file (by_path s) p v (loc_id l) = Inr m" "t = s\<lparr>by_path := m\<rparr>"
proof -
  from assms obtain pv where pv: "provider_of (provider_id l) = Inr pv"
    by (auto simp: plan_step_def result_simps)
  show thesis
  proof (cases pv)
    case None
    with assms pv nofile show thesis by (auto simp: plan_step_def needs_def)
  next
    case (Some v)
    with assms pv obtain w where w: "locate rd ph (internal_id l) = Inr w"
      by (auto simp: plan_step_def result_simps)
    show thesis
    proof (cases w)
      case EmbeddedFile
      with assms pv w Some nofile show thesis by (auto simp add: plan_step_def needs_def)
    next
      case (RemoteFile p)
      with assms pv w Some obtain m where "plan_file (by_path s) p v (loc_id l) = Inr m"
        "t = s\<lparr>by_path := m\<rparr>" by (auto simp: plan_step_def result_simps)
      with entry [of p v m] pv w Some RemoteFile locate_safe show thesis by (simp add: needs_def)
    qed
  qed
qed

lemma plan_step_inv:
  assumes "plan_step rd ph s l = Inr t" and inv: "plan_inv rd ph s ls"
  shows "plan_inv rd ph t (ls @ [l])"
  using assms(1)
proof (cases rule: plan_step_cases)
  case nofile
  with inv show ?thesis by (simp add: plan_inv_def)
next
  case (entry p v m)
  have o: "bt_ordered (by_path s)" using inv by (simp add: plan_inv_def)
  define a where "a = grown (map_of (by_path s) p) p v (loc_id l)"
  have old: "provider b = v" if "map_of (by_path s) p = Some b" for b
    using entry(3) that by (simp add: plan_file_Inr)
  have a: "m = bt_insert p a (by_path s)" "provider a = v"
    using entry(3) old by (auto simp: plan_file_Inr a_def grown_def split: option.splits)
  have m: "set m = insert (p, a) {x \<in> set (by_path s). fst x \<noteq> p}" using a(1) o by (simp add: set_bt_insert)
  have mo: "map_of m = (map_of (by_path s))(p \<mapsto> a)" using a(1) o by simp
  have own: "relative_path a = p
      \<and> asset_locations a = map loc_id (filter (\<lambda>x. needs rd ph x = Some (p, provider a)) (ls @ [l]))"
  proof (cases "map_of (by_path s) p")
    case None
    with inv have "filter (\<lambda>x. needs rd ph x = Some (p, v)) ls = []"
      by (auto simp: plan_inv_def filter_empty_conv)
    with None a_def entry show ?thesis by (simp add: grown_def)
  next
    case (Some b)
    then have "(p, b) \<in> set (by_path s)" by (rule map_of_SomeD)
    with inv have "relative_path b = p"
      "asset_locations b = map loc_id (filter (\<lambda>x. needs rd ph x = Some (p, provider b)) ls)"
      by (auto simp: plan_inv_def)
    with Some a_def old entry show ?thesis by (simp add: grown_def)
  qed
  have others: "relative_path b = q \<and> safe_relative q
      \<and> asset_locations b = map loc_id (filter (\<lambda>x. needs rd ph x = Some (q, provider b)) (ls @ [l]))"
    if "(q, b) \<in> set (by_path s)" "q \<noteq> p" for q b
    using that inv entry(1) by (auto simp: plan_inv_def)
  have "relative_path b = q \<and> safe_relative q
      \<and> asset_locations b = map loc_id (filter (\<lambda>x. needs rd ph x = Some (q, provider b)) (ls @ [l]))"
    if "(q, b) \<in> set m" for q b
  proof (cases "q = p")
    case True
    with that m have "b = a" by auto
    with True own entry(2) show ?thesis by simp
  next
    case False
    with that m have "(q, b) \<in> set (by_path s)" by auto
    with False others show ?thesis by blast
  qed
  moreover have "\<exists>b. map_of m q = Some b \<and> provider b = w"
    if "x \<in> set (ls @ [l])" "needs rd ph x = Some (q, w)" for x q w
  proof (cases "x = l")
    case True
    with that entry a mo show ?thesis by simp
  next
    case False
    with that(1) have "x \<in> set ls" by simp
    with that(2) inv obtain b where b: "map_of (by_path s) q = Some b" "provider b = w"
      unfolding plan_inv_def by blast
    with entry a(2) old mo show ?thesis by auto
  qed
  moreover have "bt_ordered m" using a o by simp
  ultimately show ?thesis using inv entry by (auto simp: plan_inv_def)
qed

lemma plan_locations_inv:
  "plan_locations rd ph s ls = Inr t \<Longrightarrow> plan_inv rd ph s seen \<Longrightarrow> plan_inv rd ph t (seen @ ls)"
proof (induction rd ph s ls arbitrary: seen rule: plan_locations.induct)
  case (2 rd ph s l ls)
  then obtain u where u: "plan_step rd ph s l = Inr u" "plan_locations rd ph u ls = Inr t"
    by (auto simp: result_simps)
  from "2.IH" [OF u plan_step_inv [OF u(1) "2.prems"(2)]] show ?case by simp
qed simp

lemma plan_with_facts:
  assumes "plan_with rd ph c = Inr pl"
  obtains s where "plan_inv rd ph s (locations c)" "assets pl = map snd (by_path s)"
    "embedded_locations pl = embedded s" "logical_locations pl = logical s"
    "distinct (map to_ascii_lowercase (map fst (by_path s)))"
    "\<And>p q r. p \<in> to_ascii_lowercase ` fst ` set (by_path s)
       \<Longrightarrow> q \<in> to_ascii_lowercase ` fst ` set (by_path s) \<Longrightarrow> p \<noteq> q @ CHR ''/'' # r"
proof -
  from assms obtain s where s: "plan_locations rd ph plan_start (locations c) = Inr s"
    "length (remdups (map to_ascii_lowercase (map fst (by_path s)))) = length (by_path s)"
    "\<forall>p \<in> to_ascii_lowercase ` fst ` set (by_path s). \<forall>d \<in> set (dir_prefixes p).
        d \<notin> to_ascii_lowercase ` fst ` set (by_path s)"
    "pl = \<lparr>assets = map snd (by_path s), embedded_locations = embedded s, logical_locations = logical s\<rparr>"
    by (auto simp: plan_with_def Let_def result_simps list_ex_iff)
  have "plan_inv rd ph plan_start []" by (simp add: plan_inv_def plan_start_def)
  from plan_locations_inv [OF s(1) this] have "plan_inv rd ph s (locations c)" by simp
  moreover have "distinct (map to_ascii_lowercase (map fst (by_path s)))"
    using s(2) length_remdups_eq [of "map to_ascii_lowercase (map fst (by_path s))"]
    by (metis distinct_remdups length_map)
  moreover have "p \<noteq> q @ CHR ''/'' # r" if "p \<in> to_ascii_lowercase ` fst ` set (by_path s)"
    "q \<in> to_ascii_lowercase ` fst ` set (by_path s)" for p q r
    using s(3) that by (metis dir_prefixes_iff)
  ultimately show thesis using that [of s] s(4) by simp
qed

text \<open>The plan accounts for every location exactly once: each location of the catalog that
  needs a remote file is listed under exactly that file with its provider, in catalog order; every
  other location is counted as embedded or logical; no file is listed without a location.\<close>

theorem plan_accounts_every_location:
  assumes "plan_with rd ph c = Inr pl"
  shows "(\<forall>a \<in> set (assets pl). asset_locations a =
        map loc_id (filter (\<lambda>l. needs rd ph l = Some (relative_path a, provider a)) (locations c)))
    \<and> (\<forall>l \<in> set (locations c). \<forall>p v. needs rd ph l = Some (p, v) \<longrightarrow>
        (\<exists>!a. a \<in> set (assets pl) \<and> relative_path a = p) \<and>
        (\<exists>a \<in> set (assets pl). relative_path a = p \<and> provider a = v \<and> loc_id l \<in> set (asset_locations a)))
    \<and> length (locations c) = embedded_locations pl + logical_locations pl
        + length (filter (\<lambda>l. needs rd ph l \<noteq> None) (locations c))"
proof (rule plan_with_facts [OF assms])
  fix s
  assume inv: "plan_inv rd ph s (locations c)"
    and pl: "assets pl = map snd (by_path s)" "embedded_locations pl = embedded s"
      "logical_locations pl = logical s"
  have own: "relative_path a = p \<and> asset_locations a
      = map loc_id (filter (\<lambda>l. needs rd ph l = Some (p, provider a)) (locations c))"
    if "(p, a) \<in> set (by_path s)" for p a
    using inv that by (auto simp: plan_inv_def)
  have uniq: "a = b" if "(p, a) \<in> set (by_path s)" "(p, b) \<in> set (by_path s)" for p a b
  proof -
    have "bt_ordered (by_path s)" using inv by (simp add: plan_inv_def)
    with that show ?thesis by (meson bt_ordered_distinct eq_key_imp_eq_value)
  qed
  have "(\<exists>!a. a \<in> set (assets pl) \<and> relative_path a = p) \<and> (\<exists>a \<in> set (assets pl).
      relative_path a = p \<and> provider a = v \<and> loc_id l \<in> set (asset_locations a))"
    if l: "l \<in> set (locations c)" "needs rd ph l = Some (p, v)" for l p v
  proof -
    from l inv obtain a where a: "map_of (by_path s) p = Some a" "provider a = v"
      unfolding plan_inv_def by blast
    then have m: "(p, a) \<in> set (by_path s)" by (simp add: map_of_SomeD)
    then have "a \<in> set (assets pl)" "relative_path a = p" "loc_id l \<in> set (asset_locations a)"
      using own [OF m] l a pl(1) by force+
    moreover have "b = a" if b: "b \<in> set (assets pl)" "relative_path b = p" for b
      using b pl(1) own uniq m by force
    ultimately show ?thesis using a(2) by blast
  qed
  moreover have "\<forall>a \<in> set (assets pl). asset_locations a =
      map loc_id (filter (\<lambda>l. needs rd ph l = Some (relative_path a, provider a)) (locations c))"
    using own pl(1) by auto
  moreover have "length (locations c) = embedded_locations pl + logical_locations pl
      + length (filter (\<lambda>l. needs rd ph l \<noteq> None) (locations c))"
    using inv pl(2,3) unfolding plan_inv_def by simp
  ultimately show ?thesis by blast
qed

definition example_plan_catalog :: catalog where
  "example_plan_catalog = \<lparr>locations =
     [\<lparr>loc_id = 1, primary_key = ''k'', internal_id = ''cdn/a.b'',
        provider_id = ''CriWare.Assets.CriResourceProvider'', dependencies = []\<rparr>,
      \<lparr>loc_id = 2, primary_key = ''k'', internal_id = ''x'', provider_id =
        ''UnityEngine.ResourceManagement.ResourceProviders.BundledAssetProvider'', dependencies = [1]\<rparr>,
      \<lparr>loc_id = 7, primary_key = ''k'', internal_id = ''{Fwk.Resource.RemoteAssetDir}/a.b'',
        provider_id = ''CriWare.Assets.CriResourceProvider'', dependencies = []\<rparr>],
     cat_keys = []\<rparr>"

definition example_plan :: plan where
  "example_plan = \<lparr>assets = [\<lparr>relative_path = ''a.b'', provider = Cri, asset_locations = [1, 7]\<rparr>],
     embedded_locations = 0, logical_locations = 1\<rparr>"

lemma plan_example: "plan_with ''cdn'' None example_plan_catalog = Inr example_plan"
proof -
  have "safe_relative ''a.b''"
    by (simp add: safe_relative_def is_ascii_alphanumeric_def is_ascii_digit_def
        is_ascii_lowercase_def is_ascii_uppercase_def less_eq_char_def)
  then show ?thesis
    by (simp add: plan_with_def example_plan_catalog_def plan_step_def provider_of_def locate_def
        strip_prefix_def plan_file_def plan_start_def example_plan_def Let_def
        to_ascii_lowercase_def to_ascii_lower_def is_ascii_uppercase_def less_eq_char_def)
qed

theorem plan_accounts_every_location_witness:
  "asset_locations (hd (assets example_plan)) = map loc_id (filter
     (\<lambda>l. needs ''cdn'' None l = Some (''a.b'', Cri)) (locations example_plan_catalog))
   \<and> asset_locations (hd (assets example_plan)) = [1, 7]"
proof -
  have "hd (assets example_plan) \<in> set (assets example_plan)" by (simp add: example_plan_def)
  with plan_accounts_every_location [OF plan_example]
  have "asset_locations (hd (assets example_plan)) = map loc_id (filter (\<lambda>l. needs ''cdn'' None l
      = Some (relative_path (hd (assets example_plan)), provider (hd (assets example_plan))))
      (locations example_plan_catalog))" by blast
  then show ?thesis by (simp add: example_plan_def)
qed

text \<open>C9. A plan can be laid out on any file system: its paths are strictly ascending and safe,
  stay distinct when case is ignored, and no path is, up to case, a directory that another one
  lies in.\<close>

theorem plan_paths_deployable:
  assumes "plan_with rd ph c = Inr pl"
  shows "sorted_wrt (<) (map relative_path (assets pl))
    \<and> (\<forall>a \<in> set (assets pl). safe_relative (relative_path a))
    \<and> distinct (map (\<lambda>a. to_ascii_lowercase (relative_path a)) (assets pl))
    \<and> (\<forall>a \<in> set (assets pl). \<forall>b \<in> set (assets pl). \<forall>r.
        to_ascii_lowercase (relative_path a) \<noteq> to_ascii_lowercase (relative_path b) @ CHR ''/'' # r)"
proof (rule plan_with_facts [OF assms])
  fix s
  assume inv: "plan_inv rd ph s (locations c)" and pl: "assets pl = map snd (by_path s)"
    and d: "distinct (map to_ascii_lowercase (map fst (by_path s)))"
      "\<And>p q r. p \<in> to_ascii_lowercase ` fst ` set (by_path s)
       \<Longrightarrow> q \<in> to_ascii_lowercase ` fst ` set (by_path s) \<Longrightarrow> p \<noteq> q @ CHR ''/'' # r"
  have paths: "map relative_path (assets pl) = map fst (by_path s)"
    using inv pl by (auto simp: plan_inv_def)
  have set: "relative_path a \<in> fst ` set (by_path s)" if "a \<in> set (assets pl)" for a
    using that paths by (metis image_eqI image_set)
  have "map (\<lambda>a. to_ascii_lowercase (relative_path a)) (assets pl)
      = map to_ascii_lowercase (map fst (by_path s))"
    unfolding paths [symmetric] by simp
  moreover have "sorted_wrt (<) (map relative_path (assets pl))"
    unfolding paths using inv by (simp add: plan_inv_def bt_ordered_def)
  moreover have "safe_relative (relative_path a)" if "a \<in> set (assets pl)" for a
    using that pl inv by (auto simp: plan_inv_def)
  ultimately show ?thesis using d set by (metis imageI)
qed

theorem plan_paths_deployable_witness:
  "plan_with ''cdn'' None example_plan_catalog = Inr example_plan
   \<and> distinct (map (\<lambda>a. to_ascii_lowercase (relative_path a)) (assets example_plan))
   \<and> assets example_plan \<noteq> []"
  using plan_paths_deployable [OF plan_example] plan_example by (simp add: example_plan_def)

subsection \<open>Priorities\<close>

lemma rank_first:
  "rank ps path = n \<longleftrightarrow> n \<le> length ps \<and> (\<forall>i < n. \<not> (ps ! i) path) \<and> (n < length ps \<longrightarrow> (ps ! n) path)"
proof -
  have 1: "rank ps path \<le> length ps" by (simp add: rank_def length_takeWhile_le)
  have 2: "\<not> (ps ! i) path" if "i < rank ps path" for i
    using that nth_mem [of i "takeWhile (\<lambda>p. \<not> p path) ps"] set_takeWhileD
    by (metis rank_def takeWhile_nth)
  have 3: "(ps ! rank ps path) path" if "rank ps path < length ps"
    using that nth_length_takeWhile [of "\<lambda>p. \<not> p path" ps] by (simp add: rank_def)
  show ?thesis using 1 2 3 by (metis le_eq_less_or_eq linorder_neqE_nat order_less_le_trans)
qed

text \<open>Prioritising reorders and loses nothing: the assets are a permutation, in ascending order
  of the first priority pattern that matches them (unmatched ones last), and by path within one
  pattern.\<close>

theorem prioritized_in_order:
  assumes "prioritize rx sel pl = Inr pl'" and "patterns rx (sel_priority sel) = Inr ps"
  shows "mset (assets pl') = mset (assets pl)
    \<and> sorted_wrt (\<lambda>a b. rank ps (relative_path a) < rank ps (relative_path b)
        \<or> rank ps (relative_path a) = rank ps (relative_path b) \<and> relative_path a \<le> relative_path b)
        (assets pl')"
proof -
  let ?key = "\<lambda>a. (rank ps (relative_path a), relative_path a)"
  have a: "assets pl' = sort_key ?key (assets pl)"
    using assms by (auto simp: prioritize_def)
  have "sorted (map ?key (assets pl'))" unfolding a by (rule sorted_sort_key)
  then have "sorted_wrt (\<lambda>x y. ?key x \<le> ?key y) (assets pl')" by (simp add: sorted_wrt_map)
  then have "sorted_wrt (\<lambda>a b. rank ps (relative_path a) < rank ps (relative_path b)
        \<or> rank ps (relative_path a) = rank ps (relative_path b) \<and> relative_path a \<le> relative_path b)
        (assets pl')"
    by (rule sorted_wrt_mono_rel [rotated]) auto
  with a show ?thesis by simp
qed

theorem prioritized_in_order_witness:
  "\<exists>pl'. prioritize example_regex (selection_default\<lparr>sel_priority := [''x'']\<rparr>) example_plan = Inr pl'
     \<and> mset (assets pl') = mset (assets example_plan)"
proof -
  have p: "patterns example_regex (sel_priority (selection_default\<lparr>sel_priority := [''x'']\<rparr>))
      = Inr [\<lambda>s. s = []]"
    by (simp add: patterns_def example_regex_def)
  then obtain pl' where
    "prioritize example_regex (selection_default\<lparr>sel_priority := [''x'']\<rparr>) example_plan = Inr pl'"
    by (simp add: prioritize_def)
  with prioritized_in_order [OF this p] show ?thesis by blast
qed
end
