(* ===== verification/Bounded_Transfer.thy ===== *)
theory Bounded_Transfer
  imports Asset_Plan
begin

text \<open>
  Bounded transfers: \<open>download_asset_inner\<close> (\<open>src/update.rs\<close>), \<open>download_catalog_inner\<close>,
  \<open>catalog_hash\<close> and \<open>cdn_attempt\<close> (\<open>src/lib.rs\<close>), \<open>bounded_api_response\<close>
  (\<open>src/readiness.rs\<close>). A response is what the HTTP library yields: a status, a content length,
  the chunks, and whether the stream ends in an error. The file system's own failures are inputs
  as well. Files are byte lists; a staged file is \<open>None\<close> while it does not exist.
\<close>

subsection \<open>Hashes and the key stream\<close>

text \<open>The functions of the cryptographic crates the code calls: SHA-256 (\<open>sha2\<close>), hexadecimal text
  (\<open>hex\<close>; decoding into a slice of the given length), and the AES-128-CTR key stream (\<open>aes\<close>,
  \<open>ctr\<close>) for a key, an initial counter block and a length.\<close>

record crypto =
  sha256 :: "byte list \<Rightarrow> byte list"
  hex_encode :: "byte list \<Rightarrow> string"
  hex_decode :: "nat \<Rightarrow> string \<Rightarrow> byte list option"
  keystream :: "byte list \<Rightarrow> byte list \<Rightarrow> nat \<Rightarrow> byte list"

definition bytes_of :: "string \<Rightarrow> byte list" where
  "bytes_of s = map (\<lambda>c. of_nat (of_char c)) s"

lemma length_bytes_of [simp]: "length (bytes_of s) = length s"
  by (simp add: bytes_of_def)

lemma byte_of_char_inj: "(of_nat (of_char c) :: byte) = of_nat (of_char d) \<Longrightarrow> c = d"
proof -
  assume "(of_nat (of_char c) :: byte) = of_nat (of_char d)"
  then have "unat (of_nat (of_char c) :: byte) = unat (of_nat (of_char d) :: byte)" by simp
  then have "(of_char c :: nat) = of_char d" by (simp add: unat_of_nat)
  then show "c = d" by (simp only: of_char_eq_iff)
qed

lemma bytes_of_inj: "bytes_of s = bytes_of t \<longleftrightarrow> s = t"
  unfolding bytes_of_def by (rule inj_map_eq_map) (auto intro: injI byte_of_char_inj)

lemma bytes_of_append [simp]: "bytes_of (s @ t) = bytes_of s @ bytes_of t"
  by (simp add: bytes_of_def)

definition UNITY_MAGIC :: "byte list" where
  "UNITY_MAGIC = [0x55, 0x6E, 0x69, 0x74, 0x79, 0x46, 0x53, 0x00]"

definition CATALOG_MAGIC :: "byte list" where
  "CATALOG_MAGIC = [0x42, 0x89, 0xE3, 0x0D, 2, 0, 0, 0]"

lemma length_magics [simp]: "length UNITY_MAGIC = 8" "length CATALOG_MAGIC = 8"
  by (simp_all add: UNITY_MAGIC_def CATALOG_MAGIC_def)

subsection \<open>Receiving a stream into a file\<close>

record response =
  http_code :: u16
  content_length :: "nat option"
  chunks :: "byte list list"
  broken :: bool

text \<open>Whether creating, the \<open>n\<close>-th write and the final sync of the staged file succeed.\<close>

record disk =
  create_ok :: bool
  write_ok :: "nat \<Rightarrow> bool"
  sync_ok :: bool

record transfer =
  tr_size :: nat
  tr_prefix :: "byte list"
  tr_digest :: "byte list"
  tr_written :: "byte list"

definition transfer_start :: transfer where
  "transfer_start = \<lparr>tr_size = 0, tr_prefix = [], tr_digest = [], tr_written = []\<rparr>"

text \<open>\<open>status(&response)?\<close>\<close>

definition status_ok :: "response \<Rightarrow> error + unit" where
  "status_ok r = fail_if (http_code r \<noteq> 200) (error.Status (http_code r))"

text \<open>The \<open>while let Some(chunk)\<close> loop of the two downloads; \<open>tr_digest\<close> is what the hash was fed.\<close>

fun receive :: "nat \<Rightarrow> disk \<Rightarrow> bool \<Rightarrow> nat \<Rightarrow> byte list list \<Rightarrow> transfer \<Rightarrow> (error + unit) \<times> transfer" where
  "receive limit d br n [] s = (if br then Inl error.Transport else Inr (), s)"
| "receive limit d br n (c # cs) s =
     (let total = tr_size s + length c;
          s1 = s\<lparr>tr_size := total\<rparr> in
      if limit < total then (Inl error.Size, s1)
      else
        (let s2 = s1\<lparr>tr_prefix := tr_prefix s @ take (8 - length (tr_prefix s)) c,
                    tr_digest := tr_digest s @ c\<rparr> in
         if \<not> write_ok d n then (Inl error.Io, s2)
         else receive limit d br (Suc n) cs (s2\<lparr>tr_written := tr_written s @ c\<rparr>)))"

type_synonym staged = "byte list option"

text \<open>\<open>download_asset_inner\<close>: result and staged file, from the file before the attempt. \<open>None\<close> as a
  response is a request that could not be sent.\<close>

definition download_asset_inner ::
  "crypto \<Rightarrow> nat \<Rightarrow> provider \<Rightarrow> disk \<Rightarrow> response option \<Rightarrow> staged \<Rightarrow> (error + (nat \<times> string)) \<times> staged" where
  "download_asset_inner cr limit pv d resp old =
     (case resp of
        None \<Rightarrow> (Inl error.Transport, old)
      | Some r \<Rightarrow>
          (case status_ok r of
             Inl e \<Rightarrow> (Inl e, old)
           | Inr _ \<Rightarrow>
               if is_some_and (\<lambda>len. limit < len) (content_length r) then (Inl error.Size, old)
               else if \<not> create_ok d then (Inl error.Io, old)
               else
                 (let (res, s) = receive limit d (broken r) 0 (chunks r) transfer_start in
                  (and_then res (\<lambda>_.
                   and_then (fail_if (tr_size s = 0 \<or> (pv = UnityBundle \<and> tr_prefix s \<noteq> UNITY_MAGIC))
                     error.Bundle) (\<lambda>_.
                   and_then (fail_if (\<not> sync_ok d) error.Io) (\<lambda>_.
                   Inr (tr_size s, hex_encode cr (sha256 cr (tr_digest s)))))), Some (tr_written s)))))"

definition CATALOG_MAX :: nat where
  "CATALOG_MAX = 64 * 1024 * 1024"

definition download_catalog_inner ::
  "crypto \<Rightarrow> disk \<Rightarrow> response option \<Rightarrow> staged \<Rightarrow> (error + (nat \<times> string)) \<times> staged" where
  "download_catalog_inner cr d resp old =
     (case resp of
        None \<Rightarrow> (Inl error.Transport, old)
      | Some r \<Rightarrow>
          (case status_ok r of
             Inl e \<Rightarrow> (Inl e, old)
           | Inr _ \<Rightarrow>
               if is_some_and (\<lambda>len. CATALOG_MAX < len) (content_length r) then (Inl error.Size, old)
               else if \<not> create_ok d then (Inl error.Io, old)
               else
                 (let (res, s) = receive CATALOG_MAX d (broken r) 0 (chunks r) transfer_start in
                  (and_then res (\<lambda>_.
                   and_then (fail_if (tr_prefix s \<noteq> CATALOG_MAGIC \<or> tr_size s \<le> 8) error.Catalog) (\<lambda>_.
                   and_then (fail_if (\<not> sync_ok d) error.Io) (\<lambda>_.
                   Inr (tr_size s, hex_encode cr (sha256 cr (tr_digest s)))))), Some (tr_written s)))))"

subsection \<open>Receiving into memory\<close>

fun collect_chunks :: "nat \<Rightarrow> bool \<Rightarrow> byte list list \<Rightarrow> byte list \<Rightarrow> error + byte list" where
  "collect_chunks limit br [] acc = (if br then Inl error.Transport else Inr acc)"
| "collect_chunks limit br (c # cs) acc =
     (if limit < length acc + length c then Inl error.Size
      else collect_chunks limit br cs (acc @ c))"

definition bounded_api_response :: "response \<Rightarrow> error + byte list" where
  "bounded_api_response r = and_then (status_ok r) (\<lambda>_. collect_chunks 65536 (broken r) (chunks r) [])"

text \<open>One attempt of the \<open>.hash\<close> request; \<open>parse_hash\<close> is \<open>catalog_hash\<close> on the body.\<close>

definition hash_attempt :: "(byte list \<Rightarrow> string option) \<Rightarrow> response option \<Rightarrow> error + string" where
  "hash_attempt parse_hash resp =
     and_then (ok_or error.Transport resp) (\<lambda>r.
     and_then (status_ok r) (\<lambda>_.
     and_then (fail_if (is_some_and (\<lambda>n. 256 < n) (content_length r)) error.Size) (\<lambda>_.
     and_then (collect_chunks 256 (broken r) (chunks r) []) (\<lambda>bs.
     ok_or error.Catalog (parse_hash bs)))))"

subsection \<open>Attempts\<close>

text \<open>
  What can happen to one attempt inside \<open>cdn_attempt\<close>: the deadline passes (the operation is
  dropped wherever it is, leaving what it had written), the service's download gate is closed, or
  the operation runs to its end.
\<close>

datatype attempt_event = Deadline staged | GateClosed | Ran

definition cdn_attempt ::
  "attempt_event \<Rightarrow> (staged \<Rightarrow> (error + 'a) \<times> staged) \<Rightarrow> staged \<Rightarrow> (error + 'a) \<times> staged" where
  "cdn_attempt ev op old = (case ev of
      Deadline left_over \<Rightarrow> (Inl error.Transport, left_over)
    | GateClosed \<Rightarrow> (Inl error.Cancelled, old)
    | Ran \<Rightarrow> op old)"

text \<open>The retry loop around an operation on the staged file.\<close>

fun staged_retry ::
  "retry_policy \<Rightarrow> (nat \<Rightarrow> staged \<Rightarrow> (error + 'a) \<times> staged) \<Rightarrow> nat list \<Rightarrow> staged
   \<Rightarrow> (error + 'a) \<times> staged" where
  "staged_retry r op [] f = (Inl error.Transport, f)"
| "staged_retry r op (n # ns) f =
     (case op n f of
        (Inr v, f') \<Rightarrow> (Inr v, f')
      | (Inl e, f') \<Rightarrow> if \<not> retry r e n then (Inl e, f') else staged_retry r op ns f')"

text \<open>What the network and the disk do in each attempt at one file.\<close>

record attempts_world =
  att_event :: "nat \<Rightarrow> attempt_event"
  att_response :: "nat \<Rightarrow> response option"
  att_disk :: "nat \<Rightarrow> disk"

definition fetch_asset ::
  "crypto \<Rightarrow> retry_policy \<Rightarrow> attempts_world \<Rightarrow> nat \<Rightarrow> provider \<Rightarrow> staged
   \<Rightarrow> (error + (nat \<times> string)) \<times> staged" where
  "fetch_asset cr r w limit pv f =
     staged_retry r (\<lambda>n. cdn_attempt (att_event w n)
        (download_asset_inner cr limit pv (att_disk w n) (att_response w n))) [0..<unat (attempts r)] f"

definition fetch_catalog ::
  "crypto \<Rightarrow> retry_policy \<Rightarrow> attempts_world \<Rightarrow> staged \<Rightarrow> (error + (nat \<times> string)) \<times> staged" where
  "fetch_catalog cr r w f =
     staged_retry r (\<lambda>n. cdn_attempt (att_event w n)
        (download_catalog_inner cr (att_disk w n) (att_response w n))) [0..<unat (attempts r)] f"

subsection \<open>What a transfer leaves behind\<close>

lemma receive_bound:
  assumes "receive limit d br n cs s = (res, t)" and "length (tr_written s) = tr_size s"
    and "tr_size s \<le> limit"
  shows "length (tr_written t) \<le> limit"
  using assms
proof (induction limit d br n cs s rule: receive.induct)
  case (2 limit d br n c cs s)
  then show ?case by (auto simp: Let_def split: if_splits)
qed auto

lemma receive_Inr:
  assumes "receive limit d br n cs s = (Inr u, t)" and "length (tr_written s) = tr_size s"
    and "tr_digest s = tr_written s" and "tr_prefix s = take 8 (tr_written s)" and "tr_size s \<le> limit"
  shows "tr_written t = tr_written s @ concat cs \<and> tr_size t = length (tr_written t)
    \<and> tr_digest t = tr_written t \<and> tr_prefix t = take 8 (tr_written t) \<and> length (tr_written s @ concat cs) \<le> limit \<and> \<not> br"
  using assms
proof (induction limit d br n cs s rule: receive.induct)
  case (2 limit d br n c cs s)
  from "2.prems" have "\<not> limit < tr_size s + length c" "write_ok d n"
    by (auto simp: Let_def split: if_splits)
  moreover have "8 - min (length (tr_written s)) 8 = 8 - length (tr_written s)" by simp
  ultimately show ?case using "2.IH" [OF refl refl] "2.prems" by (simp add: Let_def)
qed (auto split: if_splits)

lemma receive_start:
  assumes "receive limit d br 0 cs transfer_start = (Inr u, t)"
  shows "tr_written t = concat cs" "tr_size t = length (concat cs)" "tr_digest t = concat cs"
    "tr_prefix t = take 8 (concat cs)" "length (concat cs) \<le> limit" "\<not> br"
  using receive_Inr [OF assms] by (auto simp: transfer_start_def)

text \<open>A complete response: everything a successful attempt relied on.\<close>

definition complete :: "response \<Rightarrow> nat \<Rightarrow> byte list \<Rightarrow> bool" where
  "complete r limit body \<longleftrightarrow> http_code r = 200 \<and> \<not> broken r \<and> body = concat (chunks r)
     \<and> length body \<le> limit"

lemma download_asset_Inr:
  assumes "download_asset_inner cr limit pv d resp old = (Inr (n, h), f)"
  obtains r where "resp = Some r" "complete r limit (concat (chunks r))" "f = Some (concat (chunks r))"
    "n = length (concat (chunks r))" "0 < n" "h = hex_encode cr (sha256 cr (concat (chunks r)))"
    "pv = UnityBundle \<Longrightarrow> take 8 (concat (chunks r)) = UNITY_MAGIC"
proof -
  from assms obtain r where r: "resp = Some r" by (cases resp) (simp_all add: download_asset_inner_def)
  with assms obtain u s where s: "receive limit d (broken r) 0 (chunks r) transfer_start = (Inr u, s)"
    "http_code r = 200" "f = Some (tr_written s)" "n = tr_size s" "0 < tr_size s"
    "h = hex_encode cr (sha256 cr (tr_digest s))" "pv = UnityBundle \<longrightarrow> tr_prefix s = UNITY_MAGIC"
    by (auto simp: download_asset_inner_def status_ok_def result_simps
        split: sum.splits if_splits prod.splits)
  from receive_start [OF s(1)] s r that show thesis by (simp add: complete_def)
qed

lemma download_catalog_Inr:
  assumes "download_catalog_inner cr d resp old = (Inr (n, h), f)"
  obtains r where "resp = Some r" "complete r CATALOG_MAX (concat (chunks r))"
    "f = Some (concat (chunks r))" "n = length (concat (chunks r))" "8 < n"
    "h = hex_encode cr (sha256 cr (concat (chunks r)))" "take 8 (concat (chunks r)) = CATALOG_MAGIC"
proof -
  from assms obtain r where r: "resp = Some r" by (cases resp) (simp_all add: download_catalog_inner_def)
  with assms obtain u s where s: "receive CATALOG_MAX d (broken r) 0 (chunks r) transfer_start = (Inr u, s)"
    "http_code r = 200" "f = Some (tr_written s)" "n = tr_size s" "8 < tr_size s"
    "h = hex_encode cr (sha256 cr (tr_digest s))" "tr_prefix s = CATALOG_MAGIC"
    by (auto simp: download_catalog_inner_def status_ok_def result_simps
        split: sum.splits if_splits prod.splits)
  from receive_start [OF s(1)] s r that show thesis by (simp add: complete_def)
qed

lemma collect_chunks_Inr:
  "collect_chunks limit br cs acc = Inr bs \<Longrightarrow> length acc \<le> limit
     \<Longrightarrow> bs = acc @ concat cs \<and> length bs \<le> limit \<and> \<not> br"
  by (induction limit br cs acc rule: collect_chunks.induct) (auto split: if_splits)

lemma bounded_api_response_Inr:
  "bounded_api_response r = Inr bs \<Longrightarrow> complete r 65536 bs"
  using collect_chunks_Inr [of 65536 "broken r" "chunks r" "[]" bs]
  by (auto simp: bounded_api_response_def complete_def status_ok_def result_simps)

lemma hash_attempt_Inr:
  assumes "hash_attempt p resp = Inr h"
  obtains r bs where "resp = Some r" "complete r 256 bs" "p bs = Some h"
  using assms collect_chunks_Inr [where limit = 256 and acc = "[]"]
  by (fastforce simp: hash_attempt_def complete_def status_ok_def result_simps)

subsection \<open>What the retry loop leaves behind\<close>

lemma staged_retry_Inr:
  "staged_retry r op ns f = (Inr v, f') \<Longrightarrow> \<exists>n \<in> set ns. \<exists>g. op n g = (Inr v, f')"
  by (induction r op ns f rule: staged_retry.induct) (auto split: prod.splits sum.splits if_splits)

text \<open>On results, the loop is the retry loop of the network component.\<close>

lemma staged_retry_result:
  assumes "\<And>n f. fst (op n f) = res n"
  shows "fst (staged_retry r op ns f) = fst (for_retry r res ns)"
proof (induction ns arbitrary: f)
  case (Cons n ns)
  show ?case
  proof (cases "op n f")
    case (Pair a g)
    with assms [of n f] have "res n = a" by simp
    with Pair Cons show ?thesis by (cases a) (auto split: prod.splits)
  qed
qed simp

lemma cdn_attempt_Inr: "cdn_attempt ev op f = (Inr v, f') \<longleftrightarrow> ev = Ran \<and> op f = (Inr v, f')"
  by (cases ev) (auto simp: cdn_attempt_def)

lemma fetch_asset_Inr:
  assumes "fetch_asset cr rp w limit pv f = (Inr (n, h), f')"
  obtains k r where "k < unat (attempts rp)" "att_response w k = Some r"
    "complete r limit (concat (chunks r))" "f' = Some (concat (chunks r))"
    "n = length (concat (chunks r))" "0 < n" "h = hex_encode cr (sha256 cr (concat (chunks r)))"
    "pv = UnityBundle \<Longrightarrow> take 8 (concat (chunks r)) = UNITY_MAGIC"
proof -
  from staged_retry_Inr [OF assms [unfolded fetch_asset_def]] obtain k g where
    "k < unat (attempts rp)"
    "download_asset_inner cr limit pv (att_disk w k) (att_response w k) g = (Inr (n, h), f')"
    by (auto simp: cdn_attempt_Inr)
  from this(2) this(1) that show thesis by (elim download_asset_Inr) blast
qed

lemma fetch_catalog_Inr:
  assumes "fetch_catalog cr rp w f = (Inr (n, h), f')"
  obtains k r where "k < unat (attempts rp)" "att_response w k = Some r"
    "complete r CATALOG_MAX (concat (chunks r))" "f' = Some (concat (chunks r))"
    "n = length (concat (chunks r))" "8 < n" "h = hex_encode cr (sha256 cr (concat (chunks r)))"
    "take 8 (concat (chunks r)) = CATALOG_MAGIC"
proof -
  from staged_retry_Inr [OF assms [unfolded fetch_catalog_def]] obtain k g where
    "k < unat (attempts rp)"
    "download_catalog_inner cr (att_disk w k) (att_response w k) g = (Inr (n, h), f')"
    by (auto simp: cdn_attempt_Inr)
  from this(2) this(1) that show thesis by (elim download_catalog_Inr) blast
qed

text \<open>A downloaded file is one complete response: whatever earlier attempts left in the staged
  file, after a successful fetch it holds exactly the body of a single attempt within the retry
  budget, answered with status 200 and ended properly; the body is not empty, within the size limit
  and, for a Unity bundle, starts with the bundle magic; size and hash are of that body.\<close>

theorem downloaded_file_is_one_response:
  assumes "fetch_asset cr rp w limit pv old = (Inr (n, h), f)"
  shows "\<exists>k r body. k < unat (attempts rp) \<and> att_response w k = Some r \<and> complete r limit body
    \<and> f = Some body \<and> n = length body \<and> 0 < n \<and> n \<le> limit \<and> h = hex_encode cr (sha256 cr body)
    \<and> (pv = UnityBundle \<longrightarrow> take 8 body = UNITY_MAGIC)"
proof (rule fetch_asset_Inr [OF assms])
  fix k r
  assume "k < unat (attempts rp)" "att_response w k = Some r" "complete r limit (concat (chunks r))"
    "f = Some (concat (chunks r))" "n = length (concat (chunks r))" "0 < n"
    "h = hex_encode cr (sha256 cr (concat (chunks r)))"
    "pv = UnityBundle \<Longrightarrow> take 8 (concat (chunks r)) = UNITY_MAGIC"
  then show ?thesis
    by (intro exI [of _ k] exI [of _ r] exI [of _ "concat (chunks r)"]) (auto simp: complete_def)
qed

text \<open>A first attempt that breaks after two chunks, then a complete one.\<close>

definition example_crypto :: crypto where
  "example_crypto = \<lparr>sha256 = (\<lambda>bs. take 8 (rev bs)), hex_encode = (\<lambda>bs. map char_of_byte bs),
     hex_decode = (\<lambda>n s. if length s = n then Some (bytes_of s) else None),
     keystream = (\<lambda>k c n. replicate n 1)\<rparr>"

definition example_attempts :: attempts_world where
  "example_attempts = \<lparr>att_event = (\<lambda>_. Ran),
     att_response = (\<lambda>k. Some (if k = 0
        then \<lparr>http_code = 200, content_length = None, chunks = [[9, 9, 9], [9]], broken = True\<rparr>
        else \<lparr>http_code = 200, content_length = Some 3, chunks = [[1], [2, 3]], broken = False\<rparr>)),
     att_disk = (\<lambda>_. \<lparr>create_ok = True, write_ok = (\<lambda>_. True), sync_ok = True\<rparr>)\<rparr>"

lemma fetch_example:
  "fetch_asset example_crypto retry_default example_attempts 100 Cri None
   = (Inr (3, map char_of_byte [3, 2, 1]), Some [1, 2, 3])"
  by (simp add: fetch_asset_def retry_default_def upt_rec cdn_attempt_def example_attempts_def
      download_asset_inner_def status_ok_def transfer_start_def retry_iff transient_def
      example_crypto_def)

theorem downloaded_file_is_one_response_witness:
  "\<exists>k r. att_response example_attempts k = Some r \<and> complete r 100 [1, 2, 3]
     \<and> fst (fetch_asset example_crypto retry_default example_attempts 100 Cri None)
         = Inr (3, map char_of_byte [3, 2, 1])"
  using downloaded_file_is_one_response [OF fetch_example] fetch_example by auto

end
