(* ===== verification/Bundle_Crypt.thy ===== *)
theory Bundle_Crypt
  imports Bounded_Transfer
begin

text \<open>
  Bundle decryption (\<open>BundleKey\<close> of \<open>src/assets.rs\<close>): the first 16384 bytes of an encrypted
  bundle are XORed with an AES-CTR key stream whose counter block comes from a hash of the seed and
  the bundle's name. A file that already starts with the bundle magic is left alone. The failures of
  the file system are inputs.
\<close>

unbundle bit_operations_syntax

record bundle_key =
  bk_key :: "byte list"
  bk_seed :: "byte list"

definition from_hex :: "crypto \<Rightarrow> string \<Rightarrow> string \<Rightarrow> error + bundle_key" where
  "from_hex cr k seed =
     and_then (ok_or error.Secret (hex_decode cr 16 k)) (\<lambda>key_bytes.
     and_then (ok_or error.Secret (hex_decode cr 8 seed)) (\<lambda>seed_bytes.
     Inr \<lparr>bk_key = key_bytes, bk_seed = seed_bytes\<rparr>))"

definition counter_block :: "crypto \<Rightarrow> bundle_key \<Rightarrow> string \<Rightarrow> byte list" where
  "counter_block cr k basename =
     take 8 (sha256 cr (bk_seed k @ bytes_of basename)) @ replicate 8 0"

text \<open>\<open>cipher.apply_keystream(&mut bytes[..len])\<close>\<close>

definition apply_keystream :: "crypto \<Rightarrow> bundle_key \<Rightarrow> string \<Rightarrow> byte list \<Rightarrow> byte list" where
  "apply_keystream cr k basename bs =
     (let len = min (length bs) 16384 in
      map2 (\<lambda>a b. a XOR b) (take len bs) (keystream cr (bk_key k) (counter_block cr k basename) len)
      @ drop len bs)"

text \<open>\<open>decrypt_prefix\<close> changes the bytes in place, also when it fails with \<open>Error::Bundle\<close>.\<close>

definition decrypt_prefix :: "crypto \<Rightarrow> bundle_key \<Rightarrow> string \<Rightarrow> byte list \<Rightarrow> (error + unit) \<times> byte list" where
  "decrypt_prefix cr k basename bs =
     (if \<not> safe_relative basename \<or> CHR ''/'' \<in> set basename then (Inl error.AssetPath, bs)
      else if starts_with bs UNITY_MAGIC then (Inr (), bs)
      else
        (let out = apply_keystream cr k basename bs in
         (fail_if (\<not> starts_with out UNITY_MAGIC) error.Bundle, out)))"

text \<open>Which of the file operations of \<open>decrypt_file\<close> succeed; \<open>write_stop = Some n\<close> is a write that
  fails after \<open>n\<close> bytes.\<close>

record file_faults =
  open_ok :: bool
  read_ok :: bool
  seek_ok :: bool
  write_stop :: "nat option"
  sync_done :: bool

definition overwrite :: "byte list \<Rightarrow> byte list \<Rightarrow> byte list" where
  "overwrite new old = new @ drop (length new) old"

definition decrypt_file ::
  "crypto \<Rightarrow> bundle_key \<Rightarrow> file_faults \<Rightarrow> string \<Rightarrow> byte list \<Rightarrow> (error + bool) \<times> byte list" where
  "decrypt_file cr k io basename content =
     (if \<not> open_ok io \<or> \<not> read_ok io then (Inl error.Io, content)
      else
        (let head = take 16384 content; already_plain = starts_with head UNITY_MAGIC in
         case decrypt_prefix cr k basename head of
           (Inl e, _) \<Rightarrow> (Inl e, content)
         | (Inr _, out) \<Rightarrow>
             if already_plain then (Inr False, content)
             else if \<not> seek_ok io then (Inl error.Io, content)
             else
               (case write_stop io of
                  Some n \<Rightarrow> (Inl error.Io, overwrite (take n out) content)
                | None \<Rightarrow> (if sync_done io then Inr True else Inl error.Io, overwrite out content))))"

subsection \<open>The key stream\<close>

text \<open>What the code relies on: the key stream has the requested length.\<close>

definition stream_lengths :: "crypto \<Rightarrow> bool" where
  "stream_lengths cr \<longleftrightarrow> (\<forall>k c n. length (keystream cr k c n) = n)"

lemma length_apply_keystream:
  "stream_lengths cr \<Longrightarrow> length (apply_keystream cr k b bs) = length bs"
  by (simp add: apply_keystream_def stream_lengths_def Let_def)

lemma xor_twice: "length ks = length bs \<Longrightarrow>
  map2 (\<lambda>a b. a XOR b) (map2 (\<lambda>a b. a XOR b) bs ks) ks = (bs :: byte list)"
proof (induction bs arbitrary: ks)
  case (Cons b bs)
  then show ?case by (cases ks) (simp_all add: xor.assoc)
qed simp

lemma apply_keystream_involution:
  assumes "stream_lengths cr"
  shows "apply_keystream cr k b (apply_keystream cr k b bs) = bs"
proof -
  let ?n = "min (length bs) 16384"
  let ?ks = "keystream cr (bk_key k) (counter_block cr k b) ?n"
  have l: "length ?ks = ?n" using assms by (simp add: stream_lengths_def)
  have "apply_keystream cr k b (apply_keystream cr k b bs)
      = map2 (\<lambda>a b. a XOR b) (map2 (\<lambda>a b. a XOR b) (take ?n bs) ?ks) ?ks @ drop ?n bs"
    using l by (simp add: apply_keystream_def Let_def)
  with xor_twice [of ?ks "take ?n bs"] l show ?thesis by simp
qed

lemma apply_keystream_take:
  assumes "stream_lengths cr"
  shows "apply_keystream cr k b (take 16384 bs) @ drop 16384 bs = apply_keystream cr k b bs"
  using assms by (simp add: apply_keystream_def Let_def min_def)

lemma starts_with_take: "length p \<le> n \<Longrightarrow> starts_with (take n s) p = starts_with s p"
  by (simp add: starts_with_def min_def)

lemma starts_with_length: "starts_with s p \<Longrightarrow> length p \<le> length s"
  by (auto simp: starts_with_iff)

lemma length_decrypt_prefix:
  "stream_lengths cr \<Longrightarrow> length (snd (decrypt_prefix cr k b bs)) = length bs"
  by (simp add: decrypt_prefix_def Let_def length_apply_keystream)

subsection \<open>Outcomes\<close>

text \<open>C10. Decryption restores the original: a bundle encrypted with the same key and name, whatever
  its length, is turned back into the original bytes, the file is reported as decrypted, and a
  second run leaves it alone.\<close>

theorem decrypt_file_roundtrip:
  assumes "stream_lengths cr" and "safe_relative b" and "CHR ''/'' \<notin> set b"
    and "starts_with plain UNITY_MAGIC"
    and "\<not> starts_with (apply_keystream cr k b plain) UNITY_MAGIC"
    and "open_ok io" "read_ok io" "seek_ok io" "write_stop io = None" "sync_done io"
  shows "decrypt_file cr k io b (apply_keystream cr k b plain) = (Inr True, plain)
    \<and> decrypt_file cr k io b plain = (Inr False, plain)"
proof -
  let ?c = "apply_keystream cr k b plain"
  have lc: "length ?c = length plain" using assms(1) by (rule length_apply_keystream)
  have out: "apply_keystream cr k b (take 16384 ?c) @ drop 16384 ?c = plain"
    using apply_keystream_take [OF assms(1)] apply_keystream_involution [OF assms(1)] by metis
  have lo: "length (apply_keystream cr k b (take 16384 ?c)) = min (length plain) 16384"
    using length_apply_keystream [OF assms(1)] lc by simp
  have "starts_with (apply_keystream cr k b (take 16384 ?c)) UNITY_MAGIC"
  proof -
    have "apply_keystream cr k b (take 16384 ?c) = take (min (length plain) 16384) plain"
      using out lo by (metis append_eq_conv_conj)
    with assms(4) starts_with_length [OF assms(4)] show ?thesis
      by (simp add: starts_with_take)
  qed
  moreover have "\<not> starts_with (take 16384 ?c) UNITY_MAGIC"
    using assms(5) by (simp add: starts_with_take)
  moreover have "overwrite (apply_keystream cr k b (take 16384 ?c)) ?c = plain"
    using out lo lc by (simp add: overwrite_def min_def split: if_splits)
  ultimately have "decrypt_file cr k io b ?c = (Inr True, plain)"
    using assms by (simp add: decrypt_file_def decrypt_prefix_def Let_def)
  moreover have "decrypt_file cr k io b plain = (Inr False, plain)"
    using assms by (simp add: decrypt_file_def decrypt_prefix_def starts_with_take)
  ultimately show ?thesis by simp
qed

lemma decrypt_outcome:
  assumes "stream_lengths cr" and "decrypt_file cr k io b content = (res, out)"
  shows "case res of
      Inr False \<Rightarrow> out = content \<and> starts_with content UNITY_MAGIC
    | Inr True \<Rightarrow> length out = length content \<and> drop 16384 out = drop 16384 content
        \<and> starts_with out UNITY_MAGIC \<and> \<not> starts_with content UNITY_MAGIC
    | Inl e \<Rightarrow> e = error.Io \<or> ((e = error.AssetPath \<or> e = error.Bundle) \<and> out = content)"
proof -
  let ?h = "take 16384 content"
  obtain r o' where p: "decrypt_prefix cr k b ?h = (r, o')" by (cases "decrypt_prefix cr k b ?h")
  have lo: "length o' = min (length content) 16384"
    using length_decrypt_prefix [OF assms(1), of k b ?h] p by simp
  have over: "length (overwrite o' content) = length content"
    "drop 16384 (overwrite o' content) = drop 16384 content"
    using lo by (auto simp: overwrite_def min_def)
  have ok: "starts_with o' UNITY_MAGIC" if "r = Inr u" for u
    using p that by (auto simp: decrypt_prefix_def Let_def result_simps split: if_splits)
  then have ok': "starts_with (overwrite o' content) UNITY_MAGIC" if "r = Inr u" for u
    using that by (auto simp: overwrite_def starts_with_iff)
  have err: "e = error.AssetPath \<or> e = error.Bundle" if "r = Inl e" for e
    using p that by (auto simp: decrypt_prefix_def Let_def result_simps split: if_splits)
  have m: "starts_with ?h UNITY_MAGIC = starts_with content UNITY_MAGIC"
    by (simp add: starts_with_take)
  show ?thesis
    using assms(2) p err m over ok' by (auto simp: decrypt_file_def Let_def split: if_splits sum.splits option.splits)
qed

text \<open>No other outcome damages a file: unless the file system fails, a file is either already
  plain and unchanged, or decrypted with its length and everything after the first 16384 bytes
  unchanged, or rejected and unchanged; what is accepted starts with the bundle magic.\<close>

theorem decrypt_file_outcomes:
  assumes "stream_lengths cr" and "decrypt_file cr k io b content = (res, out)"
  shows "case res of
      Inr False \<Rightarrow> out = content \<and> starts_with content UNITY_MAGIC
    | Inr True \<Rightarrow> length out = length content \<and> drop 16384 out = drop 16384 content
        \<and> starts_with out UNITY_MAGIC \<and> \<not> starts_with content UNITY_MAGIC
    | Inl e \<Rightarrow> e = error.Io \<or> ((e = error.AssetPath \<or> e = error.Bundle) \<and> out = content)"
  using decrypt_outcome [OF assms] .

definition example_key :: bundle_key where
  "example_key = \<lparr>bk_key = [], bk_seed = []\<rparr>"

definition no_faults :: file_faults where
  "no_faults = \<lparr>open_ok = True, read_ok = True, seek_ok = True, write_stop = None, sync_done = True\<rparr>"

lemma example_stream: "stream_lengths example_crypto"
  by (simp add: stream_lengths_def example_crypto_def)

lemma example_cipher:
  "apply_keystream example_crypto example_key ''a'' UNITY_MAGIC
   = [0x54, 0x6F, 0x68, 0x75, 0x78, 0x47, 0x52, 0x01]"
  by (simp add: apply_keystream_def example_crypto_def UNITY_MAGIC_def Let_def)

lemma example_name: "safe_relative ''a''"
  by (simp add: safe_relative_def is_ascii_alphanumeric_def is_ascii_digit_def
      is_ascii_lowercase_def is_ascii_uppercase_def less_eq_char_def)

theorem decrypt_file_roundtrip_witness:
  "decrypt_file example_crypto example_key no_faults ''a''
     [0x54, 0x6F, 0x68, 0x75, 0x78, 0x47, 0x52, 0x01] = (Inr True, UNITY_MAGIC)"
proof -
  have "\<not> starts_with (apply_keystream example_crypto example_key ''a'' UNITY_MAGIC) UNITY_MAGIC"
    unfolding example_cipher by (simp add: starts_with_def UNITY_MAGIC_def)
  from decrypt_file_roundtrip [OF example_stream example_name _ _ this, of no_faults]
  show ?thesis by (simp add: no_faults_def example_cipher starts_with_def)
qed

theorem decrypt_file_outcomes_witness:
  "\<exists>out. decrypt_file example_crypto example_key no_faults ''a'' [1, 2] = (Inl error.Bundle, out)
     \<and> out = [1, 2]"
proof -
  obtain res out where d: "decrypt_file example_crypto example_key no_faults ''a'' [1, 2] = (res, out)"
    by (cases "decrypt_file example_crypto example_key no_faults ''a'' [1, 2]")
  have "res = Inl error.Bundle"
    using d by (simp add: decrypt_file_def decrypt_prefix_def no_faults_def example_name Let_def
        starts_with_def UNITY_MAGIC_def apply_keystream_def example_crypto_def)
  with decrypt_file_outcomes [OF example_stream d] d show ?thesis by simp
qed

end
