(* ===== verification/File_Tree.thy ===== *)
theory File_Tree
  imports Bounded_Transfer
begin

text \<open>
  Directory trees as the cache and the verifier see them through \<open>symlink_metadata\<close>: regular
  files, symbolic links (never followed) and directories, which list their entries by name; and the
  reading of a file in blocks of 65536 bytes.
\<close>

datatype node = FileNode "byte list" | LinkNode | DirNode "(string \<times> node) list"

type_synonym entries = "(string \<times> node) list"

fun is_dir :: "node \<Rightarrow> bool" where
  "is_dir (DirNode _) = True"
| "is_dir _ = False"

fun is_file :: "node \<Rightarrow> bool" where
  "is_file (FileNode _) = True"
| "is_file _ = False"

fun entry :: "node \<Rightarrow> string \<Rightarrow> node option" where
  "entry (DirNode es) p = map_of es p"
| "entry _ p = None"

definition without :: "string \<Rightarrow> entries \<Rightarrow> entries" where
  "without p es = filter (\<lambda>e. fst e \<noteq> p) es"

definition put :: "string \<Rightarrow> node \<Rightarrow> entries \<Rightarrow> entries" where
  "put p n es = (p, n) # without p es"

lemma map_of_without: "map_of (without p es) = (map_of es)(p := None)"
  by (induction es) (auto simp: without_def fun_eq_iff)

lemma map_of_put [simp]: "map_of (put p n es) = (map_of es)(p \<mapsto> n)"
  by (simp add: put_def map_of_without fun_eq_iff)

text \<open>A file read with a buffer of \<open>n\<close> bytes.\<close>

function pieces :: "nat \<Rightarrow> 'a list \<Rightarrow> 'a list list" where
  "pieces n xs = (if n = 0 \<or> xs = [] then [] else take n xs # pieces n (drop n xs))"
  by pat_completeness auto
termination
  by (relation "measure (\<lambda>(n, xs). length xs)") auto

declare pieces.simps [simp del]

lemma pieces_Nil [simp]: "pieces n [] = []"
  by (simp add: pieces.simps)

lemma concat_pieces: "0 < n \<Longrightarrow> concat (pieces n xs) = xs"
proof (induction n xs rule: pieces.induct)
  case (1 n xs)
  then show ?case by (cases "xs = []") (simp_all add: pieces.simps [of n xs])
qed

definition BUFFER :: nat where
  "BUFFER = 65536"

lemma concat_buffers [simp]: "concat (pieces BUFFER xs) = xs"
  by (rule concat_pieces) (simp add: BUFFER_def)

end
