(* ===== verification/Download_Cache.thy ===== *)
theory Download_Cache
  imports File_Tree
begin

text \<open>
  The download cache (\<open>src/cache.rs\<close>): entries named by a hash of what they hold, restored only
  when size and hash match, written through a temporary directory that a rename publishes, under an
  exclusive lock whose holder reaps what earlier runs left behind. JSON encoding of an entry's
  metadata and the file system's failures are arguments.
\<close>

record metadata =
  meta_bytes :: nat
  meta_sha256 :: string

record json =
  encode_meta :: "metadata \<Rightarrow> byte list"
  decode_meta :: "byte list \<Rightarrow> metadata option"

subsection \<open>Names\<close>

fun provider_tag :: "provider \<Rightarrow> string" where
  "provider_tag EncryptedBundle = ''encrypted''"
| "provider_tag UnityBundle = ''unity''"
| "provider_tag Cri = ''cri''"

definition identity_input :: "string \<Rightarrow> string \<Rightarrow> string \<Rightarrow> provider \<Rightarrow> byte list" where
  "identity_input url sha rel pv =
     concat (map (\<lambda>v. bytes_of v @ [0]) [url, sha, rel, provider_tag pv])"

definition identity :: "crypto \<Rightarrow> string \<Rightarrow> string \<Rightarrow> string \<Rightarrow> provider \<Rightarrow> string" where
  "identity cr url sha rel pv = hex_encode cr (sha256 cr (identity_input url sha rel pv))"

subsection \<open>Restoring an entry\<close>

datatype restore_step = OpenMeta | ReadMeta | OpenData | StatData | CreateTarget | ReadData | SyncTarget

text \<open>The copy loop; the third component of its result is the target's content.\<close>

fun copy_loop ::
  "nat \<Rightarrow> (nat \<Rightarrow> bool) \<Rightarrow> nat \<Rightarrow> byte list list \<Rightarrow> nat \<Rightarrow> byte list \<Rightarrow> (error + nat option) \<times> byte list" where
  "copy_loop limit wr n [] cnt out = (Inr (Some cnt), out)"
| "copy_loop limit wr n (c # cs) cnt out =
     (let cnt' = cnt + length c in
      if limit < cnt' then (Inr None, out)
      else if \<not> wr n then (Inl error.Io, out)
      else copy_loop limit wr (Suc n) cs cnt' (out @ c))"

text \<open>The metadata of an entry's directory, when it is there, readable and plausible.\<close>

definition read_metadata :: "json \<Rightarrow> (restore_step \<Rightarrow> bool) \<Rightarrow> entries \<Rightarrow> nat \<Rightarrow> error + metadata option" where
  "read_metadata js ok ds limit =
     (case map_of ds ''metadata.json'' of
        Some (FileNode mb) \<Rightarrow>
          if \<not> ok OpenMeta \<or> \<not> ok ReadMeta then Inl error.Io
          else if 4096 < length mb then Inr None
          else
            (case decode_meta js mb of
               None \<Rightarrow> Inr None
             | Some m \<Rightarrow>
                 if meta_bytes m = 0 \<or> limit < meta_bytes m \<or> length (meta_sha256 m) \<noteq> 64
                 then Inr None else Inr (Some m))
      | _ \<Rightarrow> Inr None)"

text \<open>Copying the data of an entry to the destination.\<close>

definition copy_entry ::
  "crypto \<Rightarrow> (restore_step \<Rightarrow> bool) \<Rightarrow> (nat \<Rightarrow> bool) \<Rightarrow> metadata \<Rightarrow> byte list
   \<Rightarrow> (error + (nat \<times> string) option) \<times> staged" where
  "copy_entry cr ok wr m d =
     (case copy_loop (meta_bytes m) wr 0 (pieces BUFFER d) 0 [] of
        (Inl e, out) \<Rightarrow> (Inl e, Some out)
      | (Inr None, out) \<Rightarrow> (Inr None, Some out)
      | (Inr (Some n), out) \<Rightarrow>
          if \<not> ok ReadData then (Inl error.Io, Some out)
          else if n \<noteq> meta_bytes m \<or> hex_encode cr (sha256 cr out) \<noteq> meta_sha256 m
          then (Inr None, Some out)
          else if \<not> ok SyncTarget then (Inl error.Io, Some out)
          else (Inr (Some (n, meta_sha256 m)), Some out))"

definition restore ::
  "crypto \<Rightarrow> json \<Rightarrow> (restore_step \<Rightarrow> bool) \<Rightarrow> (nat \<Rightarrow> bool) \<Rightarrow> entries \<Rightarrow> string \<Rightarrow> nat \<Rightarrow> staged
   \<Rightarrow> (error + (nat \<times> string) option) \<times> staged" where
  "restore cr js ok wr es ident limit old =
     (case map_of es ident of
        Some (DirNode ds) \<Rightarrow>
          (case read_metadata js ok ds limit of
             Inl e \<Rightarrow> (Inl e, old)
           | Inr None \<Rightarrow> (Inr None, old)
           | Inr (Some m) \<Rightarrow>
               (case map_of ds ''data'' of
                  Some (FileNode d) \<Rightarrow>
                    if \<not> ok OpenData \<or> \<not> ok StatData then (Inl error.Io, old)
                    else if length d \<noteq> meta_bytes m then (Inr None, old)
                    else if \<not> ok CreateTarget then (Inl error.Io, old)
                    else copy_entry cr ok wr m d
                | _ \<Rightarrow> (Inr None, old)))
      | _ \<Rightarrow> (Inr None, old))"

subsection \<open>Writing an entry\<close>

datatype pending_step = MakeRoot | MakeTemp | CopyData | OpenCopy | SyncCopy | CreateMeta | WriteMeta
  | SyncMeta | SyncTemp | RemoveOld | Rename | SyncRoot

text \<open>\<open>Pending\<close>: the temporary directory's name and the name it is to get.\<close>

record pending =
  pend_directory :: string
  pend_target :: string

text \<open>\<open>Pending::prepare\<close>; \<open>tmp\<close> is the name \<open>tempfile\<close> chose. A failure drops the \<open>TempDir\<close>, which
  removes it.\<close>

definition prepare ::
  "json \<Rightarrow> (pending_step \<Rightarrow> bool) \<Rightarrow> string \<Rightarrow> entries \<Rightarrow> string \<Rightarrow> byte list \<Rightarrow> nat \<Rightarrow> string
   \<Rightarrow> (error + pending) \<times> entries" where
  "prepare js ok tmp es ident source sz sha =
     (if \<forall>s \<in> {MakeRoot, MakeTemp, CopyData, OpenCopy, SyncCopy, CreateMeta, WriteMeta, SyncMeta, SyncTemp}. ok s
      then (Inr \<lparr>pend_directory = tmp, pend_target = ident\<rparr>,
            put tmp (DirNode [(''data'', FileNode source),
              (''metadata.json'', FileNode (encode_meta js \<lparr>meta_bytes = sz, meta_sha256 = sha\<rparr>))]) es)
      else (Inl error.Io, es))"

text \<open>\<open>Pending::commit\<close>: an existing target goes first, then the rename; whatever fails before the
  rename drops the temporary directory. A failing sync leaves the renamed entry in place.\<close>

definition commit :: "(pending_step \<Rightarrow> bool) \<Rightarrow> entries \<Rightarrow> pending \<Rightarrow> (error + unit) \<times> entries" where
  "commit ok es p =
     (let old = map_of es (pend_target p) in
      if old \<noteq> None \<and> \<not> ok RemoveOld then (Inl error.Io, without (pend_directory p) es)
      else
        (let cleared = without (pend_target p) es in
         case map_of cleared (pend_directory p) of
           Some n \<Rightarrow>
             if \<not> ok Rename then (Inl error.Io, without (pend_directory p) cleared)
             else (if ok SyncRoot then Inr () else Inl error.Io,
                   put (pend_target p) n (without (pend_directory p) cleared))
         | None \<Rightarrow> (Inl error.Io, cleared)))"

text \<open>Dropping a \<open>Pending\<close> that was not committed.\<close>

definition discard :: "entries \<Rightarrow> pending \<Rightarrow> entries" where
  "discard es p = without (pend_directory p) es"

subsection \<open>Ownership\<close>

record cache =
  cache_entries :: entries
  locked :: bool

definition temporary_name :: "string \<Rightarrow> bool" where
  "temporary_name n \<longleftrightarrow>
     is_some_and (\<lambda>s. length s = 6 \<and> list_all is_ascii_alphanumeric s)
       (case strip_prefix ''.pending-download-'' n of
          Some s \<Rightarrow> Some s
        | None \<Rightarrow> strip_prefix ''.pending-'' n)"

text \<open>\<open>Guard::acquire\<close>; \<open>lock_ok\<close>: creating the directory and opening the lock file succeed.\<close>

definition acquire :: "bool \<Rightarrow> cache \<Rightarrow> (error + unit) \<times> cache" where
  "acquire lock_ok c =
     (case map_of (cache_entries c) ''.lock'' of
        Some n \<Rightarrow>
          if \<not> is_file n then (Inl error.Io, c)
          else if \<not> lock_ok then (Inl error.Io, c)
          else if locked c then (Inl error.Busy, c)
          else (Inr (), c\<lparr>locked := True\<rparr>)
      | None \<Rightarrow>
          if \<not> lock_ok then (Inl error.Io, c)
          else
            (let c' = c\<lparr>cache_entries := put ''.lock'' (FileNode []) (cache_entries c)\<rparr> in
             if locked c then (Inl error.Busy, c') else (Inr (), c'\<lparr>locked := True\<rparr>)))"

text \<open>The loop over \<open>read_dir\<close>: \<open>names\<close> in the order the directory lists them.\<close>

fun reap :: "(string \<Rightarrow> bool) \<Rightarrow> string list \<Rightarrow> entries \<Rightarrow> (error + unit) \<times> entries" where
  "reap rm [] es = (Inr (), es)"
| "reap rm (n # ns) es =
     (if \<not> temporary_name n then reap rm ns es
      else if \<not> rm n then (Inl error.Io, es)
      else reap rm ns (without n es))"

text \<open>\<open>Guard::acquire_download\<close>: an error while reaping drops the guard, which unlocks.\<close>

definition acquire_download :: "bool \<Rightarrow> (string \<Rightarrow> bool) \<Rightarrow> cache \<Rightarrow> (error + unit) \<times> cache" where
  "acquire_download lock_ok rm c =
     (case acquire lock_ok c of
        (Inl e, c') \<Rightarrow> (Inl e, c')
      | (Inr _, c') \<Rightarrow>
          (case reap rm (map fst (cache_entries c')) (cache_entries c') of
             (Inl e, es) \<Rightarrow> (Inl e, c'\<lparr>cache_entries := es, locked := False\<rparr>)
           | (Inr _, es) \<Rightarrow> (Inr (), c'\<lparr>cache_entries := es\<rparr>)))"

text \<open>\<open>Drop for Guard\<close>\<close>

definition release :: "cache \<Rightarrow> cache" where
  "release c = c\<lparr>locked := False\<rparr>"

subsection \<open>Integrity\<close>

lemma copy_loop_Inr:
  "copy_loop limit wr n cs cnt out = (Inr (Some k), out')
     \<Longrightarrow> out' = out @ concat cs \<and> k = cnt + length (concat cs)"
  by (induction limit wr n cs cnt out rule: copy_loop.induct) (auto simp: Let_def split: if_splits)

lemma copy_loop_all:
  "(\<And>i. wr i) \<Longrightarrow> cnt + length (concat cs) \<le> limit \<Longrightarrow>
     copy_loop limit wr n cs cnt out = (Inr (Some (cnt + length (concat cs))), out @ concat cs)"
  by (induction limit wr n cs cnt out rule: copy_loop.induct) (auto simp: Let_def)

lemma read_metadata_Some:
  assumes "read_metadata js ok ds limit = Inr (Some m)"
  shows "0 < meta_bytes m \<and> meta_bytes m \<le> limit \<and> length (meta_sha256 m) = 64"
  using assms by (auto simp: read_metadata_def split: option.splits node.splits if_splits)

lemma copy_entry_hit:
  assumes "copy_entry cr ok wr m d = (Inr (Some (n, h)), f)"
  shows "f = Some d \<and> length d = n \<and> n = meta_bytes m \<and> h = meta_sha256 m
    \<and> h = hex_encode cr (sha256 cr d)"
  using assms
  by (auto simp: copy_entry_def split: sum.splits option.splits prod.splits if_splits dest!: copy_loop_Inr)

lemma restore_hit:
  assumes "restore cr js ok wr es ident limit old = (Inr (Some v), f)"
  obtains ds m d where "map_of es ident = Some (DirNode ds)"
    "read_metadata js ok ds limit = Inr (Some m)" "map_of ds ''data'' = Some (FileNode d)"
    "copy_entry cr ok wr m d = (Inr (Some v), f)"
proof -
  from assms obtain ds where ds: "map_of es ident = Some (DirNode ds)"
    by (auto simp: restore_def split: option.splits node.splits)
  with assms obtain m where m: "read_metadata js ok ds limit = Inr (Some m)"
    by (auto simp: restore_def split: sum.splits option.splits)
  with ds assms obtain d where d: "map_of ds ''data'' = Some (FileNode d)"
    by (auto simp: restore_def split: option.splits node.splits)
  with ds m assms have "copy_entry cr ok wr m d = (Inr (Some v), f)"
    by (auto simp: restore_def split: if_splits)
  with ds m d that show thesis by blast
qed

text \<open>What the JSON library provides: decoding what was encoded.\<close>

definition metadata_roundtrip :: "json \<Rightarrow> bool" where
  "metadata_roundtrip js \<longleftrightarrow> (\<forall>m. decode_meta js (encode_meta js m) = Some m)"

subsection \<open>An example cache\<close>

text \<open>A concrete encoding and a concrete hash, at which the properties below are applied.\<close>

definition example_json :: json where
  "example_json = \<lparr>
     encode_meta = (\<lambda>m. replicate (meta_bytes m) 1 @ 0 # bytes_of (meta_sha256 m)),
     decode_meta = (\<lambda>bs. Some \<lparr>meta_bytes = length (takeWhile (\<lambda>b. b = 1) bs),
        meta_sha256 = map char_of_byte (drop 1 (dropWhile (\<lambda>b. b = 1) bs))\<rparr>)\<rparr>"

lemma char_of_byte_of_char [simp]: "char_of_byte (of_nat (of_char c)) = c"
  by (simp add: char_of_byte_def unat_of_nat)

lemma char_of_bytes_of [simp]: "map char_of_byte (bytes_of s) = s"
  by (simp add: bytes_of_def comp_def)

lemma takeWhile_replicate_append: "takeWhile (\<lambda>b. b = x) (replicate n x @ y # ys)
    = (replicate n x @ (if y = x then x # takeWhile (\<lambda>b. b = x) ys else []))"
  by (induction n) auto

lemma dropWhile_replicate_append: "y \<noteq> x \<Longrightarrow> dropWhile (\<lambda>b. b = x) (replicate n x @ y # ys) = y # ys"
  by (induction n) auto

lemma example_json_roundtrip: "metadata_roundtrip example_json"
  by (simp add: metadata_roundtrip_def example_json_def takeWhile_replicate_append
      dropWhile_replicate_append)

definition pad_hash :: "byte list \<Rightarrow> string" where
  "pad_hash bs = map char_of_byte (take 64 (bs @ replicate 64 0))"

lemma length_pad_hash [simp]: "length (pad_hash bs) = 64"
  by (simp add: pad_hash_def)

definition cache_crypto :: crypto where
  "cache_crypto = example_crypto\<lparr>sha256 := (\<lambda>bs. bs), hex_encode := pad_hash\<rparr>"

lemma example_prepared_Inr:
  "prepare example_json (\<lambda>_. True) ''.pending-download-aaaaaa'' [] ''e'' [7, 8]
     (length [7 :: byte, 8]) (pad_hash [7, 8])
   = (Inr \<lparr>pend_directory = ''.pending-download-aaaaaa'', pend_target = ''e''\<rparr>,
      [(''.pending-download-aaaaaa'', DirNode [(''data'', FileNode [7, 8]),
        (''metadata.json'', FileNode ([1, 1, 0] @ bytes_of (pad_hash [7, 8])))])])"
  by (simp add: prepare_def put_def without_def example_json_def numeral_2_eq_2)

lemma example_commit:
  "commit (\<lambda>_. True)
     [(''.pending-download-aaaaaa'', DirNode [(''data'', FileNode [7, 8]),
        (''metadata.json'', FileNode ([1, 1, 0] @ bytes_of (pad_hash [7, 8])))])]
     \<lparr>pend_directory = ''.pending-download-aaaaaa'', pend_target = ''e''\<rparr>
   = (Inr (), [(''e'', DirNode [(''data'', FileNode [7, 8]),
        (''metadata.json'', FileNode ([1, 1, 0] @ bytes_of (pad_hash [7, 8])))])])"
  by (simp add: commit_def put_def without_def Let_def)

subsection \<open>The properties\<close>

text \<open>C12. A cache never hands out wrong bytes: whatever the cache directory holds, a restore that
  reports a hit of \<open>n\<close> bytes with hash \<open>h\<close> has written a file of exactly \<open>n\<close> bytes whose SHA-256 is
  \<open>h\<close>, not empty and within the limit.\<close>

theorem restore_integrity:
  assumes "restore cr js ok wr es ident limit old = (Inr (Some (n, h)), f)"
  shows "\<exists>out. f = Some out \<and> length out = n \<and> 0 < n \<and> n \<le> limit
    \<and> h = hex_encode cr (sha256 cr out) \<and> length h = 64"
  using assms by (elim restore_hit) (auto dest!: copy_entry_hit read_metadata_Some)

theorem restore_integrity_witness:
  "\<exists>out. restore cache_crypto example_json (\<lambda>_. True) (\<lambda>_. True)
      [(''e'', DirNode [(''data'', FileNode [7, 8]),
        (''metadata.json'', FileNode ([1, 1, 0] @ bytes_of (pad_hash [7, 8])))])] ''e'' 9 None
      = (Inr (Some (2, pad_hash [7, 8])), Some out) \<and> length out = 2"
proof -
  have "restore cache_crypto example_json (\<lambda>_. True) (\<lambda>_. True)
      [(''e'', DirNode [(''data'', FileNode [7, 8]),
        (''metadata.json'', FileNode ([1, 1, 0] @ bytes_of (pad_hash [7, 8])))])] ''e'' 9 None
      = (Inr (Some (2, pad_hash [7, 8])), Some [7, 8])"
    by (simp add: restore_def read_metadata_def copy_entry_def example_json_def cache_crypto_def
        pieces.simps BUFFER_def)
  from restore_integrity [OF this] this show ?thesis by auto
qed

lemma prepare_Inr:
  assumes "prepare js ok tmp es ident src sz sha = (Inr p, es')"
  shows "p = \<lparr>pend_directory = tmp, pend_target = ident\<rparr>"
    "es' = put tmp (DirNode [(''data'', FileNode src),
       (''metadata.json'', FileNode (encode_meta js \<lparr>meta_bytes = sz, meta_sha256 = sha\<rparr>))]) es"
  using assms by (auto simp: prepare_def split: if_splits)

lemma commit_prepared:
  assumes "prepare js ok tmp es ident src sz sha = (Inr p, es')" and "commit ok' es' p = (Inr u, es'')"
    and "tmp \<noteq> ident"
  shows "map_of es'' = (map_of es)(tmp := None, ident \<mapsto> DirNode [(''data'', FileNode src),
       (''metadata.json'', FileNode (encode_meta js \<lparr>meta_bytes = sz, meta_sha256 = sha\<rparr>))])"
  using assms(2,3) prepare_Inr [OF assms(1)]
  by (auto simp: commit_def Let_def map_of_without fun_eq_iff split: if_splits option.splits)

text \<open>C11. What is committed can be restored: after a prepared entry has been committed, a restore
  under the same name, with a sufficient limit and a working disk, is a hit that writes exactly the
  bytes prepared; every other entry of the cache stays what it was.\<close>

theorem cache_roundtrip:
  assumes "metadata_roundtrip js"
    and "prepare js ok tmp es ident src (length src) sha = (Inr p, es')"
    and "commit ok' es' p = (Inr u, es'')" and "tmp \<noteq> ident"
    and "sha = hex_encode cr (sha256 cr src)" and "length sha = 64" and "src \<noteq> []"
    and "length src \<le> limit"
    and "length (encode_meta js \<lparr>meta_bytes = length src, meta_sha256 = sha\<rparr>) \<le> 4096"
    and "\<And>s. step_ok s" and "\<And>i. wr i"
  shows "restore cr js step_ok wr es'' ident limit old = (Inr (Some (length src, sha)), Some src)
    \<and> (\<forall>n. n \<noteq> tmp \<and> n \<noteq> ident \<longrightarrow> map_of es'' n = map_of es n)"
proof -
  note m = commit_prepared [OF assms(2-4)]
  have c: "copy_loop (length src) wr 0 (pieces BUFFER src) 0 [] = (Inr (Some (length src)), src)"
    using copy_loop_all [of wr 0 "pieces BUFFER src" "length src" 0 "[]"] assms(11) by simp
  have d: "decode_meta js (encode_meta js \<lparr>meta_bytes = length src, meta_sha256 = sha\<rparr>)
      = Some \<lparr>meta_bytes = length src, meta_sha256 = sha\<rparr>"
    using assms(1) by (simp add: metadata_roundtrip_def)
  have "restore cr js step_ok wr es'' ident limit old = (Inr (Some (length src, sha)), Some src)"
    using assms(5-10) c d by (simp add: restore_def m read_metadata_def copy_entry_def)
  moreover have "\<forall>n. n \<noteq> tmp \<and> n \<noteq> ident \<longrightarrow> map_of es'' n = map_of es n"
    by (simp add: m)
  ultimately show ?thesis by simp
qed

theorem cache_roundtrip_witness:
  "restore cache_crypto example_json (\<lambda>_. True) (\<lambda>_. True)
      [(''e'', DirNode [(''data'', FileNode [7, 8]),
        (''metadata.json'', FileNode ([1, 1, 0] @ bytes_of (pad_hash [7, 8])))])] ''e'' 2 None
   = (Inr (Some (2, pad_hash [7, 8])), Some [7, 8])"
  using cache_roundtrip [OF example_json_roundtrip example_prepared_Inr example_commit,
      of cache_crypto 2 "\<lambda>_. True" "\<lambda>_. True" None]
  by (simp add: cache_crypto_def example_json_def numeral_2_eq_2)

subsection \<open>Recovery\<close>

lemma reap_Inr:
  "reap rm ns es = (Inr u, es') \<Longrightarrow> es' = filter (\<lambda>e. \<not> (fst e \<in> set ns \<and> temporary_name (fst e))) es"
proof (induction rm ns es rule: reap.induct)
  case (2 rm n ns es)
  show ?case
  proof (cases "temporary_name n")
    case True
    with 2 have "es' = filter (\<lambda>e. \<not> (fst e \<in> set ns \<and> temporary_name (fst e))) (without n es)"
      by (auto split: if_splits)
    with True show ?thesis by (auto simp: without_def intro!: filter_cong)
  next
    case False
    with 2 have "es' = filter (\<lambda>e. \<not> (fst e \<in> set ns \<and> temporary_name (fst e))) es" by simp
    with False show ?thesis by (auto intro!: filter_cong)
  qed
qed simp

lemma acquire_Inr:
  assumes "acquire lock_ok c = (Inr u, c')"
  shows "\<not> locked c" "locked c'"
    "map_of (cache_entries c') n = (if n = ''.lock'' \<and> map_of (cache_entries c) n = None
       then Some (FileNode []) else map_of (cache_entries c) n)"
  using assms by (auto simp: acquire_def Let_def split: option.splits if_splits)

lemma lock_not_temporary: "\<not> temporary_name ''.lock''"
  by (simp add: temporary_name_def strip_prefix_def)

lemma map_of_filter_names: "map_of (filter (\<lambda>e. p (fst e)) es) n = (if p n then map_of es n else None)"
  by (induction es) auto

text \<open>Recovery is exact and exclusive: acquiring the download cache succeeds only when nobody
  holds it, and then removes every name of the generated temporary form and nothing else; until it is
  released, every further attempt to acquire it fails without changing an entry.\<close>

theorem acquire_download_recovers:
  assumes "acquire_download lock_ok rm c = (Inr u, c')"
  shows "\<not> locked c \<and> locked c'
    \<and> (\<forall>n. temporary_name n \<longrightarrow> map_of (cache_entries c') n = None)
    \<and> (\<forall>n. \<not> temporary_name n \<and> n \<noteq> ''.lock'' \<longrightarrow> map_of (cache_entries c') n = map_of (cache_entries c) n)
    \<and> (\<forall>ok rm'. \<exists>e. acquire_download ok rm' c' = (Inl e, c'))
    \<and> \<not> locked (release c')"
proof -
  from assms obtain c1 es where c1: "acquire lock_ok c = (Inr (), c1)"
    and es: "reap rm (map fst (cache_entries c1)) (cache_entries c1) = (Inr (), es)"
    and c': "c' = c1\<lparr>cache_entries := es\<rparr>"
    by (auto simp: acquire_download_def split: prod.splits sum.splits)
  have "es = filter (\<lambda>e. \<not> temporary_name (fst e)) (cache_entries c1)"
    using reap_Inr [OF es] by (force intro: filter_cong)
  then have lk: "map_of (cache_entries c') n = (if temporary_name n then None else map_of (cache_entries c1) n)" for n
    using map_of_filter_names [of "\<lambda>k. \<not> temporary_name k" "cache_entries c1" n] by (simp add: c')
  have l: "locked c'" using acquire_Inr(2) [OF c1] c' by simp
  have "map_of (cache_entries c') ''.lock'' \<noteq> None"
    using acquire_Inr(3) [OF c1, of "''.lock''"] lk lock_not_temporary by auto
  with l have "\<exists>e. acquire_download ok rm' c' = (Inl e, c')" for ok rm'
    by (auto simp: acquire_download_def acquire_def split: option.splits)
  with l lk acquire_Inr [OF c1] show ?thesis by (simp add: release_def)
qed

theorem acquire_download_recovers_witness:
  "\<exists>c'. acquire_download True (\<lambda>_. True)
      \<lparr>cache_entries = [(''.pending-Ab1234'', LinkNode), (''.pending-operator'', DirNode [])],
        locked = False\<rparr> = (Inr (), c')
     \<and> map_of (cache_entries c') ''.pending-Ab1234'' = None
     \<and> map_of (cache_entries c') ''.pending-operator'' = Some (DirNode [])"
proof -
  let ?c = "\<lparr>cache_entries = [(''.pending-Ab1234'', LinkNode), (''.pending-operator'', DirNode [])],
        locked = False\<rparr>"
  have t: "temporary_name ''.pending-Ab1234''" "\<not> temporary_name ''.pending-operator''"
    by (simp_all add: temporary_name_def strip_prefix_def is_ascii_alphanumeric_def
        is_ascii_digit_def is_ascii_lowercase_def is_ascii_uppercase_def less_eq_char_def)
  have "\<exists>c'. acquire_download True (\<lambda>_. True) ?c = (Inr (), c')"
    by (simp add: acquire_download_def acquire_def put_def without_def t lock_not_temporary)
  then obtain c' where c': "acquire_download True (\<lambda>_. True) ?c = (Inr (), c')" ..
  from acquire_download_recovers [OF c'] t c' show ?thesis by simp
qed

subsection \<open>Names are distinct\<close>

lemma nul_terminated_inj:
  assumes "a @ 0 # s = b @ 0 # t" and "0 \<notin> set a" and "0 \<notin> set b"
  shows "a = b \<and> s = t"
  using assms
proof (induction a arbitrary: b)
  case Nil
  then show ?case by (cases b) auto
next
  case (Cons x a)
  then show ?case by (cases b) auto
qed

lemma bytes_of_nul: "(0 :: byte) \<in> set (bytes_of s) \<Longrightarrow> CHR 0x00 \<in> set s"
proof -
  assume "(0 :: byte) \<in> set (bytes_of s)"
  then obtain c where c: "c \<in> set s" "(of_nat (of_char c) :: byte) = 0" by (auto simp: bytes_of_def)
  then have "(of_nat (of_char c) :: byte) = of_nat (of_char (CHR 0x00))" by simp
  then have "c = CHR 0x00" by (rule byte_of_char_inj)
  with c show ?thesis by simp
qed

lemma provider_tag_inj: "provider_tag p = provider_tag q \<Longrightarrow> p = q"
  by (cases p; cases q) simp_all

lemma identity_input_inj:
  assumes "CHR 0x00 \<notin> set url \<union> set sha \<union> set rel \<union> set url' \<union> set sha' \<union> set rel'"
    and "identity_input url sha rel pv = identity_input url' sha' rel' pv'"
  shows "url = url' \<and> sha = sha' \<and> rel = rel' \<and> pv = pv'"
proof -
  have e: "bytes_of url @ 0 # bytes_of sha @ 0 # bytes_of rel @ 0 # bytes_of (provider_tag pv) @ [0]
      = bytes_of url' @ 0 # bytes_of sha' @ 0 # bytes_of rel' @ 0 # bytes_of (provider_tag pv') @ [0]"
    using assms(2) by (simp add: identity_input_def)
  have free: "0 \<notin> set (bytes_of x)" if "x \<in> {url, sha, rel, url', sha', rel'}" for x
    using bytes_of_nul [of x] that assms(1) by auto
  from nul_terminated_inj [OF e] free have 1: "bytes_of url = bytes_of url'"
    and e2: "bytes_of sha @ 0 # bytes_of rel @ 0 # bytes_of (provider_tag pv) @ [0]
      = bytes_of sha' @ 0 # bytes_of rel' @ 0 # bytes_of (provider_tag pv') @ [0]" by simp_all
  from nul_terminated_inj [OF e2] free have 2: "bytes_of sha = bytes_of sha'"
    and e3: "bytes_of rel @ 0 # bytes_of (provider_tag pv) @ [0]
      = bytes_of rel' @ 0 # bytes_of (provider_tag pv') @ [0]" by simp_all
  from nul_terminated_inj [OF e3] free have 3: "bytes_of rel = bytes_of rel'"
    and 4: "bytes_of (provider_tag pv) = bytes_of (provider_tag pv')" by simp_all
  from 1 2 3 4 provider_tag_inj show ?thesis by (simp add: bytes_of_inj)
qed

text \<open>One name, one content: what the cache name is a hash of determines the catalog URL, the
  catalog hash, the relative path and the provider, because the texts are separated by a byte that
  none of them contains; two entries can share a name only through a collision of the hash.\<close>

theorem identity_determines_content:
  assumes "CHR 0x00 \<notin> set url \<union> set sha \<union> set rel \<union> set url' \<union> set sha' \<union> set rel'"
    and "(url, sha, rel, pv) \<noteq> (url', sha', rel', pv')"
    and "identity cr url sha rel pv = identity cr url' sha' rel' pv'"
  shows "identity_input url sha rel pv \<noteq> identity_input url' sha' rel' pv'
    \<and> hex_encode cr (sha256 cr (identity_input url sha rel pv))
      = hex_encode cr (sha256 cr (identity_input url' sha' rel' pv'))"
proof
  show "hex_encode cr (sha256 cr (identity_input url sha rel pv))
      = hex_encode cr (sha256 cr (identity_input url' sha' rel' pv'))"
    using assms(3) by (simp add: identity_def)
  show "identity_input url sha rel pv \<noteq> identity_input url' sha' rel' pv'"
    using identity_input_inj [OF assms(1), of pv pv'] assms(2) by auto
qed

theorem identity_determines_content_witness:
  "identity_input ''us'' ''h'' ''r'' Cri \<noteq> identity_input ''u'' ''sh'' ''r'' Cri
   \<and> identity (example_crypto\<lparr>sha256 := (\<lambda>bs. [])\<rparr>) ''us'' ''h'' ''r'' Cri
     = identity (example_crypto\<lparr>sha256 := (\<lambda>bs. [])\<rparr>) ''u'' ''sh'' ''r'' Cri"
proof -
  have e: "identity (example_crypto\<lparr>sha256 := (\<lambda>bs. [])\<rparr>) ''us'' ''h'' ''r'' Cri
     = identity (example_crypto\<lparr>sha256 := (\<lambda>bs. [])\<rparr>) ''u'' ''sh'' ''r'' Cri"
    by (simp add: identity_def example_crypto_def)
  from identity_determines_content [OF _ _ e] e show ?thesis by simp
qed

end
