(* ===== verification/Asset_Worker.thy ===== *)
theory Asset_Worker
  imports Bundle_Crypt Download_Cache
begin

text \<open>
  One asset of an update (the \<open>async move\<close> block of \<open>download_assets\<close> in \<open>src/update.rs\<close>):
  restore from the cache or download with retries, capture the bytes for the cache, decrypt in
  place, hash what is stored, commit to the cache. The state is the staged files by relative path
  and the cache directory, when one is configured. What the network and the disk do is the worker's
  world.
\<close>

record asset_receipt =
  ar_path :: string
  ar_provider :: provider
  ar_bytes :: nat
  ar_downloaded :: string
  ar_stored :: string
  ar_decrypted :: bool

record stage =
  staged_files :: "string \<Rightarrow> byte list option"
  stage_cache :: "entries option"

record asset_world =
  aw_dir_ok :: bool
  aw_restore_ok :: "restore_step \<Rightarrow> bool"
  aw_restore_write :: "nat \<Rightarrow> bool"
  aw_attempts :: attempts_world
  aw_tmp :: string
  aw_pending_ok :: "pending_step \<Rightarrow> bool"
  aw_faults :: file_faults
  aw_rehash_ok :: bool

text \<open>What all workers of an update share.\<close>

record update_env =
  ue_crypto :: crypto
  ue_json :: json
  ue_retry :: retry_policy
  ue_key :: "bundle_key option"
  ue_scope :: string
  ue_catalog_sha :: string
  ue_world :: "string \<Rightarrow> asset_world"

definition set_file :: "string \<Rightarrow> staged \<Rightarrow> stage \<Rightarrow> stage" where
  "set_file p f st = st\<lparr>staged_files := (staged_files st)(p := f)\<rparr>"

text \<open>\<open>relative_path.rsplit('/').next()\<close>\<close>

definition basename :: "string \<Rightarrow> string" where
  "basename p = last (split_on (CHR ''/'') p)"

definition asset_identity :: "update_env \<Rightarrow> asset \<Rightarrow> string" where
  "asset_identity env a =
     identity (ue_crypto env) (ue_scope env) (ue_catalog_sha env) (relative_path a) (provider a)"

text \<open>\<open>cache::restore\<close>, when a cache is configured.\<close>

definition try_restore :: "update_env \<Rightarrow> nat \<Rightarrow> asset \<Rightarrow> stage \<Rightarrow> (error + (nat \<times> string) option) \<times> staged" where
  "try_restore env limit a st =
     (let w = ue_world env (relative_path a); old = staged_files st (relative_path a) in
      case stage_cache st of
        None \<Rightarrow> (Inr None, old)
      | Some es \<Rightarrow> restore (ue_crypto env) (ue_json env) (aw_restore_ok w) (aw_restore_write w) es
          (asset_identity env a) limit old)"

text \<open>In-place decryption and the stored hash: \<open>Inr (decrypted, stored hash)\<close>.\<close>

definition decrypt_and_hash ::
  "update_env \<Rightarrow> asset \<Rightarrow> string \<Rightarrow> byte list \<Rightarrow> (error + (bool \<times> string)) \<times> byte list" where
  "decrypt_and_hash env a downloaded_sha content =
     (let w = ue_world env (relative_path a);
          (res, out) = (case ue_key env of
              Some k \<Rightarrow>
                if provider a = EncryptedBundle
                then decrypt_file (ue_crypto env) k (aw_faults w) (basename (relative_path a)) content
                else (Inr False, content)
            | None \<Rightarrow> (Inr False, content)) in
      (and_then res (\<lambda>dec.
         if dec then
           and_then (fail_if (\<not> aw_rehash_ok w) error.Io) (\<lambda>_.
           Inr (True, hex_encode (ue_crypto env) (sha256 (ue_crypto env) out)))
         else Inr (False, downloaded_sha)), out))"

text \<open>From the downloaded or restored bytes to the receipt. An error drops the pending cache entry.\<close>

definition finish_asset ::
  "update_env \<Rightarrow> asset \<Rightarrow> bool \<Rightarrow> nat \<Rightarrow> string \<Rightarrow> stage \<Rightarrow> (error + (asset_receipt \<times> bool)) \<times> stage" where
  "finish_asset env a hit n sha st =
     (let w = ue_world env (relative_path a);
          content = (case staged_files st (relative_path a) of None \<Rightarrow> [] | Some f \<Rightarrow> f);
          (pend, cache1) = (case stage_cache st of
              Some es \<Rightarrow>
                if hit then (Inr None, Some es)
                else (case prepare (ue_json env) (aw_pending_ok w) (aw_tmp w) es (asset_identity env a)
                        content n sha of
                   (Inl e, es') \<Rightarrow> (Inl e, Some es')
                 | (Inr p, es') \<Rightarrow> (Inr (Some p), Some es'))
            | None \<Rightarrow> (Inr None, None)) in
      case pend of
        Inl e \<Rightarrow> (Inl e, st\<lparr>stage_cache := cache1\<rparr>)
      | Inr pending_entry \<Rightarrow>
          (let (res, out) = decrypt_and_hash env a sha content;
               st1 = set_file (relative_path a) (Some out) st in
           case res of
             Inl e \<Rightarrow> (Inl e, st1\<lparr>stage_cache :=
                 (case pending_entry of None \<Rightarrow> cache1 | Some p \<Rightarrow> map_option (\<lambda>es. discard es p) cache1)\<rparr>)
           | Inr (dec, stored) \<Rightarrow>
               (let rcpt = \<lparr>ar_path = relative_path a, ar_provider = provider a, ar_bytes = n,
                       ar_downloaded = sha, ar_stored = stored, ar_decrypted = dec\<rparr> in
                case (pending_entry, cache1) of
                  (Some p, Some es) \<Rightarrow>
                    (case commit (aw_pending_ok w) es p of
                       (Inl e, es') \<Rightarrow> (Inl e, st1\<lparr>stage_cache := Some es'\<rparr>)
                     | (Inr _, es') \<Rightarrow> (Inr (rcpt, hit), st1\<lparr>stage_cache := Some es'\<rparr>))
                | _ \<Rightarrow> (Inr (rcpt, hit), st1\<lparr>stage_cache := cache1\<rparr>))))"

definition asset_worker ::
  "update_env \<Rightarrow> nat \<Rightarrow> asset \<Rightarrow> stage \<Rightarrow> (error + (asset_receipt \<times> bool)) \<times> stage" where
  "asset_worker env limit a st =
     (let w = ue_world env (relative_path a); p = relative_path a in
      if \<not> aw_dir_ok w then (Inl error.Io, st)
      else
        (case try_restore env limit a st of
           (Inl e, f) \<Rightarrow> (Inl e, set_file p f st)
         | (Inr (Some (n, sha)), f) \<Rightarrow> finish_asset env a True n sha (set_file p f st)
         | (Inr None, f) \<Rightarrow>
             (case fetch_asset (ue_crypto env) (ue_retry env) (aw_attempts w) limit (provider a) f of
                (Inl e, f') \<Rightarrow> (Inl e, set_file p f' st)
              | (Inr (n, sha), f') \<Rightarrow> finish_asset env a False n sha (set_file p f' st))))"

subsection \<open>What a receipt says\<close>

text \<open>The receipt describes the staged file: its size and stored hash, the magic of a decrypted
  bundle, and that only encrypted bundles are decrypted.\<close>

definition receipt_matches :: "crypto \<Rightarrow> asset_receipt \<Rightarrow> byte list \<Rightarrow> bool" where
  "receipt_matches cr r out \<longleftrightarrow> 0 < ar_bytes r \<and> length out = ar_bytes r
     \<and> ar_stored r = hex_encode cr (sha256 cr out)
     \<and> (ar_decrypted r \<longrightarrow> ar_provider r = EncryptedBundle \<and> starts_with out UNITY_MAGIC)
     \<and> (\<not> ar_decrypted r \<longrightarrow> ar_stored r = ar_downloaded r)"

lemma set_file_simps [simp]:
  "staged_files (set_file p f st) = (staged_files st)(p := f)"
  "stage_cache (set_file p f st) = stage_cache st"
  by (simp_all add: set_file_def)

lemma decrypt_and_hash_Inr:
  assumes "decrypt_and_hash env a sha content = (Inr (dec, stored), out)"
    and "stream_lengths (ue_crypto env)" and "sha = hex_encode (ue_crypto env) (sha256 (ue_crypto env) content)"
  shows "length out = length content \<and> stored = hex_encode (ue_crypto env) (sha256 (ue_crypto env) out)
    \<and> (dec \<longrightarrow> provider a = EncryptedBundle \<and> starts_with out UNITY_MAGIC)
    \<and> (\<not> dec \<longrightarrow> out = content \<and> stored = sha)"
proof (cases "\<exists>k. ue_key env = Some k \<and> provider a = EncryptedBundle")
  case True
  then obtain k where k: "ue_key env = Some k" "provider a = EncryptedBundle" by blast
  let ?d = "decrypt_file (ue_crypto env) k (aw_faults (ue_world env (relative_path a)))
      (basename (relative_path a)) content"
  from assms(1) k have d: "?d = (Inr dec, out)"
    "dec \<longrightarrow> stored = hex_encode (ue_crypto env) (sha256 (ue_crypto env) out)" "\<not> dec \<longrightarrow> stored = sha"
    by (auto simp: decrypt_and_hash_def Let_def result_simps split: prod.splits if_splits)
  from decrypt_outcome [OF assms(2) d(1)] d(2,3) k(2) assms(3) show ?thesis
    by (cases dec) auto
next
  case False
  then have "out = content" "\<not> dec" "stored = sha"
    using assms(1) by (auto simp: decrypt_and_hash_def Let_def split: option.splits if_splits)
  with assms(3) show ?thesis by simp
qed

lemma finish_asset_Inr:
  assumes "finish_asset env a hit n sha st = (Inr (r, h), st')"
    and "staged_files st (relative_path a) = Some content"
  obtains dec stored out where "decrypt_and_hash env a sha content = (Inr (dec, stored), out)"
    "r = \<lparr>ar_path = relative_path a, ar_provider = provider a, ar_bytes = n,
       ar_downloaded = sha, ar_stored = stored, ar_decrypted = dec\<rparr>" "h = hit"
    "staged_files st' = (staged_files st)(relative_path a := Some out)"
    "stage_cache st = None \<longrightarrow> stage_cache st' = None"
proof -
  obtain res out where d: "decrypt_and_hash env a sha content = (res, out)"
    by (cases "decrypt_and_hash env a sha content")
  show thesis
  proof (cases res)
    case (Inl e)
    with assms d show thesis
      by (auto simp: finish_asset_def Let_def split: sum.splits prod.splits)
  next
    case (Inr v)
    obtain dec stored where v: "v = (dec, stored)" by (cases v)
    have "r = \<lparr>ar_path = relative_path a, ar_provider = provider a, ar_bytes = n,
        ar_downloaded = sha, ar_stored = stored, ar_decrypted = dec\<rparr> \<and> h = hit
      \<and> staged_files st' = (staged_files st)(relative_path a := Some out)
      \<and> (stage_cache st = None \<longrightarrow> stage_cache st' = None)"
      using assms d Inr v
      by (auto simp: finish_asset_def Let_def split: sum.splits prod.splits option.splits if_splits)
    with that [of dec stored out] d Inr v show thesis by simp
  qed
qed

lemma finish_asset_cache:
  "finish_asset env a hit n sha st = (x, st') \<Longrightarrow> stage_cache st' = None \<Longrightarrow> stage_cache st = None"
  by (auto simp: finish_asset_def Let_def split: sum.splits prod.splits option.splits if_splits)

lemma asset_worker_cache:
  "asset_worker env limit a st = (x, st') \<Longrightarrow> stage_cache st' = None \<Longrightarrow> stage_cache st = None"
  by (auto simp: asset_worker_def Let_def split: sum.splits prod.splits option.splits if_splits
      dest!: finish_asset_cache)

text \<open>A restored or downloaded file is what its size and hash say.\<close>

lemma try_restore_hit:
  assumes "try_restore env limit a st = (Inr (Some (n, sha)), f)"
  obtains out where "f = Some out" "length out = n" "0 < n" "n \<le> limit"
    "sha = hex_encode (ue_crypto env) (sha256 (ue_crypto env) out)" "stage_cache st \<noteq> None"
proof -
  from assms obtain es where es: "stage_cache st = Some es"
    by (auto simp: try_restore_def Let_def split: option.splits)
  with assms have "restore (ue_crypto env) (ue_json env)
      (aw_restore_ok (ue_world env (relative_path a))) (aw_restore_write (ue_world env (relative_path a)))
      es (asset_identity env a) limit (staged_files st (relative_path a)) = (Inr (Some (n, sha)), f)"
    by (simp add: try_restore_def Let_def)
  then obtain ds m d where m: "read_metadata (ue_json env) (aw_restore_ok (ue_world env (relative_path a)))
      ds limit = Inr (Some m)"
    and d: "copy_entry (ue_crypto env) (aw_restore_ok (ue_world env (relative_path a)))
      (aw_restore_write (ue_world env (relative_path a))) m d = (Inr (Some (n, sha)), f)"
    by (rule restore_hit)
  from read_metadata_Some [OF m] copy_entry_hit [OF d] es show thesis
    by (intro that [of d]) auto
qed

lemma asset_worker_Inr:
  assumes "asset_worker env limit a st = (Inr (r, hit), st')" and "stream_lengths (ue_crypto env)"
  obtains out where "staged_files st' = (staged_files st)(relative_path a := Some out)"
    "receipt_matches (ue_crypto env) r out" "ar_path r = relative_path a" "ar_provider r = provider a"
    "ar_bytes r \<le> limit" "stage_cache st = None \<longrightarrow> stage_cache st' = None \<and> \<not> hit
       \<and> (provider a = UnityBundle \<longrightarrow> starts_with out UNITY_MAGIC)"
proof -
  let ?p = "relative_path a"
  note result = that
  have finish: thesis
    if f: "finish_asset env a g n sha (set_file ?p (Some content) st) = (Inr (r, hit), st')"
      and n: "length content = n" "0 < n" "n \<le> limit"
      and sha: "sha = hex_encode (ue_crypto env) (sha256 (ue_crypto env) content)"
      and c: "stage_cache st = None \<Longrightarrow> \<not> g \<and> (provider a = UnityBundle \<longrightarrow> starts_with content UNITY_MAGIC)"
    for g n sha content
  proof -
    from f obtain dec stored out where
      d: "decrypt_and_hash env a sha content = (Inr (dec, stored), out)" and
      r: "r = \<lparr>ar_path = ?p, ar_provider = provider a, ar_bytes = n,
         ar_downloaded = sha, ar_stored = stored, ar_decrypted = dec\<rparr>" and
      st: "hit = g" "staged_files st' = (staged_files st)(?p := Some out)"
        "stage_cache st = None \<longrightarrow> stage_cache st' = None"
      by (rule finish_asset_Inr [of _ _ _ _ _ _ _ _ _ content]) auto
    from decrypt_and_hash_Inr [OF d assms(2) sha] r n
    have m: "receipt_matches (ue_crypto env) r out" by (auto simp: receipt_matches_def)
    have u: "provider a = UnityBundle \<longrightarrow> out = content"
      using decrypt_and_hash_Inr [OF d assms(2) sha] by auto
    show thesis
      by (rule result [OF st(2) m]) (use r n st u c in auto)
  qed
  from assms(1) consider
      (hit) n sha f where "try_restore env limit a st = (Inr (Some (n, sha)), f)"
        "finish_asset env a True n sha (set_file ?p f st) = (Inr (r, hit), st')"
    | (miss) f n sha f' where "fetch_asset (ue_crypto env) (ue_retry env)
          (aw_attempts (ue_world env ?p)) limit (provider a) f = (Inr (n, sha), f')"
        "finish_asset env a False n sha (set_file ?p f' st) = (Inr (r, hit), st')"
    by (auto simp: asset_worker_def Let_def split: if_splits prod.splits sum.splits option.splits)
  then show thesis
  proof cases
    case (hit n sha f)
    from try_restore_hit [OF hit(1)] obtain out where "f = Some out" "length out = n" "0 < n"
      "n \<le> limit" "sha = hex_encode (ue_crypto env) (sha256 (ue_crypto env) out)" "stage_cache st \<noteq> None" .
    with finish [of True n sha out] hit(2) show thesis by auto
  next
    case (miss f n sha f')
    show thesis
    proof (rule fetch_asset_Inr [OF miss(1)])
      fix k rs
      assume r: "f' = Some (concat (chunks rs))" "n = length (concat (chunks rs))" "0 < n"
        "complete rs limit (concat (chunks rs))"
        "sha = hex_encode (ue_crypto env) (sha256 (ue_crypto env) (concat (chunks rs)))"
        "provider a = UnityBundle \<Longrightarrow> take 8 (concat (chunks rs)) = UNITY_MAGIC"
      show thesis
      proof (rule finish)
        show "finish_asset env a False n sha (set_file ?p (Some (concat (chunks rs))) st) = (Inr (r, hit), st')"
          using miss(2) r(1) by simp
        show "length (concat (chunks rs)) = n" by (rule r(2) [symmetric])
        show "0 < n" by (rule r(3))
        show "n \<le> limit" using r(2,4) by (simp only: complete_def)
        show "sha = hex_encode (ue_crypto env) (sha256 (ue_crypto env) (concat (chunks rs)))"
          by (rule r(5))
        show "\<not> False \<and> (provider a = UnityBundle \<longrightarrow> starts_with (concat (chunks rs)) UNITY_MAGIC)"
          using r(6) by (simp add: starts_with_def)
      qed
    qed
  qed
qed

end
