(* ===== verification/Update_Run.thy ===== *)
theory Update_Run
  imports Asset_Worker Snapshot
begin

text \<open>
  The update loop (\<open>download_assets\<close> in \<open>src/update.rs\<close>): batches of workers under a file limit and
  a total budget, periodic revalidation of the version, and the receipt. The workers of a batch run
  concurrently in the source; they touch different files and cache entries, and the model runs them
  one after another. The loop makes no progress with zero workers, so it is a partial function:
  \<open>None\<close> is a loop that never ends.
\<close>

record update_receipt =
  up_selection :: selection
  up_cache_hits :: nat
  up_assets :: "asset_receipt list"
  up_embedded :: nat
  up_logical :: nat
  up_total :: nat

record loop_state =
  lp_next :: nat
  lp_receipts :: "asset_receipt list"
  lp_total :: nat
  lp_hits :: nat
  lp_stage :: stage

text \<open>Whether the revalidation interval has elapsed before the batch that starts at an index, and
  how the revalidation made there ends.\<close>

record loop_world =
  lw_due :: "nat \<Rightarrow> bool"
  lw_revalidate :: "nat \<Rightarrow> error + unit"

text \<open>\<open>try_join_all\<close>: all results in order, or an error of one worker.\<close>

fun run_batch :: "update_env \<Rightarrow> nat \<Rightarrow> asset list \<Rightarrow> stage \<Rightarrow> (error + (asset_receipt \<times> bool) list) \<times> stage" where
  "run_batch env limit [] st = (Inr [], st)"
| "run_batch env limit (a # as) st =
     (case asset_worker env limit a st of
        (Inl e, st1) \<Rightarrow> (Inl e, st1)
      | (Inr r, st1) \<Rightarrow>
          (case run_batch env limit as st1 of
             (Inl e, st2) \<Rightarrow> (Inl e, st2)
           | (Inr rs, st2) \<Rightarrow> (Inr (r # rs), st2)))"

definition worker_count :: "asset_config \<Rightarrow> nat \<Rightarrow> nat" where
  "worker_count cfg remaining = min (concurrency cfg) (max (remaining div max_file_bytes cfg) 1)"

definition file_limit :: "asset_config \<Rightarrow> nat \<Rightarrow> nat" where
  "file_limit cfg remaining = min remaining (max_file_bytes cfg)"

text \<open>One iteration of \<open>while next < plan.assets.len()\<close>\<close>

definition update_step ::
  "update_env \<Rightarrow> asset_config \<Rightarrow> loop_world \<Rightarrow> asset list \<Rightarrow> loop_state \<Rightarrow> (error + unit) \<times> loop_state" where
  "update_step env cfg lw as s =
     (case (if lw_due lw (lp_next s) then lw_revalidate lw (lp_next s) else Inr ()) of
        Inl e \<Rightarrow> (Inl e, s)
      | Inr _ \<Rightarrow>
          if max_total_bytes cfg < lp_total s then (Inl error.Size, s)
          else
            (let remaining = max_total_bytes cfg - lp_total s in
             if remaining = 0 then (Inl error.Size, s)
             else
               (let last = min (lp_next s + worker_count cfg remaining) (length as);
                    batch = take (last - lp_next s) (drop (lp_next s) as) in
                case run_batch env (file_limit cfg remaining) batch (lp_stage s) of
                  (Inl e, st) \<Rightarrow> (Inl e, s\<lparr>lp_stage := st\<rparr>)
                | (Inr rs, st) \<Rightarrow>
                    (Inr (), \<lparr>lp_next = last,
                       lp_receipts = lp_receipts s @ map fst rs,
                       lp_total = lp_total s + sum_list (map (\<lambda>(r, _). ar_bytes r) rs),
                       lp_hits = lp_hits s + length (filter snd rs),
                       lp_stage = st\<rparr>))))"

partial_function (option) update_loop ::
  "update_env \<Rightarrow> asset_config \<Rightarrow> loop_world \<Rightarrow> asset list \<Rightarrow> loop_state
   \<Rightarrow> ((error + unit) \<times> loop_state) option" where
  "update_loop env cfg lw as s =
     (if lp_next s < length as then
        (case update_step env cfg lw as s of
           (Inl e, t) \<Rightarrow> Some (Inl e, t)
         | (Inr _, t) \<Rightarrow> update_loop env cfg lw as t)
      else Some (Inr (), s))"

declare update_loop.simps [code]

subsection \<open>Batches\<close>

lemma run_batch_Inr:
  assumes "run_batch env limit as st = (Inr rs, st')" and "stream_lengths (ue_crypto env)"
    and "distinct (map relative_path as)"
  shows "map (ar_path \<circ> fst) rs = map relative_path as \<and> map (ar_provider \<circ> fst) rs = map provider as
    \<and> (\<forall>(r, h) \<in> set rs. ar_bytes r \<le> limit)
    \<and> (\<forall>(r, h) \<in> set rs. \<exists>out. staged_files st' (ar_path r) = Some out \<and> receipt_matches (ue_crypto env) r out
        \<and> (stage_cache st = None \<and> ar_provider r = UnityBundle \<longrightarrow> starts_with out UNITY_MAGIC))
    \<and> (\<forall>p. p \<notin> relative_path ` set as \<longrightarrow> staged_files st' p = staged_files st p)
    \<and> (stage_cache st = None \<longrightarrow> stage_cache st' = None)"
  using assms
proof (induction env limit as st arbitrary: rs rule: run_batch.induct)
  case (2 env limit a as st)
  obtain x st1 where w: "asset_worker env limit a st = (x, st1)" by (cases "asset_worker env limit a st")
  with "2.prems"(1) obtain r h where x: "x = Inr (r, h)" by (cases x) auto
  obtain y st2 where b: "run_batch env limit as st1 = (y, st2)" by (cases "run_batch env limit as st1")
  with "2.prems"(1) w x obtain rs' where y: "y = Inr rs'" "rs = (r, h) # rs'" "st' = st2"
    by (cases y) auto
  have d: "relative_path a \<notin> relative_path ` set as" "distinct (map relative_path as)"
    using "2.prems"(3) by auto
  from "2.IH" [of x st1 "(r, h)"] w x b y "2.prems"(2) d(2) have IH:
    "map (ar_path \<circ> fst) rs' = map relative_path as \<and> map (ar_provider \<circ> fst) rs' = map provider as
    \<and> (\<forall>(r, h) \<in> set rs'. ar_bytes r \<le> limit)
    \<and> (\<forall>(r, h) \<in> set rs'. \<exists>out. staged_files st2 (ar_path r) = Some out \<and> receipt_matches (ue_crypto env) r out
        \<and> (stage_cache st1 = None \<and> ar_provider r = UnityBundle \<longrightarrow> starts_with out UNITY_MAGIC))
    \<and> (\<forall>p. p \<notin> relative_path ` set as \<longrightarrow> staged_files st2 p = staged_files st1 p)
    \<and> (stage_cache st1 = None \<longrightarrow> stage_cache st2 = None)" by (simp add: comp_def)
  have w': "asset_worker env limit a st = (Inr (r, h), st1)" using w x by simp
  obtain out where out:
    "staged_files st1 = (staged_files st)(relative_path a := Some out)"
    "receipt_matches (ue_crypto env) r out" "ar_path r = relative_path a" "ar_provider r = provider a"
    "ar_bytes r \<le> limit" "stage_cache st = None \<longrightarrow> stage_cache st1 = None \<and> \<not> h
       \<and> (provider a = UnityBundle \<longrightarrow> starts_with out UNITY_MAGIC)"
    by (rule asset_worker_Inr [OF w' "2.prems"(2)]) (rule that; assumption)
  have own: "staged_files st2 (ar_path r) = Some out" using IH d out by simp
  show ?case unfolding y(2,3)
  proof (intro conjI)
    show "\<forall>(r, h) \<in> set ((r, h) # rs'). \<exists>out. staged_files st2 (ar_path r) = Some out
        \<and> receipt_matches (ue_crypto env) r out
        \<and> (stage_cache st = None \<and> ar_provider r = UnityBundle \<longrightarrow> starts_with out UNITY_MAGIC)"
      using own out IH by auto
  qed (use IH out in \<open>auto simp: comp_def\<close>)
qed simp

text \<open>A cache that is configured stays configured.\<close>

lemma run_batch_cache: "run_batch env limit as st = (x, st') \<Longrightarrow> stage_cache st' = None \<Longrightarrow> stage_cache st = None"
  by (induction env limit as st arbitrary: x rule: run_batch.induct)
    (auto split: prod.splits sum.splits dest: asset_worker_cache)

lemma worker_count_pos: "1 \<le> concurrency cfg \<Longrightarrow> 1 \<le> worker_count cfg remaining"
  by (simp add: worker_count_def)

text \<open>The reservation: dispatched workers times the file limit never exceeds what is left.\<close>

lemma reservation:
  assumes "0 < max_file_bytes cfg"
  shows "worker_count cfg remaining * file_limit cfg remaining \<le> remaining"
proof (cases "max_file_bytes cfg \<le> remaining")
  case True
  then have q: "1 \<le> remaining div max_file_bytes cfg" using assms by (simp add: Suc_le_eq div_greater_zero_iff)
  then have "worker_count cfg remaining \<le> remaining div max_file_bytes cfg"
    by (simp add: worker_count_def max_def)
  then have "worker_count cfg remaining * max_file_bytes cfg
      \<le> remaining div max_file_bytes cfg * max_file_bytes cfg" by (rule mult_le_mono1)
  also have "\<dots> \<le> remaining" by simp
  finally have "worker_count cfg remaining * max_file_bytes cfg \<le> remaining" .
  moreover have "file_limit cfg remaining = max_file_bytes cfg" using True by (simp add: file_limit_def)
  ultimately show ?thesis by simp
next
  case False
  then have "worker_count cfg remaining \<le> 1" by (simp add: worker_count_def)
  then have "worker_count cfg remaining * file_limit cfg remaining \<le> 1 * file_limit cfg remaining"
    by (rule mult_le_mono1)
  also have "\<dots> \<le> remaining" by (simp add: file_limit_def)
  finally show ?thesis .
qed

lemma sum_list_bounded: "(\<And>x. x \<in> set xs \<Longrightarrow> f x \<le> (b :: nat)) \<Longrightarrow> sum_list (map f xs) \<le> length xs * b"
  by (induction xs) (auto simp: add_le_mono)

subsection \<open>The loop\<close>

text \<open>A receipt describes its staged file; without a cache a Unity bundle also has its magic.\<close>

definition receipt_staged :: "crypto \<Rightarrow> stage \<Rightarrow> asset_receipt \<Rightarrow> bool" where
  "receipt_staged cr st r \<longleftrightarrow> (\<exists>out. staged_files st (ar_path r) = Some out \<and> receipt_matches cr r out
     \<and> (stage_cache st = None \<and> ar_provider r = UnityBundle \<longrightarrow> starts_with out UNITY_MAGIC))"

definition loop_inv :: "update_env \<Rightarrow> asset_config \<Rightarrow> asset list \<Rightarrow> loop_state \<Rightarrow> bool" where
  "loop_inv env cfg as s \<longleftrightarrow> lp_next s \<le> length as
     \<and> map ar_path (lp_receipts s) = map relative_path (take (lp_next s) as)
     \<and> map ar_provider (lp_receipts s) = map provider (take (lp_next s) as)
     \<and> lp_total s = sum_list (map ar_bytes (lp_receipts s))
     \<and> lp_total s \<le> max_total_bytes cfg
     \<and> lp_hits s \<le> length (lp_receipts s)
     \<and> (\<forall>r \<in> set (lp_receipts s). receipt_staged (ue_crypto env) (lp_stage s) r
          \<and> ar_bytes r \<le> max_file_bytes cfg)"

lemma update_step_Inr:
  assumes "update_step env cfg lw as s = (Inr u, t)"
  obtains rs st where "lp_total s < max_total_bytes cfg"
    "run_batch env (file_limit cfg (max_total_bytes cfg - lp_total s))
       (take (min (lp_next s + worker_count cfg (max_total_bytes cfg - lp_total s)) (length as) - lp_next s)
          (drop (lp_next s) as)) (lp_stage s) = (Inr rs, st)"
    "t = \<lparr>lp_next = min (lp_next s + worker_count cfg (max_total_bytes cfg - lp_total s)) (length as),
       lp_receipts = lp_receipts s @ map fst rs,
       lp_total = lp_total s + sum_list (map (\<lambda>(r, _). ar_bytes r) rs),
       lp_hits = lp_hits s + length (filter snd rs), lp_stage = st\<rparr>"
  using assms
  by (auto simp: update_step_def Let_def split: sum.splits if_splits prod.splits)

lemma update_step_inv:
  assumes "update_step env cfg lw as s = (Inr u, t)" and inv: "loop_inv env cfg as s"
    and str: "stream_lengths (ue_crypto env)" and dist: "distinct (map relative_path as)"
    and conc: "1 \<le> concurrency cfg" and pos: "0 < max_file_bytes cfg" and lt: "lp_next s < length as"
  shows "loop_inv env cfg as t \<and> lp_next s < lp_next t
    \<and> (stage_cache (lp_stage s) = None \<longrightarrow> stage_cache (lp_stage t) = None)"
proof -
  define rem where "rem = max_total_bytes cfg - lp_total s"
  define last where "last = min (lp_next s + worker_count cfg rem) (length as)"
  define batch where "batch = take (last - lp_next s) (drop (lp_next s) as)"
  from update_step_Inr [OF assms(1)] obtain rs st where
    tot: "lp_total s < max_total_bytes cfg" and
    b: "run_batch env (file_limit cfg rem) batch (lp_stage s) = (Inr rs, st)" and
    t: "t = \<lparr>lp_next = last, lp_receipts = lp_receipts s @ map fst rs,
       lp_total = lp_total s + sum_list (map (\<lambda>(r, _). ar_bytes r) rs),
       lp_hits = lp_hits s + length (filter snd rs), lp_stage = st\<rparr>"
    unfolding rem_def last_def batch_def by blast
  have adv: "lp_next s < last" "last \<le> length as"
    using worker_count_pos [OF conc, of rem] lt by (simp_all add: last_def)
  have tk: "take last as = take (lp_next s) as @ batch"
    using adv take_add [of "lp_next s" "last - lp_next s" as] by (simp add: batch_def)
  have db: "distinct (map relative_path (take last as))"
    using dist by (metis distinct_take take_map)
  then have dbb: "distinct (map relative_path batch)"
    and sep: "relative_path ` set (take (lp_next s) as) \<inter> relative_path ` set batch = {}"
    unfolding tk by auto
  note R = run_batch_Inr [OF b str dbb]
  have lb: "length rs \<le> worker_count cfg rem"
  proof -
    have "length rs = length batch" using R by (metis length_map)
    then show ?thesis by (simp add: batch_def last_def)
  qed
  have "sum_list (map (\<lambda>(r, _). ar_bytes r) rs) \<le> length rs * file_limit cfg rem"
    by (rule sum_list_bounded) (use R in auto)
  also have "\<dots> \<le> worker_count cfg rem * file_limit cfg rem" using lb by (rule mult_le_mono1)
  also have "\<dots> \<le> rem" by (rule reservation [OF pos])
  finally have budget: "lp_total s + sum_list (map (\<lambda>(r, _). ar_bytes r) rs) \<le> max_total_bytes cfg"
    using tot by (simp add: rem_def)
  have old: "receipt_staged (ue_crypto env) st r" if r: "r \<in> set (lp_receipts s)" for r
  proof -
    have "ar_path r \<in> relative_path ` set (take (lp_next s) as)"
      using inv r by (metis image_eqI image_set loop_inv_def)
    with sep have "ar_path r \<notin> relative_path ` set batch" by blast
    with R have "staged_files st (ar_path r) = staged_files (lp_stage s) (ar_path r)" by blast
    moreover have "receipt_staged (ue_crypto env) (lp_stage s) r" using inv r by (simp add: loop_inv_def)
    moreover have "stage_cache st = None \<Longrightarrow> stage_cache (lp_stage s) = None"
      by (rule run_batch_cache [OF b])
    ultimately show ?thesis by (auto simp: receipt_staged_def)
  qed
  have new: "receipt_staged (ue_crypto env) st r" if "(r, h) \<in> set rs" for r h
    using R that run_batch_cache [OF b] by (fastforce simp: receipt_staged_def)
  have "ar_bytes r \<le> max_file_bytes cfg" if "(r, h) \<in> set rs" for r h
    using R that by (fastforce simp: file_limit_def)
  moreover have "map ar_path (map fst rs) = map relative_path batch"
    "map ar_provider (map fst rs) = map provider batch"
    using R by (simp_all add: comp_def)
  moreover have "sum_list (map (\<lambda>(r, _). ar_bytes r) rs) = sum_list (map ar_bytes (map fst rs))"
    by (simp add: split_def comp_def)
  moreover have "lp_hits s + length (filter snd rs) \<le> length (lp_receipts s) + length rs"
    using inv by (intro add_le_mono length_filter_le) (simp add: loop_inv_def)
  moreover have "r \<in> set (lp_receipts s) \<Longrightarrow> ar_bytes r \<le> max_file_bytes cfg" for r
    using inv by (simp add: loop_inv_def)
  moreover have "lp_total s = sum_list (map ar_bytes (lp_receipts s))"
    "map ar_path (lp_receipts s) = map relative_path (take (lp_next s) as)"
    "map ar_provider (lp_receipts s) = map provider (take (lp_next s) as)"
    using inv by (simp_all add: loop_inv_def)
  ultimately have "loop_inv env cfg as t"
    using old new budget adv unfolding t loop_inv_def
    by (auto simp del: map_map simp: tk)
  moreover have "stage_cache (lp_stage s) = None \<longrightarrow> stage_cache (lp_stage t) = None"
    using R t by simp
  ultimately show ?thesis using adv t by simp
qed

lemma update_step_Inl:
  "update_step env cfg lw as s = (Inl e, t) \<Longrightarrow> lp_total t = lp_total s \<and> lp_next t = lp_next s"
  by (auto simp: update_step_def Let_def split: sum.splits if_splits prod.splits)

lemma update_loop_returns:
  assumes "loop_inv env cfg as s" and "stream_lengths (ue_crypto env)"
    and "distinct (map relative_path as)" and "1 \<le> concurrency cfg" and "0 < max_file_bytes cfg"
  shows "\<exists>res t. update_loop env cfg lw as s = Some (res, t) \<and> lp_total t \<le> max_total_bytes cfg
    \<and> (res = Inr () \<longrightarrow> loop_inv env cfg as t \<and> lp_next t = length as
        \<and> (stage_cache (lp_stage s) = None \<longrightarrow> stage_cache (lp_stage t) = None))"
  using assms(1)
proof (induction "length as - lp_next s" arbitrary: s rule: less_induct)
  case less
  show ?case
  proof (cases "lp_next s < length as")
    case False
    with less.prems show ?thesis
      by (subst update_loop.simps) (auto simp: loop_inv_def)
  next
    case True
    obtain r t where step: "update_step env cfg lw as s = (r, t)" by (cases "update_step env cfg lw as s")
    show ?thesis
    proof (cases r)
      case (Inl e)
      with update_step_Inl [of env cfg lw as s e t] step less.prems True show ?thesis
        by (subst update_loop.simps) (auto simp: loop_inv_def)
    next
      case (Inr u)
      have t: "loop_inv env cfg as t" "lp_next s < lp_next t"
        "stage_cache (lp_stage s) = None \<longrightarrow> stage_cache (lp_stage t) = None"
        using update_step_inv [OF step [unfolded Inr] less.prems assms(2-5) True] by auto
      have "length as - lp_next t < length as - lp_next s" using t(2) True by simp
      from less.hyps [OF this t(1)] step Inr True t(3) show ?thesis
        by (subst update_loop.simps) auto
    qed
  qed
qed

subsection \<open>The whole update\<close>

definition loop_start :: "stage \<Rightarrow> loop_state" where
  "loop_start st = \<lparr>lp_next = 0, lp_receipts = [], lp_total = 0, lp_hits = 0, lp_stage = st\<rparr>"

text \<open>Everything the update reads besides its arguments: time, environment, network, disk.\<close>

record assets_world =
  da_read_ok :: bool
  da_now :: int
  da_env :: env
  da_loop :: loop_world
  da_files :: "string \<Rightarrow> asset_world"
  da_locations_ok :: bool
  da_final :: "error + unit"

text \<open>The plan of an update: parse, recheck the target, select, plan, prioritise.\<close>

definition update_plan ::
  "regex_compiler \<Rightarrow> snapshot_response \<Rightarrow> config \<Rightarrow> catalog_target \<Rightarrow> selection \<Rightarrow> int \<Rightarrow> byte list
   \<Rightarrow> error + (catalog \<times> plan)" where
  "update_plan rx resp c target sel now bs =
     and_then (parse bs) (\<lambda>cat.
     and_then (snapshot_target resp c now) (\<lambda>t.
     and_then (fail_if (t \<noteq> target) error.Snapshot) (\<lambda>_.
     and_then (select_catalog rx sel cat) (\<lambda>chosen.
     and_then (plan_with (bundle_base_url target) (remote_placeholder target) chosen) (\<lambda>pl.
     and_then (prioritize rx sel pl) (\<lambda>pl'.
     Inr (cat, pl')))))))"

definition decrypt_key :: "crypto \<Rightarrow> env \<Rightarrow> decrypt_config option \<Rightarrow> error + bundle_key option" where
  "decrypt_key cr env d = (case d of
      None \<Rightarrow> Inr None
    | Some dc \<Rightarrow>
        and_then (secret env (key_hex_env dc)) (\<lambda>k.
        and_then (secret env (nonce_seed_hex_env dc)) (\<lambda>n.
        and_then (from_hex cr k n) (\<lambda>key. Inr (Some key)))))"

definition scoped_catalog :: "config \<Rightarrow> string \<Rightarrow> string" where
  "scoped_catalog c url = name (cfg_region c) @ '':'' @ cfg_environment c @ '':''
     @ platform_name (platform_of c) @ '':'' @ url"

text \<open>The libraries the update calls: crypto, JSON of cache metadata and of the catalog, regexes.\<close>

record libraries =
  lib_crypto :: crypto
  lib_json :: json
  lib_regex :: regex_compiler
  lib_encode_catalog :: "catalog \<Rightarrow> byte list"

definition update_environment ::
  "libraries \<Rightarrow> assets_world \<Rightarrow> config \<Rightarrow> catalog_target \<Rightarrow> bundle_key option \<Rightarrow> byte list \<Rightarrow> update_env" where
  "update_environment lib w c target key bs =
     \<lparr>ue_crypto = lib_crypto lib, ue_json = lib_json lib,
      ue_retry = asset_retry (cfg_network c), ue_key = key,
      ue_scope = scoped_catalog c (catalog_url target),
      ue_catalog_sha = hex_encode (lib_crypto lib) (sha256 (lib_crypto lib) bs),
      ue_world = da_files w\<rparr>"

text \<open>\<open>download_assets\<close> on the staged catalog \<open>bs\<close>: the result is the receipt with the staged files and
  the text of \<open>locations.json\<close>; \<open>None\<close> is an update that never ends.\<close>

definition download_assets ::
  "libraries \<Rightarrow> assets_world \<Rightarrow> snapshot_response \<Rightarrow> config \<Rightarrow> catalog_target \<Rightarrow> asset_config
   \<Rightarrow> byte list \<Rightarrow> stage \<Rightarrow> ((error + (update_receipt \<times> byte list)) \<times> stage) option" where
  "download_assets lib w resp c target ac bs st =
     (if \<not> da_read_ok w then Some (Inl error.Io, st)
      else
        (case update_plan (lib_regex lib) resp c target (asset_config.selection ac) (da_now w) bs of
           Inl e \<Rightarrow> Some (Inl e, st)
         | Inr (cat, pl) \<Rightarrow>
             (case decrypt_key (lib_crypto lib) (da_env w) (decrypt ac) of
                Inl e \<Rightarrow> Some (Inl e, st)
              | Inr key \<Rightarrow>
                  (case update_loop (update_environment lib w c target key bs) ac (da_loop w)
                       (assets pl) (loop_start st) of
                     None \<Rightarrow> None
                   | Some (Inl e, t) \<Rightarrow> Some (Inl e, lp_stage t)
                   | Some (Inr _, t) \<Rightarrow>
                       Some (and_then (fail_if (\<not> da_locations_ok w) error.Io) (\<lambda>_.
                         and_then (da_final w) (\<lambda>_.
                         Inr (\<lparr>up_selection = asset_config.selection ac, up_cache_hits = lp_hits t,
                                up_assets = lp_receipts t, up_embedded = embedded_locations pl,
                                up_logical = logical_locations pl, up_total = lp_total t\<rparr>,
                              lib_encode_catalog lib cat))), lp_stage t)))))"

subsection \<open>Properties\<close>

lemma prioritize_paths:
  assumes "prioritize rx sel pl = Inr pl'"
  shows "mset (assets pl') = mset (assets pl)" "embedded_locations pl' = embedded_locations pl"
    "logical_locations pl' = logical_locations pl"
  using assms by (auto simp: prioritize_def result_simps)

lemma plan_paths_distinct:
  assumes "plan_with rd ph c = Inr pl"
  shows "distinct (map relative_path (assets pl))"
proof (rule plan_with_facts [OF assms])
  fix s
  assume inv: "plan_inv rd ph s (locations c)" and pl: "assets pl = map snd (by_path s)"
  then have "map relative_path (assets pl) = map fst (by_path s)"
    by (auto simp: plan_inv_def)
  with inv show ?thesis by (simp add: plan_inv_def bt_ordered_distinct)
qed

lemma prioritized_distinct:
  assumes "plan_with rd ph c = Inr pl" and "prioritize rx sel pl = Inr pl'"
  shows "distinct (map relative_path (assets pl'))"
proof -
  have "mset (map relative_path (assets pl')) = mset (map relative_path (assets pl))"
    using prioritize_paths(1) [OF assms(2)] by simp
  with plan_paths_distinct [OF assms(1)] show ?thesis by (metis mset_eq_imp_distinct_iff)
qed

lemma loop_start_inv: "loop_inv env cfg as (loop_start st)"
  by (simp add: loop_inv_def loop_start_def)

text \<open>C8. An update ends and stays within its budgets: under a validated configuration the loop
  terminates whatever the network, the disk and the cache do; the bytes accounted never exceed the
  total budget, also when it fails; and every batch reserves the worst case, since the workers
  dispatched, at most the configured number and at least one, times the file limit fit into what is
  left.\<close>

theorem update_ends_within_budget:
  assumes "asset_config_validate rx ac = Inr u" and "stream_lengths (ue_crypto env)"
    and "plan_with rd ph cat = Inr pl" and "prioritize rx (asset_config.selection ac) pl = Inr pl'"
  shows "(\<exists>res t. update_loop env ac lw (assets pl') (loop_start st) = Some (res, t)
        \<and> lp_total t \<le> max_total_bytes ac
        \<and> (res = Inr () \<longrightarrow> length (lp_receipts t) = length (assets pl')
            \<and> lp_total t = sum_list (map ar_bytes (lp_receipts t))))
    \<and> (\<forall>remaining. worker_count ac remaining * file_limit ac remaining \<le> remaining
        \<and> 1 \<le> worker_count ac remaining \<and> worker_count ac remaining \<le> concurrency ac)"
proof -
  note b = asset_config_bounds [OF assms(1)]
  have pos: "0 < max_file_bytes ac" using b(3) by simp
  from update_loop_returns [OF loop_start_inv assms(2) prioritized_distinct [OF assms(3,4)] b(1) pos,
      of lw st]
  obtain res t where t: "update_loop env ac lw (assets pl') (loop_start st) = Some (res, t)"
    "lp_total t \<le> max_total_bytes ac"
    "res = Inr () \<longrightarrow> loop_inv env ac (assets pl') t \<and> lp_next t = length (assets pl')"
    by blast
  have "res = Inr () \<longrightarrow> length (lp_receipts t) = length (assets pl')
      \<and> lp_total t = sum_list (map ar_bytes (lp_receipts t))"
  proof
    assume "res = Inr ()"
    with t(3) have i: "loop_inv env ac (assets pl') t" "lp_next t = length (assets pl')" by auto
    from i(1) have "map ar_path (lp_receipts t) = map relative_path (take (lp_next t) (assets pl'))"
      by (simp add: loop_inv_def)
    then have "length (lp_receipts t) = length (assets pl')"
      using i(2) by (metis length_map take_all order_refl)
    with i(1) show "length (lp_receipts t) = length (assets pl')
      \<and> lp_total t = sum_list (map ar_bytes (lp_receipts t))" by (simp add: loop_inv_def)
  qed
  with t(1,2) reservation [OF pos] worker_count_pos [OF b(1)] show ?thesis
    by (auto simp: worker_count_def)
qed

definition example_asset_config :: asset_config where
  "example_asset_config = \<lparr>selection = selection_default, concurrency = 4, cache_directory = None,
     max_file_bytes = 100, max_total_bytes = 1000, decrypt = None\<rparr>"

lemma example_asset_config_valid: "asset_config_validate (\<lambda>_. None) example_asset_config = Inr ()"
  by (simp add: asset_config_validate_def example_asset_config_def selection_validate_def
      selection_default_def patterns_def)

definition example_asset_world :: asset_world where
  "example_asset_world = \<lparr>aw_dir_ok = True, aw_restore_ok = (\<lambda>_. True), aw_restore_write = (\<lambda>_. True),
     aw_attempts = example_attempts, aw_tmp = [], aw_pending_ok = (\<lambda>_. True), aw_faults = no_faults,
     aw_rehash_ok = True\<rparr>"

definition example_update_env :: update_env where
  "example_update_env = \<lparr>ue_crypto = example_crypto, ue_json = example_json, ue_retry = retry_default,
     ue_key = None, ue_scope = [], ue_catalog_sha = [], ue_world = (\<lambda>_. example_asset_world)\<rparr>"

theorem update_ends_within_budget_witness:
  "\<exists>res t. update_loop example_update_env example_asset_config
      \<lparr>lw_due = (\<lambda>_. False), lw_revalidate = (\<lambda>_. Inr ())\<rparr> (assets example_plan)
      (loop_start \<lparr>staged_files = (\<lambda>_. None), stage_cache = None\<rparr>) = Some (res, t)
     \<and> lp_total t \<le> 1000"
proof -
  have s: "stream_lengths (ue_crypto example_update_env)"
    by (simp add: example_update_env_def example_stream)
  have p: "prioritize (\<lambda>_. None) (asset_config.selection example_asset_config) example_plan
      = Inr example_plan"
    by (simp add: prioritize_def example_asset_config_def selection_default_def patterns_def
        example_plan_def)
  from update_ends_within_budget [OF example_asset_config_valid s plan_example p,
      of "\<lparr>lw_due = (\<lambda>_. False), lw_revalidate = (\<lambda>_. Inr ())\<rparr>"
         "\<lparr>staged_files = (\<lambda>_. None), stage_cache = None\<rparr>"]
  show ?thesis by (auto simp: example_asset_config_def)
qed

subsection \<open>An example update\<close>

text \<open>A catalog with one location: the remote file \<open>a\<close> of the CRI provider.\<close>

definition file_id :: string where
  "file_id = ''{Fwk.Resource.RemoteAssetDir}/a''"

definition file_provider :: string where
  "file_provider = ''CriWare.Assets.CriResourceProvider''"

definition file_bytes :: "byte list" where
  "file_bytes =
     [0x42, 0x89, 0xE3, 0x0D,  2, 0, 0, 0,  16, 0, 0, 0,  8, 0, 0, 0,
      0xFF, 0xFF, 0xFF, 0xFF,  28, 0, 0, 0,  4, 0, 0, 0,  36, 0, 0, 0,  0, 0, 0, 0,
      0xFF, 0xFF, 0xFF, 0xFF,  64, 0, 0, 0,  100, 0, 0, 0,  0xFF, 0xFF, 0xFF, 0xFF,
      0, 0, 0, 0,  0, 0, 0, 0,  31, 0, 0, 0] @ bytes_of file_id @ [0, 34, 0, 0, 0] @ bytes_of file_provider"

lemma file_lengths: "length file_id = 31" "length file_provider = 34"
  by (simp_all add: file_id_def file_provider_def)

lemma file_reads: "read_u32 file_bytes 0 = Inr 0x0DE38942"
  "read_u32 file_bytes 4 = Inr 2" "read_u32 file_bytes 8 = Inr 16"
  "read_u32 file_bytes 12 = Inr 8"
  "read_u32 file_bytes 24 = Inr 4"
  "read_u32 file_bytes 36 = Inr 0xFFFFFFFF"
  "read_u32 file_bytes 40 = Inr 64"
  "read_u32 file_bytes 44 = Inr 100"
  "read_u32 file_bytes 48 = Inr 0xFFFFFFFF"
  "read_u32 file_bytes 60 = Inr 31"
  "read_u32 file_bytes 96 = Inr 34"
  by (simp_all add: read_u32_def read_bytes_def file_bytes_def u32_from_le_def file_lengths)

lemma file_slices: "read_bytes file_bytes 36 24 = Inr (take 24 (drop 36 file_bytes))"
  "read_bytes file_bytes 16 8 = Inr [0xFF, 0xFF, 0xFF, 0xFF,  28, 0, 0, 0]"
  "read_bytes file_bytes 28 4 = Inr [36, 0, 0, 0]"
  "read_bytes file_bytes 64 31 = Inr (bytes_of file_id)"
  "read_bytes file_bytes 100 34 = Inr (bytes_of file_provider)"
  "length file_bytes = 134"
  by (simp_all add: read_bytes_def file_bytes_def file_lengths)

definition file_catalog :: catalog where
  "file_catalog = \<lparr>locations = [\<lparr>loc_id = 36, primary_key = [], internal_id = file_id,
     provider_id = file_provider, dependencies = []\<rparr>], cat_keys = []\<rparr>"

lemma file_ascii: "list_all (\<lambda>x. x < 128) (bytes_of file_id)" "list_all (\<lambda>x. x < 128) (bytes_of file_provider)"
  by (simp_all add: bytes_of_def file_id_def file_provider_def)

lemma file_strings:
  "plain_string file_bytes n 0xFFFFFFFF = Inr ([], n)"
  "31 \<le> n \<Longrightarrow> plain_string file_bytes n 64 = Inr (file_id, n - 31)"
  "34 \<le> n \<Longrightarrow> plain_string file_bytes n 100 = Inr (file_provider, n - 34)"
  using file_ascii
  by (simp_all add: plain_string_def NONE_def MASK_def UNICODE_def size_offset_def file_reads file_slices Let_def)

lemma parse_file: "parse file_bytes = Inr file_catalog"
  by (simp add: parse_def file_catalog_def file_reads file_slices key_table_def
      read_array_def size_offset_def NONE_def chunks_of.simps key_start_def parse_key_def
      key_entry_ids_def u32_from_le_def read_ids_def MAX_LINKS_def key_name_def parse_loop.simps
      loc_start_def parse_step_def MAX_LOCATIONS_def read_dependencies_def read_field_def
      read_string_def file_strings DYNAMIC_def Let_def)

lemma select_file: "select_catalog (\<lambda>_. None) selection_default file_catalog = Inr file_catalog"
  by (simp add: select_catalog_def selection_validate_def selection_default_def patterns_def
      selection_roots_def by_id_def bt_of_list_def file_catalog_def passes_def
      pattern_hits_def select_loop.simps select_step_def)

definition file_plan :: plan where
  "file_plan = \<lparr>assets = [\<lparr>relative_path = ''a'', provider = Cri, asset_locations = [36]\<rparr>],
     embedded_locations = 0, logical_locations = 0\<rparr>"

lemma file_provider_of: "provider_of file_provider = Inr (Some Cri)"
  by (simp add: provider_of_def file_provider_def)

lemma file_located: "locate rd ph file_id = Inr (RemoteFile ''a'')"
  by (simp add: locate_def file_id_def strip_prefix_def example_name Let_def)

lemma plan_file_catalog: "plan_with rd ph file_catalog = Inr file_plan"
  by (simp add: plan_with_def file_catalog_def plan_step_def file_provider_of file_located
      plan_file_def plan_start_def file_plan_def Let_def to_ascii_lowercase_def to_ascii_lower_def
      is_ascii_uppercase_def less_eq_char_def)

lemma prioritize_file: "prioritize (\<lambda>_. None) selection_default file_plan = Inr file_plan"
  by (simp add: prioritize_def selection_default_def patterns_def file_plan_def)

definition file_target :: catalog_target where
  "file_target = \<lparr>layout = GlobalLayout,
     catalog_url = ''https://cdn/asset/Android/catalog_7_en.bin'',
     hash_url = Some ''https://cdn/asset/Android/catalog_7_en.hash'',
     bundle_base_url = ''https://cdn/asset/Android'',
     remote_placeholder = Some ''https://dummy.net/asset/Android'', target_authorization = Anonymous\<rparr>"

lemma file_target: "snapshot_target example_response example_config 5000000 = Inr file_target"
  by (simp add: snapshot_target_def snapshot_rejected_def example_defs num_milliseconds_def
      schema_matches_def explicit_fields_def platform_of_def default_platform_def
      protocol_version_of_def region_protocol_version_def component_def ascii_defs
      for_region_def family_def lower_hex32_def layout_urls_def catalog_stem_def expected_ref_def
      Let_def file_target_def GLOBAL_REMOTE_PLACEHOLDER_def)

definition file_libraries :: libraries where
  "file_libraries = \<lparr>lib_crypto = example_crypto, lib_json = example_json, lib_regex = (\<lambda>_. None),
     lib_encode_catalog = (\<lambda>_. [])\<rparr>"

definition file_world :: assets_world where
  "file_world = \<lparr>da_read_ok = True, da_now = 5000000, da_env = (\<lambda>_. None),
     da_loop = \<lparr>lw_due = (\<lambda>_. False), lw_revalidate = (\<lambda>_. Inr ())\<rparr>,
     da_files = (\<lambda>_. example_asset_world), da_locations_ok = True, da_final = Inr ()\<rparr>"

definition empty_stage :: stage where
  "empty_stage = \<lparr>staged_files = (\<lambda>_. None), stage_cache = None\<rparr>"

definition file_receipt :: asset_receipt where
  "file_receipt = \<lparr>ar_path = ''a'', ar_provider = Cri, ar_bytes = 3,
     ar_downloaded = map char_of_byte [3, 2, 1], ar_stored = map char_of_byte [3, 2, 1],
     ar_decrypted = False\<rparr>"

definition file_update :: update_receipt where
  "file_update = \<lparr>up_selection = selection_default, up_cache_hits = 0, up_assets = [file_receipt],
     up_embedded = 0, up_logical = 0, up_total = 3\<rparr>"

lemma file_plan_update:
  "update_plan (\<lambda>_. None) example_response example_config file_target selection_default 5000000 file_bytes
     = Inr (file_catalog, file_plan)"
  by (simp add: update_plan_def parse_file file_target select_file plan_file_catalog prioritize_file)

lemma file_worker:
  assumes "ue_crypto env = example_crypto" "ue_key env = None" "ue_retry env = retry_default"
    "ue_world env = (\<lambda>_. example_asset_world)"
  shows "asset_worker env 100 \<lparr>relative_path = ''a'', provider = Cri, asset_locations = [36]\<rparr> empty_stage
    = (Inr (file_receipt, False), \<lparr>staged_files = (\<lambda>_. None)(''a'' := Some [1, 2, 3]), stage_cache = None\<rparr>)"
  using fetch_example assms
  by (simp add: asset_worker_def example_asset_world_def try_restore_def empty_stage_def
      finish_asset_def decrypt_and_hash_def set_file_def file_receipt_def Let_def)

lemma example_network_retry: "asset_retry (cfg_network example_config) = retry_default"
  by (simp add: example_config_def network_default_def)

lemma file_download:
  "download_assets file_libraries file_world example_response example_config file_target
     example_asset_config file_bytes empty_stage
   = Some (Inr (file_update, []),
       \<lparr>staged_files = (\<lambda>_. None)(''a'' := Some [1, 2, 3]), stage_cache = None\<rparr>)"
proof -
  let ?env = "update_environment file_libraries file_world example_config file_target None file_bytes"
  have w: "asset_worker ?env 100 \<lparr>relative_path = ''a'', provider = Cri, asset_locations = [36]\<rparr> empty_stage
    = (Inr (file_receipt, False), \<lparr>staged_files = (\<lambda>_. None)(''a'' := Some [1, 2, 3]), stage_cache = None\<rparr>)"
    by (rule file_worker) (simp_all add: update_environment_def file_libraries_def file_world_def
        example_network_retry)
  have "update_loop ?env example_asset_config \<lparr>lw_due = (\<lambda>_. False), lw_revalidate = (\<lambda>_. Inr ())\<rparr>
      (assets file_plan) (loop_start empty_stage)
    = Some (Inr (), \<lparr>lp_next = 1, lp_receipts = [file_receipt], lp_total = 3, lp_hits = 0,
        lp_stage = \<lparr>staged_files = (\<lambda>_. None)(''a'' := Some [1, 2, 3]), stage_cache = None\<rparr>\<rparr>)"
    by (subst update_loop.simps, subst update_loop.simps)
      (simp add: loop_start_def file_plan_def update_step_def worker_count_def file_limit_def
        example_asset_config_def w Let_def file_receipt_def)
  then show ?thesis
    by (simp add: download_assets_def file_plan_update file_world_def file_libraries_def
        example_asset_config_def decrypt_key_def file_update_def file_plan_def)
qed

subsection \<open>The whole update is right\<close>

lemma update_plan_Inr:
  assumes "update_plan rx resp c target sel now bs = Inr (cat, pl)"
  obtains chosen pl0 where "parse bs = Inr cat" "snapshot_target resp c now = Inr target"
    "select_catalog rx sel cat = Inr chosen"
    "plan_with (bundle_base_url target) (remote_placeholder target) chosen = Inr pl0"
    "prioritize rx sel pl0 = Inr pl"
  using assms by (auto simp: update_plan_def result_simps)

lemma download_assets_Inr:
  assumes "asset_config_validate rx ac = Inr u" and "stream_lengths (lib_crypto lib)"
    and "download_assets lib w resp c target ac bs st = Some (Inr (upd, loc), st')"
  obtains cat pl t key where
    "update_plan (lib_regex lib) resp c target (asset_config.selection ac) (da_now w) bs = Inr (cat, pl)"
    "loop_inv (update_environment lib w c target key bs) ac (assets pl) t" "lp_next t = length (assets pl)"
    "lp_stage t = st'" "da_final w = Inr ()" "loc = lib_encode_catalog lib cat"
    "upd = \<lparr>up_selection = asset_config.selection ac, up_cache_hits = lp_hits t,
       up_assets = lp_receipts t, up_embedded = embedded_locations pl,
       up_logical = logical_locations pl, up_total = lp_total t\<rparr>"
    "stage_cache st = None \<Longrightarrow> stage_cache st' = None"
proof -
  from assms(3) obtain cat pl where p:
    "update_plan (lib_regex lib) resp c target (asset_config.selection ac) (da_now w) bs = Inr (cat, pl)"
    by (auto simp: download_assets_def split: if_splits sum.splits)
  with assms(3) obtain key where k: "decrypt_key (lib_crypto lib) (da_env w) (decrypt ac) = Inr key"
    by (auto simp: download_assets_def split: if_splits sum.splits)
  let ?env = "update_environment lib w c target key bs"
  obtain chosen pl0 where d: "plan_with (bundle_base_url target) (remote_placeholder target) chosen = Inr pl0"
    "prioritize (lib_regex lib) (asset_config.selection ac) pl0 = Inr pl"
    using update_plan_Inr [OF p] by blast
  note b = asset_config_bounds [OF assms(1)]
  have pos: "0 < max_file_bytes ac" using b(3) by simp
  have str: "stream_lengths (ue_crypto ?env)" using assms(2) by (simp add: update_environment_def)
  obtain res t where t: "update_loop ?env ac (da_loop w) (assets pl) (loop_start st) = Some (res, t)"
    "res = Inr () \<longrightarrow> loop_inv ?env ac (assets pl) t \<and> lp_next t = length (assets pl)
       \<and> (stage_cache (lp_stage (loop_start st)) = None \<longrightarrow> stage_cache (lp_stage t) = None)"
    using update_loop_returns [OF loop_start_inv str prioritized_distinct [OF d] b(1) pos] by blast
  from assms(3) p k t(1) have r: "res = Inr ()"
    by (cases res) (auto simp: download_assets_def split: if_splits)
  from assms(3) p k t(1) r have f: "lp_stage t = st'" "da_final w = Inr ()" "loc = lib_encode_catalog lib cat"
    "upd = \<lparr>up_selection = asset_config.selection ac, up_cache_hits = lp_hits t,
       up_assets = lp_receipts t, up_embedded = embedded_locations pl,
       up_logical = logical_locations pl, up_total = lp_total t\<rparr>"
    by (auto simp: download_assets_def result_simps split: if_splits)
  show thesis
    by (rule that [OF p _ _ f]) (use t(2) r f(1) in \<open>auto simp: loop_start_def\<close>)
qed

text \<open>C2. A finished update has everything it planned: the receipt lists exactly the assets of the
  plan, in plan order, with their providers; each entry's size and stored hash are those of the file
  staged under its path, within the file limit; the total is the sum and within the total budget; and
  the version was still the pinned one at the end.\<close>

theorem update_receipt_describes_stage:
  assumes "asset_config_validate rx ac = Inr u" and "stream_lengths (lib_crypto lib)"
    and "download_assets lib w resp c target ac bs st = Some (Inr (upd, loc), st')"
  shows "\<exists>cat pl.
      update_plan (lib_regex lib) resp c target (asset_config.selection ac) (da_now w) bs = Inr (cat, pl)
    \<and> map ar_path (up_assets upd) = map relative_path (assets pl)
    \<and> map ar_provider (up_assets upd) = map provider (assets pl)
    \<and> (\<forall>r \<in> set (up_assets upd). \<exists>out. staged_files st' (ar_path r) = Some out
        \<and> receipt_matches (lib_crypto lib) r out \<and> ar_bytes r \<le> max_file_bytes ac)
    \<and> up_total upd = sum_list (map ar_bytes (up_assets upd)) \<and> up_total upd \<le> max_total_bytes ac
    \<and> loc = lib_encode_catalog lib cat \<and> da_final w = Inr ()"
proof (rule download_assets_Inr [OF assms])
  fix cat pl t key
  assume p: "update_plan (lib_regex lib) resp c target (asset_config.selection ac) (da_now w) bs = Inr (cat, pl)"
    and i: "loop_inv (update_environment lib w c target key bs) ac (assets pl) t"
      "lp_next t = length (assets pl)" "lp_stage t = st'"
    and e: "da_final w = Inr ()" "loc = lib_encode_catalog lib cat"
    and u: "upd = \<lparr>up_selection = asset_config.selection ac, up_cache_hits = lp_hits t,
       up_assets = lp_receipts t, up_embedded = embedded_locations pl,
       up_logical = logical_locations pl, up_total = lp_total t\<rparr>"
  have "ue_crypto (update_environment lib w c target key bs) = lib_crypto lib"
    by (simp add: update_environment_def)
  with i have "\<forall>r \<in> set (lp_receipts t). \<exists>out. staged_files st' (ar_path r) = Some out
      \<and> receipt_matches (lib_crypto lib) r out \<and> ar_bytes r \<le> max_file_bytes ac"
    by (auto simp: loop_inv_def receipt_staged_def)
  moreover have "map ar_path (lp_receipts t) = map relative_path (assets pl)"
    "map ar_provider (lp_receipts t) = map provider (assets pl)"
    "lp_total t = sum_list (map ar_bytes (lp_receipts t))" "lp_total t \<le> max_total_bytes ac"
    using i(1,2) by (simp_all add: loop_inv_def)
  ultimately show ?thesis using p e u by auto
qed

theorem update_receipt_describes_stage_witness:
  "map ar_path (up_assets file_update) = [''a''] \<and> up_total file_update \<le> 1000
   \<and> (\<exists>out. ((\<lambda>_. None)(''a'' := Some [1, 2, 3])) ''a'' = Some out \<and> receipt_matches example_crypto file_receipt out)"
proof -
  have s: "stream_lengths (lib_crypto file_libraries)"
    by (simp add: file_libraries_def example_stream)
  from update_receipt_describes_stage [OF example_asset_config_valid s file_download] show ?thesis
    by (auto simp: file_update_def example_asset_config_def file_libraries_def file_receipt_def)
qed

end
