(* ===== verification/Verify.thy ===== *)
theory Verify
  imports Update_Run "HOL-Library.AList"
begin

text \<open>
  Offline verification of a published directory (\<open>src/verify.rs\<close>): receipt, catalog, plan, location
  graph and every asset are read back and compared. The directory is a tree; symbolic links are never
  followed. JSON decoding and read failures are arguments.
\<close>

record verification =
  full_catalog :: bool
  catalog_remote_files :: nat
  catalog_verified :: bool
  ver_region :: region
  ver_platform :: string
  ver_environment :: string
  ver_resource_version :: string
  ver_platform_hash :: string
  ver_catalog_sha256 :: string
  asset_files_verified :: nat
  asset_bytes_verified :: nat
  planned_remote_files :: nat
  ver_embedded_locations :: nat
  decrypted_bundles :: nat

text \<open>What verification calls: the libraries and the JSON of receipts; \<open>readable\<close> says whether the
  file system lets a file be read.\<close>

record verifier =
  vf_lib :: libraries
  vf_decode_receipt :: "byte list \<Rightarrow> update_receipt receipt option"
  vf_readable :: "string \<Rightarrow> bool"

subsection \<open>Files\<close>

text \<open>\<open>file\<close>: every component but the last must be a directory, the last a regular file.\<close>

fun locate_file :: "node \<Rightarrow> string list \<Rightarrow> byte list option" where
  "locate_file n [] = None"
| "locate_file n [p] = (case entry n p of Some (FileNode b) \<Rightarrow> Some b | _ \<Rightarrow> None)"
| "locate_file n (p # q # ps) = (case entry n p of
      Some (DirNode es) \<Rightarrow> locate_file (DirNode es) (q # ps)
    | _ \<Rightarrow> None)"

definition verify_file :: "verifier \<Rightarrow> node \<Rightarrow> string \<Rightarrow> error + byte list" where
  "verify_file vf dir rel =
     and_then (fail_if (\<not> safe_relative rel) error.Verification) (\<lambda>_.
     and_then (ok_or error.Verification (locate_file dir (split_on (CHR ''/'') rel))) (\<lambda>b.
     and_then (fail_if (\<not> vf_readable vf rel) error.Verification) (\<lambda>_. Inr b)))"

definition verify_read :: "verifier \<Rightarrow> node \<Rightarrow> string \<Rightarrow> nat \<Rightarrow> error + byte list" where
  "verify_read vf dir rel limit =
     and_then (verify_file vf dir rel) (\<lambda>b.
     and_then (fail_if (limit < length (take (limit + 1) b)) error.Verification) (\<lambda>_.
     Inr (take (limit + 1) b)))"

text \<open>The reading loop of \<open>hash\<close>: count, prefix and the bytes hashed.\<close>

fun hash_loop :: "nat \<Rightarrow> byte list list \<Rightarrow> nat \<Rightarrow> byte list \<Rightarrow> byte list \<Rightarrow> error + (nat \<times> byte list \<times> byte list)" where
  "hash_loop expected [] cnt head acc = Inr (cnt, head, acc)"
| "hash_loop expected (c # cs) cnt head acc =
     (let cnt' = cnt + length c in
      if expected < cnt' then Inl error.Verification
      else hash_loop expected cs cnt' (head @ take (8 - length head) c) (acc @ c))"

definition hash_file :: "verifier \<Rightarrow> node \<Rightarrow> string \<Rightarrow> nat \<Rightarrow> error + (string \<times> byte list)" where
  "hash_file vf dir rel expected =
     (let cr = lib_crypto (vf_lib vf) in
      and_then (verify_file vf dir rel) (\<lambda>b.
      and_then (fail_if (length b \<noteq> expected) error.Verification) (\<lambda>_.
      and_then (hash_loop expected (pieces BUFFER b) 0 [] []) (\<lambda>(cnt, head, acc).
      and_then (fail_if (cnt \<noteq> expected) error.Verification) (\<lambda>_.
      Inr (hex_encode cr (sha256 cr acc), head))))))"

subsection \<open>The assets of a receipt\<close>

record verify_state =
  vs_expected :: "(string \<times> provider) list"
  vs_bytes :: nat
  vs_files :: nat
  vs_decrypted :: nat

definition asset_file_path :: "string \<Rightarrow> string" where
  "asset_file_path rel = ''assets/'' @ rel"

definition verify_asset :: "verifier \<Rightarrow> node \<Rightarrow> verify_state \<Rightarrow> asset_receipt \<Rightarrow> error + verify_state" where
  "verify_asset vf dir s r =
     and_then (fail_if (map_of (vs_expected s) (ar_path r) \<noteq> Some (ar_provider r)
         \<or> ar_bytes r = 0
         \<or> 2 * 1024 * 1024 * 1024 < ar_bytes r
         \<or> (ar_decrypted r \<and> ar_provider r \<noteq> EncryptedBundle)
         \<or> (\<not> ar_decrypted r \<and> ar_stored r \<noteq> ar_downloaded r)) error.Verification) (\<lambda>_.
     and_then (hash_file vf dir (asset_file_path (ar_path r)) (ar_bytes r)) (\<lambda>(actual, head).
     and_then (fail_if (actual \<noteq> ar_stored r
         \<or> ((ar_decrypted r \<or> ar_provider r = UnityBundle) \<and> head \<noteq> UNITY_MAGIC)) error.Verification) (\<lambda>_.
     (let sum_bytes = vs_bytes s + ar_bytes r in
      and_then (fail_if (2 ^ 64 \<le> sum_bytes) error.Verification) (\<lambda>_.
      and_then (fail_if (128 * 1024 * 1024 * 1024 < sum_bytes) error.Verification) (\<lambda>_.
      Inr \<lparr>vs_expected = AList.delete (ar_path r) (vs_expected s), vs_bytes = sum_bytes,
           vs_files = vs_files s + 1,
           vs_decrypted = vs_decrypted s + (if ar_decrypted r then 1 else 0)\<rparr>))))))"

fun verify_assets :: "verifier \<Rightarrow> node \<Rightarrow> verify_state \<Rightarrow> asset_receipt list \<Rightarrow> error + verify_state" where
  "verify_assets vf dir s [] = Inr s"
| "verify_assets vf dir s (r # rs) = and_then (verify_asset vf dir s r) (\<lambda>t. verify_assets vf dir t rs)"

definition verify_graph :: "verifier \<Rightarrow> node \<Rightarrow> catalog \<Rightarrow> error + unit" where
  "verify_graph vf dir cat =
     (let cr = lib_crypto (vf_lib vf); graph = lib_encode_catalog (vf_lib vf) cat in
      and_then (hash_file vf dir ''locations.json'' (length graph)) (\<lambda>(actual, _).
      fail_if (actual \<noteq> hex_encode cr (sha256 cr graph)) error.Verification))"

definition verify_update :: "verifier \<Rightarrow> node \<Rightarrow> catalog \<Rightarrow> plan \<Rightarrow> update_receipt \<Rightarrow> error + verify_state" where
  "verify_update vf dir cat pl u =
     and_then (fail_if (length (up_assets u) \<noteq> length (assets pl)
         \<or> up_embedded u \<noteq> embedded_locations pl
         \<or> up_logical u \<noteq> logical_locations pl) error.Verification) (\<lambda>_.
     and_then (verify_graph vf dir cat) (\<lambda>_.
     and_then (verify_assets vf dir
         \<lparr>vs_expected = bt_of_list (map (\<lambda>a. (relative_path a, provider a)) (assets pl)),
          vs_bytes = 0, vs_files = 0, vs_decrypted = 0\<rparr> (up_assets u)) (\<lambda>s.
     and_then (fail_if (vs_bytes s \<noteq> up_total u) error.Verification) (\<lambda>_. Inr s))))"

definition verify_start :: verify_state where
  "verify_start = \<lparr>vs_expected = [], vs_bytes = 0, vs_files = 0, vs_decrypted = 0\<rparr>"

definition verify :: "verifier \<Rightarrow> node \<Rightarrow> error + verification" where
  "verify vf dir =
     (let cr = lib_crypto (vf_lib vf) in
      and_then (verify_read vf dir ''receipt.json'' (64 * 1024 * 1024)) (\<lambda>text_bytes.
      and_then (ok_or error.Verification (vf_decode_receipt vf text_bytes)) (\<lambda>rc.
      and_then (region_identity (rcpt_snapshot rc)) (\<lambda>rg.
      and_then (verify_read vf dir ''catalog_main.bin'' (64 * 1024 * 1024)) (\<lambda>bs.
      and_then (fail_if (length bs \<noteq> rcpt_bytes rc
          \<or> hex_encode cr (sha256 cr bs) \<noteq> rcpt_sha256 rc) error.Verification) (\<lambda>_.
      and_then (parse bs) (\<lambda>cat.
      and_then (remote rc) (\<lambda>(rd, ph).
      and_then (plan_with rd ph cat) (\<lambda>full_plan.
      (let sel = (case rcpt_update rc of None \<Rightarrow> selection_default | Some u \<Rightarrow> up_selection u) in
      and_then (select_catalog (lib_regex (vf_lib vf)) sel cat) (\<lambda>chosen.
      and_then (plan_with rd ph chosen) (\<lambda>pl.
      and_then (case rcpt_update rc of
          None \<Rightarrow> Inr verify_start
        | Some u \<Rightarrow> verify_update vf dir cat pl u) (\<lambda>s.
      Inr \<lparr>full_catalog = (rcpt_update rc \<noteq> None
              \<and> length (locations chosen) = length (locations cat)),
           catalog_remote_files = length (assets full_plan), catalog_verified = True,
           ver_region = rg, ver_platform = snap_platform (rcpt_snapshot rc),
           ver_environment = snap_environment (rcpt_snapshot rc),
           ver_resource_version = snap_resource_version (rcpt_snapshot rc),
           ver_platform_hash = snap_platform_hash (rcpt_snapshot rc),
           ver_catalog_sha256 = rcpt_sha256 rc, asset_files_verified = vs_files s,
           asset_bytes_verified = vs_bytes s, planned_remote_files = length (assets pl),
           ver_embedded_locations = embedded_locations pl,
           decrypted_bundles = vs_decrypted s\<rparr>)))))))))))))"

subsection \<open>Checks as statements\<close>

lemma hash_loop_eq:
  "cnt = length acc \<Longrightarrow> head = take 8 acc \<Longrightarrow> length acc + length (concat cs) \<le> expected \<Longrightarrow>
     hash_loop expected cs cnt head acc
       = Inr (length (acc @ concat cs), take 8 (acc @ concat cs), acc @ concat cs)"
proof (induction expected cs cnt head acc rule: hash_loop.induct)
  case (2 expected c cs cnt head acc)
  have "8 - min (length acc) 8 = 8 - length acc" by simp
  with 2 show ?case by (simp add: Let_def)
qed simp

lemma hash_file_Inr:
  "hash_file vf dir rel n = Inr (h, p) \<longleftrightarrow> (\<exists>b. verify_file vf dir rel = Inr b \<and> length b = n
     \<and> h = hex_encode (lib_crypto (vf_lib vf)) (sha256 (lib_crypto (vf_lib vf)) b) \<and> p = take 8 b)"
proof -
  have "hash_loop (length b) (pieces BUFFER b) 0 [] [] = Inr (length b, take 8 b, b)" for b
    using hash_loop_eq [of 0 "[]" "[]" "pieces BUFFER b" "length b"] by simp
  then show ?thesis by (auto simp: hash_file_def Let_def result_simps)
qed

lemma starts_with_magic: "starts_with b UNITY_MAGIC \<longleftrightarrow> take 8 b = UNITY_MAGIC"
  by (simp add: starts_with_def)

text \<open>What verification establishes about one asset.\<close>

definition asset_present :: "verifier \<Rightarrow> node \<Rightarrow> asset_receipt \<Rightarrow> bool" where
  "asset_present vf dir r \<longleftrightarrow> ar_bytes r \<le> 2 * 1024 * 1024 * 1024
     \<and> (\<exists>b. verify_file vf dir (asset_file_path (ar_path r)) = Inr b
          \<and> receipt_matches (lib_crypto (vf_lib vf)) r b
          \<and> (ar_provider r = UnityBundle \<longrightarrow> starts_with b UNITY_MAGIC))"

lemma verify_asset_iff:
  "verify_asset vf dir s r = Inr t \<longleftrightarrow> map_of (vs_expected s) (ar_path r) = Some (ar_provider r)
     \<and> asset_present vf dir r \<and> vs_bytes s + ar_bytes r \<le> 128 * 1024 * 1024 * 1024
     \<and> t = \<lparr>vs_expected = AList.delete (ar_path r) (vs_expected s), vs_bytes = vs_bytes s + ar_bytes r,
           vs_files = vs_files s + 1,
           vs_decrypted = vs_decrypted s + (if ar_decrypted r then 1 else 0)\<rparr>"
  by (auto simp: verify_asset_def Let_def result_simps hash_file_Inr asset_present_def
      receipt_matches_def starts_with_magic)

lemma verify_assets_Inr:
  assumes "verify_assets vf dir s rs = Inr t"
  shows "distinct (map ar_path rs)
    \<and> (\<forall>r \<in> set rs. map_of (vs_expected s) (ar_path r) = Some (ar_provider r) \<and> asset_present vf dir r)
    \<and> vs_bytes t = vs_bytes s + sum_list (map ar_bytes rs) \<and> vs_files t = vs_files s + length rs"
  using assms
proof (induction vf dir s rs rule: verify_assets.induct)
  case (2 vf dir s r rs)
  then obtain s1 where s1: "verify_asset vf dir s r = Inr s1" "verify_assets vf dir s1 rs = Inr t"
    by (auto simp: result_simps)
  from s1(1) have r: "map_of (vs_expected s) (ar_path r) = Some (ar_provider r)" "asset_present vf dir r"
    "s1 = \<lparr>vs_expected = AList.delete (ar_path r) (vs_expected s), vs_bytes = vs_bytes s + ar_bytes r,
           vs_files = vs_files s + 1,
           vs_decrypted = vs_decrypted s + (if ar_decrypted r then 1 else 0)\<rparr>"
    by (simp_all add: verify_asset_iff)
  have m: "map_of (vs_expected s1) = (map_of (vs_expected s))(ar_path r := None)"
    using r(3) by (simp add: delete_conv')
  note IH = "2.IH" [OF s1]
  have "ar_path x \<noteq> ar_path r \<and> map_of (vs_expected s) (ar_path x) = Some (ar_provider x)
      \<and> asset_present vf dir x" if "x \<in> set rs" for x
    using IH that m by (auto split: if_splits)
  then have "ar_path r \<notin> ar_path ` set rs"
    "\<forall>x \<in> set rs. map_of (vs_expected s) (ar_path x) = Some (ar_provider x) \<and> asset_present vf dir x"
    by (metis imageE, blast)
  with IH r show ?case by simp
qed simp

lemma verify_assets_complete:
  assumes "distinct (map ar_path rs)"
    and "\<And>r. r \<in> set rs \<Longrightarrow> map_of (vs_expected s) (ar_path r) = Some (ar_provider r) \<and> asset_present vf dir r"
    and "vs_bytes s + sum_list (map ar_bytes rs) \<le> 128 * 1024 * 1024 * 1024"
  shows "\<exists>t. verify_assets vf dir s rs = Inr t \<and> vs_bytes t = vs_bytes s + sum_list (map ar_bytes rs)"
  using assms
proof (induction rs arbitrary: s)
  case (Cons r rs)
  let ?s = "\<lparr>vs_expected = AList.delete (ar_path r) (vs_expected s), vs_bytes = vs_bytes s + ar_bytes r,
           vs_files = vs_files s + 1,
           vs_decrypted = vs_decrypted s + (if ar_decrypted r then 1 else 0)\<rparr>"
  have step: "verify_asset vf dir s r = Inr ?s"
    using Cons.prems by (simp add: verify_asset_iff)
  have "\<exists>t. verify_assets vf dir ?s rs = Inr t \<and> vs_bytes t = vs_bytes ?s + sum_list (map ar_bytes rs)"
  proof (rule Cons.IH)
    fix x
    assume x: "x \<in> set rs"
    with Cons.prems(1) have "ar_path x \<noteq> ar_path r" by (metis distinct.simps(2) image_eqI list.map(2) list.set_map)
    with Cons.prems(2) [of x] x
    show "map_of (vs_expected ?s) (ar_path x) = Some (ar_provider x) \<and> asset_present vf dir x"
      by (simp add: delete_conv')
  qed (use Cons.prems in auto)
  with step show ?case by (auto simp: add.assoc)
qed simp

subsection \<open>Expected files\<close>

lemma expected_lookup:
  assumes "distinct (map relative_path as)"
  shows "map_of (bt_of_list (map (\<lambda>a. (relative_path a, provider a)) as)) p = Some v
     \<longleftrightarrow> (\<exists>a \<in> set as. relative_path a = p \<and> provider a = v)"
proof -
  have "distinct (map fst (rev (map (\<lambda>a. (relative_path a, provider a)) as)))"
    using assms by (simp add: rev_map [symmetric] comp_def)
  then have "map_of (rev (map (\<lambda>a. (relative_path a, provider a)) as)) p = Some v
     \<longleftrightarrow> (p, v) \<in> set (map (\<lambda>a. (relative_path a, provider a)) as)"
    by (subst map_of_eq_Some_iff) simp_all
  then show ?thesis by (auto simp: map_of_bt_of_list)
qed

lemma verify_update_Inr:
  assumes "verify_update vf dir cat pl u = Inr s" and "distinct (map relative_path (assets pl))"
  shows "(\<forall>a \<in> set (assets pl). \<exists>r \<in> set (up_assets u). ar_path r = relative_path a
        \<and> ar_provider r = provider a \<and> asset_present vf dir r)
    \<and> length (up_assets u) = length (assets pl) \<and> up_total u = sum_list (map ar_bytes (up_assets u))
    \<and> up_embedded u = embedded_locations pl \<and> up_logical u = logical_locations pl
    \<and> vs_files s = length (assets pl) \<and> vs_bytes s = up_total u"
proof -
  from assms(1) have l: "length (up_assets u) = length (assets pl)"
    "up_embedded u = embedded_locations pl" "up_logical u = logical_locations pl"
    and v: "verify_assets vf dir
         \<lparr>vs_expected = bt_of_list (map (\<lambda>a. (relative_path a, provider a)) (assets pl)),
          vs_bytes = 0, vs_files = 0, vs_decrypted = 0\<rparr> (up_assets u) = Inr s"
    and b: "vs_bytes s = up_total u"
    by (auto simp: verify_update_def result_simps)
  note R = verify_assets_Inr [OF v, simplified]
  have each: "\<exists>a \<in> set (assets pl). relative_path a = ar_path r \<and> provider a = ar_provider r"
    if "r \<in> set (up_assets u)" for r
    using R that expected_lookup [OF assms(2)] by blast
  then have "set (map ar_path (up_assets u)) \<subseteq> set (map relative_path (assets pl))"
    by auto (metis image_eqI)
  moreover have "card (set (map ar_path (up_assets u))) = card (set (map relative_path (assets pl)))"
    using R l(1) assms(2) by (metis distinct_card length_map)
  ultimately have eq: "set (map ar_path (up_assets u)) = set (map relative_path (assets pl))"
    by (intro card_subset_eq) simp_all
  have "\<exists>r \<in> set (up_assets u). ar_path r = relative_path a \<and> ar_provider r = provider a \<and> asset_present vf dir r"
    if a: "a \<in> set (assets pl)" for a
  proof -
    from a eq obtain r where r: "r \<in> set (up_assets u)" "ar_path r = relative_path a"
      by (metis (mono_tags) image_iff image_set)
    from each [OF r(1)] obtain b where b: "b \<in> set (assets pl)" "relative_path b = ar_path r"
      "provider b = ar_provider r" by blast
    with a r(2) assms(2) have "b = a" by (simp add: distinct_map inj_on_def)
    with r b R show ?thesis by auto
  qed
  with l b R show ?thesis by simp
qed

subsection \<open>Properties\<close>

lemma verify_Inr:
  assumes "verify vf dir = Inr v"
  obtains tb rc rg bs cat rd ph full_plan chosen pl where
    "verify_read vf dir ''receipt.json'' (64 * 1024 * 1024) = Inr tb" "vf_decode_receipt vf tb = Some rc"
    "region_identity (rcpt_snapshot rc) = Inr rg"
    "verify_read vf dir ''catalog_main.bin'' (64 * 1024 * 1024) = Inr bs"
    "length bs = rcpt_bytes rc"
    "hex_encode (lib_crypto (vf_lib vf)) (sha256 (lib_crypto (vf_lib vf)) bs) = rcpt_sha256 rc"
    "parse bs = Inr cat" "remote rc = Inr (rd, ph)" "plan_with rd ph cat = Inr full_plan"
    "select_catalog (lib_regex (vf_lib vf))
       (case rcpt_update rc of None \<Rightarrow> selection_default | Some u \<Rightarrow> up_selection u) cat = Inr chosen"
    "plan_with rd ph chosen = Inr pl"
    "\<And>u. rcpt_update rc = Some u \<Longrightarrow> \<exists>s. verify_update vf dir cat pl u = Inr s
       \<and> asset_files_verified v = vs_files s \<and> asset_bytes_verified v = vs_bytes s"
    "ver_region v = rg" "planned_remote_files v = length (assets pl)"
proof -
  from assms obtain tb rc rg bs cat rd ph full_plan chosen pl s where p:
    "verify_read vf dir ''receipt.json'' (64 * 1024 * 1024) = Inr tb" "vf_decode_receipt vf tb = Some rc"
    "region_identity (rcpt_snapshot rc) = Inr rg"
    "verify_read vf dir ''catalog_main.bin'' (64 * 1024 * 1024) = Inr bs"
    "length bs = rcpt_bytes rc"
    "hex_encode (lib_crypto (vf_lib vf)) (sha256 (lib_crypto (vf_lib vf)) bs) = rcpt_sha256 rc"
    "parse bs = Inr cat" "remote rc = Inr (rd, ph)" "plan_with rd ph cat = Inr full_plan"
    "select_catalog (lib_regex (vf_lib vf))
       (case rcpt_update rc of None \<Rightarrow> selection_default | Some u \<Rightarrow> up_selection u) cat = Inr chosen"
    "plan_with rd ph chosen = Inr pl"
    and s: "(case rcpt_update rc of None \<Rightarrow> Inr verify_start | Some u \<Rightarrow> verify_update vf dir cat pl u) = Inr s"
    and v: "asset_files_verified v = vs_files s" "asset_bytes_verified v = vs_bytes s"
      "ver_region v = rg" "planned_remote_files v = length (assets pl)"
    by (auto simp: verify_def Let_def result_simps simp del: option.case)
  have "\<exists>s. verify_update vf dir cat pl u = Inr s
       \<and> asset_files_verified v = vs_files s \<and> asset_bytes_verified v = vs_bytes s"
    if "rcpt_update rc = Some u" for u using s that v by simp
  with that [OF p] v(3,4) show thesis by blast
qed

lemma verify_file_Inr:
  "verify_file vf dir rel = Inr b \<longleftrightarrow> safe_relative rel \<and> vf_readable vf rel
     \<and> locate_file dir (split_on (CHR ''/'') rel) = Some b"
  by (auto simp: verify_file_def result_simps)

lemma verify_read_Inr:
  assumes "verify_read vf dir rel limit = Inr bs"
  shows "locate_file dir (split_on (CHR ''/'') rel) = Some bs"
  using assms by (auto simp: verify_read_def result_simps verify_file_Inr min_def split: if_splits)

lemma asset_file_split: "split_on (CHR ''/'') (asset_file_path rel) = ''assets'' # split_on (CHR ''/'') rel"
  using split_on_append [of "CHR ''/''" "''assets''" rel]
  by (simp add: asset_file_path_def split_on_free)

lemma verify_asset_file_Inr:
  "verify_file vf dir (asset_file_path rel) = Inr b
     \<Longrightarrow> locate_file dir (''assets'' # split_on (CHR ''/'') rel) = Some b"
  by (simp add: verify_file_Inr asset_file_split)

text \<open>C3. Verification is sound: a directory that passes holds the catalog its receipt names, bit for
  bit, and, when the receipt records an update, every file that the recorded selection of that catalog
  plans, as a regular file reached without following a link, of the recorded size and hash; decrypted
  and Unity bundles start with the bundle magic, and the totals are those of the files.\<close>

theorem verify_sound:
  assumes "verify vf dir = Inr v"
  shows "\<exists>rc bs cat rd ph chosen pl. vf_decode_receipt vf
        (the (locate_file dir [''receipt.json''])) = Some rc
    \<and> locate_file dir [''catalog_main.bin''] = Some bs
    \<and> rcpt_sha256 rc = hex_encode (lib_crypto (vf_lib vf)) (sha256 (lib_crypto (vf_lib vf)) bs)
    \<and> parse bs = Inr cat \<and> remote rc = Inr (rd, ph)
    \<and> (\<forall>u. rcpt_update rc = Some u \<longrightarrow>
        select_catalog (lib_regex (vf_lib vf)) (up_selection u) cat = Inr chosen
        \<and> plan_with rd ph chosen = Inr pl
        \<and> (\<forall>a \<in> set (assets pl). \<exists>r \<in> set (up_assets u). \<exists>b.
             ar_path r = relative_path a \<and> ar_provider r = provider a
             \<and> locate_file dir (''assets'' # split_on (CHR ''/'') (relative_path a)) = Some b
             \<and> receipt_matches (lib_crypto (vf_lib vf)) r b
             \<and> (provider a = UnityBundle \<longrightarrow> starts_with b UNITY_MAGIC))
        \<and> asset_files_verified v = length (assets pl)
        \<and> asset_bytes_verified v = sum_list (map ar_bytes (up_assets u)))"
proof (rule verify_Inr [OF assms])
  fix tb rc rg bs cat rd ph full_plan chosen pl
  assume rt: "verify_read vf dir ''receipt.json'' (64 * 1024 * 1024) = Inr tb" "vf_decode_receipt vf tb = Some rc"
    and cb: "verify_read vf dir ''catalog_main.bin'' (64 * 1024 * 1024) = Inr bs"
    and h: "hex_encode (lib_crypto (vf_lib vf)) (sha256 (lib_crypto (vf_lib vf)) bs) = rcpt_sha256 rc"
    and cat: "parse bs = Inr cat" and rem: "remote rc = Inr (rd, ph)"
    and sel: "select_catalog (lib_regex (vf_lib vf))
       (case rcpt_update rc of None \<Rightarrow> selection_default | Some u \<Rightarrow> up_selection u) cat = Inr chosen"
    and pl: "plan_with rd ph chosen = Inr pl"
    and up: "\<And>u. rcpt_update rc = Some u \<Longrightarrow> \<exists>s. verify_update vf dir cat pl u = Inr s
       \<and> asset_files_verified v = vs_files s \<and> asset_bytes_verified v = vs_bytes s"
  have slash: "split_on (CHR ''/'') ''receipt.json'' = [''receipt.json'']"
    "split_on (CHR ''/'') ''catalog_main.bin'' = [''catalog_main.bin'']" by simp_all
  have files: "locate_file dir [''receipt.json''] = Some tb" "locate_file dir [''catalog_main.bin''] = Some bs"
    using verify_read_Inr [OF rt(1)] verify_read_Inr [OF cb] by (simp_all only: slash)
  have assets_part: "select_catalog (lib_regex (vf_lib vf)) (up_selection u) cat = Inr chosen
        \<and> plan_with rd ph chosen = Inr pl
        \<and> (\<forall>a \<in> set (assets pl). \<exists>r \<in> set (up_assets u). \<exists>b.
             ar_path r = relative_path a \<and> ar_provider r = provider a
             \<and> locate_file dir (''assets'' # split_on (CHR ''/'') (relative_path a)) = Some b
             \<and> receipt_matches (lib_crypto (vf_lib vf)) r b
             \<and> (provider a = UnityBundle \<longrightarrow> starts_with b UNITY_MAGIC))
        \<and> asset_files_verified v = length (assets pl)
        \<and> asset_bytes_verified v = sum_list (map ar_bytes (up_assets u))"
    if u: "rcpt_update rc = Some u" for u
  proof -
    from up [OF u] obtain s where s: "verify_update vf dir cat pl u = Inr s"
      "asset_files_verified v = vs_files s" "asset_bytes_verified v = vs_bytes s" by blast
    note V = verify_update_Inr [OF s(1) plan_paths_distinct [OF pl]]
    have "\<exists>r \<in> set (up_assets u). \<exists>b.
             ar_path r = relative_path a \<and> ar_provider r = provider a
             \<and> locate_file dir (''assets'' # split_on (CHR ''/'') (relative_path a)) = Some b
             \<and> receipt_matches (lib_crypto (vf_lib vf)) r b
             \<and> (provider a = UnityBundle \<longrightarrow> starts_with b UNITY_MAGIC)" if "a \<in> set (assets pl)" for a
    proof -
      from V that obtain r where r: "r \<in> set (up_assets u)" "ar_path r = relative_path a"
        "ar_provider r = provider a" "asset_present vf dir r" by blast
      then obtain b where "verify_file vf dir (asset_file_path (relative_path a)) = Inr b"
        "receipt_matches (lib_crypto (vf_lib vf)) r b"
        "ar_provider r = UnityBundle \<longrightarrow> starts_with b UNITY_MAGIC"
        by (auto simp: asset_present_def)
      with r show ?thesis by (metis verify_asset_file_Inr)
    qed
    with V s sel pl u show ?thesis by simp
  qed
  have "vf_decode_receipt vf (the (locate_file dir [''receipt.json''])) = Some rc"
    using files(1) rt(2) by simp
  with files(2) h [symmetric] cat rem assets_part show ?thesis by blast
qed

subsection \<open>An example directory\<close>

definition published_receipt :: "update_receipt receipt" where
  "published_receipt = make_receipt example_response example_config file_target 134
     (hex_encode example_crypto (sha256 example_crypto file_bytes)) 0 None (Some file_update)"

definition published_dir :: node where
  "published_dir = DirNode [(''receipt.json'', FileNode [0]), (''catalog_main.bin'', FileNode file_bytes),
     (''locations.json'', FileNode []), (''assets'', DirNode [(''a'', FileNode [1, 2, 3])])]"

definition example_verifier :: verifier where
  "example_verifier = \<lparr>vf_lib = file_libraries, vf_decode_receipt = (\<lambda>_. Some published_receipt),
     vf_readable = (\<lambda>_. True)\<rparr>"

lemma published_identity:
  "region_identity (rcpt_snapshot published_receipt) = Inr En"
  "remote published_receipt = Inr (''https://cdn/asset/Android'', Some ''https://dummy.net/asset/Android'')"
  using receipt_roundtrip [OF example_valid file_target, of 134
      "hex_encode example_crypto (sha256 example_crypto file_bytes)" 0 None "Some file_update"]
  by (simp_all add: published_receipt_def file_target_def) (simp add: example_config_def)

lemma published_reads:
  "verify_read example_verifier published_dir ''receipt.json'' (64 * 1024 * 1024) = Inr [0]"
  "verify_read example_verifier published_dir ''catalog_main.bin'' (64 * 1024 * 1024) = Inr file_bytes"
  "verify_file example_verifier published_dir ''locations.json'' = Inr []"
  "verify_file example_verifier published_dir ''assets/a'' = Inr [1, 2, 3]"
  by (simp_all add: verify_read_def verify_file_def example_verifier_def published_dir_def file_slices
      safe_relative_def is_ascii_alphanumeric_def is_ascii_digit_def is_ascii_lowercase_def
      is_ascii_uppercase_def less_eq_char_def)

lemma published_hashes:
  "hash_file example_verifier published_dir ''locations.json'' 0
     = Inr (hex_encode example_crypto (sha256 example_crypto []), [])"
  "hash_file example_verifier published_dir ''assets/a'' 3 = Inr (map char_of_byte [3, 2, 1], [1, 2, 3])"
  using published_reads(3,4)
  by (simp_all add: hash_file_Inr) (simp_all add: example_verifier_def file_libraries_def example_crypto_def)

lemma published_update:
  "verify_update example_verifier published_dir file_catalog file_plan file_update
     = Inr \<lparr>vs_expected = [], vs_bytes = 3, vs_files = 1, vs_decrypted = 0\<rparr>"
  using published_hashes
  by (simp add: verify_update_def verify_graph_def verify_asset_def file_update_def file_plan_def
      file_receipt_def asset_file_path_def bt_of_list_def Let_def)
    (simp add: example_verifier_def file_libraries_def)

lemma published_verified: "\<exists>v. verify example_verifier published_dir = Inr v"
proof -
  have fields: "rcpt_bytes published_receipt = 134"
    "rcpt_sha256 published_receipt = hex_encode example_crypto (sha256 example_crypto file_bytes)"
    "rcpt_update published_receipt = Some file_update" "up_selection file_update = selection_default"
    by (simp_all add: published_receipt_def make_receipt_def file_update_def)
  have env: "vf_decode_receipt example_verifier bs = Some published_receipt"
    "lib_crypto (vf_lib example_verifier) = example_crypto"
    "lib_regex (vf_lib example_verifier) = (\<lambda>_. None)" for bs
    by (simp_all add: example_verifier_def file_libraries_def)
  show ?thesis
    unfolding verify_def
    using published_reads(1,2)
    by (simp add: fields env published_identity parse_file file_slices plan_file_catalog select_file
        published_update Let_def)
qed

theorem verify_sound_witness:
  "\<exists>v r. verify example_verifier published_dir = Inr v \<and> r \<in> set (up_assets file_update)
     \<and> receipt_matches example_crypto r [1, 2, 3]"
proof -
  obtain v where v: "verify example_verifier published_dir = Inr v" using published_verified by blast
  have e: "vf_decode_receipt example_verifier bs = Some published_receipt"
    "rcpt_update published_receipt = Some file_update" "up_selection file_update = selection_default"
    "lib_regex (vf_lib example_verifier) = (\<lambda>_. None)" "lib_crypto (vf_lib example_verifier) = example_crypto"
    "entry published_dir ''catalog_main.bin'' = Some (FileNode file_bytes)"
    "entry published_dir ''assets'' = Some (DirNode [(''a'', FileNode [1, 2, 3])])" for bs
    by (simp_all add: example_verifier_def published_receipt_def make_receipt_def file_update_def
        file_libraries_def published_dir_def)
  from verify_sound [OF v] obtain pl where
    "\<forall>a \<in> set (assets pl). \<exists>r \<in> set (up_assets file_update). \<exists>b.
       locate_file published_dir (''assets'' # split_on (CHR ''/'') (relative_path a)) = Some b
       \<and> receipt_matches example_crypto r b"
    "\<exists>rd ph. plan_with rd ph file_catalog = Inr pl"
    by (auto simp: e parse_file select_file) blast
  then have "\<exists>r \<in> set (up_assets file_update). receipt_matches example_crypto r [1, 2, 3]"
    by (auto simp: plan_file_catalog file_plan_def e)
  with v show ?thesis by blast
qed

subsection \<open>Paths that are planned but cannot be verified\<close>

lemma verified_path_length:
  assumes "asset_present vf dir r"
  shows "length (ar_path r) \<le> 2041"
proof -
  from assms obtain b where "verify_file vf dir (asset_file_path (ar_path r)) = Inr b"
    by (auto simp: asset_present_def)
  then have "safe_relative (asset_file_path (ar_path r))" by (simp add: verify_file_Inr)
  then show ?thesis by (simp add: safe_relative_def asset_file_path_def)
qed

definition long_path :: string where
  "long_path = join_on ''/'' (replicate 8 (replicate 255 (CHR ''a'')))"

lemma long_path_split: "split_on (CHR ''/'') long_path = replicate 8 (replicate 255 (CHR ''a''))"
  unfolding long_path_def by (rule split_join) auto

lemma length_join_on: "length (join_on sep ps)
    = sum_list (map length ps) + (length ps - 1) * length sep"
proof (induction sep ps rule: join_on.induct)
  case (3 sep p q ps)
  then show ?case by (simp add: algebra_simps)
qed simp_all

lemma length_long_path: "length long_path = 2047"
  unfolding long_path_def length_join_on by (simp add: sum_list_replicate)

lemma long_path_safe: "safe_relative long_path"
proof -
  have "long_path \<noteq> []" using length_long_path by auto
  moreover have "is_ascii_alphanumeric (CHR ''a'')"
    by (simp add: is_ascii_alphanumeric_def is_ascii_lowercase_def less_eq_char_def)
  moreover have "replicate 255 (CHR ''a'') \<noteq> w" if "length w < 255" for w
    using that by auto
  ultimately show ?thesis
    unfolding safe_relative_def long_path_split by (auto simp: length_long_path list_all_iff)
qed

text \<open>Planning and verifying disagree on long paths: a plan accepts relative paths of up to 2048
  bytes, but a directory with a planned file whose path is longer than 2041 bytes never passes
  verification, because the same limit is applied to the path with the \<open>assets/\<close> prefix. Paths of
  2047 bytes are accepted by the planner's check, so an update can succeed that can never be verified.\<close>

theorem long_paths_never_verify:
  assumes "verify vf dir = Inr v"
    and "vf_decode_receipt vf (the (locate_file dir [''receipt.json''])) = Some rc"
    and "rcpt_update rc = Some u"
  shows "(\<forall>r \<in> set (up_assets u). length (ar_path r) \<le> 2041)
    \<and> safe_relative long_path \<and> 2041 < length long_path"
proof (rule verify_Inr [OF assms(1)])
  fix tb rc' rg bs cat rd ph full_plan chosen pl
  assume r: "verify_read vf dir ''receipt.json'' (64 * 1024 * 1024) = Inr tb" "vf_decode_receipt vf tb = Some rc'"
    and up: "\<And>u. rcpt_update rc' = Some u \<Longrightarrow> \<exists>s. verify_update vf dir cat pl u = Inr s
       \<and> asset_files_verified v = vs_files s \<and> asset_bytes_verified v = vs_bytes s"
  from verify_read_Inr [OF r(1)] have "locate_file dir [''receipt.json''] = Some tb" by simp
  with assms(2) r(2) have "rc' = rc" by simp
  with up assms(3) obtain s where "verify_update vf dir cat pl u = Inr s" by blast
  then obtain t t' where "verify_assets vf dir t (up_assets u) = Inr t'"
    by (auto simp: verify_update_def result_simps)
  from verify_assets_Inr [OF this] have "\<forall>r \<in> set (up_assets u). length (ar_path r) \<le> 2041"
    using verified_path_length by blast
  with long_path_safe length_long_path show ?thesis by simp
qed

theorem long_paths_never_verify_witness:
  "length (ar_path (hd (up_assets file_update))) \<le> 2041 \<and> safe_relative long_path"
proof -
  obtain v where v: "verify example_verifier published_dir = Inr v" using published_verified by blast
  have e: "vf_decode_receipt example_verifier (the (locate_file published_dir [''receipt.json'']))
      = Some published_receipt" "rcpt_update published_receipt = Some file_update"
    by (simp_all add: example_verifier_def published_receipt_def make_receipt_def)
  from long_paths_never_verify [OF v e] show ?thesis by (simp add: file_update_def)
qed

end
