(* ===== verification/Publication.thy ===== *)
theory Publication
  imports Verify
begin

text \<open>
  The whole run of the updater: the offline check of secrets and the reading of version snapshots
  (\<open>src/readiness.rs\<close>), the CDN credentials, the catalog's hash, \<open>download\<close> and \<open>fetch\<close>
  (\<open>src/lib.rs\<close>). A run stages everything in a private directory, which becomes visible only by its
  final rename, so a failed run publishes nothing. What the network, the disk and the clock do is
  the run's world.
\<close>

subsection \<open>Secrets\<close>

record check_report =
  ready :: bool
  missing_env :: "string set"
  invalid_fields :: "string list"
  refresh_enabled :: bool
  assets_enabled :: bool
  decryption_enabled :: bool

text \<open>The environment and the parsers that checking a proxy needs.\<close>

record surroundings =
  sr_env :: env
  sr_url :: url_parser
  sr_proxy_all :: "string \<Rightarrow> bool"
  sr_header_ok :: "string \<Rightarrow> bool"
  sr_crypto :: crypto

definition proxy_names :: "proxy_config option \<Rightarrow> string list" where
  "proxy_names p = (case p of None \<Rightarrow> [] | Some x \<Rightarrow> url_env x # opt_list (authorization_env x))"

definition decrypt_of :: "config \<Rightarrow> decrypt_config option" where
  "decrypt_of c = (case cfg_assets c of None \<Rightarrow> None | Some a \<Rightarrow> decrypt a)"

text \<open>The environment variables a configuration needs.\<close>

definition secret_names :: "config \<Rightarrow> string list" where
  "secret_names c =
     [cfg_internal_token_env c] @ opt_list (cfg_refresh_token_env c)
     @ concat (map (\<lambda>a. if authorization a = Basic then [username_env a, credential_env a] else [])
         (map snd (cfg_cdn_roots c)))
     @ (case decrypt_of c of None \<Rightarrow> [] | Some d \<Rightarrow> [key_hex_env d, nonce_seed_hex_env d])
     @ proxy_names (api_proxy (cfg_network c)) @ proxy_names (cdn_proxy (cfg_network c))"

definition bearer_ok :: "string \<Rightarrow> bool" where
  "bearer_ok v = list_all (\<lambda>b. CHR 0x21 \<le> b \<and> b \<le> CHR 0x7E) v"

definition invalid_tokens :: "env \<Rightarrow> config \<Rightarrow> string list" where
  "invalid_tokens env c =
     concat (map (\<lambda>n. case secret env n of
         Inl _ \<Rightarrow> []
       | Inr v \<Rightarrow> if \<not> bearer_ok v then [''bearer_token''] else [])
       (cfg_internal_token_env c # opt_list (cfg_refresh_token_env c)))
     @ (case cfg_refresh_token_env c of
         None \<Rightarrow> []
       | Some n \<Rightarrow>
           (case (secret env n, secret env (cfg_internal_token_env c)) of
              (Inr api, Inr internal) \<Rightarrow>
                if api = internal then [''api_and_internal_tokens_must_differ''] else []
            | _ \<Rightarrow> []))"

definition invalid_usernames :: "env \<Rightarrow> config \<Rightarrow> string list" where
  "invalid_usernames env c =
     concat (map (\<lambda>a. case secret env (username_env a) of
         Inl _ \<Rightarrow> []
       | Inr v \<Rightarrow> if CHR '':'' \<in> set v \<or> has_control v then [''cdn_username''] else [])
       (map snd (cfg_cdn_roots c)))"

definition invalid_keys :: "crypto \<Rightarrow> env \<Rightarrow> config \<Rightarrow> string list" where
  "invalid_keys cr env c = (case decrypt_of c of
      None \<Rightarrow> []
    | Some d \<Rightarrow>
        (case (secret env (key_hex_env d), secret env (nonce_seed_hex_env d)) of
           (Inr k, Inr n) \<Rightarrow> if \<not> is_ok (from_hex cr k n) then [''bundle_key_or_nonce_seed''] else []
         | _ \<Rightarrow> []))"

definition invalid_proxies :: "surroundings \<Rightarrow> config \<Rightarrow> string list" where
  "invalid_proxies s c =
     concat (map (\<lambda>(f, p). case p of
         None \<Rightarrow> []
       | Some x \<Rightarrow>
           if proxy_resolve (sr_url s) (sr_proxy_all s) (sr_header_ok s) (sr_env s) x = Inl error.Config
           then [f] else [])
       [(''network.api_proxy'', api_proxy (cfg_network c)), (''network.cdn_proxy'', cdn_proxy (cfg_network c))])"

definition check_secrets :: "surroundings \<Rightarrow> config \<Rightarrow> check_report" where
  "check_secrets s c =
     (let env = sr_env s;
          absent = {n \<in> set (secret_names c). \<not> is_ok (secret env n)};
          bad = invalid_tokens env c @ invalid_usernames env c @ invalid_keys (sr_crypto s) env c
            @ invalid_proxies s c in
      \<lparr>ready = (absent = {} \<and> bad = []), missing_env = absent, invalid_fields = bad,
       refresh_enabled = (cfg_refresh_token_env c \<noteq> None), assets_enabled = (cfg_assets c \<noteq> None),
       decryption_enabled = (decrypt_of c \<noteq> None)\<rparr>)"

text \<open>\<open>Config::check\<close>\<close>

definition check :: "parsers \<Rightarrow> surroundings \<Rightarrow> config \<Rightarrow> error + check_report" where
  "check ps s c = and_then (config_validate ps c) (\<lambda>_. Inr (check_secrets s c))"

text \<open>Basic credentials of a CDN root, none for an anonymous one.\<close>

definition cdn_credentials :: "env \<Rightarrow> config \<Rightarrow> string \<Rightarrow> error + (string \<times> string) option" where
  "cdn_credentials env c r =
     and_then (ok_or error.Snapshot (map_of (cfg_cdn_roots c) r)) (\<lambda>a.
     (case authorization a of
        Basic \<Rightarrow>
          and_then (secret env (username_env a)) (\<lambda>u.
          and_then (secret env (credential_env a)) (\<lambda>p. Inr (Some (u, p))))
      | Anonymous \<Rightarrow> Inr None))"

subsection \<open>Snapshots\<close>

text \<open>What the API answers in each attempt, and the decoders of its two JSON bodies.\<close>

record api_world =
  ap_refresh :: "nat \<Rightarrow> response option"
  ap_snapshot :: "nat \<Rightarrow> response option"
  ap_clock :: "nat \<Rightarrow> int"
  ap_decode_status :: "byte list \<Rightarrow> string option"
  ap_decode_snapshot :: "byte list \<Rightarrow> snapshot_response option"

definition refresh_version :: "env \<Rightarrow> config \<Rightarrow> api_world \<Rightarrow> nat \<Rightarrow> error + unit" where
  "refresh_version env c w n = (case cfg_refresh_token_env c of
      None \<Rightarrow> Inr ()
    | Some token \<Rightarrow>
        and_then (secret env token) (\<lambda>_.
        and_then (ok_or error.Transport (ap_refresh w n)) (\<lambda>r.
        and_then (bounded_api_response r) (\<lambda>bs.
        and_then (ok_or error.Snapshot (ap_decode_status w bs)) (\<lambda>st.
        fail_if (st \<noteq> ''available'') error.Unavailable)))))"

definition read_snapshot :: "env \<Rightarrow> config \<Rightarrow> api_world \<Rightarrow> nat \<Rightarrow> error + snapshot_response" where
  "read_snapshot env c w n =
     and_then (secret env (cfg_internal_token_env c)) (\<lambda>_.
     and_then (ok_or error.Transport (ap_snapshot w n)) (\<lambda>r.
     and_then (bounded_api_response r) (\<lambda>bs.
     ok_or error.Snapshot (ap_decode_snapshot w bs))))"

definition snapshot_attempt :: "env \<Rightarrow> config \<Rightarrow> api_world \<Rightarrow> nat \<Rightarrow> error + snapshot_response" where
  "snapshot_attempt env c w n =
     and_then (refresh_version env c w n) (\<lambda>_.
     and_then (read_snapshot env c w n) (\<lambda>s.
     and_then (snapshot_catalog_url s c (ap_clock w n)) (\<lambda>_. Inr s)))"

text \<open>\<open>None\<close> is the panic of \<open>unreachable!\<close>.\<close>

definition observed_snapshot :: "env \<Rightarrow> config \<Rightarrow> api_world \<Rightarrow> (error + snapshot_response) option" where
  "observed_snapshot env c w = run_snapshot_loop (snapshot_retry (cfg_network c)) (snapshot_attempt env c w)"

definition probe :: "surroundings \<Rightarrow> config \<Rightarrow> api_world \<Rightarrow> (error + snapshot_response) option" where
  "probe s c w =
     (if \<not> ready (check_secrets s c) then Some (Inl error.Preflight) else observed_snapshot (sr_env s) c w)"

subsection \<open>The catalog's hash\<close>

definition hash_event :: "attempts_world \<Rightarrow> nat \<Rightarrow> error + string" where
  "hash_event w n = (case att_event w n of
      Deadline _ \<Rightarrow> Inl error.Transport
    | GateClosed \<Rightarrow> Inl error.Cancelled
    | Ran \<Rightarrow> hash_attempt (\<lambda>bs. catalog_hash (map char_of_byte bs)) (att_response w n))"

definition fetch_hash :: "retry_policy \<Rightarrow> attempts_world \<Rightarrow> error + string" where
  "fetch_hash r w = fst (loop_retry r (hash_event w) 0)"

subsection \<open>One run\<close>

text \<open>The staged directory of a run, as it is when it is renamed into place.\<close>

record run_dir =
  rd_catalog :: "byte list"
  rd_files :: "string \<Rightarrow> byte list option"
  rd_locations :: "byte list option"
  rd_receipt :: "byte list"

record download_world =
  dw_now :: int
  dw_hash :: attempts_world
  dw_rehash :: attempts_world
  dw_output_ok :: bool
  dw_staging_ok :: bool
  dw_catalog :: attempts_world
  dw_read_ok :: bool
  dw_assets :: assets_world
  dw_current :: "error + snapshot_response"
  dw_later :: int
  dw_finished :: int
  dw_receipt_disk :: disk
  dw_uuid :: string
  dw_rename_ok :: bool

text \<open>The libraries of a run: those of the update and the encoder of receipts.\<close>

record publisher =
  pb_lib :: libraries
  pb_encode :: "update_receipt receipt \<Rightarrow> byte list option"

text \<open>The first hash, when the layout has one: without a locale it must be the one the snapshot names.\<close>

definition first_hash :: "config \<Rightarrow> snapshot_response \<Rightarrow> catalog_target \<Rightarrow> attempts_world \<Rightarrow> error + string option" where
  "first_hash c resp t w = (case hash_url t of
      None \<Rightarrow> Inr None
    | Some _ \<Rightarrow>
        and_then (fetch_hash (catalog_retry (cfg_network c)) w) (\<lambda>h.
        and_then (fail_if (cfg_catalog_locale c = None \<and> h \<noteq> snap_platform_hash (resp_snapshot resp)) error.Snapshot) (\<lambda>_.
        Inr (Some h))))"

definition second_hash :: "config \<Rightarrow> catalog_target \<Rightarrow> string option \<Rightarrow> attempts_world \<Rightarrow> error + unit" where
  "second_hash c t expected w = (case (hash_url t, expected) of
      (Some _, Some e) \<Rightarrow>
        and_then (fetch_hash (catalog_retry (cfg_network c)) w) (\<lambda>h. fail_if (h \<noteq> e) error.Snapshot)
    | _ \<Rightarrow> Inr ())"

definition write_receipt :: "disk \<Rightarrow> error + unit" where
  "write_receipt d = fail_if (\<not> create_ok d \<or> \<not> write_ok d 0 \<or> \<not> sync_ok d) error.Io"

definition run_path :: "config \<Rightarrow> string \<Rightarrow> string" where
  "run_path c uuid = cfg_output c @ ''/catalog-'' @ name (cfg_region c) @ ''-''
     @ platform_name (platform_of c) @ ''-'' @ uuid"

text \<open>After the catalog: the assets, or the check of the catalog and the version without assets.\<close>

definition run_assets ::
  "libraries \<Rightarrow> download_world \<Rightarrow> config \<Rightarrow> snapshot_response \<Rightarrow> catalog_target \<Rightarrow> byte list \<Rightarrow> stage
   \<Rightarrow> ((error + (update_receipt \<times> byte list) option) \<times> stage) option" where
  "run_assets lib w c resp t bs st = (case cfg_assets c of
      Some ac \<Rightarrow> map_option (\<lambda>(res, st'). (and_then res (\<lambda>x. Inr (Some x)), st'))
        (download_assets lib (dw_assets w) resp c t ac bs st)
    | None \<Rightarrow> Some
        (and_then (fail_if (\<not> dw_read_ok w) error.Io) (\<lambda>_.
         and_then (parse bs) (\<lambda>_.
         if cfg_refresh_token_env c \<noteq> None then and_then (revalidate (dw_current w) resp) (\<lambda>_. Inr None)
         else and_then (snapshot_target resp c (dw_later w)) (\<lambda>_. Inr None))), st))"

text \<open>\<open>download\<close>: the path and the directory it names, and the cache afterwards. Every error drops the
  staging directory. \<open>None\<close> is a run that never ends.\<close>

definition download_run ::
  "publisher \<Rightarrow> env \<Rightarrow> download_world \<Rightarrow> config \<Rightarrow> snapshot_response \<Rightarrow> entries option
   \<Rightarrow> ((error + (string \<times> run_dir)) \<times> entries option) option" where
  "download_run pb env w c resp cache =
     (case and_then (snapshot_target resp c (dw_now w)) (\<lambda>t.
           and_then (cdn_credentials env c (snap_effective_cdn_root (resp_snapshot resp))) (\<lambda>_.
           and_then (first_hash c resp t (dw_hash w)) (\<lambda>h.
           and_then (fail_if (\<not> dw_output_ok w \<or> \<not> dw_staging_ok w) error.Io) (\<lambda>_. Inr (t, h))))) of
        Inl e \<Rightarrow> Some (Inl e, cache)
      | Inr (t, h) \<Rightarrow>
          (case fetch_catalog (lib_crypto (pb_lib pb)) (catalog_retry (cfg_network c)) (dw_catalog w) None of
             (Inl e, _) \<Rightarrow> Some (Inl e, cache)
           | (Inr (n, sha), f) \<Rightarrow>
               (let bs = unwrap_or [] f in
                case run_assets (pb_lib pb) w c resp t bs \<lparr>staged_files = (\<lambda>_. None), stage_cache = cache\<rparr> of
                  None \<Rightarrow> None
                | Some (Inl e, st) \<Rightarrow> Some (Inl e, stage_cache st)
                | Some (Inr up, st) \<Rightarrow> Some
                    (and_then (second_hash c t h (dw_rehash w)) (\<lambda>_.
                     (let rc = make_receipt resp c t n sha (dw_finished w) h (map_option fst up) in
                      and_then (ok_or error.Io (pb_encode pb rc)) (\<lambda>rb.
                      and_then (write_receipt (dw_receipt_disk w)) (\<lambda>_.
                      and_then (fail_if (\<not> dw_rename_ok w) error.Io) (\<lambda>_.
                      Inr (run_path c (dw_uuid w),
                        \<lparr>rd_catalog = bs, rd_files = staged_files st, rd_locations = map_option snd up,
                         rd_receipt = rb\<rparr>)))))), stage_cache st))))"

text \<open>\<open>fetch\<close>: preflight, the cache guard for the whole run, the snapshot, the download. The guard is
  dropped at the end, whatever happened.\<close>

record fetch_world =
  fw_output_ok :: bool
  fw_preflight_ok :: bool
  fw_lock_ok :: bool
  fw_remove_ok :: "string \<Rightarrow> bool"
  fw_api :: api_world
  fw_download :: download_world

definition caching :: "config \<Rightarrow> bool" where
  "caching c = is_some_and (\<lambda>a. cache_directory a \<noteq> None) (cfg_assets c)"

definition guard_cache :: "fetch_world \<Rightarrow> config \<Rightarrow> cache \<Rightarrow> (error + unit) \<times> cache" where
  "guard_cache w c ch = (if caching c then acquire_download (fw_lock_ok w) (fw_remove_ok w) ch else (Inr (), ch))"

definition unguard :: "config \<Rightarrow> cache \<Rightarrow> cache" where
  "unguard c ch = (if caching c then release ch else ch)"

definition fetch ::
  "publisher \<Rightarrow> surroundings \<Rightarrow> fetch_world \<Rightarrow> config \<Rightarrow> cache \<Rightarrow> ((error + (string \<times> run_dir)) \<times> cache) option" where
  "fetch pb s w c ch =
     (if \<not> ready (check_secrets s c) then Some (Inl error.Preflight, ch)
      else if \<not> fw_output_ok w \<or> \<not> fw_preflight_ok w then Some (Inl error.Io, ch)
      else
        (case guard_cache w c ch of
           (Inl e, ch') \<Rightarrow> Some (Inl e, ch')
         | (Inr _, ch') \<Rightarrow>
             (case observed_snapshot (sr_env s) c (fw_api w) of
                None \<Rightarrow> None
              | Some (Inl e) \<Rightarrow> Some (Inl e, unguard c ch')
              | Some (Inr resp) \<Rightarrow>
                  (case download_run pb (sr_env s) (fw_download w) c resp
                        (if caching c then Some (cache_entries ch') else None) of
                     None \<Rightarrow> None
                   | Some (res, es) \<Rightarrow>
                       Some (res, unguard c (case es of None \<Rightarrow> ch' | Some x \<Rightarrow> ch'\<lparr>cache_entries := x\<rparr>))))))"


subsection \<open>Every run ends\<close>

lemma download_assets_ends:
  assumes "asset_config_validate rx ac = Inr u" and "stream_lengths (lib_crypto lib)"
  shows "\<exists>y. download_assets lib w resp c t ac bs st = Some y"
proof (cases "update_plan (lib_regex lib) resp c t (asset_config.selection ac) (da_now w) bs")
  case (Inl e)
  then show ?thesis by (simp add: download_assets_def)
next
  case (Inr cp)
  obtain cat pl where cp: "cp = (cat, pl)" by (cases cp)
  note p = Inr [unfolded cp]
  show ?thesis
  proof (cases "decrypt_key (lib_crypto lib) (da_env w) (decrypt ac)")
    case (Inl e)
    with p show ?thesis by (simp add: download_assets_def)
  next
    case (Inr key)
    let ?env = "update_environment lib w c t key bs"
    obtain chosen pl0 where d: "plan_with (bundle_base_url t) (remote_placeholder t) chosen = Inr pl0"
      "prioritize (lib_regex lib) (asset_config.selection ac) pl0 = Inr pl"
      using update_plan_Inr [OF p] by blast
    note b = asset_config_bounds [OF assms(1)]
    have pos: "0 < max_file_bytes ac" using b(3) by simp
    have str: "stream_lengths (ue_crypto ?env)" using assms(2) by (simp add: update_environment_def)
    obtain res s where "update_loop ?env ac (da_loop w) (assets pl) (loop_start st) = Some (res, s)"
      using update_loop_returns [OF loop_start_inv str prioritized_distinct [OF d] b(1) pos] by blast
    with p Inr show ?thesis by (cases res) (simp_all add: download_assets_def)
  qed
qed

lemma run_assets_ends:
  assumes "config_validate ps c = Inr ()" and "stream_lengths (lib_crypto lib)"
  shows "\<exists>y. run_assets lib w c resp t bs st = Some y"
proof (cases "cfg_assets c")
  case None
  then show ?thesis by (simp add: run_assets_def)
next
  case (Some ac)
  obtain y where "download_assets lib (dw_assets w) resp c t ac bs st = Some y"
    using download_assets_ends [OF config_validate_facts(5) [OF assms(1) Some] assms(2)] by blast
  with Some show ?thesis by (simp add: run_assets_def)
qed

lemma download_run_ends:
  assumes "config_validate ps c = Inr ()" and "stream_lengths (lib_crypto (pb_lib pb))"
  shows "\<exists>y. download_run pb env w c resp cache = Some y"
proof (cases "fetch_catalog (lib_crypto (pb_lib pb)) (catalog_retry (cfg_network c)) (dw_catalog w) None")
  case (Pair x f)
  show ?thesis
  proof (cases x)
    case (Inl e)
    with Pair show ?thesis by (auto simp: download_run_def split: sum.split)
  next
    case (Inr v)
    obtain n sha where v: "v = (n, sha)" by (cases v)
    have "\<exists>res st'. run_assets (pb_lib pb) w c resp t (unwrap_or [] f)
        \<lparr>staged_files = (\<lambda>_. None), stage_cache = cache\<rparr> = Some (res, st')" for t
      using run_assets_ends [OF assms] by (metis surj_pair)
    with Pair Inr v show ?thesis
      by (auto simp: download_run_def Let_def split: sum.split option.split prod.split) (metis option.discI)+
  qed
qed

lemma observed_snapshot_returns:
  assumes "config_validate ps c = Inr ()"
  shows "\<exists>y. observed_snapshot env c w = Some y"
proof -
  have v: "retry_validate (snapshot_retry (cfg_network c))"
    using config_validate_facts(2) [OF assms] network_validate_retries by blast
  show ?thesis
    using snapshot_loop_loop [of 0 "snapshot_retry (cfg_network c)" "snapshot_attempt env c w"]
      retry_validate_attempts [OF v]
    by (simp add: observed_snapshot_def run_snapshot_loop_def)
qed

lemma acquire_download_locks:
  assumes "acquire_download ok rm ch = (x, ch')"
  shows "locked ch' = (if is_ok x then True else locked ch) \<and> (is_ok x \<longrightarrow> \<not> locked ch)"
  using assms by (auto simp: acquire_download_def acquire_def Let_def split: option.splits if_splits prod.splits sum.splits)

text \<open>A whole run always ends and never keeps the cache: under a validated configuration, whatever
  the API, the network, the disk and the clock do, \<open>fetch\<close> returns a path or an error, neither
  loops nor panics, and the lock of the cache is afterwards as it was before.\<close>

theorem fetch_ends_and_unlocks:
  assumes v: "config_validate ps c = Inr ()" and s: "stream_lengths (lib_crypto (pb_lib pb))"
  shows "\<exists>res ch'. fetch pb sr w c ch = Some (res, ch') \<and> locked ch' = locked ch"
proof (cases "\<not> ready (check_secrets sr c) \<or> \<not> fw_output_ok w \<or> \<not> fw_preflight_ok w")
  case True
  then show ?thesis by (auto simp: fetch_def)
next
  case False
  obtain x ch1 where g: "guard_cache w c ch = (x, ch1)" by fastforce
  show ?thesis
  proof (cases x)
    case (Inl e)
    then have "locked ch1 = locked ch"
      using g acquire_download_locks by (fastforce simp: guard_cache_def split: if_splits)
    with False g Inl show ?thesis by (simp add: fetch_def)
  next
    case (Inr u)
    have unlock: "locked (unguard c (case es of None \<Rightarrow> ch1 | Some y \<Rightarrow> ch1\<lparr>cache_entries := y\<rparr>)) = locked ch" for es
      using g Inr acquire_download_locks [of "fw_lock_ok w" "fw_remove_ok w" ch x ch1]
      by (auto simp: guard_cache_def unguard_def release_def split: if_splits option.splits)
    obtain obs where obs: "observed_snapshot (sr_env sr) c (fw_api w) = Some obs"
      using observed_snapshot_returns [OF v] by blast
    show ?thesis
    proof (cases obs)
      case (Inl e)
      with False g Inr obs unlock [of None] show ?thesis by (simp add: fetch_def)
    next
      case (Inr resp)
      obtain res es where "download_run pb (sr_env sr) (fw_download w) c resp
          (if caching c then Some (cache_entries ch1) else None) = Some (res, es)"
        using download_run_ends [OF v s] by (metis surj_pair)
      with False g \<open>x = Inr u\<close> obs Inr unlock [of es] show ?thesis by (simp add: fetch_def)
    qed
  qed
qed


subsection \<open>What is published passes verification\<close>

text \<open>A directory that holds the files of a run.\<close>

definition holds :: "node \<Rightarrow> run_dir \<Rightarrow> bool" where
  "holds dir r \<longleftrightarrow> locate_file dir [''receipt.json''] = Some (rd_receipt r)
     \<and> locate_file dir [''catalog_main.bin''] = Some (rd_catalog r)
     \<and> (\<forall>l. rd_locations r = Some l \<longrightarrow> locate_file dir [''locations.json''] = Some l)
     \<and> (\<forall>p b. rd_files r p = Some b \<longrightarrow> locate_file dir (''assets'' # split_on (CHR ''/'') p) = Some b)"

lemma asset_file_safe: "safe_relative p \<Longrightarrow> length p \<le> 2041 \<Longrightarrow> safe_relative (asset_file_path p)"
  unfolding safe_relative_def asset_file_split
  by (simp add: asset_file_path_def is_ascii_alphanumeric_def is_ascii_lowercase_def less_eq_char_def)

lemma fixed_files_safe:
  "safe_relative ''receipt.json''" "safe_relative ''catalog_main.bin''" "safe_relative ''locations.json''"
  by (simp_all add: safe_relative_def is_ascii_alphanumeric_def is_ascii_lowercase_def less_eq_char_def)

lemma plan_paths_safe:
  assumes "plan_with rd ph c = Inr pl" and "a \<in> set (assets pl)"
  shows "safe_relative (relative_path a)"
proof (rule plan_with_facts [OF assms(1)])
  fix s
  assume "plan_inv rd ph s (locations c)" "assets pl = map snd (by_path s)"
  with assms(2) show ?thesis by (auto simp: plan_inv_def)
qed

lemma verify_read_complete:
  assumes "safe_relative rel" "vf_readable vf rel" "locate_file dir (split_on (CHR ''/'') rel) = Some b" "length b \<le> n"
  shows "verify_read vf dir rel n = Inr b"
  using assms by (simp add: verify_read_def verify_file_def)

lemma same_place:
  assumes "map f rs = map g as" "map h rs = map k as" "r \<in> set rs"
  obtains a where "a \<in> set as" "g a = f r" "k a = h r"
proof -
  obtain i where i: "i < length rs" "r = rs ! i" using assms(3) by (auto simp: in_set_conv_nth)
  have l: "length rs = length as" using assms(1) by (rule map_eq_imp_length_eq)
  have "g (as ! i) = f r" "k (as ! i) = h r"
    using i l assms(1,2) by (metis nth_map)+
  with that [of "as ! i"] i l show thesis by simp
qed

lemma verify_update_complete:
  assumes pl0: "plan_with rd ph chosen = Inr pl0" and pri: "prioritize rx sel pl0 = Inr pl"
    and paths: "map ar_path (up_assets u) = map relative_path (assets pl)"
    and provs: "map ar_provider (up_assets u) = map provider (assets pl)"
    and present: "\<And>r. r \<in> set (up_assets u) \<Longrightarrow> asset_present vf dir r"
    and tot: "up_total u = sum_list (map ar_bytes (up_assets u))" "up_total u \<le> 128 * 1024 * 1024 * 1024"
    and counts: "up_embedded u = embedded_locations pl" "up_logical u = logical_locations pl"
    and graph: "verify_file vf dir ''locations.json'' = Inr (lib_encode_catalog (vf_lib vf) cat)"
  shows "\<exists>s. verify_update vf dir cat pl0 u = Inr s \<and> vs_bytes s = up_total u \<and> vs_files s = length (assets pl0)"
proof -
  note ms = prioritize_paths [OF pri]
  have len: "length (up_assets u) = length (assets pl0)"
    using paths ms(1) by (metis length_map size_mset)
  have dist: "distinct (map ar_path (up_assets u))"
    unfolding paths by (rule prioritized_distinct [OF pl0 pri])
  let ?s = "\<lparr>vs_expected = bt_of_list (map (\<lambda>a. (relative_path a, provider a)) (assets pl0)),
          vs_bytes = 0, vs_files = 0, vs_decrypted = 0\<rparr>"
  have exp: "map_of (vs_expected ?s) (ar_path r) = Some (ar_provider r)" if r: "r \<in> set (up_assets u)" for r
  proof -
    obtain a where "a \<in> set (assets pl)" "relative_path a = ar_path r" "provider a = ar_provider r"
      by (rule same_place [OF paths provs r])
    moreover from this(1) have "a \<in> set (assets pl0)" using ms(1) by (metis set_mset_mset)
    ultimately show ?thesis using expected_lookup [OF plan_paths_distinct [OF pl0]] by auto
  qed
  obtain t where t: "verify_assets vf dir ?s (up_assets u) = Inr t"
    "vs_bytes t = vs_bytes ?s + sum_list (map ar_bytes (up_assets u))"
    using verify_assets_complete [OF dist, of ?s vf dir] exp present tot by auto
  have files: "vs_files t = length (up_assets u)" using verify_assets_Inr [OF t(1)] by simp
  have g: "verify_graph vf dir cat = Inr ()"
    using graph by (simp add: verify_graph_def Let_def result_simps hash_file_Inr)
  show ?thesis
    using len ms(2,3) counts g t tot(1) files by (simp add: verify_update_def)
qed

lemma download_run_Inr:
  assumes "download_run pb env w c resp cache = Some (Inr (path, run), es)"
  obtains t h n sha f up st where "snapshot_target resp c (dw_now w) = Inr t"
    "first_hash c resp t (dw_hash w) = Inr h"
    "fetch_catalog (lib_crypto (pb_lib pb)) (catalog_retry (cfg_network c)) (dw_catalog w) None = (Inr (n, sha), f)"
    "run_assets (pb_lib pb) w c resp t (unwrap_or [] f) \<lparr>staged_files = (\<lambda>_. None), stage_cache = cache\<rparr>
       = Some (Inr up, st)"
    "second_hash c t h (dw_rehash w) = Inr ()"
    "pb_encode pb (make_receipt resp c t n sha (dw_finished w) h (map_option fst up)) = Some (rd_receipt run)"
    "rd_catalog run = unwrap_or [] f" "rd_files run = staged_files st" "rd_locations run = map_option snd up"
    "path = run_path c (dw_uuid w)"
proof -
  from assms obtain t h where a: "snapshot_target resp c (dw_now w) = Inr t" "first_hash c resp t (dw_hash w) = Inr h"
    and pre: "and_then (snapshot_target resp c (dw_now w)) (\<lambda>t.
           and_then (cdn_credentials env c (snap_effective_cdn_root (resp_snapshot resp))) (\<lambda>_.
           and_then (first_hash c resp t (dw_hash w)) (\<lambda>h.
           and_then (fail_if (\<not> dw_output_ok w \<or> \<not> dw_staging_ok w) error.Io) (\<lambda>_. Inr (t, h))))) = Inr (t, h)"
    by (auto simp: download_run_def result_simps split: sum.splits)
  obtain x f where fc: "fetch_catalog (lib_crypto (pb_lib pb)) (catalog_retry (cfg_network c)) (dw_catalog w) None = (x, f)"
    by fastforce
  with assms pre obtain n sha where x: "x = Inr (n, sha)"
    by (cases x) (auto simp: download_run_def)
  obtain y st where ra: "run_assets (pb_lib pb) w c resp t (unwrap_or [] f)
      \<lparr>staged_files = (\<lambda>_. None), stage_cache = cache\<rparr> = Some (y, st)"
    using assms pre fc x by (auto simp: download_run_def Let_def split: option.splits)
  with assms pre fc x obtain up where y: "y = Inr up"
    by (cases y) (auto simp: download_run_def Let_def)
  from assms pre fc x ra y show thesis
    by (intro that [OF a fc [unfolded x] ra [unfolded y]])
      (auto simp: download_run_def Let_def result_simps)
qed


lemma asset_config_file_limit: "asset_config_validate rx c = Inr u \<Longrightarrow> max_file_bytes c \<le> 2 * 1024 * 1024 * 1024"
  by (auto simp: asset_config_validate_def result_simps)

lemma receipt_present:
  assumes out: "rd_files run (ar_path r) = Some out" and m: "receipt_matches (lib_crypto (vf_lib vf)) r out"
    and u: "ar_provider r = UnityBundle \<longrightarrow> starts_with out UNITY_MAGIC"
    and b: "ar_bytes r \<le> 2 * 1024 * 1024 * 1024" and safe: "safe_relative (ar_path r)"
    and short: "length (ar_path r) \<le> 2041" and h: "holds dir run" and rd: "vf_readable vf (asset_file_path (ar_path r))"
  shows "asset_present vf dir r"
proof -
  have "verify_file vf dir (asset_file_path (ar_path r)) = Inr out"
    using asset_file_safe [OF safe short] rd h out by (simp add: verify_file_Inr holds_def asset_file_split)
  with m u b show ?thesis by (auto simp: asset_present_def)
qed

text \<open>The update part: every staged asset passes, whatever the order of the plan.\<close>

lemma published_update_verifies:
  assumes acv: "asset_config_validate rx ac = Inr ()" and str: "stream_lengths (lib_crypto lb)"
    and da: "download_assets lb aw resp c t ac bs \<lparr>staged_files = (\<lambda>_. None), stage_cache = None\<rparr>
       = Some (Inr (upd, loc), st)"
    and files: "rd_files run = staged_files st" "rd_locations run = Some loc"
    and dir: "holds dir run" and lib: "vf_lib vf = lb" and readable: "\<And>p. vf_readable vf p"
    and short: "\<And>p b. rd_files run p = Some b \<Longrightarrow> length p \<le> 2041"
  shows "\<exists>cat chosen pl0 vs. parse bs = Inr cat \<and> select_catalog (lib_regex lb) (up_selection upd) cat = Inr chosen
    \<and> plan_with (bundle_base_url t) (remote_placeholder t) chosen = Inr pl0
    \<and> verify_update vf dir cat pl0 upd = Inr vs \<and> vs_files vs = length (assets pl0)"
proof (rule download_assets_Inr [OF acv str da])
  fix cat pl s key
  assume p: "update_plan (lib_regex lb) resp c t (asset_config.selection ac) (da_now aw) bs = Inr (cat, pl)"
    and i: "loop_inv (update_environment lb aw c t key bs) ac (assets pl) s"
    "lp_next s = length (assets pl)" "lp_stage s = st"
    and loc: "loc = lib_encode_catalog lb cat"
    and u: "upd = \<lparr>up_selection = asset_config.selection ac, up_cache_hits = lp_hits s,
       up_assets = lp_receipts s, up_embedded = embedded_locations pl,
       up_logical = logical_locations pl, up_total = lp_total s\<rparr>"
    and nocache: "stage_cache \<lparr>staged_files = (\<lambda>_. None), stage_cache = None\<rparr> = None \<Longrightarrow> stage_cache st = None"
  obtain chosen pl0 where d: "parse bs = Inr cat" "select_catalog (lib_regex lb) (asset_config.selection ac) cat = Inr chosen"
    "plan_with (bundle_base_url t) (remote_placeholder t) chosen = Inr pl0"
    "prioritize (lib_regex lb) (asset_config.selection ac) pl0 = Inr pl"
    by (rule update_plan_Inr [OF p])
  have paths: "map ar_path (up_assets upd) = map relative_path (assets pl)"
    "map ar_provider (up_assets upd) = map provider (assets pl)"
    "up_total upd = sum_list (map ar_bytes (up_assets upd))" "up_total upd \<le> 128 * 1024 * 1024 * 1024"
    "up_embedded upd = embedded_locations pl" "up_logical upd = logical_locations pl"
    using i asset_config_bounds(5) [OF acv] by (simp_all add: u loop_inv_def)
  have present: "asset_present vf dir r" if r: "r \<in> set (up_assets upd)" for r
  proof -
    have rs: "receipt_staged (lib_crypto lb) st r" "ar_bytes r \<le> max_file_bytes ac"
      using i r by (simp_all add: u loop_inv_def update_environment_def)
    then obtain out where out: "staged_files st (ar_path r) = Some out" "receipt_matches (lib_crypto lb) r out"
      "ar_provider r = UnityBundle \<longrightarrow> starts_with out UNITY_MAGIC"
      using nocache by (auto simp: receipt_staged_def)
    obtain a where "a \<in> set (assets pl)" "relative_path a = ar_path r"
      by (rule same_place [OF paths(1,2) r])
    moreover from this(1) have "a \<in> set (assets pl0)"
      using prioritize_paths(1) [OF d(4)] by (metis set_mset_mset)
    ultimately have "safe_relative (ar_path r)" using plan_paths_safe [OF d(3)] by metis
    then show ?thesis
      using receipt_present [of run r out vf dir] out lib files(1) rs(2) asset_config_file_limit [OF acv]
        short dir readable by simp
  qed
  have "verify_file vf dir ''locations.json'' = Inr (lib_encode_catalog (vf_lib vf) cat)"
    using dir readable fixed_files_safe(3) files(2) loc lib by (simp add: verify_file_Inr holds_def)
  then show ?thesis
    using verify_update_complete [OF d(3,4) paths(1,2) present paths(3,4,5,6)] d by (auto simp: u)
qed

text \<open>C1. What a run publishes can be verified. When a run of the updater under a validated
  configuration with assets (and no download cache) succeeds, every directory that holds the published
  files passes offline verification, and the report accounts for every planned file and every byte,
  for the configured region and platform. Assumed are a readable directory, receipts that decode to
  what was encoded and stay below verification's limit of 64 MiB, paths short enough for verification
  (see the divergence on long paths), and a catalog whose unselected locations can be planned too,
  because verification plans the whole catalog.\<close>

theorem published_run_verifies:
  assumes valid: "config_validate ps c = Inr ()" and ac: "cfg_assets c = Some ac" "cache_directory ac = None"
    and str: "stream_lengths (lib_crypto (pb_lib pb))"
    and run: "download_run pb env w c resp None = Some (Inr (path, run), es)"
    and dir: "holds dir run" and lib: "vf_lib vf = pb_lib pb" and readable: "\<And>p. vf_readable vf p"
    and json: "\<And>x b. pb_encode pb x = Some b \<Longrightarrow> vf_decode_receipt vf b = Some x"
    and small: "length (rd_receipt run) \<le> 64 * 1024 * 1024"
    and short: "\<And>p b. rd_files run p = Some b \<Longrightarrow> length p \<le> 2041"
    and plannable: "\<And>cat t. parse (rd_catalog run) = Inr cat \<Longrightarrow> snapshot_target resp c (dw_now w) = Inr t \<Longrightarrow>
      is_ok (plan_with (bundle_base_url t) (remote_placeholder t) cat)"
  shows "\<exists>v. verify vf dir = Inr v \<and> ver_region v = cfg_region c
    \<and> ver_platform v = snap_platform (resp_snapshot resp) \<and> catalog_verified v
    \<and> asset_files_verified v = planned_remote_files v"
proof (rule download_run_Inr [OF run])
  fix t h n sha f up st
  assume t: "snapshot_target resp c (dw_now w) = Inr t"
    and fc: "fetch_catalog (lib_crypto (pb_lib pb)) (catalog_retry (cfg_network c)) (dw_catalog w) None = (Inr (n, sha), f)"
    and ra: "run_assets (pb_lib pb) w c resp t (unwrap_or [] f) \<lparr>staged_files = (\<lambda>_. None), stage_cache = None\<rparr>
       = Some (Inr up, st)"
    and enc: "pb_encode pb (make_receipt resp c t n sha (dw_finished w) h (map_option fst up)) = Some (rd_receipt run)"
    and files: "rd_catalog run = unwrap_or [] f" "rd_files run = staged_files st" "rd_locations run = map_option snd up"
  define rc where "rc = make_receipt resp c t n sha (dw_finished w) h (map_option fst up)"
  let ?cr = "lib_crypto (pb_lib pb)"
  obtain bs where bs: "f = Some bs" "n = length bs" "sha = hex_encode ?cr (sha256 ?cr bs)" "length bs \<le> CATALOG_MAX"
  proof (rule fetch_catalog_Inr [OF fc])
    fix k r
    assume "complete r CATALOG_MAX (concat (chunks r))" "f = Some (concat (chunks r))"
      "n = length (concat (chunks r))" "sha = hex_encode ?cr (sha256 ?cr (concat (chunks r)))"
    then show thesis using that [of "concat (chunks r)"] by (simp add: complete_def)
  qed
  obtain upd loc where up: "up = Some (upd, loc)"
    and da: "download_assets (pb_lib pb) (dw_assets w) resp c t ac bs \<lparr>staged_files = (\<lambda>_. None), stage_cache = None\<rparr>
       = Some (Inr (upd, loc), st)"
    using ra ac(1) bs(1) by (auto simp: run_assets_def result_simps)
  have loc: "rd_locations run = Some loc" using files(3) up by simp
  obtain cat chosen pl0 vs where V: "parse bs = Inr cat"
    "select_catalog (lib_regex (pb_lib pb)) (up_selection upd) cat = Inr chosen"
    "plan_with (bundle_base_url t) (remote_placeholder t) chosen = Inr pl0"
    "verify_update vf dir cat pl0 upd = Inr vs" "vs_files vs = length (assets pl0)"
    using published_update_verifies [OF config_validate_facts(5) [OF valid ac(1)] str da files(2) loc dir lib readable] short
    by blast
  have reads: "verify_read vf dir ''receipt.json'' (64 * 1024 * 1024) = Inr (rd_receipt run)"
    "verify_read vf dir ''catalog_main.bin'' (64 * 1024 * 1024) = Inr bs"
    using dir readable fixed_files_safe small files(1) bs
    by (auto intro!: verify_read_complete simp: holds_def CATALOG_MAX_def)
  obtain fp where fp: "plan_with (bundle_base_url t) (remote_placeholder t) cat = Inr fp"
    using plannable [of cat t] V(1) t files(1) bs(1) by (auto simp: is_ok_iff)
  have rcf: "rcpt_bytes rc = n" "rcpt_sha256 rc = sha" "rcpt_update rc = Some upd" "rcpt_snapshot rc = resp_snapshot resp"
    "remote rc = Inr (bundle_base_url t, remote_placeholder t)"
    "region_identity (resp_snapshot resp) = Inr (cfg_region c)"
    using receipt_remote [OF valid t] target_region_identity [OF valid t] by (simp_all add: rc_def make_receipt_def up)
  have dec: "vf_decode_receipt vf (rd_receipt run) = Some rc" using json [OF enc] by (simp add: rc_def)
  show ?thesis
    unfolding verify_def
    using reads dec rcf lib bs fp V by (simp add: Let_def)
qed

subsection \<open>A run on the example catalog\<close>

definition run_config :: config where
  "run_config = example_config\<lparr>cfg_assets := Some example_asset_config\<rparr>"

definition catalog_attempts :: attempts_world where
  "catalog_attempts = \<lparr>att_event = (\<lambda>_. Ran),
     att_response = (\<lambda>_. Some \<lparr>http_code = 200, content_length = None, chunks = [file_bytes], broken = False\<rparr>),
     att_disk = (\<lambda>_. \<lparr>create_ok = True, write_ok = (\<lambda>_. True), sync_ok = True\<rparr>)\<rparr>"

definition hash_attempts :: attempts_world where
  "hash_attempts = catalog_attempts\<lparr>att_response := (\<lambda>_. Some \<lparr>http_code = 200, content_length = None,
     chunks = [bytes_of example_hash], broken = False\<rparr>)\<rparr>"

definition run_world :: download_world where
  "run_world = \<lparr>dw_now = 5000000, dw_hash = hash_attempts, dw_rehash = hash_attempts, dw_output_ok = True,
     dw_staging_ok = True, dw_catalog = catalog_attempts, dw_read_ok = True, dw_assets = file_world,
     dw_current = Inl error.Transport, dw_later = 0, dw_finished = 0,
     dw_receipt_disk = \<lparr>create_ok = True, write_ok = (\<lambda>_. True), sync_ok = True\<rparr>, dw_uuid = ''u'',
     dw_rename_ok = True\<rparr>"

definition run_receipt :: "update_receipt receipt" where
  "run_receipt = make_receipt example_response run_config file_target 134
     (hex_encode example_crypto (sha256 example_crypto file_bytes)) 0 (Some example_hash) (Some file_update)"

definition run_publisher :: publisher where
  "run_publisher = \<lparr>pb_lib = file_libraries, pb_encode = (\<lambda>x. if x = run_receipt then Some [0] else None)\<rparr>"

definition run_verifier :: verifier where
  "run_verifier = \<lparr>vf_lib = file_libraries, vf_decode_receipt = (\<lambda>_. Some run_receipt), vf_readable = (\<lambda>_. True)\<rparr>"

definition run_result :: run_dir where
  "run_result = \<lparr>rd_catalog = file_bytes, rd_files = (\<lambda>_. None)(''a'' := Some [1, 2, 3]),
     rd_locations = Some [], rd_receipt = [0]\<rparr>"

lemma assets_irrelevant:
  "snapshot_target r (c\<lparr>cfg_assets := a\<rparr>) now = snapshot_target r c now"
  "scoped_catalog (c\<lparr>cfg_assets := a\<rparr>) u = scoped_catalog c u"
  "download_assets lb w r (c\<lparr>cfg_assets := a\<rparr>) t ac bs st = download_assets lb w r c t ac bs st"
proof -
  have p: "platform_of (c\<lparr>cfg_assets := a\<rparr>) = platform_of c" by (simp add: platform_of_def)
  have rej: "snapshot_rejected r (c\<lparr>cfg_assets := a\<rparr>) now = snapshot_rejected r c now" for now
    by (simp add: snapshot_rejected_def schema_matches_def p protocol_version_of_def Let_def)
  have urls: "layout_urls l b sn (c\<lparr>cfg_assets := a\<rparr>) = layout_urls l b sn c" for l b sn
    by (cases l) (simp_all add: layout_urls_def p Let_def)
  have t: "snapshot_target r (c\<lparr>cfg_assets := a\<rparr>) now = snapshot_target r c now" for now
    by (simp add: snapshot_target_def rej urls)
  then show "snapshot_target r (c\<lparr>cfg_assets := a\<rparr>) now = snapshot_target r c now" .
  show sc: "scoped_catalog (c\<lparr>cfg_assets := a\<rparr>) u = scoped_catalog c u" for u
    by (simp add: scoped_catalog_def p)
  have env: "update_environment lb w (c\<lparr>cfg_assets := a\<rparr>) t key bs = update_environment lb w c t key bs" for key
    by (simp add: update_environment_def sc)
  have plan: "update_plan rx r (c\<lparr>cfg_assets := a\<rparr>) t sel now bs = update_plan rx r c t sel now bs" for rx sel now
    by (simp add: update_plan_def t)
  show "download_assets lb w r (c\<lparr>cfg_assets := a\<rparr>) t ac bs st = download_assets lb w r c t ac bs st"
    unfolding download_assets_def plan env ..
qed

lemma run_download:
  "download_assets file_libraries file_world example_response run_config file_target
     example_asset_config file_bytes \<lparr>staged_files = (\<lambda>_. None), stage_cache = None\<rparr>
   = Some (Inr (file_update, []), \<lparr>staged_files = (\<lambda>_. None)(''a'' := Some [1, 2, 3]), stage_cache = None\<rparr>)"
  unfolding run_config_def assets_irrelevant by (rule file_download [unfolded empty_stage_def])

lemma char_of_byte_of: "map char_of_byte (bytes_of s) = s"
proof -
  have "char_of_byte (of_nat (of_char c)) = c" for c
    by (simp add: char_of_byte_def unat_of_nat)
  then show ?thesis by (simp add: bytes_of_def comp_def)
qed

lemma run_valid: "config_validate example_parsers run_config = Inr ()"
proof -
  have "asset_config_validate (compile_regex example_parsers) example_asset_config = Inr ()"
    using example_asset_config_valid by (simp add: example_parsers_def)
  then show ?thesis
    using example_valid by (simp add: config_validate_def run_config_def Let_def protocol_version_of_def result_simps)
qed

lemma run_catalog:
  "fetch_catalog example_crypto retry_default catalog_attempts None
     = (Inr (134, hex_encode example_crypto (sha256 example_crypto file_bytes)), Some file_bytes)"
proof -
  have "take 8 file_bytes = CATALOG_MAGIC" "length file_bytes = 134"
    by (simp_all add: file_bytes_def CATALOG_MAGIC_def file_lengths)
  then show ?thesis
    by (simp add: fetch_catalog_def retry_default_def upt_rec cdn_attempt_def catalog_attempts_def
        download_catalog_inner_def status_ok_def transfer_start_def CATALOG_MAX_def)
qed

lemma run_hash: "fetch_hash retry_default hash_attempts = Inr example_hash"
proof -
  have "catalog_hash example_hash = Some example_hash"
    by (simp add: catalog_hash_def example_hash_def trim_def trim_start.simps blank.simps is_ascii_hexdigit_def ascii_defs
        to_ascii_lowercase_def to_ascii_lower_def)
  moreover have "length example_hash = 32" by (simp add: example_hash_def)
  ultimately show ?thesis
    by (simp add: fetch_hash_def loop_retry.simps hash_event_def hash_attempts_def catalog_attempts_def
        hash_attempt_def status_ok_def char_of_byte_of)
qed


lemma run_published:
  "download_run run_publisher (\<lambda>_. None) run_world run_config example_response None
     = Some (Inr (''out/catalog-en-Android-u'', run_result), None)"
proof -
  have c: "catalog_retry (cfg_network run_config) = retry_default" "cfg_catalog_locale run_config = Some ''en''"
    "cfg_assets run_config = Some example_asset_config" "run_path run_config ''u'' = ''out/catalog-en-Android-u''"
    "cdn_credentials (\<lambda>_. None) run_config (snap_effective_cdn_root (resp_snapshot example_response)) = Inr None"
    by (simp_all add: run_config_def example_config_def network_default_def run_path_def platform_of_def
        default_platform_def cdn_credentials_def example_response_def)
  have t: "snapshot_target example_response run_config 5000000 = Inr file_target"
    using file_target by (simp add: run_config_def assets_irrelevant)
  have h: "hash_url file_target = Some ''https://cdn/asset/Android/catalog_7_en.hash''"
    by (simp add: file_target_def)
  have f: "first_hash run_config example_response file_target hash_attempts = Inr (Some example_hash)"
    "second_hash run_config file_target (Some example_hash) hash_attempts = Inr ()"
    by (simp_all add: first_hash_def second_hash_def h c run_hash)
  have w: "dw_now run_world = 5000000" "dw_hash run_world = hash_attempts" "dw_rehash run_world = hash_attempts"
    "dw_output_ok run_world" "dw_staging_ok run_world" "dw_catalog run_world = catalog_attempts"
    "dw_assets run_world = file_world" "dw_finished run_world = 0" "dw_uuid run_world = ''u''" "dw_rename_ok run_world"
    "write_receipt (dw_receipt_disk run_world) = Inr ()" "pb_lib run_publisher = file_libraries"
    "lib_crypto file_libraries = example_crypto" "pb_encode run_publisher run_receipt = Some [0]"
    by (simp_all add: run_world_def write_receipt_def run_publisher_def file_libraries_def)
  have a: "run_assets file_libraries run_world run_config example_response file_target file_bytes
      \<lparr>staged_files = (\<lambda>_. None), stage_cache = None\<rparr>
    = Some (Inr (Some (file_update, [])), \<lparr>staged_files = (\<lambda>_. None)(''a'' := Some [1, 2, 3]), stage_cache = None\<rparr>)"
    by (simp add: run_assets_def c w run_download)
  show ?thesis
    by (simp add: download_run_def c w t f run_catalog a run_receipt_def [symmetric] run_result_def)
qed

theorem published_run_verifies_witness:
  "\<exists>v. verify run_verifier published_dir = Inr v \<and> ver_region v = En \<and> asset_files_verified v = planned_remote_files v"
proof -
  have s: "stream_lengths (lib_crypto (pb_lib run_publisher))"
    by (simp add: run_publisher_def file_libraries_def example_stream)
  have a: "cfg_assets run_config = Some example_asset_config" "cache_directory example_asset_config = None"
    "cfg_region run_config = En"
    by (simp_all add: run_config_def example_asset_config_def example_config_def)
  have d: "holds published_dir run_result"
    by (auto simp: holds_def published_dir_def run_result_def)
  have l: "vf_lib run_verifier = pb_lib run_publisher" "\<And>p. vf_readable run_verifier p"
    by (simp_all add: run_verifier_def run_publisher_def)
  have j: "vf_decode_receipt run_verifier b = Some x" if "pb_encode run_publisher x = Some b" for x b
    using that by (simp add: run_verifier_def run_publisher_def split: if_splits)
  have small: "length (rd_receipt run_result) \<le> 64 * 1024 * 1024" by (simp add: run_result_def)
  have short: "length p \<le> 2041" if "rd_files run_result p = Some b" for p b
    using that by (simp add: run_result_def split: if_splits)
  have t: "snapshot_target example_response run_config (dw_now run_world) = Inr file_target"
    using file_target by (simp add: run_config_def assets_irrelevant run_world_def)
  have plan: "is_ok (plan_with (bundle_base_url t) (remote_placeholder t) cat)"
    if "parse (rd_catalog run_result) = Inr cat" "snapshot_target example_response run_config (dw_now run_world) = Inr t"
    for cat t
    using that t by (simp add: run_result_def parse_file) (metis plan_file_catalog is_ok_simps(2))
  have "\<exists>v. verify run_verifier published_dir = Inr v \<and> ver_region v = cfg_region run_config
    \<and> ver_platform v = snap_platform (resp_snapshot example_response) \<and> catalog_verified v
    \<and> asset_files_verified v = planned_remote_files v"
    by (rule published_run_verifies [OF run_valid a(1,2) s run_published d l j small])
      (use short plan in \<open>assumption | blast\<close>)+
  with a(3) show ?thesis by auto
qed

theorem fetch_ends_and_unlocks_witness:
  "\<exists>res ch'. fetch run_publisher
      \<lparr>sr_env = (\<lambda>_. None), sr_url = (\<lambda>_. None), sr_proxy_all = (\<lambda>_. True), sr_header_ok = (\<lambda>_. True), sr_crypto = example_crypto\<rparr>
      \<lparr>fw_output_ok = True, fw_preflight_ok = True, fw_lock_ok = True, fw_remove_ok = (\<lambda>_. True),
       fw_api = \<lparr>ap_refresh = (\<lambda>_. None), ap_snapshot = (\<lambda>_. None), ap_clock = (\<lambda>_. 0),
         ap_decode_status = (\<lambda>_. None), ap_decode_snapshot = (\<lambda>_. None)\<rparr>, fw_download = run_world\<rparr>
      run_config \<lparr>cache_entries = [], locked = False\<rparr> = Some (res, ch') \<and> \<not> locked ch'"
proof -
  have s: "stream_lengths (lib_crypto (pb_lib run_publisher))"
    by (simp add: run_publisher_def file_libraries_def example_stream)
  show ?thesis
    using fetch_ends_and_unlocks [OF run_valid s, of _ _ "\<lparr>cache_entries = [], locked = False\<rparr>"] by auto
qed

end
