(* ===== verification/Job_Store.thy ===== *)
theory Job_Store
  imports Verify
begin

text \<open>
  The durable job ledger (\<open>src/jobs.rs\<close>): submission, claiming, progress, cancellation, completion,
  retention and recovery. Every operation changes a copy of the ledger and commits it; the copy
  becomes the ledger only after it has been persisted. The persisted file is the ledger itself (its
  JSON text is the library's business). Time, fresh ids and the success of persisting are inputs.
\<close>

subsection \<open>Data\<close>

datatype job_error = Locked | Invalid | Full | NotFound | Conflict | Storage

datatype status = Queued | Running | Cancelling | Completed | Failed | Cancelled

fun terminal :: "status \<Rightarrow> bool" where
  "terminal Completed = True"
| "terminal Failed = True"
| "terminal status.Cancelled = True"
| "terminal _ = False"

fun occupies_slot :: "status \<Rightarrow> bool" where
  "occupies_slot Running = True"
| "occupies_slot Cancelling = True"
| "occupies_slot _ = False"

datatype operation = UpdateOp | ExportOp | VerifyOp

record request =
  req_region :: region
  req_profile :: string
  req_operation :: operation

record progress =
  prog_phase :: string
  prog_completed :: u64
  prog_failed :: u64
  prog_total :: "u64 option"
  prog_bytes :: u64

definition progress_default :: progress where
  "progress_default = \<lparr>prog_phase = [], prog_completed = 0, prog_failed = 0, prog_total = None,
     prog_bytes = 0\<rparr>"

record export_outcome =
  exp_full :: bool
  exp_retained :: bool
  exp_files :: nat
  exp_bytes :: u64
  exp_failed :: nat

record outcome =
  out_verification :: verification
  out_export :: "export_outcome option"
  out_publication :: "string option"

record job =
  job_id :: string
  job_request :: request
  job_status :: status
  job_created :: int
  job_updated :: int
  job_progress :: progress
  job_failure :: "string option"
  job_retry_of :: "string option"
  job_outcome :: "outcome option"
  job_key :: "string option"

record completion =
  comp_schema :: nat
  comp_job :: string
  comp_request :: request
  comp_outcome :: outcome
  comp_at :: int

record delivery =
  event :: completion
  pending_targets :: "string list"

record completion_target =
  tgt_region :: region
  tgt_identity :: string

record ledger =
  schema_version :: nat
  jobs :: "job list"
  completions :: "delivery list"

record limits =
  max_running :: nat
  max_queued :: nat
  retain_terminal :: nat

record store =
  st_targets :: "completion_target list"
  st_ledger :: ledger
  st_limits :: limits
  st_saved :: ledger

text \<open>The libraries: the size of a serialised completion (\<open>None\<close> when it cannot be serialised), the
  UUID syntax check, and the hexadecimal SHA-256 of a key.\<close>

record job_lib =
  completion_size :: "completion \<Rightarrow> nat option"
  uuid_ok :: "string \<Rightarrow> bool"
  key_digest :: "string \<Rightarrow> string"

definition MAX_COMPLETION_EVENTS :: nat where
  "MAX_COMPLETION_EVENTS = 4096"

definition bounded_completion :: "job_lib \<Rightarrow> completion \<Rightarrow> bool" where
  "bounded_completion lib e = is_some_and (\<lambda>n. n \<le> 65536) (completion_size lib e)"

definition target_identity :: "string \<Rightarrow> bool" where
  "target_identity v \<longleftrightarrow> length v = 64 \<and> list_all is_lower_hexdigit v"

definition valid_request :: "request \<Rightarrow> bool" where
  "valid_request r \<longleftrightarrow> req_region r \<noteq> Cn \<and> req_profile r \<noteq> [] \<and> length (req_profile r) \<le> 64
     \<and> list_all (\<lambda>c. is_ascii_alphanumeric c \<or> c = CHR ''_'' \<or> c = CHR ''-'') (req_profile r)"

definition region_of :: "job \<Rightarrow> region" where
  "region_of j = req_region (job_request j)"

definition active_jobs :: "job list \<Rightarrow> job list" where
  "active_jobs js = filter (\<lambda>j. occupies_slot (job_status j)) js"

definition queued_count :: "job list \<Rightarrow> nat" where
  "queued_count js = length (filter (\<lambda>j. job_status j = Queued) js)"

text \<open>Deliveries that unfinished jobs may still need.\<close>

definition reserved :: "completion_target list \<Rightarrow> job list \<Rightarrow> nat" where
  "reserved ts js = length (filter (\<lambda>j. \<not> terminal (job_status j)
     \<and> list_ex (\<lambda>t. tgt_region t = region_of j) ts) js)"

subsection \<open>Committing\<close>

text \<open>The loop that turns newly completed jobs into deliveries.\<close>

definition new_delivery :: "completion_target list \<Rightarrow> job list \<Rightarrow> job \<Rightarrow> delivery option" where
  "new_delivery ts old j =
     (if job_status j \<noteq> Completed
         \<or> list_ex (\<lambda>o'. job_id o' = job_id j \<and> job_status o' = Completed) old then None
      else (case job_outcome j of
          None \<Rightarrow> None
        | Some out \<Rightarrow>
            (let pend = map tgt_identity (filter (\<lambda>t. tgt_region t = region_of j) ts) in
             if pend = [] then None
             else Some \<lparr>event = \<lparr>comp_schema = 1, comp_job = job_id j, comp_request = job_request j,
                    comp_outcome = out, comp_at = job_updated j\<rparr>, pending_targets = pend\<rparr>)))"

fun add_completions :: "job_lib \<Rightarrow> completion_target list \<Rightarrow> job list \<Rightarrow> job list \<Rightarrow> delivery list
    \<Rightarrow> job_error + delivery list" where
  "add_completions lib ts old [] cs = Inr cs"
| "add_completions lib ts old (j # js) cs =
     (case new_delivery ts old j of
        None \<Rightarrow> add_completions lib ts old js cs
      | Some d \<Rightarrow>
          and_then (fail_if (MAX_COMPLETION_EVENTS \<le> length cs) Full) (\<lambda>_.
          and_then (fail_if (\<not> bounded_completion lib (event d)) Invalid) (\<lambda>_.
          add_completions lib ts old js (cs @ [d]))))"

definition retain :: "nat \<Rightarrow> job list \<Rightarrow> job list" where
  "retain n js =
     (if 0 < n then
        (let term = sort (map (\<lambda>j. (job_updated j, job_id j)) (filter (\<lambda>j. terminal (job_status j)) js));
             ids = set (map snd (take (length term - n) term)) in
         filter (\<lambda>j. job_id j \<notin> ids) js)
      else js)"

definition job_commit :: "job_lib \<Rightarrow> bool \<Rightarrow> store \<Rightarrow> ledger \<Rightarrow> (job_error + unit) \<times> store" where
  "job_commit lib persisted st l =
     (case add_completions lib (st_targets st) (jobs (st_ledger st)) (jobs l) (completions l) of
        Inl e \<Rightarrow> (Inl e, st)
      | Inr cs \<Rightarrow>
          (let l' = \<lparr>schema_version = 2, jobs = retain (retain_terminal (st_limits st)) (jobs l),
                 completions = cs\<rparr> in
           if persisted then (Inr (), st\<lparr>st_ledger := l', st_saved := l'\<rparr>)
           else (Inl Storage, st)))"

subsection \<open>Opening\<close>

text \<open>What reading \<open>jobs.json\<close> gives.\<close>

datatype ledger_file = Missing | Unreadable | Garbled | Parsed ledger

definition read_ledger :: "ledger_file \<Rightarrow> job_error + ledger" where
  "read_ledger f = (case f of
      Missing \<Rightarrow> Inr \<lparr>schema_version = 2, jobs = [], completions = []\<rparr>
    | Unreadable \<Rightarrow> Inl Storage
    | Garbled \<Rightarrow> Inl Storage
    | Parsed l \<Rightarrow> Inr l)"

definition delivery_ok :: "job_lib \<Rightarrow> delivery \<Rightarrow> bool" where
  "delivery_ok lib d \<longleftrightarrow> bounded_completion lib (event d) \<and> comp_schema (event d) = 1
     \<and> uuid_ok lib (comp_job (event d))
     \<and> valid_request (comp_request (event d))
     \<and> ver_region (out_verification (comp_outcome (event d))) = req_region (comp_request (event d))
     \<and> pending_targets d \<noteq> [] \<and> length (pending_targets d) \<le> 16
     \<and> list_all target_identity (pending_targets d) \<and> distinct (pending_targets d)"

definition job_ok :: "job_lib \<Rightarrow> job \<Rightarrow> bool" where
  "job_ok lib j \<longleftrightarrow> (case job_key j of None \<Rightarrow> True | Some k \<Rightarrow> length k = 64 \<and> list_all is_lower_hexdigit k)
     \<and> uuid_ok lib (job_id j) \<and> valid_request (job_request j)"

definition keys_of :: "job list \<Rightarrow> string list" where
  "keys_of js = List.map_filter job_key js"

text \<open>A job that a stopped service left running or cancelling.\<close>

definition interrupt :: "int \<Rightarrow> job \<Rightarrow> job" where
  "interrupt now j =
     (if occupies_slot (job_status j)
      then j\<lparr>job_status := Failed, job_outcome := None, job_failure := Some ''service_interrupted'',
             job_updated := now\<rparr>
      else j)"

text \<open>\<open>JobStore::open\<close>; \<open>dir_ok\<close>: directory and lock file can be created, \<open>lock_free\<close>: nobody holds
  the lock.\<close>

definition job_open ::
  "job_lib \<Rightarrow> limits \<Rightarrow> bool \<Rightarrow> bool \<Rightarrow> ledger_file \<Rightarrow> int \<Rightarrow> bool \<Rightarrow> job_error + store" where
  "job_open lib lim dir_ok lock_free f now persisted =
     and_then (fail_if (max_running lim = 0 \<or> max_queued lim = 0) Invalid) (\<lambda>_.
     and_then (fail_if (\<not> dir_ok) Storage) (\<lambda>_.
     and_then (fail_if (\<not> lock_free) Locked) (\<lambda>_.
     and_then (read_ledger f) (\<lambda>l.
     and_then (fail_if (schema_version l \<noteq> 1 \<and> schema_version l \<noteq> 2) Storage) (\<lambda>_.
     and_then (fail_if (MAX_COMPLETION_EVENTS < length (completions l)) Storage) (\<lambda>_.
     and_then (fail_if (\<not> list_all (delivery_ok lib) (completions l)
         \<or> \<not> distinct (map (\<lambda>d. comp_job (event d)) (completions l))) Storage) (\<lambda>_.
     and_then (fail_if (\<not> list_all (job_ok lib) (jobs l) \<or> \<not> distinct (keys_of (jobs l))
         \<or> \<not> distinct (map job_id (jobs l))) Storage) (\<lambda>_.
     (let l' = l\<lparr>jobs := map (interrupt now) (jobs l)\<rparr>;
          st = \<lparr>st_targets = [], st_ledger = l', st_limits = lim, st_saved = l\<rparr> in
      case job_commit lib persisted st l' of
        (Inl e, _) \<Rightarrow> Inl e
      | (Inr _, st') \<Rightarrow> Inr st')))))))))"

subsection \<open>Completion targets\<close>

definition configure_completions :: "completion_target list \<Rightarrow> store \<Rightarrow> (job_error + unit) \<times> store" where
  "configure_completions ts st =
     (if 16 < length ts
         \<or> list_ex (\<lambda>t. tgt_region t = Cn \<or> \<not> target_identity (tgt_identity t)) ts
         \<or> \<not> distinct (map tgt_identity ts) then (Inl Invalid, st)
      else if MAX_COMPLETION_EVENTS < reserved ts (jobs (st_ledger st)) + length (completions (st_ledger st))
      then (Inl Full, st)
      else (Inr (), st\<lparr>st_targets := ts\<rparr>))"

fun remove_target :: "string \<Rightarrow> string \<Rightarrow> delivery list \<Rightarrow> job_error + delivery list" where
  "remove_target i target [] = Inl NotFound"
| "remove_target i target (d # ds) =
     (if comp_job (event d) = i then
        and_then (fail_if (target \<notin> set (pending_targets d)) NotFound) (\<lambda>_.
        Inr (d\<lparr>pending_targets := filter (\<lambda>t. t \<noteq> target) (pending_targets d)\<rparr> # ds))
      else and_then (remove_target i target ds) (\<lambda>ds'. Inr (d # ds')))"

definition acknowledge_completion ::
  "job_lib \<Rightarrow> bool \<Rightarrow> string \<Rightarrow> string \<Rightarrow> store \<Rightarrow> (job_error + unit) \<times> store" where
  "acknowledge_completion lib persisted i target st =
     (if \<not> target_identity target \<or> \<not> uuid_ok lib i then (Inl Invalid, st)
      else
        (case remove_target i target (completions (st_ledger st)) of
           Inl e \<Rightarrow> (Inl e, st)
         | Inr ds \<Rightarrow> job_commit lib persisted st
             (st_ledger st\<lparr>completions := filter (\<lambda>d. pending_targets d \<noteq> []) ds\<rparr>)))"

subsection \<open>Submitting\<close>

definition job_get :: "string \<Rightarrow> store \<Rightarrow> job option" where
  "job_get i st = List.find (\<lambda>j. job_id j = i) (jobs (st_ledger st))"

definition enqueue ::
  "job_lib \<Rightarrow> bool \<Rightarrow> int \<Rightarrow> string \<Rightarrow> request \<Rightarrow> string option \<Rightarrow> string option \<Rightarrow> store
   \<Rightarrow> (job_error + job) \<times> store" where
  "enqueue lib persisted now fresh r origin key st =
     (let l = st_ledger st in
      if \<not> valid_request r then (Inl Invalid, st)
      else if max_queued (st_limits st) \<le> queued_count (jobs l) then (Inl Full, st)
      else if list_ex (\<lambda>t. tgt_region t = req_region r) (st_targets st)
         \<and> MAX_COMPLETION_EVENTS \<le> length (completions l) + reserved (st_targets st) (jobs l)
      then (Inl Full, st)
      else
        (let j = \<lparr>job_id = fresh, job_request = r, job_status = Queued, job_created = now,
               job_updated = now, job_progress = progress_default, job_failure = None,
               job_retry_of = origin, job_outcome = None, job_key = key\<rparr> in
         case job_commit lib persisted st (l\<lparr>jobs := jobs l @ [j]\<rparr>) of
           (Inl e, st') \<Rightarrow> (Inl e, st')
         | (Inr _, st') \<Rightarrow> (Inr j, st')))"

definition submit :: "job_lib \<Rightarrow> bool \<Rightarrow> int \<Rightarrow> string \<Rightarrow> request \<Rightarrow> store \<Rightarrow> (job_error + job) \<times> store" where
  "submit lib persisted now fresh r st = enqueue lib persisted now fresh r None None st"

definition key_text_ok :: "string \<Rightarrow> bool" where
  "key_text_ok k \<longleftrightarrow> k \<noteq> [] \<and> length k \<le> 128
     \<and> list_all (\<lambda>b. is_ascii_alphanumeric b \<or> b \<in> set ''-_.:'') k"

definition submit_idempotent ::
  "job_lib \<Rightarrow> bool \<Rightarrow> int \<Rightarrow> string \<Rightarrow> request \<Rightarrow> string \<Rightarrow> store \<Rightarrow> (job_error + job) \<times> store" where
  "submit_idempotent lib persisted now fresh r k st =
     (if \<not> valid_request r \<or> \<not> key_text_ok k then (Inl Invalid, st)
      else
        (case List.find (\<lambda>j. job_key j = Some (key_digest lib k)) (jobs (st_ledger st)) of
           Some j \<Rightarrow> (if job_request j = r then Inr j else Inl Conflict, st)
         | None \<Rightarrow> enqueue lib persisted now fresh r None (Some (key_digest lib k)) st))"

definition job_retry :: "job_lib \<Rightarrow> bool \<Rightarrow> int \<Rightarrow> string \<Rightarrow> string \<Rightarrow> store \<Rightarrow> (job_error + job) \<times> store" where
  "job_retry lib persisted now fresh i st =
     (case job_get i st of
        None \<Rightarrow> (Inl NotFound, st)
      | Some j \<Rightarrow>
          if job_status j \<noteq> Failed \<and> job_status j \<noteq> status.Cancelled then (Inl Conflict, st)
          else enqueue lib persisted now fresh (job_request j) (Some i) None st)"

subsection \<open>Running\<close>

text \<open>\<open>claim\<close>: the first queued job whose region is idle.\<close>

fun start_first :: "int \<Rightarrow> region list \<Rightarrow> job list \<Rightarrow> (job \<times> job list) option" where
  "start_first now busy [] = None"
| "start_first now busy (j # js) =
     (if job_status j = Queued \<and> region_of j \<notin> set busy
      then (let j' = j\<lparr>job_status := Running, job_updated := now\<rparr> in Some (j', j' # js))
      else map_option (\<lambda>(k, ks). (k, j # ks)) (start_first now busy js))"

definition claim :: "job_lib \<Rightarrow> bool \<Rightarrow> int \<Rightarrow> store \<Rightarrow> (job_error + job option) \<times> store" where
  "claim lib persisted now st =
     (let busy = map region_of (active_jobs (jobs (st_ledger st))) in
      if max_running (st_limits st) \<le> length busy then (Inr None, st)
      else
        (case start_first now busy (jobs (st_ledger st)) of
           None \<Rightarrow> (Inr None, st)
         | Some (j, js) \<Rightarrow>
             (case job_commit lib persisted st (st_ledger st\<lparr>jobs := js\<rparr>) of
                (Inl e, st') \<Rightarrow> (Inl e, st')
              | (Inr _, st') \<Rightarrow> (Inr (Some j), st'))))"

fun apply_first :: "int \<Rightarrow> string \<Rightarrow> (job \<Rightarrow> job_error + job) \<Rightarrow> job list \<Rightarrow> job_error + (job \<times> job list)" where
  "apply_first now i f [] = Inl NotFound"
| "apply_first now i f (j # js) =
     (if job_id j = i then
        and_then (f j) (\<lambda>j'. Inr (j'\<lparr>job_updated := now\<rparr>, j'\<lparr>job_updated := now\<rparr> # js))
      else and_then (apply_first now i f js) (\<lambda>(k, ks). Inr (k, j # ks)))"

definition mutate ::
  "job_lib \<Rightarrow> bool \<Rightarrow> int \<Rightarrow> string \<Rightarrow> (job \<Rightarrow> job_error + job) \<Rightarrow> store \<Rightarrow> (job_error + job) \<times> store" where
  "mutate lib persisted now i f st =
     (case apply_first now i f (jobs (st_ledger st)) of
        Inl e \<Rightarrow> (Inl e, st)
      | Inr (j, js) \<Rightarrow>
          (case job_commit lib persisted st (st_ledger st\<lparr>jobs := js\<rparr>) of
             (Inl e, st') \<Rightarrow> (Inl e, st')
           | (Inr _, st') \<Rightarrow> (Inr j, st')))"

definition cancel_job :: "job \<Rightarrow> job_error + job" where
  "cancel_job j = (case job_status j of
      Queued \<Rightarrow> Inr (j\<lparr>job_status := status.Cancelled\<rparr>)
    | Running \<Rightarrow> Inr (j\<lparr>job_status := Cancelling\<rparr>)
    | Cancelling \<Rightarrow> Inr (j\<lparr>job_status := Cancelling\<rparr>)
    | _ \<Rightarrow> Inl Conflict)"

definition cancel :: "job_lib \<Rightarrow> bool \<Rightarrow> int \<Rightarrow> string \<Rightarrow> store \<Rightarrow> (job_error + job) \<times> store" where
  "cancel lib persisted now i st = mutate lib persisted now i cancel_job st"

definition progress_ok :: "progress \<Rightarrow> bool" where
  "progress_ok p \<longleftrightarrow> length (prog_phase p) \<le> 64
     \<and> list_all (\<lambda>c. is_ascii_alphanumeric c \<or> c = CHR ''_'') (prog_phase p)
     \<and> \<not> is_some_and (\<lambda>n. unat n < min (unat (prog_completed p) + unat (prog_failed p)) (2 ^ 64 - 1))
          (prog_total p)"

definition set_progress :: "progress \<Rightarrow> job \<Rightarrow> job_error + job" where
  "set_progress p j = (if occupies_slot (job_status j) then Inr (j\<lparr>job_progress := p\<rparr>) else Inl Conflict)"

definition report_progress ::
  "job_lib \<Rightarrow> bool \<Rightarrow> int \<Rightarrow> string \<Rightarrow> progress \<Rightarrow> store \<Rightarrow> (job_error + job) \<times> store" where
  "report_progress lib persisted now i p st =
     (if \<not> progress_ok p then (Inl Invalid, st) else mutate lib persisted now i (set_progress p) st)"

definition failure_code_ok :: "string \<Rightarrow> bool" where
  "failure_code_ok s \<longleftrightarrow> s \<noteq> [] \<and> length s \<le> 64
     \<and> list_all (\<lambda>c. is_ascii_lowercase c \<or> c = CHR ''_'') s"

text \<open>The closure of \<open>finish_with_outcome\<close>: the new status first, then outcome and failure by it.\<close>

definition finished_status :: "string option \<Rightarrow> job \<Rightarrow> job_error + status" where
  "finished_status failure j = (case job_status j of
      Cancelling \<Rightarrow> Inr status.Cancelled
    | Running \<Rightarrow> if failure \<noteq> None \<or> 0 < prog_failed (job_progress j) then Inr Failed else Inr Completed
    | _ \<Rightarrow> Inl Conflict)"

definition finish_job :: "string option \<Rightarrow> outcome option \<Rightarrow> job \<Rightarrow> job_error + job" where
  "finish_job failure out j =
     and_then (fail_if (is_some_and (\<lambda>o'. ver_region (out_verification o') \<noteq> region_of j) out) Invalid) (\<lambda>_.
     and_then (finished_status failure j) (\<lambda>s.
     Inr (j\<lparr>job_status := s,
            job_outcome := (if s = Completed then out else None),
            job_failure := (if s = Failed then Some (unwrap_or ''partial_failure'' failure) else None)\<rparr>)))"

definition finish_with_outcome ::
  "job_lib \<Rightarrow> bool \<Rightarrow> int \<Rightarrow> string \<Rightarrow> string option \<Rightarrow> outcome option \<Rightarrow> store
   \<Rightarrow> (job_error + job) \<times> store" where
  "finish_with_outcome lib persisted now i failure out st =
     (if is_some_and (\<lambda>s. \<not> failure_code_ok s) failure then (Inl Invalid, st)
      else mutate lib persisted now i (finish_job failure out) st)"

definition finish :: "job_lib \<Rightarrow> bool \<Rightarrow> int \<Rightarrow> string \<Rightarrow> string option \<Rightarrow> store \<Rightarrow> (job_error + job) \<times> store" where
  "finish lib persisted now i failure st = finish_with_outcome lib persisted now i failure None st"

end
