(* ===== verification/Job_Invariant.thy ===== *)
theory Job_Invariant
  imports Job_Store
begin

text \<open>
  The job ledger as a state machine (\<open>src/jobs.rs\<close>): the step relation of the store, the
  reachable stores, and the invariant every operation keeps, restarts included.
\<close>

subsection \<open>Lists changed at one place\<close>

lemma apply_first_Inr:
  "apply_first now i f js = Inr (k, ks) \<Longrightarrow>
     \<exists>pre j post j'. js = pre @ j # post \<and> i \<notin> set (map job_id pre) \<and> job_id j = i \<and> f j = Inr j'
       \<and> k = j'\<lparr>job_updated := now\<rparr> \<and> ks = pre @ k # post"
proof (induction js arbitrary: k ks)
  case (Cons a js)
  show ?case
  proof (cases "job_id a = i")
    case True
    then obtain j' where "f a = Inr j'" "k = j'\<lparr>job_updated := now\<rparr>" "ks = k # js"
      using Cons.prems by (auto simp: result_simps)
    with True show ?thesis by (intro exI[of _ "[]"]) auto
  next
    case False
    then obtain ks' where "apply_first now i f js = Inr (k, ks')" "ks = a # ks'"
      using Cons.prems by (auto simp: result_simps)
    moreover from this(1) obtain pre j post j' where "js = pre @ j # post" "i \<notin> set (map job_id pre)"
      "job_id j = i" "f j = Inr j'" "k = j'\<lparr>job_updated := now\<rparr>" "ks' = pre @ k # post"
      using Cons.IH by blast
    ultimately show ?thesis using False by (intro exI[of _ "a # pre"]) auto
  qed
qed simp

lemma start_first_Some:
  "start_first now busy js = Some (k, ks) \<Longrightarrow>
     \<exists>pre j post. js = pre @ j # post \<and> (\<forall>x\<in>set pre. \<not> (job_status x = Queued \<and> region_of x \<notin> set busy))
       \<and> job_status j = Queued \<and> region_of j \<notin> set busy
       \<and> k = j\<lparr>job_status := Running, job_updated := now\<rparr> \<and> ks = pre @ k # post"
proof (induction js arbitrary: k ks)
  case (Cons a js)
  show ?case
  proof (cases "job_status a = Queued \<and> region_of a \<notin> set busy")
    case True
    with Cons.prems show ?thesis by (intro exI[of _ "[]"]) (auto simp: Let_def)
  next
    case False
    then obtain ks' where "start_first now busy js = Some (k, ks')" "ks = a # ks'"
      using Cons.prems by (auto split: if_splits)
    moreover from this(1) obtain pre j post where "js = pre @ j # post"
      "\<forall>x\<in>set pre. \<not> (job_status x = Queued \<and> region_of x \<notin> set busy)"
      "job_status j = Queued" "region_of j \<notin> set busy"
      "k = j\<lparr>job_status := Running, job_updated := now\<rparr>" "ks' = pre @ k # post"
      using Cons.IH by blast
    ultimately show ?thesis using False by (intro exI[of _ "a # pre"]) auto
  qed
qed simp

lemma start_first_None:
  "start_first now busy js = None \<longleftrightarrow> (\<forall>x\<in>set js. \<not> (job_status x = Queued \<and> region_of x \<notin> set busy))"
  by (induction js) (auto simp: Let_def)

lemma remove_target_Inr:
  "remove_target i t ds = Inr ds' \<Longrightarrow>
     \<exists>pre d post. ds = pre @ d # post \<and> comp_job (event d) = i \<and> t \<in> set (pending_targets d)
       \<and> ds' = pre @ d\<lparr>pending_targets := filter (\<lambda>x. x \<noteq> t) (pending_targets d)\<rparr> # post"
proof (induction ds arbitrary: ds')
  case (Cons a ds)
  show ?case
  proof (cases "comp_job (event a) = i")
    case True
    with Cons.prems show ?thesis by (intro exI[of _ "[]"]) (auto simp: result_simps)
  next
    case False
    then obtain es where "remove_target i t ds = Inr es" "ds' = a # es"
      using Cons.prems by (auto simp: result_simps)
    moreover from this(1) obtain pre d post where "ds = pre @ d # post" "comp_job (event d) = i"
      "t \<in> set (pending_targets d)"
      "es = pre @ d\<lparr>pending_targets := filter (\<lambda>x. x \<noteq> t) (pending_targets d)\<rparr> # post"
      using Cons.IH by blast
    ultimately show ?thesis by (intro exI[of _ "a # pre"]) auto
  qed
qed simp

subsection \<open>Committing\<close>

lemma add_completions_Inr:
  "add_completions lib ts old js cs = Inr cs' \<Longrightarrow>
     cs' = cs @ List.map_filter (new_delivery ts old) js
     \<and> (\<forall>d\<in>set (List.map_filter (new_delivery ts old) js). bounded_completion lib (event d))"
proof (induction js arbitrary: cs)
  case (Cons j js)
  show ?case
  proof (cases "new_delivery ts old j")
    case None
    with Cons show ?thesis by (simp add: List.map_filter_simps)
  next
    case (Some d)
    with Cons.prems have "add_completions lib ts old js (cs @ [d]) = Inr cs'" "bounded_completion lib (event d)"
      by (auto simp: result_simps)
    with Some Cons.IH[of "cs @ [d]"] show ?thesis by (simp add: List.map_filter_simps)
  qed
qed (simp add: List.map_filter_simps)

lemma add_completions_none:
  assumes "\<And>j. j \<in> set js \<Longrightarrow> new_delivery ts old j = None"
  shows "add_completions lib ts old js cs = Inr cs"
  using assms by (induction js) auto

lemma add_completions_not_full:
  "length cs + length (List.map_filter (new_delivery ts old) js) \<le> MAX_COMPLETION_EVENTS \<Longrightarrow>
     add_completions lib ts old js cs \<noteq> Inl Full"
proof (induction js arbitrary: cs)
  case (Cons j js)
  then show ?case
    by (cases "new_delivery ts old j") (auto simp: result_simps List.map_filter_simps)
qed simp

lemma job_commit_Inr:
  assumes "job_commit lib p st l = (Inr u, st')"
  shows "p \<and> (\<exists>cs. add_completions lib (st_targets st) (jobs (st_ledger st)) (jobs l) (completions l) = Inr cs
    \<and> st' = st\<lparr>st_ledger := \<lparr>schema_version = 2, jobs = retain (retain_terminal (st_limits st)) (jobs l),
                               completions = cs\<rparr>,
               st_saved := \<lparr>schema_version = 2, jobs = retain (retain_terminal (st_limits st)) (jobs l),
                               completions = cs\<rparr>\<rparr>)"
  using assms by (auto simp: job_commit_def Let_def split: sum.splits if_splits)

lemma job_commit_Inl: "job_commit lib p st l = (Inl e, st') \<Longrightarrow> st' = st"
  by (auto simp: job_commit_def Let_def split: sum.splits if_splits)

lemma retain_filter: "\<exists>P. retain n js = filter P js \<and> (\<forall>j\<in>set js. \<not> terminal (job_status j) \<longrightarrow> distinct (map job_id js) \<longrightarrow> P j)"
proof (cases "0 < n")
  case True
  let ?final = "sort (map (\<lambda>j. (job_updated j, job_id j)) (filter (\<lambda>j. terminal (job_status j)) js))"
  let ?ids = "set (map snd (take (length ?final - n) ?final))"
  have "P j" if "j \<in> set js" "\<not> terminal (job_status j)" "distinct (map job_id js)" "P = (\<lambda>j. job_id j \<notin> ?ids)" for P j
  proof -
    have "?ids \<subseteq> job_id ` {x \<in> set js. terminal (job_status x)}"
      using set_take_subset[of "length ?final - n" ?final] by auto
    moreover have "job_id j \<notin> job_id ` {x \<in> set js. terminal (job_status x)}"
      using that(1-3) by (auto simp: distinct_map inj_on_def)
    ultimately show ?thesis using that(4) by blast
  qed
  with True show ?thesis unfolding retain_def by (intro exI[of _ "\<lambda>j. job_id j \<notin> ?ids"]) (auto simp: Let_def)
next
  case False
  then show ?thesis unfolding retain_def by (intro exI[of _ "\<lambda>_. True"]) auto
qed


subsection \<open>The invariant\<close>

definition outcome_ok :: "job \<Rightarrow> bool" where
  "outcome_ok j = (case job_outcome j of
      None \<Rightarrow> True | Some out \<Rightarrow> ver_region (out_verification out) = region_of j)"

definition jobs_wf :: "job_lib \<Rightarrow> job list \<Rightarrow> bool" where
  "jobs_wf lib js \<longleftrightarrow> list_all (job_ok lib) js \<and> list_all outcome_ok js \<and> distinct (keys_of js)
     \<and> distinct (map job_id js)"

definition deliveries_wf :: "job_lib \<Rightarrow> delivery list \<Rightarrow> job list \<Rightarrow> bool" where
  "deliveries_wf lib cs js \<longleftrightarrow> list_all (delivery_ok lib) cs
     \<and> distinct (map (\<lambda>d. comp_job (event d)) cs)
     \<and> list_all (\<lambda>d. list_all (\<lambda>j. job_id j = comp_job (event d) \<longrightarrow> job_status j = Completed) js) cs"

definition targets_wf :: "completion_target list \<Rightarrow> bool" where
  "targets_wf ts \<longleftrightarrow> length ts \<le> 16 \<and> list_all (\<lambda>t. tgt_region t \<noteq> Cn \<and> target_identity (tgt_identity t)) ts
     \<and> distinct (map tgt_identity ts)"

definition active_wf :: "limits \<Rightarrow> job list \<Rightarrow> bool" where
  "active_wf lim js \<longleftrightarrow> length (active_jobs js) \<le> max_running lim
     \<and> distinct (map region_of (active_jobs js))"

definition store_ok :: "job_lib \<Rightarrow> store \<Rightarrow> bool" where
  "store_ok lib st \<longleftrightarrow>
     jobs_wf lib (jobs (st_ledger st))
     \<and> deliveries_wf lib (completions (st_ledger st)) (jobs (st_ledger st))
     \<and> targets_wf (st_targets st)
     \<and> active_wf (st_limits st) (jobs (st_ledger st))
     \<and> length (completions (st_ledger st)) + reserved (st_targets st) (jobs (st_ledger st)) \<le> MAX_COMPLETION_EVENTS
     \<and> schema_version (st_ledger st) = 2 \<and> st_saved st = st_ledger st
     \<and> 0 < max_running (st_limits st) \<and> 0 < max_queued (st_limits st)"

lemmas wf_defs = jobs_wf_def deliveries_wf_def targets_wf_def active_wf_def

text \<open>Filtering jobs keeps everything.\<close>

lemma keys_of_simps [simp]:
  "keys_of [] = []"
  "keys_of (j # js) = (case job_key j of None \<Rightarrow> keys_of js | Some k \<Rightarrow> k # keys_of js)"
  "keys_of (xs @ ys) = keys_of xs @ keys_of ys"
  by (auto simp: keys_of_def List.map_filter_simps List.map_filter_def split: option.splits)

lemma set_keys_filter: "set (keys_of (filter P js)) \<subseteq> set (keys_of js)"
  by (induction js) (auto split: option.splits)

lemma distinct_keys_filter: "distinct (keys_of js) \<Longrightarrow> distinct (keys_of (filter P js))"
  using set_keys_filter[of P] by (induction js) (auto split: option.splits)

lemma distinct_map_filter_pred: "distinct (map f js) \<Longrightarrow> distinct (map f (filter P js))"
  by (rule distinct_map_filter)

lemma jobs_wf_filter: "jobs_wf lib js \<Longrightarrow> jobs_wf lib (filter P js)"
  by (auto simp: jobs_wf_def list_all_iff intro: distinct_keys_filter distinct_map_filter)

lemma deliveries_wf_filter: "deliveries_wf lib cs js \<Longrightarrow> deliveries_wf lib cs (filter P js)"
  by (auto simp: deliveries_wf_def list_all_iff)

lemma active_jobs_filter: "active_jobs (filter P js) = filter P (active_jobs js)"
  unfolding active_jobs_def filter_filter by (rule filter_cong) auto

lemma active_wf_filter: "active_wf lim js \<Longrightarrow> active_wf lim (filter P js)"
  unfolding active_wf_def active_jobs_filter
  by (auto intro: distinct_map_filter le_trans[OF length_filter_le])

lemma reserved_filter: "reserved ts (filter P js) \<le> reserved ts js"
proof -
  have "filter Q (filter P js) = filter P (filter Q js)" for Q :: "job \<Rightarrow> bool"
    unfolding filter_filter by (rule filter_cong) auto
  then show ?thesis unfolding reserved_def by (metis length_filter_le)
qed

subsection \<open>Deliveries made by a commit\<close>

lemma new_delivery_Some:
  assumes "new_delivery ts old j = Some d"
  shows "job_status j = Completed \<and> comp_job (event d) = job_id j \<and> comp_request (event d) = job_request j
    \<and> comp_schema (event d) = 1 \<and> job_outcome j = Some (comp_outcome (event d))
    \<and> pending_targets d = map tgt_identity (filter (\<lambda>t. tgt_region t = region_of j) ts)
    \<and> pending_targets d \<noteq> []
    \<and> \<not> list_ex (\<lambda>x. job_id x = job_id j \<and> job_status x = Completed) old"
  using assms by (auto simp: new_delivery_def Let_def split: if_splits option.splits)

lemma new_delivery_ok:
  assumes "new_delivery ts old j = Some d" "targets_wf ts" "job_ok lib j" "outcome_ok j"
    and "bounded_completion lib (event d)"
  shows "delivery_ok lib d"
proof -
  note d = new_delivery_Some[OF assms(1)]
  have "length (pending_targets d) \<le> 16"
    using d assms(2) le_trans[OF length_filter_le] by (auto simp: targets_wf_def)
  moreover have "distinct (pending_targets d)"
    using d assms(2) by (auto simp: targets_wf_def intro: distinct_map_filter)
  moreover have "list_all target_identity (pending_targets d)"
    using d assms(2) by (auto simp: targets_wf_def list_all_iff)
  ultimately show ?thesis
    using d assms(3-5) unfolding delivery_ok_def by (auto simp: job_ok_def outcome_ok_def region_of_def)
qed

lemma new_delivery_ids:
  "map (\<lambda>d. comp_job (event d)) (List.map_filter (new_delivery ts old) js)
     = map job_id (filter (\<lambda>j. new_delivery ts old j \<noteq> None) js)"
  by (induction js) (auto simp: List.map_filter_simps dest: new_delivery_Some split: option.splits)

lemma in_map_filter: "y \<in> set (List.map_filter f xs) \<longleftrightarrow> (\<exists>x\<in>set xs. f x = Some y)"
  by (induction xs) (auto simp: List.map_filter_simps split: option.splits)

text \<open>A commit keeps the invariant when the proposed ledger satisfies it and has room.\<close>

lemma commit_ok:
  assumes ok: "store_ok lib st" and c: "job_commit lib p st l = (Inr u, st')"
    and jw: "jobs_wf lib (jobs l)" and aw: "active_wf (st_limits st) (jobs l)"
    and dw: "deliveries_wf lib (completions l) (jobs l)"
    and fresh: "\<And>d j. d \<in> set (completions l) \<Longrightarrow> j \<in> set (jobs l) \<Longrightarrow> job_id j = comp_job (event d)
      \<Longrightarrow> new_delivery (st_targets st) (jobs (st_ledger st)) j = None"
    and room: "length (completions l)
      + length (List.map_filter (new_delivery (st_targets st) (jobs (st_ledger st))) (jobs l))
      + reserved (st_targets st) (jobs l) \<le> MAX_COMPLETION_EVENTS"
  shows "store_ok lib st'"
proof -
  let ?nd = "new_delivery (st_targets st) (jobs (st_ledger st))"
  let ?new = "List.map_filter ?nd (jobs l)"
  obtain P where P: "retain (retain_terminal (st_limits st)) (jobs l) = filter P (jobs l)"
    using retain_filter by blast
  from job_commit_Inr[OF c] obtain cs where
    cs: "add_completions lib (st_targets st) (jobs (st_ledger st)) (jobs l) (completions l) = Inr cs"
    and st': "st' = st\<lparr>st_ledger := \<lparr>schema_version = 2, jobs = filter P (jobs l), completions = cs\<rparr>,
               st_saved := \<lparr>schema_version = 2, jobs = filter P (jobs l), completions = cs\<rparr>\<rparr>"
    unfolding P by blast
  have cs': "cs = completions l @ ?new" and b: "\<forall>d\<in>set ?new. bounded_completion lib (event d)"
    using add_completions_Inr[OF cs] by auto
  have tw: "targets_wf (st_targets st)" using ok by (simp add: store_ok_def)
  have new: "delivery_ok lib d \<and> (\<exists>j\<in>set (jobs l). job_id j = comp_job (event d) \<and> job_status j = Completed \<and> ?nd j \<noteq> None)"
    if "d \<in> set ?new" for d
    using that jw b tw new_delivery_ok new_delivery_Some
    by (fastforce simp: in_map_filter jobs_wf_def list_all_iff)
  have same: "j = k" if "j \<in> set (jobs l)" "k \<in> set (jobs l)" "job_id j = job_id k" for j k
    using jw that by (auto simp: jobs_wf_def distinct_map inj_on_def)
  have "distinct (map (\<lambda>d. comp_job (event d)) cs)"
  proof -
    have "distinct (map (\<lambda>d. comp_job (event d)) ?new)"
      unfolding new_delivery_ids using jw by (auto simp: jobs_wf_def intro: distinct_map_filter)
    moreover have "comp_job (event d) \<noteq> comp_job (event e)" if "d \<in> set (completions l)" "e \<in> set ?new" for d e
      using new[OF that(2)] fresh[OF that(1)] by fastforce
    ultimately show ?thesis using dw by (auto simp: cs' deliveries_wf_def)
  qed
  moreover have "list_all (delivery_ok lib) cs"
    using new dw by (auto simp: cs' deliveries_wf_def list_all_iff)
  moreover have "job_status j = Completed" if "d \<in> set cs" "j \<in> set (jobs l)" "job_id j = comp_job (event d)" for d j
  proof (cases "d \<in> set ?new")
    case True
    then obtain k where "k \<in> set (jobs l)" "job_id k = comp_job (event d)" "job_status k = Completed"
      using new by blast
    with same[OF that(2)] that(3) show ?thesis by simp
  next
    case False
    with that dw show ?thesis by (simp add: cs' deliveries_wf_def list_all_iff)
  qed
  ultimately have "deliveries_wf lib cs (jobs l)"
    by (simp add: deliveries_wf_def list_all_iff)
  then have "deliveries_wf lib cs (filter P (jobs l))" by (rule deliveries_wf_filter)
  moreover have "length cs + reserved (st_targets st) (filter P (jobs l)) \<le> MAX_COMPLETION_EVENTS"
    using room reserved_filter[of "st_targets st" P "jobs l"] unfolding cs' length_append by linarith
  moreover have "0 < max_running (st_limits st)" "0 < max_queued (st_limits st)"
    using ok by (simp_all add: store_ok_def)
  ultimately show ?thesis
    using jobs_wf_filter[OF jw, of P] active_wf_filter[OF aw, of P] tw
    unfolding store_ok_def st' by simp
qed


subsection \<open>One job changes\<close>

text \<open>The moves a job's status makes while the service runs.\<close>

fun moves_to :: "status \<Rightarrow> status \<Rightarrow> bool" where
  "moves_to Queued s = (s \<in> {Queued, Running, status.Cancelled})"
| "moves_to Running s = (s \<in> {Running, Cancelling, Completed, Failed})"
| "moves_to Cancelling s = (s \<in> {Cancelling, status.Cancelled})"
| "moves_to s t = (t = s)"

definition job_moves :: "job \<Rightarrow> job \<Rightarrow> bool" where
  "job_moves j k \<longleftrightarrow> job_id k = job_id j \<and> job_request k = job_request j \<and> job_created k = job_created j
     \<and> job_key k = job_key j \<and> job_retry_of k = job_retry_of j
     \<and> moves_to (job_status j) (job_status k) \<and> (outcome_ok j \<longrightarrow> outcome_ok k)"

lemma new_delivery_old:
  assumes "distinct (map job_id js)" "j \<in> set js"
  shows "new_delivery ts js j = None"
  using assms by (auto simp: new_delivery_def list_ex_iff Let_def split: option.splits)

lemma map_filter_none: "(\<And>x. x \<in> set xs \<Longrightarrow> f x = None) \<Longrightarrow> List.map_filter f xs = []"
  by (induction xs) (auto simp: List.map_filter_simps)

lemma map_filter_append: "List.map_filter f (xs @ ys) = List.map_filter f xs @ List.map_filter f ys"
  by (simp add: List.map_filter_def)

lemma active_jobs_simps [simp]:
  "active_jobs [] = []"
  "active_jobs (j # js) = (if occupies_slot (job_status j) then j # active_jobs js else active_jobs js)"
  "active_jobs (xs @ ys) = active_jobs xs @ active_jobs ys"
  by (simp_all add: active_jobs_def)

lemma reserved_simps [simp]:
  "reserved ts [] = 0"
  "reserved ts (j # js) = (if \<not> terminal (job_status j) \<and> list_ex (\<lambda>t. tgt_region t = region_of j) ts then 1 else 0)
     + reserved ts js"
  "reserved ts (xs @ ys) = reserved ts xs + reserved ts ys"
  by (simp_all add: reserved_def)

lemma commit_one:
  assumes ok: "store_ok lib st" and js: "jobs (st_ledger st) = pre @ j # post"
    and m: "job_moves j k"
    and a: "occupies_slot (job_status k) \<Longrightarrow> occupies_slot (job_status j) \<or>
      length (active_jobs (jobs (st_ledger st))) < max_running (st_limits st)
      \<and> region_of k \<notin> set (map region_of (active_jobs (jobs (st_ledger st))))"
    and c: "job_commit lib p st (st_ledger st\<lparr>jobs := pre @ k # post\<rparr>) = (Inr u, st')"
  shows "store_ok lib st'"
proof (rule commit_ok[OF ok c])
  let ?old = "pre @ j # post"
  have jw: "jobs_wf lib ?old" and dw: "deliveries_wf lib (completions (st_ledger st)) ?old"
    and aw: "active_wf (st_limits st) ?old"
    and r: "length (completions (st_ledger st)) + reserved (st_targets st) ?old \<le> MAX_COMPLETION_EVENTS"
    using ok by (simp_all add: store_ok_def js)
  have reg: "region_of k = region_of j" using m by (simp add: job_moves_def region_of_def)
  have dist: "distinct (map job_id ?old)" using jw by (simp add: jobs_wf_def)
  have others: "new_delivery (st_targets st) ?old x = None" if "x \<in> set pre \<union> set post" for x
    using that dist by (intro new_delivery_old) auto
  have fin: "\<not> terminal (job_status j) \<and> list_ex (\<lambda>t. tgt_region t = region_of j) (st_targets st) \<and> job_status k = Completed"
    if "new_delivery (st_targets st) ?old k = Some d" for d
  proof -
    note n = new_delivery_Some[OF that]
    then have "job_status j \<noteq> Completed" using m by (auto simp: list_ex_iff job_moves_def)
    moreover have "moves_to (job_status j) Completed" using m n by (simp add: job_moves_def)
    ultimately show ?thesis using n by (cases "job_status j") (auto simp: list_ex_iff filter_empty_conv reg)
  qed
  show "jobs_wf lib (jobs (st_ledger st\<lparr>jobs := pre @ k # post\<rparr>))"
    using jw m by (auto simp: jobs_wf_def job_moves_def job_ok_def split: option.splits)
  show "active_wf (st_limits st) (jobs (st_ledger st\<lparr>jobs := pre @ k # post\<rparr>))"
    using aw a reg by (auto simp: active_wf_def js split: if_splits)
  have moved: "job_status j = Completed \<Longrightarrow> job_status k = Completed" using m by (auto simp: job_moves_def)
  show "deliveries_wf lib (completions (st_ledger st\<lparr>jobs := pre @ k # post\<rparr>)) (jobs (st_ledger st\<lparr>jobs := pre @ k # post\<rparr>))"
    using dw m moved by (auto simp: deliveries_wf_def list_all_iff job_moves_def)
  show "new_delivery (st_targets st) (jobs (st_ledger st)) x = None"
    if "d \<in> set (completions (st_ledger st\<lparr>jobs := pre @ k # post\<rparr>))"
      "x \<in> set (jobs (st_ledger st\<lparr>jobs := pre @ k # post\<rparr>))" "job_id x = comp_job (event d)" for d x
  proof (cases "x = k")
    case True
    then have "job_status j = Completed"
      using that dw m by (auto simp: deliveries_wf_def list_all_iff job_moves_def)
    then have "job_status j = Completed" "job_id j = job_id k" using m by (simp_all add: job_moves_def)
    then show ?thesis unfolding js True new_delivery_def by (simp add: list_ex_iff)
  next
    case False
    with that(2) show ?thesis using others unfolding js by auto
  qed
  have "List.map_filter (new_delivery (st_targets st) ?old) (pre @ k # post)
      = List.map_filter (new_delivery (st_targets st) ?old) [k]"
    using others by (simp add: map_filter_append map_filter_none List.map_filter_simps split: option.splits)
  moreover have "length (List.map_filter (new_delivery (st_targets st) ?old) [k]) + reserved (st_targets st) [k]
      \<le> reserved (st_targets st) [j]"
  proof (cases "new_delivery (st_targets st) ?old k")
    case None
    then show ?thesis using m reg by (cases "job_status j") (auto simp: List.map_filter_simps job_moves_def)
  next
    case (Some d)
    then show ?thesis using fin reg by (simp add: List.map_filter_simps)
  qed
  ultimately show "length (completions (st_ledger st\<lparr>jobs := pre @ k # post\<rparr>))
      + length (List.map_filter (new_delivery (st_targets st) (jobs (st_ledger st))) (jobs (st_ledger st\<lparr>jobs := pre @ k # post\<rparr>)))
      + reserved (st_targets st) (jobs (st_ledger st\<lparr>jobs := pre @ k # post\<rparr>)) \<le> MAX_COMPLETION_EVENTS"
    using r unfolding js by simp
qed


subsection \<open>The operations keep the invariant\<close>

text \<open>What is assumed of the libraries: a fresh id is a UUID unused so far, and the key digest is
  the hexadecimal text of 32 bytes.\<close>

definition fresh_id :: "job_lib \<Rightarrow> store \<Rightarrow> string \<Rightarrow> bool" where
  "fresh_id lib st i \<longleftrightarrow> uuid_ok lib i \<and> i \<notin> set (map job_id (jobs (st_ledger st)))
     \<and> i \<notin> set (map (\<lambda>d. comp_job (event d)) (completions (st_ledger st)))"

definition digest_ok :: "job_lib \<Rightarrow> string \<Rightarrow> bool" where
  "digest_ok lib k \<longleftrightarrow> length (key_digest lib k) = 64 \<and> list_all is_lower_hexdigit (key_digest lib k)"

lemma enqueue_ok:
  assumes ok: "store_ok lib st" and f: "fresh_id lib st i"
    and key: "\<And>k. key = Some k \<Longrightarrow> length k = 64 \<and> list_all is_lower_hexdigit k \<and> k \<notin> set (keys_of (jobs (st_ledger st)))"
    and e: "enqueue lib p now i r origin key st = (Inr j, st')"
  shows "store_ok lib st'"
proof -
  let ?l = "st_ledger st\<lparr>jobs := jobs (st_ledger st) @ [j]\<rparr>"
  have j: "job_id j = i" "job_request j = r" "job_status j = Queued" "job_key j = key" "job_outcome j = None"
    and v: "valid_request r"
    and c: "job_commit lib p st ?l = (Inr (), st')"
    and r: "list_ex (\<lambda>t. tgt_region t = req_region r) (st_targets st) \<Longrightarrow>
      length (completions (st_ledger st)) + reserved (st_targets st) (jobs (st_ledger st)) < MAX_COMPLETION_EVENTS"
    using e by (auto simp: enqueue_def Let_def split: if_splits prod.splits sum.splits)
  have jw: "jobs_wf lib (jobs (st_ledger st))" using ok by (simp add: store_ok_def)
  have old: "new_delivery (st_targets st) (jobs (st_ledger st)) x = None" if "x \<in> set (jobs (st_ledger st))" for x
    using jw that by (intro new_delivery_old) (auto simp: jobs_wf_def)
  have jnone: "new_delivery (st_targets st) (jobs (st_ledger st)) j = None" using j by (simp add: new_delivery_def)
  show ?thesis
  proof (rule commit_ok[OF ok c])
    show "jobs_wf lib (jobs ?l)"
      using jw j f v key by (auto simp: jobs_wf_def fresh_id_def job_ok_def outcome_ok_def split: option.splits)
    show "active_wf (st_limits st) (jobs ?l)" using ok j by (simp add: store_ok_def active_wf_def)
    show "deliveries_wf lib (completions ?l) (jobs ?l)"
      using ok j f by (auto simp: store_ok_def deliveries_wf_def fresh_id_def list_all_iff)
    show "new_delivery (st_targets st) (jobs (st_ledger st)) x = None" if "x \<in> set (jobs ?l)" for x
      using that old jnone by auto
    have "List.map_filter (new_delivery (st_targets st) (jobs (st_ledger st))) (jobs ?l) = []"
      using old jnone by (intro map_filter_none) auto
    then show "length (completions ?l)
      + length (List.map_filter (new_delivery (st_targets st) (jobs (st_ledger st))) (jobs ?l))
      + reserved (st_targets st) (jobs ?l) \<le> MAX_COMPLETION_EVENTS"
      using ok r j by (auto simp: store_ok_def region_of_def)
  qed
qed

lemma mutate_Inr:
  assumes "mutate lib p now i f st = (Inr k, st')"
  shows "\<exists>pre j post j'. jobs (st_ledger st) = pre @ j # post \<and> i \<notin> set (map job_id pre) \<and> job_id j = i
    \<and> f j = Inr j' \<and> k = j'\<lparr>job_updated := now\<rparr>
    \<and> job_commit lib p st (st_ledger st\<lparr>jobs := pre @ k # post\<rparr>) = (Inr (), st')"
proof -
  obtain js where a: "apply_first now i f (jobs (st_ledger st)) = Inr (k, js)"
    and c: "job_commit lib p st (st_ledger st\<lparr>jobs := js\<rparr>) = (Inr (), st')"
    using assms by (auto simp: mutate_def split: sum.splits prod.splits)
  from apply_first_Inr[OF a] c show ?thesis by blast
qed

lemma mutate_ok:
  assumes ok: "store_ok lib st" and m: "mutate lib p now i f st = (Inr k, st')"
    and f: "\<And>j j'. f j = Inr j' \<Longrightarrow> job_moves j j' \<and> (occupies_slot (job_status j') \<longrightarrow> occupies_slot (job_status j))"
  shows "store_ok lib st'"
proof -
  obtain pre j post j' where js: "jobs (st_ledger st) = pre @ j # post" and j': "f j = Inr j'"
    and k: "k = j'\<lparr>job_updated := now\<rparr>"
    and c: "job_commit lib p st (st_ledger st\<lparr>jobs := pre @ k # post\<rparr>) = (Inr (), st')"
    using mutate_Inr[OF m] by blast
  have "job_moves j k" "occupies_slot (job_status k) \<longrightarrow> occupies_slot (job_status j)"
    using f[OF j'] by (simp_all add: k job_moves_def outcome_ok_def region_of_def split: option.splits)
  then show ?thesis using commit_one[OF ok js _ _ c] by blast
qed

lemma cancel_job_moves:
  "cancel_job j = Inr k \<Longrightarrow> job_moves j k \<and> (occupies_slot (job_status k) \<longrightarrow> occupies_slot (job_status j))"
  by (auto simp: cancel_job_def job_moves_def outcome_ok_def region_of_def split: status.splits option.splits)

lemma set_progress_moves:
  "set_progress q j = Inr k \<Longrightarrow> job_moves j k \<and> (occupies_slot (job_status k) \<longrightarrow> occupies_slot (job_status j))"
  by (cases "job_status j") (auto simp: set_progress_def job_moves_def outcome_ok_def region_of_def split: option.splits)

lemma finish_job_Inr:
  assumes "finish_job failure out j = Inr k"
  shows "occupies_slot (job_status j) \<and> terminal (job_status k) \<and> job_moves j k
    \<and> (job_status k = Completed \<longrightarrow> failure = None \<and> prog_failed (job_progress j) = 0 \<and> job_outcome k = out)"
  using assms
  by (cases "job_status j"; cases out)
    (auto simp: finish_job_def finished_status_def job_moves_def outcome_ok_def region_of_def result_simps
      word_gt_0 split: if_splits)

lemma finish_job_moves:
  "finish_job failure out j = Inr k \<Longrightarrow> job_moves j k \<and> (occupies_slot (job_status k) \<longrightarrow> occupies_slot (job_status j))"
  using finish_job_Inr by blast


lemma claim_Some:
  assumes "claim lib p now st = (Inr (Some k), st')"
  shows "\<exists>pre j post. jobs (st_ledger st) = pre @ j # post
    \<and> (\<forall>x\<in>set pre. \<not> (job_status x = Queued \<and> region_of x \<notin> set (map region_of (active_jobs (jobs (st_ledger st))))))
    \<and> length (active_jobs (jobs (st_ledger st))) < max_running (st_limits st)
    \<and> job_status j = Queued \<and> region_of j \<notin> set (map region_of (active_jobs (jobs (st_ledger st))))
    \<and> k = j\<lparr>job_status := Running, job_updated := now\<rparr>
    \<and> job_commit lib p st (st_ledger st\<lparr>jobs := pre @ k # post\<rparr>) = (Inr (), st')"
proof -
  obtain js where a: "start_first now (map region_of (active_jobs (jobs (st_ledger st)))) (jobs (st_ledger st)) = Some (k, js)"
    and l: "length (active_jobs (jobs (st_ledger st))) < max_running (st_limits st)"
    and c: "job_commit lib p st (st_ledger st\<lparr>jobs := js\<rparr>) = (Inr (), st')"
    using assms by (auto simp: claim_def Let_def split: sum.splits prod.splits option.splits if_splits)
  from start_first_Some[OF a] l c show ?thesis by blast
qed

lemma claim_None: "claim lib p now st = (Inr None, st') \<Longrightarrow> st' = st"
  by (auto simp: claim_def Let_def split: sum.splits prod.splits option.splits if_splits)

lemma claim_ok:
  assumes ok: "store_ok lib st" and c: "claim lib p now st = (Inr k, st')"
  shows "store_ok lib st'"
proof (cases k)
  case None
  with c ok show ?thesis using claim_None by blast
next
  case (Some k')
  obtain pre j post where js: "jobs (st_ledger st) = pre @ j # post"
    and l: "length (active_jobs (jobs (st_ledger st))) < max_running (st_limits st)"
    and q: "job_status j = Queued" "region_of j \<notin> set (map region_of (active_jobs (jobs (st_ledger st))))"
    and k': "k' = j\<lparr>job_status := Running, job_updated := now\<rparr>"
    and cm: "job_commit lib p st (st_ledger st\<lparr>jobs := pre @ k' # post\<rparr>) = (Inr (), st')"
    using claim_Some c unfolding Some by blast
  have "job_moves j k'" using q by (simp add: k' job_moves_def outcome_ok_def region_of_def split: option.splits)
  moreover have "region_of k' = region_of j" by (simp add: k' region_of_def)
  ultimately show ?thesis using commit_one[OF ok js _ _ cm] l q(2) by simp
qed

lemma acknowledge_Inr:
  assumes "acknowledge_completion lib p i t st = (Inr u, st')"
  shows "\<exists>pre d post. completions (st_ledger st) = pre @ d # post \<and> comp_job (event d) = i
    \<and> t \<in> set (pending_targets d)
    \<and> job_commit lib p st (st_ledger st\<lparr>completions := filter (\<lambda>x. pending_targets x \<noteq> [])
        (pre @ d\<lparr>pending_targets := filter (\<lambda>x. x \<noteq> t) (pending_targets d)\<rparr> # post)\<rparr>) = (Inr u, st')"
proof -
  obtain ds where a: "remove_target i t (completions (st_ledger st)) = Inr ds"
    and c: "job_commit lib p st (st_ledger st\<lparr>completions := filter (\<lambda>d. pending_targets d \<noteq> []) ds\<rparr>) = (Inr u, st')"
    using assms by (auto simp: acknowledge_completion_def split: sum.splits if_splits)
  from remove_target_Inr[OF a] c show ?thesis by blast
qed

lemma delivery_ok_fewer:
  "delivery_ok lib d \<Longrightarrow> filter P (pending_targets d) \<noteq> [] \<Longrightarrow> delivery_ok lib (d\<lparr>pending_targets := filter P (pending_targets d)\<rparr>)"
  unfolding delivery_ok_def list_all_iff by (auto intro: le_trans[OF length_filter_le])

lemma acknowledge_ok:
  assumes ok: "store_ok lib st" and a: "acknowledge_completion lib p i t st = (Inr u, st')"
  shows "store_ok lib st'"
proof -
  obtain pre d post where cs: "completions (st_ledger st) = pre @ d # post"
    and c: "job_commit lib p st (st_ledger st\<lparr>completions := filter (\<lambda>x. pending_targets x \<noteq> [])
        (pre @ d\<lparr>pending_targets := filter (\<lambda>x. x \<noteq> t) (pending_targets d)\<rparr> # post)\<rparr>) = (Inr u, st')"
    using acknowledge_Inr[OF a] by blast
  let ?e = "d\<lparr>pending_targets := filter (\<lambda>x. x \<noteq> t) (pending_targets d)\<rparr>"
  let ?cs = "filter (\<lambda>x. pending_targets x \<noteq> []) (pre @ ?e # post)"
  have jw: "jobs_wf lib (jobs (st_ledger st))"
    and dw: "deliveries_wf lib (pre @ d # post) (jobs (st_ledger st))"
    and aw: "active_wf (st_limits st) (jobs (st_ledger st))"
    and r: "length (pre @ d # post) + reserved (st_targets st) (jobs (st_ledger st)) \<le> MAX_COMPLETION_EVENTS"
    using ok by (simp_all add: store_ok_def cs)
  have none: "new_delivery (st_targets st) (jobs (st_ledger st)) x = None" if "x \<in> set (jobs (st_ledger st))" for x
    using jw that by (intro new_delivery_old) (auto simp: jobs_wf_def)
  have "distinct (map (\<lambda>d. comp_job (event d)) (pre @ ?e # post))"
    using dw by (simp add: deliveries_wf_def)
  then have "distinct (map (\<lambda>d. comp_job (event d)) ?cs)" by (rule distinct_map_filter)
  moreover have "delivery_ok lib x" if "x \<in> set ?cs" for x
    using that dw delivery_ok_fewer[of lib d] by (auto simp: deliveries_wf_def list_all_iff split: if_splits)
  ultimately have dw': "deliveries_wf lib ?cs (jobs (st_ledger st))"
    using dw by (auto simp: deliveries_wf_def list_all_iff)
  have len: "length ?cs \<le> length (pre @ d # post)"
    by (rule le_trans[OF length_filter_le]) simp
  show ?thesis
    by (rule commit_ok[OF ok c]) (use jw aw dw' none len r in \<open>simp_all add: map_filter_none\<close>)
qed

lemma configure_ok:
  assumes "store_ok lib st" "configure_completions ts st = (Inr u, st')"
  shows "store_ok lib st'"
  using assms by (auto simp: configure_completions_def store_ok_def targets_wf_def list_all_iff list_ex_iff split: if_splits)


subsection \<open>Restarting\<close>

lemma interrupt_simps [simp]:
  "job_id (interrupt now j) = job_id j"
  "job_request (interrupt now j) = job_request j"
  "job_key (interrupt now j) = job_key j"
  "\<not> occupies_slot (job_status (interrupt now j))"
  "region_of (interrupt now j) = region_of j"
  by (auto simp: interrupt_def region_of_def)

lemma keys_of_interrupt: "keys_of (map (interrupt now) js) = keys_of js"
  by (induction js) (auto split: option.splits)

lemma job_ok_interrupt [simp]: "job_ok lib (interrupt now j) = job_ok lib j"
  by (simp add: job_ok_def)

lemma outcome_ok_interrupt: "outcome_ok j \<Longrightarrow> outcome_ok (interrupt now j)"
  by (simp add: outcome_ok_def interrupt_def)

lemma jobs_wf_interrupt: "jobs_wf lib js \<Longrightarrow> jobs_wf lib (map (interrupt now) js)"
  by (auto simp: jobs_wf_def keys_of_interrupt list_all_iff comp_def outcome_ok_interrupt)

lemma active_interrupt: "active_jobs (map (interrupt now) js) = []"
  by (induction js) auto

lemma deliveries_wf_interrupt: "deliveries_wf lib cs js \<Longrightarrow> deliveries_wf lib cs (map (interrupt now) js)"
  by (auto simp: deliveries_wf_def list_all_iff interrupt_def)

lemma no_targets [simp]: "reserved [] js = 0" "new_delivery [] old j = None"
  by (auto simp: reserved_def new_delivery_def split: option.splits)

lemma commit_saved:
  "job_commit lib p (st\<lparr>st_saved := l0\<rparr>) l = (Inr u, st') \<longleftrightarrow> job_commit lib p st l = (Inr u, st')"
  by (auto simp: job_commit_def Let_def split: sum.splits)

lemma job_open_Inr:
  assumes "job_open lib lim d lk f now p = Inr st'"
  shows "\<exists>l. read_ledger f = Inr l \<and> length (completions l) \<le> MAX_COMPLETION_EVENTS
    \<and> 0 < max_running lim \<and> 0 < max_queued lim
    \<and> job_commit lib p \<lparr>st_targets = [], st_ledger = l\<lparr>jobs := map (interrupt now) (jobs l)\<rparr>, st_limits = lim,
        st_saved = l\<rparr> (l\<lparr>jobs := map (interrupt now) (jobs l)\<rparr>) = (Inr (), st')"
proof -
  obtain l where l: "read_ledger f = Inr l"
    using assms by (auto simp: job_open_def result_simps)
  obtain x y where c: "job_commit lib p \<lparr>st_targets = [], st_ledger = l\<lparr>jobs := map (interrupt now) (jobs l)\<rparr>,
      st_limits = lim, st_saved = l\<rparr> (l\<lparr>jobs := map (interrupt now) (jobs l)\<rparr>) = (x, y)"
    by fastforce
  show ?thesis
    using assms l c by (cases x) (auto simp: job_open_def Let_def result_simps not_less)
qed

lemma open_ok:
  assumes "job_open lib lim d lk f now p = Inr st'" and f: "f = Missing \<or> (\<exists>st. f = Parsed (st_saved st) \<and> store_ok lib st)"
  shows "store_ok lib st'"
proof -
  obtain l where l: "read_ledger f = Inr l" "length (completions l) \<le> MAX_COMPLETION_EVENTS"
    and lim: "0 < max_running lim" "0 < max_queued lim"
    and c: "job_commit lib p \<lparr>st_targets = [], st_ledger = l\<lparr>jobs := map (interrupt now) (jobs l)\<rparr>, st_limits = lim,
        st_saved = l\<rparr> (l\<lparr>jobs := map (interrupt now) (jobs l)\<rparr>) = (Inr (), st')"
    using job_open_Inr[OF assms(1)] by blast
  let ?l = "l\<lparr>jobs := map (interrupt now) (jobs l)\<rparr>"
  let ?st = "\<lparr>st_targets = [], st_ledger = ?l, st_limits = lim, st_saved = ?l\<rparr>"
  have c': "job_commit lib p ?st ?l = (Inr (), st')"
  proof -
    have "job_commit lib p (\<lparr>st_targets = [], st_ledger = ?l, st_limits = lim, st_saved = l\<rparr>\<lparr>st_saved := l0\<rparr>) ?l
        = (Inr (), st')" for l0
      by (rule iffD2[OF commit_saved c])
    from this[of ?l] show ?thesis by simp
  qed
  have wf: "jobs_wf lib (jobs l)" "deliveries_wf lib (completions l) (jobs l)" "schema_version l = 2"
    using f l(1) by (auto simp: read_ledger_def store_ok_def jobs_wf_def deliveries_wf_def)
  have "store_ok lib ?st"
    using wf jobs_wf_interrupt[OF wf(1)] deliveries_wf_interrupt[OF wf(2)] l(2) lim
    by (simp add: store_ok_def targets_wf_def active_wf_def active_interrupt)
  then show ?thesis
    by (rule commit_ok[OF _ c'])
      (use wf jobs_wf_interrupt[OF wf(1)] deliveries_wf_interrupt[OF wf(2)] l(2)
        in \<open>simp_all add: active_wf_def active_interrupt map_filter_none\<close>)
qed

lemma restart_succeeds:
  assumes ok: "store_ok lib st" and lim: "0 < max_running lim" "0 < max_queued lim"
  shows "\<exists>st'. job_open lib lim True True (Parsed (st_saved st)) now True = Inr st'
    \<and> jobs (st_ledger st') = retain (retain_terminal lim) (map (interrupt now) (jobs (st_ledger st)))
    \<and> completions (st_ledger st') = completions (st_ledger st)"
proof -
  let ?l = "st_ledger st"
  let ?l' = "?l\<lparr>jobs := map (interrupt now) (jobs ?l)\<rparr>"
  have s: "st_saved st = ?l" "schema_version ?l = 2" "length (completions ?l) \<le> MAX_COMPLETION_EVENTS"
    "list_all (delivery_ok lib) (completions ?l)" "distinct (map (\<lambda>d. comp_job (event d)) (completions ?l))"
    "list_all (job_ok lib) (jobs ?l)" "distinct (keys_of (jobs ?l))" "distinct (map job_id (jobs ?l))"
    using ok by (simp_all add: store_ok_def jobs_wf_def deliveries_wf_def)
  have a: "add_completions lib [] (jobs ?l') (jobs ?l') (completions ?l') = Inr (completions ?l)"
    by (subst add_completions_none) auto
  obtain st' where c: "job_commit lib True \<lparr>st_targets = [], st_ledger = ?l', st_limits = lim, st_saved = ?l\<rparr> ?l' = (Inr (), st')"
    "jobs (st_ledger st') = retain (retain_terminal lim) (map (interrupt now) (jobs (st_ledger st)))"
    "completions (st_ledger st') = completions (st_ledger st)"
    using a by (simp add: job_commit_def Let_def)
  then show ?thesis
    using s lim by (intro exI[of _ st']) (simp add: job_open_def read_ledger_def Let_def)
qed

subsection \<open>The steps of a store\<close>

text \<open>Every way a store changes: a successful operation of \<open>JobStore\<close> or a restart on what it
  persisted. \<open>clock\<close> values are arbitrary.\<close>

inductive job_step :: "job_lib \<Rightarrow> store \<Rightarrow> store \<Rightarrow> bool" for lib where
  step_submit: "\<lbrakk>fresh_id lib st i; submit lib p now i r st = (Inr j, st')\<rbrakk> \<Longrightarrow> job_step lib st st'"
| step_submit_idempotent: "\<lbrakk>fresh_id lib st i; digest_ok lib k;
     submit_idempotent lib p now i r k st = (Inr j, st')\<rbrakk> \<Longrightarrow> job_step lib st st'"
| step_retry: "\<lbrakk>fresh_id lib st i; job_retry lib p now i old st = (Inr j, st')\<rbrakk> \<Longrightarrow> job_step lib st st'"
| step_claim: "claim lib p now st = (Inr k, st') \<Longrightarrow> job_step lib st st'"
| step_cancel: "cancel lib p now i st = (Inr j, st') \<Longrightarrow> job_step lib st st'"
| step_progress: "report_progress lib p now i q st = (Inr j, st') \<Longrightarrow> job_step lib st st'"
| step_finish: "finish_with_outcome lib p now i fl out st = (Inr j, st') \<Longrightarrow> job_step lib st st'"
| step_acknowledge: "acknowledge_completion lib p i t st = (Inr u, st') \<Longrightarrow> job_step lib st st'"
| step_configure: "configure_completions ts st = (Inr u, st') \<Longrightarrow> job_step lib st st'"
| step_restart: "job_open lib lim d lk (Parsed (st_saved st)) now p = Inr st' \<Longrightarrow> job_step lib st st'"

inductive job_reachable :: "job_lib \<Rightarrow> store \<Rightarrow> bool" for lib where
  reach_open: "job_open lib lim d lk Missing now p = Inr st \<Longrightarrow> job_reachable lib st"
| reach_step: "\<lbrakk>job_reachable lib st; job_step lib st st'\<rbrakk> \<Longrightarrow> job_reachable lib st'"

inductive_cases job_stepE: "job_step lib st st'"

lemma key_unused:
  "List.find (\<lambda>j. job_key j = Some k) js = None \<Longrightarrow> k \<notin> set (keys_of js)"
  by (induction js) (auto split: option.splits if_splits)

lemma submit_idempotent_ok:
  assumes "store_ok lib st" "fresh_id lib st i" "digest_ok lib k"
    and s: "submit_idempotent lib p now i r k st = (Inr j, st')"
  shows "store_ok lib st'"
proof (cases "List.find (\<lambda>j. job_key j = Some (key_digest lib k)) (jobs (st_ledger st))")
  case None
  then have "enqueue lib p now i r None (Some (key_digest lib k)) st = (Inr j, st')"
    using s by (auto simp: submit_idempotent_def split: if_splits)
  then show ?thesis
    by (rule enqueue_ok[OF assms(1,2), rotated]) (use assms(3) key_unused[OF None] in \<open>auto simp: digest_ok_def\<close>)
next
  case (Some j')
  then show ?thesis using assms by (auto simp: submit_idempotent_def split: if_splits)
qed

lemma step_ok:
  assumes "job_step lib st st'" "store_ok lib st"
  shows "store_ok lib st'"
  using assms(1)
proof cases
  case (step_submit i p now r j)
  then have e: "enqueue lib p now i r None None st = (Inr j, st')" by (simp add: submit_def)
  show ?thesis by (rule enqueue_ok[OF assms(2) step_submit(1) _ e]) simp
next
  case (step_retry i p now old j)
  then obtain r where e: "enqueue lib p now i r (Some old) None st = (Inr j, st')"
    by (auto simp: job_retry_def split: option.splits if_splits)
  show ?thesis by (rule enqueue_ok[OF assms(2) step_retry(1) _ e]) simp
next
  case (step_cancel p now i j)
  show ?thesis by (rule mutate_ok[OF assms(2) step_cancel[unfolded cancel_def] cancel_job_moves])
next
  case (step_progress p now i q j)
  then have "mutate lib p now i (set_progress q) st = (Inr j, st')"
    by (simp add: report_progress_def split: if_splits)
  then show ?thesis by (rule mutate_ok[OF assms(2) _ set_progress_moves])
next
  case (step_finish p now i fl out j)
  then have "mutate lib p now i (finish_job fl out) st = (Inr j, st')"
    by (simp add: finish_with_outcome_def split: if_splits)
  then show ?thesis by (rule mutate_ok[OF assms(2) _ finish_job_moves])
next
  case (step_submit_idempotent i k p now r j)
  then show ?thesis by (rule submit_idempotent_ok[OF assms(2)])
next
  case (step_claim p now k)
  then show ?thesis by (rule claim_ok[OF assms(2)])
next
  case (step_acknowledge p i t u)
  then show ?thesis by (rule acknowledge_ok[OF assms(2)])
next
  case (step_configure ts u)
  then show ?thesis by (rule configure_ok[OF assms(2)])
next
  case (step_restart lim d lk now p)
  then show ?thesis by (rule open_ok) (use assms(2) in blast)
qed

lemma reachable_ok: "job_reachable lib st \<Longrightarrow> store_ok lib st"
  by (induction rule: job_reachable.induct) (blast intro: open_ok step_ok)+

end
