(* ===== verification/Job_Ledger.thy ===== *)
theory Job_Ledger
  imports Job_Invariant
begin

text \<open>
  What the job ledger promises (\<open>src/jobs.rs\<close>): the invariant of every reachable store, fair
  claiming, recovery after a crash, final states, idempotent submission, completion notices and
  retention. The witnesses run the store on a small service with one recipient.
\<close>

lemmas store_defs = submit_def enqueue_def claim_def job_commit_def retain_def progress_default_def
  valid_request_def queued_count_def active_jobs_def reserved_def region_of_def is_ascii_alphanumeric_def
  is_ascii_lowercase_def

subsection \<open>An example service\<close>

definition demo_lib :: job_lib where
  "demo_lib = \<lparr>completion_size = (\<lambda>_. Some 100), uuid_ok = (\<lambda>_. True), key_digest = (\<lambda>_. replicate 64 CHR ''0'')\<rparr>"

definition demo_request :: "region \<Rightarrow> request" where
  "demo_request r = \<lparr>req_region = r, req_profile = ''p'', req_operation = UpdateOp\<rparr>"

definition demo_job :: "string \<Rightarrow> region \<Rightarrow> job" where
  "demo_job i r = \<lparr>job_id = i, job_request = demo_request r, job_status = Queued, job_created = 1, job_updated = 1,
     job_progress = progress_default, job_failure = None, job_retry_of = None, job_outcome = None, job_key = None\<rparr>"

definition demo_ledger :: "job list \<Rightarrow> ledger" where
  "demo_ledger js = \<lparr>schema_version = 2, jobs = js, completions = []\<rparr>"

definition demo_limits :: limits where
  "demo_limits = \<lparr>max_running = 2, max_queued = 8, retain_terminal = 1\<rparr>"

definition demo_store :: "job list \<Rightarrow> store" where
  "demo_store js = \<lparr>st_targets = [], st_ledger = demo_ledger js, st_limits = demo_limits, st_saved = demo_ledger js\<rparr>"

lemmas demo_defs = demo_lib_def demo_request_def demo_job_def demo_ledger_def demo_limits_def demo_store_def

lemma demo_open: "job_open demo_lib demo_limits True True Missing 0 True = Inr (demo_store [])"
  by (simp add: demo_defs job_open_def job_commit_def read_ledger_def retain_def Let_def MAX_COMPLETION_EVENTS_def keys_of_def
      List.map_filter_simps)

lemma demo_submit:
  "submit demo_lib True 1 ''1'' (demo_request Jp) (demo_store []) = (Inr (demo_job ''1'' Jp), demo_store [demo_job ''1'' Jp])"
  "submit demo_lib True 1 ''2'' (demo_request Jp) (demo_store [demo_job ''1'' Jp])
     = (Inr (demo_job ''2'' Jp), demo_store [demo_job ''1'' Jp, demo_job ''2'' Jp])"
  "submit demo_lib True 1 ''3'' (demo_request Kr) (demo_store [demo_job ''1'' Jp, demo_job ''2'' Jp])
     = (Inr (demo_job ''3'' Kr), demo_store [demo_job ''1'' Jp, demo_job ''2'' Jp, demo_job ''3'' Kr])"
  by (simp_all add: demo_defs store_defs new_delivery_def Let_def)


lemma demo_fresh:
  "fresh_id demo_lib (demo_store []) ''1''"
  "fresh_id demo_lib (demo_store [demo_job ''1'' Jp]) ''2''"
  "fresh_id demo_lib (demo_store [demo_job ''1'' Jp, demo_job ''2'' Jp]) ''3''"
  by (simp_all add: demo_defs fresh_id_def)

lemma demo_reachable:
  "job_reachable demo_lib (demo_store [])"
  "job_reachable demo_lib (demo_store [demo_job ''1'' Jp])"
  "job_reachable demo_lib (demo_store [demo_job ''1'' Jp, demo_job ''2'' Jp])"
  "job_reachable demo_lib (demo_store [demo_job ''1'' Jp, demo_job ''2'' Jp, demo_job ''3'' Kr])"
proof -
  show 0: "job_reachable demo_lib (demo_store [])" by (rule reach_open[OF demo_open])
  show 1: "job_reachable demo_lib (demo_store [demo_job ''1'' Jp])"
    by (rule reach_step[OF 0 step_submit[OF demo_fresh(1) demo_submit(1)]])
  show 2: "job_reachable demo_lib (demo_store [demo_job ''1'' Jp, demo_job ''2'' Jp])"
    by (rule reach_step[OF 1 step_submit[OF demo_fresh(2) demo_submit(2)]])
  show "job_reachable demo_lib (demo_store [demo_job ''1'' Jp, demo_job ''2'' Jp, demo_job ''3'' Kr])"
    by (rule reach_step[OF 2 step_submit[OF demo_fresh(3) demo_submit(3)]])
qed

subsection \<open>The invariant\<close>

text \<open>C15. Whatever sequence of operations and restarts a store goes through, its ledger stays well
  formed: ids and idempotency keys are unique, requests are valid, at most \<open>max_running\<close> jobs
  occupy slots and never two of one region, every pending completion is deliverable and belongs to a
  completed (or already retired) job, room is reserved for the notice of every unfinished job, and
  the persisted ledger is the one in memory.\<close>

theorem ledger_invariant: "job_reachable lib st \<Longrightarrow> store_ok lib st"
  by (rule reachable_ok)

theorem ledger_invariant_witness: "store_ok demo_lib (demo_store [demo_job ''1'' Jp, demo_job ''2'' Jp, demo_job ''3'' Kr])"
  by (rule ledger_invariant[OF demo_reachable(4)])

subsection \<open>Failures\<close>

text \<open>Every operation that goes through a commit is atomic: an error leaves the store as it was.\<close>

locale atomic_operation =
  fixes op :: "'in \<Rightarrow> store \<Rightarrow> (job_error + 'out) \<times> store"
  assumes error_unchanged: "op x st = (Inl e, st') \<Longrightarrow> st' = st"
    and saved_kept: "op x st = (r, st') \<Longrightarrow> st_saved st = st_ledger st \<Longrightarrow> st_saved st' = st_ledger st'"
begin

text \<open>Any run of operations persists what it reports, and each failing one is as if it never
  happened.\<close>

lemma run_saved:
  "st_saved st = st_ledger st \<Longrightarrow> st_saved (fold (\<lambda>x s. snd (op x s)) xs st) = st_ledger (fold (\<lambda>x s. snd (op x s)) xs st)"
  by (induction xs arbitrary: st) (simp_all add: saved_kept[OF surjective_pairing])

lemma failures_drop_out:
  "fold (\<lambda>x s. snd (op x s)) (x # xs) st
     = (if is_ok (fst (op x st)) then fold (\<lambda>x s. snd (op x s)) xs (snd (op x st)) else fold (\<lambda>x s. snd (op x s)) xs st)"
  using error_unchanged[of x st] by (cases "op x st"; cases "fst (op x st)") auto

end

lemma commit_atomic:
  "job_commit lib p st l = (Inl e, st') \<Longrightarrow> st' = st"
  "job_commit lib p st l = (r, st') \<Longrightarrow> st_saved st = st_ledger st \<Longrightarrow> st_saved st' = st_ledger st'"
  by (auto simp: job_commit_def Let_def split: sum.splits if_splits)

lemma enqueue_atomic:
  "enqueue lib p now i r origin key st = (Inl e, st') \<Longrightarrow> st' = st"
  "enqueue lib p now i r origin key st = (x, st') \<Longrightarrow> st_saved st = st_ledger st \<Longrightarrow> st_saved st' = st_ledger st'"
  using commit_atomic by (auto simp: enqueue_def Let_def split: sum.splits prod.splits if_splits)

lemma mutate_atomic:
  "mutate lib p now i f st = (Inl e, st') \<Longrightarrow> st' = st"
  "mutate lib p now i f st = (x, st') \<Longrightarrow> st_saved st = st_ledger st \<Longrightarrow> st_saved st' = st_ledger st'"
  using commit_atomic by (auto simp: mutate_def split: sum.splits prod.splits)

interpretation submitting: atomic_operation "\<lambda>(p, now, i, r). submit lib p now i r" for lib
  by unfold_locales (auto simp: submit_def enqueue_atomic)

interpretation resubmitting: atomic_operation "\<lambda>(p, now, i, r, k). submit_idempotent lib p now i r k" for lib
  by unfold_locales (auto simp: submit_idempotent_def enqueue_atomic split: if_splits option.splits)

interpretation retrying: atomic_operation "\<lambda>(p, now, i, old). job_retry lib p now i old" for lib
  by unfold_locales (auto simp: job_retry_def enqueue_atomic split: if_splits option.splits)

interpretation claiming: atomic_operation "\<lambda>(p, now). claim lib p now" for lib
  by unfold_locales (auto simp: claim_def Let_def dest: commit_atomic split: if_splits option.splits prod.splits sum.splits)

interpretation cancelling: atomic_operation "\<lambda>(p, now, i). cancel lib p now i" for lib
  by unfold_locales (auto simp: cancel_def mutate_atomic)

interpretation progressing: atomic_operation "\<lambda>(p, now, i, q). report_progress lib p now i q" for lib
  by unfold_locales (auto simp: report_progress_def mutate_atomic split: if_splits)

interpretation finishing: atomic_operation "\<lambda>(p, now, i, fl, out). finish_with_outcome lib p now i fl out" for lib
  by unfold_locales (auto simp: finish_with_outcome_def mutate_atomic split: if_splits)

interpretation acknowledging: atomic_operation "\<lambda>(p, i, t). acknowledge_completion lib p i t" for lib
  by unfold_locales (auto simp: acknowledge_completion_def commit_atomic split: if_splits sum.splits)


subsection \<open>Claiming\<close>

lemma job_commit_simple:
  assumes "\<And>j. j \<in> set (jobs l) \<Longrightarrow> new_delivery (st_targets st) (jobs (st_ledger st)) j = None"
  shows "\<exists>st'. job_commit lib True st l = (Inr (), st')
    \<and> jobs (st_ledger st') = retain (retain_terminal (st_limits st)) (jobs l)"
  using add_completions_none[OF assms] by (simp add: job_commit_def Let_def)

text \<open>Claiming is first-in first-out among the runnable jobs: with a working disk it never fails,
  it returns nothing exactly when all slots are taken or no queued job has an idle region (and then
  changes nothing), and otherwise it starts the first queued job of an idle region, moving only that
  job, so that a busy region cannot hold up another one.\<close>

theorem claim_starts_first_runnable:
  fixes st :: store
  defines "busy \<equiv> map region_of (active_jobs (jobs (st_ledger st)))"
  assumes r: "job_reachable lib st"
  shows "(if max_running (st_limits st) \<le> length busy
          \<or> (\<forall>j\<in>set (jobs (st_ledger st)). job_status j \<noteq> Queued \<or> region_of j \<in> set busy)
          then claim lib True now st = (Inr None, st)
          else \<exists>pre j post st'. jobs (st_ledger st) = pre @ j # post
            \<and> job_status j = Queued \<and> region_of j \<notin> set busy
            \<and> (\<forall>x\<in>set pre. job_status x \<noteq> Queued \<or> region_of x \<in> set busy)
            \<and> claim lib True now st = (Inr (Some (j\<lparr>job_status := Running, job_updated := now\<rparr>)), st')
            \<and> jobs (st_ledger st') = retain (retain_terminal (st_limits st))
                (pre @ j\<lparr>job_status := Running, job_updated := now\<rparr> # post))"
proof (cases "start_first now busy (jobs (st_ledger st))")
  case None
  then have "\<forall>j\<in>set (jobs (st_ledger st)). job_status j \<noteq> Queued \<or> region_of j \<in> set busy"
    by (auto simp: start_first_None)
  moreover have "claim lib True now st = (Inr None, st)" using None by (simp add: claim_def busy_def[symmetric])
  ultimately show ?thesis by simp
next
  case (Some x)
  obtain k ks where x: "x = (k, ks)" by fastforce
  obtain pre j post where j: "jobs (st_ledger st) = pre @ j # post" "job_status j = Queued" "region_of j \<notin> set busy"
    "\<forall>x\<in>set pre. \<not> (job_status x = Queued \<and> region_of x \<notin> set busy)"
    and k: "k = j\<lparr>job_status := Running, job_updated := now\<rparr>" and ks: "ks = pre @ k # post"
    using start_first_Some[OF Some[unfolded x]] by blast
  have "distinct (map job_id (pre @ j # post))"
    using reachable_ok[OF r] by (simp add: store_ok_def jobs_wf_def j(1))
  then have "new_delivery (st_targets st) (jobs (st_ledger st)) y = None" if "y \<in> set (pre @ k # post)" for y
    using that new_delivery_old[of "jobs (st_ledger st)" y] j(1)
    by (cases "y = k") (auto simp: new_delivery_def k)
  then obtain st' where st': "job_commit lib True st (st_ledger st\<lparr>jobs := ks\<rparr>) = (Inr (), st')"
    "jobs (st_ledger st') = retain (retain_terminal (st_limits st)) (pre @ k # post)"
    using job_commit_simple[of "st_ledger st\<lparr>jobs := ks\<rparr>" st lib] by (auto simp: ks)
  show ?thesis
  proof (cases "max_running (st_limits st) \<le> length busy")
    case True
    then show ?thesis by (simp add: claim_def busy_def[symmetric])
  next
    case False
    with Some x st' have c: "claim lib True now st = (Inr (Some k), st')"
      by (simp add: claim_def busy_def[symmetric])
    have "\<not> (\<forall>j\<in>set (jobs (st_ledger st)). job_status j \<noteq> Queued \<or> region_of j \<in> set busy)"
      using j by auto
    with False c st'(2) j show ?thesis by (auto simp: k)
  qed
qed

theorem claim_starts_first_runnable_witness:
  "claim demo_lib True 5 (demo_store [demo_job ''1'' Jp, demo_job ''2'' Jp])
     = (Inr (Some (demo_job ''1'' Jp\<lparr>job_status := Running, job_updated := 5\<rparr>)),
        demo_store [demo_job ''1'' Jp\<lparr>job_status := Running, job_updated := 5\<rparr>, demo_job ''2'' Jp])"
proof -
  obtain pre j post st' where *: "jobs (st_ledger (demo_store [demo_job ''1'' Jp, demo_job ''2'' Jp])) = pre @ j # post"
    "\<forall>x\<in>set pre. job_status x \<noteq> Queued \<or> region_of x \<in> set []"
    "claim demo_lib True 5 (demo_store [demo_job ''1'' Jp, demo_job ''2'' Jp])
       = (Inr (Some (j\<lparr>job_status := Running, job_updated := 5\<rparr>)), st')"
    using claim_starts_first_runnable[OF demo_reachable(3), of 5]
    by (auto simp: demo_defs active_jobs_def split: if_splits)
  then have "pre = []" "j = demo_job ''1'' Jp"
    by (cases pre; auto simp: demo_defs)+
  with *(3) show ?thesis by (auto simp: demo_defs store_defs new_delivery_def Let_def)
qed


subsection \<open>Statuses\<close>

text \<open>Jobs of the same id before and after a commit that touched one job.\<close>

lemma commit_jobs:
  assumes "job_commit lib p st l = (Inr u, st')" "k \<in> set (jobs (st_ledger st'))"
  shows "k \<in> set (jobs l)"
  using job_commit_Inr[OF assms(1)] retain_filter[of "retain_terminal (st_limits st)" "jobs l"] assms(2) by auto

lemma one_changed:
  assumes d: "distinct (map job_id (pre @ j # post))" and k: "k \<in> set (pre @ j' # post)" "i \<in> set (pre @ j # post)"
    and same: "job_id j' = job_id j" "job_id k = job_id i"
  shows "k = i \<or> (k = j' \<and> i = j)"
proof -
  have inj: "x = y" if "x \<in> set (pre @ j # post)" "y \<in> set (pre @ j # post)" "job_id x = job_id y" for x y
    using d that unfolding distinct_map inj_on_def by blast
  show ?thesis
  proof (cases "k = j'")
    case True
    have "job_id i = job_id j" by (rule trans[OF sym[OF same(2)[unfolded True]] same(1)])
    then have "i = j" using inj[OF k(2)] by auto
    with True show ?thesis by simp
  next
    case False
    then have "k \<in> set (pre @ j # post)" using k(1) by auto
    then show ?thesis using inj[OF _ k(2) same(2)] by blast
  qed
qed

definition job_goes_on :: "job \<Rightarrow> job \<Rightarrow> bool" where
  "job_goes_on j k \<longleftrightarrow> k = j \<or> job_moves j k \<and> \<not> terminal (job_status j)
     \<or> occupies_slot (job_status j) \<and> (\<exists>now. k = interrupt now j)"

lemma enqueue_goes_on:
  assumes "store_ok lib st" "enqueue lib p now f r origin key st = (Inr x, st')" "fresh_id lib st f"
    and "j \<in> set (jobs (st_ledger st))" "k \<in> set (jobs (st_ledger st'))" "job_id k = job_id j"
  shows "k = j"
proof -
  have c: "job_commit lib p st (st_ledger st\<lparr>jobs := jobs (st_ledger st) @ [x]\<rparr>) = (Inr (), st')" and x: "job_id x = f"
    using assms(2) by (auto simp: enqueue_def Let_def split: if_splits prod.splits sum.splits)
  have "k \<in> set (jobs (st_ledger st) @ [x])" using commit_jobs[OF c assms(5)] by simp
  moreover have "k \<noteq> x" using assms(3,4,6) x by (auto simp: fresh_id_def)
  ultimately show ?thesis using assms(1,4,6) by (auto simp: store_ok_def jobs_wf_def distinct_map inj_on_def)
qed

lemma changed_goes_on:
  assumes ok: "store_ok lib st" and js: "jobs (st_ledger st) = pre @ j # post"
    and c: "job_commit lib p st (st_ledger st\<lparr>jobs := pre @ j' # post\<rparr>) = (Inr u, st')"
    and m: "job_goes_on j j'" "job_id j' = job_id j"
    and k: "i \<in> set (jobs (st_ledger st))" "k \<in> set (jobs (st_ledger st'))" "job_id k = job_id i"
  shows "job_goes_on i k"
proof -
  have "k \<in> set (pre @ j' # post)" using commit_jobs[OF c k(2)] by simp
  moreover have "distinct (map job_id (pre @ j # post))" using ok by (simp add: store_ok_def jobs_wf_def js)
  ultimately have "k = i \<or> (k = j' \<and> i = j)" using one_changed[of pre j post k j' i] k(1,3) m(2) js by simp
  then show ?thesis using m(1) by (auto simp: job_goes_on_def)
qed

lemma mutate_goes_on:
  assumes "store_ok lib st" "mutate lib p now i f st = (Inr x, st')"
    and f: "\<And>j j'. f j = Inr j' \<Longrightarrow> job_moves j j' \<and> \<not> terminal (job_status j)"
    and k: "j \<in> set (jobs (st_ledger st))" "k \<in> set (jobs (st_ledger st'))" "job_id k = job_id j"
  shows "job_goes_on j k"
proof -
  obtain pre a post a' where js: "jobs (st_ledger st) = pre @ a # post" and a': "f a = Inr a'"
    and x: "x = a'\<lparr>job_updated := now\<rparr>"
    and c: "job_commit lib p st (st_ledger st\<lparr>jobs := pre @ x # post\<rparr>) = (Inr (), st')"
    using mutate_Inr[OF assms(2)] by blast
  have "job_moves a x" "\<not> terminal (job_status a)"
    using f[OF a'] by (simp_all add: x job_moves_def outcome_ok_def region_of_def split: option.splits)
  then show ?thesis using changed_goes_on[OF assms(1) js c _ _ k] by (simp add: job_goes_on_def job_moves_def)
qed


lemma claim_goes_on:
  assumes ok: "store_ok lib st" and c: "claim lib p now st = (Inr x, st')"
    and k: "j \<in> set (jobs (st_ledger st))" "k \<in> set (jobs (st_ledger st'))" "job_id k = job_id j"
  shows "job_goes_on j k"
proof (cases x)
  case None
  then have "st' = st" using c claim_None by blast
  then have "k = j" using ok k by (auto simp: store_ok_def jobs_wf_def distinct_map inj_on_def)
  then show ?thesis by (simp add: job_goes_on_def)
next
  case (Some y)
  obtain pre a post where js: "jobs (st_ledger st) = pre @ a # post" and q: "job_status a = Queued"
    and y: "y = a\<lparr>job_status := Running, job_updated := now\<rparr>"
    and cm: "job_commit lib p st (st_ledger st\<lparr>jobs := pre @ y # post\<rparr>) = (Inr (), st')"
    using claim_Some c unfolding Some by blast
  have "job_moves a y" using q by (simp add: y job_moves_def outcome_ok_def region_of_def split: option.splits)
  then show ?thesis using changed_goes_on[OF ok js cm _ _ k] q by (simp add: job_goes_on_def y)
qed

lemma same_jobs_goes_on:
  assumes "store_ok lib st" and "set (jobs (st_ledger st')) \<subseteq> set (jobs (st_ledger st))"
    and "j \<in> set (jobs (st_ledger st))" "k \<in> set (jobs (st_ledger st'))" "job_id k = job_id j"
  shows "job_goes_on j k"
  using assms by (auto simp: store_ok_def jobs_wf_def distinct_map inj_on_def job_goes_on_def)

lemma restart_goes_on:
  assumes ok: "store_ok lib st" and o: "job_open lib lim d lk (Parsed (st_saved st)) now p = Inr st'"
    and k: "j \<in> set (jobs (st_ledger st))" "k \<in> set (jobs (st_ledger st'))" "job_id k = job_id j"
  shows "job_goes_on j k"
proof -
  obtain l where l: "l = st_ledger st"
    and c: "job_commit lib p \<lparr>st_targets = [], st_ledger = l\<lparr>jobs := map (interrupt now) (jobs l)\<rparr>, st_limits = lim,
        st_saved = l\<rparr> (l\<lparr>jobs := map (interrupt now) (jobs l)\<rparr>) = (Inr (), st')"
    using job_open_Inr[OF o] ok by (auto simp: read_ledger_def store_ok_def)
  obtain i where i: "i \<in> set (jobs (st_ledger st))" "k = interrupt now i"
    using commit_jobs[OF c k(2)] by (auto simp: l)
  then have "i = j" using ok k by (auto simp: store_ok_def jobs_wf_def distinct_map inj_on_def)
  with i show ?thesis by (auto simp: job_goes_on_def) (auto simp: interrupt_def split: if_splits)
qed

lemma cancel_job_open: "cancel_job j = Inr k \<Longrightarrow> \<not> terminal (job_status j)"
  by (cases "job_status j") (auto simp: cancel_job_def)

lemma set_progress_open: "set_progress q j = Inr k \<Longrightarrow> \<not> terminal (job_status j)"
  by (cases "job_status j") (auto simp: set_progress_def)

lemma finish_job_open: "finish_job fl out j = Inr k \<Longrightarrow> \<not> terminal (job_status j)"
  using finish_job_Inr[of fl out j k] by (cases "job_status j") auto

lemma step_goes_on:
  assumes "job_step lib st st'" and ok: "store_ok lib st"
    and k: "j \<in> set (jobs (st_ledger st))" "k \<in> set (jobs (st_ledger st'))" "job_id k = job_id j"
  shows "job_goes_on j k"
  using assms(1)
proof cases
  case (step_submit i p now r x)
  then have "k = j" using enqueue_goes_on[OF ok _ step_submit(1) k] by (simp add: submit_def)
  then show ?thesis by (simp add: job_goes_on_def)
next
  case (step_submit_idempotent i key p now r x)
  show ?thesis
  proof (cases "List.find (\<lambda>j. job_key j = Some (key_digest lib key)) (jobs (st_ledger st))")
    case None
    then have "enqueue lib p now i r None (Some (key_digest lib key)) st = (Inr x, st')"
      using step_submit_idempotent(3) by (auto simp: submit_idempotent_def split: if_splits)
    then have "k = j" using enqueue_goes_on[OF ok _ step_submit_idempotent(1) k] by blast
    then show ?thesis by (simp add: job_goes_on_def)
  next
    case (Some y)
    then have "st' = st" using step_submit_idempotent(3) by (auto simp: submit_idempotent_def split: if_splits)
    then show ?thesis using same_jobs_goes_on[OF ok _ k] by blast
  qed
next
  case (step_retry i p now old x)
  then obtain r where e: "enqueue lib p now i r (Some old) None st = (Inr x, st')"
    by (auto simp: job_retry_def split: option.splits if_splits)
  then have "k = j" using enqueue_goes_on[OF ok e step_retry(1) k] by blast
  then show ?thesis by (simp add: job_goes_on_def)
next
  case (step_claim p now x)
  then show ?thesis by (rule claim_goes_on[OF ok _ k])
next
  case (step_cancel p now i x)
  show ?thesis
    by (rule mutate_goes_on[OF ok step_cancel[unfolded cancel_def] _ k])
      (use cancel_job_moves cancel_job_open in blast)
next
  case (step_progress p now i q x)
  then have "mutate lib p now i (set_progress q) st = (Inr x, st')"
    by (simp add: report_progress_def split: if_splits)
  from mutate_goes_on[OF ok this _ k] show ?thesis using set_progress_moves set_progress_open by blast
next
  case (step_finish p now i fl out x)
  then have "mutate lib p now i (finish_job fl out) st = (Inr x, st')"
    by (simp add: finish_with_outcome_def split: if_splits)
  from mutate_goes_on[OF ok this _ k] show ?thesis using finish_job_moves finish_job_open by blast
next
  case (step_acknowledge p i t u)
  then obtain cs where c: "job_commit lib p st (st_ledger st\<lparr>completions := cs\<rparr>) = (Inr u, st')"
    using acknowledge_Inr by blast
  show ?thesis using commit_jobs[OF c] by (intro same_jobs_goes_on[OF ok _ k]) auto
next
  case (step_configure ts u)
  then have "st_ledger st' = st_ledger st" by (auto simp: configure_completions_def split: if_splits)
  then show ?thesis by (intro same_jobs_goes_on[OF ok _ k]) auto
next
  case (step_restart lim d lk now p)
  then show ?thesis by (rule restart_goes_on[OF ok _ k])
qed


lemma demo_claim:
  "claim demo_lib True 5 (demo_store [demo_job ''1'' Jp])
     = (Inr (Some (demo_job ''1'' Jp\<lparr>job_status := Running, job_updated := 5\<rparr>)),
        demo_store [demo_job ''1'' Jp\<lparr>job_status := Running, job_updated := 5\<rparr>])"
  by (simp add: demo_defs store_defs new_delivery_def Let_def)

text \<open>In every step of a reachable store a job keeps its id, request, key and origin, and its
  status moves only along the machine queued, running, cancelling, to a final state; the single
  exception is a restart, which fails an interrupted job. A job in a final state is never altered
  again: what was reported as completed, failed or cancelled stays so until it is retired.\<close>

theorem status_machine:
  assumes "job_reachable lib st" and "job_step lib st st'"
    and "j \<in> set (jobs (st_ledger st))" and "k \<in> set (jobs (st_ledger st'))" and "job_id k = job_id j"
  shows "job_request k = job_request j \<and> job_key k = job_key j \<and> job_retry_of k = job_retry_of j
    \<and> (if terminal (job_status j) then k = j
       else moves_to (job_status j) (job_status k)
         \<or> (occupies_slot (job_status j) \<and> job_status k = Failed
            \<and> job_failure k = Some ''service_interrupted'' \<and> job_outcome k = None))"
proof -
  have slot: "occupies_slot s \<Longrightarrow> \<not> terminal s" for s by (cases s) auto
  have refl: "moves_to s s" for s by (cases s) auto
  show ?thesis
    using step_goes_on[OF assms(2) reachable_ok[OF assms(1)] assms(3-5)] slot refl
    by (auto simp: job_goes_on_def job_moves_def interrupt_def)
qed

theorem status_machine_witness:
  "job_request (demo_job ''1'' Jp\<lparr>job_status := Running, job_updated := 5\<rparr>) = demo_request Jp
   \<and> moves_to Queued Running"
  using status_machine[OF demo_reachable(2) step_claim[OF demo_claim], of "demo_job ''1'' Jp"
      "demo_job ''1'' Jp\<lparr>job_status := Running, job_updated := 5\<rparr>"]
  by (simp add: demo_defs)

subsection \<open>Idempotent submission\<close>

lemma find_append_new: "List.find P (xs @ [y]) = (case List.find P xs of Some z \<Rightarrow> Some z | None \<Rightarrow> if P y then Some y else None)"
  by (induction xs) auto

lemma find_filter_last:
  assumes "List.find P xs = None" "P y" "Q y"
  shows "List.find P (filter Q (xs @ [y])) = Some y"
proof -
  have "List.find P (filter Q xs) = None" using assms(1) by (auto simp: find_None_iff)
  with assms(2,3) show ?thesis by (simp add: find_append_new)
qed

text \<open>Submitting with an idempotency key is safe to repeat: once a submission has returned a job,
  sending the key again, at any time before the job changes and whatever the disk does, returns that
  very job and changes nothing when the request is the same, and is refused as a conflict when it is
  another valid request. No second job is ever created.\<close>

theorem resubmission_returns_same_job:
  assumes r: "job_reachable lib st" and f: "fresh_id lib st i"
    and s: "submit_idempotent lib p now i r key st = (Inr j, st')" and v: "valid_request r'"
  shows "submit_idempotent lib p' now' i' r' key st' = (if r' = r then Inr j else Inl Conflict, st')"
proof -
  let ?has = "\<lambda>j. job_key j = Some (key_digest lib key)"
  have k: "key_text_ok key" using s by (simp add: submit_idempotent_def split: if_splits)
  have "List.find ?has (jobs (st_ledger st')) = Some j \<and> job_request j = r"
  proof (cases "List.find ?has (jobs (st_ledger st))")
    case None
    then have "enqueue lib p now i r None (Some (key_digest lib key)) st = (Inr j, st')"
      using s by (auto simp: submit_idempotent_def split: if_splits)
    then have j: "job_id j = i" "job_request j = r" "job_status j = Queued" "?has j"
      and c: "job_commit lib p st (st_ledger st\<lparr>jobs := jobs (st_ledger st) @ [j]\<rparr>) = (Inr (), st')"
      by (auto simp: enqueue_def Let_def split: if_splits prod.splits sum.splits)
    have d: "distinct (map job_id (jobs (st_ledger st) @ [j]))"
      using reachable_ok[OF r] f j(1) by (simp add: store_ok_def jobs_wf_def fresh_id_def)
    obtain P where P: "retain (retain_terminal (st_limits st)) (jobs (st_ledger st) @ [j]) = filter P (jobs (st_ledger st) @ [j])"
      "\<forall>x\<in>set (jobs (st_ledger st) @ [j]). \<not> terminal (job_status x) \<longrightarrow> P x"
      using retain_filter[of "retain_terminal (st_limits st)" "jobs (st_ledger st) @ [j]"] d by blast
    have "jobs (st_ledger st') = filter P (jobs (st_ledger st) @ [j])"
      using job_commit_Inr[OF c] P(1) by auto
    then show ?thesis using find_filter_last[OF None, of j P] P(2) j by simp
  next
    case (Some y)
    then show ?thesis using s by (auto simp: submit_idempotent_def split: if_splits)
  qed
  with k v show ?thesis by (auto simp: submit_idempotent_def)
qed

theorem resubmission_returns_same_job_witness:
  "\<exists>j st'. submit_idempotent demo_lib True 1 ''1'' (demo_request Jp) ''k'' (demo_store []) = (Inr j, st')
    \<and> submit_idempotent demo_lib False 2 ''2'' (demo_request Jp) ''k'' st' = (Inr j, st')
    \<and> submit_idempotent demo_lib True 2 ''3'' (demo_request Kr) ''k'' st' = (Inl Conflict, st')"
proof -
  obtain j st' where s: "submit_idempotent demo_lib True 1 ''1'' (demo_request Jp) ''k'' (demo_store []) = (Inr j, st')"
    by (simp add: demo_defs store_defs submit_idempotent_def key_text_ok_def new_delivery_def Let_def)
  have v: "valid_request (demo_request Jp)" "valid_request (demo_request Kr)" "demo_request Kr \<noteq> demo_request Jp"
    by (simp_all add: demo_defs valid_request_def is_ascii_alphanumeric_def is_ascii_lowercase_def)
  show ?thesis
    using resubmission_returns_same_job[OF demo_reachable(1) demo_fresh(1) s v(1), of False 2 "''2''"]
      resubmission_returns_same_job[OF demo_reachable(1) demo_fresh(1) s v(2), of True 2 "''3''"] v(3) s
    by auto
qed


subsection \<open>Finishing\<close>

lemma apply_first_at:
  "i \<notin> set (map job_id pre) \<Longrightarrow> job_id j = i \<Longrightarrow>
   apply_first now i f (pre @ j # post)
     = and_then (f j) (\<lambda>k. Inr (k\<lparr>job_updated := now\<rparr>, pre @ k\<lparr>job_updated := now\<rparr> # post))"
  by (induction pre) (auto simp: and_then_def split: sum.splits)

lemma add_completions_append:
  "add_completions lib ts old (xs @ ys) cs = and_then (add_completions lib ts old xs cs) (add_completions lib ts old ys)"
  by (induction xs arbitrary: cs) (auto split: option.splits simp: and_then_assoc and_then_def fail_if_def)

lemma add_completions_one:
  assumes "\<And>x. x \<in> set pre \<union> set post \<Longrightarrow> new_delivery ts old x = None"
    and "\<And>d. new_delivery ts old k = Some d \<Longrightarrow> length cs < MAX_COMPLETION_EVENTS \<and> bounded_completion lib (event d)"
  shows "add_completions lib ts old (pre @ k # post) cs
    = Inr (cs @ (case new_delivery ts old k of None \<Rightarrow> [] | Some d \<Rightarrow> [d]))"
proof -
  have pre: "add_completions lib ts old pre c = Inr c" and post: "add_completions lib ts old post c = Inr c" for c
    using assms(1) by (auto intro: add_completions_none)
  show ?thesis
    using assms(2) by (cases "new_delivery ts old k") (auto simp: add_completions_append pre post fail_if_def)
qed

lemma job_get_Some:
  assumes "job_get i st = Some j"
  shows "\<exists>pre post. jobs (st_ledger st) = pre @ j # post \<and> i \<notin> set (map job_id pre) \<and> job_id j = i"
proof -
  have "\<exists>pre post. js = pre @ j # post \<and> i \<notin> set (map job_id pre) \<and> job_id j = i"
    if "List.find (\<lambda>x. job_id x = i) js = Some j" for js
    using that
  proof (induction js)
    case (Cons a js)
    show ?case
    proof (cases "job_id a = i")
      case True
      with Cons.prems show ?thesis by (intro exI[of _ "[]"] exI[of _ js]) auto
    next
      case False
      with Cons.prems Cons.IH obtain pre post where "js = pre @ j # post" "i \<notin> set (map job_id pre)" "job_id j = i"
        by auto
      with False show ?thesis by (intro exI[of _ "a # pre"] exI[of _ post]) auto
    qed
  qed simp
  with assms show ?thesis by (simp add: job_get_def)
qed

text \<open>The status and the notice a finishing job gets.\<close>

definition final_status :: "string option \<Rightarrow> job \<Rightarrow> status" where
  "final_status failure j =
     (if job_status j = Cancelling then status.Cancelled
      else if failure \<noteq> None \<or> 0 < prog_failed (job_progress j) then Failed else Completed)"

definition notice_of :: "completion_target list \<Rightarrow> string option \<Rightarrow> outcome option \<Rightarrow> int \<Rightarrow> job \<Rightarrow> delivery list" where
  "notice_of ts failure out now j =
     (let pend = map tgt_identity (filter (\<lambda>t. tgt_region t = region_of j) ts) in
      case out of
        None \<Rightarrow> []
      | Some x \<Rightarrow>
          if final_status failure j = Completed \<and> pend \<noteq> []
          then [\<lparr>event = \<lparr>comp_schema = 1, comp_job = job_id j, comp_request = job_request j, comp_outcome = x,
                  comp_at = now\<rparr>, pending_targets = pend\<rparr>]
          else [])"

lemma finish_job_final:
  assumes "occupies_slot (job_status j)" "\<not> is_some_and (\<lambda>x. ver_region (out_verification x) \<noteq> region_of j) out"
  shows "\<exists>k. finish_job failure out j = Inr k \<and> job_status k = final_status failure j \<and> job_id k = job_id j
    \<and> job_request k = job_request j \<and> job_outcome k = (if final_status failure j = Completed then out else None)"
  using assms by (cases "job_status j") (auto simp: finish_job_def finished_status_def final_status_def)

lemma finish_succeeds:
  assumes r: "job_reachable lib st" and g: "job_get i st = Some j" and s: "occupies_slot (job_status j)"
    and code: "\<not> is_some_and (\<lambda>c. \<not> failure_code_ok c) failure"
    and reg: "\<not> is_some_and (\<lambda>x. ver_region (out_verification x) \<noteq> region_of j) out"
    and size: "list_all (\<lambda>d. bounded_completion lib (event d)) (notice_of (st_targets st) failure out now j)"
  shows "\<exists>k st'. finish_with_outcome lib True now i failure out st = (Inr k, st')
    \<and> job_id k = i \<and> job_status k = final_status failure j
    \<and> completions (st_ledger st') = completions (st_ledger st) @ notice_of (st_targets st) failure out now j"
proof -
  have ok: "store_ok lib st" by (rule reachable_ok[OF r])
  obtain pre post where js: "jobs (st_ledger st) = pre @ j # post" and i: "i \<notin> set (map job_id pre)" "job_id j = i"
    using job_get_Some[OF g] by blast
  obtain k0 where k0: "finish_job failure out j = Inr k0" "job_status k0 = final_status failure j" "job_id k0 = i"
    "job_request k0 = job_request j" "job_outcome k0 = (if final_status failure j = Completed then out else None)"
    using finish_job_final[OF s reg, of failure] i(2) by blast
  define k where "k = k0\<lparr>job_updated := now\<rparr>"
  have d: "distinct (map job_id (pre @ j # post))"
    using ok by (simp add: store_ok_def jobs_wf_def js)
  have none: "new_delivery (st_targets st) (jobs (st_ledger st)) x = None" if "x \<in> set pre \<union> set post" for x
    using that new_delivery_old[OF d] js by auto
  have notdone: "\<not> list_ex (\<lambda>x. job_id x = job_id k \<and> job_status x = Completed) (jobs (st_ledger st))"
    using d s i(2) k0(3) unfolding js by (auto simp: k_def list_ex_iff image_iff)
  have nd: "(case new_delivery (st_targets st) (jobs (st_ledger st)) k of None \<Rightarrow> [] | Some x \<Rightarrow> [x])
      = notice_of (st_targets st) failure out now j"
    using notdone k0 i(2)
    by (auto simp: new_delivery_def notice_of_def k_def Let_def region_of_def split: option.splits if_splits)
  have room: "length (completions (st_ledger st)) < MAX_COMPLETION_EVENTS"
    if "new_delivery (st_targets st) (jobs (st_ledger st)) k = Some x" for x
  proof -
    have "region_of k = region_of j" "\<not> terminal (job_status j)"
      using k0(4) s by (cases "job_status j"; simp add: k_def region_of_def)+
    moreover from this have "list_ex (\<lambda>t. tgt_region t = region_of j) (st_targets st)"
      using new_delivery_Some[OF that] by (auto simp: list_ex_iff filter_empty_conv)
    ultimately show ?thesis using ok by (simp add: store_ok_def js)
  qed
  have "add_completions lib (st_targets st) (jobs (st_ledger st)) (pre @ k # post) (completions (st_ledger st))
      = Inr (completions (st_ledger st) @ notice_of (st_targets st) failure out now j)"
    unfolding nd[symmetric]
  proof (rule add_completions_one)
    show "length (completions (st_ledger st)) < MAX_COMPLETION_EVENTS \<and> bounded_completion lib (event x)"
      if "new_delivery (st_targets st) (jobs (st_ledger st)) k = Some x" for x
      using that room[OF that] size unfolding nd[symmetric] by simp
  qed (use none in blast)
  then obtain st' where "job_commit lib True st (st_ledger st\<lparr>jobs := pre @ k # post\<rparr>) = (Inr (), st')"
    "completions (st_ledger st') = completions (st_ledger st) @ notice_of (st_targets st) failure out now j"
    by (simp add: job_commit_def Let_def)
  moreover have "apply_first now i (finish_job failure out) (jobs (st_ledger st)) = Inr (k, pre @ k # post)"
    using apply_first_at[OF i] k0(1) by (simp add: js k_def)
  ultimately show ?thesis
    using code k0 by (intro exI[of _ k] exI[of _ st']) (simp add: finish_with_outcome_def mutate_def k_def)
qed

text \<open>C16. A job that occupies a slot can always be finished: with a working disk, a well-formed
  failure code and an outcome of its region whose notice fits the size limit, finishing never reports
  a full queue of notices or any other error. The job becomes cancelled, failed or completed as its
  state and progress say, and a completed one with an outcome adds exactly one notice, addressed to
  all recipients of its region, to the pending ones.\<close>

theorem running_jobs_can_finish:
  assumes r: "job_reachable lib st" and g: "job_get i st = Some j" and s: "occupies_slot (job_status j)"
    and code: "\<not> is_some_and (\<lambda>c. \<not> failure_code_ok c) failure"
    and reg: "\<not> is_some_and (\<lambda>x. ver_region (out_verification x) \<noteq> region_of j) out"
    and size: "list_all (\<lambda>d. bounded_completion lib (event d)) (notice_of (st_targets st) failure out now j)"
  shows "\<exists>k st'. finish_with_outcome lib True now i failure out st = (Inr k, st')
    \<and> job_id k = i \<and> job_status k = final_status failure j
    \<and> completions (st_ledger st') = completions (st_ledger st) @ notice_of (st_targets st) failure out now j"
  using assms by (rule finish_succeeds)

lemma demo_running: "job_reachable demo_lib (demo_store [demo_job ''1'' Jp\<lparr>job_status := Running, job_updated := 5\<rparr>])"
  by (rule reach_step[OF demo_reachable(2) step_claim[OF demo_claim]])

theorem running_jobs_can_finish_witness:
  "\<exists>k st'. finish_with_outcome demo_lib True 9 ''1'' (Some ''upstream_lost'') None
      (demo_store [demo_job ''1'' Jp\<lparr>job_status := Running, job_updated := 5\<rparr>]) = (Inr k, st')
    \<and> job_status k = Failed"
  using running_jobs_can_finish[OF demo_running, of "''1''" "demo_job ''1'' Jp\<lparr>job_status := Running, job_updated := 5\<rparr>"
      "Some ''upstream_lost''" None 9]
  by (auto simp: demo_defs job_get_def failure_code_ok_def is_ascii_lowercase_def notice_of_def final_status_def)


subsection \<open>Retention\<close>

definition job_age :: "job \<Rightarrow> int \<times> string" where
  "job_age j = (job_updated j, job_id j)"

definition retired_ages :: "nat \<Rightarrow> job list \<Rightarrow> (int \<times> string) list" where
  "retired_ages n js = (let ages = sort (map job_age (filter (\<lambda>j. terminal (job_status j)) js)) in
     take (length ages - n) ages)"

lemma retain_by_age:
  assumes d: "distinct (map job_id js)" and n: "0 < n"
  shows "retain n js = filter (\<lambda>j. \<not> (terminal (job_status j) \<and> job_age j \<in> set (retired_ages n js))) js"
proof -
  let ?ages = "sort (map job_age (filter (\<lambda>j. terminal (job_status j)) js))"
  have sub: "set (retired_ages n js) \<subseteq> job_age ` {j \<in> set js. terminal (job_status j)}"
    using set_take_subset[of "length ?ages - n" ?ages] by (auto simp: retired_ages_def Let_def)
  have "job_id j \<in> snd ` set (retired_ages n js) \<longleftrightarrow> terminal (job_status j) \<and> job_age j \<in> set (retired_ages n js)"
    if "j \<in> set js" for j
  proof
    assume "job_id j \<in> snd ` set (retired_ages n js)"
    then obtain a where a: "a \<in> set (retired_ages n js)" "snd a = job_id j" by auto
    with sub obtain i where i: "i \<in> set js" "terminal (job_status i)" "a = job_age i" by auto
    then have "i = j" using d that a(2) by (auto simp: distinct_map inj_on_def job_age_def)
    with a i show "terminal (job_status j) \<and> job_age j \<in> set (retired_ages n js)" by blast
  qed (force simp: job_age_def)
  then have "filter (\<lambda>j. job_id j \<notin> snd ` set (retired_ages n js)) js
      = filter (\<lambda>j. \<not> (terminal (job_status j) \<and> job_age j \<in> set (retired_ages n js))) js"
    by (intro filter_cong) auto
  then show ?thesis using n by (simp add: retain_def retired_ages_def Let_def job_age_def[abs_def])
qed

lemma filter_sorted_suffix:
  assumes "distinct xs" "mset ys = mset xs"
  shows "length (filter (\<lambda>x. x \<notin> set (take m xs)) ys) = length xs - m"
proof -
  have "filter (\<lambda>x. x \<notin> set (take m xs)) xs = drop m xs"
  proof -
    have "filter (\<lambda>x. x \<notin> set (take m xs)) xs
        = filter (\<lambda>x. x \<notin> set (take m xs)) (take m xs) @ filter (\<lambda>x. x \<notin> set (take m xs)) (drop m xs)"
      by (metis append_take_drop_id filter_append)
    also have "filter (\<lambda>x. x \<notin> set (take m xs)) (drop m xs) = drop m xs"
      using set_take_disj_set_drop_if_distinct[OF assms(1), of m m] unfolding filter_id_conv by auto
    finally show ?thesis by simp
  qed
  moreover have "mset (filter (\<lambda>x. x \<notin> set (take m xs)) ys) = mset (filter (\<lambda>x. x \<notin> set (take m xs)) xs)"
    using assms(2) by simp
  ultimately show ?thesis by (metis length_drop mset_eq_length)
qed

lemma sorted_take_drop:
  assumes "sorted xs" "a \<in> set (take m xs)" "b \<in> set xs" "b \<notin> set (take m xs)"
  shows "a \<le> b"
proof -
  have "b \<in> set (drop m xs)" using assms(3,4) by (metis Un_iff append_take_drop_id set_append)
  moreover have "sorted (take m xs @ drop m xs)" using assms(1) by simp
  ultimately show ?thesis using assms(2) by (simp only: sorted_append)
qed

text \<open>Retention removes finished jobs only, the oldest first: with a positive limit exactly the
  newest \<open>n\<close> finished jobs (or all, if there are fewer) stay, every removed one is at most as recent
  as every finished one that stays, and the order of the ledger is kept.\<close>

theorem retention_drops_oldest_finished:
  assumes d: "distinct (map job_id js)" and n: "0 < n"
  shows "length (filter (\<lambda>j. terminal (job_status j)) (retain n js))
           = min n (length (filter (\<lambda>j. terminal (job_status j)) js))
    \<and> filter (\<lambda>j. \<not> terminal (job_status j)) (retain n js) = filter (\<lambda>j. \<not> terminal (job_status j)) js
    \<and> (\<forall>j\<in>set js - set (retain n js). \<forall>k\<in>set (retain n js). terminal (job_status k) \<longrightarrow>
         (job_updated j, job_id j) \<le> (job_updated k, job_id k))
    \<and> subseq (retain n js) js"
proof (intro conjI)
  let ?t = "\<lambda>j. terminal (job_status j)"
  let ?ages = "sort (map job_age (filter ?t js))"
  note R = retain_by_age[OF d n]
  have inj: "distinct (map job_age js)"
    using d by (auto simp: distinct_map inj_on_def job_age_def)
  have dist: "distinct ?ages" using inj by (simp add: distinct_map_filter)
  have ret: "retired_ages n js = take (length ?ages - n) ?ages" by (simp add: retired_ages_def Let_def)
  have "filter ?t (retain n js) = filter (\<lambda>j. job_age j \<notin> set (retired_ages n js)) (filter ?t js)"
    unfolding R filter_filter by (rule filter_cong) auto
  then have "length (filter ?t (retain n js)) = length (filter (\<lambda>x. x \<notin> set (retired_ages n js)) (map job_age (filter ?t js)))"
    by (simp add: filter_map comp_def)
  also have "\<dots> = length ?ages - (length ?ages - n)"
    unfolding ret by (rule filter_sorted_suffix[OF dist]) simp
  finally show "length (filter ?t (retain n js)) = min n (length (filter ?t js))" by simp
  show "filter (\<lambda>j. \<not> ?t j) (retain n js) = filter (\<lambda>j. \<not> ?t j) js"
    unfolding R filter_filter by (rule filter_cong) auto
  show "\<forall>j\<in>set js - set (retain n js). \<forall>k\<in>set (retain n js). ?t k \<longrightarrow> (job_updated j, job_id j) \<le> (job_updated k, job_id k)"
  proof (intro ballI impI)
    fix j k assume j: "j \<in> set js - set (retain n js)" and k: "k \<in> set (retain n js)" "?t k"
    have "job_age j \<in> set (take (length ?ages - n) ?ages)" using j unfolding R ret by auto
    moreover have "job_age k \<in> set ?ages" "job_age k \<notin> set (take (length ?ages - n) ?ages)"
      using k unfolding R ret by auto
    ultimately have "job_age j \<le> job_age k" by (intro sorted_take_drop[of ?ages]) auto
    then show "(job_updated j, job_id j) \<le> (job_updated k, job_id k)" by (simp add: job_age_def)
  qed
  show "subseq (retain n js) js" unfolding R by (rule subseq_filter_left)
qed

theorem retention_drops_oldest_finished_witness:
  "retain 1 [demo_job ''1'' Jp\<lparr>job_status := Failed, job_updated := 4\<rparr>, demo_job ''2'' Kr,
      demo_job ''3'' Jp\<lparr>job_status := Completed, job_updated := 3\<rparr>]
     = [demo_job ''1'' Jp\<lparr>job_status := Failed, job_updated := 4\<rparr>, demo_job ''2'' Kr]"
  using retention_drops_oldest_finished[of "[demo_job ''1'' Jp\<lparr>job_status := Failed, job_updated := 4\<rparr>, demo_job ''2'' Kr,
      demo_job ''3'' Jp\<lparr>job_status := Completed, job_updated := 3\<rparr>]" 1]
  by (simp add: demo_defs retain_def)

subsection \<open>Recovery\<close>

text \<open>What a restart makes of a job, by the status it was left in.\<close>

definition recovered_job :: "int \<Rightarrow> job \<Rightarrow> job" where
  "recovered_job now j = (case job_status j of
       Running \<Rightarrow> j\<lparr>job_status := Failed, job_failure := Some ''service_interrupted'',
                   job_outcome := None, job_updated := now\<rparr>
     | Cancelling \<Rightarrow> j\<lparr>job_status := Failed, job_failure := Some ''service_interrupted'',
                      job_outcome := None, job_updated := now\<rparr>
     | _ \<Rightarrow> j)"

lemma interrupt_recovers: "interrupt now = recovered_job now"
  by (rule ext) (simp add: interrupt_def recovered_job_def split: status.splits)

lemma recovered_job_simps [simp]:
  "job_id (recovered_job now j) = job_id j"
  "terminal (job_status (recovered_job now j)) \<longleftrightarrow> job_status j \<noteq> Queued"
  by (simp_all add: recovered_job_def split: status.splits)

lemma retain_lost: "\<exists>lost. retain n js = filter (\<lambda>j. job_id j \<notin> lost) js
    \<and> lost \<subseteq> job_id ` set js \<and> (n = 0 \<longrightarrow> lost = {})"
proof (cases "0 < n")
  case True
  let ?ends = "sort (map (\<lambda>j. (job_updated j, job_id j)) (filter (\<lambda>j. terminal (job_status j)) js))"
  let ?lost = "set (map snd (take (length ?ends - n) ?ends))"
  have "?lost \<subseteq> job_id ` set js"
    using set_take_subset[of "length ?ends - n" ?ends] by auto
  with True show ?thesis unfolding retain_def by (intro exI[of _ ?lost]) (simp add: Let_def)
qed (auto simp: retain_def intro: exI[of _ "{}"])

text \<open>C39. A crash loses nothing that was reported: the file any reachable store left behind always
  opens again (with positive limits, a free lock and a working disk). Every pending notice is kept and
  nothing is active. The jobs are those left behind, in order: one that was running or cancelling is now
  failed with \<open>service_interrupted\<close>, without an outcome and dated now, every other one is unchanged.
  Only retention drops a job, never a queued one: with limit 0 none, otherwise all but that many
  finished ones, and those that stay are the most recent. What is in memory is what is persisted.\<close>

theorem restart_recovers_ledger:
  assumes "job_reachable lib st" and "0 < max_running lim" and "0 < max_queued lim"
  shows "\<exists>st' lost. job_open lib lim True True (Parsed (st_saved st)) now True = Inr st'
    \<and> jobs (st_ledger st')
        = map (\<lambda>j. case job_status j of
              Running \<Rightarrow> j\<lparr>job_status := Failed, job_failure := Some ''service_interrupted'',
                job_outcome := None, job_updated := now\<rparr>
            | Cancelling \<Rightarrow> j\<lparr>job_status := Failed, job_failure := Some ''service_interrupted'',
                job_outcome := None, job_updated := now\<rparr>
            | _ \<Rightarrow> j)
          (filter (\<lambda>j. job_id j \<notin> lost) (jobs (st_ledger st)))
    \<and> (\<forall>j\<in>set (jobs (st_ledger st)). job_id j \<in> lost \<longrightarrow> job_status j \<noteq> Queued)
    \<and> (if retain_terminal lim = 0 then lost = {}
       else length (filter (\<lambda>j. job_status j \<noteq> Queued) (jobs (st_ledger st')))
              = min (retain_terminal lim)
                  (length (filter (\<lambda>j. job_status j \<noteq> Queued) (jobs (st_ledger st))))
         \<and> (\<forall>j\<in>set (jobs (st_ledger st)). \<forall>k\<in>set (jobs (st_ledger st')).
              job_id j \<in> lost \<longrightarrow> job_status k \<noteq> Queued \<longrightarrow>
              (if job_status j \<in> {Running, Cancelling} then now else job_updated j, job_id j)
                \<le> (job_updated k, job_id k)))
    \<and> completions (st_ledger st') = completions (st_ledger st)
    \<and> active_jobs (jobs (st_ledger st')) = []
    \<and> st_saved st' = st_ledger st'"
proof -
  let ?js = "jobs (st_ledger st)" and ?f = "recovered_job now"
  obtain st' where st': "job_open lib lim True True (Parsed (st_saved st)) now True = Inr st'"
    "jobs (st_ledger st') = retain (retain_terminal lim) (map ?f ?js)"
    "completions (st_ledger st') = completions (st_ledger st)"
    using restart_succeeds[OF reachable_ok[OF assms(1)] assms(2,3), unfolded interrupt_recovers] by blast
  obtain lost where lost: "retain (retain_terminal lim) (map ?f ?js) = filter (\<lambda>j. job_id j \<notin> lost) (map ?f ?js)"
    "retain_terminal lim = 0 \<longrightarrow> lost = {}"
    using retain_lost by blast
  have kept: "jobs (st_ledger st') = map ?f (filter (\<lambda>j. job_id j \<notin> lost) ?js)"
    by (simp add: st'(2) lost(1) filter_map comp_def)
  have dist: "distinct (map job_id (map ?f ?js))"
    using reachable_ok[OF assms(1)] by (simp add: store_ok_def jobs_wf_def comp_def)
  have kept_set: "set (jobs (st_ledger st')) = ?f ` {j \<in> set ?js. job_id j \<notin> lost}"
    unfolding kept by auto
  have R: "length (filter (\<lambda>j. terminal (job_status j)) (jobs (st_ledger st')))
        = min (retain_terminal lim) (length (filter (\<lambda>j. terminal (job_status j)) (map ?f ?js)))"
      "set (filter (\<lambda>j. \<not> terminal (job_status j)) (map ?f ?js)) \<subseteq> set (jobs (st_ledger st'))"
      "\<And>j k. j \<in> ?f ` set ?js \<Longrightarrow> j \<notin> set (jobs (st_ledger st')) \<Longrightarrow> k \<in> set (jobs (st_ledger st'))
        \<Longrightarrow> terminal (job_status k) \<Longrightarrow> (job_updated j, job_id j) \<le> (job_updated k, job_id k)"
    if "retain_terminal lim \<noteq> 0"
  proof -
    have pos: "0 < retain_terminal lim" using that by simp
    note ret = retention_drops_oldest_finished[OF dist pos, folded st'(2)]
    show "length (filter (\<lambda>j. terminal (job_status j)) (jobs (st_ledger st')))
        = min (retain_terminal lim) (length (filter (\<lambda>j. terminal (job_status j)) (map ?f ?js)))"
      using ret by (rule conjunct1)
    show "set (filter (\<lambda>j. \<not> terminal (job_status j)) (map ?f ?js)) \<subseteq> set (jobs (st_ledger st'))"
      unfolding conjunct1[OF conjunct2[OF ret], symmetric] by (rule filter_is_subset)
    show "(job_updated j, job_id j) \<le> (job_updated k, job_id k)"
      if "j \<in> ?f ` set ?js" "j \<notin> set (jobs (st_ledger st'))" "k \<in> set (jobs (st_ledger st'))"
        "terminal (job_status k)" for j k
      using conjunct1[OF conjunct2[OF conjunct2[OF ret]]] that by simp
  qed
  have gone: "?f j \<notin> set (jobs (st_ledger st'))" if "job_id j \<in> lost" for j
  proof
    assume "?f j \<in> set (jobs (st_ledger st'))"
    then obtain i where "?f j = ?f i" "job_id i \<notin> lost" unfolding kept_set by (auto elim!: imageE)
    then show False using that recovered_job_simps(1) by metis
  qed
  have queued: "job_status j \<noteq> Queued" if "j \<in> set ?js" "job_id j \<in> lost" for j
  proof
    assume "job_status j = Queued"
    then have "?f j \<in> set (filter (\<lambda>j. \<not> terminal (job_status j)) (map ?f ?js))" using that(1) by simp
    moreover have "retain_terminal lim \<noteq> 0" using lost(2) that(2) by (metis empty_iff)
    ultimately show False using gone[OF that(2)] subsetD[OF R(2)] by metis
  qed
  have finished: "terminal (job_status k) \<longleftrightarrow> job_status k \<noteq> Queued" if mem: "k \<in> set (jobs (st_ledger st'))" for k
  proof -
    obtain j where k: "k = ?f j" using mem unfolding kept_set by blast
    show ?thesis unfolding k by (cases "job_status j") (simp_all add: recovered_job_def)
  qed
  have "length (filter (\<lambda>j. job_status j \<noteq> Queued) (jobs (st_ledger st')))
        = min (retain_terminal lim) (length (filter (\<lambda>j. job_status j \<noteq> Queued) ?js))"
    if "retain_terminal lim \<noteq> 0"
  proof -
    have "filter (\<lambda>j. job_status j \<noteq> Queued) (jobs (st_ledger st'))
        = filter (\<lambda>j. terminal (job_status j)) (jobs (st_ledger st'))"
      by (rule filter_cong) (simp_all add: finished)
    with R(1)[OF that] show ?thesis by (simp add: filter_map comp_def)
  qed
  moreover have "(if job_status j \<in> {Running, Cancelling} then now else job_updated j, job_id j)
        \<le> (job_updated k, job_id k)"
    if "retain_terminal lim \<noteq> 0" "j \<in> set ?js" "k \<in> set (jobs (st_ledger st'))" "job_id j \<in> lost"
      "job_status k \<noteq> Queued" for j k
  proof -
    have "job_updated (?f j) = (if job_status j \<in> {Running, Cancelling} then now else job_updated j)"
      by (cases "job_status j") (simp_all add: recovered_job_def)
    with R(3)[OF that(1) _ gone[OF that(4)] that(3)] that(2,3,5) finished show ?thesis by simp
  qed
  ultimately have limit: "if retain_terminal lim = 0 then lost = {}
      else length (filter (\<lambda>j. job_status j \<noteq> Queued) (jobs (st_ledger st')))
          = min (retain_terminal lim) (length (filter (\<lambda>j. job_status j \<noteq> Queued) ?js))
        \<and> (\<forall>j\<in>set ?js. \<forall>k\<in>set (jobs (st_ledger st')). job_id j \<in> lost \<longrightarrow> job_status k \<noteq> Queued \<longrightarrow>
            (if job_status j \<in> {Running, Cancelling} then now else job_updated j, job_id j)
              \<le> (job_updated k, job_id k))"
    using lost(2) by simp
  have "active_jobs (jobs (st_ledger st')) = []"
    unfolding st'(2) lost(1) active_jobs_filter by (simp add: active_interrupt flip: interrupt_recovers)
  moreover have "store_ok lib st'"
    by (rule reachable_ok[OF reach_step[OF assms(1) step_restart[OF st'(1)]]])
  then have "st_saved st' = st_ledger st'" by (simp add: store_ok_def)
  ultimately show ?thesis
    using st'(1,3) kept[unfolded recovered_job_def] queued limit
    by (intro exI[of _ st'] exI[of _ lost] conjI) blast+
qed

theorem restart_recovers_ledger_witness:
  "\<exists>st'. job_open demo_lib demo_limits True True
      (Parsed (demo_ledger [demo_job ''1'' Jp\<lparr>job_status := Running, job_updated := 5\<rparr>])) 7 True = Inr st'
    \<and> jobs (st_ledger st') = [demo_job ''1'' Jp\<lparr>job_status := Failed,
         job_failure := Some ''service_interrupted'', job_updated := 7\<rparr>]"
  using restart_recovers_ledger[OF demo_running, of demo_limits 7]
  by (auto simp: demo_defs split: if_splits)

end
