(* ===== verification/Admission.thy ===== *)
theory Admission
  imports Errors
begin

text \<open>
  Admission control of the export: the byte-weighted budget (\<open>src/resource_budget.rs\<close>), the counting
  gate (\<open>src/media_gate.rs\<close>), the limits of the decoder stages (\<open>src/stage_limits.rs\<close>) and the
  sizing of workers by CPUs (\<open>src/cpu_policy.rs\<close>). Both kinds of admission hold a mutex while they
  look at and change their counter and wait in between, so a run is a sequence of attempts and
  releases in any order. The product of a CPU count and the configured ratio is a rounding of the
  processor's floating point and an argument here.
\<close>

subsection \<open>The byte budget\<close>

record budget =
  bud_limit :: u64
  bud_used :: u64

definition new_budget :: "u64 \<Rightarrow> budget" where
  "new_budget l = \<lparr>bud_limit = l, bud_used = 0\<rparr>"

text \<open>An oversized resource gets exclusive admission instead of waiting forever.\<close>

definition budget_weight :: "budget \<Rightarrow> u64 \<Rightarrow> u64" where
  "budget_weight b n = min (max n 1) (bud_limit b)"

text \<open>One round of the loop of \<open>Budget::acquire\<close>: \<open>Inr None\<close> waits for the next round.\<close>

definition budget_try :: "budget \<Rightarrow> u64 \<Rightarrow> bool \<Rightarrow> (error + u64 option) \<times> budget" where
  "budget_try b n cancelled =
     (if bud_limit b = 0 then (Inl error.Config, b)
      else if cancelled then (Inl error.Cancelled, b)
      else if budget_weight b n \<le> bud_limit b - bud_used b
      then (Inr (Some (budget_weight b n)), b\<lparr>bud_used := bud_used b + budget_weight b n\<rparr>)
      else (Inr None, b))"

text \<open>\<open>Drop for Permit\<close>\<close>

definition budget_drop :: "u64 \<Rightarrow> budget \<Rightarrow> budget" where
  "budget_drop w b = b\<lparr>bud_used := bud_used b - w\<rparr>"

subsection \<open>The gate\<close>

text \<open>The state of a gate is the number of permits; a round sees the cancellation flag and the clock.\<close>

definition gate_try :: "nat \<Rightarrow> nat \<Rightarrow> bool \<Rightarrow> bool \<Rightarrow> (error + unit option) \<times> nat" where
  "gate_try lim active cancelled expired =
     (if lim = 0 then (Inl error.Config, active)
      else if cancelled then (Inl error.Cancelled, active)
      else if expired then (Inl (error.Export ''media process timed out''), active)
      else if active < lim then (Inr (Some ()), active + 1)
      else (Inr None, active))"

definition gate_drop :: "nat \<Rightarrow> nat" where
  "gate_drop active = active - 1"

subsection \<open>Runs of admissions\<close>

text \<open>An attempt with what it sees, or the release of the \<open>i\<close>-th permit held.\<close>

datatype 'r admission_event = Attempt 'r | Release nat

definition remove_nth :: "nat \<Rightarrow> 'a list \<Rightarrow> 'a list" where
  "remove_nth i xs = take i xs @ drop (Suc i) xs"

fun admission_step ::
  "('s \<Rightarrow> 'r \<Rightarrow> (error + 'p option) \<times> 's) \<Rightarrow> ('p \<Rightarrow> 's \<Rightarrow> 's) \<Rightarrow> 'r admission_event \<Rightarrow> 's \<times> 'p list \<Rightarrow> 's \<times> 'p list" where
  "admission_step att rel (Attempt r) (s, ps) =
     (case att s r of (Inr (Some p), s') \<Rightarrow> (s', p # ps) | (_, s') \<Rightarrow> (s', ps))"
| "admission_step att rel (Release i) (s, ps) =
     (if i < length ps then (rel (ps ! i) s, remove_nth i ps) else (s, ps))"

definition admission_run ::
  "('s \<Rightarrow> 'r \<Rightarrow> (error + 'p option) \<times> 's) \<Rightarrow> ('p \<Rightarrow> 's \<Rightarrow> 's) \<Rightarrow> 'r admission_event list \<Rightarrow> 's \<times> 'p list \<Rightarrow> 's \<times> 'p list" where
  "admission_run att rel evs x = fold (admission_step att rel) evs x"

lemma sum_list_remove_nth:
  "i < length xs \<Longrightarrow> sum_list (map f (remove_nth i xs)) = sum_list (map f xs) - (f (xs ! i) :: nat)"
  "i < length xs \<Longrightarrow> f (xs ! i) \<le> sum_list (map f xs)"
proof -
  assume i: "i < length xs"
  then have "sum_list (map f (take i xs @ xs ! i # drop (Suc i) xs)) = sum_list (map f xs)"
    by (simp only: id_take_nth_drop[symmetric])
  then show "sum_list (map f (remove_nth i xs)) = sum_list (map f xs) - f (xs ! i)"
    "f (xs ! i) \<le> sum_list (map f xs)"
    by (simp_all add: remove_nth_def)
qed

text \<open>What both kinds of admission promise: an attempt that does not admit changes nothing; an
  admission adds the permit's weight and stays within the capacity; a release takes it off again.\<close>

locale admission =
  fixes att :: "'s \<Rightarrow> 'r \<Rightarrow> (error + 'p option) \<times> 's" and rel :: "'p \<Rightarrow> 's \<Rightarrow> 's"
    and load :: "'s \<Rightarrow> nat" and cap :: "'s \<Rightarrow> nat" and weight :: "'p \<Rightarrow> nat"
  assumes refused: "att s r = (x, s') \<Longrightarrow> (\<And>p. x \<noteq> Inr (Some p)) \<Longrightarrow> s' = s"
    and admitted: "att s r = (Inr (Some p), s') \<Longrightarrow> load s \<le> cap s \<Longrightarrow>
      load s' = load s + weight p \<and> load s' \<le> cap s' \<and> cap s' = cap s \<and> 0 < weight p \<and> weight p \<le> cap s"
    and released: "weight p \<le> load s \<Longrightarrow> load (rel p s) = load s - weight p \<and> cap (rel p s) = cap s"
begin

text \<open>The load is exactly what is held, and never above the capacity.\<close>

definition accounted :: "nat \<Rightarrow> 's \<times> 'p list \<Rightarrow> bool" where
  "accounted c x \<longleftrightarrow> load (fst x) = sum_list (map weight (snd x)) \<and> load (fst x) \<le> cap (fst x) \<and> cap (fst x) = c
     \<and> (\<forall>p\<in>set (snd x). 0 < weight p \<and> weight p \<le> c)"

lemma step_accounted:
  assumes "accounted c x"
  shows "accounted c (admission_step att rel e x)"
proof (cases e)
  case (Attempt r)
  obtain s ps where x: "x = (s, ps)" by (cases x)
  obtain y s' where a: "att s r = (y, s')" by (cases "att s r")
  show ?thesis
  proof (cases "\<exists>p. y = Inr (Some p)")
    case True
    then obtain p where p: "y = Inr (Some p)" by blast
    have "load s \<le> cap s" "cap s = c" using assms x by (simp_all add: accounted_def)
    with admitted[OF a[unfolded p]] assms show ?thesis by (auto simp: Attempt x a p accounted_def)
  next
    case False
    then have "s' = s" using refused[OF a] by blast
    with False have "admission_step att rel e x = x"
      by (cases y) (auto simp: Attempt x a split: option.splits)
    with assms show ?thesis by simp
  qed
next
  case (Release i)
  obtain s ps where x: "x = (s, ps)" by (cases x)
  show ?thesis
  proof (cases "i < length ps")
    case True
    have "weight (ps ! i) \<le> load s"
      using sum_list_remove_nth(2)[OF True, of weight] assms x by (simp add: accounted_def)
    moreover have "set (remove_nth i ps) \<subseteq> set ps"
      using set_take_subset[of i ps] set_drop_subset[of "Suc i" ps] by (auto simp: remove_nth_def)
    ultimately show ?thesis
      using released[of "ps ! i" s] assms True sum_list_remove_nth(1)[OF True, of weight]
      by (auto simp: Release x accounted_def)
  next
    case False
    with assms show ?thesis by (simp add: Release x)
  qed
qed

lemma run_accounted: "accounted c x \<Longrightarrow> accounted c (admission_run att rel evs x)"
  unfolding admission_run_def by (induction evs arbitrary: x) (simp_all add: step_accounted)

lemma start_accounted: "load s = 0 \<Longrightarrow> accounted (cap s) (s, [])"
  by (simp add: accounted_def)

text \<open>From an empty start: exact accounting, capacity, and a permit as heavy as the capacity is alone.\<close>

lemma run_within:
  assumes "load s = 0" and "admission_run att rel evs (s, []) = (s', ps)"
  shows "load s' = sum_list (map weight ps) \<and> sum_list (map weight ps) \<le> cap s \<and> cap s' = cap s
    \<and> (\<forall>p\<in>set ps. 0 < weight p) \<and> (\<forall>p\<in>set ps. weight p = cap s \<longrightarrow> ps = [p])"
proof -
  have acc: "accounted (cap s) (s', ps)"
    using run_accounted[OF start_accounted[OF assms(1)], of evs] assms(2) by simp
  have "ps = [p]" if p: "p \<in> set ps" "weight p = cap s" for p
  proof -
    obtain xs ys where ps: "ps = xs @ p # ys" using split_list[OF p(1)] by blast
    have "sum_list (map weight ps) \<le> cap s" using acc unfolding accounted_def by auto
    moreover have "sum_list (map weight ps) = sum_list (map weight xs) + weight p + sum_list (map weight ys)"
      by (simp add: ps)
    ultimately have zero: "sum_list (map weight xs) = 0 \<and> sum_list (map weight ys) = 0" using p(2) by linarith
    have "zs = []" if "sum_list (map weight zs) = 0" "set zs \<subseteq> set ps" for zs
      using that acc by (cases zs) (auto simp: accounted_def)
    with zero have "xs = []" "ys = []" by (auto simp: ps)
    then show ?thesis by (simp add: ps)
  qed
  with acc show ?thesis by (auto simp: accounted_def)
qed

end

interpretation byte_budget: admission "\<lambda>b (n, c). budget_try b n c" budget_drop "\<lambda>b. unat (bud_used b)"
  "\<lambda>b. unat (bud_limit b)" unat
proof (unfold_locales, goal_cases)
  case (1 s r x s')
  then show ?case by (auto simp: budget_try_def split: prod.splits if_splits)
next
  case (2 s r p s')
  then obtain n where n: "bud_limit s \<noteq> 0" "p = budget_weight s n" "budget_weight s n \<le> bud_limit s - bud_used s"
    "s' = s\<lparr>bud_used := bud_used s + budget_weight s n\<rparr>"
    by (auto simp: budget_try_def split: prod.splits if_splits)
  have le: "bud_used s \<le> bud_limit s" using 2(2) by (simp add: word_le_nat_alt)
  then have "unat (budget_weight s n) \<le> unat (bud_limit s) - unat (bud_used s)"
    using n(3) by (simp add: word_le_nat_alt unat_sub)
  then have w: "unat (bud_used s) + unat (budget_weight s n) \<le> unat (bud_limit s)"
    using 2(2) by linarith
  then have "unat (bud_used s + budget_weight s n) = unat (bud_used s) + unat (budget_weight s n)"
  proof -
    have "unat (bud_limit s) < 2 ^ 64" using unsigned_less[of "bud_limit s"] by simp
    with w show ?thesis by (simp add: unat_word_ariths)
  qed
  moreover have "0 < unat (budget_weight s n)"
  proof -
    have "max n 1 \<noteq> 0" by (auto simp: max_def)
    then show ?thesis using n(1) by (simp add: budget_weight_def min_def word_gt_0 unat_gt_0)
  qed
  ultimately show ?case using n w by simp
next
  case (3 p s)
  then show ?case by (simp add: budget_drop_def unat_sub word_le_nat_alt)
qed

interpretation media_gate: admission "\<lambda>(l, n) (c, e). (fst (gate_try l n c e), (l, snd (gate_try l n c e)))"
  "\<lambda>_ (l, n). (l, gate_drop n)" snd fst "\<lambda>_. 1"
  by unfold_locales (auto simp: gate_try_def gate_drop_def split: if_splits prod.splits)


subsection \<open>Stage limits\<close>

datatype decoder_stage = Acb | Usm | Hca | Image | AudioEncode | VideoEncode

record stage_config =
  stage_auto :: bool
  stage_limit :: "decoder_stage \<Rightarrow> nat option"
  stage_wait :: nat

definition all_stages :: "decoder_stage list" where
  "all_stages = [Acb, Usm, Hca, Image, AudioEncode, VideoEncode]"

definition stage_default :: stage_config where
  "stage_default = \<lparr>stage_auto = False, stage_limit = (\<lambda>_. None), stage_wait = 3600\<rparr>"

definition stage_validate :: "stage_config \<Rightarrow> error + unit" where
  "stage_validate c =
     fail_if (list_ex (\<lambda>st. is_some_and (\<lambda>n. \<not> (1 \<le> n \<and> n \<le> 64)) (stage_limit c st)) all_stages
       \<or> \<not> (1 \<le> stage_wait c \<and> stage_wait c \<le> 3600)) error.Config"

definition clamp :: "nat \<Rightarrow> nat \<Rightarrow> nat \<Rightarrow> nat" where
  "clamp lo hi n = (if n < lo then lo else if hi < n then hi else n)"

text \<open>Worker sizing: \<open>scaled\<close> is \<open>(cpus as f64 * budget_ratio).floor() as usize\<close>, \<open>ratio_ok\<close> and
  \<open>throttle_ok\<close> the checks of the ratio and of the throttle settings.\<close>

record cpu_policy =
  cpu_auto_tune :: bool
  cpu_budget_auto :: bool
  cpu_ratio_ok :: bool
  cpu_throttle_ok :: bool
  cpu_scaled :: "nat \<Rightarrow> nat"
  cpu_reserved :: nat

definition cpu_validate :: "cpu_policy \<Rightarrow> error + unit" where
  "cpu_validate p =
     and_then (fail_if (\<not> cpu_throttle_ok p) error.Config) (\<lambda>_. fail_if (\<not> cpu_ratio_ok p) error.Config)"

definition budget_for_cpus :: "cpu_policy \<Rightarrow> nat \<Rightarrow> error + nat" where
  "budget_for_cpus p cpus =
     and_then (cpu_validate p) (\<lambda>_.
     (let n = max cpus 1 in
      Inr (if cpu_budget_auto p then max (cpu_scaled p n - cpu_reserved p) 1 else n)))"

text \<open>\<open>saturating_mul\<close> on \<open>usize\<close>: 64 bits.\<close>

definition workers_for_cpus :: "cpu_policy \<Rightarrow> nat \<Rightarrow> nat \<Rightarrow> error + nat" where
  "workers_for_cpus p configured cpus =
     and_then (cpu_validate p) (\<lambda>_.
     and_then (fail_if (\<not> (1 \<le> configured \<and> configured \<le> 64)) error.Config) (\<lambda>_.
     if \<not> cpu_auto_tune p then Inr configured
     else
       (let n = max cpus 1 in
        and_then (budget_for_cpus p n) (\<lambda>budget.
        Inr (min (min (max configured budget) (min (n * 2) (2 ^ 64 - 1))) 64)))))"

definition automatic_width :: "nat \<Rightarrow> decoder_stage \<Rightarrow> nat" where
  "automatic_width budget st =
     (if st = VideoEncode then clamp 1 64 (budget div 2) else clamp 1 64 budget)"

definition effective :: "stage_config \<Rightarrow> cpu_policy \<Rightarrow> nat \<Rightarrow> error + stage_config" where
  "effective c p cpus =
     and_then (stage_validate c) (\<lambda>_.
     and_then (budget_for_cpus p cpus) (\<lambda>budget.
     if \<not> stage_auto c then Inr c
     else Inr (c\<lparr>stage_limit := (\<lambda>st. Some (min (unwrap_or 64 (stage_limit c st)) (automatic_width budget st)))\<rparr>)))"

text \<open>One round of \<open>Gates::acquire_until\<close>: a stage without a limit needs no permit; a gate's timeout is
  renamed. The gates are counters per stage.\<close>

definition stage_try ::
  "stage_config \<Rightarrow> decoder_stage \<Rightarrow> (decoder_stage \<Rightarrow> nat) \<Rightarrow> bool \<Rightarrow> bool
   \<Rightarrow> (error + unit option option) \<times> (decoder_stage \<Rightarrow> nat)" where
  "stage_try c st gates cancelled expired =
     (if cancelled then (Inl error.Cancelled, gates)
      else
        (case stage_limit c st of
           None \<Rightarrow> (Inr (Some None), gates)
         | Some lim \<Rightarrow>
             (case gate_try lim (gates st) cancelled expired of
                (Inl (error.Export _), n) \<Rightarrow> (Inl (error.Export ''decoder stage admission timed out''), gates)
              | (Inl e, n) \<Rightarrow> (Inl e, gates)
              | (Inr None, n) \<Rightarrow> (Inr None, gates)
              | (Inr (Some u), n) \<Rightarrow> (Inr (Some (Some u)), gates(st := n)))))"

subsection \<open>Properties\<close>

text \<open>The byte budget accounts exactly and never overflows: after any sequence of attempts and
  releases, in any order, the 64-bit counter is the sum of the weights held, the sum stays within the
  limit, every permit weighs at least one byte, and one that takes the whole limit (an oversized
  resource) is held alone. Nothing is left over when all are released. The counting gate keeps the
  same promises with permits of weight one.\<close>

theorem admission_is_exact:
  assumes "admission_run (\<lambda>b (n, c). budget_try b n c) budget_drop evs (new_budget l, []) = (b, ps)"
    and "admission_run (\<lambda>(l, n) (c, e). (fst (gate_try l n c e), (l, snd (gate_try l n c e))))
           (\<lambda>_ (l, n). (l, gate_drop n)) gevs ((lim, 0), []) = ((lim', n), us)"
  shows "unat (bud_used b) = sum_list (map unat ps) \<and> sum_list (map unat ps) \<le> unat l \<and> bud_limit b = l
    \<and> (\<forall>p\<in>set ps. 0 < p \<and> (p = l \<longrightarrow> ps = [p]))
    \<and> (ps = [] \<longrightarrow> b = new_budget l)
    \<and> n = length us \<and> length us \<le> lim \<and> lim' = lim"
proof -
  note B = byte_budget.run_within[OF _ assms(1)]
  have b: "unat (bud_used b) = sum_list (map unat ps)" "sum_list (map unat ps) \<le> unat l" "bud_limit b = l"
    "\<forall>p\<in>set ps. 0 < unat p" "\<forall>p\<in>set ps. unat p = unat l \<longrightarrow> ps = [p]"
    using B by (auto simp: new_budget_def word_unat_eq_iff)
  have g: "n = sum_list (map (\<lambda>_. 1) us)" "sum_list (map (\<lambda>_. 1) us) \<le> lim" "lim' = lim"
    using media_gate.run_within[OF _ assms(2)] by auto
  have len: "sum_list (map (\<lambda>_. 1) us) = length us" by (induction us) auto
  have "ps = [] \<Longrightarrow> b = new_budget l"
    using b(1,3) by (simp add: new_budget_def unat_eq_0)
  with b g len show ?thesis by (auto simp: word_gt_0 unat_gt_0)
qed

theorem admission_is_exact_witness:
  "snd (admission_run (\<lambda>b (n, c). budget_try b n c) budget_drop
      [Attempt (4, False), Attempt (6, False), Attempt (1, False), Release 0, Attempt (99, False), Release 0, Attempt (99, False)]
      (new_budget 10, [])) = [10]"
proof -
  have r: "admission_run (\<lambda>b (n, c). budget_try b n c) budget_drop
      [Attempt (4, False), Attempt (6, False), Attempt (1, False), Release 0, Attempt (99, False), Release 0, Attempt (99, False)]
      (new_budget 10, []) = (\<lparr>bud_limit = 10, bud_used = 10\<rparr>, [10])"
    by (simp add: admission_run_def budget_try_def budget_weight_def budget_drop_def new_budget_def remove_nth_def)
  have g: "admission_run (\<lambda>(l, n) (c, e). (fst (gate_try l n c e), (l, snd (gate_try l n c e))))
      (\<lambda>_ (l, n). (l, gate_drop n)) [] ((2, 0), []) = ((2, 0), [])"
    by (simp add: admission_run_def)
  have "sum_list (map unat [10 :: u64]) \<le> unat (10 :: u64)"
    using admission_is_exact[OF r g] by blast
  with r show ?thesis by simp
qed

text \<open>Automatic sizing is safe: where a validated stage configuration and CPU policy give effective
  limits, these are valid again, with every stage admitting between 1 and 64 decoders, never more than
  configured, and video encoders at most half the budget (at least one); the number of workers lies
  between 1 and 64, and between the configured number and twice the CPUs when it is tuned.\<close>

theorem automatic_limits_valid:
  assumes "effective c p cpus = Inr c'" and "workers_for_cpus p configured cpus = Inr w"
  shows "stage_validate c' = Inr ()
    \<and> (\<forall>st n. stage_limit c st = Some n \<longrightarrow> (\<exists>m. stage_limit c' st = Some m \<and> 1 \<le> m \<and> m \<le> n))
    \<and> (stage_auto c \<longrightarrow> (\<forall>st. \<exists>m budget. budget_for_cpus p cpus = Inr budget \<and> stage_limit c' st = Some m
        \<and> m \<le> max 1 (if st = VideoEncode then budget div 2 else budget)))
    \<and> 1 \<le> w \<and> w \<le> 64 \<and> (\<not> cpu_auto_tune p \<longrightarrow> w = configured)
    \<and> (cpu_auto_tune p \<longrightarrow> w \<le> 2 * max cpus 1 \<and> (configured \<le> w \<or> w = 2 * max cpus 1))"
proof -
  have v: "stage_validate c = Inr ()" and
    c': "(\<not> stage_auto c \<and> c' = c) \<or> (stage_auto c \<and> (\<exists>budget. budget_for_cpus p cpus = Inr budget
      \<and> c' = c\<lparr>stage_limit := (\<lambda>st. Some (min (unwrap_or 64 (stage_limit c st)) (automatic_width budget st)))\<rparr>))"
    using assms(1) by (auto simp: effective_def result_simps split: if_splits)
  have lim: "1 \<le> n \<and> n \<le> 64" if "stage_limit c st = Some n" for st n
    using v that by (cases st) (auto simp: stage_validate_def result_simps all_stages_def)
  have auto_width: "1 \<le> automatic_width budget st \<and> automatic_width budget st \<le> 64
      \<and> automatic_width budget st \<le> max 1 (if st = VideoEncode then budget div 2 else budget)" for budget st
    by (auto simp: automatic_width_def clamp_def)
  have bound: "1 \<le> min (unwrap_or 64 (stage_limit c st)) (automatic_width budget st)
      \<and> min (unwrap_or 64 (stage_limit c st)) (automatic_width budget st) \<le> 64" for budget st
    using auto_width[of budget st] lim[of st] by (cases "stage_limit c st") auto
  have limits: "stage_validate c' = Inr ()
    \<and> (\<forall>st n. stage_limit c st = Some n \<longrightarrow> (\<exists>m. stage_limit c' st = Some m \<and> 1 \<le> m \<and> m \<le> n))
    \<and> (stage_auto c \<longrightarrow> (\<forall>st. \<exists>m budget. budget_for_cpus p cpus = Inr budget \<and> stage_limit c' st = Some m
        \<and> m \<le> max 1 (if st = VideoEncode then budget div 2 else budget)))"
  proof (cases "stage_auto c")
    case False
    with c' v lim show ?thesis by auto
  next
    case True
    then obtain budget where b: "budget_for_cpus p cpus = Inr budget" and
      e: "c' = c\<lparr>stage_limit := (\<lambda>st. Some (min (unwrap_or 64 (stage_limit c st)) (automatic_width budget st)))\<rparr>"
      using c' by blast
    have w: "1 \<le> stage_wait c \<and> stage_wait c \<le> 3600"
      using v by (auto simp: stage_validate_def result_simps)
    have "\<not> list_ex (\<lambda>st. is_some_and (\<lambda>n. \<not> (1 \<le> n \<and> n \<le> 64)) (stage_limit c' st)) all_stages"
      using bound[of _ budget] by (simp add: list_ex_iff e)
    then have "stage_validate c' = Inr ()"
      using w by (simp add: stage_validate_def e)
    moreover have "stage_limit c' st = Some m \<and> m \<le> max 1 (if st = VideoEncode then budget div 2 else budget)"
      if "m = min (unwrap_or 64 (stage_limit c st)) (automatic_width budget st)" for st m
      using that auto_width[of budget st] by (simp add: e min.coboundedI2)
    moreover have "\<exists>m. stage_limit c' st = Some m \<and> 1 \<le> m \<and> m \<le> n" if "stage_limit c st = Some n" for st n
      using that bound[of st budget] by (simp add: e)
    ultimately show ?thesis using b by blast
  qed
  have "1 \<le> w \<and> w \<le> 64 \<and> (\<not> cpu_auto_tune p \<longrightarrow> w = configured)
    \<and> (cpu_auto_tune p \<longrightarrow> w \<le> 2 * max cpus 1 \<and> (configured \<le> w \<or> w = 2 * max cpus 1))"
  proof (cases "cpu_auto_tune p")
    case False
    with assms(2) show ?thesis by (auto simp: workers_for_cpus_def result_simps)
  next
    case True
    define n where "n = max cpus 1"
    define cap where "cap = min (n * 2) (2 ^ 64 - 1 :: nat)"
    obtain budget where w: "w = min (min (max configured budget) cap) 64" "1 \<le> configured" "configured \<le> 64"
      using assms(2) True unfolding cap_def n_def by (auto simp: workers_for_cpus_def Let_def result_simps)
    have "1 \<le> n" by (simp add: n_def)
    moreover have "(64 :: nat) \<le> 2 ^ 64 - 1" by simp
    ultimately have cap: "1 \<le> cap" "cap \<le> 2 * n" "cap = 2 * n \<or> 64 \<le> cap"
      unfolding cap_def by linarith+
    then show ?thesis using True w unfolding n_def[symmetric] by linarith
  qed
  with limits show ?thesis by blast
qed

definition demo_policy :: cpu_policy where
  "demo_policy = \<lparr>cpu_auto_tune = True, cpu_budget_auto = True, cpu_ratio_ok = True, cpu_throttle_ok = True,
     cpu_scaled = (\<lambda>n. n div 2), cpu_reserved = 2\<rparr>"

theorem automatic_limits_valid_witness:
  "\<exists>c'. effective (stage_default\<lparr>stage_auto := True\<rparr>) demo_policy 64 = Inr c' \<and> stage_validate c' = Inr ()
    \<and> workers_for_cpus demo_policy 4 64 = Inr 30"
proof -
  have w: "workers_for_cpus demo_policy 4 64 = Inr 30"
    by (simp add: workers_for_cpus_def demo_policy_def cpu_validate_def budget_for_cpus_def Let_def)
  obtain c' where "effective (stage_default\<lparr>stage_auto := True\<rparr>) demo_policy 64 = Inr c'"
    by (simp add: effective_def stage_default_def stage_validate_def all_stages_def budget_for_cpus_def demo_policy_def
        cpu_validate_def Let_def)
  with automatic_limits_valid[OF this w] w show ?thesis by blast
qed

end
