(* ===== verification/Cpu_Sampler.thy ===== *)
theory Cpu_Sampler
  imports Worklist Environment
begin

text \<open>
  The process-tree sampler of the CPU throttle (\<open>src/cpu_throttle.rs\<close>): the settings, one line of
  \<open>/proc/<pid>/stat\<close>, the walk over the process tree and the difference of two samples. Reading
  \<open>/proc\<close>, the clock and the percentage in floating point are left out.
\<close>

record throttle_config =
  thr_enabled :: bool
  thr_sample_ms :: nat

definition throttle_default :: throttle_config where
  "throttle_default = \<lparr>thr_enabled = False, thr_sample_ms = 250\<rparr>"

text \<open>\<open>unix\<close> is \<open>cfg!(unix)\<close>.\<close>

definition throttle_validate :: "bool \<Rightarrow> throttle_config \<Rightarrow> error + unit" where
  "throttle_validate unix c =
     fail_if (\<not> (50 \<le> thr_sample_ms c \<and> thr_sample_ms c \<le> 60000) \<or> (thr_enabled c \<and> \<not> unix)) error.Config"

subsection \<open>One line of statistics\<close>

text \<open>\<open>split_whitespace\<close>: the maximal runs without white space.\<close>

function whitespace_fields :: "string \<Rightarrow> string \<Rightarrow> string list" where
  "whitespace_fields acc s =
     (if s = [] then (if acc = [] then [] else [rev acc])
      else if ws_len s = 0 then whitespace_fields (hd s # acc) (tl s)
      else (if acc = [] then [] else [rev acc]) @ whitespace_fields [] (drop (ws_len s) s))"
  by pat_completeness auto
termination
  by (relation "measure (\<lambda>(acc, s). length s)") auto

declare whitespace_fields.simps [simp del]

text \<open>\<open>str::parse\<close> of an unsigned integer below a bound: an optional plus sign, then digits only.\<close>

definition parse_unsigned :: "nat \<Rightarrow> string \<Rightarrow> nat option" where
  "parse_unsigned bound s =
     (let ds = (case s of [] \<Rightarrow> [] | c # t \<Rightarrow> if c = CHR ''+'' then t else s);
          n = foldl (\<lambda>n c. 10 * n + (of_char c - 48)) 0 ds in
      if ds \<noteq> [] \<and> list_all is_ascii_digit ds \<and> n < bound then Some n else None)"

definition field :: "string list \<Rightarrow> nat \<Rightarrow> string option" where
  "field fs i = (if i < length fs then Some (fs ! i) else None)"

definition parse_stat :: "string \<Rightarrow> (u32 \<times> u64 \<times> u64) option" where
  "parse_stat line =
     Option.bind (rsplit_once '') '' line) (\<lambda>(_, tail).
     (let fs = whitespace_fields [] tail in
      Option.bind (Option.bind (field fs 1) (parse_unsigned (2 ^ 32))) (\<lambda>ppid.
      Option.bind (Option.bind (field fs 19) (parse_unsigned (2 ^ 64))) (\<lambda>start.
      Option.bind (Option.bind (field fs 11) (parse_unsigned (2 ^ 64))) (\<lambda>user.
      Option.bind (Option.bind (field fs 12) (parse_unsigned (2 ^ 64))) (\<lambda>system.
      if user + system < 2 ^ 64 then Some (of_nat ppid, of_nat start, of_nat (user + system)) else None))))))"

subsection \<open>The process tree\<close>

text \<open>A row is a pid, its parent, its start time and its ticks.\<close>

type_synonym row = "u32 \<times> u32 \<times> u64 \<times> u64"
type_synonym sample = "(u32 \<times> u64 \<times> u64) list"

definition children_of :: "row list \<Rightarrow> u32 \<Rightarrow> u32 list" where
  "children_of rows p = map fst (filter (\<lambda>(pid, ppid, _, _). ppid = p) rows)"

fun row_values :: "row list \<Rightarrow> sample \<Rightarrow> error + sample" where
  "row_values [] m = Inr m"
| "row_values ((pid, ppid, start, ticks) # rows) m =
     (if map_of m pid \<noteq> None then Inl error.Verification
      else row_values rows (bt_insert pid (start, ticks) m))"

text \<open>The vector \<open>pending\<close> is kept with its end at the head. An error \<open>None\<close> is the panic of
  \<open>values[&pid]\<close> on an unknown pid.\<close>

record tree_state =
  tree_pending :: "u32 list"
  tree_result :: sample

definition tree_step :: "row list \<Rightarrow> sample \<Rightarrow> tree_state \<Rightarrow> error option + tree_state option" where
  "tree_step rows vals s =
     (case tree_pending s of
        [] \<Rightarrow> Inr None
      | pid # rest \<Rightarrow>
          if map_of (tree_result s) pid \<noteq> None then Inr (Some (s\<lparr>tree_pending := rest\<rparr>))
          else
            (case map_of vals pid of
               None \<Rightarrow> Inl None
             | Some v \<Rightarrow> Inr (Some \<lparr>tree_pending = rev (children_of rows pid) @ rest,
                 tree_result = bt_insert pid v (tree_result s)\<rparr>)))"

lemma tree_step_cases:
  assumes "tree_step rows vals s = Inr (Some t)"
  obtains (seen) pid rest where "tree_pending s = pid # rest" "map_of (tree_result s) pid \<noteq> None"
      "t = s\<lparr>tree_pending := rest\<rparr>"
    | (visit) pid rest v where "tree_pending s = pid # rest" "map_of (tree_result s) pid = None" "map_of vals pid = Some v"
      "t = \<lparr>tree_pending = rev (children_of rows pid) @ rest, tree_result = bt_insert pid v (tree_result s)\<rparr>"
proof -
  obtain pid rest where p: "tree_pending s = pid # rest"
    using assms by (cases "tree_pending s") (simp_all add: tree_step_def)
  show thesis
  proof (cases "map_of (tree_result s) pid")
    case None
    with assms p obtain v where "map_of vals pid = Some v"
      by (cases "map_of vals pid") (simp_all add: tree_step_def)
    with assms p None show thesis by (intro visit[of pid rest v]) (simp_all add: tree_step_def)
  next
    case (Some v)
    with assms p show thesis by (intro seen[of pid rest]) (simp_all add: tree_step_def)
  qed
qed

function tree_loop :: "row list \<Rightarrow> sample \<Rightarrow> tree_state \<Rightarrow> error option + tree_state" where
  "tree_loop rows vals s =
     (case tree_step rows vals s of
        Inl e \<Rightarrow> Inl e
      | Inr None \<Rightarrow> Inr s
      | Inr (Some t) \<Rightarrow> tree_loop rows vals t)"
  by pat_completeness auto
termination
proof (relation "measures [\<lambda>(rows, vals, s). card (fst ` set vals - fst ` set (tree_result s)),
    \<lambda>(rows, vals, s). length (tree_pending s)]")
  fix rows :: "row list" and vals :: sample and s r t
  assume "tree_step rows vals s = Inr r" "r = Some t"
  then have "tree_step rows vals s = Inr (Some t)" by simp
  then show "((rows, vals, t), rows, vals, s) \<in> measures [\<lambda>(rows, vals, s). card (fst ` set vals - fst ` set (tree_result s)),
    \<lambda>(rows, vals, s). length (tree_pending s)]"
  proof (cases rule: tree_step_cases)
    case (visit pid rest v)
    have "pid \<in> fst ` set vals" using visit(3) dom_map_of_keys[of vals pid] by simp
    moreover have "pid \<notin> fst ` set (tree_result s)" using visit(2) dom_map_of_keys[of "tree_result s" pid] by simp
    ultimately have "fst ` set vals - fst ` set (tree_result t) \<subset> fst ` set vals - fst ` set (tree_result s)"
      using visit(4) by auto
    then have "card (fst ` set vals - fst ` set (tree_result t)) < card (fst ` set vals - fst ` set (tree_result s))"
      by (intro psubset_card_mono) auto
    then show ?thesis by simp
  qed simp
qed simp

declare tree_loop.simps [simp del]

definition tree_ticks :: "u32 \<Rightarrow> row list \<Rightarrow> error option + sample" where
  "tree_ticks own rows =
     (case row_values rows [] of
        Inl e \<Rightarrow> Inl (Some e)
      | Inr vals \<Rightarrow>
          if map_of vals own = None then Inl (Some error.Io)
          else
            (case tree_loop rows vals \<lparr>tree_pending = [own], tree_result = []\<rparr> of
               Inl e \<Rightarrow> Inl e
             | Inr s \<Rightarrow> Inr (tree_result s)))"

definition saturating_add :: "u64 \<Rightarrow> u64 \<Rightarrow> u64" where
  "saturating_add a b = (if unat a + unat b < 2 ^ 64 then a + b else - 1)"

definition ticks_since :: "sample \<Rightarrow> u32 \<times> u64 \<times> u64 \<Rightarrow> u64" where
  "ticks_since previous = (\<lambda>(pid, start, ticks). case map_of previous pid of
      Some (old_start, old_ticks) \<Rightarrow>
        if old_start = start then (if old_ticks \<le> ticks then ticks - old_ticks else 0) else ticks
    | None \<Rightarrow> ticks)"

definition delta_ticks :: "sample \<Rightarrow> sample \<Rightarrow> u64" where
  "delta_ticks previous current = fold (\<lambda>x acc. saturating_add acc (ticks_since previous x)) current 0"

subsection \<open>Facts\<close>

lemma row_values_Inr:
  "row_values rows m = Inr vals \<Longrightarrow> bt_ordered m \<Longrightarrow>
     bt_ordered vals \<and> distinct (map fst rows) \<and> fst ` set m \<inter> fst ` set rows = {}
     \<and> map_of vals = (\<lambda>p. case map_of (map (\<lambda>(pid, _, v). (pid, v)) rows) p of None \<Rightarrow> map_of m p | Some v \<Rightarrow> Some v)"
proof (induction rows m rule: row_values.induct)
  case (2 pid ppid start ticks rows m)
  then have n: "map_of m pid = None" and IH: "bt_ordered vals \<and> distinct (map fst rows)
    \<and> fst ` set (bt_insert pid (start, ticks) m) \<inter> fst ` set rows = {}
    \<and> map_of vals = (\<lambda>p. case map_of (map (\<lambda>(pid, _, v). (pid, v)) rows) p of
          None \<Rightarrow> map_of (bt_insert pid (start, ticks) m) p | Some v \<Rightarrow> Some v)"
    by (auto split: if_splits)
  have keys: "fst ` set (map (\<lambda>(pid, _, v). (pid, v)) rows) = fst ` set rows" by force
  have new: "pid \<notin> fst ` set rows" using IH by auto
  then have "map_of (map (\<lambda>(pid, _, v). (pid, v)) rows) pid = None"
    by (simp only: map_of_eq_None_iff keys not_False_eq_True)
  note new = new this
  moreover have "pid \<notin> fst ` set m" using n by (simp add: map_of_eq_None_iff)
  ultimately show ?case using IH "2.prems"(2) by (auto simp: fun_eq_iff split: option.splits)
qed (auto simp: fun_eq_iff)

lemma row_values_Inl:
  "row_values rows m = Inl e \<longleftrightarrow> e = error.Verification \<and> \<not> (distinct (map fst rows) \<and> fst ` set m \<inter> fst ` set rows = {})"
proof (induction rows m rule: row_values.induct)
  case (2 pid ppid start ticks rows m)
  then show ?case using dom_map_of_keys[of m pid] by auto
qed auto

lemma children_known:
  assumes "row_values rows [] = Inr vals"
  shows "set (children_of rows p) \<subseteq> fst ` set vals"
proof
  fix c assume "c \<in> set (children_of rows p)"
  then have "c \<in> fst ` set (map (\<lambda>(pid, _, v). (pid, v)) rows)" by (force simp: children_of_def)
  then have "map_of (map (\<lambda>(pid, _, v). (pid, v)) rows) c \<noteq> None"
    by (simp only: map_of_eq_None_iff not_not)
  then have "map_of vals c \<noteq> None" using row_values_Inr[OF assms] by auto
  then show "c \<in> fst ` set vals" by (simp only: dom_map_of_keys)
qed

text \<open>The state of the walk: an ordered sub-map of the values, and known pids only.\<close>

definition tree_inv :: "sample \<Rightarrow> tree_state \<Rightarrow> bool" where
  "tree_inv vals s \<longleftrightarrow> bt_ordered (tree_result s) \<and> set (tree_pending s) \<subseteq> fst ` set vals
     \<and> (\<forall>p v. map_of (tree_result s) p = Some v \<longrightarrow> map_of vals p = Some v)"

lemma tree_step_inv:
  assumes "tree_inv vals s" "tree_step rows vals s = Inr (Some t)" "row_values rows [] = Inr vals"
  shows "tree_inv vals t"
  using assms(2)
proof (cases rule: tree_step_cases)
  case (visit pid rest v)
  with assms(1) children_known[OF assms(3), of pid] show ?thesis by (auto simp: tree_inv_def)
qed (use assms(1) in \<open>auto simp: tree_inv_def\<close>)

interpretation sampling: closure_loop "tree_step rows vals" "\<lambda>s. tree_inv vals s \<and> row_values rows [] = Inr vals"
  "\<lambda>s. fst ` set (tree_result s)" "\<lambda>s. set (tree_pending s)" "\<lambda>p. set (children_of rows p)" for rows vals
proof (unfold_locales, goal_cases)
  case (1 s t)
  then show ?case using tree_step_inv by blast
next
  case (2 s t)
  from 2(2) show ?case
  proof (cases rule: tree_step_cases)
    case (seen pid rest)
    then show ?thesis using dom_map_of_keys[of "tree_result s" pid]
      by (intro exI[of _ pid] exI[of _ "set rest"]) simp
  next
    case (visit pid rest v)
    then show ?thesis by (intro exI[of _ pid] exI[of _ "set rest"]) simp
  qed
next
  case (3 s)
  then show ?case by (auto simp: tree_step_def split: list.splits if_splits option.splits)
qed


lemma tree_step_no_panic:
  assumes "tree_inv vals s"
  shows "tree_step rows vals s \<noteq> Inl e"
proof (cases "tree_pending s")
  case (Cons pid rest)
  then have "pid \<in> fst ` set vals" using assms by (simp add: tree_inv_def)
  then have "map_of vals pid \<noteq> None" by (simp only: dom_map_of_keys)
  with Cons show ?thesis by (auto simp: tree_step_def)
qed (simp add: tree_step_def)

lemma tree_loop_run:
  "tree_inv vals s \<Longrightarrow> row_values rows [] = Inr vals \<Longrightarrow>
     \<exists>t. tree_loop rows vals s = Inr t \<and> (\<lambda>s t. tree_step rows vals s = Inr (Some t))\<^sup>*\<^sup>* s t
       \<and> tree_step rows vals t = Inr None"
proof (induction rows vals s rule: tree_loop.induct)
  case (1 rows vals s)
  show ?case
  proof (cases "tree_step rows vals s")
    case (Inl e)
    with tree_step_no_panic[OF "1.prems"(1)] show ?thesis by blast
  next
    case (Inr r)
    show ?thesis
    proof (cases r)
      case None
      with Inr show ?thesis by (subst tree_loop.simps) auto
    next
      case (Some t)
      have "tree_inv vals t" using tree_step_inv "1.prems" Inr Some by blast
      then obtain u where u: "tree_loop rows vals t = Inr u"
        "(\<lambda>s t. tree_step rows vals s = Inr (Some t))\<^sup>*\<^sup>* t u" "tree_step rows vals u = Inr None"
        using "1.IH"[OF Inr Some] "1.prems"(2) by blast
      with Inr Some show ?thesis
        by (subst tree_loop.simps) (auto intro: converse_rtranclp_into_rtranclp)
    qed
  qed
qed

lemma unat_saturating_add: "unat (saturating_add a b) = min (unat a + unat b) (2 ^ 64 - 1)"
proof (cases "unat a + unat b < 2 ^ 64")
  case True
  then show ?thesis by (simp add: saturating_add_def unat_word_ariths)
next
  case False
  then show ?thesis by (simp add: saturating_add_def unsigned_minus_1_eq_mask mask_eq_exp_minus_1)
qed

lemma unat_delta_fold:
  "unat (fold (\<lambda>x acc. saturating_add acc (ticks_since previous x)) xs acc)
     = min (unat acc + sum_list (map (\<lambda>x. unat (ticks_since previous x)) xs)) (2 ^ 64 - 1)"
proof (induction xs arbitrary: acc)
  case Nil
  have "unat acc < 2 ^ 64" using unsigned_less[of acc, where ?'a = nat] by simp
  then show ?case by simp
next
  case (Cons x xs)
  show ?case by (simp add: Cons unat_saturating_add)
qed

text \<open>A CPU sample measures exactly the updater's own process tree: unless two rows have the same
  pid or the own pid is missing, which are errors, the walk ends without a panic, and the sample holds,
  with their start time and ticks, the processes reachable from the own one through parent links and no
  others. The consumption between two samples is the exact sum over the current processes of the ticks
  since the previous sample, where a reused pid counts as a new process, capped at the 64-bit maximum.\<close>

theorem sample_is_process_tree:
  "(case tree_ticks own rows of
      Inl e \<Rightarrow> (e = Some error.Verification \<and> \<not> distinct (map fst rows))
        \<or> (e = Some error.Io \<and> distinct (map fst rows) \<and> own \<notin> fst ` set rows)
    | Inr m \<Rightarrow> distinct (map fst rows) \<and> bt_ordered m
        \<and> fst ` set m = reachable_from (\<lambda>p. set (children_of rows p)) {own}
        \<and> (\<forall>pid v. map_of m pid = Some v \<longrightarrow> (\<exists>ppid. (pid, ppid, v) \<in> set rows)))
   \<and> unat (delta_ticks previous current)
       = min (sum_list (map (\<lambda>x. unat (ticks_since previous x)) current)) (2 ^ 64 - 1)"
proof (intro conjI)
  show "unat (delta_ticks previous current)
       = min (sum_list (map (\<lambda>x. unat (ticks_since previous x)) current)) (2 ^ 64 - 1)"
    unfolding delta_ticks_def unat_delta_fold by simp
  show "case tree_ticks own rows of
      Inl e \<Rightarrow> (e = Some error.Verification \<and> \<not> distinct (map fst rows))
        \<or> (e = Some error.Io \<and> distinct (map fst rows) \<and> own \<notin> fst ` set rows)
    | Inr m \<Rightarrow> distinct (map fst rows) \<and> bt_ordered m
        \<and> fst ` set m = reachable_from (\<lambda>p. set (children_of rows p)) {own}
        \<and> (\<forall>pid v. map_of m pid = Some v \<longrightarrow> (\<exists>ppid. (pid, ppid, v) \<in> set rows))"
  proof (cases "row_values rows []")
    case (Inl e)
    then show ?thesis using row_values_Inl[of rows "[]" e] by (simp add: tree_ticks_def)
  next
    case (Inr vals)
    have d: "distinct (map fst rows)" and m: "map_of vals = map_of (map (\<lambda>(pid, _, v). (pid, v)) rows)"
      using row_values_Inr[OF Inr] by (auto simp: fun_eq_iff split: option.splits)
    have keys: "fst ` set (map (\<lambda>(pid, _, v). (pid, v)) rows) = fst ` set rows" by force
    show ?thesis
    proof (cases "map_of vals own")
      case None
      then have "own \<notin> fst ` set rows" unfolding m map_of_eq_None_iff keys .
      with Inr None d show ?thesis by (simp add: tree_ticks_def)
    next
      case (Some v)
      let ?s = "\<lparr>tree_pending = [own], tree_result = []\<rparr>"
      have i: "tree_inv vals ?s" using Some dom_map_of_keys[of vals own] by (simp add: tree_inv_def)
      obtain t where t: "tree_loop rows vals ?s = Inr t" "(\<lambda>s t. tree_step rows vals s = Inr (Some t))\<^sup>*\<^sup>* ?s t"
        "tree_step rows vals t = Inr None"
        using tree_loop_run[OF i Inr] by blast
      have r: "fst ` set (tree_result t) = reachable_from (\<lambda>p. set (children_of rows p)) {own}"
        using sampling.visits_reachable(1)[OF t(2,3)] i Inr by simp
      have ti: "tree_inv vals t" using sampling.visits_reachable(2)[OF t(2,3)] i Inr by simp
      have "\<exists>ppid. (pid, ppid, w) \<in> set rows" if "map_of (tree_result t) pid = Some w" for pid w
      proof -
        have "map_of vals pid = Some w" using ti that by (cases w) (simp add: tree_inv_def)
        then have "(pid, w) \<in> set (map (\<lambda>(pid, _, v). (pid, v)) rows)" unfolding m by (rule map_of_SomeD)
        then show ?thesis by auto
      qed
      with Inr Some t(1) d r ti show ?thesis by (simp add: tree_ticks_def tree_inv_def)
    qed
  qed
qed

theorem sample_is_process_tree_witness:
  "\<exists>m. tree_ticks 10 [(10, 1, 1, 100), (11, 10, 2, 500), (90, 1, 1, 99999)] = Inr m
    \<and> fst ` set m = reachable_from (\<lambda>p. set (children_of [(10, 1, 1, 100), (11, 10, 2, 500), (90, 1, 1, 99999)] p)) {10}
    \<and> length m = 2"
proof -
  let ?rows = "[(10, 1, 1, 100), (11, 10, 2, 500), (90, 1, 1, 99999)] :: row list"
  have e: "tree_ticks 10 ?rows = Inr [(10, 1, 100), (11, 2, 500)]"
    by (simp add: tree_ticks_def tree_loop.simps tree_step_def children_of_def)
  have "fst ` set [(10, 1, 100), (11, 2, 500 :: u64)] = reachable_from (\<lambda>p. set (children_of ?rows p)) {10}"
    using sample_is_process_tree[where own = 10 and rows = ?rows] unfolding e by simp
  with e show ?thesis by simp
qed

end
