(* ===== verification/Output_Policy.thy ===== *)
theory Output_Policy
  imports Asset_Plan "HOL-Library.Multiset"
begin

text \<open>
  What an export writes: the selection of objects and the canonical sets of image and audio formats
  (\<open>src/export_options.rs\<close>), the representation of Unity classes (\<open>src/read_policy.rs\<close>) and the filter
  of raw bundles (\<open>src/raw_bundles.rs\<close>). The class numbers and the image formats of the Unity library
  and the regex compiler are arguments.
\<close>

subsection \<open>Selection\<close>

datatype export_provider = Unity | Cri

record export_selection =
  ex_providers :: "export_provider list"
  unity_class_ids :: "int list"
  embedded_audio :: bool

definition export_selection_default :: export_selection where
  "export_selection_default = \<lparr>ex_providers = [], unity_class_ids = [], embedded_audio = True\<rparr>"

definition selects_provider :: "export_selection \<Rightarrow> provider \<Rightarrow> bool" where
  "selects_provider s p \<longleftrightarrow>
     ex_providers s = [] \<or>
     (case p of provider.Cri \<Rightarrow> export_provider.Cri | _ \<Rightarrow> Unity) \<in> set (ex_providers s)"

definition selects_class :: "export_selection \<Rightarrow> int \<Rightarrow> bool" where
  "selects_class s i \<longleftrightarrow> unity_class_ids s = [] \<or> i \<in> set (unity_class_ids s)"

definition export_selection_validate :: "export_selection \<Rightarrow> error + unit" where
  "export_selection_validate s =
     fail_if (2 < length (ex_providers s)
       \<or> (length (ex_providers s) = 2 \<and> ex_providers s ! 0 = ex_providers s ! 1)
       \<or> 256 < length (unity_class_ids s)
       \<or> list_ex (\<lambda>i. i \<le> 0) (unity_class_ids s)
       \<or> card (set (unity_class_ids s)) \<noteq> length (unity_class_ids s)
       \<or> (unity_class_ids s \<noteq> [] \<and> \<not> selects_provider s UnityBundle)) error.Config"

definition selects_all :: "export_selection \<Rightarrow> bool" where
  "selects_all s \<longleftrightarrow>
     selects_provider s provider.Cri \<and> selects_provider s UnityBundle \<and> unity_class_ids s = [] \<and> embedded_audio s"

subsection \<open>Image formats\<close>

datatype png_compression = Fast | Default | Best

datatype image_export =
    Png png_compression
  | Webp
  | Bmp
  | Tga
  | Jpeg byte "byte \<times> byte \<times> byte"

datatype native_image = NPng | NWebp | NBmp | NTga | NJpeg

fun native :: "image_export \<Rightarrow> native_image" where
  "native (Png _) = NPng"
| "native Webp = NWebp"
| "native Bmp = NBmp"
| "native Tga = NTga"
| "native (Jpeg _ _) = NJpeg"

definition image_validate :: "image_export \<Rightarrow> error + unit" where
  "image_validate f =
     (case f of Jpeg quality _ \<Rightarrow> fail_if (\<not> (1 \<le> unat quality \<and> unat quality \<le> 100)) error.Config | _ \<Rightarrow> Inr ())"

datatype 'a scalar_or_list = One 'a | Many "'a list"

fun input_values :: "'a scalar_or_list \<Rightarrow> 'a list" where
  "input_values (One v) = [v]"
| "input_values (Many vs) = vs"

text \<open>\<open>values.windows(2).any(...)\<close>\<close>

fun adjacent :: "('a \<Rightarrow> 'a \<Rightarrow> bool) \<Rightarrow> 'a list \<Rightarrow> bool" where
  "adjacent p (x # y # zs) \<longleftrightarrow> p x y \<or> adjacent p (y # zs)"
| "adjacent p _ \<longleftrightarrow> False"

text \<open>Deserialising a set of renditions; \<open>ext\<close> is \<open>ImageFormat::extension\<close>, \<open>None\<close> a rejected value.\<close>

definition read_image_formats :: "(native_image \<Rightarrow> string) \<Rightarrow> image_export scalar_or_list \<Rightarrow> image_export list option" where
  "read_image_formats ext i =
     (let vs = input_values i; sorted_vs = sort_key (\<lambda>f. ext (native f)) vs in
      if vs = [] \<or> 5 < length vs then None
      else if adjacent (\<lambda>a b. native a = native b) sorted_vs then None
      else if list_all (\<lambda>f. is_ok (image_validate f)) sorted_vs then Some sorted_vs else None)"

definition write_formats :: "'a list \<Rightarrow> 'a scalar_or_list" where
  "write_formats vs = (case vs of [v] \<Rightarrow> One v | _ \<Rightarrow> Many vs)"

subsection \<open>Audio formats\<close>

datatype audio_export = Wav | Flac | Mp3

text \<open>\<open>derive(PartialOrd, Ord)\<close>: the order of declaration.\<close>

definition audio_rank :: "audio_export \<Rightarrow> nat" where
  "audio_rank a = (case a of Wav \<Rightarrow> 0 | Flac \<Rightarrow> 1 | Mp3 \<Rightarrow> 2)"

instantiation audio_export :: linorder
begin

definition less_eq_audio_export :: "audio_export \<Rightarrow> audio_export \<Rightarrow> bool" where
  "less_eq_audio_export a b \<longleftrightarrow> audio_rank a \<le> audio_rank b"

definition less_audio_export :: "audio_export \<Rightarrow> audio_export \<Rightarrow> bool" where
  "less_audio_export a b \<longleftrightarrow> audio_rank a < audio_rank b"

instance
  by standard
    (auto simp: less_eq_audio_export_def less_audio_export_def audio_rank_def split: audio_export.splits)

end

definition read_audio_formats :: "audio_export scalar_or_list \<Rightarrow> audio_export list option" where
  "read_audio_formats i =
     (let vs = input_values i; sorted_vs = sort vs in
      if vs = [] \<or> 3 < length vs then None
      else if adjacent (=) sorted_vs then None else Some sorted_vs)"

subsection \<open>Representations\<close>

record unity_classes =
  texture_2d_array :: int
  audio_clip :: int
  video_clip :: int
  movie_texture :: int

datatype read_kind =
  Auto | ObjectRaw | TypetreeJson | ImageKind | ImageArchive | AudioKind | VideoKind | TextBytes | FontKind | ShaderKind | ObjKind

definition supports :: "unity_classes \<Rightarrow> read_kind \<Rightarrow> int \<Rightarrow> bool" where
  "supports u k cls =
     (case k of
        Auto \<Rightarrow> 0 < cls | ObjectRaw \<Rightarrow> 0 < cls | TypetreeJson \<Rightarrow> 0 < cls
      | ImageKind \<Rightarrow> cls = 28 \<or> cls = 213 \<or> cls = texture_2d_array u
      | ImageArchive \<Rightarrow> cls = texture_2d_array u
      | AudioKind \<Rightarrow> cls = audio_clip u
      | VideoKind \<Rightarrow> cls = video_clip u \<or> cls = movie_texture u
      | TextBytes \<Rightarrow> cls = 49
      | FontKind \<Rightarrow> cls = 128
      | ShaderKind \<Rightarrow> cls = 48
      | ObjKind \<Rightarrow> cls = 43)"

record read_policy =
  policy_default :: read_kind
  policy_classes :: "(int \<times> read_kind) list"

definition read_policy_validate :: "unity_classes \<Rightarrow> read_policy \<Rightarrow> error + unit" where
  "read_policy_validate u p =
     fail_if (256 < length (policy_classes p) \<or> list_ex (\<lambda>(cls, k). \<not> supports u k cls) (policy_classes p)) error.Config"

definition kind_for_class :: "unity_classes \<Rightarrow> read_policy \<Rightarrow> int \<Rightarrow> error + read_kind" where
  "kind_for_class u p cls =
     (let k = unwrap_or (policy_default p) (map_of (policy_classes p) cls) in
      if supports u k cls then Inr k else Inl error.Config)"

definition policy_is_native :: "read_policy \<Rightarrow> bool" where
  "policy_is_native p \<longleftrightarrow> policy_default p = Auto \<and> list_all (\<lambda>(_, k). k = Auto) (policy_classes p)"

subsection \<open>Raw bundles\<close>

datatype raw_mode = Alongside | Only

record raw_config =
  raw_mode :: raw_mode
  raw_include :: "string list"
  raw_exclude :: "string list"
  output_prefix :: string

definition raw_default :: raw_config where
  "raw_default = \<lparr>raw_mode = Alongside, raw_include = [], raw_exclude = [], output_prefix = ''raw''\<rparr>"

definition raw_validate :: "regex_compiler \<Rightarrow> raw_config \<Rightarrow> error + unit" where
  "raw_validate rx c =
     and_then (fail_if (\<not> safe_path (output_prefix c) \<or> 128 < length (raw_include c) + length (raw_exclude c)) error.Config) (\<lambda>_.
     and_then (collect_results (\<lambda>s. if s = [] \<or> 4096 < length s then Inl error.Config else ok_or error.Config (rx s))
       (raw_include c @ raw_exclude c)) (\<lambda>_. Inr ()))"

definition raw_matches_path :: "regex_compiler \<Rightarrow> raw_config \<Rightarrow> string \<Rightarrow> bool" where
  "raw_matches_path rx c path \<longleftrightarrow>
     safe_path path
     \<and> (raw_include c = [] \<or> list_ex (\<lambda>p. is_some_and (\<lambda>m. m path) (rx p)) (raw_include c))
     \<and> \<not> list_ex (\<lambda>p. is_some_and (\<lambda>m. m path) (rx p)) (raw_exclude c)"

definition raw_matches :: "regex_compiler \<Rightarrow> raw_config \<Rightarrow> provider \<Rightarrow> string \<Rightarrow> bool" where
  "raw_matches rx c p path \<longleftrightarrow> p \<noteq> provider.Cri \<and> raw_matches_path rx c path"

definition raw_output_path :: "raw_config \<Rightarrow> string \<Rightarrow> error + string" where
  "raw_output_path c path =
     (if \<not> safe_path path \<or> \<not> safe_path (output_prefix c) \<or> 4096 < length path + length (output_prefix c) + 1
      then Inl error.AssetPath else Inr (output_prefix c @ ''/'' @ path))"

subsection \<open>Facts\<close>

lemma adjacent_sorted:
  "sorted (map f xs) \<Longrightarrow> adjacent (\<lambda>a b. f a = f b) xs \<longleftrightarrow> \<not> distinct (map f xs)"
proof (induction xs)
  case (Cons x xs)
  show ?case
  proof (cases xs)
    case (Cons y zs)
    have "f x \<in> f ` set (y # zs) \<longleftrightarrow> f x = f y"
    proof
      assume "f x \<in> f ` set (y # zs)"
      then obtain z where "z \<in> set (y # zs)" "f x = f z" by blast
      then have "f y \<le> f x" "f x \<le> f y" using Cons.prems Cons by auto
      then show "f x = f y" by (rule antisym[rotated])
    qed simp
    with Cons.IH Cons.prems Cons show ?thesis by simp
  qed simp
qed simp

text \<open>Sorting by distinct keys forgets the order of the input.\<close>

lemma sort_key_perm:
  assumes "mset xs = mset ys" "distinct (map f xs)"
  shows "sort_key f xs = sort_key f ys"
proof (rule sym, rule properties_for_sort_key)
  show "mset (sort_key f xs) = mset ys" using assms(1) by simp
  show "sorted (map f (sort_key f xs))" by simp
  fix k
  have "length (filter (\<lambda>x. f k = f x) zs) \<le> 1" if "distinct (map f zs)" for zs
    using that by (induction zs) (auto simp: filter_empty_conv)
  from this[OF assms(2)] have "length (filter (\<lambda>x. f k = f x) xs) \<le> 1" .
  moreover have "length (filter (\<lambda>x. f k = f x) xs) = length (filter (\<lambda>x. f k = f x) ys)"
    using assms(1) by (metis mset_filter size_mset)
  ultimately have one: "length (filter (\<lambda>x. f k = f x) ys) \<le> 1" by simp
  have m: "mset (filter (\<lambda>x. f k = f x) (sort_key f xs)) = mset (filter (\<lambda>x. f k = f x) ys)"
    using assms(1) by (simp add: mset_filter)
  show "filter (\<lambda>x. f k = f x) (sort_key f xs) = filter (\<lambda>x. f k = f x) ys"
  proof (cases "filter (\<lambda>x. f k = f x) ys")
    case Nil
    with m show ?thesis by (metis mset_zero_iff)
  next
    case (Cons a as)
    with one have "as = []" by simp
    with m Cons show ?thesis by (metis mset_single_iff_right mset.simps)
  qed
qed

lemma distinct_extensions:
  assumes "inj ext"
  shows "distinct (map (\<lambda>f. ext (native f)) vs) \<longleftrightarrow> distinct (map native vs)"
proof -
  have "inj_on ext (set (map native vs))" using assms by (rule inj_on_subset) simp
  then have "distinct (map ext (map native vs)) \<longleftrightarrow> distinct (map native vs)"
    by (simp only: distinct_map[of ext]) simp
  then show ?thesis by (simp add: comp_def)
qed

text \<open>What reading a set comes to.\<close>

lemma read_image_formats_alt:
  assumes "inj ext"
  shows "read_image_formats ext i =
    (let vs = input_values i in
     if vs \<noteq> [] \<and> length vs \<le> 5 \<and> distinct (map native vs) \<and> list_all (\<lambda>f. is_ok (image_validate f)) vs
     then Some (sort_key (\<lambda>f. ext (native f)) vs) else None)"
proof -
  let ?f = "\<lambda>f. ext (native f)"
  have e: "(\<lambda>a b. native a = native b) = (\<lambda>a b. ?f a = ?f b)" using assms by (auto simp: fun_eq_iff inj_eq)
  note distinct_extensions[OF assms]
  moreover have "distinct (map ?f (sort_key ?f vs)) \<longleftrightarrow> distinct (map ?f vs)" for vs
    by (simp only: distinct_map distinct_sort set_sort)
  ultimately have adj: "adjacent (\<lambda>a b. native a = native b) (sort_key ?f vs) \<longleftrightarrow> \<not> distinct (map native vs)" for vs
    unfolding e by (simp only: adjacent_sorted[OF sorted_sort_key])
  have la: "list_all p (sort_key ?f vs) = list_all p vs" for p vs
    by (simp only: list_all_iff set_sort)
  show ?thesis unfolding read_image_formats_def Let_def adj la by (simp add: not_less)
qed

lemma read_audio_formats_alt:
  "read_audio_formats a =
    (let vs = input_values a in
     if vs \<noteq> [] \<and> length vs \<le> 3 \<and> distinct vs then Some (sort vs) else None)"
  using adjacent_sorted[where f = "\<lambda>x. x" and xs = "sort (input_values a)"]
  by (auto simp: read_audio_formats_def Let_def)

lemma input_written: "vs \<noteq> [] \<Longrightarrow> input_values (write_formats vs) = vs"
  by (cases vs) (auto simp: write_formats_def split: list.splits)

lemma image_formats_kept:
  assumes "inj ext" and r: "read_image_formats ext i = Some vs"
  shows "mset vs = mset (input_values i) \<and> vs \<noteq> [] \<and> length vs \<le> 5 \<and> distinct (map (\<lambda>f. ext (native f)) vs)
    \<and> list_all (\<lambda>f. image_validate f = Inr ()) vs \<and> read_image_formats ext (write_formats vs) = Some vs"
proof -
  let ?f = "\<lambda>f. ext (native f)"
  have v: "vs = sort_key ?f (input_values i)" "input_values i \<noteq> []" "length (input_values i) \<le> 5"
    "distinct (map native (input_values i))" "list_all (\<lambda>f. is_ok (image_validate f)) (input_values i)"
    using r unfolding read_image_formats_alt[OF assms(1)] Let_def by (simp_all split: if_splits)
  have w: "vs \<noteq> []" "length vs \<le> 5" "distinct (map native vs)" "list_all (\<lambda>f. is_ok (image_validate f)) vs"
    using v by (simp_all add: list_all_iff distinct_map) (metis mset.simps(1) mset_sort mset_zero_iff)
  have "sort_key ?f vs = vs" unfolding v(1) by (rule sort_key_id_if_sorted) simp
  then have "read_image_formats ext (write_formats vs) = Some vs"
    unfolding read_image_formats_alt[OF assms(1)] Let_def input_written[OF w(1)] using w by simp
  moreover have "list_all (\<lambda>f. image_validate f = Inr ()) vs"
    using w(4) by (auto simp: list_all_iff is_ok_iff)
  ultimately show ?thesis using w v(1) distinct_extensions[OF assms(1)] by simp
qed

lemma audio_formats_kept:
  assumes "read_audio_formats a = Some vs"
  shows "vs = sorted_list_of_set (set (input_values a)) \<and> vs \<noteq> [] \<and> length vs \<le> 3
    \<and> read_audio_formats (write_formats vs) = Some vs"
proof -
  have v: "vs = sort (input_values a)" "input_values a \<noteq> []" "length (input_values a) \<le> 3" "distinct (input_values a)"
    using assms unfolding read_audio_formats_alt Let_def by (simp_all split: if_splits)
  have w: "vs \<noteq> []" "length vs \<le> 3" "distinct vs" "sort vs = vs"
    using v by (simp_all add: sorted_sort_id) (metis mset.simps(1) mset_sort mset_zero_iff)
  have "vs = sorted_list_of_set (set (input_values a))"
    using v(1,4) by (simp add: sorted_list_of_set_sort_remdups distinct_remdups_id)
  moreover have "read_audio_formats (write_formats vs) = Some vs"
    unfolding read_audio_formats_alt Let_def input_written[OF w(1)] using w by simp
  ultimately show ?thesis using w by simp
qed

text \<open>The sets of renditions are canonical: two spellings of the same formats, in any order, are
  accepted or rejected alike and kept in the same form; what is kept has the members that were written,
  at least one and at most five image formats with different extensions, or three audio formats in the
  order of the type, and is read back unchanged from its printed form, where a single format is printed
  as a scalar.\<close>

theorem format_sets_canonical:
  assumes "inj ext" and "mset (input_values i) = mset (input_values j)" and "mset (input_values a) = mset (input_values b)"
  shows "read_image_formats ext i = read_image_formats ext j \<and> read_audio_formats a = read_audio_formats b
    \<and> (\<forall>vs. read_image_formats ext i = Some vs \<longrightarrow> mset vs = mset (input_values i) \<and> vs \<noteq> [] \<and> length vs \<le> 5
         \<and> distinct (map (\<lambda>f. ext (native f)) vs) \<and> list_all (\<lambda>f. image_validate f = Inr ()) vs
         \<and> read_image_formats ext (write_formats vs) = Some vs)
    \<and> (\<forall>vs. read_audio_formats a = Some vs \<longrightarrow> vs = sorted_list_of_set (set (input_values a)) \<and> vs \<noteq> []
         \<and> length vs \<le> 3 \<and> read_audio_formats (write_formats vs) = Some vs)"
proof -
  let ?f = "\<lambda>f. ext (native f)"
  have len: "length (input_values i) = length (input_values j)" "length (input_values a) = length (input_values b)"
    using assms(2,3) by (metis size_mset)+
  have sets: "set (input_values i) = set (input_values j)" using assms(2) by (metis set_mset_mset)
  have d: "distinct (map native (input_values i)) = distinct (map native (input_values j))"
    "distinct (input_values a) = distinct (input_values b)"
    by (rule mset_eq_imp_distinct_iff, simp add: assms(2)) (rule mset_eq_imp_distinct_iff[OF assms(3)])
  have e: "input_values i = [] \<longleftrightarrow> input_values j = []" "input_values a = [] \<longleftrightarrow> input_values b = []"
    using len by (metis length_0_conv)+
  have s: "sort_key ?f (input_values i) = sort_key ?f (input_values j)" if "distinct (map native (input_values i))"
    by (rule sort_key_perm[OF assms(2)]) (simp only: distinct_extensions[OF assms(1)] that)
  have t: "sort (input_values a) = sort (input_values b)"
    using assms(3) by (metis mset_sort properties_for_sort sorted_sort)
  have "read_image_formats ext i = read_image_formats ext j"
    unfolding read_image_formats_alt[OF assms(1)] Let_def list_all_iff len(1) d(1) e(1) sets using s d(1) by simp
  moreover have "read_audio_formats a = read_audio_formats b"
    unfolding read_audio_formats_alt Let_def len(2) d(2) e(2) t ..
  ultimately show ?thesis using image_formats_kept[OF assms(1)] audio_formats_kept by blast
qed

definition demo_extension :: "native_image \<Rightarrow> string" where
  "demo_extension n = (case n of NPng \<Rightarrow> ''png'' | NWebp \<Rightarrow> ''webp'' | NBmp \<Rightarrow> ''bmp'' | NTga \<Rightarrow> ''tga'' | NJpeg \<Rightarrow> ''jpg'')"

theorem format_sets_canonical_witness:
  "read_image_formats demo_extension (Many [Webp, Png Fast]) = Some [Png Fast, Webp]
   \<and> read_audio_formats (Many [Mp3, Wav]) = Some [Wav, Mp3]"
proof -
  have inj: "inj demo_extension" by (rule injI) (auto simp: demo_extension_def split: native_image.splits)
  have r: "read_image_formats demo_extension (Many [Png Fast, Webp]) = Some [Png Fast, Webp]"
    "read_audio_formats (Many [Wav, Mp3]) = Some [Wav, Mp3]"
    by code_simp+
  have m: "mset (input_values (Many [Webp, Png Fast])) = mset (input_values (Many [Png Fast, Webp]))"
    "mset (input_values (Many [Mp3, Wav])) = mset (input_values (Many [Wav, Mp3]))"
    by simp_all
  show ?thesis using format_sets_canonical[OF inj m] r by simp
qed

end
