(* ===== verification/Config_Override.thy ===== *)
theory Config_Override
  imports Environment "HOL-Library.AList" "HOL-Library.Product_Lexorder" "HOL-Library.Multiset"
begin

text \<open>
  Overrides of configuration documents by environment variables (\<open>src/config_env.rs\<close>): the variables
  with a document's prefix address places of its YAML tree, and are applied in the order of their names
  before the tree is decoded. The YAML parser is an argument; its mapping keeps the order of insertion,
  so a mapping is an association list updated in place. The last part shows what a place of the tree
  holds after all overrides.
\<close>

subsection \<open>Documents\<close>

datatype document = Download | Export | Service | Storage | Publish | ConfigSource

fun document_prefix :: "document \<Rightarrow> string" where
  "document_prefix Download = ''SIRIUS_ASSET__''"
| "document_prefix Export = ''SIRIUS_ASSET_EXPORT__''"
| "document_prefix Service = ''SIRIUS_ASSET_SERVICE__''"
| "document_prefix Storage = ''SIRIUS_ASSET_STORAGE__''"
| "document_prefix Publish = ''SIRIUS_ASSET_PUBLISH__''"
| "document_prefix ConfigSource = ''SIRIUS_ASSET_CONFIG_SOURCE__''"

definition MAX_OVERRIDES :: nat where "MAX_OVERRIDES = 256"
definition MAX_VALUE_BYTES :: nat where "MAX_VALUE_BYTES = 65536"
definition MAX_DEPTH :: nat where "MAX_DEPTH = 16"
definition MAX_INDEX :: nat where "MAX_INDEX = 1024"

text \<open>A YAML tree; \<open>YScalar\<close> stands for booleans, numbers and tagged values, which are never inspected.\<close>

datatype 's yaml =
    YNull
  | YString string
  | YScalar 's
  | YSequence "'s yaml list"
  | YMapping "('s yaml \<times> 's yaml) list"

text \<open>\<open>str::split\<close> for a string\<close>

lemma split_once_shorter: "split_once d s = Some (a, b) \<Longrightarrow> d \<noteq> [] \<Longrightarrow> length b < length s"
  by (drule split_once_Some) simp

function split_str :: "'a list \<Rightarrow> 'a list \<Rightarrow> 'a list list" where
  "split_str d s =
     (if d = [] then [s] else case split_once d s of None \<Rightarrow> [s] | Some (a, b) \<Rightarrow> a # split_str d b)"
  by pat_completeness auto
termination
  by (relation "measure (\<lambda>(d, s). length s)") (auto intro: split_once_shorter)

declare split_str.simps [simp del]

subsection \<open>Setting one place\<close>

definition resize :: "nat \<Rightarrow> 'a \<Rightarrow> 'a list \<Rightarrow> 'a list" where
  "resize n d xs = (if length xs < n then xs @ replicate (n - length xs) d else xs)"

fun set_path :: "'s yaml \<Rightarrow> string list \<Rightarrow> 's yaml \<Rightarrow> error + 's yaml" where
  "set_path current [] v = Inr v"
| "set_path current (segment # rest) v =
     (case parse_usize segment of
        Some index \<Rightarrow>
          if MAX_INDEX < index then Inl error.Config
          else (case (if current = YNull then YSequence [] else current) of
              YSequence items \<Rightarrow>
                (let grown = resize (index + 1) YNull items in
                 and_then (set_path (grown ! index) rest v) (\<lambda>x. Inr (YSequence (grown[index := x]))))
            | _ \<Rightarrow> Inl error.Config)
      | None \<Rightarrow>
          (case (if current = YNull then YMapping [] else current) of
              YMapping m \<Rightarrow>
                and_then (set_path (unwrap_or YNull (map_of m (YString segment))) rest v)
                  (\<lambda>x. Inr (YMapping (AList.update (YString segment) x m)))
            | _ \<Rightarrow> Inl error.Config))"

text \<open>\<open>value\<close>: YAML when it parses, otherwise the text itself\<close>

definition override_value :: "(string \<Rightarrow> 's yaml option) \<Rightarrow> string \<Rightarrow> 's yaml" where
  "override_value yaml_parse raw = (if raw = [] then YString [] else unwrap_or (YString raw) (yaml_parse raw))"

subsection \<open>Applying the environment\<close>

definition segments_of :: "string \<Rightarrow> string list" where
  "segments_of path = map to_ascii_lowercase (split_str ''__'' path)"

definition override_rejected :: "string list \<Rightarrow> string \<Rightarrow> bool" where
  "override_rejected segments raw \<longleftrightarrow>
     MAX_DEPTH < length segments \<or> MAX_VALUE_BYTES < length raw
     \<or> list_ex (\<lambda>s. s = [] \<or> \<not> list_all (\<lambda>b. is_ascii_alphanumeric b \<or> b = CHR ''_'') s) segments"

fun apply_selected :: "(string \<Rightarrow> 's yaml option) \<Rightarrow> 's yaml \<Rightarrow> (string \<times> string) list \<Rightarrow> error + 's yaml" where
  "apply_selected yaml_parse doc [] = Inr doc"
| "apply_selected yaml_parse doc ((path, raw) # rest) =
     (let segments = segments_of path in
      and_then (fail_if (override_rejected segments raw) error.Config) (\<lambda>_.
      and_then (set_path doc segments (override_value yaml_parse raw)) (\<lambda>doc'. apply_selected yaml_parse doc' rest)))"

definition selected_vars :: "document \<Rightarrow> (string \<times> string) list \<Rightarrow> (string \<times> string) list" where
  "selected_vars d vars =
     List.map_filter (\<lambda>(k, v). map_option (\<lambda>p. (p, v)) (strip_prefix (document_prefix d) k)) vars"

definition apply_overrides ::
  "(string \<Rightarrow> 's yaml option) \<Rightarrow> 's yaml \<Rightarrow> document \<Rightarrow> (string \<times> string) list \<Rightarrow> error + 's yaml" where
  "apply_overrides yaml_parse doc d vars =
     and_then (fail_if (MAX_OVERRIDES < length (selected_vars d vars)) error.Config) (\<lambda>_.
     apply_selected yaml_parse doc (sort (selected_vars d vars)))"

text \<open>\<open>from_str_with\<close>; \<open>decode\<close> is the typed deserialisation.\<close>

definition from_str_with ::
  "(string \<Rightarrow> 's yaml option) \<Rightarrow> ('s yaml \<Rightarrow> 'c option) \<Rightarrow> string \<Rightarrow> document \<Rightarrow> (string \<times> string) list \<Rightarrow> error + 'c" where
  "from_str_with yaml_parse decode source d vars =
     and_then (ok_or error.Config (yaml_parse source)) (\<lambda>doc.
     and_then (apply_overrides yaml_parse doc d vars) (\<lambda>doc'. ok_or error.Config (decode doc')))"

text \<open>\<open>load\<close>; the content of the file, where it can be read as text, is an argument.\<close>

definition load_document ::
  "(string \<Rightarrow> 's yaml option) \<Rightarrow> ('s yaml \<Rightarrow> 'c option) \<Rightarrow> string option \<Rightarrow> document \<Rightarrow> (string \<times> string) list \<Rightarrow> error + 'c" where
  "load_document yaml_parse decode content d vars =
     and_then (ok_or error.Config content) (\<lambda>source. from_str_with yaml_parse decode source d vars)"

subsection \<open>Places of a tree\<close>

datatype place = Index nat | Key string

definition place_of :: "string \<Rightarrow> place" where
  "place_of s = (case parse_usize s of Some i \<Rightarrow> Index i | None \<Rightarrow> Key s)"

fun child :: "'s yaml \<Rightarrow> place \<Rightarrow> 's yaml option" where
  "child (YSequence xs) (Index i) = (if i < length xs then Some (xs ! i) else None)"
| "child (YMapping m) (Key k) = map_of m (YString k)"
| "child _ _ = None"

fun get_path :: "'s yaml \<Rightarrow> place list \<Rightarrow> 's yaml option" where
  "get_path doc [] = Some doc"
| "get_path doc (p # ps) = Option.bind (child doc p) (\<lambda>c. get_path c ps)"

definition places :: "string \<Rightarrow> place list" where
  "places path = map place_of (segments_of path)"

text \<open>A place keeps its value, or comes into being as a null filling up a sequence.\<close>

definition kept :: "'s yaml option \<Rightarrow> 's yaml option \<Rightarrow> bool" where
  "kept old new \<longleftrightarrow> new = old \<or> (old = None \<and> new = Some YNull)"

lemma kept_refl [simp]: "kept x x"
  by (simp add: kept_def)

lemma kept_trans: "kept x y \<Longrightarrow> kept y z \<Longrightarrow> kept x z"
  by (auto simp: kept_def)

lemma get_path_append: "get_path doc (ps @ qs) = Option.bind (get_path doc ps) (\<lambda>c. get_path c qs)"
proof (induction ps arbitrary: doc)
  case (Cons p ps)
  then show ?case by (cases "child doc p") simp_all
qed simp

lemma get_path_null [simp]: "get_path YNull (p # ps) = None"
  by simp

lemma length_resize: "length (resize n d xs) = max n (length xs)"
  by (simp add: resize_def)

lemma nth_resize: "i < length (resize n d xs) \<Longrightarrow> resize n d xs ! i = (if i < length xs then xs ! i else d)"
  by (auto simp: resize_def nth_append split: if_splits)

text \<open>One step of \<open>set_path\<close> seen through places.\<close>

lemma set_path_step:
  assumes "set_path doc (s # ss) v = Inr doc'"
  obtains x where "set_path (unwrap_or YNull (child doc (place_of s))) ss v = Inr x"
    and "child doc' (place_of s) = Some x"
    and "\<And>q. q \<noteq> place_of s \<Longrightarrow> kept (child doc q) (child doc' q)"
proof (cases "parse_usize s")
  case None
  then obtain m x where m: "(if doc = YNull then YMapping [] else doc) = YMapping m"
    and x: "set_path (unwrap_or YNull (map_of m (YString s))) ss v = Inr x"
    and d: "doc' = YMapping (AList.update (YString s) x m)"
    using assms by (auto simp: result_simps split: yaml.splits)
  have child: "child doc q = child (YMapping m) q" for q
    using m by (cases q) (auto split: if_splits)
  show ?thesis
  proof (rule that [of x])
    show "set_path (unwrap_or YNull (child doc (place_of s))) ss v = Inr x"
      using x None by (simp add: child place_of_def)
    show "child doc' (place_of s) = Some x"
      using None by (simp add: d place_of_def update_conv')
    show "kept (child doc q) (child doc' q)" if "q \<noteq> place_of s" for q
      using that None by (cases q) (auto simp: child d place_of_def update_conv')
  qed
next
  case (Some i)
  then obtain xs x where xs: "(if doc = YNull then YSequence [] else doc) = YSequence xs"
    and x: "set_path (resize (i + 1) YNull xs ! i) ss v = Inr x"
    and d: "doc' = YSequence ((resize (i + 1) YNull xs)[i := x])"
    using assms by (auto simp: result_simps Let_def split: yaml.splits if_splits)
  have child: "child doc q = child (YSequence xs) q" for q
    using xs by (cases q) (auto split: if_splits)
  have i: "i < length (resize (i + 1) YNull xs)"
    by (simp add: length_resize)
  show ?thesis
  proof (rule that [of x])
    show "set_path (unwrap_or YNull (child doc (place_of s))) ss v = Inr x"
      using x Some i by (auto simp: child place_of_def nth_resize split: if_splits)
    show "child doc' (place_of s) = Some x"
      using Some i by (simp add: d place_of_def)
    show "kept (child doc q) (child doc' q)" if "q \<noteq> place_of s" for q
      using that Some by (cases q)
        (auto simp: child d place_of_def length_resize nth_resize nth_list_update kept_def)
  qed
qed

definition comparable :: "place list \<Rightarrow> place list \<Rightarrow> bool" where
  "comparable ps qs \<longleftrightarrow> prefix ps qs \<or> prefix qs ps"

lemma comparable_Cons [simp]:
  "comparable (p # ps) (q # qs) \<longleftrightarrow> p = q \<and> comparable ps qs"
  "comparable [] qs" "comparable ps []"
  by (auto simp: comparable_def)

lemma comparable_sym: "comparable ps qs = comparable qs ps"
  by (auto simp: comparable_def)

lemma set_path_reads_back:
  "set_path doc ss v = Inr doc' \<Longrightarrow> get_path doc' (map place_of ss) = Some v"
proof (induction ss arbitrary: doc doc')
  case (Cons s ss)
  from Cons.prems show ?case
    by (rule set_path_step) (simp add: Cons.IH)
qed simp

lemma set_path_elsewhere:
  "set_path doc ss v = Inr doc' \<Longrightarrow> \<not> comparable (map place_of ss) q \<Longrightarrow> kept (get_path doc q) (get_path doc' q)"
proof (induction ss arbitrary: doc doc' q)
  case (Cons s ss)
  from Cons.prems(2) obtain a q' where q: "q = a # q'" by (cases q) auto
  from Cons.prems(1) obtain x where x: "set_path (unwrap_or YNull (child doc (place_of s))) ss v = Inr x"
    and c: "child doc' (place_of s) = Some x"
    and other: "\<And>q. q \<noteq> place_of s \<Longrightarrow> kept (child doc q) (child doc' q)"
    by (rule set_path_step) blast
  show ?case
  proof (cases "a = place_of s")
    case True
    with Cons.prems(2) q have "\<not> comparable (map place_of ss) q'" by simp
    with Cons.IH[OF x] have "kept (get_path (unwrap_or YNull (child doc a)) q') (get_path x q')"
      using True by simp
    moreover from \<open>\<not> comparable (map place_of ss) q'\<close> have "q' \<noteq> []" by auto
    ultimately show ?thesis
      using c True q by (cases "child doc a"; cases q') auto
  next
    case False
    from other[OF this] show ?thesis
      using q by (cases "child doc a"; cases q') (auto simp: kept_def)
  qed
qed simp

lemma apply_selected_elsewhere:
  "apply_selected yp doc sel = Inr doc' \<Longrightarrow> \<forall>(path, raw) \<in> set sel. \<not> comparable (places path) q
    \<Longrightarrow> kept (get_path doc q) (get_path doc' q)"
proof (induction sel arbitrary: doc)
  case (Cons a sel)
  then show ?case
    by (cases a) (auto simp: result_simps Let_def places_def intro: kept_trans[OF set_path_elsewhere])
qed simp

lemma apply_selected_append:
  "apply_selected yp doc (xs @ ys) = and_then (apply_selected yp doc xs) (\<lambda>d. apply_selected yp d ys)"
  by (induction xs arbitrary: doc) (auto simp: Let_def and_then_assoc)

lemma apply_selected_checked:
  "apply_selected yp doc sel = Inr doc' \<Longrightarrow> (path, raw) \<in> set sel \<Longrightarrow> \<not> override_rejected (segments_of path) raw"
  by (induction sel arbitrary: doc) (auto simp: result_simps Let_def)

lemma kept_Some: "kept (Some x) y \<longleftrightarrow> y = Some x"
  by (auto simp: kept_def)

lemma apply_selected_reads_back:
  assumes "apply_selected yp doc (xs @ (path, raw) # ys) = Inr doc'"
    and "\<forall>(path', raw') \<in> set ys. \<not> comparable (places path') (places path)"
  shows "get_path doc' (places path) = Some (override_value yp raw)"
proof -
  from assms(1) obtain d1 d2 where d2: "set_path d1 (segments_of path) (override_value yp raw) = Inr d2"
    and rest: "apply_selected yp d2 ys = Inr doc'"
    by (auto simp: apply_selected_append result_simps Let_def)
  from set_path_reads_back[OF d2] have "get_path d2 (places path) = Some (override_value yp raw)"
    by (simp add: places_def)
  with apply_selected_elsewhere[OF rest assms(2)] show ?thesis by (simp add: kept_Some)
qed

lemma mset_map_filter: "mset (List.map_filter f xs) = image_mset (\<lambda>x. the (f x)) (filter_mset (\<lambda>x. f x \<noteq> None) (mset xs))"
  by (simp add: List.map_filter_def image_mset.compositionality comp_def)

text \<open>Overriding a document is predictable: the result, or the failure, does not depend on the
  order in which the process lists its variables. In a document that is accepted every variable
  is read back at the place its name addresses unless another one with the same prefix addresses that
  place, something above it or below it; and every place that no variable touches keeps its value, or comes
  into being as a null that fills up a sequence.\<close>

theorem overrides_are_predictable:
  assumes "mset vars = mset vars'"
  shows "apply_overrides yp doc d vars = apply_overrides yp doc d vars'
    \<and> (\<forall>doc'. apply_overrides yp doc d vars = Inr doc' \<longrightarrow>
        (\<forall>path raw. (path, raw) \<in> set (selected_vars d vars)
            \<and> (\<forall>(path', raw') \<in># mset (selected_vars d vars) - {#(path, raw)#}. \<not> comparable (places path') (places path))
          \<longrightarrow> get_path doc' (places path) = Some (override_value yp raw))
      \<and> (\<forall>q. (\<forall>(path, raw) \<in> set (selected_vars d vars). \<not> comparable (places path) q)
          \<longrightarrow> kept (get_path doc q) (get_path doc' q)))"
proof (intro conjI allI impI)
  have sel: "mset (selected_vars d vars) = mset (selected_vars d vars')"
    using assms by (simp add: selected_vars_def mset_map_filter)
  then have "sort (selected_vars d vars) = sort (selected_vars d vars')"
    by (simp flip: sorted_list_of_multiset_mset)
  then show "apply_overrides yp doc d vars = apply_overrides yp doc d vars'"
    using mset_eq_length[OF sel] by (simp add: apply_overrides_def)
next
  fix doc' path raw
  assume ok: "apply_overrides yp doc d vars = Inr doc'"
    and one: "(path, raw) \<in> set (selected_vars d vars)
      \<and> (\<forall>(path', raw') \<in># mset (selected_vars d vars) - {#(path, raw)#}. \<not> comparable (places path') (places path))"
  from ok have run: "apply_selected yp doc (sort (selected_vars d vars)) = Inr doc'"
    by (simp add: apply_overrides_def result_simps)
  from one have "(path, raw) \<in> set (sort (selected_vars d vars))" by simp
  then obtain xs ys where split: "sort (selected_vars d vars) = xs @ (path, raw) # ys"
    by (meson split_list)
  have "mset (selected_vars d vars) - {#(path, raw)#} = mset xs + mset ys"
    using arg_cong[OF split, of mset] by simp
  with one have "\<forall>(path', raw') \<in> set ys. \<not> comparable (places path') (places path)" by auto
  with run split show "get_path doc' (places path) = Some (override_value yp raw)"
    by (auto intro: apply_selected_reads_back)
next
  fix doc' q
  assume "apply_overrides yp doc d vars = Inr doc'"
    and "\<forall>(path, raw) \<in> set (selected_vars d vars). \<not> comparable (places path) q"
  then show "kept (get_path doc q) (get_path doc' q)"
    by (intro apply_selected_elsewhere[of yp doc "sort (selected_vars d vars)"]) (auto simp: apply_overrides_def result_simps)
qed

text \<open>Large bounds are compared as integers when evaluating.\<close>

lemma override_bounds_code [code_unfold]:
  "MAX_OVERRIDES < k \<longleftrightarrow> 256 < int k"
  "MAX_VALUE_BYTES < k \<longleftrightarrow> 65536 < int k"
  "MAX_INDEX < k \<longleftrightarrow> 1024 < int k"
  "k < USIZE_RANGE \<longleftrightarrow> int k < 18446744073709551616"
  by (auto simp: MAX_OVERRIDES_def MAX_VALUE_BYTES_def MAX_INDEX_def USIZE_RANGE_def)

definition demo_vars :: "(string \<times> string) list" where
  "demo_vars = [(''SIRIUS_ASSET__B__1'', ''x''), (''PATH'', ''z''), (''SIRIUS_ASSET__A'', ''y'')]"

definition demo_document :: "unit yaml" where
  "demo_document = YMapping [(YString ''a'', YNull), (YString ''c'', YScalar ())]"

lemma demo_overridden:
  "apply_overrides (\<lambda>_. None) demo_document Download demo_vars =
     Inr (YMapping [(YString ''a'', YString ''y''), (YString ''c'', YScalar ()),
       (YString ''b'', YSequence [YNull, YString ''x''])])"
  by code_simp

theorem overrides_are_predictable_witness:
  "apply_overrides (\<lambda>_. None) demo_document Download (rev demo_vars) =
     Inr (YMapping [(YString ''a'', YString ''y''), (YString ''c'', YScalar ()),
       (YString ''b'', YSequence [YNull, YString ''x''])])"
  using overrides_are_predictable[of demo_vars "rev demo_vars" "\<lambda>_. None" demo_document Download] demo_overridden
  by simp

end
