(* ===== verification/Stable_Names.thy ===== *)
theory Stable_Names
  imports Environment Safe_Paths
begin

text \<open>
  The readable names of the stable storage layout (\<open>src/stable_layout.rs\<close>): file names made safe,
  containers without their prefix, extensions, the location of CRI resources and the directories of
  Unity classes; and the content type of a key (\<open>src/storage.rs\<close>). Strings are UTF-8 bytes;
  where the code works on characters, \<open>utf8_chars\<close> cuts a string into them.
\<close>

subsection \<open>Characters of a string\<close>

definition is_continuation :: "char \<Rightarrow> bool" where
  "is_continuation c \<longleftrightarrow> 128 \<le> (of_char c :: nat) \<and> of_char c < (192 :: nat)"

function utf8_chars :: "string \<Rightarrow> string list" where
  "utf8_chars [] = []"
| "utf8_chars (c # s) = (c # takeWhile is_continuation s) # utf8_chars (dropWhile is_continuation s)"
  by pat_completeness auto
termination
  by (relation "measure length") (auto simp: length_dropWhile_le le_imp_less_Suc)

lemma concat_utf8_chars [simp]: "concat (utf8_chars s) = s"
  by (induction s rule: utf8_chars.induct) auto

text \<open>\<open>char::is_control\<close> and \<open>char::is_whitespace\<close> are \<open>has_control\<close> and \<open>ws_len\<close> of the character.\<close>

subsection \<open>Directories of Unity classes\<close>

definition class_names :: "(int \<times> string) list" where
  "class_names =
    [(1, ''GameObject''), (2, ''Component''), (4, ''Transform''), (8, ''Behaviour''), (20, ''Camera''),
     (21, ''Material''), (23, ''MeshRenderer''), (25, ''Renderer''), (28, ''Texture2D''), (33, ''MeshFilter''),
     (43, ''Mesh''), (48, ''Shader''), (49, ''TextAsset''), (50, ''Rigidbody2D''), (54, ''Rigidbody''),
     (56, ''Collider''), (61, ''BoxCollider2D''), (64, ''MeshCollider''), (65, ''BoxCollider''),
     (74, ''AnimationClip''), (81, ''AudioListener''), (82, ''AudioSource''), (83, ''AudioClip''),
     (84, ''RenderTexture''), (89, ''Cubemap''), (90, ''Avatar''), (91, ''AnimatorController''),
     (95, ''Animator''), (96, ''TrailRenderer''), (102, ''TextMesh''), (108, ''Light''), (111, ''Animation''),
     (114, ''MonoBehaviour''), (115, ''MonoScript''), (117, ''Texture3D''), (120, ''LineRenderer''),
     (128, ''Font''), (135, ''SphereCollider''), (136, ''CapsuleCollider''), (137, ''SkinnedMeshRenderer''),
     (142, ''AssetBundle''), (152, ''MovieTexture''), (187, ''Texture2DArray''), (198, ''ParticleSystem''),
     (199, ''ParticleSystemRenderer''), (205, ''LODGroup''), (210, ''SortingGroup''), (212, ''SpriteRenderer''),
     (213, ''Sprite''), (221, ''AnimatorOverrideController''), (222, ''CanvasRenderer''), (223, ''Canvas''),
     (224, ''RectTransform''), (225, ''CanvasGroup''), (290, ''AssetBundleManifest''),
     (320, ''PlayableDirector''), (328, ''VideoPlayer''), (329, ''VideoClip''), (331, ''SpriteMask''),
     (687078895, ''SpriteAtlas'')]"

definition class_name :: "int \<Rightarrow> string option" where
  "class_name i = map_of class_names i"

text \<open>\<open>format!("ClassID{id}")\<close> for the classes without a name.\<close>

definition show_int :: "int \<Rightarrow> string" where
  "show_int i = (if i < 0 then CHR ''-'' # decimal (nat (- i)) else decimal (nat i))"

definition class_label :: "int \<Rightarrow> string" where
  "class_label i = unwrap_or (''ClassID'' @ show_int i) (class_name i)"

text \<open>\<open>prev\<close> is \<open>chars[i - 1]\<close>.\<close>

fun snake :: "char option \<Rightarrow> string \<Rightarrow> string" where
  "snake prev [] = []"
| "snake prev (c # s) =
     (if is_ascii_uppercase c then
        (let prev_lower = is_some_and (\<lambda>p. is_ascii_lowercase p \<or> is_ascii_digit p) prev;
             next_lower = (case s of [] \<Rightarrow> False | n # _ \<Rightarrow> is_ascii_lowercase n) in
         (if prev \<noteq> None \<and> (prev_lower \<or> (next_lower \<and> is_some_and is_ascii_uppercase prev)) then ''_'' else [])
           @ [to_ascii_lower c])
      else [c]) @ snake (Some c) s"

definition snake_case :: "string \<Rightarrow> string" where
  "snake_case name = snake None name"

definition plain_dirs :: "string list" where
  "plain_dirs =
    [''sprite'', ''mesh'', ''animator'', ''monobehaviour'', ''monoscript'', ''gameobject'', ''material'',
     ''transform'', ''recttransform'', ''canvas'', ''camera'', ''avatar'', ''animation'', ''cubemap'',
     ''texture3d'', ''shader'', ''texture2d'']"

definition semantic_dir :: "string \<Rightarrow> string" where
  "semantic_dir cls =
     (if to_ascii_lowercase cls = ''texture2darray'' then ''texture2d_array''
      else if to_ascii_lowercase cls = ''shadervariantcollection'' then ''shader''
      else if to_ascii_lowercase cls \<in> set plain_dirs then to_ascii_lowercase cls
      else snake_case cls)"

subsection \<open>Safe file names\<close>

definition MAX_STEM_CHARS :: nat where
  "MAX_STEM_CHARS = 220"

text \<open>The original's set plus \<open>#\<close> and \<open>%\<close>, which would break the key inside a URL.\<close>

definition unsafe_char :: "string \<Rightarrow> bool" where
  "unsafe_char ch \<longleftrightarrow>
     ch \<in> {''<'', ''>'', '':'', [CHR 0x22], ''/'', [CHR 0x5C], ''|'', ''?'', ''*'', ''#'', ''%''} \<or> has_control ch"

text \<open>Strips the copies of the marker at the end and counts them.\<close>

function strip_clones :: "string \<Rightarrow> nat \<Rightarrow> string \<times> nat" where
  "strip_clones s n =
     (if ends_with s ''(Clone)'' then strip_clones (take (length s - 7) s) (n + 1) else (s, n))"
  by pat_completeness auto
termination
  by (relation "measure (\<lambda>(s, n). length s)") (auto simp: ends_with_def)

declare strip_clones.simps [simp del]

definition compress_clone_suffixes :: "string \<Rightarrow> string" where
  "compress_clone_suffixes s =
     (let (rest, n) = strip_clones s 0 in
      if n \<le> 1 then s else trim_end rest @ ''__clone'' @ decimal n)"

definition fix_file_name :: "string \<Rightarrow> string" where
  "fix_file_name s =
     (let safe = concat (map (\<lambda>ch. if unsafe_char ch then ''_'' else ch) (utf8_chars s));
          safe = compress_clone_suffixes (trim safe) in
      if length (utf8_chars safe) \<le> MAX_STEM_CHARS then safe
      else concat (take (MAX_STEM_CHARS - length ''__truncated'') (utf8_chars safe)) @ ''__truncated'')"

text \<open>The lower-case form of a character is a table of the standard library, an argument here.\<close>

definition loose :: "(string \<Rightarrow> string) \<Rightarrow> string \<Rightarrow> string" where
  "loose lower_char s =
     concat (map lower_char
       (filter (\<lambda>ch. ch \<noteq> ''_'' \<and> ch \<noteq> ''-'' \<and> ws_len ch = 0) (utf8_chars (trim s))))"

subsection \<open>Containers and extensions\<close>

definition without_prefix :: "string \<Rightarrow> string \<Rightarrow> string option" where
  "without_prefix normalized p =
     Option.bind (strip_prefix (trim_matches (CHR ''/'') p) normalized) (\<lambda>rest.
     if starts_with rest ''/'' then
       (let rest = trim_start_matches (CHR ''/'') rest in if rest = [] then None else Some rest)
     else None)"

definition normal_parts :: "string \<Rightarrow> string list" where
  "normal_parts s = filter (\<lambda>c. c \<noteq> [] \<and> c \<noteq> ''.'' \<and> c \<noteq> ''..'') (split_on (CHR ''/'') s)"

definition strip_container :: "string \<Rightarrow> string list \<Rightarrow> string list" where
  "strip_container container strips =
     (let normalized = trim_start_matches (CHR ''/'') (map (\<lambda>c. if c = CHR 0x5C then CHR ''/'' else c) container);
          stripped = unwrap_or normalized (find_map (without_prefix normalized) strips) in
      map (\<lambda>c. concat (map (\<lambda>ch. if has_control ch then ''_'' else ch) (utf8_chars c))) (normal_parts stripped))"

definition split_ext :: "string \<Rightarrow> string \<times> string" where
  "split_ext file =
     (case rsplit_once ''.'' file of
        None \<Rightarrow> (file, [])
      | Some (stem, ext) \<Rightarrow> if stem = [] then (file, []) else (stem, ext))"

definition join_ext :: "string \<Rightarrow> string \<Rightarrow> string" where
  "join_ext stem ext = (if ext = [] then stem else stem @ ''.'' @ ext)"

definition with_extension :: "string \<Rightarrow> string \<Rightarrow> string" where
  "with_extension file ext = (let (stem, _) = split_ext file in if ext = [] then stem else stem @ ''.'' @ ext)"

text \<open>\<open>cri_assets_cri/sound/voice_<32 hex>\<close> is \<open>voice\<close> in \<open>cri/sound\<close>.\<close>

definition ungrouped :: "string list \<Rightarrow> string list" where
  "ungrouped parts =
     (case parts of
        first # second # others \<Rightarrow>
          (case split_once ''_assets_'' first of
             Some (grp, rest) \<Rightarrow> (if grp = rest \<and> grp \<noteq> [] then grp else first) # second # others
           | None \<Rightarrow> parts)
      | _ \<Rightarrow> parts)"

definition without_hash :: "string \<Rightarrow> string" where
  "without_hash s =
     (case rsplit_once ''_'' s of
        Some (stem, hash) \<Rightarrow>
          if stem \<noteq> [] \<and> length hash = 32 \<and> list_all is_ascii_hexdigit hash then stem else s
      | None \<Rightarrow> s)"

definition cri_location :: "string \<Rightarrow> string list \<times> string" where
  "cri_location source =
     (let parts = ungrouped (map fix_file_name (normal_parts source)) in
      if parts = [] then ([], without_hash ''resource'') else (butlast parts, without_hash (last parts)))"

subsection \<open>Content types\<close>

definition content_types :: "(string \<times> string) list" where
  "content_types =
    [(''png'', ''image/png''), (''jpg'', ''image/jpeg''), (''jpeg'', ''image/jpeg''), (''webp'', ''image/webp''),
     (''json'', ''application/json''), (''jsonl'', ''application/x-ndjson''),
     (''txt'', ''text/plain; charset=utf-8''), (''shader'', ''text/plain; charset=utf-8''),
     (''obj'', ''text/plain; charset=utf-8''), (''csv'', ''text/plain; charset=utf-8''),
     (''wav'', ''audio/wav''), (''flac'', ''audio/flac''), (''mp3'', ''audio/mpeg''), (''ogg'', ''audio/ogg''),
     (''mp4'', ''video/mp4''), (''mkv'', ''video/x-matroska''), (''m2v'', ''video/mpeg''), (''ivf'', ''video/x-ivf''),
     (''webm'', ''video/webm''), (''ttf'', ''font/ttf''), (''otf'', ''font/otf'')]"

definition content_type :: "string \<Rightarrow> string" where
  "content_type key =
     (let name = to_ascii_lowercase (last (split_on (CHR ''/'') key));
          ext = (case rsplit_once ''.'' name of None \<Rightarrow> [] | Some (_, e) \<Rightarrow> e) in
      unwrap_or ''application/octet-stream'' (map_of content_types ext))"

end
