(* ===== verification/Stable_Layout.thy ===== *)
theory Stable_Layout
  imports Stable_Names
begin

text \<open>
  The plan of the stable storage layout (\<open>src/stable_layout.rs\<close>): the key of every output of an
  export and the resolution of collisions. The lower-case mapping of Unicode, the files of the export
  and the JSON parser (\<open>sonic_rs\<close>) are arguments; of a JSON value the code sees whether it is an
  array or a string.
\<close>

datatype json_value = JArray "json_value list" | JString string | JOther

record layout_lib =
  lowercase :: "string \<Rightarrow> string"
  lower_char :: "string \<Rightarrow> string"
  export_file :: "string \<Rightarrow> string option"
  json_of :: "string \<Rightarrow> json_value option"

text \<open>The journal of an export (\<open>src/export.rs\<close>).\<close>

record object_identity =
  source_file :: string
  path_id :: int
  class_id :: int
  object_name :: "string option"
  container :: "string option"

record output_record =
  out_path :: string
  out_kind :: string
  out_bytes :: u64
  out_sha256 :: string
  out_object :: "object_identity option"

record resource_report =
  cache_hit :: bool
  res_source :: string
  output_directory :: string
  source_sha256 :: string
  res_objects :: nat
  selected_objects :: nat
  skipped_objects :: nat
  res_outputs :: "output_record list"
  res_errors :: "string list"

record layout_options =
  strip_prefixes :: "string list"
  lowercase_keys :: bool
  prune :: bool
  max_failed_resources :: nat

definition DEFAULT_STRIP_PREFIXES :: "string list" where
  "DEFAULT_STRIP_PREFIXES = [''Assets/AddressableResources'']"

definition layout_default :: layout_options where
  "layout_default =
     \<lparr>strip_prefixes = DEFAULT_STRIP_PREFIXES, lowercase_keys = True, prune = False, max_failed_resources = 0\<rparr>"

definition layout_validate :: "layout_options \<Rightarrow> error + unit" where
  "layout_validate o1 =
     fail_if (16 < length (strip_prefixes o1)
       \<or> list_ex (\<lambda>p. trim_matches (CHR ''/'') p = [] \<or> 256 < length p \<or> CHR 0x5C \<in> set p) (strip_prefixes o1))
       error.Config"

record entry =
  en_path :: string
  en_local :: string
  en_bytes :: u64
  en_sha256 :: string
  en_content_type :: string
  en_source :: string
  en_kind :: string
  en_class_id :: "int option"
  en_container :: "string option"
  en_name :: "string option"

record stable_plan =
  entries :: "entry list"
  deduplicated :: nat
  renamed :: nat
  failed_sources :: "string list"

subsection \<open>Names of objects\<close>

definition output_file :: "output_record \<Rightarrow> string" where
  "output_file out = last (split_on (CHR ''/'') (out_path out))"

definition output_ext :: "output_record \<Rightarrow> string" where
  "output_ext out = snd (split_ext (output_file out))"

text \<open>\<open>Context\<close>: per container its textures, the counters of unnamed objects and the stems they got.\<close>

record name_context =
  textures :: "string \<rightharpoonup> nat \<times> bool"
  unnamed :: "string \<times> int \<rightharpoonup> nat"
  stems :: "string \<times> int \<rightharpoonup> string"

definition given_name :: "object_identity \<Rightarrow> string option" where
  "given_name obj =
     (case map_option fix_file_name (object_name obj) of
        Some n \<Rightarrow> if n = [] then None else Some n
      | None \<Rightarrow> None)"

definition object_stem :: "object_identity \<Rightarrow> string \<Rightarrow> string \<Rightarrow> name_context \<Rightarrow> string \<times> name_context" where
  "object_stem obj scope cls cx =
     (case given_name obj of
        Some n \<Rightarrow> (n, cx)
      | None \<Rightarrow>
          (case stems cx (source_file obj, path_id obj) of
             Some stem \<Rightarrow> (stem, cx)
           | None \<Rightarrow>
               (let counter = unwrap_or 0 (unnamed cx (scope, class_id obj));
                    stem = cls @ ''_'' @ decimal counter in
                (stem, cx\<lparr>unnamed := (unnamed cx)((scope, class_id obj) \<mapsto> counter + 1),
                          stems := (stems cx)((source_file obj, path_id obj) \<mapsto> stem)\<rparr>))))"

definition container_key :: "layout_lib \<Rightarrow> string list \<Rightarrow> string \<Rightarrow> string" where
  "container_key lib parts file =
     (let key = join_on ''/'' parts in lowercase lib ((if key = [] then key else key @ ''/'') @ file))"

definition named_container :: "object_identity \<Rightarrow> string option" where
  "named_container obj =
     (case container obj of Some c \<Rightarrow> if blank c then None else Some c | None \<Rightarrow> None)"

text \<open>\<open>nested\<close>: below the container's own directory.\<close>

definition nested_key ::
  "object_identity \<Rightarrow> string \<Rightarrow> string \<Rightarrow> string list \<Rightarrow> string \<Rightarrow> string \<Rightarrow> string \<Rightarrow> name_context
   \<Rightarrow> string list \<times> name_context" where
  "nested_key obj scope cls parts stem0 ext dir cx =
     (let (stem, cx') = object_stem obj scope cls cx in
      (parts @ [stem0 @ ''.assets'', dir, join_ext stem ext], cx'))"

definition object_key ::
  "layout_lib \<Rightarrow> layout_options \<Rightarrow> resource_report \<Rightarrow> output_record \<Rightarrow> object_identity \<Rightarrow> name_context
   \<Rightarrow> string list \<times> name_context" where
  "object_key lib opts res out obj cx =
     (let cls = class_label (class_id obj); ext = output_ext out in
      case named_container obj of
        None \<Rightarrow>
          (let bundle = snd (cri_location (trim_end_str ''.bundle'' (res_source res)));
               (stem, cx') = object_stem obj (''_bundles/'' @ bundle) cls cx in
           ([''_bundles'', bundle, semantic_dir cls, join_ext stem ext], cx'))
      | Some cont \<Rightarrow>
          (let all = strip_container cont (strip_prefixes opts) in
           if all = [] then ([join_ext (fix_file_name cls) ext], cx)
           else
             (let parts = butlast all; file = last all;
                  scope = container_key lib parts file;
                  (stem0, ext0) = split_ext file;
                  flat = parts @ [with_extension file ext];
                  like_container = (\<lambda>n. loose (lower_char lib) (fix_file_name n) = loose (lower_char lib) stem0);
                  bytes_ext = (to_ascii_lowercase ext0 = ''bytes'') in
              if out_kind out = ''playable_json'' then (flat, cx)
              else if class_id obj = 49 then
                (if is_some_and (\<lambda>n. \<not> like_container n) (object_name obj) \<and> \<not> bytes_ext
                 then nested_key obj scope cls parts stem0 ext ''text_asset'' cx
                 else if bytes_ext then (parts @ [stem0], cx)
                 else if ext0 = [] then (flat, cx)
                 else (parts @ [file], cx))
              else if class_id obj = 114 \<and> is_some_and like_container (object_name obj) then (flat, cx)
              else if class_id obj = 28 then
                (if textures cx scope = Some (1, True) then (flat, cx)
                 else nested_key obj scope cls parts stem0 ext ''texture2d'' cx)
              else if class_id obj = 128 then
                (let (stem, cx') = object_stem obj scope cls cx in (parts @ [join_ext stem ext], cx'))
              else if class_id obj \<in> {83, 329, 152, 687078895} then (flat, cx)
              else if class_name (class_id obj) \<noteq> None
              then nested_key obj scope cls parts stem0 ext (semantic_dir cls) cx
              else (flat, cx))))"

text \<open>The last part without its extension; the layers of a texture array go below it.\<close>

definition stem_last :: "string list \<Rightarrow> string list" where
  "stem_last parts = (if parts = [] then [] else butlast parts @ [fst (split_ext (last parts))])"

definition layer_of :: "string \<Rightarrow> string option" where
  "layer_of file_stem =
     (case rsplit_once ''_layer_'' file_stem of
        Some (_, l) \<Rightarrow> if length l = 4 \<and> list_all is_ascii_digit l then Some l else None
      | None \<Rightarrow> None)"

definition unity_key ::
  "layout_lib \<Rightarrow> layout_options \<Rightarrow> resource_report \<Rightarrow> output_record \<Rightarrow> object_identity \<Rightarrow> name_context
   \<Rightarrow> string list \<times> name_context" where
  "unity_key lib opts res out obj cx =
     (let (parts, cx') = object_key lib opts res out obj cx;
          (file_stem, ext) = split_ext (output_file out) in
      case (if class_id obj = 187 then layer_of file_stem else None) of
        Some layer \<Rightarrow> (stem_last parts @ [join_ext (''layer_'' @ layer) ext], cx')
      | None \<Rightarrow> (parts, cx'))"

text \<open>\<open>index\<close>: five digits before the first dot.\<close>

definition first_dot :: "string \<Rightarrow> string" where
  "first_dot file = hd (split_on (CHR ''.'') file)"

definition numbered :: "string \<Rightarrow> bool" where
  "numbered index \<longleftrightarrow> length index = 5 \<and> list_all is_ascii_digit index"

definition after_dot :: "string \<Rightarrow> string \<Rightarrow> string" where
  "after_dot d file = (case split_once ''.'' file of Some (_, rest) \<Rightarrow> rest | None \<Rightarrow> d)"

definition cri_key :: "resource_report \<Rightarrow> output_record \<Rightarrow> string option \<Rightarrow> string list" where
  "cri_key res out cue =
     (let (parts, stem) = cri_location (res_source res);
          file = output_file out;
          (base, ext) = split_ext file;
          name_stem = (if starts_with (out_path out) ''alpha/'' then stem @ ''.alpha'' else stem) in
      case cue of
        Some c \<Rightarrow> parts @ [stem, join_ext c (after_dot ext file)]
      | None \<Rightarrow>
          parts @ [stem,
            if numbered (first_dot file) then join_ext name_stem (after_dot ext file)
            else if base = ''movie'' then join_ext name_stem ext
            else name_stem @ ''.'' @ file])"

subsection \<open>Names of audio tracks\<close>

definition cue_name :: "json_value \<Rightarrow> string option" where
  "cue_name v =
     (case v of
        JArray (JString n # _) \<Rightarrow> (let f = fix_file_name n in if f = [] then None else Some f)
      | _ \<Rightarrow> None)"

definition add_name :: "json_value \<Rightarrow> string list \<Rightarrow> string list" where
  "add_name v names =
     (case cue_name v of
        None \<Rightarrow> names
      | Some n \<Rightarrow>
          if list_ex (\<lambda>m. to_ascii_lowercase m = to_ascii_lowercase n) names then names else names @ [n])"

definition cue_values :: "layout_lib \<Rightarrow> string \<Rightarrow> json_value list" where
  "cue_values lib path =
     (case export_file lib path of
        Some bytes \<Rightarrow>
          if length bytes \<le> 1024 * 1024
          then (case json_of lib bytes of Some (JArray vs) \<Rightarrow> vs | _ \<Rightarrow> [])
          else []
      | None \<Rightarrow> [])"

definition acb_track :: "layout_lib \<Rightarrow> resource_report \<Rightarrow> output_record \<Rightarrow> string list option" where
  "acb_track lib res out =
     (let (dir, file) = (case rsplit_once ''/'' (out_path out) of
            Some (d, f) \<Rightarrow> (Some d, f) | None \<Rightarrow> (None, out_path out));
          index = first_dot file in
      if \<not> numbered index then None
      else
        (let cues = (case dir of Some d \<Rightarrow> d @ ''/'' @ index | None \<Rightarrow> index) @ ''.cues.json'' in
         if \<not> list_ex (\<lambda>x. out_kind x = ''cue_metadata'' \<and> out_path x = cues) (res_outputs res) then None
         else
           (let names = fold add_name (cue_values lib (output_directory res @ ''/'' @ cues)) [] in
            Some (if names = [] then [index] else names))))"

subsection \<open>Claiming a key\<close>

text \<open>What planning has built so far: the plan, the index of every key and the key that holds every
  lower-case form.\<close>

record claims =
  cl_plan :: stable_plan
  claimed :: "string \<rightharpoonup> nat"
  lowered :: "string \<rightharpoonup> string"

definition dup_parts :: "string \<Rightarrow> string \<times> string" where
  "dup_parts key =
     (case rsplit_once ''/'' key of
        Some (dir, file) \<Rightarrow> (let (st, e) = split_ext file in (dir @ ''/'' @ st, e))
      | None \<Rightarrow> split_ext key)"

definition dup_key :: "string \<Rightarrow> nat \<Rightarrow> string" where
  "dup_key key n = (let (stem, ext) = dup_parts key in join_ext (stem @ ''__dup'' @ decimal n) ext)"

definition same_content :: "entry \<Rightarrow> entry \<Rightarrow> bool" where
  "same_content a b \<longleftrightarrow> en_sha256 a = en_sha256 b \<and> en_bytes a = en_bytes b"

text \<open>One round of the loop. \<open>Inl\<close> is the panic of \<open>claimed[existing]\<close> on an unknown key or of
  \<open>plan.entries[index]\<close> out of bounds, \<open>Inr (Inl st)\<close> returns, \<open>Inr (Inr c)\<close> tries the candidate \<open>c\<close>.\<close>

definition claim_step ::
  "layout_lib \<Rightarrow> string \<Rightarrow> entry \<Rightarrow> claims \<Rightarrow> string \<Rightarrow> nat \<Rightarrow> unit + claims + string" where
  "claim_step lib key e st candidate n =
     (let folded = lowercase lib candidate; p = cl_plan st in
      case lowered st folded of
        None \<Rightarrow>
          Inr (Inl \<lparr>cl_plan = p\<lparr>renamed := renamed p + (if 1 < n then 1 else 0),
                entries := entries p @ [e\<lparr>en_content_type := content_type candidate, en_path := candidate\<rparr>]\<rparr>,
              claimed = (claimed st)(candidate \<mapsto> length (entries p)),
              lowered = (lowered st)(folded \<mapsto> candidate)\<rparr>)
      | Some existing \<Rightarrow>
          (case claimed st existing of
             None \<Rightarrow> Inl ()
           | Some i \<Rightarrow>
               if \<not> i < length (entries p) then Inl ()
               else if same_content (entries p ! i) e
               then Inr (Inl (st\<lparr>cl_plan := p\<lparr>deduplicated := deduplicated p + 1\<rparr>\<rparr>))
               else Inr (Inr (dup_key key (n + 1)))))"

text \<open>Nothing in the code bounds the number of rounds; \<open>None\<close> is a loop that does not end.\<close>

partial_function (option) claim_loop ::
  "layout_lib \<Rightarrow> string \<Rightarrow> entry \<Rightarrow> claims \<Rightarrow> string \<Rightarrow> nat \<Rightarrow> (unit + claims) option" where
  "claim_loop lib key e st candidate n =
     (case claim_step lib key e st candidate n of
        Inl u \<Rightarrow> Some (Inl u)
      | Inr (Inl st') \<Rightarrow> Some (Inr st')
      | Inr (Inr c) \<Rightarrow> claim_loop lib key e st c (n + 1))"

declare claim_loop.simps [code]

definition claim_key :: "layout_lib \<Rightarrow> string \<Rightarrow> entry \<Rightarrow> claims \<Rightarrow> (unit + claims) option" where
  "claim_key lib key e st = claim_loop lib key e st key 1"

subsection \<open>The plan\<close>

text \<open>The textures of a container are counted once per object of a resource.\<close>

definition count_texture ::
  "layout_lib \<Rightarrow> layout_options \<Rightarrow> output_record \<Rightarrow> (string \<times> int) set \<times> (string \<rightharpoonup> nat \<times> bool)
   \<Rightarrow> (string \<times> int) set \<times> (string \<rightharpoonup> nat \<times> bool)" where
  "count_texture lib opts out = (\<lambda>(seen, tx).
     (case out_object out of
        None \<Rightarrow> (seen, tx)
      | Some obj \<Rightarrow>
          (let identity = (source_file obj, path_id obj) in
           if class_id obj \<noteq> 28 \<or> identity \<in> seen then (seen, tx)
           else
             (insert identity seen,
              (case named_container obj of
                 None \<Rightarrow> tx
               | Some cont \<Rightarrow>
                   (let all = strip_container cont (strip_prefixes opts) in
                    if all = [] then tx
                    else
                      (let key = container_key lib (butlast all) (last all);
                           named_like = is_some_and (\<lambda>n. fix_file_name n = fix_file_name (fst (split_ext (last all)))) (object_name obj);
                           k = fst (unwrap_or (0, False) (tx key)) + 1 in
                       tx(key \<mapsto> (k, k = 1 \<and> named_like)))))))))"

definition count_textures :: "layout_lib \<Rightarrow> layout_options \<Rightarrow> resource_report list \<Rightarrow> string \<rightharpoonup> nat \<times> bool" where
  "count_textures lib opts rs =
     fold (\<lambda>r tx. snd (fold (count_texture lib opts) (res_outputs r) ({}, tx)))
       (filter (\<lambda>r. res_errors r = []) rs) (\<lambda>_. None)"

text \<open>The keys of one output: a primary one, and one more for every further cue of a track.\<close>

definition output_keys ::
  "layout_lib \<Rightarrow> layout_options \<Rightarrow> resource_report \<Rightarrow> output_record \<Rightarrow> name_context
   \<Rightarrow> string list list \<times> name_context" where
  "output_keys lib opts res out cx =
     (case out_object out of
        Some obj \<Rightarrow>
          (let (base, cx') = unity_key lib opts res out obj cx in
           if CHR ''/'' \<in> set (out_path out) then
             (let file = output_file out;
                  names = unwrap_or [first_dot file] (acb_track lib res out) in
              (map (\<lambda>n. stem_last base @ [join_ext n (after_dot [] file)]) names, cx'))
           else ([base], cx'))
      | None \<Rightarrow>
          (case acb_track lib res out of
             Some names \<Rightarrow> (map (\<lambda>n. cri_key res out (Some n)) names, cx)
           | None \<Rightarrow> ([cri_key res out None], cx)))"

definition output_aliases :: "output_record \<Rightarrow> string list list \<Rightarrow> string list list" where
  "output_aliases out keys = (if out_kind out = ''cue_metadata'' then take 1 keys else keys)"

definition make_entry :: "resource_report \<Rightarrow> output_record \<Rightarrow> entry" where
  "make_entry res out =
     \<lparr>en_path = [], en_local = output_directory res @ ''/'' @ out_path out, en_bytes = out_bytes out,
      en_sha256 = out_sha256 out, en_content_type = [], en_source = res_source res, en_kind = out_kind out,
      en_class_id = map_option class_id (out_object out),
      en_container = Option.bind (out_object out) container, en_name = Option.bind (out_object out) object_name\<rparr>"

definition final_key :: "layout_lib \<Rightarrow> layout_options \<Rightarrow> string list \<Rightarrow> string" where
  "final_key lib opts parts =
     (let key = join_on ''/'' parts in if lowercase_keys opts then lowercase lib key else key)"

text \<open>An error \<open>None\<close> is a panic.\<close>

fun claim_all ::
  "layout_lib \<Rightarrow> layout_options \<Rightarrow> entry \<Rightarrow> string list list \<Rightarrow> claims \<Rightarrow> (error option + claims) option" where
  "claim_all lib opts e [] st = Some (Inr st)"
| "claim_all lib opts e (parts # more_parts) st =
     (let key = final_key lib opts parts in
      if \<not> valid_key key then Some (Inl (Some error.Verification))
      else
        (case claim_key lib key e st of
           None \<Rightarrow> None
         | Some (Inl u) \<Rightarrow> Some (Inl None)
         | Some (Inr st') \<Rightarrow> claim_all lib opts e more_parts st'))"

fun plan_outputs ::
  "layout_lib \<Rightarrow> layout_options \<Rightarrow> resource_report \<Rightarrow> output_record list \<Rightarrow> name_context \<times> claims
   \<Rightarrow> (error option + name_context \<times> claims) option" where
  "plan_outputs lib opts res [] (cx, st) = Some (Inr (cx, st))"
| "plan_outputs lib opts res (out # outs) (cx, st) =
     (let (keys, cx') = output_keys lib opts res out cx in
      case claim_all lib opts (make_entry res out) (output_aliases out keys) st of
        None \<Rightarrow> None
      | Some (Inl e) \<Rightarrow> Some (Inl e)
      | Some (Inr st') \<Rightarrow> plan_outputs lib opts res outs (cx', st'))"

fun plan_list ::
  "layout_lib \<Rightarrow> layout_options \<Rightarrow> resource_report list \<Rightarrow> name_context \<times> claims
   \<Rightarrow> (error option + name_context \<times> claims) option" where
  "plan_list lib opts [] x = Some (Inr x)"
| "plan_list lib opts (res # rs) (cx, st) =
     (if res_errors res \<noteq> [] then
        (let p = cl_plan st in
         if max_failed_resources opts \<le> length (failed_sources p) then Some (Inl (Some error.Verification))
         else plan_list lib opts rs (cx, st\<lparr>cl_plan := p\<lparr>failed_sources := failed_sources p @ [res_source res]\<rparr>\<rparr>))
      else
        (case plan_outputs lib opts res (res_outputs res) (cx, st) of
           None \<Rightarrow> None
         | Some (Inl e) \<Rightarrow> Some (Inl e)
         | Some (Inr x) \<Rightarrow> plan_list lib opts rs x))"

definition empty_claims :: claims where
  "empty_claims =
     \<lparr>cl_plan = \<lparr>entries = [], deduplicated = 0, renamed = 0, failed_sources = []\<rparr>,
      claimed = (\<lambda>_. None), lowered = (\<lambda>_. None)\<rparr>"

definition plan_resources ::
  "layout_lib \<Rightarrow> resource_report list \<Rightarrow> layout_options \<Rightarrow> (error option + stable_plan) option" where
  "plan_resources lib rs opts =
     map_option (map_sum id (\<lambda>(cx, st). cl_plan st))
       (plan_list lib opts rs
         (\<lparr>textures = count_textures lib opts rs, unnamed = (\<lambda>_. None), stems = (\<lambda>_. None)\<rparr>, empty_claims))"

text \<open>\<open>plan\<close>: the journal is read line by line. \<open>lines\<close> yields an error for a line that cannot be
  read, the report of a line is the JSON parser's.\<close>

fun read_journal :: "(string \<Rightarrow> resource_report option) \<Rightarrow> (unit + string) list \<Rightarrow> error + resource_report list" where
  "read_journal report [] = Inr []"
| "read_journal report (Inl u # ls) = Inl error.Io"
| "read_journal report (Inr l # ls) =
     (if blank l then read_journal report ls
      else and_then (ok_or error.Verification (report l)) (\<lambda>r. and_then (read_journal report ls) (\<lambda>rs. Inr (r # rs))))"

definition stable_plan_of ::
  "layout_lib \<Rightarrow> (string \<Rightarrow> resource_report option) \<Rightarrow> (unit + string) list option \<Rightarrow> layout_options
   \<Rightarrow> (error option + stable_plan) option" where
  "stable_plan_of lib report journal opts =
     (case and_then (ok_or error.Io journal) (read_journal report) of
        Inl e \<Rightarrow> Some (Inl (Some e))
      | Inr rs \<Rightarrow> plan_resources lib rs opts)"

end
