(* ===== verification/Storage_Config.thy ===== *)
theory Storage_Config
  imports Region Access_Log Stable_Layout
begin

text \<open>
  The settings of a publication (\<open>src/storage.rs\<close>): providers, their layouts and backends, region
  templates, public-read rules and the targets of a publication. The URL parser, the regex compiler, the
  Base64 and the address parser are arguments, and so are the outcomes of the credential sources
  (\<open>src/storage_credentials.rs\<close>, \<open>src/storage_sts.rs\<close>).
\<close>

record storage_lib =
  sl_env :: env
  sl_url :: url_parser
  sl_regex :: regex_compiler
  sl_base64 :: "string \<Rightarrow> nat list option"
  sl_ip :: "string \<Rightarrow> ip option"

record write_options =
  default_acl :: "string option"
  customer_key_env :: "string option"
  checksum_algorithm :: "string option"
  storage_class :: "string option"
  server_side_encryption :: "string option"
  kms_key_id_env :: "string option"

text \<open>\<open>credentials_file\<close> and \<open>assume_role\<close> are the results of reading and validating them.\<close>

record s3_backend =
  credentials_file :: "(error + unit) option"
  assume_role :: "(error + unit) option"
  request_payer :: bool
  endpoint :: string
  s3_write :: write_options
  path_style :: bool
  public_read :: bool
  public_read_include :: "string list"
  public_read_exclude :: "string list"
  bucket :: string
  s3_region :: string
  access_key_id_env :: string
  secret_access_key_env :: string
  session_token_env :: "string option"

datatype backend = Local string | S3 s3_backend

datatype storage_layout = Publication | Stable layout_options

record storage_provider =
  sp_name :: string
  sp_prefix :: string
  public_base_url :: "string option"
  sp_layout :: storage_layout
  sp_backend :: backend

record storage_config =
  providers :: "storage_provider list"
  concurrency :: nat
  sc_attempts :: nat
  object_timeout_seconds :: nat
  retry_delay_ms :: nat
  remove_local_after_upload :: bool

record target =
  tg_name :: string
  tg_prefix :: string
  tg_public_url :: "string option"
  tg_stable :: bool

fun layout_stable :: "storage_layout \<Rightarrow> layout_options option" where
  "layout_stable Publication = None"
| "layout_stable (Stable opts) = Some opts"

subsection \<open>Names and secrets\<close>

definition storage_component :: "string \<Rightarrow> bool" where
  "storage_component s \<longleftrightarrow>
     s \<noteq> [] \<and> length s \<le> 128 \<and> list_all (\<lambda>b. is_ascii_alphanumeric b \<or> b = CHR ''-'' \<or> b = CHR ''_'') s"

definition storage_secret :: "env \<Rightarrow> string \<Rightarrow> error + string" where
  "storage_secret ev n =
     and_then (fail_if (n = [] \<or> 256 < length n \<or> \<not> list_all (\<lambda>b. is_ascii_alphanumeric b \<or> b = CHR ''_'') n) error.Config) (\<lambda>_.
     and_then (ok_or error.Secret (ev n)) (\<lambda>v.
     and_then (fail_if (blank v \<or> 8192 < length v \<or> has_control v) error.Secret) (\<lambda>_. Inr v)))"

text \<open>\<open>s.replace(p, t)\<close> for a nonempty \<open>p\<close>: every occurrence, from left to right.\<close>

function replace_all :: "'a list \<Rightarrow> 'a list \<Rightarrow> 'a list \<Rightarrow> 'a list" where
  "replace_all p t s =
     (if p = [] \<or> s = [] then s
      else (case strip_prefix p s of
          Some rest \<Rightarrow> t @ replace_all p t rest
        | None \<Rightarrow> hd s # replace_all p t (tl s)))"
  by pat_completeness auto
termination
  by (relation "measure (\<lambda>(p, t, s). length s)") (auto simp: strip_prefix_Some)

declare replace_all.simps [simp del]

definition region_template :: "string \<Rightarrow> region \<Rightarrow> error + string" where
  "region_template v rg =
     and_then (fail_if (4096 < length v) error.Config) (\<lambda>_.
     (let resolved = replace_all ''{server}'' (name rg) (replace_all ''{region}'' (name rg) v) in
      and_then (fail_if (CHR 0x7B \<in> set resolved \<or> CHR 0x7D \<in> set resolved) error.Config) (\<lambda>_. Inr resolved)))"

subsection \<open>Write options and public reading\<close>

definition customer_key :: "storage_lib \<Rightarrow> write_options \<Rightarrow> error + nat list option" where
  "customer_key lib o1 =
     (case customer_key_env o1 of
        None \<Rightarrow> Inr None
      | Some n \<Rightarrow>
          and_then (fail_if (server_side_encryption o1 \<noteq> None \<or> kms_key_id_env o1 \<noteq> None) error.Config) (\<lambda>_.
          and_then (storage_secret (sl_env lib) n) (\<lambda>v.
          and_then (ok_or error.Config (sl_base64 lib v)) (\<lambda>b.
          and_then (fail_if (length b \<noteq> 32) error.Config) (\<lambda>_. Inr (Some b))))))"

definition acl_names :: "string list" where
  "acl_names = [''private'', ''public-read'', ''public-read-write'', ''authenticated-read'', ''aws-exec-read'',
     ''bucket-owner-read'', ''bucket-owner-full-control'']"

definition write_validate :: "storage_lib \<Rightarrow> write_options \<Rightarrow> error + unit" where
  "write_validate lib o1 =
     and_then (fail_if (is_some_and (\<lambda>v. v \<notin> set acl_names) (default_acl o1)) error.Config) (\<lambda>_.
     and_then (customer_key lib o1) (\<lambda>_.
     and_then (fail_if (is_some_and (\<lambda>s. s \<noteq> ''crc32c'') (checksum_algorithm o1)) error.Config) (\<lambda>_.
     and_then (fail_if
       (is_some_and (\<lambda>v. v = [] \<or> 64 < length v
            \<or> \<not> list_all (\<lambda>b. is_ascii_uppercase b \<or> is_ascii_digit b \<or> b = CHR ''_'') v) (storage_class o1)
        \<or> is_some_and (\<lambda>v. v \<notin> {''AES256'', ''aws:kms''}) (server_side_encryption o1)
        \<or> (kms_key_id_env o1 \<noteq> None \<and> server_side_encryption o1 \<noteq> Some ''aws:kms'')) error.Config) (\<lambda>_.
     (case kms_key_id_env o1 of
        None \<Rightarrow> Inr ()
      | Some n \<Rightarrow>
          and_then (storage_secret (sl_env lib) n) (\<lambda>v.
          fail_if (2048 < length v
            \<or> \<not> list_all (\<lambda>b. 33 \<le> (of_char b :: nat) \<and> of_char b \<le> (126 :: nat)) v) error.Config))))))"

definition public_acl :: "write_options \<Rightarrow> string option" where
  "public_acl o1 =
     (case default_acl o1 of
        Some v \<Rightarrow> if v \<in> {''public-read'', ''public-read-write''} then Some v else None
      | None \<Rightarrow> None)"

definition acl_rules :: "storage_lib \<Rightarrow> string list \<Rightarrow> error + (string \<Rightarrow> bool) list" where
  "acl_rules lib patterns =
     and_then (fail_if (128 < length patterns) error.Config) (\<lambda>_.
     collect_results (\<lambda>p. if blank p \<or> 4096 < length p then Inl error.Config else ok_or error.Config (sl_regex lib p)) patterns)"

record public_policy =
  pp_all :: bool
  pp_include :: "(string \<Rightarrow> bool) list"
  pp_exclude :: "(string \<Rightarrow> bool) list"

definition policy_matches :: "public_policy \<Rightarrow> string \<Rightarrow> bool" where
  "policy_matches p path \<longleftrightarrow>
     (pp_all p \<or> list_ex (\<lambda>m. m path) (pp_include p)) \<and> \<not> list_ex (\<lambda>m. m path) (pp_exclude p)"

definition public_read_policy :: "storage_lib \<Rightarrow> storage_provider \<Rightarrow> error + public_policy" where
  "public_read_policy lib p =
     (case sp_backend p of
        S3 b \<Rightarrow>
          and_then (acl_rules lib (public_read_include b)) (\<lambda>i.
          and_then (acl_rules lib (public_read_exclude b)) (\<lambda>e.
          Inr \<lparr>pp_all = public_read b \<or> public_acl (s3_write b) \<noteq> None, pp_include = i, pp_exclude = e\<rparr>))
      | Local _ \<Rightarrow> Inr \<lparr>pp_all = False, pp_include = [], pp_exclude = []\<rparr>)"

subsection \<open>Backends\<close>

definition is_loopback :: "ip \<Rightarrow> bool" where
  "is_loopback a = (case a of V4 v \<Rightarrow> drop_bit 24 v = 127 | V6 v \<Rightarrow> v = 1)"

definition trim_brackets :: "string \<Rightarrow> string" where
  "trim_brackets s =
     (let p = (\<lambda>c. c \<in> set ''[]'') in dropWhile p (rev (dropWhile p (rev s))))"

definition endpoint_rejected :: "storage_lib \<Rightarrow> s3_backend \<Rightarrow> url \<Rightarrow> bool" where
  "endpoint_rejected lib b u \<longleftrightarrow>
     (let address = Option.bind (host_str u) (\<lambda>h. sl_ip lib (trim_brackets h));
          loopback = is_some_and is_loopback address in
      2048 < length (endpoint b) \<or> has_whitespace (endpoint b) \<or> CHR 0x5C \<in> set (endpoint b)
      \<or> \<not> (scheme u = ''https'' \<or> (scheme u = ''http'' \<and> loopback))
      \<or> host_str u = None \<or> username u \<noteq> [] \<or> password u \<noteq> None \<or> query u \<noteq> None \<or> fragment u \<noteq> None
      \<or> url_path u \<noteq> ''/''
      \<or> (\<not> path_style b \<and> (CHR ''.'' \<in> set (bucket b) \<or> address \<noteq> None))
      \<or> bucket b = [] \<or> 63 < length (bucket b)
      \<or> \<not> list_all (\<lambda>c. is_ascii_lowercase c \<or> is_ascii_digit c \<or> c = CHR ''-'' \<or> c = CHR ''.'') (bucket b)
      \<or> \<not> storage_component (s3_region b))"

definition validate_backend :: "storage_lib \<Rightarrow> backend \<Rightarrow> error + unit" where
  "validate_backend lib be =
     (case be of
        Local directory \<Rightarrow> fail_if (directory = []) error.Config
      | S3 b \<Rightarrow>
          and_then (write_validate lib (s3_write b)) (\<lambda>_.
          and_then (case assume_role b of None \<Rightarrow> Inr () | Some r \<Rightarrow> r) (\<lambda>_.
          and_then (ok_or error.Config (sl_url lib (endpoint b))) (\<lambda>u.
          and_then (fail_if (endpoint_rejected lib b u) error.Config) (\<lambda>_.
          (case credentials_file b of
             Some file \<Rightarrow>
               and_then (fail_if (access_key_id_env b \<noteq> [] \<or> secret_access_key_env b \<noteq> [] \<or> session_token_env b \<noteq> None)
                 error.Config) (\<lambda>_. file)
           | None \<Rightarrow>
               and_then (storage_secret (sl_env lib) (access_key_id_env b)) (\<lambda>_.
               and_then (storage_secret (sl_env lib) (secret_access_key_env b)) (\<lambda>_.
               (case session_token_env b of
                  None \<Rightarrow> Inr ()
                | Some n \<Rightarrow> and_then (storage_secret (sl_env lib) n) (\<lambda>_. Inr ()))))))))))"

subsection \<open>Providers\<close>

definition provider_resolved :: "region \<Rightarrow> storage_provider \<Rightarrow> error + storage_provider" where
  "provider_resolved rg p =
     and_then (region_template (sp_prefix p) rg) (\<lambda>pre.
     and_then (case public_base_url p of
         None \<Rightarrow> Inr None | Some u \<Rightarrow> and_then (region_template u rg) (\<lambda>v. Inr (Some v))) (\<lambda>base.
     and_then (case sp_backend p of
         Local d \<Rightarrow> and_then (region_template d rg) (\<lambda>v. Inr (Local v))
       | S3 b \<Rightarrow>
           and_then (region_template (bucket b) rg) (\<lambda>bu.
           and_then (region_template (endpoint b) rg) (\<lambda>en.
           Inr (S3 (b\<lparr>bucket := bu, endpoint := en\<rparr>))))) (\<lambda>be.
     Inr (p\<lparr>sp_prefix := pre, public_base_url := base, sp_backend := be\<rparr>))))"

definition public_base :: "storage_lib \<Rightarrow> storage_provider \<Rightarrow> error + url option" where
  "public_base lib p =
     (case public_base_url p of
        None \<Rightarrow> Inr None
      | Some v \<Rightarrow>
          and_then (ok_or error.Config (sl_url lib v)) (\<lambda>u.
          and_then (fail_if (2048 < length v \<or> has_whitespace v \<or> CHR 0x5C \<in> set v \<or> scheme u \<noteq> ''https''
              \<or> host_str u = None \<or> username u \<noteq> [] \<or> password u \<noteq> None \<or> query u \<noteq> None \<or> fragment u \<noteq> None)
            error.Config) (\<lambda>_. Inr (Some u))))"

text \<open>\<open>join_url\<close> is the URL library's joining of path segments.\<close>

definition provider_target ::
  "storage_lib \<Rightarrow> (url \<Rightarrow> string list \<Rightarrow> string) \<Rightarrow> region \<Rightarrow> string \<Rightarrow> storage_provider \<Rightarrow> error + target" where
  "provider_target lib join_url rg uid p =
     (let stable = (layout_stable (sp_layout p) \<noteq> None);
          pre = (if stable then sp_prefix p else sp_prefix p @ ''/'' @ name rg @ ''/publications/'' @ uid) in
      and_then (public_base lib p) (\<lambda>base.
      Inr \<lparr>tg_name = sp_name p, tg_prefix = pre,
        tg_public_url = map_option (\<lambda>u. join_url u (split_on (CHR ''/'') pre @ [[]])) base, tg_stable = stable\<rparr>))"

subsection \<open>The configuration\<close>

definition storage_resolved :: "region \<Rightarrow> storage_config \<Rightarrow> error + storage_config" where
  "storage_resolved rg c =
     and_then (fail_if (rg = Cn) error.ReservedRegion) (\<lambda>_.
     and_then (collect_results (provider_resolved rg) (providers c)) (\<lambda>ps. Inr (c\<lparr>providers := ps\<rparr>)))"

fun validate_providers :: "storage_lib \<Rightarrow> string list \<Rightarrow> storage_provider list \<Rightarrow> error + unit" where
  "validate_providers lib names [] = Inr ()"
| "validate_providers lib names (p # ps) =
     and_then (public_read_policy lib p) (\<lambda>_.
     and_then (public_base lib p) (\<lambda>_.
     and_then (fail_if (\<not> storage_component (sp_name p) \<or> sp_name p \<in> set names \<or> 512 < length (sp_prefix p)
         \<or> \<not> list_all storage_component (split_on (CHR ''/'') (sp_prefix p))) error.Config) (\<lambda>_.
     and_then (validate_backend lib (sp_backend p)) (\<lambda>_.
     and_then (case layout_stable (sp_layout p) of None \<Rightarrow> Inr () | Some o1 \<Rightarrow> layout_validate o1) (\<lambda>_.
     validate_providers lib (sp_name p # names) ps)))))"

definition validate_resolved :: "storage_lib \<Rightarrow> storage_config \<Rightarrow> error + unit" where
  "validate_resolved lib c =
     and_then (fail_if (providers c = [] \<or> 16 < length (providers c)
         \<or> \<not> (1 \<le> concurrency c \<and> concurrency c \<le> 32) \<or> \<not> (1 \<le> sc_attempts c \<and> sc_attempts c \<le> 8)
         \<or> \<not> (1 \<le> object_timeout_seconds c \<and> object_timeout_seconds c \<le> 3600)
         \<or> \<not> (1 \<le> retry_delay_ms c \<and> retry_delay_ms c \<le> 10000)) error.Config) (\<lambda>_.
     validate_providers lib [] (providers c))"

fun validate_regions :: "storage_lib \<Rightarrow> storage_config \<Rightarrow> region list \<Rightarrow> error + unit" where
  "validate_regions lib c [] = Inr ()"
| "validate_regions lib c (rg # rgs) =
     and_then (storage_resolved rg c) (\<lambda>r. and_then (validate_resolved lib r) (\<lambda>_. validate_regions lib c rgs))"

definition storage_validate :: "storage_lib \<Rightarrow> storage_config \<Rightarrow> error + unit" where
  "storage_validate lib c = validate_regions lib c [Jp, Hk, En, Kr]"

text \<open>\<open>min\<close> over the providers, 0 without any.\<close>

definition storage_max_failed :: "storage_config \<Rightarrow> nat" where
  "storage_max_failed c =
     (case map (\<lambda>p. case layout_stable (sp_layout p) of None \<Rightarrow> 0 | Some o1 \<Rightarrow> max_failed_resources o1) (providers c) of
        [] \<Rightarrow> 0
      | n # ns \<Rightarrow> foldl min n ns)"

definition storage_plan ::
  "storage_lib \<Rightarrow> (url \<Rightarrow> string list \<Rightarrow> string) \<Rightarrow> string \<Rightarrow> region \<Rightarrow> storage_config \<Rightarrow> error + target list" where
  "storage_plan lib join_url uid rg c =
     and_then (fail_if (rg = Cn) error.ReservedRegion) (\<lambda>_.
     and_then (storage_resolved rg c) (\<lambda>r.
     and_then (validate_resolved lib r) (\<lambda>_.
     collect_results (provider_target lib join_url rg uid) (providers r))))"

text \<open>Seconds of an object attempt: one timeout for every started 64 MiB, saturating.\<close>

definition attempt_seconds :: "storage_config \<Rightarrow> u64 \<Rightarrow> nat" where
  "attempt_seconds c n = min (object_timeout_seconds c * (1 + unat n div (64 * 1024 * 1024))) (2 ^ 64 - 1)"

subsection \<open>Validated configurations\<close>

lemma collect_results_total:
  "(\<And>x. x \<in> set xs \<Longrightarrow> \<exists>y. f x = Inr y) \<Longrightarrow> \<exists>ys. collect_results f xs = Inr ys"
proof (induction xs)
  case (Cons x xs)
  then obtain y ys where "f x = Inr y" "collect_results f xs = Inr ys" by fastforce
  then show ?case by simp
qed simp

lemma validate_providers_Inr:
  "validate_providers lib names ps = Inr () \<Longrightarrow>
     distinct (map sp_name ps) \<and> set names \<inter> sp_name ` set ps = {}
     \<and> (\<forall>p\<in>set ps. (\<exists>b. public_base lib p = Inr b) \<and> (\<exists>pol. public_read_policy lib p = Inr pol)
          \<and> list_all storage_component (split_on (CHR ''/'') (sp_prefix p)))"
proof (induction ps arbitrary: names)
  case (Cons p ps)
  then have rest: "validate_providers lib (sp_name p # names) ps = Inr ()" and "sp_name p \<notin> set names"
    "list_all storage_component (split_on (CHR ''/'') (sp_prefix p))"
    "\<exists>b. public_base lib p = Inr b" "\<exists>pol. public_read_policy lib p = Inr pol"
    by (auto simp: result_simps)
  with Cons.IH[OF rest] show ?case by auto
qed simp

lemma storage_validate_region:
  assumes "storage_validate lib c = Inr ()" and "rg \<noteq> Cn"
  obtains r where "storage_resolved rg c = Inr r" "validate_resolved lib r = Inr ()"
  using assms by (cases rg) (auto simp: storage_validate_def result_simps)

text \<open>A storage configuration that validates serves every operational region: in the same
  environment, planning a publication cannot fail for any of them, there is one target per provider under
  distinct names, and every target's prefix is made of plain components, followed for an immutable layout
  by the region and the publication's own directory.\<close>

theorem storage_validation_covers_regions:
  assumes "storage_validate lib c = Inr ()" and "rg \<noteq> Cn"
  shows "\<exists>ts. storage_plan lib join_url uid rg c = Inr ts \<and> length ts = length (providers c)
    \<and> distinct (map tg_name ts)
    \<and> (\<forall>t\<in>set ts. \<exists>pre. list_all storage_component (split_on (CHR ''/'') pre)
         \<and> tg_prefix t = (if tg_stable t then pre else pre @ ''/'' @ name rg @ ''/publications/'' @ uid))"
proof -
  obtain r where r: "storage_resolved rg c = Inr r" "validate_resolved lib r = Inr ()"
    using storage_validate_region[OF assms] .
  have v: "distinct (map sp_name (providers r))" "\<And>p. p \<in> set (providers r) \<Longrightarrow> \<exists>b. public_base lib p = Inr b"
    "\<And>p. p \<in> set (providers r) \<Longrightarrow> list_all storage_component (split_on (CHR ''/'') (sp_prefix p))"
    using r(2) validate_providers_Inr[of lib "[]" "providers r"] by (auto simp: validate_resolved_def result_simps)
  have "\<exists>t. provider_target lib join_url rg uid p = Inr t" if "p \<in> set (providers r)" for p
    using v(2)[OF that] by (auto simp: provider_target_def Let_def)
  then obtain ts where ts: "collect_results (provider_target lib join_url rg uid) (providers r) = Inr ts"
    using collect_results_total by blast
  then have l: "list_all2 (\<lambda>p t. provider_target lib join_url rg uid p = Inr t) (providers r) ts"
    by (simp add: collect_results_Inr)
  have t: "tg_name t = sp_name p \<and> tg_prefix t = (if tg_stable t then sp_prefix p
        else sp_prefix p @ ''/'' @ name rg @ ''/publications/'' @ uid)"
    if "provider_target lib join_url rg uid p = Inr t" for p t
    using that by (auto simp: provider_target_def Let_def result_simps)
  have "map tg_name ts = map sp_name (providers r)"
    using l t by (induction rule: list_all2_induct) auto
  moreover have "length (providers r) = length (providers c)"
    using r(1) by (auto simp: storage_resolved_def result_simps collect_results_Inr dest: list_all2_lengthD)
  moreover have "\<exists>pre. list_all storage_component (split_on (CHR ''/'') pre)
      \<and> tg_prefix t = (if tg_stable t then pre else pre @ ''/'' @ name rg @ ''/publications/'' @ uid)"
    if t_in: "t \<in> set ts" for t
  proof -
    obtain i where "i < length ts" "t = ts ! i" using t_in by (metis in_set_conv_nth)
    then have "provider_target lib join_url rg uid (providers r ! i) = Inr t" "providers r ! i \<in> set (providers r)"
      using list_all2_nthD2[OF l] list_all2_lengthD[OF l] by auto
    with t v(3) show ?thesis by blast
  qed
  ultimately show ?thesis
    using r ts assms(2) v(1) list_all2_lengthD[OF l] by (simp add: storage_plan_def)
qed

definition example_storage :: storage_config where
  "example_storage =
     \<lparr>providers = [\<lparr>sp_name = ''disk'', sp_prefix = ''assets/{region}'', public_base_url = None,
        sp_layout = Stable layout_default, sp_backend = Local ''/srv''\<rparr>],
      concurrency = 4, sc_attempts = 3, object_timeout_seconds = 300, retry_delay_ms = 500,
      remove_local_after_upload = False\<rparr>"

definition example_storage_lib :: storage_lib where
  "example_storage_lib =
     \<lparr>sl_env = (\<lambda>_. None), sl_url = (\<lambda>_. None), sl_regex = (\<lambda>_. None), sl_base64 = (\<lambda>_. None), sl_ip = (\<lambda>_. None)\<rparr>"

lemma example_storage_valid: "is_ok (storage_validate example_storage_lib example_storage)"
  by code_simp

theorem storage_validation_covers_regions_witness:
  "\<exists>ts. storage_plan example_storage_lib (\<lambda>_ _. []) ''u1'' Kr example_storage = Inr ts \<and> length ts = 1"
proof -
  have "storage_validate example_storage_lib example_storage = Inr ()"
    using example_storage_valid by (simp add: is_ok_iff)
  from storage_validation_covers_regions[OF this, of Kr "\<lambda>_ _. []" "''u1''"] show ?thesis
    by (auto simp: example_storage_def)
qed

end
