(* ===== verification/Config_Source.thy ===== *)
theory Config_Source
  imports Config_Override Storage_Config Safe_Paths
begin

text \<open>
  Where the download configuration comes from (\<open>src/config_source.rs\<close>): a local file, or an object in
  a store named by a URI and set up by typed bootstrap variables, decided by the environment alone and
  fetched as one bounded object. The decoder of the bootstrap document, paths of the operating system
  and the object store are arguments.
\<close>

subsection \<open>Settings\<close>

definition URI_ENV :: string where "URI_ENV = ''SIRIUS_ASSET_CONFIG_URI''"
definition PATH_ENV :: string where "PATH_ENV = ''SIRIUS_ASSET_CONFIG_PATH''"
definition DEFAULT_PATH :: string where "DEFAULT_PATH = ''sirius-asset-config.yaml''"
definition MAX_BYTES :: nat where "MAX_BYTES = 1048576"
definition URI_PREFIX :: string where "URI_PREFIX = ''opendal://''"
definition MAX_URI_BYTES :: nat where "MAX_URI_BYTES = 2048"
definition MAX_KEY_BYTES :: nat where "MAX_KEY_BYTES = 1024"

record s3_source =
  src_endpoint :: string
  src_bucket :: string
  src_region :: string
  src_path_style :: bool
  src_request_payer :: bool
  src_credentials_file :: "(error + unit) option"
  src_assume_role :: "(error + unit) option"
  src_access_key_id_env :: string
  src_secret_access_key_env :: string
  src_session_token_env :: "string option"

record source =
  timeout_seconds :: nat
  fs_root :: "string option"
  s3_source :: "s3_source option"

datatype scheme = Fs | S3Scheme

record remote_source =
  rem_key :: string
  rem_source :: source
  rem_scheme :: scheme

datatype config_location = LocalFile string | RemoteObject remote_source

definition default_write_options :: write_options where
  "default_write_options = \<lparr>default_acl = None, customer_key_env = None, checksum_algorithm = None,
     storage_class = None, server_side_encryption = None, kms_key_id_env = None\<rparr>"

definition source_backend :: "s3_source \<Rightarrow> backend" where
  "source_backend s = S3
     \<lparr>credentials_file = src_credentials_file s, assume_role = src_assume_role s,
      request_payer = src_request_payer s, endpoint = src_endpoint s, s3_write = default_write_options,
      path_style = src_path_style s, public_read = False, public_read_include = [], public_read_exclude = [],
      bucket = src_bucket s, s3_region = src_region s, access_key_id_env = src_access_key_id_env s,
      secret_access_key_env = src_secret_access_key_env s, session_token_env = src_session_token_env s\<rparr>"

subsection \<open>Locating\<close>

definition uri_rejected :: "string \<Rightarrow> bool" where
  "uri_rejected uri \<longleftrightarrow>
     MAX_URI_BYTES < length uri
     \<or> \<not> list_all (\<lambda>b. 0x21 \<le> (of_char b :: nat) \<and> of_char b \<le> (0x7e :: nat)) uri
     \<or> list_ex (\<lambda>c. c \<in> set ''?#%@'' \<or> c = CHR 0x5C) uri"

definition key_rejected :: "string \<Rightarrow> bool" where
  "key_rejected key \<longleftrightarrow>
     MAX_KEY_BYTES < length key
     \<or> list_ex (\<lambda>s. s = [] \<or> s = ''.'' \<or> s = ''..'' \<or> 255 < length s) (split_on (CHR ''/'') key)"

definition parse_scheme :: "string \<Rightarrow> scheme option" where
  "parse_scheme s = (if s = ''fs'' then Some Fs else if s = ''s3'' then Some S3Scheme else None)"

definition parse_uri :: "string \<Rightarrow> error + scheme \<times> string" where
  "parse_uri uri =
     and_then (fail_if (uri_rejected uri) error.Config) (\<lambda>_.
     and_then (ok_or error.Config (strip_prefix URI_PREFIX uri)) (\<lambda>rest.
     and_then (ok_or error.Config (split_once ''/'' rest)) (\<lambda>(s, key).
     and_then (ok_or error.Config (parse_scheme s)) (\<lambda>sch.
     and_then (fail_if (key_rejected key) error.Config) (\<lambda>_. Inr (sch, key))))))"

text \<open>
  The library of \<open>locate\<close>: YAML parser, decoder of the bootstrap document, and what the operating
  system says of a directory (absolute, valid text, no parent component).
\<close>

record 's source_lib =
  so_yaml :: "string \<Rightarrow> 's yaml option"
  so_decode :: "'s yaml \<Rightarrow> source option"
  so_root_ok :: "string \<Rightarrow> bool"
  so_storage :: storage_lib

definition source_valid :: "'s source_lib \<Rightarrow> scheme \<Rightarrow> source \<Rightarrow> error + unit" where
  "source_valid lib sch src =
     (case (sch, fs_root src, s3_source src) of
        (Fs, Some d, None) \<Rightarrow> fail_if (\<not> so_root_ok lib d) error.Config
      | (S3Scheme, None, Some s) \<Rightarrow> validate_backend (so_storage lib) (source_backend s)
      | _ \<Rightarrow> Inl error.Config)"

definition configured_uri :: "(string \<times> string) list \<Rightarrow> string option" where
  "configured_uri vars =
     (case map_of vars URI_ENV of
        None \<Rightarrow> None
      | Some v \<Rightarrow> if trim v = [] then None else Some (trim v))"

definition bootstrap_set :: "(string \<times> string) list \<Rightarrow> bool" where
  "bootstrap_set vars \<longleftrightarrow> list_ex (\<lambda>(k, _). starts_with k (document_prefix ConfigSource)) vars"

definition locate_config :: "'s source_lib \<Rightarrow> (string \<times> string) list \<Rightarrow> error + config_location" where
  "locate_config lib vars =
     (case configured_uri vars of
        None \<Rightarrow>
          if bootstrap_set vars then Inl error.Config
          else Inr (LocalFile (unwrap_or DEFAULT_PATH (map_of vars PATH_ENV)))
      | Some uri \<Rightarrow>
          and_then (fail_if (map_of vars PATH_ENV \<noteq> None) error.Config) (\<lambda>_.
          and_then (parse_uri uri) (\<lambda>(sch, key).
          and_then (apply_overrides (so_yaml lib) (YMapping []) ConfigSource vars) (\<lambda>doc.
          and_then (ok_or error.Config (so_decode lib doc)) (\<lambda>src.
          and_then (fail_if (\<not> (1 \<le> timeout_seconds src \<and> timeout_seconds src \<le> 300)) error.Config) (\<lambda>_.
          and_then (source_valid lib sch src) (\<lambda>_.
          Inr (RemoteObject \<lparr>rem_key = key, rem_source = src, rem_scheme = sch\<rparr>))))))))"

subsection \<open>Fetching\<close>

text \<open>
  One fetch: whether the deadline passes first, whether the operator can be built, what the store says
  of the object (\<open>Inl\<close> a failure, true if temporary; otherwise whether it is a file, and its length) and
  what a read of a range returns.
\<close>

record config_fetch =
  cg_timed_out :: bool
  cg_operator :: "error + unit"
  cg_stat :: "bool + bool \<times> nat"
  cg_read :: "nat \<Rightarrow> bool + byte list"

definition source_error :: "bool \<Rightarrow> error" where
  "source_error temporary = (if temporary then error.Transport else error.RemoteConfig)"

definition store_result :: "bool + 'a \<Rightarrow> error + 'a" where
  "store_result r = (case r of Inl t \<Rightarrow> Inl (source_error t) | Inr x \<Rightarrow> Inr x)"

lemma store_result_Inr [result_simps]: "store_result r = Inr x \<longleftrightarrow> r = Inr x"
  by (cases r) (simp_all add: store_result_def)

definition fetch_config :: "(byte list \<Rightarrow> string option) \<Rightarrow> config_fetch \<Rightarrow> error + string" where
  "fetch_config utf8 w =
     and_then (fail_if (cg_timed_out w) error.Transport) (\<lambda>_.
     and_then (cg_operator w) (\<lambda>_.
     and_then (store_result (cg_stat w)) (\<lambda>(is_file, n).
     and_then (fail_if (\<not> is_file) error.RemoteConfig) (\<lambda>_.
     and_then (fail_if (MAX_BYTES < n) error.Size) (\<lambda>_.
     and_then (fail_if (n = 0) error.Config) (\<lambda>_.
     and_then (store_result (cg_read w n)) (\<lambda>bytes.
     and_then (fail_if (length bytes \<noteq> n) error.RemoteConfig) (\<lambda>_.
     ok_or error.Config (utf8 bytes)))))))))"

definition read_config ::
  "'s source_lib \<Rightarrow> (byte list \<Rightarrow> string option) \<Rightarrow> (string \<Rightarrow> string option) \<Rightarrow> (remote_source \<Rightarrow> config_fetch)
   \<Rightarrow> (string \<times> string) list \<Rightarrow> error + string" where
  "read_config lib utf8 files fetches vars =
     and_then (locate_config lib vars) (\<lambda>l.
     (case l of
        LocalFile p \<Rightarrow> ok_or error.Config (files p)
      | RemoteObject rs \<Rightarrow> fetch_config utf8 (fetches rs)))"

subsection \<open>No silent fallback\<close>

lemma parse_uri_key:
  assumes "parse_uri uri = Inr (sch, key)"
  shows "uri = URI_PREFIX @ (case sch of Fs \<Rightarrow> ''fs'' | S3Scheme \<Rightarrow> ''s3'') @ ''/'' @ key"
    and "list_all proper_name (split_on (CHR ''/'') key)" and "length key \<le> MAX_KEY_BYTES"
proof -
  from assms obtain rest s where rest: "strip_prefix URI_PREFIX uri = Some rest" and s: "split_once ''/'' rest = Some (s, key)"
    and sch: "parse_scheme s = Some sch" and key: "\<not> key_rejected key"
    by (auto simp: parse_uri_def result_simps)
  from rest s sch show "uri = URI_PREFIX @ (case sch of Fs \<Rightarrow> ''fs'' | S3Scheme \<Rightarrow> ''s3'') @ ''/'' @ key"
    by (auto simp: strip_prefix_Some parse_scheme_def dest!: split_once_Some split: if_splits)
  from key show "list_all proper_name (split_on (CHR ''/'') key)" "length key \<le> MAX_KEY_BYTES"
    by (auto simp: key_rejected_def proper_name_def list_all_iff list_ex_iff)
qed

lemma fetch_config_Inr:
  "fetch_config utf8 w = Inr s \<Longrightarrow>
     \<exists>n bytes. cg_stat w = Inr (True, n) \<and> cg_read w n = Inr bytes \<and> length bytes = n \<and> 0 < n \<and> n \<le> MAX_BYTES
       \<and> utf8 bytes = Some s"
  by (auto simp: fetch_config_def result_simps)

text \<open>C38. A half-configured remote source never falls back to a local file: a local file is read only when
  no URI is set, no bootstrap variable exists, and it is the configured path or the default. Otherwise the
  result comes from the object the URI names, whose key stays below the root of the store, with a time
  limit of at most 300 seconds and only one of the two backends set; the text is exactly one object of the
  stated length, neither empty nor above one MiB.\<close>

theorem config_source_never_falls_back:
  assumes "read_config lib utf8 files fetches vars = Inr txt"
  shows "(\<forall>p. locate_config lib vars = Inr (LocalFile p) \<longrightarrow>
        configured_uri vars = None \<and> \<not> bootstrap_set vars \<and> p = unwrap_or DEFAULT_PATH (map_of vars PATH_ENV)
        \<and> files p = Some txt)
    \<and> (\<forall>rs. locate_config lib vars = Inr (RemoteObject rs) \<longrightarrow>
        map_of vars PATH_ENV = None
        \<and> configured_uri vars = Some (URI_PREFIX @ (case rem_scheme rs of Fs \<Rightarrow> ''fs'' | S3Scheme \<Rightarrow> ''s3'') @ ''/'' @ rem_key rs)
        \<and> walk [] (split_on (CHR ''/'') (rem_key rs)) = Some (split_on (CHR ''/'') (rem_key rs))
        \<and> timeout_seconds (rem_source rs) \<in> {1..300}
        \<and> (fs_root (rem_source rs) = None) \<noteq> (s3_source (rem_source rs) = None)
        \<and> (\<exists>n bytes. cg_stat (fetches rs) = Inr (True, n) \<and> cg_read (fetches rs) n = Inr bytes
            \<and> length bytes = n \<and> n \<in> {1..MAX_BYTES} \<and> utf8 bytes = Some txt))"
proof (intro conjI allI impI)
  fix p assume "locate_config lib vars = Inr (LocalFile p)"
  with assms show "configured_uri vars = None" "\<not> bootstrap_set vars" "p = unwrap_or DEFAULT_PATH (map_of vars PATH_ENV)"
    "files p = Some txt"
    by (auto simp: locate_config_def read_config_def result_simps split: option.splits if_splits)
next
  fix rs assume loc: "locate_config lib vars = Inr (RemoteObject rs)"
  then obtain uri where uri: "configured_uri vars = Some uri" and path: "map_of vars PATH_ENV = None"
    and parsed: "parse_uri uri = Inr (rem_scheme rs, rem_key rs)"
    and limit: "timeout_seconds (rem_source rs) \<in> {1..300}"
    and valid: "source_valid lib (rem_scheme rs) (rem_source rs) = Inr ()"
    by (auto simp: locate_config_def result_simps split: option.splits if_splits)
  show "map_of vars PATH_ENV = None" "timeout_seconds (rem_source rs) \<in> {1..300}" by (fact path limit)+
  from uri parse_uri_key(1)[OF parsed]
  show "configured_uri vars = Some (URI_PREFIX @ (case rem_scheme rs of Fs \<Rightarrow> ''fs'' | S3Scheme \<Rightarrow> ''s3'') @ ''/'' @ rem_key rs)"
    by simp
  from walk_proper[OF parse_uri_key(2)[OF parsed], of "[]"]
  show "walk [] (split_on (CHR ''/'') (rem_key rs)) = Some (split_on (CHR ''/'') (rem_key rs))" by simp
  from valid show "(fs_root (rem_source rs) = None) \<noteq> (s3_source (rem_source rs) = None)"
    by (auto simp: source_valid_def split: scheme.splits option.splits)
  from assms loc have "fetch_config utf8 (fetches rs) = Inr txt" by (simp add: read_config_def)
  from fetch_config_Inr[OF this]
  show "\<exists>n bytes. cg_stat (fetches rs) = Inr (True, n) \<and> cg_read (fetches rs) n = Inr bytes
      \<and> length bytes = n \<and> n \<in> {1..MAX_BYTES} \<and> utf8 bytes = Some txt"
    by (elim exE conjE) (simp add: Suc_le_eq)
qed

definition demo_source_lib :: "unit source_lib" where
  "demo_source_lib = \<lparr>so_yaml = (\<lambda>_. None),
     so_decode = (\<lambda>doc. Some \<lparr>timeout_seconds = 30, fs_root =
        (case get_path doc [Key ''fs'', Key ''root''] of Some (YString d) \<Rightarrow> Some d | _ \<Rightarrow> None), s3_source = None\<rparr>),
     so_root_ok = (\<lambda>d. d = ''/etc''),
     so_storage = \<lparr>sl_env = (\<lambda>_. None), sl_url = (\<lambda>_. None), sl_regex = (\<lambda>_. None), sl_base64 = (\<lambda>_. None), sl_ip = (\<lambda>_. None)\<rparr>\<rparr>"

definition demo_config_vars :: "(string \<times> string) list" where
  "demo_config_vars = [(''SIRIUS_ASSET_CONFIG_URI'', ''opendal://fs/a/b.yaml''), (''HOME'', ''/''),
     (''SIRIUS_ASSET_CONFIG_SOURCE__FS__ROOT'', ''/etc'')]"

definition demo_config_fetch :: config_fetch where
  "demo_config_fetch = \<lparr>cg_timed_out = False, cg_operator = Inr (), cg_stat = Inr (True, 2), cg_read = (\<lambda>n. Inr (replicate n 97))\<rparr>"

definition demo_remote :: remote_source where
  "demo_remote = \<lparr>rem_key = ''a/b.yaml'', rem_source = \<lparr>timeout_seconds = 30, fs_root = Some ''/etc'', s3_source = None\<rparr>, rem_scheme = Fs\<rparr>"

lemma source_bounds_code [code_unfold]:
  "MAX_URI_BYTES < k \<longleftrightarrow> 2048 < int k"
  "MAX_KEY_BYTES < k \<longleftrightarrow> 1024 < int k"
  "MAX_BYTES < k \<longleftrightarrow> 1048576 < int k"
  "255 < k \<longleftrightarrow> 255 < int k"
  by (auto simp: MAX_URI_BYTES_def MAX_KEY_BYTES_def MAX_BYTES_def)

lemma demo_locate: "locate_config demo_source_lib demo_config_vars = Inr (RemoteObject demo_remote)"
  by code_simp

lemma demo_read:
  "read_config demo_source_lib (\<lambda>bs. if bs = [97, 97] then Some ''aa'' else None) (\<lambda>_. None) (\<lambda>_. demo_config_fetch) demo_config_vars = Inr ''aa''"
  unfolding read_config_def demo_locate by code_simp

theorem config_source_never_falls_back_witness:
  "locate_config demo_source_lib demo_config_vars = Inr (RemoteObject demo_remote)
    \<and> map_of demo_config_vars PATH_ENV = None \<and> timeout_seconds (rem_source demo_remote) \<in> {1..300}"
  using config_source_never_falls_back[OF demo_read] demo_locate by blast

end
