(* ===== verification/Storage_Credentials.thy ===== *)
theory Storage_Credentials
  imports Storage_Config Bounded_Transfer
begin

text \<open>
  Credentials of object stores: shared credential files (\<open>src/storage_credentials.rs\<close>) and assumed
  roles with their bounded transport (\<open>src/storage_sts.rs\<close>). Time is counted in seconds; parsing a
  time stamp, decoding UTF-8 and the rules of the token service for a grant are third-party code and
  arguments. The validation results of the two kinds are what \<open>validate_backend\<close> takes.
\<close>

subsection \<open>Parsing a shared credential file\<close>

definition credential_keys :: "string list" where
  "credential_keys = [''aws_access_key_id'', ''aws_secret_access_key'', ''aws_session_token'', ''expiration'']"

text \<open>\<open>str::lines\<close>; a carriage return at the end of a line is trimmed later.\<close>

definition text_lines :: "string \<Rightarrow> string list" where
  "text_lines s = (let ls = split_on (CHR 0x0A) s in if last ls = [] then butlast ls else ls)"

record profile_state =
  pr_selected :: bool
  pr_found :: bool
  pr_values :: "(string \<times> string) list"

definition header_name :: "string \<Rightarrow> string option" where
  "header_name l = map_option trim (Option.bind (strip_prefix ''['' l) (strip_suffix '']''))"

definition names_profile :: "string \<Rightarrow> string \<Rightarrow> bool" where
  "names_profile profile n \<longleftrightarrow> n = profile \<or> strip_prefix ''profile '' n = Some profile"

definition credential_line :: "string \<Rightarrow> string \<Rightarrow> profile_state \<Rightarrow> error + profile_state" where
  "credential_line profile line s =
     (let l = trim line in
      if l = [] \<or> hd l = CHR ''#'' \<or> hd l = CHR '';'' then Inr s
      else if hd l = CHR ''['' then
        and_then (ok_or error.Secret (header_name l)) (\<lambda>n.
        (let sel = names_profile profile n in
         if sel \<and> pr_found s then Inl error.Secret
         else Inr (s\<lparr>pr_selected := sel, pr_found := pr_found s \<or> sel\<rparr>)))
      else if \<not> pr_selected s then Inr s
      else
        and_then (ok_or error.Secret (split_once ''='' l)) (\<lambda>(k, v).
        (let key = trim k in
         if key \<notin> set credential_keys \<or> map_of (pr_values s) key \<noteq> None then Inl error.Secret
         else Inr (s\<lparr>pr_values := bt_insert key (trim v) (pr_values s)\<rparr>))))"

fun credential_lines :: "string \<Rightarrow> string list \<Rightarrow> profile_state \<Rightarrow> error + profile_state" where
  "credential_lines profile [] s = Inr s"
| "credential_lines profile (l # ls) s = and_then (credential_line profile l s) (credential_lines profile ls)"

definition profile_start :: profile_state where
  "profile_start = \<lparr>pr_selected = False, pr_found = False, pr_values = []\<rparr>"

definition parse_credentials :: "string \<Rightarrow> string \<Rightarrow> error + (string \<times> string) list" where
  "parse_credentials content profile =
     and_then (credential_lines profile (text_lines content) profile_start) (\<lambda>s.
     and_then (fail_if (\<not> pr_found s) error.Secret) (\<lambda>_. Inr (pr_values s)))"

subsection \<open>Reading it\<close>

record credentials_config =
  cc_path :: string
  cc_profile :: string
  cc_refresh :: nat

record credential =
  access_key :: string
  secret_key :: string
  session_token :: "string option"
  expires_in :: int

text \<open>What the file system shows at the path: \<open>None\<close> where a call fails. \<open>cf_bytes\<close> is the content.\<close>

record credential_file =
  cf_symlink :: "bool option"
  cf_opens :: bool
  cf_regular :: "bool option"
  cf_size :: nat
  cf_mode :: "32 word"
  cf_bytes :: "byte list option"

record credential_lib =
  cl_utf8 :: "byte list \<Rightarrow> string option"
  cl_timestamp :: "string \<Rightarrow> int option"

definition credential_value_ok :: "string \<Rightarrow> bool" where
  "credential_value_ok v \<longleftrightarrow> v \<noteq> [] \<and> length v \<le> 8192 \<and> \<not> has_control v"

definition read_credentials ::
  "credential_lib \<Rightarrow> credential_file \<Rightarrow> int \<Rightarrow> credentials_config \<Rightarrow> error + credential" where
  "read_credentials lib f now c =
     and_then (fail_if (cc_path c = [] \<or> cc_profile c = [] \<or> 128 < length (cc_profile c)
         \<or> has_control (cc_profile c) \<or> CHR ''['' \<in> set (cc_profile c) \<or> CHR '']'' \<in> set (cc_profile c)
         \<or> \<not> (1 \<le> cc_refresh c \<and> cc_refresh c \<le> 3600)) error.Config) (\<lambda>_.
     and_then (ok_or error.Secret (cf_symlink f)) (\<lambda>link.
     and_then (fail_if (link \<or> \<not> cf_opens f) error.Secret) (\<lambda>_.
     and_then (ok_or error.Secret (cf_regular f)) (\<lambda>regular.
     and_then (fail_if (\<not> regular \<or> 65536 < cf_size f) error.Secret) (\<lambda>_.
     and_then (fail_if (take_bit 6 (cf_mode f) \<noteq> 0) error.Secret) (\<lambda>_.
     and_then (ok_or error.Secret (cf_bytes f)) (\<lambda>bytes.
     and_then (fail_if (65536 < length (take 65537 bytes)) error.Secret) (\<lambda>_.
     and_then (ok_or error.Secret (cl_utf8 lib (take 65537 bytes))) (\<lambda>content.
     and_then (parse_credentials content (cc_profile c)) (\<lambda>kv.
     and_then (ok_or error.Secret (map_of kv ''aws_access_key_id'')) (\<lambda>a.
     and_then (ok_or error.Secret (map_of kv ''aws_secret_access_key'')) (\<lambda>s.
     (let token = map_of kv ''aws_session_token'' in
      and_then (fail_if (\<not> credential_value_ok a \<or> \<not> credential_value_ok s
          \<or> is_some_and (\<lambda>t. \<not> credential_value_ok t) token) error.Secret) (\<lambda>_.
      (let limit = now + int (cc_refresh c) + 120 in
       and_then (case map_of kv ''expiration'' of
           None \<Rightarrow> Inr limit
         | Some v \<Rightarrow>
             and_then (ok_or error.Secret (cl_timestamp lib v)) (\<lambda>actual.
             and_then (fail_if (actual \<le> now) error.Secret) (\<lambda>_. Inr (min limit actual)))) (\<lambda>expires.
       Inr \<lparr>access_key = a, secret_key = s, session_token = token, expires_in = expires\<rparr>))))))))))))))))"

subsection \<open>Assumed roles\<close>

record sts_config =
  role_arn :: string
  sts_region :: string
  session_name :: string
  external_id_env :: "string option"
  duration_seconds :: nat

definition sts_host :: "sts_config \<Rightarrow> error + string" where
  "sts_host c =
     (if sts_region c = [] \<or> 64 < length (sts_region c)
         \<or> \<not> list_all (\<lambda>b. is_ascii_lowercase b \<or> is_ascii_digit b \<or> b = CHR ''-'') (sts_region c)
      then Inl error.Config
      else if starts_with (sts_region c) ''cn-'' then Inr (''sts.'' @ sts_region c @ ''.amazonaws.com.cn'')
      else if starts_with (sts_region c) ''us-gov-'' \<or> starts_with (role_arn c) ''arn:aws:''
      then Inr (''sts.'' @ sts_region c @ ''.amazonaws.com'')
      else Inl error.Config)"

text \<open>\<open>grant_ok\<close> is the token service library's check of a grant: role, session, external id, region.\<close>

definition sts_validate ::
  "env \<Rightarrow> (string \<Rightarrow> string \<Rightarrow> string option \<Rightarrow> string \<Rightarrow> bool) \<Rightarrow> sts_config \<Rightarrow> error + unit" where
  "sts_validate e grant_ok c =
     and_then (sts_host c) (\<lambda>_.
     and_then (fail_if (\<not> (900 \<le> duration_seconds c \<and> duration_seconds c \<le> 43200)) error.Config) (\<lambda>_.
     and_then (case external_id_env c of
         None \<Rightarrow> Inr None
       | Some n \<Rightarrow> and_then (storage_secret e n) (\<lambda>v. Inr (Some v))) (\<lambda>ext.
     fail_if (\<not> grant_ok (role_arn c) (session_name c) ext (sts_region c)) error.Config)))"

datatype http_method = GET | POST | OtherMethod

record sts_request =
  rq_scheme :: "string option"
  rq_authority :: "string option"
  rq_method :: http_method
  rq_body :: "byte list"

definition sts_request_ok :: "string \<Rightarrow> sts_request \<Rightarrow> bool" where
  "sts_request_ok host q \<longleftrightarrow>
     rq_scheme q = Some ''https'' \<and> rq_authority q = Some host \<and> rq_method q \<noteq> OtherMethod \<and> length (rq_body q) \<le> 65536"

text \<open>The transport; every failure is the same error, the response is \<open>None\<close> when sending fails.\<close>

definition sts_send :: "string \<Rightarrow> response option \<Rightarrow> sts_request \<Rightarrow> unit + byte list" where
  "sts_send host resp q =
     (if \<not> sts_request_ok host q then Inl ()
      else (case resp of
          None \<Rightarrow> Inl ()
        | Some r \<Rightarrow>
            if http_code r \<noteq> 200 \<or> is_some_and (\<lambda>n. 65536 < n) (content_length r) then Inl ()
            else (case collect_chunks 65536 (broken r) (chunks r) [] of Inl _ \<Rightarrow> Inl () | Inr bs \<Rightarrow> Inr bs)))"

subsection \<open>What a profile yields\<close>

text \<open>A line that leaves the parser where it is: blank, a comment, or ordinary outside the profile.\<close>

definition header_line :: "string \<Rightarrow> bool" where
  "header_line l \<longleftrightarrow> trim l \<noteq> [] \<and> hd (trim l) = CHR ''[''"

definition header_of :: "string \<Rightarrow> string \<Rightarrow> bool" where
  "header_of profile l \<longleftrightarrow> header_line l \<and> is_some_and (names_profile profile) (header_name (trim l))"

definition other_line :: "string \<Rightarrow> string \<Rightarrow> bool" where
  "other_line profile l \<longleftrightarrow>
     header_line l \<longrightarrow> is_some_and (\<lambda>n. \<not> names_profile profile n) (header_name (trim l))"

fun section_pairs :: "string list \<Rightarrow> (string \<times> string) list option" where
  "section_pairs [] = Some []"
| "section_pairs (l # ls) =
     (let t = trim l in
      if t = [] \<or> hd t = CHR ''#'' \<or> hd t = CHR '';'' then section_pairs ls
      else (case split_once ''='' t of
          None \<Rightarrow> None
        | Some (k, v) \<Rightarrow> map_option (Cons (trim k, trim v)) (section_pairs ls)))"

definition insert_pairs :: "(string \<times> string) list \<Rightarrow> (string \<times> string) list \<Rightarrow> (string \<times> string) list" where
  "insert_pairs kvs m = fold (\<lambda>(k, v). bt_insert k v) kvs m"

lemma insert_pairs_simps [simp]:
  "insert_pairs [] m = m"
  "insert_pairs ((k, v) # kvs) m = insert_pairs kvs (bt_insert k v m)"
  by (simp_all add: insert_pairs_def)

definition pairs_fit :: "(string \<times> string) list \<Rightarrow> (string \<times> string) list \<Rightarrow> bool" where
  "pairs_fit kvs m \<longleftrightarrow>
     distinct (map fst kvs) \<and> fst ` set kvs \<subseteq> set credential_keys \<and> fst ` set kvs \<inter> fst ` set m = {}"

lemma pairs_fit_Cons:
  "pairs_fit ((k, v) # kvs) m \<longleftrightarrow>
     k \<in> set credential_keys \<and> map_of m k = None \<and> pairs_fit kvs (bt_insert k v m)"
  by (auto simp: pairs_fit_def map_of_eq_None_iff)

lemma credential_lines_append:
  "credential_lines p (xs @ ys) s = and_then (credential_lines p xs s) (credential_lines p ys)"
proof (induction xs arbitrary: s)
  case (Cons x xs)
  then have "credential_lines p (xs @ ys) = (\<lambda>s. and_then (credential_lines p xs s) (credential_lines p ys))"
    by (rule ext)
  then show ?case by (simp add: and_then_assoc)
qed simp

lemma credential_line_plain:
  assumes "\<not> header_line l"
  shows "credential_line p l s =
     (let t = trim l in
      if t = [] \<or> hd t = CHR ''#'' \<or> hd t = CHR '';'' \<or> \<not> pr_selected s then Inr s
      else
        and_then (ok_or error.Secret (split_once ''='' t)) (\<lambda>(k, v).
        (let key = trim k in
         if key \<notin> set credential_keys \<or> map_of (pr_values s) key \<noteq> None then Inl error.Secret
         else Inr (s\<lparr>pr_values := bt_insert key (trim v) (pr_values s)\<rparr>))))"
  using assms by (auto simp: credential_line_def header_line_def Let_def)

lemma credential_line_header:
  assumes "header_line l"
  shows "credential_line p l s =
     (case header_name (trim l) of
        None \<Rightarrow> Inl error.Secret
      | Some n \<Rightarrow>
          if names_profile p n \<and> pr_found s then Inl error.Secret
          else Inr (s\<lparr>pr_selected := names_profile p n, pr_found := pr_found s \<or> names_profile p n\<rparr>))"
  using assms by (auto simp: credential_line_def header_line_def Let_def split: option.splits)

text \<open>Inside the profile\<close>

lemma section_result:
  "list_all (\<lambda>l. \<not> header_line l) ls \<Longrightarrow> pr_selected s \<Longrightarrow>
     credential_lines p ls s = Inr s' \<longleftrightarrow>
     (\<exists>kvs. section_pairs ls = Some kvs \<and> pairs_fit kvs (pr_values s)
        \<and> s' = s\<lparr>pr_values := insert_pairs kvs (pr_values s)\<rparr>)"
proof (induction ls arbitrary: s)
  case Nil
  then show ?case by (auto simp: pairs_fit_def)
next
  case (Cons l ls)
  let ?t = "trim l"
  show ?case
  proof (cases "?t = [] \<or> hd ?t = CHR ''#'' \<or> hd ?t = CHR '';''")
    case True
    with Cons show ?thesis by (auto simp: credential_line_plain Let_def)
  next
    case False
    show ?thesis
    proof (cases "split_once ''='' ?t")
      case None
      with Cons False show ?thesis by (auto simp: credential_line_plain Let_def)
    next
      case (Some kv)
      obtain k v where kv: "kv = (k, v)" by (cases kv)
      let ?s = "s\<lparr>pr_values := bt_insert (trim k) (trim v) (pr_values s)\<rparr>"
      have "credential_lines p (l # ls) s = Inr s' \<longleftrightarrow>
          trim k \<in> set credential_keys \<and> map_of (pr_values s) (trim k) = None \<and> credential_lines p ls ?s = Inr s'"
        using Cons.prems False Some kv by (auto simp: credential_line_plain Let_def)
      also have "\<dots> \<longleftrightarrow> (\<exists>kvs. section_pairs ls = Some kvs \<and> pairs_fit ((trim k, trim v) # kvs) (pr_values s)
          \<and> s' = s\<lparr>pr_values := insert_pairs ((trim k, trim v) # kvs) (pr_values s)\<rparr>)"
      proof -
        have "credential_lines p ls ?s = Inr s' \<longleftrightarrow>
            (\<exists>kvs. section_pairs ls = Some kvs \<and> pairs_fit kvs (bt_insert (trim k) (trim v) (pr_values s))
              \<and> s' = s\<lparr>pr_values := insert_pairs kvs (bt_insert (trim k) (trim v) (pr_values s))\<rparr>)"
          using Cons.IH[of ?s] Cons.prems by simp
        then show ?thesis
          by (simp only: pairs_fit_Cons insert_pairs_simps) blast
      qed
      finally have rec: "credential_lines p (l # ls) s = Inr s' \<longleftrightarrow>
          (\<exists>kvs. section_pairs ls = Some kvs \<and> pairs_fit ((trim k, trim v) # kvs) (pr_values s)
            \<and> s' = s\<lparr>pr_values := insert_pairs ((trim k, trim v) # kvs) (pr_values s)\<rparr>)" .
      have "section_pairs (l # ls) = map_option (Cons (trim k, trim v)) (section_pairs ls)"
        using False Some kv by simp
      then show ?thesis
        unfolding rec by (cases "section_pairs ls") simp_all
    qed
  qed
qed

text \<open>Outside\<close>

lemma outside_result:
  "\<not> pr_selected s \<Longrightarrow> pr_found s \<or> list_all (\<lambda>l. \<not> header_of p l) ls \<Longrightarrow>
     credential_lines p ls s = Inr s' \<longleftrightarrow> list_all (other_line p) ls \<and> s' = s"
proof (induction ls arbitrary: s)
  case (Cons l ls)
  have "credential_line p l s = (if other_line p l then Inr s else Inl error.Secret)"
    using Cons.prems
    by (cases "header_line l"; cases s)
      (auto simp: credential_line_plain credential_line_header Let_def other_line_def header_of_def split: option.splits)
  with Cons show ?case by auto
qed auto

lemma after_result:
  assumes "pr_found s" and "ls = [] \<or> header_line (hd ls)"
  shows "(\<exists>s'. credential_lines p ls s = Inr s') \<longleftrightarrow> list_all (other_line p) ls"
    and "credential_lines p ls s = Inr s' \<Longrightarrow> pr_found s' \<and> pr_values s' = pr_values s"
proof -
  have "((\<exists>s'. credential_lines p ls s = Inr s') \<longleftrightarrow> list_all (other_line p) ls)
      \<and> (\<forall>s'. credential_lines p ls s = Inr s' \<longrightarrow> pr_found s' \<and> pr_values s' = pr_values s)"
  proof (cases ls)
    case (Cons l rest)
    have "credential_line p l s = (if other_line p l then Inr (s\<lparr>pr_selected := False\<rparr>) else Inl error.Secret)"
      using assms Cons
      by (cases s) (auto simp: credential_line_header other_line_def split: option.splits)
    moreover have "credential_lines p rest (s\<lparr>pr_selected := False\<rparr>) = Inr s' \<longleftrightarrow>
        list_all (other_line p) rest \<and> s' = s\<lparr>pr_selected := False\<rparr>" for s'
      by (rule outside_result) (use assms in simp_all)
    ultimately show ?thesis using Cons assms by auto
  qed (use assms in auto)
  then show "(\<exists>s'. credential_lines p ls s = Inr s') \<longleftrightarrow> list_all (other_line p) ls"
    and "credential_lines p ls s = Inr s' \<Longrightarrow> pr_found s' \<and> pr_values s' = pr_values s" by auto
qed

lemma before_found:
  assumes "credential_lines p ls s = Inr s'" and "\<not> pr_selected s" and "\<not> pr_found s"
    and "\<not> list_all (\<lambda>l. \<not> header_of p l) ls"
  obtains bef h rest where "ls = bef @ h # rest" "list_all (other_line p) bef" "header_of p h"
    "credential_lines p rest (s\<lparr>pr_selected := True, pr_found := True\<rparr>) = Inr s'"
proof -
  from assms(4) have "\<exists>h\<in>set ls. header_of p h" by (auto simp: list_all_iff)
  then obtain bef h rest where ls: "ls = bef @ h # rest" and h: "header_of p h" and none: "\<forall>l\<in>set bef. \<not> header_of p l"
    by (rule split_list_first_propE)
  from assms(1) ls obtain s1 where s1: "credential_lines p bef s = Inr s1" and rest: "credential_lines p (h # rest) s1 = Inr s'"
    by (auto simp: credential_lines_append result_simps)
  from s1 assms(2) none have "list_all (other_line p) bef" "s1 = s"
    by (simp_all add: outside_result list_all_iff)
  moreover from h assms(3) have "credential_line p h s = Inr (s\<lparr>pr_selected := True, pr_found := True\<rparr>)"
    by (auto simp: header_of_def credential_line_header is_some_and_def split: option.splits)
  ultimately show ?thesis using that ls h rest by simp
qed

text \<open>The profile's section of a file, and nothing else: a reference for the parser.\<close>

definition profile_pairs :: "string \<Rightarrow> string list \<Rightarrow> (string \<times> string) list \<Rightarrow> bool" where
  "profile_pairs p ls kvs \<longleftrightarrow>
     (\<exists>bef h sec aft. ls = bef @ h # sec @ aft \<and> header_of p h
        \<and> list_all (other_line p) bef \<and> list_all (other_line p) aft
        \<and> list_all (\<lambda>l. \<not> header_line l) sec \<and> (aft = [] \<or> header_line (hd aft))
        \<and> section_pairs sec = Some kvs \<and> distinct (map fst kvs) \<and> fst ` set kvs \<subseteq> set credential_keys)"

text \<open>A credential comes from the requested profile and from nowhere else: parsing a file succeeds
  exactly when the profile has one section in it, every other header is well formed, and the section
  consists of blank lines, comments and key-value pairs with allowed keys, none of them twice; the result is
  then the map of these pairs. Whatever other profiles say, a command to run included, has no
  influence.\<close>

theorem credentials_of_one_profile:
  "parse_credentials content p = Inr kv \<longleftrightarrow>
     (\<exists>kvs. profile_pairs p (text_lines content) kvs \<and> kv = bt_of_list kvs)"
proof
  assume "parse_credentials content p = Inr kv"
  then obtain s where s: "credential_lines p (text_lines content) profile_start = Inr s" and found: "pr_found s"
    and kv: "kv = pr_values s"
    by (auto simp: parse_credentials_def result_simps)
  have "\<not> list_all (\<lambda>l. \<not> header_of p l) (text_lines content)"
    using s found outside_result[of profile_start p "text_lines content" s] by (auto simp: profile_start_def)
  from before_found[OF s _ _ this] obtain bef h rest where ls: "text_lines content = bef @ h # rest"
    and bef: "list_all (other_line p) bef" and h: "header_of p h"
    and run: "credential_lines p rest (profile_start\<lparr>pr_selected := True, pr_found := True\<rparr>) = Inr s"
    by (auto simp: profile_start_def)
  let ?sec = "takeWhile (\<lambda>l. \<not> header_line l) rest" and ?aft = "dropWhile (\<lambda>l. \<not> header_line l) rest"
  have split: "rest = ?sec @ ?aft" by simp
  have sec: "list_all (\<lambda>l. \<not> header_line l) ?sec"
    unfolding list_all_iff by (blast dest: set_takeWhileD)
  have aft: "?aft = [] \<or> header_line (hd ?aft)" by (metis hd_dropWhile)
  from run split obtain s1 where s1: "credential_lines p ?sec (profile_start\<lparr>pr_selected := True, pr_found := True\<rparr>) = Inr s1"
    and s2: "credential_lines p ?aft s1 = Inr s"
    by (metis (no_types, lifting) credential_lines_append and_then_Inr)
  from s1 sec obtain kvs where kvs: "section_pairs ?sec = Some kvs" "pairs_fit kvs []"
    and "s1 = profile_start\<lparr>pr_selected := True, pr_found := True, pr_values := insert_pairs kvs []\<rparr>"
    by (auto simp: section_result profile_start_def)
  with after_result[of s1 ?aft p] aft s2 have "list_all (other_line p) ?aft" "pr_values s = insert_pairs kvs []"
    by (auto simp: profile_start_def)
  moreover have "insert_pairs kvs [] = bt_of_list kvs"
    by (simp add: insert_pairs_def bt_of_list_def)
  ultimately show "\<exists>kvs. profile_pairs p (text_lines content) kvs \<and> kv = bt_of_list kvs"
    using ls bef h sec aft kvs kv unfolding profile_pairs_def pairs_fit_def
    by (intro exI[of _ kvs] conjI exI[of _ bef] exI[of _ h] exI[of _ ?sec] exI[of _ ?aft]) simp_all
next
  assume "\<exists>kvs. profile_pairs p (text_lines content) kvs \<and> kv = bt_of_list kvs"
  then obtain kvs where kv: "kv = bt_of_list kvs" and "profile_pairs p (text_lines content) kvs" by blast
  then obtain bef h sec aft where ls: "text_lines content = bef @ h # sec @ aft"
    and h: "header_of p h" and bef: "list_all (other_line p) bef" and aft: "list_all (other_line p) aft"
    and sec: "list_all (\<lambda>l. \<not> header_line l) sec" and hd: "aft = [] \<or> header_line (hd aft)"
    and kvs: "section_pairs sec = Some kvs" "distinct (map fst kvs)" "fst ` set kvs \<subseteq> set credential_keys"
    unfolding profile_pairs_def by blast
  let ?s = "profile_start\<lparr>pr_selected := True, pr_found := True\<rparr>"
  have "list_all (\<lambda>l. \<not> header_of p l) bef"
    using bef by (auto simp: list_all_iff other_line_def header_of_def is_some_and_def split: option.splits)
  with bef have 1: "credential_lines p bef profile_start = Inr profile_start"
    by (simp add: outside_result profile_start_def)
  have 2: "credential_line p h profile_start = Inr ?s"
    using h by (auto simp: header_of_def credential_line_header profile_start_def is_some_and_def split: option.splits)
  let ?s1 = "?s\<lparr>pr_values := insert_pairs kvs []\<rparr>"
  have 3: "credential_lines p sec ?s = Inr ?s1"
    using sec kvs by (simp add: section_result pairs_fit_def profile_start_def)
  from after_result[of ?s1 aft p] hd aft obtain s' where 4: "credential_lines p aft ?s1 = Inr s'"
    and "pr_found s'" "pr_values s' = insert_pairs kvs []"
    by (auto simp: profile_start_def)
  with 1 2 3 show "parse_credentials content p = Inr kv"
    by (simp add: parse_credentials_def ls credential_lines_append kv insert_pairs_def bt_of_list_def)
qed

end
