(* ===== verification/Export_Config.thy ===== *)
theory Export_Config
  imports Output_Policy Admission App_Log Network
begin

text \<open>
  The settings and the summary of an export (\<open>src/export.rs\<close>), with the rest of its options
  (\<open>src/export_options.rs\<close>) and the choice of the encoding backend (\<open>src/media_backend.rs\<close>). The Unity
  library's class numbers, the regex compiler, the runtime of the encoder library and the log's checks of
  header names and networks are arguments.
\<close>

subsection \<open>Options\<close>

datatype container_mode = Decode | Preserve

record cri_export =
  cri_acb :: container_mode
  cri_usm :: container_mode

definition cri_default :: cri_export where
  "cri_default = \<lparr>cri_acb = Decode, cri_usm = Decode\<rparr>"

definition cri_full :: "cri_export \<Rightarrow> bool" where
  "cri_full c \<longleftrightarrow> cri_acb c = Decode \<and> cri_usm c = Decode"

record media_retry =
  mr_attempts :: nat
  mr_delay_ms :: u64
  mr_max_delay_ms :: u64

definition media_retry_default :: media_retry where
  "media_retry_default = \<lparr>mr_attempts = 1, mr_delay_ms = 1000, mr_max_delay_ms = 4000\<rparr>"

definition media_retry_validate :: "media_retry \<Rightarrow> error + unit" where
  "media_retry_validate r =
     fail_if (\<not> (1 \<le> mr_attempts r \<and> mr_attempts r \<le> 8) \<or> 60000 < mr_delay_ms r \<or> 60000 < mr_max_delay_ms r
       \<or> mr_max_delay_ms r < mr_delay_ms r) error.Config"

definition media_delay :: "media_retry \<Rightarrow> nat \<Rightarrow> u64" where
  "media_delay r n =
     min (saturating_mul (mr_delay_ms r) (unwrap_or (- 1) (checked_shl_one (n mod 2 ^ 32)))) (mr_max_delay_ms r)"

datatype video_export = SourceOnly | Mkv | Mp4 | MkvAndMp4

datatype media_backend = Cli | Ffi | AutoBackend

text \<open>\<open>runtime\<close> is the identity of the encoder library: \<open>None\<close> in a build without it, \<open>Some None\<close> when it
  cannot be loaded.\<close>

definition backend_validate :: "string option option \<Rightarrow> media_backend \<Rightarrow> error + unit" where
  "backend_validate runtime b =
     (if b = Ffi then (case runtime of Some (Some _) \<Rightarrow> Inr () | _ \<Rightarrow> Inl error.Config) else Inr ())"

definition backend_identity :: "string option option \<Rightarrow> media_backend \<Rightarrow> string" where
  "backend_identity runtime b =
     (if b = Cli then ''cli''
      else (case runtime of
          None \<Rightarrow> ''cli-only-build''
        | Some None \<Rightarrow> ''ffi-unavailable''
        | Some (Some v) \<Rightarrow> v))"

subsection \<open>Settings\<close>

record export_config =
  xc_logging :: "app_log_config option"
  xc_input :: string
  xc_paths :: "string list"
  xc_selection :: export_selection
  xc_read_kinds :: read_policy
  xc_cri :: cri_export
  xc_raw_bundles :: "raw_config option"
  xc_image :: "image_export list"
  xc_audio :: "audio_export list"
  xc_video :: video_export
  xc_backend :: media_backend
  xc_output :: string
  xc_retain_outputs :: bool
  xc_cache_directory :: "string option"
  xc_cache_revision :: string
  xc_cache_max_bytes :: "u64 option"
  xc_cache_max_entries :: "nat option"
  xc_cri_key_env :: string
  xc_split_acb_xor_env :: "string option"
  xc_concurrency :: nat
  xc_cpu :: cpu_policy
  xc_cpus :: nat
  xc_stage_limits :: stage_config
  xc_in_flight :: u64
  xc_media_concurrency :: nat
  xc_media_timeout :: u64
  xc_media_retry :: media_retry
  xc_ffmpeg :: string
  xc_max_output :: u64

record export_lib =
  el_header :: "string \<Rightarrow> string option"
  el_net :: "string \<Rightarrow> (ip \<Rightarrow> bool) option"
  el_regex :: regex_compiler
  el_classes :: unity_classes
  el_runtime :: "string option option"
  el_env :: env

definition default_media_concurrency :: nat where "default_media_concurrency = 2"
definition default_media_timeout :: u64 where "default_media_timeout = 120"
definition default_workers :: nat where "default_workers = 4"
definition default_max_output :: u64 where "default_max_output = 2 * 1024 * 1024 * 1024"

definition raw_only :: "export_config \<Rightarrow> bool" where
  "raw_only c \<longleftrightarrow> is_some_and (\<lambda>r. raw_mode r = Only) (xc_raw_bundles c)"

definition image_formats_validate :: "image_export list \<Rightarrow> error + unit" where
  "image_formats_validate fs = and_then (collect_results image_validate fs) (\<lambda>_. Inr ())"

definition cache_settings_rejected :: "export_config \<Rightarrow> bool" where
  "cache_settings_rejected c \<longleftrightarrow>
     (xc_cache_directory c \<noteq> None \<and> \<not> xc_retain_outputs c)
     \<or> xc_cache_directory c = Some []
     \<or> xc_cache_max_bytes c = Some 0
     \<or> is_some_and (\<lambda>n. n = 0 \<or> 1000000 < n) (xc_cache_max_entries c)
     \<or> (xc_cache_directory c = None \<and> (xc_cache_max_bytes c \<noteq> None \<or> xc_cache_max_entries c \<noteq> None))
     \<or> 256 < length (xc_cache_revision c)
     \<or> (xc_cache_directory c = None \<and> xc_cache_revision c \<noteq> [])"

definition export_validate :: "export_lib \<Rightarrow> export_config \<Rightarrow> error + unit" where
  "export_validate lib c =
     and_then (case xc_logging c of
         None \<Rightarrow> Inr ()
       | Some l \<Rightarrow> (case app_log_validate (el_header lib) (el_net lib) l of Inl _ \<Rightarrow> Inl error.Config | Inr _ \<Rightarrow> Inr ())) (\<lambda>_.
     and_then (fail_if (\<not> raw_only c \<and> (xc_cri_key_env c = [] \<or> xc_ffmpeg c = [])) error.Config) (\<lambda>_.
     and_then (cpu_validate (xc_cpu c)) (\<lambda>_.
     and_then (stage_validate (xc_stage_limits c)) (\<lambda>_.
     and_then (export_selection_validate (xc_selection c)) (\<lambda>_.
     and_then (read_policy_validate (el_classes lib) (xc_read_kinds c)) (\<lambda>_.
     and_then (backend_validate (el_runtime lib) (xc_backend c)) (\<lambda>_.
     and_then (media_retry_validate (xc_media_retry c)) (\<lambda>_.
     and_then (image_formats_validate (xc_image c)) (\<lambda>_.
     and_then (case xc_raw_bundles c of None \<Rightarrow> Inr () | Some r \<Rightarrow> raw_validate (el_regex lib) r) (\<lambda>_.
     and_then (fail_if (cache_settings_rejected c) error.Config) (\<lambda>_.
     fail_if (\<not> (1 \<le> xc_media_timeout c \<and> xc_media_timeout c \<le> 3600)
       \<or> \<not> (1 \<le> xc_concurrency c \<and> xc_concurrency c \<le> 64)
       \<or> \<not> (1 \<le> xc_media_concurrency c \<and> xc_media_concurrency c \<le> 4)
       \<or> xc_max_output c = 0
       \<or> 16 * 1024 * 1024 * 1024 < xc_max_output c) error.Config)))))))))))"

text \<open>\<open>str::parse::<u64>\<close> has the range of \<open>usize\<close>.\<close>

definition secrets_ready :: "env \<Rightarrow> export_config \<Rightarrow> bool" where
  "secrets_ready e c \<longleftrightarrow>
     (raw_only c \<or> is_some_and (\<lambda>v. parse_usize v \<noteq> None) (e (xc_cri_key_env c)))
     \<and> (case xc_split_acb_xor_env c of
          None \<Rightarrow> True
        | Some n \<Rightarrow> if xc_cache_directory c \<noteq> None \<or> \<not> raw_only c then e n \<noteq> None else True)"

text \<open>The key that \<open>run_controlled\<close> reads before it starts.\<close>

definition export_key :: "env \<Rightarrow> export_config \<Rightarrow> error + nat" where
  "export_key e c =
     (if raw_only c then Inr 0
      else
        and_then (ok_or error.Secret (e (xc_cri_key_env c))) (\<lambda>v. ok_or error.Secret (parse_usize v)))"

definition effective_stage_limits :: "export_config \<Rightarrow> error + stage_config" where
  "effective_stage_limits c = effective (xc_stage_limits c) (xc_cpu c) (xc_cpus c)"

subsection \<open>The summary\<close>

record export_summary =
  sm_full_catalog :: bool
  sm_full_export :: bool
  sm_selection :: export_selection
  sm_read_kinds :: read_policy
  sm_cri :: cri_export
  sm_raw_bundles :: "raw_config option"
  sm_image :: "image_export list"
  sm_audio :: "audio_export list"
  sm_video :: video_export
  sm_backend :: media_backend
  sm_selected :: nat
  sm_skipped :: nat
  sm_schema :: nat
  sm_region :: region
  sm_platform :: string
  sm_complete :: bool
  sm_input_files :: nat
  sm_catalog_files :: nat
  sm_objects :: nat
  sm_catalog_sha256 :: string
  sm_cache_hits :: nat
  sm_succeeded :: nat
  sm_failed :: nat
  sm_output_files :: nat
  sm_output_bytes :: nat
  sm_payloads :: "(string \<times> nat) list"
  sm_retained :: bool

text \<open>\<open>*payloads.entry(kind).or_default() += 1\<close>\<close>

definition count_kind :: "string \<Rightarrow> (string \<times> nat) list \<Rightarrow> (string \<times> nat) list" where
  "count_kind k m = bt_insert k (unwrap_or 0 (map_of m k) + 1) m"

subsection \<open>Facts\<close>

lemma media_delay_is_retry_delay:
  "media_delay r n = delay \<lparr>attempts = a, delay_ms = mr_delay_ms r, max_delay_ms = mr_max_delay_ms r\<rparr> n"
  by (simp add: media_delay_def delay_def)

lemma secrets_ready_key: "secrets_ready e c \<Longrightarrow> \<exists>k. export_key e c = Inr k"
  by (auto simp: secrets_ready_def export_key_def is_some_and_def result_simps split: option.splits)

lemma raw_only_config: "raw_only c \<longleftrightarrow> (\<exists>r. xc_raw_bundles c = Some r \<and> raw_mode r = Only)"
  by (cases "xc_raw_bundles c") (simp_all add: raw_only_def)

end
