(* ===== verification/Object_Store.thy ===== *)
theory Object_Store
  imports Stable_Names Bounded_Transfer
begin

text \<open>
  Writing one object of a publication (\<open>src/storage.rs\<close>): \<open>upload\<close>, \<open>upload_once\<close>,
  \<open>write_small\<close> and \<open>check_remote\<close>. The store behind \<open>opendal::Operator\<close> is a map from keys to
  objects; a write takes effect when it is closed, and a read returns what is stored. What can go
  wrong is an input: every step of an attempt may end in an error of the file system, of the store
  (\<open>Error::Transport\<close> when temporary, \<open>Error::Storage\<close> otherwise), of the deadline
  (\<open>Error::Transport\<close>) or of a cancellation, and a close that reports an error may or may not have
  stored the object.
\<close>

record stored_object =
  so_content :: "byte list"
  so_type :: string
  so_public :: bool

type_synonym object_store = "string \<rightharpoonup> stored_object"

text \<open>One attempt: the wait for the upload permit, the metadata of the source (a regular file? its
  length), opening the writer, the results of \<open>read\<close>, the \<open>n\<close>-th write, the close (stored, error), the
  read-back, and whether the pause after the attempt is cancelled.\<close>

record attempt =
  at_gate :: "error option"
  at_meta :: "error + bool \<times> nat"
  at_open :: "error option"
  at_reads :: "(error + byte list) list"
  at_write :: "nat \<Rightarrow> error option"
  at_stored :: bool
  at_close :: "error option"
  at_check :: "error option"
  at_pause_cancelled :: bool

text \<open>\<open>export_verify::Object\<close>\<close>

record upload_object =
  uo_path :: string
  uo_bytes :: u64
  uo_sha256 :: string

definition check_remote :: "crypto \<Rightarrow> error option \<Rightarrow> object_store \<Rightarrow> string \<Rightarrow> nat \<Rightarrow> string \<Rightarrow> error + unit" where
  "check_remote cr err r key n hash =
     (case err of
        Some e \<Rightarrow> Inl e
      | None \<Rightarrow>
          and_then (ok_or error.Storage (r key)) (\<lambda>x.
          and_then (fail_if (length (so_content x) \<noteq> n) error.Verification) (\<lambda>_.
          fail_if (hex_encode cr (sha256 cr (so_content x)) \<noteq> hash) error.Verification)))"

text \<open>The copy loop; an empty read is the end of the file.\<close>

fun copy_parts :: "nat \<Rightarrow> (nat \<Rightarrow> error option) \<Rightarrow> nat \<Rightarrow> (error + byte list) list \<Rightarrow> byte list \<Rightarrow> error + byte list" where
  "copy_parts limit wr n [] acc = Inr acc"
| "copy_parts limit wr n (Inl e # ps) acc = Inl e"
| "copy_parts limit wr n (Inr p # ps) acc =
     (if p = [] then Inr acc
      else if limit < length (acc @ p) then Inl error.Verification
      else (case wr n of Some e \<Rightarrow> Inl e | None \<Rightarrow> copy_parts limit wr (n + 1) ps (acc @ p)))"

text \<open>Closing the writer and reading back.\<close>

definition close_and_check ::
  "crypto \<Rightarrow> attempt \<Rightarrow> string \<Rightarrow> stored_object \<Rightarrow> nat \<Rightarrow> string \<Rightarrow> object_store \<Rightarrow> (error + unit) \<times> object_store" where
  "close_and_check cr a key x n hash r =
     (case at_close a of
        Some e \<Rightarrow> (Inl e, if at_stored a then r(key \<mapsto> x) else r)
      | None \<Rightarrow> (check_remote cr (at_check a) (r(key \<mapsto> x)) key n hash, r(key \<mapsto> x)))"

definition upload_once ::
  "crypto \<Rightarrow> attempt \<Rightarrow> bool \<Rightarrow> string \<Rightarrow> upload_object \<Rightarrow> object_store \<Rightarrow> (error + unit) \<times> object_store" where
  "upload_once cr a public key obj r =
     (case at_gate a of
        Some e \<Rightarrow> (Inl e, r)
      | None \<Rightarrow>
          (case at_meta a of
             Inl e \<Rightarrow> (Inl e, r)
           | Inr (regular, len) \<Rightarrow>
               if \<not> regular \<or> len \<noteq> unat (uo_bytes obj) then (Inl error.Verification, r)
               else
                 (case at_open a of
                    Some e \<Rightarrow> (Inl e, r)
                  | None \<Rightarrow>
                      (case copy_parts (unat (uo_bytes obj)) (at_write a) 0 (at_reads a) [] of
                         Inl e \<Rightarrow> (Inl e, r)
                       | Inr c \<Rightarrow>
                           if length c \<noteq> unat (uo_bytes obj) \<or> hex_encode cr (sha256 cr c) \<noteq> uo_sha256 obj
                           then (Inl error.Verification, r)
                           else close_and_check cr a key \<lparr>so_content = c, so_type = content_type key, so_public = public\<rparr>
                             (unat (uo_bytes obj)) (uo_sha256 obj) r))))"

definition WRITE_CHUNK :: nat where
  "WRITE_CHUNK = 8 * 1024 * 1024"

text \<open>\<open>write_small\<close>: above the chunk size as a multipart write, otherwise as one request.\<close>

definition first_error :: "(nat \<Rightarrow> error option) \<Rightarrow> nat \<Rightarrow> error option" where
  "first_error wr n = find_map wr [0..<n]"

definition small_once ::
  "crypto \<Rightarrow> attempt \<Rightarrow> bool \<Rightarrow> string \<Rightarrow> byte list \<Rightarrow> object_store \<Rightarrow> (error + unit) \<times> object_store" where
  "small_once cr a public key bytes r =
     (case at_gate a of
        Some e \<Rightarrow> (Inl e, r)
      | None \<Rightarrow>
          (case (if WRITE_CHUNK < length bytes then
                   (case at_open a of
                      Some e \<Rightarrow> Some e
                    | None \<Rightarrow> first_error (at_write a) ((length bytes + WRITE_CHUNK - 1) div WRITE_CHUNK))
                 else None) of
             Some e \<Rightarrow> (Inl e, r)
           | None \<Rightarrow> close_and_check cr a key \<lparr>so_content = bytes, so_type = content_type key, so_public = public\<rparr>
               (length bytes) (hex_encode cr (sha256 cr bytes)) r))"

text \<open>The retry loop of both: only temporary failures are tried again, until the attempts are used up.\<close>

fun store_attempts ::
  "(attempt \<Rightarrow> object_store \<Rightarrow> (error + unit) \<times> object_store) \<Rightarrow> (nat \<Rightarrow> attempt) \<Rightarrow> nat \<Rightarrow> nat list \<Rightarrow> object_store
   \<Rightarrow> (error + unit) \<times> object_store" where
  "store_attempts once ats n [] r = (Inl error.Storage, r)"
| "store_attempts once ats n (i # is) r =
     (case once (ats i) r of
        (res, r') \<Rightarrow>
          if res = Inl error.Transport \<and> i + 1 < n then
            (if at_pause_cancelled (ats i) then (Inl error.Cancelled, r') else store_attempts once ats n is r')
          else (res, r'))"

text \<open>The pause: \<open>(retry_delay_ms * (1 << attempt)).min(30_000)\<close> in 64 bits.\<close>

definition retry_pause :: "u64 \<Rightarrow> nat \<Rightarrow> u64" where
  "retry_pause base i = min (base * push_bit i 1) 30000"

definition upload ::
  "crypto \<Rightarrow> nat \<Rightarrow> (nat \<Rightarrow> attempt) \<Rightarrow> bool \<Rightarrow> string \<Rightarrow> upload_object \<Rightarrow> object_store \<Rightarrow> (error + unit) \<times> object_store" where
  "upload cr n ats public key obj r =
     store_attempts (\<lambda>a. upload_once cr a public key obj) ats n [0..<n] r"

definition write_small ::
  "crypto \<Rightarrow> nat \<Rightarrow> (nat \<Rightarrow> attempt) \<Rightarrow> bool \<Rightarrow> string \<Rightarrow> byte list \<Rightarrow> object_store \<Rightarrow> (error + unit) \<times> object_store" where
  "write_small cr n ats public key bytes r =
     store_attempts (\<lambda>a. small_once cr a public key bytes) ats n [0..<n] r"

subsection \<open>What an attempt does to the store\<close>

text \<open>An object that is what it should be.\<close>

definition intact :: "crypto \<Rightarrow> nat \<Rightarrow> string \<Rightarrow> stored_object \<Rightarrow> bool" where
  "intact cr n hash x \<longleftrightarrow> length (so_content x) = n \<and> hex_encode cr (sha256 cr (so_content x)) = hash"

text \<open>The contract of an attempt: it touches its key only, puts only good objects there, and success
  means the object is there.\<close>

locale store_attempt =
  fixes once :: "attempt \<Rightarrow> object_store \<Rightarrow> (error + unit) \<times> object_store"
    and key :: string and good :: "stored_object \<Rightarrow> bool"
  assumes frame: "once a r = (res, r') \<Longrightarrow> k \<noteq> key \<Longrightarrow> r' k = r k"
    and only_good: "once a r = (res, r') \<Longrightarrow> r' key = r key \<or> (\<exists>x. r' key = Some x \<and> good x)"
    and present: "once a r = (Inr u, r') \<Longrightarrow> \<exists>x. r' key = Some x \<and> good x"
begin

lemma attempts_frame: "store_attempts once ats n is r = (res, r') \<Longrightarrow> k \<noteq> key \<Longrightarrow> r' k = r k"
proof (induction "is" arbitrary: r)
  case (Cons i "is")
  obtain x r1 where o: "once (ats i) r = (x, r1)" by fastforce
  have "r1 k = r k" using frame[OF o] Cons.prems(2) .
  then show ?case using Cons o by (auto split: if_splits)
qed simp

lemma attempts_only_good:
  "store_attempts once ats n is r = (res, r') \<Longrightarrow> r' key = r key \<or> (\<exists>x. r' key = Some x \<and> good x)"
proof (induction "is" arbitrary: r)
  case (Cons i "is")
  obtain x r1 where o: "once (ats i) r = (x, r1)" by fastforce
  note g = only_good[OF o]
  show ?case
  proof (cases "x = Inl error.Transport \<and> i + 1 < n \<and> \<not> at_pause_cancelled (ats i)")
    case True
    then have "store_attempts once ats n is r1 = (res, r')" using Cons.prems o by simp
    from Cons.IH[OF this] g show ?thesis by auto
  next
    case False
    then have "r' = r1" using Cons.prems o by (auto split: if_splits)
    with g show ?thesis by simp
  qed
qed simp

lemma attempts_present: "store_attempts once ats n is r = (Inr u, r') \<Longrightarrow> \<exists>x. r' key = Some x \<and> good x"
proof (induction "is" arbitrary: r)
  case (Cons i "is")
  obtain x r1 where o: "once (ats i) r = (x, r1)" by fastforce
  show ?case
  proof (cases x)
    case (Inl e)
    then show ?thesis using Cons o by (auto split: if_splits)
  next
    case (Inr v)
    then have "r' = r1" using Cons.prems o by simp
    with present[of "ats i" r v r1] o Inr show ?thesis by simp
  qed
qed simp

end

lemma close_and_check_cases:
  assumes "close_and_check cr a key x n hash r = (res, r')"
  shows "r' = r \<and> (\<exists>e. res = Inl e) \<or> r' = r(key \<mapsto> x)"
  using assms by (auto simp: close_and_check_def split: option.splits if_splits)

interpretation uploading: store_attempt "\<lambda>a. upload_once cr a public key obj" key
  "\<lambda>x. intact cr (unat (uo_bytes obj)) (uo_sha256 obj) x \<and> so_type x = content_type key \<and> so_public x = public"
  for cr public key obj
proof (unfold_locales, goal_cases)
  case (1 a r res r' k)
  then show ?case
    by (auto simp: upload_once_def split: option.splits sum.splits if_splits prod.splits
        dest!: close_and_check_cases)
next
  case (2 a r res r')
  then show ?case
    by (auto simp: upload_once_def intact_def split: option.splits sum.splits if_splits prod.splits
        dest!: close_and_check_cases)
next
  case (3 a r u r')
  then show ?case
    by (auto simp: upload_once_def intact_def split: option.splits sum.splits if_splits prod.splits
        dest!: close_and_check_cases)
qed

interpretation writing: store_attempt "\<lambda>a. small_once cr a public key bytes" key
  "\<lambda>x. x = \<lparr>so_content = bytes, so_type = content_type key, so_public = public\<rparr>"
  for cr public key bytes
proof (unfold_locales, goal_cases)
  case (1 a r res r' k)
  then show ?case
    by (auto simp: small_once_def split: option.splits if_splits dest!: close_and_check_cases)
next
  case (2 a r res r')
  then show ?case
    by (auto simp: small_once_def split: option.splits if_splits dest!: close_and_check_cases)
next
  case (3 a r u r')
  then show ?case
    by (auto simp: small_once_def split: option.splits if_splits dest!: close_and_check_cases)
qed

end
