(* ===== verification/Export_Check.thy ===== *)
theory Export_Check
  imports Export_Config Stable_Layout Object_Store File_Tree
begin

text \<open>
  Verification of a retained export before it is published (\<open>src/export_verify.rs\<close>): the summary, the
  journal line by line, the exact tree of every resource, the hash of every file, and the allowlist that
  the publication uploads from. The directory is a tree as \<open>symlink_metadata\<close> shows it; a second tree is
  what the receipts are compared with at the end. JSON texts, read failures and the writing of the
  allowlist are arguments. Progress reports are left out.
\<close>

definition MAX_SUMMARY :: nat where "MAX_SUMMARY = 1048576"
definition MAX_REPORT :: nat where "MAX_REPORT = 16777216"
definition MAX_RESOURCES :: nat where "MAX_RESOURCES = 1000000"

record export_report =
  er_region :: region
  er_resources :: nat
  er_files :: nat
  er_bytes :: nat
  er_full_catalog :: bool
  er_full_export :: bool
  er_summary_sha256 :: string
  er_journal_sha256 :: string
  er_failed :: "string list"

text \<open>\<open>ec_readable\<close>: whether a path can be opened and read to its end; \<open>ec_steady\<close>: whether its modification
  time stays the same meanwhile; \<open>ec_listable\<close>: whether a directory can be listed.\<close>

record export_checker =
  ec_crypto :: crypto
  ec_regex :: regex_compiler
  ec_classes :: unity_classes
  ec_summary :: "byte list \<Rightarrow> export_summary option"
  ec_report :: "byte list \<Rightarrow> resource_report option"
  ec_readable :: "string \<Rightarrow> bool"
  ec_steady :: "string \<Rightarrow> bool"
  ec_listable :: "string \<Rightarrow> bool"
  ec_temporary :: bool
  ec_append :: "upload_object \<Rightarrow> error option"

definition valid_digest :: "string \<Rightarrow> bool" where
  "valid_digest s \<longleftrightarrow> length s = 64 \<and> list_all is_lower_hexdigit s"

definition export_safe_path :: "string \<Rightarrow> bool" where
  "export_safe_path s \<longleftrightarrow>
     s \<noteq> [] \<and> length s \<le> 4096
     \<and> \<not> (CHR 0x5C \<in> set s \<or> CHR '':'' \<in> set s \<or> CHR 0x00 \<in> set s)
     \<and> \<not> has_control s
     \<and> list_all (\<lambda>p. p \<noteq> [] \<and> p \<noteq> ''.'' \<and> p \<noteq> ''..'') (split_on (CHR ''/'') s)"

definition checked :: "nat \<Rightarrow> error + nat" where
  "checked n = (if n < 2 ^ 64 then Inr n else Inl error.Verification)"

lemma checked_Inr [result_simps]: "checked n = Inr m \<longleftrightarrow> n < 2 ^ 64 \<and> m = n"
  by (auto simp: checked_def)

subsection \<open>Files\<close>

fun node_at :: "node \<Rightarrow> string list \<Rightarrow> node option" where
  "node_at n [] = Some n"
| "node_at n (p # ps) = Option.bind (entry n p) (\<lambda>m. node_at m ps)"

definition path_node :: "node \<Rightarrow> string \<Rightarrow> node option" where
  "path_node dir path = node_at dir (split_on (CHR ''/'') path)"

definition regular :: "bool \<Rightarrow> node option \<Rightarrow> error + unit" where
  "regular directory n =
     and_then (ok_or error.Verification n) (\<lambda>m.
     fail_if (if directory then \<not> is_dir m else \<not> is_file m) error.Verification)"

fun sized_loop :: "nat \<Rightarrow> byte list list \<Rightarrow> nat \<Rightarrow> byte list \<Rightarrow> error + nat \<times> byte list" where
  "sized_loop expected [] cnt acc = Inr (cnt, acc)"
| "sized_loop expected (c # cs) cnt acc =
     and_then (checked (cnt + length c)) (\<lambda>cnt'.
     if expected < cnt' then Inl error.Verification else sized_loop expected cs cnt' (acc @ c))"

definition export_file_hash :: "export_checker \<Rightarrow> node \<Rightarrow> string \<Rightarrow> nat \<Rightarrow> error + string" where
  "export_file_hash ck dir path expected =
     (case path_node dir path of
        Some (FileNode b) \<Rightarrow>
          and_then (fail_if (\<not> ec_readable ck path) error.Io) (\<lambda>_.
          and_then (fail_if (length b \<noteq> expected) error.Verification) (\<lambda>_.
          and_then (sized_loop expected (pieces BUFFER b) 0 []) (\<lambda>(cnt, acc).
          and_then (fail_if (cnt \<noteq> expected \<or> \<not> ec_steady ck path) error.Verification) (\<lambda>_.
          Inr (hex_encode (ec_crypto ck) (sha256 (ec_crypto ck) acc))))))
      | _ \<Rightarrow> Inl error.Verification)"

subsection \<open>Exact trees\<close>

definition slashed :: "string \<Rightarrow> string" where
  "slashed s = map (\<lambda>c. if c = CHR 0x5C then CHR ''/'' else c) s"

definition child_path :: "string \<Rightarrow> string \<Rightarrow> string" where
  "child_path rel n = (if rel = [] then n else rel @ ''/'' @ n)"

text \<open>The entries of one directory: the directories found, pushed one after the other, the number of files and of
  directories.\<close>

fun exact_entries ::
  "string list \<Rightarrow> string \<Rightarrow> entries \<Rightarrow> (string \<times> entries) list \<Rightarrow> nat \<Rightarrow> nat
   \<Rightarrow> error + (string \<times> entries) list \<times> nat \<times> nat" where
  "exact_entries expected rel [] pending cnt dirs = Inr (pending, cnt, dirs)"
| "exact_entries expected rel ((n, DirNode es) # rest) pending cnt dirs =
     (if MAX_RESOURCES < dirs + 1
         \<or> \<not> list_ex (\<lambda>p. starts_with p (slashed (child_path rel n) @ ''/'')) expected
      then Inl error.Verification
      else exact_entries expected rel rest ((child_path rel n, es) # pending) cnt (dirs + 1))"
| "exact_entries expected rel ((n, FileNode b) # rest) pending cnt dirs =
     (if slashed (child_path rel n) \<notin> set expected then Inl error.Verification
      else exact_entries expected rel rest pending (cnt + 1) dirs)"
| "exact_entries expected rel ((n, LinkNode) # rest) pending cnt dirs = Inl error.Verification"

fun node_weight :: "node \<Rightarrow> nat" where
  "node_weight (DirNode es) = Suc (sum_list (map (node_weight \<circ> snd) es))"
| "node_weight _ = 0"

definition entries_weight :: "entries \<Rightarrow> nat" where
  "entries_weight es = sum_list (map (node_weight \<circ> snd) es)"

definition pending_weight :: "(string \<times> entries) list \<Rightarrow> nat" where
  "pending_weight ps = sum_list (map (\<lambda>p. Suc (entries_weight (snd p))) ps)"

lemma exact_entries_weight:
  "exact_entries expected rel es pending cnt dirs = Inr (pending', cnt', dirs') \<Longrightarrow>
     pending_weight pending' \<le> pending_weight pending + entries_weight es"
proof (induction expected rel es pending cnt dirs rule: exact_entries.induct)
  case (2 expected rel n es rest pending cnt dirs)
  then show ?case
    by (auto simp: pending_weight_def entries_weight_def split: if_splits)
qed (auto simp: pending_weight_def entries_weight_def split: if_splits)

text \<open>The worklist; the last directory found is read next.\<close>

function exact_loop ::
  "export_checker \<Rightarrow> string \<Rightarrow> string list \<Rightarrow> (string \<times> entries) list \<Rightarrow> nat \<Rightarrow> nat \<Rightarrow> error + nat" where
  "exact_loop ck base expected [] cnt dirs = Inr cnt"
| "exact_loop ck base expected ((rel, es) # rest) cnt dirs =
     (if \<not> ec_listable ck (child_path base rel) then Inl error.Io
      else
        (case exact_entries expected rel es rest cnt dirs of
           Inl e \<Rightarrow> Inl e
         | Inr (pending, cnt', dirs') \<Rightarrow> exact_loop ck base expected pending cnt' dirs'))"
  by pat_completeness auto
termination
proof (relation "measure (\<lambda>(ck, base, expected, pending, cnt, dirs). pending_weight pending)", goal_cases)
  case (2 ck base expected rel es rest cnt dirs x pending y cnt' dirs')
  then show ?case
    using exact_entries_weight [of expected rel es rest cnt dirs pending cnt' dirs']
    by (auto simp: pending_weight_def)
qed simp

definition exact_tree :: "export_checker \<Rightarrow> node \<Rightarrow> string \<Rightarrow> string list \<Rightarrow> error + unit" where
  "exact_tree ck dir base expected =
     (case path_node dir base of
        Some (DirNode es) \<Rightarrow>
          and_then (exact_loop ck base expected [([], es)] 0 0) (\<lambda>cnt.
          fail_if (cnt \<noteq> card (set expected)) error.Verification)
      | _ \<Rightarrow> Inl error.Verification)"

subsection \<open>The journal\<close>

text \<open>\<open>read_until(b'\n')\<close>: every line keeps its end, the last one may have none.\<close>

function journal_lines :: "byte list \<Rightarrow> byte list list" where
  "journal_lines bs =
     (if bs = [] then []
      else (case dropWhile (\<lambda>b. b \<noteq> 10) bs of
          [] \<Rightarrow> [bs]
        | _ # rest \<Rightarrow> (takeWhile (\<lambda>b. b \<noteq> 10) bs @ [10]) # journal_lines rest))"
  by pat_completeness auto
termination
proof (relation "measure length", goal_cases)
  case (2 bs x rest)
  then have "length (dropWhile (\<lambda>b. b \<noteq> 10) bs) = Suc (length rest)" by simp
  moreover have "length (dropWhile (\<lambda>b. b \<noteq> 10) bs) \<le> length bs" by (rule length_dropWhile_le)
  ultimately show ?case by simp
qed simp

declare journal_lines.simps [simp del]

record check_state =
  ck_directories :: "string list"
  ck_names :: "string list"
  ck_sources :: "string list"
  ck_failed :: "string list"
  ck_failed_files :: nat
  ck_failed_bytes :: nat
  ck_files :: nat
  ck_bytes :: nat
  ck_objects :: nat
  ck_selected :: nat
  ck_skipped :: nat
  ck_hits :: nat
  ck_kinds :: "(string \<times> nat) list"
  ck_journal_bytes :: nat
  ck_inventory :: "upload_object list"

definition check_start :: check_state where
  "check_start = \<lparr>ck_directories = [], ck_names = [], ck_sources = [], ck_failed = [], ck_failed_files = 0,
     ck_failed_bytes = 0, ck_files = 0, ck_bytes = 0, ck_objects = 0, ck_selected = 0, ck_skipped = 0, ck_hits = 0,
     ck_kinds = [], ck_journal_bytes = 0, ck_inventory = []\<rparr>"

definition add_objects :: "resource_report \<Rightarrow> check_state \<Rightarrow> error + check_state" where
  "add_objects res s =
     and_then (checked (ck_objects s + res_objects res)) (\<lambda>o1.
     and_then (checked (ck_selected s + selected_objects res)) (\<lambda>o2.
     and_then (checked (ck_skipped s + skipped_objects res)) (\<lambda>o3.
     Inr (s\<lparr>ck_objects := o1, ck_selected := o2, ck_skipped := o3\<rparr>))))"

text \<open>The outputs of a failed resource are counted, and never published.\<close>

fun failed_outputs :: "output_record list \<Rightarrow> check_state \<Rightarrow> error + check_state" where
  "failed_outputs [] s = Inr s"
| "failed_outputs (x # xs) s =
     and_then (checked (ck_failed_files s + 1)) (\<lambda>n.
     and_then (checked (ck_failed_bytes s + unat (out_bytes x))) (\<lambda>b.
     failed_outputs xs (s\<lparr>ck_failed_files := n, ck_failed_bytes := b, ck_kinds := count_kind (out_kind x) (ck_kinds s)\<rparr>)))"

definition summary_raw_only :: "export_summary \<Rightarrow> bool" where
  "summary_raw_only sm \<longleftrightarrow> is_some_and (\<lambda>r. raw_mode r = Only) (sm_raw_bundles sm)"

definition check_item :: "export_checker \<Rightarrow> export_summary \<Rightarrow> resource_report \<Rightarrow> string list \<Rightarrow> output_record \<Rightarrow> error + unit" where
  "check_item ck sm res seen x =
     and_then (fail_if ((out_kind x = ''cri_acb_container'' \<and> cri_acb (sm_cri sm) \<noteq> Preserve)
         \<or> (out_kind x = ''cri_usm_container'' \<and> cri_usm (sm_cri sm) \<noteq> Preserve)) error.Verification) (\<lambda>_.
     and_then (if out_kind x = ''raw_bundle'' then
           and_then (ok_or error.Verification (sm_raw_bundles sm)) (\<lambda>raw.
           and_then (fail_if (\<not> raw_matches_path (ec_regex ck) raw (res_source res)) error.Verification) (\<lambda>_.
           and_then (raw_output_path raw (res_source res)) (\<lambda>p.
           fail_if (out_path x \<noteq> p \<or> out_sha256 x \<noteq> source_sha256 res \<or> out_object x \<noteq> None) error.Verification)))
         else fail_if (summary_raw_only sm) error.Verification) (\<lambda>_.
     fail_if (\<not> export_safe_path (out_path x) \<or> out_path x \<in> set seen \<or> \<not> valid_digest (out_sha256 x)) error.Verification))"

fun check_items :: "export_checker \<Rightarrow> export_summary \<Rightarrow> resource_report \<Rightarrow> string list \<Rightarrow> output_record list \<Rightarrow> error + unit" where
  "check_items ck sm res seen [] = Inr ()"
| "check_items ck sm res seen (x # xs) =
     and_then (check_item ck sm res seen x) (\<lambda>_. check_items ck sm res (out_path x # seen) xs)"

definition object_at :: "string \<Rightarrow> output_record \<Rightarrow> upload_object" where
  "object_at d x = \<lparr>uo_path = d @ ''/'' @ out_path x, uo_bytes = out_bytes x, uo_sha256 = out_sha256 x\<rparr>"

definition append_object :: "export_checker \<Rightarrow> upload_object \<Rightarrow> check_state \<Rightarrow> error + check_state" where
  "append_object ck obj s =
     (case ec_append ck obj of Some e \<Rightarrow> Inl e | None \<Rightarrow> Inr (s\<lparr>ck_inventory := ck_inventory s @ [obj]\<rparr>))"

fun hash_items ::
  "export_checker \<Rightarrow> node \<Rightarrow> export_summary \<Rightarrow> string \<Rightarrow> output_record list \<Rightarrow> check_state \<Rightarrow> error + check_state" where
  "hash_items ck dir sm d [] s = Inr s"
| "hash_items ck dir sm d (x # xs) s =
     and_then (export_file_hash ck dir (uo_path (object_at d x)) (unat (out_bytes x))) (\<lambda>h.
     and_then (fail_if (h \<noteq> out_sha256 x) error.Verification) (\<lambda>_.
     and_then (checked (ck_files s + 1)) (\<lambda>n.
     and_then (checked (ck_bytes s + unat (out_bytes x))) (\<lambda>b.
     and_then (fail_if (sm_output_files sm < n \<or> sm_output_bytes sm < b) error.Verification) (\<lambda>_.
     and_then (append_object ck (object_at d x)
         (s\<lparr>ck_files := n, ck_bytes := b, ck_kinds := count_kind (out_kind x) (ck_kinds s)\<rparr>)) (\<lambda>s'.
     hash_items ck dir sm d xs s'))))))"

definition resource_name_ok :: "export_summary \<Rightarrow> check_state \<Rightarrow> resource_report \<Rightarrow> error + unit" where
  "resource_name_ok sm s res =
     and_then (ok_or error.Verification (parse_usize (output_directory res))) (\<lambda>i.
     fail_if (output_directory res \<noteq> zero_padded 5 i \<or> sm_input_files sm \<le> i
       \<or> output_directory res \<in> set (ck_names s) \<or> res_source res \<in> set (ck_sources s)
       \<or> \<not> export_safe_path (res_source res) \<or> \<not> valid_digest (source_sha256 res)) error.Verification)"

definition failed_resource :: "nat \<Rightarrow> resource_report \<Rightarrow> check_state \<Rightarrow> error + check_state" where
  "failed_resource max_failed res s =
     and_then (fail_if (max_failed \<le> length (ck_failed s) \<or> cache_hit res) error.Verification) (\<lambda>_.
     and_then (failed_outputs (res_outputs res) (s\<lparr>ck_failed := ck_failed s @ [res_source res]\<rparr>)) (add_objects res))"

definition good_resource ::
  "export_checker \<Rightarrow> node \<Rightarrow> export_summary \<Rightarrow> resource_report \<Rightarrow> check_state \<Rightarrow> error + check_state" where
  "good_resource ck dir sm res s =
     and_then (fail_if (summary_raw_only sm \<and> (length (res_outputs res) \<noteq> 1 \<or> res_objects res \<noteq> 0
         \<or> selected_objects res \<noteq> 0 \<or> skipped_objects res \<noteq> 0)) error.Verification) (\<lambda>_.
     and_then (check_items ck sm res [] (res_outputs res)) (\<lambda>_.
     and_then (exact_tree ck dir (output_directory res) (map out_path (res_outputs res))) (\<lambda>_.
     and_then (hash_items ck dir sm (output_directory res) (res_outputs res)
         (s\<lparr>ck_directories := output_directory res # ck_directories s\<rparr>)) (\<lambda>s'.
     and_then (add_objects res s') (\<lambda>s''.
     Inr (s''\<lparr>ck_hits := ck_hits s'' + (if cache_hit res then 1 else 0)\<rparr>))))))"

definition check_line ::
  "export_checker \<Rightarrow> node \<Rightarrow> export_summary \<Rightarrow> nat \<Rightarrow> byte list \<Rightarrow> check_state \<Rightarrow> error + check_state" where
  "check_line ck dir sm max_failed line s =
     and_then (fail_if (MAX_REPORT < length line \<or> last line \<noteq> 10 \<or> sm_input_files sm \<le> length (ck_names s))
       error.Verification) (\<lambda>_.
     and_then (checked (ck_journal_bytes s + length line)) (\<lambda>jb.
     and_then (ok_or error.Verification (ec_report ck line)) (\<lambda>res.
     and_then (resource_name_ok sm s res) (\<lambda>_.
     (let s1 = s\<lparr>ck_journal_bytes := jb, ck_names := output_directory res # ck_names s,
               ck_sources := res_source res # ck_sources s\<rparr> in
      if res_errors res \<noteq> [] then failed_resource max_failed res s1 else good_resource ck dir sm res s1)))))"

fun check_lines ::
  "export_checker \<Rightarrow> node \<Rightarrow> export_summary \<Rightarrow> nat \<Rightarrow> byte list list \<Rightarrow> check_state \<Rightarrow> error + check_state" where
  "check_lines ck dir sm max_failed [] s = Inr s"
| "check_lines ck dir sm max_failed (l # ls) s =
     and_then (check_line ck dir sm max_failed l s) (check_lines ck dir sm max_failed ls)"

subsection \<open>The whole export\<close>

definition summary_rejected :: "export_checker \<Rightarrow> region \<Rightarrow> nat \<Rightarrow> export_summary \<Rightarrow> bool" where
  "summary_rejected ck rg max_failed sm \<longleftrightarrow>
     sm_schema sm \<noteq> 4 \<or> sm_region sm \<noteq> rg \<or> \<not> sm_retained sm
     \<or> \<not> (sm_succeeded sm + sm_failed sm < 2 ^ 64 \<and> sm_succeeded sm + sm_failed sm = sm_input_files sm)
     \<or> max_failed < sm_failed sm
     \<or> sm_complete sm \<noteq> (sm_failed sm = 0)
     \<or> sm_succeeded sm = 0 \<or> sm_input_files sm = 0
     \<or> MAX_RESOURCES < sm_input_files sm
     \<or> sm_catalog_files sm < sm_input_files sm
     \<or> sm_output_files sm = 0
     \<or> \<not> is_ok (read_policy_validate (ec_classes ck) (sm_read_kinds sm))
     \<or> (sm_full_export sm \<and> \<not> cri_full (sm_cri sm))
     \<or> is_some_and (\<lambda>r. \<not> is_ok (raw_validate (ec_regex ck) r)) (sm_raw_bundles sm)
     \<or> (sm_full_export sm \<and> summary_raw_only sm)
     \<or> \<not> valid_digest (sm_catalog_sha256 sm)
     \<or> (sm_full_export sm \<and> (\<not> sm_full_catalog sm \<or> \<not> policy_is_native (sm_read_kinds sm)))
     \<or> (sm_full_catalog sm \<and> sm_input_files sm \<noteq> sm_catalog_files sm)"

definition totals_differ :: "export_summary \<Rightarrow> check_state \<Rightarrow> bool" where
  "totals_differ sm s \<longleftrightarrow>
     length (ck_directories s) \<noteq> sm_succeeded sm
     \<or> length (ck_failed s) \<noteq> sm_failed sm
     \<or> checked (ck_files s + ck_failed_files s) \<noteq> Inr (sm_output_files sm)
     \<or> checked (ck_bytes s + ck_failed_bytes s) \<noteq> Inr (sm_output_bytes sm)
     \<or> ck_objects s \<noteq> sm_objects sm
     \<or> ck_selected s \<noteq> sm_selected sm
     \<or> ck_skipped s \<noteq> sm_skipped sm
     \<or> ck_hits s \<noteq> sm_cache_hits sm
     \<or> ck_kinds s \<noteq> sm_payloads sm"

definition top_entry_ok :: "check_state \<Rightarrow> string \<times> node \<Rightarrow> bool" where
  "top_entry_ok s = (\<lambda>(n, x).
     (is_dir x \<and> n \<in> set (ck_directories s)) \<or> (is_file x \<and> (n = ''summary.json'' \<or> n = ''resources.jsonl'')))"

text \<open>A file of the export's root: regular, and readable.\<close>

definition root_file :: "export_checker \<Rightarrow> node \<Rightarrow> string \<Rightarrow> error + byte list" where
  "root_file ck dir n =
     (case path_node dir n of
        Some (FileNode b) \<Rightarrow> and_then (fail_if (\<not> ec_readable ck n) error.Io) (\<lambda>_. Inr b)
      | _ \<Rightarrow> Inl error.Verification)"

definition sha_text :: "export_checker \<Rightarrow> byte list \<Rightarrow> string" where
  "sha_text ck bs = hex_encode (ec_crypto ck) (sha256 (ec_crypto ck) bs)"

text \<open>\<open>dir\<close> is the export during the pass, \<open>later\<close> when the receipts are hashed again.\<close>

definition prepare_export ::
  "export_checker \<Rightarrow> node \<Rightarrow> node \<Rightarrow> region \<Rightarrow> nat \<Rightarrow> error + export_report \<times> upload_object list" where
  "prepare_export ck dir later rg max_failed =
     and_then (fail_if (rg = Cn) error.ReservedRegion) (\<lambda>_.
     and_then (fail_if (\<not> is_dir dir) error.Verification) (\<lambda>_.
     and_then (root_file ck dir ''summary.json'') (\<lambda>b.
     (let sb = take (MAX_SUMMARY + 1) b in
     and_then (fail_if (MAX_SUMMARY < length sb) error.Verification) (\<lambda>_.
     and_then (ok_or error.Verification (ec_summary ck sb)) (\<lambda>sm.
     and_then (fail_if (summary_rejected ck rg max_failed sm) error.Verification) (\<lambda>_.
     and_then (fail_if (\<not> ec_temporary ck) error.Io) (\<lambda>_.
     and_then (root_file ck dir ''resources.jsonl'') (\<lambda>jb.
     and_then (check_lines ck dir sm max_failed (journal_lines jb) check_start) (\<lambda>s.
     and_then (fail_if (totals_differ sm s) error.Verification) (\<lambda>_.
     and_then (fail_if (\<not> ec_listable ck []) error.Io) (\<lambda>_.
     and_then (fail_if (\<not> list_all (top_entry_ok s) (case dir of DirNode es \<Rightarrow> es | _ \<Rightarrow> [])) error.Verification) (\<lambda>_.
     and_then (export_file_hash ck later ''summary.json'' (length sb)) (\<lambda>h1.
     and_then (fail_if (h1 \<noteq> sha_text ck sb) error.Verification) (\<lambda>_.
     and_then (export_file_hash ck later ''resources.jsonl'' (ck_journal_bytes s)) (\<lambda>h2.
     and_then (fail_if (h2 \<noteq> sha_text ck jb) error.Verification) (\<lambda>_.
     and_then (append_object ck \<lparr>uo_path = ''summary.json'', uo_bytes = of_nat (length sb), uo_sha256 = sha_text ck sb\<rparr> s) (\<lambda>s1.
     and_then (append_object ck \<lparr>uo_path = ''resources.jsonl'', uo_bytes = of_nat (ck_journal_bytes s), uo_sha256 = sha_text ck jb\<rparr> s1) (\<lambda>s2.
     Inr (\<lparr>er_region = rg, er_resources = length (ck_directories s), er_files = ck_files s, er_bytes = ck_bytes s,
           er_full_catalog = sm_full_catalog sm, er_full_export = sm_full_export sm,
           er_summary_sha256 = sha_text ck sb, er_journal_sha256 = sha_text ck jb, er_failed = ck_failed s\<rparr>,
         ck_inventory s2))))))))))))))))))))"

definition verify_export :: "export_checker \<Rightarrow> node \<Rightarrow> node \<Rightarrow> region \<Rightarrow> error + export_report" where
  "verify_export ck dir later rg = and_then (prepare_export ck dir later rg 0) (\<lambda>(r, _). Inr r)"

subsection \<open>Files of a tree\<close>

fun file_paths :: "node \<Rightarrow> string list list" where
  "file_paths (FileNode b) = [[]]"
| "file_paths LinkNode = []"
| "file_paths (DirNode es) = concat (map (\<lambda>e. map (Cons (fst e)) (file_paths (snd e))) es)"

definition pending_files :: "(string \<times> entries) list \<Rightarrow> nat" where
  "pending_files ps = sum_list (map (\<lambda>p. length (file_paths (DirNode (snd p)))) ps)"

lemma length_file_paths_Cons:
  "length (file_paths (DirNode ((n, m) # es))) = length (file_paths m) + length (file_paths (DirNode es))"
  by simp

lemma exact_entries_files:
  "exact_entries expected rel es pending cnt dirs = Inr (pending', cnt', dirs') \<Longrightarrow>
     cnt' + pending_files pending' = cnt + pending_files pending + length (file_paths (DirNode es))"
  by (induction expected rel es pending cnt dirs rule: exact_entries.induct)
    (auto simp: pending_files_def split: if_splits)

lemma exact_loop_files:
  "exact_loop ck base expected pending cnt dirs = Inr cnt' \<Longrightarrow> cnt' = cnt + pending_files pending"
proof (induction ck base expected pending cnt dirs rule: exact_loop.induct)
  case (2 ck base expected rel es rest cnt dirs)
  from 2(2) obtain pending c d where l: "ec_listable ck (child_path base rel)"
    and e: "exact_entries expected rel es rest cnt dirs = Inr (pending, c, d)"
    and r: "exact_loop ck base expected pending c d = Inr cnt'"
    by (auto split: if_splits sum.splits)
  have "cnt' = c + pending_files pending"
    using 2(1) l e r by simp
  with exact_entries_files[OF e] show ?case by (simp add: pending_files_def)
qed (simp add: pending_files_def)

text \<open>No links and no special files, at any depth.\<close>

definition linkless :: "entries \<Rightarrow> bool" where
  "linkless es \<longleftrightarrow> (\<forall>ps. node_at (DirNode es) ps \<noteq> Some LinkNode)"

lemma exact_entries_linkless:
  "exact_entries expected rel es pending cnt dirs = Inr (pending', cnt', dirs') \<Longrightarrow>
     set pending \<subseteq> set pending' \<and> (\<forall>(n, m) \<in> set es. m \<noteq> LinkNode \<and> (\<forall>sub. m = DirNode sub \<longrightarrow> sub \<in> snd ` set pending'))"
proof (induction expected rel es pending cnt dirs rule: exact_entries.induct)
  case (2 expected rel n es rest pending cnt dirs)
  then show ?case by (auto split: if_splits) force+
qed (auto split: if_splits)

lemma linkless_DirNode:
  assumes "\<And>n m. (n, m) \<in> set es \<Longrightarrow> m \<noteq> LinkNode \<and> (\<forall>sub. m = DirNode sub \<longrightarrow> linkless sub)"
  shows "linkless es"
  unfolding linkless_def
proof
  fix ps
  show "node_at (DirNode es) ps \<noteq> Some LinkNode"
  proof (cases ps)
    case (Cons n qs)
    show ?thesis
    proof (cases "map_of es n")
      case (Some m)
      with assms have m: "m \<noteq> LinkNode" "\<And>sub. m = DirNode sub \<Longrightarrow> linkless sub" by (auto dest!: map_of_SomeD)
      have "node_at m qs \<noteq> Some LinkNode"
      proof (cases m)
        case (FileNode b)
        then show ?thesis by (cases qs) auto
      qed (use m in \<open>auto simp: linkless_def\<close>)
      with Some Cons show ?thesis by simp
    qed (use Cons in simp)
  qed simp
qed

lemma exact_loop_linkless:
  "exact_loop ck base expected pending cnt dirs = Inr cnt' \<Longrightarrow> (rel, es) \<in> set pending \<Longrightarrow> linkless es"
proof (induction ck base expected pending cnt dirs arbitrary: rel es rule: exact_loop.induct)
  case (2 ck base expected rel0 es0 rest cnt dirs)
  from 2(2) obtain pending c d where l: "ec_listable ck (child_path base rel0)"
    and e: "exact_entries expected rel0 es0 rest cnt dirs = Inr (pending, c, d)"
    and r: "exact_loop ck base expected pending c d = Inr cnt'"
    by (auto split: if_splits sum.splits)
  have IH: "linkless es'" if "(rel', es') \<in> set pending" for rel' es'
    using 2(1) l e r that by simp
  note f = exact_entries_linkless[OF e]
  show ?case
  proof (cases "(rel, es) \<in> set rest")
    case True
    with f IH show ?thesis by blast
  next
    case False
    with 2(3) have "es = es0" by simp
    moreover have "linkless es0"
    proof (rule linkless_DirNode)
      fix n m assume "(n, m) \<in> set es0"
      with f IH show "m \<noteq> LinkNode \<and> (\<forall>sub. m = DirNode sub \<longrightarrow> linkless sub)" by fastforce
    qed
    ultimately show ?thesis by simp
  qed
qed simp

lemma node_at_file_paths: "node_at n ps = Some (FileNode b) \<Longrightarrow> ps \<in> set (file_paths n)"
proof (induction n arbitrary: ps rule: file_paths.induct)
  case (1 b')
  then show ?case by (cases ps) auto
next
  case 2
  then show ?case by (cases ps) auto
next
  case (3 es)
  from 3(2) obtain n qs where ps: "ps = n # qs" by (cases ps) auto
  with 3(2) obtain m where m: "map_of es n = Some m" and q: "node_at m qs = Some (FileNode b)"
    by (cases "map_of es n") auto
  from m have "(n, m) \<in> set es" by (rule map_of_SomeD)
  with 3(1)[of "(n, m)"] q ps show ?case by force
qed

text \<open>An exact tree that has a file for every expected path has no others.\<close>

lemma exact_tree_complete:
  assumes "exact_tree ck dir base expected = Inr u"
    and files: "\<And>p. p \<in> set expected \<Longrightarrow> \<exists>b. node_at (the (path_node dir base)) (split_on (CHR ''/'') p) = Some (FileNode b)"
    and "node_at (the (path_node dir base)) ps = Some (FileNode b)"
  shows "join_on ''/'' ps \<in> set expected"
proof -
  obtain es where es: "path_node dir base = Some (DirNode es)"
    and loop: "exact_loop ck base expected [([], es)] 0 0 = Inr (card (set expected))"
    using assms(1) by (auto simp: exact_tree_def result_simps split: option.splits node.splits)
  let ?F = "{qs. \<exists>b. node_at (DirNode es) qs = Some (FileNode b)}"
  let ?E = "split_on (CHR ''/'') ` set expected"
  have sub: "?F \<subseteq> set (file_paths (DirNode es))" using node_at_file_paths by blast
  then have fin: "finite ?F" by (rule finite_subset) simp
  moreover have "card ?F \<le> length (file_paths (DirNode es))"
    using card_mono[OF _ sub] card_length[of "file_paths (DirNode es)"] by (meson List.finite_set order_trans)
  moreover have "length (file_paths (DirNode es)) = card (set expected)"
    using exact_loop_files[OF loop] by (simp add: pending_files_def)
  moreover have "card ?E = card (set expected)"
    by (rule card_image) (auto simp: inj_on_def dest: split_on_inj)
  moreover have "?E \<subseteq> ?F" using files es by auto
  ultimately have "?E = ?F" using card_seteq[OF fin, of ?E] by simp
  moreover from assms(3) es have "ps \<in> ?F" by auto
  ultimately obtain p where "p \<in> set expected" "ps = split_on (CHR ''/'') p" by auto
  then show ?thesis by (simp add: join_split)
qed

lemma exact_tree_linkless:
  "exact_tree ck dir base expected = Inr u \<Longrightarrow> \<exists>es. path_node dir base = Some (DirNode es) \<and> linkless es"
  by (auto simp: exact_tree_def result_simps simp del: exact_loop.simps split: option.splits node.splits
    dest!: exact_loop_linkless[where es = es for es])

end
