(* ===== verification/Stable_Plan.thy ===== *)
theory Stable_Plan
  imports Stable_Layout "HOL-Library.Sublist"
begin

text \<open>
  What the plan of the stable layout promises: claiming a key always ends, on the first variant that is
  free or already holds the same content, and the plan covers every output under keys that are unique
  up to case.
\<close>

subsection \<open>Lower case\<close>

text \<open>What is used of \<open>str::to_lowercase\<close>: it maps a text piecewise around a slash, an underscore or
  a digit, which are neither changed nor part of a context that another character's mapping looks at.\<close>

definition lowercase_law :: "(string \<Rightarrow> string) \<Rightarrow> bool" where
  "lowercase_law lower \<longleftrightarrow>
     lower [] = [] \<and> (\<forall>a b. \<forall>c\<in>set ''/_0123456789''. lower (a @ c # b) = lower a @ c # lower b)"

lemma ascii_digit_in: "is_ascii_digit c \<Longrightarrow> c \<in> set ''/_0123456789''"
proof -
  assume "is_ascii_digit c"
  then have "of_char c \<in> {48..57 :: nat}" by (simp add: is_ascii_digit_def less_eq_char_def)
  also have "{48..57 :: nat} = of_char ` set ''0123456789''" by (simp add: atLeastAtMost_insertL[symmetric] numeral_eq_Suc)
  finally obtain d where "d \<in> set ''0123456789''" "of_char c = (of_char d :: nat)" by blast
  then have "c = d" by simp
  with \<open>d \<in> _\<close> show ?thesis by auto
qed

lemma lower_digits:
  assumes "lowercase_law lower" and "list_all is_ascii_digit ds"
  shows "lower (ds @ b) = ds @ lower b"
  using assms(2)
proof (induction ds)
  case (Cons d ds)
  have "lower ([] @ d # ds @ b) = lower [] @ d # lower (ds @ b)"
    using assms(1) ascii_digit_in[of d] Cons.prems by (auto simp only: lowercase_law_def list.pred_inject)
  then show ?case using Cons assms(1) by (simp add: lowercase_law_def)
qed simp

lemma lower_around_decimal:
  assumes "lowercase_law lower"
  shows "lower (a @ decimal n @ b) = lower a @ decimal n @ lower b"
proof -
  obtain d ds where Cons: "decimal n = d # ds" by (cases "decimal n") simp_all
  have all: "is_ascii_digit d" "list_all is_ascii_digit ds"
    using decimal_digits[of n] Cons by simp_all
  have "lower (a @ d # ds @ b) = lower a @ d # lower (ds @ b)"
    using assms ascii_digit_in[OF all(1)] by (simp only: lowercase_law_def)
  with Cons lower_digits[OF assms all(2)] show ?thesis by simp
qed

lemma lower_dup_key:
  assumes "lowercase_law lower"
  shows "\<exists>a b. \<forall>n. lower (dup_key key n) = a @ decimal n @ b"
proof -
  obtain st ext where p: "dup_parts key = (st, ext)" by fastforce
  define tail where "tail = (if ext = [] then [] else CHR ''.'' # ext)"
  have "dup_key key n = (st @ ''__dup'') @ decimal n @ tail" for n
    by (simp add: dup_key_def p join_ext_def tail_def)
  then show ?thesis using lower_around_decimal[OF assms] by metis
qed

lemma dup_keys_distinct:
  assumes "lowercase_law lower" "lower (dup_key key m) = lower (dup_key key n)"
  shows "m = n"
  using lower_dup_key[OF assms(1), of key] assms(2) by auto

subsection \<open>Claiming\<close>

definition candidate :: "string \<Rightarrow> nat \<Rightarrow> string" where
  "candidate key n = (if n \<le> 1 then key else dup_key key n)"

text \<open>The numbered variants of a key, written out: the number goes before the extension of the
  key's last component, a leading dot begins no extension and a trailing dot is dropped.\<close>

definition variant :: "string \<Rightarrow> nat \<Rightarrow> string" where
  "variant key n =
     (let ds = split_on (CHR ''/'') key; parts = split_on (CHR ''.'') (last ds);
          stem = join_on ''.'' (butlast parts); ext = last parts in
      if n \<le> 1 then key
      else join_on ''/'' (butlast ds
        @ [if stem = [] then last ds @ ''__dup'' @ decimal n
           else stem @ ''__dup'' @ decimal n @ (if ext = [] then [] else ''.'' @ ext)]))"

lemma split_once_None: "split_once [c] s = None \<longleftrightarrow> c \<notin> set s"
  by (induction s) (auto simp: strip_prefix_def)

lemma split_once_first: "split_once [c] s = Some (a, b) \<Longrightarrow> c \<notin> set a"
  by (induction s arbitrary: a b) (auto simp: strip_prefix_def split: if_splits)

lemma rsplit_once_split:
  "rsplit_once [c] s =
     (if c \<in> set s then Some (join_on [c] (butlast (split_on c s)), last (split_on c s)) else None)"
proof (cases "rsplit_once [c] s")
  case None
  then show ?thesis by (simp add: rsplit_once_def split_once_None)
next
  case (Some p)
  obtain a b where p: "p = (a, b)" by (cases p)
  with Some have "split_once [c] (rev s) = Some (rev b, rev a)" by (auto simp: rsplit_once_def)
  then have b: "c \<notin> set b" using split_once_first by fastforce
  have s: "s = a @ c # b" using rsplit_once_Some[of "[c]" s a b] Some p by simp
  have "split_on c s = split_on c a @ [b]"
    unfolding s split_on_append by (simp add: split_on_free[OF b])
  then show ?thesis using Some p s by (simp add: butlast_append)
qed

lemma join_on_snoc: "ps \<noteq> [] \<Longrightarrow> join_on sep (ps @ [x]) = join_on sep ps @ sep @ x"
  by (induction sep ps rule: join_on.induct) auto

lemma split_ext_parts:
  "split_ext f = (let parts = split_on (CHR ''.'') f; stem = join_on ''.'' (butlast parts) in
     if stem = [] then (f, []) else (stem, last parts))"
proof (cases "CHR ''.'' \<in> set f")
  case False
  then show ?thesis by (simp add: split_ext_def rsplit_once_split split_on_free)
qed (simp add: split_ext_def rsplit_once_split Let_def)

lemma candidate_variant: "candidate key n = variant key n"
proof (cases "n \<le> 1")
  case False
  let ?ds = "split_on (CHR ''/'') key"
  have "dup_key key n = variant key n"
  proof (cases "CHR ''/'' \<in> set key")
    case True
    then have "butlast ?ds \<noteq> []"
      using split_once_None[of "CHR ''/''" key] join_split[of "CHR ''/''" key]
        append_butlast_last_id[of ?ds] split_on_parts_free[of "last ?ds" "CHR ''/''" key]
      by (metis append_Nil join_on.simps(2) last_in_set split_on_not_Nil)
    then show ?thesis
      using True False
      by (simp add: dup_key_def dup_parts_def rsplit_once_split split_ext_parts variant_def Let_def
          join_ext_def join_on_snoc)
  next
    case no: False
    then show ?thesis
      using False by (simp add: dup_key_def dup_parts_def rsplit_once_split split_ext_parts
          variant_def Let_def join_ext_def split_on_free)
  qed
  with False show ?thesis by (simp add: candidate_def)
qed (simp add: candidate_def variant_def)

text \<open>A candidate is blocked by an entry of other content, and open otherwise.\<close>

definition blocked :: "layout_lib \<Rightarrow> entry list \<Rightarrow> entry \<Rightarrow> string \<Rightarrow> bool" where
  "blocked lib es e c \<longleftrightarrow>
     (\<exists>x\<in>set es. lowercase lib (en_path x) = lowercase lib c \<and> \<not> same_content x e)"

definition placed :: "entry \<Rightarrow> string \<Rightarrow> entry" where
  "placed e c = e\<lparr>en_content_type := content_type c, en_path := c\<rparr>"

definition claims_ok :: "layout_lib \<Rightarrow> claims \<Rightarrow> bool" where
  "claims_ok lib st \<longleftrightarrow>
     (let es = entries (cl_plan st) in
      distinct (map (\<lambda>x. lowercase lib (en_path x)) es)
      \<and> (\<forall>f. lowered st f = map_option en_path (find (\<lambda>x. lowercase lib (en_path x) = f) es))
      \<and> (\<forall>i<length es. claimed st (en_path (es ! i)) = Some i))"

lemma blocked_mono: "blocked lib es e c \<Longrightarrow> set es \<subseteq> set es' \<Longrightarrow> blocked lib es' e c"
  by (auto simp: blocked_def)

lemma find_distinct:
  assumes "distinct (map f xs)" and "i < length xs"
  shows "find (\<lambda>x. f x = f (xs ! i)) xs = Some (xs ! i)"
proof -
  have "find (\<lambda>x. f x = f (xs ! i)) xs \<noteq> None"
    using nth_mem[OF assms(2)] by (auto simp: find_None_iff)
  then obtain y where "find (\<lambda>x. f x = f (xs ! i)) xs = Some y" by blast
  moreover from this obtain j where "j < length xs" "f (xs ! j) = f (xs ! i)" "y = xs ! j"
    by (auto simp: find_Some_iff)
  ultimately show ?thesis using assms by (simp add: distinct_conv_nth) metis
qed

lemma claim_step_cases:
  assumes ok: "claims_ok lib st"
  obtains (free) "\<And>x. x \<in> set (entries (cl_plan st)) \<Longrightarrow> lowercase lib (en_path x) \<noteq> lowercase lib c"
      "claim_step lib key e st c n =
        Inr (Inl \<lparr>cl_plan = (cl_plan st)\<lparr>renamed := renamed (cl_plan st) + (if 1 < n then 1 else 0),
                entries := entries (cl_plan st) @ [placed e c]\<rparr>,
              claimed = (claimed st)(c \<mapsto> length (entries (cl_plan st))),
              lowered = (lowered st)(lowercase lib c \<mapsto> c)\<rparr>)"
    | (same) x where "x \<in> set (entries (cl_plan st))" "lowercase lib (en_path x) = lowercase lib c" "same_content x e"
      "claim_step lib key e st c n =
        Inr (Inl (st\<lparr>cl_plan := (cl_plan st)\<lparr>deduplicated := deduplicated (cl_plan st) + 1\<rparr>\<rparr>))"
    | (other) "blocked lib (entries (cl_plan st)) e c" "claim_step lib key e st c n = Inr (Inr (dup_key key (n + 1)))"
proof (cases "lowered st (lowercase lib c)")
  case None
  then have "find (\<lambda>x. lowercase lib (en_path x) = lowercase lib c) (entries (cl_plan st)) = None"
    using ok by (auto simp: claims_ok_def Let_def)
  then have "lowercase lib (en_path x) \<noteq> lowercase lib c" if "x \<in> set (entries (cl_plan st))" for x
    using that by (auto simp: find_None_iff)
  with None show thesis by (intro free) (simp_all add: claim_step_def Let_def placed_def)
next
  case (Some k)
  then obtain x where x: "find (\<lambda>x. lowercase lib (en_path x) = lowercase lib c) (entries (cl_plan st)) = Some x" "k = en_path x"
    using ok by (auto simp: claims_ok_def Let_def)
  then obtain i where i: "i < length (entries (cl_plan st))" "x = entries (cl_plan st) ! i"
    "lowercase lib (en_path x) = lowercase lib c" by (auto simp: find_Some_iff)
  then have "claimed st k = Some i" using ok x(2) by (auto simp: claims_ok_def Let_def)
  with Some i have step: "claim_step lib key e st c n =
      (if same_content x e then Inr (Inl (st\<lparr>cl_plan := (cl_plan st)\<lparr>deduplicated := deduplicated (cl_plan st) + 1\<rparr>\<rparr>))
       else Inr (Inr (dup_key key (n + 1))))"
    by (simp add: claim_step_def Let_def)
  have "x \<in> set (entries (cl_plan st))" using i by simp
  with i(3) step show thesis
    by (cases "same_content x e") (metis same, metis (mono_tags, lifting) other blocked_def)
qed

lemma find_snoc:
  "find P (xs @ [y]) = (case find P xs of None \<Rightarrow> if P y then Some y else None | Some x \<Rightarrow> Some x)"
  by (induction xs) auto

lemma claims_ok_add:
  assumes ok: "claims_ok lib st"
    and free: "\<And>x. x \<in> set (entries (cl_plan st)) \<Longrightarrow> lowercase lib (en_path x) \<noteq> lowercase lib c"
  shows "claims_ok lib \<lparr>cl_plan = (cl_plan st)\<lparr>renamed := r, entries := entries (cl_plan st) @ [placed e c]\<rparr>,
      claimed = (claimed st)(c \<mapsto> length (entries (cl_plan st))), lowered = (lowered st)(lowercase lib c \<mapsto> c)\<rparr>"
proof -
  let ?es = "entries (cl_plan st)"
  have find: "find P (?es @ [placed e c]) = (case find P ?es of None \<Rightarrow> if P (placed e c) then Some (placed e c) else None | Some y \<Rightarrow> Some y)" for P
    by (rule find_snoc)
  have none: "find (\<lambda>x. lowercase lib (en_path x) = lowercase lib c) ?es = None"
    using free by (auto simp: find_None_iff)
  have path: "en_path (placed e c) = c" by (simp add: placed_def)
  have fresh: "en_path (?es ! i) \<noteq> c" if "i < length ?es" for i
    using free[OF nth_mem[OF that]] by auto
  have "distinct (map (\<lambda>x. lowercase lib (en_path x)) (?es @ [placed e c]))"
    using ok free by (auto simp: claims_ok_def Let_def path) metis
  moreover have "((lowered st)(lowercase lib c \<mapsto> c)) f
      = map_option en_path (find (\<lambda>x. lowercase lib (en_path x) = f) (?es @ [placed e c]))" for f
    using ok none by (auto simp: claims_ok_def Let_def find path split: option.splits)
  moreover have "((claimed st)(c \<mapsto> length ?es)) (en_path ((?es @ [placed e c]) ! i)) = Some i"
    if "i < length (?es @ [placed e c])" for i
  proof (cases "i < length ?es")
    case True
    then show ?thesis using ok fresh by (simp add: claims_ok_def Let_def nth_append)
  next
    case False
    then have "i = length ?es" using that by simp
    then show ?thesis by (simp add: path)
  qed
  ultimately show ?thesis by (simp add: claims_ok_def Let_def)
qed


lemma claims_ok_dedup:
  "claims_ok lib st \<Longrightarrow> claims_ok lib (st\<lparr>cl_plan := (cl_plan st)\<lparr>deduplicated := d\<rparr>\<rparr>)"
  by (simp add: claims_ok_def Let_def)

text \<open>Only finitely many candidates are blocked, so the loop meets an open one.\<close>

lemma some_open:
  assumes "lowercase_law (lowercase lib)"
  shows "\<exists>k\<ge>1. \<not> blocked lib es e (candidate key k)"
proof -
  let ?f = "\<lambda>k. lowercase lib (dup_key key k)"
  have inj: "inj ?f" by (rule injI) (rule dup_keys_distinct[OF assms])
  have "finite ((\<lambda>x. lowercase lib (en_path x)) ` set es)" by simp
  moreover have "infinite (?f ` {2..})"
    using inj finite_imageD[of ?f "{2..}"] by (meson inj_on_subset infinite_Ici top_greatest)
  ultimately obtain k where "k \<ge> 2" "?f k \<notin> (\<lambda>x. lowercase lib (en_path x)) ` set es"
    by (metis (no_types, lifting) finite_subset imageE subsetI atLeast_iff)
  moreover from this have "candidate key k = dup_key key k" "1 \<le> k" by (simp_all add: candidate_def)
  ultimately have "1 \<le> k" "\<not> blocked lib es e (candidate key k)"
    unfolding blocked_def by (auto dest: image_eqI[OF sym])
  then show ?thesis by blast
qed

text \<open>The result of a claim: on the first open candidate, the content is there or is added.\<close>

definition claim_result :: "layout_lib \<Rightarrow> string \<Rightarrow> entry \<Rightarrow> claims \<Rightarrow> nat \<Rightarrow> claims \<Rightarrow> bool" where
  "claim_result lib key e st k st' \<longleftrightarrow>
     1 \<le> k \<and> (\<forall>m. 1 \<le> m \<longrightarrow> m < k \<longrightarrow> blocked lib (entries (cl_plan st)) e (candidate key m))
     \<and> failed_sources (cl_plan st') = failed_sources (cl_plan st)
     \<and> ((\<exists>x\<in>set (entries (cl_plan st)). lowercase lib (en_path x) = lowercase lib (candidate key k) \<and> same_content x e
           \<and> entries (cl_plan st') = entries (cl_plan st)
           \<and> deduplicated (cl_plan st') = deduplicated (cl_plan st) + 1 \<and> renamed (cl_plan st') = renamed (cl_plan st))
       \<or> ((\<forall>x\<in>set (entries (cl_plan st)). lowercase lib (en_path x) \<noteq> lowercase lib (candidate key k))
           \<and> entries (cl_plan st') = entries (cl_plan st) @ [placed e (candidate key k)]
           \<and> deduplicated (cl_plan st') = deduplicated (cl_plan st)
           \<and> renamed (cl_plan st') = renamed (cl_plan st) + (if 1 < k then 1 else 0)))"

lemma claim_loop_end:
  "claim_step lib key e st c n = Inr (Inl st') \<Longrightarrow> claim_loop lib key e st c n = Some (Inr st')"
  by (subst claim_loop.simps) simp

lemma claim_loop_again:
  "claim_step lib key e st c n = Inr (Inr d) \<Longrightarrow> claim_loop lib key e st c n = claim_loop lib key e st d (n + 1)"
  by (subst claim_loop.simps) simp

lemma claim_loop_result:
  assumes ok: "claims_ok lib st" and k: "\<not> blocked lib (entries (cl_plan st)) e (candidate key k)"
    and before: "\<And>m. 1 \<le> m \<Longrightarrow> m < k \<Longrightarrow> blocked lib (entries (cl_plan st)) e (candidate key m)"
    and "1 \<le> n" "n \<le> k"
  shows "\<exists>st'. claim_loop lib key e st (candidate key n) n = Some (Inr st') \<and> claims_ok lib st'
    \<and> claim_result lib key e st k st'"
  using assms(4,5)
proof (induction "k - n" arbitrary: n)
  case 0
  then have [simp]: "n = k" by simp
  show ?case
    using ok
  proof (cases rule: claim_step_cases[of lib st, where c = "candidate key k" and key = key and e = e and n = k])
    case free
    with claims_ok_add[OF ok free(1)] before 0 show ?thesis
      by (auto simp: claim_result_def claim_loop_end)
  next
    case (same x)
    with claims_ok_dedup[OF ok] before 0 show ?thesis
      by (auto simp: claim_result_def claim_loop_end)
  next
    case other
    with k show ?thesis by simp
  qed
next
  case (Suc d)
  then have n: "n < k" by simp
  then have b: "blocked lib (entries (cl_plan st)) e (candidate key n)" using before Suc.prems by blast
  have "claim_step lib key e st (candidate key n) n = Inr (Inr (dup_key key (n + 1)))"
    using ok
  proof (cases rule: claim_step_cases[of lib st, where c = "candidate key n" and key = key and e = e and n = n])
    case free
    then show ?thesis using b by (auto simp: blocked_def)
  next
    case (same x)
    from b obtain y where y: "y \<in> set (entries (cl_plan st))" "lowercase lib (en_path y) = lowercase lib (candidate key n)"
      "\<not> same_content y e" by (auto simp: blocked_def)
    have "x = y"
      using ok same(1,2) y(1,2) by (auto simp: claims_ok_def Let_def distinct_map inj_on_def)
    with same(3) y(3) show ?thesis by simp
  qed
  moreover have "dup_key key (n + 1) = candidate key (n + 1)" using Suc.prems by (simp add: candidate_def)
  ultimately have "claim_loop lib key e st (candidate key n) n = claim_loop lib key e st (candidate key (n + 1)) (n + 1)"
    by (simp only: claim_loop_again)
  moreover have "d = k - (n + 1)" using Suc.hyps(2) by simp
  ultimately show ?case using Suc.hyps(1)[of "n + 1"] n by simp
qed

lemma claim_key_result:
  assumes "lowercase_law (lowercase lib)" and ok: "claims_ok lib st"
  shows "\<exists>st' k. claim_key lib key e st = Some (Inr st') \<and> claims_ok lib st' \<and> claim_result lib key e st k st'"
proof -
  let ?open = "\<lambda>k. 1 \<le> k \<and> \<not> blocked lib (entries (cl_plan st)) e (candidate key k)"
  define k where "k = (LEAST k. ?open k)"
  have k: "?open k" unfolding k_def using some_open[OF assms(1)] by (metis (mono_tags, lifting) LeastI)
  have "blocked lib (entries (cl_plan st)) e (candidate key m)" if "1 \<le> m" "m < k" for m
    using not_less_Least[of m ?open] that unfolding k_def by blast
  from claim_loop_result[OF ok _ this, of k 1] k show ?thesis
    by (auto simp: claim_key_def candidate_def)
qed


subsection \<open>The whole plan\<close>

text \<open>Every key asked for, in order, with the entry it stands for; names do not depend on the claims.\<close>

fun wanted_outputs ::
  "layout_lib \<Rightarrow> layout_options \<Rightarrow> resource_report \<Rightarrow> output_record list \<Rightarrow> name_context
   \<Rightarrow> (string \<times> entry) list \<times> name_context" where
  "wanted_outputs lib opts res [] cx = ([], cx)"
| "wanted_outputs lib opts res (out # outs) cx =
     (let (keys, cx') = output_keys lib opts res out cx;
          (ws, cx'') = wanted_outputs lib opts res outs cx' in
      (map (\<lambda>parts. (final_key lib opts parts, make_entry res out)) (output_aliases out keys) @ ws, cx''))"

fun wanted_keys :: "layout_lib \<Rightarrow> layout_options \<Rightarrow> resource_report list \<Rightarrow> name_context \<Rightarrow> (string \<times> entry) list" where
  "wanted_keys lib opts [] cx = []"
| "wanted_keys lib opts (res # rs) cx =
     (if res_errors res \<noteq> [] then wanted_keys lib opts rs cx
      else (let (ws, cx') = wanted_outputs lib opts res (res_outputs res) cx in ws @ wanted_keys lib opts rs cx'))"

definition plan_wanted :: "layout_lib \<Rightarrow> layout_options \<Rightarrow> resource_report list \<Rightarrow> (string \<times> entry) list" where
  "plan_wanted lib opts rs = wanted_keys lib opts rs
     \<lparr>textures = count_textures lib opts rs, unnamed = (\<lambda>_. None), stems = (\<lambda>_. None)\<rparr>"

text \<open>A key is settled by the entry with its content under its first variant that other content
  does not block. The plan after the keys \<open>ws\<close> settles all of them, and its entries are, in order,
  a selection of \<open>ws\<close>, each under such a variant.\<close>

definition settled :: "layout_lib \<Rightarrow> entry list \<Rightarrow> string \<Rightarrow> entry \<Rightarrow> nat \<Rightarrow> bool" where
  "settled lib es key e k \<longleftrightarrow> 1 \<le> k
     \<and> (\<forall>m. 1 \<le> m \<longrightarrow> m < k \<longrightarrow> blocked lib es e (candidate key m))
     \<and> (\<exists>x\<in>set es. same_content x e \<and> lowercase lib (en_path x) = lowercase lib (candidate key k))"

definition selected :: "(string \<times> entry) list \<Rightarrow> stable_plan \<Rightarrow> (string \<times> entry \<times> nat) list \<Rightarrow> bool" where
  "selected ws p ps \<longleftrightarrow>
     subseq (map (\<lambda>(key, e, k). (key, e)) ps) ws
     \<and> entries p = map (\<lambda>(key, e, k). placed e (candidate key k)) ps
     \<and> renamed p = length (filter (\<lambda>(key, e, k). 1 < k) ps)"

definition planned :: "layout_lib \<Rightarrow> (string \<times> entry) list \<Rightarrow> claims \<Rightarrow> bool" where
  "planned lib ws st \<longleftrightarrow>
     claims_ok lib st
     \<and> length (entries (cl_plan st)) + deduplicated (cl_plan st) = length ws
     \<and> (\<forall>(key, e)\<in>set ws. \<exists>k. settled lib (entries (cl_plan st)) key e k)
     \<and> (\<exists>ps. selected ws (cl_plan st) ps
          \<and> (\<forall>(key, e, k)\<in>set ps. settled lib (entries (cl_plan st)) key e k))"

lemma planned_empty: "planned lib [] empty_claims"
  by (simp add: planned_def empty_claims_def claims_ok_def selected_def)

lemma settled_mono:
  "settled lib es key e k \<Longrightarrow> set es \<subseteq> set es' \<Longrightarrow> settled lib es' key e k"
  unfolding settled_def using blocked_mono by blast

lemma claim_result_settled:
  assumes "claim_result lib key e st k st'"
  shows "set (entries (cl_plan st)) \<subseteq> set (entries (cl_plan st'))"
    "settled lib (entries (cl_plan st')) key e k"
proof -
  show sub: "set (entries (cl_plan st)) \<subseteq> set (entries (cl_plan st'))"
    using assms by (auto simp: claim_result_def)
  have "same_content (placed e (candidate key k)) e"
    "en_path (placed e (candidate key k)) = candidate key k"
    by (simp_all add: same_content_def placed_def)
  then have "\<exists>x\<in>set (entries (cl_plan st')). same_content x e
      \<and> lowercase lib (en_path x) = lowercase lib (candidate key k)"
    using assms by (auto simp: claim_result_def)
  then show "settled lib (entries (cl_plan st')) key e k"
    using assms blocked_mono[OF _ sub] by (simp add: claim_result_def settled_def)
qed

lemma claim_result_selected:
  assumes r: "claim_result lib key e st k st'" and ps: "selected ws (cl_plan st) ps"
  shows "selected (ws @ [(key, e)]) (cl_plan st') ps
    \<or> selected (ws @ [(key, e)]) (cl_plan st') (ps @ [(key, e, k)])"
proof -
  have sub: "subseq (map (\<lambda>(key, e, k). (key, e)) ps) ws" using ps by (simp add: selected_def)
  have "subseq (map (\<lambda>(key, e, k). (key, e)) ps) (ws @ [(key, e)])"
    using sub by (rule list_emb_prefix)
  moreover have "subseq (map (\<lambda>(key, e, k). (key, e)) (ps @ [(key, e, k)])) (ws @ [(key, e)])"
    using sub by simp
  ultimately show ?thesis using r ps by (auto simp: claim_result_def selected_def)
qed

lemma planned_claim:
  assumes law: "lowercase_law (lowercase lib)" and p: "planned lib ws st"
  shows "\<exists>st'. claim_key lib key e st = Some (Inr st') \<and> planned lib (ws @ [(key, e)]) st'
    \<and> failed_sources (cl_plan st') = failed_sources (cl_plan st)"
proof -
  have ok: "claims_ok lib st" using p by (simp add: planned_def)
  from claim_key_result[OF law ok] obtain st' k where
    r: "claim_key lib key e st = Some (Inr st')" "claims_ok lib st'" "claim_result lib key e st k st'" by blast
  note sub = claim_result_settled(1)[OF r(3)] and here = claim_result_settled(2)[OF r(3)]
  obtain ps where ps: "selected ws (cl_plan st) ps"
    "\<forall>(key, e, k)\<in>set ps. settled lib (entries (cl_plan st)) key e k"
    using p by (auto simp: planned_def)
  have old: "\<forall>(key, e, k)\<in>set ps. settled lib (entries (cl_plan st')) key e k"
    using ps(2) settled_mono[OF _ sub] by blast
  have "\<exists>qs. selected (ws @ [(key, e)]) (cl_plan st') qs
      \<and> (\<forall>(key, e, k)\<in>set qs. settled lib (entries (cl_plan st')) key e k)"
    using claim_result_selected[OF r(3) ps(1)] old here by fastforce
  moreover have "length (entries (cl_plan st')) + deduplicated (cl_plan st') = length (ws @ [(key, e)])"
    using r(3) p by (auto simp: claim_result_def planned_def)
  moreover have "\<forall>(key, e)\<in>set (ws @ [(key, e)]). \<exists>k. settled lib (entries (cl_plan st')) key e k"
    using p here settled_mono[OF _ sub] unfolding planned_def by fastforce
  ultimately have "planned lib (ws @ [(key, e)]) st'"
    using r(2) by (simp add: planned_def)
  with r show ?thesis by (auto simp: claim_result_def)
qed

definition goes_on ::
  "layout_lib \<Rightarrow> (string \<times> entry) list \<Rightarrow> (string \<times> entry) list \<Rightarrow> claims \<Rightarrow> (error option + claims) option \<Rightarrow> bool" where
  "goes_on lib before new st r \<longleftrightarrow>
     (if list_all (\<lambda>(key, _). valid_key key) new
      then \<exists>st'. r = Some (Inr st') \<and> planned lib (before @ new) st'
        \<and> failed_sources (cl_plan st') = failed_sources (cl_plan st)
      else r = Some (Inl (Some error.Verification)))"

lemma claim_all_goes_on:
  assumes "lowercase_law (lowercase lib)" and "planned lib ws st"
  shows "goes_on lib ws (map (\<lambda>parts. (final_key lib opts parts, e)) keys) st (claim_all lib opts e keys st)"
  using assms(2)
proof (induction keys arbitrary: ws st)
  case (Cons parts keys)
  show ?case
  proof (cases "valid_key (final_key lib opts parts)")
    case True
    obtain st' where c: "claim_key lib (final_key lib opts parts) e st = Some (Inr st')"
      "planned lib (ws @ [(final_key lib opts parts, e)]) st'" "failed_sources (cl_plan st') = failed_sources (cl_plan st)"
      using planned_claim[OF assms(1) Cons.prems] by blast
    from Cons.IH[OF c(2)] True c(1,3) show ?thesis
      by (cases "list_all (\<lambda>(key, _). valid_key key) (map (\<lambda>parts. (final_key lib opts parts, e)) keys)")
        (auto simp: goes_on_def)
  qed (simp add: goes_on_def)
qed (simp add: goes_on_def)

lemma plan_outputs_goes_on:
  assumes "lowercase_law (lowercase lib)" and "planned lib ws st"
  shows "(if list_all (\<lambda>(key, _). valid_key key) (fst (wanted_outputs lib opts res outs cx))
      then \<exists>st'. plan_outputs lib opts res outs (cx, st) = Some (Inr (snd (wanted_outputs lib opts res outs cx), st'))
        \<and> planned lib (ws @ fst (wanted_outputs lib opts res outs cx)) st'
        \<and> failed_sources (cl_plan st') = failed_sources (cl_plan st)
      else plan_outputs lib opts res outs (cx, st) = Some (Inl (Some error.Verification)))"
  using assms(2)
proof (induction outs arbitrary: ws st cx)
  case (Cons out outs)
  obtain keys cx' where k: "output_keys lib opts res out cx = (keys, cx')" by fastforce
  obtain ws' cx'' where w: "wanted_outputs lib opts res outs cx' = (ws', cx'')" by fastforce
  let ?new = "map (\<lambda>parts. (final_key lib opts parts, make_entry res out)) (output_aliases out keys)"
  note c = claim_all_goes_on[OF assms(1) Cons.prems, of opts "make_entry res out" "output_aliases out keys"]
  show ?case
  proof (cases "list_all (\<lambda>(key, _). valid_key key) ?new")
    case True
    then obtain st' where st': "claim_all lib opts (make_entry res out) (output_aliases out keys) st = Some (Inr st')"
      "planned lib (ws @ ?new) st'" "failed_sources (cl_plan st') = failed_sources (cl_plan st)"
      using c by (auto simp: goes_on_def)
    have all: "list_all (\<lambda>(key, _). valid_key key) (?new @ xs) = list_all (\<lambda>(key, _). valid_key key) xs" for xs
      using True by (simp only: list_all_append simp_thms)
    from Cons.IH[OF st'(2), of cx'] st'(1,3) show ?thesis
      by (cases "list_all (\<lambda>(key, _). valid_key key) ws'") (auto simp add: k w all simp del: list_all_append)
  next
    case False
    then have "claim_all lib opts (make_entry res out) (output_aliases out keys) st = Some (Inl (Some error.Verification))"
      using c unfolding goes_on_def by (simp only: if_False)
    moreover have "\<not> list_all (\<lambda>(key, _). valid_key key) (?new @ xs)" for xs
      using False by (simp only: list_all_append simp_thms not_False_eq_True)
    ultimately show ?thesis by (simp add: k w del: list_all_append)
  qed
qed simp


definition failing :: "resource_report list \<Rightarrow> string list" where
  "failing rs = map res_source (filter (\<lambda>r. res_errors r \<noteq> []) rs)"

lemma planned_failed:
  "planned lib ws st \<Longrightarrow> planned lib ws (st\<lparr>cl_plan := (cl_plan st)\<lparr>failed_sources := f\<rparr>\<rparr>)"
  by (simp add: planned_def claims_ok_def selected_def Let_def)

lemma plan_list_goes_on:
  assumes "lowercase_law (lowercase lib)" and "planned lib ws st"
  shows "(if list_all (\<lambda>(key, _). valid_key key) (wanted_keys lib opts rs cx)
        \<and> (failing rs = [] \<or> length (failed_sources (cl_plan st)) + length (failing rs) \<le> max_failed_resources opts)
      then \<exists>cx' st'. plan_list lib opts rs (cx, st) = Some (Inr (cx', st'))
        \<and> planned lib (ws @ wanted_keys lib opts rs cx) st'
        \<and> failed_sources (cl_plan st') = failed_sources (cl_plan st) @ failing rs
      else plan_list lib opts rs (cx, st) = Some (Inl (Some error.Verification)))"
  using assms(2)
proof (induction rs arbitrary: ws st cx)
  case (Cons res rs)
  show ?case
  proof (cases "res_errors res = []")
    case False
    let ?st = "st\<lparr>cl_plan := (cl_plan st)\<lparr>failed_sources := failed_sources (cl_plan st) @ [res_source res]\<rparr>\<rparr>"
    have f: "failing (res # rs) = res_source res # failing rs" using False by (simp add: failing_def)
    show ?thesis
    proof (cases "max_failed_resources opts \<le> length (failed_sources (cl_plan st))")
      case True
      with False f show ?thesis by (simp add: Let_def)
    next
      case less: False
      then have c: "(failing rs = [] \<or> length (failed_sources (cl_plan ?st)) + length (failing rs) \<le> max_failed_resources opts)
          \<longleftrightarrow> length (failed_sources (cl_plan st)) + length (failing (res # rs)) \<le> max_failed_resources opts"
        using f by auto
      have step: "plan_list lib opts (res # rs) (cx, st) = plan_list lib opts rs (cx, ?st)"
        using False less by (simp add: Let_def)
      have fl: "failed_sources (cl_plan ?st) @ failing rs = failed_sources (cl_plan st) @ failing (res # rs)"
        and wk: "wanted_keys lib opts (res # rs) cx = wanted_keys lib opts rs cx"
        and ne: "(failing (res # rs) = [] \<or> x) = x" for x
        using False f by simp_all
      show ?thesis
        using Cons.IH[OF planned_failed[OF Cons.prems, of "failed_sources (cl_plan st) @ [res_source res]"], of cx]
        unfolding c step wk fl ne .
    qed
  next
    case True
    have f: "failing (res # rs) = failing rs" using True by (simp add: failing_def)
    obtain new cx' where w: "wanted_outputs lib opts res (res_outputs res) cx = (new, cx')" by fastforce
    have wk: "wanted_keys lib opts (res # rs) cx = new @ wanted_keys lib opts rs cx'" using True w by simp
    note o = plan_outputs_goes_on[OF assms(1) Cons.prems, of opts res "res_outputs res" cx, unfolded w fst_conv snd_conv]
    show ?thesis
    proof (cases "list_all (\<lambda>(key, _). valid_key key) new")
      case False
      then have "plan_outputs lib opts res (res_outputs res) (cx, st) = Some (Inl (Some error.Verification))"
        using o by (simp only: if_False)
      with True False show ?thesis unfolding wk by simp
    next
      case valid: True
      then obtain st' where st': "plan_outputs lib opts res (res_outputs res) (cx, st) = Some (Inr (cx', st'))"
        "planned lib (ws @ new) st'" "failed_sources (cl_plan st') = failed_sources (cl_plan st)"
        using o by auto
      have step: "plan_list lib opts (res # rs) (cx, st) = plan_list lib opts rs (cx', st')"
        using True st'(1) by simp
      have all: "list_all (\<lambda>(key, _). valid_key key) (new @ xs) = list_all (\<lambda>(key, _). valid_key key) xs" for xs
        using valid by (simp only: list_all_append simp_thms)
      show ?thesis using Cons.IH[OF st'(2), of cx'] unfolding f wk step st'(3) all append_assoc .
    qed
  qed
qed (simp add: failing_def)

lemma acb_track_not_Nil: "acb_track lib res out \<noteq> Some []"
  by (auto simp: acb_track_def Let_def split: if_splits prod.splits)

lemma output_aliases_not_Nil: "output_aliases out (fst (output_keys lib opts res out cx)) \<noteq> []"
proof -
  have "fst (output_keys lib opts res out cx) \<noteq> []"
    using acb_track_not_Nil[of lib res out]
    by (cases "acb_track lib res out")
      (auto simp: output_keys_def Let_def split: option.splits prod.splits)
  then show ?thesis by (cases "fst (output_keys lib opts res out cx)") (auto simp: output_aliases_def)
qed

lemma wanted_outputs_entries:
  "snd ` set (fst (wanted_outputs lib opts res outs cx)) = make_entry res ` set outs"
proof (induction outs arbitrary: cx)
  case (Cons out outs)
  obtain keys cx' where k: "output_keys lib opts res out cx = (keys, cx')" by fastforce
  obtain ws cx'' where w: "wanted_outputs lib opts res outs cx' = (ws, cx'')" by fastforce
  have "output_aliases out keys \<noteq> []" using output_aliases_not_Nil[of out lib opts res cx] k by simp
  then have "snd ` set (map (\<lambda>parts. (final_key lib opts parts, make_entry res out)) (output_aliases out keys)) = {make_entry res out}"
    by (cases "output_aliases out keys") (auto simp: image_image)
  then show ?case using Cons[of cx'] by (simp add: k w image_Un)
qed simp

lemma wanted_keys_entries:
  "snd ` set (wanted_keys lib opts rs cx)
     = {make_entry res out |res out. res \<in> set rs \<and> res_errors res = [] \<and> out \<in> set (res_outputs res)}"
proof (induction rs arbitrary: cx)
  case (Cons res rs)
  obtain ws cx' where w: "wanted_outputs lib opts res (res_outputs res) cx = (ws, cx')" by fastforce
  have "snd ` set ws = make_entry res ` set (res_outputs res)"
    using wanted_outputs_entries[of lib opts res "res_outputs res" cx] w by simp
  then show ?case
    using Cons[of cx] Cons[of cx'] by (cases "res_errors res = []") (auto simp: w image_Un)
qed simp

lemma plan_wanted_entries:
  "snd ` set (plan_wanted lib opts rs)
     = {make_entry res out |res out. res \<in> set rs \<and> res_errors res = [] \<and> out \<in> set (res_outputs res)}"
  unfolding plan_wanted_def by (rule wanted_keys_entries)

lemma planned_settled:
  assumes "planned lib ws st" and "(key, e) \<in> set ws"
  shows "\<exists>x\<in>set (entries (cl_plan st)). en_sha256 x = en_sha256 e \<and> en_bytes x = en_bytes e \<and> (\<exists>n\<ge>1.
      lowercase lib (en_path x) = lowercase lib (variant key n)
      \<and> (\<forall>m. 1 \<le> m \<and> m < n \<longrightarrow> (\<exists>y\<in>set (entries (cl_plan st)).
            lowercase lib (en_path y) = lowercase lib (variant key m) \<and> \<not> (en_sha256 y = en_sha256 e \<and> en_bytes y = en_bytes e))))"
proof -
  obtain n where "settled lib (entries (cl_plan st)) key e n"
    using assms by (auto simp: planned_def)
  then show ?thesis unfolding settled_def blocked_def candidate_variant same_content_def by blast
qed

lemma planned_covered:
  assumes p: "planned lib (plan_wanted lib opts rs) st"
    and "res \<in> set rs" "out \<in> set (res_outputs res)" "res_errors res = []"
  shows "\<exists>key. (key, make_entry res out) \<in> set (plan_wanted lib opts rs)"
    "\<exists>x\<in>set (entries (cl_plan st)). en_bytes x = out_bytes out \<and> en_sha256 x = out_sha256 out"
proof -
  have "make_entry res out \<in> snd ` set (plan_wanted lib opts rs)"
    unfolding plan_wanted_entries using assms(2-) by blast
  then obtain key where k: "(key, make_entry res out) \<in> set (plan_wanted lib opts rs)" by force
  then show "\<exists>key. (key, make_entry res out) \<in> set (plan_wanted lib opts rs)" ..
  show "\<exists>x\<in>set (entries (cl_plan st)). en_bytes x = out_bytes out \<and> en_sha256 x = out_sha256 out"
    using planned_settled[OF p k] by (auto simp: make_entry_def)
qed

lemma planned_selected:
  assumes "planned lib ws st"
  shows "\<exists>ps. subseq (map (\<lambda>(key, e, n). (key, e)) ps) ws
    \<and> entries (cl_plan st) = map (\<lambda>(key, e, n). placed e (variant key n)) ps
    \<and> renamed (cl_plan st) = length (filter (\<lambda>(key, e, n). 1 < n) ps)"
  using assms unfolding planned_def selected_def candidate_variant by blast

lemma planned_exact:
  assumes p: "planned lib (plan_wanted lib opts rs) st" and x: "x \<in> set (entries (cl_plan st))"
  shows "\<exists>res\<in>set rs. \<exists>out\<in>set (res_outputs res). res_errors res = []
    \<and> x = (make_entry res out)\<lparr>en_content_type := content_type (en_path x), en_path := en_path x\<rparr>"
proof -
  obtain ps where ps: "subseq (map (\<lambda>(key, e, n). (key, e)) ps) (plan_wanted lib opts rs)"
    "entries (cl_plan st) = map (\<lambda>(key, e, n). placed e (variant key n)) ps"
    using planned_selected[OF p] by blast
  then obtain key e n where e: "(key, e, n) \<in> set ps" "x = placed e (variant key n)"
    using x by auto
  then have "(key, e) \<in> set (map (\<lambda>(key, e, n). (key, e)) ps)" by force
  then have "(key, e) \<in> set (plan_wanted lib opts rs)"
    using ps(1) by (blast elim: list_emb_set)
  then have "e \<in> snd ` set (plan_wanted lib opts rs)" by force
  then obtain res out where "e = make_entry res out" "res \<in> set rs" "res_errors res = []" "out \<in> set (res_outputs res)"
    unfolding plan_wanted_entries by blast
  moreover from this e(2) have
    "x = (make_entry res out)\<lparr>en_content_type := content_type (en_path x), en_path := en_path x\<rparr>"
    by (simp add: placed_def)
  ultimately show ?thesis by blast
qed

text \<open>C14. Planning the stable layout always ends, without a panic, given what lower-casing does around
  digits. It fails only for an invalid key or for more failed resources than allowed. A plan covers the
  export exactly. Every output of every resource without errors asks for at least one key, and every
  key asked for is valid and is served: an entry with the output's size and hash stands at the key, or,
  when entries of other content hold the key and its lower numbers, at the next numbered variant of it,
  up to letter case. The entries are, in the order asked, outputs with their own local file, size,
  hash and source, each at its key or a numbered variant of its own key, and \<open>renamed\<close> counts the
  numbered ones. No two keys agree up to case, every key asked for is either an entry or counted as a
  duplicate, and the failed sources are listed in order.\<close>

theorem stable_plan_covers_export:
  assumes "lowercase_law (lowercase lib)"
  shows "\<exists>r. plan_resources lib rs opts = Some r \<and>
    (case r of
       Inl e \<Rightarrow> e = Some error.Verification
         \<and> ((\<exists>(key, _)\<in>set (plan_wanted lib opts rs). \<not> valid_key key)
             \<or> max_failed_resources opts < length (filter (\<lambda>r. res_errors r \<noteq> []) rs))
     | Inr p \<Rightarrow>
         distinct (map (\<lambda>x. lowercase lib (en_path x)) (entries p))
         \<and> (\<forall>res\<in>set rs. \<forall>out\<in>set (res_outputs res). res_errors res = [] \<longrightarrow>
              (\<exists>key. (key, make_entry res out) \<in> set (plan_wanted lib opts rs))
              \<and> (\<exists>x\<in>set (entries p). en_bytes x = out_bytes out \<and> en_sha256 x = out_sha256 out))
         \<and> (\<forall>(key, e)\<in>set (plan_wanted lib opts rs). valid_key key
              \<and> (\<exists>x\<in>set (entries p). en_sha256 x = en_sha256 e \<and> en_bytes x = en_bytes e \<and> (\<exists>n\<ge>1.
                  lowercase lib (en_path x) = lowercase lib (variant key n)
                  \<and> (\<forall>m. 1 \<le> m \<and> m < n \<longrightarrow> (\<exists>y\<in>set (entries p).
                        lowercase lib (en_path y) = lowercase lib (variant key m)
                        \<and> \<not> (en_sha256 y = en_sha256 e \<and> en_bytes y = en_bytes e))))))
         \<and> (\<exists>ps. subseq (map (\<lambda>(key, e, n). (key, e)) ps) (plan_wanted lib opts rs)
              \<and> entries p = map (\<lambda>(key, e, n). e\<lparr>en_content_type := content_type (variant key n),
                    en_path := variant key n\<rparr>) ps
              \<and> renamed p = length (filter (\<lambda>(key, e, n). 1 < n) ps))
         \<and> (\<forall>x\<in>set (entries p). \<exists>res\<in>set rs. \<exists>out\<in>set (res_outputs res). res_errors res = []
              \<and> x = (make_entry res out)\<lparr>en_content_type := content_type (en_path x), en_path := en_path x\<rparr>)
         \<and> length (entries p) + deduplicated p = length (plan_wanted lib opts rs)
         \<and> failed_sources p = map res_source (filter (\<lambda>r. res_errors r \<noteq> []) rs)
         \<and> length (failed_sources p) \<le> max_failed_resources opts)"
proof -
  let ?cx = "\<lparr>textures = count_textures lib opts rs, unnamed = (\<lambda>_. None), stems = (\<lambda>_. None)\<rparr>"
  let ?ws = "plan_wanted lib opts rs"
  let ?ok = "list_all (\<lambda>(key, _). valid_key key) ?ws \<and> length (failing rs) \<le> max_failed_resources opts"
  have fs: "failing rs = map res_source (filter (\<lambda>r. res_errors r \<noteq> []) rs)" by (simp add: failing_def)
  have g: "if ?ok then \<exists>cx' st'. plan_list lib opts rs (?cx, empty_claims) = Some (Inr (cx', st'))
      \<and> planned lib ?ws st' \<and> failed_sources (cl_plan st') = failing rs
    else plan_list lib opts rs (?cx, empty_claims) = Some (Inl (Some error.Verification))"
    using plan_list_goes_on[OF assms planned_empty, of opts rs ?cx]
    by (auto simp: empty_claims_def plan_wanted_def split: if_splits)
  show ?thesis
  proof (cases ?ok)
    case False
    then have "plan_resources lib rs opts = Some (Inl (Some error.Verification))"
      using g by (auto simp: plan_resources_def split: if_splits)
    with False show ?thesis by (auto simp: list_all_iff fs)
  next
    case True
    then obtain cx' st' where st': "plan_list lib opts rs (?cx, empty_claims) = Some (Inr (cx', st'))"
      "planned lib ?ws st'" "failed_sources (cl_plan st') = failing rs" using g by auto
    let ?p = "cl_plan st'"
    have r: "plan_resources lib rs opts = Some (Inr ?p)" using st'(1) by (simp add: plan_resources_def)
    have d: "distinct (map (\<lambda>x. lowercase lib (en_path x)) (entries ?p))"
      "length (entries ?p) + deduplicated ?p = length ?ws"
      using st'(2) by (simp_all add: planned_def claims_ok_def Let_def)
    have valid: "valid_key key" if "(key, e) \<in> set ?ws" for key e
      using True that by (auto simp: list_all_iff)
    have cover: "\<forall>res\<in>set rs. \<forall>out\<in>set (res_outputs res). res_errors res = [] \<longrightarrow>
        (\<exists>key. (key, make_entry res out) \<in> set ?ws)
        \<and> (\<exists>x\<in>set (entries ?p). en_bytes x = out_bytes out \<and> en_sha256 x = out_sha256 out)"
      using planned_covered[OF st'(2)] by simp
    have served: "\<forall>(key, e)\<in>set ?ws. valid_key key
        \<and> (\<exists>x\<in>set (entries ?p). en_sha256 x = en_sha256 e \<and> en_bytes x = en_bytes e \<and> (\<exists>n\<ge>1.
            lowercase lib (en_path x) = lowercase lib (variant key n)
            \<and> (\<forall>m. 1 \<le> m \<and> m < n \<longrightarrow> (\<exists>y\<in>set (entries ?p).
                  lowercase lib (en_path y) = lowercase lib (variant key m) \<and> \<not> (en_sha256 y = en_sha256 e \<and> en_bytes y = en_bytes e)))))"
      by (intro ballI, clarify) (rule conjI[OF valid planned_settled[OF st'(2)]])
    note own = planned_selected[OF st'(2), unfolded placed_def]
    have rest: "\<forall>x\<in>set (entries ?p). \<exists>res\<in>set rs. \<exists>out\<in>set (res_outputs res). res_errors res = []
        \<and> x = (make_entry res out)\<lparr>en_content_type := content_type (en_path x), en_path := en_path x\<rparr>"
      using planned_exact[OF st'(2)] by blast
    have "failed_sources ?p = map res_source (filter (\<lambda>r. res_errors r \<noteq> []) rs)"
      "length (failed_sources ?p) \<le> max_failed_resources opts"
      using st'(3) fs True by simp_all
    with d cover served own rest have "?thesis" if "plan_resources lib rs opts = Some (Inr ?p)"
      unfolding that by (intro exI[of _ "Inr ?p"]) (simp only: sum.case simp_thms)
    with r show ?thesis by blast
  qed
qed


subsection \<open>An example export\<close>

text \<open>Two sound banks with the same name and different content, and a bundle that failed. ASCII text is
  lower-cased as ASCII.\<close>

lemma ascii_lowercase_law: "lowercase_law to_ascii_lowercase"
  by (auto simp: lowercase_law_def to_ascii_lowercase_def to_ascii_lower_def is_ascii_uppercase_def less_eq_char_def)

definition demo_layout_lib :: layout_lib where
  "demo_layout_lib = \<lparr>lowercase = to_ascii_lowercase, lower_char = to_ascii_lowercase, export_file = (\<lambda>_. None), json_of = (\<lambda>_. None)\<rparr>"

definition demo_output :: "string \<Rightarrow> string \<Rightarrow> object_identity option \<Rightarrow> output_record" where
  "demo_output path sha obj = \<lparr>out_path = path, out_kind = ''audio'', out_bytes = 1, out_sha256 = sha, out_object = obj\<rparr>"

definition demo_resource :: "string \<Rightarrow> string \<Rightarrow> output_record list \<Rightarrow> string list \<Rightarrow> resource_report" where
  "demo_resource source dir outs errs =
     \<lparr>cache_hit = False, res_source = source, output_directory = dir, source_sha256 = [], res_objects = 0,
      selected_objects = 0, skipped_objects = 0, res_outputs = outs, res_errors = errs\<rparr>"

definition demo_export :: "resource_report list" where
  "demo_export =
     [demo_resource ''cri_assets_cri/Bgm'' ''00000'' [demo_output ''movie.mkv'' ''a'' None] [],
      demo_resource ''broken'' ''00001'' [] [''decode''],
      demo_resource ''cri_assets_cri/bgm'' ''00002'' [demo_output ''movie.mkv'' ''b'' None, demo_output ''movie.mkv'' ''b'' None] []]"

lemma demo_plan:
  "plan_resources demo_layout_lib demo_export (layout_default\<lparr>max_failed_resources := 1\<rparr>)
     = Some (Inr \<lparr>entries =
         [placed (make_entry (demo_export ! 0) (demo_output ''movie.mkv'' ''a'' None)) ''cri/bgm/bgm.mkv'',
          placed (make_entry (demo_export ! 2) (demo_output ''movie.mkv'' ''b'' None)) ''cri/bgm/bgm__dup2.mkv''],
        deduplicated = 1, renamed = 1, failed_sources = [''broken'']\<rparr>)"
  by code_simp

theorem stable_plan_covers_export_witness:
  "\<exists>p. plan_resources demo_layout_lib demo_export (layout_default\<lparr>max_failed_resources := 1\<rparr>) = Some (Inr p)
    \<and> distinct (map (\<lambda>x. lowercase demo_layout_lib (en_path x)) (entries p))
    \<and> map en_path (entries p) = [''cri/bgm/bgm.mkv'', ''cri/bgm/bgm__dup2.mkv'']
    \<and> failed_sources p = [''broken'']"
proof -
  have law: "lowercase_law (lowercase demo_layout_lib)" using ascii_lowercase_law by (simp add: demo_layout_lib_def)
  show ?thesis
    using stable_plan_covers_export[OF law, of demo_export "layout_default\<lparr>max_failed_resources := 1\<rparr>"]
    unfolding demo_plan by (simp add: placed_def)
qed

subsection \<open>Renamed keys are not checked again\<close>

definition long_key :: string where
  "long_key = replicate 255 (CHR ''a'')"

definition long_entry :: "string \<Rightarrow> entry" where
  "long_entry sha = make_entry (demo_resource ''s'' ''00000'' [] []) (demo_output ''0'' sha None)"

lemma long_key_valid: "valid_key long_key"
proof -
  have "\<not> has_control (replicate n (CHR ''a''))" for n
    by (induction n rule: induct_nat_012) simp_all
  moreover have "split_on (CHR ''/'') long_key = [long_key]"
    by (rule split_on_free) (simp add: long_key_def)
  ultimately show ?thesis
    by (auto simp: valid_key_def long_key_def dest!: arg_cong[where f = length])
qed

lemma dup_long_key: "dup_key long_key 2 = long_key @ ''__dup2''"
proof -
  have "rsplit_once ''/'' long_key = None" "rsplit_once ''.'' long_key = None"
    by (simp_all add: rsplit_once_def split_once_None long_key_def)
  moreover have "decimal 2 = ''2''" by code_simp
  ultimately show ?thesis
    by (simp add: dup_key_def dup_parts_def split_ext_def join_ext_def)
qed

lemma dup_long_key_invalid: "\<not> valid_key (dup_key long_key 2)"
proof -
  have "split_on (CHR ''/'') (dup_key long_key 2) = [dup_key long_key 2]"
    unfolding dup_long_key by (rule split_on_free) (simp add: long_key_def)
  moreover have "\<not> length (dup_key long_key 2) \<le> 255"
    unfolding dup_long_key by (simp add: long_key_def)
  ultimately show ?thesis unfolding valid_key_def by simp
qed

text \<open>A key that had to be renamed is not checked again: two outputs of different content that ask
  for the same valid key of 255 bytes are planned without an error, and the second one gets a key that
  \<open>valid_key\<close> rejects, because the suffix of the duplicate makes its component longer than 255 bytes.\<close>

theorem renamed_key_unchecked:
  "\<exists>st1 st2. valid_key long_key
    \<and> claim_key demo_layout_lib long_key (long_entry ''a'') empty_claims = Some (Inr st1)
    \<and> claim_key demo_layout_lib long_key (long_entry ''b'') st1 = Some (Inr st2)
    \<and> \<not> valid_key (en_path (last (entries (cl_plan st2))))"
proof -
  have low: "to_ascii_lowercase long_key \<noteq> to_ascii_lowercase (dup_key long_key 2)"
    by (rule notI, drule arg_cong[where f = length]) (simp add: dup_long_key)
  have c: "\<not> same_content (placed (long_entry ''a'') k) (long_entry ''b'')" for k
    by (simp add: same_content_def placed_def long_entry_def make_entry_def demo_output_def)
  define st1 where "st1 = \<lparr>cl_plan = \<lparr>entries = [placed (long_entry ''a'') long_key], deduplicated = 0, renamed = 0,
      failed_sources = []\<rparr>, claimed = [long_key \<mapsto> 0], lowered = [to_ascii_lowercase long_key \<mapsto> long_key]\<rparr>"
  have "claim_step demo_layout_lib long_key (long_entry ''a'') empty_claims long_key 1 = Inr (Inl st1)"
    by (simp add: claim_step_def empty_claims_def demo_layout_lib_def st1_def placed_def)
  then have one: "claim_key demo_layout_lib long_key (long_entry ''a'') empty_claims = Some (Inr st1)"
    unfolding claim_key_def by (rule claim_loop_end)
  have "claim_step demo_layout_lib long_key (long_entry ''b'') st1 long_key 1 = Inr (Inr (dup_key long_key 2))"
    using c by (simp add: claim_step_def demo_layout_lib_def st1_def numeral_2_eq_2)
  moreover obtain st2 where
    "claim_step demo_layout_lib long_key (long_entry ''b'') st1 (dup_key long_key 2) (1 + 1) = Inr (Inl st2)"
    "en_path (last (entries (cl_plan st2))) = dup_key long_key 2"
    using low by (simp add: claim_step_def demo_layout_lib_def st1_def Let_def)
  ultimately have "claim_key demo_layout_lib long_key (long_entry ''b'') st1 = Some (Inr st2)
      \<and> en_path (last (entries (cl_plan st2))) = dup_key long_key 2"
    unfolding claim_key_def by (simp only: claim_loop_again claim_loop_end simp_thms)
  with one long_key_valid dup_long_key_invalid show ?thesis by force
qed

end
