(* ===== verification/Stable_Publish.thy ===== *)
theory Stable_Publish
  imports Stable_Plan Object_Store
begin

text \<open>
  Publishing a stable layout in place (\<open>previous_manifest\<close> and \<open>publish_stable\<close> of
  \<open>src/storage.rs\<close>): only files that differ from the previous manifest are uploaded, keys that are no
  longer produced can be pruned, and the new manifest, the summary and the version are written last.
  The uploads of a publication have different keys and run concurrently; here they take effect in the
  order of the plan, and whether an upload had already started when another one failed is an input.
  The previous manifest is a hash map in the code and iterated in key order here. JSON is an argument,
  and the progress counters are left out.
\<close>

record stable_counts =
  n_files :: nat
  n_uploaded :: nat
  n_unchanged :: nat
  n_pruned :: nat
  n_deduplicated :: nat
  n_renamed :: nat
  n_failed_resources :: nat
  n_carried_forward :: nat

text \<open>The parser and printer of an entry's line, the printer of the version record for its counts and
  bytes, and the surroundings of one publication.\<close>

record publish_json =
  entry_of :: "byte list \<Rightarrow> entry option"
  entry_json :: "entry \<Rightarrow> byte list option"
  version_json :: "nat \<Rightarrow> nat \<Rightarrow> stable_counts \<Rightarrow> byte list option"

record publish_world =
  pw_manifest_error :: "error option"
  pw_upload :: "string \<Rightarrow> nat \<Rightarrow> attempt"
  pw_started :: "string \<Rightarrow> bool"
  pw_delete :: "string \<Rightarrow> bool \<times> error option"
  pw_small :: "string \<Rightarrow> nat \<Rightarrow> attempt"
  pw_summary :: "byte list option"

definition MAX_MANIFEST :: nat where
  "MAX_MANIFEST = 1024 * 1024 * 1024"

subsection \<open>The previous manifest\<close>

type_synonym manifest = "(string \<times> entry) list"

fun read_lines :: "publish_json \<Rightarrow> byte list list \<Rightarrow> manifest \<Rightarrow> error + manifest" where
  "read_lines js [] m = Inr m"
| "read_lines js (l # ls) m =
     and_then (ok_or error.Verification (entry_of js l)) (\<lambda>e. read_lines js ls (bt_insert (en_path e) e m))"

definition parse_manifest :: "publish_json \<Rightarrow> byte list \<Rightarrow> error + manifest" where
  "parse_manifest js bytes = read_lines js (filter (\<lambda>l. l \<noteq> []) (split_on 10 bytes)) []"

definition previous_manifest :: "publish_json \<Rightarrow> error option \<Rightarrow> object_store \<Rightarrow> string \<Rightarrow> error + manifest" where
  "previous_manifest js err r key =
     (case err of
        Some e \<Rightarrow> Inl e
      | None \<Rightarrow>
          (case r key of
             None \<Rightarrow> Inr []
           | Some x \<Rightarrow>
               if MAX_MANIFEST < length (so_content x) then Inl error.Verification
               else parse_manifest js (so_content x)))"

subsection \<open>What to upload, carry forward and prune\<close>

definition same_file :: "entry \<Rightarrow> entry \<Rightarrow> bool" where
  "same_file p e \<longleftrightarrow>
     en_bytes p = en_bytes e \<and> en_sha256 p = en_sha256 e \<and> en_content_type p = en_content_type e"

definition pending_entries :: "manifest \<Rightarrow> entry list \<Rightarrow> entry list" where
  "pending_entries previous es =
     filter (\<lambda>e. case map_of previous (en_path e) of None \<Rightarrow> True | Some p \<Rightarrow> \<not> same_file p e) es"

definition carried_entries :: "layout_lib \<Rightarrow> manifest \<Rightarrow> stable_plan \<Rightarrow> entry list" where
  "carried_entries lib previous p =
     (if failed_sources p = [] then []
      else
        (let taken = set (map (\<lambda>e. lowercase lib (en_path e)) (entries p)) in
         sort_key en_path
           (filter (\<lambda>e. en_source e \<in> set (failed_sources p) \<and> lowercase lib (en_path e) \<notin> taken)
             (map snd previous))))"

definition obsolete_keys :: "manifest \<Rightarrow> entry list \<Rightarrow> string list" where
  "obsolete_keys previous current = filter (\<lambda>k. k \<notin> set (map en_path current)) (map fst previous)"

definition store_key :: "string \<Rightarrow> string \<Rightarrow> string" where
  "store_key pre path = pre @ ''/'' @ path"

text \<open>The manifest: one line per key, without the local path.\<close>

fun manifest_bytes :: "publish_json \<Rightarrow> entry list \<Rightarrow> error + byte list" where
  "manifest_bytes js [] = Inr []"
| "manifest_bytes js (e # es) =
     and_then (ok_or error.Verification (entry_json js (e\<lparr>en_local := []\<rparr>))) (\<lambda>l.
     and_then (manifest_bytes js es) (\<lambda>rest. Inr (l @ 10 # rest)))"

subsection \<open>Uploading and pruning\<close>

definition object_of :: "entry \<Rightarrow> upload_object" where
  "object_of e = \<lparr>uo_path = en_local e, uo_bytes = en_bytes e, uo_sha256 = en_sha256 e\<rparr>"

text \<open>\<open>err\<close> is the first error. After an error, uploads that have not started are cancelled.\<close>

fun upload_entries ::
  "crypto \<Rightarrow> publish_world \<Rightarrow> nat \<Rightarrow> (string \<Rightarrow> bool) \<Rightarrow> string \<Rightarrow> entry list \<Rightarrow> error option \<Rightarrow> object_store
   \<Rightarrow> error option \<times> object_store" where
  "upload_entries cr w n pol pre [] err r = (err, r)"
| "upload_entries cr w n pol pre (e # es) err r =
     (if err \<noteq> None \<and> \<not> pw_started w (en_path e) then upload_entries cr w n pol pre es err r
      else
        (case upload cr n (pw_upload w (en_path e)) (pol (en_path e)) (store_key pre (en_path e)) (object_of e) r of
           (Inl x, r') \<Rightarrow> upload_entries cr w n pol pre es (case err of None \<Rightarrow> Some x | Some y \<Rightarrow> Some y) r'
         | (Inr _, r') \<Rightarrow> upload_entries cr w n pol pre es err r'))"

text \<open>A deletion that reports an error may have taken effect.\<close>

fun prune_keys :: "publish_world \<Rightarrow> string \<Rightarrow> string list \<Rightarrow> nat \<Rightarrow> object_store \<Rightarrow> (error + nat) \<times> object_store" where
  "prune_keys w pre [] k r = (Inr k, r)"
| "prune_keys w pre (key # keys) k r =
     (case pw_delete w key of
        (deleted, Some e) \<Rightarrow> (Inl e, if deleted then r(store_key pre key := None) else r)
      | (_, None) \<Rightarrow> prune_keys w pre keys (k + 1) (r(store_key pre key := None)))"

subsection \<open>The publication\<close>

definition MANIFEST :: string where "MANIFEST = ''_sirius/files.jsonl''"
definition SUMMARY :: string where "SUMMARY = ''_sirius/summary.json''"
definition VERSION :: string where "VERSION = ''_sirius/version.json''"

definition small ::
  "crypto \<Rightarrow> publish_world \<Rightarrow> nat \<Rightarrow> (string \<Rightarrow> bool) \<Rightarrow> string \<Rightarrow> string \<Rightarrow> byte list \<Rightarrow> object_store
   \<Rightarrow> (error + unit) \<times> object_store" where
  "small cr w n pol pre file bytes r = write_small cr n (pw_small w file) (pol file) (store_key pre file) bytes r"

text \<open>The three files of a publication, in order.\<close>

definition write_state ::
  "crypto \<Rightarrow> publish_json \<Rightarrow> publish_world \<Rightarrow> nat \<Rightarrow> (string \<Rightarrow> bool) \<Rightarrow> string \<Rightarrow> entry list \<Rightarrow> stable_counts
   \<Rightarrow> object_store \<Rightarrow> (error + stable_counts) \<times> object_store" where
  "write_state cr js w n pol pre current counts r =
     (case manifest_bytes js current of
        Inl e \<Rightarrow> (Inl e, r)
      | Inr m \<Rightarrow>
          (case small cr w n pol pre MANIFEST m r of
             (Inl e, r1) \<Rightarrow> (Inl e, r1)
           | (Inr _, r1) \<Rightarrow>
               (case pw_summary w of
                  None \<Rightarrow> (Inl error.Io, r1)
                | Some s \<Rightarrow>
                    (case small cr w n pol pre SUMMARY s r1 of
                       (Inl e, r2) \<Rightarrow> (Inl e, r2)
                     | (Inr _, r2) \<Rightarrow>
                         (case version_json js (n_files counts + n_carried_forward counts)
                                 (sum_list (map (\<lambda>e. unat (en_bytes e)) current)) counts of
                            None \<Rightarrow> (Inl error.Verification, r2)
                          | Some v \<Rightarrow>
                              (case small cr w n pol pre VERSION v r2 of
                                 (Inl e, r3) \<Rightarrow> (Inl e, r3)
                               | (Inr _, r3) \<Rightarrow> (Inr counts, r3)))))))"

definition initial_counts :: "stable_plan \<Rightarrow> entry list \<Rightarrow> entry list \<Rightarrow> stable_counts" where
  "initial_counts p pending carried =
     \<lparr>n_files = length (entries p), n_uploaded = length pending, n_unchanged = length (entries p) - length pending,
      n_pruned = 0, n_deduplicated = deduplicated p, n_renamed = renamed p,
      n_failed_resources = length (failed_sources p), n_carried_forward = length carried\<rparr>"

definition publish_stable ::
  "layout_lib \<Rightarrow> crypto \<Rightarrow> publish_json \<Rightarrow> publish_world \<Rightarrow> nat \<Rightarrow> (string \<Rightarrow> bool) \<Rightarrow> string \<Rightarrow> layout_options
   \<Rightarrow> stable_plan \<Rightarrow> object_store \<Rightarrow> (error + stable_counts) \<times> object_store" where
  "publish_stable lib cr js w n pol pre opts p r =
     (case previous_manifest js (pw_manifest_error w) r (store_key pre MANIFEST) of
        Inl e \<Rightarrow> (Inl e, r)
      | Inr previous \<Rightarrow>
          (let pending = pending_entries previous (entries p);
               carried = carried_entries lib previous p;
               current = entries p @ carried;
               counts = initial_counts p pending carried in
           case upload_entries cr w n pol pre pending None r of
             (Some e, r1) \<Rightarrow> (Inl e, r1)
           | (None, r1) \<Rightarrow>
               (case (if prune opts then prune_keys w pre (obsolete_keys previous current) 0 r1 else (Inr 0, r1)) of
                  (Inl e, r2) \<Rightarrow> (Inl e, r2)
                | (Inr k, r2) \<Rightarrow> write_state cr js w n pol pre current (counts\<lparr>n_pruned := k\<rparr>) r2)))"

end
