(* ===== verification/Stable_State.thy ===== *)
theory Stable_State
  imports Stable_Publish
begin

text \<open>
  What stays true of a stable prefix: every line of its manifest names an object that is in the store
  with the size and hash of the line. A publication that succeeds keeps this and writes the manifest of
  exactly what it planned and carried forward; one that fails can break it for the next one.
\<close>

definition reserved_paths :: "string set" where
  "reserved_paths = {MANIFEST, SUMMARY, VERSION}"

definition listed_intact :: "crypto \<Rightarrow> string \<Rightarrow> object_store \<Rightarrow> entry \<Rightarrow> bool" where
  "listed_intact cr pre r e \<longleftrightarrow>
     (\<exists>x. r (store_key pre (en_path e)) = Some x \<and> intact cr (unat (en_bytes e)) (en_sha256 e) x)"

definition prefix_ok :: "crypto \<Rightarrow> publish_json \<Rightarrow> string \<Rightarrow> object_store \<Rightarrow> bool" where
  "prefix_ok cr js pre r \<longleftrightarrow>
     (case r (store_key pre MANIFEST) of
        None \<Rightarrow> True
      | Some x \<Rightarrow>
          (case parse_manifest js (so_content x) of
             Inl _ \<Rightarrow> False
           | Inr m \<Rightarrow> \<forall>e\<in>snd ` set m. listed_intact cr pre r e \<and> en_path e \<notin> reserved_paths))"

text \<open>What is used of the JSON library: a printed line is read back, and has no line break.\<close>

definition json_law :: "publish_json \<Rightarrow> bool" where
  "json_law js \<longleftrightarrow>
     (\<forall>e l. entry_json js e = Some l \<longrightarrow> l \<noteq> [] \<and> 10 \<notin> set l \<and> entry_of js l = Some e)"

lemma store_key_inject [simp]: "store_key pre a = store_key pre b \<longleftrightarrow> a = b"
  by (simp add: store_key_def)

lemma store_key_mem [simp]: "store_key pre a \<in> store_key pre ` S \<longleftrightarrow> a \<in> S"
  by (rule inj_image_mem_iff) (simp add: inj_def)

lemma reserved_distinct [simp]:
  "MANIFEST \<noteq> SUMMARY" "MANIFEST \<noteq> VERSION" "SUMMARY \<noteq> VERSION"
  "SUMMARY \<noteq> MANIFEST" "VERSION \<noteq> MANIFEST" "VERSION \<noteq> SUMMARY"
  by (simp_all add: MANIFEST_def SUMMARY_def VERSION_def)

subsection \<open>Manifests\<close>

definition keyed :: "manifest \<Rightarrow> bool" where
  "keyed m \<longleftrightarrow> bt_ordered m \<and> (\<forall>(k, e)\<in>set m. k = en_path e)"

lemma set_bt_insert_keyed: "set (bt_insert k v m) \<subseteq> insert (k, v) (set m)"
  by (induction k v m rule: bt_insert.induct) auto

lemma keyed_insert: "keyed m \<Longrightarrow> keyed (bt_insert (en_path e) e m)"
  using set_bt_insert_keyed[of "en_path e" e m] by (auto simp: keyed_def)

lemma read_lines_keyed: "read_lines js ls m = Inr m' \<Longrightarrow> keyed m \<Longrightarrow> keyed m'"
proof (induction ls arbitrary: m)
  case (Cons l ls)
  then show ?case using keyed_insert by (auto simp: result_simps)
qed simp

lemma parse_manifest_keyed: "parse_manifest js b = Inr m \<Longrightarrow> keyed m"
  using read_lines_keyed[of js _ "[]" m] by (simp add: parse_manifest_def keyed_def)

lemma keyed_lookup:
  assumes "keyed m"
  shows "map_of m k = Some e \<longleftrightarrow> e \<in> snd ` set m \<and> en_path e = k"
proof -
  have "map_of m k = Some e \<longleftrightarrow> (k, e) \<in> set m"
    using assms bt_ordered_distinct[of m] by (simp add: keyed_def)
  then show ?thesis using assms by (force simp: keyed_def)
qed

lemma snd_insert_keyed:
  assumes "keyed m" and "en_path e \<notin> en_path ` snd ` set m"
  shows "snd ` set (bt_insert (en_path e) e m) = insert e (snd ` set m)"
proof -
  have o: "bt_ordered m" using assms(1) by (simp add: keyed_def)
  have "x \<in> snd ` set (bt_insert (en_path e) e m) \<longleftrightarrow> x = e \<or> x \<in> snd ` set m" for x
  proof -
    have "x \<in> snd ` set (bt_insert (en_path e) e m) \<longleftrightarrow> map_of (bt_insert (en_path e) e m) (en_path x) = Some x"
      using keyed_lookup[OF keyed_insert[OF assms(1)]] by simp
    also have "\<dots> \<longleftrightarrow> (if en_path x = en_path e then x = e else map_of m (en_path x) = Some x)"
      using o by auto
    also have "\<dots> \<longleftrightarrow> x = e \<or> x \<in> snd ` set m"
    proof (cases "en_path x = en_path e")
      case True
      then have "x \<notin> snd ` set m" using assms(2) by (metis image_eqI)
      with True show ?thesis by auto
    next
      case False
      then show ?thesis using keyed_lookup[OF assms(1)] by auto
    qed
    finally show ?thesis .
  qed
  then show ?thesis by blast
qed

lemma manifest_roundtrip:
  assumes "json_law js" "manifest_bytes js es = Inr b" "keyed m"
    "distinct (map en_path es)" "\<forall>e\<in>set es. en_path e \<notin> en_path ` snd ` set m"
  shows "\<exists>m'. read_lines js (filter (\<lambda>l. l \<noteq> []) (split_on 10 b)) m = Inr m' \<and> keyed m'
    \<and> snd ` set m' = snd ` set m \<union> (\<lambda>e. e\<lparr>en_local := []\<rparr>) ` set es"
  using assms(2-5)
proof (induction es arbitrary: b m)
  case (Cons e es)
  let ?e = "e\<lparr>en_local := []\<rparr>"
  obtain l rest where l: "entry_json js ?e = Some l" "manifest_bytes js es = Inr rest" "b = l @ 10 # rest"
    using Cons.prems(1) by (auto simp: result_simps)
  have law: "l \<noteq> []" "10 \<notin> set l" "entry_of js l = Some ?e" using assms(1) l(1) by (auto simp: json_law_def)
  have new: "en_path ?e \<notin> en_path ` snd ` set m" using Cons.prems(4) by simp
  have k: "keyed (bt_insert (en_path ?e) ?e m)" by (rule keyed_insert[OF Cons.prems(2)])
  have s: "snd ` set (bt_insert (en_path ?e) ?e m) = insert ?e (snd ` set m)"
    by (rule snd_insert_keyed[OF Cons.prems(2) new])
  have "\<forall>x\<in>set es. en_path x \<notin> en_path ` snd ` set (bt_insert (en_path ?e) ?e m)"
    unfolding s using Cons.prems(3,4) by (auto simp: image_iff)
  from Cons.IH[OF l(2) k _ this] Cons.prems(3)
  obtain m' where m': "read_lines js (filter (\<lambda>l. l \<noteq> []) (split_on 10 rest)) (bt_insert (en_path ?e) ?e m) = Inr m'"
    "keyed m'" "snd ` set m' = insert ?e (snd ` set m) \<union> (\<lambda>e. e\<lparr>en_local := []\<rparr>) ` set es"
    unfolding s by auto
  have "split_on 10 b = l # split_on 10 rest"
    unfolding l(3) split_on_append by (simp add: split_on_free[OF law(2)])
  with m' law show ?case by simp
qed simp

subsection \<open>Steps of a publication\<close>

lemma upload_frame:
  "upload cr n ats public key obj r = (res, r') \<Longrightarrow> k \<noteq> key \<Longrightarrow> r' k = r k"
  unfolding upload_def by (rule uploading.attempts_frame)

lemma upload_present:
  "upload cr n ats public key obj r = (Inr u, r') \<Longrightarrow>
     \<exists>x. r' key = Some x \<and> intact cr (unat (uo_bytes obj)) (uo_sha256 obj) x"
  unfolding upload_def using uploading.attempts_present by blast

lemma upload_entries_frame:
  "upload_entries cr w n pol pre es err r = (res, r') \<Longrightarrow> k \<notin> store_key pre ` en_path ` set es \<Longrightarrow> r' k = r k"
proof (induction es arbitrary: err r)
  case (Cons e es)
  obtain x r1 where u: "upload cr n (pw_upload w (en_path e)) (pol (en_path e)) (store_key pre (en_path e)) (object_of e) r = (x, r1)"
    by fastforce
  have "r1 k = r k" using upload_frame[OF u] Cons.prems(2) by simp
  then show ?case using Cons u by (auto split: if_splits sum.splits)
qed simp

lemma upload_entries_error: "upload_entries cr w n pol pre es (Some e) r \<noteq> (None, r')"
proof (induction es arbitrary: e r)
  case (Cons x es)
  then show ?case by (auto split: if_splits sum.splits prod.splits)
qed simp

lemma upload_entries_present:
  "upload_entries cr w n pol pre es None r = (None, r') \<Longrightarrow> distinct (map en_path es) \<Longrightarrow> e \<in> set es
   \<Longrightarrow> listed_intact cr pre r' e"
proof (induction es arbitrary: r)
  case (Cons x es)
  obtain y r1 where u: "upload cr n (pw_upload w (en_path x)) (pol (en_path x)) (store_key pre (en_path x)) (object_of x) r = (y, r1)"
    by fastforce
  obtain v where y: "y = Inr v"
    using Cons.prems(1) u upload_entries_error by (cases y) auto
  have rest: "upload_entries cr w n pol pre es None r1 = (None, r')" using Cons.prems(1) u y by simp
  show ?case
  proof (cases "e \<in> set es")
    case True
    with Cons rest show ?thesis by simp
  next
    case False
    then have [simp]: "e = x" using Cons.prems(3) by simp
    have "r' (store_key pre (en_path x)) = r1 (store_key pre (en_path x))"
      using upload_entries_frame[OF rest] Cons.prems(2) by (simp add: image_iff)
    with upload_present[OF u[unfolded y]] show ?thesis by (simp add: listed_intact_def object_of_def)
  qed
qed simp

lemma prune_keys_frame:
  "prune_keys w pre keys k r = (res, r') \<Longrightarrow> key \<notin> store_key pre ` set keys \<Longrightarrow> r' key = r key"
proof (induction keys arbitrary: k r)
  case (Cons x keys)
  then show ?case by (auto split: prod.splits option.splits if_splits)
qed simp

lemma small_frame: "small cr w n pol pre file b r = (res, r') \<Longrightarrow> k \<noteq> store_key pre file \<Longrightarrow> r' k = r k"
  unfolding small_def write_small_def by (rule writing.attempts_frame)

lemma small_present:
  "small cr w n pol pre file b r = (Inr u, r') \<Longrightarrow> \<exists>x. r' (store_key pre file) = Some x \<and> so_content x = b"
  unfolding small_def write_small_def using writing.attempts_present by fastforce

lemma write_state_Inr:
  assumes "write_state cr js w n pol pre current counts r = (Inr c, r')"
  shows "\<exists>m x. manifest_bytes js current = Inr m \<and> r' (store_key pre MANIFEST) = Some x \<and> so_content x = m
    \<and> (\<forall>k. k \<notin> store_key pre ` reserved_paths \<longrightarrow> r' k = r k) \<and> c = counts"
proof -
  obtain m where m: "manifest_bytes js current = Inr m"
    using assms by (auto simp: write_state_def split: sum.splits)
  obtain u1 r1 where s1: "small cr w n pol pre MANIFEST m r = (Inr u1, r1)"
    using assms m by (auto simp: write_state_def split: sum.splits prod.splits)
  obtain s where s: "pw_summary w = Some s"
    using assms m s1 by (auto simp: write_state_def split: option.splits)
  obtain u2 r2 where s2: "small cr w n pol pre SUMMARY s r1 = (Inr u2, r2)"
    using assms m s1 s by (auto simp: write_state_def split: sum.splits prod.splits)
  obtain v u3 where s3: "small cr w n pol pre VERSION v r2 = (Inr u3, r')" "c = counts"
    using assms m s1 s s2 by (auto simp: write_state_def split: option.splits sum.splits prod.splits)
  obtain x where x: "r1 (store_key pre MANIFEST) = Some x" "so_content x = m" using small_present[OF s1] by blast
  have "r' (store_key pre MANIFEST) = Some x"
    using small_frame[OF s2] small_frame[OF s3(1)] x(1) by simp
  moreover have "r' k = r k" if "k \<notin> store_key pre ` reserved_paths" for k
    using that small_frame[OF s1] small_frame[OF s2] small_frame[OF s3(1)] by (simp add: reserved_paths_def)
  ultimately show ?thesis using m x(2) s3(2) by blast
qed


subsection \<open>A whole publication\<close>

lemma carried_facts:
  assumes "keyed previous" "distinct (map en_path (entries p))"
  shows "set (carried_entries lib previous p) \<subseteq> snd ` set previous"
    "e \<in> set (carried_entries lib previous p) \<Longrightarrow> en_path e \<notin> en_path ` set (entries p)"
    "distinct (map en_path (entries p @ carried_entries lib previous p))"
proof -
  show sub: "set (carried_entries lib previous p) \<subseteq> snd ` set previous"
    by (auto simp: carried_entries_def Let_def)
  show new: "en_path e \<notin> en_path ` set (entries p)" if "e \<in> set (carried_entries lib previous p)" for e
    using that by (auto simp: carried_entries_def Let_def split: if_splits)
  have "map fst previous = map (\<lambda>x. en_path (snd x)) previous"
    using assms(1) by (auto simp: keyed_def)
  then have d: "distinct (map (\<lambda>x. en_path (snd x)) previous)"
    using assms(1) bt_ordered_distinct by (metis keyed_def)
  have "distinct (map en_path (filter P (map snd previous)))" for P
    by (rule distinct_map_filter) (use d in \<open>simp add: comp_def\<close>)
  then have "distinct (map en_path (sort_key en_path (filter P (map snd previous))))" for P
    by (metis distinct_map distinct_sort set_sort)
  then have "distinct (map en_path (carried_entries lib previous p))"
    by (auto simp: carried_entries_def Let_def)
  moreover have "en_path ` set (entries p) \<inter> en_path ` set (carried_entries lib previous p) = {}"
  proof (rule equals0I, elim IntE)
    fix x
    assume x: "x \<in> en_path ` set (entries p)" "x \<in> en_path ` set (carried_entries lib previous p)"
    then obtain e where "e \<in> set (carried_entries lib previous p)" "x = en_path e" by blast
    with new x(1) show False by simp
  qed
  ultimately show "distinct (map en_path (entries p @ carried_entries lib previous p))"
    using assms(2) by simp
qed

lemma publish_stable_Inr:
  assumes "publish_stable lib cr js w n pol pre opts p r = (Inr c, r')"
  shows "\<exists>previous r1 r2 counts. previous_manifest js None r (store_key pre MANIFEST) = Inr previous
    \<and> upload_entries cr w n pol pre (pending_entries previous (entries p)) None r = (None, r1)
    \<and> (\<forall>k. k \<notin> store_key pre ` set (obsolete_keys previous (entries p @ carried_entries lib previous p)) \<or> \<not> prune opts
          \<longrightarrow> r2 k = r1 k)
    \<and> write_state cr js w n pol pre (entries p @ carried_entries lib previous p) counts r2 = (Inr c, r')"
proof -
  obtain previous where pm: "previous_manifest js (pw_manifest_error w) r (store_key pre MANIFEST) = Inr previous"
    using assms by (auto simp: publish_stable_def split: sum.splits)
  then have pn: "previous_manifest js None r (store_key pre MANIFEST) = Inr previous"
    by (cases "pw_manifest_error w") (auto simp: previous_manifest_def)
  obtain r1 where u: "upload_entries cr w n pol pre (pending_entries previous (entries p)) None r = (None, r1)"
    using assms pm by (auto simp: publish_stable_def Let_def split: prod.splits option.splits)
  let ?obs = "obsolete_keys previous (entries p @ carried_entries lib previous p)"
  obtain k r2 where pr: "(if prune opts then prune_keys w pre ?obs 0 r1 else (Inr 0, r1)) = (Inr k, r2)"
    using assms pm u by (auto simp: publish_stable_def Let_def split: prod.splits sum.splits)
  have ws: "write_state cr js w n pol pre (entries p @ carried_entries lib previous p)
      ((initial_counts p (pending_entries previous (entries p)) (carried_entries lib previous p))\<lparr>n_pruned := k\<rparr>) r2 = (Inr c, r')"
    using assms pm u pr by (simp add: publish_stable_def Let_def)
  have "r2 key = r1 key" if "key \<notin> store_key pre ` set ?obs \<or> \<not> prune opts" for key
    using pr that prune_keys_frame[of w pre ?obs 0 r1 "Inr k" r2 key] by (cases "prune opts") auto
  with pn u ws show ?thesis by blast
qed

lemma previous_listed:
  assumes "prefix_ok cr js pre r" "previous_manifest js None r (store_key pre MANIFEST) = Inr previous"
  shows "keyed previous" "e \<in> snd ` set previous \<Longrightarrow> listed_intact cr pre r e \<and> en_path e \<notin> reserved_paths"
  using assms
  by (auto simp: previous_manifest_def prefix_ok_def keyed_def[of "[]"] split: option.splits if_splits sum.splits
      intro: parse_manifest_keyed)

text \<open>The effect of a successful publication on the store, in terms of what it published.\<close>

lemma publish_stable_effect:
  assumes "prefix_ok cr js pre r" "distinct (map en_path (entries p))" "\<forall>e\<in>set (entries p). en_path e \<notin> reserved_paths"
    and "publish_stable lib cr js w n pol pre opts p r = (Inr c, r')"
  obtains previous r1 x where "previous_manifest js None r (store_key pre MANIFEST) = Inr previous"
    "upload_entries cr w n pol pre (pending_entries previous (entries p)) None r = (None, r1)"
    "r' (store_key pre MANIFEST) = Some x"
    "manifest_bytes js (entries p @ carried_entries lib previous p) = Inr (so_content x)"
    "\<And>e. e \<in> set (entries p @ carried_entries lib previous p) \<Longrightarrow>
      en_path e \<notin> reserved_paths \<and> r' (store_key pre (en_path e)) = r1 (store_key pre (en_path e))"
    "\<And>k. k \<notin> store_key pre ` (en_path ` set (entries p) \<union> reserved_paths
      \<union> (if prune opts then en_path ` snd ` set previous else {})) \<Longrightarrow> r' k = r k"
proof -
  obtain previous r1 r2 counts where pm: "previous_manifest js None r (store_key pre MANIFEST) = Inr previous"
    and up: "upload_entries cr w n pol pre (pending_entries previous (entries p)) None r = (None, r1)"
    and pr: "\<And>k. k \<notin> store_key pre ` set (obsolete_keys previous (entries p @ carried_entries lib previous p)) \<or> \<not> prune opts
        \<Longrightarrow> r2 k = r1 k"
    and ws: "write_state cr js w n pol pre (entries p @ carried_entries lib previous p) counts r2 = (Inr c, r')"
    using publish_stable_Inr[OF assms(4)] by blast
  note pl = previous_listed[OF assms(1) pm]
  let ?current = "entries p @ carried_entries lib previous p"
  obtain x where m: "manifest_bytes js ?current = Inr (so_content x)" "r' (store_key pre MANIFEST) = Some x"
    and wf: "\<And>k. k \<notin> store_key pre ` reserved_paths \<Longrightarrow> r' k = r2 k"
    using write_state_Inr[OF ws] by blast
  have kept: "en_path e \<notin> reserved_paths \<and> r' (store_key pre (en_path e)) = r1 (store_key pre (en_path e))"
    if e: "e \<in> set ?current" for e
  proof -
    have res: "en_path e \<notin> reserved_paths"
      using e assms(3) carried_facts(1)[where lib = lib, OF pl(1) assms(2)] pl(2) by auto
    then have "r' (store_key pre (en_path e)) = r2 (store_key pre (en_path e))" by (intro wf) simp
    also have "\<dots> = r1 (store_key pre (en_path e))" using e by (intro pr) (auto simp: obsolete_keys_def)
    finally show ?thesis using res by simp
  qed
  have frame: "r' k = r k" if out: "k \<notin> store_key pre ` (en_path ` set (entries p) \<union> reserved_paths
      \<union> (if prune opts then en_path ` snd ` set previous else {}))" for k
  proof -
    have "set (obsolete_keys previous ?current) \<subseteq> en_path ` snd ` set previous"
      using pl(1) by (force simp: obsolete_keys_def keyed_def)
    then have "k \<notin> store_key pre ` set (obsolete_keys previous ?current) \<or> \<not> prune opts"
      using out by (cases "prune opts") auto
    moreover have "set (pending_entries previous (entries p)) \<subseteq> set (entries p)" by (auto simp: pending_entries_def)
    then have "r1 k = r k" using out upload_entries_frame[OF up, of k] by blast
    moreover have "r' k = r2 k" using out by (intro wf) blast
    ultimately show ?thesis using pr[of k] by simp
  qed
  show thesis by (rule that[OF pm up m(2) m(1) kept frame])
qed

text \<open>A file that needs no upload is the one the previous manifest already names.\<close>

lemma unchanged_intact:
  assumes pl: "keyed previous" "\<And>e. e \<in> snd ` set previous \<Longrightarrow> listed_intact cr pre r e"
    and d: "distinct (map en_path (entries p))"
    and up: "upload_entries cr w n pol pre (pending_entries previous (entries p)) None r = (None, r1)"
    and e: "e \<in> set (entries p @ carried_entries lib previous p)" "e \<notin> set (pending_entries previous (entries p))"
  shows "listed_intact cr pre r1 e"
proof -
  note cf = carried_facts[where lib = lib, OF pl(1) d]
  have "\<exists>q\<in>snd ` set previous. en_path q = en_path e \<and> en_bytes q = en_bytes e \<and> en_sha256 q = en_sha256 e"
  proof (cases "e \<in> set (entries p)")
    case True
    with e(2) obtain q where "map_of previous (en_path e) = Some q" "same_file q e"
      by (auto simp: pending_entries_def split: option.splits)
    then show ?thesis using keyed_lookup[OF pl(1)] by (auto simp: same_file_def)
  next
    case False
    then show ?thesis using e(1) cf(1) by auto
  qed
  then have old: "listed_intact cr pre r e" using pl(2) by (fastforce simp: listed_intact_def)
  have "en_path e \<notin> en_path ` set (pending_entries previous (entries p))"
  proof (cases "e \<in> set (entries p)")
    case True
    then show ?thesis using e(2) d by (auto simp: pending_entries_def distinct_map dest: inj_onD)
  next
    case other: False
    then have "en_path e \<notin> en_path ` set (entries p)" using e(1) cf(2) by auto
    then show ?thesis by (auto simp: pending_entries_def)
  qed
  then have "r1 (store_key pre (en_path e)) = r (store_key pre (en_path e))"
    using upload_entries_frame[OF up] by (simp add: image_iff)
  with old show ?thesis by (simp add: listed_intact_def)
qed

text \<open>C4. A publication in place that succeeds leaves a true manifest: if every line of the previous one
  named an intact object, then afterwards the manifest lists exactly the planned and the carried-forward
  files, each of which is in the store with its size and hash, and nothing else was touched but the
  planned keys, the three state files and, when pruning, keys of the previous manifest.\<close>

theorem stable_publication_installs:
  assumes "json_law js" and "prefix_ok cr js pre r"
    and "distinct (map en_path (entries p))" and "\<forall>e\<in>set (entries p). en_path e \<notin> reserved_paths"
    and "publish_stable lib cr js w n pol pre opts p r = (Inr c, r')"
  shows "prefix_ok cr js pre r'
    \<and> (\<exists>previous x m. previous_manifest js None r (store_key pre MANIFEST) = Inr previous
        \<and> r' (store_key pre MANIFEST) = Some x \<and> parse_manifest js (so_content x) = Inr m
        \<and> snd ` set m = (\<lambda>e. e\<lparr>en_local := []\<rparr>) ` set (entries p @ carried_entries lib previous p)
        \<and> (\<forall>e\<in>set (entries p @ carried_entries lib previous p). listed_intact cr pre r' e)
        \<and> (\<forall>k. r' k \<noteq> r k \<longrightarrow> k \<in> store_key pre ` (en_path ` set (entries p) \<union> reserved_paths
              \<union> (if prune opts then en_path ` snd ` set previous else {}))))"
proof -
  obtain previous r1 x where pm: "previous_manifest js None r (store_key pre MANIFEST) = Inr previous"
    and up: "upload_entries cr w n pol pre (pending_entries previous (entries p)) None r = (None, r1)"
    and x: "r' (store_key pre MANIFEST) = Some x"
      "manifest_bytes js (entries p @ carried_entries lib previous p) = Inr (so_content x)"
    and kept: "\<And>e. e \<in> set (entries p @ carried_entries lib previous p) \<Longrightarrow>
      en_path e \<notin> reserved_paths \<and> r' (store_key pre (en_path e)) = r1 (store_key pre (en_path e))"
    and frame: "\<And>k. k \<notin> store_key pre ` (en_path ` set (entries p) \<union> reserved_paths
      \<union> (if prune opts then en_path ` snd ` set previous else {})) \<Longrightarrow> r' k = r k"
    using publish_stable_effect[OF assms(2-5)] by metis
  note pl = previous_listed[OF assms(2) pm]
  have "distinct (map en_path (pending_entries previous (entries p)))"
    using assms(3) by (simp add: pending_entries_def distinct_map_filter)
  then have "listed_intact cr pre r1 e" if "e \<in> set (entries p @ carried_entries lib previous p)" for e
    using upload_entries_present[OF up] unchanged_intact[OF pl(1) _ assms(3) up that] pl(2) by blast
  then have intact: "listed_intact cr pre r' e" if "e \<in> set (entries p @ carried_entries lib previous p)" for e
    using that kept[OF that] by (simp add: listed_intact_def)
  obtain m where m: "parse_manifest js (so_content x) = Inr m"
    "snd ` set m = (\<lambda>e. e\<lparr>en_local := []\<rparr>) ` set (entries p @ carried_entries lib previous p)"
    using manifest_roundtrip[OF assms(1) x(2) _ carried_facts(3)[OF pl(1) assms(3)], of "[]"]
    by (auto simp: parse_manifest_def keyed_def)
  have "prefix_ok cr js pre r'"
    using intact kept x(1) m by (auto simp: prefix_ok_def listed_intact_def)
  then show ?thesis using pm x(1) m intact frame by metis
qed


subsection \<open>Example publications\<close>

lemma listed_intact_code [code]:
  "listed_intact cr pre r e = (case r (store_key pre (en_path e)) of
     None \<Rightarrow> False | Some x \<Rightarrow> intact cr (unat (en_bytes e)) (en_sha256 e) x)"
  by (auto simp: listed_intact_def split: option.splits)

text \<open>Large bounds are compared as integers when evaluating.\<close>

lemma large_bounds_code [code_unfold]:
  "WRITE_CHUNK < k \<longleftrightarrow> 8388608 < int k"
  "MAX_MANIFEST < k \<longleftrightarrow> 1073741824 < int k"
  by (auto simp: WRITE_CHUNK_def MAX_MANIFEST_def)

definition demo_crypto :: crypto where
  "demo_crypto = \<lparr>sha256 = (\<lambda>b. b), hex_encode = map (\<lambda>b. char_of (unat b)), hex_decode = (\<lambda>_ _. None), keystream = (\<lambda>_ _ _. [])\<rparr>"

definition file_entry :: "string \<Rightarrow> string \<Rightarrow> entry" where
  "file_entry path sha = placed (make_entry (demo_resource path ''00000'' [] []) (demo_output path sha None)) path"

definition public_entry :: "entry \<Rightarrow> entry" where
  "public_entry e = e\<lparr>en_local := []\<rparr>"

text \<open>A file \<open>k\<close> with the content \<open>a\<close>, the same file with the content \<open>b\<close>, and another file.\<close>

definition demo_json :: publish_json where
  "demo_json =
     \<lparr>entry_of = (\<lambda>l. if l = [1] then Some (public_entry (file_entry ''k'' ''a''))
          else if l = [2] then Some (public_entry (file_entry ''k'' ''b''))
          else if l = [3] then Some (public_entry (file_entry ''z'' ''c'')) else None),
      entry_json = (\<lambda>e. if e = public_entry (file_entry ''k'' ''a'') then Some [1]
          else if e = public_entry (file_entry ''k'' ''b'') then Some [2]
          else if e = public_entry (file_entry ''z'' ''c'') then Some [3] else None),
      version_json = (\<lambda>_ _ _. Some [7])\<rparr>"

definition good_attempt :: "byte list \<Rightarrow> attempt" where
  "good_attempt c = \<lparr>at_gate = None, at_meta = Inr (True, length c), at_open = None, at_reads = [Inr c],
     at_write = (\<lambda>_. None), at_stored = True, at_close = None, at_check = None, at_pause_cancelled = False\<rparr>"

text \<open>A world where \<open>k\<close> holds \<open>c\<close> and where uploading \<open>z\<close> fails if \<open>bad\<close>.\<close>

definition demo_world :: "byte list \<Rightarrow> bool \<Rightarrow> publish_world" where
  "demo_world c bad =
     \<lparr>pw_manifest_error = None,
      pw_upload = (\<lambda>path _. if path = ''k'' then good_attempt c
        else (good_attempt [99])\<lparr>at_gate := if bad then Some error.Transport else None\<rparr>),
      pw_started = (\<lambda>_. False), pw_delete = (\<lambda>_. (True, None)), pw_small = (\<lambda>_ _. good_attempt []),
      pw_summary = Some [8]\<rparr>"

definition plan_of :: "entry list \<Rightarrow> stable_plan" where
  "plan_of es = \<lparr>entries = es, deduplicated = 0, renamed = 0, failed_sources = []\<rparr>"

definition demo_publish :: "byte list \<Rightarrow> bool \<Rightarrow> entry list \<Rightarrow> object_store \<Rightarrow> (error + stable_counts) \<times> object_store" where
  "demo_publish c bad es r =
     publish_stable demo_layout_lib demo_crypto demo_json (demo_world c bad) 3 (\<lambda>_. False) ''hk'' layout_default (plan_of es) r"

lemma demo_json_law: "json_law demo_json"
proof -
  have "public_entry (file_entry ''k'' ''a'') \<noteq> public_entry (file_entry ''k'' ''b'')"
    "public_entry (file_entry ''k'' ''a'') \<noteq> public_entry (file_entry ''z'' ''c'')"
    "public_entry (file_entry ''k'' ''b'') \<noteq> public_entry (file_entry ''z'' ''c'')"
    by (simp_all add: public_entry_def file_entry_def placed_def make_entry_def demo_output_def)
  then show ?thesis by (auto simp: json_law_def demo_json_def)
qed

lemma demo_first: "is_ok (fst (demo_publish [97] False [file_entry ''k'' ''a''] (\<lambda>_. None)))"
  by code_simp

theorem stable_publication_installs_witness:
  "\<exists>c r. demo_publish [97] False [file_entry ''k'' ''a''] (\<lambda>_. None) = (Inr c, r) \<and> prefix_ok demo_crypto demo_json ''hk'' r"
proof -
  let ?e = "file_entry ''k'' ''a''"
  obtain c r where run: "demo_publish [97] False [?e] (\<lambda>_. None) = (Inr c, r)"
    using demo_first by (cases "demo_publish [97] False [?e] (\<lambda>_. None)") (auto simp: is_ok_iff)
  have "prefix_ok demo_crypto demo_json ''hk'' r"
    using stable_publication_installs[OF demo_json_law _ _ _ run[unfolded demo_publish_def]]
    by (simp add: prefix_ok_def plan_of_def file_entry_def placed_def reserved_paths_def MANIFEST_def SUMMARY_def VERSION_def)
  with run show ?thesis by blast
qed

text \<open>A publication that fails half-way can go unnoticed: after a first release is published, a second
  one uploads a changed file and fails on another; publishing the first release again then succeeds
  without uploading anything, because the manifest still names the first release's content, and the
  manifest is false: the file in the store is the second release's.\<close>

theorem failed_publication_goes_unnoticed:
  "let run1 = demo_publish [97] False [file_entry ''k'' ''a''] (\<lambda>_. None);
       run2 = demo_publish [98] True [file_entry ''k'' ''b'', file_entry ''z'' ''c''] (snd run1);
       run3 = demo_publish [97] False [file_entry ''k'' ''a''] (snd run2) in
   is_ok (fst run1) \<and> prefix_ok demo_crypto demo_json ''hk'' (snd run1)
   \<and> fst run2 = Inl error.Transport
   \<and> map_sum id n_uploaded (fst run3) = Inr 0 \<and> \<not> prefix_ok demo_crypto demo_json ''hk'' (snd run3)
   \<and> map_option so_content (snd run3 ''hk/k'') = Some [98]"
  by code_simp

end
