(* ===== verification/Storage_Run.thy ===== *)
theory Storage_Run
  imports Storage_Config Stable_State
begin

text \<open>
  A whole publication (\<open>publish_with_progress\<close> of \<open>src/storage.rs\<close>): the export is verified first,
  every provider gets its target, stable layouts their plan, then the files go to one provider after the
  other, the completion markers are written when all of them have everything, and only then the local
  export may be removed. The verification of the export (\<open>src/export_verify.rs\<close>), the operators, the
  UUID and the cancellation are inputs; progress is left out, and byte totals are unbounded.
\<close>

record verified_report =
  vr_summary_sha256 :: string
  vr_journal_sha256 :: string
  vr_json :: "byte list option"

text \<open>\<open>sw_inventory\<close> is what reading the inventory yields line by line; \<open>sw_site\<close> the surroundings of the
  \<open>i\<close>-th provider; \<open>sw_journal\<close> the lines of the export's journal.\<close>

record storage_world =
  sw_verified :: "error + verified_report"
  sw_inventory :: "(error + upload_object) list"
  sw_canonical :: bool
  sw_uuid :: string
  sw_operator :: "nat \<Rightarrow> error + unit"
  sw_site :: "nat \<Rightarrow> publish_world"
  sw_report_of :: "string \<Rightarrow> resource_report option"
  sw_journal :: "(unit + string) list option"
  sw_stopped :: bool
  sw_recheck :: "error + verified_report"
  sw_removed :: bool

text \<open>The libraries of a publication.\<close>

record publication_lib =
  pl_storage :: storage_lib
  pl_join_url :: "url \<Rightarrow> string list \<Rightarrow> string"
  pl_layout :: layout_lib
  pl_crypto :: crypto
  pl_json :: publish_json

text \<open>A provider during a publication.\<close>

record site =
  site_policy :: public_policy
  site_target :: target
  site_plan :: "(layout_options \<times> stable_plan) option"
  site_world :: publish_world
  site_remote :: object_store

subsection \<open>Preparation\<close>

definition prepare_site ::
  "publication_lib \<Rightarrow> storage_world \<Rightarrow> region \<Rightarrow> nat \<times> storage_provider \<times> object_store \<Rightarrow> error + site" where
  "prepare_site lib w rg = (\<lambda>(i, p, r).
     and_then (sw_operator w i) (\<lambda>_.
     and_then (public_read_policy (pl_storage lib) p) (\<lambda>pol.
     and_then (provider_target (pl_storage lib) (pl_join_url lib) rg (sw_uuid w) p) (\<lambda>t.
     Inr \<lparr>site_policy = pol, site_target = t, site_plan = None, site_world = sw_site w i, site_remote = r\<rparr>))))"

text \<open>The plan of a stable layout; a planner that panics is \<open>Error::Io\<close>, and \<open>None\<close> does not end.\<close>

definition plan_site ::
  "publication_lib \<Rightarrow> storage_world \<Rightarrow> storage_provider \<times> site \<Rightarrow> (error + site) option" where
  "plan_site lib w = (\<lambda>(p, s).
     (case layout_stable (sp_layout p) of
        None \<Rightarrow> Some (Inr s)
      | Some opts \<Rightarrow>
          (case stable_plan_of (pl_layout lib) (sw_report_of w) (sw_journal w) opts of
             None \<Rightarrow> None
           | Some (Inl None) \<Rightarrow> Some (Inl error.Io)
           | Some (Inl (Some e)) \<Rightarrow> Some (Inl e)
           | Some (Inr plan) \<Rightarrow> Some (Inr (s\<lparr>site_plan := Some (opts, plan)\<rparr>)))))"

fun plan_sites ::
  "publication_lib \<Rightarrow> storage_world \<Rightarrow> (storage_provider \<times> site) list \<Rightarrow> (error + site list) option" where
  "plan_sites lib w [] = Some (Inr [])"
| "plan_sites lib w (x # xs) =
     (case plan_site lib w x of
        None \<Rightarrow> None
      | Some (Inl e) \<Rightarrow> Some (Inl e)
      | Some (Inr s) \<Rightarrow> map_option (\<lambda>r. and_then r (\<lambda>ss. Inr (s # ss))) (plan_sites lib w xs))"

text \<open>\<open>verified_inventory\<close>: path to size and hash; a later line wins.\<close>

definition inventory_map :: "upload_object list \<Rightarrow> string \<rightharpoonup> u64 \<times> string" where
  "inventory_map os = map_of (rev (map (\<lambda>x. (uo_path x, uo_bytes x, uo_sha256 x)) os))"

definition plans_verified :: "upload_object list \<Rightarrow> site list \<Rightarrow> bool" where
  "plans_verified os sites \<longleftrightarrow>
     list_all (\<lambda>s. case site_plan s of
          None \<Rightarrow> True
        | Some (_, plan) \<Rightarrow>
            list_all (\<lambda>e. inventory_map os (en_local e) = Some (en_bytes e, en_sha256 e)) (entries plan)) sites"

definition check_plans :: "storage_world \<Rightarrow> site list \<Rightarrow> error + unit" where
  "check_plans w sites =
     (if list_ex (\<lambda>s. site_plan s \<noteq> None) sites then
        and_then (collect_results (\<lambda>x. x) (sw_inventory w)) (\<lambda>os.
        fail_if (\<not> plans_verified os sites) error.Verification)
      else Inr ())"

subsection \<open>Uploads\<close>

text \<open>An immutable tree: every object of the inventory below the target's prefix.\<close>

fun upload_inventory ::
  "crypto \<Rightarrow> publish_world \<Rightarrow> nat \<Rightarrow> (string \<Rightarrow> bool) \<Rightarrow> string \<Rightarrow> (error + upload_object) list \<Rightarrow> error option \<Rightarrow> object_store
   \<Rightarrow> error option \<times> object_store" where
  "upload_inventory cr w n pol pre [] err r = (err, r)"
| "upload_inventory cr w n pol pre (Inl e # xs) err r =
     upload_inventory cr w n pol pre xs (case err of None \<Rightarrow> Some e | Some y \<Rightarrow> Some y) r"
| "upload_inventory cr w n pol pre (Inr x # xs) err r =
     (if err \<noteq> None \<and> \<not> pw_started w (uo_path x) then upload_inventory cr w n pol pre xs err r
      else
        (case upload cr n (pw_upload w (uo_path x)) (pol (uo_path x)) (store_key pre (uo_path x)) x r of
           (Inl e, r') \<Rightarrow> upload_inventory cr w n pol pre xs (case err of None \<Rightarrow> Some e | Some y \<Rightarrow> Some y) r'
         | (Inr _, r') \<Rightarrow> upload_inventory cr w n pol pre xs err r'))"

definition upload_site ::
  "publication_lib \<Rightarrow> storage_world \<Rightarrow> nat \<Rightarrow> site \<Rightarrow> (error + stable_counts option) \<times> site" where
  "upload_site lib w n s =
     (let pol = policy_matches (site_policy s); pre = tg_prefix (site_target s) in
      case site_plan s of
        Some (opts, plan) \<Rightarrow>
          (case publish_stable (pl_layout lib) (pl_crypto lib) (pl_json lib) (site_world s) n pol pre opts plan (site_remote s) of
             (Inl e, r) \<Rightarrow> (Inl e, s\<lparr>site_remote := r\<rparr>)
           | (Inr c, r) \<Rightarrow> (Inr (Some c), s\<lparr>site_remote := r\<rparr>))
      | None \<Rightarrow>
          (case upload_inventory (pl_crypto lib) (site_world s) n pol pre (sw_inventory w) None (site_remote s) of
             (Some e, r) \<Rightarrow> (Inl e, s\<lparr>site_remote := r\<rparr>)
           | (None, r) \<Rightarrow> (Inr None, s\<lparr>site_remote := r\<rparr>)))"

fun upload_sites ::
  "publication_lib \<Rightarrow> storage_world \<Rightarrow> nat \<Rightarrow> site list \<Rightarrow> (error + stable_counts option list) \<times> site list" where
  "upload_sites lib w n [] = (Inr [], [])"
| "upload_sites lib w n (s # ss) =
     (case upload_site lib w n s of
        (Inl e, s') \<Rightarrow> (Inl e, s' # ss)
      | (Inr c, s') \<Rightarrow>
          (case upload_sites lib w n ss of (r, ss') \<Rightarrow> (and_then r (\<lambda>cs. Inr (c # cs)), s' # ss')))"

definition MARKER :: string where
  "MARKER = ''complete.json''"

text \<open>Consumers must ignore a tree without this last, verified marker.\<close>

fun write_markers :: "publication_lib \<Rightarrow> nat \<Rightarrow> byte list \<Rightarrow> site list \<Rightarrow> (error + unit) \<times> site list" where
  "write_markers lib n marker [] = (Inr (), [])"
| "write_markers lib n marker (s # ss) =
     (if site_plan s \<noteq> None then (case write_markers lib n marker ss of (r, ss') \<Rightarrow> (r, s # ss'))
      else
        (case small (pl_crypto lib) (site_world s) n (policy_matches (site_policy s)) (tg_prefix (site_target s)) MARKER marker
                (site_remote s) of
           (Inl e, r) \<Rightarrow> (Inl e, s\<lparr>site_remote := r\<rparr> # ss)
         | (Inr _, r) \<Rightarrow> (case write_markers lib n marker ss of (x, ss') \<Rightarrow> (x, s\<lparr>site_remote := r\<rparr> # ss'))))"

subsection \<open>The run\<close>

definition prepare_sites ::
  "publication_lib \<Rightarrow> storage_world \<Rightarrow> region \<Rightarrow> storage_config \<Rightarrow> object_store list
   \<Rightarrow> error + storage_config \<times> verified_report \<times> site list" where
  "prepare_sites lib w rg c rs =
     and_then (fail_if (rg = Cn) error.ReservedRegion) (\<lambda>_.
     and_then (storage_resolved rg c) (\<lambda>res.
     and_then (validate_resolved (pl_storage lib) res) (\<lambda>_.
     and_then (sw_verified w) (\<lambda>report.
     and_then (fail_if (\<not> sw_canonical w) error.Io) (\<lambda>_.
     and_then (collect_results (prepare_site lib w rg) (zip [0..<length (providers res)] (zip (providers res) rs))) (\<lambda>sites.
     Inr (res, report, sites)))))))"

text \<open>After the uploads: the markers, a last look at the cancellation, and the removal of the export, which
  is refused when it has changed.\<close>

definition finish_run ::
  "publication_lib \<Rightarrow> storage_world \<Rightarrow> storage_config \<Rightarrow> verified_report \<Rightarrow> site list \<Rightarrow> (error + unit) \<times> site list" where
  "finish_run lib w c report sites =
     (case ok_or error.Verification (vr_json report) of
        Inl e \<Rightarrow> (Inl e, sites)
      | Inr marker \<Rightarrow>
          (case write_markers lib (sc_attempts c) marker sites of
             (Inl e, sites') \<Rightarrow> (Inl e, sites')
           | (Inr _, sites') \<Rightarrow>
               (and_then (fail_if (sw_stopped w) error.Cancelled) (\<lambda>_.
                if \<not> remove_local_after_upload c then Inr ()
                else
                  and_then (sw_recheck w) (\<lambda>again.
                  and_then (fail_if (vr_summary_sha256 again \<noteq> vr_summary_sha256 report
                      \<or> vr_journal_sha256 again \<noteq> vr_journal_sha256 report) error.Verification) (\<lambda>_.
                  fail_if (\<not> sw_removed w) error.Io))), sites')))"

text \<open>The result is the error or the targets with their counts, and the providers' stores. \<open>None\<close> does not
  end.\<close>

definition publish_run ::
  "publication_lib \<Rightarrow> storage_world \<Rightarrow> region \<Rightarrow> storage_config \<Rightarrow> object_store list
   \<Rightarrow> ((error + (target \<times> stable_counts option) list) \<times> object_store list) option" where
  "publish_run lib w rg c rs =
     (case prepare_sites lib w rg c rs of
        Inl e \<Rightarrow> Some (Inl e, rs)
      | Inr (res, report, sites) \<Rightarrow>
          (case plan_sites lib w (zip (providers res) sites) of
             None \<Rightarrow> None
           | Some (Inl e) \<Rightarrow> Some (Inl e, rs)
           | Some (Inr ready) \<Rightarrow>
               (case check_plans w ready of
                  Inl e \<Rightarrow> Some (Inl e, rs)
                | Inr _ \<Rightarrow>
                    (case upload_sites lib w (sc_attempts res) ready of
                       (Inl e, ss) \<Rightarrow> Some (Inl e, map site_remote ss)
                     | (Inr cs, ss) \<Rightarrow>
                         (case finish_run lib w res report ss of
                            (Inl e, ss') \<Rightarrow> Some (Inl e, map site_remote ss')
                          | (Inr _, ss') \<Rightarrow>
                              Some (Inr (zip (map site_target ss') cs), map site_remote ss'))))))"

subsection \<open>Steps of a run\<close>

definition marker_key :: "site \<Rightarrow> string" where
  "marker_key s = store_key (tg_prefix (site_target s)) MARKER"

definition published_object :: "crypto \<Rightarrow> site \<Rightarrow> upload_object \<Rightarrow> bool" where
  "published_object cr s x \<longleftrightarrow>
     (\<exists>y. site_remote s (store_key (tg_prefix (site_target s)) (uo_path x)) = Some y
       \<and> intact cr (unat (uo_bytes x)) (uo_sha256 x) y)"

text \<open>A step keeps the identity of a site, and does not touch the marker of an immutable tree.\<close>

definition unmarked_step :: "site \<Rightarrow> site \<Rightarrow> bool" where
  "unmarked_step s t \<longleftrightarrow>
     site_target t = site_target s \<and> site_plan t = site_plan s
     \<and> (site_plan s = None \<longrightarrow> site_remote t (marker_key s) = site_remote s (marker_key s))"

definition marker_step :: "site \<Rightarrow> site \<Rightarrow> bool" where
  "marker_step s t \<longleftrightarrow>
     site_target t = site_target s \<and> site_plan t = site_plan s
     \<and> (\<forall>k. k \<noteq> marker_key s \<longrightarrow> site_remote t k = site_remote s k)"

lemma step_refl [simp]: "unmarked_step s s" "marker_step s s"
  by (simp_all add: unmarked_step_def marker_step_def)

lemma steps_refl: "list_all2 unmarked_step ss ss" "list_all2 marker_step ss ss"
  by (simp_all add: list.rel_refl)

lemma upload_inventory_frame:
  "upload_inventory cr w n pol pre xs err r = (res, r') \<Longrightarrow> k \<notin> store_key pre ` uo_path ` {x. Inr x \<in> set xs} \<Longrightarrow> r' k = r k"
proof (induction cr w n pol pre xs err r rule: upload_inventory.induct)
  case (3 cr w n pol pre x xs err r)
  obtain y r1 where u: "upload cr n (pw_upload w (uo_path x)) (pol (uo_path x)) (store_key pre (uo_path x)) x r = (y, r1)"
    by fastforce
  have "r1 k = r k" using upload_frame[OF u] 3(5) by auto
  with 3 u show ?case by (auto split: if_splits sum.splits)
qed (auto split: option.splits)

lemma upload_inventory_error: "upload_inventory cr w n pol pre xs (Some e) r \<noteq> (None, r')"
  by (induction cr w n pol pre xs "Some e" r arbitrary: e rule: upload_inventory.induct)
    (auto split: if_splits sum.splits prod.splits)

lemma upload_inventory_present:
  "upload_inventory cr w n pol pre (map Inr os) None r = (None, r') \<Longrightarrow> distinct (map uo_path os) \<Longrightarrow> x \<in> set os
   \<Longrightarrow> \<exists>y. r' (store_key pre (uo_path x)) = Some y \<and> intact cr (unat (uo_bytes x)) (uo_sha256 x) y"
proof (induction os arbitrary: r)
  case (Cons z os)
  obtain y r1 where u: "upload cr n (pw_upload w (uo_path z)) (pol (uo_path z)) (store_key pre (uo_path z)) z r = (y, r1)"
    by fastforce
  obtain v where y: "y = Inr v"
    using Cons.prems(1) u upload_inventory_error by (cases y) auto
  have rest: "upload_inventory cr w n pol pre (map Inr os) None r1 = (None, r')" using Cons.prems(1) u y by simp
  show ?case
  proof (cases "x \<in> set os")
    case True
    with Cons rest show ?thesis by simp
  next
    case False
    then have [simp]: "x = z" using Cons.prems(3) by simp
    have "uo_path z \<notin> uo_path ` {x. Inr x \<in> set (map Inr os)}"
      using Cons.prems(2) by auto
    then have "r' (store_key pre (uo_path z)) = r1 (store_key pre (uo_path z))"
      by (intro upload_inventory_frame[OF rest]) simp
    with upload_present[OF u[unfolded y]] show ?thesis by simp
  qed
qed simp

lemma upload_site_step:
  assumes inv: "sw_inventory w = map Inr os" "distinct (map uo_path os)" "MARKER \<notin> uo_path ` set os"
    and u: "upload_site lib w n s = (res, t)"
  shows "unmarked_step s t \<and> (is_ok res \<longrightarrow> site_plan s = None \<longrightarrow> list_all (published_object (pl_crypto lib) t) os)"
proof (cases "site_plan s")
  case None
  obtain err r where i: "upload_inventory (pl_crypto lib) (site_world s) n (policy_matches (site_policy s))
      (tg_prefix (site_target s)) (map Inr os) None (site_remote s) = (err, r)" by fastforce
  have t: "t = s\<lparr>site_remote := r\<rparr>" "is_ok res \<longleftrightarrow> err = None"
    using u None i inv(1) by (auto simp: upload_site_def Let_def split: option.splits)
  have "MARKER \<notin> uo_path ` {x. Inr x \<in> set (map Inr os)}" using inv(3) by auto
  then have "r (marker_key s) = site_remote s (marker_key s)"
    unfolding marker_key_def by (intro upload_inventory_frame[OF i]) simp
  moreover have "list_all (published_object (pl_crypto lib) t) os" if "err = None"
    using upload_inventory_present[OF i[unfolded that] inv(2)] t(1)
    by (auto simp: list_all_iff published_object_def)
  ultimately show ?thesis using t None by (simp add: unmarked_step_def)
next
  case (Some plan)
  then show ?thesis using u
    by (auto simp: upload_site_def Let_def unmarked_step_def split: prod.splits sum.splits)
qed

lemma upload_sites_steps:
  assumes inv: "sw_inventory w = map Inr os" "distinct (map uo_path os)" "MARKER \<notin> uo_path ` set os"
  shows "upload_sites lib w n ss = (res, ts) \<Longrightarrow> list_all2 unmarked_step ss ts
    \<and> (is_ok res \<longrightarrow> list_all (\<lambda>t. site_plan t = None \<longrightarrow> list_all (published_object (pl_crypto lib) t) os) ts)"
proof (induction ss arbitrary: res ts)
  case (Cons s ss)
  obtain c t where s: "upload_site lib w n s = (c, t)" by fastforce
  note step = upload_site_step[OF inv s]
  show ?case
  proof (cases c)
    case (Inl e)
    with Cons.prems s step steps_refl(1) show ?thesis by auto
  next
    case (Inr v)
    obtain r' ts' where r: "upload_sites lib w n ss = (r', ts')" by fastforce
    have "ts = t # ts'" "is_ok res \<longleftrightarrow> is_ok r'"
      using Cons.prems s Inr r by (auto simp: is_ok_def and_then_def split: sum.splits)
    with step Cons.IH[OF r] Inr show ?thesis by (auto simp: unmarked_step_def)
  qed
qed simp

lemma write_markers_steps:
  "write_markers lib n marker ss = (res, ts) \<Longrightarrow> list_all2 marker_step ss ts
    \<and> (is_ok res \<longrightarrow> list_all (\<lambda>t. site_plan t = None \<longrightarrow>
         (\<exists>x. site_remote t (marker_key t) = Some x \<and> so_content x = marker)) ts)"
proof (induction ss arbitrary: res ts)
  case (Cons s ss)
  obtain r' ts' where r: "write_markers lib n marker ss = (r', ts')" by fastforce
  show ?case
  proof (cases "site_plan s")
    case (Some p)
    with Cons.prems r Cons.IH[OF r] show ?thesis by auto
  next
    case None
    obtain c q where w: "small (pl_crypto lib) (site_world s) n (policy_matches (site_policy s)) (tg_prefix (site_target s))
        MARKER marker (site_remote s) = (c, q)" by fastforce
    have step: "marker_step s (s\<lparr>site_remote := q\<rparr>)"
      using small_frame[OF w] by (simp add: marker_step_def marker_key_def)
    show ?thesis
    proof (cases c)
      case (Inl e)
      with Cons.prems None w step steps_refl(2) show ?thesis by auto
    next
      case (Inr v)
      have "\<exists>x. q (marker_key s) = Some x \<and> so_content x = marker"
        using small_present[OF w[unfolded Inr]] by (simp add: marker_key_def)
      with Cons.prems None w Inr step r Cons.IH[OF r] show ?thesis by (auto simp: marker_key_def)
    qed
  qed
qed simp

subsection \<open>Markers\<close>

lemma prepare_site_Inr:
  "prepare_site lib w rg (i, p, r) = Inr s \<Longrightarrow> site_remote s = r \<and> site_plan s = None"
  by (auto simp: prepare_site_def result_simps)

lemma prepare_sites_Inr:
  assumes "prepare_sites lib w rg c rs = Inr (res, report, sites)" "length rs = length (providers c)"
  shows "length sites = length rs" "length (providers res) = length rs"
    "i < length sites \<Longrightarrow> site_remote (sites ! i) = rs ! i \<and> site_plan (sites ! i) = None"
proof -
  have "collect_results (provider_resolved rg) (providers c) = Inr (providers res)"
    using assms(1) by (auto simp: prepare_sites_def storage_resolved_def result_simps)
  then show n: "length (providers res) = length rs"
    using assms(2) by (auto simp: collect_results_Inr dest: list_all2_lengthD)
  have l: "list_all2 (\<lambda>x s. prepare_site lib w rg x = Inr s)
      (zip [0..<length (providers res)] (zip (providers res) rs)) sites"
    using assms(1) by (auto simp: prepare_sites_def result_simps collect_results_Inr)
  then show "length sites = length rs" using n by (auto dest: list_all2_lengthD)
  then show "site_remote (sites ! i) = rs ! i \<and> site_plan (sites ! i) = None" if "i < length sites"
    using prepare_site_Inr[of lib w rg i "providers res ! i" "rs ! i"] list_all2_nthD2[OF l that] that n by simp
qed

lemma plan_sites_Inr:
  "plan_sites lib w xs = Some (Inr ss) \<Longrightarrow>
     list_all2 (\<lambda>(p, s) t. site_target t = site_target s \<and> site_remote t = site_remote s
       \<and> (site_plan s = None \<longrightarrow> (site_plan t = None \<longleftrightarrow> layout_stable (sp_layout p) = None))) xs ss"
proof (induction xs arbitrary: ss)
  case (Cons x xs)
  obtain p s where x: "x = (p, s)" by fastforce
  obtain t where t: "plan_site lib w (p, s) = Some (Inr t)"
    using Cons.prems x by (auto split: option.splits sum.splits)
  then obtain ts where ts: "plan_sites lib w xs = Some (Inr ts)" "ss = t # ts"
    using Cons.prems x by (auto simp: result_simps)
  have "site_target t = site_target s \<and> site_remote t = site_remote s
      \<and> (site_plan s = None \<longrightarrow> (site_plan t = None \<longleftrightarrow> layout_stable (sp_layout p) = None))"
    using t by (auto simp: plan_site_def split: option.splits sum.splits)
  with Cons.IH[OF ts(1)] ts(2) x show ?case by simp
qed simp

lemma publish_run_stages:
  assumes run: "publish_run lib w rg c rs = Some (r, rs')"
    and prep: "prepare_sites lib w rg c rs = Inr (res, report, sites)"
    and len: "length rs = length (providers c)"
  obtains (early) e where "r = Inl e" "rs' = rs"
    | (failed) ready ss e where "plan_sites lib w (zip (providers res) sites) = Some (Inr ready)"
        "upload_sites lib w (sc_attempts res) ready = (Inl e, ss)" "r = Inl e" "rs' = map site_remote ss"
    | (uploaded) ready cs ss x ss' where "plan_sites lib w (zip (providers res) sites) = Some (Inr ready)"
        "upload_sites lib w (sc_attempts res) ready = (Inr cs, ss)" "finish_run lib w res report ss = (x, ss')"
        "is_ok r \<longleftrightarrow> is_ok x" "rs' = map site_remote ss'"
proof -
  obtain pr where p: "plan_sites lib w (zip (providers res) sites) = Some pr"
    using run prep by (auto simp: publish_run_def split: option.splits)
  show thesis
  proof (cases pr)
    case (Inl e)
    then have "r = Inl e" "rs' = rs" using run prep p by (simp_all add: publish_run_def)
    then show thesis by (rule early)
  next
    case (Inr ready)
    show thesis
    proof (cases "check_plans w ready")
      case (Inl e)
      then have "r = Inl e" "rs' = rs" using run prep p Inr by (simp_all add: publish_run_def)
      then show thesis by (rule early)
    next
      case chk: (Inr u)
      obtain y ss where u: "upload_sites lib w (sc_attempts res) ready = (y, ss)" by fastforce
      show thesis
      proof (cases y)
        case (Inl e)
        with run prep p Inr chk u failed[of ready e ss] show thesis by (simp add: publish_run_def)
      next
        case cs: (Inr cs)
        obtain x ss' where f: "finish_run lib w res report ss = (x, ss')" by fastforce
        have "is_ok r \<longleftrightarrow> is_ok x" "rs' = map site_remote ss'"
          using run prep p Inr chk u cs f by (auto simp: publish_run_def split: sum.splits)
        with p Inr u cs f uploaded[of ready cs ss x ss'] show thesis by simp
      qed
    qed
  qed
qed

lemma finish_run_steps:
  assumes "finish_run lib w c report ss = (x, ts)"
  shows "list_all2 marker_step ss ts \<and> (is_ok x \<longrightarrow> (\<exists>m. vr_json report = Some m
    \<and> list_all (\<lambda>t. site_plan t = None \<longrightarrow> (\<exists>y. site_remote t (marker_key t) = Some y \<and> so_content y = m)) ts))"
proof (cases "vr_json report")
  case None
  with assms steps_refl(2) show ?thesis by (auto simp: finish_run_def)
next
  case (Some m)
  obtain y ts' where w: "write_markers lib (sc_attempts c) m ss = (y, ts')" by fastforce
  have "ts = ts'" "is_ok x \<longrightarrow> is_ok y"
    using assms Some w by (auto simp: finish_run_def split: sum.splits)
  with write_markers_steps[OF w] Some show ?thesis by auto
qed

text \<open>The sites of immutable trees after planning, and after a run that reached its markers.\<close>

lemma ready_site:
  assumes prep: "prepare_sites lib w rg c rs = Inr (res, report, sites)" and len: "length rs = length (providers c)"
    and plan: "plan_sites lib w (zip (providers res) sites) = Some (Inr ready)"
  shows "length ready = length sites"
    "j < length sites \<Longrightarrow> layout_stable (sp_layout (providers res ! j)) = None \<Longrightarrow>
       site_target (ready ! j) = site_target (sites ! j) \<and> site_remote (ready ! j) = rs ! j \<and> site_plan (ready ! j) = None"
proof -
  note P = prepare_sites_Inr[OF prep len] and p = plan_sites_Inr[OF plan]
  show l: "length ready = length sites" using list_all2_lengthD[OF p] P by simp
  show "site_target (ready ! j) = site_target (sites ! j) \<and> site_remote (ready ! j) = rs ! j \<and> site_plan (ready ! j) = None"
    if "j < length sites" "layout_stable (sp_layout (providers res ! j)) = None"
    using list_all2_nthD2[OF p, of j] l P that by auto
qed

lemma finished_site:
  assumes inv: "sw_inventory w = map Inr os" "distinct (map uo_path os)" "MARKER \<notin> uo_path ` set os"
    and up: "upload_sites lib w n ready = (Inr cs, ss)" and fin: "finish_run lib w c report ss = (x, ss')"
    and j: "j < length ready" "site_plan (ready ! j) = None"
  shows "length ss' = length ready \<and> site_target (ss' ! j) = site_target (ready ! j) \<and> site_plan (ss' ! j) = None
    \<and> (\<forall>z\<in>set os. published_object (pl_crypto lib) (ss' ! j) z)"
proof -
  have u: "list_all2 unmarked_step ready ss"
    "list_all (\<lambda>t. site_plan t = None \<longrightarrow> list_all (published_object (pl_crypto lib) t) os) ss"
    using upload_sites_steps[OF inv up] by simp_all
  have f: "list_all2 marker_step ss ss'" using finish_run_steps[OF fin] by simp
  have l: "length ss = length ready" "length ss' = length ready"
    using list_all2_lengthD[OF u(1)] list_all2_lengthD[OF f] by simp_all
  have a: "site_target (ss ! j) = site_target (ready ! j) \<and> site_plan (ss ! j) = None"
    using list_all2_nthD[OF u(1) j(1)] j(2) by (simp add: unmarked_step_def)
  have b: "marker_step (ss ! j) (ss' ! j)" using list_all2_nthD[OF f] j(1) l(1) by simp
  have "published_object (pl_crypto lib) (ss ! j) z \<and> uo_path z \<noteq> MARKER" if "z \<in> set os" for z
    using u(2) a l(1) j(1) that inv(3) by (auto simp: list_all_iff list_all_length intro: rev_image_eqI)
  with a b l(2) show ?thesis by (simp add: published_object_def marker_step_def marker_key_def)
qed

text \<open>C5. The completion marker tells the truth: whatever goes wrong, if an immutable target has a marker
  after a run and had none before, then every object of the verified export is in the store, with its
  size and hash, below the prefix of every immutable target of the run; and a run that succeeds leaves
  the marker with the verified report at each of them.\<close>

theorem marker_completes_publication:
  assumes "publish_run lib w rg c rs = Some (r, rs')"
    and "prepare_sites lib w rg c rs = Inr (res, report, sites)" and "length rs = length (providers c)"
    and "sw_inventory w = map Inr os" and "distinct (map uo_path os)" and "MARKER \<notin> uo_path ` set os"
    and "i < length sites" and "layout_stable (sp_layout (providers res ! i)) = None"
  shows "((rs ! i) (marker_key (sites ! i)) = None \<longrightarrow> (rs' ! i) (marker_key (sites ! i)) \<noteq> None \<longrightarrow>
      (\<forall>j<length sites. layout_stable (sp_layout (providers res ! j)) = None \<longrightarrow>
        (\<forall>x\<in>set os. published_object (pl_crypto lib) ((sites ! j)\<lparr>site_remote := rs' ! j\<rparr>) x)))
    \<and> (is_ok r \<longrightarrow> (\<exists>y. (rs' ! i) (marker_key (sites ! i)) = Some y \<and> vr_json report = Some (so_content y)))"
  using assms(1-3)
proof (cases rule: publish_run_stages)
  case (early e)
  then show ?thesis by simp
next
  case (failed ready ss e)
  note R = ready_site[OF assms(2,3) failed(1)]
  have "list_all2 unmarked_step ready ss" using upload_sites_steps[OF assms(4-6) failed(2)] by simp
  then have "unmarked_step (ready ! i) (ss ! i)" "i < length ss"
    using assms(7) R(1) by (auto dest: list_all2_nthD list_all2_lengthD)
  with R(2)[OF assms(7,8)] have "(rs' ! i) (marker_key (sites ! i)) = (rs ! i) (marker_key (sites ! i))"
    by (simp add: failed(4) unmarked_step_def marker_key_def)
  then show ?thesis using failed(3) by simp
next
  case (uploaded ready cs ss x ss')
  note R = ready_site[OF assms(2,3) uploaded(1)]
  have site: "rs' ! j = site_remote (ss' ! j) \<and> site_target (ss' ! j) = site_target (sites ! j) \<and> site_plan (ss' ! j) = None
      \<and> (\<forall>x\<in>set os. published_object (pl_crypto lib) (ss' ! j) x) \<and> length ss' = length sites"
    if j: "j < length sites" "layout_stable (sp_layout (providers res ! j)) = None" for j
    using finished_site[OF assms(4-6) uploaded(2,3), of j] R(1) R(2)[OF j] j(1) uploaded(5) by simp
  have all: "published_object (pl_crypto lib) ((sites ! j)\<lparr>site_remote := rs' ! j\<rparr>) x"
    if "j < length sites" "layout_stable (sp_layout (providers res ! j)) = None" "x \<in> set os" for j x
    using site[OF that(1,2)] that(3) by (auto simp: published_object_def)
  have "\<exists>y. (rs' ! i) (marker_key (sites ! i)) = Some y \<and> vr_json report = Some (so_content y)" if ok: "is_ok r"
  proof -
    obtain m where "vr_json report = Some m" "\<exists>y. site_remote (ss' ! i) (marker_key (ss' ! i)) = Some y \<and> so_content y = m"
      using finish_run_steps[OF uploaded(3)] uploaded(4) ok site[OF assms(7,8)] assms(7) by (auto simp: list_all_length)
    then show ?thesis using site[OF assms(7,8)] by (auto simp: marker_key_def)
  qed
  with all show ?thesis by blast
qed

subsection \<open>An example run\<close>

definition demo_storage :: storage_config where
  "demo_storage =
     \<lparr>providers = [\<lparr>sp_name = ''disk'', sp_prefix = ''assets'', public_base_url = None, sp_layout = Publication,
        sp_backend = Local ''/srv/{region}''\<rparr>],
      concurrency = 4, sc_attempts = 3, object_timeout_seconds = 300, retry_delay_ms = 500,
      remove_local_after_upload = False\<rparr>"

definition demo_publication_lib :: publication_lib where
  "demo_publication_lib =
     \<lparr>pl_storage = \<lparr>sl_env = (\<lambda>_. None), sl_url = (\<lambda>_. None), sl_regex = (\<lambda>_. None), sl_base64 = (\<lambda>_. None), sl_ip = (\<lambda>_. None)\<rparr>,
      pl_join_url = (\<lambda>_ _. []), pl_layout = demo_layout_lib, pl_crypto = demo_crypto, pl_json = demo_json\<rparr>"

definition demo_report :: verified_report where
  "demo_report = \<lparr>vr_summary_sha256 = ''s'', vr_journal_sha256 = ''j'', vr_json = Some [42]\<rparr>"

definition demo_object :: upload_object where
  "demo_object = \<lparr>uo_path = ''00000/0.png'', uo_bytes = 1, uo_sha256 = ''a''\<rparr>"

definition demo_storage_world :: storage_world where
  "demo_storage_world =
     \<lparr>sw_verified = Inr demo_report, sw_inventory = [Inr demo_object], sw_canonical = True, sw_uuid = ''u1'',
      sw_operator = (\<lambda>_. Inr ()),
      sw_site = (\<lambda>_. \<lparr>pw_manifest_error = None, pw_upload = (\<lambda>_ _. good_attempt [97]), pw_started = (\<lambda>_. False),
        pw_delete = (\<lambda>_. (True, None)), pw_small = (\<lambda>_ _. good_attempt []), pw_summary = None\<rparr>),
      sw_report_of = (\<lambda>_. None), sw_journal = None, sw_stopped = False, sw_recheck = Inl error.Io, sw_removed = False\<rparr>"

lemma demo_run_ok:
  "case publish_run demo_publication_lib demo_storage_world Hk demo_storage [\<lambda>_. None] of
     Some (r, _) \<Rightarrow> is_ok r | None \<Rightarrow> False"
  by code_simp

lemma demo_sites:
  "case prepare_sites demo_publication_lib demo_storage_world Hk demo_storage [\<lambda>_. None] of
     Inr (res, report, sites) \<Rightarrow> map (\<lambda>p. layout_stable (sp_layout p)) (providers res) = [None]
       \<and> vr_json report = Some [42] \<and> map marker_key sites = [''assets/hk/publications/u1/complete.json'']
   | Inl _ \<Rightarrow> False"
  by code_simp

theorem marker_completes_publication_witness:
  "\<exists>r rs' y. publish_run demo_publication_lib demo_storage_world Hk demo_storage [\<lambda>_. None] = Some (r, rs')
    \<and> (rs' ! 0) ''assets/hk/publications/u1/complete.json'' = Some y \<and> so_content y = [42]"
proof -
  obtain r rs' where run: "publish_run demo_publication_lib demo_storage_world Hk demo_storage [\<lambda>_. None] = Some (r, rs')"
    and ok: "is_ok r" using demo_run_ok by (auto split: option.splits prod.splits)
  obtain res report sites where prep: "prepare_sites demo_publication_lib demo_storage_world Hk demo_storage [\<lambda>_. None] = Inr (res, report, sites)"
    and s: "map (\<lambda>p. layout_stable (sp_layout p)) (providers res) = [None]" "vr_json report = Some [42]"
      "map marker_key sites = [''assets/hk/publications/u1/complete.json'']"
    using demo_sites by (auto split: sum.splits prod.splits)
  have "sw_inventory demo_storage_world = map Inr [demo_object]" "MARKER \<notin> uo_path ` set [demo_object]"
    by (simp_all add: demo_storage_world_def demo_object_def MARKER_def)
  moreover have "layout_stable (sp_layout (providers res ! 0)) = None" "0 < length sites"
    "marker_key (sites ! 0) = ''assets/hk/publications/u1/complete.json''"
    using s by (auto simp: map_eq_Cons_conv)
  moreover have "length [\<lambda>_. None :: stored_object option] = length (providers demo_storage)" by (simp add: demo_storage_def)
  ultimately show ?thesis
    using marker_completes_publication[OF run prep, of "[demo_object]" 0] run ok s(2) by auto
qed

end
