(* ===== verification/Export_Verified.thy ===== *)
theory Export_Verified
  imports Export_Check Storage_Run
begin

text \<open>
  What a verified export is: the allowlist of \<open>prepare_export\<close> names every regular file of the directory
  exactly once, with its size and hash, and nothing else; and publishing it leaves the completion marker
  only beside these very files.
\<close>

subsection \<open>Hashing\<close>

lemma sized_loop_Inr:
  "sized_loop expected cs cnt acc = Inr (n, out) \<Longrightarrow> n = cnt + length (concat cs) \<and> out = acc @ concat cs"
  by (induction expected cs cnt acc rule: sized_loop.induct) (auto simp: result_simps split: if_splits)

definition object_file :: "export_checker \<Rightarrow> node \<Rightarrow> upload_object \<Rightarrow> bool" where
  "object_file ck dir x \<longleftrightarrow>
     (\<exists>b. path_node dir (uo_path x) = Some (FileNode b) \<and> length b = unat (uo_bytes x) \<and> sha_text ck b = uo_sha256 x)"

lemma export_file_hash_Inr:
  assumes "export_file_hash ck dir path n = Inr h"
  shows "\<exists>b. path_node dir path = Some (FileNode b) \<and> length b = n \<and> sha_text ck b = h"
proof -
  from assms obtain b cnt acc where b: "path_node dir path = Some (FileNode b)" "length b = n"
    and l: "sized_loop n (pieces BUFFER b) 0 [] = Inr (cnt, acc)" and h: "h = sha_text ck acc"
    by (auto simp: export_file_hash_def sha_text_def result_simps split: option.splits node.splits)
  from sized_loop_Inr[OF l] have "acc = b" by simp
  with b h show ?thesis by blast
qed

lemma add_objects_Inr:
  "add_objects res s = Inr s' \<Longrightarrow>
     s' = s\<lparr>ck_objects := ck_objects s + res_objects res, ck_selected := ck_selected s + selected_objects res,
            ck_skipped := ck_skipped s + skipped_objects res\<rparr>"
  by (auto simp: add_objects_def result_simps)

definition output_total :: "output_record list \<Rightarrow> nat" where
  "output_total xs = sum_list (map (unat \<circ> out_bytes) xs)"

definition count_kinds :: "output_record list \<Rightarrow> (string \<times> nat) list \<Rightarrow> (string \<times> nat) list" where
  "count_kinds xs m = fold (\<lambda>x. count_kind (out_kind x)) xs m"

lemma failed_outputs_Inr:
  "failed_outputs xs s = Inr s' \<Longrightarrow>
     s' = s\<lparr>ck_failed_files := ck_failed_files s + length xs, ck_failed_bytes := ck_failed_bytes s + output_total xs,
            ck_kinds := count_kinds xs (ck_kinds s)\<rparr>"
proof (induction xs arbitrary: s)
  case (Cons x xs)
  from Cons.prems have "failed_outputs xs (s\<lparr>ck_failed_files := ck_failed_files s + 1,
      ck_failed_bytes := ck_failed_bytes s + unat (out_bytes x), ck_kinds := count_kind (out_kind x) (ck_kinds s)\<rparr>) = Inr s'"
    by (auto simp: result_simps)
  from Cons.IH[OF this] show ?case by (simp add: output_total_def count_kinds_def)
qed (simp add: output_total_def count_kinds_def)

lemma check_items_Inr:
  "check_items ck sm res seen xs = Inr u \<Longrightarrow>
     distinct (map out_path xs) \<and> set seen \<inter> out_path ` set xs = {} \<and> list_all (\<lambda>x. export_safe_path (out_path x)) xs"
proof (induction xs arbitrary: seen)
  case (Cons x xs)
  from Cons.prems have x: "check_item ck sm res seen x = Inr ()" and xs: "check_items ck sm res (out_path x # seen) xs = Inr u"
    by (auto simp: result_simps)
  from x have "out_path x \<notin> set seen" "export_safe_path (out_path x)"
    by (auto simp: check_item_def result_simps)
  with Cons.IH[OF xs] show ?case by auto
qed simp

lemma hash_items_Inr:
  "hash_items ck dir sm d xs s = Inr s' \<Longrightarrow>
     s' = s\<lparr>ck_files := ck_files s + length xs, ck_bytes := ck_bytes s + output_total xs,
            ck_kinds := count_kinds xs (ck_kinds s), ck_inventory := ck_inventory s @ map (object_at d) xs\<rparr>
     \<and> list_all (\<lambda>x. object_file ck dir (object_at d x)) xs"
proof (induction xs arbitrary: s)
  case Nil
  then show ?case by (simp add: output_total_def count_kinds_def)
next
  case (Cons x xs)
  from Cons.prems have h: "export_file_hash ck dir (uo_path (object_at d x)) (unat (out_bytes x)) = Inr (out_sha256 x)"
    and r: "hash_items ck dir sm d xs (s\<lparr>ck_files := ck_files s + 1, ck_bytes := ck_bytes s + unat (out_bytes x),
        ck_kinds := count_kind (out_kind x) (ck_kinds s), ck_inventory := ck_inventory s @ [object_at d x]\<rparr>) = Inr s'"
    by (auto simp: result_simps append_object_def split: option.splits)
  from export_file_hash_Inr[OF h] have "object_file ck dir (object_at d x)"
    by (simp add: object_file_def object_at_def)
  with Cons.IH[OF r] show ?case by (simp add: output_total_def count_kinds_def)
qed

subsection \<open>The invariant of the pass\<close>

definition check_inv :: "export_checker \<Rightarrow> node \<Rightarrow> check_state \<Rightarrow> bool" where
  "check_inv ck dir s \<longleftrightarrow>
     set (ck_directories s) \<subseteq> set (ck_names s)
     \<and> list_all (\<lambda>n. n \<noteq> [] \<and> list_all is_ascii_digit n) (ck_names s)
     \<and> distinct (map uo_path (ck_inventory s))
     \<and> (\<forall>x\<in>set (ck_inventory s). object_file ck dir x \<and> (\<exists>d\<in>set (ck_directories s). \<exists>p. uo_path x = d @ ''/'' @ p))
     \<and> (\<forall>d\<in>set (ck_directories s). \<exists>expected. exact_tree ck dir d expected = Inr ()
          \<and> (\<forall>p\<in>set expected. d @ ''/'' @ p \<in> uo_path ` set (ck_inventory s)))"

lemma check_inv_start: "check_inv ck dir check_start"
  by (simp add: check_inv_def check_start_def)

lemma digits_no_slash: "list_all is_ascii_digit n \<Longrightarrow> CHR ''/'' \<notin> set n"
  by (auto simp: list_all_iff is_ascii_digit_def)

lemma first_part_unique:
  assumes "d @ ''/'' @ p = d' @ ''/'' @ p'" and "CHR ''/'' \<notin> set d" and "CHR ''/'' \<notin> set d'"
  shows "d = d'"
proof -
  have "takeWhile (\<lambda>c. c \<noteq> CHR ''/'') (d @ ''/'' @ p) = d" "takeWhile (\<lambda>c. c \<noteq> CHR ''/'') (d' @ ''/'' @ p') = d'"
    using assms(2,3) by (auto simp: takeWhile_append takeWhile_eq_all_conv intro!: takeWhile_append2)
  with assms(1) show ?thesis by simp
qed

lemma resource_name_ok_Inr:
  assumes "resource_name_ok sm s res = Inr u"
  shows "output_directory res \<notin> set (ck_names s)" and "output_directory res \<noteq> []"
    and "list_all is_ascii_digit (output_directory res)"
proof -
  from assms obtain i where "output_directory res = zero_padded 5 i" "output_directory res \<notin> set (ck_names s)"
    by (auto simp: resource_name_ok_def result_simps)
  then show "output_directory res \<notin> set (ck_names s)" "output_directory res \<noteq> []" "list_all is_ascii_digit (output_directory res)"
    using zero_padded_digits by (auto simp: zero_padded_def)
qed

lemma failed_resource_Inr:
  assumes "failed_resource m res s = Inr s'"
  shows "ck_names s' = ck_names s" "ck_directories s' = ck_directories s" "ck_inventory s' = ck_inventory s"
    "ck_journal_bytes s' = ck_journal_bytes s" "ck_failed s' = ck_failed s @ [res_source res]" "length (ck_failed s') \<le> m"
  using assms
  by (auto simp: failed_resource_def result_simps dest!: add_objects_Inr failed_outputs_Inr)

lemma good_resource_Inr:
  assumes "good_resource ck dir sm res s = Inr s'"
  shows "ck_names s' = ck_names s" "ck_directories s' = output_directory res # ck_directories s"
    "ck_inventory s' = ck_inventory s @ map (object_at (output_directory res)) (res_outputs res)"
    "ck_journal_bytes s' = ck_journal_bytes s" "ck_failed s' = ck_failed s"
    "list_all (\<lambda>x. object_file ck dir (object_at (output_directory res) x)) (res_outputs res)"
    "distinct (map out_path (res_outputs res))"
    "exact_tree ck dir (output_directory res) (map out_path (res_outputs res)) = Inr ()"
  using assms
  by (auto simp: good_resource_def result_simps dest!: add_objects_Inr hash_items_Inr check_items_Inr)

lemma check_line_inv:
  assumes "check_line ck dir sm m line s = Inr s'" and inv: "check_inv ck dir s" and "length (ck_failed s) \<le> m"
  shows "check_inv ck dir s' \<and> ck_journal_bytes s' = ck_journal_bytes s + length line \<and> ck_journal_bytes s' < 2 ^ 64
    \<and> length (ck_failed s') \<le> m"
proof -
  from assms(1) obtain res where name: "resource_name_ok sm s res = Inr ()"
    and jb: "ck_journal_bytes s + length line < 2 ^ 64"
    and run: "(if res_errors res \<noteq> [] then failed_resource m res else good_resource ck dir sm res)
        (s\<lparr>ck_journal_bytes := ck_journal_bytes s + length line, ck_names := output_directory res # ck_names s,
           ck_sources := res_source res # ck_sources s\<rparr>) = Inr s'"
    by (auto simp: check_line_def result_simps Let_def split: if_splits)
  note name = resource_name_ok_Inr[OF name]
  show ?thesis
  proof (cases "res_errors res = []")
    case False
    with run have f: "failed_resource m res (s\<lparr>ck_journal_bytes := ck_journal_bytes s + length line,
        ck_names := output_directory res # ck_names s, ck_sources := res_source res # ck_sources s\<rparr>) = Inr s'" by simp
    show ?thesis
      using failed_resource_Inr[OF f] inv jb name by (auto simp: check_inv_def)
  next
    case True
    let ?d = "output_directory res"
    from True run have g: "good_resource ck dir sm res (s\<lparr>ck_journal_bytes := ck_journal_bytes s + length line,
        ck_names := output_directory res # ck_names s, ck_sources := res_source res # ck_sources s\<rparr>) = Inr s'" by simp
    note g = good_resource_Inr[OF g, simplified]
    have new: "uo_path x \<noteq> ?d @ ''/'' @ p" if "x \<in> set (ck_inventory s)" for x p
    proof
      assume eq: "uo_path x = ?d @ ''/'' @ p"
      from inv have "\<exists>d\<in>set (ck_directories s). \<exists>q. uo_path x = d @ ''/'' @ q"
        and sub: "set (ck_directories s) \<subseteq> set (ck_names s)"
        and digits: "\<And>n. n \<in> set (ck_names s) \<Longrightarrow> list_all is_ascii_digit n"
        using that by (auto simp: check_inv_def list.pred_set)
      then obtain d q where "d \<in> set (ck_directories s)" and q: "uo_path x = d @ ''/'' @ q" by blast
      then have d: "d \<in> set (ck_names s)" "list_all is_ascii_digit d" "uo_path x = d @ ''/'' @ q"
        using sub digits by auto
      from first_part_unique[of d q ?d p] d eq name(3) digits_no_slash have "d = ?d" by auto
      with d(1) name(1) show False by simp
    qed
    have "distinct (map uo_path (map (object_at ?d) (res_outputs res)))"
      using g(7) by (simp add: comp_def object_at_def distinct_map inj_on_def)
    moreover have "uo_path ` set (ck_inventory s) \<inter> uo_path ` object_at ?d ` set (res_outputs res) = {}"
      using new by (auto simp: object_at_def)
    ultimately have dist: "distinct (map uo_path (ck_inventory s'))"
      using inv g(3) by (auto simp: check_inv_def)
    show ?thesis
      unfolding check_inv_def
    proof (intro conjI)
      show "set (ck_directories s') \<subseteq> set (ck_names s')" "list_all (\<lambda>n. n \<noteq> [] \<and> list_all is_ascii_digit n) (ck_names s')"
        using inv g(1,2) name by (auto simp: check_inv_def)
      show "distinct (map uo_path (ck_inventory s'))" by (rule dist)
      show "\<forall>x\<in>set (ck_inventory s'). object_file ck dir x \<and> (\<exists>d\<in>set (ck_directories s'). \<exists>p. uo_path x = d @ ''/'' @ p)"
        using inv g(2,3,6) by (fastforce simp: check_inv_def list_all_iff object_at_def)
      show "\<forall>d\<in>set (ck_directories s'). \<exists>expected. exact_tree ck dir d expected = Inr ()
          \<and> (\<forall>p\<in>set expected. d @ ''/'' @ p \<in> uo_path ` set (ck_inventory s'))"
      proof
        fix d assume "d \<in> set (ck_directories s')"
        then consider "d = ?d" | "d \<in> set (ck_directories s)" using g(2) by auto
        then show "\<exists>expected. exact_tree ck dir d expected = Inr () \<and> (\<forall>p\<in>set expected. d @ ''/'' @ p \<in> uo_path ` set (ck_inventory s'))"
        proof cases
          case 1
          with g(3,8) show ?thesis
            by (intro exI[of _ "map out_path (res_outputs res)"]) (force simp: object_at_def)
        next
          case 2
          with inv obtain ex where "exact_tree ck dir d ex = Inr ()" "\<forall>p\<in>set ex. d @ ''/'' @ p \<in> uo_path ` set (ck_inventory s)"
            unfolding check_inv_def by blast
          with g(3) show ?thesis by (intro exI[of _ ex]) auto
        qed
      qed
      show "ck_journal_bytes s' = ck_journal_bytes s + length line" "ck_journal_bytes s' < 2 ^ 64" "length (ck_failed s') \<le> m"
        using g(4,5) jb assms(3) by auto
    qed
  qed
qed

lemma check_lines_inv:
  "check_lines ck dir sm m ls s = Inr s' \<Longrightarrow> check_inv ck dir s \<Longrightarrow> ck_journal_bytes s < 2 ^ 64 \<Longrightarrow> length (ck_failed s) \<le> m \<Longrightarrow>
     check_inv ck dir s' \<and> ck_journal_bytes s' = ck_journal_bytes s + length (concat ls) \<and> ck_journal_bytes s' < 2 ^ 64
     \<and> length (ck_failed s') \<le> m"
proof (induction ls arbitrary: s)
  case (Cons l ls)
  from Cons.prems(1) obtain s1 where l: "check_line ck dir sm m l s = Inr s1" and r: "check_lines ck dir sm m ls s1 = Inr s'"
    by (auto simp: result_simps)
  from check_line_inv[OF l Cons.prems(2,4)] Cons.IH[OF r] show ?case by simp
qed simp

subsection \<open>What the pass counts\<close>

text \<open>The state after the reports \<open>rs\<close>, in the order of the journal, with the bytes of their lines.\<close>

definition good_reports :: "resource_report list \<Rightarrow> resource_report list" where
  "good_reports rs = filter (\<lambda>r. res_errors r = []) rs"

definition bad_reports :: "resource_report list \<Rightarrow> resource_report list" where
  "bad_reports rs = filter (\<lambda>r. res_errors r \<noteq> []) rs"

definition all_outputs :: "resource_report list \<Rightarrow> output_record list" where
  "all_outputs rs = concat (map res_outputs rs)"

definition listed_objects :: "resource_report list \<Rightarrow> upload_object list" where
  "listed_objects rs = concat (map (\<lambda>r. map (object_at (output_directory r)) (res_outputs r)) rs)"

definition tally :: "resource_report list \<Rightarrow> nat \<Rightarrow> check_state" where
  "tally rs n = \<lparr>ck_directories = rev (map output_directory (good_reports rs)), ck_names = rev (map output_directory rs),
     ck_sources = rev (map res_source rs), ck_failed = map res_source (bad_reports rs),
     ck_failed_files = length (all_outputs (bad_reports rs)), ck_failed_bytes = output_total (all_outputs (bad_reports rs)),
     ck_files = length (all_outputs (good_reports rs)), ck_bytes = output_total (all_outputs (good_reports rs)),
     ck_objects = sum_list (map res_objects rs), ck_selected = sum_list (map selected_objects rs),
     ck_skipped = sum_list (map skipped_objects rs), ck_hits = length (filter cache_hit rs),
     ck_kinds = count_kinds (all_outputs rs) [], ck_journal_bytes = n, ck_inventory = listed_objects (good_reports rs)\<rparr>"

lemmas report_list_simps = good_reports_def bad_reports_def all_outputs_def listed_objects_def output_total_def
  count_kinds_def

lemma tally_start: "check_start = tally [] 0"
  by (simp add: check_start_def tally_def report_list_simps)

lemma check_line_tally:
  assumes "check_line ck dir sm m line (tally rs n) = Inr s'"
  shows "\<exists>res. ec_report ck line = Some res \<and> s' = tally (rs @ [res]) (n + length line)
    \<and> output_directory res \<notin> output_directory ` set rs \<and> res_source res \<notin> res_source ` set rs"
proof -
  from assms obtain res where rep: "ec_report ck line = Some res" and name: "resource_name_ok sm (tally rs n) res = Inr ()"
    and run: "(if res_errors res \<noteq> [] then failed_resource m res else good_resource ck dir sm res)
        ((tally rs n)\<lparr>ck_journal_bytes := n + length line, ck_names := output_directory res # ck_names (tally rs n),
           ck_sources := res_source res # ck_sources (tally rs n)\<rparr>) = Inr s'"
    by (auto simp: check_line_def result_simps Let_def tally_def split: if_splits)
  have fresh: "output_directory res \<notin> output_directory ` set rs" "res_source res \<notin> res_source ` set rs"
  proof -
    have "output_directory res \<notin> set (ck_names (tally rs n)) \<and> res_source res \<notin> set (ck_sources (tally rs n))"
      using name by (auto simp: resource_name_ok_def result_simps)
    then show "output_directory res \<notin> output_directory ` set rs" "res_source res \<notin> res_source ` set rs"
      by (simp_all add: tally_def)
  qed
  have "s' = tally (rs @ [res]) (n + length line)"
  proof (cases "res_errors res = []")
    case True
    with run show ?thesis
      by (auto simp: good_resource_def result_simps tally_def report_list_simps
          dest!: add_objects_Inr hash_items_Inr)
  next
    case False
    with run show ?thesis
      by (auto simp: failed_resource_def result_simps tally_def report_list_simps
          dest!: add_objects_Inr failed_outputs_Inr)
  qed
  with rep fresh show ?thesis by blast
qed

lemma check_lines_tally:
  "check_lines ck dir sm m ls (tally rs n) = Inr s' \<Longrightarrow> distinct (map output_directory rs) \<Longrightarrow> distinct (map res_source rs) \<Longrightarrow>
     \<exists>rs'. map (ec_report ck) ls = map Some rs' \<and> s' = tally (rs @ rs') (n + length (concat ls))
       \<and> distinct (map output_directory (rs @ rs')) \<and> distinct (map res_source (rs @ rs'))"
proof (induction ls arbitrary: rs n)
  case (Cons l ls)
  from Cons.prems(1) obtain s1 where l: "check_line ck dir sm m l (tally rs n) = Inr s1" and r: "check_lines ck dir sm m ls s1 = Inr s'"
    by (auto simp: result_simps)
  from check_line_tally[OF l] obtain res where res: "ec_report ck l = Some res" "s1 = tally (rs @ [res]) (n + length l)"
    "output_directory res \<notin> output_directory ` set rs" "res_source res \<notin> res_source ` set rs" by blast
  from Cons.IH[OF r[unfolded res(2)]] res(3,4) Cons.prems(2,3) obtain rs' where
    "map (ec_report ck) ls = map Some rs'" "s' = tally ((rs @ [res]) @ rs') (n + length l + length (concat ls))"
    "distinct (map output_directory ((rs @ [res]) @ rs'))" "distinct (map res_source ((rs @ [res]) @ rs'))" by auto
  with res(1) show ?case by (intro exI[of _ "res # rs'"]) (simp add: add.assoc)
qed simp

text \<open>The totals of the summary, said of the reports.\<close>

lemma count_kinds_lookup:
  "bt_ordered m \<Longrightarrow> bt_ordered (count_kinds xs m)
     \<and> unwrap_or 0 (map_of (count_kinds xs m) k) = unwrap_or 0 (map_of m k) + length (filter (\<lambda>x. out_kind x = k) xs)"
proof (induction xs arbitrary: m)
  case (Cons x xs)
  from Cons.IH[of "count_kind (out_kind x) m"] Cons.prems show ?case
    by (simp add: count_kinds_def count_kind_def)
qed (simp add: count_kinds_def)

lemma good_and_bad:
  "length (good_reports rs) + length (bad_reports rs) = length rs"
  "length (all_outputs (good_reports rs)) + length (all_outputs (bad_reports rs)) = length (all_outputs rs)"
  "output_total (all_outputs (good_reports rs)) + output_total (all_outputs (bad_reports rs)) = output_total (all_outputs rs)"
  by (induction rs) (simp_all add: report_list_simps)

lemma tally_totals:
  assumes "\<not> totals_differ sm (tally rs n)"
  shows "sm_succeeded sm = length (good_reports rs)" "sm_failed sm = length (bad_reports rs)"
    "sm_output_files sm = length (all_outputs rs)" "sm_output_bytes sm = output_total (all_outputs rs)"
    "sm_objects sm = sum_list (map res_objects rs)" "sm_selected sm = sum_list (map selected_objects rs)"
    "sm_skipped sm = sum_list (map skipped_objects rs)" "sm_cache_hits sm = length (filter cache_hit rs)"
    "unwrap_or 0 (map_of (sm_payloads sm) k) = length (filter (\<lambda>x. out_kind x = k) (all_outputs rs))"
  using assms good_and_bad[of rs] count_kinds_lookup[of "[]" "all_outputs rs" k]
  by (auto simp: totals_differ_def tally_def result_simps)

lemma concat_journal_lines [simp]: "concat (journal_lines bs) = bs"
proof (induction bs rule: journal_lines.induct)
  case (1 bs)
  show ?case
  proof (cases "dropWhile (\<lambda>b. b \<noteq> 10) bs")
    case Nil
    then have "journal_lines bs = (if bs = [] then [] else [bs])"
      by (subst journal_lines.simps) (simp del: dropWhile_eq_Nil_conv)
    then show ?thesis by simp
  next
    case (Cons x rest)
    then have "bs \<noteq> []" by auto
    moreover from Cons have "x = 10" by (metis (mono_tags, lifting) hd_dropWhile list.distinct(1) list.sel(1))
    moreover have "bs = takeWhile (\<lambda>b. b \<noteq> 10) bs @ x # rest" using Cons by (metis takeWhile_dropWhile_id)
    ultimately show ?thesis
      using 1 Cons by (subst journal_lines.simps) simp
  qed
qed

subsection \<open>Verified exports\<close>

lemma root_file_Inr [result_simps]:
  "root_file ck dir n = Inr b \<longleftrightarrow> path_node dir n = Some (FileNode b) \<and> ec_readable ck n"
  by (auto simp: root_file_def result_simps split: option.splits node.splits)

lemma append_object_Inr [result_simps]:
  "append_object ck x s = Inr s' \<longleftrightarrow> ec_append ck x = None \<and> s' = s\<lparr>ck_inventory := ck_inventory s @ [x]\<rparr>"
  by (auto simp: append_object_def split: option.splits)

definition receipt_object :: "export_checker \<Rightarrow> string \<Rightarrow> byte list \<Rightarrow> upload_object" where
  "receipt_object ck n b = \<lparr>uo_path = n, uo_bytes = of_nat (length b), uo_sha256 = sha_text ck b\<rparr>"

lemma prepare_export_Inr:
  assumes "prepare_export ck dir later rg m = Inr (rep, objs)"
  obtains es b sm jb s where "dir = DirNode es" "path_node dir ''summary.json'' = Some (FileNode b)"
    "length b \<le> MAX_SUMMARY" "ec_summary ck b = Some sm" "\<not> summary_rejected ck rg m sm"
    "path_node dir ''resources.jsonl'' = Some (FileNode jb)"
    "check_lines ck dir sm m (journal_lines jb) check_start = Inr s" "\<not> totals_differ sm s"
    "list_all (top_entry_ok s) es"
    "ck_journal_bytes s = length jb"
    "objs = ck_inventory s @ [receipt_object ck ''summary.json'' b, receipt_object ck ''resources.jsonl'' jb]"
    "rep = \<lparr>er_region = rg, er_resources = length (ck_directories s), er_files = ck_files s, er_bytes = ck_bytes s,
           er_full_catalog = sm_full_catalog sm, er_full_export = sm_full_export sm,
           er_summary_sha256 = sha_text ck b, er_journal_sha256 = sha_text ck jb, er_failed = ck_failed s\<rparr>"
proof -
  from assms obtain b sm jb s where dir: "is_dir dir" and b: "path_node dir ''summary.json'' = Some (FileNode b)"
    and len: "\<not> MAX_SUMMARY < length (take (MAX_SUMMARY + 1) b)"
    and sm: "ec_summary ck (take (MAX_SUMMARY + 1) b) = Some sm" "\<not> summary_rejected ck rg m sm"
    and jb: "path_node dir ''resources.jsonl'' = Some (FileNode jb)"
    and s: "check_lines ck dir sm m (journal_lines jb) check_start = Inr s" "\<not> totals_differ sm s"
    and top: "list_all (top_entry_ok s) (case dir of DirNode es \<Rightarrow> es | _ \<Rightarrow> [])"
    and inv: "objs = ck_inventory s @ [receipt_object ck ''summary.json'' (take (MAX_SUMMARY + 1) b),
        \<lparr>uo_path = ''resources.jsonl'', uo_bytes = of_nat (ck_journal_bytes s), uo_sha256 = sha_text ck jb\<rparr>]"
    and rep: "rep = \<lparr>er_region = rg, er_resources = length (ck_directories s), er_files = ck_files s, er_bytes = ck_bytes s,
           er_full_catalog = sm_full_catalog sm, er_full_export = sm_full_export sm,
           er_summary_sha256 = sha_text ck (take (MAX_SUMMARY + 1) b), er_journal_sha256 = sha_text ck jb, er_failed = ck_failed s\<rparr>"
    by (auto simp: prepare_export_def result_simps Let_def receipt_object_def)
  from len have len': "length b \<le> MAX_SUMMARY" "take (MAX_SUMMARY + 1) b = b" by auto
  have "ck_journal_bytes s = length jb"
    using check_lines_inv[OF s(1) check_inv_start] by (simp add: check_start_def)
  moreover obtain es where "dir = DirNode es" using dir by (cases dir) auto
  ultimately show ?thesis
    using that b len' sm jb s top inv rep by (simp add: receipt_object_def)
qed

lemma node_at_in_file: "node_at (FileNode c) ps = Some n \<Longrightarrow> ps = [] \<and> n = FileNode c"
  by (cases ps) auto

lemma path_node_below:
  assumes "CHR ''/'' \<notin> set d"
  shows "path_node dir (d @ ''/'' @ p) = Option.bind (path_node dir d) (\<lambda>m. node_at m (split_on (CHR ''/'') p))"
  using assms by (simp add: path_node_def split_on_append split_on_free)

lemma export_paths:
  assumes "check_inv ck dir s" and "d \<in> set (ck_directories s)"
  shows "CHR ''/'' \<notin> set d" and "d \<noteq> []" and "list_all is_ascii_digit d"
proof -
  from assms have "list_all is_ascii_digit d" "d \<noteq> []" by (auto simp: check_inv_def list.pred_set)
  then show "CHR ''/'' \<notin> set d" "d \<noteq> []" "list_all is_ascii_digit d" using digits_no_slash by auto
qed

lemma below_root_listed:
  assumes inv: "check_inv ck (DirNode es) s" and top: "list_all (top_entry_ok s) es"
    and n: "node_at (DirNode es) ps = Some x" and x: "x = LinkNode \<or> (\<exists>b. x = FileNode b)"
  shows "x \<noteq> LinkNode \<and> (join_on ''/'' ps \<in> uo_path ` set (ck_inventory s) \<or> ps = [''summary.json''] \<or> ps = [''resources.jsonl''])"
proof -
  from n x obtain p qs where ps: "ps = p # qs" by (cases ps) auto
  with n obtain m where m: "map_of es p = Some m" and q: "node_at m qs = Some x"
    by (cases "map_of es p") auto
  from m have "(p, m) \<in> set es" by (rule map_of_SomeD)
  with top have "top_entry_ok s (p, m)" by (auto simp: list_all_iff)
  then consider b where "m = FileNode b" "p = ''summary.json'' \<or> p = ''resources.jsonl''"
    | sub where "m = DirNode sub" "p \<in> set (ck_directories s)"
    by (cases m) (auto simp: top_entry_ok_def)
  then show ?thesis
  proof cases
    case 1
    with q ps node_at_in_file show ?thesis by auto
  next
    case 2
    note p = export_paths[OF inv 2(2)]
    from inv 2(2) obtain ex where ex: "exact_tree ck (DirNode es) p ex = Inr ()"
      and listed: "\<forall>a\<in>set ex. p @ ''/'' @ a \<in> uo_path ` set (ck_inventory s)"
      unfolding check_inv_def by blast
    have here: "path_node (DirNode es) p = Some (DirNode sub)"
      using m 2(1) p(1) by (simp add: path_node_def split_on_free)
    from exact_tree_linkless[OF ex] here have link: "linkless sub" by auto
    then have "x \<noteq> LinkNode" using q 2(1) by (auto simp: linkless_def)
    with x obtain b where b: "x = FileNode b" by auto
    have "join_on ''/'' qs \<in> set ex"
    proof (rule exact_tree_complete[OF ex])
      fix a assume "a \<in> set ex"
      with listed obtain y where "y \<in> set (ck_inventory s)" "uo_path y = p @ ''/'' @ a" by force
      with inv have "\<exists>b. path_node (DirNode es) (p @ ''/'' @ a) = Some (FileNode b)"
        by (auto simp: check_inv_def object_file_def)
      then show "\<exists>b. node_at (the (path_node (DirNode es) p)) (split_on (CHR ''/'') a) = Some (FileNode b)"
        unfolding path_node_below[OF p(1)] by (auto simp: here)
    next
      show "node_at (the (path_node (DirNode es) p)) qs = Some (FileNode b)"
        using here q 2(1) b by simp
    qed
    with listed have "p @ ''/'' @ join_on ''/'' qs \<in> uo_path ` set (ck_inventory s)" by blast
    moreover have "qs \<noteq> []" using q 2(1) b by (cases qs) auto
    then have "join_on ''/'' ps = p @ ''/'' @ join_on ''/'' qs" using ps by (cases qs) simp_all
    ultimately show ?thesis using \<open>x \<noteq> LinkNode\<close> by simp
  qed
qed

lemma prepare_export_journal:
  assumes "prepare_export ck dir later rg m = Inr (rep, objs)"
  shows "\<exists>b sm jb rs. path_node dir ''summary.json'' = Some (FileNode b) \<and> ec_summary ck b = Some sm
    \<and> path_node dir ''resources.jsonl'' = Some (FileNode jb)
    \<and> map (ec_report ck) (journal_lines jb) = map Some rs
    \<and> distinct (map output_directory rs) \<and> distinct (map res_source rs)
    \<and> objs = listed_objects (good_reports rs)
        @ [receipt_object ck ''summary.json'' b, receipt_object ck ''resources.jsonl'' jb]
    \<and> er_failed rep = map res_source (bad_reports rs) \<and> er_resources rep = length (good_reports rs)
    \<and> er_files rep = length (all_outputs (good_reports rs))
    \<and> er_bytes rep = output_total (all_outputs (good_reports rs))
    \<and> sm_region sm = rg \<and> sm_input_files sm = length rs \<and> \<not> totals_differ sm (tally rs (length jb))"
proof -
  from assms obtain es b sm jb s where b: "path_node dir ''summary.json'' = Some (FileNode b)" "ec_summary ck b = Some sm"
    and ok: "\<not> summary_rejected ck rg m sm" and jb: "path_node dir ''resources.jsonl'' = Some (FileNode jb)"
    and s: "check_lines ck dir sm m (journal_lines jb) check_start = Inr s" and same: "\<not> totals_differ sm s"
    and objs: "objs = ck_inventory s @ [receipt_object ck ''summary.json'' b, receipt_object ck ''resources.jsonl'' jb]"
    and rep: "rep = \<lparr>er_region = rg, er_resources = length (ck_directories s), er_files = ck_files s, er_bytes = ck_bytes s,
           er_full_catalog = sm_full_catalog sm, er_full_export = sm_full_export sm,
           er_summary_sha256 = sha_text ck b, er_journal_sha256 = sha_text ck jb, er_failed = ck_failed s\<rparr>"
    by (rule prepare_export_Inr) auto
  from check_lines_tally[OF s[unfolded tally_start]] obtain rs where
    rs: "map (ec_report ck) (journal_lines jb) = map Some rs" "distinct (map output_directory rs)" "distinct (map res_source rs)"
    and t: "s = tally rs (length jb)" by auto
  have "sm_region sm = rg" "sm_input_files sm = sm_succeeded sm + sm_failed sm"
    using ok by (auto simp: summary_rejected_def)
  moreover from this have "sm_input_files sm = length rs"
    using tally_totals(1,2)[OF same[unfolded t]] good_and_bad(1)[of rs] by simp
  ultimately show ?thesis
    using b jb rs same objs by (intro exI[of _ b] exI[of _ sm] exI[of _ jb] exI[of _ rs]) (simp add: t rep tally_def)
qed

lemma prepare_export_tree:
  assumes "prepare_export ck dir later rg m = Inr (rep, objs)"
  shows "list_all (object_file ck dir) objs \<and> distinct (map uo_path objs) \<and> MARKER \<notin> uo_path ` set objs
    \<and> (\<forall>ps b. node_at dir ps = Some (FileNode b) \<longrightarrow> join_on ''/'' ps \<in> uo_path ` set objs)
    \<and> (\<forall>ps. node_at dir ps \<noteq> Some LinkNode)
    \<and> length (er_failed rep) \<le> m"
proof -
  from assms obtain es b sm jb s where dir: "dir = DirNode es" and b: "path_node dir ''summary.json'' = Some (FileNode b)"
    and len: "length b \<le> MAX_SUMMARY" and jb: "path_node dir ''resources.jsonl'' = Some (FileNode jb)"
    and s: "check_lines ck dir sm m (journal_lines jb) check_start = Inr s"
    and top: "list_all (top_entry_ok s) es" and jlen: "ck_journal_bytes s = length jb"
    and inv: "objs = ck_inventory s @ [receipt_object ck ''summary.json'' b, receipt_object ck ''resources.jsonl'' jb]"
    and failed: "er_failed rep = ck_failed s"
    by (rule prepare_export_Inr) auto
  from check_lines_inv[OF s check_inv_start] have ok: "check_inv ck dir s" and jb64: "length jb < 2 ^ 64"
    and few: "length (ck_failed s) \<le> m" by (simp_all add: check_start_def)
  have slash: "CHR ''/'' \<in> set (uo_path x)" if "x \<in> set (ck_inventory s)" for x
  proof -
    from ok that obtain d p where "d \<in> set (ck_directories s)" and x: "uo_path x = d @ ''/'' @ p"
      by (auto simp: check_inv_def)
    with x show "CHR ''/'' \<in> set (uo_path x)" by simp
  qed
  have "object_file ck dir (receipt_object ck ''summary.json'' b)" "object_file ck dir (receipt_object ck ''resources.jsonl'' jb)"
    using b jb len jb64 by (auto simp: object_file_def receipt_object_def MAX_SUMMARY_def unat_of_nat take_bit_nat_eq_self)
  then have files: "list_all (object_file ck dir) objs"
    using ok inv by (auto simp: check_inv_def list_all_iff)
  have outside: "q \<notin> uo_path ` set (ck_inventory s)" if "CHR ''/'' \<notin> set q" for q
    using that slash by auto
  have "distinct (map uo_path (ck_inventory s))" using ok by (simp add: check_inv_def)
  then have dist: "distinct (map uo_path objs)"
    using outside[of "''summary.json''"] outside[of "''resources.jsonl''"] by (simp add: inv receipt_object_def)
  have mark: "MARKER \<notin> uo_path ` set objs"
    using outside[of MARKER] by (auto simp: inv MARKER_def receipt_object_def)
  have all: "x \<noteq> LinkNode \<and> join_on ''/'' ps \<in> uo_path ` set objs"
    if "node_at dir ps = Some x" "x = LinkNode \<or> (\<exists>b. x = FileNode b)" for ps x
    using below_root_listed[OF ok[unfolded dir] top that[unfolded dir]] by (auto simp: inv receipt_object_def)
  show ?thesis
  proof (intro conjI allI impI)
    show "join_on ''/'' ps \<in> uo_path ` set objs" if "node_at dir ps = Some (FileNode b)" for ps b
      using all[OF that] by blast
    show "node_at dir ps \<noteq> Some LinkNode" for ps
      using all[of ps LinkNode] by blast
  qed (use files dist mark few failed in simp_all)
qed

lemma prepare_export_totals:
  assumes "prepare_export ck dir later rg m = Inr (rep, objs)"
  shows "\<exists>b sm jb rs. path_node dir ''summary.json'' = Some (FileNode b) \<and> ec_summary ck b = Some sm
    \<and> path_node dir ''resources.jsonl'' = Some (FileNode jb) \<and> map (ec_report ck) (journal_lines jb) = map Some rs
    \<and> distinct (map output_directory rs) \<and> distinct (map res_source rs)
    \<and> objs = listed_objects (good_reports rs) @ [receipt_object ck ''summary.json'' b, receipt_object ck ''resources.jsonl'' jb]
    \<and> er_region rep = rg \<and> sm_region sm = rg \<and> er_failed rep = map res_source (bad_reports rs)
    \<and> er_resources rep = length (good_reports rs) \<and> er_files rep = length (all_outputs (good_reports rs))
    \<and> er_bytes rep = output_total (all_outputs (good_reports rs)) \<and> sm_input_files sm = length rs
    \<and> sm_succeeded sm = length (good_reports rs) \<and> sm_failed sm = length (bad_reports rs)
    \<and> sm_output_files sm = length (all_outputs rs) \<and> sm_output_bytes sm = output_total (all_outputs rs)
    \<and> sm_objects sm = sum_list (map res_objects rs) \<and> sm_selected sm = sum_list (map selected_objects rs)
    \<and> sm_skipped sm = sum_list (map skipped_objects rs) \<and> sm_cache_hits sm = length (filter cache_hit rs)
    \<and> (\<forall>k. unwrap_or 0 (map_of (sm_payloads sm) k) = length (filter (\<lambda>x. out_kind x = k) (all_outputs rs)))"
proof -
  from prepare_export_journal[OF assms] obtain b sm jb rs where j:
    "path_node dir ''summary.json'' = Some (FileNode b)" "ec_summary ck b = Some sm"
    "path_node dir ''resources.jsonl'' = Some (FileNode jb)" "map (ec_report ck) (journal_lines jb) = map Some rs"
    "distinct (map output_directory rs)" "distinct (map res_source rs)"
    "objs = listed_objects (good_reports rs) @ [receipt_object ck ''summary.json'' b, receipt_object ck ''resources.jsonl'' jb]"
    "er_failed rep = map res_source (bad_reports rs)" "er_resources rep = length (good_reports rs)"
    "er_files rep = length (all_outputs (good_reports rs))" "er_bytes rep = output_total (all_outputs (good_reports rs))"
    "sm_region sm = rg" "sm_input_files sm = length rs" and same: "\<not> totals_differ sm (tally rs (length jb))"
    by auto
  have "er_region rep = rg" using assms by (rule prepare_export_Inr) simp
  with j tally_totals[OF same] show ?thesis by blast
qed

text \<open>C17. A verified export is exactly the export its journal describes. Every line of the journal reads as
  a report; no two share a directory or a source. The allowlist is, in the journal's order, every output of
  every report without errors, under its directory, with the size and hash the report gives it, followed by
  the summary and the journal themselves; and every object of the allowlist is a regular file of the
  directory with that size and hash. No path occurs twice, every regular file at any depth is in the list,
  there is no symbolic link anywhere and no listed file could be mistaken for the marker of a complete
  publication. The report counts the good resources and their files and bytes and names the failed ones, no
  more than were accepted, and the summary's totals are the journal's: resources, failures, outputs, bytes,
  objects, selected, skipped, cache hits and outputs of every kind.\<close>

theorem verified_export_is_exact:
  assumes "prepare_export ck dir later rg m = Inr (rep, objs)"
  shows "list_all (object_file ck dir) objs \<and> distinct (map uo_path objs) \<and> MARKER \<notin> uo_path ` set objs
    \<and> (\<forall>ps b. node_at dir ps = Some (FileNode b) \<longrightarrow> join_on ''/'' ps \<in> uo_path ` set objs)
    \<and> (\<forall>ps. node_at dir ps \<noteq> Some LinkNode)
    \<and> length (er_failed rep) \<le> m
    \<and> (\<exists>b sm jb rs. path_node dir ''summary.json'' = Some (FileNode b) \<and> ec_summary ck b = Some sm
        \<and> path_node dir ''resources.jsonl'' = Some (FileNode jb)
        \<and> map (ec_report ck) (journal_lines jb) = map Some rs
        \<and> distinct (map output_directory rs) \<and> distinct (map res_source rs)
        \<and> objs = concat (map (\<lambda>r. map (\<lambda>x. \<lparr>uo_path = output_directory r @ ''/'' @ out_path x,
                uo_bytes = out_bytes x, uo_sha256 = out_sha256 x\<rparr>) (res_outputs r)) (filter (\<lambda>r. res_errors r = []) rs))
            @ [\<lparr>uo_path = ''summary.json'', uo_bytes = of_nat (length b), uo_sha256 = sha_text ck b\<rparr>,
               \<lparr>uo_path = ''resources.jsonl'', uo_bytes = of_nat (length jb), uo_sha256 = sha_text ck jb\<rparr>]
        \<and> er_region rep = rg \<and> sm_region sm = rg
        \<and> er_failed rep = map res_source (filter (\<lambda>r. res_errors r \<noteq> []) rs)
        \<and> er_resources rep = length (filter (\<lambda>r. res_errors r = []) rs)
        \<and> er_files rep = length (concat (map res_outputs (filter (\<lambda>r. res_errors r = []) rs)))
        \<and> er_bytes rep = sum_list (map (unat \<circ> out_bytes) (concat (map res_outputs (filter (\<lambda>r. res_errors r = []) rs))))
        \<and> sm_input_files sm = length rs
        \<and> sm_succeeded sm = length (filter (\<lambda>r. res_errors r = []) rs)
        \<and> sm_failed sm = length (filter (\<lambda>r. res_errors r \<noteq> []) rs)
        \<and> sm_output_files sm = length (concat (map res_outputs rs))
        \<and> sm_output_bytes sm = sum_list (map (unat \<circ> out_bytes) (concat (map res_outputs rs)))
        \<and> sm_objects sm = sum_list (map res_objects rs)
        \<and> sm_selected sm = sum_list (map selected_objects rs)
        \<and> sm_skipped sm = sum_list (map skipped_objects rs)
        \<and> sm_cache_hits sm = length (filter cache_hit rs)
        \<and> (\<forall>k. unwrap_or 0 (map_of (sm_payloads sm) k)
            = length (filter (\<lambda>x. out_kind x = k) (concat (map res_outputs rs)))))"
  using prepare_export_tree[OF assms] prepare_export_totals[OF assms]
  unfolding report_list_simps object_at_def receipt_object_def by simp

subsection \<open>An example export\<close>

definition sample_digest :: string where
  "sample_digest = replicate 64 (CHR ''a'')"

definition sample_output :: output_record where
  "sample_output = \<lparr>out_path = ''0.png'', out_kind = ''image'', out_bytes = 1, out_sha256 = sample_digest, out_object = None\<rparr>"

definition sample_resource :: resource_report where
  "sample_resource = \<lparr>cache_hit = False, res_source = ''a'', output_directory = ''00000'', source_sha256 = sample_digest,
     res_objects = 1, selected_objects = 1, skipped_objects = 0, res_outputs = [sample_output], res_errors = []\<rparr>"

definition sample_summary :: export_summary where
  "sample_summary = \<lparr>sm_full_catalog = True, sm_full_export = True, sm_selection = export_selection_default,
     sm_read_kinds = \<lparr>policy_default = Auto, policy_classes = []\<rparr>, sm_cri = cri_default, sm_raw_bundles = None,
     sm_image = [Webp], sm_audio = [Flac], sm_video = Mp4, sm_backend = Cli, sm_selected = 1, sm_skipped = 0, sm_schema = 4,
     sm_region = Hk, sm_platform = ''ios'', sm_complete = True, sm_input_files = 1, sm_catalog_files = 1, sm_objects = 1,
     sm_catalog_sha256 = sample_digest, sm_cache_hits = 0, sm_succeeded = 1, sm_failed = 0, sm_output_files = 1,
     sm_output_bytes = 1, sm_payloads = [(''image'', 1)], sm_retained = True\<rparr>"

definition sample_checker :: export_checker where
  "sample_checker = \<lparr>ec_crypto = \<lparr>sha256 = (\<lambda>b. b), hex_encode = (\<lambda>_. sample_digest), hex_decode = (\<lambda>_ _. None), keystream = (\<lambda>_ _ _. [])\<rparr>,
     ec_regex = (\<lambda>_. None), ec_classes = \<lparr>texture_2d_array = 187, audio_clip = 83, video_clip = 329, movie_texture = 152\<rparr>,
     ec_summary = (\<lambda>_. Some sample_summary), ec_report = (\<lambda>_. Some sample_resource), ec_readable = (\<lambda>_. True),
     ec_steady = (\<lambda>_. True), ec_listable = (\<lambda>_. True), ec_temporary = True, ec_append = (\<lambda>_. None)\<rparr>"

definition sample_export :: node where
  "sample_export = DirNode [(''00000'', DirNode [(''0.png'', FileNode [1])]), (''summary.json'', FileNode [2]),
     (''resources.jsonl'', FileNode [3, 10])]"

text \<open>Large bounds are compared as integers when evaluating.\<close>

lemma export_bounds_code [code_unfold]:
  "MAX_RESOURCES < k \<longleftrightarrow> 1000000 < int k"
  "k < 2 ^ 64 \<longleftrightarrow> int k < 18446744073709551616"
  "k \<le> 4096 \<longleftrightarrow> int k \<le> 4096"
  "k < USIZE_RANGE \<longleftrightarrow> int k < 18446744073709551616"
  by (auto simp: MAX_RESOURCES_def USIZE_RANGE_def)

lemma sample_paths:
  "split_on (CHR ''/'') ''00000'' = [''00000'']" "split_on (CHR ''/'') ''00000/0.png'' = [''00000'', ''0.png'']"
  "split_on (CHR ''/'') ''summary.json'' = [''summary.json'']" "split_on (CHR ''/'') ''resources.jsonl'' = [''resources.jsonl'']"
  by code_simp+

lemma small_pieces: "b \<noteq> [] \<Longrightarrow> length b \<le> 65536 \<Longrightarrow> pieces BUFFER b = [b]"
  by (simp add: BUFFER_def pieces.simps[of "65536"])

lemma sample_tree: "exact_tree sample_checker sample_export ''00000'' [''0.png''] = Inr ()"
  by (simp add: exact_tree_def sample_export_def path_node_def sample_paths sample_checker_def child_path_def slashed_def)

lemma sample_hashes:
  "export_file_hash sample_checker sample_export ''00000/0.png'' 1 = Inr sample_digest"
  "export_file_hash sample_checker sample_export ''summary.json'' 1 = Inr sample_digest"
  "export_file_hash sample_checker sample_export ''resources.jsonl'' 2 = Inr sample_digest"
  by (simp_all add: export_file_hash_def sample_export_def path_node_def sample_paths sample_checker_def small_pieces checked_def)

lemma sample_checks:
  "resource_name_ok sample_summary check_start sample_resource = Inr ()"
  "check_item sample_checker sample_summary sample_resource [] sample_output = Inr ()"
  by code_simp+

lemma sample_accepted: "\<not> summary_rejected sample_checker Hk 0 sample_summary"
proof -
  have "valid_digest sample_digest" by code_simp
  then show ?thesis
    by (simp add: summary_rejected_def sample_summary_def sample_checker_def read_policy_validate_def cri_full_def cri_default_def
      policy_is_native_def summary_raw_only_def MAX_RESOURCES_def)
qed

lemma sample_files:
  "root_file sample_checker sample_export ''summary.json'' = Inr [2]"
  "root_file sample_checker sample_export ''resources.jsonl'' = Inr [3, 10]"
  by (simp_all add: root_file_def path_node_def sample_paths sample_export_def sample_checker_def)

lemma sample_journal: "journal_lines [3, 10] = [[3, 10]]"
proof -
  have "journal_lines [] = []" by (subst journal_lines.simps) simp
  then show ?thesis by (subst journal_lines.simps) simp
qed

lemma sample_fields:
  "output_directory sample_resource = ''00000''" "res_source sample_resource = ''a''" "res_errors sample_resource = []"
  "res_outputs sample_resource = [sample_output]" "res_objects sample_resource = 1" "selected_objects sample_resource = 1"
  "skipped_objects sample_resource = 0" "\<not> cache_hit sample_resource" "out_path sample_output = ''0.png''"
  "out_bytes sample_output = 1" "out_sha256 sample_output = sample_digest" "out_kind sample_output = ''image''"
  "uo_path (object_at ''00000'' sample_output) = ''00000/0.png''"
  by (simp_all add: sample_resource_def sample_output_def object_at_def)

lemma sample_summary_fields:
  "sm_input_files sample_summary = 1" "sm_raw_bundles sample_summary = None" "sm_output_files sample_summary = 1"
  "sm_output_bytes sample_summary = 1" "sm_payloads sample_summary = [(''image'', 1)]" "sm_succeeded sample_summary = 1"
  "sm_failed sample_summary = 0" "sm_objects sample_summary = 1" "sm_selected sample_summary = 1" "sm_skipped sample_summary = 0"
  "sm_cache_hits sample_summary = 0"
  by (simp_all add: sample_summary_def)

lemma sample_checker_fields:
  "ec_summary sample_checker b = Some sample_summary" "ec_report sample_checker l = Some sample_resource"
  "ec_append sample_checker x = None" "ec_temporary sample_checker" "ec_listable sample_checker d" "sha_text sample_checker b = sample_digest"
  by (simp_all add: sample_checker_def sha_text_def)

lemmas sample_hash = sample_hashes(2)[unfolded One_nat_def]

lemmas sample_facts = sample_hash sample_tree sample_hashes sample_checks sample_accepted sample_files sample_journal sample_fields sample_summary_fields sample_checker_fields
  checked_def append_object_def

lemma sample_line:
  "check_line sample_checker sample_export sample_summary 0 [3, 10] check_start = Inr
     \<lparr>ck_directories = [''00000''], ck_names = [''00000''], ck_sources = [''a''], ck_failed = [], ck_failed_files = 0,
      ck_failed_bytes = 0, ck_files = 1, ck_bytes = 1, ck_objects = 1, ck_selected = 1, ck_skipped = 0, ck_hits = 0,
      ck_kinds = [(''image'', 1)], ck_journal_bytes = 2, ck_inventory = [object_at ''00000'' sample_output]\<rparr>"
proof -
  have "good_resource sample_checker sample_export sample_summary sample_resource
      (check_start\<lparr>ck_journal_bytes := 2, ck_names := [''00000''], ck_sources := [''a'']\<rparr>) = Inr
     \<lparr>ck_directories = [''00000''], ck_names = [''00000''], ck_sources = [''a''], ck_failed = [], ck_failed_files = 0,
      ck_failed_bytes = 0, ck_files = 1, ck_bytes = 1, ck_objects = 1, ck_selected = 1, ck_skipped = 0, ck_hits = 0,
      ck_kinds = [(''image'', 1)], ck_journal_bytes = 2, ck_inventory = [object_at ''00000'' sample_output]\<rparr>"
    by (simp add: good_resource_def summary_raw_only_def sample_facts check_start_def count_kind_def add_objects_def
      del: One_nat_def)
  moreover have "Suc (Suc 0) < Suc (Suc 0) ^ 64" by (simp flip: numeral_2_eq_2)
  ultimately show ?thesis
    by (simp add: numeral_2_eq_2 check_line_def MAX_REPORT_def sample_facts Let_def check_start_def[THEN arg_cong[where f = ck_journal_bytes]]
      check_start_def[THEN arg_cong[where f = ck_names]] check_start_def[THEN arg_cong[where f = ck_sources]] del: One_nat_def)
qed

lemma sample_export_verifies:
  "\<exists>rep. prepare_export sample_checker sample_export sample_export Hk 0 = Inr (rep,
     [object_at ''00000'' sample_output, \<lparr>uo_path = ''summary.json'', uo_bytes = 1, uo_sha256 = sample_digest\<rparr>,
      \<lparr>uo_path = ''resources.jsonl'', uo_bytes = 2, uo_sha256 = sample_digest\<rparr>])"
proof -
  let ?s = "\<lparr>ck_directories = [''00000''], ck_names = [''00000''], ck_sources = [''a''], ck_failed = [], ck_failed_files = 0,
      ck_failed_bytes = 0, ck_files = 1, ck_bytes = 1, ck_objects = 1, ck_selected = 1, ck_skipped = 0, ck_hits = 0,
      ck_kinds = [(''image'', 1)], ck_journal_bytes = 2, ck_inventory = [object_at ''00000'' sample_output]\<rparr>"
  have "check_lines sample_checker sample_export sample_summary 0 [[3, 10]] check_start = Inr ?s"
    by (simp only: check_lines.simps sample_line and_then_simps)
  moreover have "\<not> totals_differ sample_summary ?s"
    by (simp add: totals_differ_def sample_facts del: One_nat_def)
  moreover have "is_dir sample_export" "list_all (top_entry_ok ?s) (case sample_export of DirNode es \<Rightarrow> es | _ \<Rightarrow> [])"
    by (simp_all add: sample_export_def top_entry_ok_def)
  ultimately show ?thesis
    by (simp add: prepare_export_def sample_facts MAX_SUMMARY_def del: check_lines.simps)
qed

theorem verified_export_is_exact_witness:
  "\<exists>rep objs. prepare_export sample_checker sample_export sample_export Hk 0 = Inr (rep, objs)
    \<and> list_all (object_file sample_checker sample_export) objs \<and> MARKER \<notin> uo_path ` set objs"
  using sample_export_verifies verified_export_is_exact[of sample_checker sample_export sample_export Hk 0] by blast

end
