(* ===== verification/Export_Cache.thy ===== *)
theory Export_Cache
  imports Export_Verified Asset_Worker Snapshot
begin

text \<open>
  The cache of decoded resources (\<open>src/export_cache.rs\<close>): entries named by a fingerprint of all that
  determines a decoding, restored only when every file has the recorded size and hash, written through a
  temporary directory and a rename, and kept within a budget of bytes and entries by evicting the least
  recently used. JSON texts, clocks, the file system's failures and the moments at which a cancellation is
  seen are arguments; the lock is in \<open>Download_Cache\<close>.
\<close>

subsection \<open>Entries\<close>

record cache_entry =
  ce_schema :: nat
  ce_identity :: string
  ce_report_sha :: string
  ce_report :: resource_report

text \<open>\<open>kl_json\<close>, \<open>kl_encode\<close> and \<open>kl_decode\<close> write a report, and write and read an entry; \<open>kl_text\<close> is the
  message of a failed step.\<close>

record cache_lib =
  kl_crypto :: crypto
  kl_json :: "resource_report \<Rightarrow> byte list option"
  kl_encode :: "cache_entry \<Rightarrow> byte list option"
  kl_decode :: "byte list \<Rightarrow> cache_entry option"
  kl_text :: string

definition io_failed :: "cache_lib \<Rightarrow> error" where
  "io_failed lib = error.Export (kl_text lib)"

text \<open>The budget: size and time of last use by entry, and the sum of the sizes.\<close>

record cache_budget =
  bg_entries :: "(string \<times> nat \<times> int) list"
  bg_bytes :: nat

record cache_settings =
  cq_limit :: nat
  cq_max_bytes :: "nat option"
  cq_max_entries :: "nat option"

record cache_state =
  cs_entries :: entries
  cs_budget :: cache_budget

datatype cache_poll =
    PollStart | PollEvict nat | PollItem nat | PollBlock nat nat | PollRestored | PollDecoded | PollStored
  | PollScan nat | PollSize nat

datatype cache_io =
    ReadEntry | MakeWork | MakeData | OpenItem nat | CreateItem nat | ReadBlock nat nat | WriteBlock nat nat | SyncItem nat
  | WriteEntry | RenameWork | TouchEntry | ListRoot | ListDirectory nat

text \<open>\<open>cf_left\<close>: what a failing removal leaves of an entry (\<open>None\<close>: the removal succeeds).\<close>

record cache_faults =
  cf_stop :: "cache_poll \<Rightarrow> bool"
  cf_ok :: "cache_io \<Rightarrow> bool"
  cf_left :: "string \<Rightarrow> node option option"
  cf_time :: "string \<Rightarrow> int"

definition poll :: "cache_faults \<Rightarrow> cache_poll \<Rightarrow> error + unit" where
  "poll f p = fail_if (cf_stop f p) error.Cancelled"

definition cache_do :: "cache_lib \<Rightarrow> cache_faults \<Rightarrow> cache_io \<Rightarrow> error + unit" where
  "cache_do lib f s = fail_if (\<not> cf_ok f s) (io_failed lib)"

definition cache_safe_path :: "string \<Rightarrow> bool" where
  "cache_safe_path s \<longleftrightarrow>
     \<not> (CHR 0x5C \<in> set s \<or> CHR '':'' \<in> set s \<or> CHR 0x00 \<in> set s)
     \<and> list_all (\<lambda>p. p \<noteq> [] \<and> p \<noteq> ''.'' \<and> p \<noteq> ''..'') (split_on (CHR ''/'') s)"

definition is_ascii_hexdigit :: "char \<Rightarrow> bool" where
  "is_ascii_hexdigit c \<longleftrightarrow> is_lower_hexdigit c \<or> (CHR ''A'' \<le> c \<and> c \<le> CHR ''F'')"

definition cache_digest :: "string \<Rightarrow> bool" where
  "cache_digest s \<longleftrightarrow> length s = 64 \<and> list_all is_ascii_hexdigit s"

definition report_print :: "cache_lib \<Rightarrow> resource_report \<Rightarrow> error + string" where
  "report_print lib r =
     and_then (ok_or (io_failed lib) (kl_json lib r)) (\<lambda>b. Inr (hex_encode (kl_crypto lib) (sha256 (kl_crypto lib) b)))"

subsection \<open>Making room\<close>

definition cache_removed :: "cache_faults \<Rightarrow> cache_lib \<Rightarrow> string \<Rightarrow> entries \<Rightarrow> (error + unit) \<times> entries" where
  "cache_removed f lib i es =
     (case map_of es i of
        None \<Rightarrow> (Inl (io_failed lib), es)
      | Some _ \<Rightarrow>
          (case cf_left f i of
             None \<Rightarrow> (Inr (), without i es)
           | Some None \<Rightarrow> (Inl (io_failed lib), without i es)
           | Some (Some n) \<Rightarrow> (Inl (io_failed lib), put i n es)))"

definition old_bytes :: "string option \<Rightarrow> cache_budget \<Rightarrow> nat" where
  "old_bytes replacing b = (case replacing of None \<Rightarrow> 0 | Some i \<Rightarrow> (case map_of (bg_entries b) i of None \<Rightarrow> 0 | Some v \<Rightarrow> fst v))"

definition old_count :: "string option \<Rightarrow> cache_budget \<Rightarrow> nat" where
  "old_count replacing b = (case replacing of None \<Rightarrow> 0 | Some i \<Rightarrow> (case map_of (bg_entries b) i of None \<Rightarrow> 0 | Some _ \<Rightarrow> 1))"

definition desired_bytes :: "string option \<Rightarrow> nat \<Rightarrow> cache_budget \<Rightarrow> error + nat" where
  "desired_bytes replacing bytes b =
     (if bg_bytes b < old_bytes replacing b \<or> 2 ^ 64 \<le> bg_bytes b - old_bytes replacing b + bytes then Inl error.Size
      else Inr (bg_bytes b - old_bytes replacing b + bytes))"

definition room_left :: "cache_settings \<Rightarrow> string option \<Rightarrow> nat \<Rightarrow> cache_budget \<Rightarrow> nat \<Rightarrow> bool" where
  "room_left q replacing n b bytes \<longleftrightarrow>
     \<not> is_some_and (\<lambda>limit. limit < bytes) (cq_max_bytes q)
     \<and> \<not> is_some_and (\<lambda>limit. limit < length (bg_entries b) - old_count replacing b + n) (cq_max_entries q)"

text \<open>\<open>min_by_key(|(id, (_, time))| (*time, *id))\<close>: the first of the smallest keys.\<close>

definition last_use :: "string \<times> nat \<times> int \<Rightarrow> int \<times> string" where
  "last_use = (\<lambda>(i, _, t). (t, i))"

fun min_use :: "(string \<times> nat \<times> int) list \<Rightarrow> (string \<times> nat \<times> int) option" where
  "min_use [] = None"
| "min_use (x # xs) =
     (case min_use xs of
        None \<Rightarrow> Some x
      | Some y \<Rightarrow> Some (if last_use x \<le> last_use y then x else y))"

definition candidates :: "string option \<Rightarrow> cache_budget \<Rightarrow> (string \<times> nat \<times> int) list" where
  "candidates replacing b = filter (\<lambda>x. Some (fst x) \<noteq> replacing) (bg_entries b)"

definition forget :: "string \<times> nat \<times> int \<Rightarrow> cache_budget \<Rightarrow> cache_budget" where
  "forget x b = b\<lparr>bg_entries := filter (\<lambda>y. fst y \<noteq> fst x) (bg_entries b), bg_bytes := bg_bytes b - fst (snd x)\<rparr>"

lemma min_use_None: "min_use xs = None \<longleftrightarrow> xs = []"
  by (cases xs) (auto split: option.splits)

lemma min_use_in: "min_use xs = Some x \<Longrightarrow> x \<in> set xs"
  by (induction xs arbitrary: x) (auto split: option.splits if_splits)

lemma min_use_least: "min_use xs = Some x \<Longrightarrow> y \<in> set xs \<Longrightarrow> last_use x \<le> last_use y"
proof (induction xs arbitrary: x y)
  case (Cons z zs)
  show ?case
  proof (cases "min_use zs")
    case None
    with Cons.prems show ?thesis by (simp add: min_use_None)
  next
    case (Some w)
    have w: "last_use w \<le> last_use v" if "v \<in> set zs" for v using Cons.IH[OF Some that] .
    from Some Cons.prems(1) have x: "x = (if last_use z \<le> last_use w then z else w)" by (simp split: if_splits)
    show ?thesis
    proof (cases "last_use z \<le> last_use w")
      case True
      then have "x = z" by (simp add: x)
      with True w Cons.prems(2) show ?thesis by (auto dest!: w intro: order_trans)
    next
      case False
      then have "x = w" "last_use w \<le> last_use z" by (simp_all add: x)
      with w Cons.prems(2) show ?thesis by (auto dest!: w)
    qed
  qed
qed simp

function make_room ::
  "cache_lib \<Rightarrow> cache_settings \<Rightarrow> cache_faults \<Rightarrow> string option \<Rightarrow> nat \<Rightarrow> nat \<Rightarrow> nat \<Rightarrow> cache_state
   \<Rightarrow> (error + unit) \<times> cache_state" where
  "make_room lib q f replacing bytes n k st =
     (case desired_bytes replacing bytes (cs_budget st) of
        Inl e \<Rightarrow> (Inl e, st)
      | Inr want \<Rightarrow>
          if room_left q replacing n (cs_budget st) want then (Inr (), st)
          else if cf_stop f (PollEvict k) then (Inl error.Cancelled, st)
          else
            (case min_use (candidates replacing (cs_budget st)) of
               None \<Rightarrow> (Inl error.Size, st)
             | Some x \<Rightarrow>
                 (case cache_removed f lib (fst x) (cs_entries st) of
                    (Inl e, es) \<Rightarrow> (Inl e, st\<lparr>cs_entries := es\<rparr>)
                  | (Inr _, es) \<Rightarrow>
                      make_room lib q f replacing bytes n (Suc k) \<lparr>cs_entries = es, cs_budget = forget x (cs_budget st)\<rparr>)))"
  by pat_completeness auto
termination
proof (relation "measure (\<lambda>(lib, q, f, replacing, bytes, n, k, st). length (bg_entries (cs_budget st)))", goal_cases)
  case (2 lib q f replacing bytes n k st want x u es)
  have "x \<in> set (bg_entries (cs_budget st))"
    using min_use_in[OF 2(4)] by (simp add: candidates_def)
  then show ?case
    by (auto simp: forget_def intro!: length_filter_less)
qed simp

declare make_room.simps [simp del]

subsection \<open>Copying outputs\<close>

text \<open>A file created below a directory, with the directories above it; \<open>None\<close> when something is in the way.\<close>

fun put_file :: "string list \<Rightarrow> byte list \<Rightarrow> entries \<Rightarrow> entries option" where
  "put_file [] b es = None"
| "put_file [n] b es = (if map_of es n = None then Some (put n (FileNode b) es) else None)"
| "put_file (n # m # ns) b es =
     (case map_of es n of
        None \<Rightarrow> map_option (\<lambda>sub. put n (DirNode sub) es) (put_file (m # ns) b [])
      | Some (DirNode sub) \<Rightarrow> map_option (\<lambda>sub'. put n (DirNode sub') es) (put_file (m # ns) b sub)
      | Some _ \<Rightarrow> None)"

text \<open>The blocks of item \<open>i\<close>, from the \<open>n\<close>-th on; \<open>None\<close> when the file is longer than recorded.\<close>

fun copy_blocks ::
  "cache_lib \<Rightarrow> cache_faults \<Rightarrow> nat \<Rightarrow> nat \<Rightarrow> nat \<Rightarrow> byte list list \<Rightarrow> nat \<Rightarrow> byte list
   \<Rightarrow> error + (nat \<times> byte list) option" where
  "copy_blocks lib f sz i n [] cnt acc =
     and_then (poll f (PollBlock i n)) (\<lambda>_.
     and_then (cache_do lib f (ReadBlock i n)) (\<lambda>_.
     Inr (Some (cnt, acc))))"
| "copy_blocks lib f sz i n (c # cs) cnt acc =
     and_then (poll f (PollBlock i n)) (\<lambda>_.
     and_then (cache_do lib f (ReadBlock i n)) (\<lambda>_.
     and_then (fail_if (2 ^ 64 \<le> cnt + length c) error.Size) (\<lambda>_.
     if sz < cnt + length c then Inr None
     else and_then (cache_do lib f (WriteBlock i n)) (\<lambda>_.
       copy_blocks lib f sz i (Suc n) cs (cnt + length c) (acc @ c)))))"

text \<open>One output; \<open>None\<close> when it is not the one recorded.\<close>

definition copy_output ::
  "cache_lib \<Rightarrow> cache_faults \<Rightarrow> nat \<Rightarrow> node \<Rightarrow> nat \<Rightarrow> nat \<Rightarrow> output_record \<Rightarrow> entries \<Rightarrow> error + entries option" where
  "copy_output lib f limit src i total_bytes x dst =
     (if limit < total_bytes then Inr None
      else
        (case path_node src (out_path x) of
           Some (FileNode b) \<Rightarrow>
             and_then (cache_do lib f (OpenItem i)) (\<lambda>_.
             if length b \<noteq> unat (out_bytes x) then Inr None
             else
               and_then (cache_do lib f (CreateItem i)) (\<lambda>_.
               and_then (ok_or (io_failed lib) (put_file (split_on (CHR ''/'') (out_path x)) [] dst)) (\<lambda>_.
               and_then (copy_blocks lib f (unat (out_bytes x)) i 0 (pieces BUFFER b) 0 []) (\<lambda>r.
               (case r of
                  None \<Rightarrow> Inr None
                | Some (cnt, acc) \<Rightarrow>
                    if cnt \<noteq> unat (out_bytes x) \<or> hex_encode (kl_crypto lib) (sha256 (kl_crypto lib) acc) \<noteq> out_sha256 x
                    then Inr None
                    else and_then (cache_do lib f (SyncItem i)) (\<lambda>_.
                      Inr (put_file (split_on (CHR ''/'') (out_path x)) acc dst)))))))
         | _ \<Rightarrow> Inr None))"

fun copy_items ::
  "cache_lib \<Rightarrow> cache_faults \<Rightarrow> nat \<Rightarrow> node \<Rightarrow> nat \<Rightarrow> nat \<Rightarrow> string list \<Rightarrow> output_record list \<Rightarrow> entries
   \<Rightarrow> error + entries option" where
  "copy_items lib f limit src i total_bytes seen [] dst = Inr (Some dst)"
| "copy_items lib f limit src i total_bytes seen (x # xs) dst =
     and_then (poll f (PollItem i)) (\<lambda>_.
     if \<not> cache_safe_path (out_path x) \<or> out_path x \<in> set seen \<or> \<not> cache_digest (out_sha256 x) then Inr None
     else
       and_then (fail_if (2 ^ 64 \<le> total_bytes + unat (out_bytes x)) error.Size) (\<lambda>_.
       and_then (copy_output lib f limit src i (total_bytes + unat (out_bytes x)) x dst) (\<lambda>r.
       (case r of
          None \<Rightarrow> Inr None
        | Some dst' \<Rightarrow>
            copy_items lib f limit src (Suc i) (total_bytes + unat (out_bytes x)) (out_path x # seen) xs dst'))))"

definition copy_outputs ::
  "cache_lib \<Rightarrow> cache_faults \<Rightarrow> nat \<Rightarrow> node option \<Rightarrow> resource_report \<Rightarrow> error + entries option" where
  "copy_outputs lib f limit src r =
     (case src of
        Some (DirNode ds) \<Rightarrow> copy_items lib f limit (DirNode ds) 0 0 [] (res_outputs r) []
      | _ \<Rightarrow> Inr None)"

subsection \<open>Restoring\<close>

definition accepted_entry :: "cache_lib \<Rightarrow> string \<Rightarrow> byte list \<Rightarrow> error + resource_report option" where
  "accepted_entry lib i b =
     (if MAX_REPORT < length (take (MAX_REPORT + 1) b) then Inr None
      else
        (case kl_decode lib (take (MAX_REPORT + 1) b) of
           None \<Rightarrow> Inr None
         | Some e \<Rightarrow>
             if ce_schema e \<noteq> 1 \<or> ce_identity e \<noteq> i \<or> res_errors (ce_report e) \<noteq> [] then Inr None
             else and_then (report_print lib (ce_report e)) (\<lambda>p.
               Inr (if ce_report_sha e = p then Some (ce_report e) else None))))"

definition reused :: "nat \<Rightarrow> resource_report \<Rightarrow> resource_report" where
  "reused ix r = r\<lparr>output_directory := zero_padded 5 ix, cache_hit := True\<rparr>"

definition touched :: "string \<Rightarrow> int \<Rightarrow> cache_budget \<Rightarrow> cache_budget" where
  "touched i now b = b\<lparr>bg_entries := map (\<lambda>(k, n, t). if k = i then (k, n, now) else (k, n, t)) (bg_entries b)\<rparr>"

text \<open>\<open>out\<close> is the export's directory.\<close>

definition restore_resource ::
  "cache_lib \<Rightarrow> cache_settings \<Rightarrow> cache_faults \<Rightarrow> string \<Rightarrow> nat \<Rightarrow> int \<Rightarrow> cache_state \<Rightarrow> entries
   \<Rightarrow> (error + resource_report option) \<times> cache_state \<times> entries" where
  "restore_resource lib q f i ix now st out =
     (case map_of (cs_entries st) i of
        Some (DirNode ds) \<Rightarrow>
          (case map_of ds ''entry.json'' of
             Some (FileNode eb) \<Rightarrow>
               (case and_then (cache_do lib f ReadEntry) (\<lambda>_. accepted_entry lib i eb) of
                  Inl e \<Rightarrow> (Inl e, st, out)
                | Inr None \<Rightarrow> (Inr None, st, out)
                | Inr (Some r) \<Rightarrow>
                    (case and_then (cache_do lib f MakeWork) (\<lambda>_. copy_outputs lib f (cq_limit q) (map_of ds ''data'') r) of
                       Inl e \<Rightarrow> (Inl e, st, out)
                     | Inr None \<Rightarrow> (Inr None, st, out)
                     | Inr (Some tree) \<Rightarrow>
                         (case and_then (poll f PollRestored) (\<lambda>_. cache_do lib f RenameWork) of
                            Inl e \<Rightarrow> (Inl e, st, out)
                          | Inr _ \<Rightarrow>
                              (let out' = put (zero_padded 5 ix) (DirNode tree) out in
                               (case cache_do lib f TouchEntry of
                                  Inl e \<Rightarrow> (Inl e, st, out')
                                | Inr _ \<Rightarrow>
                                    (Inr (Some (reused ix r)), st\<lparr>cs_budget := touched i now (cs_budget st)\<rparr>, out'))))))
           | _ \<Rightarrow> (Inr None, st, out))
      | _ \<Rightarrow> (Inr None, st, out))"

subsection \<open>Storing\<close>

fun entry_size :: "nat \<Rightarrow> output_record list \<Rightarrow> error + nat" where
  "entry_size n [] = Inr n"
| "entry_size n (x # xs) =
     and_then (fail_if (2 ^ 64 \<le> n + unat (out_bytes x)) error.Size) (\<lambda>_. entry_size (n + unat (out_bytes x)) xs)"

definition entry_text :: "cache_lib \<Rightarrow> string \<Rightarrow> resource_report \<Rightarrow> error + byte list" where
  "entry_text lib i r =
     and_then (report_print lib r) (\<lambda>p.
     and_then (ok_or (io_failed lib) (kl_encode lib \<lparr>ce_schema = 1, ce_identity = i, ce_report_sha = p, ce_report = r\<rparr>)) (\<lambda>b.
     and_then (fail_if (MAX_REPORT < length b) error.Size) (\<lambda>_. Inr b)))"

text \<open>The entry renamed into place, over an older one.\<close>

definition install_entry ::
  "cache_lib \<Rightarrow> cache_faults \<Rightarrow> string \<Rightarrow> nat \<Rightarrow> int \<Rightarrow> node \<Rightarrow> cache_state \<Rightarrow> (error + unit) \<times> cache_state" where
  "install_entry lib f i bytes now n st =
     (case (if map_of (cs_entries st) i = None then (Inr (), cs_entries st) else cache_removed f lib i (cs_entries st)) of
        (Inl e, es) \<Rightarrow> (Inl e, st\<lparr>cs_entries := es\<rparr>)
      | (Inr _, es) \<Rightarrow>
          (case cache_do lib f RenameWork of
             Inl e \<Rightarrow> (Inl e, st\<lparr>cs_entries := es\<rparr>)
           | Inr _ \<Rightarrow>
               (let b = cs_budget st; rest = bg_bytes b - old_bytes (Some i) b;
                    kept = b\<lparr>bg_entries := bt_insert i (bytes, now) (bg_entries b), bg_bytes := rest\<rparr> in
                if 2 ^ 64 \<le> rest + bytes then (Inl error.Size, \<lparr>cs_entries = put i n es, cs_budget = kept\<rparr>)
                else (Inr (), \<lparr>cs_entries = put i n es, cs_budget = kept\<lparr>bg_bytes := rest + bytes\<rparr>\<rparr>))))"

definition store_resource ::
  "cache_lib \<Rightarrow> cache_settings \<Rightarrow> cache_faults \<Rightarrow> string \<Rightarrow> int \<Rightarrow> node option \<Rightarrow> resource_report \<Rightarrow> cache_state
   \<Rightarrow> (error + unit) \<times> cache_state" where
  "store_resource lib q f i now src r st =
     (case and_then (entry_text lib i r) (\<lambda>b. and_then (entry_size (length b) (res_outputs r)) (\<lambda>n. Inr (b, n))) of
        Inl e \<Rightarrow> (Inl e, st)
      | Inr (b, n) \<Rightarrow>
          if is_some_and (\<lambda>limit. limit < n) (cq_max_bytes q) then (Inr (), st)
          else
            (case make_room lib q f (Some i) n 1 0 st of
               (Inl e, st') \<Rightarrow> (Inl e, st')
             | (Inr _, st') \<Rightarrow>
                 (case and_then (cache_do lib f MakeWork) (\<lambda>_. and_then (cache_do lib f MakeData) (\<lambda>_.
                      and_then (copy_outputs lib f (cq_limit q) src r) (\<lambda>c.
                      and_then (ok_or error.Verification c) (\<lambda>tree.
                      and_then (cache_do lib f WriteEntry) (\<lambda>_. and_then (poll f PollStored) (\<lambda>_. Inr tree)))))) of
                    Inl e \<Rightarrow> (Inl e, st')
                  | Inr tree \<Rightarrow>
                      install_entry lib f i n now (DirNode [(''entry.json'', FileNode b), (''data'', DirNode tree)]) st')))"

subsection \<open>Decoding through the cache\<close>

text \<open>\<open>decode\<close> decodes the resource into the export's directory; \<open>f\<close> is what happens while restoring, \<open>g\<close>
  while storing.\<close>

definition cached_resource ::
  "cache_lib \<Rightarrow> cache_settings \<Rightarrow> cache_faults \<Rightarrow> cache_faults \<Rightarrow> string \<Rightarrow> nat \<Rightarrow> int
   \<Rightarrow> (entries \<Rightarrow> (error + resource_report) \<times> entries) \<Rightarrow> cache_state \<Rightarrow> entries
   \<Rightarrow> (error + resource_report) \<times> cache_state \<times> entries" where
  "cached_resource lib q f g i ix now decode st out =
     (case poll f PollStart of
        Inl e \<Rightarrow> (Inl e, st, out)
      | Inr _ \<Rightarrow>
          (case restore_resource lib q f i ix now st out of
             (Inl e, st', out') \<Rightarrow> (Inl e, st', out')
           | (Inr (Some r), st', out') \<Rightarrow> (Inr r, st', out')
           | (Inr None, st', out') \<Rightarrow>
               (case decode out' of
                  (Inl e, out'') \<Rightarrow> (Inl e, st', out'')
                | (Inr r, out'') \<Rightarrow>
                    if res_errors r \<noteq> [] then (Inr r, st', out'')
                    else
                      (case poll g PollDecoded of
                         Inl e \<Rightarrow> (Inl e, st', out'')
                       | Inr _ \<Rightarrow>
                           (case store_resource lib q g i now (map_of out'' (output_directory r)) r st' of
                              (Inl e, st'') \<Rightarrow> (Inl e, st'', out'')
                            | (Inr _, st'') \<Rightarrow> (Inr r, st'', out''))))))"

subsection \<open>Opening\<close>

fun tree_nodes :: "node \<Rightarrow> nat" where
  "tree_nodes (DirNode es) = Suc (sum_list (map (tree_nodes \<circ> snd) es))"
| "tree_nodes _ = 1"

text \<open>The sizes of all files below; a symbolic link counts with its own length \<open>link\<close>.\<close>

function size_loop :: "cache_lib \<Rightarrow> cache_faults \<Rightarrow> nat \<Rightarrow> nat \<Rightarrow> node list \<Rightarrow> nat \<Rightarrow> error + nat" where
  "size_loop lib f link k [] bytes = Inr bytes"
| "size_loop lib f link k (n # ns) bytes =
     and_then (poll f (PollSize k)) (\<lambda>_.
     (case n of
        DirNode es \<Rightarrow> and_then (cache_do lib f (ListDirectory k)) (\<lambda>_. size_loop lib f link (Suc k) (rev (map snd es) @ ns) bytes)
      | FileNode b \<Rightarrow> and_then (fail_if (2 ^ 64 \<le> bytes + length b) error.Size) (\<lambda>_. size_loop lib f link (Suc k) ns (bytes + length b))
      | LinkNode \<Rightarrow> and_then (fail_if (2 ^ 64 \<le> bytes + link) error.Size) (\<lambda>_. size_loop lib f link (Suc k) ns (bytes + link))))"
  by pat_completeness auto
termination
  by (relation "measure (\<lambda>(lib, f, link, k, ns, bytes). sum_list (map tree_nodes ns))")
    (auto simp: rev_map[symmetric] sum_list_rev comp_def)

definition cache_pending :: string where
  "cache_pending = ''.pending-export-''"

text \<open>The entries of the directory, from the \<open>k\<close>-th on. What a stopped run left is removed, entries are counted
  with the time of their last use, other names are left alone.\<close>

fun scan_entries ::
  "cache_lib \<Rightarrow> cache_faults \<Rightarrow> nat \<Rightarrow> nat \<Rightarrow> entries \<Rightarrow> cache_state \<Rightarrow> (error + unit) \<times> cache_state" where
  "scan_entries lib f link k [] st = (Inr (), st)"
| "scan_entries lib f link k ((n, x) # rest) st =
     (case poll f (PollScan k) of
        Inl e \<Rightarrow> (Inl e, st)
      | Inr _ \<Rightarrow>
          if starts_with n cache_pending then
            (case cache_removed f lib n (cs_entries st) of
               (Inl e, es) \<Rightarrow> (Inl e, st\<lparr>cs_entries := es\<rparr>)
             | (Inr _, es) \<Rightarrow> scan_entries lib f link (Suc k) rest (st\<lparr>cs_entries := es\<rparr>))
          else if cache_digest n then
            (case size_loop lib f link 0 [x] 0 of
               Inl e \<Rightarrow> (Inl e, st)
             | Inr bytes \<Rightarrow>
                 if 2 ^ 64 \<le> bg_bytes (cs_budget st) + bytes then (Inl error.Size, st)
                 else scan_entries lib f link (Suc k) rest
                   (st\<lparr>cs_budget := \<lparr>bg_entries = bt_insert n (bytes, cf_time f n) (bg_entries (cs_budget st)),
                                     bg_bytes = bg_bytes (cs_budget st) + bytes\<rparr>\<rparr>))
          else scan_entries lib f link (Suc k) rest st)"

definition empty_budget :: cache_budget where
  "empty_budget = \<lparr>bg_entries = [], bg_bytes = 0\<rparr>"

definition scan_and_prune ::
  "cache_lib \<Rightarrow> cache_settings \<Rightarrow> cache_faults \<Rightarrow> nat \<Rightarrow> entries \<Rightarrow> (error + unit) \<times> cache_state" where
  "scan_and_prune lib q f link es =
     (case cache_do lib f ListRoot of
        Inl e \<Rightarrow> (Inl e, \<lparr>cs_entries = es, cs_budget = empty_budget\<rparr>)
      | Inr _ \<Rightarrow>
          (case scan_entries lib f link 0 es \<lparr>cs_entries = es, cs_budget = empty_budget\<rparr> of
             (Inl e, st) \<Rightarrow> (Inl e, st)
           | (Inr _, st) \<Rightarrow> make_room lib q f None 0 0 0 st))"

text \<open>Everything that determines a decoding is in the scope's fingerprint or in the identity's.\<close>

record cache_scope =
  sc_version :: nat
  sc_region :: region
  sc_environment :: string
  sc_platform :: string
  sc_cdn_root :: string
  sc_client_version :: string
  sc_protocol_version :: string
  sc_selection :: export_selection
  sc_read_kinds :: read_policy
  sc_raw_bundles :: "raw_config option"
  sc_cri :: cri_export
  sc_image :: "image_export list"
  sc_audio :: "audio_export list"
  sc_video :: video_export
  sc_backend :: media_backend
  sc_encoder :: string
  sc_key :: nat
  sc_split :: "string option"
  sc_revision :: string
  sc_binary :: string
  sc_ffmpeg :: "string option"

record cache_identity =
  ci_scope :: string
  ci_path :: string
  ci_provider :: provider
  ci_stored :: string
  ci_decrypted :: bool
  ci_dependencies :: "(string \<times> string) list"

definition resource_identity ::
  "(cache_identity \<Rightarrow> error + string) \<Rightarrow> string \<Rightarrow> asset_receipt \<Rightarrow> (string \<times> string) list \<Rightarrow> error + string" where
  "resource_identity print scope a deps =
     print \<lparr>ci_scope = scope, ci_path = ar_path a, ci_provider = ar_provider a, ci_stored = ar_stored a,
            ci_decrypted = ar_decrypted a, ci_dependencies = deps\<rparr>"

text \<open>What opening finds: \<open>cw_root\<close> is the canonical directory, \<open>None\<close> when it cannot be made; \<open>cw_real\<close>
  tells that it is a directory and no link; \<open>cw_guard\<close> is the failure to lock it; the updater's own binary is
  located and the encoder found through the search path before both are hashed.\<close>

record cache_world =
  cw_root :: "string list option"
  cw_real :: bool
  cw_guard :: "error option"
  cw_located :: "error + unit"
  cw_found :: "error + unit"
  cw_binary :: "error + string"
  cw_ffmpeg :: "error + string"
  cw_runtime :: "string option option"
  cw_print :: "cache_scope \<Rightarrow> error + string"

definition overlaps :: "string list \<Rightarrow> string list \<Rightarrow> bool" where
  "overlaps a b \<longleftrightarrow> starts_with a b \<or> starts_with b a"

definition cache_scope_of ::
  "cache_world \<Rightarrow> export_config \<Rightarrow> snapshot \<Rightarrow> nat \<Rightarrow> string option \<Rightarrow> string \<Rightarrow> string option \<Rightarrow> cache_scope" where
  "cache_scope_of w c sn key split binary ffmpeg =
     \<lparr>sc_version = 1, sc_region = unwrap_or Jp (snap_region sn), sc_environment = snap_environment sn,
      sc_platform = snap_platform sn, sc_cdn_root = snap_effective_cdn_root sn, sc_client_version = snap_client_version sn,
      sc_protocol_version = snap_protocol_version sn, sc_selection = xc_selection c, sc_read_kinds = xc_read_kinds c,
      sc_raw_bundles = xc_raw_bundles c, sc_cri = xc_cri c, sc_image = xc_image c, sc_audio = xc_audio c, sc_video = xc_video c,
      sc_backend = xc_backend c, sc_encoder = backend_identity (cw_runtime w) (xc_backend c), sc_key = key, sc_split = split,
      sc_revision = xc_cache_revision c, sc_binary = binary, sc_ffmpeg = ffmpeg\<rparr>"

definition cache_open ::
  "cache_lib \<Rightarrow> cache_world \<Rightarrow> env \<Rightarrow> cache_faults \<Rightarrow> nat \<Rightarrow> export_config \<Rightarrow> string list \<Rightarrow> string list \<Rightarrow> snapshot \<Rightarrow> nat
   \<Rightarrow> entries \<Rightarrow> error + (string \<times> cache_settings \<times> cache_state) option" where
  "cache_open lib w e f link c input output sn key es =
     (if xc_cache_directory c = None then Inr None
      else
        and_then (ok_or (io_failed lib) (cw_root w)) (\<lambda>d.
        and_then (fail_if (\<not> cw_real w) error.Config) (\<lambda>_.
        and_then (fail_if (overlaps d input \<or> overlaps d output) error.Config) (\<lambda>_.
        and_then (case cw_guard w of Some x \<Rightarrow> Inl x | None \<Rightarrow> Inr ()) (\<lambda>_.
        and_then (cw_located w) (\<lambda>_.
        and_then (if raw_only c then Inr () else cw_found w) (\<lambda>_.
        and_then (case xc_split_acb_xor_env c of None \<Rightarrow> Inr None | Some v \<Rightarrow> map_sum id Some (ok_or error.Secret (e v))) (\<lambda>split.
        and_then (cw_binary w) (\<lambda>binary.
        and_then (if raw_only c then Inr None else map_sum id Some (cw_ffmpeg w)) (\<lambda>ffmpeg.
        and_then (cw_print w (cache_scope_of w c sn key split binary ffmpeg)) (\<lambda>scope.
        (let q = \<lparr>cq_limit = unat (xc_max_output c), cq_max_bytes = map_option unat (xc_cache_max_bytes c),
                  cq_max_entries = xc_cache_max_entries c\<rparr> in
         (case scan_and_prune lib q f link es of
            (Inl x, _) \<Rightarrow> Inl x
          | (Inr _, st) \<Rightarrow> Inr (Some (scope, q, st)))))))))))))))"

end
