(* ===== verification/Export_Cached.thy ===== *)
theory Export_Cached
  imports Export_Cache
begin

text \<open>
  What the cache of decoded resources promises (\<open>src/export_cache.rs\<close>): eviction takes the least recently
  used entries and no more than needed, the cache stays within its budget, what is restored has exactly the
  recorded files, and decoding through the cache gives what decoding gives.
\<close>

subsection \<open>Eviction\<close>

lemma filter_same_key:
  "distinct (map f zs) \<Longrightarrow> k \<in> set zs \<Longrightarrow> filter (\<lambda>x. f k = f x) zs = [k]"
proof (induction zs)
  case (Cons z zs)
  show ?case
  proof (cases "k = z")
    case True
    with Cons.prems show ?thesis by (auto simp: filter_empty_conv)
  next
    case False
    with Cons.prems have k: "k \<in> set zs" and "f z \<notin> f ` set zs" by auto
    then have "f k \<noteq> f z" by (metis imageI)
    with Cons k show ?thesis by simp
  qed
qed simp

lemma sort_key_least:
  assumes d: "distinct (map f xs)" and x: "x \<in> set xs" and least: "\<And>y. y \<in> set xs \<Longrightarrow> f x \<le> f y"
  shows "sort_key f xs = x # sort_key f (filter (\<lambda>y. y \<noteq> x) xs)"
proof (rule properties_for_sort_key)
  have "distinct xs" using d by (simp add: distinct_map)
  then have "filter (\<lambda>y. y \<noteq> x) xs = remove1 x xs"
    by (simp add: distinct_remove1_removeAll removeAll_filter_not_eq) (metis (mono_tags, lifting))
  then show m: "mset (x # sort_key f (filter (\<lambda>y. y \<noteq> x) xs)) = mset xs" using x by simp
  then have "mset (map f (x # sort_key f (filter (\<lambda>y. y \<noteq> x) xs))) = mset (map f xs)"
    by (simp only: mset_map)
  with d have d': "distinct (map f (x # sort_key f (filter (\<lambda>y. y \<noteq> x) xs)))"
    using mset_eq_imp_distinct_iff by blast
  show "filter (\<lambda>y. f k = f y) (x # sort_key f (filter (\<lambda>y. y \<noteq> x) xs)) = filter (\<lambda>y. f k = f y) xs"
    if "k \<in> set (x # sort_key f (filter (\<lambda>y. y \<noteq> x) xs))" for k
    using filter_same_key[OF d' that] filter_same_key[OF d] m that by (metis mset_eq_setD)
  show "sorted (map f (x # sort_key f (filter (\<lambda>y. y \<noteq> x) xs)))"
    using least by auto
qed

definition budget_ok :: "cache_budget \<Rightarrow> bool" where
  "budget_ok b \<longleftrightarrow> bt_ordered (bg_entries b) \<and> bg_bytes b = sum_list (map (fst \<circ> snd) (bg_entries b)) \<and> bg_bytes b < 2 ^ 64"

text \<open>The first \<open>m\<close> candidates in the order of their last use are forgotten.\<close>

definition evicted :: "string option \<Rightarrow> cache_budget \<Rightarrow> nat \<Rightarrow> (string \<times> nat \<times> int) list" where
  "evicted replacing b m = take m (sort_key last_use (candidates replacing b))"

definition after_eviction :: "string option \<Rightarrow> cache_budget \<Rightarrow> nat \<Rightarrow> cache_budget" where
  "after_eviction replacing b m = fold forget (evicted replacing b m) b"

definition fits :: "cache_settings \<Rightarrow> string option \<Rightarrow> nat \<Rightarrow> nat \<Rightarrow> cache_budget \<Rightarrow> bool" where
  "fits q replacing bytes n b \<longleftrightarrow> room_left q replacing n b (bg_bytes b - old_bytes replacing b + bytes)"

lemma bt_ordered_filter: "bt_ordered m \<Longrightarrow> bt_ordered (filter P m)"
  by (induction m) (auto simp: bt_ordered_def)

lemma sum_filter_out:
  fixes g :: "'k \<times> 'v \<Rightarrow> nat"
  assumes "distinct (map fst m)" and "x \<in> set m"
  shows "sum_list (map g m) = g x + sum_list (map g (filter (\<lambda>y. fst y \<noteq> fst x) m))"
  using assms
proof (induction m)
  case (Cons y ys)
  show ?case
  proof (cases "x = y")
    case True
    with Cons.prems have "filter (\<lambda>y. fst y \<noteq> fst x) ys = ys" by (auto simp: filter_id_conv rev_image_eqI)
    with True show ?thesis by simp
  next
    case False
    with Cons have "x \<in> set ys" "fst y \<noteq> fst x" by (auto simp: rev_image_eqI)
    with Cons show ?thesis by simp
  qed
qed simp

lemma forget_ok:
  assumes "budget_ok b" and "x \<in> set (bg_entries b)"
  shows "budget_ok (forget x b)"
  using assms sum_filter_out[OF bt_ordered_distinct, of "bg_entries b" x "fst \<circ> snd"]
  by (auto simp: budget_ok_def forget_def bt_ordered_filter)

lemma old_bytes_le:
  assumes "budget_ok b"
  shows "old_bytes replacing b \<le> bg_bytes b"
proof -
  have "n \<le> bg_bytes b" if "(i, n, t) \<in> set (bg_entries b)" for i n t
    using assms that by (force simp: budget_ok_def intro: member_le_sum_list)
  then show ?thesis by (force simp: old_bytes_def split: option.splits dest: map_of_SomeD)
qed

lemma candidates_forget:
  assumes "budget_ok b" and "x \<in> set (candidates replacing b)"
  shows "candidates replacing (forget x b) = filter (\<lambda>y. y \<noteq> x) (candidates replacing b)"
proof -
  have "distinct (map fst (bg_entries b))" using assms(1) by (simp add: budget_ok_def bt_ordered_distinct)
  then have "y = x \<longleftrightarrow> fst y = fst x" if "y \<in> set (bg_entries b)" for y
    using that assms(2) by (auto simp: candidates_def distinct_map inj_on_def)
  then show ?thesis
    by (auto simp: candidates_def forget_def filter_filter intro!: filter_cong)
qed

lemma last_use_key: "last_use x = last_use y \<Longrightarrow> fst x = fst y"
  by (cases x; cases y) (simp add: last_use_def)

lemma last_use_inj: "distinct (map fst m) \<Longrightarrow> distinct (map last_use m)"
  unfolding distinct_map inj_on_def using last_use_key by metis

lemma evicted_step:
  assumes ok: "budget_ok b" and x: "min_use (candidates replacing b) = Some x"
  shows "evicted replacing b (Suc m) = x # evicted replacing (forget x b) m"
proof -
  have "distinct (map fst (bg_entries b))" using ok by (simp add: budget_ok_def bt_ordered_distinct)
  then have "distinct (map last_use (candidates replacing b))"
    using last_use_inj by (simp add: candidates_def distinct_map_filter)
  from sort_key_least[OF this min_use_in[OF x] min_use_least[OF x]]
  show ?thesis
    by (simp add: evicted_def candidates_forget[OF ok min_use_in[OF x]])
qed

lemma after_eviction_step:
  assumes "budget_ok b" and "min_use (candidates replacing b) = Some x"
  shows "after_eviction replacing b (Suc m) = after_eviction replacing (forget x b) m"
  by (simp add: after_eviction_def evicted_step[OF assms])

lemma after_eviction_0 [simp]: "after_eviction replacing b 0 = b"
  by (simp add: after_eviction_def evicted_def)

lemma desired_bytes_ok:
  "budget_ok b \<Longrightarrow> desired_bytes replacing bytes b = Inr want \<Longrightarrow>
     want = bg_bytes b - old_bytes replacing b + bytes \<and> want < 2 ^ 64"
  by (auto simp: desired_bytes_def split: if_splits)

lemma candidate_entry: "min_use (candidates replacing b) = Some x \<Longrightarrow> x \<in> set (bg_entries b)"
  using min_use_in by (fastforce simp: candidates_def)

lemma cache_removed_Inr: "cache_removed f lib i es = (Inr u, es') \<Longrightarrow> es' = without i es"
  by (auto simp: cache_removed_def split: option.splits)

text \<open>Whatever happens, evictions have been those of the least recently used entries; a success took no more
  than were needed, and every forgotten entry is gone.\<close>

lemma make_room_spec:
  "make_room lib q f replacing bytes n k st = (r, st') \<Longrightarrow> budget_ok (cs_budget st) \<Longrightarrow>
     \<exists>m. cs_budget st' = after_eviction replacing (cs_budget st) m \<and> budget_ok (cs_budget st')
       \<and> (\<forall>i<m. \<not> fits q replacing bytes n (after_eviction replacing (cs_budget st) i))
       \<and> (is_ok r \<longrightarrow> fits q replacing bytes n (cs_budget st')
            \<and> bg_bytes (cs_budget st') - old_bytes replacing (cs_budget st') + bytes < 2 ^ 64
            \<and> cs_entries st' = filter (\<lambda>e. fst e \<notin> fst ` set (evicted replacing (cs_budget st) m)) (cs_entries st))"
proof (induction lib q f replacing bytes n k st arbitrary: r st' rule: make_room.induct)
  case (1 lib q f replacing bytes n k st)
  note ok = 1(3)
  show ?case
  proof (cases "desired_bytes replacing bytes (cs_budget st)")
    case (Inl e)
    with 1(2) have "st' = st" "\<not> is_ok r" by (auto simp: make_room.simps[of lib q f replacing bytes n k st])
    with ok show ?thesis by (intro exI[of _ 0]) (simp add: evicted_def)
  next
    case (Inr want)
    note want = desired_bytes_ok[OF ok Inr]
    have fit: "fits q replacing bytes n (cs_budget st) \<longleftrightarrow> room_left q replacing n (cs_budget st) want"
      by (simp add: fits_def want)
    show ?thesis
    proof (cases "room_left q replacing n (cs_budget st) want")
      case True
      with 1(2) Inr have "st' = st" by (simp add: make_room.simps[of lib q f replacing bytes n k st])
      with ok want fit True show ?thesis by (intro exI[of _ 0]) (auto simp: evicted_def)
    next
      case False
      show ?thesis
      proof (cases "\<exists>x es. \<not> cf_stop f (PollEvict k) \<and> min_use (candidates replacing (cs_budget st)) = Some x
          \<and> cache_removed f lib (fst x) (cs_entries st) = (Inr (), es)")
        case False
        with 1(2) Inr \<open>\<not> room_left q replacing n (cs_budget st) want\<close>
        have "cs_budget st' = cs_budget st \<and> \<not> is_ok r"
          by (auto simp: make_room.simps[of lib q f replacing bytes n k st] split: if_splits option.splits prod.splits sum.splits)
        with ok show ?thesis by (intro exI[of _ 0]) simp
      next
        case True
        then obtain x es where stop: "\<not> cf_stop f (PollEvict k)" and x: "min_use (candidates replacing (cs_budget st)) = Some x"
          and es: "cache_removed f lib (fst x) (cs_entries st) = (Inr (), es)" by blast
        let ?st = "\<lparr>cs_entries = es, cs_budget = forget x (cs_budget st)\<rparr>"
        have rec: "make_room lib q f replacing bytes n (Suc k) ?st = (r, st')"
          using 1(2) Inr False stop x es by (simp add: make_room.simps[of lib q f replacing bytes n k st])
        have ok': "budget_ok (cs_budget ?st)" using forget_ok[OF ok candidate_entry[OF x]] by simp
        from 1(1)[OF Inr False stop x es[symmetric] refl rec ok'] obtain m where
          m: "cs_budget st' = after_eviction replacing (forget x (cs_budget st)) m" "budget_ok (cs_budget st')"
            "\<forall>i<m. \<not> fits q replacing bytes n (after_eviction replacing (forget x (cs_budget st)) i)"
          and s: "is_ok r \<longrightarrow> fits q replacing bytes n (cs_budget st')
            \<and> bg_bytes (cs_budget st') - old_bytes replacing (cs_budget st') + bytes < 2 ^ 64
            \<and> cs_entries st' = filter (\<lambda>e. fst e \<notin> fst ` set (evicted replacing (forget x (cs_budget st)) m)) es"
          by auto
        have "\<not> fits q replacing bytes n (after_eviction replacing (cs_budget st) i)" if "i < Suc m" for i
          using that m(3) fit False by (cases i) (simp_all add: after_eviction_step[OF ok x])
        moreover have "filter (\<lambda>e. fst e \<notin> fst ` set (evicted replacing (forget x (cs_budget st)) m)) es
            = filter (\<lambda>e. fst e \<notin> fst ` set (evicted replacing (cs_budget st) (Suc m))) (cs_entries st)"
          using cache_removed_Inr[OF es] by (auto simp: evicted_step[OF ok x] without_def filter_filter intro!: filter_cong)
        ultimately show ?thesis
          using m s by (intro exI[of _ "Suc m"]) (auto simp: after_eviction_step[OF ok x])
      qed
    qed
  qed
qed

text \<open>Eviction is least recently used and minimal: making room for \<open>bytes\<close> and \<open>n\<close> entries only removes
  entries in the order of their last use, none of them the one being replaced; when it succeeds the new
  entry fits, with one eviction less it would not have, and exactly the evicted entries are gone from the
  directory; when it fails the budget still describes the entries that are left.\<close>

theorem eviction_is_least_recently_used:
  assumes "make_room lib q f replacing bytes n k st = (r, st')" and "budget_ok (cs_budget st)"
  shows "\<exists>m. cs_budget st' = after_eviction replacing (cs_budget st) m \<and> budget_ok (cs_budget st')
    \<and> (\<forall>x\<in>set (evicted replacing (cs_budget st) m). Some (fst x) \<noteq> replacing)
    \<and> (\<forall>i<m. \<not> fits q replacing bytes n (after_eviction replacing (cs_budget st) i))
    \<and> (is_ok r \<longrightarrow> fits q replacing bytes n (cs_budget st')
         \<and> cs_entries st' = filter (\<lambda>e. fst e \<notin> fst ` set (evicted replacing (cs_budget st) m)) (cs_entries st))"
proof -
  have "Some (fst x) \<noteq> replacing" if "x \<in> set (evicted replacing (cs_budget st) m)" for x m
    using that by (auto simp: evicted_def candidates_def dest!: in_set_takeD)
  with make_room_spec[OF assms] show ?thesis by blast
qed

subsection \<open>The budget\<close>

definition within :: "cache_settings \<Rightarrow> cache_budget \<Rightarrow> bool" where
  "within q b \<longleftrightarrow> \<not> is_some_and (\<lambda>limit. limit < bg_bytes b) (cq_max_bytes q)
     \<and> \<not> is_some_and (\<lambda>limit. limit < length (bg_entries b)) (cq_max_entries q)"

lemma fold_forget_smaller:
  "bg_bytes (fold forget xs b) \<le> bg_bytes b \<and> length (bg_entries (fold forget xs b)) \<le> length (bg_entries b)"
proof (induction xs arbitrary: b)
  case (Cons x xs)
  have "bg_bytes (forget x b) \<le> bg_bytes b \<and> length (bg_entries (forget x b)) \<le> length (bg_entries b)"
    by (simp add: forget_def)
  with Cons[of "forget x b"] show ?case by simp
qed simp

lemma within_smaller:
  "within q b \<Longrightarrow> bg_bytes c \<le> bg_bytes b \<Longrightarrow> length (bg_entries c) \<le> length (bg_entries b) \<Longrightarrow> within q c"
  by (cases "cq_max_bytes q"; cases "cq_max_entries q") (auto simp: within_def)

lemma make_room_within:
  assumes "make_room lib q f replacing bytes n k st = (r, st')" and "budget_ok (cs_budget st)" and "within q (cs_budget st)"
  shows "budget_ok (cs_budget st') \<and> within q (cs_budget st')"
proof -
  from make_room_spec[OF assms(1,2)] obtain m where
    "cs_budget st' = after_eviction replacing (cs_budget st) m" "budget_ok (cs_budget st')" by blast
  with fold_forget_smaller within_smaller[OF assms(3)] show ?thesis by (simp add: after_eviction_def)
qed

lemma bt_insert_sum:
  fixes g :: "'k::linorder \<times> 'v \<Rightarrow> nat"
  shows "bt_ordered m \<Longrightarrow> sum_list (map g (bt_insert k v m))
      = g (k, v) + (sum_list (map g m) - (case map_of m k of None \<Rightarrow> 0 | Some w \<Rightarrow> g (k, w)))"
proof (induction k v m rule: bt_insert.induct)
  case (2 k v k' v' m)
  show ?case
  proof (cases "k < k'")
    case True
    with 2(2) have "map_of ((k', v') # m) k = None" by (auto simp: bt_ordered_def map_of_eq_None_iff)
    with True show ?thesis by simp
  next
    case False
    show ?thesis
    proof (cases "k = k'")
      case neq: False
      have "w \<le> sum_list (map g m)" if "map_of m k = Some v" "w = g (k, v)" for w v
        using that map_of_SomeD[of m k v] by (auto intro!: member_le_sum_list)
      then have "(case map_of m k of None \<Rightarrow> 0 | Some w \<Rightarrow> g (k, w)) \<le> sum_list (map g m)"
        by (auto split: option.splits)
      with 2 False neq show ?thesis by (simp add: bt_ordered_def)
    qed (use False in simp)
  qed
qed simp

lemma old_count_len: "old_count (Some i) b = (if i \<in> fst ` set (bg_entries b) then 1 else 0)"
  using map_of_eq_None_iff[of "bg_entries b" i] by (cases "map_of (bg_entries b) i") (simp_all add: old_count_def)

lemma install_entry_budget:
  assumes ins: "install_entry lib f i bytes now n st = (r, st')" and ok: "budget_ok (cs_budget st)" and w: "within q (cs_budget st)"
    and room: "fits q (Some i) bytes 1 (cs_budget st)" and small: "bg_bytes (cs_budget st) - old_bytes (Some i) (cs_budget st) + bytes < 2 ^ 64"
  shows "budget_ok (cs_budget st') \<and> within q (cs_budget st')"
proof -
  let ?b = "cs_budget st"
  let ?new = "\<lparr>bg_entries = bt_insert i (bytes, now) (bg_entries ?b), bg_bytes = bg_bytes ?b - old_bytes (Some i) ?b + bytes\<rparr>"
  have ord: "bt_ordered (bg_entries ?b)" and sum: "bg_bytes ?b = sum_list (map (fst \<circ> snd) (bg_entries ?b))"
    using ok by (simp_all add: budget_ok_def)
  have "sum_list (map (fst \<circ> snd) (bt_insert i (bytes, now) (bg_entries ?b))) = bytes + (bg_bytes ?b - old_bytes (Some i) ?b)"
    by (simp add: bt_insert_sum[OF ord] sum old_bytes_def comp_def split: option.splits)
  then have "budget_ok ?new" using ord small by (simp add: budget_ok_def)
  moreover have "length (bt_insert i (bytes, now) (bg_entries ?b)) = length (bg_entries ?b) - old_count (Some i) ?b + 1"
    using length_bt_insert[OF ord, of i "(bytes, now)"] by (auto simp: old_count_len neq_Nil_conv dest: length_pos_if_in_set)
  then have "within q ?new"
    using room by (simp add: fits_def room_left_def within_def)
  moreover have "cs_budget st' = ?b \<or> cs_budget st' = ?new"
    using ins small by (auto simp: install_entry_def Let_def split: prod.splits sum.splits if_splits)
  ultimately show ?thesis using ok w by auto
qed

lemma store_resource_budget:
  assumes "store_resource lib q f i now src r st = (res, st')" and "budget_ok (cs_budget st)" and "within q (cs_budget st)"
  shows "budget_ok (cs_budget st') \<and> within q (cs_budget st')"
proof (cases "and_then (entry_text lib i r) (\<lambda>b. and_then (entry_size (length b) (res_outputs r)) (\<lambda>n. Inr (b, n)))")
  case (Inl e)
  with assms show ?thesis by (auto simp: store_resource_def)
next
  case (Inr bn)
  obtain b n where bn: "bn = (b, n)" by fastforce
  show ?thesis
  proof (cases "is_some_and (\<lambda>limit. limit < n) (cq_max_bytes q)")
    case True
    with assms Inr bn show ?thesis by (auto simp: store_resource_def)
  next
    case False
    obtain x st1 where mr: "make_room lib q f (Some i) n 1 0 st = (x, st1)" by fastforce
    note w = make_room_within[OF mr assms(2,3)]
    show ?thesis
    proof (cases "cs_budget st' = cs_budget st1")
      case True
      with w show ?thesis by simp
    next
      case changed: False
      with assms(1) Inr bn False mr obtain tree where x: "is_ok x"
        and ins: "install_entry lib f i n now (DirNode [(''entry.json'', FileNode b), (''data'', DirNode tree)]) st1 = (res, st')"
        by (auto simp: store_resource_def split: sum.splits)
      from make_room_spec[OF mr assms(2)] x have "fits q (Some i) n 1 (cs_budget st1)"
        "bg_bytes (cs_budget st1) - old_bytes (Some i) (cs_budget st1) + n < 2 ^ 64" by auto
      from install_entry_budget[OF ins _ _ this] w show ?thesis by blast
    qed
  qed
qed

lemma touched_budget:
  shows "budget_ok b \<Longrightarrow> budget_ok (touched i now b)" and "within q b \<Longrightarrow> within q (touched i now b)"
proof -
  have "map fst (bg_entries (touched i now b)) = map fst (bg_entries b)"
    "map (fst \<circ> snd) (bg_entries (touched i now b)) = map (fst \<circ> snd) (bg_entries b)"
    "bg_bytes (touched i now b) = bg_bytes b" "length (bg_entries (touched i now b)) = length (bg_entries b)"
    by (auto simp: touched_def)
  then show "budget_ok b \<Longrightarrow> budget_ok (touched i now b)" "within q b \<Longrightarrow> within q (touched i now b)"
    by (simp_all add: budget_ok_def bt_ordered_def within_def)
qed

lemma restore_resource_state:
  assumes "restore_resource lib q f i ix now st out = (r, st', out')"
  shows "cs_entries st' = cs_entries st \<and> (cs_budget st' = cs_budget st \<or> cs_budget st' = touched i now (cs_budget st))"
  using assms by (auto simp: restore_resource_def Let_def split: option.splits node.splits sum.splits)

text \<open>The stages of a resource that goes through the cache.\<close>

lemma cached_resource_cases:
  assumes "cached_resource lib q f g i ix now decode st out = (r, st', out')"
  obtains (cancelled) "\<not> is_ok r" "st' = st" "out' = out"
  | (failed) e where "restore_resource lib q f i ix now st out = (Inl e, st', out')" "r = Inl e"
  | (hit) x where "restore_resource lib q f i ix now st out = (Inr (Some x), st', out')" "r = Inr x"
  | (decoded) out1 where "restore_resource lib q f i ix now st out = (Inr None, st', out1)" "decode out1 = (r, out')"
      "\<forall>x. r = Inr x \<longrightarrow> res_errors x \<noteq> []"
  | (stopped) x out1 where "restore_resource lib q f i ix now st out = (Inr None, st', out1)" "decode out1 = (Inr x, out')"
      "\<not> is_ok r"
  | (stored) x st1 out1 res where "restore_resource lib q f i ix now st out = (Inr None, st1, out1)" "decode out1 = (Inr x, out')"
      "res_errors x = []" "store_resource lib q g i now (map_of out' (output_directory x)) x st1 = (res, st')"
      "r = (case res of Inl e \<Rightarrow> Inl e | Inr _ \<Rightarrow> Inr x)"
proof (cases "poll f PollStart")
  case (Inl e)
  with assms cancelled show ?thesis by (auto simp: cached_resource_def)
next
  case start: (Inr u)
  obtain x st1 out1 where rs: "restore_resource lib q f i ix now st out = (x, st1, out1)" by (metis surj_pair)
  note run = assms[unfolded cached_resource_def start rs]
  consider e where "x = Inl e" | y where "x = Inr (Some y)" | "x = Inr None" by (metis sum.exhaust option.exhaust)
  then show ?thesis
  proof cases
    case (1 e)
    with run rs failed show ?thesis by simp
  next
    case (2 y)
    with run rs hit show ?thesis by simp
  next
    case 3
    obtain d out2 where d: "decode out1 = (d, out2)" by (metis surj_pair)
    note run = run[unfolded 3 d, simplified]
    show ?thesis
    proof (cases d)
      case (Inl e)
      with run rs 3 d decoded[of out1] show ?thesis by auto
    next
      case y: (Inr y)
      show ?thesis
      proof (cases "res_errors y = []")
        case False
        with y run rs 3 d decoded[of out1] show ?thesis by auto
      next
        case True
        show ?thesis
        proof (cases "poll g PollDecoded")
          case (Inl e)
          with True y run rs 3 d stopped[of out1 y] show ?thesis by auto
        next
          case (Inr v)
          obtain res st2 where sr: "store_resource lib q g i now (map_of out2 (output_directory y)) y st1 = (res, st2)"
            by (metis surj_pair)
          have last: "(case store_resource lib q g i now (map_of out2 (output_directory y)) y st1 of
               (Inl e, st'') \<Rightarrow> (Inl e, st'', out2) | (Inr _, st'') \<Rightarrow> (Inr y, st'', out2)) = (r, st', out')"
            using run by (simp add: d y True Inr)
          have eq: "st2 = st'" "out2 = out'" "r = (case res of Inl e \<Rightarrow> Inl e | Inr _ \<Rightarrow> Inr y)"
            using last unfolding sr by (auto split: sum.splits)
          show ?thesis by (rule stored[of st1 out1 y res]) (use rs 3 d y True sr eq in simp_all)
        qed
      qed
    qed
  qed
qed

lemma cached_resource_budget:
  assumes "cached_resource lib q f g i ix now decode st out = (r, st', out')" "budget_ok (cs_budget st)" "within q (cs_budget st)"
  shows "budget_ok (cs_budget st') \<and> within q (cs_budget st')"
proof -
  have kept: "budget_ok (cs_budget st1) \<and> within q (cs_budget st1)" if "restore_resource lib q f i ix now st out = (x, st1, out1)" for x st1 out1
    using restore_resource_state[OF that] assms(2,3) touched_budget by metis
  from assms(1) show ?thesis
  proof (cases rule: cached_resource_cases)
    case (stored x st1 out1 res)
    with store_resource_budget kept show ?thesis by metis
  qed (use assms(2,3) kept in auto)
qed

lemma scan_entries_budget:
  "scan_entries lib f link k es st = (Inr u, st') \<Longrightarrow> distinct (map fst es) \<Longrightarrow> budget_ok (cs_budget st) \<Longrightarrow>
     fst ` set (bg_entries (cs_budget st)) \<inter> fst ` set es = {} \<Longrightarrow> budget_ok (cs_budget st')"
proof (induction lib f link k es st rule: scan_entries.induct)
  case (2 lib f link k n x rest st)
  show ?case
  proof (cases "starts_with n cache_pending")
    case True
    with 2(4) obtain es where es: "cache_removed f lib n (cs_entries st) = (Inr (), es)"
      and rec: "scan_entries lib f link (Suc k) rest (st\<lparr>cs_entries := es\<rparr>) = (Inr u, st')" and p: "poll f (PollScan k) = Inr ()"
      by (auto split: sum.splits prod.splits)
    show ?thesis
      by (rule 2(1)[OF p True es[symmetric] refl rec]) (use 2(5-7) in auto)
  next
    case plain: False
    show ?thesis
    proof (cases "cache_digest n")
      case True
      with 2(4) plain obtain bytes where sz: "size_loop lib f link 0 [x] 0 = Inr bytes"
        and room: "bg_bytes (cs_budget st) + bytes < 2 ^ 64" and p: "poll f (PollScan k) = Inr ()"
        and rec: "scan_entries lib f link (Suc k) rest (st\<lparr>cs_budget := \<lparr>bg_entries = bt_insert n (bytes, cf_time f n) (bg_entries (cs_budget st)),
                                     bg_bytes = bg_bytes (cs_budget st) + bytes\<rparr>\<rparr>) = (Inr u, st')"
        by (auto split: sum.splits if_splits)
      have ord: "bt_ordered (bg_entries (cs_budget st))" using 2(6) by (simp add: budget_ok_def)
      have "map_of (bg_entries (cs_budget st)) n = None" using 2(7) by (auto simp: map_of_eq_None_iff)
      then have new: "budget_ok \<lparr>bg_entries = bt_insert n (bytes, cf_time f n) (bg_entries (cs_budget st)), bg_bytes = bg_bytes (cs_budget st) + bytes\<rparr>"
        using 2(6) room by (simp add: budget_ok_def bt_insert_sum[OF ord])
      show ?thesis
        by (rule 2(2)[OF p plain True sz _ rec]) (use 2(5,7) new room in auto)
    next
      case False
      with 2(4) plain have p: "poll f (PollScan k) = Inr ()" and rec: "scan_entries lib f link (Suc k) rest st = (Inr u, st')"
        by (auto split: sum.splits)
      show ?thesis by (rule 2(3)[OF p plain False rec]) (use 2(5-7) in auto)
    qed
  qed
qed simp

lemma scan_and_prune_budget:
  assumes "scan_and_prune lib q f link es = (Inr u, st)" and "distinct (map fst es)"
  shows "budget_ok (cs_budget st) \<and> within q (cs_budget st)"
proof -
  from assms(1) obtain st1 where s: "scan_entries lib f link 0 es \<lparr>cs_entries = es, cs_budget = empty_budget\<rparr> = (Inr (), st1)"
    and m: "make_room lib q f None 0 0 0 st1 = (Inr (), st)"
    by (auto simp: scan_and_prune_def split: sum.splits prod.splits)
  have "budget_ok empty_budget" by (simp add: budget_ok_def empty_budget_def bt_ordered_def)
  then have "budget_ok (cs_budget st1)" using scan_entries_budget[OF s assms(2)] by (simp add: empty_budget_def)
  from make_room_spec[OF m this] have "budget_ok (cs_budget st)" "fits q None 0 0 (cs_budget st)" by auto
  then show ?thesis by (simp add: fits_def room_left_def within_def old_bytes_def old_count_def)
qed

subsection \<open>Files created below a directory\<close>

lemma put_file_Some:
  "put_file ps b es = Some es' \<Longrightarrow>
     node_at (DirNode es') ps = Some (FileNode b)
     \<and> (\<forall>qs x. node_at (DirNode es') qs = Some x \<and> \<not> is_dir x \<longleftrightarrow>
          (qs = ps \<and> x = FileNode b) \<or> (node_at (DirNode es) qs = Some x \<and> \<not> is_dir x))"
proof (induction ps b es arbitrary: es' rule: put_file.induct)
  case (1 b es)
  then show ?case by simp
next
  case (2 n b es)
  then have es': "es' = put n (FileNode b) es" and new: "map_of es n = None" by (auto split: if_splits)
  have "node_at (DirNode es') qs = Some x \<and> \<not> is_dir x \<longleftrightarrow>
      (qs = [n] \<and> x = FileNode b) \<or> (node_at (DirNode es) qs = Some x \<and> \<not> is_dir x)" for qs x
  proof (cases qs)
    case (Cons m ms)
    show ?thesis
    proof (cases "m = n")
      case True
      with Cons es' new show ?thesis by (cases ms) auto
    qed (use Cons es' in simp)
  qed auto
  with es' show ?case by simp
next
  case (3 n m ns b es)
  let ?old = "case map_of es n of Some (DirNode sub) \<Rightarrow> sub | _ \<Rightarrow> []"
  from 3(3) obtain sub where sub: "put_file (m # ns) b ?old = Some sub" and es': "es' = put n (DirNode sub) es"
    and ok: "map_of es n = None \<or> (\<exists>s. map_of es n = Some (DirNode s))"
    by (auto split: option.splits node.splits)
  have IH: "node_at (DirNode sub) (m # ns) = Some (FileNode b)
     \<and> (\<forall>qs x. node_at (DirNode sub) qs = Some x \<and> \<not> is_dir x \<longleftrightarrow>
          (qs = m # ns \<and> x = FileNode b) \<or> (node_at (DirNode ?old) qs = Some x \<and> \<not> is_dir x))"
  proof (cases "map_of es n")
    case None
    with 3(1) sub show ?thesis by simp
  next
    case (Some x)
    with ok obtain s where s: "x = DirNode s" by auto
    have old: "?old = s" by (simp add: Some s)
    show ?thesis using 3(2)[OF Some s sub[unfolded old]] unfolding old .
  qed
  have "node_at (DirNode es') qs = Some x \<and> \<not> is_dir x \<longleftrightarrow>
      (qs = n # m # ns \<and> x = FileNode b) \<or> (node_at (DirNode es) qs = Some x \<and> \<not> is_dir x)" for qs x
  proof (cases qs)
    case (Cons k ks)
    show ?thesis
    proof (cases "k = n")
      case True
      have "node_at (DirNode ?old) ks = Some x \<and> \<not> is_dir x \<longleftrightarrow> node_at (DirNode es) qs = Some x \<and> \<not> is_dir x"
        using ok Cons True by (cases ks) auto
      with IH Cons True es' show ?thesis by simp
    qed (use Cons es' in simp)
  qed auto
  with IH es' show ?case by simp
qed

lemma file_put_file:
  assumes "put_file ps b es = Some es'"
  shows "node_at (DirNode es') qs = Some (FileNode c) \<longleftrightarrow> qs = ps \<and> c = b \<or> node_at (DirNode es) qs = Some (FileNode c)"
    and "node_at (DirNode es') qs = Some LinkNode \<longleftrightarrow> node_at (DirNode es) qs = Some LinkNode"
  using put_file_Some[OF assms, THEN conjunct2, rule_format, of qs "FileNode c"]
    put_file_Some[OF assms, THEN conjunct2, rule_format, of qs LinkNode] by auto

subsection \<open>Restored files\<close>

definition cache_hash :: "cache_lib \<Rightarrow> byte list \<Rightarrow> string" where
  "cache_hash lib b = hex_encode (kl_crypto lib) (sha256 (kl_crypto lib) b)"

text \<open>The directory \<open>d\<close> holds the outputs of a report: every one with its size and hash, and no other files.\<close>

definition holds_outputs :: "cache_lib \<Rightarrow> output_record list \<Rightarrow> node \<Rightarrow> bool" where
  "holds_outputs lib xs d \<longleftrightarrow>
     (\<forall>x\<in>set xs. \<exists>b. path_node d (out_path x) = Some (FileNode b) \<and> length b = unat (out_bytes x) \<and> cache_hash lib b = out_sha256 x)
     \<and> (\<forall>ps b. node_at d ps = Some (FileNode b) \<longrightarrow> join_on ''/'' ps \<in> out_path ` set xs)
     \<and> (\<forall>ps. node_at d ps \<noteq> Some LinkNode)"

lemma copy_blocks_Inr:
  "copy_blocks lib f sz i n cs cnt acc = Inr (Some (m, out)) \<Longrightarrow> m = cnt + length (concat cs) \<and> out = acc @ concat cs"
  by (induction lib f sz i n cs cnt acc rule: copy_blocks.induct) (auto simp: result_simps split: if_splits)

lemma copy_output_Inr:
  assumes "copy_output lib f limit src i tot x dst = Inr (Some dst')"
  shows "\<exists>b. path_node src (out_path x) = Some (FileNode b) \<and> length b = unat (out_bytes x) \<and> cache_hash lib b = out_sha256 x
    \<and> put_file (split_on (CHR ''/'') (out_path x)) b dst = Some dst' \<and> tot \<le> limit"
proof -
  from assms obtain b where b: "path_node src (out_path x) = Some (FileNode b)"
    by (auto simp: copy_output_def split: if_splits option.splits node.splits)
  with assms obtain w where w: "copy_blocks lib f (unat (out_bytes x)) i 0 (pieces BUFFER b) 0 [] = Inr w"
    by (auto simp: copy_output_def result_simps split: if_splits)
  with b assms obtain m acc where acc: "w = Some (m, acc)"
    by (cases w) (auto simp: copy_output_def result_simps split: if_splits)
  note c = w[unfolded acc]
  have h: "cache_hash lib acc = out_sha256 x" "put_file (split_on (CHR ''/'') (out_path x)) acc dst = Some dst'"
    "length b = unat (out_bytes x)" "tot \<le> limit"
    using assms b c by (auto simp: copy_output_def cache_hash_def result_simps split: if_splits)
  from copy_blocks_Inr[OF c] have "acc = b" by simp
  with b h show ?thesis by blast
qed

lemma copy_items_Inr:
  "copy_items lib f limit src i tot seen xs dst = Inr (Some dst') \<Longrightarrow> out_path ` set ys \<subseteq> set seen \<Longrightarrow>
     holds_outputs lib ys (DirNode dst) \<Longrightarrow> holds_outputs lib (ys @ xs) (DirNode dst')"
proof (induction xs arbitrary: i tot seen dst ys)
  case (Cons x xs)
  from Cons.prems(1) obtain dst1 where new: "out_path x \<notin> set seen"
    and x: "copy_output lib f limit src i (tot + unat (out_bytes x)) x dst = Inr (Some dst1)"
    and rec: "copy_items lib f limit src (Suc i) (tot + unat (out_bytes x)) (out_path x # seen) xs dst1 = Inr (Some dst')"
    by (auto simp: result_simps split: if_splits option.splits)
  from copy_output_Inr[OF x] obtain b where b: "length b = unat (out_bytes x)" "cache_hash lib b = out_sha256 x"
    and put: "put_file (split_on (CHR ''/'') (out_path x)) b dst = Some dst1" by blast
  note f = file_put_file[OF put]
  have "holds_outputs lib (ys @ [x]) (DirNode dst1)"
    unfolding holds_outputs_def
  proof (intro conjI allI impI ballI)
    fix y assume y: "y \<in> set (ys @ [x])"
    show "\<exists>c. path_node (DirNode dst1) (out_path y) = Some (FileNode c) \<and> length c = unat (out_bytes y) \<and> cache_hash lib c = out_sha256 y"
    proof (cases "y \<in> set ys")
      case True
      with Cons.prems(3) show ?thesis by (fastforce simp: holds_outputs_def path_node_def f)
    next
      case False
      with y have "y = x" by simp
      with b show ?thesis by (auto simp: path_node_def f)
    qed
  next
    fix ps c assume "node_at (DirNode dst1) ps = Some (FileNode c)"
    with Cons.prems(3) show "join_on ''/'' ps \<in> out_path ` set (ys @ [x])"
      by (auto simp: f holds_outputs_def join_split)
  next
    fix ps show "node_at (DirNode dst1) ps \<noteq> Some LinkNode"
      using Cons.prems(3) by (simp add: f holds_outputs_def)
  qed
  from Cons.IH[OF rec _ this] Cons.prems(2) show ?case by auto
qed simp

lemma copy_outputs_Inr:
  assumes "copy_outputs lib f limit src r = Inr (Some tree)"
  shows "holds_outputs lib (res_outputs r) (DirNode tree)"
proof -
  have "node_at (DirNode []) ps \<noteq> Some (FileNode b)" "node_at (DirNode []) ps \<noteq> Some LinkNode" for ps b
    by (cases ps; simp)+
  then have "holds_outputs lib [] (DirNode [])" by (simp add: holds_outputs_def)
  with assms copy_items_Inr[where ys = "[]"] show ?thesis
    by (fastforce simp: copy_outputs_def split: option.splits node.splits)
qed

lemma restore_resource_hit:
  assumes "restore_resource lib q f i ix now st out = (Inr (Some r), st', out')"
  shows "\<exists>ds eb x tree. map_of (cs_entries st) i = Some (DirNode ds) \<and> map_of ds ''entry.json'' = Some (FileNode eb)
    \<and> accepted_entry lib i eb = Inr (Some x) \<and> r = reused ix x
    \<and> holds_outputs lib (res_outputs x) (DirNode tree) \<and> out' = put (zero_padded 5 ix) (DirNode tree) out"
proof -
  from assms obtain ds where ds: "map_of (cs_entries st) i = Some (DirNode ds)"
    by (auto simp: restore_resource_def split: option.splits node.splits)
  with assms obtain eb where eb: "map_of ds ''entry.json'' = Some (FileNode eb)"
    by (auto simp: restore_resource_def split: option.splits node.splits)
  with assms ds obtain w where w: "and_then (cache_do lib f ReadEntry) (\<lambda>_. accepted_entry lib i eb) = Inr w"
    by (auto simp: restore_resource_def split: sum.splits)
  with assms ds eb obtain x where x: "w = Some x"
    by (cases w) (auto simp: restore_resource_def)
  with assms ds eb w obtain v where v: "and_then (cache_do lib f MakeWork) (\<lambda>_. copy_outputs lib f (cq_limit q) (map_of ds ''data'') x) = Inr v"
    by (auto simp: restore_resource_def split: sum.splits)
  with assms ds eb w x obtain tree where tree: "v = Some tree"
    by (cases v) (auto simp: restore_resource_def)
  have "accepted_entry lib i eb = Inr (Some x)" using w x by (auto simp: result_simps)
  moreover have "copy_outputs lib f (cq_limit q) (map_of ds ''data'') x = Inr (Some tree)" using v tree by (auto simp: result_simps)
  moreover have "r = reused ix x \<and> out' = put (zero_padded 5 ix) (DirNode tree) out"
    using assms ds eb w x v tree by (auto simp: restore_resource_def Let_def split: sum.splits)
  ultimately show ?thesis using ds eb copy_outputs_Inr by blast
qed

subsection \<open>Refinement\<close>

text \<open>A report without what depends on the run.\<close>

definition plain_report :: "resource_report \<Rightarrow> resource_report" where
  "plain_report r = r\<lparr>output_directory := [], cache_hit := False\<rparr>"

text \<open>The specification of decoding: \<open>d\<close> is the report of the resource; its outputs are in the directory.\<close>

definition decoded_as :: "cache_lib \<Rightarrow> resource_report \<Rightarrow> nat \<Rightarrow> resource_report \<Rightarrow> entries \<Rightarrow> bool" where
  "decoded_as lib d ix r out \<longleftrightarrow>
     plain_report r = plain_report d \<and> output_directory r = zero_padded 5 ix
     \<and> (\<exists>n. map_of out (zero_padded 5 ix) = Some n \<and> holds_outputs lib (res_outputs d) n)"

text \<open>The entries that a restore would accept carry the reports \<open>D\<close> of their identities.\<close>

definition authentic :: "cache_lib \<Rightarrow> (string \<Rightarrow> resource_report) \<Rightarrow> entries \<Rightarrow> bool" where
  "authentic lib D es \<longleftrightarrow>
     (\<forall>i ds eb x. map_of es i = Some (DirNode ds) \<longrightarrow> map_of ds ''entry.json'' = Some (FileNode eb) \<longrightarrow>
        accepted_entry lib i eb = Inr (Some x) \<longrightarrow> plain_report x = plain_report (D i))"

lemma authentic_subset:
  "authentic lib D es \<Longrightarrow> (\<And>i n. map_of es' i = Some n \<Longrightarrow> map_of es i = Some n) \<Longrightarrow> authentic lib D es'"
  unfolding authentic_def by metis

lemma authentic_without: "authentic lib D es \<Longrightarrow> authentic lib D (without i es)"
  by (erule authentic_subset) (auto simp: map_of_without split: if_splits)

text \<open>A failing removal may leave part of an entry; \<open>cf_left\<close> keeps what was there authentic.\<close>

definition leaves_authentic :: "cache_lib \<Rightarrow> (string \<Rightarrow> resource_report) \<Rightarrow> cache_faults \<Rightarrow> bool" where
  "leaves_authentic lib D f \<longleftrightarrow> (\<forall>i n. cf_left f i = Some (Some n) \<longrightarrow> authentic lib D [(i, n)])"

lemma authentic_put:
  assumes "authentic lib D es" and "authentic lib D [(i, n)]"
  shows "authentic lib D (put i n es)"
  using assms unfolding authentic_def by (auto split: if_splits)

lemma cache_removed_authentic:
  "leaves_authentic lib D f \<Longrightarrow> authentic lib D es \<Longrightarrow> cache_removed f lib i es = (r, es') \<Longrightarrow> authentic lib D es'"
  by (auto simp: cache_removed_def leaves_authentic_def authentic_without authentic_put split: option.splits)

lemma make_room_authentic:
  "make_room lib q f replacing bytes n k st = (r, st') \<Longrightarrow> leaves_authentic lib D f \<Longrightarrow> authentic lib D (cs_entries st) \<Longrightarrow>
     authentic lib D (cs_entries st')"
proof (induction lib q f replacing bytes n k st arbitrary: r st' rule: make_room.induct)
  case (1 lib q f replacing bytes n k st)
  note run = 1(2)[unfolded make_room.simps[of lib q f replacing bytes n k st]]
  show ?case
  proof (cases "desired_bytes replacing bytes (cs_budget st)")
    case (Inr want)
    show ?thesis
    proof (cases "room_left q replacing n (cs_budget st) want \<or> cf_stop f (PollEvict k) \<or> min_use (candidates replacing (cs_budget st)) = None")
      case True
      with run Inr 1(4) show ?thesis by (auto split: if_splits)
    next
      case False
      then obtain x where x: "min_use (candidates replacing (cs_budget st)) = Some x" by auto
      obtain y es where es: "cache_removed f lib (fst x) (cs_entries st) = (y, es)" by fastforce
      have keep: "authentic lib D es" using cache_removed_authentic[OF 1(3,4) es] .
      show ?thesis
      proof (cases y)
        case (Inl e)
        with run Inr False x es keep show ?thesis by auto
      next
        case (Inr u)
        then have "make_room lib q f replacing bytes n (Suc k) \<lparr>cs_entries = es, cs_budget = forget x (cs_budget st)\<rparr> = (r, st')"
          using run \<open>desired_bytes replacing bytes (cs_budget st) = Inr want\<close> False x es by simp
        from 1(1)[OF \<open>desired_bytes replacing bytes (cs_budget st) = Inr want\<close> _ _ x es[symmetric] Inr this 1(3)] False keep
        show ?thesis by simp
      qed
    qed
  qed (use run 1(4) in auto)
qed

lemma install_entry_authentic:
  assumes "install_entry lib f i bytes now n st = (r, st')" "leaves_authentic lib D f" "authentic lib D (cs_entries st)"
    "authentic lib D [(i, n)]"
  shows "authentic lib D (cs_entries st')"
proof -
  obtain y es where es: "(if map_of (cs_entries st) i = None then (Inr (), cs_entries st) else cache_removed f lib i (cs_entries st)) = (y, es)"
    by fastforce
  then have "authentic lib D es" using cache_removed_authentic[OF assms(2,3)] assms(3) by (auto split: if_splits)
  moreover from this have "authentic lib D (put i n es)" using assms(4) by (rule authentic_put)
  ultimately show ?thesis
    using assms(1) es by (auto simp: install_entry_def Let_def split: sum.splits if_splits)
qed

lemma entry_text_accepted:
  assumes law: "\<And>e b. kl_encode lib e = Some b \<Longrightarrow> kl_decode lib b = Some e"
    and "entry_text lib i r = Inr b" and "res_errors r = []"
  shows "accepted_entry lib i b = Inr (Some r)"
proof -
  from assms(2) obtain p where p: "report_print lib r = Inr p" and len: "length b \<le> MAX_REPORT"
    and e: "kl_encode lib \<lparr>ce_schema = 1, ce_identity = i, ce_report_sha = p, ce_report = r\<rparr> = Some b"
    by (auto simp: entry_text_def result_simps)
  from len have "take (MAX_REPORT + 1) b = b" by simp
  with law[OF e] p len assms(3) show ?thesis by (simp add: accepted_entry_def)
qed

lemma store_resource_authentic:
  assumes law: "\<And>e b. kl_encode lib e = Some b \<Longrightarrow> kl_decode lib b = Some e"
    and "store_resource lib q f i now src r st = (res, st')" "leaves_authentic lib D f" "authentic lib D (cs_entries st)"
    and "res_errors r = []" "plain_report r = plain_report (D i)"
  shows "authentic lib D (cs_entries st')"
proof (cases "and_then (entry_text lib i r) (\<lambda>b. and_then (entry_size (length b) (res_outputs r)) (\<lambda>n. Inr (b, n)))")
  case (Inl e)
  with assms show ?thesis by (auto simp: store_resource_def)
next
  case (Inr bn)
  obtain b n where bn: "bn = (b, n)" by fastforce
  obtain x st1 where mr: "make_room lib q f (Some i) n 1 0 st = (x, st1)" by fastforce
  note w = make_room_authentic[OF mr assms(3,4)]
  have "accepted_entry lib i b = Inr (Some r)"
    using entry_text_accepted[OF law _ assms(5)] Inr bn by (auto simp: result_simps)
  then have new: "authentic lib D [(i, DirNode [(''entry.json'', FileNode b), (''data'', DirNode tree)])]" for tree
    using assms(6) by (auto simp: authentic_def)
  show ?thesis
  proof (cases "cs_entries st' = cs_entries st1 \<or> st' = st")
    case True
    with w assms(4) show ?thesis by auto
  next
    case False
    with assms(2) Inr bn mr obtain tree where
      ins: "install_entry lib f i n now (DirNode [(''entry.json'', FileNode b), (''data'', DirNode tree)]) st1 = (res, st')"
      by (auto simp: store_resource_def split: sum.splits if_splits)
    from install_entry_authentic[OF ins assms(3) w new] show ?thesis .
  qed
qed

text \<open>C36. Decoding through the cache refines decoding: for a decoder whose successful results are determined by
  the resource's identity, a success through the cache is the same report (apart from the directory's
  number and the mark of a cache hit) with every output in the resource's directory, of the recorded size
  and hash, and no other file there, whether the cache was used, missed, full, damaged or failing; and the
  cache stays such that this holds for the next resource.\<close>

theorem cached_decoding_refines_decoding:
  assumes law: "\<And>e b. kl_encode lib e = Some b \<Longrightarrow> kl_decode lib b = Some e"
    and decoder: "\<And>out1 x out2. decode out1 = (Inr x, out2) \<Longrightarrow> res_errors x = [] \<Longrightarrow> decoded_as lib (D i) ix x out2"
    and cache: "authentic lib D (cs_entries st)" "leaves_authentic lib D g"
    and run: "cached_resource lib q f g i ix now decode st out = (r, st', out')"
  shows "authentic lib D (cs_entries st') \<and> (\<forall>x. r = Inr x \<and> res_errors x = [] \<longrightarrow> decoded_as lib (D i) ix x out')"
proof -
  have same: "cs_entries st1 = cs_entries st" if "restore_resource lib q f i ix now st out = (x, st1, out1)" for x st1 out1
    using restore_resource_state[OF that] by simp
  from run show ?thesis
  proof (cases rule: cached_resource_cases)
    case (hit x)
    from restore_resource_hit[OF hit(1)] obtain ds eb y tree where
      e: "map_of (cs_entries st) i = Some (DirNode ds)" "map_of ds ''entry.json'' = Some (FileNode eb)"
        "accepted_entry lib i eb = Inr (Some y)" and x: "x = reused ix y"
      and tree: "holds_outputs lib (res_outputs y) (DirNode tree)" and out': "out' = put (zero_padded 5 ix) (DirNode tree) out" by blast
    from cache(1) e have y: "plain_report y = plain_report (D i)" unfolding authentic_def by blast
    then have "res_outputs (plain_report y) = res_outputs (plain_report (D i))" by simp
    then have "res_outputs y = res_outputs (D i)" by (simp add: plain_report_def)
    moreover have "plain_report x = plain_report (D i)" using y by (simp add: x reused_def plain_report_def)
    ultimately have "decoded_as lib (D i) ix x out'"
      using tree by (simp add: decoded_as_def out') (simp add: x reused_def)
    with same[OF hit(1)] hit(2) cache(1) show ?thesis by auto
  next
    case (stored x st1 out1 res)
    have "decoded_as lib (D i) ix x out'" using decoder stored(2,3) by blast
    then have "plain_report x = plain_report (D i)" by (simp add: decoded_as_def)
    with store_resource_authentic[OF law stored(4) cache(2)] same[OF stored(1)] cache(1) stored(3)
    have "authentic lib D (cs_entries st')" by simp
    with \<open>decoded_as lib (D i) ix x out'\<close> stored(5) show ?thesis by (auto split: sum.splits)
  qed (use same cache(1) in auto)
qed

subsection \<open>A failing store\<close>

text \<open>An export is rejected when one of its directories belongs to no successful line of the journal.\<close>

lemma check_lines_directories:
  "check_lines ck dir sm m ls s = Inr s' \<Longrightarrow> d \<in> set (ck_directories s') \<Longrightarrow>
     d \<in> set (ck_directories s) \<or> (\<exists>l\<in>set ls. \<exists>r. ec_report ck l = Some r \<and> output_directory r = d \<and> res_errors r = [])"
proof (induction ls arbitrary: s)
  case (Cons l ls)
  from Cons.prems(1) obtain s1 where l: "check_line ck dir sm m l s = Inr s1" and rec: "check_lines ck dir sm m ls s1 = Inr s'"
    by (auto simp: result_simps)
  from l obtain res where res: "ec_report ck l = Some res"
    and run: "(if res_errors res \<noteq> [] then failed_resource m res else good_resource ck dir sm res)
        (s\<lparr>ck_journal_bytes := ck_journal_bytes s + length l, ck_names := output_directory res # ck_names s,
           ck_sources := res_source res # ck_sources s\<rparr>) = Inr s1"
    by (auto simp: check_line_def result_simps Let_def split: if_splits)
  have "set (ck_directories s1) \<subseteq> set (ck_directories s) \<or> (res_errors res = [] \<and> ck_directories s1 = output_directory res # ck_directories s)"
    using run failed_resource_Inr(2) good_resource_Inr(2) by (cases "res_errors res = []") fastforce+
  with Cons.IH[OF rec Cons.prems(2)] res show ?case by auto
qed simp

lemma orphan_directory_rejected:
  assumes "(d, DirNode sub) \<in> set es" and "path_node (DirNode es) ''resources.jsonl'' = Some (FileNode jb)"
    and failed: "\<And>l r. l \<in> set (journal_lines jb) \<Longrightarrow> ec_report ck l = Some r \<Longrightarrow> output_directory r = d \<Longrightarrow> res_errors r \<noteq> []"
  shows "\<not> is_ok (prepare_export ck (DirNode es) later rg m)"
proof
  assume "is_ok (prepare_export ck (DirNode es) later rg m)"
  then obtain rep objs where "prepare_export ck (DirNode es) later rg m = Inr (rep, objs)"
    by (cases "prepare_export ck (DirNode es) later rg m") auto
  then show False
  proof (rule prepare_export_Inr)
    fix es' b sm jb' s
    assume es: "DirNode es = DirNode es'" and j: "path_node (DirNode es) ''resources.jsonl'' = Some (FileNode jb')"
      and c: "check_lines ck (DirNode es) sm m (journal_lines jb') check_start = Inr s" and top: "list_all (top_entry_ok s) es'"
    from top es assms(1) have "d \<in> set (ck_directories s)" by (auto simp: top_entry_ok_def list_all_iff)
    with check_lines_directories[OF c] j assms(2) failed show False by (auto simp: check_start_def)
  qed
qed

subsection \<open>An example cache\<close>

definition sample_entry :: cache_entry where
  "sample_entry = \<lparr>ce_schema = 1, ce_identity = ''e'', ce_report_sha = sample_digest, ce_report = sample_resource\<rparr>"

definition sample_cache_lib :: cache_lib where
  "sample_cache_lib = \<lparr>kl_crypto = ec_crypto sample_checker, kl_json = (\<lambda>_. Some [1]),
     kl_encode = (\<lambda>e. if e = sample_entry then Some [7] else None),
     kl_decode = (\<lambda>b. if b = [7] then Some sample_entry else None), kl_text = ''io''\<rparr>"

definition no_faults :: cache_faults where
  "no_faults = \<lparr>cf_stop = (\<lambda>_. False), cf_ok = (\<lambda>_. True), cf_left = (\<lambda>_. None), cf_time = (\<lambda>_. 0)\<rparr>"

definition small_cache :: cache_settings where
  "small_cache = \<lparr>cq_limit = 100, cq_max_bytes = Some 20, cq_max_entries = Some 2\<rparr>"

definition two_entries :: cache_state where
  "two_entries = \<lparr>cs_entries = [(''a'', FileNode []), (''b'', FileNode [])],
     cs_budget = \<lparr>bg_entries = [(''a'', 10, 1), (''b'', 5, 0)], bg_bytes = 15\<rparr>\<rparr>"

lemma sample_room:
  "make_room sample_cache_lib small_cache no_faults None 8 1 0 two_entries
     = (Inr (), \<lparr>cs_entries = [(''a'', FileNode [])], cs_budget = \<lparr>bg_entries = [(''a'', 10, 1)], bg_bytes = 10\<rparr>\<rparr>)"
  by (subst make_room.simps, subst make_room.simps)
    (simp add: desired_bytes_def room_left_def old_bytes_def old_count_def small_cache_def two_entries_def no_faults_def
      candidates_def last_use_def cache_removed_def without_def forget_def)

theorem eviction_is_least_recently_used_witness:
  "\<exists>m. \<lparr>bg_entries = [(''a'', 10, 1)], bg_bytes = 10\<rparr> = after_eviction None (cs_budget two_entries) m"
proof -
  have "budget_ok (cs_budget two_entries)" by (simp add: two_entries_def budget_ok_def bt_ordered_def)
  from eviction_is_least_recently_used[OF sample_room this] show ?thesis by auto
qed

lemma sample_opened:
  "scan_and_prune sample_cache_lib small_cache no_faults 0 [] = (Inr (), \<lparr>cs_entries = [], cs_budget = empty_budget\<rparr>)"
  by (simp add: scan_and_prune_def cache_do_def no_faults_def)
    (subst make_room.simps, simp add: desired_bytes_def room_left_def old_bytes_def old_count_def small_cache_def empty_budget_def)

definition sample_decode :: "entries \<Rightarrow> (error + resource_report) \<times> entries" where
  "sample_decode out = (Inr sample_resource, put ''00000'' (DirNode [(''0.png'', FileNode [1])]) out)"

definition tiny_cache :: cache_settings where
  "tiny_cache = \<lparr>cq_limit = 100, cq_max_bytes = Some 0, cq_max_entries = None\<rparr>"

lemma sample_decoded:
  "decoded_as sample_cache_lib sample_resource 0 sample_resource (put ''00000'' (DirNode [(''0.png'', FileNode [1])]) out)"
proof -
  have "zero_padded 5 0 = ''00000''" by code_simp
  moreover have "split_on (CHR ''/'') ''0.png'' = [''0.png'']" by code_simp
  moreover have "ps = [''0.png'']" if "node_at (DirNode [(''0.png'', FileNode [1])]) ps = Some x" "\<not> is_dir x" for ps x
    using that by (cases ps; cases "tl ps") (auto split: if_splits)
  ultimately show ?thesis
    by (fastforce simp: decoded_as_def holds_outputs_def sample_fields path_node_def cache_hash_def sample_cache_lib_def sample_checker_def)
qed

theorem cached_decoding_refines_decoding_witness:
  "case cached_resource sample_cache_lib tiny_cache no_faults no_faults ''e'' 0 5 sample_decode
      \<lparr>cs_entries = [], cs_budget = empty_budget\<rparr> [] of
     (r, st, out) \<Rightarrow> r = Inr sample_resource \<and> decoded_as sample_cache_lib sample_resource 0 sample_resource out
       \<and> authentic sample_cache_lib (\<lambda>_. sample_resource) (cs_entries st)"
proof -
  let ?st = "\<lparr>cs_entries = [], cs_budget = empty_budget\<rparr>"
  have written: "entry_text sample_cache_lib ''e'' sample_resource = Inr [7]"
    by (simp add: entry_text_def report_print_def sample_cache_lib_def sample_checker_def sample_entry_def MAX_REPORT_def)
  have run: "cached_resource sample_cache_lib tiny_cache no_faults no_faults ''e'' 0 5 sample_decode ?st []
      = (Inr sample_resource, ?st, [(''00000'', DirNode [(''0.png'', FileNode [1])])])"
    by (simp add: cached_resource_def poll_def no_faults_def restore_resource_def sample_decode_def sample_fields
      store_resource_def written tiny_cache_def put_def without_def)
  have "authentic sample_cache_lib (\<lambda>_. sample_resource) (cs_entries ?st) \<and>
      (\<forall>x. Inr sample_resource = (Inr x :: error + resource_report) \<and> res_errors x = [] \<longrightarrow>
        decoded_as sample_cache_lib sample_resource 0 x [(''00000'', DirNode [(''0.png'', FileNode [1])])])"
    by (rule cached_decoding_refines_decoding[OF _ _ _ _ run, where D = "\<lambda>_. sample_resource"])
      (auto simp: sample_cache_lib_def sample_decode_def sample_decoded[unfolded sample_cache_lib_def] authentic_def
        leaves_authentic_def no_faults_def split: if_splits)
  then show ?thesis by (simp add: run sample_fields)
qed

text \<open>A resource whose decoding succeeded and whose storing failed is reported as failed although its directory
  is already in the export; by \<open>orphan_directory_rejected\<close> no export with such a resource can be verified,
  however many failures are accepted.\<close>

theorem failed_store_orphans_directory:
  "cached_resource sample_cache_lib small_cache no_faults (no_faults\<lparr>cf_ok := (\<lambda>s. s \<noteq> MakeWork)\<rparr>) ''e'' 0 5 sample_decode
      \<lparr>cs_entries = [], cs_budget = empty_budget\<rparr> []
    = (Inl (error.Export ''io''), \<lparr>cs_entries = [], cs_budget = empty_budget\<rparr>, [(''00000'', DirNode [(''0.png'', FileNode [1])])])"
proof -
  have written: "entry_text sample_cache_lib ''e'' sample_resource = Inr [7]"
    by (simp add: entry_text_def report_print_def sample_cache_lib_def sample_checker_def sample_entry_def MAX_REPORT_def)
  have room: "make_room sample_cache_lib small_cache (no_faults\<lparr>cf_ok := (\<lambda>s. s \<noteq> MakeWork)\<rparr>) (Some ''e'') 2 1 0
      \<lparr>cs_entries = [], cs_budget = empty_budget\<rparr> = (Inr (), \<lparr>cs_entries = [], cs_budget = empty_budget\<rparr>)"
    by (subst make_room.simps) (simp add: desired_bytes_def room_left_def old_bytes_def old_count_def small_cache_def empty_budget_def)
  have bytes: "entry_size (Suc 0) [sample_output] = Inr 2"
    by (simp add: sample_fields)
  show ?thesis
    by (simp add: cached_resource_def poll_def restore_resource_def sample_decode_def sample_fields room store_resource_def
      written bytes put_def without_def cache_do_def io_failed_def no_faults_def[THEN arg_cong[where f = cf_stop]]
      no_faults_def[THEN arg_cong[where f = cf_ok]] small_cache_def[THEN arg_cong[where f = cq_max_bytes]]
      sample_cache_lib_def[THEN arg_cong[where f = kl_text]] del: One_nat_def entry_size.simps)
qed

end
