(* ===== verification/Export_Books.thy ===== *)
theory Export_Books
  imports Export_Cached
begin

text \<open>
  The books of the cache of decoded resources against its directory (\<open>src/export_cache.rs\<close>): what a
  stored entry takes on disk is what is recorded for it, eviction and replacement remove from both, and a
  scan records what is there. Hence the limits hold for the files, not only for the account.
\<close>

subsection \<open>Sizes of trees\<close>

text \<open>The bytes of all files below, a symbolic link with its own length \<open>link\<close>; a tidy tree has no
  directory with two entries of one name.\<close>

fun tree_bytes :: "nat \<Rightarrow> node \<Rightarrow> nat" where
  "tree_bytes link (DirNode es) = sum_list (map (tree_bytes link \<circ> snd) es)"
| "tree_bytes link (FileNode b) = length b"
| "tree_bytes link LinkNode = link"

fun tidy :: "node \<Rightarrow> bool" where
  "tidy (DirNode es) \<longleftrightarrow> distinct (map fst es) \<and> list_all (tidy \<circ> snd) es"
| "tidy _ = True"

lemma sum_without:
  fixes g :: "node \<Rightarrow> nat"
  assumes "distinct (map fst es)"
  shows "sum_list (map (g \<circ> snd) es)
    = sum_list (map (g \<circ> snd) (without n es)) + (case map_of es n of None \<Rightarrow> 0 | Some x \<Rightarrow> g x)"
  using assms
proof (induction es)
  case (Cons e es)
  have "without n es = es" if "fst e = n"
  proof -
    have "n \<notin> fst ` set es" using that Cons.prems by simp
    then show ?thesis unfolding without_def filter_id_conv by (metis image_eqI)
  qed
  moreover have "map_of es n = None" if "fst e = n"
    using that Cons.prems by (auto simp: map_of_eq_None_iff)
  ultimately show ?case
    using Cons by (cases e) (auto simp: without_def)
qed (simp add: without_def)

lemma sum_put:
  fixes g :: "node \<Rightarrow> nat"
  assumes "distinct (map fst es)"
  shows "sum_list (map (g \<circ> snd) (put n y es)) + (case map_of es n of None \<Rightarrow> 0 | Some x \<Rightarrow> g x)
    = g y + sum_list (map (g \<circ> snd) es)"
  using sum_without[OF assms, of g n] by (simp add: put_def)

lemma tidy_put: "tidy (DirNode es) \<Longrightarrow> tidy x \<Longrightarrow> tidy (DirNode (put n x es))"
  by (auto simp: put_def without_def distinct_map_filter list_all_iff)

lemma tidy_lookup: "tidy (DirNode es) \<Longrightarrow> map_of es n = Some x \<Longrightarrow> tidy x"
  by (auto simp: list_all_iff dest!: map_of_SomeD)

lemma put_file_size:
  "put_file ps b es = Some es' \<Longrightarrow> tidy (DirNode es) \<Longrightarrow>
     tidy (DirNode es') \<and> tree_bytes link (DirNode es') = tree_bytes link (DirNode es) + length b"
proof (induction ps b es arbitrary: es' rule: put_file.induct)
  case (2 n b es)
  then have es': "es' = put n (FileNode b) es" and new: "map_of es n = None" by (auto split: if_splits)
  show ?case
    using sum_put[of es "tree_bytes link" n "FileNode b"] new 2(2) tidy_put[OF 2(2), of "FileNode b" n] es' by simp
next
  case (3 n m ns b es)
  let ?old = "case map_of es n of Some (DirNode sub) \<Rightarrow> sub | _ \<Rightarrow> []"
  from 3(3) obtain sub where sub: "put_file (m # ns) b ?old = Some sub" and es': "es' = put n (DirNode sub) es"
    and ok: "map_of es n = None \<or> map_of es n = Some (DirNode ?old)"
    by (auto split: option.splits node.splits)
  have IH: "tidy (DirNode sub) \<and> tree_bytes link (DirNode sub) = tree_bytes link (DirNode ?old) + length b"
  proof (cases "map_of es n")
    case None
    with 3(1)[OF None] sub show ?thesis by simp
  next
    case (Some x)
    then obtain ds where "x = DirNode ds" using ok by auto
    with 3(2)[OF Some] sub tidy_lookup[OF 3(4) Some] Some show ?thesis by simp
  qed
  have "distinct (map fst es)" using 3(4) by simp
  note sizes = sum_put[OF this, of "tree_bytes link" n "DirNode sub"]
  have "tree_bytes link (DirNode es') = tree_bytes link (DirNode es) + length b"
  proof (cases "map_of es n")
    case None
    with sizes IH show ?thesis by (simp add: es')
  next
    case (Some x)
    then obtain ds where "x = DirNode ds" using ok by auto
    with sizes IH Some show ?thesis by (simp add: es')
  qed
  with IH tidy_put[OF 3(4)] show ?case by (simp only: es')
qed simp

lemma entry_size_Inr: "entry_size n xs = Inr m \<Longrightarrow> m = n + sum_list (map (unat \<circ> out_bytes) xs)"
  by (induction n xs rule: entry_size.induct) (auto simp: result_simps)

lemma copy_items_size:
  "copy_items lib f limit src i tot seen xs dst = Inr (Some dst') \<Longrightarrow> tidy (DirNode dst) \<Longrightarrow>
     tree_bytes link (DirNode dst') = tree_bytes link (DirNode dst) + sum_list (map (unat \<circ> out_bytes) xs)"
proof (induction xs arbitrary: i tot seen dst)
  case (Cons x xs)
  from Cons.prems(1) obtain dst1 where
    x: "copy_output lib f limit src i (tot + unat (out_bytes x)) x dst = Inr (Some dst1)"
    and rec: "copy_items lib f limit src (Suc i) (tot + unat (out_bytes x)) (out_path x # seen) xs dst1 = Inr (Some dst')"
    by (auto simp: result_simps split: if_splits option.splits)
  from copy_output_Inr[OF x] obtain b where b: "length b = unat (out_bytes x)"
    and put: "put_file (split_on (CHR ''/'') (out_path x)) b dst = Some dst1" by blast
  from put_file_size[OF put Cons.prems(2), of link] b Cons.IH[OF rec] show ?case by simp
qed simp

lemma copy_outputs_size:
  "copy_outputs lib f limit src r = Inr (Some tree) \<Longrightarrow>
     tree_bytes link (DirNode tree) = sum_list (map (unat \<circ> out_bytes) (res_outputs r))"
  using copy_items_size[where dst = "[]"]
  by (fastforce simp: copy_outputs_def split: option.splits node.splits)

lemma size_loop_Inr:
  "size_loop lib f link k ns bytes = Inr m \<Longrightarrow> m = bytes + sum_list (map (tree_bytes link) ns)"
proof (induction lib f link k ns bytes rule: size_loop.induct)
  case (2 lib f link k n ns bytes)
  show ?case
    using 2 by (cases n) (auto simp: result_simps rev_map[symmetric] sum_list_rev comp_def)
qed simp

subsection \<open>Books and directory\<close>

definition recorded :: "cache_budget \<Rightarrow> string \<Rightarrow> nat option" where
  "recorded b n = map_option fst (map_of (bg_entries b) n)"

text \<open>Every entry is recorded with at least its size; or exactly the entries are, with their sizes.\<close>

definition covered :: "nat \<Rightarrow> entries \<Rightarrow> cache_budget \<Rightarrow> bool" where
  "covered link es b \<longleftrightarrow> (\<forall>n x. map_of es n = Some x \<longrightarrow> cache_digest n \<longrightarrow>
     (\<exists>sz. recorded b n = Some sz \<and> tree_bytes link x \<le> sz))"

definition exact :: "nat \<Rightarrow> entries \<Rightarrow> cache_budget \<Rightarrow> bool" where
  "exact link es b \<longleftrightarrow> (\<forall>n. recorded b n =
     (if cache_digest n then map_option (tree_bytes link) (map_of es n) else None))"

text \<open>A failing removal leaves no more of an entry than there was.\<close>

definition shrinking :: "nat \<Rightarrow> cache_faults \<Rightarrow> entries \<Rightarrow> bool" where
  "shrinking link f es \<longleftrightarrow> (\<forall>n x y. map_of es n = Some x \<longrightarrow> cf_left f n = Some (Some y) \<longrightarrow>
     tree_bytes link y \<le> tree_bytes link x)"

lemma exact_covered: "exact link es b \<Longrightarrow> covered link es b"
  by (simp add: exact_def covered_def)

lemma recorded_forget: "recorded (forget x b) n = (if n = fst x then None else recorded b n)"
proof -
  have "map_of (filter (\<lambda>y. fst y \<noteq> fst x) m) n = (if n = fst x then None else map_of m n)" for m :: "(string \<times> nat \<times> int) list"
    by (induction m) auto
  then show ?thesis by (simp add: recorded_def forget_def)
qed

lemma recorded_touched: "recorded (touched i now b) = recorded b"
proof
  fix n
  have "map_option fst (map_of (map (\<lambda>(k, n, t). if k = i then (k, n, now) else (k, n, t)) m) n) = map_option fst (map_of m n)"
    for m :: "(string \<times> nat \<times> int) list"
    by (induction m) (auto split: if_splits)
  then show "recorded (touched i now b) n = recorded b n" by (simp add: recorded_def touched_def)
qed

lemma exact_touched: "exact link es (touched i now b) \<longleftrightarrow> exact link es b"
  and covered_touched: "covered link es (touched i now b) \<longleftrightarrow> covered link es b"
  by (simp_all add: exact_def covered_def recorded_touched)

lemma exact_forget: "exact link es b \<Longrightarrow> exact link (without (fst x) es) (forget x b)"
  by (simp add: exact_def recorded_forget map_of_without)

lemma covered_forget: "covered link es b \<Longrightarrow> covered link (without (fst x) es) (forget x b)"
  by (simp add: covered_def recorded_forget map_of_without)

lemma covered_fewer:
  "covered link es b \<Longrightarrow> (\<And>n y. map_of es' n = Some y \<Longrightarrow>
     \<exists>x. map_of es n = Some x \<and> tree_bytes link y \<le> tree_bytes link x) \<Longrightarrow> covered link es' b"
  unfolding covered_def by (meson order_trans)

lemma shrinking_without: "shrinking link f es \<Longrightarrow> shrinking link f (without n es)"
  by (simp add: shrinking_def map_of_without)

lemma cache_removed_shrinks:
  assumes "cache_removed f lib i es = (r, es')" and "shrinking link f es" and "map_of es' n = Some y"
  shows "\<exists>x. map_of es n = Some x \<and> tree_bytes link y \<le> tree_bytes link x"
  using assms
  by (auto simp: cache_removed_def shrinking_def map_of_without split: option.splits if_splits)

text \<open>Making room takes an entry from both or stops at a removal that failed.\<close>

lemma make_room_invariant:
  assumes step: "\<And>x es b. P es b \<Longrightarrow> P (without (fst x) es) (forget x b)"
    and failed: "\<And>x es b e es'. P es b \<Longrightarrow> cache_removed f lib (fst x) es = (Inl e, es') \<Longrightarrow> Q es' b"
    and stopped: "\<And>es b. P es b \<Longrightarrow> Q es b"
  shows "make_room lib q f replacing bytes n k st = (r, st') \<Longrightarrow> P (cs_entries st) (cs_budget st) \<Longrightarrow>
    (is_ok r \<longrightarrow> P (cs_entries st') (cs_budget st')) \<and> Q (cs_entries st') (cs_budget st')"
proof (induction "length (bg_entries (cs_budget st))" arbitrary: st k rule: less_induct)
  case less
  note run = less.prems(1)[unfolded make_room.simps[of lib q f replacing bytes n k st]]
  consider (halt) "st' = st"
    | (fail) x e es where "cache_removed f lib (fst x) (cs_entries st) = (Inl e, es)" "st' = st\<lparr>cs_entries := es\<rparr>" "\<not> is_ok r"
    | (again) x es where "min_use (candidates replacing (cs_budget st)) = Some x"
        "cache_removed f lib (fst x) (cs_entries st) = (Inr (), es)"
        "make_room lib q f replacing bytes n (Suc k) \<lparr>cs_entries = es, cs_budget = forget x (cs_budget st)\<rparr> = (r, st')"
    using run by (fastforce split: sum.splits if_splits option.splits prod.splits)
  then show ?case
  proof cases
    case (again x es)
    have "length (bg_entries (forget x (cs_budget st))) < length (bg_entries (cs_budget st))"
      using candidate_entry[OF again(1)] by (auto simp: forget_def intro!: length_filter_less)
    with less.hyps[OF _ again(3)] step[OF less.prems(2), of x] cache_removed_Inr[OF again(2)]
    show ?thesis by simp
  qed (use less.prems(2) failed stopped in auto)
qed

lemma make_room_exact:
  assumes "make_room lib q f replacing bytes n k st = (Inr u, st')" and "exact link (cs_entries st) (cs_budget st)"
  shows "exact link (cs_entries st') (cs_budget st')"
  using make_room_invariant[of "exact link" f lib "\<lambda>_ _. True", OF exact_forget _ _ assms] by simp

lemma make_room_covered:
  assumes "make_room lib q f replacing bytes n k st = (r, st')" and "covered link (cs_entries st) (cs_budget st)"
    and "shrinking link f (cs_entries st)"
  shows "covered link (cs_entries st') (cs_budget st')" "is_ok r \<Longrightarrow> shrinking link f (cs_entries st')"
proof -
  let ?P = "\<lambda>es b. covered link es b \<and> shrinking link f es"
  have "covered link es' b" if "?P es b" "cache_removed f lib (fst x) es = (Inl e, es')" for x es b e es'
    using covered_fewer[OF _ cache_removed_shrinks[OF that(2)]] that(1) by blast
  with make_room_invariant[of ?P f lib "covered link", OF _ _ _ assms(1)] assms(2,3)
  show "covered link (cs_entries st') (cs_budget st')" "is_ok r \<Longrightarrow> shrinking link f (cs_entries st')"
    using covered_forget shrinking_without by blast+
qed

subsection \<open>Storing and scanning\<close>

lemma recorded_insert:
  assumes "bt_ordered (bg_entries b)" and "bg_entries c = bt_insert i (sz, t) (bg_entries b)"
  shows "recorded c n = (if n = i then Some sz else recorded b n)"
  using assms by (simp add: recorded_def)

lemma covered_insert:
  assumes "covered link es b" and "\<And>n. n \<noteq> i \<Longrightarrow> map_of es' n = map_of es n"
    and "map_of es' i = Some x" and "sz = tree_bytes link x"
    and "\<And>n. recorded c n = (if n = i then Some sz else recorded b n)"
  shows "covered link es' c"
  using assms by (auto simp: covered_def)

lemma install_entry_cases:
  assumes ins: "install_entry lib f i bytes now n st = (r, st')" and ord: "bt_ordered (bg_entries (cs_budget st))"
  obtains (kept) es where "\<not> is_ok r" "cs_budget st' = cs_budget st"
      "cs_entries st' = cs_entries st \<or> cache_removed f lib i (cs_entries st) = (Inl es, cs_entries st')
        \<or> cs_entries st' = without i (cs_entries st)"
    | (put) "\<And>m. m \<noteq> i \<Longrightarrow> map_of (cs_entries st') m = map_of (cs_entries st) m" "map_of (cs_entries st') i = Some n"
        "\<And>m. recorded (cs_budget st') m = (if m = i then Some bytes else recorded (cs_budget st) m)"
proof -
  obtain y es where es: "(if map_of (cs_entries st) i = None then (Inr (), cs_entries st)
      else cache_removed f lib i (cs_entries st)) = (y, es)" by fastforce
  show ?thesis
  proof (cases y)
    case (Inl e)
    with ins es show ?thesis
      by (intro kept[of e]) (auto simp: install_entry_def split: if_splits)
  next
    case (Inr u)
    with es have gone: "es = cs_entries st \<or> es = without i (cs_entries st)"
      using cache_removed_Inr by (auto split: if_splits)
    show ?thesis
    proof (cases "cache_do lib f RenameWork")
      case (Inl e)
      have "r = Inl e" "st' = st\<lparr>cs_entries := es\<rparr>"
        using ins unfolding install_entry_def es Inr Inl by simp_all
      with gone show ?thesis by (intro kept[of e]) auto
    next
      case renamed: (Inr v)
      with ins es Inr have st': "cs_entries st' = put i n es"
        "bg_entries (cs_budget st') = bt_insert i (bytes, now) (bg_entries (cs_budget st))"
        by (auto simp: install_entry_def Let_def split: if_splits)
      show ?thesis
        by (rule put) (use st' gone recorded_insert[OF ord st'(2)] in \<open>auto simp: map_of_without\<close>)
    qed
  qed
qed

text \<open>A stored entry takes what was recorded for it: the text of \<open>entry.json\<close> and the outputs.\<close>

lemma store_resource_cases:
  assumes run: "store_resource lib q f i now src r st = (res, st')"
  obtains (unchanged) "st' = st"
    | (room) n x where "make_room lib q f (Some i) n 1 0 st = (x, st')" "is_ok x \<or> \<not> is_ok res" "is_ok res \<longrightarrow> is_ok x"
    | (installed) n st1 node where "make_room lib q f (Some i) n 1 0 st = (Inr (), st1)"
        "\<And>link. n = tree_bytes link node" "install_entry lib f i n now node st1 = (res, st')"
proof (cases "and_then (entry_text lib i r) (\<lambda>b. and_then (entry_size (length b) (res_outputs r)) (\<lambda>n. Inr (b, n)))")
  case (Inl e)
  with run unchanged show ?thesis by (auto simp: store_resource_def)
next
  case (Inr bn)
  obtain b n where bn: "bn = (b, n)" by fastforce
  have size: "n = length b + sum_list (map (unat \<circ> out_bytes) (res_outputs r))"
    using Inr bn by (auto simp: result_simps dest: entry_size_Inr)
  show ?thesis
  proof (cases "is_some_and (\<lambda>limit. limit < n) (cq_max_bytes q)")
    case True
    with run Inr bn unchanged show ?thesis by (auto simp: store_resource_def)
  next
    case False
    obtain x st1 where mr: "make_room lib q f (Some i) n 1 0 st = (x, st1)" by fastforce
    let ?copy = "and_then (cache_do lib f MakeWork) (\<lambda>_. and_then (cache_do lib f MakeData) (\<lambda>_.
        and_then (copy_outputs lib f (cq_limit q) src r) (\<lambda>c. and_then (ok_or error.Verification c) (\<lambda>tree.
        and_then (cache_do lib f WriteEntry) (\<lambda>_. and_then (poll f PollStored) (\<lambda>_. Inr tree))))))"
    show ?thesis
    proof (cases "is_ok x \<and> is_ok ?copy")
      case no: False
      with run Inr bn False mr have "st' = st1" "\<not> is_ok res"
        by (auto simp: store_resource_def split: sum.splits)
      with mr room show ?thesis by auto
    next
      case True
      then obtain tree where tree: "?copy = Inr tree" by (cases ?copy) auto
      then have "copy_outputs lib f (cq_limit q) src r = Inr (Some tree)" by (auto simp: result_simps)
      from copy_outputs_size[OF this] size
      have n: "n = tree_bytes link (DirNode [(''entry.json'', FileNode b), (''data'', DirNode tree)])" for link by simp
      have ins: "install_entry lib f i n now (DirNode [(''entry.json'', FileNode b), (''data'', DirNode tree)]) st1 = (res, st')"
        using run Inr bn False mr True tree by (auto simp: store_resource_def split: sum.splits)
      have "x = Inr ()" using True by (cases x) auto
      with mr have room': "make_room lib q f (Some i) n 1 0 st = (Inr (), st1)" by simp
      show ?thesis by (rule installed[OF room' n ins])
    qed
  qed
qed

lemma make_room_ordered:
  "make_room lib q f replacing bytes n k st = (r, st') \<Longrightarrow> budget_ok (cs_budget st) \<Longrightarrow> bt_ordered (bg_entries (cs_budget st'))"
  using make_room_spec by (fastforce simp: budget_ok_def)

text \<open>A success keeps every relation that eviction, a new entry and a use keep.\<close>

definition kept_by_use :: "nat \<Rightarrow> string \<Rightarrow> (entries \<Rightarrow> cache_budget \<Rightarrow> bool) \<Rightarrow> bool" where
  "kept_by_use link i P \<longleftrightarrow>
     (\<forall>es b x. P es b \<longrightarrow> P (without (fst x) es) (forget x b))
     \<and> (\<forall>es b now. P es (touched i now b) \<longleftrightarrow> P es b)
     \<and> (\<forall>es b es' c x. P es b \<longrightarrow> (\<forall>n. n \<noteq> i \<longrightarrow> map_of es' n = map_of es n) \<longrightarrow> map_of es' i = Some x \<longrightarrow>
          (\<forall>n. recorded c n = (if n = i then Some (tree_bytes link x) else recorded b n)) \<longrightarrow> P es' c)"

lemma exact_kept: "cache_digest i \<Longrightarrow> kept_by_use link i (exact link)"
  unfolding kept_by_use_def using exact_forget exact_touched by (auto simp: exact_def)

lemma covered_kept: "kept_by_use link i (covered link)"
  unfolding kept_by_use_def using covered_forget covered_touched by (auto simp: covered_def)

lemma store_resource_kept:
  assumes run: "store_resource lib q f i now src r st = (Inr u, st')" and ok: "budget_ok (cs_budget st)"
    and P: "kept_by_use link i P" and here: "P (cs_entries st) (cs_budget st)"
  shows "P (cs_entries st') (cs_budget st')"
proof -
  have room: "P (cs_entries st1) (cs_budget st1)" if "make_room lib q f (Some i) n 1 0 st = (x, st1)" "is_ok x" for n x st1
    using make_room_invariant[of P f lib "\<lambda>_ _. True", OF _ _ _ that(1) here] that(2) P
    unfolding kept_by_use_def by blast
  from run show ?thesis
  proof (cases rule: store_resource_cases)
    case (installed n st1 node)
    have st1: "P (cs_entries st1) (cs_budget st1)" using room[OF installed(1)] by simp
    from installed(3) make_room_ordered[OF installed(1) ok] show ?thesis
    proof (cases rule: install_entry_cases)
      case put
      with st1 P installed(2)[of link] show ?thesis unfolding kept_by_use_def by blast
    qed simp
  qed (use here room in auto)
qed

lemma store_resource_covered:
  assumes run: "store_resource lib q f i now src r st = (res, st')" and ok: "budget_ok (cs_budget st)"
    and cov: "covered link (cs_entries st) (cs_budget st)" and shrink: "shrinking link f (cs_entries st)"
  shows "covered link (cs_entries st') (cs_budget st')"
  using run
proof (cases rule: store_resource_cases)
  case (room n x)
  with make_room_covered(1)[OF _ cov shrink] show ?thesis by blast
next
  case (installed n st1 node)
  note st1 = make_room_covered[OF installed(1) cov shrink]
  from installed(3) make_room_ordered[OF installed(1) ok] show ?thesis
  proof (cases rule: install_entry_cases)
    case (kept e)
    have "\<exists>x. map_of (cs_entries st1) m = Some x \<and> tree_bytes link y \<le> tree_bytes link x"
      if "map_of (cs_entries st') m = Some y" for m y
      using kept(3) that cache_removed_shrinks[OF _ st1(2), of lib i "Inl e" "cs_entries st'" m y]
      by (auto simp: map_of_without split: if_splits)
    from covered_fewer[OF st1(1) this] show ?thesis by (simp add: kept(2))
  next
    case put
    show ?thesis by (rule covered_insert[OF st1(1) put(1) put(2) installed(2) put(3)])
  qed
qed (use cov in simp)

lemma restore_resource_books:
  assumes "restore_resource lib q f i ix now st out = (x, st1, out1)"
  shows "covered link (cs_entries st1) (cs_budget st1) \<longleftrightarrow> covered link (cs_entries st) (cs_budget st)"
    "cs_entries st1 = cs_entries st" "budget_ok (cs_budget st) \<Longrightarrow> budget_ok (cs_budget st1)"
  using restore_resource_state[OF assms] covered_touched touched_budget(1) by metis+

lemma cached_resource_kept:
  assumes run: "cached_resource lib q f g i ix now decode st out = (Inr r, st', out')" and ok: "budget_ok (cs_budget st)"
    and P: "kept_by_use link i P" and here: "P (cs_entries st) (cs_budget st)"
  shows "P (cs_entries st') (cs_budget st')"
proof -
  have restored: "P (cs_entries st1) (cs_budget st1)" if "restore_resource lib q f i ix now st out = (x, st1, out1)" for x st1 out1
    using restore_resource_state[OF that] P here unfolding kept_by_use_def by metis
  from run show ?thesis
  proof (cases rule: cached_resource_cases)
    case (stored x st1 out1 res)
    then obtain u where "res = Inr u" by (cases res) auto
    with store_resource_kept[OF _ _ P restored[OF stored(1)]] stored(4) restore_resource_books(3)[OF stored(1) ok]
    show ?thesis by blast
  qed (use here restored in auto)
qed

lemma cached_resource_covered:
  assumes run: "cached_resource lib q f g i ix now decode st out = (r, st', out')" and ok: "budget_ok (cs_budget st)"
    and cov: "covered link (cs_entries st) (cs_budget st)" and shrink: "shrinking link g (cs_entries st)"
  shows "covered link (cs_entries st') (cs_budget st')"
  using run
proof (cases rule: cached_resource_cases)
  case (stored x st1 out1 res)
  with store_resource_covered[OF stored(4)] restore_resource_books[OF stored(1)] ok cov shrink
  show ?thesis by simp
qed (use cov restore_resource_books(1) in auto)

text \<open>While scanning, what was seen is recorded exactly and what is to come is not.\<close>

lemma scan_entries_exact:
  assumes "scan_entries lib f link k es st = (Inr u, st')" and "distinct (map fst es)" and "bt_ordered (bg_entries (cs_budget st))"
    and "\<And>n. n \<in> fst ` set es \<Longrightarrow> recorded (cs_budget st) n = None \<and> map_of (cs_entries st) n = map_of es n"
    and "\<And>n. n \<notin> fst ` set es \<Longrightarrow> recorded (cs_budget st) n =
      (if cache_digest n then map_option (tree_bytes link) (map_of (cs_entries st) n) else None)"
  shows "exact link (cs_entries st') (cs_budget st')"
  using assms
proof (induction lib f link k es st rule: scan_entries.induct)
  case (1 lib f link k st)
  then show ?case by (simp add: exact_def)
next
  case (2 lib f link k n x rest st)
  have new: "n \<notin> fst ` set rest" "recorded (cs_budget st) n = None" "map_of (cs_entries st) n = Some x"
    using 2(5) 2(7)[of n] by auto
  have rest: "recorded (cs_budget st) m = None \<and> map_of (cs_entries st) m = map_of rest m" if "m \<in> fst ` set rest" for m
    using 2(7)[of m] that new(1) by auto
  have seen: "recorded (cs_budget st) m =
      (if cache_digest m then map_option (tree_bytes link) (map_of (cs_entries st) m) else None)"
    if "m \<notin> fst ` set rest" "m \<noteq> n" for m
    using 2(8)[of m] that by auto
  show ?case
  proof (cases "starts_with n cache_pending")
    case True
    with 2(4) obtain es where es: "cache_removed f lib n (cs_entries st) = (Inr (), es)"
      and rec: "scan_entries lib f link (Suc k) rest (st\<lparr>cs_entries := es\<rparr>) = (Inr u, st')" and p: "poll f (PollScan k) = Inr ()"
      by (auto split: sum.splits prod.splits)
    show ?thesis
      by (rule 2(1)[OF p True es[symmetric] refl rec])
        (use 2(5,6) new rest seen cache_removed_Inr[OF es] in \<open>auto simp: map_of_without\<close>)
  next
    case plain: False
    show ?thesis
    proof (cases "cache_digest n")
      case True
      let ?b = "\<lparr>bg_entries = bt_insert n (tree_bytes link x, cf_time f n) (bg_entries (cs_budget st)),
          bg_bytes = bg_bytes (cs_budget st) + tree_bytes link x\<rparr>"
      from 2(4) plain True obtain bytes where sz: "size_loop lib f link 0 [x] 0 = Inr bytes" and p: "poll f (PollScan k) = Inr ()"
        and rec: "scan_entries lib f link (Suc k) rest (st\<lparr>cs_budget := \<lparr>bg_entries = bt_insert n (bytes, cf_time f n) (bg_entries (cs_budget st)),
            bg_bytes = bg_bytes (cs_budget st) + bytes\<rparr>\<rparr>) = (Inr u, st')"
        and big: "\<not> 2 ^ 64 \<le> bg_bytes (cs_budget st) + bytes"
        by (auto split: sum.splits if_splits)
      have "bytes = tree_bytes link x" using size_loop_Inr[OF sz] by simp
      note sz = sz[unfolded this] and rec = rec[unfolded this] and big = big[unfolded this]
      have r: "recorded ?b m = (if m = n then Some (tree_bytes link x) else recorded (cs_budget st) m)" for m
        using recorded_insert[OF 2(6), of ?b n "tree_bytes link x" "cf_time f n" m] by simp
      show ?thesis
        by (rule 2(2)[OF p plain True sz big rec]) (use 2(5,6) new rest seen True in \<open>auto simp: r\<close>)
    next
      case False
      with 2(4) plain have p: "poll f (PollScan k) = Inr ()" and rec: "scan_entries lib f link (Suc k) rest st = (Inr u, st')"
        by (auto split: sum.splits)
      have seen': "recorded (cs_budget st) m =
          (if cache_digest m then map_option (tree_bytes link) (map_of (cs_entries st) m) else None)"
        if "m \<notin> fst ` set rest" for m
        using seen[OF that] new(2) False by (cases "m = n") simp_all
      show ?thesis
        by (rule 2(3)[OF p plain False rec _ 2(6)]) (use 2(5) rest seen' in simp_all)
    qed
  qed
qed

lemma scan_and_prune_exact:
  assumes "scan_and_prune lib q f link es = (Inr u, st)" and "distinct (map fst es)"
  shows "exact link (cs_entries st) (cs_budget st)"
proof -
  from assms(1) obtain st1 where s: "scan_entries lib f link 0 es \<lparr>cs_entries = es, cs_budget = empty_budget\<rparr> = (Inr (), st1)"
    and m: "make_room lib q f None 0 0 0 st1 = (Inr (), st)"
    by (auto simp: scan_and_prune_def split: sum.splits prod.splits)
  have "exact link (cs_entries st1) (cs_budget st1)"
    by (rule scan_entries_exact[OF s assms(2)])
      (auto simp: recorded_def empty_budget_def, metis map_of_eq_None_iff option.map(1))
  with make_room_exact[OF m] show ?thesis .
qed

subsection \<open>The limits hold for the files\<close>

definition cached_names :: "entries \<Rightarrow> string set" where
  "cached_names es = {n \<in> fst ` set es. cache_digest n}"

definition cached_bytes :: "nat \<Rightarrow> entries \<Rightarrow> nat" where
  "cached_bytes link es = (\<Sum>n\<in>cached_names es. tree_bytes link (the (map_of es n)))"

lemma recorded_sum:
  assumes "distinct (map fst m)"
  shows "sum_list (map (fst \<circ> snd) m) = (\<Sum>n\<in>fst ` set m. fst (the (map_of m n)))"
    "card (fst ` set m) = length m"
proof -
  show "card (fst ` set m) = length m" using distinct_card[OF assms] by simp
  show "sum_list (map (fst \<circ> snd) m) = (\<Sum>n\<in>fst ` set m. fst (the (map_of m n)))"
    using assms
  proof (induction m)
    case (Cons e m)
    have "(\<Sum>n\<in>fst ` set m. fst (the (map_of (e # m) n))) = (\<Sum>n\<in>fst ` set m. fst (the (map_of m n)))"
      by (rule sum.cong) (use Cons.prems in \<open>auto simp: image_iff\<close>)
    with Cons show ?case by (cases e) simp
  qed simp
qed

lemma recorded_names: "recorded b n \<noteq> None \<longleftrightarrow> n \<in> fst ` set (bg_entries b)"
  by (simp add: recorded_def flip: dom_map_of_conv_image_fst) (simp add: domIff)

lemma covered_totals:
  assumes "covered link es b" and "budget_ok b"
  shows "cached_bytes link es \<le> bg_bytes b" "card (cached_names es) \<le> length (bg_entries b)"
proof -
  let ?m = "bg_entries b"
  have dist: "distinct (map fst ?m)" and sum: "bg_bytes b = sum_list (map (fst \<circ> snd) ?m)"
    using assms(2) bt_ordered_distinct by (auto simp: budget_ok_def)
  have each: "n \<in> fst ` set ?m \<and> tree_bytes link (the (map_of es n)) \<le> fst (the (map_of ?m n))"
    if n: "n \<in> cached_names es" for n
  proof -
    obtain x where "map_of es n = Some x" "cache_digest n"
      using n map_of_eq_None_iff[of es n] unfolding cached_names_def by blast
    with assms(1) recorded_names[of b n] show ?thesis by (fastforce simp: covered_def recorded_def)
  qed
  then have sub: "cached_names es \<subseteq> fst ` set ?m" by blast
  have "cached_bytes link es \<le> (\<Sum>n\<in>cached_names es. fst (the (map_of ?m n)))"
    unfolding cached_bytes_def by (rule sum_mono) (use each in blast)
  also have "\<dots> \<le> (\<Sum>n\<in>fst ` set ?m. fst (the (map_of ?m n)))"
    by (rule sum_mono2) (use sub in auto)
  finally show "cached_bytes link es \<le> bg_bytes b" by (simp add: sum recorded_sum(1)[OF dist])
  show "card (cached_names es) \<le> length ?m"
    using card_mono[OF _ sub] recorded_sum(2)[OF dist] by simp
qed

lemma exact_totals:
  assumes "exact link es b" and "budget_ok b"
  shows "cached_bytes link es = bg_bytes b" "card (cached_names es) = length (bg_entries b)"
proof -
  let ?m = "bg_entries b"
  have dist: "distinct (map fst ?m)" and sum: "bg_bytes b = sum_list (map (fst \<circ> snd) ?m)"
    using assms(2) bt_ordered_distinct by (auto simp: budget_ok_def)
  have names: "cached_names es = fst ` set ?m"
  proof (rule set_eqI)
    fix n
    have "n \<in> fst ` set es \<longleftrightarrow> map_of es n \<noteq> None" by (simp add: map_of_eq_None_iff)
    then show "n \<in> cached_names es \<longleftrightarrow> n \<in> fst ` set ?m"
      using assms(1) by (simp add: cached_names_def exact_def flip: recorded_names)
  qed
  have "tree_bytes link (the (map_of es n)) = fst (the (map_of ?m n))" if "n \<in> fst ` set ?m" for n
  proof -
    have "recorded b n \<noteq> None" using that recorded_names by blast
    moreover have "recorded b n = (if cache_digest n then map_option (tree_bytes link) (map_of es n) else None)"
      using assms(1) by (simp add: exact_def)
    ultimately show ?thesis
      by (cases "map_of es n") (auto simp: recorded_def split: if_splits)
  qed
  then show "cached_bytes link es = bg_bytes b"
    unfolding cached_bytes_def names sum recorded_sum(1)[OF dist] by (rule sum.cong[OF refl])
  show "card (cached_names es) = length ?m" by (simp add: names recorded_sum(2)[OF dist])
qed

text \<open>A cache in use: opened on whatever the directory holds, used by resources, and its files changed by
  something else. The mark tells how well the books are kept: exactly, until a resource fails in a way that
  changes the cache or something else removes files; as a bound, until something else changes files at will.\<close>

datatype books = Exact | Bound | Lost

fun loosened :: "books \<Rightarrow> books" where
  "loosened Lost = Lost"
| "loosened _ = Bound"

inductive cache_reachable :: "cache_lib \<Rightarrow> cache_settings \<Rightarrow> nat \<Rightarrow> books \<Rightarrow> cache_state \<Rightarrow> bool" for lib q link where
  opened: "distinct (map fst es) \<Longrightarrow> scan_and_prune lib q f link es = (Inr (), st) \<Longrightarrow>
    cache_reachable lib q link Exact st"
| used: "cache_reachable lib q link k st \<Longrightarrow> cache_digest i \<Longrightarrow>
    cached_resource lib q f g i ix now decode st out = (Inr r, st', out') \<Longrightarrow> cache_reachable lib q link k st'"
| unused: "cache_reachable lib q link k st \<Longrightarrow>
    cached_resource lib q f g i ix now decode st out = (Inl e, st, out') \<Longrightarrow> cache_reachable lib q link k st"
| failed: "cache_reachable lib q link k st \<Longrightarrow> shrinking link g (cs_entries st) \<Longrightarrow>
    cached_resource lib q f g i ix now decode st out = (Inl e, st', out') \<Longrightarrow> cache_reachable lib q link (loosened k) st'"
| removed: "cache_reachable lib q link k st \<Longrightarrow>
    (\<And>n y. map_of es n = Some y \<Longrightarrow> \<exists>x. map_of (cs_entries st) n = Some x \<and> tree_bytes link y \<le> tree_bytes link x) \<Longrightarrow>
    cache_reachable lib q link (loosened k) (st\<lparr>cs_entries := es\<rparr>)"
| disturbed: "cache_reachable lib q link k st \<Longrightarrow> cache_reachable lib q link Lost (st\<lparr>cs_entries := es\<rparr>)"

definition kept_books :: "books \<Rightarrow> nat \<Rightarrow> entries \<Rightarrow> cache_budget \<Rightarrow> bool" where
  "kept_books k link es b = (case k of Exact \<Rightarrow> exact link es b | Bound \<Rightarrow> covered link es b | Lost \<Rightarrow> True)"

lemma kept_loosened:
  "(k \<noteq> Lost \<Longrightarrow> covered link es b) \<Longrightarrow> kept_books (loosened k) link es b"
  by (cases k) (simp_all add: kept_books_def)

lemma kept_covered: "kept_books k link es b \<Longrightarrow> k \<noteq> Lost \<Longrightarrow> covered link es b"
  by (cases k) (simp_all add: kept_books_def exact_covered)

lemma cache_reachable_books:
  "cache_reachable lib q link k st \<Longrightarrow>
     budget_ok (cs_budget st) \<and> within q (cs_budget st) \<and> kept_books k link (cs_entries st) (cs_budget st)"
proof (induction rule: cache_reachable.induct)
  case (opened es f st)
  then show ?case
    using scan_and_prune_budget scan_and_prune_exact by (auto simp: kept_books_def)
next
  case (used k st i f g ix now decode out r st' out')
  note run = used.hyps(3)
  show ?case
    using cached_resource_budget[OF run] cached_resource_kept[OF run _ exact_kept[OF used.hyps(2)]]
      cached_resource_kept[OF run _ covered_kept] used.IH
    by (cases k) (auto simp: kept_books_def)
next
  case (failed k st g f i ix now decode out e st' out')
  note run = failed.hyps(3)
  have "covered link (cs_entries st') (cs_budget st')" if "k \<noteq> Lost"
    using cached_resource_covered[OF run _ kept_covered[OF _ that] failed.hyps(2)] failed.IH by simp
  then show ?case using cached_resource_budget[OF run] failed.IH kept_loosened by blast
next
  case (removed k st es)
  have "covered link es (cs_budget st)" if "k \<noteq> Lost"
    using covered_fewer[OF kept_covered[OF _ that] removed.hyps(2)] removed.IH by simp
  then show ?case using removed.IH kept_loosened by simp
qed (simp_all add: kept_books_def)

text \<open>C37. The cache never outgrows its budget, neither in its account nor on disk. Whatever the directory
  held when it was opened, whichever resources failed since and whatever else changed its files, the account
  adds up, has one record per entry and is within the configured bytes and entries. As long as everything
  else only removes files, and failing removals leave no more than there was, the entries on disk take no
  more bytes and are no more than recorded, so the limits hold for the files. And while no resource failed
  in a way that changed the cache and nothing else touched it, the records are exactly the entries on disk,
  each with the size of its tree, \<open>entry.json\<close> included.\<close>

theorem cache_stays_within_budget:
  assumes "cache_reachable lib q link k st"
  shows "bg_bytes (cs_budget st) = sum_list (map (fst \<circ> snd) (bg_entries (cs_budget st)))
    \<and> distinct (map fst (bg_entries (cs_budget st)))
    \<and> (\<forall>limit. cq_max_bytes q = Some limit \<longrightarrow> bg_bytes (cs_budget st) \<le> limit)
    \<and> (\<forall>limit. cq_max_entries q = Some limit \<longrightarrow> length (bg_entries (cs_budget st)) \<le> limit)
    \<and> (k \<noteq> Lost \<longrightarrow>
        cached_bytes link (cs_entries st) \<le> bg_bytes (cs_budget st)
        \<and> card (cached_names (cs_entries st)) \<le> length (bg_entries (cs_budget st))
        \<and> (\<forall>limit. cq_max_bytes q = Some limit \<longrightarrow> cached_bytes link (cs_entries st) \<le> limit)
        \<and> (\<forall>limit. cq_max_entries q = Some limit \<longrightarrow> card (cached_names (cs_entries st)) \<le> limit))
    \<and> (k = Exact \<longrightarrow>
        (\<forall>n. map_option fst (map_of (bg_entries (cs_budget st)) n)
            = (if cache_digest n then map_option (tree_bytes link) (map_of (cs_entries st) n) else None))
        \<and> cached_bytes link (cs_entries st) = bg_bytes (cs_budget st)
        \<and> card (cached_names (cs_entries st)) = length (bg_entries (cs_budget st)))"
proof -
  have ok: "budget_ok (cs_budget st)" and w: "within q (cs_budget st)"
    and books: "kept_books k link (cs_entries st) (cs_budget st)"
    using cache_reachable_books[OF assms] by simp_all
  have account: "bg_bytes (cs_budget st) = sum_list (map (fst \<circ> snd) (bg_entries (cs_budget st)))"
    "distinct (map fst (bg_entries (cs_budget st)))"
    using ok bt_ordered_distinct by (auto simp: budget_ok_def)
  have limits: "\<forall>limit. cq_max_bytes q = Some limit \<longrightarrow> bg_bytes (cs_budget st) \<le> limit"
    "\<forall>limit. cq_max_entries q = Some limit \<longrightarrow> length (bg_entries (cs_budget st)) \<le> limit"
    using w by (auto simp: within_def)
  have disk: "k \<noteq> Lost \<longrightarrow> cached_bytes link (cs_entries st) \<le> bg_bytes (cs_budget st)
      \<and> card (cached_names (cs_entries st)) \<le> length (bg_entries (cs_budget st))"
    using covered_totals[OF kept_covered[OF books] ok] by blast
  have same: "k = Exact \<longrightarrow> exact link (cs_entries st) (cs_budget st)"
    using books by (auto simp: kept_books_def)
  with exact_totals[OF _ ok] have "k = Exact \<longrightarrow> exact link (cs_entries st) (cs_budget st)
      \<and> cached_bytes link (cs_entries st) = bg_bytes (cs_budget st)
      \<and> card (cached_names (cs_entries st)) = length (bg_entries (cs_budget st))" by blast
  then show ?thesis
    using account limits disk unfolding exact_def recorded_def by (meson order_trans)
qed

subsection \<open>An example\<close>

definition books_lib :: cache_lib where
  "books_lib = sample_cache_lib\<lparr>kl_encode := (\<lambda>_. Some [7])\<rparr>"

definition books_id :: string where
  "books_id = replicate 64 (CHR ''0'')"

definition books_state :: cache_state where
  "books_state = \<lparr>cs_entries = [(books_id, DirNode [(''entry.json'', FileNode [7]), (''data'', DirNode [(''0.png'', FileNode [1])])])],
     cs_budget = \<lparr>bg_entries = [(books_id, 2, 5)], bg_bytes = 2\<rparr>\<rparr>"

lemma books_digests: "cache_digest books_id" "cache_digest sample_digest" "cache_safe_path ''0.png''"
  "split_on (CHR ''/'') ''0.png'' = [''0.png'']"
  by code_simp+

lemma books_opened:
  "scan_and_prune books_lib small_cache no_faults 0 [] = (Inr (), \<lparr>cs_entries = [], cs_budget = empty_budget\<rparr>)"
  by (simp add: scan_and_prune_def cache_do_def no_faults_def)
    (subst make_room.simps, simp add: desired_bytes_def room_left_def old_bytes_def old_count_def small_cache_def empty_budget_def)

lemma books_copied:
  "copy_outputs books_lib no_faults 100 (Some (DirNode [(''0.png'', FileNode [1])])) sample_resource
     = Inr (Some [(''0.png'', FileNode [1])])"
  by (simp add: copy_outputs_def sample_fields poll_def no_faults_def books_digests copy_output_def path_node_def
      cache_do_def small_pieces books_lib_def sample_cache_lib_def sample_checker_def put_def without_def)

lemma books_stored:
  "store_resource books_lib small_cache no_faults books_id 5 (Some (DirNode [(''0.png'', FileNode [1])])) sample_resource
     \<lparr>cs_entries = [], cs_budget = empty_budget\<rparr> = (Inr (), books_state)"
proof -
  have enc: "entry_text books_lib books_id sample_resource = Inr [7]"
    by (simp add: entry_text_def report_print_def books_lib_def sample_cache_lib_def MAX_REPORT_def)
  have room: "make_room books_lib small_cache no_faults (Some books_id) 2 1 0 \<lparr>cs_entries = [], cs_budget = empty_budget\<rparr>
      = (Inr (), \<lparr>cs_entries = [], cs_budget = empty_budget\<rparr>)"
    by (subst make_room.simps) (simp add: desired_bytes_def room_left_def old_bytes_def old_count_def small_cache_def empty_budget_def)
  have limit: "cq_limit small_cache = 100" "cq_max_bytes small_cache = Some 20" by (simp_all add: small_cache_def)
  have calm: "cache_do books_lib no_faults x = Inr ()" "poll no_faults p = Inr ()" for x p
    by (simp_all add: cache_do_def poll_def no_faults_def)
  have size: "and_then (Inr [7]) (\<lambda>b. and_then (entry_size (length b) [sample_output]) (\<lambda>n. Inr (b, n))) = Inr ([7 :: byte], 2)"
    by (simp add: sample_fields)
  show ?thesis
    unfolding store_resource_def enc sample_fields size limit
    by (simp add: room[unfolded One_nat_def] limit books_copied calm)
      (simp add: calm install_entry_def books_state_def empty_budget_def put_def without_def old_bytes_def Let_def)
qed

lemma books_used:
  "cached_resource books_lib small_cache no_faults no_faults books_id 0 5 sample_decode
     \<lparr>cs_entries = [], cs_budget = empty_budget\<rparr> [] = (Inr sample_resource, books_state, snd (sample_decode []))"
  using books_stored
  by (simp add: cached_resource_def poll_def no_faults_def restore_resource_def sample_decode_def sample_fields
      put_def without_def)

theorem cache_stays_within_budget_witness:
  "cached_bytes 0 (cs_entries books_state) = 2 \<and> bg_bytes (cs_budget books_state) = 2
    \<and> card (cached_names (cs_entries books_state)) = 1"
proof -
  have "cache_reachable books_lib small_cache 0 Exact \<lparr>cs_entries = [], cs_budget = empty_budget\<rparr>"
    by (rule cache_reachable.opened[OF _ books_opened]) simp
  then have "cache_reachable books_lib small_cache 0 Exact books_state"
    by (rule cache_reachable.used[OF _ books_digests(1) books_used])
  from cache_stays_within_budget[OF this] show ?thesis by (simp add: books_state_def)
qed

end
