(* ===== verification/Completion_Notify.thy ===== *)
theory Completion_Notify
  imports Job_Store Storage_Config
begin

text \<open>
  Delivery of completion notices (\<open>src/completion_notify.rs\<close>): loading the configured receivers and one
  delivery with its bounded acknowledgement. The HTTP client, the JSON texts and the hash that gives a
  receiver its identity are arguments; the ledger's side of a notice is in \<open>Job_Store\<close>.
\<close>

subsection \<open>Receivers\<close>

record notice_config =
  nc_name :: string
  nc_region :: region
  nc_endpoint :: string
  nc_token_env :: string
  nc_timeout :: nat
  nc_retry :: nat

record notice_target =
  nt_identity :: string
  nt_name :: string
  nt_region :: region
  nt_endpoint :: url
  nt_token :: string
  nt_retry :: nat

text \<open>
  \<open>nl_identity\<close> hashes name, region tag and endpoint (\<open>None\<close> when they cannot be serialised);
  \<open>nl_client\<close> tells whether a client with the given timeout can be built.
\<close>

record notice_lib =
  nl_env :: env
  nl_url :: url_parser
  nl_ip :: "string \<Rightarrow> ip option"
  nl_identity :: "string \<Rightarrow> string \<Rightarrow> url \<Rightarrow> string option"
  nl_client :: "nat \<Rightarrow> bool"

definition is_ascii_graphic :: "char \<Rightarrow> bool" where
  "is_ascii_graphic c \<longleftrightarrow> 33 \<le> (of_char c :: nat) \<and> of_char c \<le> (126 :: nat)"

definition notice_rejected :: "notice_lib \<Rightarrow> string list \<Rightarrow> notice_config \<Rightarrow> url \<Rightarrow> bool" where
  "notice_rejected lib names c u \<longleftrightarrow>
     (let loopback = is_some_and (\<lambda>h. is_some_and is_loopback (nl_ip lib (trim_brackets h))) (host_str u) in
      nc_name c = [] \<or> 64 < length (nc_name c)
      \<or> \<not> list_all (\<lambda>b. is_ascii_alphanumeric b \<or> b = CHR ''-'' \<or> b = CHR ''_'') (nc_name c)
      \<or> nc_name c \<in> set names
      \<or> nc_region c = Cn
      \<or> \<not> (1 \<le> nc_timeout c \<and> nc_timeout c \<le> 60)
      \<or> \<not> (1 \<le> nc_retry c \<and> nc_retry c \<le> 3600)
      \<or> host_str u = None \<or> username u \<noteq> [] \<or> password u \<noteq> None \<or> query u \<noteq> None \<or> fragment u \<noteq> None
      \<or> \<not> (scheme u = ''https'' \<or> (scheme u = ''http'' \<and> loopback)))"

definition token_rejected :: "string list \<Rightarrow> string list \<Rightarrow> string \<Rightarrow> bool" where
  "token_rejected forbidden tokens s \<longleftrightarrow>
     s = [] \<or> 4096 < length s \<or> \<not> list_all is_ascii_graphic s \<or> s \<in> set forbidden \<or> s \<in> set tokens"

fun load_targets ::
  "notice_lib \<Rightarrow> string list \<Rightarrow> string list \<Rightarrow> string list \<Rightarrow> notice_config list \<Rightarrow> error + notice_target list" where
  "load_targets lib forbidden names tokens [] = Inr []"
| "load_targets lib forbidden names tokens (c # cs) =
     and_then (ok_or error.Config (nl_url lib (nc_endpoint c))) (\<lambda>u.
     and_then (fail_if (notice_rejected lib names c u) error.Config) (\<lambda>_.
     and_then (ok_or error.Secret (nl_env lib (nc_token_env c))) (\<lambda>s.
     and_then (fail_if (token_rejected forbidden tokens s) error.Config) (\<lambda>_.
     and_then (ok_or error.Config (nl_identity lib (nc_name c) (persisted_digest_tag (nc_region c)) u)) (\<lambda>i.
     and_then (fail_if (\<not> nl_client lib (nc_timeout c)) error.Config) (\<lambda>_.
     and_then (load_targets lib forbidden (nc_name c # names) (s # tokens) cs) (\<lambda>ts.
     Inr (\<lparr>nt_identity = i, nt_name = nc_name c, nt_region = nc_region c, nt_endpoint = u,
           nt_token = ''Bearer '' @ s, nt_retry = nc_retry c\<rparr> # ts))))))))"

definition load_notices :: "notice_lib \<Rightarrow> string list \<Rightarrow> notice_config list \<Rightarrow> error + notice_target list" where
  "load_notices lib forbidden cs =
     and_then (fail_if (16 < length cs) error.Config) (\<lambda>_. load_targets lib forbidden [] [] cs)"

definition ledger_target :: "notice_target \<Rightarrow> completion_target" where
  "ledger_target t = \<lparr>tgt_region = nt_region t, tgt_identity = nt_identity t\<rparr>"

subsection \<open>Delivering\<close>

datatype delivery_failure =
    RegionMismatch | InvalidEvent | TransportFailed | ReceiverRejected | InvalidAcknowledgement | NotPersisted

fun failure_text :: "delivery_failure \<Rightarrow> string" where
  "failure_text RegionMismatch = ''region_mismatch''"
| "failure_text InvalidEvent = ''invalid_event''"
| "failure_text TransportFailed = ''transport_failed''"
| "failure_text ReceiverRejected = ''receiver_rejected''"
| "failure_text InvalidAcknowledgement = ''invalid_acknowledgement''"
| "failure_text NotPersisted = ''acknowledgement_not_persisted''"

text \<open>The body of the response: a chunk too many is an invalid acknowledgement, a broken stream a
  transport failure.\<close>

definition ack_body :: "response \<Rightarrow> delivery_failure + byte list" where
  "ack_body r =
     (case collect_chunks 1024 (broken r) (chunks r) [] of
        Inl error.Size \<Rightarrow> Inl InvalidAcknowledgement
      | Inl _ \<Rightarrow> Inl TransportFailed
      | Inr bs \<Rightarrow> Inr bs)"

text \<open>\<open>ack_of\<close> decodes an acknowledgement: its version and job.\<close>

definition deliver ::
  "job_lib \<Rightarrow> (byte list \<Rightarrow> (nat \<times> string) option) \<Rightarrow> notice_target \<Rightarrow> response option \<Rightarrow> completion
   \<Rightarrow> delivery_failure + unit" where
  "deliver lib ack_of t resp e =
     and_then (fail_if (req_region (comp_request e) \<noteq> nt_region t) RegionMismatch) (\<lambda>_.
     and_then (ok_or InvalidEvent (completion_size lib e)) (\<lambda>n.
     and_then (fail_if (65536 < n) InvalidEvent) (\<lambda>_.
     and_then (ok_or TransportFailed resp) (\<lambda>r.
     and_then (fail_if (http_code r \<noteq> 202) ReceiverRejected) (\<lambda>_.
     and_then (fail_if (is_some_and (\<lambda>n. 1024 < n) (content_length r)) InvalidAcknowledgement) (\<lambda>_.
     and_then (ack_body r) (\<lambda>bs.
     and_then (ok_or InvalidAcknowledgement (ack_of bs)) (\<lambda>(version, job).
     fail_if (version \<noteq> 1 \<or> job \<noteq> comp_job e) InvalidAcknowledgement))))))))"

text \<open>The delivery state of a receiver.\<close>

record delivery_state =
  ds_attempts :: u64
  ds_last_attempt :: "int option"
  ds_last_acknowledged :: "int option"
  ds_last_error :: "delivery_failure option"
  ds_due :: "int option"

definition delivery_start :: delivery_state where
  "delivery_start = \<lparr>ds_attempts = 0, ds_last_attempt = None, ds_last_acknowledged = None, ds_last_error = None, ds_due = None\<rparr>"

subsection \<open>Facts\<close>

lemma load_targets_Inr:
  "load_targets lib forbidden names tokens cs = Inr ts \<Longrightarrow>
     list_all2 (\<lambda>c t. nt_name t = nc_name c \<and> nt_region t = nc_region c \<and> nc_region c \<noteq> Cn
        \<and> nl_url lib (nc_endpoint c) = Some (nt_endpoint t)
        \<and> (scheme (nt_endpoint t) = ''https'' \<or> scheme (nt_endpoint t) = ''http''
             \<and> is_some_and (\<lambda>h. is_some_and is_loopback (nl_ip lib (trim_brackets h))) (host_str (nt_endpoint t)))
        \<and> (\<exists>s. nl_env lib (nc_token_env c) = Some s \<and> s \<noteq> [] \<and> s \<notin> set forbidden \<and> nt_token t = ''Bearer '' @ s)
        \<and> nl_identity lib (nc_name c) (persisted_digest_tag (nc_region c)) (nt_endpoint t) = Some (nt_identity t)) cs ts
     \<and> distinct (map nt_name ts) \<and> set names \<inter> nt_name ` set ts = {}
     \<and> distinct (map nt_token ts) \<and> (\<forall>s\<in>set tokens. ''Bearer '' @ s \<notin> nt_token ` set ts)"
proof (induction cs arbitrary: names tokens ts)
  case (Cons c cs)
  from Cons.prems obtain u s i ts' where u: "nl_url lib (nc_endpoint c) = Some u" and r: "\<not> notice_rejected lib names c u"
    and s: "nl_env lib (nc_token_env c) = Some s" "\<not> token_rejected forbidden tokens s"
    and i: "nl_identity lib (nc_name c) (persisted_digest_tag (nc_region c)) u = Some i"
    and rest: "load_targets lib forbidden (nc_name c # names) (s # tokens) cs = Inr ts'"
    and ts: "ts = \<lparr>nt_identity = i, nt_name = nc_name c, nt_region = nc_region c, nt_endpoint = u,
           nt_token = ''Bearer '' @ s, nt_retry = nc_retry c\<rparr> # ts'"
    by (auto simp: result_simps)
  from Cons.IH[OF rest] show ?case
    using u r s i unfolding ts notice_rejected_def token_rejected_def Let_def by auto
qed simp

lemma deliver_Inr:
  "deliver lib ack_of t resp e = Inr u \<Longrightarrow>
     \<exists>r bs. resp = Some r \<and> http_code r = 202 \<and> ack_of bs = Some (1, comp_job e) \<and> length bs \<le> 1024
       \<and> req_region (comp_request e) = nt_region t"
proof -
  assume "deliver lib ack_of t resp e = Inr u"
  then obtain r bs where r: "resp = Some r" "http_code r = 202" and b: "ack_body r = Inr bs"
    and a: "ack_of bs = Some (1, comp_job e)" "req_region (comp_request e) = nt_region t"
    by (auto simp: deliver_def result_simps split: prod.splits)
  from b have "collect_chunks 1024 (broken r) (chunks r) [] = Inr bs"
    by (auto simp: ack_body_def split: sum.splits error.splits)
  then have "length bs \<le> 1024"
    using collect_chunks_Inr by fastforce
  with r a show ?thesis by blast
qed

end
