(* ===== verification/Notice_Delivery.thy ===== *)
theory Notice_Delivery
  imports Completion_Notify Job_Ledger
begin

text \<open>
  The loop that delivers completion notices (\<open>run_completion_target\<close> of \<open>src/service.rs\<close>): each receiver gets
  the first notice pending for it, and a notice leaves the ledger only when it was acknowledged.
\<close>

subsection \<open>Rounds\<close>

definition next_event :: "notice_target \<Rightarrow> int \<Rightarrow> delivery_state \<Rightarrow> store \<Rightarrow> completion option" where
  "next_event t now s st =
     (if is_some_and (\<lambda>d. now < d) (ds_due s) then None
      else map_option event (List.find (\<lambda>d. nt_identity t \<in> set (pending_targets d)) (completions (st_ledger st))))"

definition saturating_succ :: "u64 \<Rightarrow> u64" where
  "saturating_succ n = (if n = - 1 then n else n + 1)"

text \<open>\<open>st\<close> is the store when the notice is looked up, \<open>st1\<close> when the delivery has ended: others may have
  changed it meanwhile. \<open>resp\<close> is the answer to the request, \<open>persisted\<close> whether the acknowledgement can be
  saved and \<open>later\<close> the time after the attempt.\<close>

definition delivery_round ::
  "job_lib \<Rightarrow> (byte list \<Rightarrow> (nat \<times> string) option) \<Rightarrow> notice_target \<Rightarrow> int \<Rightarrow> int \<Rightarrow> response option \<Rightarrow> bool
   \<Rightarrow> delivery_state \<Rightarrow> store \<Rightarrow> store \<Rightarrow> delivery_state \<times> store" where
  "delivery_round lib ack_of t now later resp persisted s st st1 =
     (case next_event t now s st of
        None \<Rightarrow> (s, st1)
      | Some e \<Rightarrow>
          (let s1 = s\<lparr>ds_attempts := saturating_succ (ds_attempts s), ds_last_attempt := Some now\<rparr>;
               (res, st') = (case deliver lib ack_of t resp e of
                   Inl f \<Rightarrow> (Inl f, st1)
                 | Inr _ \<Rightarrow>
                     (case acknowledge_completion lib persisted (comp_job e) (nt_identity t) st1 of
                        (Inl _, st') \<Rightarrow> (Inl NotPersisted, st')
                      | (Inr _, st') \<Rightarrow> (Inr (), st'))) in
           (case res of
              Inl f \<Rightarrow> (s1\<lparr>ds_last_error := Some f, ds_due := Some (later + int (nt_retry t))\<rparr>, st')
            | Inr _ \<Rightarrow> (s1\<lparr>ds_last_error := None, ds_due := None, ds_last_acknowledged := Some later\<rparr>, st'))))"

text \<open>Shutting down during a delivery: the attempt is counted and nothing else happens.\<close>

definition delivery_aborted :: "notice_target \<Rightarrow> int \<Rightarrow> delivery_state \<Rightarrow> store \<Rightarrow> delivery_state" where
  "delivery_aborted t now s st =
     (case next_event t now s st of
        None \<Rightarrow> s
      | Some _ \<Rightarrow> s\<lparr>ds_attempts := saturating_succ (ds_attempts s), ds_last_attempt := Some now\<rparr>)"

subsection \<open>What leaves the ledger\<close>

text \<open>The deliveries that are pending, as pairs of a job and a receiver.\<close>

definition debts :: "delivery list \<Rightarrow> (string \<times> string) set" where
  "debts ds = (\<Union>d\<in>set ds. {comp_job (event d)} \<times> set (pending_targets d))"

definition owed :: "store \<Rightarrow> (string \<times> string) set" where
  "owed st = debts (completions (st_ledger st))"

lemma debts_simps [simp]:
  "debts [] = {}"
  "debts (d # ds) = {comp_job (event d)} \<times> set (pending_targets d) \<union> debts ds"
  "debts (xs @ ys) = debts xs \<union> debts ys"
  by (auto simp: debts_def)

lemma debts_filter [simp]: "debts (filter (\<lambda>d. pending_targets d \<noteq> []) ds) = debts ds"
  by (induction ds) auto

lemma debts_other: "i \<notin> set (map (\<lambda>d. comp_job (event d)) ds) \<Longrightarrow> (i, t) \<notin> debts ds"
  by (induction ds) auto

lemma acknowledge_owed:
  assumes ok: "store_ok lib st" and a: "acknowledge_completion lib p i t st = (Inr u, st')"
  shows "(i, t) \<in> owed st \<and> owed st' = owed st - {(i, t)}"
proof -
  obtain pre d post where cs: "completions (st_ledger st) = pre @ d # post" "comp_job (event d) = i" "t \<in> set (pending_targets d)"
    and c: "job_commit lib p st (st_ledger st\<lparr>completions := filter (\<lambda>x. pending_targets x \<noteq> [])
        (pre @ d\<lparr>pending_targets := filter (\<lambda>x. x \<noteq> t) (pending_targets d)\<rparr> # post)\<rparr>) = (Inr u, st')"
    using acknowledge_Inr[OF a] by blast
  have dist: "distinct (map job_id (jobs (st_ledger st)))" and once: "distinct (map (\<lambda>d. comp_job (event d)) (pre @ d # post))"
    using ok cs(1) by (simp_all add: store_ok_def jobs_wf_def deliveries_wf_def)
  have "add_completions lib (st_targets st) (jobs (st_ledger st)) (jobs (st_ledger st)) cs = Inr cs" for cs
    by (rule add_completions_none) (rule new_delivery_old[OF dist])
  with job_commit_Inr[OF c] have "completions (st_ledger st') = filter (\<lambda>x. pending_targets x \<noteq> [])
      (pre @ d\<lparr>pending_targets := filter (\<lambda>x. x \<noteq> t) (pending_targets d)\<rparr> # post)" by auto
  then have after: "owed st' = debts pre \<union> {i} \<times> (set (pending_targets d) - {t}) \<union> debts post"
    using cs(2) by (simp add: owed_def del: filter_append filter.simps) auto
  have before: "owed st = debts pre \<union> {i} \<times> set (pending_targets d) \<union> debts post"
    using cs(1,2) by (simp add: owed_def Un_assoc)
  have "(i, t) \<notin> debts pre" "(i, t) \<notin> debts post"
    using once cs(2) by (auto intro!: debts_other)
  then show ?thesis using cs(3) unfolding before after by blast
qed

text \<open>C35. Notices are delivered at least once: a round changes the ledger only by striking out one
  delivery, and it does so only when the receiver, asked about the first notice pending for it, answered
  202 and acknowledged exactly that job. After any failure the delivery is still owed and is due again
  after the receiver's retry delay.\<close>

theorem notices_leave_only_when_acknowledged:
  assumes "delivery_round lib ack_of t now later resp persisted s st st1 = (s', st2)" and "store_ok lib st1"
  shows "(owed st2 = owed st1 \<and> (s' = s \<or> ds_last_error s' \<noteq> None \<and> ds_due s' = Some (later + int (nt_retry t))))
    \<or> (\<exists>e r bs. next_event t now s st = Some e \<and> (comp_job e, nt_identity t) \<in> owed st1
         \<and> owed st2 = owed st1 - {(comp_job e, nt_identity t)} \<and> req_region (comp_request e) = nt_region t
         \<and> resp = Some r \<and> http_code r = 202 \<and> length bs \<le> 1024 \<and> ack_of bs = Some (1, comp_job e)
         \<and> ds_last_error s' = None \<and> ds_due s' = None)"
proof (cases "next_event t now s st")
  case None
  with assms(1) show ?thesis by (simp add: delivery_round_def)
next
  case (Some e)
  show ?thesis
  proof (cases "deliver lib ack_of t resp e")
    case (Inl f)
    with Some assms(1) show ?thesis by (auto simp: delivery_round_def Let_def)
  next
    case (Inr u)
    obtain x st3 where a: "acknowledge_completion lib persisted (comp_job e) (nt_identity t) st1 = (x, st3)" by fastforce
    show ?thesis
    proof (cases x)
      case (Inl f)
      then have "st3 = st1" using acknowledging.error_unchanged[of lib "(persisted, comp_job e, nt_identity t)" st1 f st3] a by simp
      with Inl Inr Some a assms(1) show ?thesis by (auto simp: delivery_round_def Let_def)
    next
      case Ok: (Inr v)
      from acknowledge_owed[OF assms(2)] a Ok
      have o: "(comp_job e, nt_identity t) \<in> owed st1" "owed st3 = owed st1 - {(comp_job e, nt_identity t)}" by blast+
      from assms(1) Some Inr a Ok have "st2 = st3" "ds_last_error s' = None" "ds_due s' = None"
        by (auto simp: delivery_round_def Let_def)
      with o Some deliver_Inr[OF Inr] show ?thesis by blast
    qed
  qed
qed

subsection \<open>An example delivery\<close>

definition demo_receiver :: notice_target where
  "demo_receiver = \<lparr>nt_identity = replicate 64 CHR ''a'', nt_name = ''r'', nt_region = Jp,
     nt_endpoint = \<lparr>scheme = ''https'', host_str = Some ''h'', username = [], password = None, url_path = ''/'', query = None, fragment = None\<rparr>,
     nt_token = ''Bearer s'', nt_retry = 30\<rparr>"

definition demo_notice :: delivery where
  "demo_notice = \<lparr>event = \<lparr>comp_schema = 1, comp_job = ''1'', comp_request = demo_request Jp,
       comp_outcome = \<lparr>out_verification = \<lparr>full_catalog = True, catalog_remote_files = 1, catalog_verified = True, ver_region = Jp,
         ver_platform = ''a'', ver_environment = ''e'', ver_resource_version = ''1'', ver_platform_hash = ''h'',
         ver_catalog_sha256 = ''c'', asset_files_verified = 0, asset_bytes_verified = 0, planned_remote_files = 0,
         ver_embedded_locations = 0, decrypted_bundles = 0\<rparr>, out_export = None, out_publication = None\<rparr>, comp_at = 9\<rparr>,
     pending_targets = [nt_identity demo_receiver]\<rparr>"

definition notice_store :: "delivery list \<Rightarrow> store" where
  "notice_store ds = \<lparr>st_targets = [ledger_target demo_receiver], st_ledger = \<lparr>schema_version = 2, jobs = [], completions = ds\<rparr>,
     st_limits = demo_limits, st_saved = \<lparr>schema_version = 2, jobs = [], completions = ds\<rparr>\<rparr>"

definition demo_answer :: response where
  "demo_answer = \<lparr>http_code = 202, content_length = Some 2, chunks = [[7, 7]], broken = False\<rparr>"

lemma demo_identity: "target_identity (nt_identity demo_receiver)"
  by (simp add: target_identity_def demo_receiver_def list_all_iff is_lower_hexdigit_def less_eq_char_def)

lemma notice_store_ok: "store_ok demo_lib (notice_store [demo_notice])"
  using demo_identity
  by (simp add: store_ok_def wf_defs notice_store_def delivery_ok_def demo_notice_def demo_defs bounded_completion_def
      valid_request_def is_ascii_alphanumeric_def is_ascii_lowercase_def ledger_target_def reserved_def active_jobs_def
      MAX_COMPLETION_EVENTS_def keys_of_def List.map_filter_simps) (simp add: demo_receiver_def)

lemma demo_acknowledged:
  "acknowledge_completion demo_lib True ''1'' (nt_identity demo_receiver) (notice_store [demo_notice]) = (Inr (), notice_store [])"
  using demo_identity
  by (simp add: acknowledge_completion_def notice_store_def demo_notice_def demo_lib_def job_commit_def retain_def Let_def
      List.map_filter_simps)

lemma demo_delivered:
  "delivery_round demo_lib (\<lambda>_. Some (1, ''1'')) demo_receiver 1 2 (Some demo_answer) True delivery_start
      (notice_store [demo_notice]) (notice_store [demo_notice])
     = (\<lparr>ds_attempts = 1, ds_last_attempt = Some 1, ds_last_acknowledged = Some 2, ds_last_error = None, ds_due = None\<rparr>,
        notice_store [])"
proof -
  have "next_event demo_receiver 1 delivery_start (notice_store [demo_notice]) = Some (event demo_notice)"
    by (simp add: next_event_def delivery_start_def notice_store_def) (simp add: demo_notice_def)
  moreover have "deliver demo_lib (\<lambda>_. Some (1, ''1'')) demo_receiver (Some demo_answer) (event demo_notice) = Inr ()"
    by (simp add: deliver_def demo_notice_def demo_request_def demo_receiver_def demo_lib_def demo_answer_def ack_body_def)
  moreover have "comp_job (event demo_notice) = ''1''" by (simp add: demo_notice_def)
  ultimately show ?thesis
    by (simp add: delivery_round_def demo_acknowledged Let_def) (simp add: delivery_start_def saturating_succ_def)
qed

theorem notices_leave_only_when_acknowledged_witness:
  "(''1'', nt_identity demo_receiver) \<in> owed (notice_store [demo_notice])
     \<and> owed (notice_store []) = owed (notice_store [demo_notice]) - {(''1'', nt_identity demo_receiver)}"
proof -
  have "owed (notice_store []) \<noteq> owed (notice_store [demo_notice])"
    by (simp add: owed_def notice_store_def demo_notice_def)
  with notices_leave_only_when_acknowledged[OF demo_delivered notice_store_ok] show ?thesis
    by (auto simp: next_event_def delivery_start_def notice_store_def demo_notice_def)
qed

end
