(* ===== verification/Service_Api.thy ===== *)
theory Service_Api
  imports Notice_Delivery Publication Export_Config Storage_Run
begin

text \<open>
  The service's HTTP interface (\<open>src/service.rs\<close>): its settings and how it opens, the authorisation of
  requests, submitting, listing, cancelling and retrying jobs, the offline preview of a submission and the
  report on completion notices. Documents, JSON texts, clocks, fresh ids and the success of persisting are
  arguments; sockets, TLS (\<open>src/server.rs\<close>) and the framework's routing by path are left out.
\<close>

subsection \<open>Settings\<close>

record tls_config =
  tls_certificate :: string
  tls_key :: string
  tls_handshake_ms :: u64

definition tls_validate :: "tls_config \<Rightarrow> bool" where
  "tls_validate t \<longleftrightarrow> tls_certificate t \<noteq> [] \<and> tls_key t \<noteq> []
     \<and> 100 \<le> unat (tls_handshake_ms t) \<and> unat (tls_handshake_ms t) \<le> 60000"

record profile =
  pf_region :: region
  pf_download :: "string option"
  pf_export :: "string option"
  pf_storage :: "string option"
  pf_input :: "string option"

definition supports_op :: "profile \<Rightarrow> operation \<Rightarrow> bool" where
  "supports_op p op =
     (case op of
        UpdateOp \<Rightarrow> pf_download p \<noteq> None
      | ExportOp \<Rightarrow> pf_input p \<noteq> None \<and> pf_export p \<noteq> None
      | VerifyOp \<Rightarrow> pf_input p \<noteq> None)"

record service_config =
  svc_allow_cancel :: bool
  svc_notices :: "notice_config list"
  svc_logging :: "app_log_config option"
  svc_tls :: "tls_config option"
  svc_token_env :: string
  svc_agent :: "string option"
  svc_max_jobs :: nat
  svc_max_media :: nat
  svc_max_stages :: "nat option"
  svc_max_uploads :: nat
  svc_max_downloads :: nat
  svc_in_flight :: u64
  svc_max_queued :: nat
  svc_retain :: nat
  svc_timeout :: u64
  svc_profiles :: "(string \<times> profile) list"

definition default_jobs :: nat where "default_jobs = 4"
definition default_queued :: nat where "default_queued = 64"
definition default_retained :: nat where "default_retained = 256"
definition default_job_timeout :: u64 where "default_job_timeout = 3600"
definition default_handshake_ms :: u64 where "default_handshake_ms = 10000"

text \<open>The documents of a profile, read with the overrides of the environment, and the libraries.\<close>

record service_lib =
  sv_job :: job_lib
  sv_notice :: notice_lib
  sv_parsers :: parsers
  sv_surroundings :: surroundings
  sv_export_lib :: export_lib
  sv_storage_lib :: storage_lib
  sv_join_url :: "url \<Rightarrow> string list \<Rightarrow> string"
  sv_uuid :: string
  sv_download_doc :: "string \<Rightarrow> error + config"
  sv_export_doc :: "string \<Rightarrow> error + export_config"
  sv_storage_doc :: "string \<Rightarrow> error + storage_config"

definition service_env :: "service_lib \<Rightarrow> env" where
  "service_env lib = sr_env (sv_surroundings lib)"

subsection \<open>Opening\<close>

definition agent_rejected :: "string \<Rightarrow> bool" where
  "agent_rejected p \<longleftrightarrow> blank p \<or> 256 < length p
     \<or> \<not> list_all (\<lambda>b. 32 \<le> (of_char b :: nat) \<and> of_char b \<le> (126 :: nat)) p"

definition bounds_rejected :: "service_config \<Rightarrow> bool" where
  "bounds_rejected c \<longleftrightarrow>
     svc_profiles c = [] \<or> svc_max_jobs c = 0 \<or> 64 < svc_max_jobs c
     \<or> is_some_and (\<lambda>n. \<not> (1 \<le> n \<and> n \<le> 256)) (svc_max_stages c)
     \<or> \<not> (1 \<le> svc_max_media c \<and> svc_max_media c \<le> 16)
     \<or> \<not> (1 \<le> svc_max_uploads c \<and> svc_max_uploads c \<le> 32)
     \<or> \<not> (1 \<le> svc_max_downloads c \<and> svc_max_downloads c \<le> 64)
     \<or> svc_max_queued c = 0 \<or> svc_timeout c = 0"

definition profile_name_ok :: "string \<Rightarrow> bool" where
  "profile_name_ok n \<longleftrightarrow> n \<noteq> [] \<and> length n \<le> 64
     \<and> list_all (\<lambda>b. is_ascii_alphanumeric b \<or> b = CHR ''_'' \<or> b = CHR ''-'') n"

text \<open>The secrets that no receiver of notices may get.\<close>

definition download_secrets :: "env \<Rightarrow> config \<Rightarrow> string list" where
  "download_secrets e c =
     List.map_filter e (cfg_internal_token_env c # opt_list (cfg_refresh_token_env c)
       @ map credential_env (map snd (cfg_cdn_roots c)) @ map username_env (map snd (cfg_cdn_roots c)))"

definition profile_download :: "service_lib \<Rightarrow> profile \<Rightarrow> error + string list" where
  "profile_download lib p =
     (case pf_download p of
        None \<Rightarrow> Inr []
      | Some path \<Rightarrow>
          and_then (sv_download_doc lib path) (\<lambda>c.
          and_then (fail_if (cfg_region c \<noteq> pf_region p \<or> cfg_logging c \<noteq> None) error.Config) (\<lambda>_.
          and_then (config_validate (sv_parsers lib) c) (\<lambda>_.
          Inr (download_secrets (service_env lib) c)))))"

definition profile_export :: "service_lib \<Rightarrow> profile \<Rightarrow> error + unit" where
  "profile_export lib p =
     (case pf_export p of
        None \<Rightarrow> Inr ()
      | Some path \<Rightarrow>
          and_then (sv_export_doc lib path) (\<lambda>x.
          and_then (export_validate (sv_export_lib lib) x) (\<lambda>_.
          and_then (fail_if (xc_logging x \<noteq> None) error.Config) (\<lambda>_.
          fail_if (pf_storage p \<noteq> None \<and> \<not> xc_retain_outputs x) error.Config))))"

definition profile_storage :: "service_lib \<Rightarrow> profile \<Rightarrow> error + unit" where
  "profile_storage lib p =
     (case pf_storage p of
        None \<Rightarrow> Inr ()
      | Some path \<Rightarrow>
          and_then (fail_if (pf_export p = None) error.Config) (\<lambda>_.
          and_then (sv_storage_doc lib path) (\<lambda>s. storage_validate (sv_storage_lib lib) s)))"

fun check_profiles :: "service_lib \<Rightarrow> (string \<times> profile) list \<Rightarrow> error + string list" where
  "check_profiles lib [] = Inr []"
| "check_profiles lib ((n, p) # ps) =
     and_then (fail_if (\<not> profile_name_ok n \<or> pf_region p = Cn) error.Config) (\<lambda>_.
     and_then (profile_download lib p) (\<lambda>secrets.
     and_then (profile_export lib p) (\<lambda>_.
     and_then (profile_storage lib p) (\<lambda>_.
     and_then (check_profiles lib ps) (\<lambda>rest. Inr (secrets @ rest))))))"

record service =
  srv_config :: service_config
  srv_token :: string
  srv_store :: store
  srv_targets :: "notice_target list"
  srv_states :: "delivery_state list"
  srv_accepting :: bool

text \<open>What opening meets outside: the access log and the output directory, the state directory, its lock and
  its ledger, the clock, and whether the ledger can be written.\<close>

record opening_world =
  ow_access_log :: bool
  ow_output :: bool
  ow_state :: bool
  ow_lock :: bool
  ow_ledger :: ledger_file
  ow_now :: int
  ow_persisted :: bool

definition service_limits :: "service_config \<Rightarrow> limits" where
  "service_limits c = \<lparr>max_running = svc_max_jobs c, max_queued = svc_max_queued c, retain_terminal = svc_retain c\<rparr>"

definition service_open :: "service_lib \<Rightarrow> opening_world \<Rightarrow> service_config \<Rightarrow> error + service" where
  "service_open lib w c =
     and_then (case svc_logging c of
         None \<Rightarrow> Inr ()
       | Some l \<Rightarrow> fail_if (\<not> is_ok (app_log_validate (parse_header_name (sv_parsers lib)) (parse_net (sv_parsers lib)) l)) error.Config) (\<lambda>_.
     and_then (fail_if (is_some_and (\<lambda>t. \<not> tls_validate t) (svc_tls c)) error.Config) (\<lambda>_.
     and_then (fail_if (is_some_and agent_rejected (svc_agent c)) error.Config) (\<lambda>_.
     and_then (fail_if (bounds_rejected c) error.Config) (\<lambda>_.
     and_then (check_profiles lib (svc_profiles c)) (\<lambda>secrets.
     and_then (ok_or error.Secret (service_env lib (svc_token_env c))) (\<lambda>token.
     and_then (fail_if (blank token \<or> CHR 0x0D \<in> set token \<or> CHR 0x0A \<in> set token) error.Config) (\<lambda>_.
     and_then (load_notices (sv_notice lib) (secrets @ [token]) (svc_notices c)) (\<lambda>ts.
     and_then (fail_if (list_ex (\<lambda>t. \<not> list_ex (\<lambda>p. pf_region p = nt_region t) (map snd (svc_profiles c))) ts) error.Config) (\<lambda>_.
     and_then (fail_if (\<not> ow_access_log w) error.Config) (\<lambda>_.
     and_then (fail_if (\<not> ow_output w) error.Io) (\<lambda>_.
     and_then (map_sum (\<lambda>_. error.Io) id
         (job_open (sv_job lib) (service_limits c) (ow_state w) (ow_lock w) (ow_ledger w) (ow_now w) (ow_persisted w))) (\<lambda>st.
     (case configure_completions (map ledger_target ts) st of
        (Inl _, _) \<Rightarrow> Inl error.Config
      | (Inr _, st') \<Rightarrow>
          Inr \<lparr>srv_config = c, srv_token = token, srv_store = st', srv_targets = ts,
               srv_states = replicate (length ts) delivery_start, srv_accepting = True\<rparr>)))))))))))))"

subsection \<open>Previews\<close>

record selection_plan =
  sp_entire :: bool
  sp_keys :: "string list"
  sp_includes :: nat
  sp_excludes :: nat
  sp_priorities :: nat

record download_plan =
  dl_environment :: string
  dl_platform :: platform
  dl_client_version :: string
  dl_protocol_version :: string
  dl_refresh :: bool
  dl_catalog_only :: bool
  dl_decryption :: bool
  dl_locale :: "string option"
  dl_selection :: "selection_plan option"
  dl_missing :: nat
  dl_invalid :: "string list"

record export_plan =
  ep_retain :: bool
  ep_cache :: bool
  ep_secrets :: bool

record dry_run_plan =
  dr_ready :: bool
  dr_issues :: "string list"
  dr_request :: request
  dr_steps :: "string list"
  dr_download :: "download_plan option"
  dr_export :: "export_plan option"
  dr_storage :: "string list option"

definition selection_plan_of :: "selection \<Rightarrow> selection_plan" where
  "selection_plan_of s =
     \<lparr>sp_entire = (sel_keys s = [] \<and> sel_include s = [] \<and> sel_exclude s = []), sp_keys = sel_keys s,
      sp_includes = length (sel_include s), sp_excludes = length (sel_exclude s), sp_priorities = length (sel_priority s)\<rparr>"

definition loaded_download :: "service_lib \<Rightarrow> profile \<Rightarrow> error + config \<times> check_report" where
  "loaded_download lib p =
     and_then (ok_or error.Config (pf_download p)) (\<lambda>path.
     and_then (sv_download_doc lib path) (\<lambda>c.
     and_then (fail_if (cfg_region c \<noteq> pf_region p \<or> cfg_logging c \<noteq> None) error.Config) (\<lambda>_.
     and_then (check (sv_parsers lib) (sv_surroundings lib) c) (\<lambda>r. Inr (c, r)))))"

definition download_plan_of :: "config \<Rightarrow> check_report \<Rightarrow> download_plan" where
  "download_plan_of c r =
     \<lparr>dl_environment = cfg_environment c, dl_platform = platform_of c, dl_client_version = cfg_client_version c,
      dl_protocol_version = protocol_version_of c, dl_refresh = refresh_enabled r, dl_catalog_only = (\<not> assets_enabled r),
      dl_decryption = decryption_enabled r, dl_locale = cfg_catalog_locale c,
      dl_selection = map_option (\<lambda>a. selection_plan_of (asset_config.selection a)) (cfg_assets c),
      dl_missing = card (missing_env r), dl_invalid = invalid_fields r\<rparr>"

definition plan_download :: "service_lib \<Rightarrow> profile \<Rightarrow> dry_run_plan \<Rightarrow> dry_run_plan" where
  "plan_download lib p d =
     (if req_operation (dr_request d) \<noteq> UpdateOp then d
      else
        (let d1 = d\<lparr>dr_steps := dr_steps d @ [''download'']\<rparr> in
         (case loaded_download lib p of
            Inl _ \<Rightarrow> d1\<lparr>dr_issues := dr_issues d1 @ [''download_config_invalid'']\<rparr>
          | Inr (c, r) \<Rightarrow>
              d1\<lparr>dr_issues := dr_issues d1 @ (if ready r then [] else [''download_secrets_not_ready'']),
                 dr_download := Some (download_plan_of c r)\<rparr>)))"

definition loaded_export :: "service_lib \<Rightarrow> profile \<Rightarrow> string \<Rightarrow> error + export_config" where
  "loaded_export lib p path =
     and_then (sv_export_doc lib path) (\<lambda>x.
     and_then (export_validate (sv_export_lib lib) x) (\<lambda>_.
     and_then (fail_if (xc_logging x \<noteq> None \<or> (pf_storage p \<noteq> None \<and> \<not> xc_retain_outputs x)) error.Config) (\<lambda>_. Inr x)))"

definition plan_export :: "service_lib \<Rightarrow> profile \<Rightarrow> string \<Rightarrow> dry_run_plan \<Rightarrow> dry_run_plan" where
  "plan_export lib p path d =
     (let d1 = d\<lparr>dr_steps := dr_steps d @ [''export'']\<rparr> in
      (case loaded_export lib p path of
         Inl _ \<Rightarrow> d1\<lparr>dr_issues := dr_issues d1 @ [''export_config_invalid'']\<rparr>
       | Inr x \<Rightarrow>
           d1\<lparr>dr_issues := dr_issues d1 @ (if secrets_ready (service_env lib) x then [] else [''export_secrets_not_ready'']),
              dr_steps := dr_steps d1 @ (if xc_retain_outputs x then [''verify_export''] else []),
              dr_export := Some \<lparr>ep_retain = xc_retain_outputs x, ep_cache = (xc_cache_directory x \<noteq> None),
                ep_secrets = secrets_ready (service_env lib) x\<rparr>\<rparr>))"

definition loaded_storage :: "service_lib \<Rightarrow> profile \<Rightarrow> string \<Rightarrow> error + target list" where
  "loaded_storage lib p path =
     and_then (sv_storage_doc lib path) (\<lambda>s.
     and_then (storage_validate (sv_storage_lib lib) s) (\<lambda>_.
     storage_plan (sv_storage_lib lib) (sv_join_url lib) (sv_uuid lib) (pf_region p) s))"

definition plan_storage :: "service_lib \<Rightarrow> profile \<Rightarrow> string \<Rightarrow> dry_run_plan \<Rightarrow> dry_run_plan" where
  "plan_storage lib p path d =
     (let d1 = d\<lparr>dr_steps := dr_steps d @ [''publish'']\<rparr> in
      (case loaded_storage lib p path of
         Inl _ \<Rightarrow> d1\<lparr>dr_issues := dr_issues d1 @ [''storage_config_invalid'']\<rparr>
       | Inr ts \<Rightarrow> d1\<lparr>dr_storage := Some (map tg_name ts)\<rparr>))"

definition dry_run_plan_of :: "service_lib \<Rightarrow> profile \<Rightarrow> request \<Rightarrow> dry_run_plan" where
  "dry_run_plan_of lib p r =
     (let d0 = \<lparr>dr_ready = False, dr_issues = [], dr_request = r, dr_steps = [], dr_download = None, dr_export = None,
                dr_storage = None\<rparr>;
          d1 = plan_download lib p d0;
          d2 = d1\<lparr>dr_steps := dr_steps d1 @ [''verify'']\<rparr>;
          d3 = (if req_operation r = VerifyOp then d2
                else (case pf_export p of
                    None \<Rightarrow> d2
                  | Some path \<Rightarrow>
                      (let d = plan_export lib p path d2 in
                       case pf_storage p of None \<Rightarrow> d | Some path' \<Rightarrow> plan_storage lib p path' d))) in
      d3\<lparr>dr_ready := (dr_issues d3 = [])\<rparr>)"

subsection \<open>Requests\<close>

record target_status =
  ts_name :: string
  ts_identity :: string
  ts_region :: region
  ts_pending :: nat
  ts_delivery :: delivery_state

record notice_report =
  nr_events :: nat
  nr_unconfigured :: nat
  nr_targets :: "target_status list"

datatype reply_body =
    NoBody | ErrorText string | JobBody job | JobList "job list" | PlanBody dry_run_plan | NoticeBody notice_report

record reply =
  rp_code :: nat
  rp_body :: reply_body

record submission =
  su_request :: request
  su_dry_run :: bool

text \<open>The end of a preview: the plan, a panic of its thread, a closing service or the deadline.\<close>

datatype planning = Planned | PlanPanicked | PlanClosing | PlanDeadline

datatype endpoint =
    Health | ListJobs | SubmitJob | Detail string | CancelJob string | RetryJob string | Notices

text \<open>A request with its headers (\<open>None\<close> for a value that is not text), and what serving it meets: the clock,
  a fresh id, whether the ledger can be written and the reply be printed.\<close>

record api_request =
  rq_endpoint :: endpoint
  rq_headers :: "(string \<times> string option) list"
  rq_body :: "byte list"

record serving_world =
  vw_submission :: "byte list \<Rightarrow> submission option"
  vw_now :: int
  vw_fresh :: string
  vw_persisted :: bool
  vw_printed :: bool
  vw_planning :: planning

definition BODY_LIMIT :: nat where "BODY_LIMIT = 8192"

definition bare :: "nat \<Rightarrow> reply" where
  "bare n = \<lparr>rp_code = n, rp_body = NoBody\<rparr>"

definition json_reply :: "serving_world \<Rightarrow> nat \<Rightarrow> reply_body \<Rightarrow> reply" where
  "json_reply w n b = (if vw_printed w then \<lparr>rp_code = n, rp_body = b\<rparr> else bare 500)"

fun job_error_code :: "job_error \<Rightarrow> nat" where
  "job_error_code Invalid = 400"
| "job_error_code Full = 429"
| "job_error_code NotFound = 404"
| "job_error_code Conflict = 409"
| "job_error_code _ = 503"

fun job_error_text :: "job_error \<Rightarrow> string" where
  "job_error_text Locked = ''job state is already owned by another service''"
| "job_error_text Invalid = ''invalid job request or service limits''"
| "job_error_text Full = ''job queue is full''"
| "job_error_text NotFound = ''job not found''"
| "job_error_text Conflict = ''job transition conflicts with its current state''"
| "job_error_text job_error.Storage = ''job state could not be read or persisted''"

definition failure_reply :: "serving_world \<Rightarrow> job_error \<Rightarrow> reply" where
  "failure_reply w e = json_reply w (job_error_code e) (ErrorText (job_error_text e))"

definition header_values :: "string \<Rightarrow> (string \<times> string option) list \<Rightarrow> string option list" where
  "header_values n hs = map snd (filter (\<lambda>h. fst h = n) hs)"

definition authorized :: "service \<Rightarrow> (string \<times> string option) list \<Rightarrow> bool" where
  "authorized sv hs \<longleftrightarrow>
     header_values ''authorization'' hs = [Some (''Bearer '' @ srv_token sv)]
     \<and> (case svc_agent (srv_config sv) of
          None \<Rightarrow> True
        | Some p \<Rightarrow> (case header_values ''user-agent'' hs of [Some v] \<Rightarrow> starts_with v p | _ \<Rightarrow> False))"

definition allowed_profile :: "service \<Rightarrow> request \<Rightarrow> profile option" where
  "allowed_profile sv r =
     (case map_of (svc_profiles (srv_config sv)) (req_profile r) of
        None \<Rightarrow> None
      | Some p \<Rightarrow> if pf_region p = req_region r \<and> supports_op p (req_operation r) then Some p else None)"

definition dry_run_reply :: "service_lib \<Rightarrow> serving_world \<Rightarrow> profile \<Rightarrow> request \<Rightarrow> reply" where
  "dry_run_reply lib w p r =
     (case vw_planning w of
        Planned \<Rightarrow>
          (let d = dry_run_plan_of lib p r in json_reply w (if dr_ready d then 200 else 422) (PlanBody d))
      | PlanPanicked \<Rightarrow> bare 500
      | PlanClosing \<Rightarrow> json_reply w 503 (ErrorText ''service is shutting down'')
      | PlanDeadline \<Rightarrow> json_reply w 503 (ErrorText ''dry-run planning deadline exceeded''))"

text \<open>The reply to an operation of the store, and the service with the new store.\<close>

definition stored_reply :: "serving_world \<Rightarrow> service \<Rightarrow> (job_error + job) \<times> store \<Rightarrow> reply \<times> service" where
  "stored_reply w sv = (\<lambda>(r, st).
     (case r of Inl e \<Rightarrow> failure_reply w e | Inr j \<Rightarrow> json_reply w 202 (JobBody j), sv\<lparr>srv_store := st\<rparr>))"

definition submit_job :: "service_lib \<Rightarrow> serving_world \<Rightarrow> service \<Rightarrow> api_request \<Rightarrow> reply \<times> service" where
  "submit_job lib w sv q =
     (if \<not> srv_accepting sv then (bare 503, sv)
      else
        (case vw_submission w (rq_body q) of
           None \<Rightarrow> (failure_reply w Invalid, sv)
         | Some s \<Rightarrow>
             (case allowed_profile sv (su_request s) of
                None \<Rightarrow> (failure_reply w Invalid, sv)
              | Some p \<Rightarrow>
                  (let keys = header_values ''idempotency-key'' (rq_headers q) in
                   if su_dry_run s then
                     if keys \<noteq> [] then (json_reply w 400 (ErrorText ''Idempotency-Key is not accepted with dry_run''), sv)
                     else (dry_run_reply lib w p (su_request s), sv)
                   else
                     (case keys of
                        [] \<Rightarrow> stored_reply w sv
                          (submit (sv_job lib) (vw_persisted w) (vw_now w) (vw_fresh w) (su_request s) (srv_store sv))
                      | [Some k] \<Rightarrow> stored_reply w sv
                          (submit_idempotent (sv_job lib) (vw_persisted w) (vw_now w) (vw_fresh w) (su_request s) k (srv_store sv))
                      | _ \<Rightarrow> (failure_reply w Invalid, sv))))))"

definition cancel_request :: "service_lib \<Rightarrow> serving_world \<Rightarrow> service \<Rightarrow> string \<Rightarrow> reply \<times> service" where
  "cancel_request lib w sv i =
     (if \<not> svc_allow_cancel (srv_config sv)
      then (json_reply w 409 (ErrorText ''job cancellation is disabled by configuration''), sv)
      else stored_reply w sv (cancel (sv_job lib) (vw_persisted w) (vw_now w) i (srv_store sv)))"

definition retry_request :: "service_lib \<Rightarrow> serving_world \<Rightarrow> service \<Rightarrow> string \<Rightarrow> reply \<times> service" where
  "retry_request lib w sv i =
     (if \<not> srv_accepting sv then (bare 503, sv)
      else if is_some_and (\<lambda>j. allowed_profile sv (job_request j) = None) (job_get i (srv_store sv))
      then (failure_reply w Invalid, sv)
      else stored_reply w sv (job_retry (sv_job lib) (vw_persisted w) (vw_now w) (vw_fresh w) i (srv_store sv)))"

definition notice_report_of :: "service \<Rightarrow> notice_report" where
  "notice_report_of sv =
     (let ds = completions (st_ledger (srv_store sv)) in
      \<lparr>nr_events = length ds,
       nr_unconfigured = length (filter (\<lambda>i. \<not> list_ex (\<lambda>t. nt_identity t = i) (srv_targets sv)) (concat (map pending_targets ds))),
       nr_targets = map (\<lambda>(t, s). \<lparr>ts_name = nt_name t, ts_identity = nt_identity t, ts_region = nt_region t,
           ts_pending = length (filter (\<lambda>d. nt_identity t \<in> set (pending_targets d)) ds), ts_delivery = s\<rparr>)
         (zip (srv_targets sv) (srv_states sv))\<rparr>)"

text \<open>\<open>router\<close>: all but the health check are behind \<open>authorize\<close>; a body has at most 8192 bytes.\<close>

definition serve_request :: "service_lib \<Rightarrow> serving_world \<Rightarrow> service \<Rightarrow> api_request \<Rightarrow> reply \<times> service" where
  "serve_request lib w sv q =
     (if rq_endpoint q = Health then (bare 200, sv)
      else if \<not> authorized sv (rq_headers q) then (bare 401, sv)
      else
        (case rq_endpoint q of
           ListJobs \<Rightarrow> (json_reply w 200 (JobList (jobs (st_ledger (srv_store sv)))), sv)
         | SubmitJob \<Rightarrow> if BODY_LIMIT < length (rq_body q) then (bare 413, sv) else submit_job lib w sv q
         | Detail i \<Rightarrow>
             (case job_get i (srv_store sv) of
                None \<Rightarrow> (failure_reply w NotFound, sv)
              | Some j \<Rightarrow> (json_reply w 200 (JobBody j), sv))
         | CancelJob i \<Rightarrow> cancel_request lib w sv i
         | RetryJob i \<Rightarrow> retry_request lib w sv i
         | Notices \<Rightarrow> (json_reply w 200 (NoticeBody (notice_report_of sv)), sv)
         | Health \<Rightarrow> (bare 200, sv)))"

end
