(* ===== verification/Service_Pipeline.thy ===== *)
theory Service_Pipeline
  imports Service_Api Export_Check
begin

text \<open>
  A job's run (\<open>execute\<close>, \<open>phase\<close> and \<open>pipeline\<close> of \<open>src/service.rs\<close>): download, verification, export,
  verification of the export and publication, each phase and every report of progress going through the job
  store. The stages themselves are modelled elsewhere; here each gives a result or is cut off by a
  cancellation, after the reports it made.
\<close>

subsection \<open>Work on a store\<close>

text \<open>The store, and the phases entered so far.\<close>

type_synonym 'a work = "store \<times> string list \<Rightarrow> (error + 'a) \<times> store \<times> string list"

definition and_do :: "'a work \<Rightarrow> ('a \<Rightarrow> 'b work) \<Rightarrow> 'b work" where
  "and_do m f s = (case m s of (Inl e, s') \<Rightarrow> (Inl e, s') | (Inr x, s') \<Rightarrow> f x s')"

definition pure_do :: "error + 'a \<Rightarrow> 'a work" where
  "pure_do r s = (r, s)"

text \<open>A report of progress: what, whether it could be saved, and when.\<close>

type_synonym tick = "progress \<times> bool \<times> int"

definition save_progress :: "job_lib \<Rightarrow> string \<Rightarrow> tick \<Rightarrow> unit work" where
  "save_progress lib i = (\<lambda>(q, persisted, now) (st, ps).
     (case report_progress lib persisted now i q st of
        (Inl _, st') \<Rightarrow> (Inl error.Io, st', ps)
      | (Inr _, st') \<Rightarrow> (Inr (), st', ps)))"

fun save_ticks :: "job_lib \<Rightarrow> string \<Rightarrow> tick list \<Rightarrow> unit work" where
  "save_ticks lib i [] = pure_do (Inr ())"
| "save_ticks lib i (t # ts) = and_do (save_progress lib i t) (\<lambda>_. save_ticks lib i ts)"

datatype job_phase = Download | VerifyInput | ExportPhase | VerifyExport | Publish

fun phase_text :: "job_phase \<Rightarrow> string" where
  "phase_text Download = ''download''"
| "phase_text VerifyInput = ''verify''"
| "phase_text ExportPhase = ''export''"
| "phase_text VerifyExport = ''verify_export''"
| "phase_text Publish = ''publish''"

text \<open>A stage that was left running when the job was cancelled, or its result.\<close>

datatype 'a stage_end = CutOff | Ended "error + 'a"

record publication_info =
  pi_id :: string
  pi_files :: nat
  pi_bytes :: u64
  pi_providers :: nat
  pi_removed :: bool

record job_world =
  jw_stopped :: bool
  jw_stopped_late :: bool
  jw_root :: "string option"
  jw_saved :: "job_phase \<Rightarrow> bool \<times> int"
  jw_ticks :: "job_phase \<Rightarrow> tick list"
  jw_client :: "config \<Rightarrow> error + unit"
  jw_fetch :: "config \<Rightarrow> string stage_end"
  jw_verify :: "string \<Rightarrow> verification stage_end"
  jw_written :: "string \<Rightarrow> bool"
  jw_export :: "export_config \<Rightarrow> error + export_summary"
  jw_check :: "string \<Rightarrow> region \<Rightarrow> nat \<Rightarrow> export_report stage_end"
  jw_publish :: "storage_config \<Rightarrow> string \<Rightarrow> region \<Rightarrow> outcome \<Rightarrow> error + publication_info"
  jw_last :: "bool \<times> int"

definition enter_phase :: "job_lib \<Rightarrow> job_world \<Rightarrow> string \<Rightarrow> job_phase \<Rightarrow> unit work" where
  "enter_phase lib w i p =
     and_do (\<lambda>(st, ps). (Inr (), st, ps @ [phase_text p])) (\<lambda>_.
     save_progress lib i (progress_default\<lparr>prog_phase := phase_text p\<rparr>, jw_saved w p))"

definition stage_result :: "'a stage_end \<Rightarrow> error + 'a" where
  "stage_result r = (case r of CutOff \<Rightarrow> Inl error.Cancelled | Ended x \<Rightarrow> x)"

subsection \<open>The stages\<close>

definition sub_path :: "string \<Rightarrow> string \<Rightarrow> string" where
  "sub_path d n = d @ ''/'' @ n"

definition download_stage :: "service_lib \<Rightarrow> job_world \<Rightarrow> profile \<Rightarrow> string \<Rightarrow> string \<Rightarrow> string work" where
  "download_stage lib w p d i =
     and_do (enter_phase (sv_job lib) w i Download) (\<lambda>_.
     and_do (pure_do (
       and_then (ok_or error.Config (pf_download p)) (\<lambda>path.
       and_then (sv_download_doc lib path) (\<lambda>c.
       and_then (fail_if (cfg_region c \<noteq> pf_region p \<or> cfg_logging c \<noteq> None) error.Config) (\<lambda>_.
       and_then (jw_client w (c\<lparr>cfg_output := sub_path d ''downloads''\<rparr>)) (\<lambda>_.
       Inr (c\<lparr>cfg_output := sub_path d ''downloads''\<rparr>))))))) (\<lambda>c.
     and_do (save_ticks (sv_job lib) i (jw_ticks w Download)) (\<lambda>_.
     pure_do (stage_result (jw_fetch w c)))))"

definition verify_stage :: "service_lib \<Rightarrow> job_world \<Rightarrow> profile \<Rightarrow> string \<Rightarrow> string \<Rightarrow> verification work" where
  "verify_stage lib w p i input =
     and_do (enter_phase (sv_job lib) w i VerifyInput) (\<lambda>_.
     pure_do (
       and_then (stage_result (jw_verify w input)) (\<lambda>v.
       and_then (fail_if (ver_region v \<noteq> pf_region p) error.Snapshot) (\<lambda>_.
       and_then (fail_if (\<not> jw_written w ''verification.json'') error.Io) (\<lambda>_. Inr v)))))"

definition partial_export :: "nat \<Rightarrow> export_summary \<Rightarrow> bool" where
  "partial_export max_failed s \<longleftrightarrow>
     0 < sm_failed s \<and> sm_failed s \<le> max_failed \<and> 0 < sm_succeeded s
     \<and> sm_succeeded s + sm_failed s < 2 ^ 64 \<and> sm_succeeded s + sm_failed s = sm_input_files s
     \<and> 0 < sm_output_files s"

definition export_accepted :: "nat \<Rightarrow> verification \<Rightarrow> export_summary \<Rightarrow> error + unit" where
  "export_accepted max_failed v s =
     and_then (fail_if (\<not> (partial_export max_failed s \<or> (sm_complete s \<and> sm_failed s = 0))) error.Verification) (\<lambda>_.
     fail_if (sm_catalog_sha256 s \<noteq> ver_catalog_sha256 v \<or> sm_region s \<noteq> ver_region v
       \<or> sm_platform s \<noteq> ver_platform v \<or> sm_full_catalog s \<noteq> Verify.full_catalog v) error.Verification)"

definition export_stage ::
  "service_lib \<Rightarrow> job_world \<Rightarrow> profile \<Rightarrow> string \<Rightarrow> string \<Rightarrow> string \<Rightarrow> verification \<Rightarrow> string
   \<Rightarrow> (export_summary \<times> storage_config option \<times> nat) work" where
  "export_stage lib w p d i input v path =
     and_do (enter_phase (sv_job lib) w i ExportPhase) (\<lambda>_.
     and_do (pure_do (
       and_then (sv_export_doc lib path) (\<lambda>x.
       and_then (fail_if (xc_logging x \<noteq> None \<or> (pf_storage p \<noteq> None \<and> \<not> xc_retain_outputs x)) error.Config) (\<lambda>_.
       and_then (case pf_storage p of None \<Rightarrow> Inr None | Some q \<Rightarrow> map_sum id Some (sv_storage_doc lib q)) (\<lambda>s.
       Inr (x\<lparr>xc_input := input, xc_output := sub_path d ''exports''\<rparr>, s)))))) (\<lambda>(x, s).
     and_do (save_ticks (sv_job lib) i (jw_ticks w ExportPhase)) (\<lambda>_.
     pure_do (
       let max_failed = (case s of None \<Rightarrow> 0 | Some c \<Rightarrow> storage_max_failed c) in
       and_then (jw_export w x) (\<lambda>sm.
       and_then (export_accepted max_failed v sm) (\<lambda>_. Inr (sm, s, max_failed)))))))"

definition export_outcome_of :: "export_summary \<Rightarrow> export_outcome" where
  "export_outcome_of s = \<lparr>exp_full = sm_full_export s, exp_retained = sm_retained s, exp_files = sm_output_files s,
     exp_bytes = of_nat (sm_output_bytes s), exp_failed = sm_failed s\<rparr>"

definition verify_export_stage ::
  "service_lib \<Rightarrow> job_world \<Rightarrow> profile \<Rightarrow> string \<Rightarrow> string \<Rightarrow> nat \<Rightarrow> export_report work" where
  "verify_export_stage lib w p d i max_failed =
     and_do (enter_phase (sv_job lib) w i VerifyExport) (\<lambda>_.
     and_do (save_ticks (sv_job lib) i (jw_ticks w VerifyExport)) (\<lambda>_.
     pure_do (
       and_then (stage_result (jw_check w (sub_path d ''exports'') (pf_region p) max_failed)) (\<lambda>r.
       and_then (fail_if (\<not> jw_written w ''export-verification.json'') error.Io) (\<lambda>_. Inr r)))))"

definition checked_times :: "nat \<Rightarrow> nat \<Rightarrow> error + u64" where
  "checked_times a b = (if a * b < 2 ^ 64 then Inr (of_nat (a * b)) else Inl error.Size)"

definition publish_progress :: "publication_info \<Rightarrow> error + progress" where
  "publish_progress x =
     and_then (checked_times (pi_files x) (pi_providers x)) (\<lambda>n.
     and_then (checked_times (unat (pi_bytes x)) (pi_providers x)) (\<lambda>b.
     Inr \<lparr>prog_phase = ''publish'', prog_completed = n, prog_failed = 0, prog_total = Some n, prog_bytes = b\<rparr>))"

definition publish_stage ::
  "service_lib \<Rightarrow> job_world \<Rightarrow> profile \<Rightarrow> string \<Rightarrow> string \<Rightarrow> storage_config \<Rightarrow> outcome \<Rightarrow> (outcome \<times> progress) work" where
  "publish_stage lib w p d i s out =
     and_do (enter_phase (sv_job lib) w i Publish) (\<lambda>_.
     and_do (save_ticks (sv_job lib) i (jw_ticks w Publish)) (\<lambda>_.
     pure_do (
       and_then (jw_publish w s (sub_path d ''exports'') (pf_region p) out) (\<lambda>x.
       and_then (fail_if (\<not> jw_written w ''publication.json'') error.Io) (\<lambda>_.
       and_then (publish_progress x) (\<lambda>q.
       Inr (out\<lparr>out_publication := Some (pi_id x),
                out_export := map_option (\<lambda>o1. if pi_removed x then o1\<lparr>exp_retained := False\<rparr> else o1) (out_export out)\<rparr>, q)))))))"

subsection \<open>The whole run\<close>

definition verify_progress :: "verification \<Rightarrow> progress" where
  "verify_progress v =
     (let n = of_nat (asset_files_verified v) + 1 in
      \<lparr>prog_phase = ''verify'', prog_completed = n, prog_failed = 0, prog_total = Some n,
       prog_bytes = of_nat (asset_bytes_verified v)\<rparr>)"

definition export_progress :: "export_summary \<Rightarrow> progress" where
  "export_progress s =
     \<lparr>prog_phase = ''export'', prog_completed = of_nat (sm_succeeded s), prog_failed = of_nat (sm_failed s),
      prog_total = Some (of_nat (sm_input_files s)), prog_bytes = of_nat (sm_output_bytes s)\<rparr>"

definition check_progress :: "export_report \<Rightarrow> progress" where
  "check_progress r =
     \<lparr>prog_phase = ''verify_export'', prog_completed = of_nat (er_files r), prog_failed = 0,
      prog_total = Some (of_nat (er_files r)), prog_bytes = of_nat (er_bytes r)\<rparr>"

definition export_stages ::
  "service_lib \<Rightarrow> job_world \<Rightarrow> profile \<Rightarrow> string \<Rightarrow> string \<Rightarrow> string \<Rightarrow> verification \<Rightarrow> string \<Rightarrow> (outcome \<times> progress) work" where
  "export_stages lib w p d i input v path =
     and_do (export_stage lib w p d i input v path) (\<lambda>(s, storage, max_failed).
     (let out = \<lparr>out_verification = v, out_export = Some (export_outcome_of s), out_publication = None\<rparr> in
      if \<not> sm_retained s then pure_do (Inr (out, export_progress s))
      else
        and_do (verify_export_stage lib w p d i max_failed) (\<lambda>r.
        (case storage of
           None \<Rightarrow> pure_do (Inr (out, check_progress r))
         | Some c \<Rightarrow> publish_stage lib w p d i c out))))"

definition pipeline_stages :: "service_lib \<Rightarrow> job_world \<Rightarrow> profile \<Rightarrow> string \<Rightarrow> job \<Rightarrow> (outcome \<times> progress) work" where
  "pipeline_stages lib w p d j =
     and_do (if req_operation (job_request j) = UpdateOp then download_stage lib w p d (job_id j)
             else pure_do (ok_or error.Config (pf_input p))) (\<lambda>input.
     and_do (verify_stage lib w p (job_id j) input) (\<lambda>v.
     (case (if req_operation (job_request j) = VerifyOp then None else pf_export p) of
        None \<Rightarrow> pure_do (Inr (\<lparr>out_verification = v, out_export = None, out_publication = None\<rparr>, verify_progress v))
      | Some path \<Rightarrow> export_stages lib w p d (job_id j) input v path)))"

definition pipeline :: "service_lib \<Rightarrow> job_world \<Rightarrow> service_config \<Rightarrow> job \<Rightarrow> outcome work" where
  "pipeline lib w c j =
     and_do (pure_do (
       and_then (fail_if (jw_stopped w) error.Cancelled) (\<lambda>_.
       and_then (ok_or error.Config (map_of (svc_profiles c) (req_profile (job_request j)))) (\<lambda>p.
       and_then (fail_if (pf_region p \<noteq> req_region (job_request j) \<or> \<not> supports_op p (req_operation (job_request j))) error.Config) (\<lambda>_.
       and_then (ok_or error.Io (jw_root w)) (\<lambda>d. Inr (p, d))))))) (\<lambda>(p, d).
     and_do (pipeline_stages lib w p d j) (\<lambda>(out, q).
     and_do (pure_do (fail_if (jw_stopped_late w) error.Cancelled)) (\<lambda>_.
     and_do (save_progress (sv_job lib) (job_id j) (q, jw_last w)) (\<lambda>_.
     pure_do (Inr out)))))"

text \<open>\<open>execute\<close> and the result the worker reports; a deadline stops the run and discards its result.\<close>

datatype job_end = RanTo | DeadlinePassed | Panicked

definition job_result :: "job_end \<Rightarrow> error + outcome \<Rightarrow> string option \<times> outcome option" where
  "job_result ending r =
     (case ending of
        DeadlinePassed \<Rightarrow> (Some ''job_timeout'', None)
      | Panicked \<Rightarrow> (Some ''worker_panicked'', None)
      | RanTo \<Rightarrow>
          (case r of
             Inr out \<Rightarrow> (None, Some out)
           | Inl error.JobTimeout \<Rightarrow> (Some ''job_timeout'', None)
           | Inl error.Cancelled \<Rightarrow> (Some ''cancelled'', None)
           | Inl _ \<Rightarrow> (Some ''pipeline_failed'', None)))"

subsection \<open>Successful runs\<close>

lemma and_do_Inr [result_simps]:
  "and_do m f s = (Inr y, s') \<longleftrightarrow> (\<exists>x s1. m s = (Inr x, s1) \<and> f x s1 = (Inr y, s'))"
  by (auto simp: and_do_def split: prod.splits sum.splits)

lemma pure_do_Inr [result_simps]: "pure_do r s = (Inr y, s') \<longleftrightarrow> r = Inr y \<and> s' = s"
  by (auto simp: pure_do_def)

lemma save_progress_phases: "save_progress lib i t s = (r, s') \<Longrightarrow> snd s' = snd s"
  by (cases t; cases s) (auto simp: save_progress_def split: prod.splits sum.splits)

lemma save_ticks_phases: "save_ticks lib i ts s = (r, s') \<Longrightarrow> snd s' = snd s"
proof (induction ts arbitrary: s)
  case (Cons t ts)
  then show ?case
    by (auto simp: and_do_def dest: save_progress_phases split: prod.splits sum.splits)
qed (simp add: pure_do_def)

lemma enter_phase_phases:
  assumes "enter_phase lib w i p s = (Inr u, s')"
  shows "snd s' = snd s @ [phase_text p]"
proof -
  obtain st ps where s: "s = (st, ps)" by fastforce
  from assms have "save_progress lib i (progress_default\<lparr>prog_phase := phase_text p\<rparr>, jw_saved w p) (st, ps @ [phase_text p]) = (Inr u, s')"
    by (auto simp: enter_phase_def result_simps s)
  from save_progress_phases[OF this] show ?thesis by (simp add: s)
qed

lemma download_stage_Inr:
  "download_stage lib w p d i s = (Inr x, s') \<Longrightarrow> snd s' = snd s @ [''download'']"
  by (auto simp: download_stage_def result_simps dest!: enter_phase_phases save_ticks_phases)

lemma verify_stage_Inr:
  "verify_stage lib w p i input s = (Inr v, s') \<Longrightarrow>
     snd s' = snd s @ [''verify''] \<and> jw_verify w input = Ended (Inr v) \<and> ver_region v = pf_region p"
  by (auto simp: verify_stage_def result_simps stage_result_def dest!: enter_phase_phases split: stage_end.splits)

lemma export_stage_Inr:
  assumes "export_stage lib w p d i input v path s = (Inr (sm, storage, max_failed), s')"
  shows "snd s' = snd s @ [''export'']
    \<and> (\<exists>x. sv_export_doc lib path = Inr x \<and> xc_logging x = None \<and> (pf_storage p = None \<or> xc_retain_outputs x)
         \<and> jw_export w (x\<lparr>xc_input := input, xc_output := sub_path d ''exports''\<rparr>) = Inr sm)
    \<and> (case pf_storage p of None \<Rightarrow> storage = None \<and> max_failed = 0
        | Some q \<Rightarrow> \<exists>c. sv_storage_doc lib q = Inr c \<and> storage = Some c \<and> max_failed = storage_max_failed c)
    \<and> export_accepted max_failed v sm = Inr ()"
proof -
  from assms obtain s1 s2 x where e: "enter_phase (sv_job lib) w i ExportPhase s = (Inr (), s1)"
    and x: "sv_export_doc lib path = Inr x" "xc_logging x = None" "pf_storage p = None \<or> xc_retain_outputs x"
    and st: "(case pf_storage p of None \<Rightarrow> Inr None | Some q \<Rightarrow> map_sum id Some (sv_storage_doc lib q)) = Inr storage"
    and t: "save_ticks (sv_job lib) i (jw_ticks w ExportPhase) s1 = (Inr (), s2)"
    and m: "max_failed = (case storage of None \<Rightarrow> 0 | Some c \<Rightarrow> storage_max_failed c)"
    and r: "jw_export w (x\<lparr>xc_input := input, xc_output := sub_path d ''exports''\<rparr>) = Inr sm" "export_accepted max_failed v sm = Inr ()" "s' = s2"
    by (auto simp: export_stage_def result_simps Let_def)
  have "snd s' = snd s @ [''export'']" using enter_phase_phases[OF e] save_ticks_phases[OF t] r(3) by simp
  moreover have "case pf_storage p of None \<Rightarrow> storage = None \<and> max_failed = 0
      | Some q \<Rightarrow> \<exists>c. sv_storage_doc lib q = Inr c \<and> storage = Some c \<and> max_failed = storage_max_failed c"
    using st m by (auto split: option.splits)
      (case_tac "sv_storage_doc lib x2", auto)+
  ultimately show ?thesis using x r by blast
qed

lemma verify_export_stage_Inr:
  "verify_export_stage lib w p d i m s = (Inr r, s') \<Longrightarrow>
     snd s' = snd s @ [''verify_export''] \<and> jw_check w (sub_path d ''exports'') (pf_region p) m = Ended (Inr r)"
  by (auto simp: verify_export_stage_def result_simps stage_result_def dest!: enter_phase_phases save_ticks_phases split: stage_end.splits)

lemma publish_stage_Inr:
  "publish_stage lib w p d i c out s = (Inr (out', q), s') \<Longrightarrow>
     snd s' = snd s @ [''publish''] \<and> out_verification out' = out_verification out \<and> out_publication out' \<noteq> None
     \<and> (out_export out' = None \<longleftrightarrow> out_export out = None)
     \<and> map_option exp_failed (out_export out') = map_option exp_failed (out_export out)"
  by (auto simp: publish_stage_def result_simps dest!: enter_phase_phases save_ticks_phases split: option.splits)
    (auto simp: option.map_comp comp_def intro!: option.map_cong)

lemma pipeline_Inr:
  assumes "pipeline lib w c j (st, []) = (Inr out, st', ps)"
  obtains p d q s1 where "map_of (svc_profiles c) (req_profile (job_request j)) = Some p" "pf_region p = region_of j"
    "supports_op p (req_operation (job_request j))" "jw_root w = Some d"
    "pipeline_stages lib w p d j (st, []) = (Inr (out, q), s1)" "ps = snd s1"
proof -
  from assms obtain p d q s1 where p: "map_of (svc_profiles c) (req_profile (job_request j)) = Some p" "pf_region p = region_of j"
    "supports_op p (req_operation (job_request j))" "jw_root w = Some d"
    and run: "pipeline_stages lib w p d j (st, []) = (Inr (out, q), s1)"
    and l: "save_progress (sv_job lib) (job_id j) (q, jw_last w) s1 = (Inr (), st', ps)"
    by (auto simp: pipeline_def result_simps region_of_def)
  from save_progress_phases[OF l] that[OF p run] show ?thesis by simp
qed

definition publishes :: "profile \<Rightarrow> operation \<Rightarrow> bool" where
  "publishes p op \<longleftrightarrow> op \<noteq> VerifyOp \<and> pf_export p \<noteq> None \<and> pf_storage p \<noteq> None"

text \<open>What a successful run went through.\<close>

definition export_done ::
  "service_lib \<Rightarrow> job_world \<Rightarrow> profile \<Rightarrow> string \<Rightarrow> verification \<Rightarrow> outcome \<Rightarrow> export_config \<Rightarrow> export_summary \<Rightarrow> nat \<Rightarrow> bool" where
  "export_done lib w p d v out x sm m \<longleftrightarrow>
     xc_logging x = None \<and> (pf_storage p = None \<or> xc_retain_outputs x)
     \<and> (case pf_storage p of None \<Rightarrow> m = 0 | Some k \<Rightarrow> \<exists>c. sv_storage_doc lib k = Inr c \<and> m = storage_max_failed c)
     \<and> export_accepted m v sm = Inr () \<and> map_option exp_failed (out_export out) = Some (sm_failed sm)
     \<and> (out_publication out \<noteq> None \<longleftrightarrow> pf_storage p \<noteq> None)
     \<and> (xc_retain_outputs x \<longrightarrow> (\<exists>r. jw_check w (sub_path d ''exports'') (pf_region p) m = Ended (Inr r)))"

lemma pipeline_stages_Inr:
  assumes "pipeline_stages lib w p d j (st, []) = (Inr (out, q), s1)"
    and retains: "\<And>x s. jw_export w x = Inr s \<Longrightarrow> sm_retained s = xc_retain_outputs x"
  obtains input v pre where "jw_verify w input = Ended (Inr v)" "ver_region v = pf_region p" "out_verification out = v"
    "pre = (if req_operation (job_request j) = UpdateOp then [''download''] else []) @ [''verify'']"
    "req_operation (job_request j) = VerifyOp \<or> pf_export p = None \<longrightarrow>
       snd s1 = pre \<and> out_export out = None \<and> out_publication out = None"
    "\<forall>path. req_operation (job_request j) \<noteq> VerifyOp \<longrightarrow> pf_export p = Some path \<longrightarrow>
       (\<exists>x sm m. sv_export_doc lib path = Inr x \<and> export_done lib w p d v out x sm m \<and> snd s1 = pre @ [''export''] @ (if xc_retain_outputs x then [''verify_export''] else [])
              @ (if pf_storage p = None then [] else [''publish'']))"
proof -
  from assms(1) obtain input v sa sb where
    dl: "(if req_operation (job_request j) = UpdateOp then download_stage lib w p d (job_id j)
             else pure_do (ok_or error.Config (pf_input p))) (st, []) = (Inr input, sa)"
    and v: "verify_stage lib w p (job_id j) input sa = (Inr v, sb)"
    and rest: "(case (if req_operation (job_request j) = VerifyOp then None else pf_export p) of
        None \<Rightarrow> pure_do (Inr (\<lparr>out_verification = v, out_export = None, out_publication = None\<rparr>, verify_progress v))
      | Some path \<Rightarrow> export_stages lib w p d (job_id j) input v path) sb = (Inr (out, q), s1)"
    by (auto simp: pipeline_stages_def result_simps)
  let ?pre = "(if req_operation (job_request j) = UpdateOp then [''download''] else []) @ [''verify'']"
  have sa: "snd sa = (if req_operation (job_request j) = UpdateOp then [''download''] else [])"
    using dl download_stage_Inr[of lib w p d "job_id j" "(st, [])" input sa] by (auto simp: pure_do_def split: if_splits)
  note v = verify_stage_Inr[OF v]
  have sb: "snd sb = ?pre" using v sa by simp
  show ?thesis
  proof (cases "if req_operation (job_request j) = VerifyOp then None else pf_export p")
    case None
    with rest have "s1 = sb" "out = \<lparr>out_verification = v, out_export = None, out_publication = None\<rparr>" by (auto simp: pure_do_def)
    then show ?thesis using v sb None by (intro that[of input v ?pre]) (auto split: if_splits)
  next
    case (Some path)
    then have path: "pf_export p = Some path" "req_operation (job_request j) \<noteq> VerifyOp" by (auto split: if_splits)
    from rest Some obtain sm storage m sc where e: "export_stage lib w p d (job_id j) input v path sb = (Inr (sm, storage, m), sc)"
      and r: "(let out = \<lparr>out_verification = v, out_export = Some (export_outcome_of sm), out_publication = None\<rparr> in
          if \<not> sm_retained sm then pure_do (Inr (out, export_progress sm))
          else and_do (verify_export_stage lib w p d (job_id j) m) (\<lambda>r.
            (case storage of None \<Rightarrow> pure_do (Inr (out, check_progress r)) | Some c \<Rightarrow> publish_stage lib w p d (job_id j) c out))) sc
        = (Inr (out, q), s1)"
      by (auto simp: export_stages_def result_simps)
    note e = export_stage_Inr[OF e]
    then obtain x where x: "sv_export_doc lib path = Inr x" "xc_logging x = None" "pf_storage p = None \<or> xc_retain_outputs x"
      and kept: "sm_retained sm = xc_retain_outputs x" using retains by fastforce
    have storage: "storage = None \<longleftrightarrow> pf_storage p = None"
      and m: "case pf_storage p of None \<Rightarrow> m = 0 | Some k \<Rightarrow> \<exists>c. sv_storage_doc lib k = Inr c \<and> m = storage_max_failed c"
      using e by (auto split: option.splits)
    have out: "out_verification out = v \<and> map_option exp_failed (out_export out) = Some (sm_failed sm)
        \<and> (out_publication out \<noteq> None \<longleftrightarrow> pf_storage p \<noteq> None)
        \<and> (xc_retain_outputs x \<longrightarrow> (\<exists>r. jw_check w (sub_path d ''exports'') (pf_region p) m = Ended (Inr r)))
        \<and> snd s1 = ?pre @ [''export''] @ (if xc_retain_outputs x then [''verify_export''] else [])
              @ (if pf_storage p = None then [] else [''publish''])"
    proof (cases "xc_retain_outputs x")
      case False
      with r kept x(3) e sb show ?thesis by (auto simp: pure_do_def export_outcome_of_def)
    next
      case True
      with r kept obtain rep sd where vr: "verify_export_stage lib w p d (job_id j) m sc = (Inr rep, sd)"
        and last: "(case storage of None \<Rightarrow> pure_do (Inr (\<lparr>out_verification = v, out_export = Some (export_outcome_of sm), out_publication = None\<rparr>, check_progress rep))
            | Some c \<Rightarrow> publish_stage lib w p d (job_id j) c \<lparr>out_verification = v, out_export = Some (export_outcome_of sm), out_publication = None\<rparr>) sd
          = (Inr (out, q), s1)"
        by (auto simp: result_simps Let_def)
      note vr = verify_export_stage_Inr[OF vr]
      show ?thesis
      proof (cases storage)
        case None
        with last storage vr e sb True show ?thesis by (auto simp: pure_do_def export_outcome_of_def)
      next
        case (Some c)
        with last have "publish_stage lib w p d (job_id j) c \<lparr>out_verification = v, out_export = Some (export_outcome_of sm), out_publication = None\<rparr> sd
          = (Inr (out, q), s1)" by simp
        from publish_stage_Inr[OF this] Some storage vr e sb True show ?thesis by (auto simp: export_outcome_of_def)
      qed
    qed
    show ?thesis
    proof (rule that[of input v ?pre])
      show "\<forall>path'. req_operation (job_request j) \<noteq> VerifyOp \<longrightarrow> pf_export p = Some path' \<longrightarrow>
          (\<exists>x sm m. sv_export_doc lib path' = Inr x \<and> export_done lib w p d v out x sm m \<and> snd s1 = ?pre @ [''export'']
            @ (if xc_retain_outputs x then [''verify_export''] else []) @ (if pf_storage p = None then [] else [''publish'']))"
        using path x m out e by (auto simp: export_done_def intro!: exI[of _ x] exI[of _ sm] exI[of _ m])
    qed (use v out path in auto)
  qed
qed

text \<open>The preview of a submission tells what the run will do: when the plan of a request is ready and the
  job then succeeds on the same documents, the phases it went through are exactly the plan's steps, in
  their order. (The exporter's summary states whether outputs were retained, as the settings say.)\<close>

theorem preview_steps_are_the_phases:
  assumes "pipeline lib w c j (st, []) = (Inr out, st', phases)"
    and "map_of (svc_profiles c) (req_profile (job_request j)) = Some p"
    and "dr_ready (dry_run_plan_of lib p (job_request j))"
    and "\<And>x s. jw_export w x = Inr s \<Longrightarrow> sm_retained s = xc_retain_outputs x"
  shows "phases = dr_steps (dry_run_plan_of lib p (job_request j))"
proof -
  from assms(1) obtain d q s1 where run: "pipeline_stages lib w p d j (st, []) = (Inr (out, q), s1)" and ph: "phases = snd s1"
    by (rule pipeline_Inr) (use assms(2) in auto)
  let ?op = "req_operation (job_request j)"
  obtain input v pre where "jw_verify w input = Ended (Inr v)"
    and pre: "pre = (if ?op = UpdateOp then [''download''] else []) @ [''verify'']"
    and short: "?op = VerifyOp \<or> pf_export p = None \<longrightarrow> snd s1 = pre \<and> out_export out = None \<and> out_publication out = None"
    and long: "\<forall>path. ?op \<noteq> VerifyOp \<longrightarrow> pf_export p = Some path \<longrightarrow> (\<exists>x sm m. sv_export_doc lib path = Inr x
       \<and> export_done lib w p d v out x sm m \<and> snd s1 = pre @ [''export''] @ (if xc_retain_outputs x then [''verify_export''] else [])
              @ (if pf_storage p = None then [] else [''publish'']))"
    by (rule pipeline_stages_Inr[OF run assms(4)])
  define d0 where "d0 = \<lparr>dr_ready = False, dr_issues = [], dr_request = job_request j, dr_steps = [], dr_download = None,
    dr_export = None, dr_storage = None\<rparr>"
  define d2 where "d2 = (plan_download lib p d0)\<lparr>dr_steps := dr_steps (plan_download lib p d0) @ [''verify'']\<rparr>"
  have d2: "dr_steps d2 = pre"
    by (auto simp: d2_def plan_download_def d0_def pre Let_def split: sum.splits)
  show ?thesis
  proof (cases "if ?op = VerifyOp then None else pf_export p")
    case None
    then have "dr_steps (dry_run_plan_of lib p (job_request j)) = dr_steps d2"
      by (auto simp: dry_run_plan_of_def Let_def d2_def d0_def split: if_splits)
    with short None ph d2 show ?thesis by (auto split: if_splits)
  next
    case (Some path)
    then have path: "?op \<noteq> VerifyOp" "pf_export p = Some path" by (auto split: if_splits)
    define d3 where "d3 = plan_export lib p path d2"
    define d4 where "d4 = (case pf_storage p of None \<Rightarrow> d3 | Some k \<Rightarrow> plan_storage lib p k d3)"
    have plan: "dry_run_plan_of lib p (job_request j) = d4\<lparr>dr_ready := (dr_issues d4 = [])\<rparr>"
      unfolding dry_run_plan_of_def Let_def d4_def d3_def d2_def d0_def using path by simp
    from long path obtain x where x: "sv_export_doc lib path = Inr x"
      and steps: "snd s1 = pre @ [''export''] @ (if xc_retain_outputs x then [''verify_export''] else [])
              @ (if pf_storage p = None then [] else [''publish''])" by blast
    have "dr_issues d3 = []"
      using assms(3) by (auto simp: plan d4_def plan_storage_def Let_def split: option.splits sum.splits)
    then have "loaded_export lib p path = Inr x"
      using x by (auto simp: d3_def plan_export_def loaded_export_def Let_def result_simps split: sum.splits)
    then have "dr_steps d3 = dr_steps d2 @ [''export''] @ (if xc_retain_outputs x then [''verify_export''] else [])"
      by (simp add: d3_def plan_export_def Let_def)
    moreover have "dr_steps d4 = dr_steps d3 @ (if pf_storage p = None then [] else [''publish''])"
      by (auto simp: d4_def plan_storage_def Let_def split: option.splits sum.splits)
    ultimately show ?thesis by (simp add: plan d2 ph steps)
  qed
qed

subsection \<open>The chain of a run\<close>

text \<open>Nothing but publishing enters the phase \<open>publish\<close>.\<close>

definition calm :: "'a work \<Rightarrow> bool" where
  "calm m \<longleftrightarrow> (\<forall>s r s'. m s = (r, s') \<longrightarrow> ''publish'' \<in> set (snd s') \<longrightarrow> ''publish'' \<in> set (snd s))"

lemma and_do_cases:
  "and_do m f s = (r, s') \<longleftrightarrow>
     (\<exists>e. m s = (Inl e, s') \<and> r = Inl e) \<or> (\<exists>x s1. m s = (Inr x, s1) \<and> f x s1 = (r, s'))"
  by (auto simp: and_do_def split: prod.splits sum.splits)

lemma calm_and_do [intro]: "calm m \<Longrightarrow> (\<And>x. calm (f x)) \<Longrightarrow> calm (and_do m f)"
  unfolding calm_def and_do_cases by blast

lemma calm_pure [intro]: "calm (pure_do r)"
  by (simp add: calm_def pure_do_def)

lemma calm_save [intro]: "calm (save_progress lib i t)" "calm (save_ticks lib i ts)"
  using save_progress_phases save_ticks_phases unfolding calm_def by metis+

lemma calm_enter [intro]: "p \<noteq> Publish \<Longrightarrow> calm (enter_phase lib w i p)"
  unfolding enter_phase_def
  by (rule calm_and_do; (rule calm_save(1))?) (cases p; simp add: calm_def)

lemma calm_stages [intro]:
  "calm (download_stage lib w p d i)" "calm (verify_stage lib w p i input)"
  "calm (export_stage lib w p d i input v path)" "calm (verify_export_stage lib w p d i m)"
  unfolding download_stage_def verify_stage_def export_stage_def verify_export_stage_def Let_def
  by (rule calm_and_do calm_pure calm_save calm_enter prod.split_sel | simp split: prod.split | blast)+

lemma calm_first:
  assumes "and_do m f s = (r, s')" and "calm m" and "''publish'' \<in> set (snd s')" and "''publish'' \<notin> set (snd s)"
  shows "\<exists>x s1. m s = (Inr x, s1) \<and> f x s1 = (r, s') \<and> ''publish'' \<notin> set (snd s1)"
  using assms unfolding calm_def and_do_cases by blast

lemma calm_last:
  assumes "and_do m f s = (r, s')" and "\<And>x. calm (f x)" and "''publish'' \<in> set (snd s')"
  shows "\<exists>q s1. m s = (q, s1) \<and> ''publish'' \<in> set (snd s1)"
  using assms unfolding calm_def and_do_cases by blast

lemma publish_entered_only_after_check:
  assumes "export_stages lib w p d i input v path s = (r, s')"
    and "''publish'' \<in> set (snd s')" and "''publish'' \<notin> set (snd s)"
  shows "\<exists>k c rep. pf_storage p = Some k \<and> sv_storage_doc lib k = Inr c
    \<and> jw_check w (sub_path d ''exports'') (pf_region p) (storage_max_failed c) = Ended (Inr rep)
    \<and> jw_written w ''export-verification.json''"
proof -
  let ?out = "\<lambda>sm. \<lparr>out_verification = v, out_export = Some (export_outcome_of sm), out_publication = None\<rparr>"
  let ?finish = "\<lambda>sm storage r. case storage of None \<Rightarrow> pure_do (Inr (?out sm, check_progress r))
      | Some c \<Rightarrow> publish_stage lib w p d i c (?out sm)"
  obtain sm storage m s1 where e: "export_stage lib w p d i input v path s = (Inr (sm, storage, m), s1)"
    and rest: "(if \<not> sm_retained sm then pure_do (Inr (?out sm, export_progress sm))
        else and_do (verify_export_stage lib w p d i m) (?finish sm storage)) s1 = (r, s')"
    and none: "''publish'' \<notin> set (snd s1)"
    using calm_first[OF assms(1)[unfolded export_stages_def] calm_stages(3) assms(2,3)]
    by (auto simp: Let_def)
  have "sm_retained sm" using rest none assms(2) by (auto simp: pure_do_def split: if_splits)
  with rest have "and_do (verify_export_stage lib w p d i m) (?finish sm storage) s1 = (r, s')" by simp
  from calm_first[OF this calm_stages(4) assms(2) none] obtain rep s2 where
    c: "verify_export_stage lib w p d i m s1 = (Inr rep, s2)" and none2: "''publish'' \<notin> set (snd s2)"
    and last: "?finish sm storage rep s2 = (r, s')" by blast
  have "storage \<noteq> None" using last none2 assms(2) by (cases storage) (auto simp: pure_do_def)
  with export_stage_Inr[OF e] obtain k cfg where k: "pf_storage p = Some k" "sv_storage_doc lib k = Inr cfg" "m = storage_max_failed cfg"
    by (auto split: option.splits)
  have "jw_check w (sub_path d ''exports'') (pf_region p) m = Ended (Inr rep) \<and> jw_written w ''export-verification.json''"
    using c by (auto simp: verify_export_stage_def result_simps stage_result_def split: stage_end.splits)
  with k show ?thesis by blast
qed

lemma published_run_was_checked:
  assumes run: "pipeline lib w c j (st, []) = (r, st', phases)" and pub: "''publish'' \<in> set phases"
  shows "\<exists>p d k s rep. map_of (svc_profiles c) (req_profile (job_request j)) = Some p \<and> jw_root w = Some d
    \<and> pf_storage p = Some k \<and> sv_storage_doc lib k = Inr s
    \<and> jw_check w (sub_path d ''exports'') (region_of j) (storage_max_failed s) = Ended (Inr rep)
    \<and> jw_written w ''export-verification.json''"
proof -
  have pub: "''publish'' \<in> set (snd (st', phases))" using pub by simp
  from calm_first[OF run[unfolded pipeline_def] calm_pure pub] obtain p d s1 where
    p: "map_of (svc_profiles c) (req_profile (job_request j)) = Some p" "pf_region p = region_of j" "jw_root w = Some d"
    and rest: "and_do (pipeline_stages lib w p d j) (\<lambda>(out, q).
        and_do (pure_do (fail_if (jw_stopped_late w) error.Cancelled)) (\<lambda>_.
        and_do (save_progress (sv_job lib) (job_id j) (q, jw_last w)) (\<lambda>_. pure_do (Inr out)))) s1 = (r, st', phases)"
    and none: "''publish'' \<notin> set (snd s1)"
    by (auto simp: pure_do_def result_simps region_of_def)
  have "calm (case x of (out, q) \<Rightarrow> and_do (pure_do (fail_if (jw_stopped_late w) error.Cancelled)) (\<lambda>_.
        and_do (save_progress (sv_job lib) (job_id j) (q, jw_last w)) (\<lambda>_. pure_do (Inr out))))" for x :: "outcome \<times> progress"
    by (cases x) (auto intro!: calm_and_do calm_pure calm_save)
  from calm_last[OF rest this pub] obtain q s2 where stages: "pipeline_stages lib w p d j s1 = (q, s2)"
    and pub2: "''publish'' \<in> set (snd s2)" by blast
  have "calm (if req_operation (job_request j) = UpdateOp then download_stage lib w p d (job_id j)
      else pure_do (ok_or error.Config (pf_input p)))" by auto
  from calm_first[OF stages[unfolded pipeline_stages_def] this pub2 none] obtain input s3 where
    v: "and_do (verify_stage lib w p (job_id j) input) (\<lambda>v.
        (case (if req_operation (job_request j) = VerifyOp then None else pf_export p) of
          None \<Rightarrow> pure_do (Inr (\<lparr>out_verification = v, out_export = None, out_publication = None\<rparr>, verify_progress v))
        | Some path \<Rightarrow> export_stages lib w p d (job_id j) input v path)) s3 = (q, s2)"
    and none3: "''publish'' \<notin> set (snd s3)" by blast
  from calm_first[OF v calm_stages(2) pub2 none3] obtain v s4 where
    last: "(case (if req_operation (job_request j) = VerifyOp then None else pf_export p) of
          None \<Rightarrow> pure_do (Inr (\<lparr>out_verification = v, out_export = None, out_publication = None\<rparr>, verify_progress v))
        | Some path \<Rightarrow> export_stages lib w p d (job_id j) input v path) s4 = (q, s2)"
    and none4: "''publish'' \<notin> set (snd s4)" by blast
  then obtain path where "export_stages lib w p d (job_id j) input v path s4 = (q, s2)"
    using pub2 by (cases "if req_operation (job_request j) = VerifyOp then None else pf_export p") (auto simp: pure_do_def)
  from publish_entered_only_after_check[OF this pub2 none4] p show ?thesis by metis
qed

text \<open>The input of a run: what an update downloads into the run's directory, or the profile's own input.\<close>

definition run_input :: "service_lib \<Rightarrow> job_world \<Rightarrow> profile \<Rightarrow> string \<Rightarrow> operation \<Rightarrow> string \<Rightarrow> bool" where
  "run_input lib w p d op input \<longleftrightarrow>
     (if op = UpdateOp
      then \<exists>path c. pf_download p = Some path \<and> sv_download_doc lib path = Inr c \<and> cfg_region c = pf_region p
        \<and> jw_fetch w (c\<lparr>cfg_output := sub_path d ''downloads''\<rparr>) = Ended (Inr input)
      else pf_input p = Some input)"

text \<open>The export \<open>sm\<close> of that input into the run's directory: of the verified catalog, with at most the \<open>m\<close>
  failures its storage accepts.\<close>

definition run_export ::
  "service_lib \<Rightarrow> job_world \<Rightarrow> profile \<Rightarrow> string \<Rightarrow> string \<Rightarrow> verification \<Rightarrow> export_summary \<Rightarrow> nat \<Rightarrow> bool" where
  "run_export lib w p d input v sm m \<longleftrightarrow>
     (\<exists>path x. pf_export p = Some path \<and> sv_export_doc lib path = Inr x \<and> (pf_storage p = None \<or> xc_retain_outputs x)
        \<and> jw_export w (x\<lparr>xc_input := input, xc_output := sub_path d ''exports''\<rparr>) = Inr sm)
     \<and> (case pf_storage p of None \<Rightarrow> m = 0 | Some k \<Rightarrow> \<exists>s. sv_storage_doc lib k = Inr s \<and> m = storage_max_failed s)
     \<and> sm_catalog_sha256 sm = ver_catalog_sha256 v \<and> sm_region sm = ver_region v \<and> sm_platform sm = ver_platform v
     \<and> sm_full_catalog sm = Verify.full_catalog v
     \<and> sm_failed sm \<le> m \<and> (sm_failed sm = 0 \<longrightarrow> sm_complete sm)"

lemma run_input_Inr:
  assumes "(if op = UpdateOp then download_stage lib w p d i else pure_do (ok_or error.Config (pf_input p))) s = (Inr input, s')"
  shows "run_input lib w p d op input \<and> snd s' = snd s @ (if op = UpdateOp then [''download''] else [])"
proof (cases "op = UpdateOp")
  case True
  with assms have dl: "download_stage lib w p d i s = (Inr input, s')" by simp
  then obtain path c s1 s2 where c: "pf_download p = Some path" "sv_download_doc lib path = Inr c" "cfg_region c = pf_region p"
    and f: "pure_do (stage_result (jw_fetch w (c\<lparr>cfg_output := sub_path d ''downloads''\<rparr>))) s1 = (Inr input, s2)"
    unfolding download_stage_def and_do_Inr pure_do_Inr by (auto simp: result_simps)
  from f have "jw_fetch w (c\<lparr>cfg_output := sub_path d ''downloads''\<rparr>) = Ended (Inr input)"
    by (auto simp: result_simps stage_result_def split: stage_end.splits)
  with c have "\<exists>path c. pf_download p = Some path \<and> sv_download_doc lib path = Inr c \<and> cfg_region c = pf_region p
      \<and> jw_fetch w (c\<lparr>cfg_output := sub_path d ''downloads''\<rparr>) = Ended (Inr input)" by blast
  with True download_stage_Inr[OF dl] show ?thesis by (simp add: run_input_def)
next
  case False
  with assms show ?thesis by (auto simp: run_input_def result_simps)
qed

lemma run_export_Inr:
  assumes "export_stage lib w p d i input v path s = (Inr (sm, storage, m), s')" and "pf_export p = Some path"
  shows "run_export lib w p d input v sm m"
    "case storage of None \<Rightarrow> pf_storage p = None | Some c \<Rightarrow> \<exists>k. pf_storage p = Some k \<and> sv_storage_doc lib k = Inr c"
    "snd s' = snd s @ [''export'']"
proof -
  note e = export_stage_Inr[OF assms(1)]
  have acc: "sm_catalog_sha256 sm = ver_catalog_sha256 v" "sm_region sm = ver_region v" "sm_platform sm = ver_platform v"
    "sm_full_catalog sm = Verify.full_catalog v" "sm_failed sm \<le> m" "sm_failed sm = 0 \<longrightarrow> sm_complete sm"
    using e by (auto simp: export_accepted_def partial_export_def result_simps)
  have store: "case pf_storage p of None \<Rightarrow> m = 0 | Some k \<Rightarrow> \<exists>s. sv_storage_doc lib k = Inr s \<and> m = storage_max_failed s"
    using e by (auto split: option.splits)
  show "run_export lib w p d input v sm m"
    unfolding run_export_def using e assms(2) acc store by blast
  show "case storage of None \<Rightarrow> pf_storage p = None | Some c \<Rightarrow> \<exists>k. pf_storage p = Some k \<and> sv_storage_doc lib k = Inr c"
    using e by (auto split: option.splits)
  show "snd s' = snd s @ [''export'']" using e by simp
qed

lemma publish_stage_result:
  assumes "publish_stage lib w p d i c out s = (Inr (out', q), s')"
  shows "\<exists>x. jw_publish w c (sub_path d ''exports'') (pf_region p) out = Inr x
    \<and> out' = out\<lparr>out_publication := Some (pi_id x),
        out_export := map_option (\<lambda>e. if pi_removed x then e\<lparr>exp_retained := False\<rparr> else e) (out_export out)\<rparr>"
  using assms by (auto simp: publish_stage_def result_simps)

text \<open>How a run that exported ends: unkept outputs are neither checked nor published; kept ones are checked where
  they were exported, and then published from there when the profile has a storage.\<close>

definition run_end ::
  "service_lib \<Rightarrow> job_world \<Rightarrow> profile \<Rightarrow> string \<Rightarrow> verification \<Rightarrow> export_summary \<Rightarrow> nat \<Rightarrow> outcome \<Rightarrow> string list \<Rightarrow> bool" where
  "run_end lib w p d v sm m out steps \<longleftrightarrow>
     (let plain = \<lparr>out_verification = v, out_export = Some (export_outcome_of sm), out_publication = None\<rparr> in
      if \<not> sm_retained sm then out = plain \<and> steps = []
      else (\<exists>rep. jw_check w (sub_path d ''exports'') (pf_region p) m = Ended (Inr rep))
        \<and> (case pf_storage p of
             None \<Rightarrow> out = plain \<and> steps = [''verify_export'']
           | Some k \<Rightarrow> (\<exists>s x. sv_storage_doc lib k = Inr s
               \<and> jw_publish w s (sub_path d ''exports'') (pf_region p) plain = Inr x
               \<and> out = plain\<lparr>out_publication := Some (pi_id x),
                   out_export := Some (if pi_removed x then (export_outcome_of sm)\<lparr>exp_retained := False\<rparr>
                     else export_outcome_of sm)\<rparr>
               \<and> steps = [''verify_export'', ''publish''])))"

lemma export_stages_chain:
  assumes "export_stages lib w p d i input v path s = (Inr (out, q), s')" and path: "pf_export p = Some path"
  shows "\<exists>sm m steps. run_export lib w p d input v sm m \<and> run_end lib w p d v sm m out steps
    \<and> snd s' = snd s @ [''export''] @ steps"
proof -
  let ?out = "\<lambda>sm. \<lparr>out_verification = v, out_export = Some (export_outcome_of sm), out_publication = None\<rparr>"
  from assms(1) obtain sm storage m s1 where e: "export_stage lib w p d i input v path s = (Inr (sm, storage, m), s1)"
    and rest: "(if \<not> sm_retained sm then pure_do (Inr (?out sm, export_progress sm))
        else and_do (verify_export_stage lib w p d i m) (\<lambda>r. case storage of None \<Rightarrow> pure_do (Inr (?out sm, check_progress r))
          | Some c \<Rightarrow> publish_stage lib w p d i c (?out sm))) s1 = (Inr (out, q), s')"
    by (auto simp: export_stages_def result_simps Let_def)
  note e = run_export_Inr[OF e path]
  show ?thesis
  proof (cases "sm_retained sm")
    case False
    with rest e show ?thesis
      by (intro exI[of _ sm] exI[of _ m] exI[of _ "[]"]) (auto simp: pure_do_def run_end_def)
  next
    case True
    with rest obtain rep s2 where c: "verify_export_stage lib w p d i m s1 = (Inr rep, s2)"
      and last: "(case storage of None \<Rightarrow> pure_do (Inr (?out sm, check_progress rep))
          | Some c \<Rightarrow> publish_stage lib w p d i c (?out sm)) s2 = (Inr (out, q), s')"
      by (auto simp: result_simps)
    note c = verify_export_stage_Inr[OF c]
    show ?thesis
    proof (cases storage)
      case None
      with last e c True show ?thesis
        by (intro exI[of _ sm] exI[of _ m] exI[of _ "[''verify_export'']"]) (auto simp: pure_do_def run_end_def)
    next
      case (Some cfg)
      with last have pub: "publish_stage lib w p d i cfg (?out sm) s2 = (Inr (out, q), s')" by simp
      from publish_stage_result[OF pub] obtain x where x: "jw_publish w cfg (sub_path d ''exports'') (pf_region p) (?out sm) = Inr x"
        "out = (?out sm)\<lparr>out_publication := Some (pi_id x), out_export := Some (if pi_removed x
            then (export_outcome_of sm)\<lparr>exp_retained := False\<rparr> else export_outcome_of sm)\<rparr>" by auto
      obtain k where k: "pf_storage p = Some k" "sv_storage_doc lib k = Inr cfg" using e(2) Some by auto
      have "run_end lib w p d v sm m out [''verify_export'', ''publish'']"
        unfolding run_end_def Let_def using True c x k by auto
      with e(1,3) c publish_stage_Inr[OF pub] show ?thesis
        by (intro exI[of _ sm] exI[of _ m] exI[of _ "[''verify_export'', ''publish'']"]) simp
    qed
  qed
qed

lemma pipeline_stages_chain:
  assumes "pipeline_stages lib w p d j (st, []) = (Inr (out, q), s1)"
  defines "op \<equiv> req_operation (job_request j)"
  shows "\<exists>input. run_input lib w p d op input \<and> jw_verify w input = Ended (Inr (out_verification out))
    \<and> ver_region (out_verification out) = pf_region p
    \<and> (if op = VerifyOp \<or> pf_export p = None
       then out_export out = None \<and> out_publication out = None
         \<and> snd s1 = (if op = UpdateOp then [''download''] else []) @ [''verify'']
       else \<exists>sm m steps. run_export lib w p d input (out_verification out) sm m
         \<and> run_end lib w p d (out_verification out) sm m out steps
         \<and> snd s1 = (if op = UpdateOp then [''download''] else []) @ [''verify'', ''export''] @ steps)"
proof -
  from assms obtain input v sa sb where
    dl: "(if op = UpdateOp then download_stage lib w p d (job_id j) else pure_do (ok_or error.Config (pf_input p))) (st, []) = (Inr input, sa)"
    and v: "verify_stage lib w p (job_id j) input sa = (Inr v, sb)"
    and rest: "(case (if op = VerifyOp then None else pf_export p) of
        None \<Rightarrow> pure_do (Inr (\<lparr>out_verification = v, out_export = None, out_publication = None\<rparr>, verify_progress v))
      | Some path \<Rightarrow> export_stages lib w p d (job_id j) input v path) sb = (Inr (out, q), s1)"
    by (auto simp: pipeline_stages_def result_simps)
  note i = run_input_Inr[OF dl] and v = verify_stage_Inr[OF v]
  show ?thesis
  proof (cases "op = VerifyOp \<or> pf_export p = None")
    case True
    with rest have "s1 = sb" "out = \<lparr>out_verification = v, out_export = None, out_publication = None\<rparr>"
      by (auto simp: pure_do_def split: if_splits)
    with True i v show ?thesis by (intro exI[of _ input]) auto
  next
    case False
    then obtain path where path: "pf_export p = Some path" and es: "export_stages lib w p d (job_id j) input v path sb = (Inr (out, q), s1)"
      using rest by auto
    from export_stages_chain[OF es path] obtain sm m steps where
      c: "run_export lib w p d input v sm m" "run_end lib w p d v sm m out steps" "snd s1 = snd sb @ [''export''] @ steps" by blast
    moreover have "out_verification out = v" using c(2) by (auto simp: run_end_def Let_def split: if_splits option.splits)
    ultimately show ?thesis using False i v by (intro exI[of _ input]) auto
  qed
qed


subsection \<open>An example run\<close>

text \<open>One profile, which exports raw bundles only, keeps them and publishes nothing.\<close>

definition demo_export :: export_config where
  "demo_export = \<lparr>xc_logging = None, xc_input = [], xc_paths = [], xc_selection = export_selection_default,
     xc_read_kinds = \<lparr>policy_default = Auto, policy_classes = []\<rparr>, xc_cri = cri_default,
     xc_raw_bundles = Some (raw_default\<lparr>raw_mode := Only\<rparr>), xc_image = [], xc_audio = [], xc_video = SourceOnly, xc_backend = Cli,
     xc_output = [], xc_retain_outputs = True, xc_cache_directory = None, xc_cache_revision = [], xc_cache_max_bytes = None,
     xc_cache_max_entries = None, xc_cri_key_env = [], xc_split_acb_xor_env = None, xc_concurrency = 4,
     xc_cpu = \<lparr>cpu_auto_tune = False, cpu_budget_auto = False, cpu_ratio_ok = True, cpu_throttle_ok = True,
       cpu_scaled = (\<lambda>n. n), cpu_reserved = 0\<rparr>, xc_cpus = 4, xc_stage_limits = stage_default, xc_in_flight = 0,
     xc_media_concurrency = 2, xc_media_timeout = 120, xc_media_retry = media_retry_default, xc_ffmpeg = [], xc_max_output = 1024\<rparr>"

definition demo_service_lib :: service_lib where
  "demo_service_lib = \<lparr>sv_job = demo_lib,
     sv_notice = \<lparr>nl_env = (\<lambda>_. None), nl_url = (\<lambda>_. None), nl_ip = (\<lambda>_. None), nl_identity = (\<lambda>_ _ _. None),
       nl_client = (\<lambda>_. True)\<rparr>,
     sv_parsers = example_parsers,
     sv_surroundings = \<lparr>sr_env = (\<lambda>n. if n = ''T'' then Some ''t'' else None), sr_url = example_url, sr_proxy_all = (\<lambda>_. True), sr_header_ok = (\<lambda>_. True),
       sr_crypto = example_crypto\<rparr>,
     sv_export_lib = \<lparr>el_header = Some, el_net = (\<lambda>_. None), el_regex = (\<lambda>_. None), el_classes = \<lparr>texture_2d_array = 187, audio_clip = 83, video_clip = 329, movie_texture = 152\<rparr>,
       el_runtime = None, el_env = (\<lambda>_. None)\<rparr>,
     sv_storage_lib = example_storage_lib, sv_join_url = (\<lambda>_ _. []), sv_uuid = ''u'',
     sv_download_doc = (\<lambda>_. Inl error.Config), sv_export_doc = (\<lambda>_. Inr demo_export), sv_storage_doc = (\<lambda>_. Inl error.Config)\<rparr>"

definition demo_profile :: profile where
  "demo_profile = \<lparr>pf_region = Jp, pf_download = None, pf_export = Some ''x.yaml'', pf_storage = None, pf_input = Some ''in''\<rparr>"

definition demo_service_config :: service_config where
  "demo_service_config = \<lparr>svc_allow_cancel = True, svc_notices = [], svc_logging = None, svc_tls = None, svc_token_env = ''T'',
     svc_agent = None, svc_max_jobs = 2, svc_max_media = 4, svc_max_stages = None, svc_max_uploads = 4, svc_max_downloads = 4,
     svc_in_flight = 0, svc_max_queued = 8, svc_retain = 1, svc_timeout = 3600, svc_profiles = [(''p'', demo_profile)]\<rparr>"

definition export_job :: job where
  "export_job = (demo_job ''1'' Jp)\<lparr>job_request := \<lparr>req_region = Jp, req_profile = ''p'', req_operation = ExportOp\<rparr>, job_status := Running\<rparr>"

definition demo_verification :: verification where
  "demo_verification = \<lparr>full_catalog = True, catalog_remote_files = 1, catalog_verified = True, ver_region = Jp,
     ver_platform = ''a'', ver_environment = ''e'', ver_resource_version = ''1'', ver_platform_hash = ''h'', ver_catalog_sha256 = ''c'',
     asset_files_verified = 1, asset_bytes_verified = 10, planned_remote_files = 1, ver_embedded_locations = 0, decrypted_bundles = 0\<rparr>"

definition demo_summary :: export_summary where
  "demo_summary = \<lparr>sm_full_catalog = True, sm_full_export = False, sm_selection = export_selection_default,
     sm_read_kinds = \<lparr>policy_default = Auto, policy_classes = []\<rparr>, sm_cri = cri_default, sm_raw_bundles = None, sm_image = [],
     sm_audio = [], sm_video = SourceOnly, sm_backend = Cli, sm_selected = 0, sm_skipped = 0, sm_schema = 4, sm_region = Jp,
     sm_platform = ''a'', sm_complete = True, sm_input_files = 1, sm_catalog_files = 1, sm_objects = 0, sm_catalog_sha256 = ''c'',
     sm_cache_hits = 0, sm_succeeded = 1, sm_failed = 0, sm_output_files = 1, sm_output_bytes = 10, sm_payloads = [], sm_retained = True\<rparr>"

definition demo_world :: job_world where
  "demo_world = \<lparr>jw_stopped = False, jw_stopped_late = False, jw_root = Some ''out'', jw_saved = (\<lambda>_. (True, 7)), jw_ticks = (\<lambda>_. []),
     jw_client = (\<lambda>_. Inr ()), jw_fetch = (\<lambda>_. CutOff), jw_verify = (\<lambda>_. Ended (Inr demo_verification)), jw_written = (\<lambda>_. True),
     jw_export = (\<lambda>x. Inr (demo_summary\<lparr>sm_retained := xc_retain_outputs x\<rparr>)),
     jw_check = (\<lambda>_ _ _. Ended (Inr \<lparr>er_region = Jp, er_resources = 1, er_files = 1, er_bytes = 10, er_full_catalog = True,
       er_full_export = False, er_summary_sha256 = ''s'', er_journal_sha256 = ''j'', er_failed = []\<rparr>)),
     jw_publish = (\<lambda>_ _ _ _. Inl error.Io), jw_last = (True, 8)\<rparr>"

lemmas demo_run_defs = demo_export_def demo_service_lib_def demo_profile_def demo_service_config_def export_job_def
  demo_verification_def demo_summary_def demo_world_def

lemma demo_preview:
  "dr_steps (dry_run_plan_of demo_service_lib demo_profile (job_request export_job)) = [''verify'', ''export'', ''verify_export'']"
  "dr_ready (dry_run_plan_of demo_service_lib demo_profile (job_request export_job))"
  by code_simp+

lemma demo_report:
  assumes "progress_ok q" "job_status k = Running" "job_id k = ''1''"
  shows "save_progress demo_lib ''1'' (q, True, t) (demo_store [k], ps)
     = (Inr (), demo_store [k\<lparr>job_progress := q, job_updated := t\<rparr>], ps)"
  using assms
  by (simp add: save_progress_def report_progress_def mutate_def set_progress_def job_commit_def demo_defs retain_def Let_def
      List.map_filter_simps)

lemma demo_progress_ok:
  "progress_ok (progress_default\<lparr>prog_phase := ''verify''\<rparr>)"
  "progress_ok (progress_default\<lparr>prog_phase := ''export''\<rparr>)"
  "progress_ok (progress_default\<lparr>prog_phase := ''verify_export''\<rparr>)"
  "progress_ok \<lparr>prog_phase = ''verify_export'', prog_completed = 1, prog_failed = 0, prog_total = Some 1, prog_bytes = 10\<rparr>"
  by (simp_all add: progress_ok_def progress_default_def is_ascii_alphanumeric_def is_ascii_lowercase_def is_ascii_uppercase_def
      is_ascii_digit_def less_eq_char_def)

lemma demo_pipeline:
  "\<exists>st'. pipeline demo_service_lib demo_world demo_service_config export_job (demo_store [export_job], [])
     = (Inr \<lparr>out_verification = demo_verification, out_export = Some (export_outcome_of demo_summary),
       out_publication = None\<rparr>, st', [''verify'', ''export'', ''verify_export''])"
  by (simp add: pipeline_def pipeline_stages_def and_do_def pure_do_def verify_stage_def export_stages_def export_stage_def
      verify_export_stage_def enter_phase_def demo_report demo_progress_ok stage_result_def demo_run_defs supports_op_def demo_job_def
      export_accepted_def partial_export_def check_progress_def export_outcome_of_def del: One_nat_def)

theorem preview_steps_are_the_phases_witness:
  "\<exists>out st'. pipeline demo_service_lib demo_world demo_service_config export_job (demo_store [export_job], [])
     = (Inr out, st', dr_steps (dry_run_plan_of demo_service_lib demo_profile (job_request export_job)))"
proof -
  obtain out st' ps where run: "pipeline demo_service_lib demo_world demo_service_config export_job (demo_store [export_job], [])
      = (Inr out, st', ps)" using demo_pipeline by blast
  have "ps = dr_steps (dry_run_plan_of demo_service_lib demo_profile (job_request export_job))"
    by (rule preview_steps_are_the_phases[OF run _ demo_preview(2)])
      (auto simp: demo_service_config_def export_job_def demo_world_def)
  with run show ?thesis by blast
qed


end
