(* ===== verification/Service_Requests.thy ===== *)
theory Service_Requests
  imports Service_Pipeline
begin

text \<open>
  What serving requests does to a service: whatever it is asked, a service changes only its job store, and
  only by the operations of the ledger that are open to clients (\<open>client_step\<close>), so the ledger's invariant
  holds over all requests.
\<close>

subsection \<open>What clients may do\<close>

text \<open>The steps of the ledger that are open to clients.\<close>

inductive client_step :: "job_lib \<Rightarrow> store \<Rightarrow> store \<Rightarrow> bool" for lib where
  client_submit: "\<lbrakk>fresh_id lib st i; submit lib p now i r st = (Inr j, st')\<rbrakk> \<Longrightarrow> client_step lib st st'"
| client_resubmit: "\<lbrakk>fresh_id lib st i; digest_ok lib k; submit_idempotent lib p now i r k st = (Inr j, st')\<rbrakk>
    \<Longrightarrow> client_step lib st st'"
| client_retry: "\<lbrakk>fresh_id lib st i; job_retry lib p now i old st = (Inr j, st')\<rbrakk> \<Longrightarrow> client_step lib st st'"
| client_cancel: "cancel lib p now i st = (Inr j, st') \<Longrightarrow> client_step lib st st'"

inductive_cases client_stepE: "client_step lib st st'"

lemma client_step_is_job_step: "client_step lib st st' \<Longrightarrow> job_step lib st st'"
  by (auto elim!: client_stepE intro: job_step.intros)

subsection \<open>New jobs\<close>

text \<open>Every job of the second store was there before or belongs to an allowed profile.\<close>

definition jobs_allowed :: "service \<Rightarrow> store \<Rightarrow> store \<Rightarrow> bool" where
  "jobs_allowed sv st st' \<longleftrightarrow>
     (\<forall>k \<in> set (jobs (st_ledger st')).
        job_id k \<in> set (map job_id (jobs (st_ledger st))) \<or> allowed_profile sv (job_request k) \<noteq> None)"

lemma enqueue_allowed:
  assumes "enqueue lib p now i r origin key st = (Inr j, st')" "allowed_profile sv r \<noteq> None"
  shows "jobs_allowed sv st st'"
proof -
  from assms(1) have c: "job_commit lib p st (st_ledger st\<lparr>jobs := jobs (st_ledger st) @ [j]\<rparr>) = (Inr (), st')"
    and j: "job_request j = r"
    by (auto simp: enqueue_def Let_def split: if_splits sum.splits prod.splits)
  show ?thesis using commit_jobs[OF c] j assms(2) by (fastforce simp: jobs_allowed_def)
qed

lemma mutate_allowed:
  assumes "mutate lib p now i f st = (Inr k, st')" "\<And>j j'. f j = Inr j' \<Longrightarrow> job_id j' = job_id j"
  shows "jobs_allowed sv st st'"
proof -
  from mutate_Inr[OF assms(1)] obtain pre j post j' where js: "jobs (st_ledger st) = pre @ j # post"
    and f: "f j = Inr j'" and k: "k = j'\<lparr>job_updated := now\<rparr>"
    and c: "job_commit lib p st (st_ledger st\<lparr>jobs := pre @ k # post\<rparr>) = (Inr (), st')" by blast
  have "job_id k = job_id j" using assms(2)[OF f] k by simp
  with commit_jobs[OF c] show ?thesis by (fastforce simp: jobs_allowed_def js)
qed

subsection \<open>One request\<close>

text \<open>The effect of a request on the store: none, or a step of the ledger that an authorised client asked for
  and that adds jobs of configured profiles only.\<close>

definition request_effect :: "service_lib \<Rightarrow> serving_world \<Rightarrow> service \<Rightarrow> api_request \<Rightarrow> reply \<Rightarrow> service \<Rightarrow> bool" where
  "request_effect lib w sv q rp sv' \<longleftrightarrow>
     sv' = sv \<or>
     (authorized sv (rq_headers q) \<and> sv' = sv\<lparr>srv_store := srv_store sv'\<rparr>
      \<and> client_step (sv_job lib) (srv_store sv) (srv_store sv') \<and> jobs_allowed sv (srv_store sv) (srv_store sv')
      \<and> rp_code rp = (if vw_printed w then 202 else 500))"

lemma same_store: "st' = srv_store sv \<Longrightarrow> sv\<lparr>srv_store := st'\<rparr> = sv"
  by simp

lemma stored_reply_effect:
  assumes "stored_reply w sv (r, st') = (rp, sv')" "authorized sv (rq_headers q)"
    and "\<And>e. r = Inl e \<Longrightarrow> st' = srv_store sv"
    and "\<And>j. r = Inr j \<Longrightarrow> client_step (sv_job lib) (srv_store sv) st'"
    and "\<And>j. r = Inr j \<Longrightarrow> jobs_allowed sv (srv_store sv) st'"
  shows "request_effect lib w sv q rp sv'"
proof (cases r)
  case (Inl e)
  with assms(1,3) show ?thesis by (auto simp: stored_reply_def request_effect_def)
next
  case (Inr j)
  with assms show ?thesis by (auto simp: stored_reply_def request_effect_def json_reply_def bare_def)
qed

lemma submitting_unchanged: "submit lib p now i r st = (Inl e, st') \<Longrightarrow> st' = st"
  using submitting.error_unchanged[of lib "(p, now, i, r)" st e st'] by simp

lemma resubmitting_unchanged: "submit_idempotent lib p now i r k st = (Inl e, st') \<Longrightarrow> st' = st"
  using resubmitting.error_unchanged[of lib "(p, now, i, r, k)" st e st'] by simp

lemma retrying_unchanged: "job_retry lib p now i old st = (Inl e, st') \<Longrightarrow> st' = st"
  using retrying.error_unchanged[of lib "(p, now, i, old)" st e st'] by simp

lemma cancelling_unchanged: "cancel lib p now i st = (Inl e, st') \<Longrightarrow> st' = st"
  using cancelling.error_unchanged[of lib "(p, now, i)" st e st'] by simp

lemma submit_idempotent_allowed:
  assumes "submit_idempotent lib p now i r k st = (Inr j, st')" "allowed_profile sv r \<noteq> None"
  shows "jobs_allowed sv st st'"
  using assms enqueue_allowed[OF _ assms(2)]
  by (auto simp: submit_idempotent_def jobs_allowed_def split: if_splits option.splits)

lemma submit_job_effect:
  assumes "submit_job lib w sv q = (rp, sv')" "authorized sv (rq_headers q)"
    and f: "fresh_id (sv_job lib) (srv_store sv) (vw_fresh w)" and d: "\<And>k. digest_ok (sv_job lib) k"
  shows "request_effect lib w sv q rp sv'"
proof -
  consider "sv' = sv"
    | s p where "vw_submission w (rq_body q) = Some s" "allowed_profile sv (su_request s) = Some p"
        "stored_reply w sv (submit (sv_job lib) (vw_persisted w) (vw_now w) (vw_fresh w) (su_request s) (srv_store sv)) = (rp, sv')"
    | s p k where "vw_submission w (rq_body q) = Some s" "allowed_profile sv (su_request s) = Some p"
        "stored_reply w sv (submit_idempotent (sv_job lib) (vw_persisted w) (vw_now w) (vw_fresh w) (su_request s) k (srv_store sv)) = (rp, sv')"
    using assms(1) by (auto simp: submit_job_def Let_def split: if_splits option.splits list.splits)
  then show ?thesis
  proof cases
    case 1
    then show ?thesis by (simp add: request_effect_def)
  next
    case (2 s p)
    obtain r st' where s: "submit (sv_job lib) (vw_persisted w) (vw_now w) (vw_fresh w) (su_request s) (srv_store sv) = (r, st')"
      by fastforce
    show ?thesis
      by (rule stored_reply_effect[OF 2(3)[unfolded s] assms(2)])
        (use s f 2(2) in \<open>auto intro: client_step.intros submitting_unchanged enqueue_allowed simp: submit_def\<close>)
  next
    case (3 s p k)
    obtain r st' where s: "submit_idempotent (sv_job lib) (vw_persisted w) (vw_now w) (vw_fresh w) (su_request s) k (srv_store sv) = (r, st')"
      by fastforce
    show ?thesis
      by (rule stored_reply_effect[OF 3(3)[unfolded s] assms(2)])
        (use s f d 3(2) in \<open>auto intro: client_resubmit resubmitting_unchanged submit_idempotent_allowed\<close>)
  qed
qed

lemma cancel_request_effect:
  assumes "cancel_request lib w sv i = (rp, sv')" "authorized sv (rq_headers q)"
  shows "request_effect lib w sv q rp sv'"
proof (cases "svc_allow_cancel (srv_config sv)")
  case True
  obtain r st' where s: "cancel (sv_job lib) (vw_persisted w) (vw_now w) i (srv_store sv) = (r, st')" by fastforce
  have "job_id j' = job_id j" if "cancel_job j = Inr j'" for j j'
    using cancel_job_moves[OF that] by (auto simp: job_moves_def)
  with assms True s show ?thesis
    by (intro stored_reply_effect[OF _ assms(2), of w r st' rp sv' lib])
      (auto simp: cancel_request_def intro: client_step.intros cancelling_unchanged
        intro!: mutate_allowed[of "sv_job lib" "vw_persisted w" "vw_now w" i cancel_job] simp: cancel_def)
qed (use assms in \<open>auto simp: cancel_request_def request_effect_def\<close>)

lemma retry_request_effect:
  assumes "retry_request lib w sv i = (rp, sv')" "authorized sv (rq_headers q)"
    and f: "fresh_id (sv_job lib) (srv_store sv) (vw_fresh w)"
  shows "request_effect lib w sv q rp sv'"
proof (cases "srv_accepting sv \<and> \<not> is_some_and (\<lambda>j. allowed_profile sv (job_request j) = None) (job_get i (srv_store sv))")
  case True
  obtain r st' where s: "job_retry (sv_job lib) (vw_persisted w) (vw_now w) (vw_fresh w) i (srv_store sv) = (r, st')" by fastforce
  have "jobs_allowed sv (srv_store sv) st'" if "r = Inr j" for j
    using s that True enqueue_allowed
    by (fastforce simp: job_retry_def split: option.splits if_splits)
  with assms True s show ?thesis
    by (intro stored_reply_effect[OF _ assms(2), of w r st' rp sv' lib])
      (auto simp: retry_request_def intro: client_step.intros retrying_unchanged)
qed (use assms in \<open>auto simp: retry_request_def request_effect_def split: if_splits\<close>)

text \<open>C33. Serving requests refines the ledger: whatever is asked, with whatever headers and body, the
  service changes nothing but its store, and the store either stays as it was or makes one step of the
  ledger that is open to clients, asked for by an authorised one, answered by 202 and adding jobs of
  configured profiles only. An unauthorised request changes nothing and is answered by 401, unless it asks for the service's health.\<close>

theorem requests_are_ledger_steps:
  assumes "serve_request lib w sv q = (rp, sv')"
    and "fresh_id (sv_job lib) (srv_store sv) (vw_fresh w)"
    and "\<And>k. digest_ok (sv_job lib) k"
  shows "request_effect lib w sv q rp sv'
    \<and> (authorized sv (rq_headers q) \<or> rq_endpoint q = Health \<or> (rp_code rp = 401 \<and> sv' = sv))"
proof (cases "rq_endpoint q = Health \<or> \<not> authorized sv (rq_headers q)")
  case True
  with assms(1) have "(rp, sv') = (if rq_endpoint q = Health then (bare 200, sv) else (bare 401, sv))"
    unfolding serve_request_def by presburger
  with True show ?thesis by (auto simp: request_effect_def bare_def split: if_splits)
next
  case False
  then have a: "authorized sv (rq_headers q)" by simp
  have "request_effect lib w sv q rp sv'"
  proof (cases "rq_endpoint q")
    case SubmitJob
    with False assms(1) have "sv' = sv \<or> submit_job lib w sv q = (rp, sv')" by (auto simp: serve_request_def split: if_splits)
    then show ?thesis using submit_job_effect[OF _ a assms(2,3)] by (auto simp: request_effect_def)
  next
    case (CancelJob i)
    with False assms(1) cancel_request_effect[OF _ a] show ?thesis by (simp add: serve_request_def)
  next
    case (RetryJob i)
    with False assms(1) retry_request_effect[OF _ a assms(2)] show ?thesis by (simp add: serve_request_def)
  qed (use False assms(1) in \<open>auto simp: serve_request_def request_effect_def split: option.splits\<close>)
  with a show ?thesis by simp
qed

subsection \<open>An example service\<close>

definition demo_opening :: opening_world where
  "demo_opening = \<lparr>ow_access_log = True, ow_output = True, ow_state = True, ow_lock = True, ow_ledger = Missing, ow_now = 0,
     ow_persisted = True\<rparr>"

definition demo_service :: service where
  "demo_service = \<lparr>srv_config = demo_service_config, srv_token = ''t'', srv_store = demo_store [], srv_targets = [],
     srv_states = [], srv_accepting = True\<rparr>"

definition queued_job :: job where
  "queued_job = export_job\<lparr>job_status := Queued\<rparr>"

definition demo_submission :: api_request where
  "demo_submission = \<lparr>rq_endpoint = SubmitJob, rq_headers = [(''authorization'', Some ''Bearer t'')], rq_body = []\<rparr>"

definition demo_serving :: serving_world where
  "demo_serving = \<lparr>vw_submission = (\<lambda>_. Some \<lparr>su_request = job_request export_job, su_dry_run = False\<rparr>), vw_now = 1,
     vw_fresh = ''1'', vw_persisted = True, vw_printed = True, vw_planning = Planned\<rparr>"

lemmas demo_service_defs = demo_opening_def demo_service_def queued_job_def demo_submission_def demo_serving_def

lemma demo_profiles: "check_profiles demo_service_lib (svc_profiles demo_service_config) = Inr []"
  by code_simp

lemma demo_opened: "service_open demo_service_lib demo_opening demo_service_config = Inr demo_service"
proof -
  have limits: "service_limits demo_service_config = demo_limits"
    by (simp add: service_limits_def demo_service_config_def demo_limits_def)
  have none: "configure_completions [] (demo_store []) = (Inr (), demo_store [])"
    by (simp add: configure_completions_def demo_defs reserved_def Let_def)
  have "\<not> bounds_rejected demo_service_config" by (simp add: bounds_rejected_def demo_service_config_def)
  moreover have "service_env demo_service_lib (svc_token_env demo_service_config) = Some ''t''" "sv_job demo_service_lib = demo_lib"
    by (simp_all add: service_env_def demo_service_lib_def demo_service_config_def)
  moreover have "load_notices n s (svc_notices demo_service_config) = Inr []" for n s
    by (simp add: load_notices_def demo_service_config_def)
  moreover have "\<not> blank ''t''" by code_simp
  moreover have "svc_logging demo_service_config = None" "svc_tls demo_service_config = None" "svc_agent demo_service_config = None"
    by (simp_all add: demo_service_config_def)
  ultimately show ?thesis
    by (simp add: service_open_def demo_profiles limits demo_open none demo_opening_def demo_service_def)
qed

lemma demo_queued:
  "submit demo_lib True 1 ''1'' (job_request export_job) (demo_store []) = (Inr queued_job, demo_store [queued_job])"
  by (simp add: demo_defs store_defs export_job_def queued_job_def List.map_filter_simps new_delivery_def Let_def)

lemma demo_served:
  "serve_request demo_service_lib demo_serving demo_service demo_submission
     = (\<lparr>rp_code = 202, rp_body = JobBody queued_job\<rparr>, demo_service\<lparr>srv_store := demo_store [queued_job]\<rparr>)"
proof -
  have a: "authorized demo_service (rq_headers demo_submission)"
    by (simp add: authorized_def header_values_def demo_service_defs demo_service_config_def)
  have p: "allowed_profile demo_service (job_request export_job) = Some demo_profile"
    by (simp add: allowed_profile_def demo_service_def demo_service_config_def export_job_def demo_profile_def supports_op_def)
  have l: "sv_job demo_service_lib = demo_lib" by (simp add: demo_service_lib_def)
  have "submit_job demo_service_lib demo_serving demo_service demo_submission
     = (\<lparr>rp_code = 202, rp_body = JobBody queued_job\<rparr>, demo_service\<lparr>srv_store := demo_store [queued_job]\<rparr>)"
    using p demo_queued
    by (simp add: submit_job_def l demo_serving_def demo_submission_def header_values_def stored_reply_def json_reply_def)
      (simp add: demo_service_def json_reply_def)
  with a show ?thesis by (simp add: serve_request_def BODY_LIMIT_def) (simp add: demo_submission_def)
qed

lemma demo_digest: "digest_ok demo_lib k"
  by (simp add: digest_ok_def demo_lib_def list_all_iff is_lower_hexdigit_def is_ascii_digit_def less_eq_char_def)

theorem requests_are_ledger_steps_witness:
  "client_step demo_lib (demo_store []) (demo_store [queued_job])"
proof -
  have "sv_job demo_service_lib = demo_lib" "srv_store demo_service = demo_store []" "vw_fresh demo_serving = ''1''"
    by (simp_all add: demo_service_lib_def demo_service_def demo_serving_def)
  then have "request_effect demo_service_lib demo_serving demo_service demo_submission
      \<lparr>rp_code = 202, rp_body = JobBody queued_job\<rparr> (demo_service\<lparr>srv_store := demo_store [queued_job]\<rparr>)"
    using requests_are_ledger_steps[OF demo_served] demo_fresh(1) demo_digest by simp
  then show ?thesis by (auto simp: request_effect_def demo_service_lib_def demo_service_def demo_defs)
qed

end
