(* ===== verification/Service_Workers.thy ===== *)
theory Service_Workers
  imports Service_Requests
begin

text \<open>
  The service's job workers (\<open>run_job_workers\<close> of \<open>src/service.rs\<close>) as a state machine: each round signals
  cancellations and starts every runnable job, a finished task hands its result to the ledger, and a shutdown
  stops new work and waits for what runs. Requests, progress and acknowledgements happen in between.
\<close>

subsection \<open>The workers\<close>

text \<open>The set of spawned tasks, by job; the control channel of each job with the last value sent.\<close>

record workers =
  wk_service :: service
  wk_tasks :: "string list"
  wk_controls :: "(string \<times> bool) list"
  wk_stopping :: bool
  wk_error :: bool

abbreviation wk_store :: "workers \<Rightarrow> store" where
  "wk_store w \<equiv> srv_store (wk_service w)"

definition stop_accepting :: "service \<Rightarrow> service" where
  "stop_accepting sv = sv\<lparr>srv_accepting := False\<rparr>"

definition workers_start :: "service \<Rightarrow> workers" where
  "workers_start sv = \<lparr>wk_service = sv, wk_tasks = [], wk_controls = [], wk_stopping = False, wk_error = False\<rparr>"

definition observe_shutdown :: "workers \<Rightarrow> workers" where
  "observe_shutdown w = w\<lparr>wk_stopping := True, wk_service := stop_accepting (wk_service w)\<rparr>"

definition signal_all :: "workers \<Rightarrow> workers" where
  "signal_all w = w\<lparr>wk_controls := map (\<lambda>(i, _). (i, True)) (wk_controls w)\<rparr>"

definition signal_cancelling :: "workers \<Rightarrow> workers" where
  "signal_cancelling w = w\<lparr>wk_controls := map (\<lambda>(i, sent).
     (i, sent \<or> is_some_and (\<lambda>j. job_status j = Cancelling) (job_get i (wk_store w)))) (wk_controls w)\<rparr>"

lemma start_first_fewer:
  "start_first now busy js = Some (k, ks) \<Longrightarrow> queued_count ks < queued_count js"
  by (drule start_first_Some) (auto simp: queued_count_def)

lemma retain_queued: "queued_count (retain n js) \<le> queued_count js"
proof -
  obtain P where "retain n js = filter P js" using retain_filter[of n js] by blast
  then have "filter (\<lambda>j. job_status j = Queued) (retain n js) = filter P (filter (\<lambda>j. job_status j = Queued) js)"
    by (simp add: conj_commute)
  then show ?thesis by (simp add: queued_count_def del: filter_filter)
qed

lemma claim_fewer:
  assumes "claim lib p now st = (Inr (Some k), st')"
  shows "queued_count (jobs (st_ledger st')) < queued_count (jobs (st_ledger st))"
proof -
  from claim_Some[OF assms] obtain pre j post where *: "jobs (st_ledger st) = pre @ j # post" "job_status j = Queued"
    "k = j\<lparr>job_status := Running, job_updated := now\<rparr>"
    "job_commit lib p st (st_ledger st\<lparr>jobs := pre @ k # post\<rparr>) = (Inr (), st')" by blast
  from job_commit_Inr[OF *(4)] have "jobs (st_ledger st') = retain (retain_terminal (st_limits st)) (pre @ k # post)" by auto
  with retain_queued[of "retain_terminal (st_limits st)" "pre @ k # post"] *(1-3) show ?thesis
    by (simp add: queued_count_def)
qed

text \<open>Claiming until nothing is runnable or the ledger fails: the jobs started, and whether it failed. The
  \<open>k\<close>-th claim happens at its own time and may find the disk failing.\<close>

function claim_all :: "job_lib \<Rightarrow> (nat \<Rightarrow> bool \<times> int) \<Rightarrow> nat \<Rightarrow> store \<Rightarrow> string list \<times> bool \<times> store" where
  "claim_all lib v k st =
     (case claim lib (fst (v k)) (snd (v k)) st of
        (Inl _, st') \<Rightarrow> ([], True, st')
      | (Inr None, st') \<Rightarrow> ([], False, st')
      | (Inr (Some j), st') \<Rightarrow> (case claim_all lib v (Suc k) st' of (ids, failed, st'') \<Rightarrow> (job_id j # ids, failed, st'')))"
  by pat_completeness auto
termination
  by (relation "measure (\<lambda>(lib, v, k, st). queued_count (jobs (st_ledger st)))") (auto dest: claim_fewer[OF sym])

declare claim_all.simps [simp del]

definition worker_round :: "job_lib \<Rightarrow> (nat \<Rightarrow> bool \<times> int) \<Rightarrow> bool \<Rightarrow> workers \<Rightarrow> workers" where
  "worker_round lib v shutdown w0 =
     (let w = (if shutdown then observe_shutdown w0 else w0) in
      if wk_stopping w then signal_all w
      else
        (let w1 = signal_cancelling w in
         (case claim_all lib v 0 (wk_store w1) of
            (started, failed, st) \<Rightarrow>
              (let w2 = w1\<lparr>wk_tasks := wk_tasks w1 @ started,
                           wk_controls := fold (\<lambda>i cs. AList.update i False cs) started (wk_controls w1),
                           wk_service := (wk_service w1)\<lparr>srv_store := st\<rparr>\<rparr> in
               if failed then w2\<lparr>wk_error := True, wk_stopping := True, wk_service := stop_accepting (wk_service w2)\<rparr>
               else w2))))"

definition worker_done :: "workers \<Rightarrow> bool" where
  "worker_done w \<longleftrightarrow> wk_stopping w \<and> wk_tasks w = []"

text \<open>A task that ended with its job's code and outcome, and one that was lost to an abort.\<close>

definition join_task :: "job_lib \<Rightarrow> bool \<Rightarrow> int \<Rightarrow> string \<Rightarrow> string option \<times> outcome option \<Rightarrow> workers \<Rightarrow> workers" where
  "join_task lib persisted now i = (\<lambda>(code, out) w.
     (let w1 = w\<lparr>wk_tasks := remove1 i (wk_tasks w), wk_controls := AList.delete i (wk_controls w)\<rparr> in
      (case finish_with_outcome lib persisted now i code out (wk_store w) of
         (Inl _, st) \<Rightarrow> w1\<lparr>wk_service := (wk_service w)\<lparr>srv_store := st\<rparr>, wk_error := True, wk_stopping := True\<rparr>
       | (Inr _, st) \<Rightarrow> w1\<lparr>wk_service := (wk_service w)\<lparr>srv_store := st\<rparr>\<rparr>)))"

definition join_lost :: "string \<Rightarrow> workers \<Rightarrow> workers" where
  "join_lost i w = w\<lparr>wk_tasks := remove1 i (wk_tasks w), wk_error := True, wk_stopping := True\<rparr>"

definition worker_result :: "workers \<Rightarrow> error + unit" where
  "worker_result w = (if wk_error w then Inl error.Io else Inr ())"

text \<open>What happens to the store meanwhile: requests, and the tasks' progress and acknowledgements.\<close>

inductive outside_step :: "job_lib \<Rightarrow> store \<Rightarrow> store \<Rightarrow> bool" for lib where
  outside_client: "client_step lib st st' \<Longrightarrow> outside_step lib st st'"
| outside_progress: "report_progress lib p now i q st = (Inr j, st') \<Longrightarrow> outside_step lib st st'"
| outside_acknowledge: "acknowledge_completion lib p i t st = (Inr u, st') \<Longrightarrow> outside_step lib st st'"

inductive worker_step :: "job_lib \<Rightarrow> workers \<Rightarrow> workers \<Rightarrow> bool" for lib where
  step_round: "worker_step lib w (worker_round lib v shutdown w)"
| step_shutdown: "worker_step lib w (observe_shutdown w)"
| step_joined: "i \<in> set (wk_tasks w) \<Longrightarrow> worker_step lib w (join_task lib p now i (job_result ending r) w)"
| step_lost: "i \<in> set (wk_tasks w) \<Longrightarrow> worker_step lib w (join_lost i w)"
| step_outside: "outside_step lib (wk_store w) st' \<Longrightarrow>
    worker_step lib w (w\<lparr>wk_service := (wk_service w)\<lparr>srv_store := st'\<rparr>\<rparr>)"

inductive worker_reachable :: "service_lib \<Rightarrow> workers \<Rightarrow> bool" for lib where
  workers_open: "\<lbrakk>service_open lib ow c = Inr sv; ow_ledger ow = Missing\<rbrakk> \<Longrightarrow> worker_reachable lib (workers_start sv)"
| workers_reopen: "\<lbrakk>service_open lib ow c = Inr sv; worker_reachable lib w0; ow_ledger ow = Parsed (st_saved (wk_store w0))\<rbrakk>
    \<Longrightarrow> worker_reachable lib (workers_start sv)"
| workers_go_on: "\<lbrakk>worker_reachable lib w; worker_step (sv_job lib) w w'\<rbrakk> \<Longrightarrow> worker_reachable lib w'"

inductive_cases worker_stepE: "worker_step lib w w'"

subsection \<open>What runs\<close>

definition running_ids :: "store \<Rightarrow> string list" where
  "running_ids st = map job_id (active_jobs (jobs (st_ledger st)))"

text \<open>A commit keeps all jobs that are not final.\<close>

lemma commit_active:
  assumes c: "job_commit lib p st l = (Inr u, st')" and d: "distinct (map job_id (jobs l))"
  shows "active_jobs (jobs (st_ledger st')) = active_jobs (jobs l)"
proof -
  obtain P where r: "retain (retain_terminal (st_limits st)) (jobs l) = filter P (jobs l)"
    and P: "\<forall>j\<in>set (jobs l). \<not> terminal (job_status j) \<longrightarrow> distinct (map job_id (jobs l)) \<longrightarrow> P j"
    using retain_filter by blast
  have "P j" if "j \<in> set (jobs l)" "occupies_slot (job_status j)" for j
  proof -
    from that(2) have "\<not> terminal (job_status j)" by (cases "job_status j") auto
    with P d that(1) show ?thesis by blast
  qed
  then have "active_jobs (filter P (jobs l)) = active_jobs (jobs l)"
    by (auto simp: active_jobs_def intro!: filter_cong)
  with job_commit_Inr[OF c] r show ?thesis by auto
qed

lemma store_distinct: "store_ok lib st \<Longrightarrow> distinct (map job_id (jobs (st_ledger st)))"
  by (simp add: store_ok_def jobs_wf_def)

lemma running_distinct: "store_ok lib st \<Longrightarrow> distinct (running_ids st)"
  using store_distinct distinct_map_filter unfolding running_ids_def active_jobs_def by blast

lemma enqueue_running:
  assumes "store_ok lib st" "fresh_id lib st i" and e: "enqueue lib p now i r origin key st = (Inr j, st')"
  shows "running_ids st' = running_ids st"
proof -
  from e have c: "job_commit lib p st (st_ledger st\<lparr>jobs := jobs (st_ledger st) @ [j]\<rparr>) = (Inr (), st')"
    and j: "job_id j = i" "job_status j = Queued"
    by (auto simp: enqueue_def Let_def split: if_splits sum.splits prod.splits)
  from assms(1,2) j(1) have "distinct (map job_id (jobs (st_ledger st) @ [j]))"
    using store_distinct by (auto simp: fresh_id_def)
  with commit_active[OF c] j(2) show ?thesis by (simp add: running_ids_def active_jobs_def)
qed

text \<open>Changing one job: it may stop running, other jobs are not touched.\<close>

lemma mutate_running:
  assumes ok: "store_ok lib st" and m: "mutate lib p now i f st = (Inr k, st')"
    and f: "\<And>j j'. f j = Inr j' \<Longrightarrow> job_id j' = job_id j"
  obtains j j' where "f j = Inr j'" "job_id j = i" "j \<in> set (jobs (st_ledger st))"
    "i \<in> set (running_ids st) \<longleftrightarrow> occupies_slot (job_status j)"
    "set (running_ids st') = (if occupies_slot (job_status j') then insert i (set (running_ids st)) else set (running_ids st) - {i})"
proof -
  from mutate_Inr[OF m] obtain pre j post j' where js: "jobs (st_ledger st) = pre @ j # post" and j: "job_id j = i" "f j = Inr j'"
    and k: "k = j'\<lparr>job_updated := now\<rparr>"
    and c: "job_commit lib p st (st_ledger st\<lparr>jobs := pre @ k # post\<rparr>) = (Inr (), st')" by blast
  have i: "job_id k = i" "job_status k = job_status j'" using f[OF j(2)] j(1) k by simp_all
  have d: "distinct (map job_id (pre @ j # post))" using store_distinct[OF ok] js by simp
  then have out: "i \<notin> job_id ` set pre \<union> job_id ` set post" using j(1) by auto
  from d i(1) j(1) have "distinct (map job_id (pre @ k # post))" by simp
  with commit_active[OF c] have a: "active_jobs (jobs (st_ledger st')) = active_jobs (pre @ k # post)" by simp
  show ?thesis
  proof (rule that[of j j'])
    show "set (running_ids st') = (if occupies_slot (job_status j') then insert i (set (running_ids st)) else set (running_ids st) - {i})"
      using a js i out j(1) by (auto simp: running_ids_def active_jobs_def)
    show "i \<in> set (running_ids st) \<longleftrightarrow> occupies_slot (job_status j)"
      using js j(1) out by (auto simp: running_ids_def active_jobs_def)
  qed (use j js in auto)
qed

lemma claim_running:
  assumes ok: "store_ok lib st" and c: "claim lib p now st = (Inr (Some k), st')"
  shows "job_id k \<notin> set (running_ids st) \<and> set (running_ids st') = insert (job_id k) (set (running_ids st))"
proof -
  from claim_Some[OF c] obtain pre j post where js: "jobs (st_ledger st) = pre @ j # post" "job_status j = Queued"
    "k = j\<lparr>job_status := Running, job_updated := now\<rparr>"
    and c: "job_commit lib p st (st_ledger st\<lparr>jobs := pre @ k # post\<rparr>) = (Inr (), st')" by blast
  have d: "distinct (map job_id (pre @ j # post))" using store_distinct[OF ok] js(1) by simp
  with js(3) have "distinct (map job_id (pre @ k # post))" by simp
  with commit_active[OF c] have "active_jobs (jobs (st_ledger st')) = active_jobs (pre @ k # post)" by simp
  with js d show ?thesis by (auto simp: running_ids_def active_jobs_def)
qed

lemma acknowledge_running:
  assumes "store_ok lib st" "acknowledge_completion lib p i t st = (Inr u, st')"
  shows "running_ids st' = running_ids st"
  using assms(2) commit_active[of lib p st] store_distinct[OF assms(1)]
  by (fastforce simp: acknowledge_completion_def running_ids_def split: if_splits sum.splits)

lemma cancel_job_running: "cancel_job j = Inr j' \<Longrightarrow> job_id j' = job_id j \<and> (occupies_slot (job_status j') \<longleftrightarrow> occupies_slot (job_status j))"
  by (auto simp: cancel_job_def split: status.splits)

lemma set_progress_running: "set_progress q j = Inr j' \<Longrightarrow> job_id j' = job_id j \<and> occupies_slot (job_status j) \<and> occupies_slot (job_status j')"
  by (auto simp: set_progress_def split: if_splits)

lemma outside_is_job_step: "outside_step lib st st' \<Longrightarrow> job_step lib st st'"
  by (cases rule: outside_step.cases) (auto intro: job_step.intros client_step_is_job_step)

lemma outside_running:
  assumes "outside_step lib st st'" "store_ok lib st"
  shows "set (running_ids st') = set (running_ids st)"
  using assms(1)
proof cases
  case outside_client
  then show ?thesis
  proof cases
    case (client_submit i p now r j)
    then show ?thesis using enqueue_running[OF assms(2)] by (simp add: submit_def)
  next
    case (client_resubmit i k p now r j)
    then show ?thesis using enqueue_running[OF assms(2)]
      by (auto simp: submit_idempotent_def split: if_splits option.splits)
  next
    case (client_retry i p now old j)
    then show ?thesis using enqueue_running[OF assms(2)]
      by (auto simp: job_retry_def split: if_splits option.splits)
  next
    case (client_cancel p now i j)
    then have m: "mutate lib p now i cancel_job st = (Inr j, st')" by (simp add: cancel_def)
    show ?thesis by (rule mutate_running[OF assms(2) m]) (auto dest: cancel_job_running split: if_splits)
  qed
next
  case (outside_progress p now i q j)
  then have m: "mutate lib p now i (set_progress q) st = (Inr j, st')" by (auto simp: report_progress_def split: if_splits)
  show ?thesis by (rule mutate_running[OF assms(2) m]) (auto dest: set_progress_running split: if_splits)
next
  case (outside_acknowledge p i t u)
  then show ?thesis using acknowledge_running[OF assms(2)] by simp
qed

lemma finish_running:
  assumes ok: "store_ok lib st" and f: "finish_with_outcome lib p now i fl out st = (Inr k, st')"
  shows "set (running_ids st') = set (running_ids st) - {i}"
proof -
  from f have m: "mutate lib p now i (finish_job fl out) st = (Inr k, st')"
    by (auto simp: finish_with_outcome_def split: if_splits)
  have *: "job_id j' = job_id j \<and> \<not> occupies_slot (job_status j')" if "finish_job fl out j = Inr j'" for j j'
    using that by (auto simp: finish_job_def finished_status_def result_simps split: status.splits if_splits)
  show ?thesis by (rule mutate_running[OF ok m]) (use * in \<open>auto split: if_splits\<close>)
qed

subsection \<open>The invariant\<close>

lemma claiming_unchanged: "claim lib p now st = (Inl e, st') \<Longrightarrow> st' = st"
  using claiming.error_unchanged[of lib "(p, now)" st e st'] by simp

lemma finishing_unchanged: "finish_with_outcome lib p now i fl out st = (Inl e, st') \<Longrightarrow> st' = st"
  using finishing.error_unchanged[of lib "(p, now, i, fl, out)" st e st'] by simp

lemma claim_all_runs:
  assumes "claim_all lib v k st = (ids, failed, st')" "job_reachable lib st"
  shows "job_reachable lib st' \<and> distinct ids \<and> set ids \<inter> set (running_ids st) = {}
    \<and> set (running_ids st') = set ids \<union> set (running_ids st)
    \<and> (\<not> failed \<longrightarrow> (\<exists>p now. claim lib p now st' = (Inr None, st')))"
  using assms
proof (induction lib v k st arbitrary: ids failed st' rule: claim_all.induct)
  case (1 lib v k st)
  obtain r st1 where c: "claim lib (fst (v k)) (snd (v k)) st = (r, st1)" by fastforce
  show ?case
  proof (cases r)
    case (Inl e)
    have "st1 = st" using claiming_unchanged c Inl by blast
    with 1(2,3) c Inl show ?thesis by (auto simp: claim_all.simps)
  next
    case (Inr x)
    show ?thesis
    proof (cases x)
      case None
      with c Inr have "st1 = st" using claim_None by blast
      with 1(2,3) c Inr None show ?thesis by (auto simp: claim_all.simps)
    next
      case (Some j)
      then have c: "claim lib (fst (v k)) (snd (v k)) st = (Inr (Some j), st1)" using c Inr by simp
      obtain js f st2 where rest: "claim_all lib v (Suc k) st1 = (js, f, st2)" by (metis prod_cases3)
      have new: "job_id j \<notin> set (running_ids st)" "set (running_ids st1) = insert (job_id j) (set (running_ids st))"
        using claim_running[OF reachable_ok[OF 1(3)] c] by auto
      have "job_reachable lib st1" by (rule reach_step[OF 1(3) step_claim[OF c]])
      from 1(1)[OF c[symmetric] refl refl rest this] new 1(2) c rest show ?thesis by (auto simp: claim_all.simps)
    qed
  qed
qed

text \<open>While no error occurred the tasks are exactly the running jobs of the ledger.\<close>

definition workers_ok :: "job_lib \<Rightarrow> workers \<Rightarrow> bool" where
  "workers_ok lib w \<longleftrightarrow>
     job_reachable lib (wk_store w) \<and> distinct (wk_tasks w) \<and> set (wk_tasks w) \<subseteq> set (running_ids (wk_store w))
     \<and> (\<not> wk_error w \<longrightarrow> set (wk_tasks w) = set (running_ids (wk_store w)))
     \<and> set (wk_tasks w) \<subseteq> fst ` set (wk_controls w) \<and> (wk_error w \<longrightarrow> wk_stopping w)"

lemma wk_simps [simp]:
  "wk_store (observe_shutdown w) = wk_store w" "wk_tasks (observe_shutdown w) = wk_tasks w"
  "wk_controls (observe_shutdown w) = wk_controls w" "wk_error (observe_shutdown w) = wk_error w"
  "wk_stopping (observe_shutdown w)"
  "wk_service (signal_all w) = wk_service w" "wk_tasks (signal_all w) = wk_tasks w"
  "fst ` set (wk_controls (signal_all w)) = fst ` set (wk_controls w)" "wk_error (signal_all w) = wk_error w"
  "wk_stopping (signal_all w) = wk_stopping w"
  "wk_service (signal_cancelling w) = wk_service w" "wk_tasks (signal_cancelling w) = wk_tasks w"
  "fst ` set (wk_controls (signal_cancelling w)) = fst ` set (wk_controls w)" "wk_error (signal_cancelling w) = wk_error w"
  "wk_stopping (signal_cancelling w) = wk_stopping w"
  "srv_store (stop_accepting sv) = srv_store sv"
  by (force simp: observe_shutdown_def signal_all_def signal_cancelling_def stop_accepting_def image_iff split: prod.splits)+

lemma observe_ok: "workers_ok lib w \<Longrightarrow> workers_ok lib (observe_shutdown w)"
  by (simp add: workers_ok_def)

lemma controls_added: "fst ` set (fold (\<lambda>i cs. AList.update i False cs) ids cs) = set ids \<union> fst ` set cs"
  by (induction ids arbitrary: cs) (auto simp: dom_update)

lemma controls_deleted: "fst ` set (AList.delete i cs) = fst ` set cs - {i}"
  by (force simp: AList.delete_eq)

lemma round_ok:
  assumes "workers_ok lib w"
  shows "workers_ok lib (worker_round lib v shutdown w)"
proof -
  define w1 where "w1 = (if shutdown then observe_shutdown w else w)"
  have ok: "workers_ok lib w1" using assms observe_ok by (simp add: w1_def)
  show ?thesis
  proof (cases "wk_stopping w1")
    case True
    then have "worker_round lib v shutdown w = signal_all w1" by (simp add: worker_round_def Let_def w1_def)
    with ok show ?thesis by (simp add: workers_ok_def)
  next
    case False
    obtain ids f st where c: "claim_all lib v 0 (wk_store w1) = (ids, f, st)" by (metis prod_cases3)
    from claim_all_runs[OF c] ok False show ?thesis
      by (auto simp: workers_ok_def worker_round_def Let_def w1_def[symmetric] c controls_added)
  qed
qed

lemma join_ok:
  assumes ok: "workers_ok lib w" and i: "i \<in> set (wk_tasks w)"
  shows "workers_ok lib (join_task lib p now i r w)"
proof -
  obtain fl out where r: "r = (fl, out)" by fastforce
  obtain x st where f: "finish_with_outcome lib p now i fl out (wk_store w) = (x, st)" by fastforce
  have t: "distinct (wk_tasks w)" "set (wk_tasks w) \<subseteq> set (running_ids (wk_store w))" using ok by (auto simp: workers_ok_def)
  show ?thesis
  proof (cases x)
    case (Inl e)
    have "st = wk_store w" using finishing_unchanged f Inl by blast
    with ok t Inl show ?thesis
      by (auto simp: workers_ok_def join_task_def r f Let_def controls_deleted set_remove1_eq)
  next
    case (Inr k)
    have "job_reachable lib st" using ok f Inr reach_step step_finish unfolding workers_ok_def by blast
    moreover have "set (running_ids st) = set (running_ids (wk_store w)) - {i}"
      using finish_running[OF reachable_ok] ok f Inr unfolding workers_ok_def by blast
    ultimately show ?thesis using ok t Inr
      by (auto simp: workers_ok_def join_task_def r f Let_def controls_deleted set_remove1_eq)
  qed
qed

lemma worker_step_ok:
  assumes "worker_step lib w w'" "workers_ok lib w"
  shows "workers_ok lib w'"
  using assms(1)
proof cases
  case (step_joined i p now ending r)
  then show ?thesis using join_ok[OF assms(2)] by simp
next
  case (step_lost i)
  then show ?thesis using assms(2) by (auto simp: workers_ok_def join_lost_def)
next
  case (step_outside st')
  have "job_reachable lib st'"
    using assms(2) step_outside(2) outside_is_job_step reach_step unfolding workers_ok_def by blast
  moreover have "set (running_ids st') = set (running_ids (wk_store w))"
    using outside_running[OF step_outside(2)] assms(2) reachable_ok unfolding workers_ok_def by blast
  ultimately show ?thesis using assms(2) step_outside(1) by (simp add: workers_ok_def)
qed (use assms(2) round_ok observe_ok in auto)

lemma service_open_Inr:
  assumes "service_open lib ow c = Inr sv"
  obtains st u where "job_open (sv_job lib) (service_limits c) (ow_state ow) (ow_lock ow) (ow_ledger ow) (ow_now ow) (ow_persisted ow) = Inr st"
    "configure_completions (map ledger_target (srv_targets sv)) st = (Inr u, srv_store sv)"
proof -
  from assms obtain token ts st where o: "map_sum (\<lambda>_. error.Io) id
      (job_open (sv_job lib) (service_limits c) (ow_state ow) (ow_lock ow) (ow_ledger ow) (ow_now ow) (ow_persisted ow)) = Inr st"
    and q: "(case configure_completions (map ledger_target ts) st of (Inl _, _) \<Rightarrow> Inl error.Config
      | (Inr _, st') \<Rightarrow> Inr \<lparr>srv_config = c, srv_token = token, srv_store = st', srv_targets = ts,
           srv_states = replicate (length ts) delivery_start, srv_accepting = True\<rparr>) = Inr sv"
    by (simp add: service_open_def result_simps) blast
  obtain x st' where x: "configure_completions (map ledger_target ts) st = (x, st')" by fastforce
  with q obtain u where "x = Inr u" "srv_store sv = st'" "srv_targets sv = ts" by (cases x) auto
  moreover have "job_open (sv_job lib) (service_limits c) (ow_state ow) (ow_lock ow) (ow_ledger ow) (ow_now ow) (ow_persisted ow) = Inr st"
    using o by (auto simp: map_sum_def split: sum.splits)
  ultimately show ?thesis using that x by blast
qed

lemma open_nothing_runs:
  assumes o: "job_open lib lim d lk f now p = Inr st" and f: "f = Missing \<or> (\<exists>st0. job_reachable lib st0 \<and> f = Parsed (st_saved st0))"
  shows "job_reachable lib st \<and> running_ids st = []"
proof -
  from job_open_Inr[OF o] obtain l where l: "read_ledger f = Inr l"
    and c: "job_commit lib p \<lparr>st_targets = [], st_ledger = l\<lparr>jobs := map (interrupt now) (jobs l)\<rparr>, st_limits = lim,
        st_saved = l\<rparr> (l\<lparr>jobs := map (interrupt now) (jobs l)\<rparr>) = (Inr (), st)" by blast
  have "distinct (map job_id (jobs l))"
    using f
  proof
    assume "\<exists>st0. job_reachable lib st0 \<and> f = Parsed (st_saved st0)"
    then obtain st0 where s: "job_reachable lib st0" "f = Parsed (st_saved st0)" by blast
    from reachable_ok[OF s(1)] have "st_saved st0 = st_ledger st0" "schema_version (st_ledger st0) = 2" by (simp_all add: store_ok_def)
    with l s(2) have "jobs l = jobs (st_ledger st0)" by (auto simp: read_ledger_def split: if_splits)
    with store_distinct[OF reachable_ok[OF s(1)]] show ?thesis by simp
  qed (use l in \<open>simp add: read_ledger_def, auto\<close>)
  then have "active_jobs (jobs (st_ledger st)) = active_jobs (map (interrupt now) (jobs l))"
    using commit_active[OF c] by (simp add: comp_def)
  moreover have "job_reachable lib st" using f o reach_open step_restart reach_step by metis
  ultimately show ?thesis by (simp add: running_ids_def active_interrupt)
qed

lemma configure_running: "configure_completions ts st = (Inr u, st') \<Longrightarrow> running_ids st' = running_ids st"
  by (auto simp: configure_completions_def running_ids_def Let_def split: if_splits)

lemma open_workers_ok:
  assumes "service_open lib ow c = Inr sv"
    and "ow_ledger ow = Missing \<or> (\<exists>st0. job_reachable (sv_job lib) st0 \<and> ow_ledger ow = Parsed (st_saved st0))"
  shows "workers_ok (sv_job lib) (workers_start sv)"
proof -
  from assms(1) obtain st u where o: "job_open (sv_job lib) (service_limits c) (ow_state ow) (ow_lock ow) (ow_ledger ow) (ow_now ow)
      (ow_persisted ow) = Inr st"
    and q: "configure_completions (map ledger_target (srv_targets sv)) st = (Inr u, srv_store sv)"
    by (rule service_open_Inr)
  from open_nothing_runs[OF o assms(2)] configure_running[OF q] reach_step[OF _ step_configure[OF q]]
  show ?thesis by (simp add: workers_ok_def workers_start_def)
qed

lemma reachable_workers_ok: "worker_reachable lib w \<Longrightarrow> workers_ok (sv_job lib) w"
proof (induction rule: worker_reachable.induct)
  case (workers_reopen ow c sv w0)
  then have "job_reachable (sv_job lib) (wk_store w0)" by (simp add: workers_ok_def)
  with workers_reopen show ?case by (intro open_workers_ok) auto
qed (auto intro: open_workers_ok worker_step_ok)

text \<open>C32. The tasks are the running jobs: in every state the workers can reach, whatever requests, progress
  reports and shutdowns happen in between, each task belongs to a job that the ledger shows as running, no
  job has two tasks, there are never more than configured, each has its channel for cancellation, and until
  an error occurs every running job has its task. So when the workers end without an error nothing runs any
  more: opening the ledger again will find no job to interrupt.\<close>

theorem tasks_are_the_running_jobs:
  assumes "worker_reachable lib w"
  shows "distinct (wk_tasks w) \<and> set (wk_tasks w) \<subseteq> set (running_ids (wk_store w))
    \<and> (\<not> wk_error w \<longrightarrow> set (wk_tasks w) = set (running_ids (wk_store w)))
    \<and> length (wk_tasks w) \<le> max_running (st_limits (wk_store w))
    \<and> set (wk_tasks w) \<subseteq> fst ` set (wk_controls w) \<and> (wk_error w \<longrightarrow> wk_stopping w)
    \<and> (worker_done w \<and> worker_result w = Inr () \<longrightarrow>
         map (interrupt now) (jobs (st_saved (wk_store w))) = jobs (st_ledger (wk_store w)))"
proof -
  note ok = reachable_workers_ok[OF assms]
  then have st: "store_ok (sv_job lib) (wk_store w)" by (simp add: workers_ok_def reachable_ok)
  have "card (set (wk_tasks w)) \<le> card (set (running_ids (wk_store w)))"
    using ok by (intro card_mono) (auto simp: workers_ok_def)
  moreover have "length (running_ids (wk_store w)) \<le> max_running (st_limits (wk_store w))"
    using st by (simp add: store_ok_def active_wf_def running_ids_def)
  ultimately have slots: "length (wk_tasks w) \<le> max_running (st_limits (wk_store w))"
    using ok card_length[of "running_ids (wk_store w)"] by (simp add: workers_ok_def distinct_card)
  have "map (interrupt now) (jobs (st_saved (wk_store w))) = jobs (st_ledger (wk_store w))"
    if "worker_done w" "worker_result w = Inr ()"
  proof -
    from that ok have "active_jobs (jobs (st_ledger (wk_store w))) = []"
      by (auto simp: worker_done_def worker_result_def workers_ok_def running_ids_def split: if_splits)
    then show ?thesis using st
      by (auto simp: active_jobs_def filter_empty_conv interrupt_def store_ok_def intro!: map_idI)
  qed
  with ok slots show ?thesis by (auto simp: workers_ok_def)
qed

subsection \<open>Rounds\<close>

lemma start_first_none: "start_first now busy js = None \<longleftrightarrow> list_all (\<lambda>j. \<not> (job_status j = Queued \<and> region_of j \<notin> set busy)) js"
  by (induction js) (auto simp: Let_def split: option.splits)

lemma claim_none_always:
  assumes "claim lib p now st = (Inr None, st')"
  shows "claim lib p' now' st = (Inr None, st)"
proof -
  let ?busy = "map region_of (active_jobs (jobs (st_ledger st)))"
  from assms have "max_running (st_limits st) \<le> length ?busy \<or> start_first now ?busy (jobs (st_ledger st)) = None"
    by (auto simp: claim_def Let_def split: if_splits option.splits prod.splits sum.splits)
  then have "max_running (st_limits st) \<le> length ?busy \<or> start_first now' ?busy (jobs (st_ledger st)) = None"
    by (simp only: start_first_none)
  then show ?thesis by (auto simp: claim_def Let_def)
qed

lemma controls_kept: "i \<notin> set ids \<Longrightarrow> map_of (fold (\<lambda>i cs. AList.update i False cs) ids cs) i = map_of cs i"
  by (induction ids arbitrary: cs) (auto simp: update_conv')

lemma signalled:
  "map_of (wk_controls (signal_cancelling w)) i =
     map_option (\<lambda>sent. sent \<or> is_some_and (\<lambda>j. job_status j = Cancelling) (job_get i (wk_store w))) (map_of (wk_controls w) i)"
proof -
  have "map_of (map (\<lambda>(i, sent). (i, f i sent)) cs) i = map_option (f i) (map_of cs i)" for f and cs :: "(string \<times> bool) list"
    by (induction cs) auto
  then show ?thesis by (simp add: signal_cancelling_def)
qed

text \<open>A round leaves no work behind: after a round that goes on, no queued job could be started, however
  the clock and the disk behave, and every task whose job was to be cancelled has been told so.\<close>

theorem rounds_start_and_signal:
  assumes "worker_reachable lib w" and "\<not> wk_stopping (worker_round (sv_job lib) v shutdown w)"
  shows "claim (sv_job lib) p now (wk_store (worker_round (sv_job lib) v shutdown w))
       = (Inr None, wk_store (worker_round (sv_job lib) v shutdown w))
    \<and> (i \<in> set (wk_tasks w) \<and> is_some_and (\<lambda>j. job_status j = Cancelling) (job_get i (wk_store w))
         \<longrightarrow> map_of (wk_controls (worker_round (sv_job lib) v shutdown w)) i = Some True)"
proof -
  note ok = reachable_workers_ok[OF assms(1)]
  have go: "\<not> shutdown" "\<not> wk_stopping w" using assms(2) by (auto simp: worker_round_def Let_def split: if_splits)
  obtain ids f st where c: "claim_all (sv_job lib) v 0 (wk_store w) = (ids, f, st)" by (metis prod_cases3)
  have f: "\<not> f" using assms(2) go by (auto simp: worker_round_def Let_def c split: if_splits)
  have w': "wk_store (worker_round (sv_job lib) v shutdown w) = st"
    "wk_controls (worker_round (sv_job lib) v shutdown w)
       = fold (\<lambda>i cs. AList.update i False cs) ids (wk_controls (signal_cancelling w))"
    using go f by (simp_all add: worker_round_def Let_def c)
  note runs = claim_all_runs[OF c]
  have reach: "job_reachable (sv_job lib) (wk_store w)" using ok by (simp add: workers_ok_def)
  have "claim (sv_job lib) p now st = (Inr None, st)" using runs[OF reach] f claim_none_always by blast
  moreover have "map_of (wk_controls (worker_round (sv_job lib) v shutdown w)) i = Some True"
    if "i \<in> set (wk_tasks w)" "is_some_and (\<lambda>j. job_status j = Cancelling) (job_get i (wk_store w))"
  proof -
    have "i \<notin> set ids" "i \<in> fst ` set (wk_controls w)" using that(1) ok runs[OF reach] by (auto simp: workers_ok_def)
    then show ?thesis using that(2) by (auto simp: w'(2) controls_kept signalled dest: weak_map_of_SomeI)
  qed
  ultimately show ?thesis by (simp add: w'(1))
qed

subsection \<open>Shutting down\<close>

lemma running_job:
  assumes "store_ok lib st" "i \<in> set (running_ids st)"
  obtains j where "job_get i st = Some j" "occupies_slot (job_status j)"
proof -
  from assms(2) obtain j where j: "j \<in> set (jobs (st_ledger st))" "occupies_slot (job_status j)" "job_id j = i"
    by (auto simp: running_ids_def active_jobs_def)
  have "List.find (\<lambda>x. job_id x = i) js = Some j" if "distinct (map job_id js)" "j \<in> set js" for js
    using that j(3) by (induction js) auto
  with j store_distinct[OF assms(1)] that show ?thesis by (auto simp: job_get_def)
qed

text \<open>A task that failed with a proper code hands over to the ledger, whose disk works.\<close>

lemma failed_task_joins:
  assumes ok: "workers_ok lib w" and i: "i \<in> set (wk_tasks w)" and fl: "failure_code_ok fl"
  shows "wk_error (join_task lib True now i (Some fl, None) w) = wk_error w
    \<and> wk_stopping (join_task lib True now i (Some fl, None) w) = wk_stopping w
    \<and> wk_tasks (join_task lib True now i (Some fl, None) w) = remove1 i (wk_tasks w)"
proof -
  have r: "job_reachable lib (wk_store w)" "i \<in> set (running_ids (wk_store w))" using ok i by (auto simp: workers_ok_def)
  obtain j where j: "job_get i (wk_store w) = Some j" "occupies_slot (job_status j)"
    by (rule running_job[OF reachable_ok[OF r(1)] r(2)])
  obtain k st where "finish_with_outcome lib True now i (Some fl) None (wk_store w) = (Inr k, st)"
    using finish_succeeds[OF r(1) j, of "Some fl" None now] fl by (auto simp: notice_of_def)
  then show ?thesis by (simp add: join_task_def Let_def)
qed

lemma failed_tasks_join:
  assumes "workers_ok lib w" "mset xs = mset (wk_tasks w)" "\<And>i. failure_code_ok (fl i)"
  shows "workers_ok lib (fold (\<lambda>i. join_task lib True (now i) i (Some (fl i), None)) xs w)
    \<and> wk_error (fold (\<lambda>i. join_task lib True (now i) i (Some (fl i), None)) xs w) = wk_error w
    \<and> wk_stopping (fold (\<lambda>i. join_task lib True (now i) i (Some (fl i), None)) xs w) = wk_stopping w
    \<and> wk_tasks (fold (\<lambda>i. join_task lib True (now i) i (Some (fl i), None)) xs w) = []"
  using assms(1,2)
proof (induction xs arbitrary: w)
  case (Cons i xs)
  have i: "i \<in> set (wk_tasks w)" using Cons.prems(2) by (metis list.set_intros(1) mset_eq_setD)
  let ?w = "join_task lib True (now i) i (Some (fl i), None) w"
  note j = failed_task_joins[OF Cons.prems(1) i assms(3)[of i], of "now i"]
  have "mset xs = mset (wk_tasks ?w)" using j Cons.prems(2) i by (simp add: Cons.prems(2)[symmetric])
  from Cons.IH[OF join_ok[OF Cons.prems(1) i] this] j show ?case by simp
qed simp

lemma stopping_for_good:
  assumes "worker_step lib w w'" "wk_stopping w"
  shows "wk_stopping w' \<and> set (wk_tasks w') \<subseteq> set (wk_tasks w)"
  using assms
  by (cases rule: worker_step.cases)
    (auto simp: worker_round_def Let_def join_task_def join_lost_def split: prod.splits sum.splits dest: set_remove1_subset[THEN subsetD])

text \<open>A shutdown completes: once the workers are stopping they stay so and start nothing, and when the
  tasks that still run answer their signal with a failure, in whatever order, the workers are done, without
  an error as long as the ledger can be written, and no job is left running.\<close>

theorem shutdown_completes:
  assumes "worker_reachable lib w" and "wk_stopping w" and "\<not> wk_error w"
    and "mset xs = mset (wk_tasks w)" and "\<And>i. failure_code_ok (fl i)"
    and "w' = fold (\<lambda>i. join_task (sv_job lib) True (now i) i (Some (fl i), None)) xs w"
  shows "(worker_step (sv_job lib) w w2 \<longrightarrow> wk_stopping w2 \<and> set (wk_tasks w2) \<subseteq> set (wk_tasks w))
    \<and> worker_done w' \<and> worker_result w' = Inr () \<and> running_ids (wk_store w') = []"
proof -
  have r: "workers_ok (sv_job lib) w' \<and> wk_error w' = wk_error w \<and> wk_stopping w' = wk_stopping w \<and> wk_tasks w' = []"
    unfolding assms(6) by (rule failed_tasks_join[OF reachable_workers_ok[OF assms(1)] assms(4,5)])
  then have "running_ids (wk_store w') = []" using assms(3) by (auto simp: workers_ok_def)
  with r assms(2,3) stopping_for_good show ?thesis by (auto simp: worker_done_def worker_result_def)
qed

subsection \<open>Successful tasks\<close>

text \<open>Work that keeps the store reachable.\<close>

definition steady :: "job_lib \<Rightarrow> 'a work \<Rightarrow> bool" where
  "steady lib m \<longleftrightarrow> (\<forall>s r s'. m s = (r, s') \<longrightarrow> job_reachable lib (fst s) \<longrightarrow> job_reachable lib (fst s'))"

lemma steady_and_do: "steady lib m \<Longrightarrow> (\<And>x. steady lib (f x)) \<Longrightarrow> steady lib (and_do m f)"
  unfolding steady_def
proof (intro allI impI)
  fix s r s'
  assume m: "\<forall>s r s'. m s = (r, s') \<longrightarrow> job_reachable lib (fst s) \<longrightarrow> job_reachable lib (fst s')"
    and f: "\<And>x. \<forall>s r s'. f x s = (r, s') \<longrightarrow> job_reachable lib (fst s) \<longrightarrow> job_reachable lib (fst s')"
    and run: "and_do m f s = (r, s')" and s: "job_reachable lib (fst s)"
  obtain x s1 where 1: "m s = (x, s1)" by (rule prod.exhaust)
  with m s have s1: "job_reachable lib (fst s1)" by blast
  show "job_reachable lib (fst s')"
  proof (cases x)
    case (Inl e)
    with run 1 s1 show ?thesis by (simp add: and_do_def)
  next
    case (Inr b)
    with run 1 have "f b s1 = (r, s')" by (simp add: and_do_def)
    with f s1 show ?thesis by blast
  qed
qed

lemma steady_pure_do: "steady lib (pure_do r)"
  by (simp add: steady_def pure_do_def)

lemma steady_save: "steady lib (save_progress lib i t)"
proof -
  have "job_reachable lib st'" if "report_progress lib p now i q st = (r, st')" "job_reachable lib st" for p now q st r st'
  proof (cases r)
    case (Inl e)
    then have "st' = st" using progressing.error_unchanged[of lib "(p, now, i, q)" st e st'] that(1) by simp
    with that(2) show ?thesis by simp
  next
    case (Inr j)
    with that show ?thesis using reach_step step_progress by blast
  qed
  then show ?thesis by (cases t) (fastforce simp: steady_def save_progress_def split: prod.splits sum.splits)
qed

lemma steady_ticks: "steady lib (save_ticks lib i ts)"
  by (induction ts) (auto intro: steady_and_do steady_pure_do steady_save)

lemma steady_enter: "steady lib (enter_phase lib w i p)"
  unfolding enter_phase_def by (intro steady_and_do steady_save) (auto simp: steady_def)

lemmas steady_intros = steady_and_do steady_pure_do steady_save steady_ticks steady_enter

lemma steady_download: "steady (sv_job lib) (download_stage lib w p d i)"
  unfolding download_stage_def by (intro steady_intros)

lemma steady_verify: "steady (sv_job lib) (verify_stage lib w p i input)"
  unfolding verify_stage_def by (intro steady_intros)

lemma steady_export: "steady (sv_job lib) (export_stage lib w p d i input v path)"
  unfolding export_stage_def by (intro steady_intros) (auto split: prod.splits intro!: steady_intros)

lemma steady_publish: "steady (sv_job lib) (publish_stage lib w p d i c out)"
  unfolding publish_stage_def by (intro steady_intros)

lemma steady_check: "steady (sv_job lib) (verify_export_stage lib w p d i m)"
  unfolding verify_export_stage_def by (intro steady_intros)

lemma steady_stages: "steady (sv_job lib) (pipeline_stages lib w p d j)"
  unfolding pipeline_stages_def export_stages_def
  by (auto simp: Let_def split: option.splits prod.splits
      intro!: steady_intros steady_download steady_verify steady_export steady_publish steady_check)

text \<open>The last report of a successful run counts no failure.\<close>

lemma publish_stage_progress: "publish_stage lib w p d i c out s = (Inr (out', q), s') \<Longrightarrow> prog_failed q = 0"
  by (auto simp: publish_stage_def result_simps publish_progress_def)

lemma export_stages_progress:
  assumes "export_stages lib w p d i input v path s = (Inr (out, q), s1)"
    and retains: "\<And>x s. jw_export w x = Inr s \<Longrightarrow> sm_retained s = xc_retain_outputs x"
  shows "prog_failed q = 0"
proof -
  from assms(1) obtain sm storage m s2 where e: "export_stage lib w p d i input v path s = (Inr (sm, storage, m), s2)"
    and r: "(let out = \<lparr>out_verification = v, out_export = Some (export_outcome_of sm), out_publication = None\<rparr> in
          if \<not> sm_retained sm then pure_do (Inr (out, export_progress sm))
          else and_do (verify_export_stage lib w p d i m) (\<lambda>r.
            (case storage of None \<Rightarrow> pure_do (Inr (out, check_progress r)) | Some c \<Rightarrow> publish_stage lib w p d i c out))) s2
        = (Inr (out, q), s1)"
    by (auto simp: export_stages_def result_simps)
  show ?thesis
  proof (cases "sm_retained sm")
    case True
    with r show ?thesis
      by (auto simp: Let_def result_simps check_progress_def dest: publish_stage_progress split: option.splits)
  next
    case False
    with export_stage_Inr[OF e] retains have "pf_storage p = None" by fastforce
    with export_stage_Inr[OF e] have "export_accepted 0 v sm = Inr ()" by auto
    then have "sm_failed sm = 0" by (auto simp: export_accepted_def partial_export_def result_simps)
    with False r show ?thesis by (auto simp: Let_def pure_do_def export_progress_def)
  qed
qed

lemma pipeline_stages_progress:
  assumes "pipeline_stages lib w p d j s = (Inr (out, q), s1)"
    and "\<And>x s. jw_export w x = Inr s \<Longrightarrow> sm_retained s = xc_retain_outputs x"
  shows "prog_failed q = 0"
proof -
  from assms(1) obtain input v s2 where "(case (if req_operation (job_request j) = VerifyOp then None else pf_export p) of
        None \<Rightarrow> pure_do (Inr (\<lparr>out_verification = v, out_export = None, out_publication = None\<rparr>, verify_progress v))
      | Some path \<Rightarrow> export_stages lib w p d (job_id j) input v path) s2 = (Inr (out, q), s1)"
    by (auto simp: pipeline_stages_def result_simps)
  then show ?thesis
    using export_stages_progress[OF _ assms(2)]
    by (auto simp: pure_do_def verify_progress_def Let_def split: option.splits if_splits)
qed

lemma reported_progress:
  assumes "report_progress lib p now i q st = (Inr x, st')" "job_reachable lib st" "job_get i st' = Some k"
  shows "job_progress k = q"
proof -
  from assms(1) have m: "mutate lib p now i (set_progress q) st = (Inr x, st')" by (auto simp: report_progress_def split: if_splits)
  from mutate_Inr[OF m] obtain pre j post j' where js: "jobs (st_ledger st) = pre @ j # post" "job_id j = i"
    and j': "set_progress q j = Inr j'" "x = j'\<lparr>job_updated := now\<rparr>"
    and c: "job_commit lib p st (st_ledger st\<lparr>jobs := pre @ x # post\<rparr>) = (Inr (), st')" by blast
  have k: "k \<in> set (jobs (st_ledger st'))" "job_id k = i"
    using assms(3) by (auto simp: job_get_def find_Some_iff)
  have "distinct (map job_id (pre @ j # post))" using store_distinct[OF reachable_ok[OF assms(2)]] js(1) by simp
  with commit_jobs[OF c k(1)] k(2) js(2) have "k = x" by auto
  with j' show ?thesis by (auto simp: set_progress_def split: if_splits)
qed

text \<open>C34. A successful run completes its job: when the pipeline of a running job succeeds and the job has not
  been cancelled meanwhile, handing over the result never fails the job for left-over failures and never
  meets a full queue of notices: with a working disk the job becomes completed, and exactly its notice is added.\<close>

theorem successful_run_completes_job:
  assumes "pipeline lib w c j (st, []) = (Inr out, st', phases)" and r: "job_reachable (sv_job lib) st"
    and retains: "\<And>x s. jw_export w x = Inr s \<Longrightarrow> sm_retained s = xc_retain_outputs x"
    and k: "job_get (job_id j) st' = Some k" "job_status k = Running" "job_request k = job_request j"
    and size: "list_all (\<lambda>n. bounded_completion (sv_job lib) (event n)) (notice_of (st_targets st') None (Some out) now k)"
  shows "\<exists>k' st''. finish_with_outcome (sv_job lib) True now (job_id j) (fst (job_result RanTo (Inr out)))
      (snd (job_result RanTo (Inr out))) st' = (Inr k', st'') \<and> job_id k' = job_id j \<and> job_status k' = Completed
    \<and> completions (st_ledger st'') = completions (st_ledger st') @ notice_of (st_targets st') None (Some out) now k"
proof -
  from assms(1) obtain p d q s1 where p: "pf_region p = req_region (job_request j)"
    and run: "pipeline_stages lib w p d j (st, []) = (Inr (out, q), s1)"
    and last: "save_progress (sv_job lib) (job_id j) (q, jw_last w) s1 = (Inr (), st', phases)"
    by (auto simp: pipeline_def result_simps)
  have s1: "job_reachable (sv_job lib) (fst s1)" using steady_stages run r unfolding steady_def by fastforce
  from last obtain x where x: "report_progress (sv_job lib) (fst (jw_last w)) (snd (jw_last w)) (job_id j) q (fst s1) = (Inr x, st')"
    by (cases s1; cases "jw_last w") (auto simp: save_progress_def split: prod.splits sum.splits)
  have st': "job_reachable (sv_job lib) st'" by (rule reach_step[OF s1 step_progress[OF x]])
  have "prog_failed (job_progress k) = 0"
    using reported_progress[OF x s1 k(1)] pipeline_stages_progress[OF run retains] by simp
  then have f: "final_status None k = Completed" using k(2) by (simp add: final_status_def)
  obtain input v pre where "ver_region v = pf_region p" "out_verification out = v"
    by (rule pipeline_stages_Inr[OF run retains])
  then have "ver_region (out_verification out) = region_of k" using p k(3) by (simp add: region_of_def)
  with finish_succeeds[OF st' k(1), of None "Some out" now] k(2) size f show ?thesis
    by (simp add: job_result_def)
qed

subsection \<open>Example workers\<close>

definition running_job_5 :: job where
  "running_job_5 = export_job\<lparr>job_status := Running, job_updated := 5\<rparr>"

definition demo_workers :: workers where
  "demo_workers = \<lparr>wk_service = demo_service\<lparr>srv_store := demo_store [running_job_5]\<rparr>, wk_tasks = [''1''],
     wk_controls = [(''1'', False)], wk_stopping = False, wk_error = False\<rparr>"

lemma demo_claims:
  "claim demo_lib True 5 (demo_store [queued_job]) = (Inr (Some running_job_5), demo_store [running_job_5])"
  "claim demo_lib True 5 (demo_store [running_job_5]) = (Inr None, demo_store [running_job_5])"
  by (simp_all add: demo_defs store_defs export_job_def queued_job_def running_job_5_def List.map_filter_simps new_delivery_def Let_def)

lemma demo_round: "worker_round demo_lib (\<lambda>_. (True, 5)) False (workers_start (demo_service\<lparr>srv_store := demo_store [queued_job]\<rparr>))
     = demo_workers"
proof -
  have "claim_all demo_lib (\<lambda>_. (True, 5)) (Suc 0) (demo_store [running_job_5]) = ([], False, demo_store [running_job_5])"
    by (subst claim_all.simps) (simp add: demo_claims)
  then have "claim_all demo_lib (\<lambda>_. (True, 5)) 0 (demo_store [queued_job]) = ([''1''], False, demo_store [running_job_5])"
    by (subst claim_all.simps) (simp add: demo_claims, simp add: running_job_5_def export_job_def demo_job_def)
  then show ?thesis
    by (simp add: worker_round_def workers_start_def signal_cancelling_def Let_def demo_workers_def)
qed

lemma demo_workers_reachable: "worker_reachable demo_service_lib demo_workers"
proof -
  have l: "sv_job demo_service_lib = demo_lib" by (simp add: demo_service_lib_def)
  have s: "srv_store demo_service = demo_store []" by (simp add: demo_service_def)
  have "worker_reachable demo_service_lib (workers_start demo_service)"
    by (rule workers_open[OF demo_opened]) (simp add: demo_opening_def)
  moreover have "outside_step demo_lib (wk_store (workers_start demo_service)) (demo_store [queued_job])"
    unfolding workers_start_def using s
    by (auto intro!: outside_client client_submit[OF demo_fresh(1) demo_queued])
  then have "worker_step demo_lib (workers_start demo_service) (workers_start (demo_service\<lparr>srv_store := demo_store [queued_job]\<rparr>))"
    by (drule_tac step_outside) (simp add: workers_start_def)
  ultimately have "worker_reachable demo_service_lib (workers_start (demo_service\<lparr>srv_store := demo_store [queued_job]\<rparr>))"
    using workers_go_on[of demo_service_lib] by (simp add: l)
  from workers_go_on[OF this step_round] have "worker_reachable demo_service_lib
      (worker_round demo_lib (\<lambda>_. (True, 5)) False (workers_start (demo_service\<lparr>srv_store := demo_store [queued_job]\<rparr>)))"
    by (simp add: l)
  then show ?thesis by (simp add: demo_round)
qed

theorem tasks_are_the_running_jobs_witness: "set (wk_tasks demo_workers) = set (running_ids (wk_store demo_workers))"
  using tasks_are_the_running_jobs[OF demo_workers_reachable] by (simp add: demo_workers_def)

theorem rounds_start_and_signal_witness:
  "\<forall>p now. claim demo_lib p now (wk_store (worker_round demo_lib (\<lambda>_. (True, 5)) False demo_workers))
     = (Inr None, wk_store (worker_round demo_lib (\<lambda>_. (True, 5)) False demo_workers))"
proof -
  have l: "sv_job demo_service_lib = demo_lib" by (simp add: demo_service_lib_def)
  have "claim_all demo_lib (\<lambda>_. (True, 5)) 0 (demo_store [running_job_5]) = ([], False, demo_store [running_job_5])"
    by (subst claim_all.simps) (simp add: demo_claims)
  then have "\<not> wk_stopping (worker_round demo_lib (\<lambda>_. (True, 5)) False demo_workers)"
    by (simp add: worker_round_def demo_workers_def signal_cancelling_def Let_def)
  from rounds_start_and_signal[OF demo_workers_reachable, unfolded l, OF this] show ?thesis by blast
qed

theorem shutdown_completes_witness:
  "worker_result (join_task demo_lib True 9 ''1'' (Some ''cancelled'', None) (observe_shutdown demo_workers)) = Inr ()
   \<and> running_ids (wk_store (join_task demo_lib True 9 ''1'' (Some ''cancelled'', None) (observe_shutdown demo_workers))) = []"
proof -
  have l: "sv_job demo_service_lib = demo_lib" by (simp add: demo_service_lib_def)
  have r: "worker_reachable demo_service_lib (observe_shutdown demo_workers)"
    by (rule workers_go_on[OF demo_workers_reachable step_shutdown])
  have c: "failure_code_ok ((\<lambda>_. ''cancelled'') i)" for i :: string
    by (simp add: failure_code_ok_def is_ascii_lowercase_def less_eq_char_def)
  have t: "wk_stopping (observe_shutdown demo_workers)" "\<not> wk_error (observe_shutdown demo_workers)"
    "mset [''1''] = mset (wk_tasks (observe_shutdown demo_workers))"
    by (simp_all add: demo_workers_def)
  show ?thesis
    using shutdown_completes[OF r t c refl, where now = "\<lambda>_. 9"] unfolding l by simp
qed

lemma demo_store_inject: "demo_store a = demo_store b \<longleftrightarrow> a = b"
  by (simp add: demo_store_def demo_ledger_def)

lemma demo_ran:
  "\<exists>k. pipeline demo_service_lib demo_world demo_service_config running_job_5 (demo_store [running_job_5], [])
     = (Inr \<lparr>out_verification = demo_verification, out_export = Some (export_outcome_of demo_summary), out_publication = None\<rparr>,
        demo_store [k], [''verify'', ''export'', ''verify_export''])
     \<and> job_id k = ''1'' \<and> job_status k = Running \<and> job_request k = job_request running_job_5"
  by (simp add: pipeline_def pipeline_stages_def and_do_def pure_do_def verify_stage_def export_stages_def export_stage_def
      verify_export_stage_def enter_phase_def demo_report demo_progress_ok stage_result_def demo_run_defs supports_op_def demo_job_def
      running_job_5_def demo_store_inject export_accepted_def partial_export_def check_progress_def export_outcome_of_def del: One_nat_def)

theorem successful_run_completes_job_witness:
  "\<exists>out st' ps k' st''. pipeline demo_service_lib demo_world demo_service_config running_job_5 (demo_store [running_job_5], [])
      = (Inr out, st', ps)
    \<and> finish_with_outcome demo_lib True 9 ''1'' None (Some out) st' = (Inr k', st'') \<and> job_status k' = Completed"
proof -
  have l: "sv_job demo_service_lib = demo_lib" by (simp add: demo_service_lib_def)
  have r: "job_reachable (sv_job demo_service_lib) (demo_store [running_job_5])"
    using reachable_workers_ok[OF demo_workers_reachable] by (simp add: workers_ok_def demo_workers_def)
  obtain out k ps where run: "pipeline demo_service_lib demo_world demo_service_config running_job_5 (demo_store [running_job_5], [])
      = (Inr out, demo_store [k], ps)" and k: "job_id k = ''1''" "job_status k = Running" "job_request k = job_request running_job_5"
    using demo_ran by blast
  have i: "job_id running_job_5 = ''1''" by (simp add: running_job_5_def export_job_def demo_job_def)
  have g: "job_get (job_id running_job_5) (demo_store [k]) = Some k" using k(1) i by (simp add: job_get_def demo_store_def demo_ledger_def)
  have x: "sm_retained s = xc_retain_outputs y" if "jw_export demo_world y = Inr s" for y s
    using that by (auto simp: demo_world_def)
  have n: "list_all (\<lambda>n. bounded_completion (sv_job demo_service_lib) (event n)) (notice_of (st_targets (demo_store [k])) None (Some out) 9 k)"
    by (simp add: notice_of_def demo_store_def)
  show ?thesis
    using successful_run_completes_job[OF run r x g k(2,3) n] run unfolding l i by (auto simp: job_result_def)
qed

end
