(* ===== verification/Media_Format.thy ===== *)
theory Media_Format
  imports Bounded_Transfer
begin

unbundle bit_operations_syntax

text \<open>
  The container formats the media export reads before and after the external codecs
  (\<open>src/export.rs\<close>): the WAV check and the reader that relies on it (\<open>validate_wav\<close>,
  \<open>pcm_identity\<close>), the USM chunk walk that separates an alpha movie into two containers
  (\<open>split_alpha_usm\<close>), the unmasking of ADX packets of old USM files (\<open>legacy_adx_stream\<close>,
  \<open>legacy_audio_mask\<close>), the ADX block layout (\<open>adx_layout\<close>) and the HCA signature (\<open>is_hca\<close>).

  A file is a list of bytes. Offsets are \<open>usize\<close> values of a 64-bit target, natural numbers here
  with the checks of \<open>checked_add\<close> and \<open>checked_mul\<close> kept; \<open>size + 8\<close> of a 32-bit size cannot
  overflow. Where the source indexes a slice and would panic outside it, the reader of the model
  returns \<open>None\<close> (\<open>get_slice\<close>); the other slices of the source are inside a header that was
  obtained with \<open>get\<close> or whose length was compared first.
\<close>

subsection \<open>Slices and integers\<close>

definition sub_list :: "nat \<Rightarrow> nat \<Rightarrow> 'a list \<Rightarrow> 'a list" where
  "sub_list i j xs = take (j - i) (drop i xs)"

text \<open>\<open>&xs[i..j]\<close>: \<open>None\<close> is the panic of an index out of range.\<close>

definition get_slice :: "nat \<Rightarrow> nat \<Rightarrow> 'a list \<Rightarrow> 'a list option" where
  "get_slice i j xs = (if i \<le> j \<and> j \<le> length xs then Some (sub_list i j xs) else None)"

definition u32_from_be :: "byte list \<Rightarrow> u32" where
  "u32_from_be bs = u32_from_le (rev bs)"

definition u16_le :: "byte list \<Rightarrow> u16" where
  "u16_le bs = (case bs of [b0, b1] \<Rightarrow> u16_from_le b0 b1 | _ \<Rightarrow> 0)"

definition u16_be :: "byte list \<Rightarrow> u16" where
  "u16_be bs = u16_le (rev bs)"

lemma length_sub_list [simp]: "j \<le> length xs \<Longrightarrow> length (sub_list i j xs) = j - i"
  by (simp add: sub_list_def)

lemma sub_list_append_left: "j \<le> length xs \<Longrightarrow> sub_list i j (xs @ ys) = sub_list i j xs"
  by (simp add: sub_list_def)

lemma sub_list_append_right: "sub_list (length xs + i) (length xs + j) (xs @ ys) = sub_list i j ys"
  by (simp add: sub_list_def)

lemma get_slice_in: "i \<le> j \<Longrightarrow> j \<le> length xs \<Longrightarrow> get_slice i j xs = Some (sub_list i j xs)"
  by (simp add: get_slice_def)

subsection \<open>PCM WAV\<close>

definition invalid_wav :: error where
  "invalid_wav = error.Export ''invalid PCM WAV output''"

text \<open>The fields of a \<open>fmt \<close> chunk whose data starts at \<open>begin\<close>; the result is the block
  alignment. \<open>channels * 2\<close> is computed in 16 bits, after \<open>channels\<close> was bounded by 16.\<close>

definition wav_format :: "byte list \<Rightarrow> nat \<Rightarrow> nat \<Rightarrow> error + nat" where
  "wav_format bs begin0 sz =
     and_then (fail_if (sz < 16) invalid_wav) (\<lambda>_.
     (let format = u16_le (sub_list begin0 (begin0 + 2) bs);
          channels = u16_le (sub_list (begin0 + 2) (begin0 + 4) bs);
          rate = u32_from_le (sub_list (begin0 + 4) (begin0 + 8) bs);
          byte_rate = u32_from_le (sub_list (begin0 + 8) (begin0 + 12) bs);
          block = u16_le (sub_list (begin0 + 12) (begin0 + 14) bs);
          bits = u16_le (sub_list (begin0 + 14) (begin0 + 16) bs)
      in if format \<noteq> 1 \<or> channels = 0 \<or> 16 < channels \<or> rate = 0 \<or> bits \<noteq> 16 \<or> block \<noteq> channels * 2
            \<or> unat byte_rate \<noteq> unat rate * unat block
         then Inl invalid_wav
         else Inr (unat block)))"

definition wav_chunk :: "byte list \<Rightarrow> nat \<Rightarrow> nat \<Rightarrow> nat option \<times> nat option \<Rightarrow> error + nat option \<times> nat option" where
  "wav_chunk bs pos sz parts =
     (case parts of (alignment, data) \<Rightarrow>
        if sub_list pos (pos + 4) bs = bytes_of ''fmt ''
        then and_then (wav_format bs (pos + 8) sz) (\<lambda>a. Inr (Some a, data))
        else if sub_list pos (pos + 4) bs = bytes_of ''data''
        then (if data \<noteq> None then Inl invalid_wav else Inr (alignment, Some sz))
        else Inr (alignment, data))"

function wav_loop ::
  "byte list \<Rightarrow> nat \<Rightarrow> nat option \<times> nat option \<Rightarrow> error + nat \<times> nat option \<times> nat option" where
  "wav_loop bs pos parts =
     (if length bs < pos + 8 then Inr (pos, parts)
      else (let sz = unat (u32_from_le (sub_list (pos + 4) (pos + 8) bs)); fin = pos + 8 + sz in
        if 2 ^ 64 \<le> fin \<or> length bs < fin then Inl invalid_wav
        else and_then (wav_chunk bs pos sz parts) (\<lambda>parts'. wav_loop bs (fin + sz mod 2) parts')))"
  by pat_completeness auto
termination
  by (relation "measure (\<lambda>(bs, pos, parts). length bs - pos)") auto

declare wav_loop.simps [simp del]

definition validate_wav :: "byte list \<Rightarrow> error + unit" where
  "validate_wav bs =
     (if length bs < 44 \<or> sub_list 0 4 bs \<noteq> bytes_of ''RIFF'' \<or> sub_list 8 12 bs \<noteq> bytes_of ''WAVE'' then Inl invalid_wav
      else if unat (u32_from_le (sub_list 4 8 bs)) + 8 \<noteq> length bs then Inl invalid_wav
      else and_then (wav_loop bs 12 (None, None)) (\<lambda>(pos, alignment, data).
        if pos \<noteq> length bs \<or> \<not> (case (data, alignment) of (Some n, Some a) \<Rightarrow> 0 < n \<and> n mod a = 0 | _ \<Rightarrow> False)
        then Inl invalid_wav else Inr ()))"

text \<open>
  The reader: its slices panic out of range, and the last step fails when no \<open>data\<close> chunk was met.
\<close>

function pcm_loop ::
  "byte list \<Rightarrow> nat \<Rightarrow> u16 \<times> u32 \<times> byte list option \<Rightarrow> (u16 \<times> u32 \<times> byte list option) option" where
  "pcm_loop bs pos parts =
     (if length bs < pos + 8 then Some parts
      else (let sz = unat (u32_from_le (sub_list (pos + 4) (pos + 8) bs)); nxt = pos + 8 + sz + sz mod 2 in
        case parts of (channels, rate, pcm) \<Rightarrow>
          if sub_list pos (pos + 4) bs = bytes_of ''fmt ''
          then (case (get_slice (pos + 10) (pos + 12) bs, get_slice (pos + 12) (pos + 16) bs) of
                  (Some c, Some r) \<Rightarrow> pcm_loop bs nxt (u16_le c, u32_from_le r, pcm)
                | _ \<Rightarrow> None)
          else if sub_list pos (pos + 4) bs = bytes_of ''data''
          then (case get_slice (pos + 8) (pos + 8 + sz) bs of
                  Some p \<Rightarrow> pcm_loop bs nxt (channels, rate, Some p)
                | None \<Rightarrow> None)
          else pcm_loop bs nxt (channels, rate, pcm)))"
  by pat_completeness auto
termination
  by (relation "measure (\<lambda>(bs, pos, parts). length bs - pos)") auto

declare pcm_loop.simps [simp del]

definition pcm_identity :: "byte list \<Rightarrow> (error + u16 \<times> u32 \<times> byte list) option" where
  "pcm_identity bs =
     (case validate_wav bs of
        Inl e \<Rightarrow> Some (Inl e)
      | Inr _ \<Rightarrow> (case pcm_loop bs 12 (0, 0, None) of
          None \<Rightarrow> None
        | Some (channels, rate, pcm) \<Rightarrow> Some (and_then (ok_or error.Verification pcm) (\<lambda>p. Inr (channels, rate, p)))))"

text \<open>The walk of the reader stays in step with the walk of the check.\<close>

definition wav_agrees :: "nat option \<times> nat option \<Rightarrow> u16 \<times> u32 \<times> byte list option \<Rightarrow> bool" where
  "wav_agrees parts seen =
     (case (parts, seen) of ((alignment, data), (channels, rate, pcm)) \<Rightarrow>
        (case alignment of None \<Rightarrow> True | Some a \<Rightarrow> 0 < channels \<and> channels \<le> 16 \<and> 0 < rate \<and> a = 2 * unat channels)
        \<and> data = map_option length pcm)"

lemma double_channels: "channels \<le> 16 \<Longrightarrow> unat (channels * 2 :: u16) = 2 * unat channels"
proof -
  assume "channels \<le> (16 :: u16)"
  then have "unat channels \<le> 16" by (simp add: word_le_nat_alt)
  then show ?thesis by (simp add: unat_word_ariths)
qed

lemma wav_format_Inr:
  assumes "wav_format bs b sz = Inr a"
  shows "16 \<le> sz" "0 < u16_le (sub_list (b + 2) (b + 4) bs)" "u16_le (sub_list (b + 2) (b + 4) bs) \<le> 16"
    "0 < u32_from_le (sub_list (b + 4) (b + 8) bs)" "a = 2 * unat (u16_le (sub_list (b + 2) (b + 4) bs))"
proof -
  let ?c = "u16_le (sub_list (b + 2) (b + 4) bs)"
  from assms have *: "16 \<le> sz" "?c \<noteq> 0" "\<not> 16 < ?c" "u32_from_le (sub_list (b + 4) (b + 8) bs) \<noteq> 0"
    "a = unat (?c * 2)"
    by (auto simp: wav_format_def Let_def result_simps split: if_splits)
  then show "16 \<le> sz" "0 < ?c" "?c \<le> 16" "0 < u32_from_le (sub_list (b + 4) (b + 8) bs)"
    by (simp_all add: word_neq_0_conv not_less)
  from * show "a = 2 * unat ?c" by (simp add: double_channels not_less)
qed

lemma pcm_follows_check:
  assumes "wav_loop bs pos parts = Inr (p, parts')" and "wav_agrees parts seen"
  shows "\<exists>seen'. pcm_loop bs pos seen = Some seen' \<and> wav_agrees parts' seen'"
  using assms
proof (induction bs pos parts arbitrary: seen rule: wav_loop.induct)
  case (1 bs pos parts)
  show ?case
  proof (cases "length bs < pos + 8")
    case True
    with 1(2) have "parts' = parts" by (subst (asm) wav_loop.simps) simp
    with True 1(3) show ?thesis by (subst pcm_loop.simps) simp
  next
    case False
    define sz where "sz = unat (u32_from_le (sub_list (pos + 4) (pos + 8) bs))"
    obtain alignment data where f: "parts = (alignment, data)" by (cases parts)
    obtain c r pcm where s: "seen = (c, r, pcm)" by (cases seen)
    from 1(2) False obtain parts1 where b: "pos + 8 + sz \<le> length bs" "\<not> 2 ^ 64 \<le> pos + 8 + sz"
      and w: "wav_chunk bs pos sz parts = Inr parts1"
      and go: "wav_loop bs (pos + 8 + sz + sz mod 2) parts1 = Inr (p, parts')"
      by (subst (asm) wav_loop.simps) (auto simp: sz_def Let_def result_simps split: if_splits)
    have IH: "wav_agrees parts1 seen1 \<Longrightarrow>
        \<exists>seen'. pcm_loop bs (pos + 8 + sz + sz mod 2) seen1 = Some seen' \<and> wav_agrees parts' seen'" for seen1
      using 1(1)[OF False sz_def refl _ w go] b by simp
    consider (fmt) "sub_list pos (pos + 4) bs = bytes_of ''fmt ''"
      | (data) "sub_list pos (pos + 4) bs = bytes_of ''data''" "sub_list pos (pos + 4) bs \<noteq> bytes_of ''fmt ''"
      | (skipped) "sub_list pos (pos + 4) bs \<noteq> bytes_of ''fmt ''" "sub_list pos (pos + 4) bs \<noteq> bytes_of ''data''"
      by blast
    then show ?thesis
    proof cases
      case fmt
      with w f obtain a where a: "wav_format bs (pos + 8) sz = Inr a" and f1: "parts1 = (Some a, data)"
        by (auto simp: wav_chunk_def result_simps)
      note af = wav_format_Inr[OF a, simplified add.assoc, simplified]
      have "wav_agrees parts1 (u16_le (sub_list (pos + 10) (pos + 12) bs), u32_from_le (sub_list (pos + 12) (pos + 16) bs), pcm)"
        using af 1(3) f s f1 by (simp add: wav_agrees_def)
      moreover have "get_slice (pos + 10) (pos + 12) bs = Some (sub_list (pos + 10) (pos + 12) bs)"
        "get_slice (pos + 12) (pos + 16) bs = Some (sub_list (pos + 12) (pos + 16) bs)"
        using b af(1) by (auto intro!: get_slice_in)
      ultimately show ?thesis
        using IH False fmt s by (subst pcm_loop.simps) (simp add: sz_def Let_def)
    next
      case data
      with w f have f1: "parts1 = (alignment, Some sz)" by (auto simp: wav_chunk_def split: if_splits)
      have "wav_agrees parts1 (c, r, Some (sub_list (pos + 8) (pos + 8 + sz) bs))"
        using 1(3) f s f1 b by (simp add: wav_agrees_def)
      moreover have "get_slice (pos + 8) (pos + 8 + sz) bs = Some (sub_list (pos + 8) (pos + 8 + sz) bs)"
        using b by (auto intro!: get_slice_in)
      ultimately show ?thesis
        using IH False data s by (subst pcm_loop.simps) (simp add: sz_def Let_def)
    next
      case skipped
      with w f have "parts1 = parts" by (auto simp: wav_chunk_def)
      then show ?thesis
        using IH[of seen] 1(3) False skipped s by (subst pcm_loop.simps) (simp add: sz_def Let_def)
    qed
  qed
qed

lemma pcm_identity_sound:
  "case pcm_identity bs of
     None \<Rightarrow> False
   | Some (Inl e) \<Rightarrow> validate_wav bs = Inl e
   | Some (Inr (channels, rate, pcm)) \<Rightarrow>
       validate_wav bs = Inr () \<and> 0 < channels \<and> channels \<le> 16 \<and> 0 < rate
       \<and> pcm \<noteq> [] \<and> length pcm mod (2 * unat channels) = 0"
proof (cases "validate_wav bs")
  case (Inl e)
  then show ?thesis by (simp add: pcm_identity_def)
next
  case (Inr u)
  then obtain a n where w: "wav_loop bs 12 (None, None) = Inr (length bs, Some a, Some n)" and n: "0 < n" "n mod a = 0"
    by (auto simp: validate_wav_def result_simps split: if_splits option.splits)
  have "wav_agrees (None, None) (0, 0, None)" by (simp add: wav_agrees_def)
  from pcm_follows_check[OF w this] obtain c r pcm
    where p: "pcm_loop bs 12 (0, 0, None) = Some (c, r, pcm)" and g: "wav_agrees (Some a, Some n) (c, r, pcm)"
    by (metis prod_cases3)
  with n Inr show ?thesis by (cases pcm) (auto simp: pcm_identity_def wav_agrees_def)
qed

text \<open>Every file the WAV check accepts is read without a panic, and what is read is usable
  PCM: between one and sixteen channels, a positive rate, and a non-empty whole number of 16-bit
  frames; a file the check rejects gives the check's error, so the reader's own error for a
  missing data chunk never occurs.\<close>

theorem pcm_identity_reads_whole_frames:
  "case pcm_identity bs of
     None \<Rightarrow> False
   | Some (Inl e) \<Rightarrow> validate_wav bs = Inl e
   | Some (Inr (channels, rate, pcm)) \<Rightarrow>
       validate_wav bs = Inr () \<and> 0 < channels \<and> channels \<le> 16 \<and> 0 < rate
       \<and> pcm \<noteq> [] \<and> length pcm mod (2 * unat channels) = 0"
  by (rule pcm_identity_sound)

subsection \<open>Alpha movies\<close>

text \<open>The fields of a USM chunk header, which are the first bytes of the chunk as well.\<close>

definition usm_tag :: "byte list \<Rightarrow> byte list" where
  "usm_tag c = sub_list 0 4 c"

definition usm_size :: "byte list \<Rightarrow> nat" where
  "usm_size c = unat (u32_from_be (sub_list 4 8 c))"

definition usm_head :: "byte list \<Rightarrow> nat" where
  "usm_head c = unat (u16_be (sub_list 8 10 c))"

definition usm_padding :: "byte list \<Rightarrow> nat" where
  "usm_padding c = unat (u16_be (sub_list 10 12 c))"

text \<open>The first loop of \<open>split_alpha_usm\<close>: the chunks of the file and whether one is an alpha chunk.\<close>

definition usm_known :: "byte list \<Rightarrow> bool \<Rightarrow> error + bool" where
  "usm_known tag alpha =
     (if tag = bytes_of ''CRID'' \<or> tag = bytes_of ''@SFV'' \<or> tag = bytes_of ''@SFA'' then Inr alpha
      else if tag = bytes_of ''@ALP'' then Inr True
      else Inl (error.Export ''unsupported USM chunk type''))"

function usm_loop :: "byte list \<Rightarrow> nat \<Rightarrow> byte list list \<Rightarrow> bool \<Rightarrow> error + byte list list \<times> bool" where
  "usm_loop bs offset pieces alpha =
     (if length bs \<le> offset then Inr (pieces, alpha)
      else case get_slice offset (offset + 32) bs of
        None \<Rightarrow> Inl (error.Export ''truncated USM chunk header'')
      | Some h \<Rightarrow>
          if usm_head h < 24 \<or> usm_size h < usm_head h + usm_padding h \<or> h ! 12 \<noteq> 0
          then Inl (error.Export ''unsupported USM chunk layout or channel'')
          else let fin = offset + (usm_size h + 8) in
            if 2 ^ 64 \<le> fin \<or> length bs < fin then Inl (error.Export ''truncated USM chunk'')
            else and_then (usm_known (usm_tag h) alpha) (\<lambda>alpha'.
              usm_loop bs fin (pieces @ [sub_list offset fin bs]) alpha'))"
  by pat_completeness auto
termination
  by (relation "measure (\<lambda>(bs, offset, pieces, alpha). length bs - offset)") auto

declare usm_loop.simps [simp del]

text \<open>The second loop: the colour container keeps every chunk but the alpha ones; the alpha
  container gets the \<open>CRID\<close> chunks and the alpha chunks under the tag of a colour track.\<close>

definition split_chunk :: "byte list \<Rightarrow> byte list \<times> byte list \<Rightarrow> byte list \<times> byte list" where
  "split_chunk c tracks =
     (case tracks of (color, alpha) \<Rightarrow>
        if usm_tag c = bytes_of ''CRID'' then (color @ c, alpha @ c)
        else if usm_tag c = bytes_of ''@ALP'' then (color, alpha @ bytes_of ''@SFV'' @ drop 4 c)
        else (color @ c, alpha))"

definition split_alpha_usm :: "byte list \<Rightarrow> error + (byte list \<times> byte list) option" where
  "split_alpha_usm bs =
     and_then (usm_loop bs 0 [] False) (\<lambda>(pieces, alpha).
       if \<not> alpha then Inr None else Inr (Some (fold split_chunk pieces ([], []))))"

definition is_alpha :: "byte list \<Rightarrow> bool" where
  "is_alpha c \<longleftrightarrow> usm_tag c = bytes_of ''@ALP''"

definition as_colour :: "byte list \<Rightarrow> byte list" where
  "as_colour c = (if is_alpha c then bytes_of ''@SFV'' @ drop 4 c else c)"

text \<open>A chunk the walk accepts.\<close>

definition usm_good :: "byte list \<Rightarrow> bool" where
  "usm_good c \<longleftrightarrow> length c = usm_size c + 8 \<and> 24 \<le> usm_head c \<and> usm_head c + usm_padding c \<le> usm_size c
     \<and> c ! 12 = 0 \<and> usm_tag c \<in> {bytes_of ''CRID'', bytes_of ''@SFV'', bytes_of ''@SFA'', bytes_of ''@ALP''}"

lemma tags_distinct [simp]:
  "bytes_of ''CRID'' \<noteq> bytes_of ''@ALP''" "bytes_of ''@SFV'' \<noteq> bytes_of ''@ALP''" "bytes_of ''@SFA'' \<noteq> bytes_of ''@ALP''"
  "bytes_of ''@ALP'' \<noteq> bytes_of ''CRID''" "bytes_of ''@ALP'' \<noteq> bytes_of ''@SFV''" "bytes_of ''@ALP'' \<noteq> bytes_of ''@SFA''"
  "bytes_of ''CRID'' \<noteq> bytes_of ''@SFV''" "bytes_of ''@SFV'' \<noteq> bytes_of ''CRID''"
  by (simp_all add: bytes_of_def)

lemma usm_fields_take [simp]:
  "32 \<le> n \<Longrightarrow> usm_tag (take n c) = usm_tag c" "32 \<le> n \<Longrightarrow> usm_size (take n c) = usm_size c"
  "32 \<le> n \<Longrightarrow> usm_head (take n c) = usm_head c" "32 \<le> n \<Longrightarrow> usm_padding (take n c) = usm_padding c"
  by (simp_all add: usm_tag_def usm_size_def usm_head_def usm_padding_def sub_list_def drop_take min_def)

lemma usm_fields_append [simp]:
  "32 \<le> length c \<Longrightarrow> usm_tag (c @ r) = usm_tag c" "32 \<le> length c \<Longrightarrow> usm_size (c @ r) = usm_size c"
  "32 \<le> length c \<Longrightarrow> usm_head (c @ r) = usm_head c" "32 \<le> length c \<Longrightarrow> usm_padding (c @ r) = usm_padding c"
  by (simp_all add: usm_tag_def usm_size_def usm_head_def usm_padding_def sub_list_append_left)

lemma usm_good_length: "usm_good c \<Longrightarrow> 32 \<le> length c"
  by (simp add: usm_good_def)

lemma usm_known_Inr:
  "usm_known tag alpha = Inr alpha' \<longleftrightarrow>
     tag \<in> {bytes_of ''CRID'', bytes_of ''@SFV'', bytes_of ''@SFA'', bytes_of ''@ALP''} \<and> alpha' = (alpha \<or> tag = bytes_of ''@ALP'')"
  by (auto simp: usm_known_def)

text \<open>One accepted chunk at the current offset is one step of the walk.\<close>

lemma usm_loop_step:
  assumes "usm_good c" and "length (pre @ c @ rest) < 2 ^ 64"
  shows "usm_loop (pre @ c @ rest) (length pre) pieces alpha
    = usm_loop (pre @ c @ rest) (length (pre @ c)) (pieces @ [c]) (alpha \<or> is_alpha c)"
proof -
  have l: "32 \<le> length c" using assms(1) by (rule usm_good_length)
  have h: "get_slice (length pre) (length pre + 32) (pre @ c @ rest) = Some (take 32 c)"
    using l by (simp add: get_slice_def sub_list_def)
  have k: "usm_known (usm_tag c) alpha = Inr (alpha \<or> is_alpha c)"
    using assms(1) by (simp add: usm_known_Inr usm_good_def is_alpha_def)
  have "sub_list (length pre) (length pre + length c) (pre @ c @ rest) = c" by (simp add: sub_list_def)
  with l h k assms show ?thesis
    by (subst usm_loop.simps) (auto simp: usm_good_def Let_def)
qed

lemma usm_loop_concat:
  assumes "list_all usm_good cs" and "length (pre @ concat cs) < 2 ^ 64"
  shows "usm_loop (pre @ concat cs) (length pre) pieces alpha = Inr (pieces @ cs, alpha \<or> list_ex is_alpha cs)"
  using assms
proof (induction cs arbitrary: pre pieces alpha)
  case Nil
  then show ?case by (subst usm_loop.simps) simp
next
  case (Cons c cs)
  then show ?case
    using usm_loop_step[of c pre "concat cs" pieces alpha] Cons.IH[of "pre @ c" "pieces @ [c]" "alpha \<or> is_alpha c"]
    by (simp add: disj_assoc)
qed

text \<open>Conversely a successful walk has cut the rest of the file into accepted chunks.\<close>

lemma usm_loop_Inr:
  assumes "usm_loop bs offset pieces alpha = Inr (cs, alpha')" and "offset \<le> length bs"
  shows "\<exists>ds. cs = pieces @ ds \<and> concat ds = drop offset bs \<and> list_all usm_good ds
    \<and> alpha' = (alpha \<or> list_ex is_alpha ds) \<and> (ds = [] \<or> length bs < 2 ^ 64)"
  using assms
proof (induction bs offset pieces alpha rule: usm_loop.induct)
  case (1 bs offset pieces alpha)
  show ?case
  proof (cases "length bs \<le> offset")
    case True
    with 1(2) show ?thesis by (subst (asm) usm_loop.simps) auto
  next
    case False
    with 1(2) obtain h alpha1 where h: "get_slice offset (offset + 32) bs = Some h"
      and g: "\<not> (usm_head h < 24 \<or> usm_size h < usm_head h + usm_padding h \<or> h ! 12 \<noteq> 0)"
      and f: "\<not> (2 ^ 64 \<le> offset + (usm_size h + 8) \<or> length bs < offset + (usm_size h + 8))"
      and k: "usm_known (usm_tag h) alpha = Inr alpha1"
      and go: "usm_loop bs (offset + (usm_size h + 8)) (pieces @ [sub_list offset (offset + (usm_size h + 8)) bs]) alpha1
        = Inr (cs, alpha')"
      by (subst (asm) usm_loop.simps) (auto simp: Let_def result_simps split: option.splits if_splits)
    define fin where "fin = offset + (usm_size h + 8)"
    define c where "c = sub_list offset fin bs"
    have h': "h = take 32 (drop offset bs)" using h by (simp add: get_slice_def sub_list_def split: if_splits)
    have n: "32 \<le> usm_size h + 8" using g by simp
    have hc: "h = take 32 c" using n by (simp add: h' c_def fin_def sub_list_def min_def)
    have l: "length c = usm_size h + 8" using f by (simp add: c_def fin_def)
    have fields: "usm_tag c = usm_tag h" "usm_size c = usm_size h" "usm_head c = usm_head h" "usm_padding c = usm_padding h"
      "c ! 12 = h ! 12" by (simp_all add: hc)
    have good: "usm_good c" using g k l by (simp add: usm_good_def fields usm_known_Inr)
    have a: "alpha1 = (alpha \<or> is_alpha c)" using k by (simp add: usm_known_Inr is_alpha_def fields)
    from 1(1)[OF False h g fin_def _ k, folded fin_def] go f obtain ds where
      ds: "cs = (pieces @ [c]) @ ds" "concat ds = drop fin bs" "list_all usm_good ds"
        "alpha' = (alpha1 \<or> list_ex is_alpha ds)" "ds = [] \<or> length bs < 2 ^ 64"
      unfolding fin_def[symmetric] c_def[symmetric] by auto
    have "c @ drop fin bs = drop offset bs"
      unfolding c_def sub_list_def fin_def by (metis add.commute add_diff_cancel_left' append_take_drop_id drop_drop)
    moreover have "length bs < 2 ^ 64"
    proof (cases "ds = []")
      case True
      with ds(2) f show ?thesis by (simp add: fin_def)
    qed (use ds(5) in simp)
    ultimately show ?thesis
      using ds good a by (intro exI[of _ "c # ds"]) auto
  qed
qed

lemma fold_split_chunk:
  "fold split_chunk cs (color, alpha) =
     (color @ concat (filter (\<lambda>c. \<not> is_alpha c) cs),
      alpha @ concat (map as_colour (filter (\<lambda>c. is_alpha c \<or> usm_tag c = bytes_of ''CRID'') cs)))"
  by (induction cs arbitrary: color alpha) (auto simp: split_chunk_def is_alpha_def as_colour_def)

lemma as_colour_good:
  assumes "usm_good c"
  shows "usm_good (as_colour c)" and "\<not> is_alpha (as_colour c)" and "length (as_colour c) = length c"
proof -
  have l: "32 \<le> length c" using assms by (rule usm_good_length)
  have t: "length (bytes_of ''@SFV'') = 4" by (simp add: bytes_of_def)
  have "sub_list i j (bytes_of ''@SFV'' @ drop 4 c) = sub_list i j c" if "4 \<le> i" for i j
    using that l by (simp add: sub_list_def t)
  moreover have "(bytes_of ''@SFV'' @ drop 4 c) ! 12 = c ! 12" using l by (simp add: nth_append t)
  moreover have "usm_tag (bytes_of ''@SFV'' @ drop 4 c) = bytes_of ''@SFV''" by (simp add: usm_tag_def sub_list_def t)
  ultimately show "usm_good (as_colour c)" "\<not> is_alpha (as_colour c)" "length (as_colour c) = length c"
    using assms l
    by (auto simp: as_colour_def usm_good_def is_alpha_def usm_size_def usm_head_def usm_padding_def t)
qed

lemma length_concat_filter_le: "length (concat (filter p cs)) \<le> length (concat cs)"
  by (induction cs) auto

lemma length_concat_as_colour: "list_all usm_good cs \<Longrightarrow> length (concat (map as_colour cs)) = length (concat cs)"
  by (induction cs) (auto simp: as_colour_good)

lemma list_all_filter: "list_all q cs \<Longrightarrow> list_all q (filter p cs)"
  by (auto simp: list_all_iff)

text \<open>The chunks of a file, as the walk finds them.\<close>

definition usm_chunks :: "byte list \<Rightarrow> error + byte list list" where
  "usm_chunks bs = and_then (usm_loop bs 0 [] False) (\<lambda>(pieces, alpha). Inr pieces)"

lemma usm_chunks_concat:
  assumes "list_all usm_good cs" and "length (concat cs) < 2 ^ 64" and "\<not> list_ex is_alpha cs"
  shows "usm_chunks (concat cs) = Inr cs" and "split_alpha_usm (concat cs) = Inr None"
  using assms usm_loop_concat[of cs "[]" "[]" False] by (simp_all add: usm_chunks_def split_alpha_usm_def)

text \<open>C26. Splitting an alpha movie loses no chunk: the chunks of the input concatenate to the
  input; the colour container, read again, consists of exactly the chunks that are not alpha
  chunks, and the alpha container of exactly the \<open>CRID\<close> and alpha chunks with every byte after
  the tag unchanged, both in the original order; both are valid containers with no alpha track.\<close>

theorem alpha_split_keeps_every_chunk:
  assumes "split_alpha_usm bs = Inr (Some (color, alpha))"
  shows "\<exists>cs. usm_chunks bs = Inr cs \<and> concat cs = bs \<and> list_ex is_alpha cs
    \<and> usm_chunks color = Inr (filter (\<lambda>c. \<not> is_alpha c) cs)
    \<and> usm_chunks alpha = Inr (map as_colour (filter (\<lambda>c. is_alpha c \<or> usm_tag c = bytes_of ''CRID'') cs))
    \<and> split_alpha_usm color = Inr None \<and> split_alpha_usm alpha = Inr None"
proof -
  let ?co = "\<lambda>c. \<not> is_alpha c" and ?al = "\<lambda>c. is_alpha c \<or> usm_tag c = bytes_of ''CRID''"
  from assms obtain cs where w: "usm_loop bs 0 [] False = Inr (cs, True)"
    and f: "fold split_chunk cs ([], []) = (color, alpha)"
    by (auto simp: split_alpha_usm_def result_simps split: if_splits)
  from usm_loop_Inr[OF w] have cs: "concat cs = bs" "list_all usm_good cs" "list_ex is_alpha cs" "cs = [] \<or> length bs < 2 ^ 64"
    by auto
  then have l: "length (concat cs) < 2 ^ 64" by (cases cs) auto
  have split: "color = concat (filter ?co cs)" "alpha = concat (map as_colour (filter ?al cs))"
    using f by (simp_all add: fold_split_chunk)
  have "usm_chunks color = Inr (filter ?co cs) \<and> split_alpha_usm color = Inr None"
    unfolding split using usm_chunks_concat[OF list_all_filter[OF cs(2), of ?co]] l length_concat_filter_le[of ?co cs]
    by (simp add: list_ex_iff)
  moreover have "usm_chunks alpha = Inr (map as_colour (filter ?al cs)) \<and> split_alpha_usm alpha = Inr None"
  proof -
    have "list_all usm_good (map as_colour (filter ?al cs))" "\<not> list_ex is_alpha (map as_colour (filter ?al cs))"
      using cs(2) by (auto simp: list_all_iff list_ex_iff as_colour_good)
    with usm_chunks_concat[OF this(1)] l length_concat_filter_le[of ?al cs] list_all_filter[OF cs(2), of ?al] show ?thesis
      unfolding split by (simp add: length_concat_as_colour)
  qed
  ultimately show ?thesis using w cs by (auto simp: usm_chunks_def)
qed

subsection \<open>ADX packets of old USM files\<close>

text \<open>
  The 32-byte mask of a key. The array \<open>t\<close> is filled in index order from the eight key bytes; the
  16-bit sums and differences of the source keep their low byte, which is the 8-bit sum and
  difference.
\<close>

definition legacy_audio_mask :: "u64 \<Rightarrow> byte list" where
  "legacy_audio_mask key =
     (let k = (\<lambda>n. ucast (drop_bit (8 * n) key) :: byte);
          t0 = k 0; t1 = k 1; t2 = k 2; t3 = k 3 - 0x34; t4 = (k 4 AND 0xF) + 0xF9; t5 = k 5 XOR 0x13;
          t6 = k 6 + 0x61; t7 = t0 XOR 0xFF; t8 = t2 + t1; t9 = t1 - t7; tA = t2 XOR 0xFF; tB = t1 XOR 0xFF;
          tC = tB + t9; tD = t8 - t3; tE = tD XOR 0xFF; tF = tA - tB; t10 = t8 - tF; t11 = t10 XOR t7;
          t12 = tF XOR 0xFF; t13 = t3 XOR 0x10; t14 = t4 - 0x32; t15 = t5 + 0xED; t16 = t6 XOR 0xF3;
          t17 = t13 - tF; t18 = t15 + t7; t19 = 0x21 - t13; t1A = t14 XOR t17; t1B = t16 + t16;
          t1C = t17 + 0x44; t1D = t3 + t4; t1E = t5 - t16; t1F = t1D XOR t13;
          t = [t0, t1, t2, t3, t4, t5, t6, t7, t8, t9, tA, tB, tC, tD, tE, tF,
               t10, t11, t12, t13, t14, t15, t16, t17, t18, t19, t1A, t1B, t1C, t1D, t1E, t1F]
      in map (\<lambda>i. if odd i then bytes_of ''URUC'' ! (i div 2 mod 4) else t ! i XOR 0xFF) [0..<32])"

text \<open>One packet: its first \<open>0x140\<close> bytes are kept, the rest is combined with the repeated mask.\<close>

definition unmask_packet :: "byte list \<Rightarrow> byte list \<Rightarrow> byte list" where
  "unmask_packet ks packet =
     take 0x140 packet @ map2 (\<lambda>i b. b XOR ks ! (i mod 32)) [0..<length packet - 0x140] (drop 0x140 packet)"

function adx_stream_loop :: "byte list \<Rightarrow> byte list \<Rightarrow> nat \<Rightarrow> byte list \<Rightarrow> error + byte list" where
  "adx_stream_loop bs ks offset result =
     (if length bs \<le> offset then Inr result
      else case get_slice offset (offset + 32) bs of
        None \<Rightarrow> Inl (error.Export ''truncated legacy USM header'')
      | Some h \<Rightarrow>
          let fin = offset + (usm_size h + 8) in
          if 2 ^ 64 \<le> fin \<or> length bs < fin then Inl (error.Export ''truncated legacy USM chunk'')
          else if usm_head h < 24 \<or> usm_size h < usm_head h + usm_padding h \<or> h ! 12 \<noteq> 0
          then Inl (error.Export ''invalid legacy USM layout'')
          else adx_stream_loop bs ks fin
            (if usm_tag h = bytes_of ''@SFA'' \<and> h ! 15 AND 3 = 0
             then result @ unmask_packet ks (sub_list (offset + 8 + usm_head h) (fin - usm_padding h) bs)
             else result))"
  by pat_completeness auto
termination
  by (relation "measure (\<lambda>(bs, ks, offset, result). length bs - offset)") auto

declare adx_stream_loop.simps [simp del]

definition legacy_adx_stream :: "byte list \<Rightarrow> u64 \<Rightarrow> error + byte list" where
  "legacy_adx_stream bs key = adx_stream_loop bs (legacy_audio_mask key) 0 []"

lemma length_unmask_packet [simp]: "length (unmask_packet ks packet) = length packet"
  by (simp add: unmask_packet_def)

lemma nth_unmask_packet:
  assumes "i < length packet"
  shows "unmask_packet ks packet ! i
    = (if i < 0x140 then packet ! i else packet ! i XOR ks ! ((i - 0x140) mod 32))"
proof (cases "i < 0x140")
  case True
  with assms show ?thesis by (simp add: unmask_packet_def nth_append)
next
  case False
  then have "\<not> i < length (take 0x140 packet)" "i - length (take 0x140 packet) = i - 0x140" using assms by auto
  with False assms show ?thesis by (simp only: unmask_packet_def nth_append) simp
qed

text \<open>Masking is its own inverse.\<close>

lemma unmask_packet_involution: "unmask_packet ks (unmask_packet ks packet) = packet"
  by (rule nth_equalityI) (auto simp: nth_unmask_packet xor.assoc)

definition adx_packet :: "byte list \<Rightarrow> byte list" where
  "adx_packet c = sub_list (8 + usm_head c) (length c - usm_padding c) c"

definition is_adx :: "byte list \<Rightarrow> bool" where
  "is_adx c \<longleftrightarrow> usm_tag c = bytes_of ''@SFA'' \<and> c ! 15 AND 3 = 0"

definition adx_good :: "byte list \<Rightarrow> bool" where
  "adx_good c \<longleftrightarrow> length c = usm_size c + 8 \<and> 24 \<le> usm_head c \<and> usm_head c + usm_padding c \<le> usm_size c \<and> c ! 12 = 0"

lemma adx_stream_concat:
  assumes "list_all adx_good cs" and "length (pre @ concat cs) < 2 ^ 64"
  shows "adx_stream_loop (pre @ concat cs) ks (length pre) result
    = Inr (result @ concat (map (\<lambda>c. unmask_packet ks (adx_packet c)) (filter is_adx cs)))"
  using assms
proof (induction cs arbitrary: pre result)
  case Nil
  then show ?case by (subst adx_stream_loop.simps) simp
next
  case (Cons c cs)
  then have g: "adx_good c" and l: "32 \<le> length c" by (simp_all add: adx_good_def)
  have h: "get_slice (length pre) (length pre + 32) (pre @ c @ concat cs) = Some (take 32 c)"
    using l by (simp add: get_slice_def sub_list_def)
  have p: "sub_list (length pre + 8 + usm_head c) (length pre + length c - usm_padding c) (pre @ c @ concat cs) = adx_packet c"
    using g by (simp add: adx_packet_def sub_list_def adx_good_def)
  show ?case
    using Cons.IH[of "pre @ c" "result @ (if is_adx c then unmask_packet ks (adx_packet c) else [])"] Cons.prems g l h p
    by (subst adx_stream_loop.simps) (auto simp: Let_def adx_good_def is_adx_def[of c])
qed

text \<open>C27. A legacy audio stream masked with a key is recovered with that key: when every packet of
  the audio chunks is the masked form of a plain packet, the stream read from the file is the
  concatenation of the plain packets, each unmasked on its own.\<close>

theorem legacy_audio_recovered:
  assumes "list_all adx_good cs" and "length (concat cs) < 2 ^ 64"
    and "map adx_packet (filter is_adx cs) = map (unmask_packet (legacy_audio_mask key)) plain"
  shows "legacy_adx_stream (concat cs) key = Inr (concat plain)"
proof -
  have "map (\<lambda>c. unmask_packet (legacy_audio_mask key) (adx_packet c)) (filter is_adx cs)
      = map (unmask_packet (legacy_audio_mask key)) (map (unmask_packet (legacy_audio_mask key)) plain)"
    by (simp flip: assms(3))
  then show ?thesis
    using adx_stream_concat[of cs "[]" "legacy_audio_mask key" "[]"] assms(1,2)
    by (simp add: legacy_adx_stream_def unmask_packet_involution comp_def)
qed

subsection \<open>ADX block layout\<close>

definition invalid_adx :: error where
  "invalid_adx = error.Export ''invalid or truncated ADX blocks''"

text \<open>The result is the channel count, the sample rate, the sample count and the end of the blocks.
  \<open>as_chunks::<18>()\<close> drops a shorter tail; the first byte of every block is read.\<close>

definition adx_layout :: "byte list \<Rightarrow> error + byte \<times> u32 \<times> u32 \<times> nat" where
  "adx_layout bs =
     and_then (fail_if (length bs < 24 \<or> sub_list 0 2 bs \<noteq> [0x80, 0] \<or> sub_list 4 7 bs \<noteq> [3, 18, 4]
        \<or> \<not> (1 \<le> bs ! 7 \<and> bs ! 7 \<le> 16)) invalid_adx) (\<lambda>_.
     (let header = unat (u16_be (sub_list 2 4 bs)) + 4 in
     and_then (fail_if (header < 24 \<or> length bs < header
        \<or> sub_list (header - 6) header bs \<noteq> bytes_of ''(c)CRI'') invalid_adx) (\<lambda>_.
     (let rate = u32_from_be (sub_list 8 12 bs); samples = u32_from_be (sub_list 12 16 bs) in
     and_then (fail_if (rate = 0 \<or> samples = 0) invalid_adx) (\<lambda>_.
     (let channels = bs ! 7; len = (unat samples + 31) div 32 * (unat channels * 18); fin = header + len in
     and_then (fail_if (2 ^ 64 \<le> len) invalid_adx) (\<lambda>_.
     and_then (fail_if (2 ^ 64 \<le> fin \<or> length bs < fin) invalid_adx) (\<lambda>_.
     and_then (fail_if (list_ex (\<lambda>b. hd b AND 0x80 \<noteq> 0) (chunks_of 18 (sub_list header fin bs))) invalid_adx) (\<lambda>_.
     and_then (fail_if (fin < length bs \<and> (length bs - fin < 4 \<or> sub_list fin (fin + 2) bs \<noteq> [0x80, 1])) invalid_adx)
       (\<lambda>_. Inr (channels, rate, samples, fin)))))))))))"

lemma sub_list_take [simp]: "j \<le> k \<Longrightarrow> sub_list i j (take k xs) = sub_list i j xs"
  by (simp add: sub_list_def drop_take min_def)

lemma adx_layout_Inl: "adx_layout bs = Inl e \<Longrightarrow> e = invalid_adx"
  by (auto simp: adx_layout_def Let_def result_simps)

text \<open>The values of an accepted file, spelled out.\<close>

lemma adx_layout_Inr:
  assumes "adx_layout bs = Inr (c, r, n, fin)"
  shows "24 \<le> length bs" "c = bs ! 7" "1 \<le> c" "c \<le> 16" "r = u32_from_be (sub_list 8 12 bs)" "r \<noteq> 0"
    "n = u32_from_be (sub_list 12 16 bs)" "n \<noteq> 0"
    "fin = unat (u16_be (sub_list 2 4 bs)) + 4 + (unat n + 31) div 32 * (unat c * 18)" "fin \<le> length bs"
    "24 \<le> unat (u16_be (sub_list 2 4 bs)) + 4"
    "sub_list 0 2 bs = [0x80, 0]" "sub_list 4 7 bs = [3, 18, 4]"
    "sub_list (unat (u16_be (sub_list 2 4 bs)) + 4 - 6) (unat (u16_be (sub_list 2 4 bs)) + 4) bs = bytes_of ''(c)CRI''"
    "\<not> list_ex (\<lambda>b. hd b AND 0x80 \<noteq> 0) (chunks_of 18 (sub_list (unat (u16_be (sub_list 2 4 bs)) + 4) fin bs))"
    "fin < 2 ^ 64"
  using assms by (auto simp: adx_layout_def Let_def result_simps)

text \<open>C28. The end of an ADX stream is where the sample count puts it: an accepted stream has one to
  sixteen channels, a positive rate and sample count, and the block bytes those samples need; cut
  at that end it is accepted with the same layout, and cut anywhere before it is rejected, so a
  premature end of file is never taken for a complete stream.\<close>

theorem adx_premature_end_rejected:
  assumes "adx_layout bs = Inr (c, r, n, fin)"
  shows "1 \<le> c \<and> c \<le> 16 \<and> 0 < r \<and> 0 < n \<and> fin \<le> length bs
    \<and> unat n * unat c * 18 \<le> 32 * fin
    \<and> adx_layout (take fin bs) = Inr (c, r, n, fin)
    \<and> (\<forall>k. k < fin \<longrightarrow> adx_layout (take k bs) = Inl invalid_adx)"
proof -
  note l = adx_layout_Inr[OF assms]
  define header where "header = unat (u16_be (sub_list 2 4 bs)) + 4"
  have f: "fin = header + (unat n + 31) div 32 * (unat c * 18)" "24 \<le> header" using l by (simp_all add: header_def)
  have "unat n \<le> 32 * ((unat n + 31) div 32)" by simp
  then have "unat n * (unat c * 18) \<le> 32 * ((unat n + 31) div 32) * (unat c * 18)" by (rule mult_le_mono1)
  also have "\<dots> \<le> 32 * fin" by (simp add: f(1) distrib_left mult.assoc)
  finally have "unat n * unat c * 18 \<le> 32 * fin" by (simp add: mult.assoc)
  moreover have whole: "adx_layout (take fin bs) = Inr (c, r, n, fin)"
    using l f by (simp add: adx_layout_def Let_def flip: header_def) (simp add: algebra_simps)
  moreover have "adx_layout (take k bs) = Inl invalid_adx" if k: "k < fin" for k
  proof (cases "adx_layout (take k bs)")
    case (Inl e)
    then show ?thesis by (simp add: adx_layout_Inl)
  next
    case (Inr q)
    obtain c' r' n' fin' where q: "q = (c', r', n', fin')" by (cases q)
    note m = adx_layout_Inr[OF Inr[unfolded q]]
    have k24: "24 \<le> k" using m(1) by simp
    then have "c' = c" "n' = n" using m(2,7) l(2,7) by simp_all
    then have "fin' = fin" using m(9) l(9) k24 by simp
    with m(10) k show ?thesis by simp
  qed
  ultimately show ?thesis using l by (simp add: word_neq_0_conv)
qed

subsection \<open>Signatures and command lines\<close>

definition is_hca :: "byte list \<Rightarrow> bool" where
  "is_hca bs \<longleftrightarrow> 4 \<le> length bs \<and> map (\<lambda>b. b AND 0x7F) (take 4 bs) = bytes_of ''HCA'' @ [0]"

definition font_extension :: "string \<Rightarrow> string" where
  "font_extension suggested =
     (if to_ascii_lowercase suggested = to_ascii_lowercase ''.otf'' then ''otf'' else ''ttf'')"

text \<open>Masking the signature (setting the high bit of some of its bytes) does not hide it.\<close>

lemma is_hca_masked: "is_hca bs \<Longrightarrow> is_hca (map (\<lambda>b. b OR 0x80) (take 4 bs) @ drop 4 bs)"
proof -
  have "(b OR 0x80) AND 0x7F = b AND 0x7F" for b :: byte
    by (simp add: bit.conj_disj_distrib2)
  then have "(\<lambda>b. b AND 0x7F) \<circ> (\<lambda>b. b OR 0x80) = (\<lambda>b :: byte. b AND 0x7F)" by (simp add: fun_eq_iff)
  then show "is_hca bs \<Longrightarrow> is_hca (map (\<lambda>b. b OR 0x80) (take 4 bs) @ drop 4 bs)"
    by (simp add: is_hca_def)
qed

text \<open>Signed decimal text, and the arguments of the stream-copy mux.\<close>

definition int_text :: "int \<Rightarrow> string" where
  "int_text n = (if n < 0 then CHR ''-'' # decimal (nat (- n)) else decimal (nat n))"

definition mkv_mux_args :: "string \<Rightarrow> string option \<Rightarrow> (int \<times> int) option \<Rightarrow> string \<Rightarrow> string list" where
  "mkv_mux_args video audio frame_rate movie =
     [''-fflags'', ''+genpts+bitexact'', ''-protocol_whitelist'', ''file,pipe'']
     @ (case frame_rate of Some (num, den) \<Rightarrow> [''-r'', int_text num @ ''/'' @ int_text den] | None \<Rightarrow> [])
     @ [''-i'', video]
     @ (case audio of
          Some a \<Rightarrow> [''-i'', a, ''-map'', ''0:v:0'', ''-map'', ''1:a:0'']
        | None \<Rightarrow> [''-map'', ''0:v:0''])
     @ [''-c'', ''copy'', ''-flags'', ''+bitexact'', ''-fflags'', ''+bitexact'', movie]"

subsection \<open>Examples\<close>

definition demo_chunk :: "string \<Rightarrow> byte list" where
  "demo_chunk tag = bytes_of tag @ [0, 0, 0, 28, 0, 24, 0, 0, 0, 0, 0, 0, 0, 0, 0, 0, 0, 0, 0, 0, 0, 0, 0, 0, 0, 0, 0, 0, 1, 2, 3, 4]"

lemmas demo_chunk_defs = demo_chunk_def bytes_of_def sub_list_def usm_tag_def usm_size_def usm_head_def usm_padding_def
  u32_from_be_def u32_from_le_def u16_be_def u16_le_def u16_from_le_def

lemma demo_chunks_good: "list_all usm_good [demo_chunk ''CRID'', demo_chunk ''@SFV'', demo_chunk ''@ALP'']"
  by (simp add: usm_good_def demo_chunk_defs)

lemma demo_split:
  "split_alpha_usm (concat [demo_chunk ''CRID'', demo_chunk ''@SFV'', demo_chunk ''@ALP''])
    = Inr (Some (demo_chunk ''CRID'' @ demo_chunk ''@SFV'', demo_chunk ''CRID'' @ demo_chunk ''@SFV''))"
proof -
  have t: "usm_tag (demo_chunk ''CRID'') = bytes_of ''CRID''" "usm_tag (demo_chunk ''@SFV'') = bytes_of ''@SFV''"
    "usm_tag (demo_chunk ''@ALP'') = bytes_of ''@ALP''" "bytes_of ''@SFV'' @ drop 4 (demo_chunk ''@ALP'') = demo_chunk ''@SFV''"
    by (simp_all add: demo_chunk_defs)
  have l: "length (demo_chunk x) = length x + 32" for x by (simp add: demo_chunk_def bytes_of_def)
  show ?thesis
    using usm_loop_concat[OF demo_chunks_good, of "[]" "[]" False] t
    by (simp add: split_alpha_usm_def split_chunk_def is_alpha_def l)
qed

theorem alpha_split_keeps_every_chunk_witness:
  "usm_chunks (demo_chunk ''CRID'' @ demo_chunk ''@SFV'') = Inr [demo_chunk ''CRID'', demo_chunk ''@SFV'']"
proof -
  from alpha_split_keeps_every_chunk[OF demo_split] show ?thesis
    using usm_chunks_concat[of "[demo_chunk ''CRID'', demo_chunk ''@SFV'']"] demo_chunks_good
    by (auto simp: is_alpha_def demo_chunk_defs)
qed

text \<open>A packet long enough for its tail to be masked, as the masked file carries it.\<close>

definition demo_packet :: "byte list" where
  "demo_packet = replicate 0x144 0x42"

definition demo_masked :: "byte list" where
  "demo_masked = bytes_of ''@SFA'' @ [0, 0, 1, 0x5C, 0, 24, 0, 0, 0, 0, 0, 0, 0, 0, 0, 0, 0, 0, 0, 0, 0, 0, 0, 0, 0, 0, 0, 0]
     @ unmask_packet (legacy_audio_mask 0x12345678) demo_packet"

theorem legacy_audio_recovered_witness: "legacy_adx_stream demo_masked 0x12345678 = Inr demo_packet"
proof -
  have n: "length (unmask_packet (legacy_audio_mask 0x12345678) demo_packet) = 0x144"
    by (simp add: demo_packet_def)
  define body where "body = unmask_packet (legacy_audio_mask 0x12345678) demo_packet"
  have m: "demo_masked = bytes_of ''@SFA'' @ [0, 0, 1, 0x5C, 0, 24, 0, 0, 0, 0, 0, 0, 0, 0, 0, 0, 0, 0, 0, 0, 0, 0, 0, 0, 0, 0, 0, 0] @ body"
    by (simp only: demo_masked_def body_def)
  have l: "length body = 0x144" using n by (simp only: body_def)
  have f: "usm_size demo_masked = 0x15C" "usm_head demo_masked = 24" "usm_padding demo_masked = 0"
    "demo_masked ! 12 = 0" "usm_tag demo_masked = bytes_of ''@SFA''" "demo_masked ! 15 = 0"
    by (simp_all add: m demo_chunk_defs)
  have "length demo_masked = 0x164" by (simp add: m bytes_of_def l)
  moreover have "adx_packet demo_masked = body"
    by (simp add: adx_packet_def f sub_list_def) (simp add: m bytes_of_def l)
  ultimately show ?thesis
    using legacy_audio_recovered[of "[demo_masked]" "0x12345678" "[demo_packet]"] f
    by (simp add: adx_good_def is_adx_def body_def)
qed

text \<open>The first bytes of the mask of this key, as the repository's own test lists them.\<close>

lemma demo_mask: "take 4 (legacy_audio_mask 0x12345678) = [0x87] @ bytes_of ''U'' @ [0xCB] @ bytes_of ''R''"
  by (simp add: legacy_audio_mask_def Let_def bytes_of_def upt_rec)

definition demo_adx :: "byte list" where
  "demo_adx = [0x80, 0, 0, 20, 3, 18, 4, 1, 0, 0, 0xBB, 0x80, 0, 0, 0, 32, 0, 0] @ bytes_of ''(c)CRI'' @ [0, 0, 0, 0, 0, 0, 0, 0, 0, 0, 0, 0, 0, 0, 0, 0, 0, 0]"

lemma demo_adx_layout: "adx_layout demo_adx = Inr (1, 48000, 32, 42)"
  by (simp add: adx_layout_def Let_def demo_adx_def demo_chunk_defs chunks_of.simps)

theorem adx_premature_end_rejected_witness:
  "adx_layout demo_adx = Inr (1, 48000, 32, 42) \<and> adx_layout (take 41 demo_adx) = Inl invalid_adx"
  using demo_adx_layout adx_premature_end_rejected[OF demo_adx_layout] by auto

end
