(* ===== verification/Media_Process.thy ===== *)
theory Media_Process
  imports Media_Format Export_Config Stable_Layout Cpu_Sampler
begin

text \<open>
  The external encoder of the media export (\<open>src/export.rs\<close>): waiting for a permit of a gate
  (\<open>src/media_gate.rs\<close>), of a decoder stage (\<open>src/stage_limits.rs\<close>) and for the CPU throttle
  (\<open>src/cpu_throttle.rs\<close>), one FFmpeg process (\<open>ffmpeg_attempt\<close>), its retries under one deadline
  (\<open>ffmpeg_deadline\<close>) and the choice between the encoder library and the process
  (\<open>encode_media\<close>).

  One worker is modelled against an environment that is an argument: the cancellation flag and the
  permits the other workers hold at every instant, how long waits and sleeps take, what a process
  started with given arguments does to the files, and what the encoder library does. The clock
  counts nanoseconds, and a turn of a waiting loop takes at least one, so that the loops, which
  all look at a deadline, are total functions. A sleep lasts at least as long as asked. The
  worker's own permits are released when the operation ends; \<open>mw_busy\<close> counts those of the others.
\<close>

subsection \<open>The environment and the state\<close>

datatype io_kind =
    ExecutableBusy | Interrupted | TimedOut | WouldBlock | BrokenPipe
  | ConnectionReset | ConnectionAborted | ConnectionRefused | NotFound | OtherKind

datatype gate = LocalMedia | SharedMedia | LocalCpu | SharedCpu | StageGate decoder_stage

datatype encoding = Flac | Mp3 | Mp4Video

type_synonym files = "string \<Rightarrow> byte list option"

text \<open>A started process: when it would end (\<open>None\<close>: never), whether its status is a success, the text
  of the status, the first 8192 bytes of its diagnostics (\<open>None\<close>: not UTF-8), and the files as it
  leaves them when it ends or is killed at an instant.\<close>

record media_child =
  ch_end :: "nat option"
  ch_success :: bool
  ch_status :: string
  ch_diagnostic :: "string option"
  ch_files :: "nat \<Rightarrow> files"

datatype usage = BadUsage | Usage nat

datatype conversion = Converted | ConversionCancelled | ConversionTimeout | ConversionFailed

record media_world =
  mw_config :: export_config
  mw_throttle :: throttle_config
  mw_limit_stages :: bool
  mw_shared_media :: "nat option"
  mw_shared_cpu :: "nat option"
  mw_runtime :: "string option option"
  mw_cancelled :: "nat \<Rightarrow> bool"
  mw_busy :: "gate \<Rightarrow> nat \<Rightarrow> nat"
  mw_wait :: "nat \<Rightarrow> nat"
  mw_late :: "nat \<Rightarrow> nat"
  mw_usage :: "nat \<Rightarrow> (error + usage) \<times> nat"
  mw_temporary :: "nat \<Rightarrow> string option"
  mw_spawn :: "string list \<Rightarrow> nat \<Rightarrow> files \<Rightarrow> (io_kind \<times> string) + media_child"
  mw_convert :: "encoding \<Rightarrow> string \<Rightarrow> string \<Rightarrow> nat \<Rightarrow> files \<Rightarrow> conversion \<times> nat \<times> files"
  mw_unremovable :: "nat \<Rightarrow> string \<Rightarrow> string option"
  mw_unreadable :: "nat \<Rightarrow> string \<Rightarrow> string option"
  mw_unwritable :: "nat \<Rightarrow> string \<Rightarrow> string option"

text \<open>The state of the worker: the clock, the files, the counters of the summary, and the processes
  started so far, the last one first, with the instant and the files each one found (a history the
  program does not keep). An operation that fails leaves the clock where its last wait that ended put it.\<close>

record media =
  md_now :: nat
  md_files :: files
  md_retries :: nat
  md_conversions :: nat
  md_fallbacks :: nat
  md_started :: "(nat \<times> string list \<times> files) list"

definition milliseconds :: "nat \<Rightarrow> nat" where
  "milliseconds n = n * 1000000"

definition seconds :: "nat \<Rightarrow> nat" where
  "seconds n = n * 1000000000"

subsection \<open>Waiting\<close>

text \<open>\<open>Gate::acquire\<close>: rounds of \<open>gate_try\<close> until one admits or fails.\<close>

function gate_wait :: "media_world \<Rightarrow> gate \<Rightarrow> nat \<Rightarrow> nat \<Rightarrow> nat \<Rightarrow> error + nat" where
  "gate_wait w g lim deadline now =
     (case fst (gate_try lim (mw_busy w g now) (mw_cancelled w now) (deadline \<le> now)) of
        Inl e \<Rightarrow> Inl e
      | Inr (Some _) \<Rightarrow> Inr now
      | Inr None \<Rightarrow> gate_wait w g lim deadline (now + Suc (mw_wait w now)))"
  by pat_completeness auto
termination
  by (relation "measure (\<lambda>(w, g, lim, deadline, now). deadline - now)")
    (auto simp: gate_try_def split: if_splits)

declare gate_wait.simps [simp del]

text \<open>\<open>Gates::acquire_until\<close>, with the effective limits its callers pass.\<close>

definition stage_acquire :: "media_world \<Rightarrow> decoder_stage \<Rightarrow> nat \<Rightarrow> nat \<Rightarrow> error + nat" where
  "stage_acquire w st deadline now =
     and_then (effective_stage_limits (mw_config w)) (\<lambda>limits.
     if mw_cancelled w now then Inl error.Cancelled
     else (case stage_limit limits st of
         None \<Rightarrow> Inr now
       | Some lim \<Rightarrow>
           (case gate_wait w (StageGate st) lim (min deadline (now + seconds (stage_wait limits))) now of
              Inl (error.Export _) \<Rightarrow> Inl (error.Export ''decoder stage admission timed out'')
            | r \<Rightarrow> r)))"

definition throttle_check :: "media_world \<Rightarrow> nat \<Rightarrow> nat \<Rightarrow> error + unit" where
  "throttle_check w deadline now =
     (if mw_cancelled w now then Inl error.Cancelled
      else if deadline \<le> now then Inl (error.Export ''CPU throttle timed out'')
      else Inr ())"

text \<open>\<open>pause\<close>: sleeps of at most 20 ms up to \<open>until\<close>, which is at most the deadline.\<close>

function pause_until :: "media_world \<Rightarrow> nat \<Rightarrow> nat \<Rightarrow> nat \<Rightarrow> error + nat" where
  "pause_until w deadline until now =
     (if now < until
      then and_then (throttle_check w deadline now) (\<lambda>_.
           pause_until w deadline until (now + min (milliseconds 20) (until - now) + mw_late w now))
      else and_then (throttle_check w deadline now) (\<lambda>_. Inr now))"
  by pat_completeness auto
termination
  by (relation "measure (\<lambda>(w, deadline, until, now). until - now)") (auto simp: milliseconds_def)

declare pause_until.simps [simp del]

lemma pause_until_Inr: "pause_until w deadline until now = Inr t \<Longrightarrow> now \<le> t \<and> until \<le> t \<and> t < deadline"
proof (induction w deadline until now rule: pause_until.induct)
  case (1 w deadline until now)
  show ?case
  proof (cases "now < until")
    case True
    with 1(2) have "throttle_check w deadline now = Inr ()"
      and "pause_until w deadline until (now + min (milliseconds 20) (until - now) + mw_late w now) = Inr t"
      by (auto simp: pause_until.simps[of w deadline until now] result_simps)
    with 1(1)[OF True] show ?thesis by force
  next
    case False
    with 1(2) show ?thesis
      by (auto simp: pause_until.simps[of w deadline until now] result_simps throttle_check_def split: if_splits)
  qed
qed

text \<open>The test of one sample in \<open>wait_with\<close>: a usage that is not a finite number of percent is an error; the budget is a whole
  number of CPUs, so the comparison needs the whole percents only.\<close>

definition below_budget :: "usage \<Rightarrow> nat \<Rightarrow> error + bool" where
  "below_budget u budget =
     (case u of BadUsage \<Rightarrow> Inl error.Verification | Usage p \<Rightarrow> Inr (p < max budget 1 * 100))"

function throttle_wait :: "media_world \<Rightarrow> nat \<Rightarrow> nat \<Rightarrow> nat \<Rightarrow> error + nat" where
  "throttle_wait w budget deadline now =
     (if \<not> thr_enabled (mw_throttle w) then Inr now
      else
        and_then (throttle_check w deadline now) (\<lambda>_.
        (let (r, cost) = mw_usage w now; now1 = now + Suc cost in
         and_then r (\<lambda>u.
         and_then (throttle_check w deadline now1) (\<lambda>_.
         and_then (below_budget u budget) (\<lambda>below.
           if below then Inr now1
           else and_then (pause_until w deadline (min deadline (now1 + milliseconds (thr_sample_ms (mw_throttle w)))) now1)
             (\<lambda>now2. throttle_wait w budget deadline now2)))))))"
  by pat_completeness auto
termination
  by (relation "measure (\<lambda>(w, budget, deadline, now). deadline - now)")
    (auto dest!: pause_until_Inr simp: throttle_check_def split: if_splits)

declare throttle_wait.simps [simp del]

subsection \<open>Permits\<close>

text \<open>\<open>acquire_media\<close>: the export's own gate, then the gate the service shares between exports.\<close>

definition acquire_media :: "media_world \<Rightarrow> nat \<Rightarrow> nat \<Rightarrow> error + nat" where
  "acquire_media w deadline now =
     and_then (gate_wait w LocalMedia (xc_media_concurrency (mw_config w)) deadline now) (\<lambda>t.
     case mw_shared_media w of None \<Rightarrow> Inr t | Some lim \<Rightarrow> gate_wait w SharedMedia lim deadline t)"

text \<open>\<open>acquire_cpu\<close>: the local gate when stages are limited, the shared gate, the throttle; a gate's
  timeout is renamed.\<close>

definition cpu_admission :: "error \<Rightarrow> error" where
  "cpu_admission e =
     (if e = error.Export ''media process timed out'' then error.Export ''CPU stage admission timed out'' else e)"

definition acquire_cpu :: "media_world \<Rightarrow> nat \<Rightarrow> nat \<Rightarrow> error + nat" where
  "acquire_cpu w deadline now =
     (let budget = budget_for_cpus (xc_cpu (mw_config w)) (xc_cpus (mw_config w)) in
      case and_then (if mw_limit_stages w
                     then and_then budget (\<lambda>b. gate_wait w LocalCpu b deadline now)
                     else Inr now) (\<lambda>t1.
           and_then (case mw_shared_cpu w of None \<Rightarrow> Inr t1 | Some lim \<Rightarrow> gate_wait w SharedCpu lim deadline t1) (\<lambda>t2.
           and_then budget (\<lambda>b. throttle_wait w b deadline t2))) of
        Inl e \<Rightarrow> Inl (cpu_admission e)
      | Inr t \<Rightarrow> Inr t)"

definition cpu_deadline :: "media_world \<Rightarrow> nat \<Rightarrow> nat" where
  "cpu_deadline w now = now + seconds (stage_wait (xc_stage_limits (mw_config w)))"

subsection \<open>One process\<close>

datatype media_failure = Transient error | Final error

definition transient_spawn_error :: "io_kind \<Rightarrow> bool" where
  "transient_spawn_error k \<longleftrightarrow>
     k \<in> {ExecutableBusy, Interrupted, TimedOut, WouldBlock, BrokenPipe,
       ConnectionReset, ConnectionAborted, ConnectionRefused}"

text \<open>\<open>str::to_lowercase\<close> as far as the markers can tell: they are ASCII, and the one letter beyond ASCII
  whose lower case is an ASCII letter alone is the Kelvin sign (\<open>E2 84 AA\<close>); the dotted capital I
  becomes an \<open>i\<close> followed by a combining mark, and no marker ends in \<open>i\<close>.\<close>

fun lower_text :: "string \<Rightarrow> string" where
  "lower_text [] = []"
| "lower_text [c] = [to_ascii_lower c]"
| "lower_text [c, d] = [to_ascii_lower c, to_ascii_lower d]"
| "lower_text (c # d # e # s) =
     (if c = CHR 0xE2 \<and> d = CHR 0x84 \<and> e = CHR 0xAA then CHR ''k'' # lower_text s
      else to_ascii_lower c # lower_text (d # e # s))"

definition media_markers :: "string list" where
  "media_markers =
     [''timed out'', ''timeout'', ''connection reset'', ''connection refused'', ''connection aborted'',
      ''temporarily unavailable'', ''broken pipe'', ''i/o error'', ''input/output error'', ''signal'', ''killed'']"

definition transient_media_failure :: "string \<Rightarrow> string \<Rightarrow> bool" where
  "transient_media_failure status diagnostic \<longleftrightarrow>
     list_ex (contains_str (lower_text (status @ '' '' @ diagnostic))) media_markers"

text \<open>The polling loop: every 20 ms the child is asked whether it ended; a cancelled or late one is
  killed. \<open>Inr t\<close>: it was seen ended at \<open>t\<close>; \<open>Inl t\<close>: it was killed at \<open>t\<close>.\<close>

function poll_child :: "media_world \<Rightarrow> nat option \<Rightarrow> nat \<Rightarrow> nat \<Rightarrow> nat + nat" where
  "poll_child w fin deadline now =
     (if is_some_and (\<lambda>t. t \<le> now) fin then Inr now
      else if mw_cancelled w now \<or> deadline \<le> now then Inl now
      else poll_child w fin deadline (now + milliseconds 20 + mw_late w now))"
  by pat_completeness auto
termination
  by (relation "measure (\<lambda>(w, fin, deadline, now). deadline - now)") (auto simp: milliseconds_def)

declare poll_child.simps [simp del]

definition child_result :: "media_child \<Rightarrow> string \<Rightarrow> media_failure option" where
  "child_result ch diagnostic =
     (if \<not> ch_success ch \<or> diagnostic \<noteq> []
      then (let e = error.Export (''media decode: '' @ ch_status ch @ '': '' @ diagnostic) in
            Some (if transient_media_failure (ch_status ch) diagnostic then Transient e else Final e))
      else None)"

definition ffmpeg_attempt :: "media_world \<Rightarrow> string list \<Rightarrow> nat \<Rightarrow> media \<Rightarrow> media_failure option \<times> media" where
  "ffmpeg_attempt w args deadline s =
     (case and_then (acquire_media w deadline (md_now s)) (acquire_cpu w deadline) of
        Inl e \<Rightarrow> (Some (Final e), s)
      | Inr t \<Rightarrow>
          (case mw_temporary w t of
             Some m \<Rightarrow> (Some (Final (error.Export m)), s\<lparr>md_now := t\<rparr>)
           | None \<Rightarrow>
               (case mw_spawn w ([''-v'', ''error'', ''-nostdin''] @ args) t (md_files s) of
                  Inl (k, m) \<Rightarrow>
                    (Some (if transient_spawn_error k then Transient (error.Export m) else Final (error.Export m)),
                     s\<lparr>md_now := t\<rparr>)
                | Inr ch \<Rightarrow>
                    (let s1 = s\<lparr>md_started := (t, args, md_files s) # md_started s\<rparr> in
                     case poll_child w (ch_end ch) deadline t of
                       Inl t1 \<Rightarrow>
                         (Some (Final (error.Export ''media decoder cancelled or timed out'')),
                          s1\<lparr>md_now := t1, md_files := ch_files ch t1\<rparr>)
                     | Inr t1 \<Rightarrow>
                         (case ch_diagnostic ch of
                            None \<Rightarrow> Some (Final (error.Export ''stream did not contain valid UTF-8''))
                          | Some diagnostic \<Rightarrow> child_result ch diagnostic,
                          s1\<lparr>md_now := t1, md_files := ch_files ch t1\<rparr>)))))"

subsection \<open>Retries under one deadline\<close>

text \<open>\<open>fs::remove_file\<close> over the outputs: a missing file is fine, another failure stops.\<close>

fun remove_outputs :: "media_world \<Rightarrow> string list \<Rightarrow> media \<Rightarrow> (error + unit) \<times> media" where
  "remove_outputs w [] s = (Inr (), s)"
| "remove_outputs w (p # ps) s =
     (if md_files s p = None then remove_outputs w ps s
      else (case mw_unremovable w (md_now s) p of
          Some m \<Rightarrow> (Inl (error.Export m), s)
        | None \<Rightarrow> remove_outputs w ps (s\<lparr>md_files := (md_files s)(p := None)\<rparr>)))"

text \<open>The backoff sleeps in steps of at most 20 ms and holds no permit.\<close>

function backoff :: "media_world \<Rightarrow> nat \<Rightarrow> nat \<Rightarrow> error + nat" where
  "backoff w resume now =
     (if mw_cancelled w now then Inl error.Cancelled
      else if resume \<le> now then Inr now
      else backoff w resume (now + min (resume - now) (milliseconds 20) + mw_late w now))"
  by pat_completeness auto
termination
  by (relation "measure (\<lambda>(w, resume, now). resume - now)") (auto simp: milliseconds_def)

declare backoff.simps [simp del]

definition media_pause :: "media_world \<Rightarrow> nat \<Rightarrow> nat" where
  "media_pause w n = milliseconds (unat (media_delay (xc_media_retry (mw_config w)) n))"

function ffmpeg_loop ::
  "media_world \<Rightarrow> string list \<Rightarrow> nat \<Rightarrow> string list \<Rightarrow> nat \<Rightarrow> media \<Rightarrow> (error + unit) \<times> media" where
  "ffmpeg_loop w args deadline outputs n s =
     (case ffmpeg_attempt w args deadline s of
        (None, s1) \<Rightarrow> (Inr (), s1)
      | (Some (Final e), s1) \<Rightarrow> (Inl e, s1)
      | (Some (Transient e), s1) \<Rightarrow>
          if mr_attempts (xc_media_retry (mw_config w)) \<le> n + 1 \<or> mw_cancelled w (md_now s1) then (Inl e, s1)
          else (let resume = md_now s1 + media_pause w n in
            if deadline \<le> resume then (Inl e, s1)
            else (case remove_outputs w outputs s1 of
                (Inl e2, s2) \<Rightarrow> (Inl e2, s2)
              | (Inr _, s2) \<Rightarrow>
                  (let s3 = s2\<lparr>md_retries := md_retries s2 + 1\<rparr> in
                   case backoff w resume (md_now s3) of
                     Inl e3 \<Rightarrow> (Inl e3, s3)
                   | Inr t \<Rightarrow> ffmpeg_loop w args deadline outputs (n + 1) (s3\<lparr>md_now := t\<rparr>)))))"
  by pat_completeness auto
termination
  by (relation "measure (\<lambda>(w, args, deadline, outputs, n, s). mr_attempts (xc_media_retry (mw_config w)) - n)") auto

declare ffmpeg_loop.simps [simp del]

definition ffmpeg_deadline :: "media_world \<Rightarrow> string list \<Rightarrow> nat \<Rightarrow> string list \<Rightarrow> media \<Rightarrow> (error + unit) \<times> media" where
  "ffmpeg_deadline w args deadline outputs s = ffmpeg_loop w args deadline outputs 0 s"

definition media_deadline :: "media_world \<Rightarrow> media \<Rightarrow> nat" where
  "media_deadline w s = md_now s + seconds (unat (xc_media_timeout (mw_config w)))"

definition ffmpeg_to :: "media_world \<Rightarrow> string list \<Rightarrow> string list \<Rightarrow> media \<Rightarrow> (error + unit) \<times> media" where
  "ffmpeg_to w args outputs s = ffmpeg_deadline w args (media_deadline w s) outputs s"

definition ffmpeg :: "media_world \<Rightarrow> string list \<Rightarrow> media \<Rightarrow> (error + unit) \<times> media" where
  "ffmpeg w args s = ffmpeg_to w args [] s"

subsection \<open>The encoder library and its fallback\<close>

definition encoding_stage :: "encoding \<Rightarrow> decoder_stage" where
  "encoding_stage e = (case e of Mp4Video \<Rightarrow> VideoEncode | _ \<Rightarrow> AudioEncode)"

text \<open>\<open>mw_runtime w = None\<close> is a build without the library, where \<open>Auto\<close> goes to the process at once.\<close>

definition encode_fallback :: "media_world \<Rightarrow> string list \<Rightarrow> nat \<Rightarrow> string \<Rightarrow> media \<Rightarrow> (error + unit) \<times> media" where
  "encode_fallback w args deadline outp s =
     ffmpeg_deadline w args deadline [outp] (s\<lparr>md_fallbacks := md_fallbacks s + 1\<rparr>)"

definition conversion_ended ::
  "media_world \<Rightarrow> string list \<Rightarrow> nat \<Rightarrow> string \<Rightarrow> conversion \<Rightarrow> media \<Rightarrow> (error + unit) \<times> media" where
  "conversion_ended w args deadline outp r s =
     (if r = Converted then (Inr (), s\<lparr>md_conversions := md_conversions s + 1\<rparr>)
      else (case remove_outputs w [outp] s of
          (Inl e, s1) \<Rightarrow> (Inl e, s1)
        | (Inr _, s1) \<Rightarrow>
            if r = ConversionCancelled then (Inl error.Cancelled, s1)
            else if r = ConversionTimeout then (Inl (error.Export ''media conversion timed out''), s1)
            else if xc_backend (mw_config w) = Ffi then (Inl (error.Export ''FFI media conversion failed''), s1)
            else encode_fallback w args deadline outp s1))"

definition encode_media ::
  "media_world \<Rightarrow> encoding \<Rightarrow> string \<Rightarrow> string \<Rightarrow> string list \<Rightarrow> media \<Rightarrow> (error + unit) \<times> media" where
  "encode_media w enc inp outp args s =
     (let deadline = media_deadline w s in
      if mw_cancelled w (md_now s) then (Inl error.Cancelled, s)
      else (case stage_acquire w (encoding_stage enc) deadline (md_now s) of
        Inl e \<Rightarrow> (Inl e, s)
      | Inr t \<Rightarrow>
          (let s1 = s\<lparr>md_now := t\<rparr> in
           if xc_backend (mw_config w) = Cli then ffmpeg_deadline w args deadline [outp] s1
           else (case backend_validate (mw_runtime w) (xc_backend (mw_config w)) of
               Inl e \<Rightarrow> (Inl e, s1)
             | Inr _ \<Rightarrow>
                 if md_files s1 outp \<noteq> None then (Inl error.Config, s1)
                 else if mw_runtime w = None then encode_fallback w args deadline outp s1
                 else (case and_then (acquire_media w deadline t) (acquire_cpu w deadline) of
                     Inl e \<Rightarrow> (Inl e, s1)
                   | Inr t1 \<Rightarrow>
                       (case mw_convert w enc inp outp t1 (md_files s1) of (r, d, fs) \<Rightarrow>
                          conversion_ended w args deadline outp r (s1\<lparr>md_now := t1 + d, md_files := fs\<rparr>)))))))"

subsection \<open>Facts\<close>

lemma gate_wait_Inr: "gate_wait w g lim deadline now = Inr t \<Longrightarrow> now \<le> t \<and> t < deadline"
proof (induction w g lim deadline now rule: gate_wait.induct)
  case (1 w g lim deadline now)
  define r where "r = fst (gate_try lim (mw_busy w g now) (mw_cancelled w now) (deadline \<le> now))"
  from 1(2) have *: "(case r of Inl e \<Rightarrow> Inl e | Inr (Some _) \<Rightarrow> Inr now
      | Inr None \<Rightarrow> gate_wait w g lim deadline (now + Suc (mw_wait w now))) = Inr t"
    by (subst (asm) gate_wait.simps) (simp add: r_def)
  have "(\<exists>u. r = Inr u) \<Longrightarrow> now < deadline"
    by (auto simp: r_def gate_try_def split: if_splits)
  with * 1(1)[folded r_def] show ?case by (cases r; force split: option.splits)
qed

lemma throttle_wait_Inr:
  "throttle_wait w budget deadline now = Inr t \<Longrightarrow> now \<le> t \<and> (now < deadline \<longrightarrow> t < deadline)"
proof (induction w budget deadline now rule: throttle_wait.induct)
  case (1 w budget deadline now)
  show ?case
  proof (cases "thr_enabled (mw_throttle w)")
    case False
    with 1(2) show ?thesis by (simp add: throttle_wait.simps[of w])
  next
    case True
    obtain r c where u: "mw_usage w now = (r, c)" by (cases "mw_usage w now")
    define now1 where "now1 = Suc (now + c)"
    from 1(2)[unfolded throttle_wait.simps[of w budget deadline now]] True u obtain x below
      where c: "throttle_check w deadline now = Inr ()" "r = Inr x" "throttle_check w deadline now1 = Inr ()"
        "below_budget x budget = Inr below"
      and e: "if below then t = now1
        else \<exists>now2. pause_until w deadline (min deadline (now1 + milliseconds (thr_sample_ms (mw_throttle w)))) now1 = Inr now2
          \<and> throttle_wait w budget deadline now2 = Inr t"
      by (auto simp: result_simps Let_def split: if_splits simp flip: now1_def)
    have d: "now1 < deadline" using c(3) by (simp add: throttle_check_def split: if_splits)
    show ?thesis
    proof (cases below)
      case True
      with e d show ?thesis by (simp add: now1_def)
    next
      case False
      with e obtain now2
        where p: "pause_until w deadline (min deadline (now1 + milliseconds (thr_sample_ms (mw_throttle w)))) now1 = Inr now2"
        and g: "throttle_wait w budget deadline now2 = Inr t" by auto
      from pause_until_Inr[OF p] have n: "now1 \<le> now2" "now2 < deadline" by auto
      have "now2 \<le> t \<and> (now2 < deadline \<longrightarrow> t < deadline)"
        using 1(1)[of "()" "(r, c)" r c now1 x "()" below now2] True u c False p g by (simp add: now1_def)
      with n show ?thesis by (simp add: now1_def)
    qed
  qed
qed

lemma acquire_media_Inr: "acquire_media w deadline now = Inr t \<Longrightarrow> now \<le> t \<and> t < deadline"
  by (fastforce simp: acquire_media_def result_simps split: option.splits dest: gate_wait_Inr)

lemma acquire_cpu_Inr: "acquire_cpu w deadline now = Inr t \<Longrightarrow> now \<le> t \<and> (now < deadline \<longrightarrow> t < deadline)"
  by (fastforce simp: acquire_cpu_def Let_def result_simps split: option.splits sum.splits if_splits
    dest: gate_wait_Inr throttle_wait_Inr)

lemma permits_Inr:
  assumes "and_then (acquire_media w deadline now) (acquire_cpu w deadline) = Inr t"
  shows "now \<le> t \<and> t < deadline"
  using assms by (fastforce simp: result_simps dest: acquire_media_Inr acquire_cpu_Inr)

text \<open>What one attempt leaves alone, and what it adds to the history.\<close>

definition same_counters :: "media \<Rightarrow> media \<Rightarrow> bool" where
  "same_counters s s' \<longleftrightarrow> md_retries s' = md_retries s \<and> md_conversions s' = md_conversions s
     \<and> md_fallbacks s' = md_fallbacks s"

lemma attempt_effect:
  assumes "ffmpeg_attempt w args deadline s = (r, s')"
  shows "same_counters s s'"
    and "md_started s' = md_started s \<or>
      (\<exists>t. t < deadline \<and> md_started s' = (t, args, md_files s) # md_started s)"
proof -
  show "same_counters s s'"
    using assms by (auto simp: ffmpeg_attempt_def Let_def same_counters_def split: sum.splits option.splits prod.splits)
  have "t < deadline" if "and_then (acquire_media w deadline (md_now s)) (acquire_cpu w deadline) = Inr t" for t
    using permits_Inr[OF that] by simp
  with assms show "md_started s' = md_started s \<or>
      (\<exists>t. t < deadline \<and> md_started s' = (t, args, md_files s) # md_started s)"
    by (auto simp: ffmpeg_attempt_def Let_def split: sum.splits option.splits prod.splits)
qed

lemma remove_outputs_effect:
  assumes "remove_outputs w ps s = (r, s')"
  shows "same_counters s s'" "md_started s' = md_started s" "md_now s' = md_now s"
    "\<forall>p. md_files s' p = md_files s p \<or> p \<in> set ps \<and> md_files s' p = None"
    "r = Inr () \<Longrightarrow> \<forall>p\<in>set ps. md_files s' p = None"
proof -
  have "same_counters s s' \<and> md_started s' = md_started s \<and> md_now s' = md_now s
    \<and> (\<forall>p. md_files s' p = md_files s p \<or> p \<in> set ps \<and> md_files s' p = None)
    \<and> (r = Inr () \<longrightarrow> (\<forall>p\<in>set ps. md_files s' p = None))"
    using assms
  proof (induction w ps s rule: remove_outputs.induct)
    case (2 w p ps s)
    show ?case
    proof (cases "md_files s p")
      case None
      with 2 have IH: "same_counters s s' \<and> md_started s' = md_started s \<and> md_now s' = md_now s
        \<and> (\<forall>p. md_files s' p = md_files s p \<or> p \<in> set ps \<and> md_files s' p = None)
        \<and> (r = Inr () \<longrightarrow> (\<forall>p\<in>set ps. md_files s' p = None))" by simp
      with None have "md_files s' p = None" by metis
      with IH show ?thesis by auto
    next
      case (Some b)
      show ?thesis
      proof (cases "mw_unremovable w (md_now s) p")
        case None
        let ?s1 = "s\<lparr>md_files := (md_files s)(p := None)\<rparr>"
        from 2(2)[OF _ None] Some 2(3) None have IH: "same_counters ?s1 s' \<and> md_started s' = md_started ?s1 \<and> md_now s' = md_now ?s1
          \<and> (\<forall>q. md_files s' q = md_files ?s1 q \<or> q \<in> set ps \<and> md_files s' q = None)
          \<and> (r = Inr () \<longrightarrow> (\<forall>q\<in>set ps. md_files s' q = None))" by simp
        then have q: "md_files s' q = md_files ?s1 q \<or> q \<in> set ps \<and> md_files s' q = None" for q by blast
        have "md_files s' p = None" using q[of p] by auto
        moreover have "md_files s' q = md_files s q \<or> q \<in> set (p # ps) \<and> md_files s' q = None" for q
          using q[of q] by (auto split: if_splits)
        ultimately show ?thesis using IH by (simp add: same_counters_def)
      next
        case (Some m)
        with \<open>md_files s p = _\<close> 2(3) show ?thesis by (auto simp: same_counters_def)
      qed
    qed
  qed (simp add: same_counters_def)
  then show "same_counters s s'" "md_started s' = md_started s" "md_now s' = md_now s"
    "\<forall>p. md_files s' p = md_files s p \<or> p \<in> set ps \<and> md_files s' p = None"
    "r = Inr () \<Longrightarrow> \<forall>p\<in>set ps. md_files s' p = None" by simp_all
qed

text \<open>The history of a run of attempts from state \<open>s\<close> to \<open>s'\<close>: at most one process found the files of
  \<open>s\<close>, every further one followed a retry and found none of the outputs.\<close>

definition attempts_ran :: "string list \<Rightarrow> nat \<Rightarrow> string list \<Rightarrow> media \<Rightarrow> media \<Rightarrow> bool" where
  "attempts_ran args deadline outputs s s' \<longleftrightarrow>
     md_retries s \<le> md_retries s' \<and>
     (\<exists>again first. md_started s' = again @ first @ md_started s
        \<and> length first \<le> 1 \<and> length again \<le> md_retries s' - md_retries s
        \<and> list_all (\<lambda>(t, a, f). t < deadline \<and> a = args) (again @ first)
        \<and> list_all (\<lambda>(t, a, f). f = md_files s) first
        \<and> list_all (\<lambda>(t, a, f). list_all (\<lambda>p. f p = None) outputs) again)"

lemma attempts_ran_once:
  assumes "ffmpeg_attempt w args deadline s = (r, s')"
  shows "attempts_ran args deadline outputs s s'"
  using attempt_effect(1)[OF assms] attempt_effect(2)[OF assms]
proof (elim disjE exE conjE)
  fix t assume "same_counters s s'" "t < deadline" "md_started s' = (t, args, md_files s) # md_started s"
  then show ?thesis unfolding attempts_ran_def same_counters_def
    by (intro conjI exI[of _ "[]"] exI[of _ "[(t, args, md_files s)]"]) auto
qed (auto simp: attempts_ran_def same_counters_def intro: exI[of _ "[]"])

lemma attempts_ran_again:
  assumes "attempts_ran args deadline outputs s s1"
    and "md_retries s2 = md_retries s1 + 1" "md_started s2 = md_started s1" "\<forall>p\<in>set outputs. md_files s2 p = None"
    and "attempts_ran args deadline outputs s2 s'"
  shows "attempts_ran args deadline outputs s s'"
proof -
  from assms(1) obtain x y where x: "md_retries s \<le> md_retries s1" "md_started s1 = x @ y @ md_started s" "length y \<le> 1"
    "length x \<le> md_retries s1 - md_retries s" "list_all (\<lambda>(t, a, f). t < deadline \<and> a = args) (x @ y)"
    "list_all (\<lambda>(t, a, f). f = md_files s) y" "list_all (\<lambda>(t, a, f). list_all (\<lambda>p. f p = None) outputs) x"
    unfolding attempts_ran_def by blast
  from assms(5) obtain u v where u: "md_retries s2 \<le> md_retries s'" "md_started s' = u @ v @ md_started s2" "length v \<le> 1"
    "length u \<le> md_retries s' - md_retries s2" "list_all (\<lambda>(t, a, f). t < deadline \<and> a = args) (u @ v)"
    "list_all (\<lambda>(t, a, f). f = md_files s2) v" "list_all (\<lambda>(t, a, f). list_all (\<lambda>p. f p = None) outputs) u"
    unfolding attempts_ran_def by blast
  have "list_all (\<lambda>(t, a, f). list_all (\<lambda>p. f p = None) outputs) v"
    using u(6) assms(4) by (auto simp: list_all_iff)
  then show ?thesis
    unfolding attempts_ran_def using x u assms(2,3)
    by (intro conjI exI[of _ "u @ v @ x"] exI[of _ y]) auto
qed

lemma ffmpeg_loop_effect:
  assumes "ffmpeg_loop w args deadline outputs n s = (r, s')"
  shows "attempts_ran args deadline outputs s s'"
    and "n + (md_retries s' - md_retries s) < max (mr_attempts (xc_media_retry (mw_config w))) (n + 1)"
    and "md_conversions s' = md_conversions s" and "md_fallbacks s' = md_fallbacks s"
proof -
  have "attempts_ran args deadline outputs s s'
    \<and> n + (md_retries s' - md_retries s) < max (mr_attempts (xc_media_retry (mw_config w))) (n + 1)
    \<and> md_conversions s' = md_conversions s \<and> md_fallbacks s' = md_fallbacks s"
    using assms
  proof (induction w args deadline outputs n s arbitrary: r s' rule: ffmpeg_loop.induct)
    case (1 w args deadline outputs n s)
    let ?m = "mr_attempts (xc_media_retry (mw_config w))"
    obtain f s1 where a: "ffmpeg_attempt w args deadline s = (f, s1)" by (cases "ffmpeg_attempt w args deadline s")
    note once = attempts_ran_once[OF a, of outputs] and eff = attempt_effect(1)[OF a, unfolded same_counters_def]
    show ?case
    proof (cases "s' = s1")
      case True
      with once eff show ?thesis by simp
    next
      case False
      with 1(2) a obtain e where f: "f = Some (Transient e)" and c: "\<not> (?m \<le> n + 1 \<or> mw_cancelled w (md_now s1))"
        and d: "\<not> deadline \<le> md_now s1 + media_pause w n"
        by (auto simp: ffmpeg_loop.simps[of w args deadline outputs n s] Let_def
          split: option.splits media_failure.splits if_splits)
      obtain r2 s2 where o2: "remove_outputs w outputs s1 = (r2, s2)" by (cases "remove_outputs w outputs s1")
      note eff2 = remove_outputs_effect[OF o2]
      let ?s3 = "s2\<lparr>md_retries := md_retries s2 + 1\<rparr>"
      show ?thesis
      proof (cases r2)
        case (Inl e2)
        with 1(2) a f c d o2 have "s' = s2" by (simp add: ffmpeg_loop.simps[of w args deadline outputs n s] Let_def)
        with once eff eff2 show ?thesis by (auto simp: attempts_ran_def same_counters_def)
      next
        case (Inr u)
        then have gone: "\<forall>p\<in>set outputs. md_files s2 p = None" using eff2(5) by simp
        show ?thesis
        proof (cases "backoff w (md_now s1 + media_pause w n) (md_now ?s3)")
          case (Inl e3)
          with 1(2) a f c d o2 Inr have s': "s' = ?s3"
            by (simp add: ffmpeg_loop.simps[of w args deadline outputs n s] Let_def)
          have "attempts_ran args deadline outputs ?s3 ?s3" by (auto simp: attempts_ran_def intro: exI[of _ "[]"])
          from attempts_ran_again[OF once _ _ _ this] gone eff eff2 s' c show ?thesis
            by (auto simp: same_counters_def)
        next
          case (Inr t)
          let ?s4 = "?s3\<lparr>md_now := t\<rparr>"
          from 1(2) a f c d o2 \<open>r2 = Inr u\<close> Inr have go: "ffmpeg_loop w args deadline outputs (n + 1) ?s4 = (r, s')"
            by (simp add: ffmpeg_loop.simps[of w args deadline outputs n s] Let_def)
          have IH: "attempts_ran args deadline outputs ?s4 s'
            \<and> n + 1 + (md_retries s' - md_retries ?s4) < max ?m (n + 1 + 1)
            \<and> md_conversions s' = md_conversions ?s4 \<and> md_fallbacks s' = md_fallbacks ?s4"
            using 1(1)[OF a[symmetric] f refl c refl d o2[symmetric] _ refl Inr go] \<open>r2 = Inr u\<close> by simp
          have le: "md_retries ?s4 \<le> md_retries s'" using IH by (simp add: attempts_ran_def)
          from attempts_ran_again[OF once, of ?s4 s'] gone eff eff2 IH
          have "attempts_ran args deadline outputs s s'" by (simp add: same_counters_def)
          with IH le eff eff2 c show ?thesis by (auto simp: same_counters_def)
        qed
      qed
    qed
  qed
  then show "attempts_ran args deadline outputs s s'"
    "n + (md_retries s' - md_retries s) < max (mr_attempts (xc_media_retry (mw_config w))) (n + 1)"
    "md_conversions s' = md_conversions s" "md_fallbacks s' = md_fallbacks s" by simp_all
qed

lemma attempts_ran_length:
  "attempts_ran args deadline outputs s s' \<Longrightarrow>
     length (md_started s') \<le> length (md_started s) + (md_retries s' - md_retries s) + 1"
  by (auto simp: attempts_ran_def)

text \<open>C30. Retries of an external encoder are bounded and start clean: whatever the processes do, a
  command with validated settings is tried at most eight times and at most as often as configured,
  every process is started with the same arguments and before the deadline all attempts share, and
  each one after a retry finds none of the output files of the attempt before it.\<close>

theorem ffmpeg_retries_bounded:
  assumes "ffmpeg_deadline w args deadline outputs s = (r, s')"
    and "media_retry_validate (xc_media_retry (mw_config w)) = Inr ()"
  shows "md_retries s' - md_retries s < mr_attempts (xc_media_retry (mw_config w))
    \<and> mr_attempts (xc_media_retry (mw_config w)) \<le> 8
    \<and> length (md_started s') \<le> length (md_started s) + mr_attempts (xc_media_retry (mw_config w))
    \<and> attempts_ran args deadline outputs s s'"
proof -
  note e = ffmpeg_loop_effect[OF assms(1)[unfolded ffmpeg_deadline_def]]
  have m: "1 \<le> mr_attempts (xc_media_retry (mw_config w))" "mr_attempts (xc_media_retry (mw_config w)) \<le> 8"
    using assms(2) by (auto simp: media_retry_validate_def result_simps)
  with e(2) attempts_ran_length[OF e(1)] e(1) show ?thesis by (auto simp: max_def split: if_splits)
qed

lemma deadline_effect:
  assumes "ffmpeg_deadline w args deadline [outp] s = (r, s')" and "md_files s outp = None"
  shows "\<exists>fresh. md_started s' = fresh @ md_started s \<and> list_all (\<lambda>(t, a, f). t < deadline \<and> a = args \<and> f outp = None) fresh"
    and "md_conversions s' = md_conversions s" and "md_fallbacks s' = md_fallbacks s"
proof -
  note e = ffmpeg_loop_effect[OF assms(1)[unfolded ffmpeg_deadline_def]]
  from e(1) obtain again one where h: "md_started s' = again @ one @ md_started s"
    "list_all (\<lambda>(t, a, f). t < deadline \<and> a = args) (again @ one)" "list_all (\<lambda>(t, a, f). f = md_files s) one"
    "list_all (\<lambda>(t, a, f). list_all (\<lambda>p. f p = None) [outp]) again"
    unfolding attempts_ran_def by blast
  then have "list_all (\<lambda>(t, a, f). t < deadline \<and> a = args \<and> f outp = None) (again @ one)"
    using assms(2) by (auto simp: list_all_iff case_prod_beta)
  with h(1) show "\<exists>fresh. md_started s' = fresh @ md_started s
      \<and> list_all (\<lambda>(t, a, f). t < deadline \<and> a = args \<and> f outp = None) fresh"
    by (intro exI[of _ "again @ one"]) simp
  from e show "md_conversions s' = md_conversions s" "md_fallbacks s' = md_fallbacks s" by simp_all
qed

text \<open>What the library path of an encoding promises.\<close>

definition encoded_apart :: "media_world \<Rightarrow> string list \<Rightarrow> nat \<Rightarrow> string \<Rightarrow> error + unit \<Rightarrow> media \<Rightarrow> media \<Rightarrow> bool" where
  "encoded_apart w args deadline outp r s s' \<longleftrightarrow>
     (\<exists>fresh. md_started s' = fresh @ md_started s
        \<and> list_all (\<lambda>(t, a, f). t < deadline \<and> a = args \<and> f outp = None) fresh
        \<and> (fresh \<noteq> [] \<longrightarrow> xc_backend (mw_config w) \<noteq> Ffi \<and> md_fallbacks s' = md_fallbacks s + 1))
     \<and> (md_conversions s' + md_fallbacks s' = md_conversions s + md_fallbacks s
        \<or> md_conversions s' + md_fallbacks s' = md_conversions s + md_fallbacks s + 1)
     \<and> (r = Inr () \<longrightarrow> md_conversions s' + md_fallbacks s' = md_conversions s + md_fallbacks s + 1)"

lemma encoded_apart_unchanged:
  "md_started s' = md_started s \<Longrightarrow> md_conversions s' = md_conversions s \<Longrightarrow> md_fallbacks s' = md_fallbacks s \<Longrightarrow>
     encoded_apart w args deadline outp (Inl e) s s'"
  by (simp add: encoded_apart_def)

lemma encode_fallback_apart:
  assumes "encode_fallback w args deadline outp s1 = (r, s')" and "md_files s1 outp = None"
    and "xc_backend (mw_config w) \<noteq> Ffi"
    and "md_started s1 = md_started s" "md_conversions s1 = md_conversions s" "md_fallbacks s1 = md_fallbacks s"
  shows "encoded_apart w args deadline outp r s s'"
proof -
  note e = deadline_effect[OF assms(1)[unfolded encode_fallback_def]]
  from assms(2) e(1) obtain fresh where "md_started s' = fresh @ md_started s"
    "list_all (\<lambda>(t, a, f). t < deadline \<and> a = args \<and> f outp = None) fresh" using assms(4) by auto
  with e(2,3) assms show ?thesis by (auto simp: encoded_apart_def)
qed

lemma conversion_ended_apart:
  assumes "conversion_ended w args deadline outp x s1 = (r, s')"
    and "md_started s1 = md_started s" "md_conversions s1 = md_conversions s" "md_fallbacks s1 = md_fallbacks s"
  shows "encoded_apart w args deadline outp r s s'"
proof (cases "x = Converted")
  case True
  with assms show ?thesis by (auto simp: conversion_ended_def encoded_apart_def)
next
  case False
  obtain q s2 where o2: "remove_outputs w [outp] s1 = (q, s2)" by (cases "remove_outputs w [outp] s1")
  note e = remove_outputs_effect[OF o2]
  have same: "md_started s2 = md_started s" "md_conversions s2 = md_conversions s" "md_fallbacks s2 = md_fallbacks s"
    using e assms by (simp_all add: same_counters_def)
  show ?thesis
  proof (cases "q = Inr () \<and> x = ConversionFailed \<and> xc_backend (mw_config w) \<noteq> Ffi")
    case True
    with assms(1) o2 have "encode_fallback w args deadline outp s2 = (r, s')" by (simp add: conversion_ended_def)
    with True same e(5) show ?thesis by (intro encode_fallback_apart[of w args deadline outp s2]) auto
  next
    case no: False
    with assms(1) o2 False obtain d where "r = Inl d" "s' = s2"
      by (cases q; cases x) (auto simp: conversion_ended_def split: if_splits)
    with same show ?thesis by (simp add: encoded_apart_unchanged)
  qed
qed

lemma conversion_ended_quiet:
  assumes "conversion_ended w args deadline outp x s1 = (r, s')" and "x \<noteq> ConversionFailed"
  shows "md_started s' = md_started s1"
  using assms remove_outputs_effect(2)[of w "[outp]" s1]
  by (cases x) (auto simp: conversion_ended_def split: prod.splits sum.splits if_splits)

text \<open>C29. An encoding uses one encoder: with the process as the backend neither counter moves; with
  the library, a process is started only as the fallback of the automatic backend, when the build has
  no library or a conversion failed (not when one was cancelled or timed out), and then it is counted
  and finds no output the library left behind; every process starts before the one deadline the library and
  the process share; and a success is counted exactly once, as a conversion or as a fallback.\<close>

theorem encoding_uses_one_encoder:
  assumes "encode_media w enc inp outp args s = (r, s')"
  shows "(xc_backend (mw_config w) = Cli \<longrightarrow>
       md_conversions s' = md_conversions s \<and> md_fallbacks s' = md_fallbacks s)
    \<and> (xc_backend (mw_config w) \<noteq> Cli \<longrightarrow> encoded_apart w args (media_deadline w s) outp r s s')
    \<and> (xc_backend (mw_config w) \<noteq> Cli \<and> md_started s' \<noteq> md_started s \<longrightarrow>
       mw_runtime w = None \<or> (\<exists>t fs. fst (mw_convert w enc inp outp t fs) = ConversionFailed))"
proof -
  let ?d = "media_deadline w s"
  show ?thesis
  proof (cases "mw_cancelled w (md_now s)")
    case True
    with assms show ?thesis by (auto simp: encode_media_def Let_def encoded_apart_unchanged)
  next
    case False
    show ?thesis
    proof (cases "stage_acquire w (encoding_stage enc) ?d (md_now s)")
      case (Inl e)
      with False assms show ?thesis by (auto simp: encode_media_def Let_def encoded_apart_unchanged)
    next
      case (Inr t)
      let ?s1 = "s\<lparr>md_now := t\<rparr>"
      show ?thesis
      proof (cases "xc_backend (mw_config w) = Cli")
        case True
        with False Inr assms have "ffmpeg_loop w args ?d [outp] 0 ?s1 = (r, s')"
          by (simp add: encode_media_def Let_def ffmpeg_deadline_def)
        from ffmpeg_loop_effect(3,4)[OF this] True show ?thesis by simp
      next
        case lib: False
        have "encoded_apart w args ?d outp r s s' \<and> (md_started s' \<noteq> md_started s \<longrightarrow>
            mw_runtime w = None \<or> (\<exists>t fs. fst (mw_convert w enc inp outp t fs) = ConversionFailed))"
        proof (cases "backend_validate (mw_runtime w) (xc_backend (mw_config w)) = Inr () \<and> md_files s outp = None")
          case no: False
          have "(\<exists>d. r = Inl d) \<and> s' = ?s1"
          proof (cases "backend_validate (mw_runtime w) (xc_backend (mw_config w))")
            case b: (Inl d)
            with assms False Inr lib show ?thesis by (simp add: encode_media_def Let_def) metis
          next
            case b: (Inr u)
            with assms False Inr lib no show ?thesis by (auto simp: encode_media_def Let_def)
          qed
          then show ?thesis by (auto simp: encoded_apart_unchanged)
        next
          case True
          show ?thesis
          proof (cases "mw_runtime w")
            case None
            with assms False Inr lib True have "encode_fallback w args ?d outp ?s1 = (r, s')"
              by (simp add: encode_media_def Let_def)
            moreover have "xc_backend (mw_config w) \<noteq> Ffi" using True None by (auto simp: backend_validate_def)
            ultimately have "encoded_apart w args ?d outp r s s'"
              using True by (intro encode_fallback_apart[of w args ?d outp ?s1]) auto
            with None show ?thesis by simp
          next
            case (Some v)
            show ?thesis
            proof (cases "and_then (acquire_media w ?d t) (acquire_cpu w ?d)")
              case (Inl e)
              with assms False Inr lib True Some have "r = Inl e" "s' = ?s1" by (simp_all add: encode_media_def Let_def)
              then show ?thesis by (simp add: encoded_apart_unchanged)
            next
              case p: (Inr t1)
              obtain x d fs where c: "mw_convert w enc inp outp t1 (md_files s) = (x, d, fs)"
                by (cases "mw_convert w enc inp outp t1 (md_files s)")
              from assms False Inr lib True Some p c
              have "conversion_ended w args ?d outp x (?s1\<lparr>md_now := t1 + d, md_files := fs\<rparr>) = (r, s')"
                by (simp add: encode_media_def Let_def)
              from conversion_ended_apart[OF this, of s] conversion_ended_quiet[OF this] c show ?thesis
                by (cases "x = ConversionFailed") (auto, metis fst_conv)
            qed
          qed
        qed
        with lib show ?thesis by simp
      qed
    qed
  qed
qed

subsection \<open>An example\<close>

text \<open>An encoder that fails with a transient error in the first second and writes its output after that.\<close>

definition demo_media_config :: export_config where
  "demo_media_config = \<lparr>xc_logging = None, xc_input = [], xc_paths = [], xc_selection = export_selection_default,
     xc_read_kinds = \<lparr>policy_default = Auto, policy_classes = []\<rparr>, xc_cri = cri_default,
     xc_raw_bundles = None, xc_image = [], xc_audio = [], xc_video = SourceOnly, xc_backend = AutoBackend,
     xc_output = [], xc_retain_outputs = True, xc_cache_directory = None, xc_cache_revision = [], xc_cache_max_bytes = None,
     xc_cache_max_entries = None, xc_cri_key_env = [], xc_split_acb_xor_env = None, xc_concurrency = 4,
     xc_cpu = \<lparr>cpu_auto_tune = False, cpu_budget_auto = False, cpu_ratio_ok = True, cpu_throttle_ok = True,
       cpu_scaled = (\<lambda>n. n), cpu_reserved = 0\<rparr>, xc_cpus = 4, xc_stage_limits = stage_default, xc_in_flight = 0,
     xc_media_concurrency = 2, xc_media_timeout = 120,
     xc_media_retry = \<lparr>mr_attempts = 2, mr_delay_ms = 1000, mr_max_delay_ms = 4000\<rparr>, xc_ffmpeg = [], xc_max_output = 1024\<rparr>"

definition demo_child :: "nat \<Rightarrow> files \<Rightarrow> media_child" where
  "demo_child t fs =
     (if t < 1000000000
      then \<lparr>ch_end = Some t, ch_success = False, ch_status = ''signal: 9'', ch_diagnostic = Some [], ch_files = (\<lambda>_. fs(''o'' \<mapsto> []))\<rparr>
      else \<lparr>ch_end = Some t, ch_success = True, ch_status = [], ch_diagnostic = Some [], ch_files = (\<lambda>_. fs(''o'' \<mapsto> [1]))\<rparr>)"

definition demo_media_world :: media_world where
  "demo_media_world = \<lparr>mw_config = demo_media_config, mw_throttle = throttle_default, mw_limit_stages = False,
     mw_shared_media = None, mw_shared_cpu = None, mw_runtime = None, mw_cancelled = (\<lambda>_. False),
     mw_busy = (\<lambda>_ _. 0), mw_wait = (\<lambda>_. 0), mw_late = (\<lambda>_. 1000000000), mw_usage = (\<lambda>_. (Inr BadUsage, 0)),
     mw_temporary = (\<lambda>_. None), mw_spawn = (\<lambda>args t fs. Inr (demo_child t fs)),
     mw_convert = (\<lambda>_ _ _ _ fs. (ConversionFailed, 0, fs)), mw_unremovable = (\<lambda>_ _. None), mw_unreadable = (\<lambda>_ _. None),
     mw_unwritable = (\<lambda>_ _. None)\<rparr>"

definition demo_media :: media where
  "demo_media = \<lparr>md_now = 0, md_files = (\<lambda>_. None), md_retries = 0, md_conversions = 0, md_fallbacks = 0, md_started = []\<rparr>"

lemma demo_fields:
  "mw_config demo_media_world = demo_media_config" "mw_throttle demo_media_world = throttle_default"
  "mw_limit_stages demo_media_world = False" "mw_shared_media demo_media_world = None"
  "mw_shared_cpu demo_media_world = None" "mw_runtime demo_media_world = None" "mw_cancelled demo_media_world = (\<lambda>_. False)"
  "mw_busy demo_media_world = (\<lambda>_ _. 0)" "mw_late demo_media_world = (\<lambda>_. 1000000000)"
  "mw_temporary demo_media_world = (\<lambda>_. None)" "mw_spawn demo_media_world = (\<lambda>args t fs. Inr (demo_child t fs))"
  "mw_unremovable demo_media_world = (\<lambda>_ _. None)" "xc_backend demo_media_config = AutoBackend"
  "xc_media_retry demo_media_config = \<lparr>mr_attempts = 2, mr_delay_ms = 1000, mr_max_delay_ms = 4000\<rparr>"
  "xc_media_concurrency demo_media_config = 2" "xc_media_timeout demo_media_config = 120"
  "xc_stage_limits demo_media_config = stage_default" "xc_cpus demo_media_config = 4"
  "ch_end (demo_child t fs) = Some t" "ch_diagnostic (demo_child t fs) = Some []"
  by (simp_all add: demo_media_world_def demo_media_config_def demo_child_def)

lemma demo_budget: "budget_for_cpus (xc_cpu demo_media_config) 4 = Inr 4"
  by (simp add: budget_for_cpus_def cpu_validate_def demo_media_config_def)

lemma demo_permits:
  "t < deadline \<Longrightarrow> and_then (acquire_media demo_media_world deadline t) (acquire_cpu demo_media_world deadline) = Inr t"
  by (simp add: acquire_media_def acquire_cpu_def gate_wait.simps[of demo_media_world] gate_try_def throttle_wait.simps[of demo_media_world]
    demo_fields demo_budget throttle_default_def)

lemma demo_attempt:
  "md_now s < deadline \<Longrightarrow> ffmpeg_attempt demo_media_world [] deadline s =
     (child_result (demo_child (md_now s) (md_files s)) [],
      s\<lparr>md_started := (md_now s, [], md_files s) # md_started s, md_files := ch_files (demo_child (md_now s) (md_files s)) (md_now s)\<rparr>)"
  using demo_permits[of "md_now s" deadline]
  by (simp add: ffmpeg_attempt_def poll_child.simps[of demo_media_world] demo_fields Let_def)

lemma demo_retry:
  "ffmpeg_deadline demo_media_world [] 120000000000 [''o''] (demo_media\<lparr>md_fallbacks := k\<rparr>) =
     (Inr (), \<lparr>md_now = 1020000000, md_files = (\<lambda>_. None)(''o'' \<mapsto> [1]), md_retries = 1, md_conversions = 0, md_fallbacks = k,
        md_started = [(1020000000, [], \<lambda>_. None), (0, [], \<lambda>_. None)]\<rparr>)"
proof -
  have first: "child_result (demo_child 0 fs) [] = Some (Transient (error.Export ''media decode: signal: 9: ''))" for fs
    by (simp add: child_result_def demo_child_def transient_media_failure_def media_markers_def to_ascii_lower_def
      is_ascii_uppercase_def less_eq_char_def starts_with_def)
  have second: "child_result (demo_child 1020000000 fs) [] = None" for fs
    by (simp add: child_result_def demo_child_def)
  have p: "media_pause demo_media_world 0 = 1000000000"
    by (simp add: media_pause_def milliseconds_def media_delay_def demo_fields
      saturating_mul_def checked_shl_one_def)
  have b: "backoff demo_media_world 1000000000 0 = Inr 1020000000"
    by (simp add: backoff.simps[of demo_media_world 1000000000 0] backoff.simps[of demo_media_world 1000000000 1020000000]
      milliseconds_def demo_fields)
  show ?thesis
    by (simp add: ffmpeg_deadline_def ffmpeg_loop.simps[of demo_media_world _ _ _ 0]
      ffmpeg_loop.simps[of demo_media_world _ _ _ "Suc 0"] demo_attempt first second p b demo_fields demo_media_def Let_def)
      (simp add: demo_child_def fun_eq_iff)
qed

theorem ffmpeg_retries_bounded_witness:
  "md_retries (snd (ffmpeg_deadline demo_media_world [] 120000000000 [''o''] demo_media)) = 1
   \<and> attempts_ran [] 120000000000 [''o''] demo_media (snd (ffmpeg_deadline demo_media_world [] 120000000000 [''o''] demo_media))"
proof -
  have "media_retry_validate (xc_media_retry (mw_config demo_media_world)) = Inr ()"
    by (simp add: demo_fields media_retry_validate_def)
  from ffmpeg_retries_bounded[OF demo_retry[of 0] this] demo_retry[of 0] show ?thesis by (simp add: demo_media_def)
qed

theorem encoding_uses_one_encoder_witness:
  "encoded_apart demo_media_world [] 120000000000 ''o'' (Inr ()) demo_media
     (snd (encode_media demo_media_world Mp3 ''i'' ''o'' [] demo_media))"
proof -
  have d: "media_deadline demo_media_world demo_media = 120000000000"
    by (simp add: media_deadline_def seconds_def demo_fields demo_media_def)
  have st: "stage_acquire demo_media_world AudioEncode 120000000000 0 = Inr 0"
    by (simp add: stage_acquire_def effective_stage_limits_def effective_def stage_validate_def stage_default_def all_stages_def
      demo_fields demo_budget)
  have "md_now demo_media = 0" "md_files demo_media ''o'' = None" "demo_media\<lparr>md_now := 0\<rparr> = demo_media"
    by (simp_all add: demo_media_def)
  then have e: "encode_media demo_media_world Mp3 ''i'' ''o'' [] demo_media
      = encode_fallback demo_media_world [] 120000000000 ''o'' demo_media"
    by (simp add: encode_media_def Let_def d demo_fields encoding_stage_def st backend_validate_def)
      (simp add: demo_media_def)
  have "fst (encode_fallback demo_media_world [] 120000000000 ''o'' demo_media) = Inr ()"
    using demo_retry[of 1] by (simp add: encode_fallback_def demo_media_def)
  with encoding_uses_one_encoder[of demo_media_world Mp3 "''i''" "''o''" "[]" demo_media] show ?thesis
    by (cases "encode_media demo_media_world Mp3 ''i'' ''o'' [] demo_media") (auto simp: e d demo_fields)
qed

end
