(* ===== verification/Media_Json.thy ===== *)
theory Media_Json
  imports Errors "HOL-Library.Multiset"
begin

text \<open>
  The JSON documents the media export writes and inspects (\<open>src/export.rs\<close>): the canonical text of
  a document, which sorts the keys of every object (\<open>canonical_json\<close>), the test for a mesh without
  any geometry (\<open>empty_mesh\<close>) and the buffer that bounds the text of an object (\<open>JsonBuffer\<close>). The
  JSON library's texts of a string and of a number are arguments; a number is known by the unsigned
  value the library reads from it, when it has one, and its text.
\<close>

datatype json =
    JObject "(string \<times> json) list"
  | JArray "json list"
  | JString string
  | JNumber "nat option" string
  | JBool bool
  | JNull

fun json_get :: "string \<Rightarrow> json \<Rightarrow> json option" where
  "json_get k (JObject es) = map_of es k"
| "json_get k _ = None"

fun as_u64 :: "json \<Rightarrow> nat option" where
  "as_u64 (JNumber n _) = n"
| "as_u64 _ = None"

fun as_array :: "json \<Rightarrow> json list option" where
  "as_array (JArray xs) = Some xs"
| "as_array _ = None"

fun as_str :: "json \<Rightarrow> string option" where
  "as_str (JString s) = Some s"
| "as_str _ = None"

definition json_path :: "string list \<Rightarrow> json \<Rightarrow> json option" where
  "json_path ks v = fold (\<lambda>k r. Option.bind r (json_get k)) ks (Some v)"

definition empty_mesh :: "json \<Rightarrow> bool" where
  "empty_mesh v \<longleftrightarrow>
     Option.bind (json_path [''m_VertexData'', ''m_VertexCount''] v) as_u64 = Some 0
     \<and> is_some_and (\<lambda>xs. xs = []) (Option.bind (json_get ''m_IndexBuffer'' v) as_array)
     \<and> is_some_and (list_all (\<lambda>x. Option.bind (json_get ''indexCount'' x) as_u64 = Some 0
           \<and> Option.bind (json_get ''vertexCount'' x) as_u64 = Some 0))
         (Option.bind (json_get ''m_SubMeshes'' v) as_array)
     \<and> (case json_get ''m_StreamData'' v of
          None \<Rightarrow> True
        | Some x \<Rightarrow> Option.bind (json_get ''size'' x) as_u64 = Some 0)"

subsection \<open>Canonical text\<close>

lemma collect_results_cong [fundef_cong]:
  "xs = ys \<Longrightarrow> (\<And>x. x \<in> set ys \<Longrightarrow> f x = g x) \<Longrightarrow> collect_results f xs = collect_results g ys"
proof (induction xs arbitrary: ys)
  case (Cons x xs)
  then show ?case by (cases ys) (auto intro!: and_then_cong)
qed simp

lemma size_object_member: "x \<in> set es \<Longrightarrow> (k, v) = x \<Longrightarrow> size v < size (JObject es)"
  by (induction es) auto

lemma size_array_member: "v \<in> set xs \<Longrightarrow> size v < size (JArray xs)"
  by (induction xs) auto

text \<open>\<open>quote\<close> is \<open>sonic_rs::to_vec\<close> of a string.\<close>

definition json_scalar :: "(string \<Rightarrow> error + string) \<Rightarrow> json \<Rightarrow> error + string" where
  "json_scalar quote v =
     (case v of
        JString s \<Rightarrow> quote s
      | JNumber _ t \<Rightarrow> Inr t
      | JBool b \<Rightarrow> Inr (if b then ''true'' else ''false'')
      | _ \<Rightarrow> Inr ''null'')"

function canonical_json :: "(string \<Rightarrow> error + string) \<Rightarrow> json \<Rightarrow> error + string" where
  "canonical_json quote (JObject es) =
     and_then (collect_results (\<lambda>(k, v).
         and_then (quote k) (\<lambda>kt. and_then (canonical_json quote v) (\<lambda>vt. Inr (kt @ '':'' @ vt))))
       (sort_key fst es)) (\<lambda>ts. Inr (''{'' @ join_on '','' ts @ ''}''))"
| "canonical_json quote (JArray xs) =
     and_then (collect_results (canonical_json quote) xs) (\<lambda>ts. Inr (''['' @ join_on '','' ts @ '']''))"
| "canonical_json quote (JString s) = json_scalar quote (JString s)"
| "canonical_json quote (JNumber n t) = json_scalar quote (JNumber n t)"
| "canonical_json quote (JBool b) = json_scalar quote (JBool b)"
| "canonical_json quote JNull = json_scalar quote JNull"
  by pat_completeness auto

termination
  by (relation "measure (\<lambda>(q, v). size v)") (simp_all add: size_object_member size_array_member del: json.size)

text \<open>Two documents that differ only in the order of the keys of their objects.\<close>

inductive same_json :: "json \<Rightarrow> json \<Rightarrow> bool" where
  same_scalar: "same_json v v"
| same_array: "list_all2 same_json xs ys \<Longrightarrow> same_json (JArray xs) (JArray ys)"
| same_object: "list_all2 (\<lambda>x y. fst x = fst y \<and> same_json (snd x) (snd y)) es fs \<Longrightarrow> mset fs = mset gs \<Longrightarrow>
    distinct (map fst es) \<Longrightarrow> same_json (JObject es) (JObject gs)"

lemma collect_results_same:
  "list_all2 (\<lambda>x y. f x = g y) xs ys \<Longrightarrow> collect_results f xs = collect_results g ys"
  by (induction rule: list_all2_induct) simp_all

lemma list_all2_sort_key:
  assumes "list_all2 (\<lambda>x y. f x = f y \<and> r x y) xs ys"
  shows "list_all2 (\<lambda>x y. f x = f y \<and> r x y) (sort_key f xs) (sort_key f ys)"
  using assms
proof (induction rule: list_all2_induct)
  case (Cons x xs y ys)
  have "list_all2 (\<lambda>x y. f x = f y \<and> r x y) (insort_key f x us) (insort_key f y vs)"
    if "list_all2 (\<lambda>x y. f x = f y \<and> r x y) us vs" for us vs
    using that Cons(1) by (induction rule: list_all2_induct) auto
  with Cons show ?case by simp
qed simp

text \<open>C31. The canonical text of a document does not depend on the order in which the objects' entries
  come, at any depth: two documents with the same entries have the same text, so equal media give
  equal published files although the decoder keeps its tables in unordered maps.\<close>

theorem canonical_json_ignores_order:
  assumes "same_json v w"
  shows "canonical_json quote v = canonical_json quote w"
  using assms
proof (induction rule: same_json.induct)
  case (same_array xs ys)
  then have "list_all2 (\<lambda>x y. canonical_json quote x = canonical_json quote y) xs ys"
    by (rule list_all2_mono) simp
  then show ?case by (simp add: collect_results_same)
next
  case (same_object es fs gs)
  let ?t = "\<lambda>(k, v). and_then (quote k) (\<lambda>kt. and_then (canonical_json quote v) (\<lambda>vt. Inr (kt @ '':'' @ vt)))"
  have keys: "map fst es = map fst fs"
    using same_object(1) by (induction rule: list_all2_induct) auto
  have "list_all2 (\<lambda>x y. fst x = fst y \<and> canonical_json quote (snd x) = canonical_json quote (snd y)) es fs"
    using same_object(1) by (rule list_all2_mono) auto
  from list_all2_sort_key[OF this]
  have "list_all2 (\<lambda>x y. ?t x = ?t y) (sort_key fst es) (sort_key fst fs)"
    by (rule list_all2_mono) (auto split: prod.splits)
  moreover have "sort_key fst fs = sort_key fst gs"
  proof (rule sort_key_inj_key_eq)
    show "mset fs = mset (sort_key fst gs)" using same_object(2) by simp
    show "inj_on fst (set fs)" using same_object(3) keys by (simp add: distinct_map)
    show "sorted (map fst (sort_key fst gs))" by (rule sorted_sort_key)
  qed
  ultimately show ?case by (simp add: collect_results_same)
qed simp

theorem canonical_json_ignores_order_witness:
  "canonical_json Inr (JObject [(''b'', JArray [JObject [(''d'', JNull), (''c'', JBool True)]]), (''a'', JString ''x'')])
   = canonical_json Inr (JObject [(''a'', JString ''x''), (''b'', JArray [JObject [(''c'', JBool True), (''d'', JNull)]])])"
proof -
  let ?in = "JObject [(''d'', JNull), (''c'', JBool True)]" and ?in' = "JObject [(''c'', JBool True), (''d'', JNull)]"
  have "same_json ?in ?in'"
    by (rule same_object[of _ "[(''d'', JNull), (''c'', JBool True)]"]) (auto intro: same_scalar)
  then have "same_json (JObject [(''b'', JArray [?in]), (''a'', JString ''x'')]) (JObject [(''a'', JString ''x''), (''b'', JArray [?in'])])"
    by (intro same_object[of _ "[(''b'', JArray [?in']), (''a'', JString ''x'')]"])
      (auto intro!: same_array intro: same_scalar)
  then show ?thesis by (rule canonical_json_ignores_order)
qed

subsection \<open>Bounded text\<close>

text \<open>\<open>JsonBuffer::write\<close>: a piece that does not fit leaves the buffer as it was.\<close>

record json_buffer =
  jb_bytes :: string
  jb_limit :: nat

definition json_buffer_write :: "string \<Rightarrow> json_buffer \<Rightarrow> (string + nat) \<times> json_buffer" where
  "json_buffer_write bs b =
     (if jb_limit b < min (2 ^ 64 - 1) (length (jb_bytes b) + length bs)
      then (Inl ''JSON output limit exceeded'', b)
      else (Inr (length bs), b\<lparr>jb_bytes := jb_bytes b @ bs\<rparr>))"

end
