(* ===== verification/Media_Output.thy ===== *)
theory Media_Output
  imports Media_Process Media_Json
begin

text \<open>
  The outputs of one resource (\<open>src/export.rs\<close>): recording a written file in the report
  (\<open>record\<close>), the checks of audio and video files (\<open>media_check\<close>, \<open>check_video_frames\<close>), decoding
  ADX blocks (\<open>adx\<close>), the audio and video formats (\<open>record_audio\<close>, \<open>encode_mp3\<close>,
  \<open>video_formats\<close>), preserved containers (\<open>preserve_cri\<close>) and image renditions (\<open>image_outputs\<close>).

  A step is given the worker's state and the report it fills in and returns both, also when it
  fails. The names of temporary files, the JSON, PNG and UTF-8 checks and the image encoder are
  arguments. A panic of a reader is what the worker's \<open>catch_unwind\<close> makes of it.
\<close>

subsection \<open>Steps\<close>

type_synonym 'a step = "media \<times> resource_report \<Rightarrow> (error + 'a) \<times> media \<times> resource_report"

definition step_bind :: "'a step \<Rightarrow> ('a \<Rightarrow> 'b step) \<Rightarrow> 'b step" where
  "step_bind m f x = (case m x of (Inl e, y) \<Rightarrow> (Inl e, y) | (Inr v, y) \<Rightarrow> f v y)"

definition step_pure :: "error + 'a \<Rightarrow> 'a step" where
  "step_pure r x = (r, x)"

definition on_media :: "(media \<Rightarrow> (error + 'a) \<times> media) \<Rightarrow> 'a step" where
  "on_media f x = (case f (fst x) of (r, s) \<Rightarrow> (r, s, snd x))"

definition with_media :: "(media \<Rightarrow> 'a) \<Rightarrow> 'a step" where
  "with_media f x = (Inr (f (fst x)), x)"

definition step_when :: "bool \<Rightarrow> unit step \<Rightarrow> unit step" where
  "step_when b m = (if b then m else step_pure (Inr ()))"

named_theorems step_simps \<open>inversion rules for composed steps\<close>

lemma step_bind_Inr [step_simps]:
  "step_bind m f x = (Inr v, y) \<longleftrightarrow> (\<exists>u z. m x = (Inr u, z) \<and> f u z = (Inr v, y))"
  by (auto simp: step_bind_def split: prod.splits sum.splits)

lemma step_bind_Inl [step_simps]:
  "step_bind m f x = (Inl e, y) \<longleftrightarrow> m x = (Inl e, y) \<or> (\<exists>u z. m x = (Inr u, z) \<and> f u z = (Inl e, y))"
  by (auto simp: step_bind_def split: prod.splits sum.splits)

lemma step_pure_iff [step_simps]: "step_pure r x = (q, y) \<longleftrightarrow> r = q \<and> y = x"
  by (auto simp: step_pure_def)

lemma on_media_iff [step_simps]: "on_media f x = (r, y) \<longleftrightarrow> f (fst x) = (r, fst y) \<and> snd y = snd x"
  by (cases y) (auto simp: on_media_def split: prod.splits)

text \<open>A relation between the state before and after that every change of the files and the clock keeps
  and that holds across a sequence: a step composed of steps that keep it keeps it, whether it
  succeeds or fails.\<close>

locale step_order =
  fixes ord :: "media \<times> resource_report \<Rightarrow> media \<times> resource_report \<Rightarrow> bool"
  assumes quiet: "snd y = snd x \<Longrightarrow> ord x y"
    and chain: "ord x y \<Longrightarrow> ord y z \<Longrightarrow> ord x z"
begin

definition keeps :: "'a step \<Rightarrow> bool" where
  "keeps m \<longleftrightarrow> (\<forall>x. ord x (snd (m x)))"

lemma keeps_bind: "keeps m \<Longrightarrow> (\<And>v. keeps (f v)) \<Longrightarrow> keeps (step_bind m f)"
  unfolding keeps_def step_bind_def
  by (auto split: prod.splits sum.splits) (metis snd_conv, metis chain snd_conv)

lemma keeps_pure: "keeps (step_pure r)"
  by (simp add: keeps_def step_pure_def quiet)

lemma keeps_media: "keeps (on_media f)"
  by (simp add: keeps_def on_media_def quiet split: prod.splits)

lemma keeps_when: "keeps m \<Longrightarrow> keeps (step_when b m)"
  by (simp add: step_when_def keeps_pure)

lemma keeps_if: "keeps m \<Longrightarrow> keeps n \<Longrightarrow> keeps (if b then m else n)"
  by simp

lemma keeps_quiet: "(\<And>x. snd (snd (m x)) = snd x) \<Longrightarrow> keeps m"
  by (simp add: keeps_def quiet)

lemmas keeps_rules = keeps_bind keeps_pure keeps_media keeps_when keeps_if

end

record output_lib =
  ol_crypto :: crypto
  ol_json_error :: "byte list \<Rightarrow> error option"
  ol_png_error :: "byte list \<Rightarrow> error option"
  ol_utf8_error :: "byte list \<Rightarrow> error option"
  ol_temporary :: "string \<Rightarrow> media \<Rightarrow> string"
  ol_encode_image :: "image_export \<Rightarrow> byte list \<Rightarrow> nat \<Rightarrow> error + byte list"
  ol_image_extension :: "native_image \<Rightarrow> string"
  ol_image_kind :: "native_image \<Rightarrow> string"

definition panicked :: error where
  "panicked = error.Export ''decoder worker panicked''"

subsection \<open>Files\<close>

definition read_file :: "media_world \<Rightarrow> string \<Rightarrow> media \<Rightarrow> (error + byte list) \<times> media" where
  "read_file w p s =
     (case mw_unreadable w (md_now s) p of
        Some m \<Rightarrow> (Inl (error.Export m), s)
      | None \<Rightarrow> (case md_files s p of
          None \<Rightarrow> (Inl (error.Export ''No such file or directory (os error 2)''), s)
        | Some b \<Rightarrow> (Inr b, s)))"

definition write_file :: "media_world \<Rightarrow> string \<Rightarrow> byte list \<Rightarrow> media \<Rightarrow> (error + unit) \<times> media" where
  "write_file w p b s =
     (case mw_unwritable w (md_now s) p of
        Some m \<Rightarrow> (Inl (error.Export m), s)
      | None \<Rightarrow> (Inr (), s\<lparr>md_files := (md_files s)(p \<mapsto> b)\<rparr>))"

definition remove_file :: "media_world \<Rightarrow> string \<Rightarrow> media \<Rightarrow> (error + unit) \<times> media" where
  "remove_file w p s =
     (if md_files s p = None then (Inl (error.Export ''No such file or directory (os error 2)''), s)
      else remove_outputs w [p] s)"

definition drop_file :: "string \<Rightarrow> media \<Rightarrow> (error + unit) \<times> media" where
  "drop_file p s = (Inr (), s\<lparr>md_files := (md_files s)(p := None)\<rparr>)"

text \<open>\<open>Path::set_extension\<close> and \<open>Path::extension\<close>.\<close>

definition split_dir :: "string \<Rightarrow> string \<times> string" where
  "split_dir p = (case rsplit_once ''/'' p of None \<Rightarrow> ([], p) | Some (d, f) \<Rightarrow> (d @ ''/'', f))"

definition file_parts :: "string \<Rightarrow> string \<times> string option" where
  "file_parts f =
     (case rsplit_once ''.'' f of None \<Rightarrow> (f, None) | Some (a, b) \<Rightarrow> if a = [] then (f, None) else (a, Some b))"

definition set_extension :: "string \<Rightarrow> string \<Rightarrow> string" where
  "set_extension p e = (case split_dir p of (d, f) \<Rightarrow> d @ fst (file_parts f) @ ''.'' @ e)"

definition path_extension :: "string \<Rightarrow> string option" where
  "path_extension p = snd (file_parts (snd (split_dir p)))"

subsection \<open>Checks and records\<close>

definition media_check :: "media_world \<Rightarrow> string \<Rightarrow> media \<Rightarrow> (error + unit) \<times> media" where
  "media_check w path s =
     (if path_extension path = Some ''wav''
      then (case read_file w path s of (Inl e, s1) \<Rightarrow> (Inl e, s1) | (Inr b, s1) \<Rightarrow> (validate_wav b, s1))
      else ffmpeg w [''-xerror'', ''-protocol_whitelist'', ''file,pipe'', ''-threads'', ''2'', ''-i'', path,
             ''-map'', ''0'', ''-f'', ''null'', ''-''] s)"

text \<open>\<open>report.outputs.iter().map(|o| o.bytes).sum()\<close>, and \<open>saturating_add\<close> on 64 bits.\<close>

definition prior_bytes :: "resource_report \<Rightarrow> nat" where
  "prior_bytes r = sum_list (map (\<lambda>o'. unat (out_bytes o')) (res_outputs r))"

definition sat_add :: "nat \<Rightarrow> nat \<Rightarrow> nat" where
  "sat_add a b = min (a + b) (2 ^ 64 - 1)"

definition max_output :: "media_world \<Rightarrow> nat" where
  "max_output w = unat (xc_max_output (mw_config w))"

definition check_budget :: "media_world \<Rightarrow> nat \<Rightarrow> unit step" where
  "check_budget w n x =
     (if max_output w < sat_add (prior_bytes (snd x)) n then Inl error.Size else Inr (), x)"

text \<open>The bytes were read in memory, so their number is below \<open>2^64\<close>.\<close>

definition push_output :: "output_lib \<Rightarrow> string \<Rightarrow> string \<Rightarrow> byte list \<Rightarrow> unit step" where
  "push_output lib rel kind b x =
     (Inr (), fst x,
      (snd x)\<lparr>res_outputs := res_outputs (snd x) @ [\<lparr>out_path = rel, out_kind = kind, out_bytes = of_nat (length b),
         out_sha256 = hex_encode (ol_crypto lib) (sha256 (ol_crypto lib) b), out_object = None\<rparr>]\<rparr>)"

definition relative_output :: "string \<Rightarrow> string \<Rightarrow> error + string" where
  "relative_output root0 path =
     (case strip_prefix (root0 @ ''/'') path of
        None \<Rightarrow> Inl (error.Export ''prefix not found'')
      | Some rel \<Rightarrow> Inr (map (\<lambda>c. if c = CHR 0x5C then CHR ''/'' else c) rel))"

definition record_output :: "media_world \<Rightarrow> output_lib \<Rightarrow> string \<Rightarrow> string \<Rightarrow> string \<Rightarrow> unit step" where
  "record_output w lib root0 path kind =
     step_bind (on_media (read_file w path)) (\<lambda>b.
     step_bind (check_budget w (length b)) (\<lambda>_.
     step_bind (step_pure (if contains_str kind ''json'' then (case ol_json_error lib b of None \<Rightarrow> Inr () | Some e \<Rightarrow> Inl e)
                           else Inr ())) (\<lambda>_.
     step_bind (step_pure (if kind = ''image_png'' then (case ol_png_error lib b of None \<Rightarrow> Inr () | Some e \<Rightarrow> Inl e)
                           else Inr ())) (\<lambda>_.
     step_bind (step_when (starts_with kind ''image_'' \<and> kind \<noteq> ''image_png'') (on_media (media_check w path))) (\<lambda>_.
     step_bind (step_pure (relative_output root0 path)) (\<lambda>rel.
     push_output lib rel kind b))))))"

text \<open>\<open>fs::write\<close> and \<open>record\<close>.\<close>

definition write_output :: "media_world \<Rightarrow> output_lib \<Rightarrow> string \<Rightarrow> string \<Rightarrow> string \<Rightarrow> byte list \<Rightarrow> unit step" where
  "write_output w lib root0 path kind b =
     step_bind (on_media (write_file w path b)) (\<lambda>_. record_output w lib root0 path kind)"

subsection \<open>Audio\<close>

definition pcm_or_panic :: "byte list \<Rightarrow> error + u16 \<times> u32 \<times> byte list" where
  "pcm_or_panic b = (case pcm_identity b of None \<Rightarrow> Inl panicked | Some r \<Rightarrow> r)"

definition mp3_bitrate :: "u32 \<Rightarrow> error + string" where
  "mp3_bitrate rate =
     (if rate \<in> {32000, 44100, 48000} then Inr ''320k''
      else if rate \<in> {16000, 22050, 24000} then Inr ''160k''
      else if rate \<in> {8000, 11025, 12000} then Inr ''64k''
      else Inl (error.Export ''MP3 sample rate is unsupported without resampling''))"

definition abs_diff :: "nat \<Rightarrow> nat \<Rightarrow> nat" where
  "abs_diff a b = (if a \<le> b then b - a else a - b)"

text \<open>The arguments that decode an encoded file to PCM again; only MP3 stops at the first error.\<close>

definition pcm_decode_args :: "bool \<Rightarrow> string \<Rightarrow> string \<Rightarrow> string list" where
  "pcm_decode_args strict target decoded =
     [''-y''] @ (if strict then [''-xerror''] else []) @ [''-protocol_whitelist'', ''file,pipe'', ''-i'', target,
       ''-map'', ''0:a:0'', ''-c:a'', ''pcm_s16le'', decoded]"

text \<open>The comparison at the end of \<open>encode_mp3\<close>; a division by zero would panic.\<close>

definition mp3_verified :: "u16 \<times> u32 \<times> byte list \<Rightarrow> u16 \<times> u32 \<times> byte list \<Rightarrow> error + unit" where
  "mp3_verified original decoded =
     (case (original, decoded) of ((channels, rate, pcm), (dchannels, drate, dpcm)) \<Rightarrow>
        if channels = 0 \<or> dchannels = 0 then Inl panicked
        else
          fail_if (channels \<noteq> dchannels \<or> rate \<noteq> drate \<or> dpcm = []
            \<or> 1152 < abs_diff (length pcm div (unat channels * 2)) (length dpcm div (unat dchannels * 2)))
            (error.Export ''MP3 channel/rate/duration verification failed''))"

text \<open>A temporary file of \<open>tempfile_in\<close>: created empty, removed when the step ends either way.\<close>

definition with_temporary :: "media_world \<Rightarrow> output_lib \<Rightarrow> string \<Rightarrow> (string \<Rightarrow> 'a step) \<Rightarrow> 'a step" where
  "with_temporary w lib suffix0 f x =
     (let p = ol_temporary lib suffix0 (fst x) in
      case write_file w p [] (fst x) of
        (Inl e, s) \<Rightarrow> (Inl e, s, snd x)
      | (Inr _, s) \<Rightarrow>
          (case f p (s, snd x) of (r, s1, rep) \<Rightarrow> (r, snd (drop_file p s1), rep)))"

definition encode_mp3 :: "media_world \<Rightarrow> output_lib \<Rightarrow> string \<Rightarrow> string step" where
  "encode_mp3 w lib wav =
     step_bind (on_media (read_file w wav)) (\<lambda>original.
     step_bind (step_pure (pcm_or_panic original)) (\<lambda>(channels, rate, pcm).
     step_bind (step_pure (fail_if ((channels \<noteq> 1 \<and> channels \<noteq> 2) \<or> pcm = [])
       (error.Export ''MP3 requires nonempty mono/stereo PCM''))) (\<lambda>_.
     step_bind (step_pure (mp3_bitrate rate)) (\<lambda>bitrate.
     (let target = set_extension wav ''mp3'' in
      step_bind (on_media (encode_media w encoding.Mp3 wav target
        [''-protocol_whitelist'', ''file,pipe'', ''-i'', wav, ''-map'', ''0:a:0'', ''-c:a'', ''libmp3lame'',
         ''-b:a'', bitrate, target])) (\<lambda>_.
      with_temporary w lib ''.wav'' (\<lambda>decoded.
        step_bind (on_media (ffmpeg w (pcm_decode_args True target decoded))) (\<lambda>_.
        step_bind (on_media (read_file w decoded)) (\<lambda>b.
        step_bind (step_pure (pcm_or_panic b)) (\<lambda>again.
        step_bind (step_pure (mp3_verified (channels, rate, pcm) again)) (\<lambda>_.
        step_pure (Inr target))))))))))))"

text \<open>The lossless encoding of \<open>record_audio\<close>: it is decoded again and compared sample by sample before
  it is recorded and before the WAV file may go.\<close>

definition keep_flac :: "media_world \<Rightarrow> output_lib \<Rightarrow> string \<Rightarrow> string \<Rightarrow> string \<Rightarrow> bool \<Rightarrow> string step" where
  "keep_flac w lib root0 wav codec keep_wav =
     (let target = set_extension wav ''flac'' in
      step_bind (on_media (encode_media w encoding.Flac wav target
        [''-protocol_whitelist'', ''file,pipe'', ''-i'', wav, ''-map'', ''0:a:0'', ''-c:a'', ''flac'',
         ''-compression_level'', ''12'', target])) (\<lambda>_.
      with_temporary w lib ''.wav'' (\<lambda>decoded.
        step_bind (on_media (ffmpeg w (pcm_decode_args False target decoded))) (\<lambda>_.
        step_bind (on_media (read_file w wav)) (\<lambda>original.
        step_bind (on_media (read_file w decoded)) (\<lambda>roundtrip.
        step_bind (step_pure (pcm_or_panic original)) (\<lambda>a.
        step_bind (step_pure (pcm_or_panic roundtrip)) (\<lambda>b.
        step_bind (step_pure (fail_if (a \<noteq> b) (error.Export ''FLAC PCM roundtrip mismatch''))) (\<lambda>_.
        step_bind (record_output w lib root0 target (codec @ ''_flac'')) (\<lambda>_.
        step_bind (step_when (\<not> keep_wav) (on_media (remove_file w wav))) (\<lambda>_.
        step_pure (Inr target))))))))))))"

definition record_audio :: "media_world \<Rightarrow> output_lib \<Rightarrow> string \<Rightarrow> string \<Rightarrow> string \<Rightarrow> string step" where
  "record_audio w lib root0 wav codec =
     (let formats = set (xc_audio (mw_config w)); flac = audio_export.Flac \<in> formats;
          keep_wav = audio_export.Wav \<in> formats \<or> \<not> flac in
      step_bind (if audio_export.Mp3 \<in> formats then step_bind (encode_mp3 w lib wav) (\<lambda>p. step_pure (Inr (Some p)))
                 else step_pure (Inr None)) (\<lambda>mp3.
      step_bind (step_when keep_wav (record_output w lib root0 wav (codec @ ''_wav''))) (\<lambda>_.
      step_bind (case mp3 of None \<Rightarrow> step_pure (Inr ())
                 | Some p \<Rightarrow> record_output w lib root0 p (codec @ ''_mp3'')) (\<lambda>_.
      if \<not> flac then step_pure (Inr wav) else keep_flac w lib root0 wav codec keep_wav))))"

subsection \<open>ADX\<close>

text \<open>The scan of the decoded WAV file: the length of its data and its format. Its slices panic out of
  range, which is \<open>None\<close>.\<close>

function adx_scan :: "byte list \<Rightarrow> nat \<Rightarrow> nat \<times> (u16 \<times> u32) option \<Rightarrow> (nat \<times> (u16 \<times> u32) option) option" where
  "adx_scan bs pos parts =
     (if length bs < pos + 8 then Some parts
      else (let sz = unat (u32_from_le (sub_list (pos + 4) (pos + 8) bs)); nxt = pos + 8 + sz + sz mod 2;
                actual = (if sub_list pos (pos + 4) bs = bytes_of ''data'' then sz else fst parts) in
        if sub_list pos (pos + 4) bs = bytes_of ''fmt ''
        then (case (get_slice (pos + 10) (pos + 12) bs, get_slice (pos + 12) (pos + 16) bs) of
                (Some c, Some r) \<Rightarrow> adx_scan bs nxt (actual, Some (u16_le c, u32_from_le r))
              | _ \<Rightarrow> None)
        else adx_scan bs nxt (actual, snd parts)))"
  by pat_completeness auto
termination
  by (relation "measure (\<lambda>(bs, pos, parts). length bs - pos)") auto

declare adx_scan.simps [simp del]

text \<open>\<open>samples * channels * 2\<close> of a 32-bit and an 8-bit number fits 64 bits.\<close>

definition adx_decode :: "media_world \<Rightarrow> output_lib \<Rightarrow> byte list \<Rightarrow> string \<Rightarrow> media \<Rightarrow> (error + unit) \<times> media" where
  "adx_decode w lib bs target s =
     (case adx_layout bs of
        Inl e \<Rightarrow> (Inl e, s)
      | Inr (channels, rate, samples, fin) \<Rightarrow>
          (let wav_bytes = unat samples * unat channels * 2 in
           if max_output w < wav_bytes then (Inl error.Size, s)
           else
             (let source = ol_temporary lib ''.adx'' s in
              case write_file w source (take fin bs) s of
                (Inl e, s1) \<Rightarrow> (Inl e, s1)
              | (Inr _, s1) \<Rightarrow>
                  (case ffmpeg_to w [''-protocol_whitelist'', ''file,pipe'', ''-err_detect'', ''explode'', ''-i'', source,
                       ''-map'', ''0:a:0'', ''-af'', ''atrim=end_sample='' @ decimal (unat samples), ''-c:a'', ''pcm_s16le'', target]
                       [target] s1 of
                     (Inl e, s2) \<Rightarrow> (Inl e, snd (drop_file source s2))
                   | (Inr _, s2) \<Rightarrow>
                       (case read_file w target s2 of
                          (Inl e, s3) \<Rightarrow> (Inl e, snd (drop_file source s3))
                        | (Inr wav, s3) \<Rightarrow>
                            (and_then (validate_wav wav) (\<lambda>_.
                             and_then (ok_or panicked (adx_scan wav 12 (0, None))) (\<lambda>(actual, format).
                             fail_if (actual \<noteq> wav_bytes \<or> format \<noteq> Some (ucast channels, rate))
                               (error.Export ''ADX decoded PCM length or format mismatch''))),
                             snd (drop_file source s3)))))))"

subsection \<open>Video\<close>

definition debug_frames :: "nat option \<Rightarrow> string" where
  "debug_frames n = (case n of None \<Rightarrow> ''None'' | Some k \<Rightarrow> ''Some('' @ decimal k @ '')'')"

text \<open>The last \<open>frame=\<close> line of the progress report that holds a number.\<close>

definition progress_frames :: "string \<Rightarrow> nat option" where
  "progress_frames txt =
     find_map (\<lambda>l. Option.bind (strip_prefix ''frame='' l) (\<lambda>r. parse_usize (trim r))) (rev (split_on (CHR 0x0A) txt))"

definition check_video_frames :: "media_world \<Rightarrow> output_lib \<Rightarrow> string \<Rightarrow> nat option \<Rightarrow> unit step" where
  "check_video_frames w lib movie expected =
     with_temporary w lib [] (\<lambda>progress.
       step_bind (on_media (ffmpeg w [''-xerror'', ''-protocol_whitelist'', ''file,pipe'', ''-threads'', ''2'', ''-i'', movie,
         ''-map'', ''0'', ''-progress'', progress, ''-f'', ''null'', ''-''])) (\<lambda>_.
       step_bind (on_media (read_file w progress)) (\<lambda>b.
       step_bind (step_pure (case ol_utf8_error lib b of None \<Rightarrow> Inr () | Some e \<Rightarrow> Inl e)) (\<lambda>_.
       (let decoded = progress_frames (map (\<lambda>x. char_of (unat x)) b) in
        step_pure (fail_if (expected = None \<or> decoded \<noteq> expected)
          (error.Export (''video frame count mismatch: declared '' @ debug_frames expected
             @ '', decoded '' @ debug_frames decoded))))))))"

definition mp4_args :: "string \<Rightarrow> string \<Rightarrow> string list" where
  "mp4_args movie mp4 =
     [''-protocol_whitelist'', ''file,pipe'', ''-i'', movie, ''-map'', ''0:v:0'', ''-map'', ''0:a:0?'', ''-c:v'', ''libx264'',
      ''-preset'', ''medium'', ''-crf'', ''18'', ''-pix_fmt'', ''yuv420p'', ''-threads'', ''2'', ''-fps_mode'', ''passthrough'',
      ''-c:a'', ''aac'', ''-b:a'', ''192k'', ''-movflags'', ''+faststart'', mp4]"

definition video_formats :: "media_world \<Rightarrow> output_lib \<Rightarrow> string \<Rightarrow> nat option \<Rightarrow> string \<Rightarrow> unit step" where
  "video_formats w lib movie expected root0 =
     (let video = xc_video (mw_config w); mp4 = set_extension movie ''mp4'' in
      step_bind (step_when (video = Mp4 \<or> video = MkvAndMp4)
        (step_bind (on_media (encode_media w Mp4Video movie mp4 (mp4_args movie mp4))) (\<lambda>_.
         step_bind (check_video_frames w lib mp4 expected) (\<lambda>_.
         record_output w lib root0 mp4 ''usm_mp4'')))) (\<lambda>_.
      if video = Mkv \<or> video = MkvAndMp4 then record_output w lib root0 movie ''usm_mkv''
      else on_media (remove_file w movie)))"

subsection \<open>Preserved containers and images\<close>

definition check_cancelled :: "media_world \<Rightarrow> unit step" where
  "check_cancelled w x = (if mw_cancelled w (md_now (fst x)) then Inl error.Cancelled else Inr (), x)"

definition preserve_cri :: "media_world \<Rightarrow> output_lib \<Rightarrow> byte list \<Rightarrow> string \<Rightarrow> string \<Rightarrow> string \<Rightarrow> unit step" where
  "preserve_cri w lib bs output root0 ext =
     step_bind (check_cancelled w) (\<lambda>_.
     step_bind (check_budget w (length bs)) (\<lambda>_.
     write_output w lib root0 (output @ ''/container.'' @ ext) (''cri_'' @ ext @ ''_container'') bs))"

text \<open>\<open>acquire_cpu(self.cpu_deadline())\<close>: the permit is dropped when the native work is done.\<close>

definition native_cpu :: "media_world \<Rightarrow> unit step" where
  "native_cpu w x =
     (case acquire_cpu w (cpu_deadline w (md_now (fst x))) (md_now (fst x)) of
        Inl e \<Rightarrow> (Inl e, x)
      | Inr t \<Rightarrow> (Inr (), (fst x)\<lparr>md_now := t\<rparr>, snd x))"

fun image_outputs :: "media_world \<Rightarrow> output_lib \<Rightarrow> image_export list \<Rightarrow> byte list \<Rightarrow> string \<Rightarrow> string \<Rightarrow> unit step" where
  "image_outputs w lib [] img output stem = step_pure (Inr ())"
| "image_outputs w lib (f # fs) img output stem =
     step_bind (check_cancelled w) (\<lambda>_.
     step_bind (\<lambda>x. (Inr (max_output w - prior_bytes (snd x)), x)) (\<lambda>remaining.
     step_bind (step_pure (fail_if (remaining = 0) error.Size)) (\<lambda>_.
     step_bind (native_cpu w) (\<lambda>_.
     step_bind (step_pure (and_then (image_validate f) (\<lambda>_.
       ol_encode_image lib f img (min (max_output w) (512 * 1024 * 1024))))) (\<lambda>data.
     step_bind (step_pure (fail_if (remaining < length data) error.Size)) (\<lambda>_.
     step_bind (check_cancelled w) (\<lambda>_.
     step_bind (write_output w lib output (output @ ''/'' @ stem @ ol_image_extension lib (native f))
       (ol_image_kind lib (native f)) data) (\<lambda>_.
     image_outputs w lib fs img output stem))))))))"

subsection \<open>Outputs only grow, within the budget\<close>

text \<open>The report after a step is the report before with outputs added at the end; with a limit the
  configuration accepts, a total within the limit stays within it.\<close>

definition grows :: "media_world \<Rightarrow> media \<times> resource_report \<Rightarrow> media \<times> resource_report \<Rightarrow> bool" where
  "grows w x y \<longleftrightarrow>
     (\<exists>extra. snd y = (snd x)\<lparr>res_outputs := res_outputs (snd x) @ extra\<rparr>)
     \<and> (max_output w < 2 ^ 64 - 1 \<longrightarrow> prior_bytes (snd x) \<le> max_output w \<longrightarrow> prior_bytes (snd y) \<le> max_output w)"

interpretation outputs: step_order "grows w" for w
proof
  fix x y z :: "media \<times> resource_report"
  show "snd y = snd x \<Longrightarrow> grows w x y" by (auto simp: grows_def intro: exI[of _ "[]"])
  show "grows w x y \<Longrightarrow> grows w y z \<Longrightarrow> grows w x z"
    by (cases x; cases y; cases z) (auto simp: grows_def)
qed

lemma push_output_grows:
  assumes "\<not> max_output w < sat_add (prior_bytes (snd x)) (length b)"
  shows "grows w x (snd (push_output lib rel kind b x))"
proof -
  have "prior_bytes (snd x) + unat (of_nat (length b) :: u64) \<le> max_output w" if "max_output w < 2 ^ 64 - 1"
  proof -
    have le: "prior_bytes (snd x) + length b \<le> max_output w"
      using assms that unfolding sat_add_def min_def by (auto split: if_splits)
    then have "unat (of_nat (length b) :: u64) = length b" using that by (simp add: unsigned_of_nat take_bit_nat_eq_self)
    with le show ?thesis by simp
  qed
  then show ?thesis by (auto simp: grows_def push_output_def prior_bytes_def)
qed

lemma record_output_Inr:
  assumes "record_output w lib root0 path kind x = (Inr u, y)"
  obtains b rel where "md_files (fst x) path = Some b" "\<not> max_output w < sat_add (prior_bytes (snd x)) (length b)"
    "relative_output root0 path = Inr rel" "snd y = snd (snd (push_output lib rel kind b x))"
  using assms
  by (auto simp: record_output_def step_simps read_file_def check_budget_def step_when_def push_output_def
    split: option.splits if_splits)

lemma record_output_Inl:
  assumes "record_output w lib root0 path kind x = (Inl e, y)"
  shows "snd y = snd x"
  using assms
  by (auto simp: record_output_def step_simps check_budget_def step_when_def push_output_def split: option.splits if_splits)

lemma record_output_keeps: "outputs.keeps w (record_output w lib root0 path kind)"
  unfolding outputs.keeps_def
proof
  fix x
  obtain r y where c: "record_output w lib root0 path kind x = (r, y)" by (cases "record_output w lib root0 path kind x")
  show "grows w x (snd (record_output w lib root0 path kind x))"
  proof (cases r)
    case (Inl e)
    with c show ?thesis by (simp add: record_output_Inl outputs.quiet)
  next
    case (Inr u)
    from record_output_Inr[OF c[unfolded Inr]] obtain b rel
      where "\<not> max_output w < sat_add (prior_bytes (snd x)) (length b)" "snd y = snd (snd (push_output lib rel kind b x))"
      by metis
    with push_output_grows[of w x b lib rel kind] c show ?thesis by (simp add: grows_def)
  qed
qed

lemma with_temporary_keeps:
  assumes "\<And>p. outputs.keeps w (f p)"
  shows "outputs.keeps w (with_temporary w lib sfx f)"
  unfolding outputs.keeps_def
proof
  fix x :: "media \<times> resource_report"
  obtain r s where wf: "write_file w (ol_temporary lib sfx (fst x)) [] (fst x) = (r, s)"
    by (cases "write_file w (ol_temporary lib sfx (fst x)) [] (fst x)")
  obtain q s1 rep where go: "f (ol_temporary lib sfx (fst x)) (s, snd x) = (q, s1, rep)"
    by (cases "f (ol_temporary lib sfx (fst x)) (s, snd x)") (metis prod.collapse)
  show "grows w x (snd (with_temporary w lib sfx f x))"
  proof (cases r)
    case (Inl e)
    with wf show ?thesis by (simp add: with_temporary_def Let_def outputs.quiet)
  next
    case (Inr u)
    have "grows w (s, snd x) (s1, rep)" using assms go unfolding outputs.keeps_def by (metis snd_conv)
    with wf go Inr show ?thesis by (simp add: with_temporary_def Let_def drop_file_def grows_def)
  qed
qed

lemma check_budget_keeps: "outputs.keeps w (check_budget w n)"
  by (rule outputs.keeps_quiet) (simp add: check_budget_def)

lemma check_cancelled_keeps: "outputs.keeps w (check_cancelled w)"
  by (rule outputs.keeps_quiet) (simp add: check_cancelled_def)

lemma native_cpu_keeps: "outputs.keeps w (native_cpu w)"
  by (rule outputs.keeps_quiet) (simp add: native_cpu_def split: sum.splits)

lemma observe_keeps: "outputs.keeps w (\<lambda>x. (Inr (g x), x))"
  by (rule outputs.keeps_quiet) simp

lemmas output_rules = outputs.keeps_rules record_output_keeps with_temporary_keeps check_budget_keeps
  check_cancelled_keeps native_cpu_keeps observe_keeps

lemma write_output_keeps: "outputs.keeps w (write_output w lib root0 path kind b)"
  unfolding write_output_def by (intro output_rules)

lemma preserve_cri_keeps: "outputs.keeps w (preserve_cri w lib bs output root0 ext)"
  unfolding preserve_cri_def by (intro output_rules write_output_keeps)

lemma encode_mp3_keeps: "outputs.keeps w (encode_mp3 w lib wav)"
  unfolding encode_mp3_def Let_def by (intro output_rules | simp split: prod.split | rule allI impI)+

lemma keeps_option: "(v = None \<Longrightarrow> outputs.keeps w m) \<Longrightarrow> (\<And>p. outputs.keeps w (f p)) \<Longrightarrow>
    outputs.keeps w (case v of None \<Rightarrow> m | Some p \<Rightarrow> f p)"
  by (cases v) simp_all

lemma keeps_pair: "(\<And>a b. outputs.keeps w (f a b)) \<Longrightarrow> outputs.keeps w (case v of (a, b) \<Rightarrow> f a b)"
  by (cases v) simp

lemma keep_flac_keeps: "outputs.keeps w (keep_flac w lib root0 wav codec keep_wav)"
  unfolding keep_flac_def Let_def by (intro output_rules)

lemma record_audio_keeps: "outputs.keeps w (record_audio w lib root0 wav codec)"
  unfolding record_audio_def Let_def
  by (intro output_rules encode_mp3_keeps keep_flac_keeps keeps_option)

lemma check_video_frames_keeps: "outputs.keeps w (check_video_frames w lib movie expected)"
  unfolding check_video_frames_def Let_def by (intro output_rules)

lemma video_formats_keeps: "outputs.keeps w (video_formats w lib movie expected root0)"
  unfolding video_formats_def Let_def by (intro output_rules check_video_frames_keeps)

lemma image_outputs_keeps: "outputs.keeps w (image_outputs w lib fs img output stem)"
  by (induction fs) (auto intro!: output_rules write_output_keeps)

subsection \<open>An example encoder\<close>

text \<open>An encoder that always succeeds: it writes the bytes \<open>b\<close> to its last argument and three frames to
  its progress file. One temporary name per suffix is enough here.\<close>

fun progress_argument :: "string list \<Rightarrow> string option" where
  "progress_argument (a # b # as) = (if a = ''-progress'' then Some b else progress_argument (b # as))"
| "progress_argument _ = None"

definition demo_written :: "byte list \<Rightarrow> string list \<Rightarrow> files \<Rightarrow> files" where
  "demo_written b args fs =
     (case progress_argument args of None \<Rightarrow> fs(last args \<mapsto> b) | Some p \<Rightarrow> fs(p \<mapsto> bytes_of ''frame=3''))"

definition demo_encoder :: "export_config \<Rightarrow> byte list \<Rightarrow> media_world" where
  "demo_encoder c b = demo_media_world\<lparr>mw_config := c,
     mw_spawn := (\<lambda>args t fs. Inr \<lparr>ch_end = Some t, ch_success = True, ch_status = [], ch_diagnostic = Some [],
       ch_files = (\<lambda>_. demo_written b args fs)\<rparr>)\<rparr>"

definition demo_lib :: output_lib where
  "demo_lib = \<lparr>ol_crypto = example_crypto, ol_json_error = (\<lambda>_. None), ol_png_error = (\<lambda>_. None), ol_utf8_error = (\<lambda>_. None),
     ol_temporary = (\<lambda>sfx _. ''t'' @ sfx), ol_encode_image = (\<lambda>_ _ _. Inr [1]), ol_image_extension = (\<lambda>_. ''.png''),
     ol_image_kind = (\<lambda>_. ''image_png'')\<rparr>"

definition demo_cli :: export_config where
  "demo_cli = demo_media_config\<lparr>xc_backend := Cli, xc_audio := [audio_export.Flac, audio_export.Mp3]\<rparr>"

definition demo_report :: resource_report where
  "demo_report = \<lparr>cache_hit = False, res_source = ''s'', output_directory = ''00000'', source_sha256 = [], res_objects = 0,
     selected_objects = 0, skipped_objects = 0, res_outputs = [], res_errors = []\<rparr>"

lemma demo_encoder_fields:
  "mw_config (demo_encoder c b) = c" "mw_throttle (demo_encoder c b) = throttle_default"
  "mw_limit_stages (demo_encoder c b) = False" "mw_shared_media (demo_encoder c b) = None"
  "mw_shared_cpu (demo_encoder c b) = None" "mw_cancelled (demo_encoder c b) = (\<lambda>_. False)"
  "mw_busy (demo_encoder c b) = (\<lambda>_ _. 0)" "mw_temporary (demo_encoder c b) = (\<lambda>_. None)"
  "mw_unremovable (demo_encoder c b) = (\<lambda>_ _. None)" "mw_unreadable (demo_encoder c b) = (\<lambda>_ _. None)"
  "mw_unwritable (demo_encoder c b) = (\<lambda>_ _. None)"
  "mw_spawn (demo_encoder c b) = (\<lambda>args t fs. Inr \<lparr>ch_end = Some t, ch_success = True, ch_status = [], ch_diagnostic = Some [],
       ch_files = (\<lambda>_. demo_written b args fs)\<rparr>)"
  by (simp_all add: demo_encoder_def demo_media_world_def)

lemma demo_cli_fields:
  "xc_backend demo_cli = Cli" "xc_audio demo_cli = [audio_export.Flac, audio_export.Mp3]" "xc_media_concurrency demo_cli = 2"
  "xc_cpus demo_cli = 4" "xc_media_timeout demo_cli = 120" "xc_max_output demo_cli = 1024" "xc_video demo_cli = SourceOnly"
  "xc_stage_limits demo_cli = stage_default" "xc_cri demo_cli = cri_default"
  "budget_for_cpus (xc_cpu demo_cli) 4 = Inr 4"
  by (simp_all add: demo_cli_def demo_media_config_def budget_for_cpus_def cpu_validate_def)

lemma demo_encoder_permits:
  assumes "t < deadline"
  shows "acquire_media (demo_encoder demo_cli b) deadline t = Inr t" "acquire_cpu (demo_encoder demo_cli b) deadline t = Inr t"
  using assms
  by (simp_all add: acquire_media_def acquire_cpu_def gate_wait.simps[of "demo_encoder demo_cli b"] gate_try_def
    throttle_wait.simps[of "demo_encoder demo_cli b"] demo_encoder_fields demo_cli_fields throttle_default_def)

lemma demo_runs:
  assumes "md_now s < deadline"
  shows "ffmpeg_deadline (demo_encoder demo_cli b) args deadline outs s =
    (Inr (), s\<lparr>md_started := (md_now s, args, md_files s) # md_started s,
       md_files := demo_written b ([''-v'', ''error'', ''-nostdin''] @ args) (md_files s)\<rparr>)"
  using assms
  by (simp add: ffmpeg_deadline_def ffmpeg_loop.simps[of "demo_encoder demo_cli b"] ffmpeg_attempt_def demo_encoder_permits
    demo_encoder_fields poll_child.simps[of "demo_encoder demo_cli b"] child_result_def Let_def)

lemma demo_stage:
  "stage_acquire (demo_encoder demo_cli b) st deadline now = Inr now"
  by (simp add: stage_acquire_def effective_stage_limits_def effective_def stage_validate_def stage_default_def all_stages_def
    demo_encoder_fields demo_cli_fields)

lemma demo_encodes:
  "encode_media (demo_encoder demo_cli b) enc inp outp args s =
    (Inr (), s\<lparr>md_started := (md_now s, args, md_files s) # md_started s,
       md_files := demo_written b ([''-v'', ''error'', ''-nostdin''] @ args) (md_files s)\<rparr>)"
proof -
  have "md_now s < media_deadline (demo_encoder demo_cli b) s"
    by (simp add: media_deadline_def seconds_def demo_encoder_fields demo_cli_fields)
  then show ?thesis
    by (simp add: encode_media_def Let_def demo_stage demo_encoder_fields demo_cli_fields demo_runs)
qed

lemma demo_ffmpeg:
  "ffmpeg_to (demo_encoder demo_cli b) args outs s =
    (Inr (), s\<lparr>md_started := (md_now s, args, md_files s) # md_started s,
       md_files := demo_written b ([''-v'', ''error'', ''-nostdin''] @ args) (md_files s)\<rparr>)"
proof -
  have "md_now s < media_deadline (demo_encoder demo_cli b) s"
    by (simp add: media_deadline_def seconds_def demo_encoder_fields demo_cli_fields)
  then show ?thesis by (simp add: ffmpeg_to_def demo_runs)
qed

end
