(* ===== verification/Media_Container.thy ===== *)
theory Media_Container
  imports Media_Output
begin

text \<open>
  Decoding the CRI containers of a resource (\<open>src/export.rs\<close>): the choice by signature and policy
  (\<open>cri\<close>), the waveforms of an ACB file (\<open>acb\<close>) and the streams of a USM movie (\<open>usm\<close>,
  \<open>usm_decode\<close>), with its second attempt without the video mask. The decoder library (tables,
  streams, HCA decoding, archive entries), the listing of a directory and the JSON texts are
  arguments.
\<close>

subsection \<open>The decoder library\<close>

text \<open>An HCA stream: its blocks and channels, and what decoding it writes, with the error that stopped it.\<close>

record hca_stream =
  hc_blocks :: nat
  hc_channels :: nat
  hc_error :: "error option"
  hc_wav :: "byte list"

record cue_track =
  tk_name :: string
  tk_cue :: nat
  tk_wav :: nat
  tk_stream :: bool

record cri_lib =
  cd_metadata :: "byte list \<Rightarrow> error + json \<times> (int \<times> int) option"
  cd_streams :: "byte list \<Rightarrow> u64 option \<Rightarrow> error + (string \<times> byte list) list"
  cd_hca :: "byte list \<Rightarrow> u64 \<Rightarrow> nat \<Rightarrow> error + hca_stream"
  cd_utf :: "byte list \<Rightarrow> error + unit"
  cd_tracks :: "byte list \<Rightarrow> error + cue_track list"
  cd_embedded :: "byte list \<Rightarrow> byte list option"
  cd_awb :: "byte list \<Rightarrow> error + nat \<times> (nat \<times> (error + byte list)) list"
  cd_cues :: "(string \<times> nat \<times> nat) list \<Rightarrow> error + byte list"
  cd_quote :: "string \<Rightarrow> error + string"
  cd_listing :: "string \<Rightarrow> media \<Rightarrow> error + (string \<times> bool) list"

text \<open>\<open>stage_gates.acquire(&self.effective_stage_limits()?, stage, &self.cancel)\<close>\<close>

definition native_stage :: "media_world \<Rightarrow> decoder_stage \<Rightarrow> unit step" where
  "native_stage w st x =
     (case and_then (effective_stage_limits (mw_config w)) (\<lambda>limits.
         stage_acquire w st (md_now (fst x) + seconds (stage_wait limits)) (md_now (fst x))) of
        Inl e \<Rightarrow> (Inl e, x)
      | Inr t \<Rightarrow> (Inr (), (fst x)\<lparr>md_now := t\<rparr>, snd x))"

text \<open>\<open>decode_to_wav(&mut fs::File::create(target)?)\<close>: a failed decoding leaves what it wrote.\<close>

definition decode_to_wav :: "media_world \<Rightarrow> hca_stream \<Rightarrow> string \<Rightarrow> unit step" where
  "decode_to_wav w h target =
     step_bind (on_media (write_file w target (hc_wav h))) (\<lambda>_.
     step_pure (case hc_error h of None \<Rightarrow> Inr () | Some e \<Rightarrow> Inl e))"

definition index_name :: "string \<Rightarrow> nat \<Rightarrow> string \<Rightarrow> string" where
  "index_name output i ext = output @ ''/'' @ zero_padded 5 i @ ''.'' @ ext"

subsection \<open>ACB\<close>

definition cues_of :: "cue_track list \<Rightarrow> nat \<Rightarrow> (string \<times> nat \<times> nat) list" where
  "cues_of tracks cue = map (\<lambda>t. (tk_name t, tk_cue t, cue)) (filter (\<lambda>t. tk_wav t = cue) tracks)"

definition write_cues :: "media_world \<Rightarrow> output_lib \<Rightarrow> cri_lib \<Rightarrow> string \<Rightarrow> string \<Rightarrow> nat \<Rightarrow> cue_track list \<Rightarrow> nat \<Rightarrow> unit step" where
  "write_cues w lib cd output root0 i tracks cue =
     step_bind (step_pure (cd_cues cd (cues_of tracks cue))) (\<lambda>b.
     write_output w lib root0 (index_name output i ''cues.json'') ''cue_metadata'' b)"

text \<open>\<open>checked_mul\<close> of the blocks, 1024 samples and two bytes per channel; the two saturating additions.\<close>

definition pcm_bound :: "hca_stream \<Rightarrow> error + nat" where
  "pcm_bound h =
     (if 2 ^ 64 \<le> hc_blocks h * 1024 \<or> 2 ^ 64 \<le> hc_blocks h * 1024 * (hc_channels h * 2)
      then Inl error.Size else Inr (hc_blocks h * 1024 * (hc_channels h * 2)))"

definition acb_entry ::
  "media_world \<Rightarrow> output_lib \<Rightarrow> cri_lib \<Rightarrow> u64 \<Rightarrow> nat \<Rightarrow> string \<Rightarrow> string \<Rightarrow> cue_track list
   \<Rightarrow> nat \<Rightarrow> nat \<times> (error + byte list) \<Rightarrow> unit step" where
  "acb_entry w lib cd key subkey output root0 tracks i entry =
     step_bind (check_cancelled w) (\<lambda>_.
     step_bind (native_stage w Hca) (\<lambda>_.
     step_bind (native_cpu w) (\<lambda>_.
     step_bind (step_pure (snd entry)) (\<lambda>hca.
     if \<not> is_hca hca then
       step_bind (check_budget w (length hca)) (\<lambda>_.
       step_bind (write_output w lib root0
         (index_name output i (if starts_with hca [0x80, 0] then ''adx'' else ''bin'')) ''acb_raw_waveform'' hca) (\<lambda>_.
       write_cues w lib cd output root0 i tracks (fst entry)))
     else
       step_bind (step_pure (cd_hca cd hca key subkey)) (\<lambda>h.
       step_bind (step_pure (pcm_bound h)) (\<lambda>n.
       step_bind (check_budget w (sat_add n 44)) (\<lambda>_.
       (let target = index_name output i ''wav'' in
        step_bind (decode_to_wav w h target) (\<lambda>_.
        step_bind (on_media (media_check w target)) (\<lambda>_.
        step_bind (record_audio w lib root0 target ''hca'') (\<lambda>_.
        write_cues w lib cd output root0 i tracks (fst entry))))))))))))"

fun acb_entries ::
  "media_world \<Rightarrow> output_lib \<Rightarrow> cri_lib \<Rightarrow> u64 \<Rightarrow> nat \<Rightarrow> string \<Rightarrow> string \<Rightarrow> cue_track list
   \<Rightarrow> nat \<Rightarrow> (nat \<times> (error + byte list)) list \<Rightarrow> unit step" where
  "acb_entries w lib cd key subkey output root0 tracks i [] = step_pure (Inr ())"
| "acb_entries w lib cd key subkey output root0 tracks i (e # es) =
     step_bind (acb_entry w lib cd key subkey output root0 tracks i e) (\<lambda>_.
     acb_entries w lib cd key subkey output root0 tracks (Suc i) es)"

definition acb_tables :: "cri_lib \<Rightarrow> byte list \<Rightarrow> error + cue_track list \<times> nat \<times> (nat \<times> (error + byte list)) list" where
  "acb_tables cd bs =
     and_then (cd_utf cd bs) (\<lambda>_.
     and_then (cd_tracks cd bs) (\<lambda>tracks.
     and_then (fail_if (list_ex tk_stream tracks) (error.Export ''ACB requires external AWB'')) (\<lambda>_.
     and_then (ok_or (error.Export ''ACB has no embedded AWB'') (cd_embedded cd bs)) (\<lambda>embedded.
     and_then (cd_awb cd embedded) (\<lambda>(subkey, entries).
     and_then (fail_if (entries = []) (error.Export ''ACB contains no waveforms'')) (\<lambda>_.
     and_then (fail_if (list_ex (\<lambda>t. tk_wav t \<notin> fst ` set entries) tracks)
       (error.Export ''cue references absent waveform'')) (\<lambda>_.
     Inr (tracks, subkey, entries))))))))"

definition acb :: "media_world \<Rightarrow> output_lib \<Rightarrow> cri_lib \<Rightarrow> byte list \<Rightarrow> string \<Rightarrow> u64 \<Rightarrow> string \<Rightarrow> unit step" where
  "acb w lib cd bs output key root0 =
     (if cri_acb (xc_cri (mw_config w)) = Preserve then preserve_cri w lib bs output root0 ''acb''
      else
        step_bind (native_stage w Acb) (\<lambda>_.
        step_bind (native_cpu w) (\<lambda>_.
        step_bind (step_pure (acb_tables cd bs)) (\<lambda>(tracks, subkey, entries).
        acb_entries w lib cd key subkey output root0 tracks 0 entries))))"

subsection \<open>USM\<close>

definition section_rows :: "json \<Rightarrow> json list" where
  "section_rows sec = unwrap_or [] (Option.bind (json_path [''data'', ''rows''] sec) as_array)"

definition usm_sections :: "json \<Rightarrow> json list" where
  "usm_sections v = unwrap_or [] (Option.bind (json_get ''sections'' v) as_array)"

text \<open>An audio header without a codec marks the old form; the last frame count of any row is the
  expected one.\<close>

definition legacy_adx :: "json \<Rightarrow> bool" where
  "legacy_adx v \<longleftrightarrow>
     list_ex (\<lambda>sec. list_ex (\<lambda>row. Option.bind (json_get ''kind'' sec) as_str = Some ''audio_header''
       \<and> json_get ''audio_codec'' row = None) (section_rows sec)) (usm_sections v)"

definition expected_frames :: "json \<Rightarrow> nat option" where
  "expected_frames v =
     fold (\<lambda>row n. case Option.bind (json_get ''total_frames'' row) as_u64 of None \<Rightarrow> n | Some k \<Rightarrow> Some k)
       (concat (map section_rows (usm_sections v))) None"

record usm_key =
  uk_value :: u64
  uk_masked :: bool

type_synonym usm_tracks = "string option \<times> string option"

definition usm_stream ::
  "media_world \<Rightarrow> output_lib \<Rightarrow> cri_lib \<Rightarrow> byte list \<Rightarrow> string \<Rightarrow> usm_key \<Rightarrow> string \<Rightarrow> bool
   \<Rightarrow> nat \<Rightarrow> string \<times> byte list \<Rightarrow> usm_tracks \<Rightarrow> usm_tracks step" where
  "usm_stream w lib cd bs output crypto root0 legacy i stream tracks =
     (case (stream, tracks) of ((ext, data), (video, audio)) \<Rightarrow>
        step_bind (step_pure (fail_if (max_output w < length data) error.Size)) (\<lambda>_.
        if ext = ''ivf'' \<or> ext = ''m2v'' then
          step_bind (step_pure (fail_if (video \<noteq> None) (error.Export ''multiple video streams are unsupported''))) (\<lambda>_.
          (let target = index_name output i ext in
           step_bind (write_output w lib root0 target ''usm_video_stream'' data) (\<lambda>_.
           step_pure (Inr (Some target, audio)))))
        else if ext = ''adx'' then
          step_bind (step_pure (fail_if (audio \<noteq> None) (error.Export ''multiple audio streams are unsupported''))) (\<lambda>_.
          (let target = index_name output i ''wav'' in
           step_bind (step_pure (if legacy \<and> uk_masked crypto then legacy_adx_stream bs (uk_value crypto) else Inr data)) (\<lambda>d.
           step_bind (on_media (adx_decode w lib d target)) (\<lambda>_.
           step_bind (record_audio w lib root0 target ''adx'') (\<lambda>p.
           step_pure (Inr (video, Some p)))))))
        else if ext = ''hca'' then
          step_bind (step_pure (fail_if (audio \<noteq> None) (error.Export ''multiple audio streams are unsupported''))) (\<lambda>_.
          (let target = index_name output i ''wav'' in
           step_bind (native_stage w Hca) (\<lambda>_.
           step_bind (native_cpu w) (\<lambda>_.
           step_bind (step_pure (cd_hca cd data (uk_value crypto) 0)) (\<lambda>h.
           step_bind (decode_to_wav w h target) (\<lambda>_.
           step_bind (on_media (media_check w target)) (\<lambda>_.
           step_bind (record_audio w lib root0 target ''hca'') (\<lambda>p.
           step_pure (Inr (video, Some p))))))))))
        else step_pure (Inl (error.Export ''unsupported USM stream codec''))))"

fun usm_streams ::
  "media_world \<Rightarrow> output_lib \<Rightarrow> cri_lib \<Rightarrow> byte list \<Rightarrow> string \<Rightarrow> usm_key \<Rightarrow> string \<Rightarrow> bool
   \<Rightarrow> nat \<Rightarrow> (string \<times> byte list) list \<Rightarrow> usm_tracks \<Rightarrow> usm_tracks step" where
  "usm_streams w lib cd bs output crypto root0 legacy i [] tracks = step_pure (Inr tracks)"
| "usm_streams w lib cd bs output crypto root0 legacy i (s # ss) tracks =
     step_bind (usm_stream w lib cd bs output crypto root0 legacy i s tracks) (\<lambda>tracks'.
     usm_streams w lib cd bs output crypto root0 legacy (Suc i) ss tracks')"

definition usm_decode ::
  "media_world \<Rightarrow> output_lib \<Rightarrow> cri_lib \<Rightarrow> byte list \<Rightarrow> string \<Rightarrow> usm_key \<Rightarrow> string \<Rightarrow> unit step" where
  "usm_decode w lib cd bs output crypto root0 =
     step_bind (native_cpu w) (\<lambda>_.
     step_bind (step_pure (cd_metadata cd bs)) (\<lambda>(value0, rate).
     step_bind (step_pure (cd_streams cd bs (if uk_masked crypto then Some (uk_value crypto) else None))) (\<lambda>streams.
     step_bind (usm_streams w lib cd bs output crypto root0 (legacy_adx value0) 0 streams (None, None)) (\<lambda>(video, audio).
     step_bind (step_pure (ok_or (error.Export ''USM contains no video'') video)) (\<lambda>v.
     (let movie = output @ ''/movie.mkv''; expected = expected_frames value0 in
      step_bind (on_media (ffmpeg_to w (mkv_mux_args v audio rate movie) [movie])) (\<lambda>_.
      step_bind (check_video_frames w lib movie expected) (\<lambda>_.
      step_bind (video_formats w lib movie expected root0) (\<lambda>_.
      step_bind (step_pure (canonical_json (cd_quote cd) value0)) (\<lambda>j.
      step_bind (write_output w lib root0 (output @ ''/usm.json'') ''usm_metadata_json'' (bytes_of j)) (\<lambda>_.
      write_output w lib root0 (output @ ''/container-mask.json'')
        (if uk_masked crypto then ''usm_masked_json'' else ''usm_plaintext_json'')
        (bytes_of (if uk_masked crypto then ''true'' else ''false'')))))))))))))"

text \<open>The cleanup before the second attempt: every entry must be a file.\<close>

fun remove_entries :: "media_world \<Rightarrow> (string \<times> bool) list \<Rightarrow> unit step" where
  "remove_entries w [] = step_pure (Inr ())"
| "remove_entries w ((p, file) # es) =
     step_bind (step_pure (fail_if (\<not> file) error.Io)) (\<lambda>_.
     step_bind (on_media (remove_file w p)) (\<lambda>_. remove_entries w es))"

text \<open>The text of an error as \<open>to_string\<close> gives it, as far as the second attempt reports it.\<close>

definition retry_reason :: "error \<Rightarrow> string option" where
  "retry_reason e =
     (case e of
        error.Export m \<Rightarrow>
          if starts_with m ''media decode:'' \<or> starts_with m ''video frame count'' then Some m else None
      | _ \<Rightarrow> None)"

definition usm_unmasked ::
  "media_world \<Rightarrow> output_lib \<Rightarrow> cri_lib \<Rightarrow> (error \<Rightarrow> string) \<Rightarrow> byte list \<Rightarrow> string \<Rightarrow> u64 \<Rightarrow> string \<Rightarrow> string \<Rightarrow> unit step" where
  "usm_unmasked w lib cd show_error bs output key root0 reason x =
     (case usm_decode w lib cd bs output \<lparr>uk_value = key, uk_masked = False\<rparr> root0 x of
        (Inr _, y) \<Rightarrow> (Inr (), y)
      | (Inl e, y) \<Rightarrow>
          (Inl (error.Export (''masked video failed ('' @ reason @ ''); unmasked video failed ('' @ show_error e @ '')'')), y))"

definition usm_again ::
  "media_world \<Rightarrow> output_lib \<Rightarrow> cri_lib \<Rightarrow> (error \<Rightarrow> string) \<Rightarrow> byte list \<Rightarrow> string \<Rightarrow> u64 \<Rightarrow> string \<Rightarrow> string \<Rightarrow> unit step" where
  "usm_again w lib cd show_error bs output key root0 reason =
     step_bind (\<lambda>x. (cd_listing cd output (fst x), x)) (\<lambda>es.
     step_bind (remove_entries w es) (\<lambda>_.
     usm_unmasked w lib cd show_error bs output key root0 reason))"

definition usm_masked ::
  "media_world \<Rightarrow> output_lib \<Rightarrow> cri_lib \<Rightarrow> (error \<Rightarrow> string) \<Rightarrow> byte list \<Rightarrow> string \<Rightarrow> u64 \<Rightarrow> string \<Rightarrow> unit step" where
  "usm_masked w lib cd show_error bs output key root0 x =
     (case usm_decode w lib cd bs output \<lparr>uk_value = key, uk_masked = True\<rparr> root0 x of
        (Inr _, y) \<Rightarrow> (Inr (), y)
      | (Inl e, s, rep) \<Rightarrow>
          (case retry_reason e of
             None \<Rightarrow> (Inl e, s, rep)
           | Some reason \<Rightarrow>
               usm_again w lib cd show_error bs output key root0 reason
                 (s, rep\<lparr>res_outputs := take (length (res_outputs (snd x))) (res_outputs rep)\<rparr>)))"

definition usm ::
  "media_world \<Rightarrow> output_lib \<Rightarrow> cri_lib \<Rightarrow> (error \<Rightarrow> string) \<Rightarrow> byte list \<Rightarrow> string \<Rightarrow> u64 \<Rightarrow> string \<Rightarrow> unit step" where
  "usm w lib cd show_error bs output key root0 =
     step_bind (native_stage w Usm) (\<lambda>_. usm_masked w lib cd show_error bs output key root0)"

subsection \<open>The choice by signature\<close>

definition create_dir :: "media_world \<Rightarrow> string \<Rightarrow> media \<Rightarrow> (error + unit) \<times> media" where
  "create_dir w d s = (case mw_unwritable w (md_now s) d of Some m \<Rightarrow> Inl (error.Export m) | None \<Rightarrow> Inr (), s)"

definition cri ::
  "media_world \<Rightarrow> output_lib \<Rightarrow> cri_lib \<Rightarrow> (error \<Rightarrow> string) \<Rightarrow> string \<Rightarrow> string \<Rightarrow> u64 \<Rightarrow> unit step" where
  "cri w lib cd show_error path output key =
     step_bind (on_media (read_file w path)) (\<lambda>bs.
     if starts_with bs (bytes_of ''@UTF'') then acb w lib cd bs output key output
     else
       step_bind (step_pure (fail_if (\<not> starts_with bs (bytes_of ''CRID'')) (error.Export ''unknown CRI container''))) (\<lambda>_.
       if cri_usm (xc_cri (mw_config w)) = Preserve then preserve_cri w lib bs output output ''usm''
       else
         step_bind (native_cpu w) (\<lambda>_.
         step_bind (step_pure (split_alpha_usm bs)) (\<lambda>tracks.
         (case tracks of
            Some (color, alpha) \<Rightarrow>
              step_bind (on_media (create_dir w (output @ ''/color''))) (\<lambda>_.
              step_bind (usm w lib cd show_error color (output @ ''/color'') key output) (\<lambda>_.
              step_bind (on_media (create_dir w (output @ ''/alpha''))) (\<lambda>_.
              usm w lib cd show_error alpha (output @ ''/alpha'') key output)))
          | None \<Rightarrow> usm w lib cd show_error bs output key output)))))"

subsection \<open>Outputs of a container\<close>

lemma native_stage_keeps: "outputs.keeps w (native_stage w st)"
  by (rule outputs.keeps_quiet) (simp add: native_stage_def split: sum.splits)

lemma decode_to_wav_keeps: "outputs.keeps w (decode_to_wav w h target)"
  unfolding decode_to_wav_def by (intro output_rules)

lemma write_cues_keeps: "outputs.keeps w (write_cues w lib cd output root0 i tracks cue)"
  unfolding write_cues_def by (intro output_rules write_output_keeps)

lemmas container_rules = output_rules write_output_keeps native_stage_keeps decode_to_wav_keeps write_cues_keeps
  record_audio_keeps preserve_cri_keeps check_video_frames_keeps video_formats_keeps keeps_pair keeps_option

lemma acb_entry_keeps: "outputs.keeps w (acb_entry w lib cd key subkey output root0 tracks i entry)"
  unfolding acb_entry_def Let_def by (intro container_rules)

lemma acb_entries_keeps: "outputs.keeps w (acb_entries w lib cd key subkey output root0 tracks i es)"
  by (induction es arbitrary: i) (auto intro!: container_rules acb_entry_keeps)

lemma acb_keeps: "outputs.keeps w (acb w lib cd bs output key root0)"
  unfolding acb_def by (intro container_rules acb_entries_keeps)

lemma usm_stream_keeps: "outputs.keeps w (usm_stream w lib cd bs output crypto root0 legacy i s tracks)"
  unfolding usm_stream_def Let_def by (intro container_rules)

lemma usm_streams_keeps: "outputs.keeps w (usm_streams w lib cd bs output crypto root0 legacy i ss tracks)"
  by (induction ss arbitrary: i tracks) (auto intro!: container_rules usm_stream_keeps)

lemma usm_decode_keeps: "outputs.keeps w (usm_decode w lib cd bs output crypto root0)"
  unfolding usm_decode_def Let_def by (intro container_rules usm_streams_keeps)

lemma remove_entries_keeps: "outputs.keeps w (remove_entries w es)"
  by (induction es) (auto intro!: container_rules)

text \<open>Taking the outputs of the first attempt back gives the report the attempt started from.\<close>

lemma grows_taken_back:
  assumes "grows w x (s, rep)"
  shows "rep\<lparr>res_outputs := take (length (res_outputs (snd x))) (res_outputs rep)\<rparr> = snd x"
  using assms by (auto simp: grows_def)

lemma usm_again_keeps: "outputs.keeps w (usm_again w lib cd show_error bs output key root0 reason)"
proof -
  have "outputs.keeps w (usm_unmasked w lib cd show_error bs output key root0 reason)"
    using usm_decode_keeps[of w lib cd bs "output" "\<lparr>uk_value = key, uk_masked = False\<rparr>" root0]
    unfolding outputs.keeps_def usm_unmasked_def by (auto split: prod.splits sum.splits) (metis snd_conv)+
  moreover have "outputs.keeps w (\<lambda>x. (cd_listing cd output (fst x), x))" by (rule outputs.keeps_quiet) simp
  ultimately show ?thesis unfolding usm_again_def by (intro container_rules remove_entries_keeps)
qed

lemma usm_keeps: "outputs.keeps w (usm w lib cd show_error bs output key root0)"
proof -
  have "outputs.keeps w (usm_masked w lib cd show_error bs output key root0)"
    unfolding outputs.keeps_def
  proof
    fix x
    let ?m = "usm_masked w lib cd show_error bs output key root0"
    obtain r s rep where d: "usm_decode w lib cd bs output \<lparr>uk_value = key, uk_masked = True\<rparr> root0 x = (r, s, rep)"
      by (cases "usm_decode w lib cd bs output \<lparr>uk_value = key, uk_masked = True\<rparr> root0 x") (metis prod.collapse)
    have g: "grows w x (s, rep)" using usm_decode_keeps d unfolding outputs.keeps_def by (metis snd_conv)
    show "grows w x (snd (?m x))"
    proof (cases "\<exists>e reason. r = Inl e \<and> retry_reason e = Some reason")
      case False
      with d g show ?thesis by (cases r) (auto simp: usm_masked_def split: option.splits)
    next
      case True
      then obtain e reason where e: "r = Inl e" "retry_reason e = Some reason" by blast
      have "grows w x (s, snd x)" by (rule outputs.quiet) simp
      moreover have "grows w (s, snd x) (snd (usm_again w lib cd show_error bs output key root0 reason (s, snd x)))"
        using usm_again_keeps unfolding outputs.keeps_def by blast
      ultimately have "grows w x (snd (usm_again w lib cd show_error bs output key root0 reason (s, snd x)))"
        by (rule outputs.chain)
      with e d grows_taken_back[OF g] show ?thesis by (simp add: usm_masked_def)
    qed
  qed
  then show ?thesis unfolding usm_def by (intro outputs.keeps_bind native_stage_keeps)
qed

lemma cri_keeps: "outputs.keeps w (cri w lib cd show_error path output key)"
  unfolding cri_def by (intro container_rules acb_keeps usm_keeps)

text \<open>C23. The outputs of a resource stay within its limit and are only added to: whatever the decoders
  and encoders do, decoding a CRI file or writing the renditions of an image, whether it succeeds or
  fails and however often a movie is attempted, leaves the report as it was but for outputs appended
  at its end, and their recorded bytes never pass the configured maximum.\<close>

theorem container_outputs_bounded:
  assumes "cri w lib cd show_error path output key x = (r, y)"
    and "image_outputs w lib fs img output' stem y = (r', z)"
    and "xc_max_output (mw_config w) \<le> 16 * 1024 * 1024 * 1024"
    and "prior_bytes (snd x) \<le> max_output w"
  shows "(\<exists>extra extra'. snd y = (snd x)\<lparr>res_outputs := res_outputs (snd x) @ extra\<rparr>
      \<and> snd z = (snd x)\<lparr>res_outputs := res_outputs (snd x) @ extra @ extra'\<rparr>)
    \<and> prior_bytes (snd y) \<le> max_output w \<and> prior_bytes (snd z) \<le> max_output w"
proof -
  have "grows w x y" using cri_keeps assms(1) unfolding outputs.keeps_def by (metis snd_conv)
  moreover have "grows w y z" using image_outputs_keeps assms(2) unfolding outputs.keeps_def by (metis snd_conv)
  moreover have "max_output w < 2 ^ 64 - 1"
    using assms(3) by (simp add: max_output_def word_le_nat_alt)
  ultimately obtain e1 e2 where e: "snd y = (snd x)\<lparr>res_outputs := res_outputs (snd x) @ e1\<rparr>"
    "snd z = (snd y)\<lparr>res_outputs := res_outputs (snd y) @ e2\<rparr>" "prior_bytes (snd y) \<le> max_output w" "prior_bytes (snd z) \<le> max_output w"
    using assms(4) by (auto simp: grows_def)
  from e(1,2) have "snd z = (snd x)\<lparr>res_outputs := res_outputs (snd x) @ e1 @ e2\<rparr>" by simp
  with e show ?thesis by blast
qed

text \<open>What a successful write leaves last in the report.\<close>

lemma write_output_last:
  assumes "write_output w lib root0 path kind b x = (Inr u, y)"
  shows "res_outputs (snd y) \<noteq> []" "out_kind (last (res_outputs (snd y))) = kind"
  using assms unfolding write_output_def step_simps
  by (auto elim!: record_output_Inr simp: push_output_def)

lemma usm_decode_last:
  assumes "usm_decode w lib cd bs output crypto root0 x = (Inr u, y)"
  shows "res_outputs (snd y) \<noteq> []"
    "out_kind (last (res_outputs (snd y))) = (if uk_masked crypto then ''usm_masked_json'' else ''usm_plaintext_json'')"
  using assms unfolding usm_decode_def Let_def
  by (auto simp: step_simps split: prod.splits dest: write_output_last)

lemma remove_file_gone:
  "remove_file w p s = (Inr u, s') \<Longrightarrow> md_files s' p = None \<and> (\<forall>q. md_files s' q = md_files s q \<or> md_files s' q = None)"
  using remove_outputs_effect(4,5)[of w "[p]" s "Inr ()" s'] by (auto simp: remove_file_def split: if_splits)

lemma remove_entries_gone:
  assumes "remove_entries w es x = (Inr u, y)"
  shows "snd y = snd x" "\<forall>(p, file) \<in> set es. file \<and> md_files (fst y) p = None"
    "\<forall>q. md_files (fst y) q = md_files (fst x) q \<or> md_files (fst y) q = None"
proof -
  have "snd y = snd x \<and> (\<forall>(p, file) \<in> set es. file \<and> md_files (fst y) p = None)
    \<and> (\<forall>q. md_files (fst y) q = md_files (fst x) q \<or> md_files (fst y) q = None)"
    using assms
  proof (induction es arbitrary: x)
    case Nil
    then show ?case by (simp add: step_simps)
  next
    case (Cons e es)
    obtain p fl where e: "e = (p, fl)" by (cases e)
    from Cons(2) obtain z where z: fl "remove_file w p (fst x) = (Inr (), fst z)" "snd z = snd x"
      "remove_entries w es z = (Inr u, y)"
      by (auto simp: e step_simps result_simps)
    note g = remove_file_gone[OF z(2)]
    have IH: "snd y = snd z" "\<forall>(p, file) \<in> set es. file \<and> md_files (fst y) p = None"
      "\<forall>q. md_files (fst y) q = md_files (fst z) q \<or> md_files (fst y) q = None" using Cons(1)[OF z(4)] by simp_all
    from g IH(3) have "md_files (fst y) p = None" by metis
    then have "\<forall>(p, file) \<in> set (e # es). file \<and> md_files (fst y) p = None" using IH(2) z(1) by (simp add: e)
    moreover have "md_files (fst y) q = md_files (fst x) q \<or> md_files (fst y) q = None" for q
      using g IH(3) by metis
    ultimately show ?case using IH(1) z(3) by simp
  qed
  then show "snd y = snd x" "\<forall>(p, file) \<in> set es. file \<and> md_files (fst y) p = None"
    "\<forall>q. md_files (fst y) q = md_files (fst x) q \<or> md_files (fst y) q = None" by simp_all
qed

text \<open>C22. The outputs of a movie come from one attempt, and the report says which: a successful
  decoding ends with the record that the container was masked, when the first attempt succeeded, or
  that it was not, when the first failed in decoding and a second, without the mask, succeeded
  from the report as it was before the first and with every file of the output directory removed.\<close>

theorem usm_outputs_from_one_attempt:
  assumes "usm w lib cd show_error bs output key root0 x = (Inr u, y)"
  shows "\<exists>masked z. snd z = snd x
    \<and> usm_decode w lib cd bs output \<lparr>uk_value = key, uk_masked = masked\<rparr> root0 z = (Inr (), y)
    \<and> out_kind (last (res_outputs (snd y))) = (if masked then ''usm_masked_json'' else ''usm_plaintext_json'')
    \<and> (\<not> masked \<longrightarrow> (\<exists>s es. cd_listing cd output s = Inr es
         \<and> (\<forall>(p, file) \<in> set es. file \<and> md_files (fst z) p = None)
         \<and> (\<forall>q. md_files (fst z) q = md_files s q \<or> md_files (fst z) q = None)))"
proof -
  from assms obtain x0 where x0: "snd x0 = snd x" "usm_masked w lib cd show_error bs output key root0 x0 = (Inr u, y)"
    by (auto simp: usm_def step_simps native_stage_def split: sum.splits)
  obtain r s rep where d: "usm_decode w lib cd bs output \<lparr>uk_value = key, uk_masked = True\<rparr> root0 x0 = (r, s, rep)"
    by (cases "usm_decode w lib cd bs output \<lparr>uk_value = key, uk_masked = True\<rparr> root0 x0") (metis prod.collapse)
  show ?thesis
  proof (cases r)
    case (Inr v)
    with d x0(2) have y: "y = (s, rep)" by (simp add: usm_masked_def)
    with d Inr x0(1) usm_decode_last(2)[of w lib cd bs "output" _ root0 x0 "()" y] show ?thesis
      by (intro exI[of _ True] exI[of _ x0]) simp
  next
    case (Inl e)
    have g: "grows w x0 (s, rep)" using usm_decode_keeps d unfolding outputs.keeps_def by (metis snd_conv)
    from Inl d x0(2) obtain reason where "usm_again w lib cd show_error bs output key root0 reason (s, snd x0) = (Inr u, y)"
      using grows_taken_back[OF g] by (auto simp: usm_masked_def split: option.splits)
    then obtain es z where es: "cd_listing cd output s = Inr es" "remove_entries w es (s, snd x0) = (Inr (), z)"
      "usm_unmasked w lib cd show_error bs output key root0 reason z = (Inr u, y)"
      by (auto simp: usm_again_def step_simps)
    from es(3) have dz: "usm_decode w lib cd bs output \<lparr>uk_value = key, uk_masked = False\<rparr> root0 z = (Inr (), y)"
      by (auto simp: usm_unmasked_def split: prod.splits sum.splits)
    from dz usm_decode_last(2)[OF dz] remove_entries_gone[OF es(2)] es(1) x0(1) show ?thesis
      by (intro exI[of _ False] exI[of _ z]) auto
  qed
qed

subsection \<open>Examples\<close>

definition demo_cri :: cri_lib where
  "demo_cri = \<lparr>cd_metadata = (\<lambda>_. Inr (JObject [(''sections'', JArray [JObject [(''data'', JObject [(''rows'',
       JArray [JObject [(''total_frames'', JNumber (Some 3) ''3'')]])])]])], None)),
     cd_streams = (\<lambda>_ _. Inr [(''ivf'', [1])]), cd_hca = (\<lambda>_ _ _. Inl error.Io), cd_utf = (\<lambda>_. Inr ()),
     cd_tracks = (\<lambda>_. Inr []), cd_embedded = (\<lambda>_. None), cd_awb = (\<lambda>_. Inl error.Io), cd_cues = (\<lambda>_. Inr []),
     cd_quote = (\<lambda>s. Inr (CHR 0x22 # s @ [CHR 0x22])), cd_listing = (\<lambda>_ _. Inr [])\<rparr>"

definition demo_preserve :: export_config where
  "demo_preserve = demo_cli\<lparr>xc_cri := \<lparr>cri_acb = Preserve, cri_usm = Preserve\<rparr>\<rparr>"

definition demo_table :: media where
  "demo_table = demo_media\<lparr>md_files := [''i'' \<mapsto> bytes_of ''@UTF'']\<rparr>"

lemma demo_media_read:
  "read_file (demo_encoder c b) p s =
     (case md_files s p of None \<Rightarrow> (Inl (error.Export ''No such file or directory (os error 2)''), s) | Some v \<Rightarrow> (Inr v, s))"
  "write_file (demo_encoder c b) p bs s = (Inr (), s\<lparr>md_files := (md_files s)(p \<mapsto> bs)\<rparr>)"
  by (simp_all add: read_file_def write_file_def demo_encoder_fields)

lemmas demo_container_steps = step_bind_def step_pure_def on_media_def demo_media_read demo_encoder_fields check_cancelled_def
  check_budget_def write_output_def record_output_def step_when_def push_output_def max_output_def

theorem container_outputs_bounded_witness:
  "prior_bytes (snd (snd (cri (demo_encoder demo_preserve []) demo_lib demo_cri (\<lambda>_. []) ''i'' ''o'' 0 (demo_table, demo_report)))) \<le> 1024
   \<and> map out_path (res_outputs (snd (snd (cri (demo_encoder demo_preserve []) demo_lib demo_cri (\<lambda>_. []) ''i'' ''o'' 0 (demo_table, demo_report)))))
     = [''container.acb'']"
proof -
  let ?c = "cri (demo_encoder demo_preserve []) demo_lib demo_cri (\<lambda>_. []) ''i'' ''o'' 0 (demo_table, demo_report)"
  have e: "relative_output ''o'' ''o/container.acb'' = Inr ''container.acb''"
    by (simp add: relative_output_def strip_prefix_def starts_with_def)
  have p: "map out_path (res_outputs (snd (snd ?c))) = [''container.acb'']"
    by (simp add: cri_def acb_def preserve_cri_def demo_container_steps demo_table_def demo_preserve_def demo_report_def e
      prior_bytes_def demo_cli_fields demo_lib_def starts_with_def bytes_of_def sat_add_def)
  have c: "?c = (fst ?c, snd ?c)" by simp
  have i: "image_outputs (demo_encoder demo_preserve []) demo_lib [] [] ''o'' ''s'' (snd ?c) = (Inr (), snd ?c)"
    by (simp add: step_pure_def)
  have m: "xc_max_output (mw_config (demo_encoder demo_preserve [])) = 1024"
    by (simp add: demo_encoder_fields demo_preserve_def demo_cli_fields)
  from container_outputs_bounded[OF c i] m p show ?thesis by (simp add: max_output_def prior_bytes_def demo_report_def)
qed

text \<open>A movie with one video stream of three frames.\<close>

lemma demo_lib_answers:
  "ol_json_error demo_lib b = None" "ol_utf8_error demo_lib b = None" "ol_temporary demo_lib sfx s = ''t'' @ sfx"
  by (simp_all add: demo_lib_def)

lemma demo_written_output:
  assumes "prior_bytes rep + length b \<le> 1024" "relative_output ''o'' path = Inr rel" "\<not> starts_with kind ''image_''"
    "kind \<noteq> ''image_png''"
  shows "write_output (demo_encoder demo_cli c) demo_lib ''o'' path kind b (s, rep) =
     push_output demo_lib rel kind b (s\<lparr>md_files := (md_files s)(path \<mapsto> b)\<rparr>, rep)"
  using assms
  by (simp add: demo_container_steps demo_cli_fields sat_add_def demo_lib_answers)

lemma demo_pushed:
  "length b \<le> 100 \<Longrightarrow> push_output demo_lib rel kind b (s, rep) = (Inr (), s, snd (snd (push_output demo_lib rel kind b (s, rep))))
     \<and> prior_bytes (snd (snd (push_output demo_lib rel kind b (s, rep)))) = prior_bytes rep + length b"
  by (simp add: push_output_def prior_bytes_def unsigned_of_nat take_bit_nat_eq_self)

lemma demo_waits:
  "native_stage (demo_encoder demo_cli b) st x = (Inr (), x)" "native_cpu (demo_encoder demo_cli b) x = (Inr (), x)"
proof -
  obtain limits where l: "effective_stage_limits demo_cli = Inr limits"
    by (auto simp: effective_stage_limits_def effective_def stage_validate_def stage_default_def all_stages_def demo_cli_fields)
  then show "native_stage (demo_encoder demo_cli b) st x = (Inr (), x)"
    by (simp add: native_stage_def demo_stage demo_encoder_fields)
  have "md_now (fst x) < cpu_deadline (demo_encoder demo_cli b) (md_now (fst x))"
    by (simp add: cpu_deadline_def seconds_def demo_encoder_fields demo_cli_fields stage_default_def)
  then show "native_cpu (demo_encoder demo_cli b) x = (Inr (), x)"
    by (simp add: native_cpu_def demo_encoder_permits)
qed

lemma demo_frames: "progress_frames ''frame=3'' = Some 3"
proof -
  have "trim ''3'' = ''3''" by (simp add: trim_def trim_start.simps blank.simps)
  moreover have "parse_usize ''3'' = Some 3"
    by (simp add: parse_usize_def digits_value_def is_ascii_digit_def USIZE_RANGE_def)
  ultimately show ?thesis by (simp add: progress_frames_def strip_prefix_def starts_with_def)
qed

lemma demo_progress: "map (\<lambda>x. char_of (unat x)) (bytes_of ''frame=3'') = ''frame=3''"
  by (simp add: bytes_of_def char_of_def bit_Suc_0_iff)

lemma demo_checked_video:
  "movie \<noteq> ''-progress'' \<Longrightarrow> \<exists>s'. check_video_frames (demo_encoder demo_cli b) demo_lib movie (Some 3) (s, rep) = (Inr (), s', rep)
     \<and> md_files s' = (md_files s)(''t'' := None)"
  by (simp add: check_video_frames_def with_temporary_def demo_container_steps ffmpeg_def demo_ffmpeg demo_lib_answers demo_written_def
    Let_def demo_progress demo_frames drop_file_def fail_if_def)

lemma demo_formats:
  assumes "md_files s movie = Some f"
  shows "video_formats (demo_encoder demo_cli b) demo_lib movie expected root0 (s, rep)
    = (Inr (), s\<lparr>md_files := (md_files s)(movie := None)\<rparr>, rep)"
  using assms
  by (simp add: video_formats_def demo_container_steps demo_cli_fields remove_file_def Let_def)

lemma demo_mux:
  "ffmpeg_to (demo_encoder demo_cli b) (mkv_mux_args ''o/00000.ivf'' None None ''o/movie.mkv'') outs s =
    (Inr (), s\<lparr>md_started := (md_now s, mkv_mux_args ''o/00000.ivf'' None None ''o/movie.mkv'', md_files s) # md_started s,
       md_files := (md_files s)(''o/movie.mkv'' \<mapsto> b)\<rparr>)"
  by (simp add: demo_ffmpeg demo_written_def mkv_mux_args_def)

lemma demo_relative:
  "relative_output ''o'' ''o/00000.ivf'' = Inr ''00000.ivf''" "relative_output ''o'' ''o/usm.json'' = Inr ''usm.json''"
  "relative_output ''o'' ''o/container-mask.json'' = Inr ''container-mask.json''"
  by (simp_all add: relative_output_def strip_prefix_def starts_with_def)

definition demo_document :: json where
  "demo_document = JObject [(''sections'', JArray [JObject [(''data'', JObject [(''rows'',
     JArray [JObject [(''total_frames'', JNumber (Some 3) ''3'')]])])]])]"

lemma demo_metadata:
  "cd_metadata demo_cri bs = Inr (demo_document, None)" "expected_frames demo_document = Some 3"
  "\<exists>j. canonical_json (cd_quote demo_cri) demo_document = Inr j \<and> length j \<le> 100"
  by (simp_all add: demo_cri_def demo_document_def expected_frames_def section_rows_def usm_sections_def json_path_def
    json_scalar_def)

lemma demo_stream:
  "\<exists>s' rep'. usm_streams (demo_encoder demo_cli b) demo_lib demo_cri bs ''o'' crypto ''o'' legacy 0 [(''ivf'', [1])] (None, None) (s, demo_report)
     = (Inr (Some ''o/00000.ivf'', None), s', rep') \<and> prior_bytes rep' \<le> 1"
proof -
  have "write_output (demo_encoder demo_cli b) demo_lib ''o'' ''o/00000.ivf'' ''usm_video_stream'' [1] (s, demo_report)
      = push_output demo_lib ''00000.ivf'' ''usm_video_stream'' [1] (s\<lparr>md_files := (md_files s)(''o/00000.ivf'' \<mapsto> [1])\<rparr>, demo_report)"
    by (rule demo_written_output) (simp_all add: demo_relative prior_bytes_def demo_report_def starts_with_def)
  moreover have "index_name ''o'' 0 ''ivf'' = ''o/00000.ivf''"
  proof -
    have "decimal 0 = ''0''" by (simp add: decimal.simps char_of_def bit_Suc_0_iff)
    then show ?thesis by (simp add: index_name_def zero_padded_def numeral_eq_Suc)
  qed
  ultimately show ?thesis
    by (simp add: usm_stream_def fail_if_def step_bind_def step_pure_def Let_def max_output_def demo_encoder_fields demo_cli_fields)
      (simp add: push_output_def prior_bytes_def demo_report_def step_pure_def)
qed

lemma demo_decoded:
  "\<exists>y. usm_decode (demo_encoder demo_cli []) demo_lib demo_cri bs ''o'' \<lparr>uk_value = 0, uk_masked = True\<rparr> ''o'' (s, demo_report) = (Inr (), y)"
proof -
  let ?e = "demo_encoder demo_cli []"
  obtain s1 rep1 where st: "usm_streams ?e demo_lib demo_cri bs ''o'' \<lparr>uk_value = 0, uk_masked = True\<rparr> ''o'' (legacy_adx demo_document)
      0 [(''ivf'', [1])] (None, None) (s, demo_report) = (Inr (Some ''o/00000.ivf'', None), s1, rep1)" and r1: "prior_bytes rep1 \<le> 1"
    using demo_stream by blast
  define s2 where "s2 = s1\<lparr>md_started := (md_now s1, mkv_mux_args ''o/00000.ivf'' None None ''o/movie.mkv'', md_files s1) # md_started s1,
     md_files := (md_files s1)(''o/movie.mkv'' \<mapsto> [])\<rparr>"
  obtain s3 where ch: "check_video_frames ?e demo_lib ''o/movie.mkv'' (Some 3) (s2, rep1) = (Inr (), s3, rep1)"
    and f3: "md_files s3 = (md_files s2)(''t'' := None)"
    using demo_checked_video[of "''o/movie.mkv''" "[]" s2 rep1] by auto
  define s4 where "s4 = s3\<lparr>md_files := (md_files s3)(''o/movie.mkv'' := None)\<rparr>"
  have vf: "video_formats ?e demo_lib ''o/movie.mkv'' (Some 3) ''o'' (s3, rep1) = (Inr (), s4, rep1)"
    unfolding s4_def by (rule demo_formats) (simp add: f3 s2_def)
  obtain j where j: "canonical_json (cd_quote demo_cri) demo_document = Inr j" "length j \<le> 100" using demo_metadata(3) by blast
  have w1: "write_output ?e demo_lib ''o'' ''o/usm.json'' ''usm_metadata_json'' (bytes_of j) (s4, rep1)
      = push_output demo_lib ''usm.json'' ''usm_metadata_json'' (bytes_of j) (s4\<lparr>md_files := (md_files s4)(''o/usm.json'' \<mapsto> bytes_of j)\<rparr>, rep1)"
    using r1 j(2) by (intro demo_written_output) (simp_all add: demo_relative starts_with_def)
  obtain s5 rep2 where p1: "push_output demo_lib ''usm.json'' ''usm_metadata_json'' (bytes_of j)
      (s4\<lparr>md_files := (md_files s4)(''o/usm.json'' \<mapsto> bytes_of j)\<rparr>, rep1) = (Inr (), s5, rep2)" and r2: "prior_bytes rep2 \<le> 101"
    using demo_pushed[of "bytes_of j" "''usm.json''" "''usm_metadata_json''"
      "s4\<lparr>md_files := (md_files s4)(''o/usm.json'' \<mapsto> bytes_of j)\<rparr>" rep1] j(2) r1 by auto
  have w2: "write_output ?e demo_lib ''o'' ''o/container-mask.json'' ''usm_masked_json'' (bytes_of ''true'') (s5, rep2)
      = push_output demo_lib ''container-mask.json'' ''usm_masked_json'' (bytes_of ''true'')
         (s5\<lparr>md_files := (md_files s5)(''o/container-mask.json'' \<mapsto> bytes_of ''true'')\<rparr>, rep2)"
    using r2 by (intro demo_written_output) (simp_all add: demo_relative starts_with_def)
  have streams: "cd_streams demo_cri bs k = Inr [(''ivf'', [1])]" for k by (simp add: demo_cri_def)
  have m: "ffmpeg_to ?e (mkv_mux_args ''o/00000.ivf'' None None ''o/movie.mkv'') outs s1 = (Inr (), s2)" for outs
    by (simp add: demo_mux s2_def)
  show ?thesis
    unfolding usm_decode_def Let_def
    by (simp add: step_bind_def step_pure_def on_media_def demo_waits demo_metadata(1,2) streams st m ch vf j(1) w1 p1 w2
        del: usm_streams.simps) (simp add: push_output_def)
qed

theorem usm_outputs_from_one_attempt_witness:
  "\<exists>y. usm (demo_encoder demo_cli []) demo_lib demo_cri (\<lambda>_. []) [] ''o'' 0 ''o'' (demo_media, demo_report) = (Inr (), y)
     \<and> (\<exists>masked. out_kind (last (res_outputs (snd y))) = (if masked then ''usm_masked_json'' else ''usm_plaintext_json''))"
proof -
  obtain y where "usm_decode (demo_encoder demo_cli []) demo_lib demo_cri [] ''o'' \<lparr>uk_value = 0, uk_masked = True\<rparr> ''o''
      (demo_media, demo_report) = (Inr (), y)" using demo_decoded by blast
  then have "usm (demo_encoder demo_cli []) demo_lib demo_cri (\<lambda>_. []) [] ''o'' 0 ''o'' (demo_media, demo_report) = (Inr (), y)"
    by (simp add: usm_def usm_masked_def step_bind_def demo_waits)
  with usm_outputs_from_one_attempt[OF this] show ?thesis by blast
qed

end
