(* ===== verification/Media_Audio.thy ===== *)
theory Media_Audio
  imports Media_Output
begin

text \<open>
  What the audio steps of the export guarantee: a lossless copy of every waveform remains and is
  compared with the original before the WAV file goes, an MP3 file has the format and, but for one
  frame of padding, the duration of the original, and decoded ADX has every sample.
\<close>

subsection \<open>A process that succeeded\<close>

text \<open>The files as a successful process with these arguments left them.\<close>

definition left_by :: "media_world \<Rightarrow> string list \<Rightarrow> files \<Rightarrow> bool" where
  "left_by w args fs \<longleftrightarrow>
     (\<exists>t f ch u. mw_spawn w ([''-v'', ''error'', ''-nostdin''] @ args) t f = Inr ch
        \<and> ch_success ch \<and> ch_diagnostic ch = Some [] \<and> fs = ch_files ch u)"

lemma attempt_left:
  assumes "ffmpeg_attempt w args deadline s = (None, s')"
  shows "left_by w args (md_files s')"
  using assms
  by (auto simp: ffmpeg_attempt_def Let_def left_by_def child_result_def
    split: sum.splits option.splits prod.splits if_splits) blast

lemma ffmpeg_loop_left:
  "ffmpeg_loop w args deadline outputs n s = (Inr u, s') \<Longrightarrow> left_by w args (md_files s')"
proof (induction w args deadline outputs n s arbitrary: s' rule: ffmpeg_loop.induct)
  case (1 w args deadline outputs n s)
  obtain f s1 where a: "ffmpeg_attempt w args deadline s = (f, s1)" by (cases "ffmpeg_attempt w args deadline s")
  show ?case
  proof (cases f)
    case None
    with 1(2) a show ?thesis by (auto simp: ffmpeg_loop.simps[of w args deadline outputs n s] dest: attempt_left)
  next
    case (Some e0)
    with 1(2) a obtain e where f: "f = Some (Transient e)"
      and c: "\<not> (mr_attempts (xc_media_retry (mw_config w)) \<le> n + 1 \<or> mw_cancelled w (md_now s1))"
      and d: "\<not> deadline \<le> md_now s1 + media_pause w n"
      by (auto simp: ffmpeg_loop.simps[of w args deadline outputs n s] Let_def split: media_failure.splits if_splits)
    obtain r2 s2 where o2: "remove_outputs w outputs s1 = (r2, s2)" by (cases "remove_outputs w outputs s1")
    let ?s3 = "s2\<lparr>md_retries := md_retries s2 + 1\<rparr>"
    from 1(2) a f c d o2 obtain t where r2: "r2 = Inr ()" and b: "backoff w (md_now s1 + media_pause w n) (md_now ?s3) = Inr t"
      and go: "ffmpeg_loop w args deadline outputs (n + 1) (?s3\<lparr>md_now := t\<rparr>) = (Inr u, s')"
      by (auto simp: ffmpeg_loop.simps[of w args deadline outputs n s] Let_def split: sum.splits)
    show ?thesis using 1(1)[OF a[symmetric] f refl c refl d o2[symmetric] r2 refl b go] .
  qed
qed

lemma ffmpeg_left: "ffmpeg w args s = (Inr u, s') \<Longrightarrow> left_by w args (md_files s')"
  by (auto simp: ffmpeg_def ffmpeg_to_def ffmpeg_deadline_def dest: ffmpeg_loop_left)

lemma with_temporary_Inr:
  assumes "with_temporary w lib sfx f x = (Inr v, y)"
  obtains p s s1 rep where "p = ol_temporary lib sfx (fst x)" "f p (s, snd x) = (Inr v, s1, rep)"
    "md_files s = (md_files (fst x))(p \<mapsto> [])" "md_files (fst y) = (md_files s1)(p := None)" "snd y = rep"
  using assms
  by (auto simp: with_temporary_def Let_def write_file_def drop_file_def split: sum.splits prod.splits option.splits)

subsection \<open>Lossless copies\<close>

lemma pcm_or_panic_Inr: "pcm_or_panic b = Inr q \<longleftrightarrow> pcm_identity b = Some (Inr q)"
  by (auto simp: pcm_or_panic_def split: option.splits)

lemma read_file_Inr: "read_file w p s = (Inr b, s') \<longleftrightarrow> s' = s \<and> mw_unreadable w (md_now s) p = None \<and> md_files s p = Some b"
  by (auto simp: read_file_def split: option.splits)

text \<open>The record a report ends with.\<close>

definition describes :: "output_lib \<Rightarrow> byte list \<Rightarrow> output_record \<Rightarrow> bool" where
  "describes lib b rec \<longleftrightarrow> out_bytes rec = of_nat (length b)
     \<and> out_sha256 rec = hex_encode (ol_crypto lib) (sha256 (ol_crypto lib) b)"

lemma record_output_appends:
  assumes "record_output w lib root0 path kind x = (Inr u, y)"
  shows "\<exists>rec b. res_outputs (snd y) = res_outputs (snd x) @ [rec] \<and> out_kind rec = kind
    \<and> md_files (fst x) path = Some b \<and> describes lib b rec"
  using assms by (auto elim!: record_output_Inr simp: push_output_def describes_def)

text \<open>What was compared before the WAV file could go: a successful process that decoded the recorded
  file left the same PCM as the WAV file that was there at the same time.\<close>

definition flac_verified :: "media_world \<Rightarrow> output_lib \<Rightarrow> string \<Rightarrow> string \<Rightarrow> output_record \<Rightarrow> bool" where
  "flac_verified w lib wav target rec \<longleftrightarrow>
     (\<exists>fs t original roundtrip flac q. left_by w (pcm_decode_args False target t) fs
        \<and> fs wav = Some original \<and> fs t = Some roundtrip \<and> fs target = Some flac
        \<and> pcm_identity original = Some (Inr q) \<and> pcm_identity roundtrip = Some (Inr q)
        \<and> describes lib flac rec)"

lemma keep_flac_Inr:
  assumes "keep_flac w lib root0 wav codec keep_wav x = (Inr p, y)"
  shows "p = set_extension wav ''flac''
    \<and> (\<exists>rec. res_outputs (snd y) = res_outputs (snd x) @ [rec] \<and> out_kind rec = codec @ ''_flac'' \<and> flac_verified w lib wav p rec)
    \<and> (\<not> keep_wav \<longrightarrow> md_files (fst y) wav = None)"
proof -
  let ?target = "set_extension wav ''flac''"
  from assms obtain z where z: "snd z = snd x"
    "with_temporary w lib ''.wav'' (\<lambda>decoded.
        step_bind (on_media (ffmpeg w (pcm_decode_args False ?target decoded))) (\<lambda>_.
        step_bind (on_media (read_file w wav)) (\<lambda>original.
        step_bind (on_media (read_file w decoded)) (\<lambda>roundtrip.
        step_bind (step_pure (pcm_or_panic original)) (\<lambda>a.
        step_bind (step_pure (pcm_or_panic roundtrip)) (\<lambda>b.
        step_bind (step_pure (fail_if (a \<noteq> b) (error.Export ''FLAC PCM roundtrip mismatch''))) (\<lambda>_.
        step_bind (record_output w lib root0 ?target (codec @ ''_flac'')) (\<lambda>_.
        step_bind (step_when (\<not> keep_wav) (on_media (remove_file w wav))) (\<lambda>_.
        step_pure (Inr ?target)))))))))) z = (Inr p, y)"
    unfolding keep_flac_def Let_def step_bind_Inr on_media_iff by blast
  from z(2) show ?thesis
  proof (rule with_temporary_Inr)
    fix t s s1 rep
    assume d: "step_bind (on_media (ffmpeg w (pcm_decode_args False ?target t))) (\<lambda>_.
        step_bind (on_media (read_file w wav)) (\<lambda>original.
        step_bind (on_media (read_file w t)) (\<lambda>roundtrip.
        step_bind (step_pure (pcm_or_panic original)) (\<lambda>a.
        step_bind (step_pure (pcm_or_panic roundtrip)) (\<lambda>b.
        step_bind (step_pure (fail_if (a \<noteq> b) (error.Export ''FLAC PCM roundtrip mismatch''))) (\<lambda>_.
        step_bind (record_output w lib root0 ?target (codec @ ''_flac'')) (\<lambda>_.
        step_bind (step_when (\<not> keep_wav) (on_media (remove_file w wav))) (\<lambda>_.
        step_pure (Inr ?target))))))))) (s, snd z) = (Inr p, s1, rep)"
      and y: "md_files (fst y) = (md_files s1)(t := None)" "snd y = rep"
    from d obtain s2 original roundtrip q x2 where
      f: "ffmpeg w (pcm_decode_args False ?target t) s = (Inr (), s2)"
      and o': "md_files s2 wav = Some original" and r: "md_files s2 t = Some roundtrip"
      and q: "pcm_identity original = Some (Inr q)" "pcm_identity roundtrip = Some (Inr q)"
      and rec: "record_output w lib root0 ?target (codec @ ''_flac'') (s2, snd z) = (Inr (), x2)"
      and rm: "step_when (\<not> keep_wav) (on_media (remove_file w wav)) x2 = (Inr (), s1, rep)" and p: "p = ?target"
      by (auto simp: step_simps read_file_Inr pcm_or_panic_Inr fail_if_Inr)
    from record_output_appends[OF rec] obtain rd b where b: "res_outputs (snd x2) = res_outputs (snd z) @ [rd]"
      "out_kind rd = codec @ ''_flac''" "md_files s2 ?target = Some b" "describes lib b rd" by auto
    have "flac_verified w lib wav ?target rd"
      unfolding flac_verified_def using ffmpeg_left[OF f] o' r q b(3,4) by blast
    moreover have "rep = snd x2" using rm by (auto simp: step_when_def step_simps split: if_splits)
    moreover have "\<not> keep_wav \<Longrightarrow> md_files s1 wav = None"
      using rm remove_outputs_effect(5)[of w "[wav]" "fst x2" "Inr ()" s1]
      by (auto simp: step_when_def step_simps remove_file_def split: if_splits)
    ultimately show ?thesis using b(1,2) y p z(1) by auto
  qed
qed

text \<open>The kinds of the records \<open>record_audio\<close> adds, in order.\<close>

definition audio_kinds :: "audio_export list \<Rightarrow> string \<Rightarrow> string list" where
  "audio_kinds formats codec =
     (if audio_export.Wav \<in> set formats \<or> audio_export.Flac \<notin> set formats then [codec @ ''_wav''] else [])
     @ (if audio_export.Mp3 \<in> set formats then [codec @ ''_mp3''] else [])
     @ (if audio_export.Flac \<in> set formats then [codec @ ''_flac''] else [])"

lemma encode_mp3_quiet: "encode_mp3 w lib wav x = (Inr p, y) \<Longrightarrow> snd y = snd x \<and> p = set_extension wav ''mp3''"
  unfolding encode_mp3_def Let_def
  by (auto simp: step_simps elim!: with_temporary_Inr)

text \<open>C21. Whatever formats are selected, a lossless copy of a waveform remains: a successful recording
  adds exactly the selected records, one of which is the WAV file or the FLAC file; a FLAC file is
  recorded only after a process that succeeded in decoding it left the same channels, rate and PCM
  bytes as the WAV file had, and the WAV file is removed only after that.\<close>

theorem record_audio_keeps_lossless:
  assumes "record_audio w lib root0 wav codec x = (Inr p, y)"
  shows "\<exists>extra. res_outputs (snd y) = res_outputs (snd x) @ extra
    \<and> map out_kind extra = audio_kinds (xc_audio (mw_config w)) codec
    \<and> (\<exists>rec \<in> set extra. out_kind rec = codec @ ''_wav'' \<or> out_kind rec = codec @ ''_flac'')
    \<and> (if audio_export.Flac \<in> set (xc_audio (mw_config w))
       then p = set_extension wav ''flac'' \<and> flac_verified w lib wav p (last extra)
         \<and> (audio_export.Wav \<notin> set (xc_audio (mw_config w)) \<longrightarrow> md_files (fst y) wav = None)
       else p = wav)"
proof -
  let ?F = "set (xc_audio (mw_config w))"
  let ?keep = "audio_export.Wav \<in> ?F \<or> audio_export.Flac \<notin> ?F"
  from assms obtain mp3 x1 u1 x2 u2 x3 where
    m: "(if audio_export.Mp3 \<in> ?F then step_bind (encode_mp3 w lib wav) (\<lambda>p. step_pure (Inr (Some p)))
         else step_pure (Inr None)) x = (Inr mp3, x1)"
    and wv: "step_when ?keep (record_output w lib root0 wav (codec @ ''_wav'')) x1 = (Inr u1, x2)"
    and mr: "(case mp3 of None \<Rightarrow> step_pure (Inr ())
        | Some q \<Rightarrow> record_output w lib root0 q (codec @ ''_mp3'')) x2 = (Inr u2, x3)"
    and fl: "(if audio_export.Flac \<notin> ?F then step_pure (Inr wav) else keep_flac w lib root0 wav codec ?keep) x3 = (Inr p, y)"
    unfolding record_audio_def Let_def step_bind_Inr by blast
  have m1: "snd x1 = snd x" "mp3 \<noteq> None \<longleftrightarrow> audio_export.Mp3 \<in> ?F"
    using m by (auto simp: step_simps split: if_splits dest: encode_mp3_quiet)
  obtain e1 where e1: "res_outputs (snd x2) = res_outputs (snd x1) @ e1"
    "map out_kind e1 = (if ?keep then [codec @ ''_wav''] else [])"
    using wv record_output_appends[of w lib root0 wav "codec @ ''_wav''" x1 "()" x2]
    by (cases ?keep) (auto simp: step_when_def step_simps)
  obtain e2 where e2: "res_outputs (snd x3) = res_outputs (snd x2) @ e2"
    "map out_kind e2 = (if audio_export.Mp3 \<in> ?F then [codec @ ''_mp3''] else [])"
    using mr m1(2) record_output_appends[of w lib root0 "the mp3" "codec @ ''_mp3''" x2 "()" x3]
    by (cases mp3) (auto simp: step_simps)
  show ?thesis
  proof (cases "audio_export.Flac \<in> ?F")
    case False
    then have "y = x3" "p = wav" using fl by (auto simp: step_simps)
    with False m1 e1 e2 show ?thesis
      by (intro exI[of _ "e1 @ e2"]) (auto simp: audio_kinds_def)
  next
    case True
    then have "keep_flac w lib root0 wav codec ?keep x3 = (Inr p, y)" using fl by simp
    from keep_flac_Inr[OF this] obtain rec where r: "p = set_extension wav ''flac''"
      "res_outputs (snd y) = res_outputs (snd x3) @ [rec]" "out_kind rec = codec @ ''_flac''" "flac_verified w lib wav p rec"
      "\<not> ?keep \<longrightarrow> md_files (fst y) wav = None" by auto
    with True m1 e1 e2 show ?thesis
      by (intro exI[of _ "e1 @ e2 @ [rec]"]) (auto simp: audio_kinds_def)
  qed
qed

subsection \<open>MP3\<close>

text \<open>The frames of PCM data.\<close>

definition frames :: "u16 \<Rightarrow> byte list \<Rightarrow> nat" where
  "frames channels pcm = length pcm div (unat channels * 2)"

lemma pcm_identity_channels: "pcm_identity b = Some (Inr (c, r, pcm)) \<Longrightarrow> c \<noteq> 0"
  using pcm_identity_sound[of b] by (auto simp: word_neq_0_conv)

text \<open>C24. An MP3 file that is kept has been decoded again: its source has one or two channels, and a
  process that succeeded in decoding it left a WAV file with the same channels and rate, some PCM
  data, and a duration within one MP3 frame (1152 samples) of the source; the comparison never
  divides by zero.\<close>

theorem mp3_is_checked:
  assumes "encode_mp3 w lib wav x = (Inr p, y)"
  shows "\<exists>original fs t decoded c r pcm dpcm.
      md_files (fst x) wav = Some original \<and> pcm_identity original = Some (Inr (c, r, pcm)) \<and> (c = 1 \<or> c = 2)
    \<and> p = set_extension wav ''mp3'' \<and> left_by w (pcm_decode_args True p t) fs \<and> fs t = Some decoded
    \<and> pcm_identity decoded = Some (Inr (c, r, dpcm)) \<and> dpcm \<noteq> []
    \<and> frames c dpcm \<le> frames c pcm + 1152 \<and> frames c pcm \<le> frames c dpcm + 1152"
proof -
  let ?t = "set_extension wav ''mp3''"
  from assms obtain original c r pcm bitrate z where
    o': "md_files (fst x) wav = Some original" "pcm_identity original = Some (Inr (c, r, pcm))" "c = 1 \<or> c = 2"
    and z: "with_temporary w lib ''.wav'' (\<lambda>decoded.
        step_bind (on_media (ffmpeg w (pcm_decode_args True ?t decoded))) (\<lambda>_.
        step_bind (on_media (read_file w decoded)) (\<lambda>b.
        step_bind (step_pure (pcm_or_panic b)) (\<lambda>again.
        step_bind (step_pure (mp3_verified (c, r, pcm) again)) (\<lambda>_.
        step_pure (Inr ?t)))))) z = (Inr p, y)"
    unfolding encode_mp3_def Let_def
    by (auto simp: step_bind_Inr step_pure_iff on_media_iff read_file_Inr pcm_or_panic_Inr fail_if_Inr)
  from z show ?thesis
  proof (rule with_temporary_Inr)
    fix t s s1 rep
    assume "step_bind (on_media (ffmpeg w (pcm_decode_args True ?t t))) (\<lambda>_.
        step_bind (on_media (read_file w t)) (\<lambda>b.
        step_bind (step_pure (pcm_or_panic b)) (\<lambda>again.
        step_bind (step_pure (mp3_verified (c, r, pcm) again)) (\<lambda>_.
        step_pure (Inr ?t))))) (s, snd z) = (Inr p, s1, rep)"
    then obtain s2 decoded dc dr dpcm where f: "ffmpeg w (pcm_decode_args True ?t t) s = (Inr (), s2)"
      and d: "md_files s2 t = Some decoded" "pcm_identity decoded = Some (Inr (dc, dr, dpcm))"
      and v: "mp3_verified (c, r, pcm) (dc, dr, dpcm) = Inr ()" and p: "p = ?t"
      by (auto simp: step_simps read_file_Inr pcm_or_panic_Inr)
    from v have "dc = c" "dr = r" "dpcm \<noteq> []" "abs_diff (frames c pcm) (frames c dpcm) \<le> 1152"
      by (auto simp: mp3_verified_def fail_if_Inr frames_def split: if_splits)
    with o' d p ffmpeg_left[OF f] show ?thesis
      by (intro exI[of _ original] exI[of _ "md_files s2"] exI[of _ t] exI[of _ decoded] exI[of _ c] exI[of _ r]
        exI[of _ pcm] exI[of _ dpcm]) (auto simp: abs_diff_def split: if_splits)
  qed
qed

subsection \<open>ADX\<close>

text \<open>The scan of the ADX step sees what the PCM reader sees.\<close>

definition scan_agrees :: "nat \<times> (u16 \<times> u32) option \<Rightarrow> u16 \<times> u32 \<times> byte list option \<Rightarrow> bool" where
  "scan_agrees seen got =
     (case (seen, got) of ((n, format), (c, r, pcm)) \<Rightarrow>
        (case format of None \<Rightarrow> True | Some f \<Rightarrow> f = (c, r)) \<and> (case pcm of None \<Rightarrow> True | Some p \<Rightarrow> n = length p))"

lemma adx_scan_follows:
  "pcm_loop bs pos got = Some got' \<Longrightarrow> scan_agrees seen got \<Longrightarrow>
     \<exists>seen'. adx_scan bs pos seen = Some seen' \<and> scan_agrees seen' got'"
proof (induction bs pos got arbitrary: seen rule: pcm_loop.induct)
  case (1 bs pos got)
  show ?case
  proof (cases "length bs < pos + 8")
    case True
    with 1(4) have "got' = got" by (subst (asm) pcm_loop.simps) simp
    with True 1(5) show ?thesis by (subst adx_scan.simps) simp
  next
    case False
    define sz where "sz = unat (u32_from_le (sub_list (pos + 4) (pos + 8) bs))"
    define nxt where "nxt = pos + 8 + sz + sz mod 2"
    obtain c r pcm where g: "got = (c, r, pcm)" by (cases got)
    obtain n format where s: "seen = (n, format)" by (cases seen)
    note pcm = 1(4)[unfolded pcm_loop.simps[of bs pos got]] and scan = adx_scan.simps[of bs pos seen]
    have ne: "bytes_of ''fmt '' \<noteq> bytes_of ''data''" by (simp add: bytes_of_def)
    show ?thesis
    proof (cases "sub_list pos (pos + 4) bs = bytes_of ''fmt ''")
      case True
      with pcm False g obtain cb rb where b: "get_slice (pos + 10) (pos + 12) bs = Some cb" "get_slice (pos + 12) (pos + 16) bs = Some rb"
        and go: "pcm_loop bs nxt (u16_le cb, u32_from_le rb, pcm) = Some got'"
        by (auto simp: Let_def nxt_def sz_def split: option.splits)
      have "scan_agrees (n, Some (u16_le cb, u32_from_le rb)) (u16_le cb, u32_from_le rb, pcm)"
        using 1(5) g s by (simp add: scan_agrees_def)
      from 1(1)[OF False sz_def nxt_def[unfolded sz_def, folded sz_def] g[symmetric] refl True refl b go this]
      show ?thesis using scan False True s b ne by (simp add: Let_def nxt_def sz_def)
    next
      case nf: False
      show ?thesis
      proof (cases "sub_list pos (pos + 4) bs = bytes_of ''data''")
        case True
        with pcm False nf g obtain p where b: "get_slice (pos + 8) (pos + 8 + sz) bs = Some p"
          and go: "pcm_loop bs nxt (c, r, Some p) = Some got'"
          by (auto simp: Let_def nxt_def sz_def split: option.splits)
        have "length p = sz" using b by (auto simp: get_slice_def split: if_splits)
        then have "scan_agrees (sz, format) (c, r, Some p)" using 1(5) g s by (simp add: scan_agrees_def split: option.splits)
        with 1(2)[OF False sz_def nxt_def g[symmetric] refl nf True] b go
        have "\<exists>seen'. adx_scan bs nxt (sz, format) = Some seen' \<and> scan_agrees seen' got'" by auto
        then show ?thesis using scan False nf True s by (simp add: Let_def nxt_def sz_def)
      next
        case nd: False
        from pcm False nf nd g have go: "pcm_loop bs nxt (c, r, pcm) = Some got'" by (simp add: Let_def nxt_def sz_def)
        have "\<exists>seen'. adx_scan bs nxt (n, format) = Some seen' \<and> scan_agrees seen' got'"
          using 1(3)[OF False sz_def nxt_def g[symmetric] refl nf nd go] 1(5) g s by simp
        then show ?thesis using scan False nf nd s by (simp add: Let_def nxt_def sz_def)
      qed
    qed
  qed
qed

text \<open>C25. Decoding ADX blocks loses no sample: when it succeeds, the WAV file at the target is valid, has
  the channels and the rate the header declares, and exactly as many 16-bit samples per channel as the
  header declares, so the short last packet an external demuxer may drop is never missing. The source
  of the decoder is the blocks up to their computed end.\<close>

theorem adx_keeps_every_sample:
  assumes "adx_decode w lib bs target s = (Inr u, s')"
    and "ol_temporary lib ''.adx'' s \<noteq> target"
  shows "\<exists>c r n fin wav pcm. adx_layout bs = Inr (c, r, n, fin)
    \<and> md_files s' target = Some wav \<and> pcm_identity wav = Some (Inr (ucast c, r, pcm))
    \<and> length pcm = unat n * unat c * 2 \<and> length pcm \<le> max_output w"
proof -
  let ?src = "ol_temporary lib ''.adx'' s"
  obtain c r n fin where l: "adx_layout bs = Inr (c, r, n, fin)"
    using assms(1) by (cases "adx_layout bs") (auto simp: adx_decode_def)
  obtain q s1 where wf: "write_file w ?src (take fin bs) s = (q, s1)" by (cases "write_file w ?src (take fin bs) s")
  let ?args = "[''-protocol_whitelist'', ''file,pipe'', ''-err_detect'', ''explode'', ''-i'', ?src,
     ''-map'', ''0:a:0'', ''-af'', ''atrim=end_sample='' @ decimal (unat n), ''-c:a'', ''pcm_s16le'', target]"
  obtain q2 s2 where ff: "ffmpeg_to w ?args [target] s1 = (q2, s2)" by (cases "ffmpeg_to w ?args [target] s1")
  obtain q3 s3 where rf: "read_file w target s2 = (q3, s3)" by (cases "read_file w target s2")
  from assms(1) l wf ff rf obtain wav actual format where wav: "q3 = Inr wav" "validate_wav wav = Inr ()"
    "adx_scan wav 12 (0, None) = Some (actual, format)" "actual = unat n * unat c * 2" "format = Some (ucast c, r)"
    and m: "unat n * unat c * 2 \<le> max_output w" and s': "s' = snd (drop_file ?src s3)"
    by (auto simp: adx_decode_def Let_def result_simps split: if_splits sum.splits)
  have f: "md_files s' target = Some wav"
    using rf wav(1) assms(2) by (auto simp: s' drop_file_def read_file_Inr)
  from pcm_identity_sound[of wav] wav(2) obtain pc pr pcm where id: "pcm_identity wav = Some (Inr (pc, pr, pcm))"
    by (auto split: option.splits sum.splits)
  then have "pcm_loop wav 12 (0, 0, None) = Some (pc, pr, Some pcm)"
    using wav(2) by (auto simp: pcm_identity_def result_simps split: option.splits)
  from adx_scan_follows[OF this, of "(0, None)"] wav(3,4,5) have "pc = ucast c" "pr = r" "length pcm = unat n * unat c * 2"
    by (auto simp: scan_agrees_def)
  with l f id m show ?thesis by auto
qed

subsection \<open>Examples\<close>

text \<open>Two frames of mono sound at 8000 Hz, and the 32 samples of the ADX example at 48000 Hz.\<close>

definition demo_wav :: "byte list" where
  "demo_wav = bytes_of ''RIFF'' @ [40, 0, 0, 0] @ bytes_of ''WAVEfmt '' @ [16, 0, 0, 0, 1, 0, 1, 0, 0x40, 0x1F, 0, 0, 0x80, 0x3E, 0, 0,
     2, 0, 16, 0] @ bytes_of ''data'' @ [4, 0, 0, 0, 1, 0, 2, 0]"

definition demo_adx_wav :: "byte list" where
  "demo_adx_wav = bytes_of ''RIFF'' @ [100, 0, 0, 0] @ bytes_of ''WAVEfmt '' @ [16, 0, 0, 0, 1, 0, 1, 0, 0x80, 0xBB, 0, 0, 0, 0x77, 1, 0,
     2, 0, 16, 0] @ bytes_of ''data'' @ [64, 0, 0, 0,
     0, 0, 0, 0, 0, 0, 0, 0, 0, 0, 0, 0, 0, 0, 0, 0, 0, 0, 0, 0, 0, 0, 0, 0, 0, 0, 0, 0, 0, 0, 0, 0,
     0, 0, 0, 0, 0, 0, 0, 0, 0, 0, 0, 0, 0, 0, 0, 0, 0, 0, 0, 0, 0, 0, 0, 0, 0, 0, 0, 0, 0, 0, 0, 0]"

lemmas wav_defs = bytes_of_def sub_list_def u32_from_le_def u16_le_def u16_from_le_def get_slice_def

lemma demo_wav_valid: "validate_wav demo_wav = Inr ()"
  by (simp add: validate_wav_def demo_wav_def wav_loop.simps wav_chunk_def wav_format_def wav_defs Let_def)

lemma demo_wav_pcm: "pcm_identity demo_wav = Some (Inr (1, 8000, [1, 0, 2, 0]))"
  by (simp add: pcm_identity_def demo_wav_valid) (simp add: demo_wav_def pcm_loop.simps wav_defs Let_def)

lemma demo_adx_wav_valid: "validate_wav demo_adx_wav = Inr ()"
  by (simp add: validate_wav_def demo_adx_wav_def wav_loop.simps wav_chunk_def wav_format_def wav_defs Let_def)

text \<open>A file \<open>o/a.wav\<close> and an encoder that writes the same sound.\<close>

definition demo_sound :: media where
  "demo_sound = demo_media\<lparr>md_files := [''o/a.wav'' \<mapsto> demo_wav]\<rparr>"

lemma demo_names:
  "set_extension ''o/a.wav'' ''mp3'' = ''o/a.mp3''" "set_extension ''o/a.wav'' ''flac'' = ''o/a.flac''"
  "relative_output ''o'' ''o/a.flac'' = Inr ''a.flac''" "relative_output ''o'' ''o/a.mp3'' = Inr ''a.mp3''"
  by (simp_all add: set_extension_def split_dir_def file_parts_def rsplit_once_def relative_output_def strip_prefix_def starts_with_def)

lemma demo_audio_files:
  "read_file (demo_encoder c b) p s =
     (case md_files s p of None \<Rightarrow> (Inl (error.Export ''No such file or directory (os error 2)''), s) | Some b \<Rightarrow> (Inr b, s))"
  "write_file (demo_encoder c b) p bs s = (Inr (), s\<lparr>md_files := (md_files s)(p \<mapsto> bs)\<rparr>)"
  by (simp_all add: read_file_def write_file_def demo_encoder_fields)

lemma demo_written_plain:
  "progress_argument args = None \<Longrightarrow> demo_written b args fs = fs(last args \<mapsto> b)"
  by (simp add: demo_written_def)

lemmas demo_steps = step_bind_def step_pure_def on_media_def demo_audio_files demo_encodes demo_ffmpeg ffmpeg_def demo_names
  with_temporary_def drop_file_def pcm_or_panic_def demo_wav_pcm Let_def fail_if_def demo_written_plain

lemma demo_lib_fields:
  "ol_crypto demo_lib = example_crypto" "ol_json_error demo_lib b = None" "ol_png_error demo_lib b = None"
  "ol_temporary demo_lib sfx s = ''t'' @ sfx"
  by (simp_all add: demo_lib_def)

lemma demo_mp3:
  "fst (encode_mp3 (demo_encoder demo_cli demo_wav) demo_lib ''o/a.wav'' (demo_sound, demo_report)) = Inr ''o/a.mp3''"
  by (simp add: encode_mp3_def demo_steps demo_sound_def mp3_bitrate_def
    pcm_decode_args_def demo_lib_fields mp3_verified_def abs_diff_def)

theorem mp3_is_checked_witness:
  "\<exists>t fs. left_by (demo_encoder demo_cli demo_wav) (pcm_decode_args True ''o/a.mp3'' t) fs
     \<and> (\<exists>decoded. fs t = Some decoded \<and> (\<exists>pcm. pcm_identity decoded = Some (Inr (1, 8000, pcm)) \<and> pcm \<noteq> []))"
proof -
  obtain y where "encode_mp3 (demo_encoder demo_cli demo_wav) demo_lib ''o/a.wav'' (demo_sound, demo_report) = (Inr ''o/a.mp3'', y)"
    using demo_mp3 by (cases "encode_mp3 (demo_encoder demo_cli demo_wav) demo_lib ''o/a.wav'' (demo_sound, demo_report)") auto
  from mp3_is_checked[OF this] show ?thesis
    by (auto simp: demo_sound_def demo_names demo_wav_pcm)
qed

lemma demo_recorded:
  assumes "md_files s (''o/a.'' @ e) = Some demo_wav" "prior_bytes rep \<le> 100"
    and "relative_output ''o'' (''o/a.'' @ e) = Inr rel" "\<not> contains_str kind ''json''" "\<not> starts_with kind ''image_''"
    and "kind \<noteq> ''image_png''"
  shows "record_output (demo_encoder demo_cli demo_wav) demo_lib ''o'' (''o/a.'' @ e) kind (s, rep)
    = push_output demo_lib rel kind demo_wav (s, rep)"
proof -
  have "length demo_wav = 48" by (simp add: demo_wav_def bytes_of_def)
  with assms show ?thesis
    by (simp add: record_output_def demo_steps check_budget_def step_when_def sat_add_def max_output_def
      demo_encoder_fields demo_cli_fields)
qed

lemma demo_kinds:
  "\<not> contains_str ''hca_mp3'' ''json''" "\<not> contains_str ''hca_flac'' ''json''"
  "\<not> starts_with ''hca_mp3'' ''image_''" "\<not> starts_with ''hca_flac'' ''image_''"
  by (simp_all add: starts_with_def)

lemma demo_flac:
  assumes "md_files s ''o/a.wav'' = Some demo_wav" "prior_bytes rep \<le> 100"
  shows "fst (keep_flac (demo_encoder demo_cli demo_wav) demo_lib ''o'' ''o/a.wav'' ''hca'' False (s, rep)) = Inr ''o/a.flac''"
proof -
  let ?e = "demo_encoder demo_cli demo_wav"
  have rec: "record_output ?e demo_lib ''o'' ''o/a.flac'' ''hca_flac'' (u, rep)
      = push_output demo_lib ''a.flac'' ''hca_flac'' demo_wav (u, rep)"
    if "md_files u ''o/a.flac'' = Some demo_wav" for u
    using demo_recorded[of u "''flac''" rep "''a.flac''" "''hca_flac''"] that assms(2) demo_kinds demo_names(3) by simp
  have rm: "remove_file ?e ''o/a.wav'' u = (Inr (), u\<lparr>md_files := (md_files u)(''o/a.wav'' := None)\<rparr>)"
    if "md_files u ''o/a.wav'' = Some demo_wav" for u
    using that by (simp add: remove_file_def demo_encoder_fields)
  show ?thesis
    using assms(1)
    by (simp add: keep_flac_def demo_steps demo_lib_fields pcm_decode_args_def)
      (simp add: rec push_output_def step_when_def step_bind_def on_media_def step_pure_def rm)
qed

lemma demo_record:
  "fst (record_audio (demo_encoder demo_cli demo_wav) demo_lib ''o'' ''o/a.wav'' ''hca'' (demo_sound, demo_report)) = Inr ''o/a.flac''"
proof -
  let ?e = "demo_encoder demo_cli demo_wav"
  obtain s rep where m: "encode_mp3 ?e demo_lib ''o/a.wav'' (demo_sound, demo_report) = (Inr ''o/a.mp3'', s, rep)"
    using demo_mp3 by (cases "encode_mp3 ?e demo_lib ''o/a.wav'' (demo_sound, demo_report)") (metis fst_conv prod.collapse)
  have f: "md_files (fst (snd (encode_mp3 ?e demo_lib ''o/a.wav'' (demo_sound, demo_report))))
      = [''o/a.wav'' \<mapsto> demo_wav, ''o/a.mp3'' \<mapsto> demo_wav]"
    by (simp add: encode_mp3_def demo_steps demo_lib_fields pcm_decode_args_def demo_sound_def mp3_bitrate_def mp3_verified_def
      abs_diff_def fun_eq_iff)
  have rep: "rep = demo_report" using encode_mp3_quiet[OF m] by simp
  have mp3: "record_output ?e demo_lib ''o'' ''o/a.mp3'' ''hca_mp3'' (s, rep) = push_output demo_lib ''a.mp3'' ''hca_mp3'' demo_wav (s, rep)"
    using demo_recorded[of s "''mp3''" rep "''a.mp3''" "''hca_mp3''"] demo_kinds demo_names(4) f m rep
    by (simp add: prior_bytes_def demo_report_def)
  have "length demo_wav = 48" by (simp add: demo_wav_def bytes_of_def)
  then have b: "prior_bytes (snd (snd (push_output demo_lib ''a.mp3'' ''hca_mp3'' demo_wav (s, rep)))) \<le> 100"
    by (simp add: push_output_def prior_bytes_def rep demo_report_def)
  obtain rep' where p: "push_output demo_lib ''a.mp3'' ''hca_mp3'' demo_wav (s, rep) = (Inr (), s, rep')"
    by (simp add: push_output_def)
  have w: "md_files s ''o/a.wav'' = Some demo_wav" using f m by simp
  show ?thesis
    using demo_flac[OF w, of rep'] b
    by (simp add: record_audio_def m step_when_def demo_cli_fields demo_encoder_fields step_bind_def step_pure_def mp3 p)
qed

theorem record_audio_keeps_lossless_witness:
  "\<exists>y rec. record_audio (demo_encoder demo_cli demo_wav) demo_lib ''o'' ''o/a.wav'' ''hca'' (demo_sound, demo_report) = (Inr ''o/a.flac'', y)
     \<and> map out_kind (res_outputs (snd y)) = [''hca_mp3'', ''hca_flac'']
     \<and> flac_verified (demo_encoder demo_cli demo_wav) demo_lib ''o/a.wav'' ''o/a.flac'' rec"
proof -
  let ?r = "record_audio (demo_encoder demo_cli demo_wav) demo_lib ''o'' ''o/a.wav'' ''hca'' (demo_sound, demo_report)"
  have e: "?r = (Inr ''o/a.flac'', snd ?r)" using demo_record by (metis prod.collapse)
  from record_audio_keeps_lossless[OF e] obtain extra where
    "res_outputs (snd (snd ?r)) = res_outputs demo_report @ extra"
    "map out_kind extra = audio_kinds (xc_audio demo_cli) ''hca''"
    and v: "flac_verified (demo_encoder demo_cli demo_wav) demo_lib ''o/a.wav'' ''o/a.flac'' (last extra)"
    by (auto simp: demo_encoder_fields demo_cli_fields)
  from this(1,2) have "map out_kind (res_outputs (snd (snd ?r))) = [''hca_mp3'', ''hca_flac'']"
    by (simp add: demo_report_def audio_kinds_def demo_cli_fields)
  with e v show ?thesis
    by (intro exI[of _ "snd ?r"] exI[of _ "last extra"]) simp
qed

lemma demo_adx_scan: "adx_scan demo_adx_wav 12 (0, None) = Some (64, Some (1, 48000))"
  by (simp add: demo_adx_wav_def adx_scan.simps wav_defs Let_def)

theorem adx_keeps_every_sample_witness:
  "\<exists>wav pcm. md_files (snd (adx_decode (demo_encoder demo_cli demo_adx_wav) demo_lib demo_adx ''o/a.wav'' demo_media)) ''o/a.wav'' = Some wav
     \<and> pcm_identity wav = Some (Inr (1, 48000, pcm)) \<and> length pcm = 64"
proof -
  let ?d = "adx_decode (demo_encoder demo_cli demo_adx_wav) demo_lib demo_adx ''o/a.wav'' demo_media"
  have "fst ?d = Inr ()"
    by (simp add: adx_decode_def demo_adx_layout demo_audio_files demo_ffmpeg demo_lib_fields demo_written_plain Let_def max_output_def
      demo_encoder_fields demo_cli_fields demo_adx_wav_valid demo_adx_scan fail_if_def)
  then have e: "?d = (Inr (), snd ?d)" by (metis prod.collapse)
  have "ol_temporary demo_lib ''.adx'' demo_media \<noteq> ''o/a.wav''" by (simp add: demo_lib_fields)
  from adx_keeps_every_sample[OF e this] show ?thesis by (auto simp: demo_adx_layout)
qed

end
