(* ===== verification/Worker_Pool.thy ===== *)
theory Worker_Pool
  imports Export_Config Stable_Layout "HOL-Library.Multiset"
begin

text \<open>
  The worker threads of an export (\<open>src/export.rs\<close>, the thread scope of \<open>execute\<close>): they share one
  counter, take the next resource, decode it and send its report through a bounded channel; the
  receiving thread journals the reports until every sender is gone or a write fails. Any interleaving
  of the threads is a sequence of steps.
\<close>

subsection \<open>State\<close>

text \<open>A report travels with the number of its resource, which the code holds in the report's directory.\<close>

type_synonym message = "nat \<times> resource_report"

datatype worker = Ready | Decoding nat | Sending message | Stopped

record pool =
  pl_next :: nat
  pl_workers :: "worker list"
  pl_queue :: "message list"
  pl_received :: "message list"
  pl_open :: bool
  pl_cancelled :: bool

definition pool_start :: "nat \<Rightarrow> pool" where
  "pool_start workers =
     \<lparr>pl_next = 0, pl_workers = replicate workers Ready, pl_queue = [], pl_received = [], pl_open = True, pl_cancelled = False\<rparr>"

definition set_worker :: "nat \<Rightarrow> worker \<Rightarrow> pool \<Rightarrow> pool" where
  "set_worker k x p = p\<lparr>pl_workers := (pl_workers p)[k := x]\<rparr>"

text \<open>\<open>outcome i r\<close>: decoding resource \<open>i\<close> can report \<open>r\<close>. The channel holds as many messages as there are
  workers. When the receiver fails to write, the line of the journal or, after it, the summary, it is
  dropped with what the channel holds, and a worker that sends stops.\<close>

inductive pool_step :: "nat \<Rightarrow> (nat \<Rightarrow> resource_report \<Rightarrow> bool) \<Rightarrow> pool \<Rightarrow> pool \<Rightarrow> bool" for n outcome where
  claim: "k < length (pl_workers p) \<Longrightarrow> pl_workers p ! k = Ready \<Longrightarrow> \<not> pl_cancelled p \<Longrightarrow> pl_next p < n \<Longrightarrow>
    pool_step n outcome p (set_worker k (Decoding (pl_next p)) p\<lparr>pl_next := pl_next p + 1\<rparr>)"
| exhausted: "k < length (pl_workers p) \<Longrightarrow> pl_workers p ! k = Ready \<Longrightarrow> \<not> pl_cancelled p \<Longrightarrow> n \<le> pl_next p \<Longrightarrow>
    pool_step n outcome p (set_worker k Stopped p\<lparr>pl_next := pl_next p + 1\<rparr>)"
| cancelled_worker: "k < length (pl_workers p) \<Longrightarrow> pl_workers p ! k = Ready \<Longrightarrow> pl_cancelled p \<Longrightarrow>
    pool_step n outcome p (set_worker k Stopped p)"
| decoded: "k < length (pl_workers p) \<Longrightarrow> pl_workers p ! k = Decoding i \<Longrightarrow> outcome i r \<Longrightarrow>
    pool_step n outcome p (set_worker k (Sending (i, r)) p)"
| sent: "k < length (pl_workers p) \<Longrightarrow> pl_workers p ! k = Sending m \<Longrightarrow> pl_open p \<Longrightarrow>
    length (pl_queue p) < length (pl_workers p) \<Longrightarrow>
    pool_step n outcome p (set_worker k Ready p\<lparr>pl_queue := pl_queue p @ [m]\<rparr>)"
| refused: "k < length (pl_workers p) \<Longrightarrow> pl_workers p ! k = Sending m \<Longrightarrow> \<not> pl_open p \<Longrightarrow>
    pool_step n outcome p (set_worker k Stopped p)"
| received: "pl_queue p = m # q \<Longrightarrow> pl_open p \<Longrightarrow>
    pool_step n outcome p (p\<lparr>pl_queue := q, pl_received := pl_received p @ [m]\<rparr>)"
| not_written: "pl_queue p = m # q \<Longrightarrow> pl_open p \<Longrightarrow>
    pool_step n outcome p (p\<lparr>pl_queue := [], pl_open := False\<rparr>)"
| summary_not_written: "pl_queue p = m # q \<Longrightarrow> pl_open p \<Longrightarrow>
    pool_step n outcome p (p\<lparr>pl_queue := [], pl_received := pl_received p @ [m], pl_open := False\<rparr>)"
| cancel: "\<not> pl_cancelled p \<Longrightarrow> pool_step n outcome p (p\<lparr>pl_cancelled := True\<rparr>)"

abbreviation pool_run :: "nat \<Rightarrow> (nat \<Rightarrow> resource_report \<Rightarrow> bool) \<Rightarrow> pool \<Rightarrow> pool \<Rightarrow> bool" where
  "pool_run n outcome \<equiv> (pool_step n outcome)\<^sup>*\<^sup>*"

text \<open>The scope ends: no sender is left and the channel is empty, or the receiver is gone.\<close>

definition pool_finished :: "pool \<Rightarrow> bool" where
  "pool_finished p \<longleftrightarrow> list_all (\<lambda>x. x = Stopped) (pl_workers p) \<and> (pl_open p \<longrightarrow> pl_queue p = [])"

subsection \<open>Which resources are where\<close>

fun held :: "worker \<Rightarrow> nat multiset" where
  "held Ready = {#}"
| "held (Decoding i) = {#i#}"
| "held (Sending m) = {#fst m#}"
| "held Stopped = {#}"

definition in_workers :: "worker list \<Rightarrow> nat multiset" where
  "in_workers ws = sum_list (map held ws)"

lemma in_workers_update:
  "k < length ws \<Longrightarrow> in_workers (ws[k := x]) + held (ws ! k) = in_workers ws + held x"
proof (induction ws arbitrary: k)
  case (Cons a ws)
  then show ?case
    by (cases k) (auto simp: in_workers_def ac_simps)
qed simp

lemma in_workers_stopped: "\<forall>x \<in> set ws. x = Stopped \<Longrightarrow> in_workers ws = {#}"
  by (induction ws) (auto simp: in_workers_def)

text \<open>While the receiver lives no claimed resource is lost, and every report has an outcome of its resource.\<close>

definition pool_ok :: "nat \<Rightarrow> (nat \<Rightarrow> resource_report \<Rightarrow> bool) \<Rightarrow> pool \<Rightarrow> bool" where
  "pool_ok n outcome p \<longleftrightarrow>
     mset (map fst (pl_received p @ pl_queue p)) + in_workers (pl_workers p) \<subseteq># mset [0..<min (pl_next p) n]
     \<and> (pl_open p \<longrightarrow> mset (map fst (pl_received p @ pl_queue p)) + in_workers (pl_workers p) = mset [0..<min (pl_next p) n])
     \<and> (\<forall>(i, r) \<in> set (pl_received p @ pl_queue p). outcome i r)
     \<and> (\<forall>i r. Sending (i, r) \<in> set (pl_workers p) \<longrightarrow> outcome i r)
     \<and> (pl_open p \<and> \<not> pl_cancelled p \<and> Stopped \<in> set (pl_workers p) \<longrightarrow> n \<le> pl_next p)"

lemma pool_ok_start: "pool_ok n outcome (pool_start workers)"
proof -
  have "in_workers (replicate workers Ready) = {#}"
    by (induction workers) (auto simp: in_workers_def)
  then show ?thesis by (simp add: pool_ok_def pool_start_def)
qed

lemma min_Suc_claim: "i < n \<Longrightarrow> mset [0..<min (Suc i) n] = mset [0..<min i n] + {#i#}"
  by (simp add: min_def)

lemma set_worker_simps [simp]:
  "pl_workers (set_worker k x p) = (pl_workers p)[k := x]" "pl_next (set_worker k x p) = pl_next p"
  "pl_queue (set_worker k x p) = pl_queue p" "pl_received (set_worker k x p) = pl_received p"
  "pl_open (set_worker k x p) = pl_open p" "pl_cancelled (set_worker k x p) = pl_cancelled p"
  by (simp_all add: set_worker_def)

lemma set_update_cases: "x \<in> set (xs[k := a]) \<Longrightarrow> x = a \<or> x \<in> set xs"
  using set_update_subset_insert [of xs k a] by auto

lemma pool_ok_step:
  assumes "pool_step n outcome p q" "pool_ok n outcome p"
  shows "pool_ok n outcome q"
  using assms
proof (induction rule: pool_step.cases)
  case (claim k p)
  have "in_workers ((pl_workers p)[k := Decoding (pl_next p)]) = in_workers (pl_workers p) + {#pl_next p#}"
    using in_workers_update [of k "pl_workers p" "Decoding (pl_next p)"] claim by simp
  then show ?case using claim min_Suc_claim [of "pl_next p" n]
    by (auto simp: pool_ok_def ac_simps dest!: set_update_cases)
next
  case (exhausted k p)
  have "in_workers ((pl_workers p)[k := Stopped]) = in_workers (pl_workers p)"
    using in_workers_update [of k "pl_workers p" Stopped] exhausted by simp
  moreover have "min (pl_next p + 1) n = n" "min (pl_next p) n = n" using exhausted by auto
  ultimately show ?case using exhausted by (auto simp: pool_ok_def dest!: set_update_cases)
next
  case (cancelled_worker k p)
  have "in_workers ((pl_workers p)[k := Stopped]) = in_workers (pl_workers p)"
    using in_workers_update [of k "pl_workers p" Stopped] cancelled_worker by simp
  then show ?case using cancelled_worker by (auto simp: pool_ok_def dest!: set_update_cases)
next
  case (decoded k p i r)
  have "in_workers ((pl_workers p)[k := Sending (i, r)]) = in_workers (pl_workers p)"
    using in_workers_update [of k "pl_workers p" "Sending (i, r)"] decoded by simp
  then show ?case using decoded by (auto simp: pool_ok_def dest!: set_update_cases)
next
  case (sent k p m)
  have "in_workers (pl_workers p) = add_mset (fst m) (in_workers ((pl_workers p)[k := Ready]))"
    using in_workers_update [of k "pl_workers p" Ready] sent by simp
  moreover have "outcome (fst m) (snd m)"
    using sent nth_mem [of k "pl_workers p"] by (cases m) (auto simp: pool_ok_def)
  ultimately show ?case using sent
    by (auto simp: pool_ok_def ac_simps dest!: set_update_cases)
next
  case (refused k p m)
  have "in_workers ((pl_workers p)[k := Stopped]) \<subseteq># in_workers (pl_workers p)"
    using in_workers_update [of k "pl_workers p" Stopped] refused by (metis add.right_neutral held.simps(4) mset_subset_eq_add_left)
  then have "mset (map fst (pl_received p @ pl_queue p)) + in_workers ((pl_workers p)[k := Stopped]) \<subseteq># mset [0..<min (pl_next p) n]"
    using refused unfolding pool_ok_def by (meson subset_mset.add_left_mono subset_mset.order_trans)
  then show ?case using refused by (auto simp: pool_ok_def dest!: set_update_cases)
next
  case (received p m q)
  then show ?case by (auto simp: pool_ok_def ac_simps)
next
  case (not_written p m q)
  have "mset (map fst (pl_received p)) + in_workers (pl_workers p)
      \<subseteq># mset (map fst (pl_received p @ pl_queue p)) + in_workers (pl_workers p)"
    by (rule subset_mset.add_right_mono) simp
  then have "mset (map fst (pl_received p)) + in_workers (pl_workers p) \<subseteq># mset [0..<min (pl_next p) n]"
    using not_written unfolding pool_ok_def by (meson subset_mset.order_trans)
  then show ?case using not_written by (auto simp: pool_ok_def)
next
  case (summary_not_written p m q)
  have "mset (map fst (pl_received p @ [m])) + in_workers (pl_workers p)
      \<subseteq># mset (map fst (pl_received p @ pl_queue p)) + in_workers (pl_workers p)"
    using summary_not_written(3) by (intro subset_mset.add_right_mono) simp
  then have "mset (map fst (pl_received p @ [m])) + in_workers (pl_workers p) \<subseteq># mset [0..<min (pl_next p) n]"
    using summary_not_written unfolding pool_ok_def by (meson subset_mset.order_trans)
  then show ?case using summary_not_written by (auto simp: pool_ok_def)
next
  case (cancel p)
  then show ?case by (auto simp: pool_ok_def)
qed

lemma pool_ok_run: "pool_run n outcome p q \<Longrightarrow> pool_ok n outcome p \<Longrightarrow> pool_ok n outcome q"
  by (induction rule: rtranclp_induct) (auto intro: pool_ok_step)

lemma pool_workers_kept: "pool_run n outcome p q \<Longrightarrow> length (pl_workers q) = length (pl_workers p)"
  by (induction rule: rtranclp_induct) (auto elim!: pool_step.cases)

text \<open>C19. However the worker threads interleave, no resource is journaled twice and every journaled report is
  one its resource can have; and when the scope ends without a cancellation and without a failed
  write, every resource was journaled exactly once.\<close>

theorem every_resource_reported_once:
  assumes "pool_run n outcome (pool_start k) p" and "0 < k"
  shows "distinct (map fst (pl_received p)) \<and> (\<forall>(i, r) \<in> set (pl_received p). i < n \<and> outcome i r)
    \<and> (pool_finished p \<and> pl_open p \<and> \<not> pl_cancelled p \<longrightarrow> set (map fst (pl_received p)) = {0..<n})"
proof -
  have ok: "pool_ok n outcome p" using pool_ok_run [OF assms(1) pool_ok_start] .
  have sub: "mset (map fst (pl_received p)) \<subseteq># mset [0..<min (pl_next p) n]"
    using ok unfolding pool_ok_def
    by (metis map_append mset_append mset_subset_eq_add_left subset_mset.trans)
  then have d: "distinct (map fst (pl_received p))" and i: "set (map fst (pl_received p)) \<subseteq> {0..<n}"
    by (metis distinct_upt mset_subset_eq_multiset_union_diff_commute distinct_append mset_append ex_mset mset_eq_imp_distinct_iff subset_mset.le_iff_add,
        use set_mset_mono [OF sub] in auto)
  have "set (map fst (pl_received p)) = {0..<n}" if f: "pool_finished p" "pl_open p" "\<not> pl_cancelled p"
  proof -
    have len: "length (pl_workers p) = k" using pool_workers_kept [OF assms(1)] by (simp add: pool_start_def)
    have all: "\<forall>x \<in> set (pl_workers p). x = Stopped" using f by (simp add: pool_finished_def list_all_iff)
    then have e: "in_workers (pl_workers p) = {#}" by (rule in_workers_stopped)
    have "Stopped \<in> set (pl_workers p)" using all len assms(2) by (cases "pl_workers p") auto
    then have "n \<le> pl_next p" "mset (map fst (pl_received p)) = mset [0..<n]"
      using ok f e by (auto simp: pool_ok_def pool_finished_def min_def)
    then show ?thesis by (metis mset_eq_setD set_upt)
  qed
  moreover have "\<forall>x \<in> set (pl_received p). outcome (fst x) (snd x)" using ok by (auto simp: pool_ok_def split_def)
  moreover have "fst x < n" if "x \<in> set (pl_received p)" for x using i that by auto
  ultimately show ?thesis using d by (auto simp: split_def)
qed

subsection \<open>The pool comes to an end\<close>

fun worker_left :: "worker \<Rightarrow> nat" where
  "worker_left Ready = 1"
| "worker_left (Decoding i) = 4"
| "worker_left (Sending m) = 3"
| "worker_left Stopped = 0"

definition pool_left :: "nat \<Rightarrow> pool \<Rightarrow> nat" where
  "pool_left n p = 4 * (n - pl_next p) + sum_list (map worker_left (pl_workers p)) + length (pl_queue p)
     + (if pl_open p then 1 else 0) + (if pl_cancelled p then 0 else 1)"

lemma worker_left_update:
  "k < length ws \<Longrightarrow> sum_list (map worker_left (ws[k := x])) + worker_left (ws ! k) = sum_list (map worker_left ws) + worker_left x"
proof (induction ws arbitrary: k)
  case (Cons a ws)
  then show ?case by (cases k) auto
qed simp

lemma pool_step_left:
  assumes "pool_step n outcome p q"
  shows "pool_left n q < pool_left n p"
  using assms
proof (induction rule: pool_step.cases)
  case (claim k p)
  then show ?case using worker_left_update [of k "pl_workers p" "Decoding (pl_next p)"] by (simp add: pool_left_def)
next
  case (exhausted k p)
  then show ?case using worker_left_update [of k "pl_workers p" Stopped] by (simp add: pool_left_def)
next
  case (cancelled_worker k p)
  then show ?case using worker_left_update [of k "pl_workers p" Stopped] by (simp add: pool_left_def)
next
  case (decoded k p i r)
  then show ?case using worker_left_update [of k "pl_workers p" "Sending (i, r)"] by (simp add: pool_left_def)
next
  case (sent k p m)
  then show ?case using worker_left_update [of k "pl_workers p" Ready] by (simp add: pool_left_def)
next
  case (refused k p m)
  then show ?case using worker_left_update [of k "pl_workers p" Stopped] by (simp add: pool_left_def)
qed (simp_all add: pool_left_def)

lemma pool_steps_left: "(pool_step n outcome ^^ m) p q \<Longrightarrow> m + pool_left n q \<le> pool_left n p"
proof (induction m arbitrary: q)
  case (Suc m)
  then obtain r where "(pool_step n outcome ^^ m) p r" "pool_step n outcome r q" by auto
  with Suc.IH [of r] pool_step_left [of n outcome r q] show ?case by simp
qed simp

lemma pool_start_left: "pool_left n (pool_start k) = 4 * n + k + 2"
proof -
  have "sum_list (map worker_left (replicate k Ready)) = k" by (induction k) auto
  then show ?thesis by (simp add: pool_left_def pool_start_def)
qed

text \<open>C20. The workers always come to an end: a run has at most \<open>4 n + workers + 2\<close> steps, and as long as
  decoding a resource returns, a run that has not ended has a step other than a cancellation, so no
  thread waits for ever on the full channel.\<close>

theorem pool_always_finishes:
  assumes "(pool_step n outcome ^^ m) (pool_start k) p"
    and "\<And>i. i < n \<Longrightarrow> \<exists>r. outcome i r"
  shows "m \<le> 4 * n + k + 2
    \<and> (pool_finished p \<or> (\<exists>q. pool_step n outcome p q \<and> pl_cancelled q = pl_cancelled p))"
proof -
  have ok: "pool_ok n outcome p"
    using pool_ok_run [OF relpowp_imp_rtranclp [OF assms(1)] pool_ok_start] .
  have "\<exists>q. pool_step n outcome p q \<and> pl_cancelled q = pl_cancelled p" if nf: "\<not> pool_finished p"
  proof (cases "pl_queue p = [] \<or> \<not> pl_open p")
    case False
    then obtain a q where "pl_queue p = a # q" "pl_open p" by (cases "pl_queue p") auto
    from received [OF this] show ?thesis by fastforce
  next
    case True
    with nf obtain j where j: "j < length (pl_workers p)" "pl_workers p ! j \<noteq> Stopped"
      by (auto simp: pool_finished_def list_all_length)
    show ?thesis
    proof (cases "pl_workers p ! j")
      case Ready
      consider "pl_cancelled p" | "\<not> pl_cancelled p" "pl_next p < n" | "\<not> pl_cancelled p" "n \<le> pl_next p" by linarith
      then show ?thesis
      proof cases
        case 1
        from cancelled_worker [OF j(1) Ready this, of n outcome] show ?thesis by fastforce
      next
        case 2
        from claim [OF j(1) Ready this, of outcome] show ?thesis by fastforce
      next
        case 3
        from exhausted [OF j(1) Ready this, of outcome] show ?thesis by fastforce
      qed
    next
      case (Decoding i)
      have "in_workers (pl_workers p) = add_mset i (in_workers ((pl_workers p)[j := Stopped]))"
        using j(1) Decoding in_workers_update [of j "pl_workers p" Stopped] by simp
      then have "i \<in># in_workers (pl_workers p)" by simp
      moreover have "in_workers (pl_workers p) \<subseteq># mset [0..<min (pl_next p) n]"
        using ok mset_subset_eq_add_right [of "in_workers (pl_workers p)" "mset (map fst (pl_received p @ pl_queue p))"]
        unfolding pool_ok_def by (blast intro: subset_mset.trans)
      ultimately have "i \<in># mset [0..<min (pl_next p) n]" using mset_subset_eqD by metis
      then have "i < n" by simp
      with assms(2) obtain r where "outcome i r" by blast
      from decoded [where outcome = outcome and n = n, OF j(1) Decoding this] show ?thesis by fastforce
    next
      case (Sending a)
      show ?thesis
      proof (cases "pl_open p")
        case False
        from refused [OF j(1) Sending this, of n outcome] show ?thesis by fastforce
      next
        case o': True
        have "length (pl_queue p) < length (pl_workers p)" using True o' j(1) by auto
        from sent [OF j(1) Sending o' this, of n outcome] show ?thesis by fastforce
      qed
    qed (use j in simp)
  qed
  with pool_steps_left [OF assms(1)] show ?thesis by (auto simp: pool_start_left)
qed

subsection \<open>An example\<close>

text \<open>One worker and one resource.\<close>

definition only_report :: resource_report where
  "only_report = \<lparr>cache_hit = False, res_source = ''s'', output_directory = ''00000'', source_sha256 = [], res_objects = 0,
     selected_objects = 0, skipped_objects = 0, res_outputs = [], res_errors = []\<rparr>"

definition only_pool :: "nat \<Rightarrow> worker \<Rightarrow> message list \<Rightarrow> message list \<Rightarrow> pool" where
  "only_pool i x q rs = \<lparr>pl_next = i, pl_workers = [x], pl_queue = q, pl_received = rs, pl_open = True, pl_cancelled = False\<rparr>"

lemma only_steps:
  "pool_step 1 (\<lambda>i r. r = only_report) (pool_start 1) (only_pool 1 (Decoding 0) [] [])"
  "pool_step 1 (\<lambda>i r. r = only_report) (only_pool 1 (Decoding 0) [] []) (only_pool 1 (Sending (0, only_report)) [] [])"
  "pool_step 1 (\<lambda>i r. r = only_report) (only_pool 1 (Sending (0, only_report)) [] []) (only_pool 1 Ready [(0, only_report)] [])"
  "pool_step 1 (\<lambda>i r. r = only_report) (only_pool 1 Ready [(0, only_report)] []) (only_pool 1 Ready [] [(0, only_report)])"
  "pool_step 1 (\<lambda>i r. r = only_report) (only_pool 1 Ready [] [(0, only_report)]) (only_pool 2 Stopped [] [(0, only_report)])"
  using pool_step.claim [of 0 "pool_start 1" 1 "\<lambda>i r. r = only_report"]
    pool_step.decoded [of 0 "only_pool 1 (Decoding 0) [] []" 0 "\<lambda>i r. r = only_report" only_report 1]
    pool_step.sent [of 0 "only_pool 1 (Sending (0, only_report)) [] []" "(0, only_report)" 1 "\<lambda>i r. r = only_report"]
    pool_step.received [of "only_pool 1 Ready [(0, only_report)] []" "(0, only_report)" "[]" 1 "\<lambda>i r. r = only_report"]
    pool_step.exhausted [of 0 "only_pool 1 Ready [] [(0, only_report)]" 1 "\<lambda>i r. r = only_report"]
  by (simp_all add: pool_start_def only_pool_def set_worker_def numeral_2_eq_2)

theorem every_resource_reported_once_witness:
  "pool_run 1 (\<lambda>i r. r = only_report) (pool_start 1) (only_pool 2 Stopped [] [(0, only_report)])
   \<and> set (map fst (pl_received (only_pool 2 Stopped [] [(0, only_report)]))) = {0..<1}"
proof -
  have run: "pool_run 1 (\<lambda>i r. r = only_report) (pool_start 1) (only_pool 2 Stopped [] [(0, only_report)])"
    using only_steps by (meson rtranclp.rtrancl_into_rtrancl rtranclp.rtrancl_refl)
  have "pool_finished (only_pool 2 Stopped [] [(0, only_report)]) \<and> pl_open (only_pool 2 Stopped [] [(0, only_report)])
      \<and> \<not> pl_cancelled (only_pool 2 Stopped [] [(0, only_report)])"
    by (simp add: pool_finished_def only_pool_def)
  with every_resource_reported_once [OF run] run show ?thesis by simp
qed

theorem pool_always_finishes_witness:
  "\<exists>q. pool_step 1 (\<lambda>i r. r = only_report) (only_pool 1 (Decoding 0) [] []) q
     \<and> pl_cancelled q = pl_cancelled (only_pool 1 (Decoding 0) [] [])"
proof -
  have "(pool_step 1 (\<lambda>i r. r = only_report) ^^ 1) (pool_start 1) (only_pool 1 (Decoding 0) [] [])"
    using only_steps(1) by (simp add: eq_OO)
  moreover have "\<not> pool_finished (only_pool 1 (Decoding 0) [] [])" by (simp add: pool_finished_def only_pool_def)
  ultimately show ?thesis
    using pool_always_finishes [where n = 1 and m = 1 and k = 1 and outcome = "\<lambda>i r. r = only_report"
        and p = "only_pool 1 (Decoding 0) [] []"] by blast
qed

end
