(* ===== verification/Spec2Isabelle.thy ===== *)
theory Spec2Isabelle
  imports Region App_Log Snapshot Catalog_Select Asset_Plan Bundle_Crypt Download_Cache Update_Run Publication Job_Ledger
    Admission Cpu_Sampler Output_Policy Config_Source Storage_Credentials Export_Verified Export_Books Service_Workers
    Media_Container Media_Audio Worker_Pool
begin

text \<open>
  The Sirius asset updater downloads the assets of a game release, verifies them, decodes them and
  publishes the result. This development translates its Rust sources (\<open>src/*.rs\<close>) into executable
  definitions and proves what the parts promise to each other. The names of the sources are kept
  where Isabelle allows it; every theory names the files and functions it models.

  How the program's parts interact. A run (\<open>fetch\<close>, \<open>download\<close> of \<open>lib.rs\<close>) reads a version snapshot
  (\<open>readiness.rs\<close>), derives from it and from the configuration the URLs of one catalog, downloads and
  parses the catalog (\<open>catalog.rs\<close>), selects locations and plans the files they need (\<open>assets.rs\<close>),
  downloads, decrypts and caches them (\<open>update.rs\<close>, \<open>cache.rs\<close>), and makes everything visible by one
  rename together with a receipt, which \<open>verify.rs\<close> can check offline at any time. An export
  (\<open>export.rs\<close>) decodes the files of a verified directory with a pool of workers, through a cache
  (\<open>export_cache.rs\<close>) and under limits of memory, processors and processes (\<open>resource_budget.rs\<close>,
  \<open>media_gate.rs\<close>, \<open>stage_limits.rs\<close>, \<open>cpu_policy.rs\<close>, \<open>cpu_throttle.rs\<close>); it is verified
  (\<open>export_verify.rs\<close>), named (\<open>stable_layout.rs\<close>) and published to object stores (\<open>storage.rs\<close>). The
  service (\<open>service.rs\<close>) runs these phases as jobs of a durable ledger (\<open>jobs.rs\<close>) and reports their
  completion (\<open>completion_notify.rs\<close>).

  The shared vocabulary: \<open>Prelude\<close> (results as sums, options, strings as UTF-8 bytes, ordered maps),
  \<open>Errors\<close> (\<open>Error\<close>), \<open>Environment\<close> (secrets, URLs, regular expressions, numbers), \<open>File_Tree\<close>
  (directories as trees), \<open>Worklist\<close> (the loops over a worklist). A fallible operation returns
  \<open>error + 'a\<close>; an operation with effects takes its state and returns it, also when it fails. What the
  network, the disk, the clock and third-party libraries do enters as an argument: a function or a
  record of functions, which a witness instantiates with a concrete one.

  Downloading. \<open>Region\<close>, \<open>Configuration\<close>, \<open>Network\<close>, \<open>Safe_Paths\<close> and \<open>Snapshot\<close> model the settings,
  the retry loops, the path checks and the step from an accepted snapshot to its URLs: those of the
  configured region, at exact segments below a configured root. \<open>Catalog_Reader\<close>, \<open>Catalog_Parse\<close> and \<open>Catalog_Select\<close> model the binary catalog; parsing yields
  exactly the locations reachable from the key table, a selection is a dependency closure.
  \<open>Asset_Plan\<close> shows that planned paths can be deployed and that every location is accounted for.
  \<open>Bounded_Transfer\<close>, \<open>Bundle_Crypt\<close>, \<open>Download_Cache\<close>, \<open>Asset_Worker\<close> and \<open>Update_Run\<close> model one
  asset and the update loop: it ends within the byte budget, and its receipt describes the stage.
  \<open>Verify\<close> proves that a verified directory holds what its receipt records, \<open>Publication\<close> that what
  a successful run publishes passes verification, given paths, a receipt and a catalog within the limits
  of verification and no download cache.

  Exporting. \<open>Output_Policy\<close> and \<open>Export_Config\<close> hold the settings, \<open>Admission\<close> and \<open>Cpu_Sampler\<close> the
  limits. \<open>Worker_Pool\<close> models the threads of \<open>execute\<close> as interleaved steps over the shared counter
  and the bounded channel: every resource is reported once, also when a journal write or the summary of
  a report fails, and the pool always finishes.
  \<open>Media_Format\<close> models the formats the export reads itself (WAV, USM, ADX), \<open>Media_Process\<close> one FFmpeg
  process, its retries under one deadline and the choice between the encoder library and the command
  line, \<open>Media_Json\<close> the documents, \<open>Media_Output\<close> the recording of outputs and the audio and video
  formats, \<open>Media_Container\<close> the ACB and USM containers; \<open>Media_Audio\<close> states what the audio steps
  guarantee. A step there is given the files, the clock and the report and returns them; the
  relation \<open>grows\<close> (outputs only appended, within the limit) is kept by every step.
  \<open>Export_Cache\<close> and \<open>Export_Cached\<close> model the cache of decoded resources, which evicts the least
  recently used entries: decoding through it refines decoding. \<open>Export_Books\<close> compares its account with
  its directory: both stay within the budget, and they agree while nothing failed or interfered.
  \<open>Export_Check\<close> and \<open>Export_Verified\<close> model the verification of an export: the inventory it leaves is
  exactly what the journal records and the directory holds, and the totals are the journal's.

  Publishing. \<open>Stable_Names\<close>, \<open>Stable_Layout\<close> and \<open>Stable_Plan\<close> model the readable keys and their
  collisions: every key is served, at itself or at the first numbered variant free of other content; \<open>Storage_Config\<close>, \<open>Storage_Credentials\<close>, \<open>Object_Store\<close>, \<open>Stable_Publish\<close>, \<open>Storage_Run\<close>
  and \<open>Stable_State\<close> the providers, the uploads with their checks, and both layouts: a completion
  marker is present only beside a complete release, and a successful publication installs exactly
  the planned one.

  Serving. \<open>Job_Store\<close>, \<open>Job_Invariant\<close> and \<open>Job_Ledger\<close> model the ledger as a state machine with
  its invariant over every reachable store; a restart fails the interrupted jobs and keeps the rest. \<open>Completion_Notify\<close>,
  \<open>Notice_Delivery\<close>, \<open>Service_Api\<close>, \<open>Service_Requests\<close>, \<open>Service_Pipeline\<close> and \<open>Service_Workers\<close> model the
  requests, which refine the client steps of the ledger, the phases of a job, where each one uses what
  the one before verified, and the workers.
  \<open>Config_Override\<close> and \<open>Config_Source\<close> model where the configuration comes from, \<open>Access_Log\<close> and
  \<open>App_Log\<close> the two logs.

  Interfaces. \<open>closure_loop\<close> (\<open>Worklist\<close>) is the contract of a worklist and is interpreted on the
  parser, the selection and the walk over processes; \<open>path_guard\<close> (\<open>Safe_Paths\<close>) on the four path
  checks; \<open>admission\<close> (\<open>Admission\<close>) on the byte budget and the gate; \<open>atomic_operation\<close>
  (\<open>Job_Ledger\<close>) on the operations of the job store; \<open>store_attempt\<close> (\<open>Object_Store\<close>) on the two ways to
  write an object; \<open>step_order\<close> (\<open>Media_Output\<close>) on \<open>grows\<close>.

  Bounds, fuel and termination. Every loop is a total function with a measure, but for two partial
  functions, whose value \<open>None\<close> means that the loop does not end: \<open>claim_loop\<close> (the search for a free
  key, proved to end on every input) and \<open>update_loop\<close> (which makes no progress with zero workers;
  proved to end for every configuration that validates). No fuel is used. Numbers the source adds
  with a check keep the check; numbers that cannot overflow, for a reason given where they occur, are
  natural numbers; the others are words. Concurrency is a sequence of steps in \<open>Admission\<close>,
  \<open>Worker_Pool\<close>, \<open>Job_Invariant\<close> and \<open>Service_Workers\<close>; the workers of an update batch and the uploads
  of a publication touch different files and run one after another. Waiting for a gate or a child
  process is a loop over a clock that advances by the polling interval until a deadline.

  Not modelled. The Unity objects of an export (\<open>unity\<close> in \<open>export.rs\<close>), the copy of a raw bundle and
  the assembly of a resource's directory (\<open>process_resource\<close>, \<open>copy_raw_bundle\<close>) are left out: of the
  worker's decoding the pool knows only which reports a resource can have. The bindings of the encoder
  library (\<open>media_ffi.rs\<close>) are calls of foreign functions; here the conversion is an argument with the
  outcomes the caller distinguishes. The decoders of Unity and CRI files, AES, SHA-256, the JSON, YAML, URL
  and regular-expression libraries and the HTTP and object-store clients are third-party code and
  arguments. Building HTTP clients, sockets and TLS (\<open>server.rs\<close>), signals, reading \<open>/proc\<close>, the writers
  of the logs, progress reports and the dispatch of commands (\<open>main.rs\<close>) are input and output.
\<close>

end
